(* ===== verification/Prelude.thy ===== *)
theory Prelude
  imports Main "HOL-Library.Char_ord" "HOL-Library.List_Lexorder" "HOL-Library.Multiset"
begin

text \<open>
  Shared vocabulary of the development: the exceptions of the program as one
  datatype, results as a sum type, Python's stable minimum and maximum with a
  key, insertion ordered dictionaries (as association lists), and the generic
  lemmas on lists the component theories use.
\<close>

section \<open>Lemma collections\<close>

named_theorems res_iff
named_theorems res_simps
named_theorems ledger_simps
named_theorems ledger_intros
named_theorems text_simps

section \<open>Errors and results\<close>

text \<open>One constructor per exception class the modelled code raises or lets
  escape. Messages are not modelled.\<close>

datatype error =
    ValueError
  | TypeError
  | KeyError
  | IndexError
  | InvalidOperation
  | ZeroDivision
  | OverflowErr
  | IntegrityError
  | SetBasedExactError
  | UnknownCurrencyError
  | NormalisationError
  | ValidationError
  | ClaimConflictError
  | AuditError
  | AuditTimestampError
  | MT940ParseError
  | ConfigError
  | ConfigNotFoundError
  | MatchNotFoundError
  | MatchNotPendingError
  | ReviewStateError
  | TransactionNotFoundError
  | InvalidPairError
  | TransactionUnavailableError
  | MatchNotUnmatchableError
  | LookupFailed
  | NotAutoResolvableError string
  | IdempotencyConflictError
  | RunAlreadyActiveError
  | RunStateError
  | TimestampNormalisationError
  | DirectionNormalisationError
  | CurrencyNormalisationError
  | AmountNormalisationError
  | DataError
  | CSVParseError
  | MT940LexError
  | Field61ParseError
  | CAMT053ParseError
  | FormatChangeDetectedError
  | UnsupportedFormatError
  | DuplicateFileError
  | AnomalyConfigError
  | AssertionErr
  | OSErr
  | UnicodeDecodeErr
  | DuplicateBankCodeError
  | HttpError nat

type_synonym 'a res = "error + 'a"

definition is_ok :: "'a res \<Rightarrow> bool" where
  "is_ok r = (case r of Inl _ \<Rightarrow> False | Inr _ \<Rightarrow> True)"

lemma is_ok_simps [simp, res_simps]: "is_ok (Inr x)" "\<not> is_ok (Inl e)"
  by (simp_all add: is_ok_def)

lemma is_ok_iff: "is_ok r \<longleftrightarrow> (\<exists>x. r = Inr x)"
  by (cases r) auto

text \<open>Sequencing: the second operation runs on the first one's result, an error
  ends both. \<open>res_iff\<close> collects the equivalences that take a successful
  sequence apart.\<close>

definition bind_res :: "'a res \<Rightarrow> ('a \<Rightarrow> 'b res) \<Rightarrow> 'b res" where
  "bind_res m f = (case m of Inl e \<Rightarrow> Inl e | Inr x \<Rightarrow> f x)"

definition guard_res :: "bool \<Rightarrow> error \<Rightarrow> unit res" where
  "guard_res b e = (if b then Inr () else Inl e)"

lemma bind_res_simps [simp, res_simps]: "bind_res (Inl e) f = Inl e" "bind_res (Inr x) f = f x"
  by (simp_all add: bind_res_def)

lemma bind_res_iff [res_iff]: "bind_res m f = Inr y \<longleftrightarrow> (\<exists>x. m = Inr x \<and> f x = Inr y)"
  by (cases m) simp_all

lemma guard_res_iff [res_iff]: "guard_res b e = Inr u \<longleftrightarrow> b"
  by (simp add: guard_res_def)

lemma bind_res_Inl [res_iff]: "bind_res m f = Inl e \<longleftrightarrow> m = Inl e \<or> (\<exists>x. m = Inr x \<and> f x = Inl e)"
  by (cases m) simp_all

lemma guard_res_Inl [res_iff]: "guard_res b e = Inl e' \<longleftrightarrow> \<not> b \<and> e' = e"
  by (auto simp: guard_res_def)

text \<open>Runs the operation over the elements in order and stops at the first
  error (a \<open>for\<close> loop whose body may raise).\<close>

fun res_map :: "('a \<Rightarrow> 'b res) \<Rightarrow> 'a list \<Rightarrow> 'b list res" where
  "res_map f [] = Inr []"
| "res_map f (x # xs) =
     (case f x of Inl e \<Rightarrow> Inl e
      | Inr y \<Rightarrow> (case res_map f xs of Inl e \<Rightarrow> Inl e | Inr ys \<Rightarrow> Inr (y # ys)))"

lemma res_map_ok: "(\<And>x. x \<in> set xs \<Longrightarrow> f x = Inr (g x)) \<Longrightarrow> res_map f xs = Inr (map g xs)"
  by (induction xs) auto

lemma res_map_length: "res_map f xs = Inr ys \<Longrightarrow> length ys = length xs"
  by (induction xs arbitrary: ys) (auto split: sum.splits)

lemma res_map_nth: "\<lbrakk>res_map f xs = Inr ys; i < length xs\<rbrakk> \<Longrightarrow> f (xs ! i) = Inr (ys ! i)"
  by (induction xs arbitrary: ys i) (auto split: sum.splits simp: nth_Cons split: nat.splits)

text \<open>A loop over the elements that updates a state; the first error ends it.\<close>

fun loop_res :: "('a \<Rightarrow> 's \<Rightarrow> 's res) \<Rightarrow> 'a list \<Rightarrow> 's \<Rightarrow> 's res" where
  "loop_res f [] s = Inr s"
| "loop_res f (x # xs) s = bind_res (f x s) (loop_res f xs)"

lemma loop_res_append: "loop_res f (xs @ ys) s = bind_res (loop_res f xs s) (loop_res f ys)"
  by (induction xs arbitrary: s) (auto simp: bind_res_def split: sum.splits)

section \<open>Python's min, max and sum with a key\<close>

text \<open>\<open>min(xs, key=k)\<close> returns the first element whose key is minimal,
  \<open>max(xs, key=k)\<close> the first whose key is maximal.\<close>

fun first_min :: "('a \<Rightarrow> 'k::linorder) \<Rightarrow> 'a list \<Rightarrow> 'a option" where
  "first_min k [] = None"
| "first_min k (x # xs) = Some (fold (\<lambda>y b. if k y < k b then y else b) xs x)"

fun first_max :: "('a \<Rightarrow> 'k::linorder) \<Rightarrow> 'a list \<Rightarrow> 'a option" where
  "first_max k [] = None"
| "first_max k (x # xs) = Some (fold (\<lambda>y b. if k b < k y then y else b) xs x)"

lemma fold_min_in: "fold (\<lambda>y b. if k y < k b then y else b) xs x \<in> insert x (set xs)"
proof (induction xs arbitrary: x)
  case (Cons a xs)
  show ?case using Cons[of a] Cons[of x] by auto
qed simp

lemma fold_min_le:
  "y \<in> insert x (set xs) \<Longrightarrow>
   k (fold (\<lambda>y b. if k y < k b then y else b) xs x) \<le> (k y :: 'k::linorder)"
proof (induction xs arbitrary: x y)
  case Nil then show ?case by simp
next
  case (Cons a xs)
  let ?z = "if k a < k x then a else x"
  have z: "k (fold (\<lambda>y b. if k y < k b then y else b) xs ?z) \<le> k ?z"
    using Cons.IH[of ?z ?z] by blast
  have za: "k ?z \<le> k a" and zx: "k ?z \<le> k x" by auto
  consider "y = x" | "y = a" | "y \<in> set xs" using Cons.prems by auto
  then show ?case
  proof cases
    case 1 then show ?thesis using order_trans[OF z zx] by simp
  next
    case 2 then show ?thesis using order_trans[OF z za] by simp
  next
    case 3 then show ?thesis using Cons.IH[of y ?z] by simp
  qed
qed

lemma fold_max_in: "fold (\<lambda>y b. if k b < k y then y else b) xs x \<in> insert x (set xs)"
proof (induction xs arbitrary: x)
  case (Cons a xs)
  show ?case using Cons[of a] Cons[of x] by auto
qed simp

lemma fold_max_ge:
  "y \<in> insert x (set xs) \<Longrightarrow>
   (k y :: 'k::linorder) \<le> k (fold (\<lambda>y b. if k b < k y then y else b) xs x)"
proof (induction xs arbitrary: x y)
  case Nil then show ?case by simp
next
  case (Cons a xs)
  let ?z = "if k x < k a then a else x"
  have z: "k ?z \<le> k (fold (\<lambda>y b. if k b < k y then y else b) xs ?z)"
    using Cons.IH[of ?z ?z] by blast
  have za: "k a \<le> k ?z" and zx: "k x \<le> k ?z" by auto
  consider "y = x" | "y = a" | "y \<in> set xs" using Cons.prems by auto
  then show ?case
  proof cases
    case 1 then show ?thesis using order_trans[OF zx z] by simp
  next
    case 2 then show ?thesis using order_trans[OF za z] by simp
  next
    case 3 then show ?thesis using Cons.IH[of y ?z] by simp
  qed
qed

lemma first_min_None [simp]: "first_min k xs = None \<longleftrightarrow> xs = []"
  by (cases xs) auto

lemma first_min_in: "first_min k xs = Some y \<Longrightarrow> y \<in> set xs"
  by (cases xs) (use fold_min_in in force)+

lemma first_min_le: "\<lbrakk>first_min k xs = Some y; z \<in> set xs\<rbrakk> \<Longrightarrow> k y \<le> k z"
  by (cases xs) (auto simp del: fold.simps intro: fold_min_le)

lemma first_max_None [simp]: "first_max k xs = None \<longleftrightarrow> xs = []"
  by (cases xs) auto

lemma first_max_in: "first_max k xs = Some y \<Longrightarrow> y \<in> set xs"
  by (cases xs) (use fold_max_in in force)+

lemma first_max_ge: "\<lbrakk>first_max k xs = Some y; z \<in> set xs\<rbrakk> \<Longrightarrow> k z \<le> k y"
  by (cases xs) (auto simp del: fold.simps intro: fold_max_ge)

section \<open>Insertion ordered dictionaries\<close>

text \<open>A Python \<open>dict\<close> is an association list in insertion order: storing
  under a present key replaces the value in place, a new key goes to the end.\<close>

fun dict_put :: "'k \<Rightarrow> 'v \<Rightarrow> ('k \<times> 'v) list \<Rightarrow> ('k \<times> 'v) list" where
  "dict_put k v [] = [(k, v)]"
| "dict_put k v ((k', v') # d) = (if k = k' then (k, v) # d else (k', v') # dict_put k v d)"

definition dict_get :: "'v \<Rightarrow> 'k \<Rightarrow> ('k \<times> 'v) list \<Rightarrow> 'v" where
  "dict_get dflt k d = (case map_of d k of None \<Rightarrow> dflt | Some v \<Rightarrow> v)"

lemma map_of_dict_put [simp]: "map_of (dict_put k v d) = (map_of d)(k \<mapsto> v)"
  by (induction k v d rule: dict_put.induct) auto

lemma dict_put_keys: "set (map fst (dict_put k v d)) = insert k (set (map fst d))"
  by (induction k v d rule: dict_put.induct) auto

lemma distinct_dict_put: "distinct (map fst d) \<Longrightarrow> distinct (map fst (dict_put k v d))"
proof (induction k v d rule: dict_put.induct)
  case (2 k v k' v' d)
  have "fst ` set (dict_put k v d) = insert k (fst ` set d)" using dict_put_keys[of k v d] by simp
  then show ?case using 2 by auto
qed simp

lemma dict_get_put: "dict_get dflt j (dict_put k v d) = (if j = k then v else dict_get dflt j d)"
  by (simp add: dict_get_def)

text \<open>\<open>index.setdefault(f(x), []).append(x)\<close> for every element in turn.\<close>

definition group_by :: "('a \<Rightarrow> 'k) \<Rightarrow> 'a list \<Rightarrow> ('k \<times> 'a list) list" where
  "group_by f xs = fold (\<lambda>x d. dict_put (f x) (dict_get [] (f x) d @ [x]) d) xs []"

lemma fold_group_get:
  "dict_get [] k (fold (\<lambda>x d. dict_put (f x) (dict_get [] (f x) d @ [x]) d) xs d)
   = dict_get [] k d @ filter (\<lambda>x. f x = k) xs"
  by (induction xs arbitrary: d) (auto simp: dict_get_put)

lemma group_by_get [simp]: "dict_get [] k (group_by f xs) = filter (\<lambda>x. f x = k) xs"
  by (simp add: group_by_def fold_group_get) (simp add: dict_get_def)

lemma fold_group_distinct:
  "distinct (map fst d) \<Longrightarrow>
   distinct (map fst (fold (\<lambda>x d. dict_put (f x) (dict_get [] (f x) d @ [x]) d) xs d))"
  by (induction xs arbitrary: d) (auto intro: distinct_dict_put)

lemma group_by_distinct: "distinct (map fst (group_by f xs))"
  by (simp add: group_by_def fold_group_distinct)

lemma fold_group_keys:
  "set (map fst (fold (\<lambda>x d. dict_put (f x) (dict_get [] (f x) d @ [x]) d) xs d))
   = set (map fst d) \<union> f ` set xs"
  by (induction xs arbitrary: d) (simp, simp only: fold.simps o_apply dict_put_keys, auto)

lemma group_by_keys: "fst ` set (group_by f xs) = f ` set xs"
  using fold_group_keys[of f xs "[]"] by (simp add: group_by_def)

lemma group_by_entry:
  assumes "(k, ys) \<in> set (group_by f xs)"
  shows "ys = filter (\<lambda>x. f x = k) xs"
proof -
  have "map_of (group_by f xs) k = Some ys"
    using assms group_by_distinct[of f xs] by (simp add: map_of_is_SomeI)
  then have "dict_get [] k (group_by f xs) = ys" by (simp add: dict_get_def)
  then show ?thesis by simp
qed

section \<open>Lists\<close>

lemma distinct_map_inj: "\<lbrakk>distinct (map f xs); x \<in> set xs; y \<in> set xs; f x = f y\<rbrakk> \<Longrightarrow> x = y"
  by (meson distinct_map inj_onD)

lemma sum_list_ge_member: "(\<forall>x\<in>set xs. (0::int) \<le> f x) \<Longrightarrow> x \<in> set xs \<Longrightarrow> f x \<le> sum_list (map f xs)"
proof (induction xs)
  case (Cons a xs)
  have "0 \<le> sum_list (map f xs)" using Cons.prems by (intro sum_list_nonneg) auto
  then show ?case using Cons by auto
qed simp

end
