(* ===== verification/PyText.thy ===== *)
theory PyText
  imports Prelude
begin

text \<open>
  Python's string operations on ASCII text. A \<open>str\<close> is a list of characters
  (HOL's \<open>char\<close>, an 8 bit code), so the model covers text whose characters
  are ASCII; the whitespace set, the case mapping and the digit test are those
  of \<open>str.strip\<close>, \<open>str.upper\<close> and \<open>str.isdigit\<close> on that range.
\<close>

section \<open>Character classes\<close>

definition code :: "char \<Rightarrow> nat" where
  "code c = of_char c"

definition is_space :: "char \<Rightarrow> bool" where
  "is_space c = (9 \<le> code c \<and> code c \<le> 13 \<or> 28 \<le> code c \<and> code c \<le> 32)"

definition is_digit :: "char \<Rightarrow> bool" where
  "is_digit c = (48 \<le> code c \<and> code c \<le> 57)"

definition is_upper :: "char \<Rightarrow> bool" where
  "is_upper c = (65 \<le> code c \<and> code c \<le> 90)"

definition is_lower :: "char \<Rightarrow> bool" where
  "is_lower c = (97 \<le> code c \<and> code c \<le> 122)"

definition is_alpha :: "char \<Rightarrow> bool" where
  "is_alpha c = (is_upper c \<or> is_lower c)"

definition digit_of :: "char \<Rightarrow> nat" where
  "digit_of c = code c - 48"

definition upper_char :: "char \<Rightarrow> char" where
  "upper_char c = (if is_lower c then char_of (code c - 32) else c)"

definition lower_char :: "char \<Rightarrow> char" where
  "lower_char c = (if is_upper c then char_of (code c + 32) else c)"

lemma code_char_of [simp]: "n < 256 \<Longrightarrow> code (char_of n) = n"
  by (simp add: code_def)

lemma code_less: "code c < 256"
  unfolding code_def using of_char_mod_256[of c, where ?'a = nat] mod_less_divisor[of 256 "of_char c"]
  by simp

lemma code_eq_iff: "code c = code d \<longleftrightarrow> c = d"
  by (simp add: code_def)

lemma code_upper: "code (upper_char c) = (if is_lower c then code c - 32 else code c)"
  by (auto simp: upper_char_def is_lower_def)

lemma code_lower: "code (lower_char c) = (if is_upper c then code c + 32 else code c)"
  by (auto simp: lower_char_def is_upper_def)

lemma upper_char_idem [simp]: "upper_char (upper_char c) = upper_char c"
proof (subst code_eq_iff[symmetric])
  show "code (upper_char (upper_char c)) = code (upper_char c)"
    using code_upper[of c] code_upper[of "upper_char c"] unfolding is_lower_def
    by (simp split: if_splits; linarith)
qed

section \<open>Case, stripping, searching\<close>

definition to_upper :: "string \<Rightarrow> string" where
  "to_upper s = map upper_char s"

definition to_lower :: "string \<Rightarrow> string" where
  "to_lower s = map lower_char s"

definition lstrip :: "string \<Rightarrow> string" where
  "lstrip s = dropWhile is_space s"

definition rstrip :: "string \<Rightarrow> string" where
  "rstrip s = rev (dropWhile is_space (rev s))"

definition strip :: "string \<Rightarrow> string" where
  "strip s = rstrip (lstrip s)"

definition starts_with :: "string \<Rightarrow> string \<Rightarrow> bool" where
  "starts_with p s = (take (length p) s = p)"

lemma to_upper_idem [simp]: "to_upper (to_upper s) = to_upper s"
  by (simp add: to_upper_def)

lemma length_to_upper [simp]: "length (to_upper s) = length s"
  by (simp add: to_upper_def)

lemma dropWhile_idem: "dropWhile P (dropWhile P xs) = dropWhile P xs"
  by (induction xs) auto

lemma rstrip_snoc: "rstrip (s @ [c]) = (if is_space c then rstrip s else s @ [c])"
  by (simp add: rstrip_def)

lemma rstrip_idem [simp]: "rstrip (rstrip s) = rstrip s"
  by (simp add: rstrip_def dropWhile_idem)

lemma lstrip_rstrip: "lstrip (rstrip s) = rstrip (lstrip s)"
proof (induction s rule: rev_induct)
  case Nil then show ?case by (simp add: lstrip_def rstrip_def)
next
  case (snoc c s)
  show ?case
  proof (cases "\<forall>x \<in> set s. is_space x")
    case True
    then have d: "dropWhile is_space s = []" "dropWhile is_space (rev s) = []" by simp_all
    then have "dropWhile is_space (s @ [c]) = (if is_space c then [] else [c])"
      using True by (simp add: dropWhile_append)
    moreover have "rstrip s = []" using d by (simp add: rstrip_def)
    ultimately show ?thesis using d by (auto simp: rstrip_snoc lstrip_def rstrip_def[of "[_]"] rstrip_def[of "[]"])
  next
    case False
    then have "lstrip (s @ [c]) = lstrip s @ [c]"
      by (auto simp: lstrip_def dropWhile_append)
    then show ?thesis using snoc by (auto simp: rstrip_snoc)
  qed
qed

lemma strip_idem [simp]: "strip (strip s) = strip s"
  by (simp add: strip_def lstrip_rstrip) (simp add: lstrip_def dropWhile_idem)

lemma strip_Nil [simp]: "strip [] = []"
  by (simp add: strip_def lstrip_def rstrip_def)

lemma strip_nonspace_ends:
  assumes "s \<noteq> []" "\<not> is_space (hd s)" "\<not> is_space (last s)"
  shows "strip s = s"
proof -
  have "lstrip s = s" using assms by (cases s) (auto simp: lstrip_def)
  moreover have "rstrip s = s" using assms by (cases s rule: rev_cases) (auto simp: rstrip_snoc)
  ultimately show ?thesis by (simp add: strip_def)
qed

section \<open>Digits\<close>

text \<open>The value of a string of decimal digits, most significant first.\<close>

definition digits_val :: "string \<Rightarrow> nat" where
  "digits_val s = fold (\<lambda>c n. 10 * n + digit_of c) s 0"

text \<open>Python's \<open>str(n)\<close> for a natural number.\<close>

fun nat_str :: "nat \<Rightarrow> string" where
  "nat_str n = (if n < 10 then [char_of (48 + n)] else nat_str (n div 10) @ [char_of (48 + n mod 10)])"

declare nat_str.simps [simp del]

definition int_str :: "int \<Rightarrow> string" where
  "int_str i = (if i < 0 then CHR ''-'' # nat_str (nat (- i)) else nat_str (nat i))"

lemma digits_val_snoc: "digits_val (s @ [c]) = 10 * digits_val s + digit_of c"
  by (simp add: digits_val_def)

lemma digits_val_Nil [simp]: "digits_val [] = 0"
  by (simp add: digits_val_def)

lemma nat_str_digits: "c \<in> set (nat_str n) \<Longrightarrow> is_digit c"
  by (induction n rule: nat_str.induct)
     (subst (asm) (2) nat_str.simps, auto simp: is_digit_def split: if_splits)

lemma nat_str_nonempty [simp]: "nat_str n \<noteq> []"
  by (subst nat_str.simps) simp

lemma digits_val_nat_str [simp]: "digits_val (nat_str n) = n"
proof (induction n rule: nat_str.induct)
  case (1 n)
  then show ?case
    by (subst nat_str.simps) (auto simp: digits_val_snoc digit_of_def digits_val_def[of "[_]"])
qed

lemma nat_str_inj: "nat_str m = nat_str n \<longleftrightarrow> m = n"
  using digits_val_nat_str by metis

lemma nat_str_hd_digit: "is_digit (hd (nat_str n))"
  by (intro nat_str_digits[of _ n] hd_in_set) simp

lemma int_str_inj: "int_str i = int_str j \<longleftrightarrow> i = j"
proof
  assume e: "int_str i = int_str j"
  have nd: "\<not> is_digit (CHR ''-'')" by (simp add: is_digit_def code_def)
  have hd: "nat_str k \<noteq> CHR ''-'' # s" for k s
    using nat_str_hd_digit[of k] nd by (metis list.sel(1))
  show "i = j" using e hd hd[symmetric]
    by (auto simp: int_str_def nat_str_inj split: if_splits)
qed simp

section \<open>Evaluation on concrete text\<close>

lemmas text_eval = strip_def lstrip_def rstrip_def is_space_def code_def is_digit_def is_alpha_def
  is_upper_def is_lower_def to_lower_def lower_char_def to_upper_def upper_char_def digits_val_def
  digit_of_def char_of_def bit_Suc_0_iff Let_def

end
