(* ===== verification/PyDecimal.thy ===== *)
theory PyDecimal
  imports Complex_Main PyText
begin

text \<open>
  The part of Python's \<open>decimal\<close> module the program uses. A finite \<open>Decimal\<close> is
  its exact rational value (the sign of a zero and trailing zeros are not
  kept), the special values are constructors. Arithmetic that the context
  rounds (\<open>*\<close>, \<open>/\<close>, \<open>scaleb\<close>) goes through \<open>ctx28\<close>: the default context has 28
  significant digits and rounds half to even. The lemmas give the error bound
  of one rounding and say when it is exact.
\<close>

section \<open>Rounding to an integer\<close>

definition round_half_even :: "rat \<Rightarrow> int" where
  "round_half_even x =
     (let f = \<lfloor>x\<rfloor>; d = x - of_int f in
      if d < 1 / 2 \<or> (d = 1 / 2 \<and> even f) then f else f + 1)"

text \<open>\<open>int(Decimal)\<close> truncates towards zero.\<close>

definition int_of_dec :: "rat \<Rightarrow> int" where
  "int_of_dec x = (if 0 \<le> x then \<lfloor>x\<rfloor> else \<lceil>x\<rceil>)"

lemma round_half_even_of_int [simp]: "round_half_even (of_int n) = n"
  by (simp add: round_half_even_def)

lemma int_of_dec_of_int [simp]: "int_of_dec (of_int n) = n"
  by (simp add: int_of_dec_def)

lemma round_half_even_err: "\<bar>of_int (round_half_even x) - x\<bar> \<le> 1 / 2"
proof -
  have b: "of_int \<lfloor>x\<rfloor> \<le> x" "x < of_int \<lfloor>x\<rfloor> + 1" using floor_correct[of x] by simp_all
  consider "round_half_even x = \<lfloor>x\<rfloor>" "x - of_int \<lfloor>x\<rfloor> \<le> 1 / 2"
    | "round_half_even x = \<lfloor>x\<rfloor> + 1" "1 / 2 \<le> x - of_int \<lfloor>x\<rfloor>"
    unfolding round_half_even_def Let_def
    by (cases "x - of_int \<lfloor>x\<rfloor> < 1 / 2 \<or> (x - of_int \<lfloor>x\<rfloor> = 1 / 2 \<and> even \<lfloor>x\<rfloor>)")
       (simp_all only: if_True if_False, auto)
  then show ?thesis
  proof cases
    case 1 show ?thesis unfolding 1(1) using b 1(2) by linarith
  next
    case 2 show ?thesis unfolding 2(1) of_int_add of_int_1 using b 2(2) by linarith
  qed
qed

lemma round_half_even_mono: "x \<le> y \<Longrightarrow> round_half_even x \<le> round_half_even y"
proof -
  assume le: "x \<le> y"
  have f: "\<lfloor>x\<rfloor> \<le> \<lfloor>y\<rfloor>" using le by (rule floor_mono)
  show ?thesis
  proof (cases "\<lfloor>x\<rfloor> = \<lfloor>y\<rfloor>")
    case True
    then show ?thesis using le by (auto simp: round_half_even_def Let_def)
  next
    case False
    then have "\<lfloor>x\<rfloor> + 1 \<le> \<lfloor>y\<rfloor>" using f by linarith
    moreover have "round_half_even x \<le> \<lfloor>x\<rfloor> + 1" "\<lfloor>y\<rfloor> \<le> round_half_even y"
      by (simp_all add: round_half_even_def Let_def)
    ultimately show ?thesis by linarith
  qed
qed

lemma round_half_even_bounds:
  "of_int a \<le> x \<Longrightarrow> x \<le> of_int b \<Longrightarrow> a \<le> round_half_even x \<and> round_half_even x \<le> b"
  using round_half_even_mono[of "of_int a" x] round_half_even_mono[of x "of_int b"] by simp

lemma round_half_even_uminus: "round_half_even (- x) = - round_half_even x"
proof (cases "x \<in> \<int>")
  case True
  then obtain n where "x = of_int n" by (auto elim: Ints_cases)
  then show ?thesis using round_half_even_of_int[of "- n"] by simp
next
  case False
  then have nf: "x \<noteq> of_int \<lfloor>x\<rfloor>" by (metis Ints_of_int)
  have "\<lfloor>- x\<rfloor> = - \<lfloor>x\<rfloor> - 1"
  proof (rule floor_unique)
    show "of_int (- \<lfloor>x\<rfloor> - 1) \<le> - x" using floor_correct[of x] by simp
    show "- x < of_int (- \<lfloor>x\<rfloor> - 1) + 1" using nf of_int_floor_le[of x] by (simp add: order_less_le)
  qed
  then show ?thesis by (auto simp: round_half_even_def Let_def)
qed

section \<open>Powers of ten and the adjusted exponent\<close>

definition pow10 :: "int \<Rightarrow> rat" where
  "pow10 e = (if 0 \<le> e then 10 ^ nat e else 1 / 10 ^ nat (- e))"

lemma pow10_powi: "pow10 e = 10 powi e"
  by (simp add: pow10_def power_int_def power_one_over inverse_eq_divide)

lemma pow10_pos [simp]: "0 < pow10 e"
  by (simp add: pow10_def)

lemma pow10_neq0 [simp]: "pow10 e \<noteq> 0"
  using pow10_pos[of e] by linarith

lemma pow10_add: "pow10 (a + b) = pow10 a * pow10 b"
  by (simp add: pow10_powi power_int_add)

lemma pow10_0 [simp]: "pow10 0 = 1"
  by (simp add: pow10_def)

lemma pow10_minus: "pow10 (- a) = 1 / pow10 a"
  by (simp add: pow10_powi power_int_minus divide_inverse)

lemma pow10_nat: "pow10 (int n) = of_int (10 ^ n)"
  by (simp add: pow10_def)

lemma pow10_mono: "a \<le> b \<Longrightarrow> pow10 a \<le> pow10 b"
  by (simp add: pow10_powi power_int_increasing)

lemma pow10_less_iff: "pow10 a < pow10 b \<longleftrightarrow> a < b"
  using power_int_strict_increasing[of a b "10::rat"] pow10_mono[of b a]
  by (auto simp: pow10_powi not_le[symmetric] simp del: not_le)

fun ilog10 :: "nat \<Rightarrow> nat" where
  "ilog10 n = (if n < 10 then 0 else Suc (ilog10 (n div 10)))"

declare ilog10.simps [simp del]

lemma ilog10_lower: "0 < n \<Longrightarrow> 10 ^ ilog10 n \<le> n"
proof (induction n rule: ilog10.induct)
  case (1 n)
  show ?case
  proof (cases "n < 10")
    case False
    then have "10 ^ ilog10 (n div 10) \<le> n div 10" using 1 by simp
    then show ?thesis using False by (subst ilog10.simps) simp
  qed (use 1 in \<open>simp add: ilog10.simps\<close>)
qed

lemma ilog10_upper: "n < 10 ^ Suc (ilog10 n)"
proof (induction n rule: ilog10.induct)
  case (1 n)
  show ?case
  proof (cases "n < 10")
    case False
    then have "n div 10 < 10 ^ Suc (ilog10 (n div 10))" using 1 by simp
    then show ?thesis using False by (subst ilog10.simps) (simp add: div_less_iff_less_mult)
  qed (simp add: ilog10.simps)
qed

text \<open>The exponent of the leading digit of a positive value.\<close>

definition adjusted :: "rat \<Rightarrow> int" where
  "adjusted x = (if 1 \<le> x then int (ilog10 (nat \<lfloor>x\<rfloor>))
                 else - int (Suc (ilog10 (nat (\<lceil>1 / x\<rceil> - 1)))))"

lemma adjusted_lower: "0 < x \<Longrightarrow> pow10 (adjusted x) \<le> x"
proof (cases "1 \<le> x")
  case True
  then have "(10::nat) ^ ilog10 (nat \<lfloor>x\<rfloor>) \<le> nat \<lfloor>x\<rfloor>" by (intro ilog10_lower) simp
  then have "(10::int) ^ ilog10 (nat \<lfloor>x\<rfloor>) \<le> \<lfloor>x\<rfloor>" using True by (simp add: nat_le_eq_zle le_nat_iff)
  then show ?thesis using True by (simp add: adjusted_def pow10_nat le_floor_iff)
next
  case False
  assume "0 < x"
  let ?m = "nat (\<lceil>1 / x\<rceil> - 1)" and ?k = "Suc (ilog10 (nat (\<lceil>1 / x\<rceil> - 1)))"
  have gt: "1 < 1 / x" using False \<open>0 < x\<close> by (simp add: field_simps)
  have "?m < 10 ^ ?k" by (rule ilog10_upper)
  then have "int ?m < 10 ^ ?k" by (metis of_nat_less_iff of_nat_numeral of_nat_power)
  then have "\<lceil>1 / x\<rceil> \<le> 10 ^ ?k" using gt by linarith
  then have "1 / x \<le> of_int (10 ^ ?k)" by (simp only: ceiling_le_iff)
  then have "1 / of_int (10 ^ ?k) \<le> x" using \<open>0 < x\<close> by (simp add: field_simps)
  then show ?thesis using False by (simp only: adjusted_def pow10_minus pow10_nat if_False)
qed

lemma adjusted_upper: "0 < x \<Longrightarrow> x < pow10 (adjusted x + 1)"
proof (cases "1 \<le> x")
  case True
  have "nat \<lfloor>x\<rfloor> < 10 ^ Suc (ilog10 (nat \<lfloor>x\<rfloor>))" by (rule ilog10_upper)
  then have "int (nat \<lfloor>x\<rfloor>) < 10 ^ Suc (ilog10 (nat \<lfloor>x\<rfloor>))"
    by (metis of_nat_less_iff of_nat_numeral of_nat_power)
  then have "\<lfloor>x\<rfloor> < 10 ^ Suc (ilog10 (nat \<lfloor>x\<rfloor>))" using True by simp
  then have "x < of_int (10 ^ Suc (ilog10 (nat \<lfloor>x\<rfloor>)))" by (simp only: floor_less_iff)
  moreover have "adjusted x + 1 = int (Suc (ilog10 (nat \<lfloor>x\<rfloor>)))"
    using True by (simp add: adjusted_def)
  ultimately show ?thesis by (simp only: pow10_nat)
next
  case False
  assume "0 < x"
  let ?m = "nat (\<lceil>1 / x\<rceil> - 1)"
  have gt: "1 < 1 / x" using False \<open>0 < x\<close> by (simp add: field_simps)
  have "10 ^ ilog10 ?m \<le> ?m" using gt by (intro ilog10_lower) (simp add: less_ceiling_iff)
  then have "10 ^ ilog10 ?m \<le> \<lceil>1 / x\<rceil> - 1" using gt by (simp add: le_nat_iff)
  then have "(10::int) ^ ilog10 ?m < \<lceil>1 / x\<rceil>" by linarith
  then have "of_int (10 ^ ilog10 ?m) < 1 / x" by (simp only: less_ceiling_iff)
  then have "x < 1 / of_int (10 ^ ilog10 ?m)" using \<open>0 < x\<close> by (simp add: field_simps)
  moreover have "adjusted x + 1 = - int (ilog10 ?m)" using False by (simp add: adjusted_def)
  ultimately show ?thesis by (simp only: pow10_minus pow10_nat)
qed

section \<open>The default context\<close>

text \<open>Rounding to 28 significant digits, half to even. The exponent limits of
  the context (999999 in absolute value) are far outside the amounts and rates
  of the program and are not modelled.\<close>

definition ctx28 :: "rat \<Rightarrow> rat" where
  "ctx28 x =
     (if x = 0 then 0
      else (let q = pow10 (adjusted \<bar>x\<bar> - 27) in of_int (round_half_even (x / q)) * q))"

definition dec_mul :: "rat \<Rightarrow> rat \<Rightarrow> rat" where
  "dec_mul x y = ctx28 (x * y)"

definition dec_div :: "rat \<Rightarrow> rat \<Rightarrow> rat res" where
  "dec_div x y =
     (if y = 0 then (if x = 0 then Inl InvalidOperation else Inl ZeroDivision)
      else Inr (ctx28 (x / y)))"

definition dec_scaleb :: "rat \<Rightarrow> int \<Rightarrow> rat" where
  "dec_scaleb x e = ctx28 (x * pow10 e)"

lemma ctx28_0 [simp]: "ctx28 0 = 0"
  by (simp add: ctx28_def)

lemma ctx28_err: "\<bar>ctx28 x - x\<bar> \<le> \<bar>x\<bar> * pow10 (- 27) / 2"
proof (cases "x = 0")
  case False
  define q where "q = pow10 (adjusted \<bar>x\<bar> - 27)"
  have q: "0 < q" by (simp add: q_def)
  have "q = pow10 (adjusted \<bar>x\<bar>) * pow10 (- 27)" by (simp add: q_def flip: pow10_add)
  then have qx: "q \<le> \<bar>x\<bar> * pow10 (- 27)"
    using adjusted_lower[of "\<bar>x\<bar>"] False by (simp add: mult_right_mono)
  have "ctx28 x - x = (of_int (round_half_even (x / q)) - x / q) * q"
    using False q by (simp add: ctx28_def q_def[symmetric] Let_def left_diff_distrib)
  then have "\<bar>ctx28 x - x\<bar> = \<bar>of_int (round_half_even (x / q)) - x / q\<bar> * q"
    using q by (simp add: abs_mult)
  also have "\<dots> \<le> 1 / 2 * q"
    using q round_half_even_err[of "x / q"] by (intro mult_right_mono) auto
  finally show ?thesis using qx by linarith
qed simp

lemma ctx28_exact:
  assumes "x * pow10 k = of_int m" "\<bar>m\<bar> < 10 ^ 28"
  shows "ctx28 x = x"
proof (cases "x = 0")
  case False
  have x: "x = of_int m * pow10 (- k)" using assms(1) by (simp add: pow10_minus field_simps)
  have "\<bar>x\<bar> = of_int \<bar>m\<bar> * pow10 (- k)" by (simp add: x abs_mult abs_of_pos)
  also have "\<dots> < of_int (10 ^ 28) * pow10 (- k)"
    using assms(2) by (intro mult_strict_right_mono) (simp_all only: of_int_less_iff pow10_pos)
  also have "\<dots> = pow10 (28 - k)"
    using pow10_add[of "int 28" "- k"] by (simp only: pow10_nat) simp
  finally have ub: "\<bar>x\<bar> < pow10 (28 - k)" .
  define e where "e = adjusted \<bar>x\<bar>"
  have "pow10 e \<le> \<bar>x\<bar>" using False adjusted_lower[of "\<bar>x\<bar>"] by (simp add: e_def)
  then have "pow10 e < pow10 (28 - k)" using ub by linarith
  then have e: "e \<le> 27 - k" by (simp add: pow10_less_iff)
  define j where "j = nat (27 - k - e)"
  have q: "pow10 (- k) = of_int (10 ^ j) * pow10 (e - 27)"
    using e pow10_add[of "int j" "e - 27"] by (simp only: pow10_nat[symmetric] j_def) simp
  have xq: "x = of_int (m * 10 ^ j) * pow10 (e - 27)"
    by (simp add: x q)
  then have "x / pow10 (e - 27) = of_int (m * 10 ^ j)" by simp
  then have "ctx28 x = of_int (m * 10 ^ j) * pow10 (e - 27)"
    using False by (simp only: ctx28_def e_def[symmetric] Let_def if_False round_half_even_of_int)
  then show ?thesis using xq by simp
qed simp

lemma ctx28_of_int: "\<bar>m\<bar> < 10 ^ 28 \<Longrightarrow> ctx28 (of_int m) = of_int m"
  using ctx28_exact[of "of_int m" 0 m] by simp

lemma dec_scaleb_exact:
  "\<lbrakk>x * pow10 n = of_int m; \<bar>m\<bar> < 10 ^ 28\<rbrakk> \<Longrightarrow> dec_scaleb x e = x * pow10 e"
  unfolding dec_scaleb_def using ctx28_exact[of "x * pow10 e" "n - e" m]
  by (simp add: mult.assoc flip: pow10_add)

section \<open>Values with NaN and infinity\<close>

datatype pydec = Fin rat | NaN | SNaN | Inf bool

definition is_finite :: "pydec \<Rightarrow> bool" where
  "is_finite d = (case d of Fin _ \<Rightarrow> True | _ \<Rightarrow> False)"

text \<open>\<open>d.quantize(Decimal(1).scaleb(-e), rounding)\<close>: an infinity or a result of
  more than 28 digits is an \<open>InvalidOperation\<close>, a quiet NaN stays.\<close>

definition quantize :: "(rat \<Rightarrow> int) \<Rightarrow> nat \<Rightarrow> pydec \<Rightarrow> pydec res" where
  "quantize rnd e d =
     (case d of
        Fin x \<Rightarrow>
          (let m = rnd (x * 10 ^ e) in
           if 10 ^ 28 \<le> \<bar>m\<bar> then Inl InvalidOperation else Inr (Fin (of_int m / 10 ^ e)))
      | NaN \<Rightarrow> Inr NaN
      | SNaN \<Rightarrow> Inl InvalidOperation
      | Inf _ \<Rightarrow> Inl InvalidOperation)"

text \<open>\<open>int(d)\<close>: a NaN is a \<open>ValueError\<close>, an infinity an \<open>OverflowError\<close>.\<close>

definition int_of_pydec :: "pydec \<Rightarrow> int res" where
  "int_of_pydec d =
     (case d of Fin x \<Rightarrow> Inr (int_of_dec x)
      | NaN \<Rightarrow> Inl ValueError | SNaN \<Rightarrow> Inl ValueError
      | Inf _ \<Rightarrow> Inl OverflowErr)"

definition pydec_scaleb :: "pydec \<Rightarrow> int \<Rightarrow> pydec" where
  "pydec_scaleb d e = (case d of Fin x \<Rightarrow> Fin (dec_scaleb x e) | _ \<Rightarrow> d)"

section \<open>Reading a Decimal from text\<close>

definition split_sign :: "string \<Rightarrow> bool \<times> string" where
  "split_sign s =
     (case s of [] \<Rightarrow> (False, [])
      | c # r \<Rightarrow> if c = CHR ''-'' then (True, r) else if c = CHR ''+'' then (False, r) else (False, s))"

text \<open>The optional exponent part; \<open>None\<close> when the rest is not one.\<close>

definition read_exponent :: "string \<Rightarrow> int option" where
  "read_exponent s =
     (case s of [] \<Rightarrow> Some 0
      | c # r \<Rightarrow>
          if c = CHR ''e'' \<or> c = CHR ''E'' then
            (let (neg, ds) = split_sign r in
             if ds \<noteq> [] \<and> list_all is_digit ds
             then Some (if neg then - int (digits_val ds) else int (digits_val ds)) else None)
          else None)"

definition read_number :: "string \<Rightarrow> rat option" where
  "read_number s =
     (let ip = takeWhile is_digit s; r = dropWhile is_digit s;
          (fp, r') = (case r of [] \<Rightarrow> ([], [])
                      | c # t \<Rightarrow> if c = CHR ''.'' then (takeWhile is_digit t, dropWhile is_digit t) else ([], r))
      in if ip = [] \<and> fp = [] then None
         else (case read_exponent r' of None \<Rightarrow> None
               | Some e \<Rightarrow> Some (of_nat (digits_val (ip @ fp)) * pow10 (e - int (length fp)))))"

text \<open>\<open>Decimal(text)\<close>: surrounding white space and underscores are dropped;
  \<open>None\<close> stands for the \<open>InvalidOperation\<close> of a string that is no number.\<close>

definition parse_decimal :: "string \<Rightarrow> pydec option" where
  "parse_decimal text =
     (let (neg, s) = split_sign (filter (\<lambda>c. c \<noteq> CHR ''_'') (strip text)); l = to_lower s in
      if l = ''inf'' \<or> l = ''infinity'' then Some (Inf neg)
      else if take 3 l = ''nan'' \<and> list_all is_digit (drop 3 l) then Some NaN
      else if take 4 l = ''snan'' \<and> list_all is_digit (drop 4 l) then Some SNaN
      else (case read_number s of None \<Rightarrow> None | Some x \<Rightarrow> Some (Fin (if neg then - x else x))))"

lemmas decimal_eval = text_eval parse_decimal_def split_sign_def read_number_def read_exponent_def
  pow10_def

lemma parse_decimal_examples:
  "parse_decimal '' 1_234.50 '' = Some (Fin (2469 / 2))"
  "parse_decimal ''-.5e1'' = Some (Fin (- 5))"
  "parse_decimal ''NaN'' = Some NaN"
  "parse_decimal ''-Infinity'' = Some (Inf True)"
  "parse_decimal ''1,5'' = None"
  "parse_decimal '''' = None"
  by (simp_all add: decimal_eval)

end
