(* ===== verification/Money.thy ===== *)
theory Money
  imports PyDecimal
begin

text \<open>
  Model of \<open>src/recon/domain/money.py\<close>: the currency exponent table (a map that
  \<open>register_currency_exponent\<close> extends), the \<open>Money\<close> value with its two
  constructors and its consistency check, and the arithmetic on minor units.
  The lemmas show that the constructors keep amount and minor units exactly
  consistent, when they raise, and that sums are exact integer sums.
\<close>

section \<open>Currency exponents\<close>

type_synonym exponents = "string \<rightharpoonup> int"

definition default_exponents :: exponents where
  "default_exponents =
     [''INR'' \<mapsto> 2, ''USD'' \<mapsto> 2, ''GBP'' \<mapsto> 2, ''EUR'' \<mapsto> 2, ''SGD'' \<mapsto> 2, ''AED'' \<mapsto> 2,
      ''JPY'' \<mapsto> 0, ''KWD'' \<mapsto> 3, ''BHD'' \<mapsto> 3, ''OMR'' \<mapsto> 3]"

definition register_currency_exponent :: "exponents \<Rightarrow> string \<Rightarrow> int \<Rightarrow> exponents res" where
  "register_currency_exponent tbl c e =
     (if e < 0 then Inl ValueError else Inr (tbl(to_upper c \<mapsto> e)))"

definition currency_exponent :: "exponents \<Rightarrow> string \<Rightarrow> int res" where
  "currency_exponent tbl c =
     (case tbl (to_upper c) of
        None \<Rightarrow> Inl UnknownCurrencyError
      | Some e \<Rightarrow> Inr e)"

text \<open>Every exponent the table can hold is non-negative.\<close>

definition exponents_ok :: "exponents \<Rightarrow> bool" where
  "exponents_ok tbl = (\<forall>e \<in> ran tbl. 0 \<le> e)"

lemma exponents_ok_upd: "\<lbrakk>exponents_ok tbl; 0 \<le> e\<rbrakk> \<Longrightarrow> exponents_ok (tbl(c \<mapsto> e))"
  by (auto simp: exponents_ok_def ran_def)

lemma default_exponents_ok: "exponents_ok default_exponents"
  unfolding default_exponents_def
  by (intro exponents_ok_upd) (simp_all add: exponents_ok_def)

lemma register_keeps_ok:
  "\<lbrakk>exponents_ok tbl; register_currency_exponent tbl c e = Inr tbl'\<rbrakk> \<Longrightarrow> exponents_ok tbl'"
  by (auto simp: register_currency_exponent_def intro: exponents_ok_upd split: if_splits)

lemma currency_exponent_register:
  "0 \<le> e \<Longrightarrow> register_currency_exponent tbl c e = Inr tbl' \<Longrightarrow>
   currency_exponent tbl' d = (if to_upper d = to_upper c then Inr e else currency_exponent tbl d)"
  by (auto simp: register_currency_exponent_def currency_exponent_def)

lemma currency_exponent_nonneg: "\<lbrakk>exponents_ok tbl; currency_exponent tbl c = Inr e\<rbrakk> \<Longrightarrow> 0 \<le> e"
  by (auto simp: exponents_ok_def currency_exponent_def ran_def split: option.splits)

lemma currency_exponent_upper [simp]: "currency_exponent tbl (to_upper c) = currency_exponent tbl c"
  by (simp add: currency_exponent_def split: option.splits)

section \<open>The value and its constructors\<close>

record money =
  m_amount :: rat
  m_currency :: string
  minor_units :: int

text \<open>\<open>Money(...)\<close> with the check of \<open>__post_init__\<close>.\<close>

definition mk_money :: "exponents \<Rightarrow> rat \<Rightarrow> string \<Rightarrow> int \<Rightarrow> money res" where
  "mk_money tbl a c m =
     (case currency_exponent tbl c of
        Inl err \<Rightarrow> Inl err
      | Inr e \<Rightarrow>
          if int_of_dec (dec_scaleb a e) \<noteq> m then Inl ValueError
          else Inr \<lparr>m_amount = a, m_currency = c, minor_units = m\<rparr>)"

definition from_decimal :: "exponents \<Rightarrow> (rat \<Rightarrow> int) \<Rightarrow> pydec \<Rightarrow> string \<Rightarrow> money res" where
  "from_decimal tbl rounding a c =
     (let c = to_upper c in
      case currency_exponent tbl c of
        Inl err \<Rightarrow> Inl err
      | Inr e \<Rightarrow>
          (case quantize rounding (nat e) a of
             Inl err \<Rightarrow> Inl err
           | Inr q \<Rightarrow>
               (case int_of_pydec (pydec_scaleb q e) of
                  Inl err \<Rightarrow> Inl err
                | Inr m \<Rightarrow> (case q of Fin x \<Rightarrow> mk_money tbl x c m | _ \<Rightarrow> Inl ValueError))))"

text \<open>The same constructor given text.\<close>

definition from_decimal_text :: "exponents \<Rightarrow> (rat \<Rightarrow> int) \<Rightarrow> string \<Rightarrow> string \<Rightarrow> money res" where
  "from_decimal_text tbl rounding s c =
     (case currency_exponent tbl (to_upper c) of
        Inl err \<Rightarrow> Inl err
      | Inr _ \<Rightarrow> (case parse_decimal s of
                    None \<Rightarrow> Inl ValueError
                  | Some a \<Rightarrow> from_decimal tbl rounding a c))"

definition from_minor_units :: "exponents \<Rightarrow> int \<Rightarrow> string \<Rightarrow> money res" where
  "from_minor_units tbl m c =
     (let c = to_upper c in
      case currency_exponent tbl c of
        Inl err \<Rightarrow> Inl err
      | Inr e \<Rightarrow> mk_money tbl (dec_scaleb (of_int m) (- e)) c m)"

section \<open>Arithmetic and comparison\<close>

definition add_money :: "exponents \<Rightarrow> money \<Rightarrow> money \<Rightarrow> money res" where
  "add_money tbl a b =
     (if m_currency a \<noteq> m_currency b then Inl ValueError
      else from_minor_units tbl (minor_units a + minor_units b) (m_currency a))"

definition sub_money :: "exponents \<Rightarrow> money \<Rightarrow> money \<Rightarrow> money res" where
  "sub_money tbl a b =
     (if m_currency a \<noteq> m_currency b then Inl ValueError
      else from_minor_units tbl (minor_units a - minor_units b) (m_currency a))"

definition lt_money :: "money \<Rightarrow> money \<Rightarrow> bool res" where
  "lt_money a b =
     (if m_currency a \<noteq> m_currency b then Inl ValueError else Inr (minor_units a < minor_units b))"

definition le_money :: "money \<Rightarrow> money \<Rightarrow> bool res" where
  "le_money a b =
     (if m_currency a \<noteq> m_currency b then Inl ValueError else Inr (minor_units a \<le> minor_units b))"

definition is_zero_money :: "money \<Rightarrow> bool" where
  "is_zero_money a = (minor_units a = 0)"

definition abs_diff_money :: "exponents \<Rightarrow> money \<Rightarrow> money \<Rightarrow> money res" where
  "abs_diff_money tbl a b =
     (if m_currency a \<noteq> m_currency b then Inl ValueError
      else from_minor_units tbl \<bar>minor_units a - minor_units b\<bar> (m_currency a))"

fun sum_minor :: "string \<Rightarrow> money list \<Rightarrow> int \<Rightarrow> int res" where
  "sum_minor c [] acc = Inr acc"
| "sum_minor c (a # as) acc =
     (if to_upper (m_currency a) \<noteq> to_upper c then Inl ValueError
      else sum_minor c as (acc + minor_units a))"

definition sum_money :: "exponents \<Rightarrow> money list \<Rightarrow> string \<Rightarrow> money res" where
  "sum_money tbl amounts c =
     (case sum_minor c amounts 0 of Inl err \<Rightarrow> Inl err | Inr acc \<Rightarrow> from_minor_units tbl acc c)"

section \<open>Consistency of amount and minor units\<close>

definition money_ok :: "exponents \<Rightarrow> money \<Rightarrow> bool" where
  "money_ok tbl a =
     (case currency_exponent tbl (m_currency a) of
        Inl _ \<Rightarrow> False
      | Inr e \<Rightarrow> m_amount a * pow10 e = of_int (minor_units a) \<and> to_upper (m_currency a) = m_currency a)"

lemma scaleb_minor:
  "\<bar>m\<bar> < 10 ^ 28 \<Longrightarrow> dec_scaleb (of_int m) (- e) = of_int m * pow10 (- e)"
  by (rule dec_scaleb_exact[of _ 0]) simp_all

lemma scaleb_back:
  "\<bar>m\<bar> < 10 ^ 28 \<Longrightarrow> dec_scaleb (of_int m * pow10 (- e)) e = of_int m"
  using dec_scaleb_exact[of "of_int m * pow10 (- e)" e m e]
  by (simp add: mult.assoc flip: pow10_add)

lemma mk_money_minor:
  assumes "currency_exponent tbl c = Inr e" "\<bar>m\<bar> < 10 ^ 28"
  shows "mk_money tbl (of_int m * pow10 (- e)) c m
         = Inr \<lparr>m_amount = of_int m * pow10 (- e), m_currency = c, minor_units = m\<rparr>"
  using assms by (simp add: mk_money_def scaleb_back)

lemma from_minor_units_exact:
  assumes "currency_exponent tbl c = Inr e" "\<bar>m\<bar> < 10 ^ 28"
  shows "from_minor_units tbl m c
         = Inr \<lparr>m_amount = of_int m * pow10 (- e), m_currency = to_upper c, minor_units = m\<rparr>"
  using assms by (simp add: from_minor_units_def Let_def scaleb_minor mk_money_minor)

lemma money_ok_minor:
  "currency_exponent tbl c = Inr e \<Longrightarrow>
   money_ok tbl \<lparr>m_amount = of_int m * pow10 (- e), m_currency = to_upper c, minor_units = m\<rparr>"
  by (simp add: money_ok_def mult.assoc flip: pow10_add)

lemma quantize_Fin_minor:
  assumes "0 \<le> e" "\<bar>rnd (x * pow10 e)\<bar> < 10 ^ 28"
  shows "quantize rnd (nat e) (Fin x) = Inr (Fin (of_int (rnd (x * pow10 e)) * pow10 (- e)))"
  using assms by (simp add: quantize_def pow10_def Let_def)

lemma from_decimal_Fin:
  assumes "currency_exponent tbl c = Inr e" "0 \<le> e" "\<bar>rnd (x * pow10 e)\<bar> < 10 ^ 28"
  shows "from_decimal tbl rnd (Fin x) c
         = Inr \<lparr>m_amount = of_int (rnd (x * pow10 e)) * pow10 (- e), m_currency = to_upper c,
                minor_units = rnd (x * pow10 e)\<rparr>"
  using assms
  by (simp add: from_decimal_def Let_def quantize_Fin_minor pydec_scaleb_def scaleb_back
      int_of_pydec_def mk_money_minor)

lemma from_decimal_errors:
  assumes "currency_exponent tbl c = Inr e"
  shows "from_decimal tbl rnd NaN c = Inl ValueError"
    "from_decimal tbl rnd SNaN c = Inl InvalidOperation"
    "from_decimal tbl rnd (Inf b) c = Inl InvalidOperation"
    "10 ^ 28 \<le> \<bar>rnd (x * 10 ^ nat e)\<bar> \<Longrightarrow> from_decimal tbl rnd (Fin x) c = Inl InvalidOperation"
  using assms
  by (simp_all add: from_decimal_def Let_def quantize_def pydec_scaleb_def int_of_pydec_def)

lemma sum_minor_ok:
  "\<forall>a \<in> set as. to_upper (m_currency a) = to_upper c \<Longrightarrow>
   sum_minor c as acc = Inr (acc + sum_list (map minor_units as))"
  by (induction as arbitrary: acc) auto

lemma sum_minor_error:
  "\<exists>a \<in> set as. to_upper (m_currency a) \<noteq> to_upper c \<Longrightarrow> sum_minor c as acc = Inl ValueError"
  by (induction as arbitrary: acc) auto

section \<open>Properties\<close>

text \<open>\<open>Money.from_decimal\<close> on a finite amount whose minor unit count has at
  most 28 digits returns the amount rounded half to even to the currency's
  minor unit: the result is consistent, at most half a minor unit from the
  input, and reading its \<open>amount\<close> back gives the same value.\<close>

theorem from_decimal_correct:
  assumes "exponents_ok tbl" "currency_exponent tbl c = Inr e"
    and "\<bar>round_half_even (x * pow10 e)\<bar> < 10 ^ 28"
  shows "\<exists>a. from_decimal tbl round_half_even (Fin x) c = Inr a \<and> money_ok tbl a
           \<and> \<bar>m_amount a - x\<bar> \<le> pow10 (- e) / 2
           \<and> minor_units a = round_half_even (x * pow10 e)
           \<and> from_decimal tbl round_half_even (Fin (m_amount a)) c = Inr a
           \<and> from_minor_units tbl (minor_units a) c = Inr a"
proof -
  have e: "0 \<le> e" using currency_exponent_nonneg assms by blast
  define m where "m = round_half_even (x * pow10 e)"
  define a where "a = \<lparr>m_amount = of_int m * pow10 (- e), m_currency = to_upper c, minor_units = m\<rparr>"
  have "from_decimal tbl round_half_even (Fin x) c = Inr a"
    using from_decimal_Fin[OF assms(2) e, of round_half_even x] assms(3) by (simp add: a_def m_def)
  moreover have "from_minor_units tbl (minor_units a) c = Inr a"
    using from_minor_units_exact[OF assms(2), of m] assms(3) by (simp add: a_def m_def)
  moreover have bk: "m_amount a * pow10 e = of_int m"
    by (simp add: a_def mult.assoc flip: pow10_add)
  moreover have "from_decimal tbl round_half_even (Fin (m_amount a)) c = Inr a"
    using from_decimal_Fin[OF assms(2) e, of round_half_even "m_amount a"] assms(3) bk
    by (simp add: m_def[symmetric]) (simp add: a_def)
  moreover have "\<bar>m_amount a - x\<bar> \<le> pow10 (- e) / 2"
  proof -
    have "m_amount a - x = (of_int m - x * pow10 e) * pow10 (- e)"
      by (simp add: a_def left_diff_distrib mult.assoc flip: pow10_add)
    then have "\<bar>m_amount a - x\<bar> = \<bar>of_int m - x * pow10 e\<bar> * pow10 (- e)"
      by (simp add: abs_mult abs_of_pos)
    also have "\<dots> \<le> 1 / 2 * pow10 (- e)"
      unfolding m_def by (intro mult_right_mono round_half_even_err) (simp add: less_imp_le)
    finally show ?thesis by simp
  qed
  ultimately show ?thesis using money_ok_minor[OF assms(2), of m]
    by (intro exI[of _ a]) (simp add: a_def[symmetric], simp add: a_def m_def)
qed

theorem from_decimal_correct_witness:
  "\<exists>a. from_decimal default_exponents round_half_even (Fin (2005 / 1000)) ''inr'' = Inr a
     \<and> minor_units a = 200"
proof -
  have e: "currency_exponent default_exponents ''inr'' = Inr 2"
    by (simp add: currency_exponent_def default_exponents_def text_eval)
  have r: "round_half_even (2005 / 1000 * pow10 2) = 200" by code_simp
  show ?thesis using from_decimal_correct[OF default_exponents_ok e, of "2005 / 1000"]
    unfolding r by auto
qed

text \<open>\<open>sum_money\<close> is the exact integer sum: with uniform currencies and a
  total of at most 28 digits it returns the consistent value whose minor units
  are the sum of the minor units, whatever the order of the amounts; with one
  amount of another currency it raises.\<close>

theorem sum_money_exact:
  assumes "currency_exponent tbl c = Inr e"
  shows "(if \<exists>a \<in> set as. to_upper (m_currency a) \<noteq> to_upper c
          then sum_money tbl as c = Inl ValueError
          else \<bar>sum_list (map minor_units as)\<bar> < 10 ^ 28 \<longrightarrow>
               (\<exists>s. sum_money tbl as c = Inr s \<and> money_ok tbl s
                  \<and> minor_units s = sum_list (map minor_units as)
                  \<and> (\<forall>bs. mset bs = mset as \<longrightarrow> sum_money tbl bs c = Inr s)))"
proof (cases "\<exists>a \<in> set as. to_upper (m_currency a) \<noteq> to_upper c")
  case True
  then show ?thesis by (simp add: sum_money_def sum_minor_error)
next
  case False
  have perm: "sum_money tbl bs c = from_minor_units tbl (sum_list (map minor_units as)) c"
    if "mset bs = mset as" for bs
  proof -
    have "set bs = set as" using that by (rule mset_eq_setD)
    moreover have "sum_list (map minor_units bs) = sum_list (map minor_units as)"
      using that by (metis mset_map sum_mset_sum_list)
    ultimately show ?thesis using False by (simp add: sum_money_def sum_minor_ok)
  qed
  show ?thesis using False perm from_minor_units_exact[OF assms] money_ok_minor[OF assms] by simp
qed

theorem sum_money_exact_witness:
  "\<exists>s. sum_money default_exponents
         [\<lparr>m_amount = 1, m_currency = ''INR'', minor_units = 100\<rparr>,
          \<lparr>m_amount = 1 / 2, m_currency = ''INR'', minor_units = 50\<rparr>] ''INR'' = Inr s
       \<and> minor_units s = 150"
  using sum_money_exact[of default_exponents "''INR''" 2
      "[\<lparr>m_amount = 1, m_currency = ''INR'', minor_units = 100\<rparr>,
        \<lparr>m_amount = 1 / 2, m_currency = ''INR'', minor_units = 50\<rparr>]"]
  by (auto simp: currency_exponent_def default_exponents_def text_eval)

end
