(* ===== verification/Calendar.thy ===== *)
theory Calendar
  imports Prelude
begin

text \<open>
  Model of \<open>src/recon/calendar.py\<close>. A \<open>date\<close> is its proleptic Gregorian ordinal
  (\<open>date.toordinal()\<close>, 1 for 0001-01-01), so \<open>timedelta(days=1)\<close> is \<open>+ 1\<close> and
  leaving the range up to 9999-12-31 is Python's \<open>OverflowError\<close>. The loops of
  \<open>business_days_between\<close> and \<open>add_business_days\<close> are recursive functions with
  their termination proofs; the lemmas relate both to the set of business days.
\<close>

section \<open>Dates\<close>

type_synonym date = int

definition max_ordinal :: date where
  "max_ordinal = 3652059"

definition weekday :: "date \<Rightarrow> int" where
  "weekday d = (d + 6) mod 7"

definition is_leap :: "int \<Rightarrow> bool" where
  "is_leap y = (y mod 4 = 0 \<and> (y mod 100 \<noteq> 0 \<or> y mod 400 = 0))"

definition days_before_year :: "int \<Rightarrow> int" where
  "days_before_year y = (let z = y - 1 in z * 365 + z div 4 - z div 100 + z div 400)"

definition days_in_month :: "int \<Rightarrow> int \<Rightarrow> int" where
  "days_in_month y m =
     (if m = 2 then (if is_leap y then 29 else 28)
      else if m = 4 \<or> m = 6 \<or> m = 9 \<or> m = 11 then 30 else 31)"

definition days_before_month :: "int \<Rightarrow> int \<Rightarrow> int" where
  "days_before_month y m = sum_list (map (days_in_month y) [1..m - 1])"

text \<open>\<open>date(y, m, d)\<close>; \<open>None\<close> is its \<open>ValueError\<close>.\<close>

definition make_date :: "int \<Rightarrow> int \<Rightarrow> int \<Rightarrow> date option" where
  "make_date y m d =
     (if 1 \<le> y \<and> y \<le> 9999 \<and> 1 \<le> m \<and> m \<le> 12 \<and> 1 \<le> d \<and> d \<le> days_in_month y m
      then Some (days_before_year y + days_before_month y m + d) else None)"

definition in_year :: "int \<Rightarrow> date \<Rightarrow> bool" where
  "in_year y d = (days_before_year y < d \<and> d \<le> days_before_year (y + 1))"

lemma make_date_examples:
  "make_date 1 1 1 = Some 1" "make_date 9999 12 31 = Some max_ordinal"
  "make_date 2026 2 29 = None" "map_option weekday (make_date 2026 3 15) = Some 6"
  by code_simp+

section \<open>The calendar\<close>

record calendar =
  cal_name :: string
  holidays :: "date list"
  years :: "int list"

definition covers :: "calendar \<Rightarrow> date \<Rightarrow> bool" where
  "covers cal day = list_ex (\<lambda>y. in_year y day) (years cal)"

definition is_business_day :: "calendar \<Rightarrow> date \<Rightarrow> bool" where
  "is_business_day cal day = (weekday day < 5 \<and> day \<notin> set (holidays cal))"

function count_business :: "calendar \<Rightarrow> date \<Rightarrow> date \<Rightarrow> nat \<Rightarrow> nat" where
  "count_business cal day stop n =
     (if day < stop then
        (let day = day + 1 in
         count_business cal day stop (if is_business_day cal day then n + 1 else n))
      else n)"
  by pat_completeness auto
termination by (relation "measure (\<lambda>(_, day, stop, _). nat (stop - day))") auto

declare count_business.simps [simp del]

definition business_days_between :: "calendar \<Rightarrow> date \<Rightarrow> date \<Rightarrow> nat" where
  "business_days_between cal start stop =
     (if stop < start then count_business cal stop start 0 else count_business cal start stop 0)"

function add_loop :: "calendar \<Rightarrow> date \<Rightarrow> nat \<Rightarrow> date res" where
  "add_loop cal day remaining =
     (if remaining = 0 then Inr day
      else if max_ordinal \<le> day then Inl OverflowErr
      else (let day = day + 1 in
            add_loop cal day (if is_business_day cal day then remaining - 1 else remaining)))"
  by pat_completeness auto
termination by (relation "measure (\<lambda>(_, day, _). nat (max_ordinal - day))") auto

declare add_loop.simps [simp del]

definition add_business_days :: "calendar \<Rightarrow> date \<Rightarrow> int \<Rightarrow> date res" where
  "add_business_days cal start days =
     (if days < 0 then Inl ValueError else add_loop cal start (nat days))"

section \<open>Loading the calendar files\<close>

text \<open>What \<open>_parse\<close> finds in one file: the two keys when present, and for each
  holiday entry its date, \<open>None\<close> for an entry that is no ISO date.\<close>

record calendar_file =
  file_calendar :: "string option"
  file_year :: "int option"
  file_holidays :: "date option list"

definition parse_calendar_file :: "calendar_file \<Rightarrow> (string \<times> int \<times> date list) res" where
  "parse_calendar_file f =
     (case (file_calendar f, file_year f) of
        (Some name, Some year) \<Rightarrow>
          (if None \<in> set (file_holidays f) then Inl ConfigError
           else (let hs = map the (file_holidays f) in
                 if \<not> list_all (in_year year) hs then Inl ConfigError
                 else Inr (name, year, hs)))
      | _ \<Rightarrow> Inl ConfigError)"

fun load_files :: "string \<Rightarrow> calendar_file list \<Rightarrow> date list \<Rightarrow> int list \<Rightarrow> calendar res" where
  "load_files name [] hs ys = Inr \<lparr>cal_name = name, holidays = hs, years = ys\<rparr>"
| "load_files name (f # fs) hs ys =
     (case parse_calendar_file f of
        Inl e \<Rightarrow> Inl e
      | Inr (calendar_name, year, found) \<Rightarrow>
          if calendar_name \<noteq> name then Inl ConfigError
          else load_files name fs (hs @ found) (ys @ [year]))"

definition load_calendar :: "string \<Rightarrow> calendar_file list \<Rightarrow> calendar res" where
  "load_calendar name fs = load_files name fs [] []"

section \<open>Lemmas\<close>

text \<open>The business days after \<open>a\<close> up to and including \<open>b\<close>.\<close>

definition business_set :: "calendar \<Rightarrow> date \<Rightarrow> date \<Rightarrow> date set" where
  "business_set cal a b = {d \<in> {a<..b}. is_business_day cal d}"

lemma business_set_finite [simp]: "finite (business_set cal a b)"
  by (rule finite_subset[of _ "{a<..b}"]) (auto simp: business_set_def)

lemma business_set_empty [simp]: "b \<le> a \<Longrightarrow> business_set cal a b = {}"
  by (auto simp: business_set_def)

lemma business_set_step:
  "a < b \<Longrightarrow> business_set cal a b =
     (if is_business_day cal (a + 1) then insert (a + 1) else id) (business_set cal (a + 1) b)"
  by (auto simp: business_set_def) (metis add1_zle_eq order_le_less)+

lemma business_set_notin [simp]: "a + 1 \<notin> business_set cal (a + 1) b"
  by (simp add: business_set_def)

lemma count_business_card: "count_business cal a b n = n + card (business_set cal a b)"
proof (induction cal a b n rule: count_business.induct)
  case (1 cal day stop n)
  show ?case
  proof (cases "day < stop")
    case True
    show ?thesis using 1[OF True refl] True
      by (subst count_business.simps) (simp add: business_set_step[OF True] Let_def)
  qed (simp add: count_business.simps)
qed

lemma business_set_split: "\<lbrakk>a \<le> b; b \<le> c\<rbrakk> \<Longrightarrow> business_set cal a c = business_set cal a b \<union> business_set cal b c"
  by (auto simp: business_set_def)

lemma business_set_disjoint: "business_set cal a b \<inter> business_set cal b c = {}"
  by (auto simp: business_set_def)

lemma business_card_split:
  "\<lbrakk>a \<le> b; b \<le> c\<rbrakk> \<Longrightarrow>
   card (business_set cal a c) = card (business_set cal a b) + card (business_set cal b c)"
  by (subst business_set_split[of a b c]) (simp_all add: card_Un_disjoint business_set_disjoint)

lemma add_loop_ok:
  "add_loop cal day n = Inr d \<Longrightarrow>
   day \<le> d \<and> card (business_set cal day d) = n \<and> (0 < n \<longrightarrow> is_business_day cal d)
   \<and> (day \<le> max_ordinal \<longrightarrow> d \<le> max_ordinal)"
proof (induction cal day n rule: add_loop.induct)
  case (1 cal day n)
  show ?case
  proof (cases "n = 0")
    case True then show ?thesis using "1.prems" by (simp add: add_loop.simps)
  next
    case False
    then have lt: "day < max_ordinal" using "1.prems" by (subst (asm) add_loop.simps) (auto split: if_splits)
    define n' where "n' = (if is_business_day cal (day + 1) then n - 1 else n)"
    have r: "add_loop cal (day + 1) n' = Inr d"
      using "1.prems" False lt by (subst (asm) add_loop.simps) (simp add: Let_def n'_def)
    have ih: "day + 1 \<le> d" "card (business_set cal (day + 1) d) = n'"
      "0 < n' \<longrightarrow> is_business_day cal d" "d \<le> max_ordinal"
      using "1.IH"[OF False, of "day + 1"] r lt by (auto simp: n'_def)
    have "day < d" using ih(1) by simp
    moreover have "n' = 0 \<Longrightarrow> d = day + 1" using r by (simp add: add_loop.simps)
    ultimately show ?thesis using ih False
      by (auto simp: business_set_step n'_def split: if_splits)
  qed
qed

lemma add_loop_err:
  "\<lbrakk>add_loop cal day n = Inl e; day \<le> max_ordinal\<rbrakk> \<Longrightarrow>
   e = OverflowErr \<and> card (business_set cal day max_ordinal) < n"
proof (induction cal day n rule: add_loop.induct)
  case (1 cal day n)
  have n: "n \<noteq> 0" using "1.prems"(1) by (cases "n = 0") (simp_all add: add_loop.simps)
  show ?case
  proof (cases "max_ordinal \<le> day")
    case True then show ?thesis using "1.prems" n by (simp add: add_loop.simps)
  next
    case False
    then have lt: "day < max_ordinal" by simp
    define n' where "n' = (if is_business_day cal (day + 1) then n - 1 else n)"
    have "add_loop cal (day + 1) n' = Inl e"
      using "1.prems" n False by (subst (asm) add_loop.simps) (simp add: Let_def n'_def)
    then have "e = OverflowErr \<and> card (business_set cal (day + 1) max_ordinal) < n'"
      using "1.IH"[OF n False, of "day + 1"] lt by (simp add: n'_def)
    then show ?thesis using lt n by (auto simp: business_set_step n'_def split: if_splits)
  qed
qed

section \<open>Properties\<close>

text \<open>\<open>business_days_between\<close> counts the business days after the earlier date
  up to and including the later one: it is that number, it does not depend on
  the order of the dates, it is zero from a date to itself, and it adds up
  along a third date in between.\<close>

theorem business_days_between_counts:
  "business_days_between cal a b = card (business_set cal (min a b) (max a b))
   \<and> business_days_between cal a b = business_days_between cal b a
   \<and> business_days_between cal a a = 0
   \<and> (\<forall>m. a \<le> m \<and> m \<le> b \<longrightarrow>
        business_days_between cal a b = business_days_between cal a m + business_days_between cal m b)"
  by (auto simp: business_days_between_def count_business_card min_def max_def intro: business_card_split)

theorem business_days_between_counts_witness:
  "business_days_between \<lparr>cal_name = ''in'', holidays = [], years = []\<rparr> 5 8 = 1"
proof -
  let ?cal = "\<lparr>cal_name = ''in'', holidays = [], years = []\<rparr>"
  have "business_set ?cal 5 8 = {8}"
    by (auto simp: business_set_def is_business_day_def weekday_def)
       (presburger+)
  then show ?thesis using business_days_between_counts[of ?cal 5 8] by simp
qed

text \<open>C40. \<open>add_business_days\<close> returns exactly the day that is \<open>n\<close> business days
  later. It raises \<open>ValueError\<close> for a negative \<open>n\<close> and runs past 9999-12-31
  exactly when fewer than \<open>n\<close> business days are left; otherwise it returns a day
  \<open>d\<close> not before the start with \<open>business_days_between start d = n\<close>, a business
  day itself when \<open>n > 0\<close>, and every other such day is not earlier.\<close>

theorem add_business_days_exact:
  assumes "start \<le> max_ordinal"
  shows "case add_business_days cal start n of
           Inl e \<Rightarrow> (n < 0 \<and> e = ValueError)
             \<or> (0 \<le> n \<and> e = OverflowErr \<and> int (card (business_set cal start max_ordinal)) < n)
         | Inr d \<Rightarrow> 0 \<le> n \<and> n \<le> int (card (business_set cal start max_ordinal))
             \<and> start \<le> d \<and> d \<le> max_ordinal
             \<and> int (business_days_between cal start d) = n
             \<and> (0 < n \<longrightarrow> is_business_day cal d)
             \<and> (\<forall>d'\<ge>start. int (business_days_between cal start d') = n \<longrightarrow> d \<le> d')"
proof (cases "add_business_days cal start n")
  case (Inl e)
  then show ?thesis using add_loop_err[of cal start "nat n" e] assms
    by (auto simp: add_business_days_def split: if_splits)
next
  case (Inr d)
  then have n: "0 \<le> n" and l: "add_loop cal start (nat n) = Inr d"
    by (auto simp: add_business_days_def split: if_splits)
  note ok = add_loop_ok[OF l]
  have "n \<le> int (card (business_set cal start max_ordinal))"
    using ok assms n business_card_split[of start d max_ordinal cal] by auto
  moreover have "d \<le> d'" if d': "start \<le> d'" "int (business_days_between cal start d') = n" for d'
  proof (rule ccontr)
    assume "\<not> d \<le> d'"
    then have lt: "d' < d" by simp
    have c': "card (business_set cal start d') = nat n"
      using d' by (auto simp: business_days_between_def count_business_card)
    have "0 < nat n \<Longrightarrow> d \<in> business_set cal d' d"
      using lt ok by (auto simp: business_set_def)
    then have "0 < nat n \<Longrightarrow> 0 < card (business_set cal d' d)" by (auto simp: card_gt_0_iff)
    moreover have "nat n \<noteq> 0" using l lt d'(1) by (auto simp: add_loop.simps)
    ultimately show False using business_card_split[of start d' d cal] d' lt ok c' by simp
  qed
  ultimately show ?thesis using Inr n ok assms
    by (auto simp: business_days_between_def count_business_card)
qed

theorem add_business_days_exact_witness:
  "add_business_days \<lparr>cal_name = ''in'', holidays = [8], years = []\<rparr> 5 1 = Inr 9
   \<and> int (business_days_between \<lparr>cal_name = ''in'', holidays = [8], years = []\<rparr> 5 9) = 1"
proof -
  let ?cal = "\<lparr>cal_name = ''in'', holidays = [8], years = []\<rparr>"
  have r: "add_business_days ?cal 5 1 = Inr 9"
    by (simp add: add_business_days_def add_loop.simps is_business_day_def weekday_def max_ordinal_def Let_def)
  show ?thesis using add_business_days_exact[where start = 5 and cal = ?cal and n = 1] r by (simp add: max_ordinal_def)
qed

end
