(* ===== verification/Fx.thy ===== *)
theory Fx
  imports Money Calendar "HOL-Library.Product_Lexorder"
begin

text \<open>
  Model of \<open>src/recon/fx\<close> and of the rate table: picking a quote out of stored
  rates (\<open>service.py\<close>, with the per-service cache as explicit state), conversion
  between currencies in minor units (\<open>convert.py\<close>), reading a rate file and
  flagging its outliers (\<open>loader.py\<close>), and the insertion that never replaces a
  stored rate (\<open>persistence/repositories/fx.py\<close>).
\<close>

section \<open>Stored rates and quotes\<close>

datatype fx_source = RBI | FBIL | BANK_CARD | IDENTITY

definition source_rank :: "fx_source \<Rightarrow> nat" where
  "source_rank s = (case s of RBI \<Rightarrow> 0 | FBIL \<Rightarrow> 1 | BANK_CARD \<Rightarrow> 2 | IDENTITY \<Rightarrow> 3)"

record fx_rate =
  rate_date :: date
  rate_currency :: string
  rate_inr :: rat
  rate_source :: fx_source
  rate_suspect :: bool

record fx_quote =
  q_currency :: string
  q_rate_inr :: rat
  q_source :: fx_source
  q_rate_date :: date
  q_days_stale :: int
  q_suspect :: bool

definition quote_of :: "fx_rate \<Rightarrow> date \<Rightarrow> fx_quote" where
  "quote_of row on =
     \<lparr>q_currency = rate_currency row, q_rate_inr = rate_inr row, q_source = rate_source row,
      q_rate_date = rate_date row, q_days_stale = on - rate_date row, q_suspect = rate_suspect row\<rparr>"

definition eligible_rates :: "fx_rate list \<Rightarrow> date \<Rightarrow> int \<Rightarrow> fx_rate list" where
  "eligible_rates rows on max_stale =
     filter (\<lambda>r. 0 \<le> on - rate_date r \<and> on - rate_date r \<le> max_stale) rows"

definition pick_rate :: "fx_rate list \<Rightarrow> date \<Rightarrow> int \<Rightarrow> fx_rate option" where
  "pick_rate rows on max_stale =
     (let eligible = eligible_rates rows on max_stale in
      case first_min (\<lambda>r. (- rate_date r, rate_suspect r, source_rank (rate_source r))) eligible of
        None \<Rightarrow> None
      | Some best \<Rightarrow>
          (let clean = filter (\<lambda>r. \<not> rate_suspect r) eligible in
           if rate_suspect best \<and> clean \<noteq> []
           then first_min (\<lambda>r. (- rate_date r, source_rank (rate_source r))) clean
           else Some best))"

definition pick_quote :: "fx_rate list \<Rightarrow> date \<Rightarrow> int \<Rightarrow> fx_quote option" where
  "pick_quote rows on max_stale = map_option (\<lambda>r. quote_of r on) (pick_rate rows on max_stale)"

text \<open>\<open>FxService\<close>: the rates it reads, its staleness window and its cache.\<close>

record fx_service =
  fx_rates :: "fx_rate list"
  max_stale_days :: int
  fx_cache :: "(string \<times> date) \<rightharpoonup> fx_quote option"

definition default_max_stale_days :: int where
  "default_max_stale_days = 3"

definition new_fx_service :: "fx_rate list \<Rightarrow> int \<Rightarrow> fx_service" where
  "new_fx_service rates stale = \<lparr>fx_rates = rates, max_stale_days = stale, fx_cache = (\<lambda>_. None)\<rparr>"

definition query_rates :: "fx_service \<Rightarrow> string \<Rightarrow> date \<Rightarrow> fx_rate list" where
  "query_rates svc c on =
     filter (\<lambda>r. rate_currency r = c \<and> rate_date r \<le> on \<and> on - max_stale_days svc \<le> rate_date r)
       (fx_rates svc)"

definition fx_get :: "fx_service \<Rightarrow> string \<Rightarrow> date \<Rightarrow> fx_quote option \<times> fx_service" where
  "fx_get svc c on =
     (if c = ''INR'' then
        (Some \<lparr>q_currency = ''INR'', q_rate_inr = 1, q_source = IDENTITY, q_rate_date = on,
               q_days_stale = 0, q_suspect = False\<rparr>, svc)
      else
        (case fx_cache svc (c, on) of
           Some q \<Rightarrow> (q, svc)
         | None \<Rightarrow>
             (let q = pick_quote (query_rates svc c on) on (max_stale_days svc) in
              (q, svc\<lparr>fx_cache := (fx_cache svc)((c, on) \<mapsto> q)\<rparr>))))"

section \<open>Conversion on minor units\<close>

definition to_inr_minor :: "exponents \<Rightarrow> int \<Rightarrow> string \<Rightarrow> rat \<Rightarrow> int res" where
  "to_inr_minor tbl m c rate =
     (if c = ''INR'' then Inr m
      else (case (currency_exponent tbl ''INR'', currency_exponent tbl c) of
              (Inr ei, Inr ec) \<Rightarrow>
                Inr (round_half_even (dec_mul (dec_mul (of_int m) rate) (pow10 (ei - ec))))
            | (Inl err, _) \<Rightarrow> Inl err
            | (_, Inl err) \<Rightarrow> Inl err))"

definition from_inr_minor :: "exponents \<Rightarrow> int \<Rightarrow> string \<Rightarrow> rat \<Rightarrow> int res" where
  "from_inr_minor tbl m c rate =
     (if c = ''INR'' then Inr m
      else (case (currency_exponent tbl c, currency_exponent tbl ''INR'') of
              (Inr ec, Inr ei) \<Rightarrow>
                (case dec_div (of_int m) rate of
                   Inl err \<Rightarrow> Inl err
                 | Inr q \<Rightarrow> Inr (round_half_even (dec_mul q (pow10 (ec - ei)))))
            | (Inl err, _) \<Rightarrow> Inl err
            | (_, Inl err) \<Rightarrow> Inl err))"

definition relative_difference_percent :: "int \<Rightarrow> int \<Rightarrow> rat res" where
  "relative_difference_percent a b =
     (let mean = ctx28 (of_int (a + b) / 2) in
      if mean = 0 then Inr 0
      else (case dec_div (ctx28 \<bar>of_int (a - b)\<bar>) mean of
              Inl err \<Rightarrow> Inl err
            | Inr q \<Rightarrow> Inr (dec_mul q 100)))"

definition implied_rate :: "exponents \<Rightarrow> int \<Rightarrow> int \<Rightarrow> string \<Rightarrow> rat option res" where
  "implied_rate tbl inr_minor foreign_minor c =
     (if foreign_minor = 0 then Inr None
      else (case (currency_exponent tbl c, currency_exponent tbl ''INR'') of
              (Inr ec, Inr ei) \<Rightarrow>
                (case dec_div (of_int inr_minor) (dec_mul (of_int foreign_minor) (pow10 (ec - ei))) of
                   Inl err \<Rightarrow> Inl err
                 | Inr q \<Rightarrow> Inr (Some q))
            | (Inl err, _) \<Rightarrow> Inl err
            | (_, Inl err) \<Rightarrow> Inl err))"

section \<open>Reading a rate file\<close>

record parsed_rate =
  pr_line :: nat
  pr_date :: date
  pr_currency :: string
  pr_rate :: rat
  pr_source :: fx_source
  pr_suspect :: bool

definition split_on :: "char \<Rightarrow> string \<Rightarrow> string list" where
  "split_on sep s =
     foldr (\<lambda>c parts. if c = sep then [] # parts else (c # hd parts) # tl parts) s [[]]"

definition two_digits :: "string \<Rightarrow> int option" where
  "two_digits s =
     (if (length s = 1 \<or> length s = 2) \<and> list_all is_digit s then Some (int (digits_val s)) else None)"

text \<open>\<open>%d\<close> also takes a blank before a single non-zero digit; \<open>%Y\<close> takes four digits.\<close>

definition day_field :: "string \<Rightarrow> int option" where
  "day_field s =
     (if length s = 2 \<and> s ! 0 = CHR '' '' then two_digits (tl s) else two_digits s)"

definition year_field :: "string \<Rightarrow> int option" where
  "year_field s =
     (if length s = 4 \<and> list_all is_digit s then Some (int (digits_val s)) else None)"

definition make_date_opt :: "int option \<Rightarrow> int option \<Rightarrow> int option \<Rightarrow> date option" where
  "make_date_opt y m d =
     (case (y, m, d) of (Some y, Some m, Some d) \<Rightarrow> make_date y m d | _ \<Rightarrow> None)"

definition parse_fx_date :: "string \<Rightarrow> date option" where
  "parse_fx_date text =
     (case split_on (CHR ''-'') (strip text) of
        [a, b, c] \<Rightarrow>
          (case make_date_opt (year_field a) (two_digits b) (day_field c) of
             Some d \<Rightarrow> Some d
           | None \<Rightarrow> make_date_opt (year_field c) (two_digits b) (day_field a))
      | _ \<Rightarrow> None)"

definition source_of_text :: "string \<Rightarrow> fx_source option" where
  "source_of_text s =
     (if s = ''RBI'' then Some RBI else if s = ''FBIL'' then Some FBIL
      else if s = ''BANK_CARD'' then Some BANK_CARD else None)"

text \<open>\<open>a or b\<close> on strings: a missing or empty value falls through.\<close>

definition str_or :: "string option \<Rightarrow> string \<Rightarrow> string" where
  "str_or v dflt = (case v of None \<Rightarrow> dflt | Some s \<Rightarrow> if s = [] then dflt else s)"

definition parse_fx_row :: "nat \<Rightarrow> (string \<rightharpoonup> string) \<Rightarrow> parsed_rate res" where
  "parse_fx_row line_no row =
     (let c = to_upper (strip (str_or (row ''currency'') []));
          raw_rate = strip (str_or (row ''rate'') (str_or (row ''rate_inr'') []));
          source = to_upper (strip (str_or (row ''source'') ''RBI''))
      in if length c \<noteq> 3 \<or> \<not> list_all is_alpha c then Inl ValueError
         else (case parse_decimal raw_rate of
                 Some (Fin rate) \<Rightarrow>
                   if rate \<le> 0 \<or> 1000000 < rate then Inl ValueError
                   else (case source_of_text source of
                           None \<Rightarrow> Inl ValueError
                         | Some src \<Rightarrow>
                             (case parse_fx_date (str_or (row ''date'') []) of
                                None \<Rightarrow> Inl ValueError
                              | Some d \<Rightarrow>
                                  Inr \<lparr>pr_line = line_no, pr_date = d, pr_currency = c,
                                       pr_rate = rate, pr_source = src, pr_suspect = False\<rparr>))
               | _ \<Rightarrow> Inl ValueError))"

text \<open>\<open>statistics.median\<close> on Decimals.\<close>

definition median :: "rat list \<Rightarrow> rat" where
  "median xs =
     (let ys = sort xs; n = length ys in
      if odd n then ys ! (n div 2) else ctx28 (ctx28 (ys ! (n div 2 - 1) + ys ! (n div 2)) / 2))"

definition group_median :: "parsed_rate list \<Rightarrow> parsed_rate \<Rightarrow> rat option" where
  "group_median rates r =
     (let g = map pr_rate (filter (\<lambda>x. pr_currency x = pr_currency r \<and> pr_source x = pr_source r) rates)
      in if 3 \<le> length g then Some (median g) else None)"

definition flag_outliers :: "rat \<Rightarrow> parsed_rate list \<Rightarrow> parsed_rate list" where
  "flag_outliers outlier_percent rates =
     map (\<lambda>r. case group_median rates r of
                None \<Rightarrow> r
              | Some mid \<Rightarrow>
                  (let deviation = dec_mul (ctx28 (ctx28 \<bar>pr_rate r - mid\<bar> / mid)) 100 in
                   if outlier_percent < deviation then r\<lparr>pr_suspect := True\<rparr> else r)) rates"

fun parse_fx_rows :: "nat \<Rightarrow> (string \<rightharpoonup> string) list \<Rightarrow> parsed_rate list \<times> (nat \<times> error) list" where
  "parse_fx_rows n [] = ([], [])"
| "parse_fx_rows n (row # rows) =
     (let (rates, errs) = parse_fx_rows (n + 1) rows in
      case parse_fx_row n row of
        Inr r \<Rightarrow> (r # rates, errs)
      | Inl e \<Rightarrow> (rates, (n, e) # errs))"

definition parse_fx_csv ::
    "rat \<Rightarrow> string list \<Rightarrow> (string \<rightharpoonup> string) list \<Rightarrow> (parsed_rate list \<times> (nat \<times> error) list) res" where
  "parse_fx_csv outlier_percent fieldnames rows =
     (let fields = map (\<lambda>f. to_lower (strip f)) fieldnames in
      if \<not> {''date'', ''currency''} \<subseteq> set fields
         \<or> (''rate'' \<notin> set fields \<and> ''rate_inr'' \<notin> set fields)
      then Inl ValueError
      else (let (rates, errs) = parse_fx_rows 2 rows in Inr (flag_outliers outlier_percent rates, errs)))"

section \<open>Storing the rates\<close>

text \<open>A \<open>Numeric(18, 8)\<close> column keeps eight decimals, halves away from zero.\<close>

definition numeric8 :: "rat \<Rightarrow> rat" where
  "numeric8 x = of_int \<lfloor>x * 10 ^ 8 + 1 / 2\<rfloor> / 10 ^ 8"

definition rate_row :: "parsed_rate \<Rightarrow> fx_rate" where
  "rate_row r = \<lparr>rate_date = pr_date r, rate_currency = pr_currency r, rate_inr = numeric8 (pr_rate r),
                 rate_source = pr_source r, rate_suspect = pr_suspect r\<rparr>"

definition rate_key :: "fx_rate \<Rightarrow> date \<times> string \<times> nat" where
  "rate_key r = (rate_date r, rate_currency r, source_rank (rate_source r))"

text \<open>One chunk: the table check \<open>rate_inr > 0\<close> aborts the statement, a row whose
  key is present is skipped (also one earlier in the same chunk).\<close>

fun insert_rates :: "fx_rate list \<Rightarrow> fx_rate list \<Rightarrow> nat \<Rightarrow> (fx_rate list \<times> nat) res" where
  "insert_rates tbl [] n = Inr (tbl, n)"
| "insert_rates tbl (r # rs) n =
     (if rate_inr r \<le> 0 then Inl IntegrityError
      else if rate_key r \<in> set (map rate_key tbl) then insert_rates tbl rs n
      else insert_rates (tbl @ [r]) rs (n + 1))"

definition insert_many :: "fx_rate list \<Rightarrow> parsed_rate list \<Rightarrow> (fx_rate list \<times> nat \<times> nat) res" where
  "insert_many tbl rates =
     (case insert_rates tbl (map rate_row rates) 0 of
        Inl e \<Rightarrow> Inl e
      | Inr (tbl', inserted) \<Rightarrow> Inr (tbl', inserted, length rates - inserted))"

section \<open>Lemmas on quotes\<close>

definition better :: "fx_rate \<Rightarrow> fx_rate \<Rightarrow> bool" where
  "better r r' =
     (\<not> rate_suspect r \<and> rate_suspect r'
      \<or> rate_suspect r = rate_suspect r' \<and>
        (rate_date r' < rate_date r
         \<or> rate_date r' = rate_date r \<and> source_rank (rate_source r) \<le> source_rank (rate_source r')))"

lemma pick_rate_None: "pick_rate rows on st = None \<longleftrightarrow> eligible_rates rows on st = []"
  by (auto simp: pick_rate_def Let_def split: option.splits)

lemma pick_rate_eligible: "pick_rate rows on st = Some r \<Longrightarrow> r \<in> set (eligible_rates rows on st)"
  unfolding pick_rate_def Let_def
  by (auto split: option.splits if_splits dest!: first_min_in)

lemma pick_rate_better:
  assumes "pick_rate rows on st = Some r" "r' \<in> set (eligible_rates rows on st)"
  shows "better r r'"
proof -
  let ?el = "eligible_rates rows on st" and ?cl = "filter (\<lambda>r. \<not> rate_suspect r) (eligible_rates rows on st)"
  obtain b where b: "first_min (\<lambda>r. (- rate_date r, rate_suspect r, source_rank (rate_source r))) ?el = Some b"
    using assms(1) by (auto simp: pick_rate_def Let_def split: option.splits)
  note bk = first_min_in[OF b] first_min_le[OF b]
  show ?thesis
  proof (cases "rate_suspect b \<and> ?cl \<noteq> []")
    case True
    then have c: "first_min (\<lambda>r. (- rate_date r, source_rank (rate_source r))) ?cl = Some r"
      using assms(1) b by (simp add: pick_rate_def Let_def)
    have clean: "\<not> rate_suspect r" using first_min_in[OF c] by simp
    show ?thesis
    proof (cases "rate_suspect r'")
      case False
      then have "r' \<in> set ?cl" using assms(2) by simp
      from first_min_le[OF c this] show ?thesis using clean False by (auto simp: better_def)
    qed (use clean in \<open>simp add: better_def\<close>)
  next
    case False
    then have rb: "r = b" using assms(1) b by (auto simp: pick_rate_def Let_def)
    show ?thesis
    proof (cases "rate_suspect b")
      case True
      then have "?cl = []" using False by simp
      then have "rate_suspect r'" using assms(2) by (auto simp: filter_empty_conv)
      then show ?thesis using bk(2)[OF assms(2)] True rb by (auto simp: better_def)
    next
      case F: False
      then show ?thesis using bk(2)[OF assms(2)] rb by (auto simp: better_def)
    qed
  qed
qed

lemma source_rank_inj: "source_rank s = source_rank t \<longleftrightarrow> s = t"
  by (cases s; cases t; simp add: source_rank_def)

lemma better_antisym:
  "\<lbrakk>better r r'; better r' r\<rbrakk> \<Longrightarrow>
   rate_date r = rate_date r' \<and> source_rank (rate_source r) = source_rank (rate_source r')"
  by (auto simp: better_def)

text \<open>The table's unique index on (date, currency, source).\<close>

definition rates_unique :: "fx_rate list \<Rightarrow> bool" where
  "rates_unique rows = inj_on rate_key (set rows)"

lemma pick_rate_set:
  assumes "rates_unique rows" "\<forall>r \<in> set rows. rate_currency r = c" "set rows' = set rows"
  shows "pick_rate rows' on st = pick_rate rows on st"
proof -
  have el: "set (eligible_rates rows' on st) = set (eligible_rates rows on st)"
    using assms(3) by (auto simp: eligible_rates_def)
  have sub: "set (eligible_rates rows on st) \<subseteq> set rows" by (auto simp: eligible_rates_def)
  show ?thesis
  proof (cases "pick_rate rows on st")
    case None
    then have "eligible_rates rows on st = []" by (simp only: pick_rate_None)
    then have "eligible_rates rows' on st = []" using el by (metis set_empty)
    then have "pick_rate rows' on st = None" by (simp add: pick_rate_None)
    with None show ?thesis by simp
  next
    case (Some r)
    then have "eligible_rates rows on st \<noteq> []" using pick_rate_None[of rows on st] by force
    then have "eligible_rates rows' on st \<noteq> []" using el by (metis set_empty)
    then obtain r' where r': "pick_rate rows' on st = Some r'"
      using pick_rate_None[of rows' on st] by (cases "pick_rate rows' on st") auto
    have e1: "r \<in> set (eligible_rates rows on st)" using Some by (rule pick_rate_eligible)
    have e2: "r' \<in> set (eligible_rates rows on st)" using r' unfolding el[symmetric] by (rule pick_rate_eligible)
    have in1: "r \<in> set rows" and in2: "r' \<in> set rows" using e1 e2 sub by blast+
    have "better r r'" using Some e2 by (rule pick_rate_better)
    moreover have "better r' r" using r' e1 unfolding el[symmetric] by (rule pick_rate_better)
    ultimately have b: "better r r'" "better r' r" .
    then have "rate_key r = rate_key r'"
      using better_antisym[OF b] in1 in2 assms(2) by (simp add: rate_key_def)
    then have "r = r'" using assms(1) in1 in2 by (auto simp: rates_unique_def inj_on_def)
    then show ?thesis using Some r' by simp
  qed
qed

section \<open>The quote service behind an interface\<close>

text \<open>What a caller may ask of a quote source: answers that depend on the table
  alone, whatever was asked before.\<close>

locale quote_source =
  fixes get :: "'s \<Rightarrow> string \<Rightarrow> date \<Rightarrow> fx_quote option \<times> 's"
    and answer :: "'t \<Rightarrow> string \<Rightarrow> date \<Rightarrow> fx_quote option"
    and table :: "'s \<Rightarrow> 't"
    and good :: "'s \<Rightarrow> bool"
  assumes get_answer: "good s \<Longrightarrow> fst (get s c d) = answer (table s) c d"
    and get_table: "table (snd (get s c d)) = table s"
    and get_good: "good s \<Longrightarrow> good (snd (get s c d))"
begin

fun ask_all :: "'s \<Rightarrow> (string \<times> date) list \<Rightarrow> fx_quote option list \<times> 's" where
  "ask_all s [] = ([], s)"
| "ask_all s ((c, d) # qs) =
     (let (q, s') = get s c d; (as, s'') = ask_all s' qs in (q # as, s''))"

lemma ask_all_answers:
  "good s \<Longrightarrow>
   fst (ask_all s qs) = map (\<lambda>(c, d). answer (table s) c d) qs
   \<and> table (snd (ask_all s qs)) = table s \<and> good (snd (ask_all s qs))"
proof (induction qs arbitrary: s)
  case (Cons q qs)
  obtain c d where q: "q = (c, d)" by (cases q)
  show ?case using Cons.IH[OF get_good[OF Cons.prems, of c d]] get_answer[OF Cons.prems, of c d]
      get_table[of s c d]
    by (cases "get s c d"; cases "ask_all (snd (get s c d)) qs") (simp add: q)
qed simp

end

definition fx_answer :: "fx_rate list \<times> int \<Rightarrow> string \<Rightarrow> date \<Rightarrow> fx_quote option" where
  "fx_answer t c on = fst (fx_get (new_fx_service (fst t) (snd t)) c on)"

definition fx_good :: "fx_service \<Rightarrow> bool" where
  "fx_good svc =
     (\<forall>c on q. fx_cache svc (c, on) = Some q \<longrightarrow>
        q = pick_quote (query_rates svc c on) on (max_stale_days svc))"

lemma query_rates_cache [simp]: "query_rates (svc\<lparr>fx_cache := m\<rparr>) c on = query_rates svc c on"
  by (simp add: query_rates_def)

lemma fx_get_answer:
  "fx_good svc \<Longrightarrow> fst (fx_get svc c on) = fx_answer (fx_rates svc, max_stale_days svc) c on"
  by (auto simp: fx_answer_def fx_get_def new_fx_service_def fx_good_def query_rates_def Let_def
      split: option.splits)

lemma fx_get_good: "fx_good svc \<Longrightarrow> fx_good (snd (fx_get svc c on))"
  by (auto simp: fx_get_def fx_good_def Let_def split: option.splits)

interpretation fxq: quote_source fx_get fx_answer "\<lambda>svc. (fx_rates svc, max_stale_days svc)" fx_good
proof
  show "fst (fx_get s c d) = fx_answer (fx_rates s, max_stale_days s) c d" if "fx_good s" for s c d
    using that by (rule fx_get_answer)
  show "(fx_rates (snd (fx_get s c d)), max_stale_days (snd (fx_get s c d)))
        = (fx_rates s, max_stale_days s)" for s c d
    by (simp add: fx_get_def Let_def split: option.splits)
  show "fx_good (snd (fx_get s c d))" if "fx_good s" for s c d
    using that by (rule fx_get_good)
qed

text \<open>The sequence of quotes one service object gives to a sequence of requests.\<close>

fun fx_session :: "fx_service \<Rightarrow> (string \<times> date) list \<Rightarrow> fx_quote option list" where
  "fx_session svc [] = []"
| "fx_session svc ((c, on) # qs) = (let (q, svc') = fx_get svc c on in q # fx_session svc' qs)"

lemma fx_session_ask: "fx_session svc qs = fst (fxq.ask_all svc qs)"
  by (induction svc qs rule: fx_session.induct) (auto split: prod.splits)

section \<open>Lemmas on conversion, medians and insertion\<close>

lemma to_inr_minor_value:
  assumes "c \<noteq> ''INR''" "currency_exponent tbl ''INR'' = Inr ei" "currency_exponent tbl c = Inr ec"
    and "rate * 10 ^ 8 = of_int k" "\<bar>m * k\<bar> < 10 ^ 28"
  shows "to_inr_minor tbl m c rate = Inr (round_half_even (of_int m * rate * pow10 (ei - ec)))"
proof -
  have p8: "pow10 8 = 10 ^ 8" by (simp add: pow10_def)
  have e: "of_int m * rate * pow10 8 = of_int (m * k)" using assms(4) by (simp add: p8 mult.assoc)
  have 1: "dec_mul (of_int m) rate = of_int m * rate"
    unfolding dec_mul_def using assms(5) by (intro ctx28_exact[of _ 8]) (rule e)
  have "of_int m * rate * pow10 (ei - ec) * pow10 (8 - (ei - ec)) = of_int (m * k)"
    using e by (simp add: mult.assoc flip: pow10_add)
  then have "dec_mul (of_int m * rate) (pow10 (ei - ec)) = of_int m * rate * pow10 (ei - ec)"
    unfolding dec_mul_def using assms(5) by (rule ctx28_exact)
  then show ?thesis using assms(1-3) 1 by (simp add: to_inr_minor_def)
qed

lemma insert_rates_ext:
  "insert_rates tbl rs n = Inr (tbl', k) \<Longrightarrow>
   \<exists>new. tbl' = tbl @ new \<and> k = n + length new \<and> set new \<subseteq> set rs
     \<and> (\<forall>r \<in> set new. 0 < rate_inr r)
     \<and> (distinct (map rate_key tbl) \<longrightarrow> distinct (map rate_key tbl'))
     \<and> (\<forall>r \<in> set rs. rate_key r \<in> set (map rate_key tbl'))"
proof (induction tbl rs n arbitrary: k rule: insert_rates.induct)
  case (1 tbl n) then show ?case by simp
next
  case (2 tbl r rs n)
  have pos: "\<not> rate_inr r \<le> 0" using "2.prems" by (simp split: if_splits)
  show ?case
  proof (cases "rate_key r \<in> set (map rate_key tbl)")
    case True
    then have "insert_rates tbl rs n = Inr (tbl', k)" using "2.prems" pos by simp
    from "2.IH"(1)[OF pos True this] obtain new where "tbl' = tbl @ new" "k = n + length new"
      "set new \<subseteq> set rs" "\<forall>r \<in> set new. 0 < rate_inr r"
      "distinct (map rate_key tbl) \<longrightarrow> distinct (map rate_key tbl')"
      "\<forall>r \<in> set rs. rate_key r \<in> set (map rate_key tbl')" by blast
    then show ?thesis using True by (intro exI[of _ new]) auto
  next
    case False
    then have "insert_rates (tbl @ [r]) rs (n + 1) = Inr (tbl', k)" using "2.prems" pos by simp
    from "2.IH"(2)[OF pos False this] obtain new where n: "tbl' = (tbl @ [r]) @ new"
      "k = n + 1 + length new" "set new \<subseteq> set rs" "\<forall>r \<in> set new. 0 < rate_inr r"
      "distinct (map rate_key (tbl @ [r])) \<longrightarrow> distinct (map rate_key tbl')"
      "\<forall>r \<in> set rs. rate_key r \<in> set (map rate_key tbl')" by blast
    show ?thesis using n False pos by (intro exI[of _ "r # new"]) auto
  qed
qed

lemma insert_rates_count: "insert_rates tbl rs n = Inr (tbl', k) \<Longrightarrow> k \<le> n + length rs"
  by (induction tbl rs n arbitrary: k rule: insert_rates.induct) (force split: if_splits)+

section \<open>Properties\<close>

text \<open>C39. \<open>pick_quote\<close> returns a quote exactly when some rate lies in the staleness
  window, and then the quote of a rate of the window that no other rate of it
  beats: a clean rate whenever one exists, of the latest date among those of
  its kind, from the best source on that date. For rows of one currency with the
  table's unique key the answer does not depend on the order in which they arrive.\<close>

theorem pick_quote_optimal:
  "(pick_quote rows on st = None \<longleftrightarrow> (\<forall>r \<in> set rows. \<not> (0 \<le> on - rate_date r \<and> on - rate_date r \<le> st)))
   \<and> (\<forall>q. pick_quote rows on st = Some q \<longrightarrow>
        (\<exists>r \<in> set rows. q = quote_of r on \<and> 0 \<le> q_days_stale q \<and> q_days_stale q \<le> st
           \<and> (\<forall>r' \<in> set rows. 0 \<le> on - rate_date r' \<and> on - rate_date r' \<le> st \<longrightarrow> better r r')))
   \<and> (rates_unique rows \<and> (\<exists>c. \<forall>r \<in> set rows. rate_currency r = c) \<longrightarrow>
        (\<forall>rows'. set rows' = set rows \<longrightarrow> pick_quote rows' on st = pick_quote rows on st))"
proof (intro conjI allI impI)
  show "pick_quote rows on st = None \<longleftrightarrow> (\<forall>r \<in> set rows. \<not> (0 \<le> on - rate_date r \<and> on - rate_date r \<le> st))"
    by (auto simp: pick_quote_def pick_rate_None eligible_rates_def filter_empty_conv)
next
  fix q assume "pick_quote rows on st = Some q"
  then obtain r where r: "pick_rate rows on st = Some r" "q = quote_of r on"
    by (auto simp: pick_quote_def)
  show "\<exists>r \<in> set rows. q = quote_of r on \<and> 0 \<le> q_days_stale q \<and> q_days_stale q \<le> st
           \<and> (\<forall>r' \<in> set rows. 0 \<le> on - rate_date r' \<and> on - rate_date r' \<le> st \<longrightarrow> better r r')"
    using pick_rate_eligible[OF r(1)] pick_rate_better[OF r(1)] r(2)
    by (intro bexI[of _ r]) (auto simp: eligible_rates_def quote_of_def)
next
  fix rows' assume "rates_unique rows \<and> (\<exists>c. \<forall>r \<in> set rows. rate_currency r = c)" "set rows' = set rows"
  then have "pick_rate rows' on st = pick_rate rows on st" by (blast intro: pick_rate_set)
  then show "pick_quote rows' on st = pick_quote rows on st" unfolding pick_quote_def by (rule arg_cong)
qed

definition sample_rate :: "date \<Rightarrow> rat \<Rightarrow> fx_source \<Rightarrow> bool \<Rightarrow> fx_rate" where
  "sample_rate d x s b =
     \<lparr>rate_date = d, rate_currency = ''USD'', rate_inr = x, rate_source = s, rate_suspect = b\<rparr>"

theorem pick_quote_optimal_witness:
  "pick_quote [sample_rate 9 83 BANK_CARD False, sample_rate 9 84 RBI True] 10 3 \<noteq> None"
  using pick_quote_optimal[of "[sample_rate 9 83 BANK_CARD False, sample_rate 9 84 RBI True]" 10 3]
  by (simp add: sample_rate_def)

text \<open>The cache of \<open>FxService\<close> is invisible: whatever was asked before, a
  service answers every request as a fresh service with the same rates and
  window would.\<close>

theorem fx_session_cache_free:
  assumes "fx_good svc"
  shows "fx_session svc reqs = map (\<lambda>(c, on). fx_answer (fx_rates svc, max_stale_days svc) c on) reqs"
  using fxq.ask_all_answers[OF assms, of reqs] by (simp add: fx_session_ask)

theorem fx_session_cache_free_witness:
  "fx_session (new_fx_service [sample_rate 9 83 RBI False] 3) [(''USD'', 10), (''USD'', 10)]
   = [fx_answer ([sample_rate 9 83 RBI False], 3) ''USD'' 10,
      fx_answer ([sample_rate 9 83 RBI False], 3) ''USD'' 10]"
  using fx_session_cache_free[of "new_fx_service [sample_rate 9 83 RBI False] 3"
      "[(''USD'', 10), (''USD'', 10)]"]
  by (simp add: new_fx_service_def fx_good_def)

text \<open>\<open>to_inr_minor\<close> rounds once: for a rate as stored (eight decimals) and
  products of at most 28 digits its result is the exact product rounded half to
  even, so within half a paisa of it, and it is monotone in the amount.\<close>

theorem to_inr_minor_rounds_once:
  assumes "c \<noteq> ''INR''" "currency_exponent tbl ''INR'' = Inr ei" "currency_exponent tbl c = Inr ec"
    and "0 < rate" "rate * 10 ^ 8 = of_int k" "\<bar>m * k\<bar> < 10 ^ 28" "\<bar>m' * k\<bar> < 10 ^ 28"
  shows "\<exists>x y. to_inr_minor tbl m c rate = Inr x \<and> to_inr_minor tbl m' c rate = Inr y
     \<and> \<bar>of_int x - of_int m * rate * pow10 (ei - ec)\<bar> \<le> 1 / 2
     \<and> (m \<le> m' \<longrightarrow> x \<le> y)"
proof -
  have "round_half_even (of_int m * rate * pow10 (ei - ec)) \<le> round_half_even (of_int m' * rate * pow10 (ei - ec))"
    if "m \<le> m'"
    using that assms(4) by (intro round_half_even_mono mult_right_mono) (auto intro: less_imp_le)
  then show ?thesis
    using to_inr_minor_value[OF assms(1-3,5,6)] to_inr_minor_value[OF assms(1-3,5,7)]
      round_half_even_err[of "of_int m * rate * pow10 (ei - ec)"] by auto
qed

theorem to_inr_minor_rounds_once_witness:
  "\<exists>x y. to_inr_minor default_exponents 1000 ''USD'' 83 = Inr x
       \<and> to_inr_minor default_exponents 1001 ''USD'' 83 = Inr y \<and> x \<le> y"
  using to_inr_minor_rounds_once[of "''USD''" default_exponents 2 2 83 8300000000 1000 1001]
  by (auto simp: currency_exponent_def default_exponents_def text_eval)

text \<open>Storing rates never replaces one: the table after \<open>insert_many\<close> is the
  table before with new rows at the end, each key occurs once, every rate of the
  file has a row under its key afterwards, and inserted and skipped rows add up
  to the file's rates.\<close>

theorem insert_many_keeps_rates:
  assumes "distinct (map rate_key tbl)" "insert_many tbl rates = Inr (tbl', inserted, skipped)"
  shows "\<exists>new. tbl' = tbl @ new \<and> length new = inserted \<and> inserted + skipped = length rates
     \<and> distinct (map rate_key tbl') \<and> (\<forall>r \<in> set new. 0 < rate_inr r)
     \<and> (\<forall>p \<in> set rates. rate_key (rate_row p) \<in> set (map rate_key tbl'))"
proof -
  have ins: "insert_rates tbl (map rate_row rates) 0 = Inr (tbl', inserted)"
    and sk: "skipped = length rates - inserted"
    using assms(2) by (auto simp: insert_many_def split: sum.splits)
  from insert_rates_ext[OF ins] assms(1) obtain new where n: "tbl' = tbl @ new" "inserted = 0 + length new"
    "\<forall>r \<in> set new. 0 < rate_inr r" "distinct (map rate_key tbl')"
    "\<forall>r \<in> set (map rate_row rates). rate_key r \<in> set (map rate_key tbl')" by blast
  have "inserted \<le> length rates"
    using insert_rates_count[OF ins] by simp
  then show ?thesis using n sk by (intro exI[of _ new]) auto
qed

theorem insert_many_keeps_rates_witness:
  "\<exists>tbl' new. insert_many [sample_rate 9 83 RBI False]
      [\<lparr>pr_line = 2, pr_date = 9, pr_currency = ''USD'', pr_rate = 90, pr_source = RBI, pr_suspect = False\<rparr>,
       \<lparr>pr_line = 3, pr_date = 10, pr_currency = ''USD'', pr_rate = 84, pr_source = RBI, pr_suspect = False\<rparr>]
      = Inr (tbl', 1, 1) \<and> tbl' = sample_rate 9 83 RBI False # new"
proof -
  let ?ps = "[\<lparr>pr_line = 2, pr_date = 9, pr_currency = ''USD'', pr_rate = 90, pr_source = RBI, pr_suspect = False\<rparr>,
       \<lparr>pr_line = 3, pr_date = 10, pr_currency = ''USD'', pr_rate = 84, pr_source = RBI, pr_suspect = False\<rparr>]"
  have n: "0 < numeric8 90" "0 < numeric8 84" by code_simp+
  obtain tbl' where i: "insert_many [sample_rate 9 83 RBI False] ?ps = Inr (tbl', 1, 1)"
    using n by (auto simp: insert_many_def rate_row_def rate_key_def sample_rate_def not_le)
  from insert_many_keeps_rates[OF _ i] show ?thesis using i by auto
qed

end
