(* ===== verification/Json.thy ===== *)
theory Json
  imports PyText
begin

text \<open>
  JSON values and Python's \<open>json.dumps(v, sort_keys=True, separators=(",", ":"),
  ensure_ascii=False)\<close>. Text is a list of UTF-8 code units, so escaping (which
  touches ASCII characters only) commutes with the encoding. The main lemma:
  the text of a float-free value determines the value up to the order of the
  keys of its objects.
\<close>

section \<open>Values\<close>

datatype json =
    JNull
  | JBool bool
  | JInt int
  | JFloat
  | JStr string
  | JList "json list"
  | JObj "(string \<times> json) list"

text \<open>No float anywhere (the float's value plays no role, it is always refused).\<close>

fun no_float :: "json \<Rightarrow> bool" where
  "no_float JFloat = False"
| "no_float (JList vs) = list_all no_float vs"
| "no_float (JObj kvs) = list_all (\<lambda>kv. no_float (snd kv)) kvs"
| "no_float _ = True"

text \<open>Sorting the keys of every object.\<close>

primrec norm :: "json \<Rightarrow> json" where
  "norm JNull = JNull"
| "norm (JBool b) = JBool b"
| "norm (JInt i) = JInt i"
| "norm JFloat = JFloat"
| "norm (JStr s) = JStr s"
| "norm (JList vs) = JList (map norm vs)"
| "norm (JObj kvs) = JObj (sort_key fst (map (map_prod id norm) kvs))"

section \<open>Text\<close>

definition hex_digit :: "nat \<Rightarrow> char" where
  "hex_digit n = (if n < 10 then char_of (48 + n) else char_of (87 + n))"

definition esc :: "char \<Rightarrow> string" where
  "esc c =
     (if c = CHR 0x22 then [CHR 0x5C, CHR 0x22]
      else if c = CHR 0x5C then [CHR 0x5C, CHR 0x5C]
      else if code c = 8 then [CHR 0x5C, CHR ''b'']
      else if code c = 9 then [CHR 0x5C, CHR ''t'']
      else if code c = 10 then [CHR 0x5C, CHR ''n'']
      else if code c = 12 then [CHR 0x5C, CHR ''f'']
      else if code c = 13 then [CHR 0x5C, CHR ''r'']
      else if code c < 32 then
        [CHR 0x5C, CHR ''u'', CHR ''0'', CHR ''0'', hex_digit (code c div 16), hex_digit (code c mod 16)]
      else [c])"

definition dump_str :: "string \<Rightarrow> string" where
  "dump_str s = CHR 0x22 # concat (map esc s) @ [CHR 0x22]"

fun dump :: "json \<Rightarrow> string"
  and dump_items :: "json list \<Rightarrow> string"
  and dump_members :: "(string \<times> json) list \<Rightarrow> string" where
  "dump JNull = ''null''"
| "dump (JBool b) = (if b then ''true'' else ''false'')"
| "dump (JInt i) = int_str i"
| "dump JFloat = ''''"
| "dump (JStr s) = dump_str s"
| "dump (JList vs) =
     (case vs of [] \<Rightarrow> ''[]'' | v # r \<Rightarrow> CHR ''['' # dump v @ dump_items r)"
| "dump (JObj kvs) =
     (case kvs of [] \<Rightarrow> ''{}''
      | kv # r \<Rightarrow> CHR ''{'' # dump_str (fst kv) @ CHR '':'' # dump (snd kv) @ dump_members r)"
| "dump_items [] = '']''"
| "dump_items (v # r) = CHR '','' # dump v @ dump_items r"
| "dump_members [] = ''}''"
| "dump_members (kv # r) =
     CHR '','' # dump_str (fst kv) @ CHR '':'' # dump (snd kv) @ dump_members r"

definition dumps :: "json \<Rightarrow> string" where
  "dumps v = dump (norm v)"

lemma dumps_example:
  "dumps (JObj [(''b'', JList [JInt (- 1), JNull]), (''a'', JStr [CHR 0x22, CHR 0x0A])])
   = ''{'' @ dump_str ''a'' @ '':'' @ [CHR 0x22, CHR 0x5C, CHR 0x22, CHR 0x5C, CHR ''n'', CHR 0x22]
     @ '','' @ dump_str ''b'' @ '':[-1,null]}''"
  by (simp add: dumps_def dump_str_def esc_def int_str_def nat_str.simps text_eval hex_digit_def)

section \<open>Escaped strings can be read back\<close>

lemma hex_digit_inj: "\<lbrakk>m < 16; n < 16; hex_digit m = hex_digit n\<rbrakk> \<Longrightarrow> m = n"
proof -
  assume a: "m < 16" "n < 16" "hex_digit m = hex_digit n"
  then have "code (hex_digit m) = code (hex_digit n)" by simp
  then show ?thesis using a(1,2) by (auto simp: hex_digit_def split: if_splits)
qed

lemma code_quote: "code (CHR 0x22) = 34" "code (CHR 0x5C) = 92"
  by (simp_all add: code_def)

lemma esc_shape:
  "(esc c = [c] \<and> c \<noteq> CHR 0x22 \<and> c \<noteq> CHR 0x5C)
   \<or> (\<exists>d. esc c = [CHR 0x5C, d] \<and> d \<noteq> CHR ''u'')
   \<or> (esc c = [CHR 0x5C, CHR ''u'', CHR ''0'', CHR ''0'', hex_digit (code c div 16), hex_digit (code c mod 16)]
      \<and> code c < 32)"
  by (simp add: esc_def)

lemma esc_prefix:
  assumes "esc c @ x = esc d @ y"
  shows "c = d \<and> x = y"
proof -
  have short: "c = d" if "esc c = [CHR 0x5C, z]" "esc d = [CHR 0x5C, z]" for z
    using that by (auto simp: esc_def code_eq_iff[symmetric] code_quote split: if_splits)
      (simp_all add: code_def)
  have long: "c = d" if "hex_digit (code c div 16) = hex_digit (code d div 16)"
    "hex_digit (code c mod 16) = hex_digit (code d mod 16)" "code c < 32" "code d < 32"
  proof -
    have "code c div 16 = code d div 16" using that by (intro hex_digit_inj) auto
    moreover have "code c mod 16 = code d mod 16" using that by (intro hex_digit_inj) auto
    ultimately have "code c = code d" by (metis div_mult_mod_eq)
    then show ?thesis by (simp add: code_eq_iff)
  qed
  show ?thesis using assms esc_shape[of c] esc_shape[of d] short long by auto
qed

lemma esc_not_quote: "esc c @ x \<noteq> CHR 0x22 # y"
  using esc_shape[of c] by auto

lemma escaped_prefix:
  "concat (map esc s) @ CHR 0x22 # x = concat (map esc t) @ CHR 0x22 # y \<Longrightarrow> s = t \<and> x = y"
proof (induction s arbitrary: t)
  case Nil
  then show ?case using esc_not_quote by (cases t) (auto, metis)
next
  case (Cons c s)
  show ?case
  proof (cases t)
    case Nil
    then show ?thesis using Cons.prems esc_not_quote by auto
  next
    case (Cons d t')
    have "c = d \<and> concat (map esc s) @ CHR 0x22 # x = concat (map esc t') @ CHR 0x22 # y"
      using Cons.prems \<open>t = d # t'\<close> by (intro esc_prefix) simp
    then show ?thesis using Cons.IH \<open>t = d # t'\<close> by blast
  qed
qed

lemma dump_str_prefix: "dump_str s @ x = dump_str t @ y \<longleftrightarrow> s = t \<and> x = y"
  using escaped_prefix[of s x t y] by (auto simp: dump_str_def)

lemma dump_str_prefix_cons: "dump_str s @ x = dump_str t @ y \<Longrightarrow> s = t \<and> x = y"
  by (simp add: dump_str_prefix)

section \<open>Numbers can be read back\<close>

definition stops :: "string \<Rightarrow> bool" where
  "stops x = (x = [] \<or> hd x = CHR '','' \<or> hd x = CHR '']'' \<or> hd x = CHR ''}'')"

lemma stops_not_digit: "stops x \<Longrightarrow> takeWhile is_digit x = [] \<and> dropWhile is_digit x = x"
  by (cases x) (auto simp: stops_def is_digit_def code_def)

lemma nat_str_all_digits: "list_all is_digit (nat_str n)"
  using nat_str_digits by (auto simp: list_all_iff)

lemma nat_str_prefix:
  assumes "nat_str m @ x = nat_str n @ y" "takeWhile is_digit x = []" "takeWhile is_digit y = []"
  shows "m = n \<and> x = y"
proof -
  have tw: "takeWhile is_digit (nat_str k @ z) = nat_str k" if "takeWhile is_digit z = []" for k z
    using nat_str_all_digits[of k] that by (simp add: list_all_iff takeWhile_append2)
  have "nat_str m = nat_str n" using tw[OF assms(2), of m] tw[OF assms(3), of n] assms(1) by simp
  then show ?thesis using assms(1) by (simp add: nat_str_inj)
qed

lemma nat_str_not_minus: "nat_str n @ x \<noteq> CHR ''-'' # y"
proof
  assume e: "nat_str n @ x = CHR ''-'' # y"
  then have "hd (nat_str n) = CHR ''-''" by (metis hd_append2 list.sel(1) nat_str_nonempty)
  then show False using nat_str_hd_digit[of n] by (simp add: is_digit_def code_def)
qed

lemma int_str_prefix:
  assumes "int_str i @ x = int_str j @ y" "stops x" "stops y"
  shows "i = j \<and> x = y"
proof -
  have t: "takeWhile is_digit x = []" "takeWhile is_digit y = []"
    using assms(2,3) stops_not_digit by blast+
  consider "i < 0" "j < 0" | "i < 0" "\<not> j < 0" | "\<not> i < 0" "j < 0" | "\<not> i < 0" "\<not> j < 0" by blast
  then show ?thesis
  proof cases
    case 1
    then have "nat_str (nat (- i)) @ x = nat_str (nat (- j)) @ y" using assms(1) by (simp add: int_str_def)
    from nat_str_prefix[OF this t] show ?thesis using 1 by auto
  next
    case 2
    then show ?thesis using assms(1) nat_str_not_minus[of "nat j" y "nat_str (nat (- i)) @ x"]
      by (simp add: int_str_def)
  next
    case 3
    then show ?thesis using assms(1) nat_str_not_minus[of "nat i" x "nat_str (nat (- j)) @ y"]
      by (simp add: int_str_def)
  next
    case 4
    then have "nat_str (nat i) @ x = nat_str (nat j) @ y" using assms(1) by (simp add: int_str_def)
    from nat_str_prefix[OF this t] show ?thesis using 4 by auto
  qed
qed

lemma int_str_hd: "is_digit (hd (int_str i)) \<or> hd (int_str i) = CHR ''-''"
  using nat_str_hd_digit by (simp add: int_str_def)

lemma int_str_nonempty: "int_str i \<noteq> []"
  by (simp add: int_str_def)

section \<open>Whole values can be read back\<close>

lemma dump_nonempty: "no_float v \<Longrightarrow> dump v \<noteq> []"
  by (cases v) (auto simp: int_str_nonempty dump_str_def split: list.splits)

text \<open>The first character tells the constructors apart.\<close>

fun tag :: "json \<Rightarrow> nat" where
  "tag JNull = 0" | "tag (JBool b) = (if b then 1 else 2)" | "tag (JInt i) = 3" | "tag JFloat = 4"
| "tag (JStr s) = 5" | "tag (JList vs) = 6" | "tag (JObj kvs) = 7"

definition char_tag :: "char \<Rightarrow> nat" where
  "char_tag c =
     (if c = CHR ''n'' then 0 else if c = CHR ''t'' then 1 else if c = CHR ''f'' then 2
      else if is_digit c \<or> c = CHR ''-'' then 3 else if c = CHR 0x22 then 5
      else if c = CHR ''['' then 6 else if c = CHR ''{'' then 7 else 4)"

lemma char_tag_number: "is_digit c \<or> c = CHR ''-'' \<Longrightarrow> char_tag c = 3"
  by (auto simp: char_tag_def is_digit_def code_def)

lemma char_tag_hd: "no_float v \<Longrightarrow> char_tag (hd (dump v @ x)) = tag v"
proof (cases v)
  case (JInt i)
  have "hd (int_str i @ x) = hd (int_str i)" by (simp add: int_str_nonempty)
  then show ?thesis using JInt int_str_hd[of i] char_tag_number by simp
qed (auto simp: dump_str_def char_tag_def is_digit_def code_def split: list.splits)

lemma tag_eq: "\<lbrakk>dump v @ x = dump w @ y; no_float v; no_float w\<rbrakk> \<Longrightarrow> tag v = tag w"
  using char_tag_hd by metis

lemma dump_not_close: "no_float v \<Longrightarrow> dump v @ x \<noteq> CHR '']'' # y"
proof
  assume a: "no_float v" and e: "dump v @ x = CHR '']'' # y"
  have "tag v = char_tag (CHR '']'')" using char_tag_hd[OF a, of x] by (simp add: e)
  also have "\<dots> = 4" by (simp add: char_tag_def is_digit_def code_def)
  finally show False using a by (cases v) (simp_all split: if_splits)
qed

lemma tag_inv:
  "tag w = 0 \<longleftrightarrow> w = JNull" "tag w = 1 \<longleftrightarrow> w = JBool True" "tag w = 2 \<longleftrightarrow> w = JBool False"
  "tag w = 3 \<longleftrightarrow> (\<exists>i. w = JInt i)" "tag w = 5 \<longleftrightarrow> (\<exists>s. w = JStr s)"
  "tag w = 6 \<longleftrightarrow> (\<exists>vs. w = JList vs)" "tag w = 7 \<longleftrightarrow> (\<exists>kvs. w = JObj kvs)"
  by (cases w; simp)+

lemma stops_items: "stops (dump_items vs @ x)" "stops (dump_members kvs @ x)"
  by (cases vs; cases kvs; simp add: stops_def)+

lemma dump_prefix:
  "\<lbrakk>dump v @ x = dump w @ y; stops x; stops y; no_float v; no_float w\<rbrakk> \<Longrightarrow> v = w \<and> x = y"
  "\<lbrakk>dump_items vs @ x = dump_items ws @ y; list_all no_float vs; list_all no_float ws\<rbrakk>
   \<Longrightarrow> vs = ws \<and> x = y"
  "\<lbrakk>dump_members kvs @ x = dump_members lws @ y; list_all (\<lambda>kv. no_float (snd kv)) kvs;
    list_all (\<lambda>kv. no_float (snd kv)) lws\<rbrakk> \<Longrightarrow> kvs = lws \<and> x = y"
proof (induction v and vs and kvs arbitrary: w x y and ws x y and lws x y
    rule: dump_dump_items_dump_members.induct)
  case 1
  have w: "w = JNull" using tag_eq[OF "1.prems"(1,4,5)] tag_inv(1) by auto
  show ?case using "1.prems"(1) unfolding w same_append_eq by simp
next
  case (2 b)
  have "tag w = (if b then 1 else 2)" using tag_eq[OF "2.prems"(1,4,5)] by (simp only: tag.simps)
  then have w: "w = JBool b" using tag_inv(2,3)[of w] by (cases b) simp_all
  show ?case using "2.prems"(1) unfolding w same_append_eq by simp
next
  case (3 i)
  have "tag w = 3" using tag_eq[OF "3.prems"(1,4,5)] by (simp only: tag.simps)
  then obtain j where w: "w = JInt j" unfolding tag_inv(4) by (elim exE)
  have "int_str i @ x = int_str j @ y" using "3.prems"(1) w by (simp only: dump.simps)
  from int_str_prefix[OF this "3.prems"(2,3)] show ?case using w by simp
next
  case 4 then show ?case by simp
next
  case (5 s)
  have "tag w = 5" using tag_eq[OF "5.prems"(1,4,5)] by (simp only: tag.simps)
  then obtain t where w: "w = JStr t" unfolding tag_inv(5) by (elim exE)
  have "dump_str s @ x = dump_str t @ y" using "5.prems"(1) w by (simp only: dump.simps)
  then show ?case using w by (simp add: dump_str_prefix)
next
  case (6 vs)
  have "tag w = 6" using tag_eq[OF "6.prems"(1,4,5)] by (simp only: tag.simps)
  then obtain ws where w: "w = JList ws" unfolding tag_inv(6) by (elim exE)
  show ?case
  proof (cases vs)
    case Nil
    show ?thesis
    proof (cases ws)
      case Nil then show ?thesis using "6.prems" w \<open>vs = []\<close> by simp
    next
      case (Cons w' r')
      have "dump w' @ (dump_items r' @ y) = CHR '']'' # x" using "6.prems"(1) w Nil Cons by simp
      moreover have "no_float w'" using "6.prems"(5) w Cons by simp
      ultimately show ?thesis using dump_not_close by blast
    qed
  next
    case (Cons v' r)
    note vs = this
    show ?thesis
    proof (cases ws)
      case Nil
      have "dump v' @ (dump_items r @ x) = CHR '']'' # y" using "6.prems"(1) w vs Nil by simp
      moreover have "no_float v'" using "6.prems"(4) vs by simp
      ultimately show ?thesis using dump_not_close by blast
    next
      case (Cons w' r')
      have "dump v' @ (dump_items r @ x) = dump w' @ (dump_items r' @ y)"
        using "6.prems"(1) w vs Cons by simp
      then have "v' = w' \<and> dump_items r @ x = dump_items r' @ y"
        by (rule "6.IH"(1)[OF vs]) (use "6.prems"(4,5) w vs Cons stops_items in simp_all)
      then have e: "v' = w'" "dump_items r @ x = dump_items r' @ y" by simp_all
      show ?thesis using "6.IH"(2)[OF vs e(2)] "6.prems"(4,5) w vs Cons e(1) by simp
    qed
  qed
next
  case (7 kvs)
  have "tag w = 7" using tag_eq[OF "7.prems"(1,4,5)] by (simp only: tag.simps)
  then obtain lws where w: "w = JObj lws" unfolding tag_inv(7) by (elim exE)
  show ?case
  proof (cases kvs)
    case Nil
    from "7.prems"(1) show ?thesis unfolding w Nil by (cases lws) (simp_all add: dump_str_def)
  next
    case (Cons kv r)
    note kvs = this
    show ?thesis
    proof (cases lws)
      case Nil
      from "7.prems"(1) show ?thesis unfolding w kvs Nil by (simp add: dump_str_def)
    next
      case (Cons lw r')
      have "dump_str (fst kv) @ (CHR '':'' # dump (snd kv) @ dump_members r @ x)
          = dump_str (fst lw) @ (CHR '':'' # dump (snd lw) @ dump_members r' @ y)"
        using "7.prems"(1) w kvs Cons by simp
      then have k: "fst kv = fst lw" and
        v: "dump (snd kv) @ (dump_members r @ x) = dump (snd lw) @ (dump_members r' @ y)"
        by (simp_all add: dump_str_prefix)
      have "snd kv = snd lw \<and> dump_members r @ x = dump_members r' @ y"
        by (rule "7.IH"(1)[OF kvs v]) (use "7.prems"(4,5) w kvs Cons stops_items in simp_all)
      then have e: "snd kv = snd lw" "dump_members r @ x = dump_members r' @ y" by simp_all
      show ?thesis using "7.IH"(2)[OF kvs e(2)] "7.prems"(4,5) w kvs Cons k e(1) by (simp add: prod_eq_iff)
    qed
  qed
next
  case 8
  from "8.prems"(1) show ?case by (cases ws) simp_all
next
  case (9 v r)
  from "9.prems"(1) obtain w' r' where ws: "ws = w' # r'" by (cases ws) simp_all
  have p: "dump v @ (dump_items r @ x) = dump w' @ (dump_items r' @ y)" using "9.prems"(1) ws by simp
  have "v = w' \<and> dump_items r @ x = dump_items r' @ y"
    by (rule "9.IH"(1)[OF p]) (use "9.prems"(2,3) ws stops_items in simp_all)
  then have e: "v = w'" "dump_items r @ x = dump_items r' @ y" by simp_all
  show ?case using "9.IH"(2)[OF e(2)] "9.prems"(2,3) ws e(1) by simp
next
  case 10
  from "10.prems"(1) show ?case by (cases lws) simp_all
next
  case (11 kv r)
  from "11.prems"(1) obtain lw r' where lws: "lws = lw # r'" by (cases lws) simp_all
  have "dump_str (fst kv) @ (CHR '':'' # dump (snd kv) @ dump_members r @ x)
      = dump_str (fst lw) @ (CHR '':'' # dump (snd lw) @ dump_members r' @ y)"
    using "11.prems"(1) lws by simp
  then have k: "fst kv = fst lw" and
    v: "dump (snd kv) @ (dump_members r @ x) = dump (snd lw) @ (dump_members r' @ y)"
    by (simp_all add: dump_str_prefix)
  have "snd kv = snd lw \<and> dump_members r @ x = dump_members r' @ y"
    by (rule "11.IH"(1)[OF v]) (use "11.prems"(2,3) lws stops_items in simp_all)
  then have e: "snd kv = snd lw" "dump_members r @ x = dump_members r' @ y" by simp_all
  show ?case using "11.IH"(2)[OF e(2)] "11.prems"(2,3) lws k e(1) by (simp add: prod_eq_iff)
qed

lemma norm_no_float: "no_float v \<Longrightarrow> no_float (norm v)"
  by (induction v rule: no_float.induct) (auto simp: list_all_iff)

theorem dumps_inj: "\<lbrakk>dumps v = dumps w; no_float v; no_float w\<rbrakk> \<Longrightarrow> norm v = norm w"
  using dump_prefix(1)[of "norm v" "[]" "norm w" "[]"] by (simp add: dumps_def norm_no_float stops_def)

end
