(* ===== verification/Clock.thy ===== *)
theory Clock
  imports Calendar PyText
begin

text \<open>
  Timestamps. An instant is the number of microseconds since 0001-01-01T00:00:00
  UTC, so comparing instants and adding a \<open>timedelta\<close> is integer arithmetic. This
  theory gives the date of an ordinal, the ISO text of a date and the UTC text
  of an instant with six microsecond digits, and shows that the texts determine
  the date and the instant.
\<close>

type_synonym instant = int

definition day_micros :: int where "day_micros = 86400000000"
definition hour_micros :: int where "hour_micros = 3600000000"
definition minute_micros :: int where "minute_micros = 60000000"
definition second_micros :: int where "second_micros = 1000000"

definition date_of :: "instant \<Rightarrow> date" where
  "date_of t = t div day_micros + 1"

section \<open>The date of an ordinal\<close>

lemma days_before_year_less: "days_before_year y < days_before_year (y + 1)"
proof -
  let ?z = "y - 1"
  have "?z div 4 \<le> (?z + 1) div 4" "(?z + 1) div 100 \<le> ?z div 100 + 1" "?z div 400 \<le> (?z + 1) div 400"
    by (simp_all add: zdiv_mono1)
  then show ?thesis by (simp add: days_before_year_def Let_def)
qed

function find_year :: "int \<Rightarrow> int \<Rightarrow> int" where
  "find_year n y = (if n \<le> days_before_year (y + 1) then y else find_year n (y + 1))"
  by pat_completeness auto
termination
proof (relation "measure (\<lambda>(n, y). nat (n - days_before_year y))", goal_cases)
  case (2 n y)
  then show ?case using days_before_year_less[of y] by auto
qed simp

declare find_year.simps [simp del]

definition year_of :: "date \<Rightarrow> int" where
  "year_of n = find_year n (let g = n * 400 div 146097 in if days_before_year g < n then g else 1)"

function find_month :: "int \<Rightarrow> int \<Rightarrow> int \<Rightarrow> int" where
  "find_month k y m =
     (if 12 \<le> m \<or> k \<le> days_before_month y (m + 1) then m else find_month k y (m + 1))"
  by pat_completeness auto
termination by (relation "measure (\<lambda>(k, y, m). nat (12 - m))") auto

declare find_month.simps [simp del]

definition month_of :: "date \<Rightarrow> int" where
  "month_of n = find_month (n - days_before_year (year_of n)) (year_of n) 1"

definition day_of :: "date \<Rightarrow> int" where
  "day_of n = n - days_before_year (year_of n) - days_before_month (year_of n) (month_of n)"

lemma find_year_below: "days_before_year y < n \<Longrightarrow> days_before_year (find_year n y) < n \<and> y \<le> find_year n y"
proof (induction n y rule: find_year.induct)
  case (1 n y)
  show ?case
  proof (cases "n \<le> days_before_year (y + 1)")
    case True then show ?thesis using 1 by (simp add: find_year.simps)
  next
    case False
    then have "days_before_year (find_year n (y + 1)) < n \<and> y + 1 \<le> find_year n (y + 1)"
      using "1.IH" by simp
    then show ?thesis using False by (subst (1 2) find_year.simps) simp
  qed
qed

lemma year_of_below: "1 \<le> n \<Longrightarrow> days_before_year (year_of n) < n"
proof -
  assume "1 \<le> n"
  then have "days_before_year 1 < n" by (simp add: days_before_year_def)
  then show ?thesis unfolding year_of_def Let_def using find_year_below by auto
qed

lemma year_of_pos: "1 \<le> n \<Longrightarrow> 0 \<le> year_of n"
proof -
  assume n: "1 \<le> n"
  then have b: "days_before_year 1 < n" by (simp add: days_before_year_def)
  have "0 \<le> n * 400 div 146097" using n by simp
  then show ?thesis unfolding year_of_def Let_def using find_year_below b
    by (smt (verit, best))
qed

lemma find_month_below:
  "\<lbrakk>days_before_month y m < k; 1 \<le> m; m \<le> 12\<rbrakk> \<Longrightarrow>
   days_before_month y (find_month k y m) < k \<and> 1 \<le> find_month k y m \<and> find_month k y m \<le> 12"
proof (induction k y m rule: find_month.induct)
  case (1 k y m)
  show ?case
  proof (cases "12 \<le> m \<or> k \<le> days_before_month y (m + 1)")
    case True then show ?thesis using 1 by (simp add: find_month.simps)
  next
    case False
    then have "days_before_month y (find_month k y (m + 1)) < k \<and> 1 \<le> find_month k y (m + 1)
        \<and> find_month k y (m + 1) \<le> 12" using 1 by simp
    then show ?thesis using False by (subst (1 2 3) find_month.simps) simp
  qed
qed

lemma month_day_pos: "1 \<le> n \<Longrightarrow> 1 \<le> month_of n \<and> month_of n \<le> 12 \<and> 1 \<le> day_of n"
  using year_of_below[of n] find_month_below[of "year_of n" 1 "n - days_before_year (year_of n)"]
  by (simp add: month_of_def day_of_def days_before_month_def)

section \<open>Text of dates and instants\<close>

definition zpad :: "nat \<Rightarrow> nat \<Rightarrow> string" where
  "zpad w n = (let s = nat_str n in replicate (w - length s) (CHR ''0'') @ s)"

definition date_iso :: "date \<Rightarrow> string" where
  "date_iso n =
     zpad 4 (nat (year_of n)) @ CHR ''-'' # zpad 2 (nat (month_of n)) @ CHR ''-'' # zpad 2 (nat (day_of n))"

text \<open>\<open>astimezone(UTC).strftime("%Y-%m-%dT%H:%M:%S.%fZ")\<close>; the platform's \<open>%Y\<close> does
  not pad the year.\<close>

definition utc_text :: "instant \<Rightarrow> string" where
  "utc_text t =
     (let n = date_of t; r = t mod day_micros in
      nat_str (nat (year_of n)) @ CHR ''-'' # zpad 2 (nat (month_of n)) @ CHR ''-'' # zpad 2 (nat (day_of n))
      @ CHR ''T'' # zpad 2 (nat (r div hour_micros))
      @ CHR '':'' # zpad 2 (nat (r mod hour_micros div minute_micros))
      @ CHR '':'' # zpad 2 (nat (r mod minute_micros div second_micros))
      @ CHR ''.'' # zpad 6 (nat (r mod second_micros)) @ ''Z'')"

lemma date_iso_example: "date_iso 739690 = ''2026-03-15''"
  by code_simp

lemma digits_val_append_zeros: "digits_val (replicate k (CHR ''0'') @ s) = digits_val s"
  by (induction k) (auto simp: digits_val_def digit_of_def code_def)

lemma zpad_val [simp]: "digits_val (zpad w n) = n"
  by (simp add: zpad_def Let_def digits_val_append_zeros)

lemma zpad_digits: "list_all is_digit (zpad w n)"
  using nat_str_digits[of _ n] by (auto simp: zpad_def Let_def list_all_iff is_digit_def code_def)

lemma digits_prefix:
  assumes "s @ x = t @ y" "list_all is_digit s" "list_all is_digit t"
    "takeWhile is_digit x = []" "takeWhile is_digit y = []"
  shows "s = t \<and> x = y"
proof -
  have a: "takeWhile is_digit (s @ x) = s"
    using assms(2,4) by (simp add: list_all_iff takeWhile_append2)
  have "takeWhile is_digit (t @ y) = t"
    using assms(3,5) by (simp add: list_all_iff takeWhile_append2)
  then have "s = t" using a unfolding assms(1) by simp
  then show ?thesis using assms(1) by simp
qed

lemma zpad_prefix:
  assumes "zpad w m @ c # x = zpad w n @ c # y" "\<not> is_digit c"
  shows "m = n \<and> x = y"
proof -
  have "zpad w m = zpad w n \<and> c # x = c # y"
    using assms by (intro digits_prefix) (auto simp: zpad_digits)
  then show ?thesis by (metis list.inject zpad_val)
qed

lemma not_digits: "\<not> is_digit (CHR ''-'')" "\<not> is_digit (CHR '':'')" "\<not> is_digit (CHR ''T'')"
  "\<not> is_digit (CHR ''.'')" "\<not> is_digit (CHR ''Z'')"
  by (simp_all add: is_digit_def code_def)

lemma nat_str_sep:
  assumes "nat_str m @ CHR ''-'' # x = nat_str n @ CHR ''-'' # y"
  shows "m = n \<and> x = y"
proof -
  have "nat_str m = nat_str n \<and> CHR ''-'' # x = CHR ''-'' # y"
    using assms nat_str_digits by (intro digits_prefix) (auto simp: list_all_iff not_digits)
  then show ?thesis by (simp add: nat_str_inj)
qed

lemma date_parts_inj:
  assumes "1 \<le> m" "1 \<le> n" "nat (year_of m) = nat (year_of n)" "nat (month_of m) = nat (month_of n)"
    "nat (day_of m) = nat (day_of n)"
  shows "m = n"
proof -
  have e: "year_of m = year_of n" "month_of m = month_of n" "day_of m = day_of n"
    using assms year_of_pos[OF assms(1)] year_of_pos[OF assms(2)] month_day_pos[OF assms(1)]
      month_day_pos[OF assms(2)] by auto
  have d: "k = day_of k + days_before_year (year_of k) + days_before_month (year_of k) (month_of k)" for k
    by (simp add: day_of_def)
  show ?thesis using d[of m] d[of n] e by simp
qed

lemma date_iso_inj:
  assumes "1 \<le> m" "1 \<le> n" "date_iso m = date_iso n"
  shows "m = n"
proof -
  from assms(3) have 1: "nat (year_of m) = nat (year_of n)"
    and 2: "zpad 2 (nat (month_of m)) @ CHR ''-'' # zpad 2 (nat (day_of m))
            = zpad 2 (nat (month_of n)) @ CHR ''-'' # zpad 2 (nat (day_of n))"
    unfolding date_iso_def using zpad_prefix not_digits(1) by blast+
  from 2 have 3: "nat (month_of m) = nat (month_of n)" "zpad 2 (nat (day_of m)) = zpad 2 (nat (day_of n))"
    using zpad_prefix not_digits(1) by blast+
  then show ?thesis using 1 assms(1,2) by (intro date_parts_inj) (auto, metis zpad_val)
qed

lemma time_parts:
  "r = (r div hour_micros) * hour_micros + (r mod hour_micros div minute_micros) * minute_micros
       + (r mod minute_micros div second_micros) * second_micros + r mod second_micros"
proof -
  have 1: "r mod hour_micros mod minute_micros = r mod minute_micros"
    by (rule mod_mod_cancel) (simp add: hour_micros_def minute_micros_def)
  have 2: "r mod minute_micros mod second_micros = r mod second_micros"
    by (rule mod_mod_cancel) (simp add: second_micros_def minute_micros_def)
  show ?thesis
    using div_mult_mod_eq[of r hour_micros] div_mult_mod_eq[of "r mod hour_micros" minute_micros]
      div_mult_mod_eq[of "r mod minute_micros" second_micros]
    unfolding 1 2 by linarith
qed

lemma nat_inj_nonneg: "\<lbrakk>nat x = nat y; 0 \<le> x; 0 \<le> y\<rbrakk> \<Longrightarrow> x = y"
  by simp

lemma micros_pos: "0 < day_micros" "0 < hour_micros" "0 < minute_micros" "0 < second_micros"
  by (simp_all add: day_micros_def hour_micros_def minute_micros_def second_micros_def)

lemma micros_nonneg:
  "0 \<le> t mod day_micros div hour_micros"
  "0 \<le> t mod hour_micros div minute_micros" "0 \<le> t mod minute_micros div second_micros"
  "0 \<le> t mod second_micros"
  using micros_pos by (simp_all add: pos_imp_zdiv_nonneg_iff)

lemma utc_text_inj:
  assumes "0 \<le> t" "0 \<le> u" "utc_text t = utc_text u"
  shows "t = u"
proof -
  let ?a = "t mod day_micros" and ?b = "u mod day_micros"
  have n1: "1 \<le> date_of t" "1 \<le> date_of u"
    using assms(1,2) by (simp_all add: date_of_def day_micros_def pos_imp_zdiv_nonneg_iff)
  note e = assms(3)[unfolded utc_text_def Let_def]
  from nat_str_sep[OF e] have 1: "nat (year_of (date_of t)) = nat (year_of (date_of u))" by blast
  note e2 = conjunct2[OF nat_str_sep[OF e]]
  from zpad_prefix[OF e2 not_digits(1)] have 2: "nat (month_of (date_of t)) = nat (month_of (date_of u))" by blast
  note e3 = conjunct2[OF zpad_prefix[OF e2 not_digits(1)]]
  from zpad_prefix[OF e3 not_digits(3)] have 3: "nat (day_of (date_of t)) = nat (day_of (date_of u))" by blast
  note e4 = conjunct2[OF zpad_prefix[OF e3 not_digits(3)]]
  from zpad_prefix[OF e4 not_digits(2)] have 4: "nat (?a div hour_micros) = nat (?b div hour_micros)" by blast
  note e5 = conjunct2[OF zpad_prefix[OF e4 not_digits(2)]]
  from zpad_prefix[OF e5 not_digits(2)]
  have 5: "nat (?a mod hour_micros div minute_micros) = nat (?b mod hour_micros div minute_micros)" by blast
  note e6 = conjunct2[OF zpad_prefix[OF e5 not_digits(2)]]
  from zpad_prefix[OF e6 not_digits(4)]
  have 6: "nat (?a mod minute_micros div second_micros) = nat (?b mod minute_micros div second_micros)" by blast
  note e7 = conjunct2[OF zpad_prefix[OF e6 not_digits(4)]]
  from zpad_prefix[OF e7 not_digits(5)] have 7: "nat (?a mod second_micros) = nat (?b mod second_micros)" by blast
  have "date_of t = date_of u" by (rule date_parts_inj[OF n1 1 2 3])
  then have "t div day_micros = u div day_micros" by (simp add: date_of_def)
  moreover have "?a = ?b"
  proof -
    have e1: "?a div hour_micros = ?b div hour_micros"
      by (rule nat_inj_nonneg[OF 4 micros_nonneg(1) micros_nonneg(1)])
    have e2: "?a mod hour_micros div minute_micros = ?b mod hour_micros div minute_micros"
      by (rule nat_inj_nonneg[OF 5 micros_nonneg(2) micros_nonneg(2)])
    have e3: "?a mod minute_micros div second_micros = ?b mod minute_micros div second_micros"
      by (rule nat_inj_nonneg[OF 6 micros_nonneg(3) micros_nonneg(3)])
    have e4: "?a mod second_micros = ?b mod second_micros"
      by (rule nat_inj_nonneg[OF 7 micros_nonneg(4) micros_nonneg(4)])
    have "?a = (?a div hour_micros) * hour_micros + (?a mod hour_micros div minute_micros) * minute_micros
       + (?a mod minute_micros div second_micros) * second_micros + ?a mod second_micros"
      by (rule time_parts)
    also have "\<dots> = (?b div hour_micros) * hour_micros + (?b mod hour_micros div minute_micros) * minute_micros
       + (?b mod minute_micros div second_micros) * second_micros + ?b mod second_micros"
      by (simp only: e1 e2 e3 e4)
    also have "\<dots> = ?b" by (rule time_parts[symmetric])
    finally show ?thesis .
  qed
  ultimately show ?thesis by (metis div_mult_mod_eq)
qed

end
