(* ===== verification/AuditChain.thy ===== *)
theory AuditChain
  imports Json Clock
begin

text \<open>
  Model of \<open>src/recon/audit\<close>: the canonical text of an entry (\<open>canonical.py\<close>), the
  logger that appends to a hash chain (\<open>logger.py\<close>) and the verifier
  (\<open>verifier.py\<close>). The digest (\<open>hashlib.sha256(...).hexdigest()\<close>) is a parameter
  \<open>sha\<close>; where a lemma needs that two texts do not collide it says so. The log is
  the list of rows of \<open>audit.audit_log\<close> in insertion order.
\<close>

section \<open>Actions and chains\<close>

datatype audit_action =
    INGEST | NORMALISE | MATCH | UNMATCH | RESOLVE | ESCALATE | OVERRIDE | RUN_STATE_CHANGE
  | CONFIG_CHANGE | EXCEPTION_CREATE | MATCH_CONFIRM | MATCH_REJECT | ASSIGN | FILE_VERIFY

definition action_text :: "audit_action \<Rightarrow> string" where
  "action_text a =
     (case a of INGEST \<Rightarrow> ''INGEST'' | NORMALISE \<Rightarrow> ''NORMALISE'' | MATCH \<Rightarrow> ''MATCH''
      | UNMATCH \<Rightarrow> ''UNMATCH'' | RESOLVE \<Rightarrow> ''RESOLVE'' | ESCALATE \<Rightarrow> ''ESCALATE''
      | OVERRIDE \<Rightarrow> ''OVERRIDE'' | RUN_STATE_CHANGE \<Rightarrow> ''RUN_STATE_CHANGE''
      | CONFIG_CHANGE \<Rightarrow> ''CONFIG_CHANGE'' | EXCEPTION_CREATE \<Rightarrow> ''EXCEPTION_CREATE''
      | MATCH_CONFIRM \<Rightarrow> ''MATCH_CONFIRM'' | MATCH_REJECT \<Rightarrow> ''MATCH_REJECT''
      | ASSIGN \<Rightarrow> ''ASSIGN'' | FILE_VERIFY \<Rightarrow> ''FILE_VERIFY'')"

definition exceptions_chain :: string where "exceptions_chain = ''exceptions''"
definition matching_chain :: string where "matching_chain = ''matching''"
definition runs_chain :: string where "runs_chain = ''runs''"

section \<open>Entries and their canonical text\<close>

record audit_fields =
  event_id :: nat
  chain_id :: string
  sequence_no :: int
  occurred_at :: instant
  tz_aware :: bool
  actor_type :: string
  actor_id :: string
  action_type :: string
  affected_records :: json
  before_state :: json
  after_state :: json
  rationale :: string
  prev_hash :: "string option"
  serialisation_version :: int

record audit_row = audit_fields +
  current_hash :: string

text \<open>\<open>str(uuid)\<close>: 32 hexadecimal digits in groups of 8, 4, 4, 4 and 12.\<close>

fun hex_str :: "nat \<Rightarrow> nat \<Rightarrow> string" where
  "hex_str 0 n = []"
| "hex_str (Suc w) n = hex_str w (n div 16) @ [hex_digit (n mod 16)]"

definition uuid_str :: "nat \<Rightarrow> string" where
  "uuid_str n =
     (let h = hex_str 32 n in
      take 8 h @ CHR ''-'' # take 4 (drop 8 h) @ CHR ''-'' # take 4 (drop 12 h)
      @ CHR ''-'' # take 4 (drop 16 h) @ CHR ''-'' # drop 20 h)"

definition json_hash :: "string option \<Rightarrow> json" where
  "json_hash h = (case h of None \<Rightarrow> JNull | Some s \<Rightarrow> JStr s)"

definition payload :: "('a) audit_fields_scheme \<Rightarrow> (string \<times> json) list" where
  "payload f =
     [(''v'', JInt (serialisation_version f)),
      (''event_id'', JStr (uuid_str (event_id f))),
      (''chain_id'', JStr (chain_id f)),
      (''seq'', JInt (sequence_no f)),
      (''occurred_at'', JStr (utc_text (occurred_at f))),
      (''actor_type'', JStr (actor_type f)),
      (''actor_id'', JStr (actor_id f)),
      (''action_type'', JStr (action_type f)),
      (''affected_records'', affected_records f),
      (''before_state'', before_state f),
      (''after_state'', after_state f),
      (''rationale'', JStr (rationale f)),
      (''prev_hash'', json_hash (prev_hash f))]"

definition canonical_bytes :: "('a) audit_fields_scheme \<Rightarrow> string res" where
  "canonical_bytes f =
     (if serialisation_version f \<noteq> 1 then Inl AuditError
      else if \<not> tz_aware f then Inl AuditError
      else if \<not> no_float (affected_records f) then Inl AuditError
      else if \<not> no_float (before_state f) then Inl AuditError
      else if \<not> no_float (after_state f) then Inl AuditError
      else Inr (dumps (JObj (payload f))))"

definition compute_hash :: "(string \<Rightarrow> string) \<Rightarrow> ('a) audit_fields_scheme \<Rightarrow> string res" where
  "compute_hash sha f =
     (case canonical_bytes f of Inl e \<Rightarrow> Inl e | Inr text \<Rightarrow> Inr (sha text))"

section \<open>Appending\<close>

definition chain_head_row :: "audit_row list \<Rightarrow> string \<Rightarrow> audit_row option" where
  "chain_head_row log c = first_max sequence_no (filter (\<lambda>r. chain_id r = c) log)"

text \<open>One call of \<open>AuditLogger.append\<close>. \<open>eid\<close> is the new event id. The unique
  constraints of the table are checked when the row is added.\<close>

definition audit_append ::
    "(string \<Rightarrow> string) \<Rightarrow> nat \<Rightarrow> string \<Rightarrow> string \<Rightarrow> string \<Rightarrow> audit_action \<Rightarrow> json \<Rightarrow> string
     \<Rightarrow> instant \<Rightarrow> bool \<Rightarrow> json \<Rightarrow> json \<Rightarrow> audit_row list \<Rightarrow> audit_row list res" where
  "audit_append sha eid chain atype aid action affected why at aware before after log =
     (if atype \<noteq> ''SYSTEM'' \<and> atype \<noteq> ''USER'' then Inl ValueError
      else if \<not> aware then Inl ValueError
      else
        (let head = chain_head_row log chain;
             f = \<lparr>event_id = eid, chain_id = chain,
                  sequence_no = (case head of None \<Rightarrow> 1 | Some h \<Rightarrow> sequence_no h + 1),
                  occurred_at = at, tz_aware = aware, actor_type = atype, actor_id = aid,
                  action_type = action_text action, affected_records = affected,
                  before_state = before, after_state = after, rationale = why,
                  prev_hash = map_option current_hash head, serialisation_version = 1\<rparr>
         in case compute_hash sha f of
              Inl e \<Rightarrow> Inl e
            | Inr h \<Rightarrow>
                if h \<in> set (map current_hash log) then Inl IntegrityError
                else Inr (log @ [audit_fields.extend f \<lparr>current_hash = h\<rparr>])))"

section \<open>Verification\<close>

datatype failure_kind =
    SEQUENCE_GAP | PREV_HASH_MISMATCH | HASH_MISMATCH | UNSUPPORTED_VERSION | HEAD_MISMATCH

record verification =
  v_ok :: bool
  entries_checked :: nat
  failure_kind :: "failure_kind option"
  failure_sequence_no :: "int option"

definition chain_rows :: "audit_row list \<Rightarrow> string \<Rightarrow> audit_row list" where
  "chain_rows log c = sort_key sequence_no (filter (\<lambda>r. chain_id r = c) log)"

definition chain_head :: "audit_row list \<Rightarrow> string \<Rightarrow> (int \<times> string) option" where
  "chain_head log c = map_option (\<lambda>r. (sequence_no r, current_hash r)) (chain_head_row log c)"

definition check_row :: "(string \<Rightarrow> string) \<Rightarrow> audit_row \<Rightarrow> int \<Rightarrow> string option \<Rightarrow> failure_kind option" where
  "check_row sha row expected_seq previous_hash =
     (if sequence_no row \<noteq> expected_seq then Some SEQUENCE_GAP
      else if serialisation_version row \<noteq> 1 then Some UNSUPPORTED_VERSION
      else if prev_hash row \<noteq> previous_hash then Some PREV_HASH_MISMATCH
      else (case compute_hash sha row of
              Inl _ \<Rightarrow> Some HASH_MISMATCH
            | Inr h \<Rightarrow> if h \<noteq> current_hash row then Some HASH_MISMATCH else None))"

text \<open>The loop over the rows: the first failure, or the next expected number, the
  last hash and the count.\<close>

fun check_rows ::
    "(string \<Rightarrow> string) \<Rightarrow> audit_row list \<Rightarrow> int \<Rightarrow> string option \<Rightarrow> nat
     \<Rightarrow> verification + (int \<times> string option \<times> nat)" where
  "check_rows sha [] expected_seq previous_hash checked = Inr (expected_seq, previous_hash, checked)"
| "check_rows sha (row # rows) expected_seq previous_hash checked =
     (case check_row sha row expected_seq previous_hash of
        Some kind \<Rightarrow>
          Inl \<lparr>v_ok = False, entries_checked = checked, failure_kind = Some kind,
               failure_sequence_no = Some (sequence_no row)\<rparr>
      | None \<Rightarrow> check_rows sha rows (expected_seq + 1) (Some (current_hash row)) (checked + 1))"

definition verify_chain ::
    "(string \<Rightarrow> string) \<Rightarrow> audit_row list \<Rightarrow> string \<Rightarrow> (int \<times> string) option \<Rightarrow> verification" where
  "verify_chain sha log c expected_head =
     (case check_rows sha (chain_rows log c) 1 None 0 of
        Inl failed \<Rightarrow> failed
      | Inr (expected_seq, previous_hash, checked) \<Rightarrow>
          (let actual = (case previous_hash of
                           None \<Rightarrow> None
                         | Some h \<Rightarrow> if h = [] then None else Some (expected_seq - 1, h))
           in if expected_head \<noteq> None \<and> actual \<noteq> expected_head then
                \<lparr>v_ok = False, entries_checked = checked, failure_kind = Some HEAD_MISMATCH,
                 failure_sequence_no = None\<rparr>
              else \<lparr>v_ok = True, entries_checked = checked, failure_kind = None,
                    failure_sequence_no = None\<rparr>))"

definition verify_all_chains :: "(string \<Rightarrow> string) \<Rightarrow> audit_row list \<Rightarrow> (string \<times> verification) list" where
  "verify_all_chains sha log =
     map (\<lambda>c. (c, verify_chain sha log c None)) (sort (remdups (map chain_id log)))"

section \<open>The text determines the entry\<close>

definition stamp_ok :: "('a) audit_fields_scheme \<Rightarrow> bool" where
  "stamp_ok f = (0 \<le> occurred_at f \<and> event_id f < 16 ^ 32)"

definition same_entry :: "('a) audit_fields_scheme \<Rightarrow> ('a) audit_fields_scheme \<Rightarrow> bool" where
  "same_entry f g =
     (event_id f = event_id g \<and> chain_id f = chain_id g \<and> sequence_no f = sequence_no g
      \<and> occurred_at f = occurred_at g \<and> actor_type f = actor_type g \<and> actor_id f = actor_id g
      \<and> action_type f = action_type g \<and> rationale f = rationale g \<and> prev_hash f = prev_hash g
      \<and> norm (affected_records f) = norm (affected_records g)
      \<and> norm (before_state f) = norm (before_state g) \<and> norm (after_state f) = norm (after_state g))"

lemma length_hex_str [simp]: "length (hex_str w n) = w"
  by (induction w arbitrary: n) auto

lemma hex_str_inj: "\<lbrakk>m < 16 ^ w; n < 16 ^ w; hex_str w m = hex_str w n\<rbrakk> \<Longrightarrow> m = n"
proof (induction w arbitrary: m n)
  case (Suc w)
  have "m div 16 = n div 16" using Suc.prems by (intro Suc.IH) auto
  moreover have "m mod 16 = n mod 16" using Suc.prems by (intro hex_digit_inj) auto
  ultimately show ?case by (metis div_mult_mod_eq)
qed simp

lemma list_cut: "xs = take 8 xs @ take 4 (drop 8 xs) @ take 4 (drop 12 xs) @ take 4 (drop 16 xs) @ drop 20 xs"
  using append_take_drop_id[of 4 "drop 8 xs"] append_take_drop_id[of 4 "drop 12 xs"]
    append_take_drop_id[of 4 "drop 16 xs"] append_take_drop_id[of 8 xs] by (simp del: append_take_drop_id)

lemma uuid_str_inj: "\<lbrakk>m < 16 ^ 32; n < 16 ^ 32; uuid_str m = uuid_str n\<rbrakk> \<Longrightarrow> m = n"
proof -
  assume b: "m < 16 ^ 32" "n < 16 ^ 32" and e: "uuid_str m = uuid_str n"
  let ?h = "hex_str 32 m" and ?k = "hex_str 32 n"
  have "take 8 ?h = take 8 ?k \<and> take 4 (drop 8 ?h) = take 4 (drop 8 ?k)
     \<and> take 4 (drop 12 ?h) = take 4 (drop 12 ?k) \<and> take 4 (drop 16 ?h) = take 4 (drop 16 ?k)
     \<and> drop 20 ?h = drop 20 ?k"
    using e unfolding uuid_str_def Let_def by (simp del: hex_str.simps)
  then have "?h = ?k" using list_cut[of ?h] list_cut[of ?k] by metis
  then show ?thesis using b hex_str_inj by blast
qed

lemma sort_key_eq_map_of:
  assumes "sort_key fst xs = sort_key fst ys" "distinct (map fst xs)" "distinct (map fst ys)"
  shows "map_of xs = map_of ys"
proof -
  have "mset xs = mset ys" using assms(1) by (metis mset_sort)
  then have "set xs = set ys" by (rule mset_eq_setD)
  then show ?thesis using assms(2,3) map_of_inject_set by blast
qed

lemma payload_keys: "distinct (map fst (payload f))"
  by (simp add: payload_def)

lemma canonical_bytes_inj:
  assumes "canonical_bytes f = Inr x" "canonical_bytes g = Inr x" "stamp_ok f" "stamp_ok g"
  shows "same_entry f g"
proof -
  have nf: "no_float (JObj (payload f))" "no_float (JObj (payload g))"
    and d: "dumps (JObj (payload f)) = dumps (JObj (payload g))"
    using assms(1,2) by (auto simp: canonical_bytes_def payload_def json_hash_def split: if_splits option.splits)
  have fst_norm: "map fst (map (map_prod id norm) kvs) = map fst kvs" for kvs :: "(string \<times> json) list"
    by (simp add: comp_def)
  have "sort_key fst (map (map_prod id norm) (payload f)) = sort_key fst (map (map_prod id norm) (payload g))"
    using dumps_inj[OF d nf] by simp
  then have m: "map_of (map (map_prod id norm) (payload f)) = map_of (map (map_prod id norm) (payload g))"
    by (rule sort_key_eq_map_of) (simp_all only: fst_norm payload_keys)
  have k: "map_of (map (map_prod id norm) (payload f)) k = map_of (map (map_prod id norm) (payload g)) k" for k
    by (simp only: m)
  have "uuid_str (event_id f) = uuid_str (event_id g)" using k[of "''event_id''"] by (simp add: payload_def)
  then have 1: "event_id f = event_id g" using assms(3,4) uuid_str_inj by (auto simp: stamp_ok_def)
  have "utc_text (occurred_at f) = utc_text (occurred_at g)"
    using k[of "''occurred_at''"] by (simp add: payload_def)
  then have 2: "occurred_at f = occurred_at g" using assms(3,4) utc_text_inj by (auto simp: stamp_ok_def)
  have 3: "prev_hash f = prev_hash g"
    using k[of "''prev_hash''"] by (simp add: payload_def json_hash_def split: option.splits)
  have 4: "chain_id f = chain_id g" using k[of "''chain_id''"] by (simp add: payload_def)
  have 5: "sequence_no f = sequence_no g" using k[of "''seq''"] by (simp add: payload_def)
  have 6: "actor_type f = actor_type g" using k[of "''actor_type''"] by (simp add: payload_def)
  have 7: "actor_id f = actor_id g" using k[of "''actor_id''"] by (simp add: payload_def)
  have 8: "action_type f = action_type g" using k[of "''action_type''"] by (simp add: payload_def)
  have 9: "rationale f = rationale g" using k[of "''rationale''"] by (simp add: payload_def)
  have 10: "norm (affected_records f) = norm (affected_records g)"
    using k[of "''affected_records''"] by (simp add: payload_def)
  have 11: "norm (before_state f) = norm (before_state g)" using k[of "''before_state''"] by (simp add: payload_def)
  have 12: "norm (after_state f) = norm (after_state g)" using k[of "''after_state''"] by (simp add: payload_def)
  show ?thesis using 1 2 3 4 5 6 7 8 9 10 11 12 by (simp add: same_entry_def)
qed

section \<open>Linked rows\<close>

fun linked :: "(string \<Rightarrow> string) \<Rightarrow> int \<Rightarrow> string option \<Rightarrow> audit_row list \<Rightarrow> bool" where
  "linked sha s p [] = True"
| "linked sha s p (r # rs) =
     (sequence_no r = s \<and> serialisation_version r = 1 \<and> prev_hash r = p
      \<and> compute_hash sha r = Inr (current_hash r) \<and> linked sha (s + 1) (Some (current_hash r)) rs)"

definition last_hash :: "string option \<Rightarrow> audit_row list \<Rightarrow> string option" where
  "last_hash p rs = (if rs = [] then p else Some (current_hash (last rs)))"

lemma check_row_None:
  "check_row sha r s p = None \<longleftrightarrow>
   sequence_no r = s \<and> serialisation_version r = 1 \<and> prev_hash r = p
   \<and> compute_hash sha r = Inr (current_hash r)"
  by (auto simp: check_row_def split: sum.splits)

lemma check_rows_linked:
  "check_rows sha rs s p n = Inr t \<longleftrightarrow>
   linked sha s p rs \<and> t = (s + int (length rs), last_hash p rs, n + length rs)"
proof (induction sha rs s p n rule: check_rows.induct)
  case (2 sha row rows s p n)
  show ?case
  proof (cases "check_row sha row s p")
    case None
    then show ?thesis using "2.IH"[OF None] check_row_None[of sha row s p] by (auto simp: last_hash_def)
  next
    case (Some k)
    then show ?thesis using check_row_None[of sha row s p] by auto
  qed
qed (auto simp: last_hash_def)

lemma check_rows_failed: "check_rows sha rs s p n = Inl v \<Longrightarrow> \<not> v_ok v"
  by (induction sha rs s p n rule: check_rows.induct) (auto split: option.splits)

lemma linked_append:
  "linked sha s p (rs @ ts) \<longleftrightarrow>
   linked sha s p rs \<and> linked sha (s + int (length rs)) (last_hash p rs) ts"
  by (induction rs arbitrary: s p) (auto simp: last_hash_def algebra_simps)

lemma linked_seq: "\<lbrakk>linked sha s p rs; i < length rs\<rbrakk> \<Longrightarrow> sequence_no (rs ! i) = s + int i"
  by (induction rs arbitrary: s p i) (auto simp: nth_Cons algebra_simps split: nat.splits)

lemma linked_hash: "\<lbrakk>linked sha s p rs; r \<in> set rs\<rbrakk> \<Longrightarrow> compute_hash sha r = Inr (current_hash r)"
  by (induction rs arbitrary: s p) auto

text \<open>The rows of a chain, in the order of their numbers.\<close>

definition chain_ok :: "(string \<Rightarrow> string) \<Rightarrow> audit_row list \<Rightarrow> string \<Rightarrow> bool" where
  "chain_ok sha log c = linked sha 1 None (filter (\<lambda>r. chain_id r = c) log)"

lemma linked_sorted: "linked sha s p rs \<Longrightarrow> sorted (map sequence_no rs)"
  unfolding sorted_iff_nth_mono_less by (simp add: linked_seq)

lemma chain_rows_ok: "chain_ok sha log c \<Longrightarrow> chain_rows log c = filter (\<lambda>r. chain_id r = c) log"
  unfolding chain_rows_def chain_ok_def by (simp add: linked_sorted sorted_sort_id sort_key_id_if_sorted)

lemma linked_head:
  assumes "linked sha 1 None rs" "rs \<noteq> []"
  shows "first_max sequence_no rs = Some (last rs)"
proof -
  obtain x where x: "first_max sequence_no rs = Some x" using assms(2) by (cases "first_max sequence_no rs") auto
  obtain i where i: "i < length rs" "x = rs ! i" using first_max_in[OF x] by (auto simp: in_set_conv_nth)
  have "sequence_no (last rs) \<le> sequence_no x" using first_max_ge[OF x] assms(2) by simp
  moreover have "last rs = rs ! (length rs - 1)" using assms(2) by (rule last_conv_nth)
  ultimately have "int (length rs - 1) \<le> int i"
    using linked_seq[OF assms(1), of i] linked_seq[OF assms(1), of "length rs - 1"] i assms(2) by simp
  then have "i = length rs - 1" using i(1) by linarith
  then show ?thesis using x i \<open>last rs = rs ! (length rs - 1)\<close> by simp
qed

lemma chain_head_last:
  "chain_ok sha log c \<Longrightarrow>
   chain_head_row log c = (let rs = filter (\<lambda>r. chain_id r = c) log in if rs = [] then None else Some (last rs))"
  using linked_head[of sha "filter (\<lambda>r. chain_id r = c) log"]
  by (auto simp: chain_ok_def chain_head_row_def Let_def)

lemma compute_hash_extend: "compute_hash sha (audit_fields.extend f x) = compute_hash sha (f :: audit_fields)"
  by (simp add: compute_hash_def canonical_bytes_def payload_def audit_fields.defs)

lemma audit_append_shape:
  assumes "audit_append sha eid chain atype aid action affected why at aware before after log = Inr log'"
    "chain_ok sha log chain"
  shows "\<exists>row. log' = log @ [row] \<and> chain_id row = chain \<and> event_id row = eid
     \<and> action_type row = action_text action \<and> occurred_at row = at
     \<and> affected_records row = affected \<and> before_state row = before \<and> after_state row = after
     \<and> linked sha (1 + int (length (filter (\<lambda>r. chain_id r = chain) log)))
          (last_hash None (filter (\<lambda>r. chain_id r = chain) log)) [row]"
proof -
  let ?rs = "filter (\<lambda>r. chain_id r = chain) log"
  have lk: "linked sha 1 None ?rs" using assms(2) by (simp add: chain_ok_def)
  have hd: "chain_head_row log chain = (if ?rs = [] then None else Some (last ?rs))"
    using chain_head_last[OF assms(2)] by (simp add: Let_def)
  have seq: "(case chain_head_row log chain of None \<Rightarrow> 1 | Some h \<Rightarrow> sequence_no h + 1) = 1 + int (length ?rs)"
  proof (cases "?rs = []")
    case False
    then have "sequence_no (last ?rs) = int (length ?rs)"
      using linked_seq[OF lk, of "length ?rs - 1"] by (simp add: last_conv_nth of_nat_diff Suc_leI)
    then show ?thesis using hd False by simp
  qed (simp add: hd)
  have prev: "map_option current_hash (chain_head_row log chain) = last_hash None ?rs"
    by (simp add: hd last_hash_def)
  show ?thesis
    using assms(1) unfolding audit_append_def Let_def seq prev
    by (auto simp: compute_hash_extend split: if_splits sum.splits) (simp_all add: audit_fields.defs)
qed

lemma audit_append_chain_ok:
  assumes "audit_append sha eid chain atype aid action affected why at aware before after log = Inr log'"
    "\<forall>c. chain_ok sha log c"
  shows "\<forall>c. chain_ok sha log' c"
proof
  fix c
  from audit_append_shape[OF assms(1)] assms(2) obtain row where row: "log' = log @ [row]" "chain_id row = chain"
    "linked sha (1 + int (length (filter (\<lambda>r. chain_id r = chain) log)))
       (last_hash None (filter (\<lambda>r. chain_id r = chain) log)) [row]" by blast
  have ok: "linked sha 1 None (filter (\<lambda>r. chain_id r = c) log)"
    using assms(2) unfolding chain_ok_def by blast
  show "chain_ok sha log' c"
  proof (cases "c = chain")
    case True
    have "filter (\<lambda>r. chain_id r = c) log' = filter (\<lambda>r. chain_id r = c) log @ [row]"
      using row(1,2) True by simp
    moreover have "linked sha 1 None (filter (\<lambda>r. chain_id r = c) log @ [row])"
      using row(3) ok unfolding linked_append True by blast
    ultimately show ?thesis unfolding chain_ok_def by (simp only:)
  next
    case False
    then have "filter (\<lambda>r. chain_id r = c) log' = filter (\<lambda>r. chain_id r = c) log" using row(1,2) by simp
    then show ?thesis using ok unfolding chain_ok_def by simp
  qed
qed

lemma chain_ok_Nil [simp]: "chain_ok sha [] c"
  by (simp add: chain_ok_def)

lemma verify_chain_ok_iff:
  "v_ok (verify_chain sha log c None) \<longleftrightarrow> linked sha 1 None (chain_rows log c)"
proof (cases "check_rows sha (chain_rows log c) 1 None 0")
  case (Inl v)
  then have "\<not> v_ok v" by (rule check_rows_failed)
  moreover have "\<not> linked sha 1 None (chain_rows log c)"
    using Inl check_rows_linked[of sha "chain_rows log c" 1 None 0] by auto
  ultimately show ?thesis using Inl by (simp add: verify_chain_def)
next
  case (Inr t)
  then show ?thesis using check_rows_linked[of sha "chain_rows log c" 1 None 0 t]
    by (auto simp: verify_chain_def Let_def split: prod.splits)
qed

section \<open>Histories\<close>

text \<open>The logs that calls of \<open>append\<close> alone can produce.\<close>

inductive appended_log :: "(string \<Rightarrow> string) \<Rightarrow> audit_row list \<Rightarrow> bool" for sha where
  empty_log: "appended_log sha []"
| append_log: "\<lbrakk>appended_log sha log;
    audit_append sha eid chain atype aid action affected why at aware before after log = Inr log'\<rbrakk>
    \<Longrightarrow> appended_log sha log'"

lemma appended_log_ok: "appended_log sha log \<Longrightarrow> \<forall>c. chain_ok sha log c"
proof (induction rule: appended_log.induct)
  case (append_log log eid chain atype aid action affected why at aware before after log')
  then show ?case using audit_append_chain_ok by blast
qed simp

lemma verify_linked:
  assumes "linked sha 1 None (chain_rows log c)"
  shows "v_ok (verify_chain sha log c h) \<longleftrightarrow>
     h = None \<or> h = (case last_hash None (chain_rows log c) of
        None \<Rightarrow> None | Some x \<Rightarrow> if x = [] then None else Some (int (length (chain_rows log c)), x))"
proof -
  have "check_rows sha (chain_rows log c) 1 None 0
      = Inr (1 + int (length (chain_rows log c)), last_hash None (chain_rows log c), length (chain_rows log c))"
    using assms check_rows_linked[of sha "chain_rows log c" 1 None 0] by simp
  then show ?thesis by (cases h) (auto simp: verify_chain_def Let_def split: option.splits)
qed

lemma linked_pinned:
  assumes "linked sha 1 None rs" "linked sha 1 None ts" "length rs = length ts" "last_hash None rs = last_hash None ts"
    and inj: "\<And>f g x y. \<lbrakk>f \<in> set rs; g \<in> set ts; canonical_bytes f = Inr x; canonical_bytes g = Inr y; sha x = sha y\<rbrakk> \<Longrightarrow> x = y"
    and st: "\<forall>r \<in> set rs \<union> set ts. stamp_ok r"
  shows "list_all2 (\<lambda>r t. same_entry r t \<and> current_hash r = current_hash t) rs ts"
  using assms
proof (induction rs arbitrary: ts rule: rev_induct)
  case Nil
  then show ?case by simp
next
  case (snoc r rs)
  obtain t ts' where ts: "ts = ts' @ [t]" using snoc.prems(3) by (cases ts rule: rev_cases) auto
  have lr: "linked sha 1 None rs" "linked sha (1 + int (length rs)) (last_hash None rs) [r]"
    and lt: "linked sha 1 None ts'" "linked sha (1 + int (length ts')) (last_hash None ts') [t]"
    using snoc.prems(1,2) unfolding ts linked_append by blast+
  have h: "current_hash r = current_hash t" using snoc.prems(4) by (simp add: ts last_hash_def)
  obtain x y where xy: "canonical_bytes r = Inr x" "canonical_bytes t = Inr y" "sha x = current_hash r" "sha y = current_hash t"
    using lr(2) lt(2) by (auto simp: compute_hash_def split: sum.splits)
  have "x = y" using snoc.prems(5)[of r t x y] xy h ts by simp
  then have same: "same_entry r t"
    using canonical_bytes_inj[of r x t] xy snoc.prems(6) ts by simp
  then have "last_hash None rs = last_hash None ts'" using lr(2) lt(2) by (simp add: same_entry_def)
  moreover have "length rs = length ts'" using snoc.prems(3) ts by simp
  moreover have "x = y" if "f \<in> set rs" "g \<in> set ts'" "canonical_bytes f = Inr x" "canonical_bytes g = Inr y"
    "sha x = sha y" for f g x y
    using snoc.prems(5)[OF _ _ that(3-5)] that(1,2) ts by simp
  moreover have "\<forall>q \<in> set rs \<union> set ts'. stamp_ok q" using snoc.prems(6) ts by auto
  ultimately have "list_all2 (\<lambda>r t. same_entry r t \<and> current_hash r = current_hash t) rs ts'"
    using snoc.IH[OF lr(1) lt(1)] by blast
  then show ?case unfolding ts by (rule list_all2_appendI) (simp add: same h)
qed

lemma same_head_same_chain:
  assumes "v_ok (verify_chain sha log c (Some h))" "v_ok (verify_chain sha log' c (Some h))"
    and "\<And>f g x y. \<lbrakk>f \<in> set log; g \<in> set log'; canonical_bytes f = Inr x; canonical_bytes g = Inr y; sha x = sha y\<rbrakk> \<Longrightarrow> x = y"
    and "\<forall>r \<in> set log \<union> set log'. stamp_ok r"
  shows "list_all2 (\<lambda>r t. same_entry r t \<and> current_hash r = current_hash t) (chain_rows log c) (chain_rows log' c)"
proof -
  have lk: "linked sha 1 None (chain_rows l c)" if "v_ok (verify_chain sha l c (Some h))" for l
  proof -
    have "check_rows sha (chain_rows l c) 1 None 0 = Inl v \<Longrightarrow> False" for v
      using that check_rows_failed by (fastforce simp: verify_chain_def)
    then show ?thesis
      using check_rows_linked[of sha "chain_rows l c" 1 None 0]
      by (cases "check_rows sha (chain_rows l c) 1 None 0") auto
  qed
  note l1 = lk[OF assms(1)] and l2 = lk[OF assms(2)]
  have e: "length (chain_rows log c) = length (chain_rows log' c)" "last_hash None (chain_rows log c) = last_hash None (chain_rows log' c)"
    using assms(1,2) unfolding verify_linked[OF l1] verify_linked[OF l2]
    by (auto split: option.splits if_splits)
  have sub: "set (chain_rows log c) \<subseteq> set log" "set (chain_rows log' c) \<subseteq> set log'"
    by (auto simp: chain_rows_def)
  show ?thesis
    by (rule linked_pinned[OF l1 l2 e]) (use assms(3,4) sub in blast)+
qed

section \<open>Properties\<close>

text \<open>C1. Every log built by \<open>AuditLogger.append\<close> verifies: \<open>verify_chain\<close> accepts each
  chain, also when it is given the head \<open>chain_head\<close> exports (digests are never
  empty), and the numbers of a chain are 1, 2, 3 and so on in insertion order.\<close>

theorem appended_log_verifies:
  assumes "appended_log sha log" "\<forall>x. sha x \<noteq> []"
  shows "v_ok (verify_chain sha log c None) \<and> v_ok (verify_chain sha log c (chain_head log c))
     \<and> map sequence_no (filter (\<lambda>r. chain_id r = c) log)
       = map (\<lambda>i. int i + 1) [0..<length (filter (\<lambda>r. chain_id r = c) log)]"
proof -
  let ?rs = "filter (\<lambda>r. chain_id r = c) log"
  have ok: "chain_ok sha log c" using appended_log_ok[OF assms(1)] by blast
  have rows: "chain_rows log c = ?rs" by (rule chain_rows_ok[OF ok])
  have lk: "linked sha 1 None (chain_rows log c)" using ok unfolding rows chain_ok_def .
  have head: "chain_head log c = (if ?rs = [] then None else Some (sequence_no (last ?rs), current_hash (last ?rs)))"
    using chain_head_last[OF ok] by (simp add: chain_head_def Let_def)
  have hne: "current_hash (last ?rs) \<noteq> []" "sequence_no (last ?rs) = int (length ?rs)" if ne: "?rs \<noteq> []"
  proof -
    have "compute_hash sha (last ?rs) = Inr (current_hash (last ?rs))"
      using linked_hash[OF lk[unfolded rows]] last_in_set[OF ne] by blast
    then show "current_hash (last ?rs) \<noteq> []"
      using assms(2) by (auto simp: compute_hash_def split: sum.splits)
    have "0 < length ?rs" using ne by blast
    then show "sequence_no (last ?rs) = int (length ?rs)"
      using linked_seq[OF lk[unfolded rows], of "length ?rs - 1"] unfolding last_conv_nth[OF ne]
      by (simp add: of_nat_diff Suc_leI)
  qed
  have "v_ok (verify_chain sha log c h)" if "h = None \<or> h = chain_head log c" for h
    unfolding verify_linked[OF lk] using that head hne by (auto simp: rows last_hash_def)
  moreover have "map sequence_no ?rs = map (\<lambda>i. int i + 1) [0..<length ?rs]"
    by (rule nth_equalityI) (simp_all add: linked_seq[OF lk[unfolded rows]])
  ultimately show ?thesis by blast
qed

definition sample_sha :: "string \<Rightarrow> string" where
  "sample_sha text = CHR ''h'' # text"

definition sample_log :: "audit_row list res" where
  "sample_log = audit_append sample_sha 7 ''runs'' ''SYSTEM'' ''runner'' RUN_STATE_CHANGE (JObj []) ''start''
     1000000 True JNull JNull []"

lemma sample_log_ok: "\<exists>log. sample_log = Inr log"
  by (simp add: sample_log_def audit_append_def chain_head_row_def compute_hash_def canonical_bytes_def
      Let_def audit_fields.defs)

theorem appended_log_verifies_witness:
  "\<exists>log. sample_log = Inr log \<and> v_ok (verify_chain sample_sha log ''runs'' (chain_head log ''runs''))"
proof -
  obtain log where l: "sample_log = Inr log" using sample_log_ok by blast
  have "appended_log sample_sha log"
    using append_log[OF empty_log l[unfolded sample_log_def]] .
  from appended_log_verifies[OF this, of "''runs''"] show ?thesis using l by (auto simp: sample_sha_def)
qed

text \<open>C2. An exported head pins the whole history of its chain. If two logs verify
  against the same head and the digest does not collide on the texts of their
  entries, then the chain has the same entries in both: every field of every
  entry agrees (JSON states up to the order of keys).\<close>

theorem head_pins_history:
  assumes "v_ok (verify_chain sha log c (Some h))" "v_ok (verify_chain sha log' c (Some h))"
    and "\<And>f g x y. \<lbrakk>f \<in> set log; g \<in> set log'; canonical_bytes f = Inr x; canonical_bytes g = Inr y; sha x = sha y\<rbrakk> \<Longrightarrow> x = y"
    and "\<forall>r \<in> set log \<union> set log'. stamp_ok r"
  shows "list_all2 (\<lambda>r t. same_entry r t \<and> current_hash r = current_hash t) (chain_rows log c) (chain_rows log' c)"
  using assms by (rule same_head_same_chain)

theorem head_pins_history_witness:
  "\<exists>log h. sample_log = Inr log \<and> v_ok (verify_chain sample_sha log ''runs'' (Some h))
     \<and> list_all2 (\<lambda>r t. same_entry r t \<and> current_hash r = current_hash t)
         (chain_rows log ''runs'') (chain_rows log ''runs'')"
proof -
  obtain log where l: "sample_log = Inr log" using sample_log_ok by blast
  have ok: "chain_ok sample_sha [] ''runs''" by simp
  from audit_append_shape[OF l[unfolded sample_log_def] ok] obtain row where
    row: "log = [row]" "chain_id row = ''runs''" "event_id row = 7" "occurred_at row = 1000000"
      "linked sample_sha 1 None [row]"
    by (auto simp: last_hash_def)
  have rows: "chain_rows log ''runs'' = [row]" using row by (simp add: chain_rows_def)
  have ne: "current_hash row \<noteq> []"
    using row(5) by (auto simp: compute_hash_def sample_sha_def split: sum.splits)
  have v: "v_ok (verify_chain sample_sha log ''runs'' (Some (1, current_hash row)))"
    using verify_linked[of sample_sha log "''runs''"] row(5) rows ne by (simp add: last_hash_def)
  have st: "\<forall>r \<in> set log \<union> set log. stamp_ok r" using row by (simp add: stamp_ok_def)
  have "list_all2 (\<lambda>r t. same_entry r t \<and> current_hash r = current_hash t) (chain_rows log ''runs'') (chain_rows log ''runs'')"
    by (rule head_pins_history[OF v v _ st]) (simp add: sample_sha_def)
  then show ?thesis using l v by blast
qed

text \<open>The documented limit of the verifier, made exact: after the newest entries
  of a verified chain are deleted the rest still verifies without a head, and
  fails with \<open>HEAD_MISMATCH\<close> against the head exported before.\<close>

theorem truncation_needs_head:
  assumes "chain_ok sha log c" "chain_rows log' c = take k (chain_rows log c)" "k < length (chain_rows log c)"
    and "chain_head log c = Some h"
  shows "v_ok (verify_chain sha log' c None)
     \<and> \<not> v_ok (verify_chain sha log' c (Some h))
     \<and> failure_kind (verify_chain sha log' c (Some h)) = Some HEAD_MISMATCH"
proof -
  let ?rs = "chain_rows log c" and ?ts = "chain_rows log' c"
  have lk: "linked sha 1 None ?rs" using assms(1) unfolding chain_rows_ok[OF assms(1)] chain_ok_def .
  have "linked sha 1 None (take k ?rs @ drop k ?rs)" using lk by simp
  then have lt: "linked sha 1 None ?ts" unfolding linked_append assms(2) by blast
  have ne: "?rs \<noteq> []" using assms(3) by auto
  have "h = (sequence_no (last ?rs), current_hash (last ?rs))"
    using assms(4) chain_head_last[OF assms(1)] ne unfolding chain_rows_ok[OF assms(1)]
    by (simp add: chain_head_def Let_def)
  moreover have "sequence_no (last ?rs) = int (length ?rs)"
    using linked_seq[OF lk, of "length ?rs - 1"] ne unfolding last_conv_nth[OF ne]
    by (simp add: of_nat_diff Suc_leI)
  ultimately have h: "fst h = int (length ?rs)" by simp
  have len: "int (length ?ts) \<noteq> fst h" using assms(2,3) h by simp
  have c: "check_rows sha ?ts 1 None 0 = Inr (1 + int (length ?ts), last_hash None ?ts, length ?ts)"
    using lt check_rows_linked[of sha ?ts 1 None 0] by simp
  show ?thesis using c len by (cases h) (auto simp: verify_chain_def Let_def split: option.splits)
qed

theorem truncation_needs_head_witness:
  "\<exists>log h. sample_log = Inr log \<and> chain_head log ''runs'' = Some h
     \<and> v_ok (verify_chain sample_sha [] ''runs'' None) \<and> \<not> v_ok (verify_chain sample_sha [] ''runs'' (Some h))"
proof -
  obtain log where l: "sample_log = Inr log" using sample_log_ok by blast
  have ok: "\<forall>c. chain_ok sample_sha log c"
    using audit_append_chain_ok[OF l[unfolded sample_log_def]] by simp
  from audit_append_shape[OF l[unfolded sample_log_def]] obtain row where
    row: "log = [row]" "chain_id row = ''runs''" by auto
  have rows: "chain_rows log ''runs'' = [row]" and e: "chain_rows [] ''runs'' = []"
    using row by (simp_all add: chain_rows_def)
  have "chain_head log ''runs'' = Some (sequence_no row, current_hash row)"
    using row by (simp add: chain_head_def chain_head_row_def)
  then show ?thesis
    using truncation_needs_head[of sample_sha log "''runs''" "[]" 0] ok rows e l by auto
qed

end
