(* ===== verification/Ledger.thy ===== *)
theory Ledger
  imports AuditChain PyDecimal "HOL-Library.Product_Lexorder"
begin

text \<open>
  The stored state matching works on, and its primitives: normalised
  transactions, match results, the claims ledger of \<open>src/recon/matching/claims.py\<close>
  with the database constraints of \<open>persistence/models\<close>, the pools and rejected
  pairs of \<open>persistence/repositories/matching.py\<close>, and the write every strategy
  makes for a pair. New ids come from a supply (\<open>next_id\<close>); only their
  distinctness is used. The explanatory columns of a result (field scores,
  matched fields, rationale, weights version) are not modelled.

  The second half states the ledger invariant and one lemma, \<open>writes_ok\<close>, that
  every way of adding results and claims goes through.
\<close>

section \<open>Rows\<close>

datatype side = INTERNAL | EXTERNAL
datatype direction = DR | CR
datatype txn_status = UNMATCHED | CLAIMED | MATCHED | VOIDED
datatype match_type = EXACT | FUZZY | RULE | SPLIT | NETTED | CROSS_CURRENCY | MANUAL
datatype result_status = AUTO_MATCHED | PENDING_REVIEW | CONFIRMED | REJECTED

record txn =
  t_id :: nat
  t_date :: date
  t_source :: side
  t_bank :: string
  t_line :: "int option"
  t_txn_id :: string
  t_amount_minor :: int
  t_currency :: string
  t_original_currency :: "string option"
  t_direction :: direction
  t_is_reversal :: bool
  t_reverses :: "string option"
  t_party :: "string option"
  t_narration :: "string option"
  t_narration_norm :: "string option"
  t_settlement :: "date option"
  t_timestamp :: instant
  t_stamp :: string
  t_original_ref :: "string option"
  t_ref :: "string option"
  t_status :: txn_status
  t_file :: nat
  t_voided_original :: "nat option"

record result =
  r_id :: nat
  r_run :: string
  r_type :: match_type
  r_status :: result_status
  r_confidence :: rat
  r_internal :: nat
  r_external :: nat
  r_rule :: "string option"
  r_group :: "nat option"
  r_candidates :: nat
  r_date :: date
  r_reviewed_by :: "string option"
  r_reviewed_at :: "instant option"

record claim =
  c_id :: nat
  c_txn :: nat
  c_result :: "nat option"
  c_role :: side
  c_active :: bool

record db =
  txns :: "txn list"
  results :: "result list"
  claims :: "claim list"
  audit_log :: "audit_row list"
  next_id :: nat

section \<open>Claims\<close>

definition active_txns :: "claim list \<Rightarrow> nat list" where
  "active_txns cs = map c_txn (filter c_active cs)"

text \<open>The partial unique index (one ACTIVE claim per transaction) and the unique
  pair (transaction, match result), nulls being distinct.\<close>

definition claims_unique :: "claim list \<Rightarrow> bool" where
  "claims_unique cs =
     (distinct (active_txns cs)
      \<and> distinct (map (\<lambda>c. (c_txn c, c_result c)) (filter (\<lambda>c. c_result c \<noteq> None) cs)))"

definition insert_claims :: "claim list \<Rightarrow> db \<Rightarrow> db res" where
  "insert_claims new db =
     (if claims_unique (claims db @ new)
      then Inr (db\<lparr>claims := claims db @ new, next_id := next_id db + length new\<rparr>)
      else Inl IntegrityError)"

text \<open>The ACTIVE claim rows for (transaction, role) pairs, with consecutive new ids.\<close>

fun claim_rows :: "nat \<Rightarrow> (nat \<times> side) list \<Rightarrow> claim list" where
  "claim_rows k [] = []"
| "claim_rows k ((t, role) # ms) =
     \<lparr>c_id = k, c_txn = t, c_result = None, c_role = role, c_active = True\<rparr> # claim_rows (k + 1) ms"

definition claim_one :: "nat \<Rightarrow> side \<Rightarrow> nat option \<Rightarrow> db \<Rightarrow> (nat \<times> db) res" where
  "claim_one t role rid db =
     (case insert_claims
        [\<lparr>c_id = next_id db, c_txn = t, c_result = rid, c_role = role, c_active = True\<rparr>] db of
        Inl _ \<Rightarrow> Inl ClaimConflictError
      | Inr db' \<Rightarrow> Inr (next_id db, db'))"

definition claim_group :: "(nat \<times> side) list \<Rightarrow> db \<Rightarrow> (nat list \<times> db) res" where
  "claim_group members db =
     (case insert_claims (claim_rows (next_id db) members) db of
        Inl _ \<Rightarrow> Inl ClaimConflictError
      | Inr db' \<Rightarrow> Inr (map c_id (claim_rows (next_id db) members), db'))"

definition claim_pair :: "nat \<Rightarrow> nat \<Rightarrow> db \<Rightarrow> ((nat \<times> nat) \<times> db) res" where
  "claim_pair i e db =
     (case insert_claims (claim_rows (next_id db) [(i, INTERNAL), (e, EXTERNAL)]) db of
        Inl _ \<Rightarrow> Inl ClaimConflictError
      | Inr db' \<Rightarrow> Inr ((next_id db, next_id db + 1), db'))"

definition finalise :: "nat \<Rightarrow> nat \<Rightarrow> db \<Rightarrow> db" where
  "finalise cid rid db =
     db\<lparr>claims := map (\<lambda>c. if c_id c = cid then c\<lparr>c_result := Some rid\<rparr> else c) (claims db)\<rparr>"

definition release :: "nat \<Rightarrow> db \<Rightarrow> db" where
  "release cid db =
     db\<lparr>claims := map (\<lambda>c. if c_id c = cid then c\<lparr>c_active := False\<rparr> else c) (claims db)\<rparr>"

definition is_claimed :: "db \<Rightarrow> nat \<Rightarrow> bool" where
  "is_claimed db t = (t \<in> set (active_txns (claims db)))"

section \<open>Results and statuses\<close>

text \<open>The check constraints of \<open>match_results\<close>.\<close>

definition result_row_ok :: "result \<Rightarrow> bool" where
  "result_row_ok r =
     (0 \<le> r_confidence r \<and> r_confidence r \<le> 1
      \<and> (r_status r = AUTO_MATCHED \<longrightarrow> 85 / 100 < r_confidence r))"

definition add_result :: "result \<Rightarrow> db \<Rightarrow> (nat \<times> db) res" where
  "add_result r db =
     (if result_row_ok r
      then Inr (next_id db, db\<lparr>results := results db @ [r\<lparr>r_id := next_id db\<rparr>], next_id := next_id db + 1\<rparr>)
      else Inl IntegrityError)"

definition set_status :: "nat list \<Rightarrow> txn_status \<Rightarrow> db \<Rightarrow> db" where
  "set_status ids st db =
     db\<lparr>txns := map (\<lambda>t. if t_id t \<in> set ids then t\<lparr>t_status := st\<rparr> else t) (txns db)\<rparr>"

text \<open>What a strategy does for a chosen pair: claim both sides, store the result,
  attach both claims to it and, for an automatic match, mark both transactions.
  \<open>None\<close> is a claim conflict, which changes nothing.\<close>

definition record_pair :: "nat \<Rightarrow> nat \<Rightarrow> result \<Rightarrow> bool \<Rightarrow> db \<Rightarrow> (nat option \<times> db) res" where
  "record_pair i e r matched db =
     (case claim_pair i e db of
        Inl _ \<Rightarrow> Inr (None, db)
      | Inr ((ci, ce), db1) \<Rightarrow>
          (case add_result r db1 of
             Inl err \<Rightarrow> Inl err
           | Inr (rid, db2) \<Rightarrow>
               (let db3 = finalise ce rid (finalise ci rid db2) in
                Inr (Some rid, if matched then set_status [i, e] MATCHED db3 else db3))))"

section \<open>Pools\<close>

definition available :: "db \<Rightarrow> string \<Rightarrow> side \<Rightarrow> date option \<Rightarrow> date option \<Rightarrow> txn \<Rightarrow> bool" where
  "available db bank src date_from date_to t =
     (t_bank t = bank \<and> t_source t = src \<and> t_status t = UNMATCHED \<and> \<not> is_claimed db (t_id t)
      \<and> (case date_from of None \<Rightarrow> True | Some d \<Rightarrow> d \<le> t_date t)
      \<and> (case date_to of None \<Rightarrow> True | Some d \<Rightarrow> t_date t \<le> d))"

text \<open>\<open>ORDER BY txn_date, source_line_no, id\<close>; nulls sort last.\<close>

definition pool_key :: "txn \<Rightarrow> date \<times> bool \<times> int \<times> nat" where
  "pool_key t =
     (t_date t, t_line t = None, (case t_line t of None \<Rightarrow> 0 | Some n \<Rightarrow> n), t_id t)"

definition find_unmatched :: "db \<Rightarrow> string \<Rightarrow> side \<Rightarrow> date option \<Rightarrow> date option \<Rightarrow> txn list" where
  "find_unmatched db bank src date_from date_to =
     sort_key pool_key (filter (available db bank src date_from date_to) (txns db))"

definition count_unmatched :: "db \<Rightarrow> string \<Rightarrow> side \<Rightarrow> date option \<Rightarrow> date option \<Rightarrow> nat" where
  "count_unmatched db bank src date_from date_to =
     length (filter (available db bank src date_from date_to) (txns db))"

definition rejected_pairs :: "db \<Rightarrow> nat list \<Rightarrow> (nat \<times> nat) list" where
  "rejected_pairs db ids =
     map (\<lambda>r. (r_internal r, r_external r))
       (filter (\<lambda>r. r_status r = REJECTED \<and> r_internal r \<in> set ids) (results db))"

section \<open>The ledger invariant\<close>

definition live :: "result \<Rightarrow> bool" where
  "live r = (r_status r \<noteq> REJECTED)"

definition settled :: "result \<Rightarrow> bool" where
  "settled r = (r_status r = AUTO_MATCHED \<or> r_status r = CONFIRMED)"

text \<open>Rows of one split or netted group are one match.\<close>

definition match_key :: "result \<Rightarrow> bool \<times> nat" where
  "match_key r = (case r_group r of None \<Rightarrow> (False, r_id r) | Some g \<Rightarrow> (True, g))"

definition sides :: "result \<Rightarrow> nat set" where
  "sides r = {r_internal r, r_external r}"

text \<open>Ids are distinct and below the supply.\<close>

definition ids_ok :: "db \<Rightarrow> bool" where
  "ids_ok db =
     (distinct (map t_id (txns db)) \<and> distinct (map r_id (results db)) \<and> distinct (map c_id (claims db))
      \<and> (\<forall>r \<in> set (results db). r_id r < next_id db \<and> (\<forall>g. r_group r = Some g \<longrightarrow> g < next_id db))
      \<and> (\<forall>c \<in> set (claims db). c_id c < next_id db \<and> (\<forall>x. c_result c = Some x \<longrightarrow> x < next_id db)))"

text \<open>Every active claim is attached to a live result that contains its
  transaction, at most one per transaction.\<close>

definition claims_ok :: "db \<Rightarrow> bool" where
  "claims_ok db =
     (claims_unique (claims db)
      \<and> (\<forall>c \<in> set (claims db). c_active c \<longrightarrow>
           (\<exists>r \<in> set (results db). c_result c = Some (r_id r) \<and> live r \<and> c_txn c \<in> sides r)))"

text \<open>Both sides of a live result are held by an active claim of the same match.\<close>

definition held :: "db \<Rightarrow> result \<Rightarrow> nat \<Rightarrow> bool" where
  "held db r t =
     (\<exists>c \<in> set (claims db). c_active c \<and> c_txn c = t \<and>
        (\<exists>r' \<in> set (results db). c_result c = Some (r_id r') \<and> match_key r' = match_key r))"

definition results_ok :: "db \<Rightarrow> bool" where
  "results_ok db =
     ((\<forall>r \<in> set (results db). live r \<longrightarrow> (\<forall>t \<in> sides r. held db r t))
      \<and> (\<forall>r \<in> set (results db). r_group r \<noteq> None \<longrightarrow> r_status r \<noteq> PENDING_REVIEW)
      \<and> (\<forall>r \<in> set (results db). \<forall>r' \<in> set (results db).
            match_key r = match_key r' \<longrightarrow> live r = live r'))"

text \<open>A transaction is MATCHED exactly when a settled match holds it.\<close>

definition status_ok :: "db \<Rightarrow> bool" where
  "status_ok db =
     (\<forall>t \<in> set (txns db).
        (t_status t = MATCHED \<longleftrightarrow> (\<exists>r \<in> set (results db). settled r \<and> t_id t \<in> sides r)))"

definition ledger_ok :: "db \<Rightarrow> bool" where
  "ledger_ok db = (ids_ok db \<and> claims_ok db \<and> results_ok db \<and> status_ok db)"

lemma live_iff: "live r \<longleftrightarrow> settled r \<or> r_status r = PENDING_REVIEW"
  by (cases "r_status r") (simp_all add: live_def settled_def)

lemma settled_live: "settled r \<Longrightarrow> live r"
  by (auto simp: settled_def live_def)

lemma active_txns_iff: "t \<in> set (active_txns cs) \<longleftrightarrow> (\<exists>c \<in> set cs. c_active c \<and> c_txn c = t)"
  by (auto simp: active_txns_def)

lemma active_txns_append: "active_txns (cs @ ds) = active_txns cs @ active_txns ds"
  by (simp add: active_txns_def)

lemma active_claim_unique:
  assumes "distinct (active_txns cs)" "c \<in> set cs" "d \<in> set cs" "c_active c" "c_active d" "c_txn c = c_txn d"
  shows "c = d"
  using distinct_map_inj[of c_txn "filter c_active cs" c d] assms by (simp add: active_txns_def)

lemma ledger_held: "\<lbrakk>ledger_ok db; r \<in> set (results db); live r; t \<in> sides r\<rbrakk> \<Longrightarrow> held db r t"
  unfolding ledger_ok_def results_ok_def by blast

lemma ledger_claim:
  "\<lbrakk>ledger_ok db; c \<in> set (claims db); c_active c\<rbrakk> \<Longrightarrow>
   \<exists>r \<in> set (results db). c_result c = Some (r_id r) \<and> live r \<and> c_txn c \<in> sides r"
  unfolding ledger_ok_def claims_ok_def by blast

lemma ledger_status:
  "\<lbrakk>ledger_ok db; t \<in> set (txns db)\<rbrakk> \<Longrightarrow>
   t_status t = MATCHED \<longleftrightarrow> (\<exists>r \<in> set (results db). settled r \<and> t_id t \<in> sides r)"
  unfolding ledger_ok_def status_ok_def by blast

lemma ledger_active: "ledger_ok db \<Longrightarrow> distinct (active_txns (claims db))"
  unfolding ledger_ok_def claims_ok_def claims_unique_def by blast

lemma ledger_ids: "ledger_ok db \<Longrightarrow> ids_ok db"
  unfolding ledger_ok_def by blast

text \<open>The point of the ledger: live results that share a transaction are rows of
  one match.\<close>

lemma ledger_exclusive:
  assumes "ledger_ok db" "r \<in> set (results db)" "r' \<in> set (results db)" "live r" "live r'"
    "t \<in> sides r" "t \<in> sides r'"
  shows "match_key r = match_key r'"
proof -
  have h: "held db r t" "held db r' t" using assms by (blast intro: ledger_held)+
  then obtain c d q q' where c: "c \<in> set (claims db)" "c_active c" "c_txn c = t"
      "q \<in> set (results db)" "c_result c = Some (r_id q)" "match_key q = match_key r"
    and d: "d \<in> set (claims db)" "c_active d" "c_txn d = t"
      "q' \<in> set (results db)" "c_result d = Some (r_id q')" "match_key q' = match_key r'"
    unfolding held_def by blast
  have "c = d" using active_claim_unique[OF ledger_active[OF assms(1)] c(1) d(1) c(2) d(2)] c(3) d(3) by simp
  then have "r_id q = r_id q'" using c d by simp
  moreover have "distinct (map r_id (results db))" using ledger_ids[OF assms(1)] by (simp add: ids_ok_def)
  ultimately have "q = q'" using distinct_map_inj c(4) d(4) by metis
  then show ?thesis using c d by simp
qed

lemma ledger_claimed:
  assumes "ledger_ok db"
  shows "is_claimed db t \<longleftrightarrow> (\<exists>r \<in> set (results db). live r \<and> t \<in> sides r)"
proof
  assume "is_claimed db t"
  then obtain c where "c \<in> set (claims db)" "c_active c" "c_txn c = t"
    unfolding is_claimed_def active_txns_iff by blast
  then show "\<exists>r \<in> set (results db). live r \<and> t \<in> sides r" using ledger_claim[OF assms] by blast
next
  assume "\<exists>r \<in> set (results db). live r \<and> t \<in> sides r"
  then obtain r where "held db r t" using ledger_held[OF assms] by blast
  then show "is_claimed db t" unfolding held_def is_claimed_def active_txns_iff by blast
qed

lemma ledger_matched_claimed:
  "\<lbrakk>ledger_ok db; t \<in> set (txns db); t_status t = MATCHED\<rbrakk> \<Longrightarrow> is_claimed db (t_id t)"
  using ledger_claimed ledger_status settled_live by metis

section \<open>Adding results and claims\<close>

definition mark_matched :: "nat set \<Rightarrow> txn \<Rightarrow> txn" where
  "mark_matched M t = (if t_id t \<in> M then t\<lparr>t_status := MATCHED\<rparr> else t)"

definition settled_ids :: "result list \<Rightarrow> nat set" where
  "settled_ids rs = (\<Union>r \<in> set (filter settled rs). sides r)"

text \<open>\<open>db'\<close> is \<open>db\<close> with the results \<open>rs\<close> and the claims \<open>cs\<close> added.\<close>

definition writes :: "db \<Rightarrow> result list \<Rightarrow> claim list \<Rightarrow> db \<Rightarrow> bool" where
  "writes db rs cs db' =
     (results db' = results db @ rs \<and> claims db' = claims db @ cs
      \<and> txns db' = map (mark_matched (settled_ids rs)) (txns db)
      \<and> next_id db \<le> next_id db'
      \<and> distinct (map r_id rs) \<and> distinct (map c_id cs)
      \<and> (\<forall>r \<in> set rs. next_id db \<le> r_id r \<and> r_id r < next_id db'
           \<and> (\<forall>g. r_group r = Some g \<longrightarrow> next_id db \<le> g \<and> g < next_id db')
           \<and> live r \<and> (r_group r \<noteq> None \<longrightarrow> r_status r \<noteq> PENDING_REVIEW))
      \<and> (\<forall>c \<in> set cs. next_id db \<le> c_id c \<and> c_id c < next_id db' \<and> c_active c
           \<and> (\<exists>r \<in> set rs. c_result c = Some (r_id r) \<and> c_txn c \<in> sides r))
      \<and> (\<forall>r \<in> set rs. \<forall>t \<in> sides r.
           \<exists>c \<in> set cs. c_txn c = t \<and> (\<exists>r' \<in> set rs. c_result c = Some (r_id r') \<and> match_key r' = match_key r))
      \<and> distinct (active_txns (claims db @ cs)))"

lemma t_id_mark [simp]: "t_id (mark_matched M t) = t_id t"
  by (simp add: mark_matched_def)

lemma match_key_fresh:
  assumes "r_id r < n" "\<forall>g. r_group r = Some g \<longrightarrow> g < n" "n \<le> r_id r'" "\<forall>g. r_group r' = Some g \<longrightarrow> n \<le> g"
  shows "match_key r \<noteq> match_key r'"
  using assms by (auto simp: match_key_def split: option.splits)

lemma writes_ids: "\<lbrakk>writes db rs cs db'; ids_ok db\<rbrakk> \<Longrightarrow> ids_ok db'"
  by (auto simp: writes_def ids_ok_def comp_def) (fastforce simp: not_le[symmetric])+

lemma distinct_attached:
  assumes "distinct (active_txns cs)" "\<forall>c \<in> set cs. c_active c"
  shows "distinct (map (\<lambda>c. (c_txn c, c_result c)) (filter Q cs))"
proof -
  have "active_txns cs = map c_txn cs" using assms(2) by (simp add: active_txns_def filter_id_conv)
  then have "distinct (map fst (map (\<lambda>c. (c_txn c, c_result c)) cs))" using assms(1) by (simp add: comp_def)
  then have "distinct (map (\<lambda>c. (c_txn c, c_result c)) cs)" by (metis distinct_map)
  then show ?thesis by (rule distinct_map_filter)
qed

lemma writes_claims:
  assumes w: "writes db rs cs db'" and ids: "ids_ok db" and ok: "claims_ok db"
  shows "claims_ok db'"
proof -
  let ?p = "\<lambda>c. (c_txn c, c_result c)" and ?a = "\<lambda>c. c_result c \<noteq> None"
  have cl: "claims db' = claims db @ cs" and res: "results db' = results db @ rs"
    and d: "distinct (active_txns (claims db @ cs))" and act: "\<forall>c \<in> set cs. c_active c"
    and att: "\<forall>c \<in> set cs. \<exists>r \<in> set rs. c_result c = Some (r_id r) \<and> c_txn c \<in> sides r"
    and lv: "\<forall>r \<in> set rs. live r" and fresh: "\<forall>r \<in> set rs. next_id db \<le> r_id r"
    using w unfolding writes_def by blast+
  have "distinct (map ?p (filter ?a cs))" using d act by (intro distinct_attached) (simp_all add: active_txns_append)
  moreover have "distinct (map ?p (filter ?a (claims db)))" using ok unfolding claims_ok_def claims_unique_def by blast
  moreover have "?p c \<noteq> ?p c'" if c: "c \<in> set (claims db)" and c': "c' \<in> set cs" for c c'
  proof -
    obtain r where r: "r \<in> set rs" "c_result c' = Some (r_id r)" using att c' by blast
    have "\<forall>x. c_result c = Some x \<longrightarrow> x < next_id db" using ids c unfolding ids_ok_def by blast
    then show ?thesis using r fresh by fastforce
  qed
  ultimately have "distinct (map ?p (filter ?a (claims db @ cs)))" by auto
  then have "claims_unique (claims db')" using d unfolding claims_unique_def cl by blast
  moreover have "\<exists>r \<in> set (results db'). c_result c = Some (r_id r) \<and> live r \<and> c_txn c \<in> sides r"
    if "c \<in> set (claims db')" "c_active c" for c
  proof (cases "c \<in> set cs")
    case True
    then show ?thesis using att lv unfolding res by (metis UnCI set_append)
  next
    case False
    then have "c \<in> set (claims db)" using that(1) unfolding cl by simp
    then show ?thesis using ok that(2) unfolding claims_ok_def res by (metis UnCI set_append)
  qed
  ultimately show ?thesis unfolding claims_ok_def by blast
qed

lemma writes_rows:
  assumes "writes db rs cs db'"
  shows "results db' = results db @ rs" "claims db' = claims db @ cs"
    "txns db' = map (mark_matched (settled_ids rs)) (txns db)" "next_id db \<le> next_id db'"
    "\<forall>c \<in> set cs. c_active c"
    "\<forall>r \<in> set rs. live r \<and> (r_group r \<noteq> None \<longrightarrow> r_status r \<noteq> PENDING_REVIEW)"
    "\<forall>r \<in> set rs. next_id db \<le> r_id r \<and> (\<forall>g. r_group r = Some g \<longrightarrow> next_id db \<le> g)"
    "\<forall>r \<in> set rs. \<forall>t \<in> sides r. \<exists>c \<in> set cs. c_txn c = t \<and>
       (\<exists>r' \<in> set rs. c_result c = Some (r_id r') \<and> match_key r' = match_key r)"
    "distinct (active_txns (claims db @ cs))"
  using assms unfolding writes_def by blast+

lemma writes_results:
  assumes w: "writes db rs cs db'" and ids: "ids_ok db" and ok: "results_ok db"
  shows "results_ok db'"
proof -
  note rows = writes_rows[OF w]
  have old: "held db' r t" if "held db r t" for r t
    using that unfolding held_def rows(1,2) set_append by blast
  have new: "held db' r t" if "r \<in> set rs" "t \<in> sides r" for r t
    using rows(5,8) that unfolding held_def rows(1,2) set_append by blast
  have below: "r_id r < next_id db \<and> (\<forall>g. r_group r = Some g \<longrightarrow> g < next_id db)" if "r \<in> set (results db)" for r
    using ids that unfolding ids_ok_def by blast
  have cross: "match_key r \<noteq> match_key r'" if "r \<in> set (results db)" "r' \<in> set rs" for r r'
    using match_key_fresh[of r "next_id db" r'] below[OF that(1)] rows(7) that(2) by blast
  show ?thesis unfolding results_ok_def
  proof (intro conjI ballI impI)
    fix r t assume "r \<in> set (results db')" "live r" "t \<in> sides r"
    then show "held db' r t" using old new ok unfolding rows(1) set_append results_ok_def by blast
  next
    fix r assume "r \<in> set (results db')" "r_group r \<noteq> None"
    then show "r_status r \<noteq> PENDING_REVIEW" using rows(6) ok unfolding rows(1) set_append results_ok_def by blast
  next
    fix r r' assume r: "r \<in> set (results db')" "r' \<in> set (results db')" and k: "match_key r = match_key r'"
    consider "r \<in> set (results db)" "r' \<in> set (results db)" | "r \<in> set rs" "r' \<in> set rs"
      using r k cross[of r r'] cross[of r' r] unfolding rows(1) set_append by (metis UnE)
    then show "live r = live r'"
    proof cases
      case 1 then show ?thesis using k ok unfolding results_ok_def by blast
    next
      case 2 then show ?thesis using rows(6) by blast
    qed
  qed
qed

lemma writes_status:
  assumes w: "writes db rs cs db'" and ok: "status_ok db"
  shows "status_ok db'"
proof -
  have res: "results db' = results db @ rs"
    and tx: "txns db' = map (mark_matched (settled_ids rs)) (txns db)" using w by (auto simp: writes_def)
  show ?thesis unfolding status_ok_def tx res
  proof (intro ballI)
    fix t' assume "t' \<in> set (map (mark_matched (settled_ids rs)) (txns db))"
    then obtain t where t: "t \<in> set (txns db)" "t' = mark_matched (settled_ids rs) t" by auto
    have o: "t_status t = MATCHED \<longleftrightarrow> (\<exists>r \<in> set (results db). settled r \<and> t_id t \<in> sides r)"
      using ok t(1) unfolding status_ok_def by blast
    have n: "t_id t \<in> settled_ids rs \<longleftrightarrow> (\<exists>r \<in> set rs. settled r \<and> t_id t \<in> sides r)"
      by (auto simp: settled_ids_def)
    show "t_status t' = MATCHED \<longleftrightarrow> (\<exists>r \<in> set (results db @ rs). settled r \<and> t_id t' \<in> sides r)"
      unfolding t(2) t_id_mark set_append bex_Un using o n by (cases "t_id t \<in> settled_ids rs") (simp add: mark_matched_def, force simp: mark_matched_def)
  qed
qed

lemma writes_ok: "\<lbrakk>writes db rs cs db'; ledger_ok db\<rbrakk> \<Longrightarrow> ledger_ok db'"
  using writes_ids writes_claims writes_results writes_status unfolding ledger_ok_def by blast

section \<open>A small concrete state\<close>

definition sample_txn :: "nat \<Rightarrow> side \<Rightarrow> int \<Rightarrow> string \<Rightarrow> date \<Rightarrow> txn" where
  "sample_txn k src amt reference d =
     \<lparr>t_id = k, t_date = d, t_source = src, t_bank = ''HDFC'', t_line = Some (int k), t_txn_id = reference,
      t_amount_minor = amt, t_currency = ''INR'', t_original_currency = None, t_direction = DR,
      t_is_reversal = False, t_reverses = None, t_party = None, t_narration = None, t_narration_norm = None, t_settlement = None,
      t_timestamp = 0, t_stamp = ''2026'', t_original_ref = Some reference, t_ref = Some reference, t_status = UNMATCHED,
      t_file = 9, t_voided_original = None\<rparr>"

definition sample_db :: "txn list \<Rightarrow> db" where
  "sample_db ts = \<lparr>txns = ts, results = [], claims = [], audit_log = [], next_id = 100\<rparr>"

lemma sample_ok:
  "distinct (map t_id ts) \<Longrightarrow> list_all (\<lambda>t. t_status t \<noteq> MATCHED) ts \<Longrightarrow> ledger_ok (sample_db ts)"
  by (auto simp: ledger_ok_def ids_ok_def claims_ok_def claims_unique_def results_ok_def status_ok_def
      sample_db_def active_txns_def list_all_iff)

definition sample_two :: db where
  "sample_two = sample_db [sample_txn 1 INTERNAL 500 ''REF1'' 10, sample_txn 2 EXTERNAL 500 ''REF1'' 11]"

lemma sample_two_ok: "ledger_ok sample_two"
  unfolding sample_two_def by (rule sample_ok) (simp_all add: sample_txn_def)

end
