(* ===== verification/Stage.thy ===== *)
theory Stage
  imports Ledger
begin

text \<open>
  What the matching strategies share: the effect of recording a pair on the
  ledger, the relation \<open>grows\<close> between the state before and after a stage
  (results and claims are only appended, transactions only become MATCHED), and
  the interface \<open>matching_stage\<close> a strategy has to offer the orchestrator.
\<close>

section \<open>Recording a pair\<close>

lemma finalise_other:
  assumes "ids_ok db" "next_id db \<le> cid"
  shows "map (\<lambda>c. if c_id c = cid then c\<lparr>c_result := Some rid\<rparr> else c) (claims db) = claims db"
  by (rule map_idI) (use assms in \<open>auto simp: ids_ok_def\<close>)

definition pair_claims :: "nat \<Rightarrow> nat \<Rightarrow> nat \<Rightarrow> claim list" where
  "pair_claims n i e =
     [\<lparr>c_id = n, c_txn = i, c_result = Some (n + 2), c_role = INTERNAL, c_active = True\<rparr>,
      \<lparr>c_id = n + 1, c_txn = e, c_result = Some (n + 2), c_role = EXTERNAL, c_active = True\<rparr>]"

lemma claim_pair_cases:
  "claim_pair i e db = Inl ClaimConflictError
   \<or> claim_pair i e db = Inr ((next_id db, next_id db + 1),
        db\<lparr>claims := claims db @ claim_rows (next_id db) [(i, INTERNAL), (e, EXTERNAL)],
           next_id := next_id db + 2\<rparr>)
     \<and> distinct (active_txns (claims db) @ [i, e])"
  by (simp add: claim_pair_def insert_claims_def claims_unique_def active_txns_append split: if_splits)
     (simp add: active_txns_def)

lemma record_pair_shape:
  assumes "record_pair i e r matched db = Inr (Some rid, db')" "ids_ok db"
  shows "rid = next_id db + 2 \<and> result_row_ok r
     \<and> distinct (active_txns (claims db) @ [i, e])
     \<and> db' = db\<lparr>txns := (if matched then map (mark_matched {i, e}) (txns db) else txns db),
                results := results db @ [r\<lparr>r_id := next_id db + 2\<rparr>],
                claims := claims db @ pair_claims (next_id db) i e,
                next_id := next_id db + 3\<rparr>"
proof -
  let ?n = "next_id db"
  have f: "map (\<lambda>c. if c_id c = ?n + k then c\<lparr>c_result := Some x\<rparr> else c) (claims db) = claims db" for k x
    using assms(2) by (rule finalise_other) simp
  have f0: "map (\<lambda>c. if c_id c = ?n then c\<lparr>c_result := Some x\<rparr> else c) (claims db) = claims db" for x
    using f[of 0 x] by simp
  have f1: "map (\<lambda>c. if c_id c = Suc ?n then c\<lparr>c_result := Some x\<rparr> else c) (claims db) = claims db" for x
    using f[of 1 x] by simp
  have mm: "map (\<lambda>t. if t_id t = i \<or> t_id t = e then t\<lparr>t_status := MATCHED\<rparr> else t) (txns db)
      = map (mark_matched {i, e}) (txns db)"
    by (simp add: mark_matched_def)
  show ?thesis
    using assms(1) claim_pair_cases[of i e db]
    by (auto simp: record_pair_def add_result_def finalise_def set_status_def pair_claims_def mm f0 f1 Let_def
        simp del: map_map split: if_splits)
qed

lemma record_pair_conflict: "record_pair i e r matched db = Inr (None, db') \<Longrightarrow> db' = db"
  by (auto simp: record_pair_def Let_def split: sum.splits prod.splits)

text \<open>The template of a pair's result is complete.\<close>

definition pair_row :: "nat \<Rightarrow> nat \<Rightarrow> bool \<Rightarrow> result \<Rightarrow> bool" where
  "pair_row i e matched r =
     (r_internal r = i \<and> r_external r = e \<and> r_group r = None \<and> live r \<and> (matched \<longleftrightarrow> settled r))"

lemma mark_matched_empty: "map (mark_matched {}) ts = ts"
  by (rule map_idI) (simp add: mark_matched_def)

lemma record_pair_writes:
  assumes "record_pair i e r matched db = Inr (Some rid, db')" "ids_ok db" "pair_row i e matched r"
  shows "writes db [r\<lparr>r_id := rid\<rparr>] (pair_claims (next_id db) i e) db' \<and> audit_log db' = audit_log db"
proof -
  note sh = record_pair_shape[OF assms(1,2)]
  have s: "settled_ids [r\<lparr>r_id := rid\<rparr>] = (if matched then {i, e} else {})"
    using assms(3) by (simp add: settled_ids_def pair_row_def settled_def sides_def)
  have "txns db' = map (mark_matched (settled_ids [r\<lparr>r_id := rid\<rparr>])) (txns db)"
    unfolding s using sh by (simp add: mark_matched_empty)
  moreover have "active_txns (claims db @ pair_claims (next_id db) i e) = active_txns (claims db) @ [i, e]"
    by (simp add: active_txns_def pair_claims_def)
  ultimately show ?thesis
    using sh assms(3)
    by (auto simp: writes_def pair_row_def pair_claims_def live_def sides_def match_key_def)
qed

section \<open>Growth\<close>

definition grows :: "(nat \<times> nat \<Rightarrow> bool) \<Rightarrow> db \<Rightarrow> db \<Rightarrow> bool" where
  "grows P db db' =
     ((\<exists>rs. results db' = results db @ rs \<and> (\<forall>r \<in> set rs. live r \<and> P (r_internal r, r_external r)))
      \<and> (\<exists>cs. claims db' = claims db @ cs)
      \<and> (\<exists>M. txns db' = map (mark_matched M) (txns db))
      \<and> (\<exists>al. audit_log db' = audit_log db @ al)
      \<and> next_id db \<le> next_id db')"

lemma grows_refl [simp]: "grows P db db"
  unfolding grows_def by (metis append_Nil2 empty_iff list.set(1) mark_matched_empty order_refl)

lemma mark_matched_twice: "map (mark_matched N) (map (mark_matched M) ts) = map (mark_matched (M \<union> N)) ts"
  by (simp add: mark_matched_def)

lemma grows_trans: "\<lbrakk>grows P db1 db2; grows P db2 db3\<rbrakk> \<Longrightarrow> grows P db1 db3"
proof -
  assume "grows P db1 db2" "grows P db2 db3"
  then obtain rs rs' cs cs' M M' al al' where
    "results db2 = results db1 @ rs" "\<forall>r \<in> set rs. live r \<and> P (r_internal r, r_external r)"
    "results db3 = results db2 @ rs'" "\<forall>r \<in> set rs'. live r \<and> P (r_internal r, r_external r)"
    "claims db2 = claims db1 @ cs" "claims db3 = claims db2 @ cs'"
    "txns db2 = map (mark_matched M) (txns db1)" "txns db3 = map (mark_matched M') (txns db2)"
    "audit_log db2 = audit_log db1 @ al" "audit_log db3 = audit_log db2 @ al'"
    "next_id db1 \<le> next_id db2" "next_id db2 \<le> next_id db3"
    unfolding grows_def by blast
  then show ?thesis unfolding grows_def mark_matched_twice
    by (intro conjI exI[of _ "rs @ rs'"] exI[of _ "cs @ cs'"] exI[of _ "M \<union> M'"] exI[of _ "al @ al'"])
       (auto simp: mark_matched_twice simp del: map_map)
qed

lemma grows_mono: "\<lbrakk>grows P db db'; \<And>p. P p \<Longrightarrow> Q p\<rbrakk> \<Longrightarrow> grows Q db db'"
  unfolding grows_def by blast

lemma writes_grows:
  assumes "writes db rs cs db'" "audit_log db' = audit_log db @ al" "\<And>r. r \<in> set rs \<Longrightarrow> P (r_internal r, r_external r)"
  shows "grows P db db'"
  unfolding grows_def using writes_rows[OF assms(1)] assms(2,3) by blast

lemma grows_rejected: "grows P db db' \<Longrightarrow> rejected_pairs db' ids = rejected_pairs db ids"
proof -
  assume "grows P db db'"
  then obtain rs where "results db' = results db @ rs" "\<forall>r \<in> set rs. live r" unfolding grows_def by blast
  then show ?thesis by (auto simp: rejected_pairs_def live_def filter_empty_conv)
qed

lemma grows_claimed: "\<lbrakk>grows P db db'; is_claimed db t\<rbrakk> \<Longrightarrow> is_claimed db' t"
  by (auto simp: grows_def is_claimed_def active_txns_append)

lemma rejected_pairs_iff:
  "(i, e) \<in> set (rejected_pairs db ids) \<longleftrightarrow>
   i \<in> set ids \<and> (\<exists>r \<in> set (results db). r_status r = REJECTED \<and> r_internal r = i \<and> r_external r = e)"
  by (auto simp: rejected_pairs_def)

section \<open>Pairs a run may form\<close>

definition free_txn :: "db \<Rightarrow> string \<Rightarrow> side \<Rightarrow> nat \<Rightarrow> bool" where
  "free_txn db bank src i =
     (\<exists>t \<in> set (txns db). t_id t = i \<and> t_bank t = bank \<and> t_source t = src \<and> t_status t = UNMATCHED
        \<and> \<not> is_claimed db i)"

definition was_rejected :: "db \<Rightarrow> nat \<times> nat \<Rightarrow> bool" where
  "was_rejected db p =
     (\<exists>r \<in> set (results db). r_status r = REJECTED \<and> (r_internal r, r_external r) = p)"

definition may_pair :: "db \<Rightarrow> string \<Rightarrow> nat \<times> nat \<Rightarrow> bool" where
  "may_pair db bank p =
     (free_txn db bank INTERNAL (fst p) \<and> free_txn db bank EXTERNAL (snd p) \<and> \<not> was_rejected db p)"

lemma mark_fields [simp]:
  "t_bank (mark_matched M t) = t_bank t" "t_source (mark_matched M t) = t_source t"
  "t_date (mark_matched M t) = t_date t"
  by (simp_all add: mark_matched_def)

lemma grows_free: "\<lbrakk>grows P db db'; free_txn db' bank src i\<rbrakk> \<Longrightarrow> free_txn db bank src i"
proof -
  assume g: "grows P db db'" and f: "free_txn db' bank src i"
  obtain M where M: "txns db' = map (mark_matched M) (txns db)" using g unfolding grows_def by blast
  obtain t where t: "t \<in> set (txns db)" "t_id t = i" "t_bank t = bank" "t_source t = src"
    "t_status (mark_matched M t) = UNMATCHED" "\<not> is_claimed db' i"
    using f unfolding free_txn_def M by auto
  have "t_status t = UNMATCHED" using t(5) by (simp add: mark_matched_def split: if_splits)
  moreover have "\<not> is_claimed db i" using t(6) grows_claimed[OF g] by blast
  ultimately show ?thesis using t unfolding free_txn_def by blast
qed

lemma grows_may_pair: "\<lbrakk>grows P db db'; may_pair db' bank p\<rbrakk> \<Longrightarrow> may_pair db bank p"
proof -
  assume g: "grows P db db'" and m: "may_pair db' bank p"
  obtain rs where "results db' = results db @ rs" using g unfolding grows_def by blast
  then have "was_rejected db p \<Longrightarrow> was_rejected db' p" by (auto simp: was_rejected_def)
  then show ?thesis using m grows_free[OF g] unfolding may_pair_def by blast
qed

lemma grows_chain: "\<lbrakk>grows (may_pair db bank) db db1; grows (may_pair db1 bank) db1 db2\<rbrakk> \<Longrightarrow> grows (may_pair db bank) db db2"
  by (rule grows_trans) (auto elim: grows_mono intro: grows_may_pair)

lemma find_unmatched_iff:
  "t \<in> set (find_unmatched db bank src df dt) \<longleftrightarrow> t \<in> set (txns db) \<and> available db bank src df dt t"
  by (simp add: find_unmatched_def)

lemma find_unmatched_free:
  "i \<in> t_id ` set (find_unmatched db bank src df dt) \<Longrightarrow> free_txn db bank src i"
  by (auto simp: find_unmatched_iff available_def free_txn_def)

section \<open>The interface of a strategy\<close>

definition stage_pair :: "db \<Rightarrow> txn list \<Rightarrow> txn list \<Rightarrow> nat \<times> nat \<Rightarrow> bool" where
  "stage_pair db ints exts p =
     (fst p \<in> t_id ` set ints \<and> snd p \<in> t_id ` set exts \<and> p \<notin> set (rejected_pairs db (map t_id ints)))"

definition sided :: "txn list \<Rightarrow> txn list \<Rightarrow> bool" where
  "sided ints exts = ((\<forall>t \<in> set ints. t_source t = INTERNAL) \<and> (\<forall>t \<in> set exts. t_source t = EXTERNAL))"

text \<open>A strategy works on an internal and an external pool. It keeps the ledger
  invariant, only appends, and every pair it forms comes from its pools and was
  not rejected before.\<close>

locale matching_stage =
  fixes run :: "txn list \<Rightarrow> txn list \<Rightarrow> db \<Rightarrow> ('o \<times> db) res"
  assumes run_ok: "\<lbrakk>run ints exts db = Inr (out, db'); sided ints exts; ledger_ok db\<rbrakk> \<Longrightarrow> ledger_ok db'"
    and run_grows: "\<lbrakk>run ints exts db = Inr (out, db'); sided ints exts; ledger_ok db\<rbrakk> \<Longrightarrow>
      grows (stage_pair db ints exts) db db'"
begin

lemma on_pools:
  assumes "run (find_unmatched db bank INTERNAL df dt) (find_unmatched db bank EXTERNAL df dt) db = Inr (out, db')"
    and "ledger_ok db"
  shows "ledger_ok db' \<and> grows (may_pair db bank) db db'"
proof -
  let ?i = "find_unmatched db bank INTERNAL df dt" and ?e = "find_unmatched db bank EXTERNAL df dt"
  have s: "sided ?i ?e" by (auto simp: sided_def find_unmatched_iff available_def)
  have "may_pair db bank p" if "stage_pair db ?i ?e p" for p
  proof -
    obtain i e where p: "p = (i, e)" by (cases p)
    have "free_txn db bank INTERNAL i" "free_txn db bank EXTERNAL e"
      using that p by (auto simp: stage_pair_def intro: find_unmatched_free)
    moreover have "\<not> was_rejected db (i, e)"
      using that p by (auto simp: stage_pair_def rejected_pairs_iff was_rejected_def)
    ultimately show ?thesis by (simp add: may_pair_def p)
  qed
  then have "grows (may_pair db bank) db db'" using run_grows[OF assms(1) s assms(2)] grows_mono by blast
  then show ?thesis using run_ok[OF assms(1) s assms(2)] by blast
qed

end

text \<open>One step of a strategy's loop, for strategies that record pairs.\<close>

lemma record_pair_step:
  assumes "record_pair i e r matched db = Inr (found, db')" "ledger_ok db" "pair_row i e matched r" "P (i, e)"
  shows "ledger_ok db' \<and> grows P db db'"
proof (cases found)
  case None
  then have "db' = db" using assms(1) record_pair_conflict by blast
  then show ?thesis using assms(2) by simp
next
  case (Some rid)
  note w = record_pair_writes[OF assms(1)[unfolded Some] ledger_ids[OF assms(2)] assms(3)]
  have "ledger_ok db'" using w writes_ok assms(2) by blast
  moreover have "grows P db db'"
    by (rule writes_grows[of _ _ _ _ "[]"]) (use w assms(3,4) in \<open>auto simp: pair_row_def\<close>)
  ultimately show ?thesis by blast
qed

lemma record_pair_claimed:
  assumes "record_pair i e r matched db = Inr (Some rid, db')" "ids_ok db"
  shows "is_claimed db' t \<longleftrightarrow> is_claimed db t \<or> t = i \<or> t = e"
  using record_pair_shape[OF assms] by (auto simp: is_claimed_def active_txns_def pair_claims_def)

lemma record_pair_refused:
  assumes "record_pair i e r matched db = Inr (None, db')" "ledger_ok db"
  shows "is_claimed db i \<or> is_claimed db e \<or> i = e"
proof -
  have u: "claims_unique (claims db)" using assms(2) unfolding ledger_ok_def claims_ok_def by blast
  have "\<not> claims_unique (claims db @ claim_rows (next_id db) [(i, INTERNAL), (e, EXTERNAL)])"
    using assms(1) by (auto simp: record_pair_def claim_pair_def insert_claims_def Let_def split: sum.splits if_splits)
  then show ?thesis using u
    by (auto simp: claims_unique_def active_txns_append is_claimed_def) (auto simp: active_txns_def)
qed

section \<open>Keeping the ledger\<close>

text \<open>What every step of a strategy does to a consistent ledger.\<close>

definition keeps :: "(nat \<times> nat \<Rightarrow> bool) \<Rightarrow> db \<Rightarrow> db \<Rightarrow> bool" where
  "keeps P db db' = (ledger_ok db \<longrightarrow> ledger_ok db' \<and> grows P db db')"

lemma keeps_refl [simp]: "keeps P db db"
  by (simp add: keeps_def)

lemma keeps_trans: "\<lbrakk>keeps P db1 db2; keeps P db2 db3\<rbrakk> \<Longrightarrow> keeps P db1 db3"
  unfolding keeps_def using grows_trans by blast

lemma keeps_ok: "\<lbrakk>keeps P db db'; ledger_ok db\<rbrakk> \<Longrightarrow> ledger_ok db' \<and> grows P db db'"
  unfolding keeps_def by blast

lemma keeps_mono: "\<lbrakk>keeps P db db'; \<And>p. P p \<Longrightarrow> Q p\<rbrakk> \<Longrightarrow> keeps Q db db'"
  unfolding keeps_def using grows_mono by blast

lemma record_pair_keeps:
  "\<lbrakk>record_pair i e r m db = Inr (x, db'); pair_row i e m r; P (i, e)\<rbrakk> \<Longrightarrow> keeps P db db'"
  unfolding keeps_def using record_pair_step by blast

text \<open>An audit entry written through the session. The event id is a new id.\<close>

definition append_audit ::
    "(string \<Rightarrow> string) \<Rightarrow> string \<Rightarrow> string \<Rightarrow> string \<Rightarrow> audit_action \<Rightarrow> json \<Rightarrow> string \<Rightarrow> instant
     \<Rightarrow> json \<Rightarrow> json \<Rightarrow> db \<Rightarrow> db res" where
  "append_audit sha chain atype aid action affected why ts before after db =
     bind_res (audit_append sha (next_id db) chain atype aid action affected why ts True before after (audit_log db))
       (\<lambda>log. Inr (db\<lparr>audit_log := log, next_id := next_id db + 1\<rparr>))"

lemma append_audit_shape:
  assumes "append_audit sha chain atype aid action affected why ts before after db = Inr db'"
  shows "\<exists>row. db' = db\<lparr>audit_log := audit_log db @ [row], next_id := next_id db + 1\<rparr>
     \<and> chain_id row = chain \<and> actor_id row = aid \<and> action_type row = action_text action \<and> occurred_at row = ts"
  using assms
  by (auto simp: append_audit_def audit_append_def Let_def res_iff audit_fields.defs split: if_splits sum.splits)

lemma ledger_ok_audit:
  "\<lbrakk>ledger_ok db; next_id db \<le> n\<rbrakk> \<Longrightarrow> ledger_ok (db\<lparr>audit_log := lg, next_id := n\<rparr>)"
proof -
  assume ok: "ledger_ok db" and n: "next_id db \<le> n"
  have "ids_ok (db\<lparr>audit_log := lg, next_id := n\<rparr>)"
    using ledger_ids[OF ok] n unfolding ids_ok_def by (auto dest: order.strict_trans2)
  moreover have "claims_ok (db\<lparr>audit_log := lg, next_id := n\<rparr>) = claims_ok db" by (simp add: claims_ok_def)
  moreover have "results_ok (db\<lparr>audit_log := lg, next_id := n\<rparr>) = results_ok db" by (simp add: results_ok_def held_def)
  moreover have "status_ok (db\<lparr>audit_log := lg, next_id := n\<rparr>) = status_ok db" by (simp add: status_ok_def)
  ultimately show ?thesis using ok unfolding ledger_ok_def by blast
qed

lemma append_audit_keeps:
  assumes "append_audit sha chain atype aid action affected why ts before after db = Inr db'"
  shows "keeps P db db'"
proof -
  obtain row where d: "db' = db\<lparr>audit_log := audit_log db @ [row], next_id := next_id db + 1\<rparr>"
    using append_audit_shape[OF assms] by blast
  have "ledger_ok db \<Longrightarrow> ledger_ok db'" unfolding d by (rule ledger_ok_audit) simp_all
  moreover have "grows P db db'"
    unfolding grows_def d by (simp add: exI[of _ "{}"] mark_matched_empty)
  ultimately show ?thesis by (simp add: keeps_def)
qed

end
