(* ===== verification/ExactMatch.thy ===== *)
theory ExactMatch
  imports Stage
begin

text \<open>
  Model of the exact level: the composite key (\<open>matching/keys.py\<close>), the
  build-once, probe-many strategy (\<open>matching/strategies/exact.py\<close>) and the
  set-based statement for unambiguous key groups
  (\<open>matching/strategies/exact_set_based.py\<close>). The strategy is an instance of
  \<open>matching_stage\<close>; the lemmas show that it leaves no pair it could have made,
  and that the set-based statement makes a subset of its pairs.
\<close>

section \<open>The key\<close>

record exact_key =
  k_ref :: string
  k_amount :: int
  k_currency :: string
  k_direction :: direction

definition build_key :: "txn \<Rightarrow> exact_key option" where
  "build_key t =
     (case t_ref t of
        None \<Rightarrow> None
      | Some s \<Rightarrow>
          if s = [] \<or> strip s = [] then None
          else Some \<lparr>k_ref = s, k_amount = t_amount_minor t, k_currency = t_currency t,
                     k_direction = t_direction t\<rparr>)"

section \<open>The strategy\<close>

record exact_outcome =
  ex_matched :: nat
  ex_no_key :: nat
  ex_conflicts :: nat
  ex_ids :: "nat list"

type_synonym exact_index = "(exact_key \<times> txn list) list"

definition build_index :: "txn list \<Rightarrow> exact_index \<times> nat" where
  "build_index ints =
     (group_by (\<lambda>t. the (build_key t)) (filter (\<lambda>t. build_key t \<noteq> None) ints),
      length (filter (\<lambda>t. build_key t = None) ints))"

definition disambiguate :: "txn list \<Rightarrow> txn \<Rightarrow> txn option" where
  "disambiguate bucket e =
     (case bucket of [x] \<Rightarrow> Some x
      | _ \<Rightarrow> first_min (\<lambda>c. \<bar>t_date c - t_date e\<bar>) bucket)"

definition exact_row :: "string \<Rightarrow> txn \<Rightarrow> txn \<Rightarrow> nat \<Rightarrow> result" where
  "exact_row run_id i e n =
     \<lparr>r_id = 0, r_run = run_id, r_type = EXACT, r_status = AUTO_MATCHED, r_confidence = 1,
      r_internal = t_id i, r_external = t_id e, r_rule = None, r_group = None, r_candidates = n,
      r_date = t_date e, r_reviewed_by = None, r_reviewed_at = None\<rparr>"

text \<open>The loop body for one external transaction.\<close>

definition exact_step ::
    "string \<Rightarrow> (nat \<times> nat) list \<Rightarrow> txn \<Rightarrow> exact_index \<Rightarrow> exact_outcome \<Rightarrow> db
     \<Rightarrow> (exact_index \<times> exact_outcome \<times> db) res" where
  "exact_step run_id rejected e index out db =
     (case build_key e of
        None \<Rightarrow> Inr (index, out\<lparr>ex_no_key := ex_no_key out + 1\<rparr>, db)
      | Some key \<Rightarrow>
          (let bucket = dict_get [] key index;
               allowed = filter (\<lambda>c. (t_id c, t_id e) \<notin> set rejected) bucket
           in if bucket = [] \<or> allowed = [] then Inr (index, out, db)
              else (case disambiguate allowed e of
                      None \<Rightarrow> Inr (index, out, db)
                    | Some i \<Rightarrow>
                        (case record_pair (t_id i) (t_id e) (exact_row run_id i e (length bucket)) True db of
                           Inl err \<Rightarrow> Inl err
                         | Inr (None, db') \<Rightarrow>
                             Inr (index, out\<lparr>ex_conflicts := ex_conflicts out + 1\<rparr>, db')
                         | Inr (Some rid, db') \<Rightarrow>
                             Inr (dict_put key (remove1 i bucket) index,
                                  out\<lparr>ex_matched := ex_matched out + 1, ex_ids := ex_ids out @ [rid]\<rparr>,
                                  db')))))"

fun exact_loop ::
    "string \<Rightarrow> (nat \<times> nat) list \<Rightarrow> txn list \<Rightarrow> exact_index \<Rightarrow> exact_outcome \<Rightarrow> db
     \<Rightarrow> (exact_index \<times> exact_outcome \<times> db) res" where
  "exact_loop run_id rejected [] index out db = Inr (index, out, db)"
| "exact_loop run_id rejected (e # es) index out db =
     (case exact_step run_id rejected e index out db of
        Inl err \<Rightarrow> Inl err
      | Inr (index', out', db') \<Rightarrow> exact_loop run_id rejected es index' out' db')"

definition exact_run :: "string \<Rightarrow> txn list \<Rightarrow> txn list \<Rightarrow> db \<Rightarrow> (exact_outcome \<times> db) res" where
  "exact_run run_id ints exts db =
     (let (index, skipped) = build_index ints;
          rejected = rejected_pairs db (map t_id ints)
      in case exact_loop run_id rejected exts index
                \<lparr>ex_matched = 0, ex_no_key = skipped, ex_conflicts = 0, ex_ids = []\<rparr> db of
           Inl err \<Rightarrow> Inl err
         | Inr (_, out, db') \<Rightarrow> Inr (out, db'))"

section \<open>The set-based statement\<close>

text \<open>\<open>reference ~ '\\S'\<close>: some character that PostgreSQL does not count as white space.\<close>

definition sql_space :: "char \<Rightarrow> bool" where
  "sql_space c = (9 \<le> code c \<and> code c \<le> 13 \<or> code c = 32)"

definition sb_pool :: "db \<Rightarrow> string \<Rightarrow> date option \<Rightarrow> date option \<Rightarrow> txn list" where
  "sb_pool db bank df dt =
     filter (\<lambda>t. t_bank t = bank \<and> t_status t = UNMATCHED
               \<and> (case t_ref t of None \<Rightarrow> False | Some s \<Rightarrow> list_ex (\<lambda>c. \<not> sql_space c) s)
               \<and> (case df of None \<Rightarrow> True | Some d \<Rightarrow> d \<le> t_date t)
               \<and> (case dt of None \<Rightarrow> True | Some d \<Rightarrow> t_date t \<le> d)
               \<and> \<not> is_claimed db (t_id t)) (txns db)"

definition sb_key :: "txn \<Rightarrow> string option \<times> int \<times> string \<times> direction" where
  "sb_key t = (t_ref t, t_amount_minor t, t_currency t, t_direction t)"

definition sb_group_pair :: "txn list \<Rightarrow> (txn \<times> txn) list" where
  "sb_group_pair ts =
     (case (filter (\<lambda>t. t_source t = INTERNAL) ts, filter (\<lambda>t. t_source t = EXTERNAL) ts) of
        ([i], [e]) \<Rightarrow> [(i, e)] | _ \<Rightarrow> [])"

definition sb_pairs :: "txn list \<Rightarrow> (txn \<times> txn) list" where
  "sb_pairs pool = concat (map (\<lambda>(_, ts). sb_group_pair ts) (group_by sb_key pool))"

definition sb_allowed :: "db \<Rightarrow> (txn \<times> txn) list \<Rightarrow> (txn \<times> txn) list" where
  "sb_allowed db ps =
     filter (\<lambda>(i, e). \<not> list_ex (\<lambda>r. r_status r = REJECTED \<and> r_internal r = t_id i \<and> r_external r = t_id e)
                        (results db)) ps"

definition sb_results :: "string \<Rightarrow> nat \<Rightarrow> (txn \<times> txn) list \<Rightarrow> result list" where
  "sb_results run_id n ps =
     map2 (\<lambda>k (i, e). (exact_row run_id i e 1)\<lparr>r_id := n + k\<rparr>) [0..<length ps] ps"

definition sb_claims :: "nat \<Rightarrow> result list \<Rightarrow> claim list" where
  "sb_claims n rs =
     map2 (\<lambda>k r. \<lparr>c_id = n + k, c_txn = r_internal r, c_result = Some (r_id r), c_role = INTERNAL,
                  c_active = True\<rparr>) [0..<length rs] rs
     @ map2 (\<lambda>k r. \<lparr>c_id = n + length rs + k, c_txn = r_external r, c_result = Some (r_id r),
                    c_role = EXTERNAL, c_active = True\<rparr>) [0..<length rs] rs"

definition sb_updates :: "(txn \<times> txn) list \<Rightarrow> txn \<Rightarrow> bool" where
  "sb_updates ps t =
     (t_status t = UNMATCHED
      \<and> list_ex (\<lambda>(i, e). (t_id t, t_date t) = (t_id i, t_date i) \<or> (t_id t, t_date t) = (t_id e, t_date e)) ps)"

text \<open>The statement, its row counts and the check on them.\<close>

definition set_based_exact ::
    "string \<Rightarrow> string \<Rightarrow> date option \<Rightarrow> date option \<Rightarrow> db \<Rightarrow> (nat \<times> db) res" where
  "set_based_exact run_id bank df dt db =
     (let ps = sb_allowed db (sb_pairs (sb_pool db bank df dt));
          rs = sb_results run_id (next_id db) ps;
          cs = sb_claims (next_id db + length ps) rs;
          matched = length rs; claimed = length cs; updated = length (filter (sb_updates ps) (txns db))
      in if \<not> list_all result_row_ok rs \<or> \<not> claims_unique (claims db @ cs) then Inl IntegrityError
         else if claimed \<noteq> 2 * matched \<or> updated \<noteq> 2 * matched then Inl SetBasedExactError
         else Inr (matched,
                   db\<lparr>results := results db @ rs, claims := claims db @ cs,
                      txns := map (\<lambda>t. if sb_updates ps t then t\<lparr>t_status := MATCHED\<rparr> else t) (txns db),
                      next_id := next_id db + 3 * length ps\<rparr>))"

section \<open>The index\<close>

definition index_ok :: "txn list \<Rightarrow> exact_index \<Rightarrow> bool" where
  "index_ok ints index =
     (\<forall>k. \<forall>t \<in> set (dict_get [] k index). t \<in> set ints \<and> build_key t = Some k)"

lemma build_index_get:
  "dict_get [] k (fst (build_index ints)) = filter (\<lambda>t. build_key t = Some k) ints"
  by (auto simp: build_index_def intro!: filter_cong)

lemma build_index_ok: "index_ok ints (fst (build_index ints))"
  by (simp add: index_ok_def build_index_get)

lemma disambiguate_min: "disambiguate bucket e = first_min (\<lambda>c. \<bar>t_date c - t_date e\<bar>) bucket"
  by (simp add: disambiguate_def split: list.splits)

lemma disambiguate_in: "disambiguate bucket e = Some i \<Longrightarrow> i \<in> set bucket"
  unfolding disambiguate_min by (rule first_min_in)

lemma disambiguate_closest:
  "\<lbrakk>disambiguate bucket e = Some i; c \<in> set bucket\<rbrakk> \<Longrightarrow> \<bar>t_date i - t_date e\<bar> \<le> \<bar>t_date c - t_date e\<bar>"
  unfolding disambiguate_min by (rule first_min_le)

lemma disambiguate_some: "bucket \<noteq> [] \<Longrightarrow> \<exists>i. disambiguate bucket e = Some i"
  unfolding disambiguate_min by (metis first_min_None not_None_eq)

section \<open>What one probe does\<close>

lemma exact_row_pair: "pair_row (t_id i) (t_id e) True (exact_row run_id i e n)"
  by (simp add: pair_row_def exact_row_def live_def settled_def)

inductive probe :: "(nat \<times> nat) list \<Rightarrow> txn \<Rightarrow> exact_index \<Rightarrow> db \<Rightarrow> exact_index \<Rightarrow> db \<Rightarrow> txn option \<Rightarrow> bool"
  for rejected e index db where
  probe_skip: "\<lbrakk>\<And>k t. \<lbrakk>build_key e = Some k; t \<in> set (dict_get [] k index)\<rbrakk> \<Longrightarrow> (t_id t, t_id e) \<in> set rejected\<rbrakk>
     \<Longrightarrow> probe rejected e index db index db None"
| probe_conflict: "\<lbrakk>build_key e = Some k; i \<in> set (dict_get [] k index); (t_id i, t_id e) \<notin> set rejected;
     record_pair (t_id i) (t_id e) r True db = Inr (None, db)\<rbrakk>
     \<Longrightarrow> probe rejected e index db index db None"
| probe_match: "\<lbrakk>build_key e = Some k; i \<in> set (dict_get [] k index); (t_id i, t_id e) \<notin> set rejected;
     \<forall>c \<in> set (dict_get [] k index). (t_id c, t_id e) \<notin> set rejected \<longrightarrow> \<bar>t_date i - t_date e\<bar> \<le> \<bar>t_date c - t_date e\<bar>;
     record_pair (t_id i) (t_id e) r True db = Inr (Some rid, db'); pair_row (t_id i) (t_id e) True r;
     r_type r = EXACT; r_confidence r = 1\<rbrakk>
     \<Longrightarrow> probe rejected e index db (dict_put k (remove1 i (dict_get [] k index)) index) db' (Some i)"

inductive_cases probe_elim: "probe rejected e index db index' db' found"

lemma exact_step_probe:
  assumes "exact_step run_id rejected e index out db = Inr (index', out', db')"
  shows "\<exists>found. probe rejected e index db index' db' found"
proof (cases "build_key e")
  case None
  then have "index' = index" "db' = db" using assms by (auto simp: exact_step_def)
  then show ?thesis using probe_skip[of e index rejected db] None by fastforce
next
  case (Some key)
  let ?b = "dict_get [] key index" and ?a = "filter (\<lambda>c. (t_id c, t_id e) \<notin> set rejected) (dict_get [] key index)"
  show ?thesis
  proof (cases "?b = [] \<or> ?a = []")
    case True
    then have "index' = index" "db' = db" using assms Some by (auto simp: exact_step_def Let_def)
    moreover have "probe rejected e index db index db None"
      by (rule probe_skip) (use True Some in \<open>auto simp: filter_empty_conv\<close>)
    ultimately show ?thesis by blast
  next
    case False
    then obtain i where i: "disambiguate ?a e = Some i" using disambiguate_some[of ?a e] by blast
    have mem: "i \<in> set ?b" "(t_id i, t_id e) \<notin> set rejected" using disambiguate_in[OF i] by auto
    let ?r = "exact_row run_id i e (length ?b)"
    obtain f d where rp: "record_pair (t_id i) (t_id e) ?r True db = Inr (f, d)"
      using assms Some False i by (auto simp: exact_step_def Let_def split: sum.splits)
    show ?thesis
    proof (cases f)
      case None
      then have "d = db" using rp record_pair_conflict by blast
      moreover have "index' = index" "db' = d" using assms Some False i rp None by (auto simp: exact_step_def Let_def)
      ultimately show ?thesis using probe_conflict[OF Some mem] rp None by blast
    next
      case (Some rid)
      note f = this
      have e: "index' = dict_put key (remove1 i ?b) index" "db' = d"
        using assms \<open>build_key e = Some key\<close> False i rp f by (auto simp: exact_step_def Let_def)
      have "probe rejected e index db (dict_put key (remove1 i ?b) index) d (Some i)"
        by (rule probe_match[OF \<open>build_key e = Some key\<close> mem _ rp[unfolded f] exact_row_pair])
           (use disambiguate_closest[OF i] in \<open>auto simp: exact_row_def\<close>)
      then show ?thesis using e by blast
    qed
  qed
qed

definition exact_pair :: "(nat \<times> nat) list \<Rightarrow> txn list \<Rightarrow> txn list \<Rightarrow> nat \<times> nat \<Rightarrow> bool" where
  "exact_pair rejected ints exts p =
     (p \<notin> set rejected \<and> (\<exists>i \<in> set ints. \<exists>e \<in> set exts. p = (t_id i, t_id e)
        \<and> build_key i = build_key e \<and> build_key e \<noteq> None))"

lemma probe_keeps:
  assumes "probe rejected e index db index' db' found" "ledger_ok db" "index_ok ints index" "e \<in> set exts"
  shows "ledger_ok db' \<and> index_ok ints index' \<and> grows (exact_pair rejected ints exts) db db'"
  using assms(1)
proof (cases rule: probe.cases)
  case (probe_match k i r rid)
  have i: "i \<in> set ints" "build_key i = Some k" using assms(3) probe_match(4) by (auto simp: index_ok_def)
  have "exact_pair rejected ints exts (t_id i, t_id e)"
    unfolding exact_pair_def using i assms(4) probe_match(3,5) by (intro conjI bexI[of _ i] bexI[of _ e]) auto
  then have "ledger_ok db' \<and> grows (exact_pair rejected ints exts) db db'"
    using record_pair_step[OF probe_match(7) assms(2) probe_match(8)] by blast
  moreover have "index_ok ints index'"
    using assms(3) probe_match(1) notin_set_remove1 by (fastforce simp: index_ok_def dict_get_put split: if_splits)
  ultimately show ?thesis by blast
qed (use assms in auto)

lemma exact_loop_keeps:
  "\<lbrakk>exact_loop run_id rejected es index out db = Inr (index', out', db'); ledger_ok db; index_ok ints index;
    set es \<subseteq> set exts\<rbrakk> \<Longrightarrow>
   ledger_ok db' \<and> index_ok ints index' \<and> grows (exact_pair rejected ints exts) db db'"
proof (induction es arbitrary: index out db)
  case (Cons e es)
  obtain ix o1 d1 where s: "exact_step run_id rejected e index out db = Inr (ix, o1, d1)"
    using Cons.prems(1) by (auto split: sum.splits)
  obtain found where "probe rejected e index db ix d1 found" using exact_step_probe[OF s] by blast
  then have k: "ledger_ok d1 \<and> index_ok ints ix \<and> grows (exact_pair rejected ints exts) db d1"
    using probe_keeps Cons.prems(2-4) by (metis list.set_intros(1) subsetD)
  moreover have "exact_loop run_id rejected es ix o1 d1 = Inr (index', out', db')" using Cons.prems(1) s by simp
  ultimately show ?case using Cons.IH[of ix o1 d1] Cons.prems(4) grows_trans by fastforce
qed simp

lemma exact_run_loop:
  assumes "exact_run run_id ints exts db = Inr (out, db')"
  shows "\<exists>ix oo. exact_loop run_id (rejected_pairs db (map t_id ints)) exts (fst (build_index ints)) oo db = Inr (ix, out, db')"
  using assms by (auto simp: exact_run_def Let_def split: sum.splits prod.splits)

lemma exact_run_keeps:
  assumes "exact_run run_id ints exts db = Inr (out, db')" "ledger_ok db"
  shows "ledger_ok db' \<and> grows (exact_pair (rejected_pairs db (map t_id ints)) ints exts) db db'"
  using exact_run_loop[OF assms(1)] exact_loop_keeps[OF _ assms(2) build_index_ok order_refl] by blast

interpretation exact_stage: matching_stage "exact_run run_id"
proof
  fix ints exts db out db'
  assume r: "exact_run run_id ints exts db = Inr (out, db')" and l: "ledger_ok db"
  show "ledger_ok db'" using exact_run_keeps[OF r l] by blast
  show "grows (stage_pair db ints exts) db db'"
    using exact_run_keeps[OF r l] by (auto elim!: grows_mono simp: exact_pair_def stage_pair_def)
qed

section \<open>Nothing is left on the table\<close>

definition index_free :: "db \<Rightarrow> txn list \<Rightarrow> exact_index \<Rightarrow> bool" where
  "index_free db ints index =
     (\<forall>k. dict_get [] k index = filter (\<lambda>t. build_key t = Some k \<and> \<not> is_claimed db (t_id t)) ints)"

definition covered :: "db \<Rightarrow> (nat \<times> nat) list \<Rightarrow> txn list \<Rightarrow> txn \<Rightarrow> bool" where
  "covered db rejected ints e =
     (\<forall>i \<in> set ints. build_key i = build_key e \<and> build_key e \<noteq> None \<and> (t_id i, t_id e) \<notin> set rejected
        \<longrightarrow> is_claimed db (t_id i) \<or> is_claimed db (t_id e))"

lemma covered_grows: "\<lbrakk>covered db rejected ints e; grows P db db'\<rbrakk> \<Longrightarrow> covered db' rejected ints e"
  unfolding covered_def using grows_claimed by blast

lemma remove1_by_id:
  assumes "distinct (map t_id xs)" "i \<in> set xs" "P i"
  shows "remove1 i (filter P xs) = filter (\<lambda>t. P t \<and> t_id t \<noteq> t_id i) xs"
proof -
  have "distinct xs" using assms(1) by (simp add: distinct_map)
  then have "remove1 i (filter P xs) = filter (\<lambda>t. t \<noteq> i) (filter P xs)"
    by (simp add: distinct_remove1_removeAll removeAll_filter_not_eq) (metis (mono_tags))
  also have "\<dots> = filter (\<lambda>t. P t \<and> t_id t \<noteq> t_id i) xs"
    using assms(1,2) distinct_map_inj[of t_id xs] by (auto simp: intro!: filter_cong)
  finally show ?thesis .
qed

lemma probe_covers:
  assumes "probe rejected e index db index' db' found" "ledger_ok db" "index_free db ints index"
    "distinct (map t_id ints)" "t_id e \<notin> t_id ` set ints"
  shows "index_free db' ints index' \<and> covered db' rejected ints e"
  using assms(1)
proof (cases rule: probe.cases)
  case probe_skip
  then show ?thesis using assms(3) by (fastforce simp: covered_def index_free_def)
next
  case (probe_conflict k i r)
  have "i \<in> set ints" "\<not> is_claimed db (t_id i)" using probe_conflict(5) assms(3) by (auto simp: index_free_def)
  then have "is_claimed db (t_id e)"
    using record_pair_refused[OF probe_conflict(7) assms(2)] assms(5) imageI[of i _ t_id] by metis
  then show ?thesis using probe_conflict assms(3) by (simp add: covered_def)
next
  case (probe_match k i r rid)
  have i: "i \<in> set ints" "build_key i = Some k" "\<not> is_claimed db (t_id i)"
    using probe_match(4) assms(3) by (auto simp: index_free_def)
  note cl = record_pair_claimed[OF probe_match(7) ledger_ids[OF assms(2)]]
  have ne: "\<forall>t \<in> set ints. t_id t \<noteq> t_id e" using assms(5) by (metis imageI)
  have "dict_get [] j index' = filter (\<lambda>t. build_key t = Some j \<and> \<not> is_claimed db' (t_id t)) ints" for j
  proof (cases "j = k")
    case True
    have "dict_get [] j index'
        = filter (\<lambda>t. (build_key t = Some k \<and> \<not> is_claimed db (t_id t)) \<and> t_id t \<noteq> t_id i) ints"
      using remove1_by_id[OF assms(4) i(1), of "\<lambda>t. build_key t = Some k \<and> \<not> is_claimed db (t_id t)"] i
        assms(3) True by (simp add: probe_match(1) dict_get_put index_free_def)
    then show ?thesis using True ne by (auto simp: cl intro!: filter_cong)
  next
    case False
    then have "dict_get [] j index' = filter (\<lambda>t. build_key t = Some j \<and> \<not> is_claimed db (t_id t)) ints"
      using assms(3) by (simp add: probe_match(1) dict_get_put index_free_def)
    moreover have "t_id t \<noteq> t_id i" if "t \<in> set ints" "build_key t = Some j" for t
      using that i False distinct_map_inj[OF assms(4)] by fastforce
    ultimately show ?thesis using ne by (auto simp: cl intro!: filter_cong)
  qed
  then show ?thesis by (simp add: index_free_def covered_def cl)
qed

lemma exact_loop_covers:
  "\<lbrakk>exact_loop run_id rejected es index out db = Inr (index', out', db'); ledger_ok db; index_ok ints index;
    index_free db ints index; distinct (map t_id ints); t_id ` set es \<inter> t_id ` set ints = {}\<rbrakk> \<Longrightarrow>
   \<forall>e \<in> set es. covered db' rejected ints e"
proof (induction es arbitrary: index out db)
  case (Cons e es)
  obtain ix o1 d1 where s: "exact_step run_id rejected e index out db = Inr (ix, o1, d1)"
    using Cons.prems(1) by (auto split: sum.splits)
  obtain found where p: "probe rejected e index db ix d1 found" using exact_step_probe[OF s] by blast
  have k: "ledger_ok d1 \<and> index_ok ints ix" using probe_keeps[OF p Cons.prems(2,3), of "[e]"] by simp
  have c: "index_free d1 ints ix \<and> covered d1 rejected ints e"
    using probe_covers[OF p Cons.prems(2,4,5)] Cons.prems(6) by auto
  have l: "exact_loop run_id rejected es ix o1 d1 = Inr (index', out', db')" using Cons.prems(1) s by simp
  have "grows (exact_pair rejected ints es) d1 db'"
    using exact_loop_keeps[OF l conjunct1[OF k] conjunct2[OF k] order_refl] by blast
  then have "covered db' rejected ints e" using c covered_grows by blast
  moreover have "\<forall>e \<in> set es. covered db' rejected ints e"
    using Cons.IH[OF l] k c Cons.prems(5,6) by auto
  ultimately show ?case by simp
qed simp

lemma pool_ids:
  assumes "ids_ok db"
  shows "distinct (map t_id (find_unmatched db bank src df dt))"
    "t_id ` set (find_unmatched db bank EXTERNAL df dt) \<inter> t_id ` set (find_unmatched db bank INTERNAL df dt) = {}"
proof -
  have d: "distinct (map t_id (txns db))" using assms by (simp add: ids_ok_def)
  have "distinct (map t_id (filter (available db bank src df dt) (txns db)))"
    using d by (rule distinct_map_filter)
  then have "distinct (find_unmatched db bank src df dt)" "inj_on t_id (set (find_unmatched db bank src df dt))"
    by (simp_all add: find_unmatched_def distinct_map)
  then show "distinct (map t_id (find_unmatched db bank src df dt))" by (simp add: distinct_map)
  show "t_id ` set (find_unmatched db bank EXTERNAL df dt) \<inter> t_id ` set (find_unmatched db bank INTERNAL df dt) = {}"
  proof (rule ccontr)
    assume "\<not> ?thesis"
    then obtain a b where a: "a \<in> set (txns db)" "t_source a = EXTERNAL" and b: "b \<in> set (txns db)" "t_source b = INTERNAL"
      and e: "t_id a = t_id b"
      unfolding disjoint_iff image_iff by (auto simp: find_unmatched_iff available_def)
    have "a = b" using distinct_map_inj[OF d a(1) b(1) e] .
    then show False using a(2) b(2) by simp
  qed
qed

lemma pool_unclaimed: "t \<in> set (find_unmatched db bank src df dt) \<Longrightarrow> \<not> is_claimed db (t_id t)"
  by (simp add: find_unmatched_iff available_def)

lemma exact_run_covers:
  assumes "exact_run run_id (find_unmatched db bank INTERNAL df dt) (find_unmatched db bank EXTERNAL df dt) db = Inr (out, db')"
    "ledger_ok db" "e \<in> set (find_unmatched db bank EXTERNAL df dt)"
  shows "covered db' (rejected_pairs db (map t_id (find_unmatched db bank INTERNAL df dt)))
           (find_unmatched db bank INTERNAL df dt) e"
proof -
  let ?i = "find_unmatched db bank INTERNAL df dt" and ?e = "find_unmatched db bank EXTERNAL df dt"
  obtain ix oo where l: "exact_loop run_id (rejected_pairs db (map t_id ?i)) ?e (fst (build_index ?i)) oo db = Inr (ix, out, db')"
    using exact_run_loop[OF assms(1)] by blast
  have "index_free db ?i (fst (build_index ?i))"
    by (auto simp: index_free_def build_index_get pool_unclaimed intro!: filter_cong)
  then show ?thesis
    using exact_loop_covers[OF l assms(2) build_index_ok _ pool_ids(1)[OF ledger_ids[OF assms(2)]]
      pool_ids(2)[OF ledger_ids[OF assms(2)]]] assms(3) by blast
qed

section \<open>The set-based statement writes one settled row per pair\<close>

lemma filter_head_in: "filter P xs = y # ys \<Longrightarrow> y \<in> set xs \<and> P y"
proof -
  assume "filter P xs = y # ys"
  then have "y \<in> set (filter P xs)" by simp
  then show ?thesis by simp
qed

lemma sb_group_pair_in:
  "(i, e) \<in> set (sb_group_pair ts) \<Longrightarrow>
   filter (\<lambda>t. t_source t = INTERNAL) ts = [i] \<and> filter (\<lambda>t. t_source t = EXTERNAL) ts = [e]"
  by (auto simp: sb_group_pair_def split: list.splits)

lemma sb_group_pair_short: "sb_group_pair ts = [] \<or> (\<exists>p. sb_group_pair ts = [p])"
  by (auto simp: sb_group_pair_def split: list.splits)

lemma sb_pairs_iff:
  "(i, e) \<in> set (sb_pairs pool) \<longleftrightarrow>
   i \<in> set pool \<and> sb_key e = sb_key i
   \<and> filter (\<lambda>t. t_source t = INTERNAL) (filter (\<lambda>t. sb_key t = sb_key i) pool) = [i]
   \<and> filter (\<lambda>t. t_source t = EXTERNAL) (filter (\<lambda>t. sb_key t = sb_key i) pool) = [e]"
proof
  assume "(i, e) \<in> set (sb_pairs pool)"
  then obtain k ts where g: "(k, ts) \<in> set (group_by sb_key pool)" "(i, e) \<in> set (sb_group_pair ts)"
    by (auto simp: sb_pairs_def)
  have ts: "ts = filter (\<lambda>t. sb_key t = k) pool" using group_by_entry[OF g(1)] .
  have f: "filter (\<lambda>t. t_source t = INTERNAL) ts = [i]" "filter (\<lambda>t. t_source t = EXTERNAL) ts = [e]"
    using sb_group_pair_in[OF g(2)] by auto
  have "i \<in> set ts" "e \<in> set ts" using filter_head_in[OF f(1)] filter_head_in[OF f(2)] by simp_all
  then have m: "i \<in> set pool" "sb_key i = k" "sb_key e = k" unfolding ts by simp_all
  show "i \<in> set pool \<and> sb_key e = sb_key i
   \<and> filter (\<lambda>t. t_source t = INTERNAL) (filter (\<lambda>t. sb_key t = sb_key i) pool) = [i]
   \<and> filter (\<lambda>t. t_source t = EXTERNAL) (filter (\<lambda>t. sb_key t = sb_key i) pool) = [e]"
    using f m(1) unfolding ts m(2,3) by blast
next
  assume a: "i \<in> set pool \<and> sb_key e = sb_key i
   \<and> filter (\<lambda>t. t_source t = INTERNAL) (filter (\<lambda>t. sb_key t = sb_key i) pool) = [i]
   \<and> filter (\<lambda>t. t_source t = EXTERNAL) (filter (\<lambda>t. sb_key t = sb_key i) pool) = [e]"
  then have "sb_key i \<in> fst ` set (group_by sb_key pool)" by (simp add: group_by_keys)
  then obtain ts where ts: "(sb_key i, ts) \<in> set (group_by sb_key pool)" by auto
  have t: "ts = filter (\<lambda>t. sb_key t = sb_key i) pool" by (rule group_by_entry[OF ts])
  have f1: "filter (\<lambda>t. t_source t = INTERNAL) ts = [i]"
    unfolding t by (rule conjunct1[OF conjunct2[OF conjunct2[OF a]]])
  have f2: "filter (\<lambda>t. t_source t = EXTERNAL) ts = [e]"
    unfolding t by (rule conjunct2[OF conjunct2[OF conjunct2[OF a]]])
  have g: "sb_group_pair ts = [(i, e)]" unfolding sb_group_pair_def f1 f2 by simp
  have "sb_group_pair ts \<in> set (map (\<lambda>(_, ts). sb_group_pair ts) (group_by sb_key pool))"
    unfolding set_map using ts by (rule rev_image_eqI) simp
  moreover have "(i, e) \<in> set (sb_group_pair ts)" unfolding g by simp
  ultimately show "(i, e) \<in> set (sb_pairs pool)" unfolding sb_pairs_def set_concat by (rule UN_I)
qed

lemma sb_pairs_members:
  assumes "(i, e) \<in> set (sb_pairs pool)"
  shows "i \<in> set pool" "e \<in> set pool" "t_source i = INTERNAL" "t_source e = EXTERNAL" "sb_key e = sb_key i"
proof -
  note f = assms[unfolded sb_pairs_iff]
  have "i \<in> set (filter (\<lambda>t. t_source t = INTERNAL) (filter (\<lambda>t. sb_key t = sb_key i) pool))"
    "e \<in> set (filter (\<lambda>t. t_source t = EXTERNAL) (filter (\<lambda>t. sb_key t = sb_key i) pool))"
    using f by simp_all
  then show "i \<in> set pool" "e \<in> set pool" "t_source i = INTERNAL" "t_source e = EXTERNAL" "sb_key e = sb_key i"
    by auto
qed

lemma sb_pairs_keys: "distinct (map (\<lambda>p. sb_key (fst p)) (sb_pairs pool))"
proof -
  have "map (\<lambda>p. sb_key (fst p)) (concat (map (\<lambda>(_, ts). sb_group_pair ts) gs))
      = map fst (filter (\<lambda>(_, ts). sb_group_pair ts \<noteq> []) gs)"
    if "set gs \<subseteq> set (group_by sb_key pool)" for gs
    using that
  proof (induction gs)
    case (Cons g gs)
    obtain k ts where g: "g = (k, ts)" by (cases g)
    have ts: "ts = filter (\<lambda>t. sb_key t = k) pool" using Cons.prems g group_by_entry by auto
    have "sb_key (fst p) = k" if "p \<in> set (sb_group_pair ts)" for p
    proof -
      obtain i e where p: "p = (i, e)" by (cases p)
      have f: "filter (\<lambda>t. t_source t = INTERNAL) ts = [i]" using sb_group_pair_in[of i e ts] that p by simp
      have "i \<in> set ts" using filter_head_in[OF f] by simp
      then show ?thesis using ts p by simp
    qed
    then have "map (\<lambda>p. sb_key (fst p)) (sb_group_pair ts) = (if sb_group_pair ts = [] then [] else [k])"
      using sb_group_pair_short[of ts] by auto
    then show ?case using Cons g by simp
  qed simp
  then have "map (\<lambda>p. sb_key (fst p)) (sb_pairs pool)
      = map fst (filter (\<lambda>(_, ts). sb_group_pair ts \<noteq> []) (group_by sb_key pool))"
    unfolding sb_pairs_def by blast
  then show ?thesis using group_by_distinct[of sb_key pool] by (simp add: distinct_map_filter)
qed

text \<open>Pairs whose transactions are free and all different.\<close>

definition free_pairs :: "db \<Rightarrow> (txn \<times> txn) list \<Rightarrow> bool" where
  "free_pairs db ps =
     (distinct (map (\<lambda>p. t_id (fst p)) ps @ map (\<lambda>p. t_id (snd p)) ps)
      \<and> (\<forall>(i, e) \<in> set ps. i \<in> set (txns db) \<and> e \<in> set (txns db)
           \<and> t_status i = UNMATCHED \<and> t_status e = UNMATCHED
           \<and> \<not> is_claimed db (t_id i) \<and> \<not> is_claimed db (t_id e)))"

lemma sb_pool_members:
  "t \<in> set (sb_pool db bank df dt) \<Longrightarrow>
   t \<in> set (txns db) \<and> t_bank t = bank \<and> t_status t = UNMATCHED \<and> \<not> is_claimed db (t_id t)"
  by (simp add: sb_pool_def)

lemma sb_free_pairs:
  assumes "ids_ok db"
  shows "free_pairs db (sb_allowed db (sb_pairs (sb_pool db bank df dt)))"
proof -
  let ?pool = "sb_pool db bank df dt"
  let ?ps = "sb_allowed db (sb_pairs ?pool)"
  have d: "distinct (map t_id (txns db))" using assms by (simp add: ids_ok_def)
  have inj: "a = b" if "t_id a = t_id b" "a \<in> set ?pool" "b \<in> set ?pool" for a b
    using distinct_map_inj[OF d] sb_pool_members that by blast
  have sub: "set ?ps \<subseteq> set (sb_pairs ?pool)" by (auto simp: sb_allowed_def)
  have dk: "distinct (map (\<lambda>p. sb_key (fst p)) ?ps)"
    unfolding sb_allowed_def by (rule distinct_map_filter[OF sb_pairs_keys])
  have mem: "fst p \<in> set ?pool" "snd p \<in> set ?pool" "t_source (fst p) = INTERNAL" "t_source (snd p) = EXTERNAL"
    "sb_key (snd p) = sb_key (fst p)" if "p \<in> set ?ps" for p
    using sb_pairs_members[of "fst p" "snd p"] that sub by auto
  have i1: "inj_on (\<lambda>p. t_id (fst p)) (set ?ps)"
  proof (rule inj_onI)
    fix p q assume pq: "p \<in> set ?ps" "q \<in> set ?ps" "t_id (fst p) = t_id (fst q)"
    then have "fst p = fst q" using inj mem(1) by blast
    then show "p = q" using distinct_map_inj[OF dk pq(1,2)] by simp
  qed
  have i2: "inj_on (\<lambda>p. t_id (snd p)) (set ?ps)"
  proof (rule inj_onI)
    fix p q assume pq: "p \<in> set ?ps" "q \<in> set ?ps" "t_id (snd p) = t_id (snd q)"
    then have "snd p = snd q" using inj mem(2) by blast
    then have "sb_key (fst p) = sb_key (fst q)" using mem(5)[OF pq(1)] mem(5)[OF pq(2)] by simp
    then show "p = q" using distinct_map_inj[OF dk pq(1,2)] by simp
  qed
  have dp: "distinct ?ps" using dk by (simp add: distinct_map)
  have x: "t_id (fst p) \<noteq> t_id (snd q)" if "p \<in> set ?ps" "q \<in> set ?ps" for p q
    using inj[of "fst p" "snd q"] mem[OF that(1)] mem[OF that(2)] by auto
  have "distinct (map (\<lambda>p. t_id (fst p)) ?ps @ map (\<lambda>p. t_id (snd p)) ?ps)"
    using i1 i2 dp x by (auto simp: distinct_map)
  then show ?thesis using mem sb_pool_members unfolding free_pairs_def by (fastforce split: prod.splits)
qed

lemma sb_results_nth:
  "k < length ps \<Longrightarrow> sb_results run_id n ps ! k = (exact_row run_id (fst (ps ! k)) (snd (ps ! k)) 1)\<lparr>r_id := n + k\<rparr>"
  by (simp add: sb_results_def split: prod.splits)

lemma sb_results_length [simp]: "length (sb_results run_id n ps) = length ps"
  by (simp add: sb_results_def)

lemma sb_results_in:
  "r \<in> set (sb_results run_id n ps) \<longleftrightarrow>
   (\<exists>k < length ps. r = (exact_row run_id (fst (ps ! k)) (snd (ps ! k)) 1)\<lparr>r_id := n + k\<rparr>)"
  by (auto simp: in_set_conv_nth sb_results_nth)

lemma sb_results_cols:
  "map r_internal (sb_results run_id n ps) = map (\<lambda>p. t_id (fst p)) ps"
  "map r_external (sb_results run_id n ps) = map (\<lambda>p. t_id (snd p)) ps"
  "map r_id (sb_results run_id n ps) = map (\<lambda>k. n + k) [0..<length ps]"
  by (rule nth_equalityI; simp add: sb_results_nth exact_row_def)+

lemma sb_claims_cols:
  "map c_txn (sb_claims m rs) = map r_internal rs @ map r_external rs"
  "map c_id (sb_claims m rs) = map (\<lambda>k. m + k) [0..<2 * length rs]"
  "length (sb_claims m rs) = 2 * length rs"
  by (rule nth_equalityI; simp add: sb_claims_def nth_append)+ (simp add: sb_claims_def)

lemma sb_claims_in:
  "c \<in> set (sb_claims m rs) \<Longrightarrow>
   c_active c \<and> (\<exists>r \<in> set rs. c_result c = Some (r_id r) \<and> c_txn c \<in> sides r)"
  by (auto simp: sb_claims_def set_zip sides_def intro: bexI[of _ "rs ! _"])

lemma sb_claims_cover:
  assumes "r \<in> set rs" "t \<in> sides r"
  shows "\<exists>c \<in> set (sb_claims m rs). c_txn c = t \<and> c_result c = Some (r_id r)"
proof -
  obtain k where k: "k < length rs" "r = rs ! k" using assms(1) by (auto simp: in_set_conv_nth)
  consider "t = r_internal r" | "t = r_external r" using assms(2) by (auto simp: sides_def)
  then show ?thesis
  proof cases
    case 1
    show ?thesis unfolding sb_claims_def
      by (rule bexI[of _ "\<lparr>c_id = m + k, c_txn = t, c_result = Some (r_id r), c_role = INTERNAL, c_active = True\<rparr>"])
         (use k 1 in \<open>auto simp: set_zip image_iff intro!: exI[of _ k]\<close>)
  next
    case 2
    show ?thesis unfolding sb_claims_def
      by (rule bexI[of _ "\<lparr>c_id = m + length rs + k, c_txn = t, c_result = Some (r_id r), c_role = EXTERNAL, c_active = True\<rparr>"])
         (use k 2 in \<open>auto simp: set_zip image_iff intro!: exI[of _ k]\<close>)
  qed
qed

definition sb_final :: "string \<Rightarrow> (txn \<times> txn) list \<Rightarrow> db \<Rightarrow> db" where
  "sb_final run_id ps db =
     (let rs = sb_results run_id (next_id db) ps in
      db\<lparr>results := results db @ rs, claims := claims db @ sb_claims (next_id db + length ps) rs,
         txns := map (\<lambda>t. if sb_updates ps t then t\<lparr>t_status := MATCHED\<rparr> else t) (txns db),
         next_id := next_id db + 3 * length ps\<rparr>)"

lemma sb_settled_ids:
  "settled_ids (sb_results run_id n ps) = set (map (\<lambda>p. t_id (fst p)) ps @ map (\<lambda>p. t_id (snd p)) ps)"
proof -
  have "settled r" if "r \<in> set (sb_results run_id n ps)" for r
    using that by (auto simp: sb_results_in exact_row_def settled_def)
  then have "settled_ids (sb_results run_id n ps) = (\<Union>r \<in> set (sb_results run_id n ps). sides r)"
    by (auto simp: settled_ids_def)
  also have "\<dots> = set (map r_internal (sb_results run_id n ps) @ map r_external (sb_results run_id n ps))"
    by (auto simp: sides_def)
  finally show ?thesis unfolding sb_results_cols .
qed

lemma sb_updates_iff:
  assumes "free_pairs db ps" "distinct (map t_id (txns db))" "t \<in> set (txns db)"
  shows "sb_updates ps t \<longleftrightarrow> t_id t \<in> set (map (\<lambda>p. t_id (fst p)) ps @ map (\<lambda>p. t_id (snd p)) ps)"
proof
  assume "sb_updates ps t"
  then show "t_id t \<in> set (map (\<lambda>p. t_id (fst p)) ps @ map (\<lambda>p. t_id (snd p)) ps)"
    by (force simp: sb_updates_def list_ex_iff)
next
  assume "t_id t \<in> set (map (\<lambda>p. t_id (fst p)) ps @ map (\<lambda>p. t_id (snd p)) ps)"
  then obtain i e where p: "(i, e) \<in> set ps" and t: "t_id t = t_id i \<or> t_id t = t_id e" by auto
  have m: "i \<in> set (txns db)" "e \<in> set (txns db)" "t_status i = UNMATCHED" "t_status e = UNMATCHED"
    using assms(1) p by (auto simp: free_pairs_def)
  have "t = i \<or> t = e" using t distinct_map_inj[OF assms(2,3)] m(1,2) by blast
  then show "sb_updates ps t" using p m by (auto simp: sb_updates_def list_ex_iff)
qed

lemma sb_writes:
  assumes "ids_ok db" "distinct (active_txns (claims db))" "free_pairs db ps"
  shows "writes db (sb_results run_id (next_id db) ps)
     (sb_claims (next_id db + length ps) (sb_results run_id (next_id db) ps)) (sb_final run_id ps db)"
proof -
  let ?rs = "sb_results run_id (next_id db) ps"
  let ?cs = "sb_claims (next_id db + length ps) ?rs"
  let ?L = "map (\<lambda>p. t_id (fst p)) ps @ map (\<lambda>p. t_id (snd p)) ps"
  have d: "distinct (map t_id (txns db))" using assms(1) by (simp add: ids_ok_def)
  have dL: "distinct ?L" using assms(3) by (simp add: free_pairs_def)
  have act: "active_txns ?cs = ?L"
  proof -
    have "filter c_active ?cs = ?cs" using sb_claims_in by (auto simp: filter_id_conv)
    then show ?thesis by (simp add: active_txns_def sb_claims_cols sb_results_cols del: map_append)
  qed
  have fresh: "set (active_txns (claims db)) \<inter> set ?L = {}"
    using assms(3) by (fastforce simp: free_pairs_def is_claimed_def)
  have tx: "txns (sb_final run_id ps db) = map (mark_matched (settled_ids ?rs)) (txns db)"
    using sb_updates_iff[OF assms(3) d] unfolding sb_settled_ids
    by (simp add: sb_final_def Let_def mark_matched_def del: set_append)
  have "distinct (map r_id ?rs)" unfolding sb_results_cols by (simp add: distinct_map inj_on_def)
  moreover have "distinct (map c_id ?cs)" unfolding sb_claims_cols by (simp add: distinct_map inj_on_def)
  moreover have "next_id db \<le> c_id c \<and> c_id c < next_id db + 3 * length ps" if "c \<in> set ?cs" for c
  proof -
    have "c_id c \<in> set (map c_id ?cs)" using that by simp
    then show ?thesis unfolding sb_claims_cols by auto
  qed
  moreover have "next_id db \<le> r_id r \<and> r_id r < next_id db + 3 * length ps \<and> r_group r = None \<and> live r"
    if "r \<in> set ?rs" for r using that by (auto simp: sb_results_in exact_row_def live_def)
  ultimately show ?thesis unfolding writes_def using tx sb_claims_in sb_claims_cover assms(2) dL fresh act
    by (simp add: sb_final_def Let_def active_txns_append) (metis sb_claims_cover)
qed

lemma set_based_exact_value:
  assumes "ledger_ok db"
  shows "set_based_exact run_id bank df dt db
     = Inr (length (sb_allowed db (sb_pairs (sb_pool db bank df dt))),
            sb_final run_id (sb_allowed db (sb_pairs (sb_pool db bank df dt))) db)"
proof -
  let ?ps = "sb_allowed db (sb_pairs (sb_pool db bank df dt))"
  let ?rs = "sb_results run_id (next_id db) ?ps"
  let ?cs = "sb_claims (next_id db + length ?ps) ?rs"
  let ?L = "map (\<lambda>p. t_id (fst p)) ?ps @ map (\<lambda>p. t_id (snd p)) ?ps"
  have ids: "ids_ok db" by (rule ledger_ids[OF assms])
  have fp: "free_pairs db ?ps" by (rule sb_free_pairs[OF ids])
  have d: "distinct (map t_id (txns db))" using ids by (simp add: ids_ok_def)
  have w: "writes db ?rs ?cs (sb_final run_id ?ps db)" by (rule sb_writes[OF ids ledger_active[OF assms] fp])
  have "claims_ok (sb_final run_id ?ps db)"
    using writes_claims[OF w ids] assms by (simp add: ledger_ok_def)
  then have u: "claims_unique (claims db @ ?cs)" by (simp add: claims_ok_def sb_final_def Let_def)
  have ro: "list_all result_row_ok ?rs" by (auto simp: list_all_iff sb_results_in exact_row_def result_row_ok_def)
  have "length (filter (sb_updates ?ps) (txns db)) = card (t_id ` set (filter (sb_updates ?ps) (txns db)))"
    using d by (metis distinct_card distinct_map_filter length_map set_map)
  also have "t_id ` set (filter (sb_updates ?ps) (txns db)) = set ?L"
  proof
    show "t_id ` set (filter (sb_updates ?ps) (txns db)) \<subseteq> set ?L"
      using sb_updates_iff[OF fp d] by (auto simp del: set_append set_map)
    show "set ?L \<subseteq> t_id ` set (filter (sb_updates ?ps) (txns db))"
    proof
      fix x assume x: "x \<in> set ?L"
      then obtain t where "t \<in> set (txns db)" "t_id t = x" using fp by (fastforce simp: free_pairs_def)
      then show "x \<in> t_id ` set (filter (sb_updates ?ps) (txns db))" using sb_updates_iff[OF fp d] x by force
    qed
  qed
  also have "card (set ?L) = 2 * length ?ps"
    using fp by (simp add: free_pairs_def distinct_card del: set_append set_map)
  finally show ?thesis using u ro
    by (simp add: set_based_exact_def Let_def sb_final_def sb_claims_cols)
qed

lemma sb_ws: "list_ex (\<lambda>c. \<not> sql_space c) s \<Longrightarrow> s \<noteq> []"
  by (cases s) auto

lemma set_based_keeps:
  assumes "set_based_exact run_id bank df dt db = Inr (n, db')" "ledger_ok db"
  shows "ledger_ok db' \<and> grows (may_pair db bank) db db'"
proof -
  let ?pool = "sb_pool db bank df dt"
  let ?ps = "sb_allowed db (sb_pairs ?pool)"
  have e: "db' = sb_final run_id ?ps db" using assms set_based_exact_value[OF assms(2)] by simp
  have w: "writes db (sb_results run_id (next_id db) ?ps)
     (sb_claims (next_id db + length ?ps) (sb_results run_id (next_id db) ?ps)) db'"
    unfolding e by (rule sb_writes[OF ledger_ids[OF assms(2)] ledger_active[OF assms(2)] sb_free_pairs[OF ledger_ids[OF assms(2)]]])
  have "may_pair db bank (r_internal r, r_external r)" if r: "r \<in> set (sb_results run_id (next_id db) ?ps)" for r
  proof -
    obtain i e where p: "(i, e) \<in> set ?ps" "r_internal r = t_id i" "r_external r = t_id e"
      using r by (auto simp: sb_results_in exact_row_def) (metis nth_mem prod.collapse)
    then have "(i, e) \<in> set (sb_pairs ?pool)" and nr: "\<not> was_rejected db (t_id i, t_id e)"
      by (auto simp: sb_allowed_def was_rejected_def list_ex_iff)
    note m = sb_pairs_members[OF this(1)]
    show ?thesis using sb_pool_members[OF m(1)] sb_pool_members[OF m(2)] m(3,4) nr
      unfolding may_pair_def free_txn_def p by auto
  qed
  moreover have "audit_log db' = audit_log db" by (simp add: e sb_final_def Let_def)
  ultimately have "grows (may_pair db bank) db db'" using writes_grows[OF w, of "[]"] by simp
  then show ?thesis using writes_ok[OF w assms(2)] by blast
qed

section \<open>The set-based pairs are pairs of the strategy\<close>

lemma stripped_nonempty: "\<lbrakk>c \<in> set s; \<not> is_space c\<rbrakk> \<Longrightarrow> strip s \<noteq> []"
proof -
  assume c: "c \<in> set s" "\<not> is_space c"
  then have "c \<in> set (lstrip s)" by (induction s) (auto simp: lstrip_def)
  then have "\<exists>x \<in> set (rev (lstrip s)). \<not> is_space x" using c by auto
  then show ?thesis by (auto simp: strip_def rstrip_def dropWhile_eq_Nil_conv)
qed

lemma sb_key_build:
  assumes "t_ref t = Some s" "strip s \<noteq> []"
  shows "build_key u = build_key t \<longleftrightarrow> sb_key u = sb_key t"
  using assms by (auto simp: build_key_def sb_key_def split: option.splits)

lemma sb_pool_find:
  assumes "t \<in> set (sb_pool db bank df dt)"
  shows "t \<in> set (find_unmatched db bank (t_source t) df dt)"
  using assms by (auto simp: sb_pool_def find_unmatched_iff available_def)

lemma exact_run_new:
  assumes "exact_run run_id ints exts db = Inr (out, db')" "ledger_ok db" "r \<in> set (results db')" "r \<notin> set (results db)"
  shows "exact_pair (rejected_pairs db (map t_id ints)) ints exts (r_internal r, r_external r)"
proof -
  obtain rs where "results db' = results db @ rs"
    "\<forall>r \<in> set rs. live r \<and> exact_pair (rejected_pairs db (map t_id ints)) ints exts (r_internal r, r_external r)"
    using exact_run_keeps[OF assms(1,2)] unfolding grows_def by blast
  then show ?thesis using assms(3,4) by auto
qed

lemma exact_claimed_new:
  assumes "exact_run run_id (find_unmatched db bank INTERNAL df dt) (find_unmatched db bank EXTERNAL df dt) db = Inr (out, db')"
    "ledger_ok db" "is_claimed db' t" "\<not> is_claimed db t"
  shows "\<exists>r \<in> set (results db'). r \<notin> set (results db) \<and> t \<in> sides r"
proof -
  have "ledger_ok db'" using exact_run_keeps[OF assms(1,2)] by blast
  then obtain r where r: "r \<in> set (results db')" "live r" "t \<in> sides r" using assms(3) ledger_claimed by blast
  moreover have "r \<notin> set (results db)" using r(2,3) assms(4) ledger_claimed[OF assms(2)] by blast
  ultimately show ?thesis by blast
qed

section \<open>Properties\<close>

text \<open>C13. The exact strategy on the current pools pairs only transactions with the
  same key and never a rejected pair, and it is maximal: afterwards no internal
  and external transaction with the same key are both free unless a person
  rejected that pair.\<close>

theorem exact_maximal:
  assumes "ledger_ok db"
    and "exact_run run_id (find_unmatched db bank INTERNAL df dt) (find_unmatched db bank EXTERNAL df dt) db = Inr (out, db')"
  shows "ledger_ok db'
    \<and> (\<forall>r \<in> set (results db'). r \<notin> set (results db) \<longrightarrow>
         \<not> was_rejected db (r_internal r, r_external r)
         \<and> (\<exists>i \<in> set (find_unmatched db bank INTERNAL df dt). \<exists>e \<in> set (find_unmatched db bank EXTERNAL df dt).
              r_internal r = t_id i \<and> r_external r = t_id e \<and> build_key i = build_key e \<and> build_key i \<noteq> None))
    \<and> (\<forall>i \<in> set (find_unmatched db bank INTERNAL df dt). \<forall>e \<in> set (find_unmatched db bank EXTERNAL df dt).
         build_key i = build_key e \<and> build_key e \<noteq> None \<and> \<not> was_rejected db (t_id i, t_id e) \<longrightarrow>
         is_claimed db' (t_id i) \<or> is_claimed db' (t_id e))"
proof -
  have rej: "\<not> was_rejected db (t_id i, t_id e) \<Longrightarrow> (t_id i, t_id e) \<notin> set (rejected_pairs db ids)" for i e ids
    by (auto simp: was_rejected_def rejected_pairs_iff)
  have nrej: "\<lbrakk>(a, b) \<notin> set (rejected_pairs db ids); a \<in> set ids\<rbrakk> \<Longrightarrow> \<not> was_rejected db (a, b)" for a b ids
    by (auto simp: was_rejected_def rejected_pairs_iff)
  show ?thesis
  proof (intro conjI ballI impI)
    show "ledger_ok db'" using exact_run_keeps[OF assms(2,1)] by blast
  next
    fix r assume r: "r \<in> set (results db')" "r \<notin> set (results db)"
    obtain i e where p: "i \<in> set (find_unmatched db bank INTERNAL df dt)" "e \<in> set (find_unmatched db bank EXTERNAL df dt)"
      "r_internal r = t_id i" "r_external r = t_id e" "build_key i = build_key e" "build_key e \<noteq> None"
      and q: "(r_internal r, r_external r) \<notin> set (rejected_pairs db (map t_id (find_unmatched db bank INTERNAL df dt)))"
      using exact_run_new[OF assms(2,1) r] unfolding exact_pair_def by auto
    show "\<not> was_rejected db (r_internal r, r_external r)" using nrej[OF q] p(1,3) by simp
    show "\<exists>i \<in> set (find_unmatched db bank INTERNAL df dt). \<exists>e \<in> set (find_unmatched db bank EXTERNAL df dt).
              r_internal r = t_id i \<and> r_external r = t_id e \<and> build_key i = build_key e \<and> build_key i \<noteq> None"
      using p by (intro bexI[of _ i] bexI[of _ e]) simp_all
  next
    fix i e assume "i \<in> set (find_unmatched db bank INTERNAL df dt)" "e \<in> set (find_unmatched db bank EXTERNAL df dt)"
      "build_key i = build_key e \<and> build_key e \<noteq> None \<and> \<not> was_rejected db (t_id i, t_id e)"
    then show "is_claimed db' (t_id i) \<or> is_claimed db' (t_id e)"
      using exact_run_covers[OF assms(2,1)] rej unfolding covered_def by blast
  qed
qed

lemmas sample_eval = sample_two_def sample_db_def sample_txn_def find_unmatched_def available_def is_claimed_def
  active_txns_def build_index_def build_key_def group_by_def dict_get_def rejected_pairs_def
  exact_step_def disambiguate_def record_pair_def claim_pair_def insert_claims_def claims_unique_def
  add_result_def result_row_ok_def exact_row_def finalise_def set_status_def text_eval

lemma sample_two_run:
  "\<exists>out db'. exact_run ''r'' (find_unmatched sample_two ''HDFC'' INTERNAL None None)
      (find_unmatched sample_two ''HDFC'' EXTERNAL None None) sample_two = Inr (out, db')
      \<and> ex_matched out = 1 \<and> length (results db') = 1"
  by (simp add: exact_run_def sample_eval pool_key_def)

theorem exact_maximal_witness:
  "\<exists>out db'. exact_run ''r'' (find_unmatched sample_two ''HDFC'' INTERNAL None None)
      (find_unmatched sample_two ''HDFC'' EXTERNAL None None) sample_two = Inr (out, db')
      \<and> ledger_ok db' \<and> length (results db') = 1"
  using sample_two_run exact_maximal[OF sample_two_ok] by metis

text \<open>A pair of the set-based statement is alone in its key: no other transaction of the
  pools that agrees on the key meets either side of it.\<close>

lemma sb_pair_alone:
  fixes db bank df dt
  defines "ints \<equiv> find_unmatched db bank INTERNAL df dt" and "exts \<equiv> find_unmatched db bank EXTERNAL df dt"
  assumes ids: "distinct (map t_id (txns db))" and ps: "(i, e) \<in> set (sb_pairs (sb_pool db bank df dt))"
    and ie: "i \<in> set ints" "e \<in> set exts" and s: "t_ref i = Some s" "strip s \<noteq> []"
    and ab: "a \<in> set ints" "b \<in> set exts" "build_key a = build_key b" "t_id i = t_id a \<or> t_id e = t_id b"
  shows "a = i \<and> b = e"
proof -
  let ?pool = "sb_pool db bank df dt"
  note m = sb_pairs_members[OF ps]
  have bk: "build_key e = build_key i" using sb_key_build[OF s] m(5) by simp
  have txn: "a \<in> set (txns db)" "b \<in> set (txns db)" "i \<in> set (txns db)" "e \<in> set (txns db)"
    using ab(1,2) ie by (simp_all add: ints_def exts_def find_unmatched_iff)
  have src: "t_source a = INTERNAL" "t_source b = EXTERNAL"
    using ab(1,2) by (simp_all add: ints_def exts_def find_unmatched_iff available_def)
  have "i = a \<or> e = b" using ab(4) distinct_map_inj[OF ids] txn by blast
  then have k: "build_key a = build_key i" "build_key b = build_key i" using ab(3) bk by auto
  then have sk: "sb_key a = sb_key i" "sb_key b = sb_key i" using sb_key_build[OF s] by auto
  have pool: "t \<in> set ?pool" if "t \<in> set (find_unmatched db bank src df dt)" "sb_key t = sb_key i" for t src
    using that m(1) by (auto simp: sb_pool_def find_unmatched_iff available_def sb_key_def)
  have 1: "a \<in> set (filter (\<lambda>t. t_source t = INTERNAL) (filter (\<lambda>t. sb_key t = sb_key i) ?pool))"
    using pool[OF ab(1)[unfolded ints_def] sk(1)] src(1) sk(1) by simp
  have 2: "b \<in> set (filter (\<lambda>t. t_source t = EXTERNAL) (filter (\<lambda>t. sb_key t = sb_key i) ?pool))"
    using pool[OF ab(2)[unfolded exts_def] sk(2)] src(2) sk(2) by simp
  note u = ps[unfolded sb_pairs_iff]
  have "a \<in> set [i]"
    by (rule subsetD[OF equalityD1[OF arg_cong[OF conjunct1[OF conjunct2[OF conjunct2[OF u]]], of set]] 1])
  moreover have "b \<in> set [e]"
    by (rule subsetD[OF equalityD1[OF arg_cong[OF conjunct2[OF conjunct2[OF conjunct2[OF u]]], of set]] 2])
  ultimately show ?thesis by simp
qed

text \<open>The probing loop records the pair too.\<close>

lemma sb_pair_probed:
  assumes ok: "ledger_ok db"
    and run: "exact_run run_id (find_unmatched db bank INTERNAL df dt) (find_unmatched db bank EXTERNAL df dt) db = Inr (out, db')"
    and p: "(i, e) \<in> set (sb_allowed db (sb_pairs (sb_pool db bank df dt)))" and s: "t_ref i = Some s" "strip s \<noteq> []"
  shows "\<exists>r' \<in> set (results db'). r' \<notin> set (results db) \<and> r_internal r' = t_id i \<and> r_external r' = t_id e"
proof -
  let ?ints = "find_unmatched db bank INTERNAL df dt" and ?exts = "find_unmatched db bank EXTERNAL df dt"
  have ids: "distinct (map t_id (txns db))" using ledger_ids[OF ok] by (simp add: ids_ok_def)
  have ps: "(i, e) \<in> set (sb_pairs (sb_pool db bank df dt))" and nr: "\<not> was_rejected db (t_id i, t_id e)"
    using p by (auto simp: sb_allowed_def was_rejected_def list_ex_iff)
  note m = sb_pairs_members[OF ps]
  have i: "i \<in> set ?ints" and e: "e \<in> set ?exts" using sb_pool_find[OF m(1)] sb_pool_find[OF m(2)] m(3,4) by simp_all
  have bk: "build_key e = build_key i" using sb_key_build[OF s] m(5) by simp
  have bn: "build_key i \<noteq> None" using s by (auto simp: build_key_def)
  have "(t_id i, t_id e) \<notin> set (rejected_pairs db (map t_id ?ints))"
    using nr by (auto simp: rejected_pairs_iff was_rejected_def)
  then have "is_claimed db' (t_id i) \<or> is_claimed db' (t_id e)"
    using exact_run_covers[OF run ok e, unfolded covered_def, rule_format, OF i] bk bn by metis
  then obtain t where t: "t = t_id i \<or> t = t_id e" "is_claimed db' t" by blast
  have "\<not> is_claimed db t" using t(1) pool_unclaimed[OF i] pool_unclaimed[OF e] by blast
  then obtain r where r: "r \<in> set (results db')" "r \<notin> set (results db)" "t \<in> sides r"
    using exact_claimed_new[OF run ok t(2)] by blast
  obtain a b where ab: "a \<in> set ?ints" "b \<in> set ?exts" "r_internal r = t_id a" "r_external r = t_id b"
    "build_key a = build_key b"
    using exact_run_new[OF run ok r(1,2)] unfolding exact_pair_def by auto
  have disj: "t_id ` set ?exts \<inter> t_id ` set ?ints = {}" by (rule pool_ids(2)[OF ledger_ids[OF ok]])
  have "t_id e \<noteq> t_id a" "t_id b \<noteq> t_id i"
    using disj imageI[OF e, of t_id] imageI[OF ab(1), of t_id] imageI[OF ab(2), of t_id] imageI[OF i, of t_id]
    by (metis disjoint_iff)+
  moreover have "t = t_id a \<or> t = t_id b" using r(3) ab(3,4) unfolding sides_def by simp
  ultimately have "t_id i = t_id a \<or> t_id e = t_id b" using t(1) by metis
  then have "a = i \<and> b = e" using sb_pair_alone[OF ids ps i e s ab(1,2,5)] by blast
  then show ?thesis using r ab by blast
qed

text \<open>C15. The set-based statement is an exact shortcut: it always succeeds (its row
  count check never fires), it returns the number of pairs it made, and every
  pair it makes is a pair \<open>ExactMatchingStrategy\<close> makes when it is run on the
  same pools without it, for references that are not only separator control
  characters.\<close>

theorem set_based_agrees:
  assumes "ledger_ok db"
    and "exact_run run_id (find_unmatched db bank INTERNAL df dt) (find_unmatched db bank EXTERNAL df dt) db = Inr (out, db')"
  shows "\<exists>n db''. set_based_exact run_id bank df dt db = Inr (n, db'') \<and> ledger_ok db''
     \<and> length (results db'') = length (results db) + n
     \<and> (\<forall>r \<in> set (results db''). r \<notin> set (results db) \<longrightarrow>
          (\<exists>i s. i \<in> set (txns db) \<and> t_id i = r_internal r \<and> t_ref i = Some s \<and>
            (strip s \<noteq> [] \<longrightarrow> (\<exists>r' \<in> set (results db'). r' \<notin> set (results db)
               \<and> r_internal r' = r_internal r \<and> r_external r' = r_external r))))"
proof -
  let ?pool = "sb_pool db bank df dt"
  let ?ps = "sb_allowed db (sb_pairs ?pool)"
  note v = set_based_exact_value[OF assms(1), of run_id bank df dt]
  have k: "ledger_ok (sb_final run_id ?ps db)" using set_based_keeps[OF v assms(1)] by blast
  show ?thesis unfolding v
  proof (intro exI[of _ "length ?ps"] exI[of _ "sb_final run_id ?ps db"] conjI ballI impI)
    show "Inr (length ?ps, sb_final run_id ?ps db) = Inr (length ?ps, sb_final run_id ?ps db)" ..
    show "ledger_ok (sb_final run_id ?ps db)" by (rule k)
    show "length (results (sb_final run_id ?ps db)) = length (results db) + length ?ps"
      by (simp add: sb_final_def Let_def)
  next
    fix r assume "r \<in> set (results (sb_final run_id ?ps db))" "r \<notin> set (results db)"
    then obtain j where j: "j < length ?ps" "r = (exact_row run_id (fst (?ps ! j)) (snd (?ps ! j)) 1)\<lparr>r_id := next_id db + j\<rparr>"
      by (auto simp: sb_final_def Let_def sb_results_in)
    obtain i e where p: "?ps ! j = (i, e)" by (cases "?ps ! j")
    have mem: "(i, e) \<in> set ?ps" using j(1) p by (metis nth_mem)
    then have i: "i \<in> set ?pool" using sb_pairs_members(1) by (auto simp: sb_allowed_def)
    then obtain s where s: "t_ref i = Some s" by (auto simp: sb_pool_def split: option.splits)
    have cols: "r_internal r = t_id i" "r_external r = t_id e" using j(2) p by (simp_all add: exact_row_def)
    show "\<exists>i s. i \<in> set (txns db) \<and> t_id i = r_internal r \<and> t_ref i = Some s \<and>
            (strip s \<noteq> [] \<longrightarrow> (\<exists>r' \<in> set (results db'). r' \<notin> set (results db)
               \<and> r_internal r' = r_internal r \<and> r_external r' = r_external r))"
      using sb_pair_probed[OF assms mem s] sb_pool_members[OF i] s cols by (intro exI[of _ i] exI[of _ s]) auto
  qed
qed

theorem set_based_agrees_witness:
  "\<exists>n db''. set_based_exact ''r'' ''HDFC'' None None sample_two = Inr (n, db'') \<and> ledger_ok db''"
  using sample_two_run set_based_agrees[OF sample_two_ok] by metis

end
