(* ===== verification/PyFloat.thy ===== *)
theory PyFloat
  imports PyDecimal
begin

text \<open>
  The floating point arithmetic of the scorer. A float is represented by the
  decimal number Python prints for it (the shortest one that reads back as the
  same float), which orders floats as their values do and is what
  \<open>Decimal(str(x))\<close> yields. \<open>double_of\<close> rounds a rational to 53 significant bits,
  half to even; an operation rounds its exact result and prints it. The exponent
  range of a double is far outside the scores and is not modelled.
\<close>

section \<open>Rounding to a double\<close>

fun ilog2 :: "nat \<Rightarrow> nat" where
  "ilog2 n = (if n < 2 then 0 else Suc (ilog2 (n div 2)))"

declare ilog2.simps [simp del]

definition pow2 :: "int \<Rightarrow> rat" where
  "pow2 e = (if 0 \<le> e then 2 ^ nat e else 1 / 2 ^ nat (- e))"

text \<open>The exponent of the leading bit of a positive value.\<close>

definition adjusted2 :: "rat \<Rightarrow> int" where
  "adjusted2 x = (if 1 \<le> x then int (ilog2 (nat \<lfloor>x\<rfloor>))
                  else - int (Suc (ilog2 (nat (\<lceil>1 / x\<rceil> - 1)))))"

definition double_of :: "rat \<Rightarrow> rat" where
  "double_of x =
     (if x = 0 then 0
      else (let q = pow2 (adjusted2 \<bar>x\<bar> - 52) in of_int (round_half_even (x / q)) * q))"

text \<open>The printed decimal of a positive double: the fewest digits, at most 17,
  that read back as it, the closer neighbour where both do.\<close>

fun shortest :: "nat \<Rightarrow> nat \<Rightarrow> rat \<Rightarrow> rat" where
  "shortest 0 n y = y"
| "shortest (Suc k) n y =
     (let q = pow10 (adjusted y - int n); lo = of_int \<lfloor>y / q\<rfloor> * q; hi = lo + q in
      if double_of lo = y \<and> (double_of hi \<noteq> y \<or> y - lo \<le> hi - y) then lo
      else if double_of hi = y then hi
      else shortest k (Suc n) y)"

definition repr_of :: "rat \<Rightarrow> rat" where
  "repr_of y = (if y = 0 then 0 else if y < 0 then - shortest 17 0 (- y) else shortest 17 0 y)"

definition float_sub :: "rat \<Rightarrow> rat \<Rightarrow> rat" where
  "float_sub x y = repr_of (double_of (double_of x - double_of y))"

definition float_div :: "rat \<Rightarrow> rat \<Rightarrow> rat" where
  "float_div x y = repr_of (double_of (double_of x / double_of y))"

section \<open>Monotonicity\<close>

lemma pow2_powi: "pow2 e = 2 powi e"
  by (simp add: pow2_def power_int_def power_one_over inverse_eq_divide)

lemma pow2_pos [simp]: "0 < pow2 e"
  by (simp add: pow2_def)

lemma pow2_add: "pow2 (a + b) = pow2 a * pow2 b"
  by (simp add: pow2_powi power_int_add)

lemma pow2_mono: "a \<le> b \<Longrightarrow> pow2 a \<le> pow2 b"
  by (simp add: pow2_powi power_int_increasing)

lemma pow2_less_iff: "pow2 a < pow2 b \<longleftrightarrow> a < b"
  using power_int_strict_increasing[of a b "2::rat"] pow2_mono[of b a]
  by (auto simp: pow2_powi not_le[symmetric] simp del: not_le)

lemma pow2_nat: "pow2 (int n) = of_int (2 ^ n)"
  by (simp add: pow2_def)

lemma pow2_minus: "pow2 (- a) = 1 / pow2 a"
  by (simp add: pow2_powi power_int_minus divide_inverse)

lemma ilog2_lower: "0 < n \<Longrightarrow> 2 ^ ilog2 n \<le> n"
proof (induction n rule: ilog2.induct)
  case (1 n)
  show ?case
  proof (cases "n < 2")
    case False
    then have "2 ^ ilog2 (n div 2) \<le> n div 2" using 1 by simp
    then show ?thesis using False by (subst ilog2.simps) simp
  qed (use 1 in \<open>simp add: ilog2.simps\<close>)
qed

lemma ilog2_upper: "n < 2 ^ Suc (ilog2 n)"
proof (induction n rule: ilog2.induct)
  case (1 n)
  show ?case
  proof (cases "n < 2")
    case False
    then have "n div 2 < 2 ^ Suc (ilog2 (n div 2))" using 1 by simp
    then show ?thesis using False by (subst ilog2.simps) (simp add: div_less_iff_less_mult)
  qed (simp add: ilog2.simps)
qed

lemma adjusted2_lower: "0 < x \<Longrightarrow> pow2 (adjusted2 x) \<le> x"
proof (cases "1 \<le> x")
  case True
  then have "(2::nat) ^ ilog2 (nat \<lfloor>x\<rfloor>) \<le> nat \<lfloor>x\<rfloor>" by (intro ilog2_lower) simp
  then have "(2::int) ^ ilog2 (nat \<lfloor>x\<rfloor>) \<le> \<lfloor>x\<rfloor>" using True by (simp add: nat_le_eq_zle le_nat_iff)
  then show ?thesis using True by (simp add: adjusted2_def pow2_nat le_floor_iff)
next
  case False
  assume "0 < x"
  let ?m = "nat (\<lceil>1 / x\<rceil> - 1)" and ?k = "Suc (ilog2 (nat (\<lceil>1 / x\<rceil> - 1)))"
  have gt: "1 < 1 / x" using False \<open>0 < x\<close> by (simp add: field_simps)
  have "?m < 2 ^ ?k" by (rule ilog2_upper)
  then have "int ?m < 2 ^ ?k" by (metis of_nat_less_iff of_nat_numeral of_nat_power)
  then have "\<lceil>1 / x\<rceil> \<le> 2 ^ ?k" using gt by linarith
  then have "1 / x \<le> of_int (2 ^ ?k)" by (simp only: ceiling_le_iff)
  then have "1 / of_int (2 ^ ?k) \<le> x" using \<open>0 < x\<close> by (simp add: field_simps)
  then show ?thesis using False by (simp only: adjusted2_def pow2_minus pow2_nat if_False)
qed

lemma adjusted2_upper: "0 < x \<Longrightarrow> x < pow2 (adjusted2 x + 1)"
proof (cases "1 \<le> x")
  case True
  have "nat \<lfloor>x\<rfloor> < 2 ^ Suc (ilog2 (nat \<lfloor>x\<rfloor>))" by (rule ilog2_upper)
  then have "int (nat \<lfloor>x\<rfloor>) < 2 ^ Suc (ilog2 (nat \<lfloor>x\<rfloor>))"
    by (metis of_nat_less_iff of_nat_numeral of_nat_power)
  then have "\<lfloor>x\<rfloor> < 2 ^ Suc (ilog2 (nat \<lfloor>x\<rfloor>))" using True by simp
  then have "x < of_int (2 ^ Suc (ilog2 (nat \<lfloor>x\<rfloor>)))" by (simp only: floor_less_iff)
  moreover have "adjusted2 x + 1 = int (Suc (ilog2 (nat \<lfloor>x\<rfloor>)))"
    using True by (simp add: adjusted2_def)
  ultimately show ?thesis by (simp only: pow2_nat)
next
  case False
  assume "0 < x"
  let ?m = "nat (\<lceil>1 / x\<rceil> - 1)"
  have gt: "1 < 1 / x" using False \<open>0 < x\<close> by (simp add: field_simps)
  have "2 ^ ilog2 ?m \<le> ?m" using gt by (intro ilog2_lower) (simp add: less_ceiling_iff)
  then have "2 ^ ilog2 ?m \<le> \<lceil>1 / x\<rceil> - 1" using gt by (simp add: le_nat_iff)
  then have "(2::int) ^ ilog2 ?m < \<lceil>1 / x\<rceil>" by linarith
  then have "of_int (2 ^ ilog2 ?m) < 1 / x" by (simp only: less_ceiling_iff)
  then have "x < 1 / of_int (2 ^ ilog2 ?m)" using \<open>0 < x\<close> by (simp add: field_simps)
  moreover have "adjusted2 x + 1 = - int (ilog2 ?m)" using False by (simp add: adjusted2_def)
  ultimately show ?thesis by (simp only: pow2_minus pow2_nat)
qed

text \<open>A double lies in the binade of the value it rounds.\<close>

lemma double_binade:
  assumes "0 < x" shows "pow2 (adjusted2 x) \<le> double_of x \<and> double_of x \<le> pow2 (adjusted2 x + 1)"
proof -
  define q where "q = pow2 (adjusted2 x - 52)"
  have q: "0 < q" by (simp add: q_def)
  have l: "pow2 (adjusted2 x) = of_int (2 ^ 52) * q" "pow2 (adjusted2 x + 1) = of_int (2 ^ 53) * q"
    using pow2_add[of 52 "adjusted2 x - 52"] pow2_add[of 53 "adjusted2 x - 52"] pow2_nat[of 52] pow2_nat[of 53]
    by (simp_all add: q_def add.commute)
  have "of_int (2 ^ 52) * q \<le> x" "x \<le> of_int (2 ^ 53) * q"
    using adjusted2_lower[OF assms] adjusted2_upper[OF assms] unfolding l by linarith+
  then have "of_int (2 ^ 52) \<le> x / q" "x / q \<le> of_int (2 ^ 53)"
    using q by (simp_all only: pos_le_divide_eq pos_divide_le_eq)
  then have "2 ^ 52 \<le> round_half_even (x / q) \<and> round_half_even (x / q) \<le> 2 ^ 53"
    by (rule round_half_even_bounds)
  then have "of_int (2 ^ 52) * q \<le> of_int (round_half_even (x / q)) * q"
    "of_int (round_half_even (x / q)) * q \<le> of_int (2 ^ 53) * q"
    using q by (simp_all only: mult_le_cancel_right_pos of_int_le_iff)
  moreover have "double_of x = of_int (round_half_even (x / q)) * q"
    using assms by (simp add: double_of_def q_def Let_def)
  ultimately show ?thesis unfolding l by simp
qed

lemma double_of_pos: "0 < x \<Longrightarrow> 0 < double_of x"
  using double_binade[of x] pow2_pos[of "adjusted2 x"] by linarith

lemma double_of_0 [simp]: "double_of 0 = 0"
  by (simp add: double_of_def)

lemma double_mono_pos:
  assumes "0 < x" "x \<le> y" shows "double_of x \<le> double_of y"
proof -
  have y: "0 < y" using assms by linarith
  have "pow2 (adjusted2 x) < pow2 (adjusted2 y + 1)"
    using adjusted2_lower[OF assms(1)] adjusted2_upper[OF y] assms(2) by linarith
  then have le: "adjusted2 x \<le> adjusted2 y" by (simp add: pow2_less_iff)
  show ?thesis
  proof (cases "adjusted2 x = adjusted2 y")
    case True
    define q where "q = pow2 (adjusted2 y - 52)"
    have q: "0 < q" by (simp add: q_def)
    have "x / q \<le> y / q" using assms(2) q by (simp add: divide_right_mono)
    then have "round_half_even (x / q) \<le> round_half_even (y / q)" by (rule round_half_even_mono)
    then have "of_int (round_half_even (x / q)) * q \<le> of_int (round_half_even (y / q)) * q"
      using q by (simp only: mult_le_cancel_right_pos of_int_le_iff)
    then show ?thesis using assms(1) y True by (simp add: double_of_def q_def Let_def)
  next
    case False
    then have "pow2 (adjusted2 x + 1) \<le> pow2 (adjusted2 y)" using le by (intro pow2_mono) linarith
    then show ?thesis using double_binade[OF assms(1)] double_binade[OF y] by linarith
  qed
qed

lemma double_mono: "0 \<le> x \<Longrightarrow> x \<le> y \<Longrightarrow> double_of x \<le> double_of y"
  using double_mono_pos[of x y] double_of_pos[of y] by (cases "x = 0") (auto simp: le_less)

lemma double_values: "double_of 1 = 1" "double_of 100 = 100"
  by code_simp+

lemma shortest_le: "\<lbrakk>0 < y; y \<le> 1\<rbrakk> \<Longrightarrow> 0 \<le> shortest k n y \<and> shortest k n y \<le> 1"
proof (induction k n y rule: shortest.induct)
  case (2 k n y)
  define q where "q = pow10 (adjusted y - int n)"
  define lo where "lo = of_int \<lfloor>y / q\<rfloor> * q"
  have q: "0 < q" by (simp add: q_def)
  have "0 \<le> \<lfloor>y / q\<rfloor>" using q 2(2) by simp
  then have lo0: "0 \<le> lo" using q by (simp add: lo_def)
  have "of_int \<lfloor>y / q\<rfloor> \<le> y / q" by (rule of_int_floor_le)
  then have lo1: "lo \<le> y" using q by (simp only: lo_def pos_le_divide_eq)
  have "y / q < of_int \<lfloor>y / q\<rfloor> + 1" by linarith
  then have hi0: "y < lo + q" using q by (simp add: lo_def pos_divide_less_eq distrib_right)
  have hi: "lo + q \<le> 1" if "double_of (lo + q) = y" "\<not> (double_of lo = y \<and> (double_of (lo + q) \<noteq> y \<or> y - lo \<le> lo + q - y))"
  proof (cases "y = 1")
    case True
    show ?thesis
    proof (rule ccontr)
      assume "\<not> lo + q \<le> 1"
      have q1: "q = 1 / 10 ^ n" by (simp add: q_def True adjusted_def ilog10.simps pow10_def)
      have "lo = 1" unfolding lo_def q1 True by simp
      then show False using that q True double_values by simp
    qed
  next
    case False
    show ?thesis
    proof (rule ccontr)
      assume "\<not> lo + q \<le> 1"
      then have "double_of 1 \<le> double_of (lo + q)" by (intro double_mono) auto
      then show False using that(1) False 2(3) double_values by simp
    qed
  qed
  have u: "shortest (Suc k) n y =
      (if double_of lo = y \<and> (double_of (lo + q) \<noteq> y \<or> y - lo \<le> lo + q - y) then lo
      else if double_of (lo + q) = y then lo + q
      else shortest k (Suc n) y)" unfolding shortest.simps(2) Let_def lo_def q_def by (rule refl)
  have y: "0 < y" "y \<le> 1" using 2 by blast+
  show ?case
  proof (cases "double_of lo = y \<and> (double_of (lo + q) \<noteq> y \<or> y - lo \<le> lo + q - y)")
    case True
    show ?thesis unfolding u if_P[OF True] using lo0 lo1 y by linarith
  next
    case nlo: False
    show ?thesis
    proof (cases "double_of (lo + q) = y")
      case True
      show ?thesis unfolding u if_not_P[OF nlo] if_P[OF True] using lo0 q hi[OF True nlo] by linarith
    next
      case False
      show ?thesis unfolding u if_not_P[OF nlo] if_not_P[OF False]
        using 2(1)[OF q_def lo_def refl nlo False y] .
    qed
  qed
qed simp

lemma float_div_unit:
  assumes "0 \<le> x" "x \<le> y" "0 < y" shows "0 \<le> float_div x y \<and> float_div x y \<le> 1"
proof -
  have d: "0 < double_of y" using double_of_pos assms(3) by blast
  have "0 \<le> double_of x" using double_mono[of 0 x] assms(1) by simp
  moreover have "double_of x \<le> double_of y" using double_mono assms by blast
  ultimately have z: "0 \<le> double_of x / double_of y" "double_of x / double_of y \<le> 1" using d by simp_all
  have "0 \<le> double_of (double_of x / double_of y)" "double_of (double_of x / double_of y) \<le> 1"
    using double_mono[of 0 "double_of x / double_of y"] double_mono[OF z] z double_values by simp_all
  then show ?thesis using shortest_le by (auto simp: float_div_def repr_of_def)
qed

text \<open>Printing does not cross a value that reads back on one side of the double.\<close>

lemma shortest_upper: "\<lbrakk>0 < y; y \<le> b; y < double_of b\<rbrakk> \<Longrightarrow> shortest k n y \<le> b"
proof (induction k n y rule: shortest.induct)
  case (2 k n y)
  define q where "q = pow10 (adjusted y - int n)"
  define lo where "lo = of_int \<lfloor>y / q\<rfloor> * q"
  have q: "0 < q" by (simp add: q_def)
  have "of_int \<lfloor>y / q\<rfloor> \<le> y / q" by (rule of_int_floor_le)
  then have lo1: "lo \<le> y" unfolding lo_def pos_le_divide_eq[OF q] .
  have u: "shortest (Suc k) n y =
      (if double_of lo = y \<and> (double_of (lo + q) \<noteq> y \<or> y - lo \<le> lo + q - y) then lo
      else if double_of (lo + q) = y then lo + q
      else shortest k (Suc n) y)" unfolding shortest.simps(2) Let_def lo_def q_def by (rule refl)
  have hi: "lo + q \<le> b" if "double_of (lo + q) = y"
  proof (rule ccontr)
    assume "\<not> lo + q \<le> b"
    then have "double_of b \<le> double_of (lo + q)" using 2(2,3) by (intro double_mono) auto
    then show False using that 2(4) by simp
  qed
  show ?case
  proof (cases "double_of lo = y \<and> (double_of (lo + q) \<noteq> y \<or> y - lo \<le> lo + q - y)")
    case True
    show ?thesis unfolding u if_P[OF True] using lo1 2(3) by linarith
  next
    case nlo: False
    show ?thesis
    proof (cases "double_of (lo + q) = y")
      case True
      show ?thesis unfolding u if_not_P[OF nlo] if_P[OF True] by (rule hi[OF True])
    next
      case False
      show ?thesis unfolding u if_not_P[OF nlo] if_not_P[OF False]
        using 2(1)[OF q_def lo_def refl nlo False 2(2,3,4)] .
    qed
  qed
qed simp

lemma shortest_lower: "\<lbrakk>0 < b; b \<le> y; double_of b < y\<rbrakk> \<Longrightarrow> b \<le> shortest k n y"
proof (induction k n y rule: shortest.induct)
  case (2 k n y)
  define q where "q = pow10 (adjusted y - int n)"
  define lo where "lo = of_int \<lfloor>y / q\<rfloor> * q"
  have q: "0 < q" by (simp add: q_def)
  have "y / q < of_int \<lfloor>y / q\<rfloor> + 1" by linarith
  then have hi: "y < lo + q" using q by (simp add: lo_def pos_divide_less_eq distrib_right)
  have "0 \<le> \<lfloor>y / q\<rfloor>" using q 2(2,3) by simp
  then have lo0: "0 \<le> lo" using q by (simp add: lo_def)
  have u: "shortest (Suc k) n y =
      (if double_of lo = y \<and> (double_of (lo + q) \<noteq> y \<or> y - lo \<le> lo + q - y) then lo
      else if double_of (lo + q) = y then lo + q
      else shortest k (Suc n) y)" unfolding shortest.simps(2) Let_def lo_def q_def by (rule refl)
  have lo: "b \<le> lo" if "double_of lo = y"
  proof (rule ccontr)
    assume "\<not> b \<le> lo"
    then have "double_of lo \<le> double_of b" using lo0 by (intro double_mono) auto
    then show False using that 2(4) by simp
  qed
  show ?case
  proof (cases "double_of lo = y \<and> (double_of (lo + q) \<noteq> y \<or> y - lo \<le> lo + q - y)")
    case True
    show ?thesis unfolding u if_P[OF True] using lo True by blast
  next
    case nlo: False
    show ?thesis
    proof (cases "double_of (lo + q) = y")
      case True
      show ?thesis unfolding u if_not_P[OF nlo] if_P[OF True] using hi 2(3) by linarith
    next
      case False
      show ?thesis unfolding u if_not_P[OF nlo] if_not_P[OF False]
        using 2(1)[OF q_def lo_def refl nlo False 2(2,3,4)] .
    qed
  qed
qed simp

lemma repr_between:
  assumes "0 < a" "a \<le> double_of x" "double_of a < double_of x" "double_of x \<le> b" "double_of x < double_of b"
  shows "a \<le> repr_of (double_of x) \<and> repr_of (double_of x) \<le> b"
  using assms shortest_lower[of a "double_of x" 17 0] shortest_upper[of "double_of x" b 17 0] by (simp add: repr_of_def)

text \<open>The two scores a short edit distance can give under a maximal distance of 2.\<close>

lemma third_values:
  "double_of 1 = 1" "double_of 2 = 2" "double_of 3 = 3"
  "double_of (33 / 100) < double_of (1 / 3)" "double_of (1 / 3) < double_of (34 / 100)"
  "33 / 100 \<le> double_of (1 / 3)" "double_of (1 / 3) \<le> 34 / 100"
  "double_of (66 / 100) < double_of (2 / 3)" "double_of (2 / 3) < double_of (67 / 100)"
  "66 / 100 \<le> double_of (2 / 3)" "double_of (2 / 3) \<le> 67 / 100"
  "65 / 100 \<le> double_of (33 / 100) + 32 / 100" "double_of (34 / 100) \<le> 35 / 100"
  "65 / 100 \<le> double_of (66 / 100)" "double_of (67 / 100) \<le> 68 / 100"
  "double_of (69 / 100) < double_of (7 / 10)" "double_of (69 / 100) \<le> 7 / 10"
  "double_of (1 / 10) < double_of (3 / 10)" "1 / 10 \<le> double_of (3 / 10)"
  by code_simp+

lemma third_scores:
  "0 \<le> float_sub 1 (float_div 1 3) \<and> float_sub 1 (float_div 1 3) \<le> 7 / 10"
  "0 \<le> float_sub 1 (float_div 2 3) \<and> float_sub 1 (float_div 2 3) \<le> 7 / 10"
proof -
  have one: "33 / 100 \<le> float_div 1 3 \<and> float_div 1 3 \<le> 34 / 100"
    unfolding float_div_def third_values(1,3) by (rule repr_between) (use third_values in simp_all)
  have two: "66 / 100 \<le> float_div 2 3 \<and> float_div 2 3 \<le> 67 / 100"
    unfolding float_div_def third_values(2,3) by (rule repr_between) (use third_values in simp_all)
  have gen: "0 \<le> float_sub 1 z \<and> float_sub 1 z \<le> 7 / 10" if "33 / 100 \<le> z" "z \<le> 67 / 100" for z
  proof -
    have "double_of (33 / 100) \<le> double_of z" "double_of z \<le> double_of (67 / 100)"
      using that by (auto intro: double_mono)
    then have d: "1 - double_of z \<le> 69 / 100" "3 / 10 \<le> 1 - double_of z"
      using third_values(12,15) by linarith+
    have u: "double_of (1 - double_of z) \<le> double_of (69 / 100)" and l: "double_of (3 / 10) \<le> double_of (1 - double_of z)"
      using d by (auto intro: double_mono)
    have "1 / 10 \<le> float_sub 1 z \<and> float_sub 1 z \<le> 7 / 10"
      unfolding float_sub_def third_values(1)
      by (rule repr_between) (use u l third_values(16-19) in linarith)+
    then show ?thesis by linarith
  qed
  show "0 \<le> float_sub 1 (float_div 1 3) \<and> float_sub 1 (float_div 1 3) \<le> 7 / 10"
    by (rule gen) (use one in linarith)+
  show "0 \<le> float_sub 1 (float_div 2 3) \<and> float_sub 1 (float_div 2 3) \<le> 7 / 10"
    by (rule gen) (use two in linarith)+
qed

end
