(* ===== verification/Scoring.thy ===== *)
theory Scoring
  imports Ledger PyFloat
begin

text \<open>
  Candidate generation and scoring of the fuzzy level: the bucketing functions
  and blocking passes of \<open>matching/blocking\<close>, the field scores and the weighted
  decision of \<open>matching/scoring\<close>, the validated configuration of
  \<open>config/matching_models.py\<close>. The string similarities come from RapidFuzz and
  are parameters (\<open>similarity\<close>). Rationale texts are not modelled.
\<close>

section \<open>Buckets\<close>

definition amount_bucket :: "int \<Rightarrow> int \<Rightarrow> int res" where
  "amount_bucket amount_minor width = (if width \<le> 0 then Inl ValueError else Inr (amount_minor div width))"

definition date_bucket :: "date \<Rightarrow> int \<Rightarrow> int res" where
  "date_bucket d window = (if window \<le> 0 then Inl ValueError else Inr (d div window))"

text \<open>\<open>s[:n]\<close>; a negative bound counts from the end.\<close>

definition slice_to :: "'a list \<Rightarrow> int \<Rightarrow> 'a list" where
  "slice_to s n = (if 0 \<le> n then take (nat n) s else take (length s - nat (- n)) s)"

definition reference_prefix :: "string \<Rightarrow> int \<Rightarrow> string" where
  "reference_prefix r n = slice_to r n"

definition counterparty_key :: "string option \<Rightarrow> int \<Rightarrow> string option" where
  "counterparty_key name n =
     (case name of None \<Rightarrow> None | Some s \<Rightarrow> if s = [] then None else Some (slice_to s n))"

section \<open>Candidates\<close>

record blocking_config =
  bl_amount_width :: int
  bl_date_window :: int
  bl_reference_prefix :: int
  bl_counterparty_prefix :: int
  bl_max_candidates :: int

record candidate_set =
  cs_external :: nat
  cs_candidates :: "txn list"
  cs_truncated :: bool

type_synonym amount_key = "string \<times> string \<times> direction \<times> int \<times> int"
type_synonym reference_key = "string \<times> string \<times> direction \<times> string"
type_synonym party_key = "string \<times> string \<times> direction \<times> string \<times> int"

definition amount_date_key :: "blocking_config \<Rightarrow> txn \<Rightarrow> amount_key option res" where
  "amount_date_key cfg t =
     (case amount_bucket (t_amount_minor t) (bl_amount_width cfg) of
        Inl e \<Rightarrow> Inl e
      | Inr a \<Rightarrow>
          (case date_bucket (t_date t) (bl_date_window cfg) of
             Inl e \<Rightarrow> Inl e
           | Inr d \<Rightarrow> Inr (Some (t_bank t, t_currency t, t_direction t, a, d))))"

definition reference_block_key :: "blocking_config \<Rightarrow> txn \<Rightarrow> reference_key option res" where
  "reference_block_key cfg t =
     (case t_ref t of
        None \<Rightarrow> Inr None
      | Some r \<Rightarrow>
          if r = [] then Inr None
          else Inr (Some (t_bank t, t_currency t, t_direction t, reference_prefix r (bl_reference_prefix cfg))))"

definition party_block_key :: "blocking_config \<Rightarrow> txn \<Rightarrow> party_key option res" where
  "party_block_key cfg t =
     (case counterparty_key (t_party t) (bl_counterparty_prefix cfg) of
        None \<Rightarrow> Inr None
      | Some k \<Rightarrow>
          (case date_bucket (t_date t) (bl_date_window cfg) of
             Inl e \<Rightarrow> Inl e
           | Inr d \<Rightarrow> Inr (Some (t_bank t, t_currency t, t_direction t, k, d))))"

text \<open>\<open>index.setdefault(key, []).append(txn)\<close> over the transactions that have a key.\<close>

fun index_by :: "(txn \<Rightarrow> 'k option res) \<Rightarrow> txn list \<Rightarrow> ('k \<times> txn list) list \<Rightarrow> ('k \<times> txn list) list res" where
  "index_by key [] d = Inr d"
| "index_by key (t # ts) d =
     (case key t of
        Inl e \<Rightarrow> Inl e
      | Inr None \<Rightarrow> index_by key ts d
      | Inr (Some k) \<Rightarrow> index_by key ts (dict_put k (dict_get [] k d @ [t]) d))"

record generator =
  gen_config :: blocking_config
  gen_amount :: "(amount_key \<times> txn list) list"
  gen_reference :: "(reference_key \<times> txn list) list"
  gen_party :: "(party_key \<times> txn list) list"

definition candidate_generator :: "txn list \<Rightarrow> blocking_config \<Rightarrow> generator res" where
  "candidate_generator ints cfg =
     (case index_by (amount_date_key cfg) ints [] of
        Inl e \<Rightarrow> Inl e
      | Inr a \<Rightarrow>
          (case index_by (reference_block_key cfg) ints [] of
             Inl e \<Rightarrow> Inl e
           | Inr r \<Rightarrow>
               (case index_by (party_block_key cfg) ints [] of
                  Inl e \<Rightarrow> Inl e
                | Inr p \<Rightarrow> Inr \<lparr>gen_config = cfg, gen_amount = a, gen_reference = r, gen_party = p\<rparr>)))"

definition look :: "'k option res \<Rightarrow> ('k \<times> txn list) list \<Rightarrow> txn list res" where
  "look key d = (case key of Inl e \<Rightarrow> Inl e | Inr None \<Rightarrow> Inr [] | Inr (Some k) \<Rightarrow> Inr (dict_get [] k d))"

text \<open>One pass adds the candidates whose id has not been seen.\<close>

definition add_unseen :: "txn list \<Rightarrow> txn list \<Rightarrow> txn list" where
  "add_unseen new combined =
     fold (\<lambda>c acc. if t_id c \<in> t_id ` set acc then acc else acc @ [c]) new combined"

definition generate :: "generator \<Rightarrow> txn \<Rightarrow> candidate_set res" where
  "generate g e =
     (let cfg = gen_config g in
      case look (amount_date_key cfg e) (gen_amount g) of
        Inl x \<Rightarrow> Inl x
      | Inr a \<Rightarrow>
          (case look (reference_block_key cfg e) (gen_reference g) of
             Inl x \<Rightarrow> Inl x
           | Inr r \<Rightarrow>
               (case look (party_block_key cfg e) (gen_party g) of
                  Inl x \<Rightarrow> Inl x
                | Inr p \<Rightarrow>
                    (let combined = add_unseen p (add_unseen r (add_unseen a []));
                         truncated = int (length combined) > bl_max_candidates cfg
                     in Inr \<lparr>cs_external = t_id e,
                             cs_candidates = (if truncated then slice_to combined (bl_max_candidates cfg) else combined),
                             cs_truncated = truncated\<rparr>))))"

section \<open>Configuration\<close>

record weights =
  w_reference :: rat
  w_amount :: rat
  w_date :: rat
  w_counterparty :: rat
  w_direction :: rat
  w_currency :: rat

record thresholds =
  th_jaro_winkler :: rat
  th_levenshtein_max :: int
  th_levenshtein_min_length :: int
  th_token_set :: rat
  th_auto :: rat
  th_review :: rat
  th_min_signals :: int

record matching_config =
  mc_version :: string
  mc_weights :: weights
  mc_thresholds :: thresholds

definition float_add :: "rat \<Rightarrow> rat \<Rightarrow> rat" where
  "float_add x y = repr_of (double_of (double_of x + double_of y))"

definition check_weights :: "weights \<Rightarrow> weights res" where
  "check_weights w =
     (let tot = float_add (float_add (float_add (float_add (float_add (w_reference w) (w_amount w)) (w_date w))
                  (w_counterparty w)) (w_direction w)) (w_currency w)
      in if \<bar>float_sub tot 1\<bar> > 1 / 10 ^ 9 then Inl ValueError else Inr w)"

definition check_thresholds :: "thresholds \<Rightarrow> thresholds res" where
  "check_thresholds t = (if th_review t \<ge> th_auto t then Inl ValueError else Inr t)"

text \<open>The shipped \<open>config/matching/weights.yaml\<close>.\<close>

definition shipped_config :: matching_config where
  "shipped_config =
     \<lparr>mc_version = ''weights.v1'',
      mc_weights = \<lparr>w_reference = 35 / 100, w_amount = 25 / 100, w_date = 15 / 100,
                    w_counterparty = 10 / 100, w_direction = 10 / 100, w_currency = 5 / 100\<rparr>,
      mc_thresholds = \<lparr>th_jaro_winkler = 92 / 100, th_levenshtein_max = 2, th_levenshtein_min_length = 12,
                       th_token_set = 80 / 100, th_auto = 85 / 100, th_review = 60 / 100, th_min_signals = 2\<rparr>\<rparr>"

section \<open>Field scores\<close>

text \<open>\<open>JaroWinkler.similarity\<close>, \<open>Levenshtein.distance\<close> and \<open>token_set_ratio\<close>.\<close>

record similarity =
  sim_jaro_winkler :: "string \<Rightarrow> string \<Rightarrow> rat"
  sim_levenshtein :: "string \<Rightarrow> string \<Rightarrow> int"
  sim_token_set :: "string \<Rightarrow> string \<Rightarrow> rat"

text \<open>What RapidFuzz documents of them.\<close>

definition similarity_ok :: "similarity \<Rightarrow> bool" where
  "similarity_ok sim =
     (\<forall>a b. 0 \<le> sim_jaro_winkler sim a b \<and> sim_jaro_winkler sim a b \<le> 1
        \<and> 0 \<le> sim_levenshtein sim a b \<and> (sim_levenshtein sim a b = 0 \<longleftrightarrow> a = b)
        \<and> 0 \<le> sim_token_set sim a b \<and> sim_token_set sim a b \<le> 100)"

definition differs_only_in_digits :: "string \<Rightarrow> string \<Rightarrow> bool" where
  "differs_only_in_digits a b =
     (\<not> (a = b \<or> length a \<noteq> length b)
      \<and> list_all (\<lambda>(x, y). x = y \<or> is_digit x \<and> is_digit y) (zip a b))"

definition score_reference :: "similarity \<Rightarrow> thresholds \<Rightarrow> string \<Rightarrow> string \<Rightarrow> rat" where
  "score_reference sim th a b =
     (if a = b then 1
      else (let jw = sim_jaro_winkler sim a b in
            if jw > th_jaro_winkler th then jw
            else if int (length a) \<ge> th_levenshtein_min_length th
                    \<and> sim_levenshtein sim a b \<le> th_levenshtein_max th
            then float_sub 1 (float_div (of_int (sim_levenshtein sim a b)) (of_int (th_levenshtein_max th + 1)))
            else 0))"

definition score_amount :: "int \<Rightarrow> int \<Rightarrow> int \<Rightarrow> rat" where
  "score_amount i e tol = (if i = e then 1 else if \<bar>i - e\<bar> \<le> tol then 8 / 10 else 0)"

definition score_date :: "int \<Rightarrow> int \<Rightarrow> rat" where
  "score_date i e =
     (let offset = \<bar>i - e\<bar> in
      if offset = 0 then 1 else if offset = 1 then 8 / 10 else if offset = 2 then 5 / 10 else 0)"

definition score_counterparty :: "similarity \<Rightarrow> string option \<Rightarrow> string option \<Rightarrow> rat" where
  "score_counterparty sim i e =
     (case (i, e) of
        (Some a, Some b) \<Rightarrow> if a = [] \<or> b = [] then 0 else float_div (sim_token_set sim a b) 100
      | _ \<Rightarrow> 0)"

definition score_gate :: "'a \<Rightarrow> 'a \<Rightarrow> rat" where
  "score_gate i e = (if i = e then 1 else 0)"

section \<open>The weighted decision\<close>

datatype match_decision = AUTO_MATCH | REVIEW | NO_MATCH

record scored =
  sd_internal :: txn
  sd_external :: txn
  sd_confidence :: rat
  sd_scores :: "(string \<times> rat) list"
  sd_hard :: bool
  sd_signals :: nat
  sd_decision :: match_decision
  sd_version :: string

definition decide :: "rat \<Rightarrow> bool \<Rightarrow> nat \<Rightarrow> thresholds \<Rightarrow> bool \<Rightarrow> match_decision" where
  "decide confidence hard signals th digits =
     (if \<not> hard then NO_MATCH
      else if confidence > th_auto th then
        (if int signals < th_min_signals th then REVIEW else if digits then REVIEW else AUTO_MATCH)
      else if confidence \<ge> th_review th then REVIEW
      else NO_MATCH)"

definition dec_add :: "rat \<Rightarrow> rat \<Rightarrow> rat" where
  "dec_add x y = ctx28 (x + y)"

definition raw_confidence :: "weights \<Rightarrow> rat \<Rightarrow> rat \<Rightarrow> rat \<Rightarrow> rat \<Rightarrow> rat \<Rightarrow> rat \<Rightarrow> rat" where
  "raw_confidence w r a d p dir cur =
     dec_add (dec_add (dec_add (dec_add (dec_add
       (dec_mul r (w_reference w)) (dec_mul a (w_amount w))) (dec_mul d (w_date w)))
       (dec_mul p (w_counterparty w))) (dec_mul dir (w_direction w))) (dec_mul cur (w_currency w))"

definition quantise3 :: "rat \<Rightarrow> rat" where
  "quantise3 x = of_int (round_half_even (x * 1000)) / 1000"

definition count_true :: "bool list \<Rightarrow> nat" where
  "count_true bs = length (filter id bs)"

definition signals :: "thresholds \<Rightarrow> rat \<Rightarrow> rat \<Rightarrow> rat \<Rightarrow> rat \<Rightarrow> nat" where
  "signals th r a d p =
     count_true [r > th_jaro_winkler th \<or> r = 1, a \<ge> 8 / 10, d \<ge> 8 / 10, p \<ge> th_token_set th]"

definition text_of :: "string option \<Rightarrow> string" where
  "text_of s = (case s of None \<Rightarrow> [] | Some x \<Rightarrow> x)"

definition score_candidate :: "similarity \<Rightarrow> int \<Rightarrow> matching_config \<Rightarrow> txn \<Rightarrow> txn \<Rightarrow> scored" where
  "score_candidate sim tol cfg i e =
     (let th = mc_thresholds cfg;
          dir = score_gate (t_direction i) (t_direction e);
          cur = score_gate (t_currency i) (t_currency e);
          hard = (dir = 1 \<and> cur = 1);
          ri = text_of (t_ref i); re = text_of (t_ref e);
          r = score_reference sim th ri re;
          a = score_amount (t_amount_minor i) (t_amount_minor e) tol;
          d = score_date (t_date i) (t_date e);
          p = score_counterparty sim (t_party i) (t_party e);
          confidence = quantise3 (raw_confidence (mc_weights cfg) r a d p dir cur);
          n = signals th r a d p;
          digits = (differs_only_in_digits ri re \<and> p < th_token_set th)
      in \<lparr>sd_internal = i, sd_external = e, sd_confidence = confidence,
          sd_scores = [(''reference'', r), (''amount'', a), (''date'', d), (''counterparty'', p),
                       (''direction'', dir), (''currency'', cur)],
          sd_hard = hard, sd_signals = n, sd_decision = decide confidence hard n th digits,
          sd_version = mc_version cfg\<rparr>)"

section \<open>What blocking finds\<close>

lemma index_by_get:
  "index_by key ts d = Inr d' \<Longrightarrow>
   dict_get [] k d' = dict_get [] k d @ filter (\<lambda>t. key t = Inr (Some k)) ts"
  by (induction ts arbitrary: d) (auto simp: dict_get_put split: sum.splits option.splits)

lemma look_index:
  assumes "index_by key ts [] = Inr d" "look v d = Inr xs"
  shows "set xs = {t \<in> set ts. \<exists>k. v = Inr (Some k) \<and> key t = Inr (Some k)}"
  using index_by_get[OF assms(1)] assms(2)
  by (auto simp: look_def dict_get_def[of "[]" _ "[]"] split: sum.splits option.splits)

lemma add_unseen_in: "t_id ` set (add_unseen new acc) = t_id ` (set new \<union> set acc)"
proof (induction new arbitrary: acc)
  case (Cons c new)
  show ?case using Cons[of acc] Cons[of "acc @ [c]"] by (auto simp: add_unseen_def)
qed (simp add: add_unseen_def)

lemma add_unseen_subset: "set (add_unseen new acc) \<subseteq> set new \<union> set acc"
proof (induction new arbitrary: acc)
  case (Cons c new)
  show ?case using Cons[of acc] Cons[of "acc @ [c]"] by (auto simp: add_unseen_def)
qed (simp add: add_unseen_def)

lemma add_unseen_distinct: "distinct (map t_id acc) \<Longrightarrow> distinct (map t_id (add_unseen new acc))"
  by (induction new arbitrary: acc) (simp_all add: add_unseen_def)

lemma add_unseen_set:
  assumes "distinct (map t_id ts)" "set new \<subseteq> set ts" "set acc \<subseteq> set ts"
  shows "set (add_unseen new acc) = set new \<union> set acc"
proof (intro equalityI add_unseen_subset subsetI)
  fix c assume c: "c \<in> set new \<union> set acc"
  then have "t_id c \<in> t_id ` set (add_unseen new acc)" unfolding add_unseen_in by blast
  then obtain c' where c': "c' \<in> set (add_unseen new acc)" "t_id c = t_id c'" by blast
  moreover have "c' \<in> set ts" "c \<in> set ts" using c c'(1) add_unseen_subset assms(2,3) by blast+
  ultimately show "c \<in> set (add_unseen new acc)" using distinct_map_inj[OF assms(1)] by metis
qed

text \<open>Two transactions share a block when one of the three passes brings them together.\<close>

definition same_gate :: "txn \<Rightarrow> txn \<Rightarrow> bool" where
  "same_gate c e = (t_bank c = t_bank e \<and> t_currency c = t_currency e \<and> t_direction c = t_direction e)"

definition shares_block :: "blocking_config \<Rightarrow> txn \<Rightarrow> txn \<Rightarrow> bool" where
  "shares_block cfg c e =
     (same_gate c e
      \<and> (t_amount_minor c div bl_amount_width cfg = t_amount_minor e div bl_amount_width cfg
           \<and> t_date c div bl_date_window cfg = t_date e div bl_date_window cfg
         \<or> (\<exists>r s. t_ref c = Some r \<and> t_ref e = Some s \<and> r \<noteq> [] \<and> s \<noteq> []
              \<and> reference_prefix r (bl_reference_prefix cfg) = reference_prefix s (bl_reference_prefix cfg))
         \<or> (\<exists>k. counterparty_key (t_party c) (bl_counterparty_prefix cfg) = Some k
              \<and> counterparty_key (t_party e) (bl_counterparty_prefix cfg) = Some k
              \<and> t_date c div bl_date_window cfg = t_date e div bl_date_window cfg)))"

lemma amount_date_key_iff:
  "amount_date_key cfg t = Inr (Some k) \<longleftrightarrow>
   0 < bl_amount_width cfg \<and> 0 < bl_date_window cfg
   \<and> k = (t_bank t, t_currency t, t_direction t, t_amount_minor t div bl_amount_width cfg, t_date t div bl_date_window cfg)"
  by (auto simp: amount_date_key_def amount_bucket_def date_bucket_def)

lemma reference_block_key_iff:
  "reference_block_key cfg t = Inr (Some k) \<longleftrightarrow>
   (\<exists>r. t_ref t = Some r \<and> r \<noteq> []
      \<and> k = (t_bank t, t_currency t, t_direction t, reference_prefix r (bl_reference_prefix cfg)))"
  by (auto simp: reference_block_key_def split: option.splits)

lemma party_block_key_iff:
  "party_block_key cfg t = Inr (Some k) \<longleftrightarrow>
   (\<exists>p. counterparty_key (t_party t) (bl_counterparty_prefix cfg) = Some p \<and> 0 < bl_date_window cfg
      \<and> k = (t_bank t, t_currency t, t_direction t, p, t_date t div bl_date_window cfg))"
  by (auto simp: party_block_key_def date_bucket_def split: option.splits)

lemma shares_block_keys:
  assumes "0 < bl_amount_width cfg" "0 < bl_date_window cfg"
  shows "shares_block cfg c e \<longleftrightarrow>
    (\<exists>k. amount_date_key cfg e = Inr (Some k) \<and> amount_date_key cfg c = Inr (Some k))
    \<or> (\<exists>k. reference_block_key cfg e = Inr (Some k) \<and> reference_block_key cfg c = Inr (Some k))
    \<or> (\<exists>k. party_block_key cfg e = Inr (Some k) \<and> party_block_key cfg c = Inr (Some k))"
  unfolding amount_date_key_iff reference_block_key_iff party_block_key_iff shares_block_def same_gate_def
  using assms by auto

definition pass_union :: "generator \<Rightarrow> txn \<Rightarrow> txn list res" where
  "pass_union g e =
     (case (look (amount_date_key (gen_config g) e) (gen_amount g),
            look (reference_block_key (gen_config g) e) (gen_reference g),
            look (party_block_key (gen_config g) e) (gen_party g)) of
        (Inr a, Inr r, Inr p) \<Rightarrow> Inr (add_unseen p (add_unseen r (add_unseen a [])))
      | _ \<Rightarrow> Inl ValueError)"

lemma slice_to_facts:
  "set (slice_to xs n) \<subseteq> set xs" "distinct (map f xs) \<Longrightarrow> distinct (map f (slice_to xs n))"
  "0 \<le> n \<Longrightarrow> int (length (slice_to xs n)) \<le> n"
  by (auto simp: slice_to_def take_map[symmetric] dest: in_set_takeD)

lemma generate_union:
  assumes "generate g e = Inr cs"
  shows "\<exists>xs. pass_union g e = Inr xs
    \<and> cs_truncated cs = (int (length xs) > bl_max_candidates (gen_config g))
    \<and> cs_candidates cs = (if cs_truncated cs then slice_to xs (bl_max_candidates (gen_config g)) else xs)"
  using assms unfolding generate_def pass_union_def Let_def by (auto split: sum.splits)

lemma pass_union_set:
  assumes g: "candidate_generator ints cfg = Inr g" and x: "pass_union g e = Inr xs" and d: "distinct (map t_id ints)"
  shows "distinct (map t_id xs) \<and> set xs = {c \<in> set ints. shares_block cfg c e}"
proof -
  obtain a r p where i: "index_by (amount_date_key cfg) ints [] = Inr a"
      "index_by (reference_block_key cfg) ints [] = Inr r" "index_by (party_block_key cfg) ints [] = Inr p"
    and g': "g = \<lparr>gen_config = cfg, gen_amount = a, gen_reference = r, gen_party = p\<rparr>"
    using g by (auto simp: candidate_generator_def split: sum.splits)
  obtain xa xr xp where l: "look (amount_date_key cfg e) a = Inr xa" "look (reference_block_key cfg e) r = Inr xr"
      "look (party_block_key cfg e) p = Inr xp"
    and xs: "xs = add_unseen xp (add_unseen xr (add_unseen xa []))"
    using x by (auto simp: pass_union_def g' split: sum.splits)
  have w: "0 < bl_amount_width cfg \<and> 0 < bl_date_window cfg"
    using l(1) by (auto simp: look_def amount_date_key_def amount_bucket_def date_bucket_def split: sum.splits if_splits)
  note s = look_index[OF i(1) l(1)] look_index[OF i(2) l(2)] look_index[OF i(3) l(3)]
  have sub: "set xa \<subseteq> set ints" "set xr \<subseteq> set ints" "set xp \<subseteq> set ints" unfolding s by blast+
  have s1: "set (add_unseen xa []) = set xa" using add_unseen_set[OF d sub(1), of "[]"] by simp
  have s2: "set (add_unseen xr (add_unseen xa [])) = set xr \<union> set xa"
    using add_unseen_set[OF d sub(2), of "add_unseen xa []"] s1 sub(1) by simp
  have "set xs = set xp \<union> (set xr \<union> set xa)"
    unfolding xs using add_unseen_set[OF d sub(3), of "add_unseen xr (add_unseen xa [])"] s2 sub by simp
  also have "\<dots> = {c \<in> set ints. shares_block cfg c e}"
    unfolding s shares_block_keys[OF conjunct1[OF w] conjunct2[OF w]] by blast
  finally have "set xs = {c \<in> set ints. shares_block cfg c e}" .
  then show ?thesis unfolding xs by (simp add: add_unseen_distinct)
qed

lemma score_gate_one [simp]: "score_gate i e = 1 \<longleftrightarrow> i = e"
  by (simp add: score_gate_def)

lemma generate_in:
  assumes "candidate_generator ints cfg = Inr g" "generate g e = Inr cs" "c \<in> set (cs_candidates cs)"
  shows "c \<in> set ints"
proof -
  obtain a r p where i: "index_by (amount_date_key cfg) ints [] = Inr a"
      "index_by (reference_block_key cfg) ints [] = Inr r" "index_by (party_block_key cfg) ints [] = Inr p"
    and g: "g = \<lparr>gen_config = cfg, gen_amount = a, gen_reference = r, gen_party = p\<rparr>"
    using assms(1) by (auto simp: candidate_generator_def split: sum.splits)
  obtain xs where u: "pass_union g e = Inr xs" and sub: "set (cs_candidates cs) \<subseteq> set xs"
    using generate_union[OF assms(2)] slice_to_facts(1) by (metis order_refl)
  obtain xa xr xp where l: "look (amount_date_key cfg e) a = Inr xa" "look (reference_block_key cfg e) r = Inr xr"
      "look (party_block_key cfg e) p = Inr xp" and xs: "xs = add_unseen xp (add_unseen xr (add_unseen xa []))"
    using u by (auto simp: pass_union_def g split: sum.splits)
  have "set xs \<subseteq> set xp \<union> (set xr \<union> set xa)" unfolding xs
    using add_unseen_subset[of xp "add_unseen xr (add_unseen xa [])"] add_unseen_subset[of xr "add_unseen xa []"]
      add_unseen_subset[of xa "[]"] by auto
  then show ?thesis using assms(3) sub look_index[OF i(1) l(1)] look_index[OF i(2) l(2)] look_index[OF i(3) l(3)] by blast
qed

lemma generate_candidates:
  assumes "candidate_generator ints cfg = Inr g" "generate g e = Inr cs" "distinct (map t_id ints)"
  shows "set (cs_candidates cs) \<subseteq> {c \<in> set ints. shares_block cfg c e}
    \<and> distinct (map t_id (cs_candidates cs))
    \<and> (\<not> cs_truncated cs \<longrightarrow> set (cs_candidates cs) = {c \<in> set ints. shares_block cfg c e})"
proof -
  obtain xs where u: "pass_union g e = Inr xs"
    and x: "cs_candidates cs = (if cs_truncated cs then slice_to xs (bl_max_candidates (gen_config g)) else xs)"
    using generate_union[OF assms(2)] by blast
  note f = pass_union_set[OF assms(1) u assms(3)]
  show ?thesis
  proof (cases "cs_truncated cs")
    case True
    then show ?thesis using f slice_to_facts(1)[of xs] slice_to_facts(2)[of t_id xs] unfolding x by auto
  next
    case False
    then show ?thesis using f unfolding x by simp
  qed
qed

section \<open>Scores\<close>

lemma score_date_values: "score_date i e \<in> {0, 5 / 10, 8 / 10, 1}"
  by (simp add: score_date_def Let_def)

lemma score_amount_values: "score_amount i e tol \<in> {0, 8 / 10, 1}"
  by (simp add: score_amount_def)

lemma score_gate_values: "score_gate i e \<in> {0, 1}"
  by (simp add: score_gate_def)

lemma score_counterparty_range:
  "similarity_ok sim \<Longrightarrow> 0 \<le> score_counterparty sim i e \<and> score_counterparty sim i e \<le> 1"
  using float_div_unit[of "sim_token_set sim (the i) (the e)" 100]
  by (auto simp: score_counterparty_def similarity_ok_def split: option.splits)

text \<open>Under the shipped thresholds a reference score is a signal or at most 0.7.\<close>

lemma shipped_reference_score:
  fixes a b :: string
  assumes "similarity_ok sim"
  defines "r \<equiv> score_reference sim (mc_thresholds shipped_config) a b"
  shows "r > 92 / 100 \<or> r = 1 \<or> r \<le> 7 / 10" "0 \<le> r" "r \<le> 1"
proof -
  let ?d = "sim_levenshtein sim a b" and ?j = "sim_jaro_winkler sim a b"
  have c: "r = 1 \<or> (92 / 100 < r \<and> 0 \<le> r \<and> r \<le> 1) \<or> (0 \<le> r \<and> r \<le> 7 / 10)"
  proof (cases "a = b")
    case False
    have j: "0 \<le> ?j" "?j \<le> 1" and d: "0 \<le> ?d" "?d \<noteq> 0"
      using assms(1) False unfolding similarity_ok_def by metis+
    show ?thesis
    proof (cases "?j > 92 / 100")
      case True
      then have "r = ?j" using False by (simp add: r_def score_reference_def shipped_config_def Let_def)
      then show ?thesis using True j by simp
    next
      case nj: False
      then have r: "r = (if int (length a) \<ge> 12 \<and> ?d \<le> 2 then float_sub 1 (float_div (of_int ?d) 3) else 0)"
        using False by (simp add: r_def score_reference_def shipped_config_def Let_def)
      have "?d = 1 \<or> ?d = 2 \<or> \<not> ?d \<le> 2" using d by linarith
      then show ?thesis using third_scores by (elim disjE) (simp_all add: r)
    qed
  qed (simp add: r_def score_reference_def)
  then show "r > 92 / 100 \<or> r = 1 \<or> r \<le> 7 / 10" "0 \<le> r" "r \<le> 1" by auto
qed

section \<open>Bounds of the decimal arithmetic\<close>

definition eps :: rat where "eps = 1 / 10 ^ 20"

lemma ctx28_upper: "\<lbrakk>\<bar>x\<bar> \<le> 100; x \<le> b\<rbrakk> \<Longrightarrow> ctx28 x \<le> b + eps"
proof -
  assume x: "\<bar>x\<bar> \<le> 100" "x \<le> b"
  have p: "pow10 (- 27) = 1 / 10 ^ 27" by (simp add: pow10_def)
  have "\<bar>x\<bar> * pow10 (- 27) \<le> 100 * pow10 (- 27)" using x(1) by (intro mult_right_mono) (auto simp: p)
  then have "\<bar>ctx28 x - x\<bar> \<le> eps" using ctx28_err[of x] by (simp add: p eps_def)
  then show ?thesis using x(2) by linarith
qed

lemma ctx28_lower: "\<lbrakk>\<bar>x\<bar> \<le> 100; b \<le> x\<rbrakk> \<Longrightarrow> b - eps \<le> ctx28 x"
proof -
  assume x: "\<bar>x\<bar> \<le> 100" "b \<le> x"
  have p: "pow10 (- 27) = 1 / 10 ^ 27" by (simp add: pow10_def)
  have "\<bar>x\<bar> * pow10 (- 27) \<le> 100 * pow10 (- 27)" using x(1) by (intro mult_right_mono) (auto simp: p)
  then have "\<bar>ctx28 x - x\<bar> \<le> eps" using ctx28_err[of x] by (simp add: p eps_def)
  then show ?thesis using x(2) by linarith
qed

lemma eps_small: "0 < eps" "20 * eps < 1 / 1000"
  by (simp_all add: eps_def)

lemma quantise3_mono: "x \<le> y \<Longrightarrow> quantise3 x \<le> quantise3 y"
  using round_half_even_mono[of "x * 1000" "y * 1000"] by (simp add: quantise3_def divide_right_mono)

text \<open>The weighted sum of the shipped weights, within the rounding of the context.\<close>

lemma raw_shipped_upper:
  assumes "0 \<le> r" "r \<le> r'" "0 \<le> a" "a \<le> a'" "0 \<le> d" "d \<le> d'" "0 \<le> p" "p \<le> p'" "0 \<le> g" "g \<le> 1" "0 \<le> c" "c \<le> 1"
    "r' \<le> 1" "a' \<le> 1" "d' \<le> 1" "p' \<le> 1"
  shows "raw_confidence (mc_weights shipped_config) r a d p g c
     \<le> r' * (35 / 100) + a' * (25 / 100) + d' * (15 / 100) + p' * (10 / 100) + 15 / 100 + 11 * eps"
proof -
  have m: "dec_mul x w \<le> b * w + eps \<and> - eps \<le> dec_mul x w" if "0 \<le> x" "x \<le> b" "b \<le> 1" "0 \<le> w" "w \<le> 1" for x b w
  proof -
    have "x * w \<le> b * w" "0 \<le> x * w" "b * w \<le> 1" using that by (simp_all add: mult_right_mono mult_le_one)
    then show ?thesis using ctx28_upper[of "x * w" "b * w"] ctx28_lower[of "x * w" 0] by (simp add: dec_mul_def)
  qed
  have ad: "dec_add x y \<le> b + eps \<and> l - eps \<le> dec_add x y"
    if "x + y \<le> b" "l \<le> x + y" "b \<le> 10" "- 10 \<le> l" for x y b l
    using ctx28_upper[of "x + y" b] ctx28_lower[of "x + y" l] that by (simp add: dec_add_def)
  have e: "eps \<le> 1 / 100" "0 < eps" using eps_small by linarith+
  let ?w = "mc_weights shipped_config"
  have w: "w_reference ?w = 35 / 100" "w_amount ?w = 25 / 100" "w_date ?w = 15 / 100" "w_counterparty ?w = 10 / 100"
    "w_direction ?w = 10 / 100" "w_currency ?w = 5 / 100" by (simp_all add: shipped_config_def)
  have ms: "dec_mul r (w_reference ?w) \<le> r' * (35 / 100) + eps \<and> - eps \<le> dec_mul r (w_reference ?w)"
    "dec_mul a (w_amount ?w) \<le> a' * (25 / 100) + eps \<and> - eps \<le> dec_mul a (w_amount ?w)"
    "dec_mul d (w_date ?w) \<le> d' * (15 / 100) + eps \<and> - eps \<le> dec_mul d (w_date ?w)"
    "dec_mul p (w_counterparty ?w) \<le> p' * (10 / 100) + eps \<and> - eps \<le> dec_mul p (w_counterparty ?w)"
    "dec_mul g (w_direction ?w) \<le> 1 * (10 / 100) + eps \<and> - eps \<le> dec_mul g (w_direction ?w)"
    "dec_mul c (w_currency ?w) \<le> 1 * (5 / 100) + eps \<and> - eps \<le> dec_mul c (w_currency ?w)"
    unfolding w
    by (rule m, use assms in simp, use assms in simp, use assms in simp, simp, simp)+
  let ?s1 = "dec_add (dec_mul r (w_reference ?w)) (dec_mul a (w_amount ?w))"
  let ?s2 = "dec_add ?s1 (dec_mul d (w_date ?w))"
  let ?s3 = "dec_add ?s2 (dec_mul p (w_counterparty ?w))"
  let ?s4 = "dec_add ?s3 (dec_mul g (w_direction ?w))"
  have s1: "?s1 \<le> (r' * (35 / 100) + a' * (25 / 100) + 2 * eps) + eps \<and> (- (2 * eps)) - eps \<le> ?s1"
    by (rule ad) (use ms assms e in linarith)+
  have s2: "?s2 \<le> (r' * (35 / 100) + a' * (25 / 100) + d' * (15 / 100) + 4 * eps) + eps \<and> (- (4 * eps)) - eps \<le> ?s2"
    by (rule ad) (use s1 ms assms e in linarith)+
  have s3: "?s3 \<le> (r' * (35 / 100) + a' * (25 / 100) + d' * (15 / 100) + p' * (10 / 100) + 6 * eps) + eps
      \<and> (- (6 * eps)) - eps \<le> ?s3"
    by (rule ad) (use s2 ms assms e in linarith)+
  have s4: "?s4 \<le> (r' * (35 / 100) + a' * (25 / 100) + d' * (15 / 100) + p' * (10 / 100) + 10 / 100 + 8 * eps) + eps
      \<and> (- (8 * eps)) - eps \<le> ?s4"
    by (rule ad) (use s3 ms assms e in linarith)+
  have "raw_confidence ?w r a d p g c
      \<le> (r' * (35 / 100) + a' * (25 / 100) + d' * (15 / 100) + p' * (10 / 100) + 15 / 100 + 10 * eps) + eps
      \<and> (- (10 * eps)) - eps \<le> raw_confidence ?w r a d p g c"
    unfolding raw_confidence_def by (rule ad) (use s4 ms assms e in linarith)+
  then show ?thesis by linarith
qed

lemma count_true_simps: "count_true [] = 0" "count_true (b # bs) = (if b then Suc (count_true bs) else count_true bs)"
  by (simp_all add: count_true_def)

lemma few_weights:
  "count_true [R, A, D, P] < 2 \<Longrightarrow>
   (if R then 1 else 7 / 10) * (35 / 100) + (if A then 1 else 0) * (25 / 100) + (if D then 1 else 5 / 10) * (15 / 100)
   + (if P then 1 else 80 / 100) * (10 / 100) + 15 / 100 \<le> (81 / 100 :: rat)"
  by (cases R; cases A; cases D; cases P) (simp_all add: count_true_simps)

text \<open>With fewer than two signals the shipped weights stay below the automatic threshold.\<close>

lemma few_signals_low:
  assumes sim: "similarity_ok sim" and n: "sd_signals (score_candidate sim tol shipped_config i e) < 2"
  shows "sd_confidence (score_candidate sim tol shipped_config i e) \<le> 85 / 100"
proof -
  define r where "r = score_reference sim (mc_thresholds shipped_config) (text_of (t_ref i)) (text_of (t_ref e))"
  define a where "a = score_amount (t_amount_minor i) (t_amount_minor e) tol"
  define d where "d = score_date (t_date i) (t_date e)"
  define p where "p = score_counterparty sim (t_party i) (t_party e)"
  define g where "g = score_gate (t_direction i) (t_direction e)"
  define c where "c = score_gate (t_currency i) (t_currency e)"
  define r' where "r' = (if r > 92 / 100 \<or> r = 1 then 1 else 7 / 10 :: rat)"
  define a' where "a' = (if 8 / 10 \<le> a then 1 else 0 :: rat)"
  define d' where "d' = (if 8 / 10 \<le> d then 1 else 5 / 10 :: rat)"
  define p' where "p' = (if 80 / 100 \<le> p then 1 else 80 / 100 :: rat)"
  note rs = shipped_reference_score[OF sim, of "text_of (t_ref i)" "text_of (t_ref e)", folded r_def]
  have br: "0 \<le> r \<and> r \<le> r' \<and> r' \<le> 1" using rs by (auto simp: r'_def)
  have ba: "0 \<le> a \<and> a \<le> a' \<and> a' \<le> 1"
    using score_amount_values[of "t_amount_minor i" "t_amount_minor e" tol, folded a_def] by (auto simp: a'_def)
  have bd: "0 \<le> d \<and> d \<le> d' \<and> d' \<le> 1"
    using score_date_values[of "t_date i" "t_date e", folded d_def] by (auto simp: d'_def)
  have bp: "0 \<le> p \<and> p \<le> p' \<and> p' \<le> 1"
    using score_counterparty_range[OF sim, of "t_party i" "t_party e", folded p_def] by (auto simp: p'_def)
  have bg: "0 \<le> g \<and> g \<le> 1" "0 \<le> c \<and> c \<le> 1"
    using score_gate_values[of "t_direction i" "t_direction e", folded g_def]
      score_gate_values[of "t_currency i" "t_currency e", folded c_def] by auto
  have "signals (mc_thresholds shipped_config) r a d p < 2"
    using n unfolding score_candidate_def Let_def r_def a_def d_def p_def by simp
  then have "count_true [r > 92 / 100 \<or> r = 1, a \<ge> 8 / 10, d \<ge> 8 / 10, p \<ge> 80 / 100] < 2"
    by (simp add: signals_def shipped_config_def)
  then have "r' * (35 / 100) + a' * (25 / 100) + d' * (15 / 100) + p' * (10 / 100) + 15 / 100 \<le> 81 / 100"
    unfolding r'_def a'_def d'_def p'_def by (rule few_weights)
  moreover have "raw_confidence (mc_weights shipped_config) r a d p g c
     \<le> r' * (35 / 100) + a' * (25 / 100) + d' * (15 / 100) + p' * (10 / 100) + 15 / 100 + 11 * eps"
    by (rule raw_shipped_upper) (use br ba bd bp bg in blast)+
  ultimately have "raw_confidence (mc_weights shipped_config) r a d p g c \<le> 82 / 100"
    using eps_small by linarith
  then have "quantise3 (raw_confidence (mc_weights shipped_config) r a d p g c) \<le> quantise3 (82 / 100)"
    by (rule quantise3_mono)
  also have "quantise3 (82 / 100) \<le> (85 / 100 :: rat)" by code_simp
  finally show ?thesis
    unfolding score_candidate_def Let_def r_def a_def d_def p_def g_def c_def by simp
qed

section \<open>Properties\<close>

lemma score_candidate_decision:
  fixes i e :: txn and sim :: similarity and tol :: int and cfg :: matching_config
  defines "s \<equiv> score_candidate sim tol cfg i e"
  shows "sd_decision s = decide (sd_confidence s) (t_direction i = t_direction e \<and> t_currency i = t_currency e)
      (sd_signals s) (mc_thresholds cfg)
      (differs_only_in_digits (text_of (t_ref i)) (text_of (t_ref e))
       \<and> score_counterparty sim (t_party i) (t_party e) < th_token_set (mc_thresholds cfg))"
  by (simp add: s_def score_candidate_def Let_def)

text \<open>The candidates offered for an external transaction are exactly the
  internal transactions that share one of the three blocks with it (amount and
  date bucket, reference prefix, counterparty and date bucket, each with bank,
  currency and direction), each once, as long as the cap is not exceeded; past
  the cap the set says so and offers no more than the cap, all of them from a
  shared block.\<close>

theorem candidates_are_blocks:
  assumes "candidate_generator ints cfg = Inr g" "generate g e = Inr cs" "distinct (map t_id ints)"
    "0 \<le> bl_max_candidates cfg"
  shows "set (cs_candidates cs) \<subseteq> {c \<in> set ints. shares_block cfg c e}
    \<and> distinct (map t_id (cs_candidates cs))
    \<and> int (length (cs_candidates cs)) \<le> bl_max_candidates cfg
    \<and> (cs_truncated cs \<longleftrightarrow> int (card {c \<in> set ints. shares_block cfg c e}) > bl_max_candidates cfg)
    \<and> (\<not> cs_truncated cs \<longrightarrow> set (cs_candidates cs) = {c \<in> set ints. shares_block cfg c e})"
proof -
  have cfg: "gen_config g = cfg" using assms(1) by (auto simp: candidate_generator_def split: sum.splits)
  obtain xs where u: "pass_union g e = Inr xs"
    and t: "cs_truncated cs = (int (length xs) > bl_max_candidates cfg)"
    and x: "cs_candidates cs = (if cs_truncated cs then slice_to xs (bl_max_candidates cfg) else xs)"
    using generate_union[OF assms(2)] unfolding cfg by blast
  note f = pass_union_set[OF assms(1) u assms(3)]
  have "card {c \<in> set ints. shares_block cfg c e} = length xs"
    using f by (metis distinct_card distinct_map)
  moreover have "int (length (cs_candidates cs)) \<le> bl_max_candidates cfg"
    using slice_to_facts(3)[OF assms(4), of xs] t unfolding x by (cases "cs_truncated cs") simp_all
  ultimately show ?thesis using generate_candidates[OF assms(1-3)] t by simp
qed

definition sample_blocking :: blocking_config where
  "sample_blocking = \<lparr>bl_amount_width = 100, bl_date_window = 2, bl_reference_prefix = 6,
     bl_counterparty_prefix = 8, bl_max_candidates = 50\<rparr>"

theorem candidates_are_blocks_witness:
  "\<exists>g cs. candidate_generator [sample_txn 1 INTERNAL 500 ''REF1'' 10] sample_blocking = Inr g
     \<and> generate g (sample_txn 2 EXTERNAL 500 ''REF1'' 11) = Inr cs
     \<and> map t_id (cs_candidates cs) = [1] \<and> \<not> cs_truncated cs"
proof -
  let ?i = "sample_txn 1 INTERNAL 500 ''REF1'' 10" and ?e = "sample_txn 2 EXTERNAL 500 ''REF1'' 11"
  obtain g cs where run: "candidate_generator [?i] sample_blocking = Inr g" "generate g ?e = Inr cs"
    by (simp add: candidate_generator_def generate_def amount_date_key_def reference_block_key_def
        party_block_key_def amount_bucket_def date_bucket_def counterparty_key_def look_def sample_blocking_def
        sample_txn_def Let_def)
  have s: "{c \<in> set [?i]. shares_block sample_blocking c ?e} = {?i}"
    by (auto simp: shares_block_def same_gate_def sample_txn_def sample_blocking_def)
  have t: "\<not> cs_truncated cs" "set (cs_candidates cs) = {?i}" "distinct (map t_id (cs_candidates cs))"
    using candidates_are_blocks[OF run] unfolding s by (simp_all add: sample_blocking_def)
  then have "length (cs_candidates cs) = 1" by (metis distinct_card distinct_map card.empty card_insert_disjoint empty_iff finite.emptyI One_nat_def)
  then have "cs_candidates cs = [?i]" using t(2) by (cases "cs_candidates cs") auto
  then show ?thesis using run t(1) by (auto simp: sample_txn_def)
qed

text \<open>C31. A pair is matched automatically only with evidence: equal direction and
  currency, a confidence above the automatic threshold (not at it), enough
  independent signals, and never on references that differ only in digits
  without a corroborating counterparty. Equal gates and a confidence from the
  review threshold up to and including the automatic one go to review, below it
  or with unequal gates there is no match.\<close>

theorem decision_needs_evidence:
  fixes i e :: txn and sim :: similarity and tol :: int and cfg :: matching_config
  assumes "check_thresholds (mc_thresholds cfg) = Inr th"
  defines "s \<equiv> score_candidate sim tol cfg i e"
  defines "gate \<equiv> t_direction i = t_direction e \<and> t_currency i = t_currency e"
  defines "digits \<equiv> differs_only_in_digits (text_of (t_ref i)) (text_of (t_ref e))
       \<and> score_counterparty sim (t_party i) (t_party e) < th_token_set th"
  shows "(sd_decision s = AUTO_MATCH \<longleftrightarrow>
           gate \<and> th_auto th < sd_confidence s \<and> th_min_signals th \<le> int (sd_signals s) \<and> \<not> digits)
     \<and> (sd_decision s = NO_MATCH \<longleftrightarrow> \<not> gate \<or> sd_confidence s < th_review th)
     \<and> (gate \<and> th_review th \<le> sd_confidence s \<and> sd_confidence s \<le> th_auto th \<longrightarrow> sd_decision s = REVIEW)"
proof -
  have th: "mc_thresholds cfg = th" "th_review th < th_auto th"
    using assms(1) by (auto simp: check_thresholds_def split: if_splits)
  show ?thesis
    using th(2) unfolding s_def score_candidate_decision th(1) decide_def
    by (fold s_def gate_def digits_def) auto
qed

definition sample_similarity :: similarity where
  "sample_similarity = \<lparr>sim_jaro_winkler = (\<lambda>a b. if a = b then 1 else 0),
     sim_levenshtein = (\<lambda>a b. if a = b then 0 else int (max 1 (max (length a) (length b)))),
     sim_token_set = (\<lambda>a b. if a = b then 100 else 0)\<rparr>"

lemma sample_similarity_ok: "similarity_ok sample_similarity"
  by (simp add: similarity_ok_def sample_similarity_def)

lemma shipped_thresholds: "check_thresholds (mc_thresholds shipped_config) = Inr (mc_thresholds shipped_config)"
  by (simp add: check_thresholds_def shipped_config_def)

theorem decision_needs_evidence_witness:
  "sd_decision (score_candidate sample_similarity 0 shipped_config
     (sample_txn 1 INTERNAL 500 ''REF1'' 10) (sample_txn 2 EXTERNAL 500 ''REF2'' 10)) \<noteq> AUTO_MATCH"
proof -
  have d: "differs_only_in_digits (text_of (t_ref (sample_txn 1 INTERNAL 500 ''REF1'' 10)))
      (text_of (t_ref (sample_txn 2 EXTERNAL 500 ''REF2'' 10)))"
    by (simp add: differs_only_in_digits_def sample_txn_def text_of_def text_eval)
  have p: "score_counterparty sample_similarity (t_party (sample_txn 1 INTERNAL 500 ''REF1'' 10))
      (t_party (sample_txn 2 EXTERNAL 500 ''REF2'' 10)) < th_token_set (mc_thresholds shipped_config)"
    by (simp add: score_counterparty_def sample_txn_def shipped_config_def)
  show ?thesis using d p decision_needs_evidence[OF shipped_thresholds] by blast
qed

text \<open>Under the shipped weights and thresholds a confidence above the automatic
  threshold always comes with at least the two required signals, for every
  string similarity with the documented ranges, so the branch that sends such a
  pair to review for lack of signals is dead, as the module's note says.\<close>

theorem shipped_signals_suffice:
  assumes "similarity_ok sim" "85 / 100 < sd_confidence (score_candidate sim tol shipped_config i e)"
  shows "2 \<le> sd_signals (score_candidate sim tol shipped_config i e)"
  using few_signals_low[OF assms(1), of tol i e] assms(2) by linarith

theorem shipped_signals_suffice_witness:
  "2 \<le> sd_signals (score_candidate sample_similarity 0 shipped_config
     ((sample_txn 1 INTERNAL 500 ''REF1'' 10)\<lparr>t_party := Some ''ACME''\<rparr>)
     ((sample_txn 2 EXTERNAL 500 ''REF1'' 10)\<lparr>t_party := Some ''ACME''\<rparr>))"
  by (rule shipped_signals_suffice[OF sample_similarity_ok]) code_simp

end
