(* ===== verification/Fuzzy.thy ===== *)
theory Fuzzy
  imports Stage Scoring "HOL-Library.Sublist"
begin

text \<open>
  Model of \<open>matching/strategies/fuzzy.py\<close>: the choice of the best candidate for
  every external transaction, in memory, and the chunked write with its
  pair-by-pair fallback. A chunk is one savepoint, so a refused chunk changes
  nothing. The strategy is an instance of \<open>matching_stage\<close>; the lemmas show that
  chunking only saves round trips (the pair-by-pair writes give the same rows)
  and that a run on the pools never meets a conflict.
\<close>

section \<open>Choosing\<close>

definition best_candidate :: "similarity \<Rightarrow> int \<Rightarrow> matching_config \<Rightarrow> txn \<Rightarrow> txn list \<Rightarrow> scored option" where
  "best_candidate sim tol cfg e candidates =
     first_max sd_confidence
       (filter (\<lambda>s. sd_decision s \<noteq> NO_MATCH) (map (\<lambda>i. score_candidate sim tol cfg i e) candidates))"

type_synonym chosen = "scored \<times> txn \<times> nat"

text \<open>Phase 1, with the ids of the internal transactions consumed so far.\<close>

fun fuzzy_choose ::
    "similarity \<Rightarrow> int \<Rightarrow> matching_config \<Rightarrow> generator \<Rightarrow> (nat \<times> nat) list \<Rightarrow> txn list \<Rightarrow> nat list \<Rightarrow> chosen list res" where
  "fuzzy_choose sim tol cfg g rejected [] consumed = Inr []"
| "fuzzy_choose sim tol cfg g rejected (e # es) consumed =
     (case generate g e of
        Inl err \<Rightarrow> Inl err
      | Inr cs \<Rightarrow>
          (let avail = filter (\<lambda>c. t_id c \<notin> set consumed \<and> (t_id c, t_id e) \<notin> set rejected) (cs_candidates cs)
           in case best_candidate sim tol cfg e avail of
                None \<Rightarrow> fuzzy_choose sim tol cfg g rejected es consumed
              | Some best \<Rightarrow>
                  if sd_decision best = NO_MATCH then fuzzy_choose sim tol cfg g rejected es consumed
                  else (case fuzzy_choose sim tol cfg g rejected es (t_id (sd_internal best) # consumed) of
                          Inl err \<Rightarrow> Inl err
                        | Inr rest \<Rightarrow> Inr ((best, e, length avail) # rest))))"

section \<open>Writing\<close>

definition match_columns :: "string \<Rightarrow> scored \<Rightarrow> nat \<Rightarrow> result" where
  "match_columns run_id s n =
     \<lparr>r_id = 0, r_run = run_id, r_type = FUZZY,
      r_status = (if sd_decision s = AUTO_MATCH then AUTO_MATCHED else PENDING_REVIEW),
      r_confidence = sd_confidence s, r_internal = t_id (sd_internal s), r_external = t_id (sd_external s),
      r_rule = None, r_group = None, r_candidates = n, r_date = t_date (sd_external s),
      r_reviewed_by = None, r_reviewed_at = None\<rparr>"

definition chunk_results :: "nat \<Rightarrow> result list \<Rightarrow> result list" where
  "chunk_results n rows = map2 (\<lambda>k r. r\<lparr>r_id := n + k\<rparr>) [0..<length rows] rows"

fun chunk_claims :: "nat \<Rightarrow> result list \<Rightarrow> claim list" where
  "chunk_claims k [] = []"
| "chunk_claims k (r # rs) =
     \<lparr>c_id = k, c_txn = r_internal r, c_result = Some (r_id r), c_role = INTERNAL, c_active = True\<rparr>
     # \<lparr>c_id = k + 1, c_txn = r_external r, c_result = Some (r_id r), c_role = EXTERNAL, c_active = True\<rparr>
     # chunk_claims (k + 2) rs"

text \<open>Two multi-row inserts under a savepoint; \<open>None\<close> when a constraint refused them.\<close>

definition write_chunk :: "result list \<Rightarrow> db \<Rightarrow> (nat list \<times> db) option" where
  "write_chunk rows db =
     (let rs = chunk_results (next_id db) rows; cs = chunk_claims (next_id db + length rows) rs in
      if \<not> list_all result_row_ok rs \<or> \<not> claims_unique (claims db @ cs) then None
      else Some (map r_id rs,
                 db\<lparr>results := results db @ rs, claims := claims db @ cs, next_id := next_id db + 3 * length rows\<rparr>))"

definition write_one :: "result \<Rightarrow> db \<Rightarrow> (nat option \<times> db) res" where
  "write_one row db = record_pair (r_internal row) (r_external row) row False db"

fun write_each :: "result list \<Rightarrow> db \<Rightarrow> (nat option list \<times> db) res" where
  "write_each [] db = Inr ([], db)"
| "write_each (row # rows) db =
     (case write_one row db of
        Inl err \<Rightarrow> Inl err
      | Inr (x, db1) \<Rightarrow>
          (case write_each rows db1 of Inl err \<Rightarrow> Inl err | Inr (xs, db2) \<Rightarrow> Inr (x # xs, db2)))"

record fuzzy_outcome =
  fz_auto :: nat
  fz_review :: nat
  fz_conflicts :: nat
  fz_ids :: "nat list"

text \<open>What the loop does with one written row: count it, and mark both sides of an
  automatic match.\<close>

definition note_row :: "result \<Rightarrow> nat option \<Rightarrow> fuzzy_outcome \<times> db \<Rightarrow> fuzzy_outcome \<times> db" where
  "note_row row x s =
     (case s of (out, db) \<Rightarrow>
        (case x of
           None \<Rightarrow> (out\<lparr>fz_conflicts := fz_conflicts out + 1\<rparr>, db)
         | Some rid \<Rightarrow>
             if r_status row = AUTO_MATCHED
             then (out\<lparr>fz_ids := fz_ids out @ [rid], fz_auto := fz_auto out + 1\<rparr>,
                   set_status [r_internal row, r_external row] MATCHED db)
             else (out\<lparr>fz_ids := fz_ids out @ [rid], fz_review := fz_review out + 1\<rparr>, db)))"

fun note_rows :: "result list \<Rightarrow> nat option list \<Rightarrow> fuzzy_outcome \<times> db \<Rightarrow> fuzzy_outcome \<times> db" where
  "note_rows (row # rows) (x # xs) s = note_rows rows xs (note_row row x s)"
| "note_rows _ _ s = s"

definition fuzzy_chunk :: "result list \<Rightarrow> fuzzy_outcome \<times> db \<Rightarrow> (fuzzy_outcome \<times> db) res" where
  "fuzzy_chunk rows s =
     (case s of (out, db) \<Rightarrow>
        (case write_chunk rows db of
           Some (ids, db1) \<Rightarrow> Inr (note_rows rows (map Some ids) (out, db1))
         | None \<Rightarrow>
             (case write_each rows db of
                Inl err \<Rightarrow> Inl err
              | Inr (xs, db1) \<Rightarrow> Inr (note_rows rows xs (out, db1)))))"

function chunked :: "nat \<Rightarrow> 'a list \<Rightarrow> 'a list list" where
  "chunked n xs = (if n = 0 \<or> xs = [] then [] else take n xs # chunked n (drop n xs))"
  by pat_completeness auto
termination by (relation "measure (\<lambda>(n, xs). length xs)") auto

declare chunked.simps [simp del]

fun fuzzy_chunks :: "result list list \<Rightarrow> fuzzy_outcome \<times> db \<Rightarrow> (fuzzy_outcome \<times> db) res" where
  "fuzzy_chunks [] s = Inr s"
| "fuzzy_chunks (c # cs) s = (case fuzzy_chunk c s of Inl err \<Rightarrow> Inl err | Inr s' \<Rightarrow> fuzzy_chunks cs s')"

definition write_chunk_size :: nat where "write_chunk_size = 500"

definition no_fuzzy :: fuzzy_outcome where
  "no_fuzzy = \<lparr>fz_auto = 0, fz_review = 0, fz_conflicts = 0, fz_ids = []\<rparr>"

definition fuzzy_rows :: "string \<Rightarrow> chosen list \<Rightarrow> result list" where
  "fuzzy_rows run_id chosen = map (\<lambda>(best, e, n). match_columns run_id best n) chosen"

definition fuzzy_run ::
    "similarity \<Rightarrow> string \<Rightarrow> blocking_config \<Rightarrow> int \<Rightarrow> matching_config \<Rightarrow> txn list \<Rightarrow> txn list \<Rightarrow> db \<Rightarrow> (fuzzy_outcome \<times> db) res" where
  "fuzzy_run sim run_id bcfg tol cfg ints exts db =
     (case candidate_generator ints bcfg of
        Inl err \<Rightarrow> Inl err
      | Inr g \<Rightarrow>
          (case fuzzy_choose sim tol cfg g (rejected_pairs db (map t_id ints)) exts [] of
             Inl err \<Rightarrow> Inl err
           | Inr chosen \<Rightarrow> fuzzy_chunks (chunked write_chunk_size (fuzzy_rows run_id chosen)) (no_fuzzy, db)))"

section \<open>The rows chosen\<close>

lemma best_candidate_facts:
  assumes "best_candidate sim tol cfg e xs = Some best"
  shows "\<exists>i \<in> set xs. best = score_candidate sim tol cfg i e \<and> sd_decision best \<noteq> NO_MATCH
    \<and> (\<forall>j \<in> set xs. sd_decision (score_candidate sim tol cfg j e) \<noteq> NO_MATCH
          \<longrightarrow> sd_confidence (score_candidate sim tol cfg j e) \<le> sd_confidence best)"
  using first_max_in[OF assms[unfolded best_candidate_def]] first_max_ge[OF assms[unfolded best_candidate_def]]
  by auto

lemma score_candidate_txns [simp]:
  "sd_internal (score_candidate sim tol cfg i e) = i" "sd_external (score_candidate sim tol cfg i e) = e"
  by (simp_all add: score_candidate_def Let_def)

text \<open>A chosen pair, and the whole choice.\<close>

definition good_choice :: "(nat \<times> nat) list \<Rightarrow> txn list \<Rightarrow> txn list \<Rightarrow> chosen \<Rightarrow> bool" where
  "good_choice rejected ints exts c =
     (case c of (best, e, n) \<Rightarrow>
        sd_internal best \<in> set ints \<and> sd_external best = e \<and> e \<in> set exts
        \<and> (t_id (sd_internal best), t_id e) \<notin> set rejected \<and> sd_decision best \<noteq> NO_MATCH)"

lemma fuzzy_choose_good:
  assumes "candidate_generator ints bcfg = Inr g"
  shows "\<lbrakk>fuzzy_choose sim tol cfg g rejected es consumed = Inr chosen; set es \<subseteq> set exts\<rbrakk> \<Longrightarrow>
     (\<forall>c \<in> set chosen. good_choice rejected ints exts c)
     \<and> distinct (map (\<lambda>c. t_id (sd_internal (fst c))) chosen)
     \<and> (\<forall>c \<in> set chosen. t_id (sd_internal (fst c)) \<notin> set consumed)
     \<and> subseq (map (\<lambda>c. fst (snd c)) chosen) es"
proof (induction es arbitrary: consumed chosen)
  case (Cons e es)
  obtain cs where g: "generate g e = Inr cs" using Cons.prems(1) by (auto split: sum.splits)
  let ?av = "filter (\<lambda>c. t_id c \<notin> set consumed \<and> (t_id c, t_id e) \<notin> set rejected) (cs_candidates cs)"
  have sub: "set es \<subseteq> set exts" "e \<in> set exts" using Cons.prems(2) by auto
  show ?case
  proof (cases "best_candidate sim tol cfg e ?av")
    case None
    then have "fuzzy_choose sim tol cfg g rejected es consumed = Inr chosen" using Cons.prems(1) g by simp
    then show ?thesis using Cons.IH[of consumed chosen] sub by (auto intro: list_emb_Cons)
  next
    case (Some best)
    obtain i where i: "i \<in> set ?av" "best = score_candidate sim tol cfg i e" "sd_decision best \<noteq> NO_MATCH"
      using best_candidate_facts[OF Some] by blast
    obtain rest where r: "fuzzy_choose sim tol cfg g rejected es (t_id (sd_internal best) # consumed) = Inr rest"
      and c: "chosen = (best, e, length ?av) # rest"
      using Cons.prems(1) g Some i(3) by (auto split: sum.splits)
    note ih = Cons.IH[OF r sub(1)]
    have si: "sd_internal best = i" "sd_external best = e" using i(2) by simp_all
    have "i \<in> set ints" using i(1) generate_in[OF assms g] by simp
    then have "good_choice rejected ints exts (best, e, length ?av)"
      using i(1,3) sub(2) by (simp add: good_choice_def si)
    moreover have "t_id i \<notin> set consumed" using i(1) by simp
    ultimately show ?thesis using ih unfolding c by (auto simp: si)
  qed
qed simp

lemma fuzzy_rows_good:
  assumes "\<forall>c \<in> set chosen. good_choice rejected ints exts c"
  shows "\<forall>row \<in> set (fuzzy_rows run_id chosen).
     pair_row (r_internal row) (r_external row) (r_status row = AUTO_MATCHED) row
     \<and> (\<exists>c \<in> set chosen. r_internal row = t_id (sd_internal (fst c)) \<and> r_external row = t_id (fst (snd c))
          \<and> (r_status row = AUTO_MATCHED \<longleftrightarrow> sd_decision (fst c) = AUTO_MATCH)
          \<and> r_confidence row = sd_confidence (fst c))"
proof
  fix row assume "row \<in> set (fuzzy_rows run_id chosen)"
  then obtain best e n where c: "(best, e, n) \<in> set chosen" "row = match_columns run_id best n"
    by (auto simp: fuzzy_rows_def)
  have e: "sd_external best = e" using assms c(1) by (auto simp: good_choice_def)
  have "pair_row (r_internal row) (r_external row) (r_status row = AUTO_MATCHED) row"
    by (simp add: c(2) match_columns_def pair_row_def live_def settled_def)
  moreover have "r_internal row = t_id (sd_internal best)" "r_external row = t_id e"
    "r_status row = AUTO_MATCHED \<longleftrightarrow> sd_decision best = AUTO_MATCH" "r_confidence row = sd_confidence best"
    by (simp_all add: c(2) match_columns_def e)
  ultimately show "pair_row (r_internal row) (r_external row) (r_status row = AUTO_MATCHED) row
     \<and> (\<exists>c \<in> set chosen. r_internal row = t_id (sd_internal (fst c)) \<and> r_external row = t_id (fst (snd c))
          \<and> (r_status row = AUTO_MATCHED \<longleftrightarrow> sd_decision (fst c) = AUTO_MATCH)
          \<and> r_confidence row = sd_confidence (fst c))"
    using c(1) by (intro conjI bexI[of _ "(best, e, n)"]) simp_all
qed

section \<open>Writing pair by pair\<close>

definition mark_row :: "result \<Rightarrow> nat option \<Rightarrow> db \<Rightarrow> db" where
  "mark_row row x db =
     (if x \<noteq> None \<and> r_status row = AUTO_MATCHED then set_status [r_internal row, r_external row] MATCHED db else db)"

lemma note_row_db: "snd (note_row row x (out, db)) = mark_row row x db"
  by (simp add: note_row_def mark_row_def split: option.splits)

lemma set_status_simps [simp]:
  "claims (set_status ids st db) = claims db" "results (set_status ids st db) = results db"
  "next_id (set_status ids st db) = next_id db" "audit_log (set_status ids st db) = audit_log db"
  by (simp_all add: set_status_def)

lemma record_pair_status:
  "record_pair i e r False (set_status ids st db)
   = (case record_pair i e r False db of Inl err \<Rightarrow> Inl err | Inr (x, db1) \<Rightarrow> Inr (x, set_status ids st db1))"
  by (simp add: record_pair_def claim_pair_def insert_claims_def add_result_def finalise_def set_status_def Let_def)

lemma record_pair_marked:
  "record_pair i e r m db
   = (case record_pair i e r False db of Inl err \<Rightarrow> Inl err
      | Inr (x, db1) \<Rightarrow> Inr (x, if m \<and> x \<noteq> None then set_status [i, e] MATCHED db1 else db1))"
  by (simp add: record_pair_def Let_def split: sum.splits prod.splits)

lemma write_each_status:
  "write_each rows (set_status ids st db)
   = (case write_each rows db of Inl err \<Rightarrow> Inl err | Inr (xs, db1) \<Rightarrow> Inr (xs, set_status ids st db1))"
proof (induction rows arbitrary: db)
  case (Cons row rows)
  show ?case
    using Cons by (simp add: write_one_def record_pair_status split: sum.splits prod.splits)
qed simp

lemma write_each_marked:
  assumes "write_each (row # rows) db = Inr (xs, db2)"
  shows "\<exists>x ys db1. xs = x # ys
     \<and> record_pair (r_internal row) (r_external row) row (r_status row = AUTO_MATCHED) db = Inr (x, mark_row row x db1)
     \<and> write_each rows (mark_row row x db1) = Inr (ys, mark_row row x db2)"
proof -
  obtain x db1 ys where o: "record_pair (r_internal row) (r_external row) row False db = Inr (x, db1)"
    "write_each rows db1 = Inr (ys, db2)" "xs = x # ys"
    using assms by (auto simp: write_one_def split: sum.splits)
  have "write_each rows (mark_row row x db1) = Inr (ys, mark_row row x db2)"
    using o(2) by (simp add: mark_row_def write_each_status)
  moreover have "record_pair (r_internal row) (r_external row) row (r_status row = AUTO_MATCHED) db = Inr (x, mark_row row x db1)"
    by (subst record_pair_marked) (auto simp: o(1) mark_row_def)
  ultimately show ?thesis using o(3) by blast
qed

definition fuzzy_row_ok :: "(nat \<times> nat \<Rightarrow> bool) \<Rightarrow> result \<Rightarrow> bool" where
  "fuzzy_row_ok P row =
     (pair_row (r_internal row) (r_external row) (r_status row = AUTO_MATCHED) row \<and> P (r_internal row, r_external row))"

lemma write_each_length: "write_each rows db = Inr (xs, db') \<Longrightarrow> length xs = length rows"
  by (induction rows arbitrary: db xs) (auto split: sum.splits)

lemma write_each_keeps:
  "\<lbrakk>write_each rows db = Inr (xs, db1); ledger_ok db; \<forall>row \<in> set rows. fuzzy_row_ok P row\<rbrakk> \<Longrightarrow>
   ledger_ok (snd (note_rows rows xs (out, db1))) \<and> grows P db (snd (note_rows rows xs (out, db1)))"
proof (induction rows arbitrary: db xs db1 out)
  case (Cons row rows)
  obtain x ys dbx where o: "xs = x # ys"
    "record_pair (r_internal row) (r_external row) row (r_status row = AUTO_MATCHED) db = Inr (x, mark_row row x dbx)"
    "write_each rows (mark_row row x dbx) = Inr (ys, mark_row row x db1)"
    using write_each_marked[OF Cons.prems(1)] by blast
  have r: "pair_row (r_internal row) (r_external row) (r_status row = AUTO_MATCHED) row" "P (r_internal row, r_external row)"
    using Cons.prems(3) by (simp_all add: fuzzy_row_ok_def)
  note s = record_pair_step[where P=P, OF o(2) Cons.prems(2) r]
  obtain out' where n: "note_row row x (out, db1) = (out', mark_row row x db1)"
    using note_row_db[of row x out db1] by (metis prod.collapse)
  have "ledger_ok (snd (note_rows rows ys (out', mark_row row x db1)))
      \<and> grows P (mark_row row x dbx) (snd (note_rows rows ys (out', mark_row row x db1)))"
    using Cons.IH[OF o(3)] s Cons.prems(3) by simp
  then show ?case using s grows_trans unfolding o(1) by (auto simp: n)
qed simp

section \<open>Writing a chunk\<close>

lemma chunk_results_nth: "k < length rows \<Longrightarrow> chunk_results n rows ! k = (rows ! k)\<lparr>r_id := n + k\<rparr>"
  by (simp add: chunk_results_def)

lemma chunk_results_length [simp]: "length (chunk_results n rows) = length rows"
  by (simp add: chunk_results_def)

lemma chunk_results_Cons: "chunk_results n (r # rows) = r\<lparr>r_id := n\<rparr> # chunk_results (n + 1) rows"
proof -
  have "[0..<Suc (length rows)] = 0 # map Suc [0..<length rows]" by (simp add: upt_conv_Cons map_Suc_upt del: upt_Suc)
  then show ?thesis by (simp add: chunk_results_def zip_map1 case_prod_beta' comp_def)
qed

lemma chunk_results_Nil [simp]: "chunk_results n [] = []"
  by (simp add: chunk_results_def)

lemma chunk_results_ids: "map r_id (chunk_results n rows) = [n..<n + length rows]"
  by (rule nth_equalityI) (simp_all add: chunk_results_nth)

lemma chunk_results_in: "r \<in> set (chunk_results n rows) \<longleftrightarrow> (\<exists>k < length rows. r = (rows ! k)\<lparr>r_id := n + k\<rparr>)"
  by (auto simp: in_set_conv_nth chunk_results_nth)

lemma chunk_claims_active: "active_txns (chunk_claims k rs) = concat (map (\<lambda>r. [r_internal r, r_external r]) rs)"
  by (induction k rs rule: chunk_claims.induct) (simp_all add: active_txns_def)

lemma chunk_claims_ids: "map c_id (chunk_claims k rs) = [k..<k + 2 * length rs]"
  by (induction k rs rule: chunk_claims.induct) (simp_all add: upt_conv_Cons del: upt_Suc)

lemma chunk_claims_in:
  "c \<in> set (chunk_claims k rs) \<Longrightarrow> c_active c \<and> (\<exists>r \<in> set rs. c_result c = Some (r_id r) \<and> c_txn c \<in> sides r)"
  by (induction k rs rule: chunk_claims.induct) (auto simp: sides_def)

lemma chunk_claims_cover:
  "\<lbrakk>r \<in> set rs; t \<in> sides r\<rbrakk> \<Longrightarrow> \<exists>c \<in> set (chunk_claims k rs). c_txn c = t \<and> c_result c = Some (r_id r)"
  by (induction k rs rule: chunk_claims.induct) (auto simp: sides_def)

definition mark_rows :: "result list \<Rightarrow> db \<Rightarrow> db" where
  "mark_rows rows db = db\<lparr>txns := map (mark_matched (settled_ids rows)) (txns db)\<rparr>"

lemma note_rows_all:
  "\<lbrakk>length ids = length rows; \<forall>row \<in> set rows. r_status row = AUTO_MATCHED \<longleftrightarrow> settled row\<rbrakk> \<Longrightarrow>
   snd (note_rows rows (map Some ids) (out, db)) = mark_rows rows db"
proof (induction rows arbitrary: ids out db)
  case Nil then show ?case by (simp add: mark_rows_def settled_ids_def mark_matched_empty)
next
  case (Cons row rows)
  obtain k ks where ids: "ids = k # ks" using Cons.prems(1) by (cases ids) auto
  obtain out' where n: "note_row row (Some k) (out, db) = (out', mark_row row (Some k) db)"
    using note_row_db[of row "Some k" out db] by (metis prod.collapse)
  have m: "mark_row row (Some k) db = db\<lparr>txns := map (mark_matched (settled_ids [row])) (txns db)\<rparr>"
    using Cons.prems(2) by (auto simp: mark_row_def settled_ids_def set_status_def sides_def mark_matched_def mark_matched_empty)
  have "settled_ids (row # rows) = settled_ids [row] \<union> settled_ids rows" by (auto simp: settled_ids_def)
  then show ?case
    using Cons.IH[of ks out' "mark_row row (Some k) db"] Cons.prems
    by (simp add: ids n m mark_rows_def mark_matched_twice del: map_map)
qed

lemma write_chunk_writes:
  assumes w: "write_chunk rows db = Some (ids, db1)" and ok: "\<forall>row \<in> set rows. fuzzy_row_ok P row"
  shows "writes db (chunk_results (next_id db) rows)
       (chunk_claims (next_id db + length rows) (chunk_results (next_id db) rows)) (mark_rows rows db1)
     \<and> audit_log (mark_rows rows db1) = audit_log db"
proof -
  let ?rs = "chunk_results (next_id db) rows" and ?cs = "chunk_claims (next_id db + length rows) (chunk_results (next_id db) rows)"
  have u: "claims_unique (claims db @ ?cs)" and db1: "db1 = db\<lparr>results := results db @ ?rs, claims := claims db @ ?cs,
      next_id := next_id db + 3 * length rows\<rparr>"
    using w by (auto simp: write_chunk_def Let_def split: if_splits)
  have s: "settled_ids ?rs = settled_ids rows"
  proof -
    have "settled_ids ?rs = (\<Union>k \<in> {k. k < length rows \<and> settled (rows ! k)}. sides (rows ! k))"
      by (auto simp: settled_ids_def chunk_results_in settled_def sides_def)
    also have "\<dots> = settled_ids rows" by (auto simp: settled_ids_def in_set_conv_nth)
    finally show ?thesis .
  qed
  have r: "next_id db \<le> r_id r \<and> r_id r < next_id db + 3 * length rows \<and> r_group r = None \<and> live r"
    if "r \<in> set ?rs" for r
    using that ok by (auto simp: chunk_results_in fuzzy_row_ok_def pair_row_def live_def)
  have c: "next_id db \<le> c_id c \<and> c_id c < next_id db + 3 * length rows" if "c \<in> set ?cs" for c
  proof -
    have "c_id c \<in> set (map c_id ?cs)" using that by simp
    then show ?thesis unfolding chunk_claims_ids by auto
  qed
  have dr: "distinct (map r_id ?rs)" "distinct (map c_id ?cs)" unfolding chunk_results_ids chunk_claims_ids by simp_all
  have rr: "\<forall>r \<in> set ?rs. next_id db \<le> r_id r \<and> r_id r < next_id db + 3 * length rows
       \<and> (\<forall>g. r_group r = Some g \<longrightarrow> next_id db \<le> g \<and> g < next_id db + 3 * length rows)
       \<and> live r \<and> (r_group r \<noteq> None \<longrightarrow> r_status r \<noteq> PENDING_REVIEW)" using r by auto
  have cc: "\<forall>c \<in> set ?cs. next_id db \<le> c_id c \<and> c_id c < next_id db + 3 * length rows \<and> c_active c
       \<and> (\<exists>r \<in> set ?rs. c_result c = Some (r_id r) \<and> c_txn c \<in> sides r)" using c chunk_claims_in by blast
  have cov: "\<forall>r \<in> set ?rs. \<forall>t \<in> sides r. \<exists>c \<in> set ?cs. c_txn c = t
       \<and> (\<exists>r' \<in> set ?rs. c_result c = Some (r_id r') \<and> match_key r' = match_key r)"
    using chunk_claims_cover by metis
  have act: "distinct (active_txns (claims db @ ?cs))" using u by (simp only: claims_unique_def)
  have cols: "results (mark_rows rows db1) = results db @ ?rs" "claims (mark_rows rows db1) = claims db @ ?cs"
    "txns (mark_rows rows db1) = map (mark_matched (settled_ids ?rs)) (txns db)"
    "next_id (mark_rows rows db1) = next_id db + 3 * length rows" "audit_log (mark_rows rows db1) = audit_log db"
    by (simp_all add: mark_rows_def db1 s)
  show ?thesis unfolding writes_def cols using dr rr cc cov act by (intro conjI) (simp_all only: le_add1 refl)
qed

lemma fuzzy_chunk_keeps:
  assumes "fuzzy_chunk rows (out, db) = Inr s" "ledger_ok db" "\<forall>row \<in> set rows. fuzzy_row_ok P row"
  shows "ledger_ok (snd s) \<and> grows P db (snd s)"
proof (cases "write_chunk rows db")
  case None
  then obtain xs db1 where "write_each rows db = Inr (xs, db1)" "s = note_rows rows xs (out, db1)"
    using assms(1) by (auto simp: fuzzy_chunk_def split: sum.splits)
  then show ?thesis using write_each_keeps[OF _ assms(2,3)] by blast
next
  case (Some p)
  obtain ids db1 where p: "p = (ids, db1)" by (cases p)
  note w = write_chunk_writes[OF Some[unfolded p] assms(3)]
  have l: "length ids = length rows" using Some p by (auto simp: write_chunk_def Let_def split: if_splits)
  have st: "\<forall>row \<in> set rows. r_status row = AUTO_MATCHED \<longleftrightarrow> settled row"
    using assms(3) by (simp add: fuzzy_row_ok_def pair_row_def)
  have "s = note_rows rows (map Some ids) (out, db1)" using assms(1) Some p by (simp add: fuzzy_chunk_def)
  then have s: "snd s = mark_rows rows db1" using note_rows_all[OF l st] by simp
  have "P (r_internal r, r_external r)" if "r \<in> set (chunk_results (next_id db) rows)" for r
    using that assms(3) by (auto simp: chunk_results_in fuzzy_row_ok_def)
  then have "grows P db (snd s)" unfolding s by (intro writes_grows[OF conjunct1[OF w], of "[]"]) (use w in simp_all)
  moreover have "ledger_ok (snd s)" unfolding s using w writes_ok assms(2) by blast
  ultimately show ?thesis by blast
qed

lemma fuzzy_chunks_keeps:
  "\<lbrakk>fuzzy_chunks cs s = Inr s'; ledger_ok (snd s); \<forall>c \<in> set cs. \<forall>row \<in> set c. fuzzy_row_ok P row\<rbrakk> \<Longrightarrow>
   ledger_ok (snd s') \<and> grows P (snd s) (snd s')"
proof (induction cs arbitrary: s)
  case (Cons c cs)
  obtain s1 where c: "fuzzy_chunk c s = Inr s1" "fuzzy_chunks cs s1 = Inr s'"
    using Cons.prems(1) by (auto split: sum.splits)
  have "ledger_ok (snd s1) \<and> grows P (snd s) (snd s1)"
    using fuzzy_chunk_keeps[of c "fst s" "snd s" s1 P] c(1) Cons.prems(2,3) by simp
  then show ?case using Cons.IH[OF c(2)] Cons.prems(3) grows_trans by fastforce
qed simp

lemma chunked_concat: "0 < n \<Longrightarrow> concat (chunked n xs) = xs"
proof (induction n xs rule: chunked.induct)
  case (1 n xs)
  then show ?case by (cases "xs = []") (simp_all add: chunked.simps)
qed

lemma chunk_size_pos: "0 < write_chunk_size"
  by (simp add: write_chunk_size_def)

lemma fuzzy_run_shape:
  assumes "fuzzy_run sim run_id bcfg tol cfg ints exts db = Inr (out, db')"
  shows "\<exists>g chosen. candidate_generator ints bcfg = Inr g
     \<and> fuzzy_choose sim tol cfg g (rejected_pairs db (map t_id ints)) exts [] = Inr chosen
     \<and> fuzzy_chunks (chunked write_chunk_size (fuzzy_rows run_id chosen)) (no_fuzzy, db) = Inr (out, db')"
  using assms by (auto simp: fuzzy_run_def split: sum.splits)

lemma fuzzy_run_keeps:
  assumes run: "fuzzy_run sim run_id bcfg tol cfg ints exts db = Inr (out, db')" and ok: "ledger_ok db"
  shows "ledger_ok db' \<and> grows (stage_pair db ints exts) db db'"
proof -
  obtain g chosen where g: "candidate_generator ints bcfg = Inr g"
    and c: "fuzzy_choose sim tol cfg g (rejected_pairs db (map t_id ints)) exts [] = Inr chosen"
    and w: "fuzzy_chunks (chunked write_chunk_size (fuzzy_rows run_id chosen)) (no_fuzzy, db) = Inr (out, db')"
    using fuzzy_run_shape[OF run] by blast
  have good: "\<forall>c \<in> set chosen. good_choice (rejected_pairs db (map t_id ints)) ints exts c"
    using fuzzy_choose_good[OF g c order_refl] by blast
  have rows: "fuzzy_row_ok (stage_pair db ints exts) row" if m: "row \<in> set (fuzzy_rows run_id chosen)" for row
  proof -
    obtain c where c: "c \<in> set chosen" "r_internal row = t_id (sd_internal (fst c))" "r_external row = t_id (fst (snd c))"
      and p: "pair_row (r_internal row) (r_external row) (r_status row = AUTO_MATCHED) row"
      using fuzzy_rows_good[OF good, rule_format, OF m] by blast
    have "good_choice (rejected_pairs db (map t_id ints)) ints exts c" using good c(1) by blast
    then have "stage_pair db ints exts (r_internal row, r_external row)"
      unfolding c(2,3) by (auto simp: good_choice_def stage_pair_def split: prod.splits)
    then show ?thesis using p by (simp add: fuzzy_row_ok_def)
  qed
  have "\<forall>c \<in> set (chunked write_chunk_size (fuzzy_rows run_id chosen)). \<forall>row \<in> set c. fuzzy_row_ok (stage_pair db ints exts) row"
    using rows chunked_concat[OF chunk_size_pos, of "fuzzy_rows run_id chosen"] by (metis UN_I set_concat)
  then show ?thesis using fuzzy_chunks_keeps[OF w] ok by simp
qed

interpretation fuzzy_stage: matching_stage "fuzzy_run sim run_id bcfg tol cfg"
  by unfold_locales (use fuzzy_run_keeps in blast)+

section \<open>Chunks and single pairs write the same rows\<close>

definition row_ids :: "result list \<Rightarrow> nat list" where
  "row_ids rows = concat (map (\<lambda>r. [r_internal r, r_external r]) rows)"

lemma row_ids_simps [simp]: "row_ids [] = []" "row_ids (r # rs) = r_internal r # r_external r # row_ids rs"
  by (simp_all add: row_ids_def)

text \<open>A state up to the ids given out.\<close>

definition content :: "db \<Rightarrow> result list \<times> (nat \<times> side \<times> bool) list \<times> txn list" where
  "content db = (map (\<lambda>r. r\<lparr>r_id := 0\<rparr>) (results db), map (\<lambda>c. (c_txn c, c_role c, c_active c)) (claims db), txns db)"

definition added :: "result list \<Rightarrow> db \<Rightarrow> result list \<times> (nat \<times> side \<times> bool) list \<times> txn list" where
  "added rows db =
     (map (\<lambda>r. r\<lparr>r_id := 0\<rparr>) (results db @ rows),
      map (\<lambda>c. (c_txn c, c_role c, c_active c)) (claims db)
        @ concat (map (\<lambda>r. [(r_internal r, INTERNAL, True), (r_external r, EXTERNAL, True)]) rows),
      map (mark_matched (settled_ids rows)) (txns db))"

definition counts :: "fuzzy_outcome \<Rightarrow> nat \<times> nat \<times> nat" where
  "counts out = (fz_auto out, fz_review out, fz_conflicts out)"

lemma note_rows_counts:
  "\<lbrakk>length xs = length rows; \<forall>x \<in> set xs. x \<noteq> None\<rbrakk> \<Longrightarrow>
   counts (fst (note_rows rows xs (out, db))) =
     (fz_auto out + length (filter (\<lambda>r. r_status r = AUTO_MATCHED) rows),
      fz_review out + length (filter (\<lambda>r. r_status r \<noteq> AUTO_MATCHED) rows), fz_conflicts out)"
proof (induction rows arbitrary: xs out db)
  case (Cons row rows)
  then obtain k ys where xs: "xs = Some k # ys" by (cases xs) auto
  obtain out' db' where n: "note_row row (Some k) (out, db) = (out', db')" by fastforce
  have "counts out' = (if r_status row = AUTO_MATCHED then (fz_auto out + 1, fz_review out, fz_conflicts out)
      else (fz_auto out, fz_review out + 1, fz_conflicts out))"
    using n by (auto simp: note_row_def counts_def split: if_splits)
  then show ?case using Cons.IH[of ys out' db'] Cons.prems by (auto simp: xs n counts_def split: if_splits)
qed (simp add: counts_def)

lemma record_pair_free:
  assumes "ledger_ok db" "result_row_ok r" "distinct (active_txns (claims db) @ [i, e])"
  shows "\<exists>rid db'. record_pair i e r m db = Inr (Some rid, db')"
proof -
  have u: "claims_unique (claims db)" using assms(1) by (simp add: ledger_ok_def claims_ok_def)
  have "claims_unique (claims db @ claim_rows (next_id db) [(i, INTERNAL), (e, EXTERNAL)])"
    using u assms(3) by (simp add: claims_unique_def active_txns_append) (simp add: active_txns_def)
  then show ?thesis using assms(2)
    by (simp add: record_pair_def claim_pair_def insert_claims_def add_result_def Let_def)
qed

lemma write_each_free:
  "\<lbrakk>ledger_ok db; \<forall>row \<in> set rows. fuzzy_row_ok P row \<and> result_row_ok row;
    distinct (active_txns (claims db) @ row_ids rows)\<rbrakk> \<Longrightarrow>
   \<exists>xs db1. write_each rows db = Inr (xs, db1) \<and> (\<forall>x \<in> set xs. x \<noteq> None)
     \<and> (\<forall>out. content (snd (note_rows rows xs (out, db1))) = added rows db)"
proof (induction rows arbitrary: db)
  case Nil
  show ?case by (simp add: content_def added_def settled_ids_def mark_matched_empty)
next
  case (Cons row rows)
  let ?i = "r_internal row" and ?e = "r_external row" and ?m = "r_status row = AUTO_MATCHED"
  have rok: "result_row_ok row" and pr: "pair_row ?i ?e ?m row" "P (?i, ?e)"
    using Cons.prems(2) by (simp_all add: fuzzy_row_ok_def)
  obtain rid dbm where rp: "record_pair ?i ?e row ?m db = Inr (Some rid, dbm)"
    using record_pair_free[OF Cons.prems(1) rok, of ?i ?e ?m] Cons.prems(3) by auto
  obtain dbx where rx: "record_pair ?i ?e row False db = Inr (Some rid, dbx)" and dbm: "dbm = mark_row row (Some rid) dbx"
    using rp by (subst (asm) record_pair_marked) (auto simp: mark_row_def split: sum.splits)
  note sh = record_pair_shape[OF rp ledger_ids[OF Cons.prems(1)]]
  have ok: "ledger_ok dbm" using record_pair_step[where P=P, OF rp Cons.prems(1) pr] by blast
  have act: "active_txns (claims dbm) = active_txns (claims db) @ [?i, ?e]"
    using sh by (simp add: active_txns_def pair_claims_def)
  have "distinct (active_txns (claims dbm) @ row_ids rows)" using Cons.prems(3) unfolding act by simp
  then obtain ys dbz where w: "write_each rows dbm = Inr (ys, dbz)" and some: "\<forall>x \<in> set ys. x \<noteq> None"
    and fin: "\<forall>out. content (snd (note_rows rows ys (out, dbz))) = added rows dbm"
    using Cons.IH[OF ok] Cons.prems(2) by auto
  obtain dby where wy: "write_each rows dbx = Inr (ys, dby)" and dbz: "dbz = mark_row row (Some rid) dby"
    using w unfolding dbm by (auto simp: mark_row_def write_each_status split: if_splits sum.splits)
  have e: "write_each (row # rows) db = Inr (Some rid # ys, dby)" using rx wy by (simp add: write_one_def)
  have "settled_ids (row # rows) = (if ?m then {?i, ?e} else {}) \<union> settled_ids rows"
    using pr(1) by (auto simp: settled_ids_def pair_row_def sides_def)
  then have ad: "added rows dbm = added (row # rows) db"
    using sh by (auto simp: added_def pair_claims_def mark_matched_twice simp del: map_map)
  have "content (snd (note_rows (row # rows) (Some rid # ys) (out, dby))) = added (row # rows) db" for out
  proof -
    obtain out' where "note_row row (Some rid) (out, dby) = (out', dbz)"
      unfolding dbz using note_row_db[of row "Some rid" out dby] by (metis prod.collapse)
    then show ?thesis using fin ad by simp
  qed
  then show ?case using e some by (intro exI[of _ "Some rid # ys"] exI[of _ dby]) simp
qed

lemma write_chunk_free:
  assumes ok: "ledger_ok db" and rows: "\<forall>row \<in> set rows. fuzzy_row_ok P row \<and> result_row_ok row"
    and d: "distinct (active_txns (claims db) @ row_ids rows)"
  shows "\<exists>ids db1. write_chunk rows db = Some (ids, db1) \<and> length ids = length rows \<and> content (mark_rows rows db1) = added rows db"
proof -
  let ?rs = "chunk_results (next_id db) rows"
  let ?cs = "chunk_claims (next_id db + length rows) ?rs"
  have rid: "map (\<lambda>r. [r_internal r, r_external r]) ?rs = map (\<lambda>r. [r_internal r, r_external r]) rows"
    by (rule nth_equalityI) (simp_all add: chunk_results_nth)
  have act: "active_txns ?cs = row_ids rows" unfolding chunk_claims_active row_ids_def rid ..
  have u: "claims_unique (claims db)" and ids: "ids_ok db" using ok by (simp_all add: ledger_ok_def claims_ok_def)
  have fresh: "next_id db \<le> k" if "c \<in> set ?cs" "c_result c = Some k" for c k
    using chunk_claims_in[OF that(1)] that(2) by (auto simp: chunk_results_in)
  have old: "k < next_id db" if "c \<in> set (claims db)" "c_result c = Some k" for c k
    using ids that unfolding ids_ok_def by blast
  have "distinct (map (\<lambda>c. (c_txn c, c_result c)) (filter (\<lambda>c. c_result c \<noteq> None) ?cs))"
    by (rule distinct_attached) (use d act chunk_claims_in in auto)
  moreover have "(\<lambda>c. (c_txn c, c_result c)) ` set (filter (\<lambda>c. c_result c \<noteq> None) (claims db))
      \<inter> (\<lambda>c. (c_txn c, c_result c)) ` set (filter (\<lambda>c. c_result c \<noteq> None) ?cs) = {}"
    using fresh old by fastforce
  ultimately have "claims_unique (claims db @ ?cs)"
    using u d act by (simp add: claims_unique_def active_txns_append)
  moreover have "list_all result_row_ok ?rs"
    using rows by (auto simp: list_all_iff chunk_results_in result_row_ok_def)
  ultimately obtain db1 where w: "write_chunk rows db = Some (map r_id ?rs, db1)"
    and db1: "db1 = db\<lparr>results := results db @ ?rs, claims := claims db @ ?cs, next_id := next_id db + 3 * length rows\<rparr>"
    by (simp add: write_chunk_def Let_def)
  have c1: "map (\<lambda>r. r\<lparr>r_id := 0\<rparr>) ?rs = map (\<lambda>r. r\<lparr>r_id := 0\<rparr>) rows"
    by (rule nth_equalityI) (simp_all add: chunk_results_nth)
  have c2: "map (\<lambda>c. (c_txn c, c_role c, c_active c)) (chunk_claims k rs)
      = concat (map (\<lambda>r. [(r_internal r, INTERNAL, True), (r_external r, EXTERNAL, True)]) rs)" for k rs
    by (induction k rs rule: chunk_claims.induct) simp_all
  have c3: "map (\<lambda>r. [(r_internal r, INTERNAL, True), (r_external r, EXTERNAL, True)]) ?rs
      = map (\<lambda>r. [(r_internal r, INTERNAL, True), (r_external r, EXTERNAL, True)]) rows"
    by (rule nth_equalityI) (simp_all add: chunk_results_nth)
  have "content (mark_rows rows db1) = added rows db"
    by (simp add: content_def added_def mark_rows_def db1 c1 c2 c3 del: map_map)
  moreover have "length (map r_id ?rs) = length rows" by simp
  ultimately show ?thesis using w by blast
qed

lemma write_chunk_refused:
  assumes ok: "ledger_ok db" and w: "write_chunk rows db = Some (ids, db1)"
  shows "(\<forall>row \<in> set rows. result_row_ok row) \<and> distinct (active_txns (claims db) @ row_ids rows)"
proof -
  let ?rs = "chunk_results (next_id db) rows"
  have a: "list_all result_row_ok ?rs" "claims_unique (claims db @ chunk_claims (next_id db + length rows) ?rs)"
    using w by (auto simp: write_chunk_def Let_def split: if_splits)
  have rid: "map (\<lambda>r. [r_internal r, r_external r]) ?rs = map (\<lambda>r. [r_internal r, r_external r]) rows"
    by (rule nth_equalityI) (simp_all add: chunk_results_nth)
  have "active_txns (chunk_claims (next_id db + length rows) ?rs) = row_ids rows"
    unfolding chunk_claims_active row_ids_def rid ..
  then have "distinct (active_txns (claims db) @ row_ids rows)"
    using a(2) by (simp add: claims_unique_def active_txns_append)
  moreover have "result_row_ok row" if m: "row \<in> set rows" for row
  proof -
    obtain k where k: "k < length rows" "rows ! k = row" using m unfolding in_set_conv_nth by blast
    then have "row\<lparr>r_id := next_id db + k\<rparr> \<in> set ?rs" unfolding chunk_results_in by blast
    then have "result_row_ok (row\<lparr>r_id := next_id db + k\<rparr>)" using a(1) unfolding list_all_iff by blast
    then show ?thesis by (simp add: result_row_ok_def)
  qed
  ultimately show ?thesis by blast
qed

definition fuzzy_pairwise :: "result list \<Rightarrow> fuzzy_outcome \<times> db \<Rightarrow> (fuzzy_outcome \<times> db) res" where
  "fuzzy_pairwise rows s =
     (case write_each rows (snd s) of Inl err \<Rightarrow> Inl err | Inr (xs, db1) \<Rightarrow> Inr (note_rows rows xs (fst s, db1)))"

section \<open>Properties\<close>

text \<open>Writing in chunks changes nothing but the ids: one chunk, with its
  savepoint and its fallback, and the pair-by-pair writes it replaces either
  raise the same error or end with the same results, claims, statuses and
  counts.\<close>

theorem fuzzy_chunk_pairwise:
  assumes "ledger_ok db" "\<forall>row \<in> set rows. pair_row (r_internal row) (r_external row) (r_status row = AUTO_MATCHED) row"
  shows "case (fuzzy_chunk rows (out, db), fuzzy_pairwise rows (out, db)) of
      (Inr (o1, d1), Inr (o2, d2)) \<Rightarrow> content d1 = content d2 \<and> counts o1 = counts o2
    | (Inl e1, Inl e2) \<Rightarrow> e1 = e2
    | _ \<Rightarrow> False"
proof (cases "write_chunk rows db")
  case None
  then have "fuzzy_chunk rows (out, db) = fuzzy_pairwise rows (out, db)"
    by (simp add: fuzzy_chunk_def fuzzy_pairwise_def split: sum.splits)
  then show ?thesis by (simp split: sum.splits prod.splits)
next
  case (Some p)
  obtain ids db1 where p: "write_chunk rows db = Some (ids, db1)" using Some by (cases p) simp
  note free = write_chunk_refused[OF assms(1) p]
  have rows: "\<forall>row \<in> set rows. fuzzy_row_ok (\<lambda>_. True) row \<and> result_row_ok row"
    using assms(2) free by (simp add: fuzzy_row_ok_def)
  have st: "\<forall>row \<in> set rows. r_status row = AUTO_MATCHED \<longleftrightarrow> settled row"
    using assms(2) by (simp add: pair_row_def)
  obtain xs db2 where w: "write_each rows db = Inr (xs, db2)" and some: "\<forall>x \<in> set xs. x \<noteq> None"
    and c2: "content (snd (note_rows rows xs (out, db2))) = added rows db"
    using write_each_free[OF assms(1) rows conjunct2[OF free]] by blast
  have l: "length ids = length rows" and c1: "content (mark_rows rows db1) = added rows db"
    using write_chunk_free[OF assms(1) rows conjunct2[OF free]] p by auto
  have "content (snd (note_rows rows (map Some ids) (out, db1))) = added rows db"
    using note_rows_all[OF l st] c1 by simp
  moreover have "counts (fst (note_rows rows (map Some ids) (out, db1))) = counts (fst (note_rows rows xs (out, db2)))"
    using note_rows_counts[of "map Some ids" rows out db1] l
      note_rows_counts[OF write_each_length[OF w] some, of out db2] by simp
  ultimately show ?thesis
    using p w c2
    by (cases "note_rows rows (map Some ids) (out, db1)"; cases "note_rows rows xs (out, db2)")
       (simp add: fuzzy_chunk_def fuzzy_pairwise_def)
qed

definition sample_row :: result where
  "sample_row = \<lparr>r_id = 0, r_run = ''r'', r_type = FUZZY, r_status = AUTO_MATCHED, r_confidence = 9 / 10,
     r_internal = 1, r_external = 2, r_rule = None, r_group = None, r_candidates = 1, r_date = 11,
     r_reviewed_by = None, r_reviewed_at = None\<rparr>"

theorem fuzzy_chunk_pairwise_witness:
  "\<exists>o1 d1 o2 d2. fuzzy_chunk [sample_row] (no_fuzzy, sample_two) = Inr (o1, d1)
     \<and> fuzzy_pairwise [sample_row] (no_fuzzy, sample_two) = Inr (o2, d2)
     \<and> content d1 = content d2 \<and> counts o1 = counts o2"
proof -
  have r: "\<forall>row \<in> set [sample_row]. pair_row (r_internal row) (r_external row) (r_status row = AUTO_MATCHED) row"
    by (simp add: sample_row_def pair_row_def live_def settled_def)
  obtain o1 d1 where "fuzzy_chunk [sample_row] (no_fuzzy, sample_two) = Inr (o1, d1)"
    by (simp add: fuzzy_chunk_def write_chunk_def chunk_results_def sample_row_def result_row_ok_def
        claims_unique_def active_txns_def sample_two_def sample_db_def note_row_def Let_def)
  moreover obtain o2 d2 where "fuzzy_pairwise [sample_row] (no_fuzzy, sample_two) = Inr (o2, d2)"
    by (simp add: fuzzy_pairwise_def write_one_def record_pair_def claim_pair_def insert_claims_def add_result_def
        sample_row_def result_row_ok_def claims_unique_def active_txns_def sample_two_def sample_db_def note_row_def
        finalise_def Let_def)
  ultimately show ?thesis using fuzzy_chunk_pairwise[OF sample_two_ok r, of no_fuzzy] by auto
qed

text \<open>The fuzzy choice is one to one and never repeats a refusal: the pairs
  chosen for a pool come from the pool and share a gate and a block of
  candidates, no internal transaction is chosen twice, the external ones keep
  their order, no pair was rejected before, and each is the most confident of the
  candidates still available for its external transaction.\<close>

theorem fuzzy_choice_one_to_one:
  assumes "candidate_generator ints bcfg = Inr g"
    "fuzzy_choose sim tol cfg g rejected exts [] = Inr chosen"
  shows "distinct (map (\<lambda>c. t_id (sd_internal (fst c))) chosen)
     \<and> subseq (map (\<lambda>c. fst (snd c)) chosen) exts
     \<and> (\<forall>(best, e, n) \<in> set chosen. sd_internal best \<in> set ints \<and> sd_external best = e
          \<and> (t_id (sd_internal best), t_id e) \<notin> set rejected
          \<and> sd_decision best \<noteq> NO_MATCH)"
  using fuzzy_choose_good[OF assms order_refl] by (auto simp: good_choice_def)

definition sample_named :: "nat \<Rightarrow> side \<Rightarrow> txn" where
  "sample_named k src = (sample_txn k src 500 ''REF1'' 10)\<lparr>t_party := Some ''ACME''\<rparr>"

lemma sample_score:
  "sd_decision (score_candidate sample_similarity 0 shipped_config (sample_named 1 INTERNAL) (sample_named 2 EXTERNAL))
   = AUTO_MATCH"
  by code_simp

lemma sample_choice:
  "\<exists>g chosen. candidate_generator [sample_named 1 INTERNAL] sample_blocking = Inr g
     \<and> fuzzy_choose sample_similarity 0 shipped_config g [] [sample_named 2 EXTERNAL] [] = Inr chosen \<and> length chosen = 1"
proof -
  obtain g where g: "candidate_generator [sample_named 1 INTERNAL] sample_blocking = Inr g"
    and c: "generate g (sample_named 2 EXTERNAL)
      = Inr \<lparr>cs_external = 2, cs_candidates = [sample_named 1 INTERNAL], cs_truncated = False\<rparr>"
    by (simp add: candidate_generator_def generate_def amount_date_key_def reference_block_key_def
        party_block_key_def amount_bucket_def date_bucket_def counterparty_key_def look_def sample_blocking_def
        sample_named_def sample_txn_def dict_get_def slice_to_def reference_prefix_def add_unseen_def Let_def)
  then show ?thesis using sample_score by (auto simp: best_candidate_def Let_def)
qed

theorem fuzzy_choice_one_to_one_witness:
  "\<exists>g chosen. candidate_generator [sample_named 1 INTERNAL] sample_blocking = Inr g
     \<and> fuzzy_choose sample_similarity 0 shipped_config g [] [sample_named 2 EXTERNAL] [] = Inr chosen
     \<and> length chosen = 1 \<and> subseq (map (\<lambda>c. fst (snd c)) chosen) [sample_named 2 EXTERNAL]"
proof -
  obtain g chosen where g: "candidate_generator [sample_named 1 INTERNAL] sample_blocking = Inr g"
    and c: "fuzzy_choose sample_similarity 0 shipped_config g [] [sample_named 2 EXTERNAL] [] = Inr chosen"
    and l: "length chosen = 1"
    using sample_choice by blast
  then show ?thesis using fuzzy_choice_one_to_one[OF g c] by blast
qed

end
