(* ===== verification/CrossCurrency.thy ===== *)
theory CrossCurrency
  imports Stage Fx Scoring
begin

text \<open>
  Model of \<open>matching/strategies/cross_currency.py\<close>: pairs with the same reference
  in different currencies, compared in INR at the rate of each leg's own date.
  The quote cache of the rate service is threaded through the run. The text of a
  Decimal is a parameter: it depends on trailing zeros, which values drop.
\<close>

section \<open>Auditing inside a run\<close>

record auditor =
  ad_sha :: "string \<Rightarrow> string"
  ad_now :: instant

definition audit_if ::
    "auditor option \<Rightarrow> string \<Rightarrow> json \<Rightarrow> json \<Rightarrow> string \<Rightarrow> db \<Rightarrow> db res" where
  "audit_if aud actor affected after why db =
     (case aud of
        None \<Rightarrow> Inr db
      | Some a \<Rightarrow> append_audit (ad_sha a) matching_chain ''SYSTEM'' actor MATCH affected why (ad_now a) JNull after db)"

lemma audit_if_keeps: "audit_if aud actor affected after why db = Inr db' \<Longrightarrow> keeps P db db'"
  by (cases aud) (auto simp: audit_if_def intro: append_audit_keeps)

section \<open>The strategy\<close>

record cross_outcome =
  co_matched :: nat
  co_out_of_tolerance :: nat
  co_ambiguous :: nat
  co_missing_fx :: nat
  co_conflicts :: nat
  co_ids :: "nat list"

record cross_config =
  cx_run :: string
  cx_table :: exponents
  cx_tolerance :: rat
  cx_max_days :: int
  cx_auditor :: "auditor option"
  cx_text :: "rat \<Rightarrow> string"

definition cross_rule :: string where
  "cross_rule = ''CROSS_CURRENCY_TOLERANCE''"

definition by_reference :: "txn list \<Rightarrow> (string \<times> txn list) list" where
  "by_reference ints = group_by (\<lambda>i. text_of (t_ref i)) (filter (\<lambda>i. text_of (t_ref i) \<noteq> []) ints)"

definition cross_peers ::
    "int \<Rightarrow> (string \<times> txn list) list \<Rightarrow> nat list \<Rightarrow> (nat \<times> nat) list \<Rightarrow> txn \<Rightarrow> txn list" where
  "cross_peers max_days index consumed rejected e =
     filter (\<lambda>i. t_id i \<notin> set consumed \<and> (t_id i, t_id e) \<notin> set rejected
                \<and> t_currency i \<noteq> t_currency e \<and> t_direction i = t_direction e
                \<and> \<bar>t_date i - t_date e\<bar> \<le> max_days)
       (dict_get [] (text_of (t_ref e)) index)"

text \<open>One leg: the quote for its date and its value in INR minor units.\<close>

definition cross_leg :: "exponents \<Rightarrow> fx_service \<Rightarrow> txn \<Rightarrow> ((fx_quote \<times> int) option \<times> fx_service) res" where
  "cross_leg tbl fx t =
     (case fx_get fx (t_currency t) (t_date t) of
        (None, fx') \<Rightarrow> Inr (None, fx')
      | (Some q, fx') \<Rightarrow>
          bind_res (to_inr_minor tbl (t_amount_minor t) (t_currency t) (q_rate_inr q)) (\<lambda>m. Inr (Some (q, m), fx')))"

definition fx_source_text :: "fx_source \<Rightarrow> string" where
  "fx_source_text s =
     (case s of RBI \<Rightarrow> ''RBI'' | FBIL \<Rightarrow> ''FBIL'' | BANK_CARD \<Rightarrow> ''BANK_CARD'' | IDENTITY \<Rightarrow> ''IDENTITY'')"

definition leg_name :: "txn \<Rightarrow> string" where
  "leg_name t = t_currency t @ CHR ''@'' # date_iso (t_date t)"

definition rate_json :: "(rat \<Rightarrow> string) \<Rightarrow> fx_quote \<Rightarrow> json" where
  "rate_json txt q =
     JObj [(''rate_inr'', JStr (txt (q_rate_inr q))), (''source'', JStr (fx_source_text (q_source q))),
           (''rate_date'', JStr (date_iso (q_rate_date q))), (''days_stale'', JInt (q_days_stale q))]"

text \<open>What \<open>_compare\<close> returns: the variance and the details recorded with the match.\<close>

record comparison =
  cp_internal_inr :: int
  cp_external_inr :: int
  cp_variance :: rat
  cp_variance_text :: string
  cp_details :: json

definition quantise4 :: "rat \<Rightarrow> rat res" where
  "quantise4 x =
     (case quantize round_half_even 4 (Fin x) of Inl e \<Rightarrow> Inl e | Inr (Fin y) \<Rightarrow> Inr y | Inr _ \<Rightarrow> Inl InvalidOperation)"

definition cross_compare ::
    "cross_config \<Rightarrow> fx_service \<Rightarrow> txn \<Rightarrow> txn \<Rightarrow> (comparison option \<times> fx_service) res" where
  "cross_compare cx fx i e =
     bind_res (cross_leg (cx_table cx) fx i) (\<lambda>(li, fx1).
       (case li of
          None \<Rightarrow> Inr (None, fx1)
        | Some (qi, mi) \<Rightarrow>
            bind_res (cross_leg (cx_table cx) fx1 e) (\<lambda>(le, fx2).
              (case le of
                 None \<Rightarrow> Inr (None, fx2)
               | Some (qe, me) \<Rightarrow>
                   bind_res (relative_difference_percent mi me) (\<lambda>v.
                   bind_res (quantise4 v) (\<lambda>v4.
                     Inr (Some \<lparr>cp_internal_inr = mi, cp_external_inr = me, cp_variance = v,
                        cp_variance_text = cx_text cx v4,
                        cp_details = JObj
                          [(''internal_currency'', JStr (t_currency i)), (''external_currency'', JStr (t_currency e)),
                           (''internal_inr_minor'', JInt mi), (''external_inr_minor'', JInt me),
                           (''variance_percent'', JStr (cx_text cx v4)),
                           (''tolerance_percent'', JStr (cx_text cx (cx_tolerance cx))),
                           (''rates'', JObj [(leg_name i, rate_json (cx_text cx) qi),
                                             (leg_name e, rate_json (cx_text cx) qe)])]\<rparr>, fx2)))))))"

definition cross_row :: "string \<Rightarrow> txn \<Rightarrow> txn \<Rightarrow> result" where
  "cross_row run_id i e =
     \<lparr>r_id = 0, r_run = run_id, r_type = CROSS_CURRENCY, r_status = AUTO_MATCHED, r_confidence = 9 / 10,
      r_internal = t_id i, r_external = t_id e, r_rule = Some cross_rule, r_group = None,
      r_candidates = 1, r_date = t_date e, r_reviewed_by = None, r_reviewed_at = None\<rparr>"

definition cross_rationale :: "cross_config \<Rightarrow> txn \<Rightarrow> txn \<Rightarrow> comparison \<Rightarrow> string" where
  "cross_rationale cx i e cmp =
     ''Cross-currency: '' @ t_currency i @ '' '' @ int_str (t_amount_minor i) @ '' vs ''
     @ t_currency e @ '' '' @ int_str (t_amount_minor e) @ '' minor units; INR ''
     @ int_str (cp_internal_inr cmp) @ '' vs '' @ int_str (cp_external_inr cmp) @ ''; variance ''
     @ cp_variance_text cmp @ ''% within '' @ cx_text cx (cx_tolerance cx) @ ''%.''"

text \<open>\<open>_match\<close>: False on a claim conflict, otherwise the pair is stored, marked and audited.\<close>

definition cross_match ::
    "cross_config \<Rightarrow> txn \<Rightarrow> txn \<Rightarrow> comparison \<Rightarrow> cross_outcome \<times> db \<Rightarrow> (bool \<times> cross_outcome \<times> db) res" where
  "cross_match cx i e cmp s =
     (case s of (out, db) \<Rightarrow>
        bind_res (record_pair (t_id i) (t_id e) (cross_row (cx_run cx) i e) True db) (\<lambda>(found, db1).
          (case found of
             None \<Rightarrow> Inr (False, out\<lparr>co_conflicts := co_conflicts out + 1\<rparr>, db1)
           | Some rid \<Rightarrow>
               bind_res (audit_if (cx_auditor cx) ''cross-currency-matcher''
                   (JObj [(''match_result_id'', JStr (uuid_str rid)),
                          (''internal_transaction_id'', JStr (uuid_str (t_id i))),
                          (''external_transaction_id'', JStr (uuid_str (t_id e)))])
                   (JObj [(''match_type'', JStr ''CROSS_CURRENCY''), (''status'', JStr ''AUTO_MATCHED''),
                          (''rule_id'', JStr cross_rule), (''fx'', cp_details cmp)])
                   (cross_rationale cx i e cmp) db1) (\<lambda>db2.
                 Inr (True, out\<lparr>co_matched := co_matched out + 1, co_ids := co_ids out @ [rid]\<rparr>, db2)))))"

definition cross_step ::
    "cross_config \<Rightarrow> (string \<times> txn list) list \<Rightarrow> (nat \<times> nat) list \<Rightarrow> txn
     \<Rightarrow> nat list \<times> cross_outcome \<times> fx_service \<times> db \<Rightarrow> (nat list \<times> cross_outcome \<times> fx_service \<times> db) res" where
  "cross_step cx index rejected e s =
     (case s of (consumed, out, fx, db) \<Rightarrow>
        (case cross_peers (cx_max_days cx) index consumed rejected e of
           [] \<Rightarrow> Inr s
         | i # others \<Rightarrow>
             if others \<noteq> [] then Inr (consumed, out\<lparr>co_ambiguous := co_ambiguous out + 1\<rparr>, fx, db)
             else bind_res (cross_compare cx fx i e) (\<lambda>(found, fx').
               (case found of
                  None \<Rightarrow> Inr (consumed, out\<lparr>co_missing_fx := co_missing_fx out + 1\<rparr>, fx', db)
                | Some cmp \<Rightarrow>
                    if cp_variance cmp > cx_tolerance cx
                    then Inr (consumed, out\<lparr>co_out_of_tolerance := co_out_of_tolerance out + 1\<rparr>, fx', db)
                    else bind_res (cross_match cx i e cmp (out, db)) (\<lambda>(ok, out', db').
                           Inr (if ok then t_id i # consumed else consumed, out', fx', db'))))))"

fun cross_loop ::
    "cross_config \<Rightarrow> (string \<times> txn list) list \<Rightarrow> (nat \<times> nat) list \<Rightarrow> txn list
     \<Rightarrow> nat list \<times> cross_outcome \<times> fx_service \<times> db \<Rightarrow> (nat list \<times> cross_outcome \<times> fx_service \<times> db) res" where
  "cross_loop cx index rejected [] s = Inr s"
| "cross_loop cx index rejected (e # es) s =
     bind_res (cross_step cx index rejected e s) (cross_loop cx index rejected es)"

definition new_cross_outcome :: cross_outcome where
  "new_cross_outcome = \<lparr>co_matched = 0, co_out_of_tolerance = 0, co_ambiguous = 0, co_missing_fx = 0,
                        co_conflicts = 0, co_ids = []\<rparr>"

definition cross_run ::
    "cross_config \<Rightarrow> fx_service \<Rightarrow> txn list \<Rightarrow> txn list \<Rightarrow> db \<Rightarrow> ((cross_outcome \<times> fx_service) \<times> db) res" where
  "cross_run cx fx ints exts db =
     bind_res (cross_loop cx (by_reference ints) (rejected_pairs db (map t_id ints)) exts
                 ([], new_cross_outcome, fx, db))
       (\<lambda>(_, out, fx', db'). Inr ((out, fx'), db'))"

section \<open>Quotes along a run\<close>

text \<open>The INR value of a transaction under a set of rates, free of the cache.\<close>

definition inr_value :: "exponents \<Rightarrow> fx_rate list \<times> int \<Rightarrow> txn \<Rightarrow> int \<Rightarrow> bool" where
  "inr_value tbl src t m =
     (\<exists>q. fx_answer src (t_currency t) (t_date t) = Some q
        \<and> to_inr_minor tbl (t_amount_minor t) (t_currency t) (q_rate_inr q) = Inr m)"

definition fx_from :: "fx_rate list \<times> int \<Rightarrow> fx_service \<Rightarrow> bool" where
  "fx_from src fx = (fx_good fx \<and> (fx_rates fx, max_stale_days fx) = src)"

lemma fx_get_from:
  assumes "fx_from src fx" "fx_get fx c d = (q, fx')"
  shows "q = fx_answer src c d \<and> fx_from src fx'"
proof -
  have g: "fx_good fx" and s: "(fx_rates fx, max_stale_days fx) = src" using assms(1) by (simp_all add: fx_from_def)
  have "(fx_rates (snd (fx_get fx c d)), max_stale_days (snd (fx_get fx c d))) = (fx_rates fx, max_stale_days fx)"
    by (rule fxq.get_table)
  then show ?thesis using fx_get_answer[OF g, of c d] fx_get_good[OF g, of c d] s assms(2)
    by (simp add: fx_from_def)
qed

lemma cross_leg_from:
  assumes "cross_leg tbl fx t = Inr (l, fx')" "fx_from src fx"
  shows "fx_from src fx' \<and> (\<forall>q m. l = Some (q, m) \<longrightarrow> inr_value tbl src t m)"
proof -
  obtain q0 fx0 where g: "fx_get fx (t_currency t) (t_date t) = (q0, fx0)" by fastforce
  then have q: "q0 = fx_answer src (t_currency t) (t_date t)" and f: "fx_from src fx0"
    using fx_get_from[OF assms(2)] by blast+
  show ?thesis
  proof (cases q0)
    case None
    then show ?thesis using assms(1) g f by (simp add: cross_leg_def)
  next
    case (Some x)
    then show ?thesis using assms(1) g f q[symmetric] by (auto simp: cross_leg_def res_iff inr_value_def)
  qed
qed

lemma cross_compare_from:
  assumes "cross_compare cx fx i e = Inr (c, fx')" "fx_from src fx"
  shows "fx_from src fx' \<and> (\<forall>cmp. c = Some cmp \<longrightarrow>
    inr_value (cx_table cx) src i (cp_internal_inr cmp) \<and> inr_value (cx_table cx) src e (cp_external_inr cmp)
    \<and> relative_difference_percent (cp_internal_inr cmp) (cp_external_inr cmp) = Inr (cp_variance cmp))"
proof -
  obtain li fx1 where i: "cross_leg (cx_table cx) fx i = Inr (li, fx1)"
    using assms(1) by (auto simp: cross_compare_def res_iff)
  note fi = cross_leg_from[OF i assms(2)]
  show ?thesis
  proof (cases li)
    case None
    then show ?thesis using assms(1) i fi by (simp add: cross_compare_def)
  next
    case (Some a)
    obtain qi mi where a: "a = (qi, mi)" by fastforce
    obtain le fx2 where e: "cross_leg (cx_table cx) fx1 e = Inr (le, fx2)"
      using assms(1) i Some a by (auto simp: cross_compare_def res_iff)
    note fe = cross_leg_from[OF e conjunct1[OF fi]]
    show ?thesis using assms(1) i Some a e fi fe
      by (cases le) (auto simp: cross_compare_def res_iff)
  qed
qed

section \<open>The strategy keeps the ledger\<close>

definition cross_pair ::
    "bool \<Rightarrow> cross_config \<Rightarrow> fx_rate list \<times> int \<Rightarrow> (nat \<times> nat) list \<Rightarrow> txn list \<Rightarrow> txn list \<Rightarrow> nat \<times> nat \<Rightarrow> bool" where
  "cross_pair priced cx src rejected ints exts p =
     (p \<notin> set rejected
      \<and> (\<exists>i \<in> set ints. \<exists>e \<in> set exts. p = (t_id i, t_id e)
           \<and> text_of (t_ref i) \<noteq> [] \<and> text_of (t_ref i) = text_of (t_ref e)
           \<and> t_currency i \<noteq> t_currency e \<and> t_direction i = t_direction e
           \<and> \<bar>t_date i - t_date e\<bar> \<le> cx_max_days cx
           \<and> (priced \<longrightarrow> (\<exists>a b v. inr_value (cx_table cx) src i a \<and> inr_value (cx_table cx) src e b
                \<and> relative_difference_percent a b = Inr v \<and> v \<le> cx_tolerance cx))))"

lemma cross_peers_in:
  assumes "i \<in> set (cross_peers max_days (by_reference ints) consumed rejected e)"
  shows "i \<in> set ints \<and> text_of (t_ref i) \<noteq> [] \<and> text_of (t_ref i) = text_of (t_ref e)
    \<and> t_id i \<notin> set consumed \<and> (t_id i, t_id e) \<notin> set rejected
    \<and> t_currency i \<noteq> t_currency e \<and> t_direction i = t_direction e \<and> \<bar>t_date i - t_date e\<bar> \<le> max_days"
  using assms unfolding cross_peers_def by_reference_def by auto

lemma cross_row_pair: "pair_row (t_id i) (t_id e) True (cross_row run_id i e)"
  by (simp add: pair_row_def cross_row_def live_def settled_def)

lemma cross_match_keeps:
  assumes "cross_match cx i e cmp (out, db) = Inr (ok, out', db')" "P (t_id i, t_id e)"
  shows "keeps P db db'"
proof -
  obtain found db1 where r: "record_pair (t_id i) (t_id e) (cross_row (cx_run cx) i e) True db = Inr (found, db1)"
    using assms(1) by (auto simp: cross_match_def res_iff)
  note k = record_pair_keeps[OF r cross_row_pair, of P, OF assms(2)]
  show ?thesis
  proof (cases found)
    case None
    then show ?thesis using assms(1) r k by (simp add: cross_match_def)
  next
    case (Some rid)
    then have "keeps P db1 db'" using assms(1) r by (auto simp: cross_match_def res_iff intro: audit_if_keeps)
    then show ?thesis by (rule keeps_trans[OF k])
  qed
qed

lemma cross_step_keeps:
  assumes "cross_step cx (by_reference ints) rejected e (consumed, out, fx, db) = Inr (consumed', out', fx', db')"
    and "priced \<longrightarrow> fx_from src fx" and e: "e \<in> set exts"
  shows "(priced \<longrightarrow> fx_from src fx') \<and> keeps (cross_pair priced cx src rejected ints exts) db db'"
proof (cases "cross_peers (cx_max_days cx) (by_reference ints) consumed rejected e")
  case Nil
  then show ?thesis using assms(1,2) by (simp add: cross_step_def)
next
  case (Cons i others)
  note peer = cross_peers_in[of i "cx_max_days cx" ints consumed rejected e]
  show ?thesis
  proof (cases "others = []")
    case False
    then show ?thesis using assms(1,2) Cons by (simp add: cross_step_def)
  next
    case True
    obtain found fx1 where c: "cross_compare cx fx i e = Inr (found, fx1)"
      using assms(1) Cons True by (auto simp: cross_step_def res_iff)
    have fc: "priced \<longrightarrow> fx_from src fx1 \<and> (\<forall>cmp. found = Some cmp \<longrightarrow>
        inr_value (cx_table cx) src i (cp_internal_inr cmp) \<and> inr_value (cx_table cx) src e (cp_external_inr cmp)
        \<and> relative_difference_percent (cp_internal_inr cmp) (cp_external_inr cmp) = Inr (cp_variance cmp))"
      using cross_compare_from[OF c] assms(2) by blast
    show ?thesis
    proof (cases found)
      case None
      then show ?thesis using assms(1) Cons True c fc by (simp add: cross_step_def)
    next
      case (Some cmp)
      show ?thesis
      proof (cases "cp_variance cmp > cx_tolerance cx")
        case True
        then show ?thesis using assms(1) Cons \<open>others = []\<close> c Some fc by (simp add: cross_step_def)
      next
        case False
        obtain ok o2 d where m: "cross_match cx i e cmp (out, db) = Inr (ok, o2, d)"
          using assms(1) Cons \<open>others = []\<close> c Some False by (auto simp: cross_step_def res_iff)
        have eq: "fx' = fx1" "db' = d"
          using assms(1) Cons \<open>others = []\<close> c Some False m by (simp_all add: cross_step_def)
        have pr: "i \<in> set (cross_peers (cx_max_days cx) (by_reference ints) consumed rejected e)" using Cons by simp
        have v: "cp_variance cmp \<le> cx_tolerance cx" using False by simp
        have "priced \<longrightarrow> inr_value (cx_table cx) src i (cp_internal_inr cmp) \<and> inr_value (cx_table cx) src e (cp_external_inr cmp)
          \<and> relative_difference_percent (cp_internal_inr cmp) (cp_external_inr cmp) = Inr (cp_variance cmp)"
          using fc Some by blast
        then have "cross_pair priced cx src rejected ints exts (t_id i, t_id e)"
          unfolding cross_pair_def using peer[OF pr] e v by blast
        then have "keeps (cross_pair priced cx src rejected ints exts) db d" by (rule cross_match_keeps[OF m])
        then show ?thesis using fc eq by blast
      qed
    qed
  qed
qed

lemma cross_loop_keeps:
  "\<lbrakk>cross_loop cx (by_reference ints) rejected es (consumed, out, fx, db) = Inr (consumed', out', fx', db');
    priced \<longrightarrow> fx_from src fx; set es \<subseteq> set exts\<rbrakk> \<Longrightarrow> (priced \<longrightarrow> fx_from src fx') \<and> keeps (cross_pair priced cx src rejected ints exts) db db'"
proof (induction es arbitrary: consumed out fx db)
  case (Cons e es)
  obtain c1 o1 f1 d1 where s: "cross_step cx (by_reference ints) rejected e (consumed, out, fx, db) = Inr (c1, o1, f1, d1)"
    and l: "cross_loop cx (by_reference ints) rejected es (c1, o1, f1, d1) = Inr (consumed', out', fx', db')"
    using Cons.prems(1) by (auto simp: res_iff)
  have e: "e \<in> set exts" "set es \<subseteq> set exts" using Cons.prems(3) by auto
  note st = cross_step_keeps[OF s Cons.prems(2) e(1)]
  note lp = Cons.IH[OF l conjunct1[OF st] e(2)]
  show ?case using keeps_trans[OF conjunct2[OF st] conjunct2[OF lp]] lp by blast
qed simp

lemma cross_run_keeps:
  assumes "cross_run cx fx ints exts db = Inr ((out, fx'), db')" "priced \<longrightarrow> fx_from src fx"
  shows "(priced \<longrightarrow> fx_from src fx') \<and> keeps (cross_pair priced cx src (rejected_pairs db (map t_id ints)) ints exts) db db'"
proof -
  obtain c where l: "cross_loop cx (by_reference ints) (rejected_pairs db (map t_id ints)) exts
      ([], new_cross_outcome, fx, db) = Inr (c, out, fx', db')"
    using assms(1) by (auto simp: cross_run_def res_iff)
  show ?thesis by (rule cross_loop_keeps[OF l assms(2) order_refl])
qed

interpretation cross_stage: matching_stage "cross_run cx fx"
proof
  fix ints exts db out db'
  assume r: "cross_run cx fx ints exts db = Inr (out, db')" and l: "ledger_ok db"
  obtain o2 fx2 where o: "out = (o2, fx2)" by fastforce
  have "keeps (cross_pair False cx ([], 0) (rejected_pairs db (map t_id ints)) ints exts) db db'"
    using cross_run_keeps[OF r[unfolded o], of False] by blast
  note k = keeps_ok[OF this l]
  show "ledger_ok db'" using k by blast
  show "grows (stage_pair db ints exts) db db'"
    by (rule grows_mono[OF conjunct2[OF k]]) (auto simp: cross_pair_def stage_pair_def)
qed

section \<open>Properties\<close>

text \<open>C37. Every cross-currency pair has the same non-empty reference and direction,
  different currencies, dates within the window, and both legs have a quote for
  their own date under which the two INR values differ by at most the tolerance;
  it was never rejected, and the ledger stays consistent.\<close>

theorem cross_pairs_within_tolerance:
  assumes "cross_run cx fx ints exts db = Inr ((out, fx'), db')" "fx_good fx" "ledger_ok db"
  shows "ledger_ok db' \<and> grows (\<lambda>p. p \<notin> set (rejected_pairs db (map t_id ints))
      \<and> (\<exists>i \<in> set ints. \<exists>e \<in> set exts. p = (t_id i, t_id e)
           \<and> text_of (t_ref i) \<noteq> [] \<and> text_of (t_ref i) = text_of (t_ref e)
           \<and> t_currency i \<noteq> t_currency e \<and> t_direction i = t_direction e
           \<and> \<bar>t_date i - t_date e\<bar> \<le> cx_max_days cx
           \<and> (\<exists>a b v. inr_value (cx_table cx) (fx_rates fx, max_stale_days fx) i a
                \<and> inr_value (cx_table cx) (fx_rates fx, max_stale_days fx) e b
                \<and> relative_difference_percent a b = Inr v \<and> v \<le> cx_tolerance cx))) db db'"
proof -
  let ?src = "(fx_rates fx, max_stale_days fx)"
  have "keeps (cross_pair True cx ?src (rejected_pairs db (map t_id ints)) ints exts) db db'"
    using cross_run_keeps[OF assms(1), of True ?src] assms(2) unfolding fx_from_def by blast
  note k = keeps_ok[OF this assms(3)]
  have "ledger_ok db'" using k by blast
  moreover note grows_mono[OF conjunct2[OF k]]
  ultimately show ?thesis by (auto simp: cross_pair_def intro!: conjI)
qed

definition sample_dollar :: "nat \<Rightarrow> txn" where
  "sample_dollar k = (sample_txn k EXTERNAL 100 ''REF1'' 11)\<lparr>t_currency := ''USD''\<rparr>"

definition sample_usd :: fx_rate where
  "sample_usd = \<lparr>rate_date = 11, rate_currency = ''USD'', rate_inr = 83, rate_source = RBI, rate_suspect = False\<rparr>"

definition sample_fx :: fx_service where
  "sample_fx = new_fx_service [sample_usd] 3"

definition sample_cross :: cross_config where
  "sample_cross = \<lparr>cx_run = ''r'', cx_table = default_exponents, cx_tolerance = 3 / 2, cx_max_days = 3,
                   cx_auditor = None, cx_text = (\<lambda>_. [])\<rparr>"

definition sample_abroad :: db where
  "sample_abroad = sample_db [sample_txn 3 INTERNAL 8300 ''REF1'' 10, sample_dollar 4]"

lemma sample_abroad_ok: "ledger_ok sample_abroad"
  unfolding sample_abroad_def by (rule sample_ok) (simp_all add: sample_dollar_def sample_txn_def)

lemma sample_fx_good: "fx_good sample_fx"
  by (simp add: sample_fx_def new_fx_service_def fx_good_def)

lemma pick_rate_single: "eligible_rates [r] on st = [r] \<Longrightarrow> pick_rate [r] on st = Some r"
  by (simp add: pick_rate_def)

lemma sample_quote: "\<exists>q fx'. fx_get sample_fx ''USD'' 11 = (Some q, fx') \<and> q_rate_inr q = 83"
proof -
  have q: "query_rates sample_fx ''USD'' 11 = [sample_usd]"
    by (simp add: sample_fx_def sample_usd_def query_rates_def new_fx_service_def)
  have "eligible_rates [sample_usd] 11 3 = [sample_usd]"
    by (simp add: sample_usd_def eligible_rates_def)
  then have "pick_quote [sample_usd] 11 3 = Some (quote_of sample_usd 11)"
    by (simp add: pick_quote_def pick_rate_single)
  moreover have "fx_cache sample_fx = (\<lambda>_. None)" "max_stale_days sample_fx = 3"
    by (simp_all add: sample_fx_def new_fx_service_def)
  ultimately have "fst (fx_get sample_fx ''USD'' 11) = Some (quote_of sample_usd 11)"
    by (simp add: fx_get_def q Let_def)
  moreover have "q_rate_inr (quote_of sample_usd 11) = 83" by (simp add: quote_of_def sample_usd_def)
  ultimately show ?thesis by (metis prod.collapse)
qed

lemma no_difference: "relative_difference_percent a a = Inr 0"
  by (simp add: relative_difference_percent_def Let_def dec_div_def dec_mul_def)

lemma sample_usd_inr: "to_inr_minor default_exponents 100 ''USD'' 83 = Inr 8300"
proof -
  have "to_inr_minor default_exponents 100 ''USD'' 83 = Inr (round_half_even (of_int 100 * 83 * pow10 (2 - 2)))"
    by (rule to_inr_minor_value[where k = 8300000000])
       (simp_all add: currency_exponent_def default_exponents_def text_eval)
  moreover have "round_half_even (8300 :: rat) = 8300" by code_simp
  ultimately show ?thesis by (simp add: pow10_def)
qed

lemma sample_cross_compare:
  "\<exists>cmp fx'. cross_compare sample_cross sample_fx (sample_txn 3 INTERNAL 8300 ''REF1'' 10) (sample_dollar 4)
     = Inr (Some cmp, fx') \<and> cp_variance cmp = 0"
proof -
  have r: "relative_difference_percent 8300 8300 = Inr 0" by (rule no_difference)
  have q: "quantise4 0 = Inr 0" by code_simp
  have m: "to_inr_minor default_exponents 100 ''USD'' 83 = Inr 8300" by (rule sample_usd_inr)
  have a: "\<exists>q. cross_leg default_exponents sample_fx (sample_txn 3 INTERNAL 8300 ''REF1'' 10) = Inr (Some (q, 8300), sample_fx)"
    by (simp add: cross_leg_def sample_txn_def fx_get_def to_inr_minor_def)
  note sample_quote
  then have b: "\<exists>q fx'. cross_leg default_exponents sample_fx (sample_dollar 4) = Inr (Some (q, 8300), fx')"
    by (auto simp: cross_leg_def sample_txn_def sample_dollar_def m)
  have t: "cx_table sample_cross = default_exponents" by (simp add: sample_cross_def)
  obtain qa where a: "cross_leg default_exponents sample_fx (sample_txn 3 INTERNAL 8300 ''REF1'' 10) = Inr (Some (qa, 8300), sample_fx)"
    using a by blast
  obtain qb fxb where b: "cross_leg default_exponents sample_fx (sample_dollar 4) = Inr (Some (qb, 8300), fxb)"
    using b by blast
  show ?thesis by (simp add: cross_compare_def t a b r q)
qed

theorem cross_pairs_within_tolerance_witness:
  "\<exists>out fx' db'. cross_run sample_cross sample_fx [sample_txn 3 INTERNAL 8300 ''REF1'' 10] [sample_dollar 4] sample_abroad
     = Inr ((out, fx'), db') \<and> co_matched out = 1 \<and> ledger_ok db'"
proof -
  let ?i = "sample_txn 3 INTERNAL 8300 ''REF1'' 10" and ?e = "sample_dollar 4"
  obtain cmp fx' where c: "cross_compare sample_cross sample_fx ?i ?e = Inr (Some cmp, fx')" "cp_variance cmp = 0"
    using sample_cross_compare by blast
  have rej: "rejected_pairs sample_abroad [3] = []" by (simp add: sample_abroad_def sample_db_def rejected_pairs_def)
  have p: "cross_peers 3 (by_reference [?i]) [] [] ?e = [?i]"
    by (simp add: cross_peers_def by_reference_def sample_dollar_def sample_txn_def text_of_def)
  have id: "t_id ?i = 3" "t_id ?e = 4" by (simp_all add: sample_dollar_def sample_txn_def)
  have "\<exists>rid d. record_pair 3 4 (cross_row ''r'' ?i ?e) True sample_abroad = Inr (Some rid, d)"
    by (simp add: record_pair_def claim_pair_def insert_claims_def add_result_def result_row_ok_def cross_row_def
        claims_unique_def active_txns_def sample_abroad_def sample_db_def Let_def)
  then obtain rid d where rp: "record_pair 3 4 (cross_row ''r'' ?i ?e) True sample_abroad = Inr (Some rid, d)" by blast
  have f: "cx_run sample_cross = ''r''" "cx_max_days sample_cross = 3" "cx_auditor sample_cross = None"
    "cx_tolerance sample_cross = 3 / 2" by (simp_all add: sample_cross_def)
  obtain out where r: "cross_run sample_cross sample_fx [?i] [?e] sample_abroad = Inr ((out, fx'), d)" "co_matched out = 1"
    by (simp add: cross_run_def cross_step_def rej id p f c cross_match_def rp audit_if_def new_cross_outcome_def)
  have "ledger_ok d" by (rule conjunct1[OF cross_pairs_within_tolerance[OF r(1) sample_fx_good sample_abroad_ok]])
  then show ?thesis using r by blast
qed

end
