(* ===== verification/SubsetSum.thy ===== *)
theory SubsetSum
  imports Prelude
begin

text \<open>
  Model of \<open>src/recon/matching/subset_sum.py\<close>: the bounded dynamic program that
  looks for a group of amounts with a sum in an interval and says whether the
  group is unique. The table is an insertion ordered dictionary from (size, sum)
  to (number of ways capped at two, one witness). The lemmas relate it to the
  sets of indices it counts, and the property says that its verdict is exact.
\<close>

section \<open>The search\<close>

datatype subset_outcome = UNIQUE | NONE | AMBIGUOUS | TOO_COMPLEX

record subset_search =
  ss_outcome :: subset_outcome
  ss_indices :: "nat list"
  ss_total :: int

type_synonym dp_entry = "(nat \<times> int) \<times> nat \<times> nat list"

definition ways_cap :: nat where "ways_cap = 2"

definition default_max_states :: int where "default_max_states = 200000"

definition merge_way :: "dp_entry \<Rightarrow> dp_entry list \<Rightarrow> dp_entry list" where
  "merge_way e table =
     (case e of (key, ways, witness) \<Rightarrow>
        (case map_of table key of
           None \<Rightarrow> dict_put key (min ways ways_cap, witness) table
         | Some (w, wit) \<Rightarrow> dict_put key (min (w + ways) ways_cap, wit) table))"

definition extend_way :: "nat \<Rightarrow> int \<Rightarrow> nat \<Rightarrow> int \<Rightarrow> dp_entry \<Rightarrow> dp_entry list \<Rightarrow> dp_entry list" where
  "extend_way max_size high index amount e table =
     (case e of ((sz, tot), ways, witness) \<Rightarrow>
        if sz < max_size \<and> tot + amount \<le> high
        then merge_way ((sz + 1, tot + amount), ways, witness @ [index]) table
        else table)"

definition additions :: "nat \<Rightarrow> int \<Rightarrow> nat \<Rightarrow> int \<Rightarrow> dp_entry list \<Rightarrow> dp_entry list" where
  "additions max_size high index amount states =
     merge_way ((1, amount), 1, [index]) (fold (extend_way max_size high index amount) states [])"

text \<open>The loop over the amounts; \<open>None\<close> is the early TOO_COMPLEX return.\<close>

fun dp_loop :: "nat \<Rightarrow> int \<Rightarrow> int \<Rightarrow> nat \<Rightarrow> int list \<Rightarrow> dp_entry list \<Rightarrow> dp_entry list option" where
  "dp_loop max_size high max_states index [] states = Some states"
| "dp_loop max_size high max_states index (amount # rest) states =
     (if amount \<le> 0 \<or> amount > high
      then dp_loop max_size high max_states (index + 1) rest states
      else (let states' = fold merge_way (additions max_size high index amount states) states
            in if int (length states') > max_states then None
               else dp_loop max_size high max_states (index + 1) rest states'))"

definition find_unique_subset ::
    "int list \<Rightarrow> int \<Rightarrow> int \<Rightarrow> nat \<Rightarrow> nat \<Rightarrow> int \<Rightarrow> subset_search res" where
  "find_unique_subset amounts low high min_size max_size max_states =
     (if low > high then Inl ValueError
      else if min_size < 1 \<or> max_size < min_size then Inl ValueError
      else (case dp_loop max_size high max_states 0 amounts [] of
              None \<Rightarrow> Inr \<lparr>ss_outcome = TOO_COMPLEX, ss_indices = [], ss_total = 0\<rparr>
            | Some states \<Rightarrow>
                (case filter (\<lambda>((sz, tot), _). sz \<ge> min_size \<and> low \<le> tot \<and> tot \<le> high) states of
                   [] \<Rightarrow> Inr \<lparr>ss_outcome = NONE, ss_indices = [], ss_total = 0\<rparr>
                 | ((_, tot), ways, witness) # others \<Rightarrow>
                     if others \<noteq> [] \<or> ways \<ge> ways_cap
                     then Inr \<lparr>ss_outcome = AMBIGUOUS, ss_indices = [], ss_total = 0\<rparr>
                     else Inr \<lparr>ss_outcome = UNIQUE, ss_indices = witness, ss_total = tot\<rparr>)))"

lemma subset_small:
  "find_unique_subset [100, 250, 400] 650 650 2 10 default_max_states =
     Inr \<lparr>ss_outcome = UNIQUE, ss_indices = [1, 2], ss_total = 650\<rparr>
   \<and> find_unique_subset [100, 200, 300] 300 300 2 10 default_max_states =
     Inr \<lparr>ss_outcome = UNIQUE, ss_indices = [0, 1], ss_total = 300\<rparr>
   \<and> find_unique_subset [100, 100, 200] 300 300 2 10 default_max_states =
     Inr \<lparr>ss_outcome = AMBIGUOUS, ss_indices = [], ss_total = 0\<rparr>
   \<and> find_unique_subset [100, 200, 400] 300 300 2 10 2 =
     Inr \<lparr>ss_outcome = TOO_COMPLEX, ss_indices = [], ss_total = 0\<rparr>"
  by code_simp

section \<open>What the table counts\<close>

text \<open>The index sets below \<open>n\<close> with positive amounts, a given size and a given sum.\<close>

definition subsets_of :: "int list \<Rightarrow> nat \<Rightarrow> nat \<Rightarrow> int \<Rightarrow> nat set set" where
  "subsets_of a n s t =
     {I. I \<subseteq> {..<n} \<and> (\<forall>i \<in> I. 0 < a ! i) \<and> card I = s \<and> (\<Sum>i\<in>I. a ! i) = t}"

lemma subsets_finite: "finite (subsets_of a n s t)"
  by (rule finite_subset[of _ "Pow {..<n}"]) (auto simp: subsets_of_def)

lemma subsets_zero: "subsets_of a 0 s t = (if s = 0 \<and> t = 0 then {{}} else {})"
  by (auto simp: subsets_of_def)

lemma subsets_size_zero: "subsets_of a n 0 t = (if t = 0 then {{}} else {})"
proof -
  have "I = {}" if "I \<subseteq> {..<n}" "card I = 0" for I :: "nat set"
    using that finite_subset[of I "{..<n}"] by auto
  then have "I = {}" if "I \<in> subsets_of a n 0 t" for I using that by (simp add: subsets_of_def)
  moreover have "{} \<in> subsets_of a n 0 t \<longleftrightarrow> t = 0" by (auto simp: subsets_of_def)
  ultimately show ?thesis by auto
qed

lemma subsets_Suc:
  assumes "0 < a ! n"
  shows "subsets_of a (Suc n) (Suc s) t = subsets_of a n (Suc s) t \<union> insert n ` subsets_of a n s (t - a ! n)"
    (is "?L = ?A \<union> ?B")
proof (intro equalityI subsetI)
  fix I assume I: "I \<in> ?L"
  then have fin: "finite I" using finite_subset[of I "{..<Suc n}"] by (auto simp: subsets_of_def)
  show "I \<in> ?A \<union> ?B"
  proof (cases "n \<in> I")
    case True
    have "I - {n} \<in> subsets_of a n s (t - a ! n)"
      using I True fin by (auto simp: subsets_of_def sum_diff1 less_Suc_eq)
    moreover have "I = insert n (I - {n})" using True by blast
    ultimately show ?thesis by blast
  next
    case False
    then have "I \<subseteq> {..<n}" using I by (fastforce simp: subsets_of_def less_Suc_eq)
    then show ?thesis using I by (simp add: subsets_of_def)
  qed
next
  fix I assume "I \<in> ?A \<union> ?B"
  then show "I \<in> ?L"
  proof
    assume "I \<in> ?A" then show ?thesis by (force simp: subsets_of_def)
  next
    assume "I \<in> ?B"
    then obtain J where J: "J \<in> subsets_of a n s (t - a ! n)" "I = insert n J" by blast
    then have "finite J" "n \<notin> J" using finite_subset[of J "{..<n}"] by (auto simp: subsets_of_def)
    then show ?thesis using J assms by (auto simp: subsets_of_def)
  qed
qed

lemma subsets_Suc_card:
  assumes "0 < a ! n"
  shows "card (subsets_of a (Suc n) (Suc s) t) =
    card (subsets_of a n (Suc s) t) + card (subsets_of a n s (t - a ! n))"
proof -
  have n: "n \<notin> I" if "I \<in> subsets_of a n s' t'" for I s' t' using that by (auto simp: subsets_of_def)
  have "inj_on (insert n) (subsets_of a n s (t - a ! n))"
    by (rule inj_onI) (use n in \<open>metis insert_ident\<close>)
  moreover have "subsets_of a n (Suc s) t \<inter> insert n ` subsets_of a n s (t - a ! n) = {}" using n by blast
  ultimately show ?thesis
    unfolding subsets_Suc[OF assms] by (simp add: card_Un_disjoint subsets_finite card_image)
qed

lemma subsets_Suc_without:
  assumes "\<And>I. I \<in> subsets_of a (Suc n) s t \<Longrightarrow> n \<notin> I"
  shows "subsets_of a (Suc n) s t = subsets_of a n s t"
proof (intro equalityI subsetI)
  fix I assume I: "I \<in> subsets_of a (Suc n) s t"
  then have "I \<subseteq> {..<n}" using assms[OF I] by (force simp: subsets_of_def lessThan_Suc)
  then show "I \<in> subsets_of a n s t" using I by (simp add: subsets_of_def)
qed (force simp: subsets_of_def)

lemma subsets_Suc_skip: "\<not> 0 < a ! n \<Longrightarrow> subsets_of a (Suc n) s t = subsets_of a n s t"
  by (rule subsets_Suc_without) (auto simp: subsets_of_def)

lemma subsets_sum_pos: "I \<in> subsets_of a n s t \<Longrightarrow> i \<in> I \<Longrightarrow> a ! i \<le> t"
proof -
  assume I: "I \<in> subsets_of a n s t" "i \<in> I"
  then have "finite I" using finite_subset[of I "{..<n}"] by (auto simp: subsets_of_def)
  moreover have "\<forall>j \<in> I. 0 \<le> a ! j" using I by (auto simp: subsets_of_def intro: less_imp_le)
  ultimately have "a ! i \<le> (\<Sum>j\<in>I. a ! j)" using I(2) by (intro member_le_sum) auto
  then show ?thesis using I by (simp add: subsets_of_def)
qed

lemma subsets_Suc_large:
  assumes "high < a ! n" "t \<le> high" shows "subsets_of a (Suc n) s t = subsets_of a n s t"
proof (rule subsets_Suc_without)
  fix I assume "I \<in> subsets_of a (Suc n) s t"
  then show "n \<notin> I" using subsets_sum_pos[of I a "Suc n" s t n] assms by linarith
qed

section \<open>The table\<close>

definition cap_ways :: "nat \<Rightarrow> nat" where "cap_ways k = min k ways_cap"

lemma cap_ways_zero [simp]: "cap_ways k = 0 \<longleftrightarrow> k = 0" "cap_ways 0 = 0"
  by (auto simp: cap_ways_def ways_cap_def)

lemma cap_ways_add: "min (cap_ways j + cap_ways k) ways_cap = cap_ways (j + k)"
  by (simp add: cap_ways_def)

text \<open>Ways and witness of a key, nothing being zero ways.\<close>

definition combine :: "(nat \<times> nat list) option \<Rightarrow> (nat \<times> nat list) option \<Rightarrow> (nat \<times> nat list) option" where
  "combine x y =
     (case x of None \<Rightarrow> (case y of None \<Rightarrow> None | Some (w, i) \<Rightarrow> Some (min w ways_cap, i))
      | Some (v, j) \<Rightarrow> (case y of None \<Rightarrow> Some (v, j) | Some (w, i) \<Rightarrow> Some (min (v + w) ways_cap, j)))"

lemma merge_way_get: "map_of (merge_way (k, w, i) d) = (map_of d)(k := combine (map_of d k) (Some (w, i)))"
  by (simp add: merge_way_def combine_def split: option.splits)

lemma merge_way_distinct: "distinct (map fst d) \<Longrightarrow> distinct (map fst (merge_way e d))"
  by (simp add: merge_way_def distinct_dict_put split: prod.splits option.splits)

lemma fold_merge_distinct: "distinct (map fst d) \<Longrightarrow> distinct (map fst (fold merge_way xs d))"
  by (induction xs arbitrary: d) (simp_all add: merge_way_distinct)

lemma fold_merge_get:
  "distinct (map fst xs) \<Longrightarrow> map_of (fold merge_way xs d) k = combine (map_of d k) (map_of xs k)"
proof (induction xs arbitrary: d)
  case Nil show ?case by (simp add: combine_def split: option.splits)
next
  case (Cons e xs)
  obtain k' w i where e: "e = (k', w, i)" by (metis prod_cases3)
  have "map_of xs k' = None" using Cons.prems e by (simp add: map_of_eq_None_iff)
  then show ?case using Cons e by (simp add: merge_way_get combine_def split: option.splits)
qed

text \<open>The extended entries are a renaming of the kept ones.\<close>

definition kept_way :: "nat \<Rightarrow> int \<Rightarrow> int \<Rightarrow> dp_entry \<Rightarrow> bool" where
  "kept_way max_size high amount e = (case e of ((sz, tot), _) \<Rightarrow> sz < max_size \<and> tot + amount \<le> high)"

definition shift_way :: "nat \<Rightarrow> int \<Rightarrow> dp_entry \<Rightarrow> dp_entry" where
  "shift_way index amount e = (case e of ((sz, tot), w, i) \<Rightarrow> ((sz + 1, tot + amount), w, i @ [index]))"

lemma extend_shift:
  "extend_way mx high n x e d = (if kept_way mx high x e then merge_way (shift_way n x e) d else d)"
  by (simp add: extend_way_def kept_way_def shift_way_def split: prod.splits)

lemma fold_extend:
  "fold (extend_way mx high n x) xs d = fold merge_way (map (shift_way n x) (filter (kept_way mx high x) xs)) d"
  by (induction xs arbitrary: d) (simp_all add: extend_shift)

lemma map_of_shift:
  "map_of (map (shift_way n x) (filter (kept_way mx high x) xs)) (s, t) =
     (if 0 < s \<and> s \<le> mx \<and> t \<le> high
      then (case map_of xs (s - 1, t - x) of None \<Rightarrow> None | Some (w, i) \<Rightarrow> Some (w, i @ [n])) else None)"
  if "distinct (map fst xs)"
  using that
proof (induction xs)
  case (Cons e xs)
  obtain sz tot w i where e: "e = ((sz, tot), w, i)" by (metis surj_pair)
  have "map_of xs (sz, tot) = None" using Cons.prems e by (simp add: map_of_eq_None_iff)
  then show ?case using Cons e by (auto simp: kept_way_def shift_way_def split: option.splits)
qed simp

lemma shift_key: "fst (shift_way n x e) = (Suc (fst (fst e)), snd (fst e) + x)"
  by (simp add: shift_way_def split: prod.splits)

lemma shift_distinct:
  assumes "distinct (map fst xs)"
  shows "distinct (map fst (map (shift_way n x) (filter (kept_way mx high x) xs)))"
proof -
  have "distinct (map fst (filter (kept_way mx high x) xs))" using assms by (rule distinct_map_filter)
  then have "distinct (map (\<lambda>k. (Suc (fst k), snd k + x)) (map fst (filter (kept_way mx high x) xs)))"
    by (subst distinct_map) (auto intro!: inj_onI simp: prod_eq_iff)
  then show ?thesis by (simp add: shift_key o_def)
qed

lemma additions_get:
  assumes "distinct (map fst states)" "\<And>t. map_of states (0, t) = None" "x \<le> high" "0 < mx"
  shows "map_of (additions mx high n x states) (s, t) =
     (if 0 < s \<and> s \<le> mx \<and> t \<le> high
      then (case (if s = 1 \<and> t = x then Some (1, []) else map_of states (s - 1, t - x)) of
              None \<Rightarrow> None | Some (w, i) \<Rightarrow> Some (min w ways_cap, i @ [n])) else None)"
proof -
  let ?m = "map (shift_way n x) (filter (kept_way mx high x) states)"
  have f: "map_of (fold merge_way ?m []) k = combine None (map_of ?m k)" for k
    by (simp add: fold_merge_get[OF shift_distinct[OF assms(1)]])
  have "map_of ?m (1, x) = None" by (simp add: map_of_shift[OF assms(1)] assms(2))
  then have "map_of (additions mx high n x states) (s, t) =
      (if (s, t) = (1, x) then combine None (Some (1, [n])) else combine None (map_of ?m (s, t)))"
    unfolding additions_def fold_extend merge_way_get f by (simp add: combine_def)
  also have "\<dots> = (if 0 < s \<and> s \<le> mx \<and> t \<le> high
      then (case (if s = 1 \<and> t = x then Some (1, []) else map_of states (s - 1, t - x)) of
              None \<Rightarrow> None | Some (w, i) \<Rightarrow> Some (min w ways_cap, i @ [n])) else None)"
    using assms(3,4) by (auto simp: map_of_shift[OF assms(1)] combine_def split: option.splits)
  finally show ?thesis .
qed

lemma additions_distinct: "distinct (map fst (additions mx high n x states))"
  by (simp add: additions_def fold_extend merge_way_distinct fold_merge_distinct)

section \<open>The table is exact\<close>

definition entry_ok :: "int list \<Rightarrow> nat \<Rightarrow> int \<Rightarrow> nat \<Rightarrow> nat \<Rightarrow> int \<Rightarrow> (nat \<times> nat list) option \<Rightarrow> bool" where
  "entry_ok a mx high n s t v =
     (case v of
        None \<Rightarrow> \<not> (0 < s \<and> s \<le> mx \<and> t \<le> high \<and> subsets_of a n s t \<noteq> {})
      | Some (w, i) \<Rightarrow> 0 < s \<and> s \<le> mx \<and> t \<le> high \<and> w = cap_ways (card (subsets_of a n s t))
          \<and> sorted_wrt (<) i \<and> set i \<in> subsets_of a n s t)"

definition table_ok :: "int list \<Rightarrow> nat \<Rightarrow> int \<Rightarrow> nat \<Rightarrow> dp_entry list \<Rightarrow> bool" where
  "table_ok a mx high n states =
     (distinct (map fst states) \<and> (\<forall>s t. entry_ok a mx high n s t (map_of states (s, t))))"

lemma table_ok_entry: "table_ok a mx high n states \<Longrightarrow> entry_ok a mx high n s t (map_of states (s, t))"
  unfolding table_ok_def by blast

lemma table_ok_get:
  assumes "table_ok a mx high n states" "map_of states (s, t) = Some (w, i)"
  shows "0 < s \<and> s \<le> mx \<and> t \<le> high \<and> w = cap_ways (card (subsets_of a n s t))
     \<and> sorted_wrt (<) i \<and> set i \<in> subsets_of a n s t"
  using table_ok_entry[OF assms(1), of s t] unfolding assms(2) by (simp add: entry_ok_def)

lemma table_ok_none:
  assumes "table_ok a mx high n states" "map_of states (s, t) = None" "0 < s" "s \<le> mx" "t \<le> high"
  shows "subsets_of a n s t = {}"
  using table_ok_entry[OF assms(1), of s t] assms(3-) unfolding assms(2) by (simp add: entry_ok_def)

lemma table_ok_distinct: "table_ok a mx high n states \<Longrightarrow> distinct (map fst states)"
  unfolding table_ok_def by blast

lemma table_ok_start: "table_ok a mx high 0 []"
  by (simp add: table_ok_def entry_ok_def subsets_zero)

lemma table_ok_skip:
  assumes "table_ok a mx high n states" "\<not> 0 < a ! n \<or> high < a ! n"
  shows "table_ok a mx high (Suc n) states"
proof -
  have eq: "subsets_of a (Suc n) s t = subsets_of a n s t" if "t \<le> high" for s t
    using assms(2) subsets_Suc_skip subsets_Suc_large that by blast
  have "entry_ok a mx high (Suc n) s t v = entry_ok a mx high n s t v" for s t v
    using eq by (cases v) (auto simp: entry_ok_def)
  then show ?thesis using assms(1) unfolding table_ok_def by simp
qed

text \<open>One entry of the old and of the shifted table, the empty group included.\<close>

lemma shifted_entry:
  assumes ok: "table_ok a mx high n states" and s: "0 < s" "s \<le> mx" "t \<le> high" and x: "0 < a ! n" "a ! n \<le> high"
  defines "y \<equiv> map_of (additions mx high n (a ! n) states) (s, t)"
  shows "(y = None \<and> subsets_of a n (s - 1) (t - a ! n) = {})
    \<or> (\<exists>i. y = Some (cap_ways (card (subsets_of a n (s - 1) (t - a ! n))), i @ [n]) \<and> sorted_wrt (<) i
          \<and> set i \<in> subsets_of a n (s - 1) (t - a ! n))"
proof -
  have z: "map_of states (0, t) = None" for t using table_ok_get[OF ok, of 0] by (cases "map_of states (0, t)") auto
  note y = additions_get[OF table_ok_distinct[OF ok] z x(2), of mx n s t]
  have mx: "0 < mx" using s by simp
  show ?thesis
  proof (cases "s = 1")
    case True
    have "y = (if t = a ! n then Some (min 1 ways_cap, [n]) else None)"
      using s z[of "t - a ! n"] y[OF mx] True unfolding y_def by simp
    then show ?thesis unfolding True by (simp add: subsets_size_zero cap_ways_def)
  next
    case False
    then have s1: "0 < s - 1" "s - 1 \<le> mx" "t - a ! n \<le> high" using s x by auto
    show ?thesis
    proof (cases "map_of states (s - 1, t - a ! n)")
      case None
      then show ?thesis using table_ok_none[OF ok None s1] s False by (simp add: y_def y[OF mx])
    next
      case (Some wi)
      obtain w i where wi: "wi = (w, i)" by (cases wi)
      note g = table_ok_get[OF ok Some[unfolded wi]]
      have "y = Some (cap_ways (card (subsets_of a n (s - 1) (t - a ! n))), i @ [n])"
        using s False Some g by (simp add: y_def y[OF mx] wi cap_ways_def)
      then show ?thesis using g by blast
    qed
  qed
qed

lemma table_ok_step:
  assumes ok: "table_ok a mx high n states" and x: "0 < a ! n" "a ! n \<le> high" and mx: "0 < mx"
  shows "table_ok a mx high (Suc n) (fold merge_way (additions mx high n (a ! n) states) states)"
    (is "table_ok a mx high _ ?new")
proof -
  have z: "map_of states (0, t) = None" for t using table_ok_get[OF ok, of 0] by (cases "map_of states (0, t)") auto
  note get = fold_merge_get[OF additions_distinct, of mx high n "a ! n" states states]
  note add = additions_get[OF table_ok_distinct[OF ok] z x(2) mx]
  have "entry_ok a mx high (Suc n) s t (map_of ?new (s, t))" for s t
  proof (cases "0 < s \<and> s \<le> mx \<and> t \<le> high")
    case False
    then have "map_of states (s, t) = None" using table_ok_get[OF ok, of s t] by (cases "map_of states (s, t)") auto
    moreover have "map_of (additions mx high n (a ! n) states) (s, t) = None"
      unfolding add by (simp only: False if_False)
    ultimately have none: "map_of ?new (s, t) = None" by (simp add: get combine_def)
    show ?thesis unfolding none using False by (auto simp: entry_ok_def)
  next
    case True
    then obtain r where r: "s = Suc r" using gr0_conv_Suc by blast
    note sub = subsets_Suc[OF x(1), of r t] and sub_card = subsets_Suc_card[OF x(1), of r t]
    from True have s: "0 < s" "s \<le> mx" "t \<le> high" by blast+
    note sh = shifted_entry[OF ok s x]
    have snoc: "sorted_wrt (<) (i @ [n]) \<and> set (i @ [n]) \<in> subsets_of a (Suc n) s t"
      if "sorted_wrt (<) i" "set i \<in> subsets_of a n r (t - a ! n)" for i
    proof -
      have "set i \<subseteq> {..<n}" using that(2) by (simp add: subsets_of_def)
      then show ?thesis using that unfolding r sub by (auto simp: sorted_wrt_append)
    qed
    show ?thesis
    proof (cases "map_of states (s, t)")
      case None
      then have e: "subsets_of a n s t = {}" using table_ok_none[OF ok None s] by blast
      have c: "map_of ?new (s, t) = combine None (map_of (additions mx high n (a ! n) states) (s, t))"
        using get[of "(s, t)"] None by simp
      show ?thesis using sh
      proof
        assume "map_of (additions mx high n (a ! n) states) (s, t) = None \<and> subsets_of a n (s - 1) (t - a ! n) = {}"
        then show ?thesis unfolding c using e r sub by (simp add: combine_def entry_ok_def)
      next
        assume "\<exists>i. map_of (additions mx high n (a ! n) states) (s, t)
            = Some (cap_ways (card (subsets_of a n (s - 1) (t - a ! n))), i @ [n]) \<and> sorted_wrt (<) i
          \<and> set i \<in> subsets_of a n (s - 1) (t - a ! n)"
        then show ?thesis unfolding c using e r sub_card snoc s
          by (auto simp: combine_def entry_ok_def cap_ways_def)
      qed
    next
      case (Some wi)
      obtain w i where wi: "wi = (w, i)" by (cases wi)
      note g = table_ok_get[OF ok Some[unfolded wi]]
      have c: "map_of ?new (s, t) = combine (Some (w, i)) (map_of (additions mx high n (a ! n) states) (s, t))"
        using get[of "(s, t)"] Some wi by simp
      have mem: "set i \<in> subsets_of a (Suc n) s t" using g unfolding r sub by blast
      have w: "w = cap_ways (card (subsets_of a n s t))" using g by blast
      have "combine (Some (w, i)) (map_of (additions mx high n (a ! n) states) (s, t))
          = Some (cap_ways (card (subsets_of a (Suc n) s t)), i)"
        using sh
      proof
        assume "map_of (additions mx high n (a ! n) states) (s, t) = None \<and> subsets_of a n (s - 1) (t - a ! n) = {}"
        then show ?thesis using w r sub_card by (simp add: combine_def)
      next
        assume "\<exists>i. map_of (additions mx high n (a ! n) states) (s, t)
            = Some (cap_ways (card (subsets_of a n (s - 1) (t - a ! n))), i @ [n]) \<and> sorted_wrt (<) i
          \<and> set i \<in> subsets_of a n (s - 1) (t - a ! n)"
        then show ?thesis using w r sub_card by (auto simp: combine_def cap_ways_add)
      qed
      then have "map_of ?new (s, t) = Some (cap_ways (card (subsets_of a (Suc n) s t)), i)" using c by simp
      then show ?thesis using g mem s by (simp add: entry_ok_def)
    qed
  qed
  then show ?thesis unfolding table_ok_def using fold_merge_distinct[OF table_ok_distinct[OF ok]] by blast
qed

lemma dp_loop_ok:
  "\<lbrakk>dp_loop mx high max_states n rest states = Some final; rest = drop n a; n \<le> length a;
    table_ok a mx high n states; 0 < mx\<rbrakk> \<Longrightarrow> table_ok a mx high (length a) final"
proof (induction rest arbitrary: n states)
  case Nil
  then show ?case by (metis append_Nil2 append_take_drop_id dp_loop.simps(1) le_antisym length_drop list.size(3) option.inject diff_is_0_eq)
next
  case (Cons x rest)
  have n: "n < length a" "x = a ! n" "rest = drop (Suc n) a"
    using Cons.prems(2) by (metis Cons.prems(3) drop_all le_neq_implies_less list.discI order_refl,
        metis Cons_nth_drop_Suc drop_all leI list.discI list.inject, metis drop_Suc drop_tl list.sel(3))
  show ?case
  proof (cases "x \<le> 0 \<or> x > high")
    case True
    then have "table_ok a mx high (Suc n) states" using table_ok_skip[OF Cons.prems(4)] n by auto
    then show ?thesis using Cons.IH[of "Suc n" states] Cons.prems True n by simp
  next
    case False
    let ?s = "fold merge_way (additions mx high n x states) states"
    have "table_ok a mx high (Suc n) ?s" using table_ok_step[OF Cons.prems(4)] False n Cons.prems(5) by auto
    then show ?thesis using Cons.IH[of "Suc n" ?s] Cons.prems False n by (simp add: Let_def split: if_splits)
  qed
qed

section \<open>The verdict\<close>

text \<open>The index sets the caller asks about.\<close>

definition fitting :: "int list \<Rightarrow> int \<Rightarrow> int \<Rightarrow> nat \<Rightarrow> nat \<Rightarrow> nat set set" where
  "fitting a low high mn mx =
     {I. I \<subseteq> {..<length a} \<and> (\<forall>i \<in> I. 0 < a ! i) \<and> mn \<le> card I \<and> card I \<le> mx
        \<and> low \<le> (\<Sum>i\<in>I. a ! i) \<and> (\<Sum>i\<in>I. a ! i) \<le> high}"

lemma fitting_subsets: "I \<in> subsets_of a (length a) s t \<Longrightarrow> mn \<le> s \<Longrightarrow> s \<le> mx \<Longrightarrow> low \<le> t \<Longrightarrow> t \<le> high
   \<Longrightarrow> I \<in> fitting a low high mn mx"
  by (auto simp: subsets_of_def fitting_def)

lemma fitting_finite: "finite (fitting a low high mn mx)"
  by (rule finite_subset[of _ "Pow {..<length a}"]) (auto simp: fitting_def)

lemma subsets_key: "I \<in> subsets_of a n s t \<Longrightarrow> I \<in> subsets_of a n' s' t' \<Longrightarrow> (s, t) = (s', t')"
  by (simp add: subsets_of_def)

lemma table_entry:
  assumes "table_ok a mx high n states" "((s, t), w, i) \<in> set states"
  shows "0 < s \<and> s \<le> mx \<and> t \<le> high \<and> w = cap_ways (card (subsets_of a n s t))
     \<and> sorted_wrt (<) i \<and> set i \<in> subsets_of a n s t"
  using table_ok_get[OF assms(1)] map_of_is_SomeI[OF table_ok_distinct[OF assms(1)] assms(2)] by blast

definition hit :: "int \<Rightarrow> int \<Rightarrow> nat \<Rightarrow> dp_entry \<Rightarrow> bool" where
  "hit low high mn = (\<lambda>((sz, tot), _). sz \<ge> mn \<and> low \<le> tot \<and> tot \<le> high)"

lemma fitting_hit:
  assumes "table_ok a mx high (length a) states" "I \<in> fitting a low high mn mx" "0 < mn"
  shows "\<exists>w i. ((card I, \<Sum>j\<in>I. a ! j), w, i) \<in> set (filter (hit low high mn) states)"
proof -
  have I: "I \<in> subsets_of a (length a) (card I) (\<Sum>j\<in>I. a ! j)" using assms(2) by (simp add: fitting_def subsets_of_def)
  have b: "mn \<le> card I" "card I \<le> mx" "low \<le> (\<Sum>j\<in>I. a ! j)" "(\<Sum>j\<in>I. a ! j) \<le> high"
    using assms(2) by (simp_all add: fitting_def)
  have "0 < card I" using b(1) assms(3) by linarith
  then have "map_of states (card I, \<Sum>j\<in>I. a ! j) \<noteq> None"
    using table_ok_none[OF assms(1) _ _ b(2) b(4)] I by blast
  then obtain w i where "map_of states (card I, \<Sum>j\<in>I. a ! j) = Some (w, i)" by force
  then have "((card I, \<Sum>j\<in>I. a ! j), w, i) \<in> set states" by (rule map_of_SomeD)
  then show ?thesis using b by (auto simp: hit_def)
qed

lemma hit_fitting:
  assumes "table_ok a mx high (length a) states" "((s, t), w, i) \<in> set (filter (hit low high mn) states)"
  shows "subsets_of a (length a) s t \<subseteq> fitting a low high mn mx" "set i \<in> subsets_of a (length a) s t"
    "sorted_wrt (<) i" "w = cap_ways (card (subsets_of a (length a) s t))"
proof -
  have m: "((s, t), w, i) \<in> set states" and h: "hit low high mn ((s, t), w, i)" using assms(2) by auto
  note e = table_entry[OF assms(1) m]
  show "subsets_of a (length a) s t \<subseteq> fitting a low high mn mx"
    using fitting_subsets e h unfolding hit_def by fastforce
  show "set i \<in> subsets_of a (length a) s t" "sorted_wrt (<) i" "w = cap_ways (card (subsets_of a (length a) s t))"
    using e by blast+
qed

lemma two_members: "finite A \<Longrightarrow> x \<in> A \<Longrightarrow> y \<in> A \<Longrightarrow> x \<noteq> y \<Longrightarrow> 2 \<le> card A"
  using card_mono[of A "{x, y}"] by auto

lemma two_hits_ambiguous:
  assumes ok: "table_ok a mx high (length a) states"
    and h: "filter (hit low high mn) states = ((s, t), w, i) # others" and two: "others \<noteq> [] \<or> ways_cap \<le> w"
  shows "2 \<le> card (fitting a low high mn mx)"
  using two
proof
  assume "others \<noteq> []"
  then obtain s' t' w' i' rest where o: "others = ((s', t'), w', i') # rest" by (metis neq_Nil_conv surj_pair)
  have "distinct (map fst (filter (hit low high mn) states))"
    using table_ok_distinct[OF ok] by (rule distinct_map_filter)
  then have "(s, t) \<noteq> (s', t')" unfolding h o by simp
  moreover have m: "((s, t), w, i) \<in> set (filter (hit low high mn) states)"
    "((s', t'), w', i') \<in> set (filter (hit low high mn) states)" unfolding h o by simp_all
  ultimately have "set i \<noteq> set i'" using hit_fitting(2)[OF ok m(1)] hit_fitting(2)[OF ok m(2)] subsets_key by metis
  moreover have "set i \<in> fitting a low high mn mx" "set i' \<in> fitting a low high mn mx"
    using hit_fitting(1,2)[OF ok m(1)] hit_fitting(1,2)[OF ok m(2)] by blast+
  ultimately show ?thesis using two_members[OF fitting_finite] by blast
next
  assume c: "ways_cap \<le> w"
  have m: "((s, t), w, i) \<in> set (filter (hit low high mn) states)" unfolding h by simp
  have "2 \<le> card (subsets_of a (length a) s t)"
    using c hit_fitting(4)[OF ok m] by (simp add: cap_ways_def ways_cap_def)
  also have "\<dots> \<le> card (fitting a low high mn mx)" using hit_fitting(1)[OF ok m] by (rule card_mono[OF fitting_finite])
  finally show ?thesis .
qed

lemma one_hit_unique:
  assumes ok: "table_ok a mx high (length a) states" and mn: "0 < mn"
    and h: "filter (hit low high mn) states = [((s, t), w, i)]" and w: "\<not> ways_cap \<le> w"
  shows "fitting a low high mn mx = {set i}"
proof -
  have m: "((s, t), w, i) \<in> set (filter (hit low high mn) states)" unfolding h by simp
  have si: "set i \<in> subsets_of a (length a) s t" using hit_fitting(2)[OF ok m] .
  have "card (subsets_of a (length a) s t) \<noteq> 0" using si subsets_finite by (auto simp: card_eq_0_iff)
  moreover have "card (subsets_of a (length a) s t) < 2"
    using w hit_fitting(4)[OF ok m] by (simp add: cap_ways_def ways_cap_def)
  ultimately have "card (subsets_of a (length a) s t) = 1" by linarith
  then have one: "subsets_of a (length a) s t = {set i}" using si by (auto simp: card_1_singleton_iff)
  have "I = set i" if I: "I \<in> fitting a low high mn mx" for I
  proof -
    have "(card I, \<Sum>j\<in>I. a ! j) = (s, t)" using fitting_hit[OF ok I mn] unfolding h by auto
    then have "I \<in> subsets_of a (length a) s t" using I by (auto simp: fitting_def subsets_of_def)
    then show ?thesis using one by simp
  qed
  moreover have "set i \<in> fitting a low high mn mx" using hit_fitting(1)[OF ok m] si by blast
  ultimately show ?thesis by blast
qed

lemma table_size:
  assumes ok: "table_ok a mx high n states" shows "length states \<le> 2 ^ n"
proof -
  let ?f = "\<lambda>x. set (snd (snd x))"
  have e: "?f x \<in> subsets_of a n (fst (fst x)) (snd (fst x))" if m: "x \<in> set states" for x
  proof -
    obtain s t w i where x: "x = ((s, t), w, i)" by (metis surj_pair)
    show ?thesis using table_entry[OF ok m[unfolded x]] unfolding x by simp
  qed
  have "inj_on ?f (set states)"
  proof (rule inj_onI)
    fix x y assume m: "x \<in> set states" "y \<in> set states" and f: "?f x = ?f y"
    have "fst x = fst y" using subsets_key[OF e[OF m(1)]] e[OF m(2)] unfolding f by (simp add: prod_eq_iff)
    then show "x = y" by (rule distinct_map_inj[OF table_ok_distinct[OF ok] m])
  qed
  moreover have "?f ` set states \<subseteq> Pow {..<n}"
  proof
    fix A assume "A \<in> ?f ` set states"
    then obtain x where "x \<in> set states" "A = ?f x" by blast
    then show "A \<in> Pow {..<n}" using e[of x] by (simp add: subsets_of_def)
  qed
  ultimately have "card (set states) \<le> card (Pow {..<n})" by (rule card_inj_on_le) simp
  moreover have "card (set states) = length states"
    using table_ok_distinct[OF ok] by (simp add: distinct_card distinct_map)
  ultimately show ?thesis by (simp add: card_Pow)
qed

lemma dp_loop_none:
  "\<lbrakk>dp_loop mx high max_states n rest states = None; rest = drop n a; n \<le> length a;
    table_ok a mx high n states; 0 < mx\<rbrakk> \<Longrightarrow> max_states < 2 ^ length a"
proof (induction rest arbitrary: n states)
  case (Cons x rest)
  have n: "n < length a" "x = a ! n" "rest = drop (Suc n) a"
    using Cons.prems(2) by (metis Cons.prems(3) drop_all le_neq_implies_less list.discI order_refl,
        metis Cons_nth_drop_Suc drop_all leI list.discI list.inject, metis drop_Suc drop_tl list.sel(3))
  show ?case
  proof (cases "x \<le> 0 \<or> x > high")
    case True
    then have "table_ok a mx high (Suc n) states" using table_ok_skip[OF Cons.prems(4)] n by auto
    then show ?thesis using Cons.IH[of "Suc n" states] Cons.prems True n by simp
  next
    case False
    let ?s = "fold merge_way (additions mx high n x states) states"
    have ok: "table_ok a mx high (Suc n) ?s" using table_ok_step[OF Cons.prems(4)] False n Cons.prems(5) by auto
    show ?thesis
    proof (cases "int (length ?s) > max_states")
      case True
      have "length ?s \<le> 2 ^ Suc n" by (rule table_size[OF ok])
      also have "\<dots> \<le> (2::nat) ^ length a" using n(1) by (intro power_increasing) auto
      finally have "int (length ?s) \<le> int (2 ^ length a)" by (simp only: of_nat_le_iff)
      then have "int (length ?s) \<le> 2 ^ length a" by simp
      with True show ?thesis by (rule less_le_trans)
    next
      case False
      then show ?thesis using Cons.IH[OF _ n(3) _ ok Cons.prems(5)] Cons.prems(1) n(1) \<open>\<not> (x \<le> 0 \<or> x > high)\<close>
        by (simp add: Let_def)
    qed
  qed
qed simp

lemma search_verdict:
  assumes "find_unique_subset amounts low high min_size max_size max_states = Inr found"
  shows "case ss_outcome found of
      UNIQUE \<Rightarrow> fitting amounts low high min_size max_size = {set (ss_indices found)}
                \<and> sorted_wrt (<) (ss_indices found)
                \<and> ss_total found = (\<Sum>i\<in>set (ss_indices found). amounts ! i)
    | NONE \<Rightarrow> fitting amounts low high min_size max_size = {}
    | AMBIGUOUS \<Rightarrow> 2 \<le> card (fitting amounts low high min_size max_size)
    | TOO_COMPLEX \<Rightarrow> max_states < 2 ^ length amounts"
proof -
  have v: "\<not> low > high" "\<not> (min_size < 1 \<or> max_size < min_size)"
    using assms by (auto simp: find_unique_subset_def split: if_splits)
  then have pos: "0 < max_size" "0 < min_size" by auto
  note run = assms[unfolded find_unique_subset_def if_not_P[OF v(1)] if_not_P[OF v(2)]]
  show ?thesis
  proof (cases "dp_loop max_size high max_states 0 amounts []")
    case None
    then have "found = \<lparr>ss_outcome = TOO_COMPLEX, ss_indices = [], ss_total = 0\<rparr>" using run by simp
    then show ?thesis using dp_loop_none[OF None _ _ table_ok_start pos(1)] by simp
  next
    case (Some states)
    have ok: "table_ok amounts max_size high (length amounts) states"
      using dp_loop_ok[OF Some _ _ table_ok_start pos(1)] by simp
    note run = run[unfolded Some option.case, folded hit_def]
    show ?thesis
    proof (cases "filter (hit low high min_size) states")
      case Nil
      then have "found = \<lparr>ss_outcome = NONE, ss_indices = [], ss_total = 0\<rparr>" using run by simp
      moreover have "fitting amounts low high min_size max_size = {}"
        using fitting_hit[OF ok _ pos(2), of _ low] unfolding Nil by fastforce
      ultimately show ?thesis by simp
    next
      case (Cons e others)
      obtain s t w i where e: "e = ((s, t), w, i)" by (metis surj_pair)
      note h = Cons[unfolded e]
      show ?thesis
      proof (cases "others \<noteq> [] \<or> ways_cap \<le> w")
        case True
        then have "found = \<lparr>ss_outcome = AMBIGUOUS, ss_indices = [], ss_total = 0\<rparr>" using run h by simp
        then show ?thesis using two_hits_ambiguous[OF ok h True] by simp
      next
        case False
        then have f: "found = \<lparr>ss_outcome = UNIQUE, ss_indices = i, ss_total = t\<rparr>" using run h by simp
        have h1: "filter (hit low high min_size) states = [((s, t), w, i)]" using h False by simp
        have m: "((s, t), w, i) \<in> set (filter (hit low high min_size) states)" unfolding h1 by simp
        have "t = (\<Sum>j\<in>set i. amounts ! j)" using hit_fitting(2)[OF ok m] by (simp add: subsets_of_def)
        then show ?thesis
          using one_hit_unique[OF ok pos(2) h1] hit_fitting(3)[OF ok m] False unfolding f by simp
      qed
    qed
  qed
qed

lemma search_unique:
  assumes "find_unique_subset amounts low high min_size max_size max_states = Inr found" "ss_outcome found = UNIQUE"
  shows "sorted_wrt (<) (ss_indices found)" "set (ss_indices found) \<in> fitting amounts low high min_size max_size"
  using search_verdict[OF assms(1)] assms(2) by simp_all

text \<open>C20. The verdict of the subset search is exact: UNIQUE names the only group
  of between \<open>min_size\<close> and \<open>max_size\<close> positive amounts whose sum is in the
  interval, NONE means there is none, AMBIGUOUS at least two, and TOO_COMPLEX
  cannot happen while the table bound is at least the number of groups.\<close>

theorem find_unique_subset_exact:
  assumes "find_unique_subset amounts low high min_size max_size max_states = Inr found"
  shows "case ss_outcome found of
      UNIQUE \<Rightarrow> fitting amounts low high min_size max_size = {set (ss_indices found)}
                \<and> sorted_wrt (<) (ss_indices found)
                \<and> ss_total found = (\<Sum>i\<in>set (ss_indices found). amounts ! i)
    | NONE \<Rightarrow> fitting amounts low high min_size max_size = {}
    | AMBIGUOUS \<Rightarrow> 2 \<le> card (fitting amounts low high min_size max_size)
    | TOO_COMPLEX \<Rightarrow> max_states < 2 ^ length amounts"
  using assms by (rule search_verdict)

lemma find_unique_subset_exact_witness:
  "fitting [100, 250, 400] 650 650 2 10 = {{1, 2}}"
proof -
  have "find_unique_subset [100, 250, 400] 650 650 2 10 default_max_states =
     Inr \<lparr>ss_outcome = UNIQUE, ss_indices = [1, 2], ss_total = 650\<rparr>" using subset_small by blast
  from find_unique_subset_exact[OF this] show ?thesis by simp
qed

end
