(* ===== verification/Rules.thy ===== *)
theory Rules
  imports Stage Scoring Fx
begin

text \<open>
  Model of the rule level: the rules and their registry
  (\<open>matching/rules\<close>), the per-bank stage configuration
  (\<open>matching/stage_config.py\<close>, the matching fields of \<open>config/models.py\<close>) and
  the strategy that applies the registry to blocked candidates
  (\<open>matching/strategies/rule_based.py\<close>). A rule meets the interface
  \<open>matching_rule\<close>: it only accepts a pair with the same non-empty reference,
  currency and direction. Explanations are not modelled.
\<close>

section \<open>Rules and the registry\<close>

record rule_result =
  rr_matched :: bool
  rr_confidence :: rat

record rule =
  ru_name :: string
  ru_priority :: int
  ru_evaluate :: "txn \<Rightarrow> txn \<Rightarrow> rule_result"

type_synonym registry = "rule list"

definition register :: "rule \<Rightarrow> registry \<Rightarrow> registry res" where
  "register r rules =
     (if list_ex (\<lambda>x. ru_name x = ru_name r) rules then Inl ValueError
      else Inr (sort_key ru_priority (rules @ [r])))"

fun evaluate_registry :: "registry \<Rightarrow> txn \<Rightarrow> txn \<Rightarrow> (rule \<times> rule_result) option" where
  "evaluate_registry [] i e = None"
| "evaluate_registry (r # rules) i e =
     (let result = ru_evaluate r i e in
      if rr_matched result then Some (r, result) else evaluate_registry rules i e)"

definition decline :: rule_result where
  "decline = \<lparr>rr_matched = False, rr_confidence = 0\<rparr>"

definition reference_of :: "txn \<Rightarrow> string" where
  "reference_of t = text_of (t_ref t)"

text \<open>\<open>AmountToleranceRule\<close>: overrides per currency as an association list.\<close>

definition tolerance_for :: "int \<Rightarrow> (string \<times> int) list \<Rightarrow> string \<Rightarrow> int" where
  "tolerance_for dflt overrides c = (case map_of overrides c of None \<Rightarrow> dflt | Some v \<Rightarrow> v)"

definition evaluate_amount ::
    "int \<Rightarrow> (string \<times> int) list \<Rightarrow> int \<Rightarrow> rat \<Rightarrow> txn \<Rightarrow> txn \<Rightarrow> rule_result" where
  "evaluate_amount dflt overrides max_days conf i e =
     (if t_currency i \<noteq> t_currency e then decline
      else if t_direction i \<noteq> t_direction e then decline
      else if reference_of i = [] \<or> reference_of e = [] \<or> reference_of i \<noteq> reference_of e then decline
      else if \<bar>t_date i - t_date e\<bar> > max_days then decline
      else if \<bar>t_amount_minor i - t_amount_minor e\<bar> > tolerance_for dflt overrides (t_currency i) then decline
      else \<lparr>rr_matched = True, rr_confidence = conf\<rparr>)"

definition amount_tolerance_rule :: "int \<Rightarrow> (string \<times> int) list \<Rightarrow> int \<Rightarrow> rat \<Rightarrow> rule res" where
  "amount_tolerance_rule dflt overrides max_days conf =
     (if dflt < 0 \<or> list_ex (\<lambda>(_, v). v < 0) overrides then Inl ValueError
      else if max_days < 0 then Inl ValueError
      else if \<not> (0 < conf \<and> conf \<le> 1) then Inl ValueError
      else Inr \<lparr>ru_name = ''AMOUNT_TOLERANCE'', ru_priority = 10,
                ru_evaluate = evaluate_amount dflt overrides max_days conf\<rparr>)"

text \<open>\<open>DateOffsetRule\<close>.\<close>

definition evaluate_offset :: "calendar \<Rightarrow> int \<Rightarrow> rat \<Rightarrow> txn \<Rightarrow> txn \<Rightarrow> rule_result" where
  "evaluate_offset cal max_days conf i e =
     (if (t_currency i, t_direction i) \<noteq> (t_currency e, t_direction e) then decline
      else if reference_of i = [] \<or> t_ref i \<noteq> t_ref e then decline
      else if t_amount_minor i \<noteq> t_amount_minor e then decline
      else (let gap = business_days_between cal (t_date i) (t_date e) in
            if gap = 0 then decline
            else if int gap > max_days then decline
            else \<lparr>rr_matched = True, rr_confidence = conf\<rparr>))"

definition date_offset_rule :: "calendar \<Rightarrow> int \<Rightarrow> rat \<Rightarrow> rule res" where
  "date_offset_rule cal max_days conf =
     (if max_days < 0 then Inl ValueError
      else if \<not> (0 < conf \<and> conf \<le> 1) then Inl ValueError
      else Inr \<lparr>ru_name = ''DATE_OFFSET'', ru_priority = 20, ru_evaluate = evaluate_offset cal max_days conf\<rparr>)"

section \<open>Configuration of the stage\<close>

record group_config =
  gc_max_split :: nat
  gc_max_netted :: nat
  gc_max_search :: nat
  gc_max_states :: int
  gc_date_window :: int
  gc_tolerance :: int
  gc_fx_tolerance :: rat
  gc_party_prefix :: int
  gc_min_stem :: nat

definition default_group_config :: group_config where
  "default_group_config =
     \<lparr>gc_max_split = 10, gc_max_netted = 50, gc_max_search = 24, gc_max_states = 200000, gc_date_window = 2,
      gc_tolerance = 1, gc_fx_tolerance = 3 / 2, gc_party_prefix = 8, gc_min_stem = 4\<rparr>"

text \<open>The fields of \<open>BankConfig\<close> matching, classification and the runs read.\<close>

record fee_schedule =
  fs_fixed :: int
  fs_percent :: rat
  fs_tolerance :: int

record csv_config =
  cv_delimiter :: char
  cv_mapping :: "(string \<times> string) list"
  cv_date_format :: string
  cv_decimal :: string
  cv_thousands :: "string option"

text \<open>\<open>bk_mt940\<close> is the decimal separator of the MT940 section.\<close>

record bank_config =
  bk_code :: string
  bk_name :: string
  bk_version :: string
  bk_formats :: "string list"
  bk_timezone :: string
  bk_currency :: string
  bk_settlement_cycle :: string
  bk_window_days :: int
  bk_csv :: "csv_config option"
  bk_mt940 :: "string option"
  bk_calendar :: string
  bk_date_offset :: "int option"
  bk_amount_tolerance :: int
  bk_fx_tolerance :: rat
  bk_fee :: "fee_schedule option"
  bk_expected_time :: "string option"

text \<open>N of a cycle \<open>T+N\<close>, read from the stripped upper case text; 1 otherwise.\<close>

definition settlement_days :: "bank_config \<Rightarrow> int" where
  "settlement_days bank =
     (case to_upper (strip (bk_settlement_cycle bank)) of
        a # b # ds \<Rightarrow>
          (if a = CHR ''T'' \<and> b = CHR ''+'' \<and> ds \<noteq> [] \<and> list_all is_digit ds then int (digits_val ds) else 1)
      | _ \<Rightarrow> 1)"

definition date_offset_days :: "bank_config \<Rightarrow> int" where
  "date_offset_days bank =
     (case bk_date_offset bank of Some n \<Rightarrow> n | None \<Rightarrow> max 1 (settlement_days bank))"

text \<open>0.01 in minor units for every known currency whose exponent is not 2.\<close>

definition penny_tolerances :: "(string \<times> int) list \<Rightarrow> (string \<times> int) list" where
  "penny_tolerances known =
     map (\<lambda>(c, e). (c, if e \<ge> 2 then 10 ^ nat (e - 2) else 0)) (filter (\<lambda>(_, e). e \<noteq> 2) known)"

record rule_stage_config =
  rs_registry :: registry
  rs_group :: group_config
  rs_fx_tolerance :: rat

definition build_rule_stage ::
    "(string \<Rightarrow> calendar res) \<Rightarrow> (string \<times> int) list \<Rightarrow> bank_config option \<Rightarrow> rule_stage_config res" where
  "build_rule_stage calendars known bank =
     (let tol = (case bank of None \<Rightarrow> 1 | Some b \<Rightarrow> bk_amount_tolerance b);
          fx_tol = (case bank of None \<Rightarrow> 3 / 2 | Some b \<Rightarrow> bk_fx_tolerance b);
          offset = (case bank of None \<Rightarrow> 1 | Some b \<Rightarrow> date_offset_days b)
      in bind_res (calendars (case bank of None \<Rightarrow> ''in'' | Some b \<Rightarrow> bk_calendar b)) (\<lambda>cal.
         bind_res (amount_tolerance_rule tol (penny_tolerances known) 3 (90 / 100)) (\<lambda>amount.
         bind_res (register amount []) (\<lambda>reg.
         bind_res (date_offset_rule cal offset (90 / 100)) (\<lambda>dates.
         bind_res (register dates reg) (\<lambda>reg.
           Inr \<lparr>rs_registry = reg,
                rs_group = default_group_config\<lparr>gc_tolerance := tol, gc_fx_tolerance := fx_tol,
                                                gc_date_window := max 2 offset\<rparr>,
                rs_fx_tolerance = fx_tol\<rparr>))))))"

section \<open>The strategy\<close>

record rule_outcome =
  rl_auto :: nat
  rl_review :: nat
  rl_ambiguous :: nat
  rl_conflicts :: nat
  rl_ids :: "nat list"

definition rule_hits :: "registry \<Rightarrow> txn list \<Rightarrow> txn \<Rightarrow> (txn \<times> rule \<times> rule_result) list" where
  "rule_hits reg candidates e =
     concat (map (\<lambda>i. case evaluate_registry reg i e of None \<Rightarrow> [] | Some (r, x) \<Rightarrow> [(i, r, x)]) candidates)"

definition rule_row :: "string \<Rightarrow> txn \<Rightarrow> txn \<Rightarrow> string \<Rightarrow> rat \<Rightarrow> bool \<Rightarrow> nat \<Rightarrow> result" where
  "rule_row run_id i e name conf auto n =
     \<lparr>r_id = 0, r_run = run_id, r_type = RULE, r_status = (if auto then AUTO_MATCHED else PENDING_REVIEW),
      r_confidence = conf, r_internal = t_id i, r_external = t_id e, r_rule = Some name, r_group = None,
      r_candidates = n, r_date = t_date e, r_reviewed_by = None, r_reviewed_at = None\<rparr>"

definition rule_step ::
    "string \<Rightarrow> registry \<Rightarrow> rat \<Rightarrow> generator \<Rightarrow> (nat \<times> nat) list \<Rightarrow> txn
     \<Rightarrow> nat list \<times> rule_outcome \<times> db \<Rightarrow> (nat list \<times> rule_outcome \<times> db) res" where
  "rule_step run_id reg auto_at g rejected e s =
     (case s of (consumed, out, db) \<Rightarrow>
        bind_res (generate g e) (\<lambda>cs.
          (let avail = filter (\<lambda>c. t_id c \<notin> set consumed \<and> (t_id c, t_id e) \<notin> set rejected) (cs_candidates cs);
               hits = rule_hits reg avail e
           in case hits of
                [] \<Rightarrow> Inr s
              | (i, r, x) # others \<Rightarrow>
                  if others \<noteq> [] \<or> cs_truncated cs
                  then Inr (consumed, out\<lparr>rl_ambiguous := rl_ambiguous out + 1\<rparr>, db)
                  else (let conf = quantise3 (rr_confidence x); auto = (conf > auto_at) in
                        bind_res (record_pair (t_id i) (t_id e)
                                    (rule_row run_id i e (ru_name r) conf auto (length avail)) auto db) (\<lambda>p.
                          (case p of
                             (None, db') \<Rightarrow> Inr (consumed, out\<lparr>rl_conflicts := rl_conflicts out + 1\<rparr>, db')
                           | (Some rid, db') \<Rightarrow>
                               Inr (t_id i # consumed,
                                    (if auto then out\<lparr>rl_auto := rl_auto out + 1, rl_ids := rl_ids out @ [rid]\<rparr>
                                     else out\<lparr>rl_review := rl_review out + 1, rl_ids := rl_ids out @ [rid]\<rparr>),
                                    db')))))))"

fun rule_loop ::
    "string \<Rightarrow> registry \<Rightarrow> rat \<Rightarrow> generator \<Rightarrow> (nat \<times> nat) list \<Rightarrow> txn list
     \<Rightarrow> nat list \<times> rule_outcome \<times> db \<Rightarrow> (nat list \<times> rule_outcome \<times> db) res" where
  "rule_loop run_id reg auto_at g rejected [] s = Inr s"
| "rule_loop run_id reg auto_at g rejected (e # es) s =
     bind_res (rule_step run_id reg auto_at g rejected e s) (rule_loop run_id reg auto_at g rejected es)"

definition rule_run ::
    "string \<Rightarrow> registry \<Rightarrow> blocking_config \<Rightarrow> matching_config \<Rightarrow> txn list \<Rightarrow> txn list \<Rightarrow> db \<Rightarrow> (rule_outcome \<times> db) res" where
  "rule_run run_id reg bcfg cfg ints exts db =
     bind_res (candidate_generator ints bcfg) (\<lambda>g.
     bind_res (rule_loop run_id reg (th_auto (mc_thresholds cfg)) g (rejected_pairs db (map t_id ints)) exts
                 ([], \<lparr>rl_auto = 0, rl_review = 0, rl_ambiguous = 0, rl_conflicts = 0, rl_ids = []\<rparr>, db))
       (\<lambda>(_, out, db'). Inr (out, db')))"

section \<open>The interface of a rule\<close>

definition same_reference :: "txn \<Rightarrow> txn \<Rightarrow> bool" where
  "same_reference i e =
     (t_currency i = t_currency e \<and> t_direction i = t_direction e
      \<and> reference_of i \<noteq> [] \<and> reference_of i = reference_of e)"

text \<open>A rule accepts only pairs with the same reference, with a confidence in (0, 1].\<close>

locale matching_rule =
  fixes evaluate :: "txn \<Rightarrow> txn \<Rightarrow> rule_result"
  assumes accepts_same: "rr_matched (evaluate i e) \<Longrightarrow> same_reference i e"
    and accepts_symmetric: "rr_matched (evaluate i e) \<Longrightarrow> rr_matched (evaluate e i)"
begin

lemma declines_other: "\<not> same_reference i e \<Longrightarrow> \<not> rr_matched (evaluate i e)"
  using accepts_same by blast

end

lemma business_days_sym: "business_days_between cal a b = business_days_between cal b a"
  by (cases "a = b") (auto simp: business_days_between_def)

interpretation amount_rule: matching_rule "evaluate_amount dflt overrides max_days conf"
  by unfold_locales (auto simp: evaluate_amount_def decline_def same_reference_def abs_minus_commute split: if_splits)

interpretation offset_rule: matching_rule "evaluate_offset cal max_days conf"
proof
  fix i e
  show "rr_matched (evaluate_offset cal max_days conf i e) \<Longrightarrow> same_reference i e"
    by (auto simp: evaluate_offset_def decline_def same_reference_def reference_of_def split: if_splits)
  show "rr_matched (evaluate_offset cal max_days conf i e) \<Longrightarrow> rr_matched (evaluate_offset cal max_days conf e i)"
    using business_days_sym[of cal "t_date i" "t_date e"]
    by (auto simp: evaluate_offset_def decline_def reference_of_def Let_def split: if_splits)
qed

section \<open>The strategy keeps the ledger\<close>

definition rule_pair :: "registry \<Rightarrow> (nat \<times> nat) list \<Rightarrow> txn list \<Rightarrow> txn list \<Rightarrow> nat \<times> nat \<Rightarrow> bool" where
  "rule_pair reg rejected ints exts p =
     (p \<notin> set rejected
      \<and> (\<exists>i \<in> set ints. \<exists>e \<in> set exts. p = (t_id i, t_id e) \<and> evaluate_registry reg i e \<noteq> None))"

lemma rule_row_pair: "pair_row (t_id i) (t_id e) auto (rule_row run_id i e name conf auto n)"
  by (simp add: pair_row_def rule_row_def live_def settled_def)

lemma rule_hits_in:
  "(i, r, x) \<in> set (rule_hits reg cands e) \<Longrightarrow> i \<in> set cands \<and> evaluate_registry reg i e = Some (r, x)"
  by (auto simp: rule_hits_def split: option.splits)

lemma rule_step_keeps:
  assumes "rule_step run_id reg auto_at g rejected e (consumed, out, db) = Inr (consumed', out', db')"
    and g: "candidate_generator ints bcfg = Inr g" and e: "e \<in> set exts"
  shows "keeps (rule_pair reg rejected ints exts) db db'"
proof -
  obtain cs where cs: "generate g e = Inr cs" using assms(1) by (auto simp: rule_step_def res_iff)
  let ?av = "filter (\<lambda>c. t_id c \<notin> set consumed \<and> (t_id c, t_id e) \<notin> set rejected) (cs_candidates cs)"
  show ?thesis
  proof (cases "rule_hits reg ?av e")
    case Nil
    then show ?thesis using assms(1) cs by (simp add: rule_step_def Let_def)
  next
    case (Cons h others)
    obtain i r x where h: "h = (i, r, x)" by (cases h)
    have i: "i \<in> set ?av" "evaluate_registry reg i e = Some (r, x)"
      using rule_hits_in[of i r x reg ?av e] Cons h by auto
    have "i \<in> set ints" using generate_in[OF g cs] i(1) by simp
    then have P: "rule_pair reg rejected ints exts (t_id i, t_id e)"
      using i e by (auto simp: rule_pair_def)
    show ?thesis
    proof (cases "others \<noteq> [] \<or> cs_truncated cs")
      case True
      then show ?thesis using assms(1) cs Cons h by (simp add: rule_step_def Let_def)
    next
      case False
      define auto where "auto = (quantise3 (rr_confidence x) > auto_at)"
      obtain y d where rp: "record_pair (t_id i) (t_id e)
          (rule_row run_id i e (ru_name r) (quantise3 (rr_confidence x)) auto (length ?av)) auto db = Inr (y, d)"
        using assms(1) cs Cons h False by (auto simp: rule_step_def Let_def auto_def res_iff)
      have "db' = d" using assms(1) cs Cons h False rp
        by (cases y) (auto simp: rule_step_def Let_def auto_def[symmetric])
      then show ?thesis using record_pair_keeps[OF rp rule_row_pair, of "rule_pair reg rejected ints exts"] P by simp
    qed
  qed
qed

lemma rule_loop_keeps:
  "\<lbrakk>rule_loop run_id reg auto_at g rejected es (consumed, out, db) = Inr (consumed', out', db');
    candidate_generator ints bcfg = Inr g; set es \<subseteq> set exts\<rbrakk> \<Longrightarrow> keeps (rule_pair reg rejected ints exts) db db'"
proof (induction es arbitrary: consumed out db)
  case (Cons e es)
  obtain c1 o1 d1 where s: "rule_step run_id reg auto_at g rejected e (consumed, out, db) = Inr (c1, o1, d1)"
    and l: "rule_loop run_id reg auto_at g rejected es (c1, o1, d1) = Inr (consumed', out', db')"
    using Cons.prems(1) by (auto simp: res_iff)
  show ?case
    using keeps_trans rule_step_keeps[OF s Cons.prems(2)] Cons.IH[OF l Cons.prems(2)] Cons.prems(3) by force
qed simp

lemma rule_run_keeps:
  assumes "rule_run run_id reg bcfg cfg ints exts db = Inr (out, db')"
  shows "keeps (rule_pair reg (rejected_pairs db (map t_id ints)) ints exts) db db'"
proof -
  obtain g c where g: "candidate_generator ints bcfg = Inr g"
    and l: "rule_loop run_id reg (th_auto (mc_thresholds cfg)) g (rejected_pairs db (map t_id ints)) exts
      ([], \<lparr>rl_auto = 0, rl_review = 0, rl_ambiguous = 0, rl_conflicts = 0, rl_ids = []\<rparr>, db) = Inr (c, out, db')"
    using assms by (auto simp: rule_run_def res_iff)
  show ?thesis by (rule rule_loop_keeps[OF l g order_refl])
qed

interpretation rule_stage: matching_stage "rule_run run_id reg bcfg cfg"
proof
  fix ints exts db out db'
  assume r: "rule_run run_id reg bcfg cfg ints exts db = Inr (out, db')" and l: "ledger_ok db"
  show "ledger_ok db'" using keeps_ok[OF rule_run_keeps[OF r] l] by blast
  show "grows (stage_pair db ints exts) db db'"
    by (rule grows_mono[OF conjunct2[OF keeps_ok[OF rule_run_keeps[OF r] l]]])
       (auto simp: rule_pair_def stage_pair_def)
qed

section \<open>The configured rules\<close>

lemma insort_pair: "sort_key f [a, b] = (if f a \<le> f b then [a, b] else [b, a])"
  by simp

lemma build_rule_stage_registry:
  assumes "build_rule_stage calendars known bank = Inr st"
  shows "\<exists>cal tol offset. rs_registry st =
     [\<lparr>ru_name = ''AMOUNT_TOLERANCE'', ru_priority = 10, ru_evaluate = evaluate_amount tol (penny_tolerances known) 3 (90 / 100)\<rparr>,
      \<lparr>ru_name = ''DATE_OFFSET'', ru_priority = 20, ru_evaluate = evaluate_offset cal offset (90 / 100)\<rparr>]
     \<and> tol = (case bank of None \<Rightarrow> 1 | Some b \<Rightarrow> bk_amount_tolerance b)
     \<and> offset = (case bank of None \<Rightarrow> 1 | Some b \<Rightarrow> date_offset_days b)
     \<and> calendars (case bank of None \<Rightarrow> ''in'' | Some b \<Rightarrow> bk_calendar b) = Inr cal"
  using assms
  by (auto simp: build_rule_stage_def Let_def res_iff amount_tolerance_rule_def date_offset_rule_def register_def
      split: if_splits)

definition within_rules :: "int \<Rightarrow> (string \<times> int) list \<Rightarrow> calendar \<Rightarrow> int \<Rightarrow> txn \<Rightarrow> txn \<Rightarrow> bool" where
  "within_rules tol known cal offset i e =
     (\<bar>t_amount_minor i - t_amount_minor e\<bar> \<le> tolerance_for tol (penny_tolerances known) (t_currency i)
        \<and> \<bar>t_date i - t_date e\<bar> \<le> 3
      \<or> t_amount_minor i = t_amount_minor e
        \<and> 1 \<le> business_days_between cal (t_date i) (t_date e)
        \<and> int (business_days_between cal (t_date i) (t_date e)) \<le> offset)"

lemma registry_accepts:
  assumes "evaluate_registry
     [\<lparr>ru_name = n1, ru_priority = p1, ru_evaluate = evaluate_amount tol (penny_tolerances known) 3 c1\<rparr>,
      \<lparr>ru_name = n2, ru_priority = p2, ru_evaluate = evaluate_offset cal offset c2\<rparr>] i e \<noteq> None"
  shows "same_reference i e \<and> within_rules tol known cal offset i e"
proof -
  have "rr_matched (evaluate_amount tol (penny_tolerances known) 3 c1 i e) \<or> rr_matched (evaluate_offset cal offset c2 i e)"
    using assms by (auto simp: Let_def split: if_splits)
  then show ?thesis
  proof
    assume a: "rr_matched (evaluate_amount tol (penny_tolerances known) 3 c1 i e)"
    then show ?thesis using amount_rule.accepts_same[OF a]
      by (auto simp: within_rules_def evaluate_amount_def decline_def split: if_splits)
  next
    assume a: "rr_matched (evaluate_offset cal offset c2 i e)"
    then show ?thesis using offset_rule.accepts_same[OF a]
      by (auto simp: within_rules_def evaluate_offset_def decline_def Let_def split: if_splits)
  qed
qed

section \<open>Properties\<close>

text \<open>Every pair the configured rule stage adds has the same non-empty
  reference, currency and direction on both sides and is either within the
  amount tolerance of its currency and three days apart at most, or of equal
  amounts and one to N business days apart, N as configured; it was never
  rejected, and the ledger stays consistent.\<close>

theorem rule_stage_sound:
  assumes "build_rule_stage calendars known bank = Inr st"
    and "rule_run run_id (rs_registry st) bcfg cfg ints exts db = Inr (out, db')" and "ledger_ok db"
  shows "ledger_ok db' \<and> (\<exists>cal. calendars (case bank of None \<Rightarrow> ''in'' | Some b \<Rightarrow> bk_calendar b) = Inr cal
     \<and> grows (\<lambda>p. p \<notin> set (rejected_pairs db (map t_id ints))
          \<and> (\<exists>i \<in> set ints. \<exists>e \<in> set exts. p = (t_id i, t_id e) \<and> same_reference i e
               \<and> within_rules (case bank of None \<Rightarrow> 1 | Some b \<Rightarrow> bk_amount_tolerance b) known cal
                   (case bank of None \<Rightarrow> 1 | Some b \<Rightarrow> date_offset_days b) i e)) db db')"
proof -
  let ?tol = "case bank of None \<Rightarrow> 1 | Some b \<Rightarrow> bk_amount_tolerance b"
  let ?off = "case bank of None \<Rightarrow> 1 | Some b \<Rightarrow> date_offset_days b"
  obtain cal where reg: "rs_registry st =
     [\<lparr>ru_name = ''AMOUNT_TOLERANCE'', ru_priority = 10, ru_evaluate = evaluate_amount ?tol (penny_tolerances known) 3 (90 / 100)\<rparr>,
      \<lparr>ru_name = ''DATE_OFFSET'', ru_priority = 20, ru_evaluate = evaluate_offset cal ?off (90 / 100)\<rparr>]"
    and cal: "calendars (case bank of None \<Rightarrow> ''in'' | Some b \<Rightarrow> bk_calendar b) = Inr cal"
    using build_rule_stage_registry[OF assms(1)] by blast
  note k = keeps_ok[OF rule_run_keeps[OF assms(2)] assms(3)]
  have "grows (\<lambda>p. p \<notin> set (rejected_pairs db (map t_id ints))
          \<and> (\<exists>i \<in> set ints. \<exists>e \<in> set exts. p = (t_id i, t_id e) \<and> same_reference i e
               \<and> within_rules ?tol known cal ?off i e)) db db'"
  proof (rule grows_mono[OF conjunct2[OF k]])
    fix p assume p: "rule_pair (rs_registry st) (rejected_pairs db (map t_id ints)) ints exts p"
    then obtain i e where ie: "i \<in> set ints" "e \<in> set exts" "p = (t_id i, t_id e)"
      "evaluate_registry (rs_registry st) i e \<noteq> None" unfolding rule_pair_def by blast
    note acc = registry_accepts[OF ie(4)[unfolded reg]]
    show "p \<notin> set (rejected_pairs db (map t_id ints))
          \<and> (\<exists>i \<in> set ints. \<exists>e \<in> set exts. p = (t_id i, t_id e) \<and> same_reference i e
               \<and> within_rules ?tol known cal ?off i e)"
      using p ie(1-3) acc unfolding rule_pair_def by blast
  qed
  then show ?thesis using k cal by blast
qed

definition sample_calendar :: "string \<Rightarrow> calendar res" where
  "sample_calendar name = Inr \<lparr>cal_name = name, holidays = [], years = []\<rparr>"

definition sample_near :: db where
  "sample_near = sample_db [sample_txn 3 INTERNAL 500 ''REF1'' 10, sample_txn 4 EXTERNAL 501 ''REF1'' 11]"

lemma sample_near_ok: "ledger_ok sample_near"
  unfolding sample_near_def by (rule sample_ok) (simp_all add: sample_txn_def)

lemma sample_rule_run:
  assumes "build_rule_stage sample_calendar [(''INR'', 2), (''JPY'', 0)] None = Inr st"
  shows "\<exists>out db'. rule_run ''r'' (rs_registry st) sample_blocking shipped_config
     [sample_txn 3 INTERNAL 500 ''REF1'' 10] [sample_txn 4 EXTERNAL 501 ''REF1'' 11] sample_near = Inr (out, db')
     \<and> rl_auto out = 1"
proof -
  obtain cal where reg: "rs_registry st =
     [\<lparr>ru_name = ''AMOUNT_TOLERANCE'', ru_priority = 10,
       ru_evaluate = evaluate_amount 1 (penny_tolerances [(''INR'', 2), (''JPY'', 0)]) 3 (90 / 100)\<rparr>,
      \<lparr>ru_name = ''DATE_OFFSET'', ru_priority = 20, ru_evaluate = evaluate_offset cal 1 (90 / 100)\<rparr>]"
    using build_rule_stage_registry[OF assms] by auto
  let ?i = "sample_txn 3 INTERNAL 500 ''REF1'' 10" and ?e = "sample_txn 4 EXTERNAL 501 ''REF1'' 11"
  obtain g where g: "candidate_generator [?i] sample_blocking = Inr g"
    and c: "generate g ?e = Inr \<lparr>cs_external = 4, cs_candidates = [?i], cs_truncated = False\<rparr>"
    by (simp add: candidate_generator_def generate_def amount_date_key_def reference_block_key_def
        party_block_key_def amount_bucket_def date_bucket_def counterparty_key_def look_def sample_blocking_def
        sample_txn_def dict_get_def slice_to_def reference_prefix_def add_unseen_def Let_def)
  have ev: "evaluate_amount 1 (penny_tolerances [(''INR'', 2), (''JPY'', 0)]) 3 (9 / 10) ?i ?e
      = \<lparr>rr_matched = True, rr_confidence = 9 / 10\<rparr>"
    by (simp add: evaluate_amount_def sample_txn_def reference_of_def text_of_def tolerance_for_def penny_tolerances_def)
  have q: "quantise3 (9 / 10) = (9 / 10 :: rat)" by code_simp
  have rej: "rejected_pairs sample_near [3] = []" by (simp add: sample_near_def sample_db_def rejected_pairs_def)
  have id: "t_id ?i = 3" "t_id ?e = 4" by (simp_all add: sample_txn_def)
  have "\<exists>rid d. record_pair 3 4 (rule_row ''r'' ?i ?e ''AMOUNT_TOLERANCE'' (9 / 10) True (Suc 0)) True sample_near = Inr (Some rid, d)"
    by (simp add: record_pair_def claim_pair_def insert_claims_def add_result_def result_row_ok_def rule_row_def
        claims_unique_def active_txns_def sample_near_def sample_db_def Let_def)
  then show ?thesis
    by (auto simp: rule_run_def g c rej reg rule_step_def rule_hits_def ev id q shipped_config_def Let_def)
qed

theorem rule_stage_sound_witness:
  "\<exists>st out db'. build_rule_stage sample_calendar [(''INR'', 2), (''JPY'', 0)] None = Inr st
     \<and> rule_run ''r'' (rs_registry st) sample_blocking shipped_config
         [sample_txn 3 INTERNAL 500 ''REF1'' 10] [sample_txn 4 EXTERNAL 501 ''REF1'' 11] sample_near = Inr (out, db')
     \<and> rl_auto out = 1 \<and> ledger_ok db'"
proof -
  have "is_ok (build_rule_stage sample_calendar [(''INR'', 2), (''JPY'', 0)] None)"
    by (simp add: build_rule_stage_def sample_calendar_def amount_tolerance_rule_def date_offset_rule_def register_def
        penny_tolerances_def Let_def)
  then obtain st where st: "build_rule_stage sample_calendar [(''INR'', 2), (''JPY'', 0)] None = Inr st"
    unfolding is_ok_iff by blast
  obtain out db' where r: "rule_run ''r'' (rs_registry st) sample_blocking shipped_config
         [sample_txn 3 INTERNAL 500 ''REF1'' 10] [sample_txn 4 EXTERNAL 501 ''REF1'' 11] sample_near = Inr (out, db')"
    and o: "rl_auto out = 1"
    using sample_rule_run[OF st] by blast
  have "ledger_ok db'" by (rule conjunct1[OF rule_stage_sound[OF st r sample_near_ok]])
  then show ?thesis using st r o by blast
qed

end
