(* ===== verification/GroupMatch.thy ===== *)
theory GroupMatch
  imports CrossCurrency SubsetSum Rules
begin

text \<open>
  Model of \<open>matching/strategies/group.py\<close>: split and netted groups. One single
  transaction is matched with several linked ones on the other side; the group is
  either the whole linked set or the unique subset whose amounts fit, in minor
  units of one currency or in INR. A group becomes one result row per member. The
  explanatory columns of the rows are left out, the audited details are kept.
\<close>

section \<open>Links\<close>

definition is_stem_separator :: "char \<Rightarrow> bool" where
  "is_stem_separator c = (c \<in> set ''-_/.'')"

definition reference_stem :: "string option \<Rightarrow> nat \<Rightarrow> string option" where
  "reference_stem ref min_length =
     (if text_of ref = [] then None
      else (let text = to_upper (strip (text_of ref));
                last_part = rev (takeWhile (\<lambda>c. \<not> is_stem_separator c) (rev text))
            in if \<not> list_ex is_stem_separator text \<or> length last_part > 6 then None
               else (let stem = take (length text - length last_part - 1) text
                     in if length stem \<ge> min_length then Some stem else None)))"

text \<open>A set of at most two keys, as a list without repetition.\<close>

definition stem_keys :: "txn \<Rightarrow> nat \<Rightarrow> string list" where
  "stem_keys t min_length =
     (let original = to_upper (strip (text_of (t_original_ref t)));
          own = (if length original \<ge> min_length then [original] else [])
      in case reference_stem (t_original_ref t) min_length of
           None \<Rightarrow> own
         | Some stem \<Rightarrow> if stem \<noteq> [] \<and> stem \<notin> set own then own @ [stem] else own)"

definition party_keys :: "group_config \<Rightarrow> txn \<Rightarrow> string list" where
  "party_keys cfg t =
     (case counterparty_key (t_party t) (gc_party_prefix cfg) of
        None \<Rightarrow> []
      | Some party \<Rightarrow> if party = [] then [] else [party])"

definition index_pool :: "(txn \<Rightarrow> string list) \<Rightarrow> txn list \<Rightarrow> (string \<times> txn list) list" where
  "index_pool keys pool =
     fold (\<lambda>t d. fold (\<lambda>k d. dict_put k (dict_get [] k d @ [t]) d) (keys t) d) pool []"

definition is_rejected :: "(nat \<times> nat) list \<Rightarrow> txn \<Rightarrow> txn \<Rightarrow> bool" where
  "is_rejected rejected single member =
     (case (if t_source single = INTERNAL then (single, member) else (member, single)) of
        (i, e) \<Rightarrow> (t_id i, t_id e) \<in> set rejected)"

definition group_candidates ::
    "group_config \<Rightarrow> (nat \<times> nat) list \<Rightarrow> nat list \<Rightarrow> txn \<Rightarrow> (string \<times> txn list) list \<Rightarrow> string list \<Rightarrow> txn list" where
  "group_candidates cfg rejected consumed single index keys =
     (let found = filter (\<lambda>t. t_id t \<notin> set consumed \<and> \<not> is_rejected rejected single t
                           \<and> t_direction t = t_direction single
                           \<and> \<bar>t_date t - t_date single\<bar> \<le> gc_date_window cfg)
                    (concat (map (\<lambda>k. dict_get [] k index) keys));
          seen = fold (\<lambda>t d. dict_put (t_id t) t d) found []
      in sort_key (\<lambda>t. (t_date t, uuid_str (t_id t))) (map snd seen))"

section \<open>Amounts in one currency\<close>

record legs =
  lg_target :: int
  lg_amounts :: "int list"
  lg_low :: int
  lg_high :: int
  lg_quotes :: "(string \<times> fx_quote) list"

text \<open>Every leg in INR at the rate of its own date; \<open>None\<close> at the first missing quote.\<close>

fun convert_legs ::
    "exponents \<Rightarrow> fx_service \<Rightarrow> (string \<times> fx_quote) list \<Rightarrow> txn list
     \<Rightarrow> (((string \<times> fx_quote) list \<times> int list) option \<times> fx_service) res" where
  "convert_legs tbl fx quotes [] = Inr (Some (quotes, []), fx)"
| "convert_legs tbl fx quotes (t # ts) =
     (case fx_get fx (t_currency t) (t_date t) of
        (None, fx') \<Rightarrow> Inr (None, fx')
      | (Some q, fx') \<Rightarrow>
          bind_res (to_inr_minor tbl (t_amount_minor t) (t_currency t) (q_rate_inr q)) (\<lambda>m.
          bind_res (convert_legs tbl fx' (dict_put (leg_name t) q quotes) ts) (\<lambda>(r, fx'').
            Inr (map_option (\<lambda>(qs, ms). (qs, m # ms)) r, fx''))))"

text \<open>The largest and smallest member sum within the tolerance of the target.\<close>

definition fx_bounds :: "rat \<Rightarrow> int \<Rightarrow> (int \<times> int) res" where
  "fx_bounds tolerance_percent target =
     (let t = ctx28 (tolerance_percent / 100); less = ctx28 (2 - t); plus = ctx28 (2 + t) in
      bind_res (dec_div (dec_mul (of_int target) less) plus) (\<lambda>low.
      bind_res (dec_div (dec_mul (of_int target) plus) less) (\<lambda>high. Inr (\<lceil>low\<rceil>, \<lfloor>high\<rfloor>))))"

definition group_legs ::
    "exponents \<Rightarrow> group_config \<Rightarrow> fx_service option \<Rightarrow> txn \<Rightarrow> txn list \<Rightarrow> (legs option \<times> fx_service option) res" where
  "group_legs tbl cfg fx single candidates =
     (if list_all (\<lambda>c. t_currency c = t_currency single) candidates
      then Inr (Some \<lparr>lg_target = t_amount_minor single, lg_amounts = map t_amount_minor candidates,
                      lg_low = t_amount_minor single - gc_tolerance cfg,
                      lg_high = t_amount_minor single + gc_tolerance cfg, lg_quotes = []\<rparr>, fx)
      else (case fx of
              None \<Rightarrow> Inr (None, None)
            | Some svc \<Rightarrow>
                bind_res (convert_legs tbl svc [] (single # candidates)) (\<lambda>(r, svc').
                  (case r of
                     Some (quotes, target # amounts) \<Rightarrow>
                       bind_res (fx_bounds (gc_fx_tolerance cfg) target) (\<lambda>(low, high).
                         Inr (Some \<lparr>lg_target = target, lg_amounts = amounts, lg_low = low, lg_high = high,
                                    lg_quotes = quotes\<rparr>, Some svc'))
                   | _ \<Rightarrow> Inr (None, Some svc')))))"

section \<open>Details of a cross-currency group\<close>

record fx_details =
  fd_currency :: string
  fd_amount :: int
  fd_single_inr :: int
  fd_members_inr :: int
  fd_quote :: fx_quote
  fd_implied :: "string option"
  fd_variance :: string

definition fx_details_of ::
    "(rat \<Rightarrow> string) \<Rightarrow> exponents \<Rightarrow> txn \<Rightarrow> txn list \<Rightarrow> int \<Rightarrow> int \<Rightarrow> (string \<times> fx_quote) list \<Rightarrow> fx_details option res" where
  "fx_details_of txt tbl single members single_inr members_inr quotes =
     (if quotes = [] then Inr None
      else (let legs = filter (\<lambda>t. t_currency t \<noteq> ''INR'') (single # members) in
        case legs of
          [] \<Rightarrow> Inl IndexError
        | foreign # _ \<Rightarrow>
            (case map_of quotes (leg_name foreign) of
               None \<Rightarrow> Inl KeyError
             | Some q \<Rightarrow>
                 (let foreign_total = sum_list (map t_amount_minor legs);
                      single_is_foreign = (t_currency single \<noteq> ''INR'');
                      one_foreign = list_all (\<lambda>t. t_currency t = t_currency foreign) legs;
                      other_inr = (if single_is_foreign then list_all (\<lambda>m. t_currency m = ''INR'') members
                                   else length legs = length members)
                  in bind_res (if one_foreign \<and> other_inr
                               then implied_rate tbl (if single_is_foreign then members_inr else single_inr)
                                      foreign_total (t_currency foreign)
                               else Inr None) (\<lambda>rate.
                     bind_res (case rate of
                                 None \<Rightarrow> Inr None
                               | Some r \<Rightarrow> if r = 0 then Inr None else bind_res (quantise4 r) (\<lambda>x. Inr (Some (txt x)))) (\<lambda>implied.
                     bind_res (relative_difference_percent single_inr members_inr) (\<lambda>v.
                     bind_res (quantise4 v) (\<lambda>v4.
                       Inr (Some \<lparr>fd_currency = t_currency foreign, fd_amount = foreign_total,
                                  fd_single_inr = single_inr, fd_members_inr = members_inr, fd_quote = q,
                                  fd_implied = implied, fd_variance = txt v4\<rparr>)))))))))"

definition fx_details_json :: "(rat \<Rightarrow> string) \<Rightarrow> fx_details \<Rightarrow> json" where
  "fx_details_json txt d =
     JObj [(''foreign_currency'', JStr (fd_currency d)), (''foreign_amount_minor'', JInt (fd_amount d)),
           (''single_inr_minor'', JInt (fd_single_inr d)), (''members_inr_minor'', JInt (fd_members_inr d)),
           (''reference_rate_inr'', JStr (txt (q_rate_inr (fd_quote d)))),
           (''reference_rate_source'', JStr (fx_source_text (q_source (fd_quote d)))),
           (''reference_rate_date'', JStr (date_iso (q_rate_date (fd_quote d)))),
           (''reference_rate_days_stale'', JInt (q_days_stale (fd_quote d))),
           (''implied_rate_inr'', (case fd_implied d of None \<Rightarrow> JNull | Some s \<Rightarrow> JStr s)),
           (''variance_percent'', JStr (fd_variance d))]"

section \<open>Solving\<close>

record group_outcome =
  go_split :: nat
  go_netted :: nat
  go_ambiguous :: nat
  go_too_complex :: nat
  go_missing_fx :: nat
  go_conflicts :: nat
  go_ids :: "nat list"

definition group_count :: "group_outcome \<Rightarrow> nat" where
  "group_count out = go_split out + go_netted out"

record solution =
  so_members :: "txn list"
  so_confidence :: rat
  so_link :: string
  so_fx :: "fx_details option"
  so_single_minor :: int
  so_members_minor :: int

record group_context =
  gx_run :: string
  gx_table :: exponents
  gx_config :: group_config
  gx_auditor :: "auditor option"
  gx_text :: "rat \<Rightarrow> string"

text \<open>The indices of the members, or \<open>None\<close> with the counter that notes why.\<close>

definition choose_members ::
    "group_config \<Rightarrow> nat \<Rightarrow> legs \<Rightarrow> group_outcome \<Rightarrow> (nat list option \<times> group_outcome) res" where
  "choose_members cfg max_members lg out =
     (let amounts = lg_amounts lg; n = length amounts in
      if 2 \<le> n \<and> n \<le> max_members \<and> lg_low lg \<le> sum_list amounts \<and> sum_list amounts \<le> lg_high lg
      then Inr (Some [0..<n], out)
      else if n > gc_max_search cfg then Inr (None, out\<lparr>go_too_complex := go_too_complex out + 1\<rparr>)
      else bind_res (find_unique_subset amounts (lg_low lg) (lg_high lg) 2 max_members (gc_max_states cfg)) (\<lambda>found.
             (case ss_outcome found of
                AMBIGUOUS \<Rightarrow> Inr (None, out\<lparr>go_ambiguous := go_ambiguous out + 1\<rparr>)
              | TOO_COMPLEX \<Rightarrow> Inr (None, out\<lparr>go_too_complex := go_too_complex out + 1\<rparr>)
              | UNIQUE \<Rightarrow> Inr (Some (sort (ss_indices found)), out)
              | NONE \<Rightarrow> Inr (None, out))))"

definition fit_group ::
    "group_context \<Rightarrow> nat \<Rightarrow> txn \<Rightarrow> txn list \<Rightarrow> string \<Rightarrow> rat \<Rightarrow> group_outcome \<times> fx_service option
     \<Rightarrow> (solution option \<times> group_outcome \<times> fx_service option) res" where
  "fit_group gx max_members single candidates link conf s =
     (case s of (out, fx) \<Rightarrow>
        bind_res (group_legs (gx_table gx) (gx_config gx) fx single candidates) (\<lambda>(lg, fx').
          (case lg of
             None \<Rightarrow> Inr (None, out\<lparr>go_missing_fx := go_missing_fx out + 1\<rparr>, fx')
           | Some lg \<Rightarrow>
               bind_res (choose_members (gx_config gx) max_members lg out) (\<lambda>(chosen, out').
                 (case chosen of
                    None \<Rightarrow> Inr (None, out', fx')
                  | Some idx \<Rightarrow>
                      (let members = map (\<lambda>k. candidates ! k) idx;
                           members_minor = sum_list (map (\<lambda>k. lg_amounts lg ! k) idx)
                       in bind_res (fx_details_of (gx_text gx) (gx_table gx) single members (lg_target lg)
                                      members_minor (lg_quotes lg)) (\<lambda>d.
                            Inr (Some \<lparr>so_members = members,
                                       so_confidence = (if d = None then conf else 9 / 10), so_link = link, so_fx = d,
                                       so_single_minor = lg_target lg, so_members_minor = members_minor\<rparr>,
                                 out', fx'))))))))"

fun try_links ::
    "group_context \<Rightarrow> nat \<Rightarrow> txn \<Rightarrow> (string \<times> rat \<times> txn list) list \<Rightarrow> group_outcome \<times> fx_service option
     \<Rightarrow> (solution option \<times> group_outcome \<times> fx_service option) res" where
  "try_links gx max_members single [] (out, fx) = Inr (None, out, fx)"
| "try_links gx max_members single ((link, conf, candidates) # links) (out, fx) =
     (if length candidates < 2 then try_links gx max_members single links (out, fx)
      else bind_res (fit_group gx max_members single candidates link conf (out, fx)) (\<lambda>(sol, out', fx').
             (case sol of
                Some s \<Rightarrow> Inr (Some s, out', fx')
              | None \<Rightarrow> try_links gx max_members single links (out', fx'))))"

definition solve_single ::
    "group_context \<Rightarrow> (nat \<times> nat) list \<Rightarrow> nat list \<Rightarrow> nat \<Rightarrow> (string \<times> txn list) list \<Rightarrow> (string \<times> txn list) list
     \<Rightarrow> txn \<Rightarrow> group_outcome \<times> fx_service option \<Rightarrow> (solution option \<times> group_outcome \<times> fx_service option) res" where
  "solve_single gx rejected consumed max_members stems parties single s =
     (let cfg = gx_config gx;
          by_stem = group_candidates cfg rejected consumed single stems (stem_keys single (gc_min_stem cfg));
          by_party = group_candidates cfg rejected consumed single parties (party_keys cfg single)
      in try_links gx max_members single
           [(''reference stem'', 95 / 100, by_stem), (''counterparty'', 90 / 100, by_party)] s)"

section \<open>Recording\<close>

definition group_rule :: "match_type \<Rightarrow> solution \<Rightarrow> string" where
  "group_rule kind sol =
     (if kind = NETTED \<and> so_fx sol \<noteq> None then ''NETTED_CROSS_CURRENCY''
      else if kind = SPLIT then ''SPLIT_TRANSACTION'' else ''NETTED_SETTLEMENT'')"

definition group_pair :: "match_type \<Rightarrow> txn \<Rightarrow> txn \<Rightarrow> txn \<times> txn" where
  "group_pair kind single member = (if kind = SPLIT then (single, member) else (member, single))"

definition group_row :: "string \<Rightarrow> match_type \<Rightarrow> txn \<Rightarrow> solution \<Rightarrow> nat \<Rightarrow> txn \<Rightarrow> result" where
  "group_row run_id kind single sol gid m =
     (case group_pair kind single m of (i, e) \<Rightarrow>
        \<lparr>r_id = 0, r_run = run_id, r_type = kind, r_status = AUTO_MATCHED, r_confidence = so_confidence sol,
         r_internal = t_id i, r_external = t_id e, r_rule = Some (group_rule kind sol), r_group = Some gid,
         r_candidates = length (so_members sol), r_date = t_date e, r_reviewed_by = None, r_reviewed_at = None\<rparr>)"

text \<open>One row per member. The claim of the single side goes with the first row.\<close>

fun record_rows :: "(txn \<Rightarrow> result) \<Rightarrow> nat option \<Rightarrow> (txn \<times> nat) list \<Rightarrow> db \<Rightarrow> db res" where
  "record_rows row single_claim [] db = Inr db"
| "record_rows row single_claim ((m, c) # rest) db =
     bind_res (add_result (row m) db) (\<lambda>(rid, db1).
       (let db2 = finalise c rid db1;
            db3 = (case single_claim of None \<Rightarrow> db2 | Some c0 \<Rightarrow> finalise c0 rid db2)
        in record_rows row None rest db3))"

definition group_rationale :: "(rat \<Rightarrow> string) \<Rightarrow> match_type \<Rightarrow> solution \<Rightarrow> string" where
  "group_rationale txt kind sol =
     (let base = (if kind = SPLIT then ''SPLIT'' else ''NETTED'') @ '': '' @ nat_str (length (so_members sol))
            @ '' entries (''
            @ (if kind = SPLIT then ''one internal transaction settled as'' else ''internal transactions netted into'')
            @ '' '' @ (if kind = SPLIT then ''several external entries'' else ''one external entry'')
            @ ''), linked by '' @ so_link sol @ ''; amounts '' @ int_str (so_members_minor sol) @ '' vs ''
            @ int_str (so_single_minor sol) @ '' minor units''
      in case so_fx sol of
           None \<Rightarrow> base @ ''.''
         | Some d \<Rightarrow>
             base @ ''. Cross-currency: '' @ fd_currency d @ '' '' @ int_str (fd_amount d)
             @ '' minor units against INR '' @ int_str (fd_members_inr d) @ '' / '' @ int_str (fd_single_inr d)
             @ '' paise at reference rate '' @ txt (q_rate_inr (fd_quote d)) @ '' (''
             @ fx_source_text (q_source (fd_quote d)) @ '', '' @ date_iso (q_rate_date (fd_quote d))
             @ ''); implied rate '' @ (case fd_implied d of None \<Rightarrow> ''None'' | Some s \<Rightarrow> s)
             @ ''; variance '' @ fd_variance d @ ''%.'')"

definition audit_group :: "group_context \<Rightarrow> match_type \<Rightarrow> nat \<Rightarrow> txn \<Rightarrow> solution \<Rightarrow> db \<Rightarrow> db res" where
  "audit_group gx kind gid single sol db =
     audit_if (gx_auditor gx) ''group-matcher''
       (JObj [(''match_group_id'', JStr (uuid_str gid)), (''single_transaction_id'', JStr (uuid_str (t_id single))),
              (''member_transaction_ids'', JList (map (\<lambda>m. JStr (uuid_str (t_id m))) (so_members sol)))])
       (JObj ([(''match_type'', JStr (if kind = SPLIT then ''SPLIT'' else ''NETTED'')), (''status'', JStr ''AUTO_MATCHED''),
               (''confidence'', JStr (gx_text gx (so_confidence sol))), (''rule_id'', JStr (group_rule kind sol)),
               (''single_amount_minor'', JInt (so_single_minor sol)),
               (''members_amount_minor'', JInt (so_members_minor sol))]
              @ (case so_fx sol of None \<Rightarrow> [] | Some d \<Rightarrow> [(''fx'', fx_details_json (gx_text gx) d)])))
       (group_rationale (gx_text gx) kind sol) db"

definition group_members :: "match_type \<Rightarrow> txn \<Rightarrow> txn list \<Rightarrow> (nat \<times> side) list" where
  "group_members kind single members =
     (t_id single, if kind = SPLIT then INTERNAL else EXTERNAL)
     # map (\<lambda>m. (t_id m, if kind = SPLIT then EXTERNAL else INTERNAL)) members"

definition record_group ::
    "group_context \<Rightarrow> match_type \<Rightarrow> txn \<Rightarrow> solution \<Rightarrow> group_outcome \<Rightarrow> db \<Rightarrow> (bool \<times> group_outcome \<times> db) res" where
  "record_group gx kind single sol out db =
     (case claim_group (group_members kind single (so_members sol)) db of
        Inl _ \<Rightarrow> Inr (False, out\<lparr>go_conflicts := go_conflicts out + 1\<rparr>, db)
      | Inr (cids, db1) \<Rightarrow>
          (let gid = next_id db1;
               db2 = db1\<lparr>next_id := gid + 1\<rparr>
           in bind_res (record_rows (group_row (gx_run gx) kind single sol gid) (Some (hd cids))
                          (zip (so_members sol) (tl cids)) db2) (\<lambda>db3.
              (let db4 = set_status (t_id single # map t_id (so_members sol)) MATCHED db3;
                   out' = (if kind = SPLIT then out\<lparr>go_ids := go_ids out @ [gid], go_split := go_split out + 1\<rparr>
                           else out\<lparr>go_ids := go_ids out @ [gid], go_netted := go_netted out + 1\<rparr>)
               in bind_res (audit_group gx kind gid single sol db4) (\<lambda>db5. Inr (True, out', db5))))))"

section \<open>The passes\<close>

type_synonym group_state = "nat list \<times> group_outcome \<times> fx_service option \<times> db"

definition pass_step ::
    "group_context \<Rightarrow> match_type \<Rightarrow> (nat \<times> nat) list \<Rightarrow> nat \<Rightarrow> (string \<times> txn list) list \<Rightarrow> (string \<times> txn list) list
     \<Rightarrow> txn \<Rightarrow> group_state \<Rightarrow> group_state res" where
  "pass_step gx kind rejected max_members stems parties single s =
     (case s of (consumed, out, fx, db) \<Rightarrow>
        if t_id single \<in> set consumed then Inr s
        else bind_res (solve_single gx rejected consumed max_members stems parties single (out, fx)) (\<lambda>(sol, out', fx').
          (case sol of
             None \<Rightarrow> Inr (consumed, out', fx', db)
           | Some so \<Rightarrow>
               bind_res (record_group gx kind single so out' db) (\<lambda>(ok, out'', db').
                 Inr (if ok then t_id single # map t_id (so_members so) @ consumed else consumed, out'', fx', db')))))"

fun pass_loop ::
    "group_context \<Rightarrow> match_type \<Rightarrow> (nat \<times> nat) list \<Rightarrow> nat \<Rightarrow> (string \<times> txn list) list \<Rightarrow> (string \<times> txn list) list
     \<Rightarrow> txn list \<Rightarrow> group_state \<Rightarrow> group_state res" where
  "pass_loop gx kind rejected max_members stems parties [] s = Inr s"
| "pass_loop gx kind rejected max_members stems parties (single # singles) s =
     bind_res (pass_step gx kind rejected max_members stems parties single s)
       (pass_loop gx kind rejected max_members stems parties singles)"

definition group_pass ::
    "group_context \<Rightarrow> match_type \<Rightarrow> (nat \<times> nat) list \<Rightarrow> txn list \<Rightarrow> txn list \<Rightarrow> group_state \<Rightarrow> group_state res" where
  "group_pass gx kind rejected singles pool s =
     (let cfg = gx_config gx in
      pass_loop gx kind rejected (if kind = SPLIT then gc_max_split cfg else gc_max_netted cfg)
        (index_pool (\<lambda>t. stem_keys t (gc_min_stem cfg)) pool) (index_pool (party_keys cfg) pool) singles s)"

definition new_group_outcome :: group_outcome where
  "new_group_outcome = \<lparr>go_split = 0, go_netted = 0, go_ambiguous = 0, go_too_complex = 0, go_missing_fx = 0,
                        go_conflicts = 0, go_ids = []\<rparr>"

definition group_run ::
    "group_context \<Rightarrow> fx_service option \<Rightarrow> txn list \<Rightarrow> txn list \<Rightarrow> db \<Rightarrow> ((group_outcome \<times> fx_service option) \<times> db) res" where
  "group_run gx fx ints exts db =
     (let rejected = rejected_pairs db (map t_id ints) in
      bind_res (group_pass gx SPLIT rejected ints exts ([], new_group_outcome, fx, db)) (\<lambda>s.
      bind_res (group_pass gx NETTED rejected exts ints s) (\<lambda>(_, out, fx', db').
        Inr ((out, fx'), db'))))"

section \<open>Candidates\<close>

lemma index_put_in:
  "t \<in> set (dict_get [] k (fold (\<lambda>k d. dict_put k (dict_get [] k d @ [x]) d) ks d)) \<Longrightarrow>
   t \<in> set (dict_get [] k d) \<or> t = x \<and> k \<in> set ks"
  by (induction ks arbitrary: d) (fastforce simp: dict_get_put split: if_splits)+

lemma index_fold_in:
  "t \<in> set (dict_get [] k (fold (\<lambda>t d. fold (\<lambda>k d. dict_put k (dict_get [] k d @ [t]) d) (keys t) d) pool d)) \<Longrightarrow>
   t \<in> set (dict_get [] k d) \<or> t \<in> set pool \<and> k \<in> set (keys t)"
proof (induction pool arbitrary: d)
  case (Cons x pool)
  then show ?case using index_put_in[of t k x "keys x" d] by fastforce
qed simp

lemma index_pool_in: "t \<in> set (dict_get [] k (index_pool keys pool)) \<Longrightarrow> t \<in> set pool \<and> k \<in> set (keys t)"
  using index_fold_in[of t k keys pool "[]"] by (simp add: index_pool_def) (simp add: dict_get_def)

lemma dict_put_in: "(k', v') \<in> set (dict_put k v d) \<Longrightarrow> (k', v') = (k, v) \<or> (k', v') \<in> set d"
  by (induction k v d rule: dict_put.induct) (auto split: if_splits)

lemma seen_in:
  "(k, t) \<in> set (fold (\<lambda>t d. dict_put (t_id t) t d) xs d) \<Longrightarrow> (k, t) \<in> set d \<or> k = t_id t \<and> t \<in> set xs"
proof (induction xs arbitrary: d)
  case (Cons x xs)
  then show ?case using dict_put_in[of k t "t_id x" x d] by fastforce
qed simp

lemma seen_distinct:
  "distinct (map fst d) \<Longrightarrow> distinct (map fst (fold (\<lambda>t d. dict_put (t_id t) t d) xs d))"
  by (induction xs arbitrary: d) (auto intro: distinct_dict_put)

lemma seen_ids:
  "distinct (map t_id (map snd (fold (\<lambda>t d. dict_put (t_id t) t d) xs [])))"
proof -
  let ?d = "fold (\<lambda>t d. dict_put (t_id t) t d) xs []"
  have "map fst ?d = map (t_id \<circ> snd) ?d" by (rule map_cong[OF refl]) (use seen_in[of _ _ xs "[]"] in force)
  moreover have "distinct (map fst ?d)" by (rule seen_distinct) simp
  ultimately have "distinct (map (t_id \<circ> snd) ?d)" by (simp only:)
  then show ?thesis by (simp only: map_map)
qed

lemma distinct_map_sort: "distinct (map f (sort_key g xs)) = distinct (map f xs)"
  by (simp add: distinct_map)

definition may_join :: "group_config \<Rightarrow> (nat \<times> nat) list \<Rightarrow> nat list \<Rightarrow> txn \<Rightarrow> txn \<Rightarrow> bool" where
  "may_join cfg rejected consumed single t =
     (t_id t \<notin> set consumed \<and> \<not> is_rejected rejected single t
      \<and> t_direction t = t_direction single \<and> \<bar>t_date t - t_date single\<bar> \<le> gc_date_window cfg)"

lemma group_candidates_in:
  assumes "t \<in> set (group_candidates cfg rejected consumed single (index_pool f pool) keys)"
  shows "t \<in> set pool \<and> may_join cfg rejected consumed single t \<and> (\<exists>k \<in> set keys. k \<in> set (f t))"
proof -
  obtain k0 where "(k0, t) \<in> set (fold (\<lambda>t d. dict_put (t_id t) t d)
      (filter (may_join cfg rejected consumed single) (concat (map (\<lambda>k. dict_get [] k (index_pool f pool)) keys))) [])"
    using assms by (auto simp: group_candidates_def Let_def may_join_def[abs_def])
  then have "t \<in> set (filter (may_join cfg rejected consumed single) (concat (map (\<lambda>k. dict_get [] k (index_pool f pool)) keys)))"
    using seen_in by fastforce
  then show ?thesis using index_pool_in by fastforce
qed

lemma group_candidates_distinct: "distinct (map t_id (group_candidates cfg rejected consumed single index keys))"
  unfolding group_candidates_def Let_def distinct_map_sort by (rule seen_ids)

section \<open>Solutions\<close>

lemma choose_members_sound:
  assumes "choose_members cfg max_members lg out = Inr (Some idx, out')"
  shows "sorted_wrt (<) idx \<and> set idx \<subseteq> {..<length (lg_amounts lg)} \<and> 2 \<le> length idx \<and> length idx \<le> max_members
    \<and> lg_low lg \<le> sum_list (map ((!) (lg_amounts lg)) idx) \<and> sum_list (map ((!) (lg_amounts lg)) idx) \<le> lg_high lg"
proof (cases "2 \<le> length (lg_amounts lg) \<and> length (lg_amounts lg) \<le> max_members
    \<and> lg_low lg \<le> sum_list (lg_amounts lg) \<and> sum_list (lg_amounts lg) \<le> lg_high lg")
  case True
  then have "idx = [0..<length (lg_amounts lg)]" using assms by (simp add: choose_members_def Let_def)
  then show ?thesis using True by (simp add: map_nth atLeast0LessThan)
next
  case False
  then have ne: "\<not> length (lg_amounts lg) > gc_max_search cfg"
    and run: "bind_res (find_unique_subset (lg_amounts lg) (lg_low lg) (lg_high lg) 2 max_members (gc_max_states cfg)) (\<lambda>found.
             (case ss_outcome found of
                AMBIGUOUS \<Rightarrow> Inr (None, out\<lparr>go_ambiguous := go_ambiguous out + 1\<rparr>)
              | TOO_COMPLEX \<Rightarrow> Inr (None, out\<lparr>go_too_complex := go_too_complex out + 1\<rparr>)
              | UNIQUE \<Rightarrow> Inr (Some (sort (ss_indices found)), out)
              | NONE \<Rightarrow> Inr (None, out))) = Inr (Some idx, out')"
    using assms unfolding choose_members_def Let_def by (metis (lifting) Inr_inject Pair_inject option.discI)+
  then obtain found where f: "find_unique_subset (lg_amounts lg) (lg_low lg) (lg_high lg) 2 max_members (gc_max_states cfg) = Inr found"
    and c: "(case ss_outcome found of
                AMBIGUOUS \<Rightarrow> Inr (None, out\<lparr>go_ambiguous := go_ambiguous out + 1\<rparr>)
              | TOO_COMPLEX \<Rightarrow> Inr (None, out\<lparr>go_too_complex := go_too_complex out + 1\<rparr>)
              | UNIQUE \<Rightarrow> Inr (Some (sort (ss_indices found)), out)
              | NONE \<Rightarrow> Inr (None, out)) = (Inr (Some idx, out') :: (nat list option \<times> group_outcome) res)"
    unfolding bind_res_iff by blast
  have u: "ss_outcome found = UNIQUE" and i: "idx = sort (ss_indices found)"
    using c by (cases "ss_outcome found"; simp)+
  note q = search_unique[OF f u]
  have s: "sorted_wrt (<) (ss_indices found)" by (rule q(1))
  then have so: "sorted (ss_indices found)" and d: "distinct (ss_indices found)"
    using strict_sorted_iff by blast+
  have e: "idx = ss_indices found" unfolding i by (rule sorted_sort_id[OF so])
  have c: "card (set (ss_indices found)) = length (ss_indices found)" using d by (rule distinct_card)
  have "(\<Sum>j\<in>set (ss_indices found). lg_amounts lg ! j) = sum_list (map ((!) (lg_amounts lg)) (ss_indices found))"
    using d by (simp add: sum_list_distinct_conv_sum_set)
  then show ?thesis using q(2) s c unfolding e fitting_def by simp
qed

lemma convert_legs_from:
  "\<lbrakk>convert_legs tbl fx quotes ts = Inr (r, fx'); fx_from src fx\<rbrakk> \<Longrightarrow>
   fx_from src fx' \<and> (\<forall>qs ms. r = Some (qs, ms) \<longrightarrow> list_all2 (inr_value tbl src) ts ms)"
proof (induction tbl fx quotes ts arbitrary: r fx' rule: convert_legs.induct)
  case (2 tbl fx quotes t ts)
  obtain q fx1 where g: "fx_get fx (t_currency t) (t_date t) = (q, fx1)" by fastforce
  then have q: "q = fx_answer src (t_currency t) (t_date t)" and f: "fx_from src fx1"
    using fx_get_from[OF "2.prems"(2)] by blast+
  show ?case
  proof (cases q)
    case None
    then show ?thesis using "2.prems" g f by simp
  next
    case (Some x)
    obtain m where m: "to_inr_minor tbl (t_amount_minor t) (t_currency t) (q_rate_inr x) = Inr m"
      using "2.prems"(1) g Some by (auto simp: res_iff)
    obtain r1 fx2 where r1: "convert_legs tbl fx1 (dict_put (leg_name t) x quotes) ts = Inr (r1, fx2)"
      using "2.prems"(1) g Some m by (auto simp: res_iff)
    note ih = "2.IH"[OF g[unfolded Some, symmetric] refl r1 f]
    have v: "inr_value tbl src t m" using m q[symmetric] Some by (auto simp: inr_value_def)
    show ?thesis using "2.prems"(1) g Some m r1 ih v by auto
  qed
qed simp

lemma convert_legs_length:
  "convert_legs tbl fx quotes ts = Inr (Some (qs, ms), fx') \<Longrightarrow> length ms = length ts"
  by (induction tbl fx quotes ts arbitrary: qs ms fx' rule: convert_legs.induct)
     (auto simp: res_iff split: prod.splits option.splits)

text \<open>The members' amounts fit the single side's: in one currency within the
  tolerance, otherwise in INR within the bounds of the tolerance.\<close>

definition comparable ::
    "bool \<Rightarrow> exponents \<Rightarrow> group_config \<Rightarrow> fx_rate list \<times> int \<Rightarrow> txn \<Rightarrow> txn list \<Rightarrow> bool" where
  "comparable priced tbl cfg src single members =
     ((\<forall>m \<in> set members. t_currency m = t_currency single)
        \<and> \<bar>sum_list (map t_amount_minor members) - t_amount_minor single\<bar> \<le> gc_tolerance cfg
      \<or> (\<exists>target ms low high. (priced \<longrightarrow> inr_value tbl src single target \<and> list_all2 (inr_value tbl src) members ms)
           \<and> fx_bounds (gc_fx_tolerance cfg) target = Inr (low, high) \<and> low \<le> sum_list ms \<and> sum_list ms \<le> high))"

lemma group_legs_cases:
  assumes "group_legs tbl cfg fx single candidates = Inr (Some lg, fx')"
  obtains (same) "\<forall>c \<in> set candidates. t_currency c = t_currency single" "fx' = fx"
      "lg_target lg = t_amount_minor single" "lg_amounts lg = map t_amount_minor candidates"
      "lg_low lg = t_amount_minor single - gc_tolerance cfg" "lg_high lg = t_amount_minor single + gc_tolerance cfg"
  | (converted) svc svc' quotes where "fx = Some svc" "fx' = Some svc'"
      "convert_legs tbl svc [] (single # candidates) = Inr (Some (quotes, lg_target lg # lg_amounts lg), svc')"
      "fx_bounds (gc_fx_tolerance cfg) (lg_target lg) = Inr (lg_low lg, lg_high lg)"
proof (cases "list_all (\<lambda>c. t_currency c = t_currency single) candidates")
  case True
  then show ?thesis using assms same by (auto simp: group_legs_def list_all_iff)
next
  case False
  then obtain svc where fx: "fx = Some svc" using assms by (cases fx) (auto simp: group_legs_def)
  obtain r svc' where r: "convert_legs tbl svc [] (single # candidates) = Inr (r, svc')"
    using assms False fx by (auto simp: group_legs_def res_iff simp del: convert_legs.simps)
  show ?thesis using assms False fx r converted
    by (auto simp: group_legs_def res_iff simp del: convert_legs.simps split: option.splits list.splits)
qed

lemma group_legs_none:
  assumes "group_legs tbl cfg fx single candidates = Inr (None, fx')"
  shows "fx = None \<and> fx' = None
    \<or> (\<exists>svc svc' r. fx = Some svc \<and> fx' = Some svc' \<and> convert_legs tbl svc [] (single # candidates) = Inr (r, svc'))"
proof (cases "list_all (\<lambda>c. t_currency c = t_currency single) candidates")
  case True
  then show ?thesis using assms by (simp add: group_legs_def)
next
  case False
  show ?thesis
  proof (cases fx)
    case None
    then show ?thesis using assms False by (simp add: group_legs_def)
  next
    case (Some svc)
    obtain r svc' where r: "convert_legs tbl svc [] (single # candidates) = Inr (r, svc')"
      using assms False Some by (auto simp: group_legs_def res_iff simp del: convert_legs.simps)
    have "fx' = Some svc'" using assms False Some r
      by (auto simp: group_legs_def res_iff simp del: convert_legs.simps split: option.splits list.splits)
    then show ?thesis using Some r by blast
  qed
qed

lemma dict_put_nonempty: "dict_put k v d \<noteq> []"
  by (induction k v d rule: dict_put.induct) auto

lemma convert_legs_quotes:
  "\<lbrakk>convert_legs tbl fx quotes ts = Inr (Some (qs, ms), fx'); quotes \<noteq> [] \<or> ts \<noteq> []\<rbrakk> \<Longrightarrow> qs \<noteq> []"
proof (induction tbl fx quotes ts arbitrary: qs ms fx' rule: convert_legs.induct)
  case (2 tbl fx quotes t ts)
  then show ?case using dict_put_nonempty by (fastforce simp: res_iff split: prod.splits option.splits)
qed simp

lemma group_legs_quotes:
  assumes "group_legs tbl cfg fx single candidates = Inr (Some lg, fx')"
  shows "lg_quotes lg \<noteq> [] \<or> (\<forall>c \<in> set candidates. t_currency c = t_currency single)"
proof (cases "list_all (\<lambda>c. t_currency c = t_currency single) candidates")
  case False
  then obtain svc where fx: "fx = Some svc" using assms by (cases fx) (auto simp: group_legs_def)
  obtain r svc' where r: "convert_legs tbl svc [] (single # candidates) = Inr (r, svc')"
    using assms False fx by (auto simp: group_legs_def res_iff simp del: convert_legs.simps)
  show ?thesis using assms False fx r convert_legs_quotes[of tbl svc "[]" "single # candidates" _ _ svc']
    by (auto simp: group_legs_def res_iff simp del: convert_legs.simps split: option.splits list.splits)
qed (simp add: list_all_iff)

definition fx_opt :: "fx_rate list \<times> int \<Rightarrow> fx_service option \<Rightarrow> bool" where
  "fx_opt src fx = (case fx of None \<Rightarrow> True | Some svc \<Rightarrow> fx_from src svc)"

lemma group_legs_from:
  assumes "group_legs tbl cfg fx single candidates = Inr (lg, fx')" "fx_opt src fx"
  shows "fx_opt src fx'"
proof (cases lg)
  case None
  then show ?thesis using group_legs_none[of tbl cfg fx single candidates fx'] assms convert_legs_from[where src = src]
    by (auto simp: fx_opt_def simp del: convert_legs.simps)
next
  case (Some l)
  from assms(1)[unfolded Some] show ?thesis
  proof (cases rule: group_legs_cases)
    case same
    then show ?thesis using assms(2) by simp
  next
    case (converted svc svc' quotes)
    then show ?thesis using assms(2) convert_legs_from[OF converted(3)] by (simp add: fx_opt_def)
  qed
qed

definition solves ::
    "bool \<Rightarrow> exponents \<Rightarrow> group_config \<Rightarrow> fx_rate list \<times> int \<Rightarrow> nat \<Rightarrow> txn \<Rightarrow> txn list \<Rightarrow> txn list \<Rightarrow> bool" where
  "solves priced tbl cfg src max_members single candidates members =
     (set members \<subseteq> set candidates \<and> distinct (map t_id members)
      \<and> 2 \<le> length members \<and> length members \<le> max_members \<and> comparable priced tbl cfg src single members)"

lemma all2_pick: "\<lbrakk>list_all2 R xs ys; \<forall>k \<in> set idx. k < length xs\<rbrakk> \<Longrightarrow> list_all2 R (map ((!) xs) idx) (map ((!) ys) idx)"
  by (auto simp: list_all2_conv_all_nth)

lemma distinct_pick: "\<lbrakk>distinct xs; distinct idx; \<forall>k \<in> set idx. k < length xs\<rbrakk> \<Longrightarrow> distinct (map ((!) xs) idx)"
  by (auto simp: distinct_map inj_on_def nth_eq_iff_index_eq)

lemma fit_group_sound:
  assumes "fit_group gx max_members single candidates link conf (out, fx) = Inr (sol, out', fx')"
    and d: "distinct (map t_id candidates)" and fr: "priced \<longrightarrow> fx_opt src fx"
  shows "(priced \<longrightarrow> fx_opt src fx') \<and> (\<forall>so. sol = Some so \<longrightarrow>
     solves priced (gx_table gx) (gx_config gx) src max_members single candidates (so_members so))"
proof -
  obtain lg fx1 where lg: "group_legs (gx_table gx) (gx_config gx) fx single candidates = Inr (lg, fx1)"
    using assms(1) by (auto simp: fit_group_def res_iff)
  have f1: "priced \<longrightarrow> fx_opt src fx1" using group_legs_from[OF lg] fr by blast
  show ?thesis
  proof (cases lg)
    case None
    then show ?thesis using assms(1) lg f1 by (simp add: fit_group_def)
  next
    case (Some l)
    obtain chosen out1 where c: "choose_members (gx_config gx) max_members l out = Inr (chosen, out1)"
      using assms(1) lg Some by (auto simp: fit_group_def res_iff)
    have fx': "fx' = fx1" using assms(1) lg Some c by (auto simp: fit_group_def res_iff Let_def split: option.splits)
    show ?thesis
    proof (cases chosen)
      case None
      then show ?thesis using assms(1) lg Some c f1 by (simp add: fit_group_def)
    next
      case (Some idx)
      note ch = choose_members_sound[OF c[unfolded Some]]
      have di: "distinct idx" using ch strict_sorted_iff by blast
      have mem: "so_members so = map ((!) candidates) idx" if "sol = Some so" for so
        using assms(1) lg \<open>lg = Some l\<close> c Some that by (auto simp: fit_group_def res_iff Let_def)
      have len: "length (lg_amounts l) = length candidates" and
        cmp: "comparable priced (gx_table gx) (gx_config gx) src single (map ((!) candidates) idx)"
      proof -
        from lg[unfolded \<open>lg = Some l\<close>]
        have "length (lg_amounts l) = length candidates
          \<and> comparable priced (gx_table gx) (gx_config gx) src single (map ((!) candidates) idx)"
        proof (cases rule: group_legs_cases)
          case same
          have n: "\<forall>k \<in> set idx. k < length candidates" using ch same(4) by auto
          then have e: "map t_amount_minor (map ((!) candidates) idx) = map ((!) (lg_amounts l)) idx"
            unfolding same(4) by simp
          have "\<bar>sum_list (map t_amount_minor (map ((!) candidates) idx)) - t_amount_minor single\<bar>
              \<le> gc_tolerance (gx_config gx)" unfolding e using ch same(5,6) by linarith
          moreover have "\<forall>m \<in> set (map ((!) candidates) idx). t_currency m = t_currency single" using same(1) n by simp
          ultimately show ?thesis unfolding comparable_def using same(4) by simp
        next
          case (converted svc svc' quotes)
          have l: "length (lg_amounts l) = length candidates"
            using convert_legs_length[OF converted(3)] by simp
          have n: "\<forall>k \<in> set idx. k < length candidates" using ch l by auto
          have "priced \<longrightarrow> list_all2 (inr_value (gx_table gx) src) (single # candidates) (lg_target l # lg_amounts l)"
            using convert_legs_from[OF converted(3)] fr converted(1) by (auto simp: fx_opt_def)
          then have "priced \<longrightarrow> inr_value (gx_table gx) src single (lg_target l)
              \<and> list_all2 (inr_value (gx_table gx) src) (map ((!) candidates) idx) (map ((!) (lg_amounts l)) idx)"
            using n by (auto intro: all2_pick)
          then show ?thesis unfolding comparable_def using converted(4) ch l by blast
        qed
        then show "length (lg_amounts l) = length candidates"
          and "comparable priced (gx_table gx) (gx_config gx) src single (map ((!) candidates) idx)" by blast+
      qed
      have n: "\<forall>k \<in> set idx. k < length candidates" using ch len by auto
      have "distinct (map ((!) (map t_id candidates)) idx)"
        using distinct_pick[OF d di] n by simp
      then have "distinct (map t_id (map ((!) candidates) idx))"
        using n by (simp add: comp_def cong: map_cong)
      then have "solves priced (gx_table gx) (gx_config gx) src max_members single candidates (map ((!) candidates) idx)"
        unfolding solves_def using n ch cmp by auto
      then show ?thesis using f1 fx' mem by simp
    qed
  qed
qed

section \<open>Recording a group\<close>

fun attach :: "nat \<Rightarrow> claim list \<Rightarrow> claim list" where
  "attach x [] = []"
| "attach x (c # cs) = c\<lparr>c_result := Some x\<rparr> # attach (x + 1) cs"

fun number_rows :: "(txn \<Rightarrow> result) \<Rightarrow> nat \<Rightarrow> txn list \<Rightarrow> result list" where
  "number_rows row x [] = []"
| "number_rows row x (m # ms) = (row m)\<lparr>r_id := x\<rparr> # number_rows row (x + 1) ms"

lemma attach_other: "k \<notin> c_id ` set A \<Longrightarrow> map (\<lambda>x. if c_id x = k then x\<lparr>c_result := Some rid\<rparr> else x) A = A"
  by (induction A) auto

lemma finalise_split:
  assumes "claims db = A @ c # B" "c_id c \<notin> c_id ` set A" "c_id c \<notin> c_id ` set B"
  shows "finalise (c_id c) rid db = db\<lparr>claims := A @ c\<lparr>c_result := Some rid\<rparr> # B\<rparr>"
  by (simp add: finalise_def assms(1) attach_other[OF assms(2)] attach_other[OF assms(3)])

lemma record_rows_tail:
  "\<lbrakk>record_rows row None (zip ms (map c_id pend)) db = Inr db'; claims db = A @ pend; length ms = length pend;
    distinct (map c_id (A @ pend))\<rbrakk> \<Longrightarrow>
   (\<forall>m \<in> set ms. result_row_ok (row m))
   \<and> db' = db\<lparr>results := results db @ number_rows row (next_id db) ms, claims := A @ attach (next_id db) pend,
              next_id := next_id db + length ms\<rparr>"
proof (induction ms arbitrary: A pend db)
  case (Cons m ms)
  obtain p ps where p: "pend = p # ps" using Cons.prems(3) by (cases pend) auto
  let ?n = "next_id db"
  let ?d1 = "db\<lparr>results := results db @ [(row m)\<lparr>r_id := ?n\<rparr>], next_id := ?n + 1\<rparr>"
  let ?d2 = "?d1\<lparr>claims := A @ p\<lparr>c_result := Some ?n\<rparr> # ps\<rparr>"
  have ok: "result_row_ok (row m)" and r: "record_rows row None (zip ms (map c_id ps)) (finalise (c_id p) ?n ?d1) = Inr db'"
    using Cons.prems(1) by (auto simp: p add_result_def res_iff split: if_splits)
  have "finalise (c_id p) ?n ?d1 = ?d2"
    using finalise_split[of ?d1 A p ps ?n] Cons.prems(2,4) by (auto simp: p)
  note r2 = r[unfolded this]
  have c: "claims ?d2 = (A @ [p\<lparr>c_result := Some ?n\<rparr>]) @ ps" by simp
  have d: "distinct (map c_id ((A @ [p\<lparr>c_result := Some ?n\<rparr>]) @ ps))" using Cons.prems(4) by (simp add: p)
  note ih = Cons.IH[OF r2 c _ d]
  show ?case using ih Cons.prems(3) ok by (simp add: p)
qed simp

lemma record_rows_shape:
  assumes "record_rows row (Some (c_id c0)) (zip (m # ms) (map c_id (p # ps))) db = Inr db'"
    and "claims db = A @ c0 # p # ps" "length ms = length ps" "distinct (map c_id (A @ c0 # p # ps))"
  shows "(\<forall>m' \<in> set (m # ms). result_row_ok (row m'))
    \<and> db' = db\<lparr>results := results db @ number_rows row (next_id db) (m # ms),
              claims := A @ c0\<lparr>c_result := Some (next_id db)\<rparr> # attach (next_id db) (p # ps),
              next_id := next_id db + length (m # ms)\<rparr>"
proof -
  let ?n = "next_id db"
  let ?d1 = "db\<lparr>results := results db @ [(row m)\<lparr>r_id := ?n\<rparr>], next_id := ?n + 1\<rparr>"
  let ?c = "c0\<lparr>c_result := Some ?n\<rparr>" and ?p = "p\<lparr>c_result := Some ?n\<rparr>"
  let ?d2 = "?d1\<lparr>claims := A @ c0 # ?p # ps\<rparr>" and ?d3 = "?d1\<lparr>claims := A @ ?c # ?p # ps\<rparr>"
  have ok: "result_row_ok (row m)"
    and r: "record_rows row None (zip ms (map c_id ps)) (finalise (c_id c0) ?n (finalise (c_id p) ?n ?d1)) = Inr db'"
    using assms(1) by (auto simp: add_result_def res_iff split: if_splits)
  have "finalise (c_id p) ?n ?d1 = ?d2"
    using finalise_split[of ?d1 "A @ [c0]" p ps ?n] assms(2,4) by auto
  moreover have "finalise (c_id c0) ?n ?d2 = ?d3"
    using finalise_split[of ?d2 A c0 "?p # ps" ?n] assms(4) by auto
  ultimately have r2: "record_rows row None (zip ms (map c_id ps)) ?d3 = Inr db'" using r by simp
  have d: "distinct (map c_id ((A @ [?c, ?p]) @ ps))" using assms(4) by simp
  have c: "claims ?d3 = (A @ [?c, ?p]) @ ps" by simp
  show ?thesis using record_rows_tail[OF r2 c assms(3) d] ok by simp
qed

lemma attach_fields [simp]:
  "map c_id (attach x cs) = map c_id cs" "map c_txn (attach x cs) = map c_txn cs"
  "map c_active (attach x cs) = map c_active cs"
  by (induction x cs rule: attach.induct) simp_all

lemma claim_rows_fields [simp]:
  "map c_id (claim_rows n ms) = [n..<n + length ms]" "map c_txn (claim_rows n ms) = map fst ms"
  "map c_active (claim_rows n ms) = map (\<lambda>_. True) ms"
  by (induction n ms rule: claim_rows.induct) (simp_all add: upt_conv_Cons del: upt_Suc)

lemma active_all: "list_all c_active cs \<Longrightarrow> active_txns cs = map c_txn cs"
  by (simp add: active_txns_def list_all_iff filter_id_conv)

lemma all_by_map:
  assumes "map c_active cs = map (\<lambda>_. True) ms"
  shows "list_all c_active cs"
proof -
  have "c_active ` set cs \<subseteq> {True}" using arg_cong[OF assms, of set] by auto
  then show ?thesis by (auto simp: list_all_iff)
qed

lemma number_rows_in:
  "r \<in> set (number_rows row x ms) \<Longrightarrow>
   x \<le> r_id r \<and> r_id r < x + length ms \<and> (\<exists>m \<in> set ms. r = (row m)\<lparr>r_id := r_id r\<rparr>)"
  by (induction row x ms rule: number_rows.induct) force+

lemma number_rows_ids: "map r_id (number_rows row x ms) = [x..<x + length ms]"
  by (induction row x ms rule: number_rows.induct) (simp_all add: upt_conv_Cons del: upt_Suc)

text \<open>Member claims and member rows correspond one to one.\<close>

lemma attach_rows:
  "map c_txn cs = map t_id ms \<Longrightarrow>
   (\<forall>c \<in> set (attach x cs). \<exists>m \<in> set ms. \<exists>r \<in> set (number_rows row x ms).
       r = (row m)\<lparr>r_id := r_id r\<rparr> \<and> c_result c = Some (r_id r) \<and> c_txn c = t_id m)
   \<and> (\<forall>m \<in> set ms. \<exists>c \<in> set (attach x cs). c_txn c = t_id m
       \<and> (\<exists>r \<in> set (number_rows row x ms). c_result c = Some (r_id r)))"
proof (induction row x ms arbitrary: cs rule: number_rows.induct)
  case (2 row x m ms)
  obtain c cs' where cs: "cs = c # cs'" "c_txn c = t_id m" "map c_txn cs' = map t_id ms"
    using "2.prems" by (cases cs) auto
  show ?case using "2.IH"[OF cs(3)] cs(2) unfolding cs(1) by auto
qed simp

lemma group_row_fields:
  "r_group (group_row run_id kind single sol gid m) = Some gid" "live (group_row run_id kind single sol gid m)"
  "settled (group_row run_id kind single sol gid m)" "r_status (group_row run_id kind single sol gid m) = AUTO_MATCHED"
  "sides (group_row run_id kind single sol gid m) = {t_id single, t_id m}"
  by (auto simp: group_row_def group_pair_def live_def settled_def sides_def split: prod.splits)

lemma renumbered [simp]:
  "r_group (r\<lparr>r_id := x\<rparr>) = r_group r" "live (r\<lparr>r_id := x\<rparr>) = live r" "settled (r\<lparr>r_id := x\<rparr>) = settled r"
  "sides (r\<lparr>r_id := x\<rparr>) = sides r"
  by (simp_all add: live_def settled_def sides_def)

definition group_claims :: "nat \<Rightarrow> match_type \<Rightarrow> txn \<Rightarrow> txn list \<Rightarrow> nat \<Rightarrow> claim list" where
  "group_claims n kind single members rid =
     (case claim_rows n (group_members kind single members) of
        [] \<Rightarrow> []
      | c0 # cs \<Rightarrow> c0\<lparr>c_result := Some rid\<rparr> # attach rid cs)"

lemma claim_rows_length: "length (claim_rows n ms) = length ms"
  by (induction n ms rule: claim_rows.induct) simp_all

lemma claim_rows_active: "active_txns (claim_rows n ms) = map fst ms"
  by (simp only: active_all[OF all_by_map[OF claim_rows_fields(3)]] claim_rows_fields(2))

lemma record_group_shape:
  assumes "record_group gx kind single sol out db = Inr (True, out', db')" "ids_ok db" "so_members sol \<noteq> []"
  defines "n \<equiv> next_id db" and "ms \<equiv> so_members sol"
  defines "gid \<equiv> n + length ms + 1"
  defines "row \<equiv> group_row (gx_run gx) kind single sol gid"
  shows "\<exists>d. audit_group gx kind gid single sol d = Inr db' \<and> (\<forall>m \<in> set ms. result_row_ok (row m))
    \<and> distinct (active_txns (claims db) @ t_id single # map t_id ms)
    \<and> d = db\<lparr>txns := map (mark_matched (insert (t_id single) (t_id ` set ms))) (txns db),
             results := results db @ number_rows row (gid + 1) ms,
             claims := claims db @ group_claims n kind single ms (gid + 1),
             next_id := gid + 1 + length ms\<rparr>"
proof -
  let ?mem = "group_members kind single ms"
  let ?cs = "claim_rows n ?mem"
  have lm: "length ?mem = length ms + 1" by (simp add: group_members_def)
  have uniq: "claims_unique (claims db @ ?cs)"
    and cg: "claim_group ?mem db = Inr (map c_id ?cs, db\<lparr>claims := claims db @ ?cs, next_id := gid\<rparr>)"
    using assms(1) by (auto simp: record_group_def claim_group_def insert_claims_def ms_def n_def gid_def lm
        group_members_def split: sum.splits if_splits)
      (metis claim_rows_fields(1) length_map length_upt diff_add_inverse)+
  obtain m mr where m: "ms = m # mr" using assms(3) by (cases ms) (simp_all add: ms_def)
  obtain c0 p ps where cs: "?cs = c0 # p # ps" "length ps = length mr"
    by (simp add: m group_members_def claim_rows_length)
  let ?d2 = "db\<lparr>claims := claims db @ ?cs, next_id := gid + 1\<rparr>"
  obtain d3 where d3: "record_rows row (Some (hd (map c_id ?cs))) (zip ms (tl (map c_id ?cs))) ?d2 = Inr d3"
    and au: "audit_group gx kind gid single sol (set_status (t_id single # map t_id ms) MATCHED d3) = Inr db'"
    using assms(1) cg by (auto simp: record_group_def res_iff Let_def ms_def[symmetric] row_def)
  have hd_tl: "map c_id ?cs = c_id c0 # map c_id (p # ps)" by (simp only: cs(1) list.map)
  have r: "record_rows row (Some (c_id c0)) (zip (m # mr) (map c_id (p # ps))) ?d2 = Inr d3"
    using d3[unfolded hd_tl list.sel] by (simp only: m list.map)
  have old: "distinct (map c_id (claims db))" "\<forall>c \<in> set (claims db). c_id c < n"
    using assms(2) by (auto simp: ids_ok_def n_def)
  have "map c_id ?cs = [n..<n + length ?mem]" by (rule claim_rows_fields(1))
  then have new: "distinct (map c_id ?cs)" "c_id ` set ?cs = {n..<n + length ?mem}"
    by (metis distinct_upt, metis atLeastLessThan_upt list.set_map)
  have dis: "distinct (map c_id (claims db @ c0 # p # ps))"
    using old new unfolding cs[symmetric] by (auto simp: cs)
  have c2: "claims ?d2 = claims db @ c0 # p # ps" by (simp add: cs)
  note sh = record_rows_shape[OF r c2 cs(2)[symmetric] dis]
  have mk: "map (\<lambda>t. if t_id t = t_id single \<or> t_id t \<in> t_id ` set ms then t\<lparr>t_status := MATCHED\<rparr> else t) ts
      = map (mark_matched (insert (t_id single) (t_id ` set ms))) ts" for ts
    by (simp add: mark_matched_def)
  have "distinct (active_txns (claims db) @ t_id single # map t_id ms)"
    using uniq claim_rows_active[of n ?mem] by (simp add: claims_unique_def active_txns_append group_members_def comp_def)
  moreover have "set_status (t_id single # map t_id ms) MATCHED d3
    = db\<lparr>txns := map (mark_matched (insert (t_id single) (t_id ` set ms))) (txns db),
         results := results db @ number_rows row (gid + 1) ms,
         claims := claims db @ group_claims n kind single ms (gid + 1),
         next_id := gid + 1 + length ms\<rparr>"
    using sh by (simp add: set_status_def mk m[symmetric] group_claims_def cs)
  moreover have "\<forall>m' \<in> set ms. result_row_ok (row m')" using sh by (simp add: m)
  ultimately show ?thesis using au by (intro exI conjI) assumption+
qed

lemma group_claims_active: "active_txns (group_claims n kind single ms x) = t_id single # map t_id ms"
proof -
  let ?tail = "claim_rows (n + 1) (map (\<lambda>m. (t_id m, if kind = SPLIT then EXTERNAL else INTERNAL)) ms)"
  have "list_all c_active (attach x ?tail)" by (rule all_by_map) (simp only: attach_fields claim_rows_fields)
  then have "active_txns (attach x ?tail) = map t_id ms" by (simp add: active_all comp_def)
  then show ?thesis by (simp add: group_claims_def group_members_def active_txns_def)
qed

text \<open>The rows and claims of a group are a write that keeps the ledger.\<close>

lemma group_write:
  fixes run_id kind sol single
  assumes "ids_ok db" "ms \<noteq> []" and act: "distinct (active_txns (claims db) @ t_id single # map t_id ms)"
  defines "n \<equiv> next_id db"
  defines "gid \<equiv> n + length ms + 1"
  defines "row \<equiv> group_row run_id kind single sol gid"
  defines "rs \<equiv> number_rows row (gid + 1) ms" and "cs \<equiv> group_claims n kind single ms (gid + 1)"
  shows "writes db rs cs (db\<lparr>txns := map (mark_matched (insert (t_id single) (t_id ` set ms))) (txns db),
             results := results db @ rs, claims := claims db @ cs, next_id := gid + 1 + length ms\<rparr>)"
proof -
  let ?tail = "claim_rows (n + 1) (map (\<lambda>m. (t_id m, if kind = SPLIT then EXTERNAL else INTERNAL)) ms)"
  let ?c0 = "\<lparr>c_id = n, c_txn = t_id single, c_result = Some (gid + 1),
     c_role = (if kind = SPLIT then INTERNAL else EXTERNAL), c_active = True\<rparr>"
  have cs: "cs = ?c0 # attach (gid + 1) ?tail" by (simp add: cs_def group_claims_def group_members_def)
  have tl: "map c_txn ?tail = map t_id ms" by (simp add: comp_def)
  have act_tail: "list_all c_active (attach (gid + 1) ?tail)"
    by (rule all_by_map) (simp only: attach_fields claim_rows_fields)
  have ids: "map c_id cs = [n..<n + 1 + length ms]"
    by (simp add: cs upt_conv_Cons del: upt_Suc)
  have rin: "gid + 1 \<le> r_id r \<and> r_id r < gid + 1 + length ms \<and> live r \<and> settled r \<and> r_group r = Some gid
      \<and> r_status r = AUTO_MATCHED \<and> (\<exists>m \<in> set ms. sides r = {t_id single, t_id m})" if r: "r \<in> set rs" for r
  proof -
    obtain m where m: "m \<in> set ms" "r = (row m)\<lparr>r_id := r_id r\<rparr>" using number_rows_in[of r row "gid + 1" ms] r rs_def by blast
    have st: "r_status ((row m)\<lparr>r_id := r_id r\<rparr>) = AUTO_MATCHED" by (simp add: row_def group_row_fields)
    show ?thesis using number_rows_in[of r row "gid + 1" ms] r m st group_row_fields[of run_id kind single sol gid m]
      unfolding rs_def row_def[symmetric] by (metis renumbered)
  qed
  note bij = attach_rows[OF tl, of "gid + 1" row, folded rs_def]
  obtain m0 mr where ms: "ms = m0 # mr" using assms(2) by (cases ms) auto
  define r0 where "r0 = (row m0)\<lparr>r_id := gid + 1\<rparr>"
  have r0: "r0 \<in> set rs" "r_id r0 = gid + 1" "t_id single \<in> sides r0"
    by (simp_all add: r0_def rs_def ms row_def group_row_fields)
  have row_sides: "t_id m \<in> sides ((row m)\<lparr>r_id := x\<rparr>)" for m x by (simp add: row_def group_row_fields)
  have cin: "c_active c \<and> (\<exists>r \<in> set rs. c_result c = Some (r_id r) \<and> c_txn c \<in> sides r)" if c: "c \<in> set cs" for c
  proof (cases "c = ?c0")
    case True
    then have "c_active c" "c_result c = Some (r_id r0)" "c_txn c \<in> sides r0" using r0 by simp_all
    then show ?thesis using r0(1) by blast
  next
    case False
    then have c': "c \<in> set (attach (gid + 1) ?tail)" using c unfolding cs by simp
    then obtain m r where "m \<in> set ms" "r \<in> set rs" "r = (row m)\<lparr>r_id := r_id r\<rparr>" "c_result c = Some (r_id r)" "c_txn c = t_id m"
      using bij by blast
    then show ?thesis using act_tail c' row_sides[of m "r_id r"] by (metis list_all_iff)
  qed
  have key: "match_key r = (True, gid)" if "r \<in> set rs" for r using rin[OF that] by (simp add: match_key_def)
  have held: "\<exists>c \<in> set cs. c_txn c = t \<and> (\<exists>r' \<in> set rs. c_result c = Some (r_id r') \<and> match_key r' = match_key r)"
    if r: "r \<in> set rs" "t \<in> sides r" for r t
  proof -
    consider "t = t_id single" | m where "m \<in> set ms" "t = t_id m" using rin[OF r(1)] r(2) by auto
    then show ?thesis
    proof cases
      case 1
      have "?c0 \<in> set cs" by (simp add: cs)
      moreover have "c_txn ?c0 = t" "c_result ?c0 = Some (r_id r0)" using 1 r0 by simp_all
      ultimately show ?thesis using r0(1) key[OF r0(1)] key[OF r(1)] by metis
    next
      case 2
      then obtain c r' where "c \<in> set (attach (gid + 1) ?tail)" "c_txn c = t" "r' \<in> set rs" "c_result c = Some (r_id r')"
        using bij by blast
      then show ?thesis using key r(1) unfolding cs by auto
    qed
  qed
  have st: "settled_ids rs = insert (t_id single) (t_id ` set ms)"
  proof
    show "settled_ids rs \<subseteq> insert (t_id single) (t_id ` set ms)" using rin by (fastforce simp: settled_ids_def)
    have "t_id single \<in> settled_ids rs" using r0 rin[OF r0(1)] by (auto simp: settled_ids_def)
    moreover have "t_id m \<in> settled_ids rs" if m: "m \<in> set ms" for m
    proof -
      obtain c where "c \<in> set (attach (gid + 1) ?tail)" "c_txn c = t_id m" using bij m by blast
      then obtain r where "r \<in> set rs" "c_txn c \<in> sides r" using cin[of c] unfolding cs by auto
      then show ?thesis using rin \<open>c_txn c = t_id m\<close> by (auto simp: settled_ids_def)
    qed
    ultimately show "insert (t_id single) (t_id ` set ms) \<subseteq> settled_ids rs" by blast
  qed
  have a: "distinct (active_txns (claims db @ cs))"
    using act by (simp add: active_txns_append cs_def group_claims_active)
  have di: "distinct (map r_id rs)" "distinct (map c_id cs)" unfolding rs_def number_rows_ids ids by simp_all
  have cid: "n \<le> c_id c \<and> c_id c < n + 1 + length ms" if "c \<in> set cs" for c
  proof -
    have "c_id c \<in> set (map c_id cs)" using that by simp
    then show ?thesis unfolding ids by auto
  qed
  show ?thesis
    unfolding writes_def
    using rin cin held a di cid st by (simp add: n_def[symmetric]) (fastforce simp: gid_def n_def)
qed

section \<open>The strategy keeps the ledger\<close>

definition linked :: "group_config \<Rightarrow> txn \<Rightarrow> txn \<Rightarrow> bool" where
  "linked cfg a b =
     (\<not> set (stem_keys a (gc_min_stem cfg)) \<inter> set (stem_keys b (gc_min_stem cfg)) = {}
      \<or> \<not> set (party_keys cfg a) \<inter> set (party_keys cfg b) = {})"

text \<open>A group the configuration allows, found for a single side in a pool.\<close>

definition good_group ::
    "bool \<Rightarrow> group_context \<Rightarrow> fx_rate list \<times> int \<Rightarrow> (nat \<times> nat) list \<Rightarrow> nat \<Rightarrow> txn list \<Rightarrow> txn \<Rightarrow> txn list \<Rightarrow> bool" where
  "good_group priced gx src rejected max_members pool single members =
     (set members \<subseteq> set pool \<and> distinct (map t_id members)
      \<and> 2 \<le> length members \<and> length members \<le> max_members
      \<and> (\<forall>m \<in> set members. linked (gx_config gx) single m \<and> may_join (gx_config gx) rejected [] single m)
      \<and> comparable priced (gx_table gx) (gx_config gx) src single members)"

lemma may_join_any: "may_join cfg rejected consumed single t \<Longrightarrow> may_join cfg rejected [] single t"
  by (simp add: may_join_def)

lemma try_links_sound:
  "\<lbrakk>try_links gx max_members single links (out, fx) = Inr (sol, out', fx'); priced \<longrightarrow> fx_opt src fx;
    \<forall>(l, c, cands) \<in> set links. distinct (map t_id cands) \<and> (\<forall>m \<in> set cands. Q m)\<rbrakk> \<Longrightarrow>
   (priced \<longrightarrow> fx_opt src fx') \<and> (\<forall>so. sol = Some so \<longrightarrow> (\<forall>m \<in> set (so_members so). Q m) \<and>
     (\<exists>cands. solves priced (gx_table gx) (gx_config gx) src max_members single cands (so_members so)))"
proof (induction links arbitrary: out fx)
  case (Cons l links)
  obtain lk conf cands where l: "l = (lk, conf, cands)" by (cases l)
  have ok: "\<forall>(l, c, cands) \<in> set links. distinct (map t_id cands) \<and> (\<forall>m \<in> set cands. Q m)"
    and d: "distinct (map t_id cands)" "\<forall>m \<in> set cands. Q m" using Cons.prems(3) by (auto simp: l)
  show ?case
  proof (cases "length cands < 2")
    case True
    then have "try_links gx max_members single links (out, fx) = Inr (sol, out', fx')" using Cons.prems(1) by (simp add: l)
    then show ?thesis using Cons.prems(2) ok by (rule Cons.IH)
  next
    case False
    obtain so o1 f1 where f: "fit_group gx max_members single cands lk conf (out, fx) = Inr (so, o1, f1)"
      using Cons.prems(1) False by (auto simp: l res_iff)
    note fs = fit_group_sound[OF f d(1) Cons.prems(2)]
    show ?thesis
    proof (cases so)
      case None
      then have "try_links gx max_members single links (o1, f1) = Inr (sol, out', fx')"
        using Cons.prems(1) False f by (simp add: l)
      then show ?thesis using conjunct1[OF fs] ok by (rule Cons.IH)
    next
      case (Some x)
      then have eq: "sol = Some x" "fx' = f1" using Cons.prems(1) False f by (simp_all add: l)
      have sv: "solves priced (gx_table gx) (gx_config gx) src max_members single cands (so_members x)"
        using fs Some by blast
      then have "\<forall>m \<in> set (so_members x). Q m" using d(2) unfolding solves_def by blast
      then show ?thesis using fs eq sv by blast
    qed
  qed
qed simp

lemma solve_single_sound:
  assumes "solve_single gx rejected consumed max_members (index_pool (\<lambda>t. stem_keys t (gc_min_stem (gx_config gx))) pool)
      (index_pool (party_keys (gx_config gx)) pool) single (out, fx) = Inr (sol, out', fx')"
    and "priced \<longrightarrow> fx_opt src fx"
  shows "(priced \<longrightarrow> fx_opt src fx') \<and> (\<forall>so. sol = Some so \<longrightarrow>
     good_group priced gx src rejected max_members pool single (so_members so))"
proof -
  let ?cfg = "gx_config gx"
  let ?st = "group_candidates ?cfg rejected consumed single (index_pool (\<lambda>t. stem_keys t (gc_min_stem ?cfg)) pool)
      (stem_keys single (gc_min_stem ?cfg))"
  let ?pt = "group_candidates ?cfg rejected consumed single (index_pool (party_keys ?cfg) pool) (party_keys ?cfg single)"
  let ?Q = "\<lambda>m. m \<in> set pool \<and> linked ?cfg single m \<and> may_join ?cfg rejected [] single m"
  have r: "try_links gx max_members single [(''reference stem'', 95 / 100, ?st), (''counterparty'', 90 / 100, ?pt)] (out, fx)
      = Inr (sol, out', fx')" using assms(1) by (simp add: solve_single_def Let_def)
  have st: "\<forall>m \<in> set ?st. ?Q m" using group_candidates_in may_join_any by (fastforce simp: linked_def)
  have pt: "\<forall>m \<in> set ?pt. ?Q m" using group_candidates_in may_join_any by (fastforce simp: linked_def)
  have "\<forall>(l, c, cands) \<in> set [(''reference stem'', 95 / 100, ?st), (''counterparty'', 90 / 100, ?pt)].
      distinct (map t_id cands) \<and> (\<forall>m \<in> set cands. ?Q m)"
    using st pt group_candidates_distinct by simp
  note t = try_links_sound[OF r assms(2) this]
  show ?thesis
  proof (intro conjI allI impI)
    show "fx_opt src fx'" if priced using t that by blast
    fix so assume "sol = Some so"
    then obtain cands where q: "\<forall>m \<in> set (so_members so). ?Q m"
      and s: "solves priced (gx_table gx) ?cfg src max_members single cands (so_members so)" using t by blast
    show "good_group priced gx src rejected max_members pool single (so_members so)"
      using q s unfolding good_group_def solves_def by blast
  qed
qed

text \<open>The pairs of the rows of a good group.\<close>

definition group_made ::
    "bool \<Rightarrow> group_context \<Rightarrow> fx_rate list \<times> int \<Rightarrow> (nat \<times> nat) list \<Rightarrow> txn list \<Rightarrow> txn list \<Rightarrow> nat \<times> nat \<Rightarrow> bool" where
  "group_made priced gx src rejected ints exts p =
     ((\<exists>single \<in> set ints. \<exists>members. good_group priced gx src rejected (gc_max_split (gx_config gx)) exts single members
         \<and> p \<in> (\<lambda>m. (t_id single, t_id m)) ` set members)
      \<or> (\<exists>single \<in> set exts. \<exists>members. good_group priced gx src rejected (gc_max_netted (gx_config gx)) ints single members
         \<and> p \<in> (\<lambda>m. (t_id m, t_id single)) ` set members))"

lemma group_made_split:
  "\<lbrakk>single \<in> set ints; good_group priced gx src rejected (gc_max_split (gx_config gx)) exts single members; m \<in> set members\<rbrakk>
   \<Longrightarrow> group_made priced gx src rejected ints exts (t_id single, t_id m)"
  unfolding group_made_def by blast

lemma group_made_netted:
  "\<lbrakk>single \<in> set exts; good_group priced gx src rejected (gc_max_netted (gx_config gx)) ints single members; m \<in> set members\<rbrakk>
   \<Longrightarrow> group_made priced gx src rejected ints exts (t_id m, t_id single)"
  unfolding group_made_def by blast

lemma record_group_false: "record_group gx kind single sol out db = Inr (False, out', db') \<Longrightarrow> db' = db"
  by (auto simp: record_group_def res_iff Let_def split: sum.splits)

lemma record_group_keeps:
  assumes "record_group gx kind single sol out db = Inr (ok, out', db')" "so_members sol \<noteq> []"
    and P: "\<forall>m \<in> set (so_members sol). P (case group_pair kind single m of (i, e) \<Rightarrow> (t_id i, t_id e))"
  shows "keeps P db db'"
proof (cases ok)
  case False
  then show ?thesis using record_group_false assms(1) by (metis (full_types) keeps_refl)
next
  case True
  show ?thesis unfolding keeps_def
  proof
    assume l: "ledger_ok db"
    let ?n = "next_id db" and ?ms = "so_members sol"
    let ?gid = "?n + length ?ms + 1"
    let ?row = "group_row (gx_run gx) kind single sol ?gid"
    let ?rs = "number_rows ?row (?gid + 1) ?ms"
    obtain d where au: "audit_group gx kind ?gid single sol d = Inr db'"
      and act: "distinct (active_txns (claims db) @ t_id single # map t_id ?ms)"
      and d: "d = db\<lparr>txns := map (mark_matched (insert (t_id single) (t_id ` set ?ms))) (txns db),
             results := results db @ ?rs, claims := claims db @ group_claims ?n kind single ?ms (?gid + 1),
             next_id := ?gid + 1 + length ?ms\<rparr>"
      using record_group_shape[OF assms(1)[unfolded eqTrueI[OF True]] ledger_ids[OF l] assms(2)] by blast
    have w: "writes db ?rs (group_claims ?n kind single ?ms (?gid + 1)) d"
      unfolding d by (rule group_write[OF ledger_ids[OF l] assms(2) act])
    have pairs: "P (r_internal r, r_external r)" if r: "r \<in> set ?rs" for r
    proof -
      obtain m where m: "m \<in> set ?ms" "r = (?row m)\<lparr>r_id := r_id r\<rparr>"
        using number_rows_in[OF r] by blast
      have "r_internal r = r_internal (?row m)" "r_external r = r_external (?row m)"
        by (subst m(2), simp)+
      then have "(r_internal r, r_external r) = (case group_pair kind single m of (i, e) \<Rightarrow> (t_id i, t_id e))"
        by (cases "group_pair kind single m") (simp add: group_row_def)
      then show ?thesis using P m(1) by simp
    qed
    have "grows P db d" by (rule writes_grows[OF w, of "[]"]) (use pairs d in auto)
    then have "keeps P db d" using writes_ok[OF w l] by (simp add: keeps_def)
    moreover have "keeps P d db'" using au unfolding audit_group_def by (rule audit_if_keeps)
    ultimately show "ledger_ok db' \<and> grows P db db'" using keeps_trans keeps_ok l by blast
  qed
qed

definition pass_pair :: "match_type \<Rightarrow> txn \<Rightarrow> txn \<Rightarrow> nat \<times> nat" where
  "pass_pair kind single m = (case group_pair kind single m of (i, e) \<Rightarrow> (t_id i, t_id e))"

lemma pass_step_keeps:
  assumes "pass_step gx kind rejected max_members (index_pool (\<lambda>t. stem_keys t (gc_min_stem (gx_config gx))) pool)
      (index_pool (party_keys (gx_config gx)) pool) single (consumed, out, fx, db) = Inr (consumed', out', fx', db')"
    and "priced \<longrightarrow> fx_opt src fx"
    and P: "\<And>members m. \<lbrakk>good_group priced gx src rejected max_members pool single members; m \<in> set members\<rbrakk> \<Longrightarrow>
      P (pass_pair kind single m)"
  shows "(priced \<longrightarrow> fx_opt src fx') \<and> keeps P db db'"
proof (cases "t_id single \<in> set consumed")
  case True
  then show ?thesis using assms(1,2) by (simp add: pass_step_def)
next
  case False
  obtain sol o1 f1 where s: "solve_single gx rejected consumed max_members
      (index_pool (\<lambda>t. stem_keys t (gc_min_stem (gx_config gx))) pool)
      (index_pool (party_keys (gx_config gx)) pool) single (out, fx) = Inr (sol, o1, f1)"
    using assms(1) False by (auto simp: pass_step_def res_iff)
  note ss = solve_single_sound[OF s assms(2)]
  show ?thesis
  proof (cases sol)
    case None
    then show ?thesis using assms(1) False s ss by (simp add: pass_step_def)
  next
    case (Some so)
    obtain ok o2 d where r: "record_group gx kind single so o1 db = Inr (ok, o2, d)"
      using assms(1) False s Some by (auto simp: pass_step_def res_iff)
    have eq: "fx' = f1" "db' = d" using assms(1) False s Some r by (simp_all add: pass_step_def)
    have g: "good_group priced gx src rejected max_members pool single (so_members so)" using ss Some by blast
    have ne: "so_members so \<noteq> []" using g by (auto simp: good_group_def)
    have "\<forall>m \<in> set (so_members so). P (case group_pair kind single m of (i, e) \<Rightarrow> (t_id i, t_id e))"
      using P[OF g] by (simp add: pass_pair_def)
    then have "keeps P db d" by (rule record_group_keeps[OF r ne])
    then show ?thesis using ss eq by blast
  qed
qed

lemma pass_loop_keeps:
  "\<lbrakk>pass_loop gx kind rejected max_members (index_pool (\<lambda>t. stem_keys t (gc_min_stem (gx_config gx))) pool)
      (index_pool (party_keys (gx_config gx)) pool) singles (consumed, out, fx, db) = Inr (consumed', out', fx', db');
    priced \<longrightarrow> fx_opt src fx;
    \<And>single members m. \<lbrakk>single \<in> set singles; good_group priced gx src rejected max_members pool single members;
      m \<in> set members\<rbrakk> \<Longrightarrow> P (pass_pair kind single m)\<rbrakk> \<Longrightarrow>
   (priced \<longrightarrow> fx_opt src fx') \<and> keeps P db db'"
proof (induction singles arbitrary: consumed out fx db)
  case (Cons single singles)
  let ?st = "index_pool (\<lambda>t. stem_keys t (gc_min_stem (gx_config gx))) pool"
  let ?pt = "index_pool (party_keys (gx_config gx)) pool"
  obtain c1 o1 f1 d1 where s: "pass_step gx kind rejected max_members ?st ?pt single (consumed, out, fx, db) = Inr (c1, o1, f1, d1)"
    and l: "pass_loop gx kind rejected max_members ?st ?pt singles (c1, o1, f1, d1) = Inr (consumed', out', fx', db')"
    using Cons.prems(1) by (auto simp: res_iff)
  have st: "(priced \<longrightarrow> fx_opt src f1) \<and> keeps P db d1"
    using s Cons.prems(2) by (rule pass_step_keeps) (use Cons.prems(3)[of single] in simp)
  have lp: "(priced \<longrightarrow> fx_opt src fx') \<and> keeps P d1 db'"
    by (rule Cons.IH[OF l conjunct1[OF st]]) (use Cons.prems(3) in simp)
  show ?case using keeps_trans[OF conjunct2[OF st] conjunct2[OF lp]] lp by blast
qed simp

lemma group_run_keeps:
  assumes "group_run gx fx ints exts db = Inr ((out, fx'), db')" "priced \<longrightarrow> fx_opt src fx"
  shows "(priced \<longrightarrow> fx_opt src fx')
    \<and> keeps (group_made priced gx src (rejected_pairs db (map t_id ints)) ints exts) db db'"
proof -
  let ?rej = "rejected_pairs db (map t_id ints)"
  let ?P = "group_made priced gx src ?rej ints exts"
  obtain c1 o1 f1 d1 c2 where s: "group_pass gx SPLIT ?rej ints exts ([], new_group_outcome, fx, db) = Inr (c1, o1, f1, d1)"
    and n: "group_pass gx NETTED ?rej exts ints (c1, o1, f1, d1) = Inr (c2, out, fx', db')"
    using assms(1) by (auto simp: group_run_def Let_def res_iff)
  have 1: "(priced \<longrightarrow> fx_opt src f1) \<and> keeps ?P db d1"
    by (rule pass_loop_keeps[OF _ assms(2)])
       (use s in \<open>auto simp: group_pass_def Let_def pass_pair_def group_pair_def intro: group_made_split\<close>)
  have 2: "(priced \<longrightarrow> fx_opt src fx') \<and> keeps ?P d1 db'"
    by (rule pass_loop_keeps[OF _ conjunct1[OF 1]])
       (use n in \<open>auto simp: group_pass_def Let_def pass_pair_def group_pair_def intro: group_made_netted\<close>)
  show ?thesis using keeps_trans[OF conjunct2[OF 1] conjunct2[OF 2]] 2 by blast
qed

lemma group_made_stage:
  assumes "group_made priced gx src (rejected_pairs db (map t_id ints)) ints exts p" "sided ints exts"
  shows "stage_pair db ints exts p"
  using assms
  by (auto simp: group_made_def good_group_def may_join_def is_rejected_def stage_pair_def sided_def)

interpretation group_stage: matching_stage "group_run gx fx"
proof
  fix ints exts db out db'
  assume r: "group_run gx fx ints exts db = Inr (out, db')" and sd: "sided ints exts" and l: "ledger_ok db"
  obtain o2 fx2 where o: "out = (o2, fx2)" by fastforce
  have "keeps (group_made False gx ([], 0) (rejected_pairs db (map t_id ints)) ints exts) db db'"
    using group_run_keeps[OF r[unfolded o], of False] by blast
  note k = keeps_ok[OF this l]
  show "ledger_ok db'" using k by blast
  show "grows (stage_pair db ints exts) db db'"
    by (rule grows_mono[OF conjunct2[OF k] group_made_stage[OF _ sd]])
qed

section \<open>Properties\<close>

text \<open>C38. Every row a group run adds belongs to a group of linked members on the
  other side: two or more, within the configured size, in the date window and
  direction of the single side, none a rejected pair, with amounts that fit in
  their common currency or in INR at the rates of their dates. The ledger stays
  consistent.\<close>

theorem group_run_sound:
  assumes "group_run gx fx ints exts db = Inr ((out, fx'), db')" "fx_opt src fx" "ledger_ok db"
  shows "ledger_ok db' \<and> grows (group_made True gx src (rejected_pairs db (map t_id ints)) ints exts) db db'"
proof -
  have "keeps (group_made True gx src (rejected_pairs db (map t_id ints)) ints exts) db db'"
    using group_run_keeps[OF assms(1), of True src] assms(2) by blast
  then show ?thesis using assms(3) by (rule keeps_ok)
qed

text \<open>Recording a group is all or nothing: on a claim conflict nothing changes,
  otherwise the ledger gets exactly one automatic row per member with one common
  new group id, one active claim per transaction, and all of them are MATCHED.\<close>

theorem record_group_atomic:
  assumes "record_group gx kind single sol out db = Inr (ok, out', db')" "ledger_ok db" "so_members sol \<noteq> []"
  shows "if \<not> ok then db' = db else
    (\<exists>rs. results db' = results db @ rs \<and> length rs = length (so_members sol)
       \<and> (\<forall>r \<in> set rs. r_group r = Some (next_id db + length (so_members sol) + 1) \<and> r_status r = AUTO_MATCHED)
       \<and> map (\<lambda>r. (r_internal r, r_external r)) rs = map (pass_pair kind single) (so_members sol)
       \<and> active_txns (claims db') = active_txns (claims db) @ t_id single # map t_id (so_members sol)
       \<and> txns db' = map (mark_matched (insert (t_id single) (t_id ` set (so_members sol)))) (txns db))"
proof (cases ok)
  case False
  then show ?thesis using record_group_false assms(1) by (metis (full_types))
next
  case True
  let ?ms = "so_members sol" and ?n = "next_id db"
  let ?gid = "?n + length ?ms + 1"
  let ?row = "group_row (gx_run gx) kind single sol ?gid"
  let ?rs = "number_rows ?row (?gid + 1) ?ms"
  obtain d where au: "audit_group gx kind ?gid single sol d = Inr db'"
    and d: "d = db\<lparr>txns := map (mark_matched (insert (t_id single) (t_id ` set ?ms))) (txns db),
             results := results db @ ?rs, claims := claims db @ group_claims ?n kind single ?ms (?gid + 1),
             next_id := ?gid + 1 + length ?ms\<rparr>"
    using record_group_shape[OF assms(1)[unfolded eqTrueI[OF True]] ledger_ids[OF assms(2)] assms(3)] by blast
  have same: "results db' = results d" "claims db' = claims d" "txns db' = txns d"
    using au append_audit_shape unfolding audit_group_def audit_if_def by (fastforce split: option.splits)+
  have "\<forall>r \<in> set (number_rows ?row x ms). r_group r = Some ?gid \<and> r_status r = AUTO_MATCHED" for x ms
    by (induction ms arbitrary: x) (simp_all add: group_row_fields)
  moreover have "map (\<lambda>r. (r_internal r, r_external r)) (number_rows ?row x ms) = map (pass_pair kind single) ms" for x ms
    by (induction ms arbitrary: x) (auto simp: group_row_def pass_pair_def split: prod.splits)
  moreover have "length (number_rows ?row x ms) = length ms" for x ms by (induction ms arbitrary: x) simp_all
  moreover note group_claims_active[of ?n kind single ?ms]
  ultimately show ?thesis using True same unfolding d by (auto simp: active_txns_append)
qed

text \<open>A cross-currency group search that picks only INR legs on both sides
  (other candidates of the linked set being foreign) ends the whole run with an
  \<open>IndexError\<close>: there is no foreign leg to describe.\<close>

theorem fit_group_all_inr_raises:
  assumes "group_legs (gx_table gx) (gx_config gx) fx single candidates = Inr (Some lg, fx')"
    and "\<exists>c \<in> set candidates. t_currency c \<noteq> ''INR''" and "t_currency single = ''INR''"
    and "choose_members (gx_config gx) max_members lg out = Inr (Some idx, out')"
    and "\<forall>k \<in> set idx. t_currency (candidates ! k) = ''INR''"
  shows "fit_group gx max_members single candidates link conf (out, fx) = Inl IndexError"
proof -
  have q: "lg_quotes lg \<noteq> []" using group_legs_quotes[OF assms(1)] assms(2,3) by auto
  then show ?thesis
    using assms by (simp add: fit_group_def fx_details_of_def)
qed

text \<open>The whole linked set is taken when its sum fits, even where another subset
  fits as well and the search alone would call the group ambiguous.\<close>

theorem whole_set_not_unique:
  "choose_members default_group_config 10 \<lparr>lg_target = 1000, lg_amounts = [500, 499, 1], lg_low = 999, lg_high = 1001, lg_quotes = []\<rparr>
     new_group_outcome = Inr (Some [0, 1, 2], new_group_outcome)
   \<and> (\<exists>found. find_unique_subset [500, 499, 1] 999 1001 2 10 default_max_states = Inr found
        \<and> ss_outcome found = AMBIGUOUS)"
proof -
  have "find_unique_subset [500, 499, 1] 999 1001 2 10 default_max_states =
    Inr \<lparr>ss_outcome = AMBIGUOUS, ss_indices = [], ss_total = 0\<rparr>" by code_simp
  then show ?thesis by (simp add: choose_members_def default_group_config_def Let_def upt_rec)
qed


definition sample_gx :: group_context where
  "sample_gx = \<lparr>gx_run = ''r'', gx_table = default_exponents, gx_config = default_group_config, gx_auditor = None,
                gx_text = (\<lambda>_. [])\<rparr>"

definition sample_parts :: "txn list" where
  "sample_parts = [sample_txn 4 EXTERNAL 400 ''PAY-100-1'' 10, sample_txn 5 EXTERNAL 600 ''PAY-100-2'' 11]"

definition sample_whole :: txn where
  "sample_whole = sample_txn 3 INTERNAL 1000 ''PAY-100'' 10"

lemma sample_keys:
  "stem_keys sample_whole 4 = [''PAY-100'']"
  "stem_keys (sample_txn 4 EXTERNAL 400 ''PAY-100-1'' 10) 4 = [''PAY-100-1'', ''PAY-100'']"
  "stem_keys (sample_txn 5 EXTERNAL 600 ''PAY-100-2'' 11) 4 = [''PAY-100-2'', ''PAY-100'']"
  by code_simp+

lemma sample_links:
  "group_candidates default_group_config [] [] sample_whole (index_pool (\<lambda>t. stem_keys t 4) sample_parts) (stem_keys sample_whole 4)
     = sample_parts"
proof -
  have d: "t_date sample_whole = 10" "t_direction sample_whole = DR" "gc_date_window default_group_config = 2"
    by (simp_all add: sample_whole_def sample_txn_def default_group_config_def)
  have "dict_get [] ''PAY-100'' (index_pool (\<lambda>t. stem_keys t 4) sample_parts) = sample_parts"
    by (simp add: index_pool_def sample_parts_def sample_keys dict_get_def)
  then show ?thesis
    by (simp add: group_candidates_def sample_keys(1) d Let_def is_rejected_def)
       (simp add: sample_parts_def sample_txn_def)
qed

lemma sample_parties:
  "group_candidates default_group_config [] [] sample_whole (index_pool (party_keys default_group_config) sample_parts)
     (party_keys default_group_config sample_whole) = []"
  by (simp add: group_candidates_def party_keys_def sample_whole_def sample_txn_def counterparty_key_def)

definition sample_solution :: solution where
  "sample_solution = \<lparr>so_members = sample_parts, so_confidence = 95 / 100, so_link = ''reference stem'', so_fx = None,
     so_single_minor = 1000, so_members_minor = 1000\<rparr>"

lemma sample_solve:
  "solve_single sample_gx [] [] 10 (index_pool (\<lambda>t. stem_keys t 4) sample_parts)
     (index_pool (party_keys default_group_config) sample_parts) sample_whole (new_group_outcome, None)
   = Inr (Some sample_solution, new_group_outcome, None)"
proof -
  have c: "gx_config sample_gx = default_group_config" "gc_min_stem default_group_config = 4"
    "gc_tolerance default_group_config = 1"
    by (simp_all add: sample_gx_def default_group_config_def)
  have l: "length sample_parts = 2" by (simp add: sample_parts_def)
  have cur: "list_all (\<lambda>c. t_currency c = t_currency sample_whole) sample_parts"
    by (simp add: sample_parts_def sample_whole_def sample_txn_def)
  have am: "map t_amount_minor sample_parts = [400, 600]" "t_amount_minor sample_whole = 1000"
    by (simp_all add: sample_parts_def sample_whole_def sample_txn_def)
  have pick: "[sample_parts ! 0, sample_parts ! Suc 0] = sample_parts" by (simp add: sample_parts_def)
  show ?thesis
    by (simp add: solve_single_def c sample_links sample_parties l fit_group_def group_legs_def cur am choose_members_def
        upt_rec pick fx_details_of_def sample_solution_def Let_def)
qed

lemma sample_record:
  "\<exists>out db. record_group sample_gx SPLIT sample_whole sample_solution new_group_outcome (sample_db (sample_whole # sample_parts))
     = Inr (True, out, db) \<and> go_split out = 1"
  by (simp add: record_group_def claim_group_def insert_claims_def claims_unique_def group_members_def active_txns_def
      add_result_def result_row_ok_def group_row_def group_pair_def sample_solution_def sample_parts_def sample_whole_def sample_txn_def
      sample_db_def Let_def finalise_def audit_group_def audit_if_def sample_gx_def new_group_outcome_def set_status_def)

lemma sample_group_ok: "ledger_ok (sample_db (sample_whole # sample_parts))"
  by (rule sample_ok) (simp_all add: sample_whole_def sample_parts_def sample_txn_def)

theorem record_group_atomic_witness:
  "\<exists>out db. record_group sample_gx SPLIT sample_whole sample_solution new_group_outcome (sample_db (sample_whole # sample_parts))
     = Inr (True, out, db) \<and> active_txns (claims db) = [3, 4, 5]"
proof -
  obtain out db where r: "record_group sample_gx SPLIT sample_whole sample_solution new_group_outcome
      (sample_db (sample_whole # sample_parts)) = Inr (True, out, db)" using sample_record by blast
  have ne: "so_members sample_solution \<noteq> []" by (simp add: sample_solution_def sample_parts_def)
  have "active_txns (claims db) = active_txns (claims (sample_db (sample_whole # sample_parts)))
      @ t_id sample_whole # map t_id (so_members sample_solution)"
    using record_group_atomic[OF r sample_group_ok ne] by auto
  then have "active_txns (claims db) = [3, 4, 5]"
    by (simp add: sample_db_def sample_solution_def sample_parts_def sample_whole_def sample_txn_def active_txns_def)
  then show ?thesis using r by blast
qed

theorem group_run_sound_witness:
  "\<exists>out fx db. group_run sample_gx None [sample_whole] sample_parts (sample_db (sample_whole # sample_parts))
     = Inr ((out, fx), db) \<and> go_split out = 1 \<and> ledger_ok db"
proof -
  obtain o1 d1 where r: "record_group sample_gx SPLIT sample_whole sample_solution new_group_outcome
      (sample_db (sample_whole # sample_parts)) = Inr (True, o1, d1)" "go_split o1 = 1" using sample_record by blast
  have c: "gx_config sample_gx = default_group_config" "gc_min_stem default_group_config = 4"
    "gc_max_split default_group_config = 10"
    by (simp_all add: sample_gx_def default_group_config_def)
  have rej: "rejected_pairs (sample_db (sample_whole # sample_parts)) ids = []" for ids
    by (simp add: sample_db_def rejected_pairs_def)
  have ids: "t_id sample_whole = 3" "map t_id sample_parts = [4, 5]" "t_id ` set sample_parts = {4, 5}"
    by (simp_all add: sample_whole_def sample_parts_def sample_txn_def)
  have mem: "so_members sample_solution = sample_parts" by (simp add: sample_solution_def)
  have skip: "pass_step gx kind rejs n st pt single (consumed, out, fx, db) = Inr (consumed, out, fx, db)"
    if "t_id single \<in> set consumed" for gx kind rejs n st pt single consumed out fx db
    using that by (simp add: pass_step_def)
  have s: "group_pass sample_gx SPLIT [] [sample_whole] sample_parts ([], new_group_outcome, None, sample_db (sample_whole # sample_parts))
      = Inr ([3, 4, 5], o1, None, d1)"
    by (simp add: group_pass_def c pass_step_def sample_solve r ids mem)
  have n: "group_pass sample_gx NETTED [] sample_parts [sample_whole] ([3, 4, 5], o1, None, d1) = Inr ([3, 4, 5], o1, None, d1)"
    by (simp add: group_pass_def sample_parts_def sample_txn_def skip Let_def)
  have g: "group_run sample_gx None [sample_whole] sample_parts (sample_db (sample_whole # sample_parts)) = Inr ((o1, None), d1)"
    by (simp add: group_run_def rej s n)
  have "ledger_ok d1"
    by (rule conjunct1[OF group_run_sound[OF g _ sample_group_ok, of "([], 0)"]]) (simp add: fx_opt_def)
  then show ?thesis using g r(2) by blast
qed


lemma ctx28_between:
  assumes "0 \<le> x" "x \<le> 10 ^ 6" "a \<le> x - 1 / 10 ^ 20" "x + 1 / 10 ^ 20 \<le> b"
  shows "a \<le> ctx28 x \<and> ctx28 x \<le> b"
proof -
  have "\<bar>ctx28 x - x\<bar> \<le> \<bar>x\<bar> * pow10 (- 27) / 2" by (rule ctx28_err)
  also have "\<dots> \<le> 10 ^ 6 * (1 / 10 ^ 27) / 2"
    using assms(1,2) by (simp add: pow10_def)
  also have "\<dots> \<le> 1 / 10 ^ 20" by simp
  finally have e: "\<bar>ctx28 x - x\<bar> \<le> 1 / 10 ^ 20" .
  show ?thesis using e assms(3,4) by linarith
qed

lemma ctx28_pick: "x * pow10 k = of_int m \<Longrightarrow> \<bar>m\<bar> < 10 ^ 28 \<Longrightarrow> ctx28 x = x"
  by (rule ctx28_exact)

lemma sample_bounds: "fx_bounds (3 / 2) 1000 = Inr (986, 1015)"
proof -
  have t: "ctx28 (3 / 2 / 100) = 3 / 200" by (subst ctx28_pick[where k = 3 and m = 15]) (simp_all add: pow10_def)
  have l: "ctx28 (2 - 3 / 200) = 397 / 200" by (subst ctx28_pick[where k = 3 and m = 1985]) (simp_all add: pow10_def)
  have u: "ctx28 (2 + 3 / 200) = 403 / 200" by (subst ctx28_pick[where k = 3 and m = 2015]) (simp_all add: pow10_def)
  have ml: "ctx28 (1000 * (397 / 200)) = 1985" by (subst ctx28_pick[where k = 0 and m = 1985]) (simp_all add: pow10_def)
  have mu: "ctx28 (1000 * (403 / 200)) = 2015" by (subst ctx28_pick[where k = 0 and m = 2015]) (simp_all add: pow10_def)
  let ?a = "1985 / (403 / 200) :: rat" and ?b = "2015 / (397 / 200) :: rat"
  have "985 + 1 / 10 \<le> ctx28 ?a \<and> ctx28 ?a \<le> 985 + 9 / 10" by (rule ctx28_between) simp_all
  then have ca: "\<lceil>ctx28 ?a\<rceil> = 986" by (intro ceiling_unique) simp_all
  have "1015 \<le> ctx28 ?b \<and> ctx28 ?b \<le> 1015 + 9 / 10" by (rule ctx28_between) simp_all
  then have fb: "\<lfloor>ctx28 ?b\<rfloor> = 1015" by (intro floor_unique) simp_all
  have tt: "ctx28 (3 / 2 / 100 :: rat) = 3 / 200" using t by simp
  show ?thesis unfolding fx_bounds_def Let_def tt l u dec_mul_def dec_div_def using ml mu ca fb by simp
qed

definition sample_mixed :: "txn list" where
  "sample_mixed = sample_parts @ [sample_dollar 6]"

lemma sample_mixed_legs:
  "\<exists>q fx'. group_legs default_exponents default_group_config (Some sample_fx) sample_whole sample_mixed
     = Inr (Some \<lparr>lg_target = 1000, lg_amounts = [400, 600, 8300], lg_low = 986, lg_high = 1015, lg_quotes = q\<rparr>, fx')"
proof -
  obtain q fx' where f: "fx_get sample_fx ''USD'' 11 = (Some q, fx')" "q_rate_inr q = 83" using sample_quote by blast
  have inr: "fx_get svc ''INR'' d = (Some \<lparr>q_currency = ''INR'', q_rate_inr = 1, q_source = IDENTITY, q_rate_date = d,
      q_days_stale = 0, q_suspect = False\<rparr>, svc)" for svc d by (simp add: fx_get_def)
  have m: "to_inr_minor default_exponents 100 ''USD'' 83 = Inr 8300" by (rule sample_usd_inr)
  have i: "to_inr_minor default_exponents x ''INR'' r = Inr x" for x r by (simp add: to_inr_minor_def)
  have w: "t_currency sample_whole = ''INR''" "t_date sample_whole = 10" "t_amount_minor sample_whole = 1000"
    by (simp_all add: sample_whole_def sample_txn_def)
  have c: "\<exists>qs. convert_legs default_exponents sample_fx [] (sample_whole # sample_mixed)
      = Inr (Some (qs, [1000, 400, 600, 8300]), fx')"
    by (simp add: sample_mixed_def sample_parts_def sample_dollar_def sample_txn_def w inr i f m)
  then obtain qs where c: "convert_legs default_exponents sample_fx [] (sample_whole # sample_mixed)
      = Inr (Some (qs, [1000, 400, 600, 8300]), fx')" by blast
  have "\<not> list_all (\<lambda>c. t_currency c = t_currency sample_whole) sample_mixed"
    by (simp add: sample_mixed_def sample_dollar_def w)
  then show ?thesis
    by (simp add: group_legs_def c sample_bounds default_group_config_def del: convert_legs.simps)
qed

theorem fit_group_all_inr_raises_witness:
  "fit_group sample_gx 10 sample_whole sample_mixed ''counterparty'' (9 / 10) (new_group_outcome, Some sample_fx) = Inl IndexError"
proof -
  obtain q fx' where lg: "group_legs default_exponents default_group_config (Some sample_fx) sample_whole sample_mixed
     = Inr (Some \<lparr>lg_target = 1000, lg_amounts = [400, 600, 8300], lg_low = 986, lg_high = 1015, lg_quotes = q\<rparr>, fx')"
    using sample_mixed_legs by blast
  have gx: "gx_table sample_gx = default_exponents" "gx_config sample_gx = default_group_config"
    by (simp_all add: sample_gx_def)
  have ss: "find_unique_subset [400, 600, 8300] 986 1015 2 10 200000
      = Inr \<lparr>ss_outcome = UNIQUE, ss_indices = [0, 1], ss_total = 1000\<rparr>" by code_simp
  have ch: "choose_members default_group_config 10
      \<lparr>lg_target = 1000, lg_amounts = [400, 600, 8300], lg_low = 986, lg_high = 1015, lg_quotes = q\<rparr> new_group_outcome
      = Inr (Some [0, 1], new_group_outcome)"
    by (simp add: choose_members_def default_group_config_def ss Let_def)
  show ?thesis
    by (rule fit_group_all_inr_raises[OF lg[folded gx] _ _ ch[folded gx]])
       (simp_all add: sample_mixed_def sample_parts_def sample_dollar_def sample_whole_def sample_txn_def)
qed

end
