(* ===== verification/Orchestrator.thy ===== *)
theory Orchestrator
  imports ExactMatch Fuzzy GroupMatch
begin

text \<open>
  Model of \<open>matching/orchestrator.py\<close>: the levels run one after the other, each on
  the pools as the level before left them. Every level is an instance of
  \<open>matching_stage\<close>, so a run composes from the interface alone. Durations are
  not modelled. Rates are doubles (\<open>PyFloat\<close>).
\<close>

section \<open>A run\<close>

record orchestrator =
  oc_run :: string
  oc_blocking :: blocking_config
  oc_tolerance :: int
  oc_matching :: matching_config
  oc_set_based :: bool
  oc_mode :: string
  oc_from :: "date option"
  oc_to :: "date option"
  oc_rules :: "rule_stage_config option"
  oc_auditor :: "auditor option"
  oc_similarity :: similarity
  oc_table :: exponents
  oc_text :: "rat \<Rightarrow> string"

definition new_orchestrator :: "orchestrator \<Rightarrow> orchestrator res" where
  "new_orchestrator oc = (if oc_mode oc \<notin> {''FAST'', ''FULL''} then Inl ValueError else Inr oc)"

record orchestrator_outcome =
  oo_exact :: exact_outcome
  oo_fuzzy :: fuzzy_outcome
  oo_internal_before_exact :: nat
  oo_external_before_exact :: nat
  oo_internal_before_fuzzy :: nat
  oo_external_before_fuzzy :: nat
  oo_exact_rate_of_total :: rat
  oo_exact_rate_of_matchable :: rat
  oo_overall_rate :: rat
  oo_rule :: "rule_outcome option"
  oo_cross :: "cross_outcome option"
  oo_group :: "group_outcome option"
  oo_externals_matched :: int

definition total_matched_count :: "orchestrator_outcome \<Rightarrow> nat" where
  "total_matched_count oo =
     ex_matched (oo_exact oo) + fz_auto (oo_fuzzy oo)
     + (case oo_rule oo of None \<Rightarrow> 0 | Some r \<Rightarrow> rl_auto r)
     + (case oo_cross oo of None \<Rightarrow> 0 | Some c \<Rightarrow> co_matched c)
     + (case oo_group oo of None \<Rightarrow> 0 | Some g \<Rightarrow> group_count g)"

definition total_pending_review_count :: "orchestrator_outcome \<Rightarrow> nat" where
  "total_pending_review_count oo =
     fz_review (oo_fuzzy oo) + (case oo_rule oo of None \<Rightarrow> 0 | Some r \<Rightarrow> rl_review r)"

definition safe_rate :: "int \<Rightarrow> int \<Rightarrow> rat" where
  "safe_rate numerator denominator =
     (if denominator \<le> 0 then 0 else float_div (of_int numerator) (of_int denominator))"

definition pools :: "orchestrator \<Rightarrow> string \<Rightarrow> db \<Rightarrow> txn list \<times> txn list" where
  "pools oc bank db =
     (find_unmatched db bank INTERNAL (oc_from oc) (oc_to oc), find_unmatched db bank EXTERNAL (oc_from oc) (oc_to oc))"

text \<open>A level on the current pools.\<close>

definition on_pools :: "orchestrator \<Rightarrow> string \<Rightarrow> (txn list \<Rightarrow> txn list \<Rightarrow> db \<Rightarrow> ('o \<times> db) res) \<Rightarrow> db \<Rightarrow> ('o \<times> db) res" where
  "on_pools oc bank run db = (case pools oc bank db of (ints, exts) \<Rightarrow> run ints exts db)"

definition run_group_stage ::
    "orchestrator \<Rightarrow> rule_stage_config \<Rightarrow> string \<Rightarrow> fx_service option \<Rightarrow> db
     \<Rightarrow> ((cross_outcome option \<times> group_outcome \<times> fx_service option) \<times> db) res" where
  "run_group_stage oc rules bank fx db =
     bind_res (case fx of
                 None \<Rightarrow> Inr ((None, None), db)
               | Some svc \<Rightarrow>
                   bind_res (on_pools oc bank
                       (cross_run \<lparr>cx_run = oc_run oc, cx_table = oc_table oc, cx_tolerance = rs_fx_tolerance rules,
                                   cx_max_days = 3, cx_auditor = oc_auditor oc, cx_text = oc_text oc\<rparr> svc) db)
                     (\<lambda>((out, svc'), db'). Inr ((Some out, Some svc'), db'))) (\<lambda>((cross, fx1), db1).
     bind_res (on_pools oc bank
         (group_run \<lparr>gx_run = oc_run oc, gx_table = oc_table oc, gx_config = rs_group rules,
                     gx_auditor = oc_auditor oc, gx_text = oc_text oc\<rparr> fx1) db1) (\<lambda>((out, fx2), db2).
       Inr ((cross, out, fx2), db2)))"

definition run_rule_stage :: "orchestrator \<Rightarrow> rule_stage_config \<Rightarrow> string \<Rightarrow> db \<Rightarrow> (rule_outcome \<times> db) res" where
  "run_rule_stage oc rules bank db =
     on_pools oc bank (rule_run (oc_run oc) (rs_registry rules) (oc_blocking oc) (oc_matching oc)) db"

text \<open>The four blocks of \<open>run\<close>, each with its condition.\<close>

definition set_based_level :: "orchestrator \<Rightarrow> string \<Rightarrow> db \<Rightarrow> (nat \<times> db) res" where
  "set_based_level oc bank db =
     (if oc_set_based oc then set_based_exact (oc_run oc) bank (oc_from oc) (oc_to oc) db else Inr (0, db))"

definition group_level ::
    "orchestrator \<Rightarrow> string \<Rightarrow> fx_service option \<Rightarrow> db
     \<Rightarrow> ((cross_outcome option \<times> group_outcome option \<times> fx_service option) \<times> db) res" where
  "group_level oc bank fx db =
     (case (oc_mode oc = ''FULL'', oc_rules oc) of
        (True, Some rules) \<Rightarrow>
          bind_res (run_group_stage oc rules bank fx db) (\<lambda>((cross, grp, fx'), db'). Inr ((cross, Some grp, fx'), db'))
      | _ \<Rightarrow> Inr ((None, None, fx), db))"

definition fuzzy_level :: "orchestrator \<Rightarrow> txn list \<times> txn list \<Rightarrow> db \<Rightarrow> (fuzzy_outcome \<times> db) res" where
  "fuzzy_level oc before_fuzzy db =
     (if oc_mode oc = ''FAST'' then Inr (no_fuzzy, db)
      else fuzzy_run (oc_similarity oc) (oc_run oc) (oc_blocking oc) (oc_tolerance oc) (oc_matching oc)
             (fst before_fuzzy) (snd before_fuzzy) db)"

definition rule_level :: "orchestrator \<Rightarrow> string \<Rightarrow> db \<Rightarrow> (rule_outcome option \<times> db) res" where
  "rule_level oc bank db =
     (case (oc_mode oc = ''FULL'', oc_rules oc) of
        (True, Some rules) \<Rightarrow> bind_res (run_rule_stage oc rules bank db) (\<lambda>(out, db'). Inr (Some out, db'))
      | _ \<Rightarrow> Inr (None, db))"

definition orch_run ::
    "orchestrator \<Rightarrow> string \<Rightarrow> fx_service option \<Rightarrow> db \<Rightarrow> ((orchestrator_outcome \<times> fx_service option) \<times> db) res" where
  "orch_run oc bank fx db =
     (let count = (\<lambda>db src. count_unmatched db bank src (oc_from oc) (oc_to oc));
          internal_total = count db INTERNAL;
          external_total = count db EXTERNAL
      in
      bind_res (set_based_level oc bank db) (\<lambda>(set_based, db1).
      bind_res (on_pools oc bank (exact_run (oc_run oc)) db1) (\<lambda>(python_exact, db2).
      (let exact = python_exact\<lparr>ex_matched := set_based + ex_matched python_exact\<rparr> in
      bind_res (group_level oc bank fx db2) (\<lambda>((cross, grp, fx1), db3).
      (let before_fuzzy = pools oc bank db3 in
      bind_res (fuzzy_level oc before_fuzzy db3) (\<lambda>(fuzzy, db4).
      bind_res (rule_level oc bank db4) (\<lambda>(rule, db5).
      (let remaining = count db5 EXTERNAL;
           pending = fz_review fuzzy + (case rule of None \<Rightarrow> 0 | Some r \<Rightarrow> rl_review r);
           matched = int external_total - int remaining - int pending
       in Inr ((\<lparr>oo_exact = exact, oo_fuzzy = fuzzy,
                 oo_internal_before_exact = internal_total, oo_external_before_exact = external_total,
                 oo_internal_before_fuzzy = length (fst before_fuzzy),
                 oo_external_before_fuzzy = length (snd before_fuzzy),
                 oo_exact_rate_of_total = safe_rate (int (ex_matched exact)) (int external_total),
                 oo_exact_rate_of_matchable = safe_rate (int (ex_matched exact)) matched,
                 oo_overall_rate = safe_rate matched (int external_total),
                 oo_rule = rule, oo_cross = cross, oo_group = grp, oo_externals_matched = matched\<rparr>, fx1), db5))))))))))"

section \<open>Levels compose\<close>

text \<open>What a level, and a sequence of levels, does to a consistent ledger.\<close>

definition level_ok :: "string \<Rightarrow> db \<Rightarrow> db \<Rightarrow> bool" where
  "level_ok bank db db' = (ledger_ok db \<longrightarrow> ledger_ok db' \<and> grows (may_pair db bank) db db')"

lemma level_refl [simp]: "level_ok bank db db"
  by (simp add: level_ok_def)

lemma level_trans: "\<lbrakk>level_ok bank db1 db2; level_ok bank db2 db3\<rbrakk> \<Longrightarrow> level_ok bank db1 db3"
  unfolding level_ok_def using grows_chain by blast

context matching_stage begin

lemma level: "on_pools oc bank run db = Inr (out, db') \<Longrightarrow> level_ok bank db db'"
  using on_pools unfolding level_ok_def Orchestrator.on_pools_def pools_def by simp

end

lemma grouped_levels:
  assumes "run_group_stage oc rules bank fx db = Inr (out, db')"
  shows "level_ok bank db db'"
proof -
  obtain cross fx1 db1 where c: "(case fx of
       None \<Rightarrow> Inr ((None, None), db)
     | Some svc \<Rightarrow>
         bind_res (on_pools oc bank
             (cross_run \<lparr>cx_run = oc_run oc, cx_table = oc_table oc, cx_tolerance = rs_fx_tolerance rules,
                         cx_max_days = 3, cx_auditor = oc_auditor oc, cx_text = oc_text oc\<rparr> svc) db)
           (\<lambda>((out, svc'), db'). Inr ((Some out, Some svc'), db'))) = Inr ((cross, fx1), db1)"
    and g: "bind_res (on_pools oc bank
         (group_run \<lparr>gx_run = oc_run oc, gx_table = oc_table oc, gx_config = rs_group rules,
                     gx_auditor = oc_auditor oc, gx_text = oc_text oc\<rparr> fx1) db1) (\<lambda>((out, fx2), db2).
       Inr ((cross, out, fx2), db2)) = Inr (out, db')"
    using assms by (auto simp: run_group_stage_def bind_res_iff split: prod.splits)
  have 1: "level_ok bank db db1"
    using c by (cases fx) (auto simp: bind_res_iff dest: cross_stage.level)
  have 2: "level_ok bank db1 db'"
    using g by (auto simp: bind_res_iff dest: group_stage.level)
  show ?thesis by (rule level_trans[OF 1 2])
qed

lemma set_based_level_ok: "set_based_level oc bank db = Inr (n, db') \<Longrightarrow> level_ok bank db db'"
  using set_based_keeps by (auto simp: set_based_level_def level_ok_def split: if_splits)

lemma group_level_ok: "group_level oc bank fx db = Inr (out, db') \<Longrightarrow> level_ok bank db db'"
  by (cases "oc_rules oc"; cases "oc_mode oc = ''FULL''")
     (auto simp: group_level_def bind_res_iff dest: grouped_levels)

lemma fuzzy_level_ok: "fuzzy_level oc (pools oc bank db) db = Inr (out, db') \<Longrightarrow> level_ok bank db db'"
  using fuzzy_stage.level[of oc bank "oc_similarity oc" "oc_run oc" "oc_blocking oc" "oc_tolerance oc" "oc_matching oc" db out db']
  by (auto simp: fuzzy_level_def on_pools_def pools_def split: if_splits)

lemma rule_level_ok: "rule_level oc bank db = Inr (out, db') \<Longrightarrow> level_ok bank db db'"
  by (cases "oc_rules oc"; cases "oc_mode oc = ''FULL''")
     (auto simp: rule_level_def run_rule_stage_def bind_res_iff dest: rule_stage.level)

lemma orch_run_levels:
  assumes "orch_run oc bank fx db = Inr ((out, fx'), db')"
  obtains n db1 python db2 cross grp db3 fuzzy db4 rule where
    "set_based_level oc bank db = Inr (n, db1)" "on_pools oc bank (exact_run (oc_run oc)) db1 = Inr (python, db2)"
    "group_level oc bank fx db2 = Inr ((cross, grp, fx'), db3)" "fuzzy_level oc (pools oc bank db3) db3 = Inr (fuzzy, db4)"
    "rule_level oc bank db4 = Inr (rule, db')"
  using assms by (auto simp: orch_run_def Let_def bind_res_iff)

lemma orch_run_level:
  assumes "orch_run oc bank fx db = Inr ((out, fx'), db')"
  shows "level_ok bank db db'"
  using assms
proof (rule orch_run_levels)
  fix n db1 python db2 cross grp db3 fuzzy db4 rule
  assume l: "set_based_level oc bank db = Inr (n, db1)" "on_pools oc bank (exact_run (oc_run oc)) db1 = Inr (python, db2)"
    "group_level oc bank fx db2 = Inr ((cross, grp, fx'), db3)" "fuzzy_level oc (pools oc bank db3) db3 = Inr (fuzzy, db4)"
    "rule_level oc bank db4 = Inr (rule, db')"
  show ?thesis
    by (rule level_trans[OF set_based_level_ok[OF l(1)] level_trans[OF exact_stage.level[OF l(2)]
          level_trans[OF group_level_ok[OF l(3)] level_trans[OF fuzzy_level_ok[OF l(4)] rule_level_ok[OF l(5)]]]]])
qed

section \<open>A FAST run always returns\<close>

lemma record_pair_total: "result_row_ok r \<Longrightarrow> is_ok (record_pair i e r m db)"
  by (auto simp: record_pair_def claim_pair_def insert_claims_def add_result_def Let_def split: sum.splits prod.splits)

lemma exact_step_total: "is_ok (exact_step run_id rejected e index out db)"
proof -
  have "result_row_ok (exact_row run_id i e n)" for i n by (simp add: result_row_ok_def exact_row_def)
  then have "record_pair (t_id i) (t_id e) (exact_row run_id i e n) True db \<noteq> Inl err" for i n err
    using record_pair_total[of "exact_row run_id i e n" "t_id i" "t_id e" True db] by (auto simp: is_ok_iff)
  then show ?thesis by (auto simp: exact_step_def Let_def split: option.splits sum.splits prod.splits)
qed

lemma exact_loop_total: "is_ok (exact_loop run_id rejected es index out db)"
proof (induction es arbitrary: index out db)
  case (Cons e es)
  obtain i o2 d where "exact_step run_id rejected e index out db = Inr (i, o2, d)"
    using exact_step_total[of run_id rejected e index out db] by (auto simp: is_ok_iff)
  then show ?case using Cons by simp
qed simp

lemma exact_run_total: "is_ok (exact_run run_id ints exts db)"
proof -
  obtain ix sk where b: "build_index ints = (ix, sk)" by fastforce
  obtain i o2 d where "exact_loop run_id (rejected_pairs db (map t_id ints)) exts ix
      \<lparr>ex_matched = 0, ex_no_key = sk, ex_conflicts = 0, ex_ids = []\<rparr> db = Inr (i, o2, d)"
    using exact_loop_total[of run_id "rejected_pairs db (map t_id ints)" exts ix] by (fastforce simp: is_ok_iff)
  then show ?thesis by (simp add: exact_run_def b)
qed

section \<open>Properties\<close>

text \<open>C3. A run keeps the ledger consistent and only appends: every new row pairs an
  internal with an external transaction of this bank that were both unmatched and
  unclaimed when the run began, and no pair a person rejected before is proposed
  again, whatever levels are switched on.\<close>

theorem orchestrator_refines_growth:
  assumes "orch_run oc bank fx db = Inr ((out, fx'), db')" "ledger_ok db"
  shows "ledger_ok db' \<and> grows (may_pair db bank) db db'"
  using orch_run_level[OF assms(1)] assms(2) by (simp add: level_ok_def)

text \<open>A FAST run on a consistent ledger always returns; it adds no row that
  waits for review and leaves the quote cache alone.\<close>

theorem fast_run_returns:
  assumes "oc_mode oc = ''FAST''" "ledger_ok db"
  shows "\<exists>out db'. orch_run oc bank fx db = Inr ((out, fx), db') \<and> total_pending_review_count out = 0"
proof -
  obtain n db1 where 1: "set_based_level oc bank db = Inr (n, db1)"
    using set_based_exact_value[OF assms(2)] by (cases "oc_set_based oc") (auto simp: set_based_level_def)
  obtain python db2 where 2: "on_pools oc bank (exact_run (oc_run oc)) db1 = Inr (python, db2)"
    using exact_run_total[of "oc_run oc" "fst (pools oc bank db1)" "snd (pools oc bank db1)" db1]
    by (auto simp: is_ok_iff on_pools_def case_prod_unfold)
  have m: "oc_mode oc \<noteq> ''FULL''" using assms(1) by simp
  have 3: "group_level oc bank fx db2 = Inr ((None, None, fx), db2)" using m by (simp add: group_level_def)
  have 4: "fuzzy_level oc (pools oc bank db2) db2 = Inr (no_fuzzy, db2)" using assms(1) by (simp add: fuzzy_level_def)
  have 5: "rule_level oc bank db2 = Inr (None, db2)" using m by (simp add: rule_level_def)
  show ?thesis
    by (simp add: orch_run_def 1 2 3 4 5 Let_def total_pending_review_count_def no_fuzzy_def)
qed

definition sample_oc :: orchestrator where
  "sample_oc = \<lparr>oc_run = ''r'', oc_blocking = sample_blocking, oc_tolerance = 1, oc_matching = shipped_config,
     oc_set_based = True, oc_mode = ''FAST'', oc_from = None, oc_to = None, oc_rules = None, oc_auditor = None,
     oc_similarity = sample_similarity, oc_table = default_exponents, oc_text = (\<lambda>_. [])\<rparr>"

lemma sample_oc_mode: "oc_mode sample_oc = ''FAST''"
  by (simp add: sample_oc_def)

theorem fast_run_returns_witness:
  "ledger_ok sample_two \<and> (\<exists>out db'. orch_run sample_oc ''HDFC'' None sample_two = Inr ((out, None), db')
     \<and> total_pending_review_count out = 0)"
  using fast_run_returns[OF sample_oc_mode sample_two_ok] sample_two_ok by blast

theorem orchestrator_refines_growth_witness:
  "\<exists>out fx db'. orch_run sample_oc ''HDFC'' None sample_two = Inr ((out, fx), db') \<and> ledger_ok db'
     \<and> grows (may_pair sample_two ''HDFC'') sample_two db'"
proof -
  have "is_ok (on_pools sample_oc ''HDFC'' (exact_run (oc_run sample_oc)) d)" for d
    using exact_run_total by (simp add: on_pools_def split: prod.splits)
  then obtain o1 d1 where e: "on_pools sample_oc ''HDFC'' (exact_run (oc_run sample_oc))
      (sb_final ''r'' (sb_allowed sample_two (sb_pairs (sb_pool sample_two ''HDFC'' None None))) sample_two) = Inr (o1, d1)"
    unfolding is_ok_iff by fastforce
  have s: "set_based_level sample_oc ''HDFC'' sample_two
      = Inr (length (sb_allowed sample_two (sb_pairs (sb_pool sample_two ''HDFC'' None None))),
             sb_final ''r'' (sb_allowed sample_two (sb_pairs (sb_pool sample_two ''HDFC'' None None))) sample_two)"
    using set_based_exact_value[OF sample_two_ok] by (simp add: set_based_level_def sample_oc_def)
  have r: "\<exists>out. orch_run sample_oc ''HDFC'' None sample_two = Inr ((out, None), d1)"
    using sample_oc_mode by (simp add: orch_run_def s e group_level_def fuzzy_level_def rule_level_def Let_def)
  then show ?thesis using orchestrator_refines_growth[OF _ sample_two_ok] by blast
qed

end
