(* ===== verification/Review.thy ===== *)
theory Review
  imports Stage
begin

text \<open>
  Model of the decisions people take on matches: confirming and rejecting a match
  held for review (\<open>matching/review.py\<close>), manual matches and unmatching
  (\<open>matching/manual.py\<close>). The lemmas show that each of them keeps the ledger
  invariant; rejecting and unmatching are instances of one operation, the
  withdrawal of all rows of a match.
\<close>

section \<open>Shared reads and writes\<close>

definition find_result :: "db \<Rightarrow> nat \<Rightarrow> result option" where
  "find_result db mid = find (\<lambda>r. r_id r = mid) (results db)"

definition find_txn :: "db \<Rightarrow> nat \<Rightarrow> txn option" where
  "find_txn db i = find (\<lambda>t. t_id t = i) (txns db)"

definition claims_of :: "db \<Rightarrow> nat list \<Rightarrow> claim list" where
  "claims_of db ids = filter (\<lambda>c. c_active c \<and> (\<exists>x \<in> set ids. c_result c = Some x)) (claims db)"

definition record_decision :: "nat list \<Rightarrow> result_status \<Rightarrow> string \<Rightarrow> instant \<Rightarrow> db \<Rightarrow> db" where
  "record_decision ids st who now db =
     db\<lparr>results := map (\<lambda>r. if r_id r \<in> set ids
                          then r\<lparr>r_status := st, r_reviewed_by := Some who, r_reviewed_at := Some now\<rparr> else r)
                    (results db)\<rparr>"

definition result_status_text :: "result_status \<Rightarrow> string" where
  "result_status_text s =
     (case s of AUTO_MATCHED \<Rightarrow> ''AUTO_MATCHED'' | PENDING_REVIEW \<Rightarrow> ''PENDING_REVIEW''
      | CONFIRMED \<Rightarrow> ''CONFIRMED'' | REJECTED \<Rightarrow> ''REJECTED'')"

definition match_type_text :: "match_type \<Rightarrow> string" where
  "match_type_text m =
     (case m of EXACT \<Rightarrow> ''EXACT'' | FUZZY \<Rightarrow> ''FUZZY'' | RULE \<Rightarrow> ''RULE'' | SPLIT \<Rightarrow> ''SPLIT''
      | NETTED \<Rightarrow> ''NETTED'' | CROSS_CURRENCY \<Rightarrow> ''CROSS_CURRENCY'' | MANUAL \<Rightarrow> ''MANUAL'')"

definition api_key_actor :: "string \<Rightarrow> string" where
  "api_key_actor user = ''api-key:'' @ user"

section \<open>Review\<close>

definition lock_pending :: "db \<Rightarrow> nat \<Rightarrow> result res" where
  "lock_pending db mid =
     (case find_result db mid of
        None \<Rightarrow> Inl MatchNotFoundError
      | Some r \<Rightarrow> if r_status r \<noteq> PENDING_REVIEW then Inl MatchNotPendingError else Inr r)"

definition pair_transactions :: "db \<Rightarrow> result \<Rightarrow> txn list res" where
  "pair_transactions db r =
     (let rows = filter (\<lambda>t. t_id t \<in> {r_internal r, r_external r}) (txns db)
      in if length rows \<noteq> 2 then Inl ReviewStateError else Inr rows)"

definition audit_review ::
    "(string \<Rightarrow> string) \<Rightarrow> result \<Rightarrow> audit_action \<Rightarrow> string \<Rightarrow> instant \<Rightarrow> string \<Rightarrow> result_status \<Rightarrow> bool \<Rightarrow> db \<Rightarrow> db res" where
  "audit_review sha r action reviewer now why after automated db =
     append_audit sha matching_chain (if automated then ''SYSTEM'' else ''USER'')
       (if automated then reviewer else api_key_actor reviewer) action
       (JObj [(''match_result_id'', JStr (uuid_str (r_id r))),
              (''internal_transaction_id'', JStr (uuid_str (r_internal r))),
              (''external_transaction_id'', JStr (uuid_str (r_external r)))])
       why now (JObj [(''status'', JStr ''PENDING_REVIEW'')])
       (JObj [(''status'', JStr (result_status_text after))]) db"

definition confirm ::
    "(string \<Rightarrow> string) \<Rightarrow> nat \<Rightarrow> string \<Rightarrow> instant \<Rightarrow> string option \<Rightarrow> bool \<Rightarrow> db \<Rightarrow> db res" where
  "confirm sha mid reviewer now note automated db =
     bind_res (lock_pending db mid) (\<lambda>r.
     bind_res (pair_transactions db r) (\<lambda>transactions.
       (let held_claims = claims_of db [mid] in
        bind_res (guard_res (length held_claims = 2
                    \<and> set (map c_txn held_claims) = {r_internal r, r_external r}) ReviewStateError) (\<lambda>_.
        bind_res (guard_res (list_all (\<lambda>t. t_status t = UNMATCHED) transactions) ReviewStateError) (\<lambda>_.
          audit_review sha r MATCH_CONFIRM reviewer now
            (case note of None \<Rightarrow> ''confirmed without a note'' | Some n \<Rightarrow> if n = [] then ''confirmed without a note'' else n)
            CONFIRMED automated
            (record_decision [mid] CONFIRMED reviewer now (set_status (map t_id transactions) MATCHED db)))))))"

text \<open>Every active claim of the listed results is released.\<close>

definition release_all :: "nat list \<Rightarrow> db \<Rightarrow> db" where
  "release_all ids db = fold (\<lambda>c. release (c_id c)) (claims_of db ids) db"

definition reject :: "(string \<Rightarrow> string) \<Rightarrow> nat \<Rightarrow> string \<Rightarrow> instant \<Rightarrow> string \<Rightarrow> db \<Rightarrow> db res" where
  "reject sha mid reviewer now reason db =
     bind_res (lock_pending db mid) (\<lambda>r.
       audit_review sha r MATCH_REJECT reviewer now reason REJECTED False
         (record_decision [mid] REJECTED reviewer now (release_all [mid] db)))"

section \<open>Manual matches\<close>

definition load_txn :: "db \<Rightarrow> nat \<Rightarrow> txn res" where
  "load_txn db i = (case find_txn db i of None \<Rightarrow> Inl TransactionNotFoundError | Some t \<Rightarrow> Inr t)"

definition manual_row :: "txn \<Rightarrow> txn \<Rightarrow> string \<Rightarrow> instant \<Rightarrow> result" where
  "manual_row i e user now =
     \<lparr>r_id = 0, r_run = ''manual:'' @ user, r_type = MANUAL, r_status = CONFIRMED, r_confidence = 1,
      r_internal = t_id i, r_external = t_id e, r_rule = Some ''MANUAL'', r_group = None, r_candidates = 1,
      r_date = t_date e, r_reviewed_by = Some user, r_reviewed_at = Some now\<rparr>"

definition create_match ::
    "(string \<Rightarrow> string) \<Rightarrow> nat \<Rightarrow> nat \<Rightarrow> string \<Rightarrow> string \<Rightarrow> instant \<Rightarrow> db \<Rightarrow> (nat \<times> db) res" where
  "create_match sha iid eid user note now db =
     bind_res (load_txn db iid) (\<lambda>i.
     bind_res (load_txn db eid) (\<lambda>e.
     bind_res (guard_res (t_source i = INTERNAL \<and> t_source e = EXTERNAL) InvalidPairError) (\<lambda>_.
     bind_res (guard_res (t_bank i = t_bank e) InvalidPairError) (\<lambda>_.
     bind_res (guard_res (list_all (\<lambda>t. t_status t = UNMATCHED \<and> \<not> is_claimed db (t_id t)) [i, e])
                 TransactionUnavailableError) (\<lambda>_.
     bind_res (record_pair (t_id i) (t_id e) (manual_row i e user now) True db) (\<lambda>(found, db1).
       (case found of
          None \<Rightarrow> Inl TransactionUnavailableError
        | Some rid \<Rightarrow>
            bind_res (append_audit sha matching_chain ''USER'' (api_key_actor user) MATCH
                (JObj [(''match_result_id'', JStr (uuid_str rid)), (''internal_transaction_id'', JStr (uuid_str (t_id i))),
                       (''external_transaction_id'', JStr (uuid_str (t_id e)))])
                note now JNull (JObj [(''match_type'', JStr ''MANUAL''), (''status'', JStr ''CONFIRMED'')]) db1)
              (\<lambda>db2. Inr (rid, db2)))))))))"

text \<open>The rows of a match: the whole group, or the row itself. All of them must be settled.\<close>

definition match_rows :: "db \<Rightarrow> result \<Rightarrow> result list" where
  "match_rows db first =
     (case r_group first of None \<Rightarrow> [first] | Some g \<Rightarrow> filter (\<lambda>r. r_group r = Some g) (results db))"

definition unmatch :: "(string \<Rightarrow> string) \<Rightarrow> nat \<Rightarrow> string \<Rightarrow> string \<Rightarrow> instant \<Rightarrow> db \<Rightarrow> db res" where
  "unmatch sha mid user reason now db =
     (case find_result db mid of
        None \<Rightarrow> Inl TransactionNotFoundError
      | Some first \<Rightarrow>
          (let rows = match_rows db first;
               ids = map r_id rows;
               txn_ids = remdups (map r_internal rows @ map r_external rows)
           in bind_res (guard_res (list_all (\<lambda>r. r_status r \<in> {AUTO_MATCHED, CONFIRMED}) rows) MatchNotUnmatchableError) (\<lambda>_.
                append_audit sha matching_chain ''USER'' (api_key_actor user) UNMATCH
                  (JObj [(''match_result_ids'', JList (map (\<lambda>x. JStr (uuid_str x)) ids)),
                         (''transaction_ids'', JList (map JStr (sort (map uuid_str txn_ids))))])
                  reason now
                  (JObj [(''status'', JStr (result_status_text (r_status first))),
                         (''match_type'', JStr (match_type_text (r_type first)))])
                  (JObj [(''status'', JStr ''REJECTED''), (''transactions'', JStr ''UNMATCHED'')])
                  (record_decision ids REJECTED user now
                     (set_status txn_ids UNMATCHED (release_all ids db))))))"

section \<open>Releasing claims\<close>

lemma release_many:
  "fold (\<lambda>c. release (c_id c)) cs db
   = db\<lparr>claims := map (\<lambda>c. if c_id c \<in> c_id ` set cs then c\<lparr>c_active := False\<rparr> else c) (claims db)\<rparr>"
proof (induction cs arbitrary: db)
  case (Cons a cs)
  have "map (\<lambda>c. if c_id c \<in> c_id ` set cs then c\<lparr>c_active := False\<rparr> else c) (claims (release (c_id a) db))
      = map (\<lambda>c. if c_id c \<in> c_id ` set (a # cs) then c\<lparr>c_active := False\<rparr> else c) (claims db)"
    by (auto simp: release_def)
  then show ?case using Cons[of "release (c_id a) db"] by (simp add: release_def)
qed simp

lemma release_all_claims:
  assumes "ids_ok db"
  shows "release_all ids db = db\<lparr>claims := map (\<lambda>c. if c_active c \<and> (\<exists>x \<in> set ids. c_result c = Some x)
     then c\<lparr>c_active := False\<rparr> else c) (claims db)\<rparr>"
proof -
  have d: "distinct (map c_id (claims db))" using assms by (simp add: ids_ok_def)
  have "c_id c \<in> c_id ` set (claims_of db ids) \<longleftrightarrow> c \<in> set (claims_of db ids)" if "c \<in> set (claims db)" for c
    using that distinct_map_inj[OF d] by (fastforce simp: claims_of_def)
  then show ?thesis by (simp add: release_all_def release_many) (rule arg_cong[where f = "\<lambda>x. db\<lparr>claims := x\<rparr>"],
    simp add: claims_of_def)
qed

section \<open>Withdrawing a match\<close>

text \<open>All rows of one match become REJECTED, their claims are released, and the
  transactions of \<open>T\<close> become UNMATCHED.\<close>

definition withdrawn :: "(result \<Rightarrow> result) \<Rightarrow> nat set \<Rightarrow> bool \<times> nat \<Rightarrow> db \<Rightarrow> db" where
  "withdrawn f T k db =
     db\<lparr>txns := map (\<lambda>t. if t_id t \<in> T then t\<lparr>t_status := UNMATCHED\<rparr> else t) (txns db),
        results := map (\<lambda>r. if match_key r = k then f r else r) (results db),
        claims := map (\<lambda>c. if c_active c \<and> (\<exists>r \<in> set (results db). match_key r = k \<and> c_result c = Some (r_id r))
                        then c\<lparr>c_active := False\<rparr> else c) (claims db)\<rparr>"

definition rejects :: "(result \<Rightarrow> result) \<Rightarrow> bool" where
  "rejects f =
     (\<forall>r. r_id (f r) = r_id r \<and> r_group (f r) = r_group r \<and> r_internal (f r) = r_internal r
          \<and> r_external (f r) = r_external r \<and> r_status (f r) = REJECTED)"

lemma rejects_facts:
  assumes "rejects f"
  shows "r_id (f r) = r_id r" "match_key (f r) = match_key r" "sides (f r) = sides r" "\<not> live (f r)" "\<not> settled (f r)"
    "r_status (f r) = REJECTED" "r_group (f r) = r_group r"
  using assms by (auto simp: rejects_def match_key_def sides_def live_def settled_def split: option.splits)

lemma active_txns_released:
  "active_txns (map (\<lambda>c. if P c then c\<lparr>c_active := False\<rparr> else c) cs) = map c_txn (filter (\<lambda>c. c_active c \<and> \<not> P c) cs)"
  by (induction cs) (auto simp: active_txns_def)

lemma released_unique:
  assumes "claims_unique cs"
  shows "claims_unique (map (\<lambda>c. if P c then c\<lparr>c_active := False\<rparr> else c) cs)"
proof -
  let ?g = "\<lambda>c. if P c then c\<lparr>c_active := False\<rparr> else c"
  have 1: "distinct (map c_txn (filter (\<lambda>c. c_active c \<and> \<not> P c) cs))"
  proof -
    have "filter (\<lambda>c. c_active c \<and> \<not> P c) cs = filter (\<lambda>c. \<not> P c) (filter c_active cs)"
      by (simp add: conj_commute)
    moreover have "distinct (map c_txn (filter (\<lambda>c. \<not> P c) (filter c_active cs)))"
      by (rule distinct_map_filter) (use assms in \<open>simp add: claims_unique_def active_txns_def\<close>)
    ultimately show ?thesis by (simp only:)
  qed
  have 2: "map (\<lambda>c. (c_txn c, c_result c)) (filter (\<lambda>c. c_result c \<noteq> None) (map ?g cs))
      = map (\<lambda>c. (c_txn c, c_result c)) (filter (\<lambda>c. c_result c \<noteq> None) cs)"
    by (induction cs) auto
  show ?thesis unfolding claims_unique_def 2 active_txns_released using assms 1 unfolding claims_unique_def by blast
qed

definition can_withdraw :: "(result \<Rightarrow> result) \<Rightarrow> nat set \<Rightarrow> bool \<times> nat \<Rightarrow> db \<Rightarrow> bool" where
  "can_withdraw f T k db =
     (ledger_ok db \<and> rejects f
      \<and> (\<exists>r \<in> set (results db). match_key r = k \<and> live r)
      \<and> (\<forall>i \<in> T. \<exists>r \<in> set (results db). match_key r = k \<and> i \<in> sides r)
      \<and> (\<forall>r \<in> set (results db). match_key r = k \<longrightarrow> settled r \<longrightarrow> sides r \<subseteq> T))"

lemma withdraw_facts:
  assumes "can_withdraw f T k db"
  shows "ledger_ok db" "rejects f" "\<exists>r \<in> set (results db). match_key r = k \<and> live r"
    "\<And>i. i \<in> T \<Longrightarrow> \<exists>r \<in> set (results db). match_key r = k \<and> i \<in> sides r"
    "\<And>r. \<lbrakk>r \<in> set (results db); match_key r = k; settled r\<rbrakk> \<Longrightarrow> sides r \<subseteq> T"
    "distinct (map r_id (results db))"
  using assms ledger_ids[of db] unfolding can_withdraw_def ids_ok_def by blast+

lemma withdrawn_cases:
  assumes "r' \<in> set (results (withdrawn f T k db))"
  obtains (kept) "r' \<in> set (results db)" "match_key r' \<noteq> k"
  | (gone) r where "r \<in> set (results db)" "match_key r = k" "r' = f r"
  using assms by (auto simp: withdrawn_def split: if_splits)

lemma kept_row: "\<lbrakk>r \<in> set (results db); match_key r \<noteq> k\<rbrakk> \<Longrightarrow> r \<in> set (results (withdrawn f T k db))"
  by (force simp: withdrawn_def)

lemma live_row:
  assumes "rejects f" "r' \<in> set (results (withdrawn f T k db))" "live r'"
  shows "r' \<in> set (results db) \<and> match_key r' \<noteq> k"
  using assms(2) rejects_facts(4)[OF assms(1)] assms(3) by (cases rule: withdrawn_cases) auto

lemma kept_claim:
  assumes w: "can_withdraw f T k db" and c: "c \<in> set (claims db)" "c_active c" "r \<in> set (results db)"
    "c_result c = Some (r_id r)" "match_key r \<noteq> k"
  shows "c \<in> set (claims (withdrawn f T k db))"
proof -
  have "\<not> (\<exists>r \<in> set (results db). match_key r = k \<and> c_result c = Some (r_id r))"
    using c(3-5) distinct_map_inj[OF withdraw_facts(6)[OF w]] by fastforce
  then show ?thesis using c(1) by (force simp: withdrawn_def)
qed

lemma active_claim:
  assumes "c' \<in> set (claims (withdrawn f T k db))" "c_active c'"
  shows "c' \<in> set (claims db) \<and> \<not> (\<exists>r \<in> set (results db). match_key r = k \<and> c_result c' = Some (r_id r))"
  using assms by (auto simp: withdrawn_def split: if_splits)

lemma ids_kept:
  assumes w: "can_withdraw f T k db"
  shows "ids_ok (withdrawn f T k db)"
proof -
  have t: "map t_id (txns (withdrawn f T k db)) = map t_id (txns db)" by (simp add: withdrawn_def)
  have r: "map r_id (results (withdrawn f T k db)) = map r_id (results db)"
    by (simp add: withdrawn_def rejects_facts[OF withdraw_facts(2)[OF w]] if_distrib cong: if_cong)
  have c: "map c_id (claims (withdrawn f T k db)) = map c_id (claims db)" by (simp add: withdrawn_def)
  have n: "next_id (withdrawn f T k db) = next_id db" by (simp add: withdrawn_def)
  have i: "ids_ok db" by (rule ledger_ids[OF withdraw_facts(1)[OF w]])
  have "r_id r < next_id db \<and> (\<forall>g. r_group r = Some g \<longrightarrow> g < next_id db)" if "r \<in> set (results (withdrawn f T k db))" for r
    using that i rejects_facts(1,7)[OF withdraw_facts(2)[OF w]] by (cases rule: withdrawn_cases) (auto simp: ids_ok_def)
  moreover have "c_id c < next_id db \<and> (\<forall>x. c_result c = Some x \<longrightarrow> x < next_id db)" if "c \<in> set (claims (withdrawn f T k db))" for c
    using that i by (auto simp: ids_ok_def withdrawn_def split: if_splits)
  ultimately show ?thesis using i unfolding ids_ok_def t r c n by blast
qed

lemma claims_kept:
  assumes w: "can_withdraw f T k db"
  shows "claims_ok (withdrawn f T k db)"
proof -
  have "claims_unique (claims (withdrawn f T k db))"
    unfolding withdrawn_def using withdraw_facts(1)[OF w] by (auto simp: ledger_ok_def claims_ok_def intro: released_unique)
  moreover have "\<exists>r \<in> set (results (withdrawn f T k db)). c_result c = Some (r_id r) \<and> live r \<and> c_txn c \<in> sides r"
    if c: "c \<in> set (claims (withdrawn f T k db))" "c_active c" for c
  proof -
    note o = active_claim[OF c]
    then obtain r where r: "r \<in> set (results db)" "c_result c = Some (r_id r)" "live r" "c_txn c \<in> sides r"
      using ledger_claim[OF withdraw_facts(1)[OF w]] c(2) by blast
    then have "match_key r \<noteq> k" using o by blast
    then show ?thesis using r kept_row by blast
  qed
  ultimately show ?thesis unfolding claims_ok_def by blast
qed

lemma results_kept:
  assumes w: "can_withdraw f T k db"
  shows "results_ok (withdrawn f T k db)"
  unfolding results_ok_def
proof (intro conjI ballI impI)
  fix r t assume r: "r \<in> set (results (withdrawn f T k db))" "live r" "t \<in> sides r"
  note o = live_row[OF withdraw_facts(2)[OF w] r(1,2)]
  obtain c r' where c: "c \<in> set (claims db)" "c_active c" "c_txn c = t" "r' \<in> set (results db)"
    "c_result c = Some (r_id r')" "match_key r' = match_key r"
    using ledger_held[OF withdraw_facts(1)[OF w] _ r(2,3)] o unfolding held_def by blast
  have k: "match_key r' \<noteq> k" using c(6) o by simp
  show "held (withdrawn f T k db) r t" unfolding held_def using kept_claim[OF w c(1,2,4,5) k] kept_row[OF c(4) k] c by blast
next
  fix r assume "r \<in> set (results (withdrawn f T k db))" "r_group r \<noteq> None"
  then show "r_status r \<noteq> PENDING_REVIEW" using withdraw_facts(1)[OF w] rejects_facts(6)[OF withdraw_facts(2)[OF w]]
    by (cases rule: withdrawn_cases) (auto simp: ledger_ok_def results_ok_def)
next
  fix r r' assume r: "r \<in> set (results (withdrawn f T k db))" "r' \<in> set (results (withdrawn f T k db))" "match_key r = match_key r'"
  have gone: "\<not> live x" if "x \<in> set (results (withdrawn f T k db))" "match_key x = k" for x
    using live_row[OF withdraw_facts(2)[OF w]] that by blast
  show "live r = live r'"
  proof (cases "match_key r = k")
    case True
    then show ?thesis using gone r by metis
  next
    case False
    then have "r \<in> set (results db)" "r' \<in> set (results db)"
      using r rejects_facts(2)[OF withdraw_facts(2)[OF w]] by (metis withdrawn_cases)+
    then show ?thesis using r(3) withdraw_facts(1)[OF w] unfolding ledger_ok_def results_ok_def by blast
  qed
qed

lemma row_live: "\<lbrakk>can_withdraw f T k db; r \<in> set (results db); match_key r = k\<rbrakk> \<Longrightarrow> live r"
  using withdraw_facts(1,3) unfolding ledger_ok_def results_ok_def by metis

lemma status_kept:
  assumes w: "can_withdraw f T k db"
  shows "status_ok (withdrawn f T k db)"
  unfolding status_ok_def
proof
  fix t' assume "t' \<in> set (txns (withdrawn f T k db))"
  then obtain t where t: "t \<in> set (txns db)" "t' = (if t_id t \<in> T then t\<lparr>t_status := UNMATCHED\<rparr> else t)"
    by (auto simp: withdrawn_def)
  have id: "t_id t' = t_id t" using t(2) by simp
  have s: "(\<exists>r \<in> set (results (withdrawn f T k db)). settled r \<and> t_id t \<in> sides r)
      \<longleftrightarrow> (\<exists>r \<in> set (results db). match_key r \<noteq> k \<and> settled r \<and> t_id t \<in> sides r)"
    using live_row[OF withdraw_facts(2)[OF w]] kept_row settled_live by blast
  show "t_status t' = MATCHED \<longleftrightarrow> (\<exists>r \<in> set (results (withdrawn f T k db)). settled r \<and> t_id t' \<in> sides r)"
  proof (cases "t_id t \<in> T")
    case True
    then obtain r1 where r1: "r1 \<in> set (results db)" "match_key r1 = k" "t_id t \<in> sides r1" using withdraw_facts(4)[OF w] by blast
    have "\<not> (\<exists>r \<in> set (results db). match_key r \<noteq> k \<and> settled r \<and> t_id t \<in> sides r)"
      using ledger_exclusive[OF withdraw_facts(1)[OF w] _ r1(1) settled_live row_live[OF w r1(1,2)] _ r1(3)] r1(2) by blast
    then show ?thesis using True t(2) unfolding id s by simp
  next
    case False
    then have "(\<exists>r \<in> set (results db). settled r \<and> t_id t \<in> sides r)
      \<longleftrightarrow> (\<exists>r \<in> set (results db). match_key r \<noteq> k \<and> settled r \<and> t_id t \<in> sides r)" using withdraw_facts(5)[OF w] by blast
    then show ?thesis using False t ledger_status[OF withdraw_facts(1)[OF w] t(1)] unfolding id s by simp
  qed
qed

lemma withdrawn_ok: "can_withdraw f T k db \<Longrightarrow> ledger_ok (withdrawn f T k db)"
  using ids_kept claims_kept results_kept status_kept unfolding ledger_ok_def by blast

section \<open>Rejecting and unmatching are withdrawals\<close>

definition mark_rejected :: "string \<Rightarrow> instant \<Rightarrow> result \<Rightarrow> result" where
  "mark_rejected who now r = r\<lparr>r_status := REJECTED, r_reviewed_by := Some who, r_reviewed_at := Some now\<rparr>"

lemma mark_rejected_rejects: "rejects (mark_rejected who now)"
  by (simp add: rejects_def mark_rejected_def)

lemma find_result_in: "find_result db mid = Some r \<Longrightarrow> r \<in> set (results db) \<and> r_id r = mid"
  by (auto simp: find_result_def find_Some_iff)

lemma withdrawal_value:
  assumes "ids_ok db" and sel: "\<forall>r \<in> set (results db). r_id r \<in> set ids \<longleftrightarrow> match_key r = k"
    and "set ids \<subseteq> r_id ` set (results db)"
  shows "record_decision ids REJECTED who now (set_status ts UNMATCHED (release_all ids db))
     = withdrawn (mark_rejected who now) (set ts) k db"
proof -
  have cl: "(\<exists>x \<in> set ids. c_result c = Some x) \<longleftrightarrow> (\<exists>r \<in> set (results db). match_key r = k \<and> c_result c = Some (r_id r))" for c
    using sel assms(3) by blast
  have rs: "map (\<lambda>r. if r_id r \<in> set ids
        then r\<lparr>r_status := REJECTED, r_reviewed_by := Some who, r_reviewed_at := Some now\<rparr> else r) (results db)
      = map (\<lambda>r. if match_key r = k then mark_rejected who now r else r) (results db)"
    using sel by (simp add: mark_rejected_def)
  show ?thesis
    by (simp add: record_decision_def set_status_def release_all_claims[OF assms(1)] withdrawn_def rs cl)
qed

lemma set_status_none: "set_status [] st db = db"
  by (simp add: set_status_def)

lemma single_row_key:
  assumes "ids_ok db" "r \<in> set (results db)" "r_group r = None"
  shows "\<forall>r' \<in> set (results db). r_id r' \<in> set [r_id r] \<longleftrightarrow> match_key r' = match_key r"
proof
  fix r' assume r': "r' \<in> set (results db)"
  have "distinct (map r_id (results db))" using assms(1) by (simp add: ids_ok_def)
  then have "r_id r' = r_id r \<Longrightarrow> r' = r" using distinct_map_inj r' assms(2) by metis
  then show "r_id r' \<in> set [r_id r] \<longleftrightarrow> match_key r' = match_key r"
    using assms(3) by (auto simp: match_key_def split: option.splits)
qed

lemma match_rows_in:
  assumes "ids_ok db" "r \<in> set (results db)"
  shows "set (match_rows db r) = {r' \<in> set (results db). match_key r' = match_key r}"
proof (cases "r_group r")
  case None
  have d: "distinct (map r_id (results db))" using assms(1) by (simp add: ids_ok_def)
  have "r' = r" if "r' \<in> set (results db)" "match_key r' = match_key r" for r'
  proof -
    have "r_id r' = r_id r" using that(2) None by (auto simp: match_key_def split: option.splits)
    then show ?thesis by (rule distinct_map_inj[OF d that(1) assms(2)])
  qed
  then show ?thesis using assms(2) None by (auto simp: match_rows_def)
next
  case (Some g)
  then show ?thesis by (auto simp: match_rows_def match_key_def split: option.splits)
qed

lemma match_rows_select:
  assumes "ids_ok db" "r \<in> set (results db)"
  shows "\<forall>r' \<in> set (results db). r_id r' \<in> set (map r_id (match_rows db r)) \<longleftrightarrow> match_key r' = match_key r"
    and "set (map r_id (match_rows db r)) \<subseteq> r_id ` set (results db)"
proof -
  have d: "distinct (map r_id (results db))" using assms(1) by (simp add: ids_ok_def)
  show "\<forall>r' \<in> set (results db). r_id r' \<in> set (map r_id (match_rows db r)) \<longleftrightarrow> match_key r' = match_key r"
    using match_rows_in[OF assms] distinct_map_inj[OF d] by (simp, blast)
  show "set (map r_id (match_rows db r)) \<subseteq> r_id ` set (results db)"
    using match_rows_in[OF assms] by auto
qed

lemma lock_pending_iff:
  "lock_pending db mid = Inr r \<longleftrightarrow> find_result db mid = Some r \<and> r_status r = PENDING_REVIEW"
  by (auto simp: lock_pending_def split: option.splits)

lemma pending_single: "\<lbrakk>ledger_ok db; r \<in> set (results db); r_status r = PENDING_REVIEW\<rbrakk> \<Longrightarrow> r_group r = None"
  unfolding ledger_ok_def results_ok_def by blast

text \<open>What rejecting does, apart from the audit entry.\<close>

lemma reject_shape:
  assumes "reject sha mid who now reason db = Inr db'" "ledger_ok db"
  shows "\<exists>r d. find_result db mid = Some r \<and> r_status r = PENDING_REVIEW
     \<and> d = withdrawn (mark_rejected who now) {} (match_key r) db
     \<and> can_withdraw (mark_rejected who now) {} (match_key r) db
     \<and> audit_review sha r MATCH_REJECT who now reason REJECTED False d = Inr db'"
proof -
  obtain r where r: "find_result db mid = Some r" "r_status r = PENDING_REVIEW"
    and au: "audit_review sha r MATCH_REJECT who now reason REJECTED False
         (record_decision [mid] REJECTED who now (release_all [mid] db)) = Inr db'"
    using assms(1) by (auto simp: reject_def bind_res_iff lock_pending_iff)
  have m: "r \<in> set (results db)" "r_id r = mid" using find_result_in[OF r(1)] by simp_all
  have ids: "ids_ok db" by (rule ledger_ids[OF assms(2)])
  have g: "r_group r = None" by (rule pending_single[OF assms(2) m(1) r(2)])
  have sel: "\<forall>r' \<in> set (results db). r_id r' \<in> set [mid] \<longleftrightarrow> match_key r' = match_key r"
    using single_row_key[OF ids m(1) g] m(2) by simp
  have e: "record_decision [mid] REJECTED who now (release_all [mid] db)
      = withdrawn (mark_rejected who now) {} (match_key r) db"
    using withdrawal_value[OF ids sel, of who now "[]"] m set_status_none by auto
  have lv: "live r" using r(2) by (simp add: live_def)
  have only: "r' = r" if "r' \<in> set (results db)" "match_key r' = match_key r" for r'
    using match_rows_in[OF ids m(1)] that g by (auto simp: match_rows_def)
  have "\<not> settled r" using r(2) by (simp add: settled_def)
  then have "can_withdraw (mark_rejected who now) {} (match_key r) db"
    unfolding can_withdraw_def using assms(2) mark_rejected_rejects m(1) lv only by blast
  then show ?thesis using r au unfolding e by blast
qed

lemma unmatch_shape:
  assumes "unmatch sha mid user reason now db = Inr db'" "ledger_ok db"
  shows "\<exists>r d. find_result db mid = Some r \<and> settled r
     \<and> d = withdrawn (mark_rejected user now) (\<Union>(sides ` {r' \<in> set (results db). match_key r' = match_key r})) (match_key r) db
     \<and> can_withdraw (mark_rejected user now) (\<Union>(sides ` {r' \<in> set (results db). match_key r' = match_key r})) (match_key r) db
     \<and> (\<exists>affected before after. append_audit sha matching_chain ''USER'' (api_key_actor user) UNMATCH affected
          reason now before after d = Inr db')"
proof -
  obtain r where r: "find_result db mid = Some r" using assms(1) by (auto simp: unmatch_def split: option.splits)
  let ?rows = "match_rows db r"
  let ?ts = "remdups (map r_internal ?rows @ map r_external ?rows)"
  obtain affected before after where st: "list_all (\<lambda>r. r_status r \<in> {AUTO_MATCHED, CONFIRMED}) ?rows"
    and au: "append_audit sha matching_chain ''USER'' (api_key_actor user) UNMATCH affected reason now before after
        (record_decision (map r_id ?rows) REJECTED user now (set_status ?ts UNMATCHED (release_all (map r_id ?rows) db))) = Inr db'"
    using assms(1) r by (auto simp: unmatch_def Let_def bind_res_iff guard_res_iff)
  have m: "r \<in> set (results db)" using find_result_in[OF r] by simp
  have ids: "ids_ok db" by (rule ledger_ids[OF assms(2)])
  note rows = match_rows_in[OF ids m]
  have ts: "set ?ts = \<Union>(sides ` {r' \<in> set (results db). match_key r' = match_key r})"
    by (auto simp: sides_def rows)
  note e = withdrawal_value[OF ids match_rows_select[OF ids m], of user now ?ts]
  have all: "settled r'" if "r' \<in> set (results db)" "match_key r' = match_key r" for r'
    using st rows that by (auto simp: list_all_iff settled_def)
  have "can_withdraw (mark_rejected user now) (set ?ts) (match_key r) db"
    unfolding can_withdraw_def ts using assms(2) mark_rejected_rejects m all settled_live by blast
  then show ?thesis using r au all[OF m refl] unfolding e ts by blast
qed

text \<open>Writing an audit entry keeps everything else.\<close>

lemma audited_keeps:
  assumes "append_audit sha chain atype aid action affected why ts before after db = Inr db'" "ledger_ok db"
  shows "ledger_ok db' \<and> txns db' = txns db \<and> results db' = results db \<and> claims db' = claims db"
  using append_audit_shape[OF assms(1)] keeps_ok[OF append_audit_keeps[OF assms(1)] assms(2)] by auto

lemma audit_review_keeps:
  assumes "audit_review sha r action who now why after automated db = Inr db'" "ledger_ok db"
  shows "ledger_ok db' \<and> txns db' = txns db \<and> results db' = results db \<and> claims db' = claims db"
  using assms unfolding audit_review_def by (rule audited_keeps)

lemma reject_ok:
  assumes "reject sha mid who now reason db = Inr db'" "ledger_ok db"
  shows "ledger_ok db'"
proof -
  obtain r d where d: "d = withdrawn (mark_rejected who now) {} (match_key r) db"
    "can_withdraw (mark_rejected who now) {} (match_key r) db"
    and au: "audit_review sha r MATCH_REJECT who now reason REJECTED False d = Inr db'"
    using reject_shape[OF assms] by blast
  have "ledger_ok d" unfolding d(1) by (rule withdrawn_ok[OF d(2)])
  then show ?thesis using audit_review_keeps[OF au] by blast
qed

lemma unmatch_ok:
  assumes "unmatch sha mid user reason now db = Inr db'" "ledger_ok db"
  shows "ledger_ok db'"
proof -
  obtain T k d affected before after where d: "d = withdrawn (mark_rejected user now) T k db"
    "can_withdraw (mark_rejected user now) T k db"
    and au: "append_audit sha matching_chain ''USER'' (api_key_actor user) UNMATCH affected reason now before after d = Inr db'"
    using unmatch_shape[OF assms] by blast
  have "ledger_ok d" unfolding d(1) by (rule withdrawn_ok[OF d(2)])
  then show ?thesis using audited_keeps[OF au] by blast
qed

section \<open>Confirming\<close>

definition mark_confirmed :: "nat \<Rightarrow> string \<Rightarrow> instant \<Rightarrow> result \<Rightarrow> result" where
  "mark_confirmed mid who now r =
     (if r_id r = mid then r\<lparr>r_status := CONFIRMED, r_reviewed_by := Some who, r_reviewed_at := Some now\<rparr> else r)"

definition confirmed :: "nat \<Rightarrow> string \<Rightarrow> instant \<Rightarrow> nat set \<Rightarrow> db \<Rightarrow> db" where
  "confirmed mid who now T db =
     db\<lparr>txns := map (mark_matched T) (txns db), results := map (mark_confirmed mid who now) (results db)\<rparr>"

lemma mark_confirmed_facts [simp]:
  "r_id (mark_confirmed mid who now r) = r_id r" "match_key (mark_confirmed mid who now r) = match_key r"
  "sides (mark_confirmed mid who now r) = sides r" "r_group (mark_confirmed mid who now r) = r_group r"
  by (simp_all add: mark_confirmed_def match_key_def sides_def split: option.split)

lemma confirmed_ok:
  assumes ok: "ledger_ok db" and r: "r \<in> set (results db)" "r_id r = mid" "r_status r = PENDING_REVIEW"
  shows "ledger_ok (confirmed mid who now (sides r) db)" (is "ledger_ok ?d")
proof -
  let ?g = "mark_confirmed mid who now"
  have ids: "ids_ok db" by (rule ledger_ids[OF ok])
  have only: "x = r" if "x \<in> set (results db)" "r_id x = mid" for x
    using distinct_map_inj[of r_id "results db" x r] ids that r by (simp add: ids_ok_def)
  have live: "live (?g x) = live x" if "x \<in> set (results db)" for x
    using only[OF that] r(3) by (auto simp: mark_confirmed_def live_def)
  have st: "settled (?g x) \<longleftrightarrow> settled x \<or> x = r" if "x \<in> set (results db)" for x
    using only[OF that] r(2) by (auto simp: mark_confirmed_def settled_def)
  have "ids_ok ?d" using ids by (auto simp: ids_ok_def confirmed_def comp_def)
  moreover have "claims_ok ?d"
  proof -
    have "\<exists>x \<in> set (results ?d). c_result c = Some (r_id x) \<and> live x \<and> c_txn c \<in> sides x"
      if "c \<in> set (claims db)" "c_active c" for c
      using ledger_claim[OF ok that] live by (force simp: confirmed_def)
    moreover have "claims ?d = claims db" by (simp add: confirmed_def)
    ultimately show ?thesis using ok unfolding ledger_ok_def claims_ok_def by simp
  qed
  moreover have "results_ok ?d"
  proof -
    have res: "results ?d = map ?g (results db)" and cl: "claims ?d = claims db" by (simp_all add: confirmed_def)
    have h: "held ?d (?g x) t" if "held db x t" for x t
      using that unfolding held_def res cl by force
    show ?thesis unfolding results_ok_def res
    proof (intro conjI ballI impI)
      fix y t assume "y \<in> set (map ?g (results db))" "live y" "t \<in> sides y"
      then obtain x where x: "x \<in> set (results db)" "y = ?g x" "live x" "t \<in> sides x" using live by auto
      then show "held ?d y t" using h ledger_held[OF ok x(1,3,4)] by simp
    next
      fix y assume "y \<in> set (map ?g (results db))" "r_group y \<noteq> None"
      then obtain x where x: "x \<in> set (results db)" "r_group x \<noteq> None" "y = ?g x" by auto
      have "r_status x \<noteq> PENDING_REVIEW" using ok x(1,2) unfolding ledger_ok_def results_ok_def by blast
      then show "r_status y \<noteq> PENDING_REVIEW" by (simp add: x(3) mark_confirmed_def)
    next
      fix y y' assume "y \<in> set (map ?g (results db))" "y' \<in> set (map ?g (results db))" "match_key y = match_key y'"
      then obtain x x' where x: "x \<in> set (results db)" "x' \<in> set (results db)" "y = ?g x" "y' = ?g x'"
        "match_key x = match_key x'" by auto
      have "live x = live x'" using ok x(1,2,5) unfolding ledger_ok_def results_ok_def by blast
      then show "live y = live y'" using live[OF x(1)] live[OF x(2)] x(3,4) by simp
    qed
  qed
  moreover have "status_ok ?d"
    unfolding status_ok_def
  proof
    fix t' assume "t' \<in> set (txns ?d)"
    then obtain t where t: "t \<in> set (txns db)" "t' = mark_matched (sides r) t" by (auto simp: confirmed_def)
    have "(\<exists>x \<in> set (results ?d). settled x \<and> t_id t \<in> sides x)
        \<longleftrightarrow> (\<exists>x \<in> set (results db). settled x \<and> t_id t \<in> sides x) \<or> t_id t \<in> sides r"
      using st r(1) by (auto simp: confirmed_def)
    moreover have "t_status t' = MATCHED \<longleftrightarrow> t_status t = MATCHED \<or> t_id t \<in> sides r"
      using t(2) by (simp add: mark_matched_def)
    ultimately show "t_status t' = MATCHED \<longleftrightarrow> (\<exists>x \<in> set (results ?d). settled x \<and> t_id t' \<in> sides x)"
      using ledger_status[OF ok t(1)] t(2) by simp
  qed
  ultimately show ?thesis unfolding ledger_ok_def by blast
qed

lemma confirm_shape:
  assumes "confirm sha mid who now note automated db = Inr db'" "ledger_ok db"
  shows "\<exists>r d why. find_result db mid = Some r \<and> r_status r = PENDING_REVIEW
     \<and> (\<forall>t \<in> set (txns db). t_id t \<in> sides r \<longrightarrow> t_status t = UNMATCHED)
     \<and> d = confirmed mid who now (sides r) db
     \<and> audit_review sha r MATCH_CONFIRM who now why CONFIRMED automated d = Inr db'"
proof -
  obtain r ts why where r: "find_result db mid = Some r" "r_status r = PENDING_REVIEW"
    and ts: "pair_transactions db r = Inr ts" "list_all (\<lambda>t. t_status t = UNMATCHED) ts"
    and au: "audit_review sha r MATCH_CONFIRM who now why CONFIRMED automated
        (record_decision [mid] CONFIRMED who now (set_status (map t_id ts) MATCHED db)) = Inr db'"
    using assms(1) unfolding confirm_def Let_def bind_res_iff guard_res_iff lock_pending_iff by blast
  have t: "ts = filter (\<lambda>t. t_id t \<in> sides r) (txns db)"
    using ts(1) by (auto simp: pair_transactions_def Let_def sides_def split: if_splits)
  have "map (\<lambda>t. if t_id t \<in> set (map t_id ts) then t\<lparr>t_status := MATCHED\<rparr> else t) (txns db)
      = map (mark_matched (sides r)) (txns db)"
    by (auto simp: t mark_matched_def)
  moreover have "map (\<lambda>r. if r_id r \<in> set [mid]
        then r\<lparr>r_status := CONFIRMED, r_reviewed_by := Some who, r_reviewed_at := Some now\<rparr> else r) (results db)
      = map (mark_confirmed mid who now) (results db)" by (simp add: mark_confirmed_def)
  ultimately have e: "record_decision [mid] CONFIRMED who now (set_status (map t_id ts) MATCHED db)
      = confirmed mid who now (sides r) db"
    unfolding record_decision_def set_status_def confirmed_def by simp
  show ?thesis using r au[unfolded e] ts(2) by (auto simp: t list_all_iff)
qed

lemma confirm_ok:
  assumes "confirm sha mid who now note automated db = Inr db'" "ledger_ok db"
  shows "ledger_ok db'"
proof -
  obtain r d why where r: "find_result db mid = Some r" "r_status r = PENDING_REVIEW"
    and d: "d = confirmed mid who now (sides r) db"
    and au: "audit_review sha r MATCH_CONFIRM who now why CONFIRMED automated d = Inr db'"
    using confirm_shape[OF assms] by blast
  have "ledger_ok d" unfolding d using find_result_in[OF r(1)] r(2) assms(2) by (blast intro: confirmed_ok)
  then show ?thesis using audit_review_keeps[OF au] by blast
qed

section \<open>Manual matches\<close>

lemma manual_row_pair: "pair_row (t_id i) (t_id e) True (manual_row i e user now)"
  by (simp add: pair_row_def manual_row_def live_def settled_def)

lemma find_txn_in: "find_txn db i = Some t \<Longrightarrow> t \<in> set (txns db) \<and> t_id t = i"
  by (auto simp: find_txn_def find_Some_iff)

lemma create_shape:
  assumes "create_match sha iid eid user note now db = Inr (rid, db')"
  shows "\<exists>i e d. find_txn db iid = Some i \<and> find_txn db eid = Some e
     \<and> t_source i = INTERNAL \<and> t_source e = EXTERNAL \<and> t_bank i = t_bank e
     \<and> free_txn db (t_bank i) INTERNAL iid \<and> free_txn db (t_bank e) EXTERNAL eid
     \<and> record_pair iid eid (manual_row i e user now) True db = Inr (Some rid, d)
     \<and> (\<exists>affected after. append_audit sha matching_chain ''USER'' (api_key_actor user) MATCH affected note now JNull after d
          = Inr db')"
proof -
  obtain i e where ie: "find_txn db iid = Some i" "find_txn db eid = Some e"
    and side: "t_source i = INTERNAL" "t_source e = EXTERNAL" "t_bank i = t_bank e"
    and un: "t_status i = UNMATCHED" "t_status e = UNMATCHED" "\<not> is_claimed db (t_id i)" "\<not> is_claimed db (t_id e)"
    and rest: "bind_res (record_pair (t_id i) (t_id e) (manual_row i e user now) True db) (\<lambda>(found, db1).
       (case found of
          None \<Rightarrow> Inl TransactionUnavailableError
        | Some rid \<Rightarrow>
            bind_res (append_audit sha matching_chain ''USER'' (api_key_actor user) MATCH
                (JObj [(''match_result_id'', JStr (uuid_str rid)), (''internal_transaction_id'', JStr (uuid_str (t_id i))),
                       (''external_transaction_id'', JStr (uuid_str (t_id e)))])
                note now JNull (JObj [(''match_type'', JStr ''MANUAL''), (''status'', JStr ''CONFIRMED'')]) db1)
              (\<lambda>db2. Inr (rid, db2)))) = Inr (rid, db')"
    using assms by (auto simp: create_match_def bind_res_iff guard_res_iff load_txn_def split: option.splits)
  have id: "t_id i = iid" "t_id e = eid" "i \<in> set (txns db)" "e \<in> set (txns db)"
    using find_txn_in ie by blast+
  obtain d where d: "record_pair iid eid (manual_row i e user now) True db = Inr (Some rid, d)"
    "\<exists>affected after. append_audit sha matching_chain ''USER'' (api_key_actor user) MATCH affected note now JNull after d = Inr db'"
    using rest id(1,2) by (auto simp: bind_res_iff split: option.splits)
  have "free_txn db (t_bank i) INTERNAL iid" "free_txn db (t_bank e) EXTERNAL eid"
    using id side un unfolding free_txn_def by blast+
  then show ?thesis using ie side d by blast
qed

lemma create_grows:
  assumes "create_match sha iid eid user note now db = Inr (rid, db')" "ledger_ok db"
  shows "ledger_ok db' \<and> grows (\<lambda>p. p = (iid, eid)) db db'"
proof -
  obtain i e d where ie: "find_txn db iid = Some i" "find_txn db eid = Some e"
    and r: "record_pair iid eid (manual_row i e user now) True db = Inr (Some rid, d)"
    and au: "\<exists>affected after. append_audit sha matching_chain ''USER'' (api_key_actor user) MATCH affected note now JNull after d
          = Inr db'"
    using create_shape[OF assms(1)] by blast
  have "t_id i = iid" "t_id e = eid" using find_txn_in ie by blast+
  then have p: "pair_row iid eid True (manual_row i e user now)" using manual_row_pair by metis
  have "keeps (\<lambda>p. p = (iid, eid)) db d" by (rule record_pair_keeps[OF r p]) simp
  then have "keeps (\<lambda>p. p = (iid, eid)) db db'" using au append_audit_keeps keeps_trans by blast
  then show ?thesis using assms(2) by (rule keeps_ok)
qed

lemma created_state:
  assumes "create_match sha iid eid user note now db = Inr (rid, db')" "ledger_ok db"
  shows "\<exists>i e. i \<in> set (txns db) \<and> e \<in> set (txns db) \<and> t_id i = iid \<and> t_id e = eid
     \<and> t_status i = UNMATCHED \<and> t_status e = UNMATCHED \<and> rid = next_id db + 2
     \<and> txns db' = map (mark_matched {iid, eid}) (txns db)
     \<and> results db' = results db @ [(manual_row i e user now)\<lparr>r_id := rid\<rparr>]"
proof -
  obtain i e d where ie: "find_txn db iid = Some i" "find_txn db eid = Some e"
    and f: "free_txn db (t_bank i) INTERNAL iid" "free_txn db (t_bank e) EXTERNAL eid"
    and r: "record_pair iid eid (manual_row i e user now) True db = Inr (Some rid, d)"
    and au: "\<exists>affected after. append_audit sha matching_chain ''USER'' (api_key_actor user) MATCH affected note now JNull after d
          = Inr db'"
    using create_shape[OF assms(1)] by blast
  have ids: "ids_ok db" by (rule ledger_ids[OF assms(2)])
  have m: "i \<in> set (txns db)" "t_id i = iid" "e \<in> set (txns db)" "t_id e = eid" using find_txn_in ie by blast+
  have d: "distinct (map t_id (txns db))" using ids by (simp add: ids_ok_def)
  have st: "t_status i = UNMATCHED" "t_status e = UNMATCHED"
    using f m distinct_map_inj[OF d] unfolding free_txn_def by metis+
  have same: "txns db' = txns d" "results db' = results d" using au append_audit_shape by fastforce+
  show ?thesis using record_pair_shape[OF r ids] m st same by auto
qed

section \<open>When an audit entry can be written\<close>

definition logged :: "(string \<Rightarrow> string) \<Rightarrow> db \<Rightarrow> bool" where
  "logged sha db =
     (\<forall>r \<in> set (audit_log db). stamp_ok r \<and> event_id r < next_id db \<and> compute_hash sha r = Inr (current_hash r))"

text \<open>A collision of the digest between the entry to be written and one of the log.\<close>

definition entry_clash :: "(string \<Rightarrow> string) \<Rightarrow> audit_row list \<Rightarrow> audit_fields \<Rightarrow> bool" where
  "entry_clash sha entries f =
     (\<exists>r \<in> set entries. \<exists>x y. canonical_bytes r = Inr x \<and> canonical_bytes f = Inr y \<and> x \<noteq> y \<and> sha x = sha y)"

lemma append_audit_or_clash:
  assumes "logged sha db" "next_id db < 16 ^ 32" "0 \<le> ts" "atype = ''SYSTEM'' \<or> atype = ''USER''"
    and json: "no_float affected" "no_float before" "no_float after"
  shows "(\<exists>db'. append_audit sha chain atype aid action affected why ts before after db = Inr db' \<and> logged sha db')
    \<or> (\<exists>f. entry_clash sha (audit_log db) f \<and> event_id f = next_id db \<and> actor_id f = aid \<and> affected_records f = affected)"
proof -
  define f :: audit_fields where "f = \<lparr>event_id = next_id db, chain_id = chain,
     sequence_no = (case chain_head_row (audit_log db) chain of None \<Rightarrow> 1 | Some h \<Rightarrow> sequence_no h + 1),
     occurred_at = ts, tz_aware = True, actor_type = atype, actor_id = aid, action_type = action_text action,
     affected_records = affected, before_state = before, after_state = after, rationale = why,
     prev_hash = map_option current_hash (chain_head_row (audit_log db) chain), serialisation_version = 1\<rparr>"
  have "\<exists>h. canonical_bytes f = Inr h" using json by (simp add: canonical_bytes_def f_def)
  then obtain x where x: "canonical_bytes f = Inr x" by blast
  define g where "g = audit_fields.extend f \<lparr>current_hash = sha x\<rparr>"
  have g: "canonical_bytes g = Inr x"
  proof -
    have "canonical_bytes g = canonical_bytes f"
      by (simp add: g_def canonical_bytes_def payload_def audit_fields.defs)
    then show ?thesis using x by simp
  qed
  have sf: "stamp_ok g" "event_id g = next_id db"
    using assms(2,3) by (simp_all add: stamp_ok_def f_def g_def audit_fields.defs)
  have fields: "event_id f = next_id db" "actor_id f = aid" "affected_records f = affected" by (simp_all add: f_def)
  show ?thesis
  proof (cases "sha x \<in> set (map current_hash (audit_log db))")
    case True
    then obtain r where r: "r \<in> set (audit_log db)" "sha x = current_hash r" by auto
    have l: "compute_hash sha r = Inr (current_hash r)" "stamp_ok r" "event_id r < next_id db"
      using assms(1) r(1) unfolding logged_def by blast+
    then obtain y where y: "canonical_bytes r = Inr y" "current_hash r = sha y"
      by (cases "canonical_bytes r") (simp_all add: compute_hash_def)
    have "y \<noteq> x"
    proof
      assume "y = x"
      then have "same_entry r g" using canonical_bytes_inj[of r x g] y(1) g sf(1) l(2) by simp
      then show False using l(3) sf(2) by (simp add: same_entry_def)
    qed
    then have "entry_clash sha (audit_log db) f"
      unfolding entry_clash_def using r y x by (intro bexI[of _ r] exI[of _ y] exI[of _ x]) simp_all
    then show ?thesis using fields by blast
  next
    case False
    then have "append_audit sha chain atype aid action affected why ts before after db
        = Inr (db\<lparr>audit_log := audit_log db @ [g], next_id := next_id db + 1\<rparr>)"
      using assms(4) x by (auto simp: append_audit_def audit_append_def Let_def f_def[symmetric] compute_hash_def g_def)
    moreover have "compute_hash sha g = Inr (current_hash g)"
      using g by (simp add: compute_hash_def) (simp add: g_def audit_fields.defs)
    ultimately show ?thesis using assms(1) sf by (auto simp: logged_def)
  qed
qed

lemma append_audit_total:
  assumes "\<And>x y. sha x = sha y \<Longrightarrow> x = y" "logged sha db" "next_id db < 16 ^ 32" "0 \<le> ts"
    and "atype = ''SYSTEM'' \<or> atype = ''USER''" "no_float affected" "no_float before" "no_float after"
  shows "\<exists>db'. append_audit sha chain atype aid action affected why ts before after db = Inr db' \<and> logged sha db'"
  using append_audit_or_clash[OF assms(2-8)] assms(1) unfolding entry_clash_def by blast

section \<open>Properties\<close>

text \<open>A confirmed match was waiting for review, with both transactions unmatched
  and both claims held; afterwards it is CONFIRMED with the reviewer and the time,
  exactly its transactions are MATCHED, no other result or claim changes, one audit
  entry is added, and the ledger is consistent.\<close>

theorem confirm_settles:
  assumes "confirm sha mid who now note automated db = Inr db'" "ledger_ok db"
  shows "ledger_ok db' \<and> (\<exists>r. find_result db mid = Some r \<and> r_status r = PENDING_REVIEW
     \<and> (\<forall>t \<in> set (txns db). t_id t \<in> sides r \<longrightarrow> t_status t = UNMATCHED)
     \<and> results db' = map (mark_confirmed mid who now) (results db)
     \<and> txns db' = map (mark_matched (sides r)) (txns db) \<and> claims db' = claims db
     \<and> (\<exists>row. audit_log db' = audit_log db @ [row] \<and> action_type row = action_text MATCH_CONFIRM
          \<and> actor_id row = (if automated then who else api_key_actor who) \<and> occurred_at row = now))"
proof -
  obtain r d why where r: "find_result db mid = Some r" "r_status r = PENDING_REVIEW"
    "\<forall>t \<in> set (txns db). t_id t \<in> sides r \<longrightarrow> t_status t = UNMATCHED"
    and d: "d = confirmed mid who now (sides r) db"
    and au: "audit_review sha r MATCH_CONFIRM who now why CONFIRMED automated d = Inr db'"
    using confirm_shape[OF assms] by blast
  obtain row where row: "db' = d\<lparr>audit_log := audit_log d @ [row], next_id := next_id d + 1\<rparr>"
    "action_type row = action_text MATCH_CONFIRM" "actor_id row = (if automated then who else api_key_actor who)"
    "occurred_at row = now"
    using append_audit_shape[OF au[unfolded audit_review_def]] by blast
  have "ledger_ok db'" by (rule confirm_ok[OF assms])
  moreover have "results db' = map (mark_confirmed mid who now) (results db)"
    "txns db' = map (mark_matched (sides r)) (txns db)" "claims db' = claims db" "audit_log db' = audit_log db @ [row]"
    unfolding row(1) d by (simp_all add: confirmed_def)
  ultimately show ?thesis using r row(2-4) by blast
qed

text \<open>A decision is final: after a reject both confirming and rejecting the same
  match fail, and its two transactions are no longer claimed.\<close>

theorem reject_is_final:
  assumes "reject sha mid who now reason db = Inr db'" "ledger_ok db"
  shows "ledger_ok db' \<and> confirm sha' mid who' now' note automated db' = Inl MatchNotPendingError
     \<and> reject sha' mid who' now' reason' db' = Inl MatchNotPendingError
     \<and> (\<exists>r. find_result db mid = Some r \<and> was_rejected db' (r_internal r, r_external r)
          \<and> \<not> is_claimed db' (r_internal r) \<and> \<not> is_claimed db' (r_external r))"
proof -
  obtain r d where r: "find_result db mid = Some r" "r_status r = PENDING_REVIEW"
    and d: "d = withdrawn (mark_rejected who now) {} (match_key r) db"
    and w: "can_withdraw (mark_rejected who now) {} (match_key r) db"
    and au: "audit_review sha r MATCH_REJECT who now reason REJECTED False d = Inr db'"
    using reject_shape[OF assms] by blast
  have okd: "ledger_ok d" unfolding d by (rule withdrawn_ok[OF w])
  note same = audit_review_keeps[OF au okd]
  have m: "r \<in> set (results db)" "r_id r = mid" using find_result_in[OF r(1)] by simp_all
  have rd: "mark_rejected who now r \<in> set (results db')"
    using same m(1) unfolding d by (simp add: withdrawn_def)
  have dist: "distinct (map r_id (results db'))" using ledger_ids[of db'] same by (simp add: ids_ok_def)
  have "find_result db' mid \<noteq> None"
    unfolding find_result_def find_None_iff using rd m(2) by (force simp: mark_rejected_def)
  then obtain x where x: "find_result db' mid = Some x" by blast
  have "x = mark_rejected who now r"
    using distinct_map_inj[OF dist] find_result_in[OF x] rd m(2) by (simp add: mark_rejected_def)
  then have st: "r_status x = REJECTED" by (simp add: mark_rejected_def)
  have lock: "lock_pending db' mid = Inl MatchNotPendingError" by (simp add: lock_pending_def x st)
  have free: "\<not> is_claimed db' t" if t: "t \<in> sides r" for t
  proof
    assume "is_claimed db' t"
    then obtain y where y: "y \<in> set (results db')" "live y" "t \<in> sides y"
      using ledger_claimed[of db' t] same by blast
    have "y \<in> set (results db) \<and> match_key y \<noteq> match_key r"
      using live_row[OF mark_rejected_rejects] y(1,2) same unfolding d by metis
    moreover have "live r" using r(2) by (simp add: live_def)
    ultimately show False using ledger_exclusive[OF assms(2) _ m(1) y(2) _ y(3) t] by blast
  qed
  have "was_rejected db' (r_internal r, r_external r)"
    unfolding was_rejected_def using rd
    by (intro bexI[of _ "mark_rejected who now r"]) (simp_all add: mark_rejected_def)
  then show ?thesis using same r(1) free lock by (auto simp: confirm_def reject_def sides_def)
qed

text \<open>Undoing a manual match withdraws its row and nothing else.\<close>

lemma manual_undone:
  assumes "create_match sha iid eid user note now db = Inr (rid, db1)" "ledger_ok db" "unmatch sha rid user' reason now' db1 = Inr db2"
  shows "ledger_ok db2 \<and> txns db2 = txns db \<and> was_rejected db2 (iid, eid)
    \<and> (\<forall>x. x \<in> set (results db2) \<and> live x \<longleftrightarrow> x \<in> set (results db) \<and> live x)"
proof -
  obtain i e where ie: "i \<in> set (txns db)" "e \<in> set (txns db)" "t_id i = iid" "t_id e = eid"
    "t_status i = UNMATCHED" "t_status e = UNMATCHED" and rid: "rid = next_id db + 2"
    and tx: "txns db1 = map (mark_matched {iid, eid}) (txns db)"
    and res: "results db1 = results db @ [(manual_row i e user now)\<lparr>r_id := rid\<rparr>]"
    using created_state[OF assms(1,2)] by blast
  let ?row = "(manual_row i e user now)\<lparr>r_id := rid\<rparr>"
  have ok1: "ledger_ok db1" using create_grows[OF assms(1,2)] by blast
  obtain r T d affected before after where r: "find_result db1 rid = Some r"
    and T: "T = \<Union>(sides ` {r' \<in> set (results db1). match_key r' = match_key r})"
    and d: "d = withdrawn (mark_rejected user' now') T (match_key r) db1"
    and w: "can_withdraw (mark_rejected user' now') T (match_key r) db1"
    and au: "append_audit sha matching_chain ''USER'' (api_key_actor user') UNMATCH affected reason now' before after d = Inr db2"
    using unmatch_shape[OF assms(3) ok1] by blast
  have okd: "ledger_ok d" unfolding d by (rule withdrawn_ok[OF w])
  note same = audited_keeps[OF au okd]
  have old: "\<forall>x \<in> set (results db). r_id x < next_id db \<and> (\<forall>g. r_group x = Some g \<longrightarrow> g < next_id db)"
    using ledger_ids[OF assms(2)] by (simp add: ids_ok_def)
  have "r = ?row" using find_result_in[OF r] old rid unfolding res by fastforce
  then have key: "match_key r = (False, rid)" by (simp add: match_key_def manual_row_def)
  have other: "match_key x \<noteq> (False, rid)" if "x \<in> set (results db)" for x
    using old that rid by (fastforce simp: match_key_def split: option.splits)
  have sel: "{r' \<in> set (results db1). match_key r' = match_key r} = {?row}"
    unfolding res key using other by (auto simp: match_key_def manual_row_def)
  have Te: "T = {iid, eid}" unfolding T sel using ie(3,4) by (simp add: sides_def manual_row_def)
  have dist: "distinct (map t_id (txns db))" using ledger_ids[OF assms(2)] by (simp add: ids_ok_def)
  have un: "t_status t = UNMATCHED" if "t \<in> set (txns db)" "t_id t \<in> {iid, eid}" for t
    using that distinct_map_inj[OF dist] ie by (metis empty_iff insert_iff)
  have "txns d = map (\<lambda>t. if t_id t \<in> {iid, eid} then t\<lparr>t_status := UNMATCHED\<rparr> else t)
      (map (mark_matched {iid, eid}) (txns db))"
    unfolding d Te withdrawn_def tx by simp
  also have "\<dots> = txns db" unfolding map_map
    by (rule map_idI) (use un in \<open>auto simp: mark_matched_def\<close>)
  finally have tx2: "txns db2 = txns db" using same by simp
  have liv: "x \<in> set (results db2) \<and> live x \<longleftrightarrow> x \<in> set (results db) \<and> live x" for x
  proof
    assume x: "x \<in> set (results db2) \<and> live x"
    then have "x \<in> set (results db1) \<and> match_key x \<noteq> match_key r"
      using live_row[OF mark_rejected_rejects] same unfolding d by metis
    moreover have "match_key ?row = match_key r" unfolding \<open>r = ?row\<close> ..
    ultimately show "x \<in> set (results db) \<and> live x" using x unfolding res by auto
  next
    assume x: "x \<in> set (results db) \<and> live x"
    then have "x \<in> set (results db1)" "match_key x \<noteq> match_key r" using other key unfolding res by auto
    then show "x \<in> set (results db2) \<and> live x" using kept_row x same unfolding d by metis
  qed
  have "mark_rejected user' now' ?row \<in> set (results db2)"
    using same sel unfolding d by (force simp: withdrawn_def \<open>r = ?row\<close>)
  then have "was_rejected db2 (iid, eid)"
    unfolding was_rejected_def using ie(3,4) by (force simp: mark_rejected_def manual_row_def)
  then show ?thesis using same tx2 liv by blast
qed

text \<open>Creating a manual match and undoing it restores the state of every
  transaction and every pool; what remains is the rejected pair and two audit
  entries.\<close>

theorem manual_roundtrip:
  assumes "create_match sha iid eid user note now db = Inr (rid, db1)" "ledger_ok db"
    and "unmatch sha rid user' reason now' db1 = Inr db2"
  shows "ledger_ok db2 \<and> txns db2 = txns db \<and> (\<forall>t. is_claimed db2 t = is_claimed db t)
     \<and> (\<forall>bank src df dt. find_unmatched db2 bank src df dt = find_unmatched db bank src df dt)
     \<and> was_rejected db2 (iid, eid)"
proof -
  note u = manual_undone[OF assms]
  have cl: "is_claimed db2 t = is_claimed db t" for t
    using ledger_claimed[OF conjunct1[OF u], of t] ledger_claimed[OF assms(2), of t] u by blast
  have "available db2 bank src df dt = available db bank src df dt" for bank src df dt
    by (rule ext) (simp add: available_def cl)
  then have "find_unmatched db2 bank src df dt = find_unmatched db bank src df dt" for bank src df dt
    using u by (simp add: find_unmatched_def)
  then show ?thesis using u cl by blast
qed

definition sample_free :: db where
  "sample_free = sample_db [sample_txn 3 INTERNAL 500 ''REF1'' 10, sample_txn 4 EXTERNAL 500 ''REF2'' 11]"

lemma sample_free_ok: "ledger_ok sample_free"
  unfolding sample_free_def by (rule sample_ok) (simp_all add: sample_txn_def)

lemma sample_sha_inj: "sample_sha x = sample_sha y \<Longrightarrow> x = y"
  by (simp add: sample_sha_def)

definition sample_pending_row :: result where
  "sample_pending_row = \<lparr>r_id = 0, r_run = ''r'', r_type = FUZZY, r_status = PENDING_REVIEW, r_confidence = 7 / 10,
     r_internal = 3, r_external = 4, r_rule = None, r_group = None, r_candidates = 1, r_date = 11,
     r_reviewed_by = None, r_reviewed_at = None\<rparr>"

definition sample_held :: db where
  "sample_held = sample_free\<lparr>results := [sample_pending_row\<lparr>r_id := 102\<rparr>], claims := pair_claims 100 3 4, next_id := 103\<rparr>"

lemma sample_held_made: "record_pair 3 4 sample_pending_row False sample_free = Inr (Some 102, sample_held)"
  by (simp add: record_pair_def claim_pair_def insert_claims_def claims_unique_def active_txns_def add_result_def
      result_row_ok_def sample_pending_row_def sample_held_def sample_free_def sample_db_def finalise_def pair_claims_def Let_def)

lemma sample_held_ok: "ledger_ok sample_held"
proof -
  have "pair_row 3 4 False sample_pending_row"
    by (simp add: pair_row_def sample_pending_row_def live_def settled_def)
  from record_pair_keeps[OF sample_held_made this, of "\<lambda>_. True"] show ?thesis
    using keeps_ok sample_free_ok by blast
qed

lemma sample_audit:
  "logged sample_sha db \<Longrightarrow> next_id db < 1000 \<Longrightarrow> no_float affected \<Longrightarrow> no_float before \<Longrightarrow> no_float after \<Longrightarrow>
   \<exists>db'. append_audit sample_sha chain ''USER'' aid action affected why 5 before after db = Inr db' \<and> logged sample_sha db'"
  by (rule append_audit_total[OF sample_sha_inj]) simp_all

lemma sample_review:
  assumes "logged sample_sha d" "next_id d < 1000"
  shows "\<exists>db'. audit_review sample_sha r action ''ann'' 5 why after False d = Inr db'"
proof -
  have "\<exists>db'. append_audit sample_sha matching_chain ''USER'' (api_key_actor ''ann'') action
      (JObj [(''match_result_id'', JStr (uuid_str (r_id r))),
             (''internal_transaction_id'', JStr (uuid_str (r_internal r))),
             (''external_transaction_id'', JStr (uuid_str (r_external r)))]) why 5
      (JObj [(''status'', JStr ''PENDING_REVIEW'')]) (JObj [(''status'', JStr (result_status_text after))]) d = Inr db'
      \<and> logged sample_sha db'"
    by (rule sample_audit[OF assms]) simp_all
  then show ?thesis by (auto simp: audit_review_def)
qed

lemma sample_held_facts:
  "find_result sample_held 102 = Some (sample_pending_row\<lparr>r_id := 102\<rparr>)"
  "claims_of sample_held [102] = pair_claims 100 3 4"
  "txns sample_held = [sample_txn 3 INTERNAL 500 ''REF1'' 10, sample_txn 4 EXTERNAL 500 ''REF2'' 11]"
  "audit_log sample_held = []" "next_id sample_held = 103"
  by (simp_all add: find_result_def claims_of_def sample_held_def pair_claims_def sample_free_def sample_db_def)

lemma sample_rejects: "\<exists>db'. reject sample_sha 102 ''ann'' 5 ''no'' sample_held = Inr db'"
proof -
  let ?d = "record_decision [102] REJECTED ''ann'' 5 (release_all [102] sample_held)"
  have l: "logged sample_sha ?d" "next_id ?d < 1000"
    by (simp_all add: logged_def record_decision_def release_all_def release_many sample_held_facts)
  have "reject sample_sha 102 ''ann'' 5 ''no'' sample_held
      = audit_review sample_sha (sample_pending_row\<lparr>r_id := 102\<rparr>) MATCH_REJECT ''ann'' 5 ''no'' REJECTED False ?d"
    by (simp add: reject_def lock_pending_def sample_held_facts sample_pending_row_def)
  then show ?thesis using sample_review[OF l] by simp
qed

theorem confirm_settles_witness:
  "\<exists>db'. confirm sample_sha 102 ''ann'' 5 None False sample_held = Inr db' \<and> ledger_ok db' \<and> claims db' = claims sample_held"
proof -
  let ?d = "record_decision [102] CONFIRMED ''ann'' 5 (set_status [3, 4] MATCHED sample_held)"
  have l: "logged sample_sha ?d" "next_id ?d < 1000"
    by (simp_all add: logged_def record_decision_def set_status_def sample_held_facts)
  have "confirm sample_sha 102 ''ann'' 5 None False sample_held
      = audit_review sample_sha (sample_pending_row\<lparr>r_id := 102\<rparr>) MATCH_CONFIRM ''ann'' 5 ''confirmed without a note'' CONFIRMED False ?d"
    by (simp add: confirm_def lock_pending_def sample_held_facts pair_transactions_def sample_pending_row_def
        sample_txn_def pair_claims_def guard_res_def Let_def)
  then have "\<exists>db'. confirm sample_sha 102 ''ann'' 5 None False sample_held = Inr db'"
    using sample_review[OF l] by simp
  then obtain db' where c: "confirm sample_sha 102 ''ann'' 5 None False sample_held = Inr db'" by blast
  then show ?thesis using confirm_settles[OF c sample_held_ok] by blast
qed

theorem reject_is_final_witness:
  "\<exists>db'. reject sample_sha 102 ''ann'' 5 ''no'' sample_held = Inr db' \<and> ledger_ok db'
     \<and> reject sample_sha 102 ''bob'' 6 ''no'' db' = Inl MatchNotPendingError"
proof -
  obtain db' where r: "reject sample_sha 102 ''ann'' 5 ''no'' sample_held = Inr db'" using sample_rejects by blast
  then show ?thesis using reject_is_final[OF r sample_held_ok] by blast
qed

theorem manual_roundtrip_witness:
  "\<exists>rid db1 db2. create_match sample_sha 3 4 ''ann'' ''ok'' 5 sample_free = Inr (rid, db1)
     \<and> unmatch sample_sha rid ''bob'' ''wrong'' 5 db1 = Inr db2 \<and> txns db2 = txns sample_free \<and> was_rejected db2 (3, 4)"
proof -
  let ?i = "sample_txn 3 INTERNAL 500 ''REF1'' 10" and ?e = "sample_txn 4 EXTERNAL 500 ''REF2'' 11"
  define d where "d = sample_free\<lparr>txns := map (mark_matched {3, 4}) (txns sample_free),
     results := [(manual_row ?i ?e ''ann'' 5)\<lparr>r_id := 102\<rparr>], claims := pair_claims 100 3 4, next_id := 103\<rparr>"
  have r: "record_pair 3 4 (manual_row ?i ?e ''ann'' 5) True sample_free = Inr (Some 102, d)"
    by (simp add: record_pair_def claim_pair_def insert_claims_def claims_unique_def active_txns_def add_result_def
        result_row_ok_def manual_row_def d_def sample_free_def sample_db_def finalise_def pair_claims_def Let_def
        set_status_def mark_matched_def)
  have ld: "logged sample_sha d" by (simp add: logged_def d_def sample_free_def sample_db_def)
  have f: "find_txn sample_free 3 = Some ?i" "find_txn sample_free 4 = Some ?e"
    by (simp_all add: find_txn_def sample_free_def sample_db_def sample_txn_def)
  have t: "t_id ?i = 3" "t_id ?e = 4" "t_source ?i = INTERNAL" "t_source ?e = EXTERNAL" "t_bank ?i = t_bank ?e"
    "t_status ?i = UNMATCHED" "t_status ?e = UNMATCHED" by (simp_all add: sample_txn_def)
  have nc: "\<not> is_claimed sample_free x" for x
    by (simp add: is_claimed_def active_txns_def sample_free_def sample_db_def)
  obtain db1 where c: "create_match sample_sha 3 4 ''ann'' ''ok'' 5 sample_free = Inr (102, db1)" "logged sample_sha db1"
    "\<exists>row. db1 = d\<lparr>audit_log := audit_log d @ [row], next_id := next_id d + 1\<rparr>"
  proof -
    have "next_id d < 1000" by (simp add: d_def)
    note au = sample_audit[OF ld this]
    have "\<exists>db1. append_audit sample_sha matching_chain ''USER'' (api_key_actor ''ann'') MATCH
        (JObj [(''match_result_id'', JStr (uuid_str 102)), (''internal_transaction_id'', JStr (uuid_str 3)),
               (''external_transaction_id'', JStr (uuid_str 4))])
        ''ok'' 5 JNull (JObj [(''match_type'', JStr ''MANUAL''), (''status'', JStr ''CONFIRMED'')]) d = Inr db1
        \<and> logged sample_sha db1"
      by (rule au) simp_all
    then obtain db1 where a: "append_audit sample_sha matching_chain ''USER'' (api_key_actor ''ann'') MATCH
        (JObj [(''match_result_id'', JStr (uuid_str 102)), (''internal_transaction_id'', JStr (uuid_str 3)),
               (''external_transaction_id'', JStr (uuid_str 4))])
        ''ok'' 5 JNull (JObj [(''match_type'', JStr ''MANUAL''), (''status'', JStr ''CONFIRMED'')]) d = Inr db1"
      "logged sample_sha db1" by blast
    have "create_match sample_sha 3 4 ''ann'' ''ok'' 5 sample_free = Inr (102, db1)"
      by (simp add: create_match_def load_txn_def f t guard_res_def nc r a)
    then show ?thesis using that a append_audit_shape[OF a(1)] by blast
  qed
  have n1: "next_id db1 < 1000" using c(3) by (auto simp: d_def)
  have fr: "find_result db1 102 = Some ((manual_row ?i ?e ''ann'' 5)\<lparr>r_id := 102\<rparr>)"
    using c(3) by (auto simp: find_result_def d_def manual_row_def)
  let ?d2 = "record_decision [102] REJECTED ''bob'' 5 (set_status [3, 4] UNMATCHED (release_all [102] db1))"
  have l2: "logged sample_sha ?d2" "next_id ?d2 < 1000"
    using c(2) n1 by (simp_all add: logged_def record_decision_def set_status_def release_all_def release_many)
  let ?row = "(manual_row ?i ?e ''ann'' 5)\<lparr>r_id := 102\<rparr>"
  have rows: "match_rows db1 ?row = [?row]" by (simp add: match_rows_def manual_row_def)
  have cols: "r_status ?row = CONFIRMED" "r_internal ?row = 3" "r_external ?row = 4" "r_id ?row = 102"
    by (simp_all add: manual_row_def sample_txn_def)
  note au = sample_audit[OF l2]
  have "\<exists>db2. append_audit sample_sha matching_chain ''USER'' (api_key_actor ''bob'') UNMATCH
      (JObj [(''match_result_ids'', JList [JStr (uuid_str 102)]),
             (''transaction_ids'', JList (map JStr (sort (map uuid_str [3, 4]))))])
      ''wrong'' 5 (JObj [(''status'', JStr (result_status_text CONFIRMED)), (''match_type'', JStr (match_type_text (r_type ?row)))])
      (JObj [(''status'', JStr ''REJECTED''), (''transactions'', JStr ''UNMATCHED'')]) ?d2 = Inr db2 \<and> logged sample_sha db2"
    by (rule au) (simp_all add: list_all_iff)
  then have "\<exists>db2. unmatch sample_sha 102 ''bob'' ''wrong'' 5 db1 = Inr db2"
    unfolding unmatch_def fr option.case Let_def rows by (auto simp: cols guard_res_def)
  then obtain db2 where u: "unmatch sample_sha 102 ''bob'' ''wrong'' 5 db1 = Inr db2" by blast
  show ?thesis using manual_roundtrip[OF c(1) sample_free_ok u] c(1) u by blast
qed

end
