(* ===== verification/AutoLedger.thy ===== *)
theory AutoLedger
  imports Review
begin

text \<open>
  What the automatic resolver of \<open>src/recon/excmgmt/autoresolve/resolver.py\<close> does to
  the match ledger: voiding a duplicate, and settling a pair by confirming its
  pending match, accepting its existing one, or matching two leftovers.
\<close>

section \<open>Operations\<close>

definition auto_actor :: string where
  "auto_actor = ''system:auto-resolver''"

definition auto_txn :: "db \<Rightarrow> nat \<Rightarrow> txn res" where
  "auto_txn db i =
     (case find_txn db i of
        None \<Rightarrow> Inl (NotAutoResolvableError (''transaction '' @ uuid_str i @ '' no longer exists''))
      | Some t \<Rightarrow> Inr t)"

definition void_duplicate :: "nat \<Rightarrow> nat \<Rightarrow> db \<Rightarrow> (string \<times> db) res" where
  "void_duplicate copy original db =
     bind_res (auto_txn db copy) (\<lambda>c.
       if t_status c \<noteq> UNMATCHED \<or> is_claimed db copy
       then Inl (NotAutoResolvableError ''the duplicate is already matched; unmatching it needs an analyst'')
       else Inr (''voided the duplicate ledger row and linked it to original '' @ uuid_str original,
                 db\<lparr>txns := map (\<lambda>t. if t_id t = copy
                                   then t\<lparr>t_status := VOIDED, t_voided_original := Some original\<rparr> else t)
                             (txns db)\<rparr>))"

definition auto_row :: "string \<Rightarrow> txn \<Rightarrow> txn \<Rightarrow> result" where
  "auto_row rule i e =
     \<lparr>r_id = 0, r_run = ''auto-resolve:'' @ rule, r_type = RULE, r_status = AUTO_MATCHED, r_confidence = 9 / 10,
      r_internal = t_id i, r_external = t_id e, r_rule = Some rule, r_group = None, r_candidates = 1,
      r_date = t_date e, r_reviewed_by = None, r_reviewed_at = None\<rparr>"

definition match_leftover :: "string \<Rightarrow> txn \<Rightarrow> txn \<Rightarrow> db \<Rightarrow> (string \<times> db) res" where
  "match_leftover rule i e db =
     (if t_status i \<noteq> UNMATCHED \<or> t_status e \<noteq> UNMATCHED
      then Inl (NotAutoResolvableError ''one of the transactions is no longer unmatched'')
      else if (t_id i, t_id e) \<in> set (rejected_pairs db [t_id i])
      then Inl (NotAutoResolvableError ''a person unmatched this pair; it is not re-matched'')
      else bind_res (record_pair (t_id i) (t_id e) (auto_row rule i e) True db) (\<lambda>(found, db').
             case found of None \<Rightarrow> Inl ClaimConflictError | Some _ \<Rightarrow> Inr (rule @ '': matched the pair'', db')))"

definition settle_pair ::
    "(string \<Rightarrow> string) \<Rightarrow> nat option \<Rightarrow> txn \<Rightarrow> txn \<Rightarrow> string \<Rightarrow> string \<Rightarrow> instant \<Rightarrow> db \<Rightarrow> (string \<times> db) res" where
  "settle_pair sha rid i e rule why now db =
     (case rid of
        Some mid \<Rightarrow>
          (case find_result db mid of
             None \<Rightarrow> Inl (NotAutoResolvableError ''the match result no longer exists'')
           | Some r \<Rightarrow>
               if r_status r = PENDING_REVIEW then
                 bind_res (confirm sha (r_id r) auto_actor now (Some (rule @ '': '' @ why)) True db) (\<lambda>db'.
                   Inr (rule @ '': confirmed the pending match'', db'))
               else if r_status r = AUTO_MATCHED \<or> r_status r = CONFIRMED then
                 Inr (rule @ '': the pair was already matched; the difference is recorded'', db)
               else Inl (NotAutoResolvableError (''the pair's match is '' @ result_status_text (r_status r))))
      | None \<Rightarrow> match_leftover rule i e db)"

section \<open>They keep the ledger\<close>

lemma void_shape:
  assumes "void_duplicate copy original db = Inr (how, db')"
  obtains c where "find_txn db copy = Some c" "t_status c = UNMATCHED" "\<not> is_claimed db copy"
    "db' = db\<lparr>txns := map (\<lambda>t. if t_id t = copy then t\<lparr>t_status := VOIDED, t_voided_original := Some original\<rparr> else t)
                       (txns db)\<rparr>"
  using assms by (auto simp: void_duplicate_def auto_txn_def res_iff split: option.splits if_splits)

lemma void_ok:
  assumes "void_duplicate copy original db = Inr (how, db')" "ledger_ok db"
  shows "ledger_ok db'"
proof -
  obtain c where c: "find_txn db copy = Some c" "t_status c = UNMATCHED" "\<not> is_claimed db copy"
    and d: "db' = db\<lparr>txns := map (\<lambda>t. if t_id t = copy then t\<lparr>t_status := VOIDED, t_voided_original := Some original\<rparr> else t)
                       (txns db)\<rparr>" by (rule void_shape[OF assms(1)])
  let ?f = "\<lambda>t. if t_id t = copy then t\<lparr>t_status := VOIDED, t_voided_original := Some original\<rparr> else t"
  have f: "results db' = results db" "claims db' = claims db" "next_id db' = next_id db" "txns db' = map ?f (txns db)"
    by (simp_all add: d)
  have ids: "map t_id (txns db') = map t_id (txns db)" by (simp add: f)
  have "ids_ok db'" using ledger_ids[OF assms(2)] unfolding ids_ok_def ids f(1,2,3) by blast
  moreover have "claims_ok db'" using assms(2) unfolding ledger_ok_def claims_ok_def f by blast
  moreover have "results_ok db'" using assms(2) unfolding ledger_ok_def results_ok_def held_def f by blast
  moreover have "status_ok db'"
    unfolding status_ok_def
  proof
    fix t' assume "t' \<in> set (txns db')"
    then obtain t where t: "t \<in> set (txns db)" "t' = ?f t" by (auto simp: f)
    note st = ledger_status[OF assms(2) t(1)]
    have "\<not> (\<exists>r \<in> set (results db). settled r \<and> t_id t \<in> sides r)" if "t_id t = copy"
      using c(3) that ledger_claimed[OF assms(2)] settled_live by metis
    then show "t_status t' = MATCHED \<longleftrightarrow> (\<exists>r \<in> set (results db'). settled r \<and> t_id t' \<in> sides r)"
      using st unfolding f t(2) by auto
  qed
  ultimately show ?thesis unfolding ledger_ok_def by blast
qed

lemma auto_row_pair: "pair_row (t_id i) (t_id e) True (auto_row rule i e)"
  by (simp add: pair_row_def auto_row_def live_def settled_def)

lemma leftover_keeps:
  assumes "match_leftover rule i e db = Inr (how, db')"
  shows "keeps (\<lambda>p. \<not> was_rejected db p) db db'"
proof -
  obtain rid where r: "record_pair (t_id i) (t_id e) (auto_row rule i e) True db = Inr (Some rid, db')"
    using assms by (auto simp: match_leftover_def res_iff split: if_splits option.splits)
  have "\<not> was_rejected db (t_id i, t_id e)"
    using assms by (auto simp: match_leftover_def was_rejected_def rejected_pairs_iff split: if_splits)
  then show ?thesis by (rule record_pair_keeps[OF r auto_row_pair])
qed

lemma settle_cases:
  assumes "settle_pair sha rid i e rule why now db = Inr (how, db')"
  shows "db' = db \<or> (\<exists>mid n. confirm sha mid auto_actor now (Some n) True db = Inr db')
     \<or> keeps (\<lambda>p. \<not> was_rejected db p) db db'"
  using assms leftover_keeps
  by (auto simp: settle_pair_def res_iff split: option.splits if_splits)

lemma settle_ok:
  assumes "settle_pair sha rid i e rule why now db = Inr (how, db')" "ledger_ok db"
  shows "ledger_ok db'"
  using settle_cases[OF assms(1)] confirm_ok keeps_ok assms(2) by blast

end
