(* ===== verification/LedgerSteps.thy ===== *)
theory LedgerSteps
  imports Orchestrator AutoLedger
begin

text \<open>
  The life of the match ledger: transactions arrive, runs match them, people
  confirm, reject, add and undo matches, the automatic resolver voids duplicates and
  settles pairs, audit entries are written, in any order. The step relation ranges
  over the modelled operations; the properties hold along every sequence of steps.
\<close>

section \<open>Steps\<close>

text \<open>New normalised transactions: UNMATCHED, with ids that occur nowhere yet.\<close>

definition arrivals_ok :: "txn list \<Rightarrow> db \<Rightarrow> bool" where
  "arrivals_ok ts db =
     (distinct (map t_id (txns db @ ts)) \<and> list_all (\<lambda>t. t_status t = UNMATCHED) ts
      \<and> list_all (\<lambda>t. list_all (\<lambda>r. t_id t \<noteq> r_internal r \<and> t_id t \<noteq> r_external r) (results db)) ts)"

definition add_transactions :: "txn list \<Rightarrow> db \<Rightarrow> db" where
  "add_transactions ts db = db\<lparr>txns := txns db @ ts\<rparr>"

inductive ledger_step :: "db \<Rightarrow> db \<Rightarrow> bool" where
  arrive: "arrivals_ok ts db \<Longrightarrow> ledger_step db (add_transactions ts db)"
| run: "orch_run oc bank fx db = Inr ((out, fx'), db') \<Longrightarrow> ledger_step db db'"
| confirm: "confirm sha mid who now note automated db = Inr db' \<Longrightarrow> ledger_step db db'"
| reject: "reject sha mid who now reason db = Inr db' \<Longrightarrow> ledger_step db db'"
| create: "create_match sha iid eid user note now db = Inr (rid, db') \<Longrightarrow> ledger_step db db'"
| unmatch: "unmatch sha mid user reason now db = Inr db' \<Longrightarrow> ledger_step db db'"
| void: "void_duplicate copy original db = Inr (how, db') \<Longrightarrow> ledger_step db db'"
| settle: "settle_pair sha rid i e rule why now db = Inr (how, db') \<Longrightarrow> ledger_step db db'"
| entry: "append_audit sha chain atype aid action affected why ts before after db = Inr db' \<Longrightarrow> ledger_step db db'"

definition empty_db :: db where
  "empty_db = \<lparr>txns = [], results = [], claims = [], audit_log = [], next_id = 0\<rparr>"

lemma empty_ok: "ledger_ok empty_db"
  by (simp add: empty_db_def ledger_ok_def ids_ok_def claims_ok_def claims_unique_def active_txns_def results_ok_def status_ok_def)

lemma arrive_ok:
  assumes "arrivals_ok ts db" "ledger_ok db"
  shows "ledger_ok (add_transactions ts db)" (is "ledger_ok ?d")
proof -
  have f: "results ?d = results db" "claims ?d = claims db" "next_id ?d = next_id db" "txns ?d = txns db @ ts"
    by (simp_all add: add_transactions_def)
  have "ids_ok ?d" using ledger_ids[OF assms(2)] assms(1) unfolding ids_ok_def f arrivals_ok_def by blast
  moreover have "claims_ok ?d" using assms(2) unfolding ledger_ok_def claims_ok_def f by blast
  moreover have "results_ok ?d" using assms(2) unfolding ledger_ok_def results_ok_def held_def f by blast
  moreover have "status_ok ?d"
    unfolding status_ok_def f
  proof
    fix t assume "t \<in> set (txns db @ ts)"
    then consider "t \<in> set (txns db)" | "t \<in> set ts" by auto
    then show "t_status t = MATCHED \<longleftrightarrow> (\<exists>r \<in> set (results db). settled r \<and> t_id t \<in> sides r)"
    proof cases
      case 1 then show ?thesis by (rule ledger_status[OF assms(2)])
    next
      case 2 then show ?thesis using assms(1) by (auto simp: arrivals_ok_def list_all_iff sides_def)
    qed
  qed
  ultimately show ?thesis unfolding ledger_ok_def by blast
qed

lemma step_ok: "\<lbrakk>ledger_step db db'; ledger_ok db\<rbrakk> \<Longrightarrow> ledger_ok db'"
proof (induction rule: ledger_step.induct)
  case (arrive ts db) then show ?case by (rule arrive_ok)
next
  case (run oc bank fx db out fx' db')
  then show ?case using orch_run_level by (auto simp: level_ok_def)
next
  case (confirm sha mid who now nt automated db db') then show ?case by (rule confirm_ok)
next
  case (reject sha mid who now reason db db') then show ?case by (rule reject_ok)
next
  case (create sha iid eid user nt now db rid db') then show ?case using create_grows by blast
next
  case (unmatch sha mid user reason now db db') then show ?case by (rule unmatch_ok)
next
  case (void copy original db how db') then show ?case by (rule void_ok)
next
  case (settle sha rid i e rule why now db how db') then show ?case by (rule settle_ok)
next
  case (entry sha chain atype aid action affected why ts before after db db')
  then show ?case using append_audit_keeps keeps_ok by blast
qed

lemma steps_ok: "\<lbrakk>ledger_step\<^sup>*\<^sup>* db db'; ledger_ok db\<rbrakk> \<Longrightarrow> ledger_ok db'"
  by (induction rule: rtranclp_induct) (auto intro: step_ok)

section \<open>History\<close>

text \<open>The only ways a decision changes.\<close>

fun status_next :: "result_status \<Rightarrow> result_status \<Rightarrow> bool" where
  "status_next PENDING_REVIEW s = (s \<noteq> AUTO_MATCHED)"
| "status_next AUTO_MATCHED s = (s = AUTO_MATCHED \<or> s = REJECTED)"
| "status_next CONFIRMED s = (s = CONFIRMED \<or> s = REJECTED)"
| "status_next REJECTED s = (s = REJECTED)"

lemma status_next_refl [simp]: "status_next s s"
  by (cases s) simp_all

lemma status_next_trans: "\<lbrakk>status_next a b; status_next b c\<rbrakk> \<Longrightarrow> status_next a c"
  by (cases a; cases b; cases c) simp_all

lemma status_next_rejected: "status_next REJECTED s \<Longrightarrow> s = REJECTED"
  by simp

definition same_match :: "result \<Rightarrow> result \<Rightarrow> bool" where
  "same_match r r' =
     (r_id r' = r_id r \<and> r_type r' = r_type r \<and> r_internal r' = r_internal r \<and> r_external r' = r_external r
      \<and> r_group r' = r_group r \<and> status_next (r_status r) (r_status r'))"

definition pair_of :: "result \<Rightarrow> nat \<times> nat" where
  "pair_of r = (r_internal r, r_external r)"

definition later :: "db \<Rightarrow> db \<Rightarrow> bool" where
  "later db db' =
     (\<exists>old new. results db' = old @ new \<and> list_all2 same_match (results db) old
        \<and> (\<forall>r \<in> set new. r_type r = MANUAL \<or> \<not> was_rejected db (pair_of r)))"

lemma same_match_refl [simp]: "same_match r r"
  by (simp add: same_match_def)

lemma all2_same [simp]: "list_all2 same_match rs rs"
  by (simp add: list_all2_refl)

lemma same_match_trans: "\<lbrakk>same_match a b; same_match b c\<rbrakk> \<Longrightarrow> same_match a c"
  using status_next_trans by (auto simp: same_match_def)

lemma later_refl [simp]: "later db db"
  unfolding later_def by (intro exI[of _ "results db"] exI[of _ "[]"]) simp

lemma same_results_later: "results db' = results db \<Longrightarrow> later db db'"
  unfolding later_def by (intro exI[of _ "results db"] exI[of _ "[]"]) simp

lemma later_rejected:
  assumes "later db db'" "was_rejected db p"
  shows "was_rejected db' p"
proof -
  obtain old new where o: "results db' = old @ new" "list_all2 same_match (results db) old"
    using assms(1) unfolding later_def by blast
  obtain k where k: "k < length (results db)" "r_status (results db ! k) = REJECTED" "pair_of (results db ! k) = p"
    using assms(2) by (auto simp: was_rejected_def pair_of_def in_set_conv_nth)
  have "same_match (results db ! k) (old ! k)" "k < length old"
    using o(2) k(1) by (auto simp: list_all2_conv_all_nth)
  then show ?thesis
    using k o(1) by (intro bexI[of _ "old ! k"] was_rejected_def[THEN iffD2])
      (auto simp: same_match_def pair_of_def)
qed

lemma later_trans:
  assumes "later db1 db2" "later db2 db3"
  shows "later db1 db3"
proof -
  obtain o1 n1 where 1: "results db2 = o1 @ n1" "list_all2 same_match (results db1) o1"
    "\<forall>r \<in> set n1. r_type r = MANUAL \<or> \<not> was_rejected db1 (pair_of r)" using assms(1) unfolding later_def by blast
  obtain o2 n2 where 2: "results db3 = o2 @ n2" "list_all2 same_match (o1 @ n1) o2"
    "\<forall>r \<in> set n2. r_type r = MANUAL \<or> \<not> was_rejected db2 (pair_of r)" using assms(2) unfolding later_def 1(1) by blast
  obtain a b where ab: "o2 = a @ b" "list_all2 same_match o1 a" "list_all2 same_match n1 b"
    using 2(2) by (auto simp: list_all2_append1)
  have "list_all2 same_match (results db1) a"
    using list_all2_trans[of same_match same_match same_match, OF _ 1(2) ab(2)] same_match_trans by blast
  moreover have "r_type r = MANUAL \<or> \<not> was_rejected db1 (pair_of r)" if "r \<in> set (b @ n2)" for r
  proof (cases "r \<in> set n2")
    case True
    then show ?thesis using 2(3) later_rejected[OF assms(1)] by blast
  next
    case False
    then have "r \<in> set b" using that by simp
    then obtain x where "x \<in> set n1" "same_match x r" using ab(3) by (metis in_set_conv_nth list_all2_conv_all_nth)
    then show ?thesis using 1(3) by (auto simp: same_match_def pair_of_def)
  qed
  ultimately show ?thesis unfolding later_def 2(1) ab(1) by (metis append.assoc)
qed

lemma grows_later: "\<lbrakk>grows P db db'; \<And>p. P p \<Longrightarrow> \<not> was_rejected db p\<rbrakk> \<Longrightarrow> later db db'"
  unfolding grows_def later_def pair_of_def by (metis all2_same)

lemma withdrawn_later:
  assumes "can_withdraw (mark_rejected who now) T k db" "results db' = results (withdrawn (mark_rejected who now) T k db)"
  shows "later db db'"
proof -
  have "same_match r (if match_key r = k then mark_rejected who now r else r)" if "r \<in> set (results db)" for r
    using row_live[OF assms(1) that] by (cases "r_status r") (auto simp: same_match_def mark_rejected_def live_def)
  then have "list_all2 same_match (results db) (results db')"
    unfolding assms(2) withdrawn_def by (simp add: list_all2_map2 list_all2_same)
  then show ?thesis unfolding later_def by (intro exI[of _ "results db'"] exI[of _ "[]"]) simp
qed

lemma confirm_later:
  assumes "confirm sha mid who now nt automated db = Inr db'" "ledger_ok db"
  shows "later db db'"
proof -
  obtain r d why where r: "find_result db mid = Some r" "r_status r = PENDING_REVIEW"
    and d: "d = confirmed mid who now (sides r) db"
    and au: "audit_review sha r MATCH_CONFIRM who now why CONFIRMED automated d = Inr db'"
    using confirm_shape[OF assms] by blast
  have m: "r \<in> set (results db)" "r_id r = mid" using find_result_in[OF r(1)] by simp_all
  have "distinct (map r_id (results db))" using ledger_ids[OF assms(2)] by (simp add: ids_ok_def)
  then have only: "x = r" if "x \<in> set (results db)" "r_id x = mid" for x using distinct_map_inj that m by metis
  have "same_match x (mark_confirmed mid who now x)" if "x \<in> set (results db)" for x
    using only[OF that] r(2) by (auto simp: same_match_def mark_confirmed_def)
  moreover have "ledger_ok d" unfolding d by (rule confirmed_ok[OF assms(2) m r(2)])
  then have "results db' = map (mark_confirmed mid who now) (results db)"
    using audit_review_keeps[OF au] unfolding d by (simp add: confirmed_def)
  ultimately have "list_all2 same_match (results db) (results db')" by (simp add: list_all2_map2 list_all2_same)
  then show ?thesis unfolding later_def by (intro exI[of _ "results db'"] exI[of _ "[]"]) simp
qed

lemma step_later: "\<lbrakk>ledger_step db db'; ledger_ok db\<rbrakk> \<Longrightarrow> later db db'"
proof (induction rule: ledger_step.induct)
  case (arrive ts db)
  have "results (add_transactions ts db) = results db" by (simp add: add_transactions_def)
  then show ?case by (rule same_results_later)
next
  case (run oc bank fx db out fx' db')
  then have "grows (may_pair db bank) db db'" using orch_run_level by (auto simp: level_ok_def)
  then show ?case by (rule grows_later) (simp add: may_pair_def)
next
  case (confirm sha mid who now nt automated db db') then show ?case by (rule confirm_later)
next
  case (reject sha mid who now reason db db')
  obtain r d where d: "d = withdrawn (mark_rejected who now) {} (match_key r) db"
    and w: "can_withdraw (mark_rejected who now) {} (match_key r) db"
    and au: "audit_review sha r MATCH_REJECT who now reason REJECTED False d = Inr db'"
    using reject_shape[OF reject] by blast
  have "ledger_ok d" unfolding d by (rule withdrawn_ok[OF w])
  then show ?case using withdrawn_later[OF w] audit_review_keeps[OF au] d by blast
next
  case (create sha iid eid user nt now db rid db')
  obtain i e where "results db' = results db @ [(manual_row i e user now)\<lparr>r_id := rid\<rparr>]"
    using created_state[OF create] by blast
  then show ?case unfolding later_def
    by (intro exI[of _ "results db"] exI[of _ "[(manual_row i e user now)\<lparr>r_id := rid\<rparr>]"]) (simp add: manual_row_def)
next
  case (unmatch sha mid user reason now db db')
  obtain T k d affected before after where d: "d = withdrawn (mark_rejected user now) T k db"
    and w: "can_withdraw (mark_rejected user now) T k db"
    and au: "append_audit sha matching_chain ''USER'' (api_key_actor user) UNMATCH affected reason now before after d = Inr db'"
    using unmatch_shape[OF unmatch] by blast
  have "ledger_ok d" unfolding d by (rule withdrawn_ok[OF w])
  then show ?case using withdrawn_later[OF w] audited_keeps[OF au] d by blast
next
  case (void copy original db how db')
  have "results db' = results db" by (rule void_shape[OF void(1)]) simp
  then show ?case by (rule same_results_later)
next
  case (settle sha rid i e rule why now db how db')
  from settle_cases[OF settle(1)] consider "db' = db" | mid n where "confirm sha mid auto_actor now (Some n) True db = Inr db'"
    | "keeps (\<lambda>p. \<not> was_rejected db p) db db'" by blast
  then show ?case
  proof cases
    case 2 then show ?thesis using confirm_later settle(2) by blast
  next
    case 3 then show ?thesis using keeps_ok settle(2) grows_later by blast
  qed simp
next
  case (entry sha chain atype aid action affected why ts before after db db')
  have "results db' = results db" using append_audit_shape[OF entry(1)] by auto
  then show ?case by (rule same_results_later)
qed

lemma steps_later: "\<lbrakk>ledger_step\<^sup>*\<^sup>* db db'; ledger_ok db\<rbrakk> \<Longrightarrow> later db db'"
proof (induction rule: rtranclp_induct)
  case (step y z)
  then show ?case using later_trans step_later steps_ok by blast
qed simp

section \<open>Properties\<close>

text \<open>C5. In every state reached from the empty ledger, whatever happened in whatever
  order: two live matches that share a transaction are rows of one match, a
  transaction is MATCHED exactly when an automatic or confirmed match contains it,
  and a transaction is claimed exactly when some live match contains it.\<close>

theorem ledger_always_consistent:
  assumes "ledger_step\<^sup>*\<^sup>* empty_db db"
  shows "(\<forall>r \<in> set (results db). \<forall>r' \<in> set (results db). live r \<longrightarrow> live r' \<longrightarrow> sides r \<inter> sides r' \<noteq> {}
            \<longrightarrow> match_key r = match_key r')
     \<and> (\<forall>t \<in> set (txns db). t_status t = MATCHED \<longleftrightarrow> (\<exists>r \<in> set (results db). settled r \<and> t_id t \<in> sides r))
     \<and> (\<forall>i. is_claimed db i \<longleftrightarrow> (\<exists>r \<in> set (results db). live r \<and> i \<in> sides r))"
proof -
  have ok: "ledger_ok db" by (rule steps_ok[OF assms empty_ok])
  show ?thesis
    using ledger_exclusive[OF ok] ledger_status[OF ok] ledger_claimed[OF ok] by blast
qed

text \<open>C10. A rejection is never undone or forgotten: however the ledger goes on, every
  row keeps its pair and only moves forward (a rejected one stays rejected), and a
  pair that was rejected is only ever matched again by a person.\<close>

theorem rejection_is_permanent:
  assumes "ledger_step\<^sup>*\<^sup>* db db'" "ledger_ok db"
  shows "\<exists>old new. results db' = old @ new \<and> list_all2 same_match (results db) old
     \<and> (\<forall>p. was_rejected db p \<longrightarrow> was_rejected db' p)
     \<and> (\<forall>r \<in> set new. was_rejected db (pair_of r) \<longrightarrow> r_type r = MANUAL)"
proof -
  note l = steps_later[OF assms]
  then obtain old new where "results db' = old @ new" "list_all2 same_match (results db) old"
    "\<forall>r \<in> set new. r_type r = MANUAL \<or> \<not> was_rejected db (pair_of r)" unfolding later_def by blast
  then show ?thesis using later_rejected[OF l] by blast
qed

section \<open>Witnesses\<close>

theorem ledger_always_consistent_witness:
  "list_all (\<lambda>t. t_status t \<noteq> MATCHED) (txns (add_transactions [sample_txn 3 INTERNAL 500 ''REF1'' 10] empty_db))"
proof -
  let ?d = "add_transactions [sample_txn 3 INTERNAL 500 ''REF1'' 10] empty_db"
  have "arrivals_ok [sample_txn 3 INTERNAL 500 ''REF1'' 10] empty_db"
    by (simp add: arrivals_ok_def empty_db_def sample_txn_def)
  then have "ledger_step\<^sup>*\<^sup>* empty_db ?d" using ledger_step.arrive by blast
  then have "\<forall>t \<in> set (txns ?d). t_status t = MATCHED \<longleftrightarrow> (\<exists>r \<in> set (results ?d). settled r \<and> t_id t \<in> sides r)"
    using ledger_always_consistent by blast
  moreover have "results ?d = []" by (simp add: add_transactions_def empty_db_def)
  ultimately show ?thesis by (simp add: list_all_iff)
qed

theorem rejection_is_permanent_witness:
  "\<exists>db'. reject sample_sha 102 ''ann'' 5 ''no'' sample_held = Inr db'
     \<and> (\<exists>old new. results db' = old @ new \<and> list_all2 same_match (results sample_held) old)"
proof -
  obtain db' where r: "reject sample_sha 102 ''ann'' 5 ''no'' sample_held = Inr db'" using sample_rejects by blast
  then have "ledger_step\<^sup>*\<^sup>* sample_held db'" using ledger_step.reject by blast
  then show ?thesis using rejection_is_permanent[OF _ sample_held_ok] r by blast
qed

end
