(* ===== verification/Routing.thy ===== *)
theory Routing
  imports Clock PyDecimal "HOL-Library.Option_ord"
begin

text \<open>
  The exception taxonomy (\<open>src/recon/excmgmt/taxonomy.py\<close>), the pure routing
  decisions of \<open>excmgmt/routing.py\<close> and the tier queues of \<open>excmgmt/queues.py\<close>.
  Severities and tiers are enumerations ordered by their rank. A Decimal of the
  configuration is its rational value; \<open>txt\<close> is \<open>str\<close> on Decimals. YAML reading is
  an input: the taxonomy is the validated model, checked by \<open>taxonomy_ok\<close>.
\<close>

section \<open>Enumerations\<close>

datatype category =
    MISSING_INTERNAL | MISSING_EXTERNAL | AMOUNT_MISMATCH | DUPLICATE_INTERNAL | DUPLICATE_EXTERNAL
  | DATE_MISMATCH | CURRENCY_MISMATCH | DIRECTION_REVERSAL | PARTIAL_MATCH | NETTED_SETTLEMENT
  | FEE_DEDUCTION | FX_VARIANCE | STALE_TRANSACTION | FORMAT_ERROR | REFERENCE_TRUNCATED
  | TIMEZONE_OFFSET | REVERSAL_PENDING | REGULATORY_HOLD | SETTLEMENT_DELAY

definition all_categories :: "category list" where
  "all_categories =
     [MISSING_INTERNAL, MISSING_EXTERNAL, AMOUNT_MISMATCH, DUPLICATE_INTERNAL, DUPLICATE_EXTERNAL,
      DATE_MISMATCH, CURRENCY_MISMATCH, DIRECTION_REVERSAL, PARTIAL_MATCH, NETTED_SETTLEMENT,
      FEE_DEDUCTION, FX_VARIANCE, STALE_TRANSACTION, FORMAT_ERROR, REFERENCE_TRUNCATED,
      TIMEZONE_OFFSET, REVERSAL_PENDING, REGULATORY_HOLD, SETTLEMENT_DELAY]"

lemma all_categories_all [simp]: "c \<in> set all_categories"
  by (cases c) (simp_all add: all_categories_def)

definition category_text :: "category \<Rightarrow> string" where
  "category_text c =
     (case c of MISSING_INTERNAL \<Rightarrow> ''MISSING_INTERNAL'' | MISSING_EXTERNAL \<Rightarrow> ''MISSING_EXTERNAL''
      | AMOUNT_MISMATCH \<Rightarrow> ''AMOUNT_MISMATCH'' | DUPLICATE_INTERNAL \<Rightarrow> ''DUPLICATE_INTERNAL''
      | DUPLICATE_EXTERNAL \<Rightarrow> ''DUPLICATE_EXTERNAL'' | DATE_MISMATCH \<Rightarrow> ''DATE_MISMATCH''
      | CURRENCY_MISMATCH \<Rightarrow> ''CURRENCY_MISMATCH'' | DIRECTION_REVERSAL \<Rightarrow> ''DIRECTION_REVERSAL''
      | PARTIAL_MATCH \<Rightarrow> ''PARTIAL_MATCH'' | NETTED_SETTLEMENT \<Rightarrow> ''NETTED_SETTLEMENT''
      | FEE_DEDUCTION \<Rightarrow> ''FEE_DEDUCTION'' | FX_VARIANCE \<Rightarrow> ''FX_VARIANCE''
      | STALE_TRANSACTION \<Rightarrow> ''STALE_TRANSACTION'' | FORMAT_ERROR \<Rightarrow> ''FORMAT_ERROR''
      | REFERENCE_TRUNCATED \<Rightarrow> ''REFERENCE_TRUNCATED'' | TIMEZONE_OFFSET \<Rightarrow> ''TIMEZONE_OFFSET''
      | REVERSAL_PENDING \<Rightarrow> ''REVERSAL_PENDING'' | REGULATORY_HOLD \<Rightarrow> ''REGULATORY_HOLD''
      | SETTLEMENT_DELAY \<Rightarrow> ''SETTLEMENT_DELAY'')"

datatype severity = LOW | MEDIUM | HIGH | CRITICAL

primrec severity_rank :: "severity \<Rightarrow> nat" where
  "severity_rank LOW = 0"
| "severity_rank MEDIUM = 1"
| "severity_rank HIGH = 2"
| "severity_rank CRITICAL = 3"

definition severity_text :: "severity \<Rightarrow> string" where
  "severity_text s = (case s of LOW \<Rightarrow> ''LOW'' | MEDIUM \<Rightarrow> ''MEDIUM'' | HIGH \<Rightarrow> ''HIGH'' | CRITICAL \<Rightarrow> ''CRITICAL'')"

datatype tier = TIER_1_AUTO | TIER_2_ANALYST | TIER_3_SENIOR | TIER_4_COMPLIANCE

primrec tier_no :: "tier \<Rightarrow> nat" where
  "tier_no TIER_1_AUTO = 1"
| "tier_no TIER_2_ANALYST = 2"
| "tier_no TIER_3_SENIOR = 3"
| "tier_no TIER_4_COMPLIANCE = 4"

instantiation severity :: linorder
begin

definition less_eq_severity :: "severity \<Rightarrow> severity \<Rightarrow> bool" where
  "less_eq_severity s t = (severity_rank s \<le> severity_rank t)"

definition less_severity :: "severity \<Rightarrow> severity \<Rightarrow> bool" where
  "less_severity s t = (severity_rank s < severity_rank t)"

instance
proof
  fix s t :: severity
  show "s \<le> t \<Longrightarrow> t \<le> s \<Longrightarrow> s = t" by (cases s; cases t) (simp_all add: less_eq_severity_def)
qed (auto simp: less_eq_severity_def less_severity_def)

end

instantiation tier :: linorder
begin

definition less_eq_tier :: "tier \<Rightarrow> tier \<Rightarrow> bool" where
  "less_eq_tier s t = (tier_no s \<le> tier_no t)"

definition less_tier :: "tier \<Rightarrow> tier \<Rightarrow> bool" where
  "less_tier s t = (tier_no s < tier_no t)"

instance
proof
  fix s t :: tier
  show "s \<le> t \<Longrightarrow> t \<le> s \<Longrightarrow> s = t" by (cases s; cases t) (simp_all add: less_eq_tier_def)
qed (auto simp: less_eq_tier_def less_tier_def)

end

lemma tier_bounds [simp]: "TIER_1_AUTO \<le> t" "t \<le> TIER_4_COMPLIANCE"
  by (cases t; simp add: less_eq_tier_def)+

lemma severity_bounds [simp]: "s \<le> CRITICAL" "LOW \<le> s"
  by (cases s; simp add: less_eq_severity_def)+

text \<open>\<open>EscalationTier(min(current.value + 1, 4))\<close>.\<close>

primrec next_tier :: "tier \<Rightarrow> tier" where
  "next_tier TIER_1_AUTO = TIER_2_ANALYST"
| "next_tier TIER_2_ANALYST = TIER_3_SENIOR"
| "next_tier TIER_3_SENIOR = TIER_4_COMPLIANCE"
| "next_tier TIER_4_COMPLIANCE = TIER_4_COMPLIANCE"

lemma next_tier_no: "tier_no (next_tier t) = min (tier_no t + 1) 4"
  by (cases t) simp_all

lemma next_tier_le: "t \<le> next_tier t"
  by (cases t) (simp_all add: less_eq_tier_def)

section \<open>Taxonomy\<close>

datatype auto_resolvable = ALWAYS | NEVER | CONDITIONAL

record category_rule =
  cr_category :: category
  cr_auto :: auto_resolvable
  cr_sla_minutes :: int
  cr_severity :: severity
  cr_tier :: tier

record detection =
  dt_hold_keywords :: "string list"
  dt_reversal_keywords :: "string list"
  dt_gap_hours :: int
  dt_cut_length :: int

record taxonomy =
  tx_version :: string
  tx_individual :: int
  tx_cumulative :: int
  tx_max_difference :: int
  tx_max_days :: int
  tx_min_confidence :: rat
  tx_fx_percent :: rat
  tx_systemic :: int
  tx_detection :: detection
  tx_rules :: "category_rule list"

definition default_detection :: detection where
  "default_detection =
     \<lparr>dt_hold_keywords = [''AML'', ''CFT'', ''REGULATORY HOLD'', ''COMPLIANCE HOLD'', ''COMPLIANCE REVIEW'', ''FIU''],
      dt_reversal_keywords = [''REVERSAL'', ''REVERSED''], dt_gap_hours = 24, dt_cut_length = 16\<rparr>"

text \<open>The model validators: bounds of the numbers, and every category exactly once.\<close>

definition thresholds_ok :: "taxonomy \<Rightarrow> bool" where
  "thresholds_ok x =
     (0 < tx_individual x \<and> 0 < tx_cumulative x \<and> 0 \<le> tx_max_difference x \<and> 0 \<le> tx_max_days x
      \<and> 0 < tx_systemic x \<and> 0 < dt_gap_hours (tx_detection x) \<and> 0 < dt_cut_length (tx_detection x)
      \<and> list_all (\<lambda>r. 0 < cr_sla_minutes r) (tx_rules x))"

definition covers_once :: "taxonomy \<Rightarrow> bool" where
  "covers_once x =
     (let listed = map cr_category (tx_rules x) in
      list_all (\<lambda>c. c \<in> set listed) all_categories \<and> distinct listed)"

definition load_taxonomy :: "taxonomy \<Rightarrow> taxonomy res" where
  "load_taxonomy x = (if thresholds_ok x \<and> covers_once x then Inr x else Inl ConfigError)"

definition rule_for :: "taxonomy \<Rightarrow> category \<Rightarrow> category_rule res" where
  "rule_for x c = (case find (\<lambda>r. cr_category r = c) (tx_rules x) of None \<Rightarrow> Inl LookupFailed | Some r \<Rightarrow> Inr r)"

lemma rule_for_category: "rule_for x c = Inr r \<Longrightarrow> cr_category r = c"
  by (auto simp: rule_for_def find_Some_iff split: option.splits)

lemma rule_for_total:
  assumes "load_taxonomy x = Inr y"
  shows "\<exists>r. rule_for x c = Inr r"
proof -
  have "c \<in> cr_category ` set (tx_rules x)"
    using assms by (auto simp: load_taxonomy_def covers_once_def list_all_iff Let_def split: if_splits)
  then have "find (\<lambda>r. cr_category r = c) (tx_rules x) \<noteq> None" by (auto simp: find_None_iff)
  then show ?thesis by (auto simp: rule_for_def)
qed

section \<open>Queues\<close>

primrec queue_for_tier :: "tier \<Rightarrow> string option" where
  "queue_for_tier TIER_1_AUTO = None"
| "queue_for_tier TIER_2_ANALYST = Some ''queue:analyst''"
| "queue_for_tier TIER_3_SENIOR = Some ''queue:senior-ops''"
| "queue_for_tier TIER_4_COMPLIANCE = Some ''queue:compliance''"

definition is_queue :: "string option \<Rightarrow> bool" where
  "is_queue a = (case a of None \<Rightarrow> True | Some s \<Rightarrow> starts_with ''queue:'' s)"

lemma queue_is_queue: "is_queue (queue_for_tier t)"
  by (cases t) (simp_all add: is_queue_def starts_with_def)

section \<open>Routing\<close>

record exc_context =
  ec_category :: category
  ec_amount :: "int option"
  ec_cumulative :: "int option"
  ec_difference :: "int option"
  ec_days :: "int option"
  ec_confidence :: "rat option"
  ec_variance :: "rat option"
  ec_batch :: int

record decision =
  d_severity :: severity
  d_tier :: tier
  d_eligible :: bool
  d_sla_minutes :: int
  d_deadline :: instant
  d_rationale :: string

definition above :: "'a::linorder option \<Rightarrow> 'a \<Rightarrow> bool" where
  "above v limit = (case v of None \<Rightarrow> False | Some x \<Rightarrow> limit < x)"

definition auto_eligible :: "exc_context \<Rightarrow> category_rule \<Rightarrow> taxonomy \<Rightarrow> bool" where
  "auto_eligible ctx rule x =
     (case cr_auto rule of
        ALWAYS \<Rightarrow> True
      | NEVER \<Rightarrow> False
      | CONDITIONAL \<Rightarrow>
          (case ec_category ctx of
             AMOUNT_MISMATCH \<Rightarrow> (case ec_difference ctx of None \<Rightarrow> False | Some d \<Rightarrow> d \<le> tx_max_difference x)
           | DATE_MISMATCH \<Rightarrow> (case ec_days ctx of None \<Rightarrow> False | Some d \<Rightarrow> d \<le> tx_max_days x)
           | REFERENCE_TRUNCATED \<Rightarrow> (case ec_confidence ctx of None \<Rightarrow> False | Some c \<Rightarrow> tx_min_confidence x < c)
           | _ \<Rightarrow> False))"

definition routed_severity :: "exc_context \<Rightarrow> category_rule \<Rightarrow> taxonomy \<Rightarrow> severity" where
  "routed_severity ctx rule x =
     (if above (ec_amount ctx) (tx_individual x) \<and> severity_rank (cr_severity rule) < severity_rank CRITICAL
      then CRITICAL else cr_severity rule)"

definition tier4_reason :: "(rat \<Rightarrow> string) \<Rightarrow> exc_context \<Rightarrow> category_rule \<Rightarrow> taxonomy \<Rightarrow> string option" where
  "tier4_reason txt ctx rule x =
     (if cr_tier rule = TIER_4_COMPLIANCE then Some (category_text (ec_category ctx) @ '' is routed to compliance'')
      else case ec_variance ctx of
          Some v \<Rightarrow>
            if ec_category ctx = FX_VARIANCE \<and> tx_fx_percent x < v
            then Some (''FX variance '' @ txt v @ ''% exceeds '' @ txt (tx_fx_percent x) @ ''%'')
            else if tx_systemic x < ec_batch ctx
            then Some (int_str (ec_batch ctx) @ '' exceptions from one bank batch (systemic failure threshold ''
                       @ int_str (tx_systemic x) @ '')'')
            else None
        | None \<Rightarrow>
            if tx_systemic x < ec_batch ctx
            then Some (int_str (ec_batch ctx) @ '' exceptions from one bank batch (systemic failure threshold ''
                       @ int_str (tx_systemic x) @ '')'')
            else None)"

definition routed_tier :: "(rat \<Rightarrow> string) \<Rightarrow> exc_context \<Rightarrow> category_rule \<Rightarrow> taxonomy \<Rightarrow> bool \<Rightarrow> tier \<times> string" where
  "routed_tier txt ctx rule x eligible =
     (case tier4_reason txt ctx rule x of
        Some why \<Rightarrow> (TIER_4_COMPLIANCE, why)
      | None \<Rightarrow>
          if above (ec_amount ctx) (tx_individual x)
          then (TIER_3_SENIOR, ''value above the senior-operations threshold'')
          else if eligible then (TIER_1_AUTO, ''eligible for auto-resolution'')
          else if above (ec_cumulative ctx) (tx_cumulative x)
          then (TIER_3_SENIOR, ''the bank's cumulative value for the day is above the senior-operations threshold'')
          else (cr_tier rule, ''category default tier''))"

text \<open>\<open>aware\<close>: \<open>created_at\<close> carries a timezone. A deadline after the year 9999 cannot
  be represented.\<close>

definition max_instant :: instant where
  "max_instant = max_ordinal * day_micros - 1"

definition route ::
    "(rat \<Rightarrow> string) \<Rightarrow> taxonomy \<Rightarrow> exc_context \<Rightarrow> bool \<Rightarrow> instant \<Rightarrow> decision res" where
  "route txt x ctx aware created =
     (if \<not> aware then Inl ValueError
      else bind_res (rule_for x (ec_category ctx)) (\<lambda>rule.
        let eligible = auto_eligible ctx rule x;
            (t, why) = routed_tier txt ctx rule x eligible;
            deadline = created + cr_sla_minutes rule * minute_micros
        in if max_instant < deadline then Inl OverflowErr
           else Inr \<lparr>d_severity = routed_severity ctx rule x, d_tier = t, d_eligible = eligible,
                     d_sla_minutes = cr_sla_minutes rule, d_deadline = deadline, d_rationale = why\<rparr>))"

definition tier_after_sla_check :: "tier \<Rightarrow> instant \<Rightarrow> instant \<Rightarrow> tier" where
  "tier_after_sla_check current deadline now = (if now \<le> deadline then current else next_tier current)"

section \<open>Routing is monotone in the risk\<close>

text \<open>\<open>c'\<close> is at least as risky as \<open>c\<close>: the same category with larger values, more
  exceptions in the batch, a larger difference and no better evidence. A missing
  value is no risk where it raises a tier and no evidence where it lowers one.\<close>

definition riskier :: "exc_context \<Rightarrow> exc_context \<Rightarrow> bool" where
  "riskier c c' =
     (ec_category c = ec_category c' \<and> ec_amount c \<le> ec_amount c' \<and> ec_cumulative c \<le> ec_cumulative c'
      \<and> ec_variance c \<le> ec_variance c' \<and> ec_batch c \<le> ec_batch c'
      \<and> (case ec_difference c' of None \<Rightarrow> True | Some d' \<Rightarrow> (case ec_difference c of None \<Rightarrow> False | Some d \<Rightarrow> d \<le> d'))
      \<and> (case ec_days c' of None \<Rightarrow> True | Some d' \<Rightarrow> (case ec_days c of None \<Rightarrow> False | Some d \<Rightarrow> d \<le> d'))
      \<and> ec_confidence c' \<le> ec_confidence c)"

lemma above_mono: "\<lbrakk>above v l; v \<le> w\<rbrakk> \<Longrightarrow> above w l"
  by (cases v; cases w) (auto simp: above_def)

lemma eligible_mono: "\<lbrakk>riskier c c'; auto_eligible c' r x\<rbrakk> \<Longrightarrow> auto_eligible c r x"
  by (cases "ec_confidence c"; cases "ec_confidence c'")
     (auto simp: riskier_def auto_eligible_def split: auto_resolvable.splits category.splits option.splits)

definition to_compliance :: "exc_context \<Rightarrow> category_rule \<Rightarrow> taxonomy \<Rightarrow> bool" where
  "to_compliance ctx rule x =
     (cr_tier rule = TIER_4_COMPLIANCE \<or> ec_category ctx = FX_VARIANCE \<and> above (ec_variance ctx) (tx_fx_percent x)
      \<or> tx_systemic x < ec_batch ctx)"

lemma tier4_iff: "tier4_reason txt ctx rule x \<noteq> None \<longleftrightarrow> to_compliance ctx rule x"
  by (auto simp: tier4_reason_def to_compliance_def above_def split: option.splits)

lemma compliance_mono: "\<lbrakk>riskier c c'; to_compliance c r x\<rbrakk> \<Longrightarrow> to_compliance c' r x"
  using above_mono[of "ec_variance c" _ "ec_variance c'"] by (auto simp: riskier_def to_compliance_def)

lemma routed_tier_cases:
  "fst (routed_tier txt ctx rule x el) =
     (if to_compliance ctx rule x then TIER_4_COMPLIANCE
      else if above (ec_amount ctx) (tx_individual x) then TIER_3_SENIOR
      else if el then TIER_1_AUTO
      else if above (ec_cumulative ctx) (tx_cumulative x) then TIER_3_SENIOR else cr_tier rule)"
  using tier4_iff[of "txt" ctx rule x] by (cases "tier4_reason txt ctx rule x") (auto simp: routed_tier_def)

lemma below_tier3: "t \<noteq> TIER_4_COMPLIANCE \<Longrightarrow> t \<le> TIER_3_SENIOR"
  by (cases t) (simp_all add: less_eq_tier_def)

lemma routed_tier_mono:
  assumes "riskier c c'"
  shows "fst (routed_tier txt c r x (auto_eligible c r x)) \<le> fst (routed_tier txt c' r x (auto_eligible c' r x))"
proof -
  have a: "above (ec_amount c) l \<Longrightarrow> above (ec_amount c') l"
    and k: "above (ec_cumulative c) l \<Longrightarrow> above (ec_cumulative c') l" for l
    using assms above_mono by (auto simp: riskier_def)
  have "\<not> to_compliance c r x \<Longrightarrow> cr_tier r \<le> TIER_3_SENIOR"
    using below_tier3 by (auto simp: to_compliance_def)
  then show ?thesis
    unfolding routed_tier_cases using a k eligible_mono[OF assms] compliance_mono[OF assms] by auto
qed

lemma severity_mono: "riskier c c' \<Longrightarrow> routed_severity c r x \<le> routed_severity c' r x"
  using above_mono[of "ec_amount c" _ "ec_amount c'"]
  by (cases "cr_severity r") (auto simp: riskier_def routed_severity_def)

lemma route_shape:
  assumes "route txt x ctx aware created = Inr d"
  obtains rule where "rule_for x (ec_category ctx) = Inr rule" "aware"
    "d_tier d = fst (routed_tier txt ctx rule x (auto_eligible ctx rule x))"
    "d_severity d = routed_severity ctx rule x" "d_eligible d = auto_eligible ctx rule x"
    "d_deadline d = created + cr_sla_minutes rule * minute_micros" "d_deadline d \<le> max_instant"
proof -
  obtain rule where r: "rule_for x (ec_category ctx) = Inr rule" and a: "aware"
    using assms by (auto simp: route_def res_iff split: if_splits)
  obtain t why where t: "routed_tier txt ctx rule x (auto_eligible ctx rule x) = (t, why)" by fastforce
  show thesis using assms by (intro that[OF r a]) (auto simp: route_def r t Let_def split: if_splits)
qed

text \<open>C21. Routing never treats a riskier exception more leniently: with larger values, a
  larger batch or weaker evidence neither the tier nor the severity goes down. Nothing
  above the individual threshold is auto-resolved, whatever its category, and it is
  CRITICAL; a compliance category always goes to compliance.\<close>

theorem routing_monotone:
  assumes "route txt x c True created = Inr d" "route txt x c' True created = Inr d'" "riskier c c'"
    "rule_for x (ec_category c) = Inr rule"
  shows "d_tier d \<le> d_tier d' \<and> d_severity d \<le> d_severity d' \<and> d_deadline d = d_deadline d'
     \<and> (above (ec_amount c) (tx_individual x) \<longrightarrow> TIER_3_SENIOR \<le> d_tier d \<and> d_severity d = CRITICAL)
     \<and> (cr_tier rule = TIER_4_COMPLIANCE \<longrightarrow> d_tier d = TIER_4_COMPLIANCE)
     \<and> (d_tier d = TIER_1_AUTO \<longrightarrow> auto_eligible c rule x \<or> cr_tier rule = TIER_1_AUTO)"
proof -
  have r: "d_tier d = fst (routed_tier txt c rule x (auto_eligible c rule x))"
    "d_severity d = routed_severity c rule x" "d_deadline d = created + cr_sla_minutes rule * minute_micros"
    using route_shape[OF assms(1)] assms(4) by (metis sum.inject(2))+
  have "rule_for x (ec_category c') = Inr rule" using assms(3,4) by (simp add: riskier_def)
  then have r': "d_tier d' = fst (routed_tier txt c' rule x (auto_eligible c' rule x))"
    "d_severity d' = routed_severity c' rule x" "d_deadline d' = created + cr_sla_minutes rule * minute_micros"
    using route_shape[OF assms(2)] by (metis sum.inject(2))+
  have "d_tier d \<le> d_tier d'" unfolding r r' by (rule routed_tier_mono[OF assms(3)])
  moreover have "d_severity d \<le> d_severity d'" unfolding r r' by (rule severity_mono[OF assms(3)])
  moreover have "above (ec_amount c) (tx_individual x) \<Longrightarrow> TIER_3_SENIOR \<le> d_tier d \<and> d_severity d = CRITICAL"
    unfolding r routed_tier_cases by (cases "cr_severity rule") (simp_all add: routed_severity_def)
  moreover have "cr_tier rule = TIER_4_COMPLIANCE \<Longrightarrow> d_tier d = TIER_4_COMPLIANCE"
    unfolding r routed_tier_cases by (simp add: to_compliance_def)
  moreover have "d_tier d = TIER_1_AUTO \<Longrightarrow> auto_eligible c rule x \<or> cr_tier rule = TIER_1_AUTO"
    unfolding r routed_tier_cases by (simp split: if_splits)
  ultimately show ?thesis using r(3) r'(3) by simp
qed

section \<open>Witness\<close>

definition sample_category_rule :: "category \<Rightarrow> category_rule" where
  "sample_category_rule c =
     \<lparr>cr_category = c, cr_auto = (if c = AMOUNT_MISMATCH \<or> c = DATE_MISMATCH then CONDITIONAL
                              else if c = DUPLICATE_INTERNAL then ALWAYS else NEVER),
      cr_sla_minutes = 120, cr_severity = MEDIUM,
      cr_tier = (if c = REGULATORY_HOLD then TIER_4_COMPLIANCE else TIER_2_ANALYST)\<rparr>"

definition sample_taxonomy :: taxonomy where
  "sample_taxonomy =
     \<lparr>tx_version = ''taxonomy.v1'', tx_individual = 100000000, tx_cumulative = 1000000000,
      tx_max_difference = 1, tx_max_days = 1, tx_min_confidence = 85 / 100, tx_fx_percent = 3,
      tx_systemic = 50, tx_detection = default_detection, tx_rules = map sample_category_rule all_categories\<rparr>"

definition sample_context :: "category \<Rightarrow> int \<Rightarrow> int \<Rightarrow> exc_context" where
  "sample_context c amount difference =
     \<lparr>ec_category = c, ec_amount = Some amount, ec_cumulative = None, ec_difference = Some difference,
      ec_days = None, ec_confidence = None, ec_variance = None, ec_batch = 3\<rparr>"

lemma sample_taxonomy_ok: "load_taxonomy sample_taxonomy = Inr sample_taxonomy"
  by code_simp

theorem routing_monotone_witness:
  "\<exists>d d'. route (\<lambda>_. []) sample_taxonomy (sample_context AMOUNT_MISMATCH 500 1) True 0 = Inr d
     \<and> route (\<lambda>_. []) sample_taxonomy (sample_context AMOUNT_MISMATCH 200000000 5) True 0 = Inr d'
     \<and> d_tier d = TIER_1_AUTO \<and> d_tier d \<le> d_tier d'"
proof -
  let ?c = "sample_context AMOUNT_MISMATCH 500 1" and ?c' = "sample_context AMOUNT_MISMATCH 200000000 5"
  have r: "rule_for sample_taxonomy AMOUNT_MISMATCH = Inr (sample_category_rule AMOUNT_MISMATCH)"
    by (simp add: rule_for_def sample_taxonomy_def all_categories_def sample_category_rule_def)
  note defs = route_def r sample_context_def routed_tier_def tier4_reason_def above_def sample_taxonomy_def
    sample_category_rule_def max_instant_def minute_micros_def day_micros_def max_ordinal_def auto_eligible_def
  have 1: "\<exists>d. route (\<lambda>_. []) sample_taxonomy ?c True 0 = Inr d \<and> d_tier d = TIER_1_AUTO"
    using r by (simp add: defs)
  have 2: "\<exists>d'. route (\<lambda>_. []) sample_taxonomy ?c' True 0 = Inr d'"
    using r by (simp add: defs)
  have "riskier ?c ?c'" by (simp add: riskier_def sample_context_def)
  moreover have "rule_for sample_taxonomy (ec_category ?c) = Inr (sample_category_rule AMOUNT_MISMATCH)"
    using r by (simp add: sample_context_def)
  ultimately show ?thesis using 1 2 routing_monotone by blast
qed

end
