(* ===== verification/Exceptions.thy ===== *)
theory Exceptions
  imports LedgerSteps Routing
begin

text \<open>
  Stored exceptions (\<open>src/recon/persistence/models/exceptions.py\<close>,
  \<open>models/adjustments.py\<close>): their rows and events with the constraints of the
  tables, the world of a session (ledger, exceptions, events, adjustments), and
  the invariant and the forward order of exceptions. The second half gives the
  interface of an operation on this world, \<open>world_op\<close>. The JSON column
  \<open>affected_records\<close> is a datatype with one constructor per shape the classifier
  builds, and its JSON text. Decimal impact amounts are not stored, their minor
  units are.
\<close>

section \<open>Rows\<close>

datatype exc_status = OPEN | IN_REVIEW | ESCALATED | RESOLVED | WRITTEN_OFF | REOPENED

definition exc_status_text :: "exc_status \<Rightarrow> string" where
  "exc_status_text s =
     (case s of OPEN \<Rightarrow> ''OPEN'' | IN_REVIEW \<Rightarrow> ''IN_REVIEW'' | ESCALATED \<Rightarrow> ''ESCALATED''
      | RESOLVED \<Rightarrow> ''RESOLVED'' | WRITTEN_OFF \<Rightarrow> ''WRITTEN_OFF'' | REOPENED \<Rightarrow> ''REOPENED'')"

definition still_open :: "exc_status \<Rightarrow> bool" where
  "still_open s = (s \<in> {OPEN, IN_REVIEW, ESCALATED, REOPENED})"

datatype affected =
    Pair_of nat nat "nat option" bool "(string \<times> json) list"
  | Single_of nat category
  | Copy_of nat nat bool
  | Group_of nat "nat list" nat "nat list"
  | Raw_row nat "int option"
  | File_rows nat "int option list"

definition id_json :: "nat \<Rightarrow> json" where
  "id_json i = JStr (uuid_str i)"

definition line_json :: "int option \<Rightarrow> json" where
  "line_json l = (case l of None \<Rightarrow> JNull | Some n \<Rightarrow> JInt n)"

fun affected_json :: "affected \<Rightarrow> (string \<times> json) list" where
  "affected_json (Pair_of i e mid already details) =
     [(''internal_transaction_id'', id_json i), (''external_transaction_id'', id_json e)]
     @ (case mid of None \<Rightarrow> [] | Some m \<Rightarrow> [(''match_result_id'', id_json m)])
     @ (if already then [(''already_matched'', JBool True)] else [])
     @ (if details = [] then [] else [(''details'', JObj details)])"
| "affected_json (Single_of i missing) =
     [(''normalised_transaction_ids'', JList [id_json i]), (''missing_side'', JStr (category_text missing))]"
| "affected_json (Copy_of copy original same) =
     [(''normalised_transaction_ids'', JList [id_json copy]), (''original_transaction_id'', id_json original),
      (''same_ingestion_file'', JBool same)]"
| "affected_json (Group_of g rids single members) =
     [(''match_group_id'', id_json g), (''match_result_ids'', JList (map id_json rids)),
      (''single_transaction_id'', id_json single), (''member_transaction_ids'', JList (map id_json members)),
      (''already_matched'', JBool True)]"
| "affected_json (Raw_row r line) =
     [(''raw_transaction_ids'', JList [id_json r]), (''line_numbers'', JList [line_json line])]"
| "affected_json (File_rows n lines) =
     [(''total_count'', JInt (int n)), (''sample_line_numbers'', JList (map line_json lines))]"

record exc =
  x_id :: nat
  x_key :: string
  x_category :: category
  x_severity :: severity
  x_status :: exc_status
  x_tier :: tier
  x_assigned :: "string option"
  x_bank :: string
  x_run :: "string option"
  x_file :: "nat option"
  x_affected :: affected
  x_currency :: "string option"
  x_inr :: "int option"
  x_suggested :: string
  x_rationale :: string
  x_created :: instant
  x_deadline :: instant
  x_breached :: "instant option"
  x_resolved_at :: "instant option"
  x_resolved_by :: "string option"
  x_details :: "string option"

datatype event_type = CREATED_EVENT | ESCALATED_EVENT | SLA_BREACHED_EVENT | ASSIGNED_EVENT | RESOLVED_EVENT
  | REOPENED_EVENT | OVERRIDDEN_EVENT

record exc_event =
  ev_exception :: nat
  ev_type :: event_type
  ev_from :: "tier option"
  ev_to :: "tier option"
  ev_actor :: string
  ev_detail :: string
  ev_at :: instant

record adjustment =
  aj_exception :: nat
  aj_bank :: string
  aj_internal :: nat
  aj_external :: nat
  aj_amount :: int
  aj_currency :: string
  aj_rationale :: string
  aj_by :: string
  aj_at :: instant

record world =
  w_db :: db
  w_excs :: "exc list"
  w_events :: "exc_event list"
  w_adjustments :: "adjustment list"
  w_next :: nat

section \<open>Writes\<close>

text \<open>Inserting an exception is refused on a second row with its dedupe key. The new
  exception's id is the next of its own supply.\<close>

definition add_exception :: "exc \<Rightarrow> world \<Rightarrow> world res" where
  "add_exception x w =
     (if x_key x \<in> x_key ` set (w_excs w) then Inl IntegrityError
      else Inr (w\<lparr>w_excs := w_excs w @ [x\<lparr>x_id := w_next w\<rparr>], w_next := w_next w + 1\<rparr>))"

definition add_event :: "exc_event \<Rightarrow> world \<Rightarrow> world" where
  "add_event ev w = w\<lparr>w_events := w_events w @ [ev]\<rparr>"

definition add_adjustment :: "adjustment \<Rightarrow> world \<Rightarrow> world res" where
  "add_adjustment a w =
     (if aj_exception a \<in> aj_exception ` set (w_adjustments w) \<or> aj_amount a \<le> 0 then Inl IntegrityError
      else Inr (w\<lparr>w_adjustments := w_adjustments w @ [a]\<rparr>))"

definition update_exception :: "nat \<Rightarrow> (exc \<Rightarrow> exc) \<Rightarrow> world \<Rightarrow> world" where
  "update_exception i f w = w\<lparr>w_excs := map (\<lambda>x. if x_id x = i then f x else x) (w_excs w)\<rparr>"

definition world_audit ::
    "(string \<Rightarrow> string) \<Rightarrow> string \<Rightarrow> string \<Rightarrow> audit_action \<Rightarrow> json \<Rightarrow> string \<Rightarrow> instant
     \<Rightarrow> json \<Rightarrow> json \<Rightarrow> world \<Rightarrow> world res" where
  "world_audit sha atype actor action affected why now before after w =
     bind_res (append_audit sha exceptions_chain atype actor action affected why now before after (w_db w))
       (\<lambda>db. Inr (w\<lparr>w_db := db\<rparr>))"

section \<open>The invariant and the forward order\<close>

definition closed :: "exc \<Rightarrow> bool" where
  "closed x = (\<not> still_open (x_status x))"

definition exc_ok :: "exc \<Rightarrow> bool" where
  "exc_ok x = (closed x \<longrightarrow> x_resolved_at x \<noteq> None \<and> x_resolved_by x \<noteq> None)"

definition store_ok :: "world \<Rightarrow> bool" where
  "store_ok w =
     (distinct (map x_id (w_excs w)) \<and> distinct (map x_key (w_excs w))
      \<and> (\<forall>x \<in> set (w_excs w). x_id x < w_next w \<and> exc_ok x)
      \<and> (\<forall>ev \<in> set (w_events w). ev_exception ev \<in> x_id ` set (w_excs w))
      \<and> distinct (map aj_exception (w_adjustments w))
      \<and> (\<forall>a \<in> set (w_adjustments w). aj_exception a \<in> x_id ` set (w_excs w) \<and> 0 < aj_amount a))"

text \<open>How an exception may change: its identity and routing facts stay, its tier never
  goes down, a breach is stamped once, and what is closed does not change.\<close>

definition forward :: "exc \<Rightarrow> exc \<Rightarrow> bool" where
  "forward x y =
     (x_id y = x_id x \<and> x_key y = x_key x \<and> x_category y = x_category x \<and> x_severity y = x_severity x
      \<and> x_bank y = x_bank x \<and> x_affected y = x_affected x \<and> x_created y = x_created x \<and> x_deadline y = x_deadline x
      \<and> x_tier x \<le> x_tier y \<and> (x_breached x \<noteq> None \<longrightarrow> x_breached y = x_breached x)
      \<and> (closed x \<longrightarrow> y = x) \<and> (exc_ok x \<longrightarrow> exc_ok y))"

lemma forward_refl [simp]: "forward x x"
  by (simp add: forward_def)

lemma forward_trans: "\<lbrakk>forward x y; forward y z\<rbrakk> \<Longrightarrow> forward x z"
  by (auto simp: forward_def)

lemma forward_closed: "\<lbrakk>forward x y; closed x\<rbrakk> \<Longrightarrow> y = x"
  by (simp add: forward_def)

definition goes_on :: "world \<Rightarrow> world \<Rightarrow> bool" where
  "goes_on w w' =
     ((\<exists>old new. w_excs w' = old @ new \<and> list_all2 forward (w_excs w) old)
      \<and> (\<exists>evs. w_events w' = w_events w @ evs)
      \<and> (\<exists>ajs. w_adjustments w' = w_adjustments w @ ajs)
      \<and> ledger_step\<^sup>*\<^sup>* (w_db w) (w_db w')
      \<and> (store_ok w \<longrightarrow> store_ok w'))"

lemma all2_forward [simp]: "list_all2 forward xs xs"
  by (simp add: list_all2_refl)

lemma goes_on_refl [simp]: "goes_on w w"
  unfolding goes_on_def by (intro conjI exI[of _ "w_excs w"] exI[of _ "[]"]) simp_all

lemma goes_on_trans:
  assumes "goes_on w1 w2" "goes_on w2 w3"
  shows "goes_on w1 w3"
proof -
  obtain o1 n1 where 1: "w_excs w2 = o1 @ n1" "list_all2 forward (w_excs w1) o1"
    using assms(1) unfolding goes_on_def by blast
  obtain o2 n2 where 2: "w_excs w3 = o2 @ n2" "list_all2 forward (o1 @ n1) o2"
    using assms(2) 1(1) unfolding goes_on_def by metis
  obtain a b where ab: "o2 = a @ b" "list_all2 forward o1 a" using 2(2) by (auto simp: list_all2_append1)
  have "list_all2 forward (w_excs w1) a"
    using list_all2_trans[of forward forward forward, OF _ 1(2) ab(2)] forward_trans by blast
  then have "\<exists>old new. w_excs w3 = old @ new \<and> list_all2 forward (w_excs w1) old"
    using 2(1) ab(1) by (intro exI[of _ a] exI[of _ "b @ n2"]) simp
  moreover have "\<exists>evs. w_events w3 = w_events w1 @ evs" "\<exists>ajs. w_adjustments w3 = w_adjustments w1 @ ajs"
    using assms unfolding goes_on_def by (metis append.assoc)+
  moreover have "ledger_step\<^sup>*\<^sup>* (w_db w1) (w_db w3)"
    using assms unfolding goes_on_def by (meson rtranclp_trans)
  ultimately show ?thesis using assms unfolding goes_on_def by blast
qed

section \<open>The writes go on\<close>

lemma goes_onI:
  assumes "w_excs w' = old @ new" "list_all2 forward (w_excs w) old" "w_events w' = w_events w @ evs"
    "w_adjustments w' = w_adjustments w @ ajs" "ledger_step\<^sup>*\<^sup>* (w_db w) (w_db w')" "store_ok w \<Longrightarrow> store_ok w'"
  shows "goes_on w w'"
  unfolding goes_on_def using assms by blast

lemma goes_on_db: "ledger_step (w_db w) db' \<Longrightarrow> goes_on w (w\<lparr>w_db := db'\<rparr>)"
  by (rule goes_onI[where old = "w_excs w" and new = "[]" and evs = "[]" and ajs = "[]"]) (auto simp: store_ok_def)

lemma goes_on_audit:
  assumes "world_audit sha atype actor action affected why now before after w = Inr w'"
  shows "goes_on w w' \<and> w_excs w' = w_excs w \<and> w_events w' = w_events w \<and> w_adjustments w' = w_adjustments w"
proof -
  obtain db' where a: "append_audit sha exceptions_chain atype actor action affected why now before after (w_db w) = Inr db'"
    and w': "w' = w\<lparr>w_db := db'\<rparr>" using assms by (auto simp: world_audit_def res_iff)
  show ?thesis unfolding w' using goes_on_db[OF ledger_step.entry[OF a]] by simp
qed

lemma goes_on_event: "ev_exception ev \<in> x_id ` set (w_excs w) \<Longrightarrow> goes_on w (add_event ev w)"
  by (rule goes_onI[where old = "w_excs w" and new = "[]" and evs = "[ev]" and ajs = "[]"])
     (auto simp: store_ok_def add_event_def simp del: image_iff)

lemma goes_on_adjustment:
  assumes "add_adjustment a w = Inr w'" "aj_exception a \<in> x_id ` set (w_excs w)"
  shows "goes_on w w' \<and> w_excs w' = w_excs w"
proof -
  have w': "w' = w\<lparr>w_adjustments := w_adjustments w @ [a]\<rparr>" "0 < aj_amount a"
    "aj_exception a \<notin> aj_exception ` set (w_adjustments w)"
    using assms(1) by (auto simp: add_adjustment_def split: if_splits)
  have "goes_on w w'"
    by (rule goes_onI[where old = "w_excs w" and new = "[]" and evs = "[]" and ajs = "[a]"])
       (use w' assms(2) in \<open>auto simp: store_ok_def simp del: image_iff\<close>)
  then show ?thesis by (simp add: w'(1))
qed

lemma update_ids:
  assumes "\<And>x. x_id (f x) = x_id x"
  shows "x_id ` set (w_excs (update_exception i f w)) = x_id ` set (w_excs w)"
proof -
  have "map x_id (w_excs (update_exception i f w)) = map x_id (w_excs w)"
    using assms by (simp add: update_exception_def)
  then show ?thesis by (metis list.set_map)
qed

lemma forward_update:
  assumes "\<And>x. x \<in> set xs \<Longrightarrow> x_id x = i \<Longrightarrow> forward x (f x)"
  shows "list_all2 forward xs (map (\<lambda>x. if x_id x = i then f x else x) xs)"
  using assms by (auto simp: list_all2_map2 list_all2_same)

lemma all2_forward_map:
  assumes "list_all2 forward xs ys"
  shows "map x_id ys = map x_id xs \<and> map x_key ys = map x_key xs
     \<and> (list_all exc_ok xs \<longrightarrow> list_all exc_ok ys)"
  using assms by (induction rule: list_all2_induct) (auto simp: forward_def)

lemma goes_on_update:
  assumes "\<And>x. x \<in> set (w_excs w) \<Longrightarrow> x_id x = i \<Longrightarrow> forward x (f x)"
  shows "goes_on w (update_exception i f w)"
proof -
  define ys where "ys = map (\<lambda>x. if x_id x = i then f x else x) (w_excs w)"
  have l: "list_all2 forward (w_excs w) ys" unfolding ys_def by (rule forward_update[OF assms])
  note m = all2_forward_map[OF l]
  have ids: "x_id ` set ys = x_id ` set (w_excs w)" using m by (metis list.set_map)
  have e: "w_excs (update_exception i f w) = ys" "w_events (update_exception i f w) = w_events w"
    "w_next (update_exception i f w) = w_next w" "w_adjustments (update_exception i f w) = w_adjustments w"
    "w_db (update_exception i f w) = w_db w"
    by (simp_all add: update_exception_def ys_def)
  have "store_ok (update_exception i f w)" if ok: "store_ok w"
  proof -
    note k = ok[unfolded store_ok_def]
    have "list_all exc_ok ys" using m k by (simp add: list_all_iff)
    moreover have "x_id x < w_next w" if "x \<in> set ys" for x
    proof -
      have "x_id x \<in> x_id ` set (w_excs w)" using that ids by blast
      then show ?thesis using k by auto
    qed
    ultimately show ?thesis unfolding store_ok_def e ids using k m by (simp add: list_all_iff)
  qed
  then show ?thesis
    by (intro goes_onI[where old = ys and new = "[]" and evs = "[]" and ajs = "[]"]) (use l e in simp_all)
qed

lemma goes_on_add:
  assumes "add_exception x w = Inr w'" "exc_ok x"
  shows "goes_on w w' \<and> w_excs w' = w_excs w @ [x\<lparr>x_id := w_next w\<rparr>] \<and> w_db w' = w_db w"
proof -
  have w': "w' = w\<lparr>w_excs := w_excs w @ [x\<lparr>x_id := w_next w\<rparr>], w_next := w_next w + 1\<rparr>"
    and k: "x_key x \<notin> x_key ` set (w_excs w)"
    using assms(1) by (auto simp: add_exception_def split: if_splits)
  have "store_ok w'" if ok: "store_ok w"
  proof -
    have "w_next w \<notin> x_id ` set (w_excs w)" using ok unfolding store_ok_def by fastforce
    moreover have "exc_ok (x\<lparr>x_id := w_next w\<rparr>)" using assms(2) by (simp add: exc_ok_def closed_def)
    ultimately show ?thesis using ok k unfolding store_ok_def w'
      by (simp add: less_Suc_eq)
  qed
  then show ?thesis using w'
    by (intro conjI goes_onI[where old = "w_excs w" and new = "[x\<lparr>x_id := w_next w\<rparr>]" and evs = "[]" and ajs = "[]"])
       simp_all
qed

lemma goes_on_ids: "goes_on w w' \<Longrightarrow> x_id ` set (w_excs w) \<subseteq> x_id ` set (w_excs w')"
proof -
  assume "goes_on w w'"
  then obtain old new where "w_excs w' = old @ new" "list_all2 forward (w_excs w) old" unfolding goes_on_def by blast
  moreover from this(2) have "x_id ` set old = x_id ` set (w_excs w)" using all2_forward_map by (metis list.set_map)
  ultimately show ?thesis by auto
qed

section \<open>The interface of an operation\<close>

text \<open>\<open>act\<close> handles one item; \<open>view\<close> finds the world in its state (a counter may ride
  along). It goes on when the item is \<open>ready\<close>, and leaves independent items ready, so
  a loop over independent items goes on.\<close>

locale world_op =
  fixes act :: "'a \<Rightarrow> 's \<Rightarrow> 's res" and view :: "'s \<Rightarrow> world"
    and ready :: "'a \<Rightarrow> world \<Rightarrow> bool" and indep :: "'a \<Rightarrow> 'a \<Rightarrow> bool"
  assumes act_goes: "\<lbrakk>act a s = Inr s'; ready a (view s); store_ok (view s)\<rbrakk> \<Longrightarrow> goes_on (view s) (view s')"
    and act_ready: "\<lbrakk>act a s = Inr s'; ready a (view s); store_ok (view s); ready b (view s); indep a b\<rbrakk>
      \<Longrightarrow> ready b (view s')"
begin

lemma loop_goes:
  "\<lbrakk>loop_res act as s = Inr s'; list_all (\<lambda>a. ready a (view s)) as; sorted_wrt indep as; store_ok (view s)\<rbrakk>
   \<Longrightarrow> goes_on (view s) (view s')"
proof (induction "as" arbitrary: s)
  case (Cons a as)
  then obtain t where t: "act a s = Inr t" "loop_res act as t = Inr s'" by (auto simp: res_iff)
  have r: "ready a (view s)" using Cons.prems(2) by simp
  have g: "goes_on (view s) (view t)" by (rule act_goes[OF t(1) r Cons.prems(4)])
  then have "store_ok (view t)" using Cons.prems(4) unfolding goes_on_def by blast
  moreover have "list_all (\<lambda>b. ready b (view t)) as"
    using act_ready[OF t(1) r Cons.prems(4)] Cons.prems(2,3) by (auto simp: list_all_iff)
  ultimately have "goes_on (view t) (view s')" using Cons.IH[OF t(2)] Cons.prems(3) by simp
  then show ?case using g goes_on_trans by blast
qed simp

end

text \<open>Items are rows: independent when their ids differ.\<close>

definition other_exc :: "exc \<Rightarrow> exc \<Rightarrow> bool" where
  "other_exc x y = (x_id x \<noteq> x_id y)"

lemma sorted_other: "sorted_wrt other_exc xs \<longleftrightarrow> distinct (map x_id xs)"
  by (induction xs) (auto simp: other_exc_def)

lemma stored_unique:
  "\<lbrakk>store_ok w; x \<in> set (w_excs w); y \<in> set (w_excs w); x_id x = x_id y\<rbrakk> \<Longrightarrow> x = y"
  using distinct_map_inj[of x_id "w_excs w"] by (auto simp: store_ok_def)

lemma update_other: "\<lbrakk>y \<in> set (w_excs w); x_id y \<noteq> i\<rbrakk> \<Longrightarrow> y \<in> set (w_excs (update_exception i f w))"
  by (force simp: update_exception_def)

lemma distinct_sorted_filter:
  "distinct (map x_id xs) \<Longrightarrow> distinct (map x_id (sort_key k (filter P xs)))"
proof -
  assume "distinct (map x_id xs)"
  then have "distinct (map x_id (filter P xs))" by (rule distinct_map_filter)
  then show ?thesis by (metis distinct_map distinct_sort set_sort)
qed

end
