(* ===== verification/Escalation.thy ===== *)
theory Escalation
  imports Exceptions
begin

text \<open>
  What happens to stored exceptions after they are created: the automatic resolver
  (\<open>src/recon/excmgmt/autoresolve/resolver.py\<close>), the assignment of queues and the
  sequence of the three steps (\<open>excmgmt/escalation.py\<close>), the SLA scanner
  (\<open>excmgmt/sla.py\<close>). \<open>say\<close> is the text of an exception raised by the claims or the
  review service. Rows locked by another session would be skipped; a step of the
  model runs alone.
\<close>

section \<open>Automatic resolution\<close>

definition rule_by_category :: "category \<Rightarrow> string option" where
  "rule_by_category c =
     (case c of AMOUNT_MISMATCH \<Rightarrow> Some ''AMOUNT_TOLERANCE_AUTO'' | DATE_MISMATCH \<Rightarrow> Some ''DATE_OFFSET_AUTO''
      | TIMEZONE_OFFSET \<Rightarrow> Some ''TIMEZONE_DATE_ADJUSTED'' | REFERENCE_TRUNCATED \<Rightarrow> Some ''REFERENCE_PREFIX_REMATCH''
      | FEE_DEDUCTION \<Rightarrow> Some ''FEE_DEDUCTION_ADJUSTED'' | _ \<Rightarrow> None)"

definition lift_db :: "(db \<Rightarrow> (string \<times> db) res) \<Rightarrow> world \<Rightarrow> (string \<times> world) res" where
  "lift_db f w = bind_res (f (w_db w)) (\<lambda>(how, db). Inr (how, w\<lparr>w_db := db\<rparr>))"

definition post_fee :: "exc \<Rightarrow> txn \<Rightarrow> txn \<Rightarrow> instant \<Rightarrow> world \<Rightarrow> (string \<times> world) res" where
  "post_fee x i e now w =
     (let fee = \<bar>t_amount_minor i - t_amount_minor e\<bar> in
      bind_res (add_adjustment
          \<lparr>aj_exception = x_id x, aj_bank = x_bank x, aj_internal = t_id i, aj_external = t_id e, aj_amount = fee,
           aj_currency = t_currency i,
           aj_rationale = ''Bank fee of '' @ int_str fee @ '' minor units matches the published fee schedule.'',
           aj_by = auto_actor, aj_at = now\<rparr> w)
        (\<lambda>w'. Inr (''posted a '' @ int_str fee @ '' minor-unit bank-fee adjustment'', w')))"

definition act_on_pair ::
    "(string \<Rightarrow> string) \<Rightarrow> exc \<Rightarrow> string \<Rightarrow> instant \<Rightarrow> world \<Rightarrow> (string \<times> world) res" where
  "act_on_pair sha x rule now w =
     (case x_affected x of
        Pair_of i e mid already details \<Rightarrow>
          bind_res (auto_txn (w_db w) i) (\<lambda>ti.
          bind_res (auto_txn (w_db w) e) (\<lambda>te.
          bind_res (lift_db (settle_pair sha mid ti te rule (x_rationale x) now) w) (\<lambda>(how, w1).
            if x_category x = FEE_DEDUCTION
            then bind_res (post_fee x ti te now w1) (\<lambda>(fee, w2). Inr (how @ ''; '' @ fee, w2))
            else Inr (how, w1))))
      | _ \<Rightarrow> Inl KeyError)"

definition resolver_act ::
    "(string \<Rightarrow> string) \<Rightarrow> exc \<Rightarrow> instant \<Rightarrow> world \<Rightarrow> (string \<times> world) res" where
  "resolver_act sha x now w =
     (if x_category x = DUPLICATE_INTERNAL then
        (case x_affected x of
           Copy_of copy original same \<Rightarrow> lift_db (void_duplicate copy original) w
         | Single_of i missing \<Rightarrow> bind_res (auto_txn (w_db w) i) (\<lambda>_. Inl KeyError)
         | _ \<Rightarrow> Inl KeyError)
      else if x_category x = PARTIAL_MATCH \<or> x_category x = NETTED_SETTLEMENT
      then Inr (''the group matched on an exact sum; nothing further to do'', w)
      else case rule_by_category (x_category x) of
          None \<Rightarrow> Inl (NotAutoResolvableError (category_text (x_category x) @ '' has no automatic action''))
        | Some rule \<Rightarrow> act_on_pair sha x rule now w)"

definition state_json :: "exc_status \<Rightarrow> tier \<Rightarrow> json" where
  "state_json s t = JObj [(''status'', JStr (exc_status_text s)), (''tier'', JInt (int (tier_no t)))]"

definition resolver_event :: "exc \<Rightarrow> event_type \<Rightarrow> tier \<Rightarrow> string \<Rightarrow> instant \<Rightarrow> exc_event" where
  "resolver_event x ty t detail now =
     \<lparr>ev_exception = x_id x, ev_type = ty, ev_from = Some TIER_1_AUTO, ev_to = Some t, ev_actor = auto_actor,
      ev_detail = detail, ev_at = now\<rparr>"

definition mark_resolved :: "string \<Rightarrow> instant \<Rightarrow> exc \<Rightarrow> exc" where
  "mark_resolved detail now x =
     x\<lparr>x_status := RESOLVED, x_resolved_at := Some now, x_resolved_by := Some auto_actor, x_details := Some detail\<rparr>"

definition resolve_exc :: "(string \<Rightarrow> string) \<Rightarrow> exc \<Rightarrow> string \<Rightarrow> instant \<Rightarrow> world \<Rightarrow> world res" where
  "resolve_exc sha x detail now w =
     world_audit sha ''SYSTEM'' ''auto-resolver'' RESOLVE
       (JObj ((''exception_id'', id_json (x_id x)) # affected_json (x_affected x)))
       (category_text (x_category x) @ '': '' @ detail) now
       (state_json (x_status x) (x_tier x)) (state_json RESOLVED (x_tier x))
       (add_event (resolver_event x RESOLVED_EVENT TIER_1_AUTO (''auto-resolved: '' @ detail) now)
          (update_exception (x_id x) (mark_resolved detail now) w))"

definition to_tier2 :: "exc \<Rightarrow> exc" where
  "to_tier2 x = x\<lparr>x_tier := TIER_2_ANALYST\<rparr>"

definition escalate_exc :: "(string \<Rightarrow> string) \<Rightarrow> exc \<Rightarrow> string \<Rightarrow> instant \<Rightarrow> world \<Rightarrow> world res" where
  "escalate_exc sha x reason now w =
     world_audit sha ''SYSTEM'' ''auto-resolver'' ESCALATE (JObj [(''exception_id'', id_json (x_id x))])
       (''auto-resolution not possible: '' @ reason) now
       (state_json (x_status x) (x_tier x)) (state_json (x_status x) TIER_2_ANALYST)
       (add_event (resolver_event x ESCALATED_EVENT TIER_2_ANALYST (''auto-resolution not possible: '' @ reason) now)
          (update_exception (x_id x) to_tier2 w))"

text \<open>The errors \<open>run\<close> catches; any other ends the whole run.\<close>

definition caught :: "error \<Rightarrow> bool" where
  "caught e =
     (case e of NotAutoResolvableError _ \<Rightarrow> True | ClaimConflictError \<Rightarrow> True | MatchNotFoundError \<Rightarrow> True
      | MatchNotPendingError \<Rightarrow> True | ReviewStateError \<Rightarrow> True | _ \<Rightarrow> False)"

definition reason_of :: "(error \<Rightarrow> string) \<Rightarrow> error \<Rightarrow> string" where
  "reason_of say e = (case e of NotAutoResolvableError m \<Rightarrow> m | _ \<Rightarrow> say e)"

record resolve_outcome =
  ro_resolved :: nat
  ro_escalated :: nat
  ro_by_category :: "(category \<times> nat) list"

definition count_up :: "'k \<Rightarrow> ('k \<times> nat) list \<Rightarrow> ('k \<times> nat) list" where
  "count_up k d = dict_put k (dict_get 0 k d + 1) d"

text \<open>One exception. The action runs in a savepoint: an error leaves the world as it was.\<close>

definition resolve_one ::
    "(string \<Rightarrow> string) \<Rightarrow> (error \<Rightarrow> string) \<Rightarrow> instant \<Rightarrow> exc \<Rightarrow> resolve_outcome \<times> world
     \<Rightarrow> (resolve_outcome \<times> world) res" where
  "resolve_one sha say now x s =
     (case s of (out, w) \<Rightarrow>
        (case resolver_act sha x now w of
           Inl e \<Rightarrow>
             if caught e
             then bind_res (escalate_exc sha x (reason_of say e) now w) (\<lambda>w'.
                    Inr (out\<lparr>ro_escalated := ro_escalated out + 1\<rparr>, w'))
             else Inl e
         | Inr (detail, w1) \<Rightarrow>
             bind_res (resolve_exc sha x detail now w1) (\<lambda>w'.
               Inr (out\<lparr>ro_resolved := ro_resolved out + 1,
                        ro_by_category := count_up (x_category x) (ro_by_category out)\<rparr>, w'))))"

definition due_for :: "string \<Rightarrow> string option \<Rightarrow> exc \<Rightarrow> bool" where
  "due_for bank run x =
     (x_bank x = bank \<and> x_status x = OPEN \<and> x_tier x = TIER_1_AUTO
      \<and> (case run of None \<Rightarrow> True | Some r \<Rightarrow> x_run x = Some r))"

definition resolver_due :: "string \<Rightarrow> string option \<Rightarrow> world \<Rightarrow> exc list" where
  "resolver_due bank run w =
     sort_key (\<lambda>x. (x_created x, x_id x)) (filter (due_for bank run) (w_excs w))"

definition auto_resolve ::
    "(string \<Rightarrow> string) \<Rightarrow> (error \<Rightarrow> string) \<Rightarrow> string \<Rightarrow> instant \<Rightarrow> string option \<Rightarrow> world
     \<Rightarrow> (resolve_outcome \<times> world) res" where
  "auto_resolve sha say bank now run w =
     loop_res (resolve_one sha say now) (resolver_due bank run w)
       (\<lparr>ro_resolved = 0, ro_escalated = 0, ro_by_category = []\<rparr>, w)"

section \<open>Queues\<close>

definition unassigned :: "string \<Rightarrow> tier \<Rightarrow> exc \<Rightarrow> bool" where
  "unassigned bank t x = (x_bank x = bank \<and> still_open (x_status x) \<and> x_tier x = t \<and> x_assigned x = None)"

definition take_queue :: "nat list \<Rightarrow> string \<Rightarrow> exc \<Rightarrow> exc" where
  "take_queue ids queue x = (if x_id x \<in> set ids then x\<lparr>x_assigned := Some queue\<rparr> else x)"

definition assign_event :: "tier \<Rightarrow> string \<Rightarrow> instant \<Rightarrow> nat \<Rightarrow> exc_event" where
  "assign_event t queue now i =
     \<lparr>ev_exception = i, ev_type = ASSIGNED_EVENT, ev_from = Some t, ev_to = Some t,
      ev_actor = ''system:escalation-manager'', ev_detail = ''assigned to '' @ queue, ev_at = now\<rparr>"

definition assign_tier :: "string \<Rightarrow> instant \<Rightarrow> tier \<times> string \<Rightarrow> nat \<times> world \<Rightarrow> (nat \<times> world) res" where
  "assign_tier bank now tq s =
     (case (tq, s) of ((t, queue), (n, w)) \<Rightarrow>
        (let ids = map x_id (filter (unassigned bank t) (w_excs w)) in
         if ids = [] then Inr (n, w)
         else Inr (n + length ids,
                   fold add_event (map (assign_event t queue now) ids)
                     (w\<lparr>w_excs := map (take_queue ids queue) (w_excs w)\<rparr>))))"

definition queue_by_tier :: "(tier \<times> string) list" where
  "queue_by_tier = [(TIER_2_ANALYST, ''queue:analyst''), (TIER_3_SENIOR, ''queue:senior-ops''),
                    (TIER_4_COMPLIANCE, ''queue:compliance'')]"

definition assign_queues :: "string \<Rightarrow> instant \<Rightarrow> world \<Rightarrow> (nat \<times> world) res" where
  "assign_queues bank now w = loop_res (assign_tier bank now) queue_by_tier (0, w)"

section \<open>The SLA scanner\<close>

definition overdue :: "instant \<Rightarrow> exc \<Rightarrow> bool" where
  "overdue now x = (still_open (x_status x) \<and> x_breached x = None \<and> x_deadline x < now)"

definition breach :: "instant \<Rightarrow> exc \<Rightarrow> exc" where
  "breach now x =
     (let t = tier_after_sla_check (x_tier x) (x_deadline x) now in
      if t = x_tier x then x\<lparr>x_breached := Some now\<rparr>
      else x\<lparr>x_breached := Some now, x_tier := t, x_status := ESCALATED,
             x_assigned := (if is_queue (x_assigned x) then queue_for_tier t else x_assigned x)\<rparr>)"

record scan_outcome =
  so_escalated :: nat
  so_top :: nat

definition breach_detail :: "instant \<Rightarrow> exc \<Rightarrow> string" where
  "breach_detail now x =
     (let t = tier_after_sla_check (x_tier x) (x_deadline x) now in
      if t = x_tier x then ''SLA deadline passed at the highest tier.''
      else ''SLA breached; escalated to tier '' @ nat_str (tier_no t) @ ''.'')"

definition breach_event :: "instant \<Rightarrow> exc \<Rightarrow> exc_event" where
  "breach_event now x =
     (let t = tier_after_sla_check (x_tier x) (x_deadline x) now in
      \<lparr>ev_exception = x_id x, ev_type = (if t = x_tier x then SLA_BREACHED_EVENT else ESCALATED_EVENT),
       ev_from = Some (x_tier x), ev_to = Some t, ev_actor = ''system:sla-scanner'',
       ev_detail = breach_detail now x, ev_at = now\<rparr>)"

definition tier_json :: "exc \<Rightarrow> json" where
  "tier_json x = JObj [(''tier'', JInt (int (tier_no (x_tier x)))), (''status'', JStr (exc_status_text (x_status x)))]"

definition scan_one ::
    "(string \<Rightarrow> string) \<Rightarrow> instant \<Rightarrow> exc \<Rightarrow> scan_outcome \<times> world \<Rightarrow> (scan_outcome \<times> world) res" where
  "scan_one sha now x s =
     (case s of (out, w) \<Rightarrow>
        bind_res (world_audit sha ''SYSTEM'' ''sla-scanner'' ESCALATE (JObj [(''exception_id'', id_json (x_id x))])
            (breach_detail now x) now (tier_json x) (tier_json (breach now x))
            (add_event (breach_event now x) (update_exception (x_id x) (breach now) w)))
          (\<lambda>w'. Inr (if x_tier (breach now x) = x_tier x then out\<lparr>so_top := so_top out + 1\<rparr>
                     else out\<lparr>so_escalated := so_escalated out + 1\<rparr>, w')))"

definition scan_due :: "instant \<Rightarrow> world \<Rightarrow> exc list" where
  "scan_due now w = sort_key (\<lambda>x. (x_deadline x, x_id x)) (filter (overdue now) (w_excs w))"

definition sla_scan :: "(string \<Rightarrow> string) \<Rightarrow> bool \<Rightarrow> instant \<Rightarrow> world \<Rightarrow> (scan_outcome \<times> world) res" where
  "sla_scan sha aware now w =
     (if \<not> aware then Inl ValueError
      else loop_res (scan_one sha now) (scan_due now w) (\<lparr>so_escalated = 0, so_top = 0\<rparr>, w))"

section \<open>The manager\<close>

record escalation_outcome =
  eo_auto :: resolve_outcome
  eo_queued :: nat
  eo_sla :: scan_outcome

definition escalation_process ::
    "(string \<Rightarrow> string) \<Rightarrow> (error \<Rightarrow> string) \<Rightarrow> string \<Rightarrow> instant \<Rightarrow> string option \<Rightarrow> world
     \<Rightarrow> (escalation_outcome \<times> world) res" where
  "escalation_process sha say bank now run w =
     bind_res (auto_resolve sha say bank now run w) (\<lambda>(auto, w1).
     bind_res (assign_queues bank now w1) (\<lambda>(queued, w2).
     bind_res (sla_scan sha True now w2) (\<lambda>(sla, w3).
       Inr (\<lparr>eo_auto = auto, eo_queued = queued, eo_sla = sla\<rparr>, w3))))"

section \<open>The scanner breaches everything overdue\<close>

lemma breach_id [simp]: "x_id (breach now x) = x_id x"
  by (simp add: breach_def Let_def)

lemma overdue_forward: "overdue now x \<Longrightarrow> forward x (breach now x)"
  using next_tier_le[of "x_tier x"]
  by (auto simp: forward_def overdue_def breach_def Let_def closed_def still_open_def exc_ok_def tier_after_sla_check_def)

lemma not_overdue_breach: "\<not> overdue t (breach now x)"
  by (simp add: overdue_def breach_def Let_def)

lemma scan_one_shape:
  assumes "scan_one sha now x (out, w) = Inr (out', w')"
  shows "goes_on (add_event (breach_event now x) (update_exception (x_id x) (breach now) w)) w'
     \<and> w_excs w' = w_excs (update_exception (x_id x) (breach now) w)"
proof -
  obtain why before after where a: "world_audit sha ''SYSTEM'' ''sla-scanner'' ESCALATE
      (JObj [(''exception_id'', id_json (x_id x))]) why now before after
      (add_event (breach_event now x) (update_exception (x_id x) (breach now) w)) = Inr w'"
    using assms by (auto simp: scan_one_def res_iff)
  from goes_on_audit[OF a] show ?thesis by (simp add: add_event_def)
qed

lemma breach_event_id [simp]: "ev_exception (breach_event now x) = x_id x"
  by (simp add: breach_event_def Let_def)

text \<open>Updating one stored exception, recording an event for it and auditing it.\<close>

lemma goes_on_update_event:
  assumes "x \<in> set (w_excs w)" "store_ok w" "forward x (f x)" "ev_exception ev = x_id x" "\<And>y. x_id (f y) = x_id y"
    "goes_on (add_event ev (update_exception (x_id x) f w)) w'"
  shows "goes_on w w'"
proof -
  have "goes_on w (update_exception (x_id x) f w)"
    by (rule goes_on_update) (use stored_unique[OF assms(2)] assms(1,3) in metis)
  moreover have "goes_on (update_exception (x_id x) f w) (add_event ev (update_exception (x_id x) f w))"
    by (rule goes_on_event) (simp add: update_ids[OF assms(5)] assms(1,4) del: image_iff)
  ultimately show ?thesis using assms(6) goes_on_trans by blast
qed

definition row_ready :: "(exc \<Rightarrow> bool) \<Rightarrow> exc \<Rightarrow> world \<Rightarrow> bool" where
  "row_ready P x w = (x \<in> set (w_excs w) \<and> P x)"

interpretation sla: world_op "scan_one sha now" snd "row_ready (overdue now)" other_exc for sha now
proof
  fix x :: exc and s s' :: "scan_outcome \<times> world"
  assume a: "scan_one sha now x s = Inr s'" "row_ready (overdue now) x (snd s)" "store_ok (snd s)"
  obtain out w out' w' where s: "s = (out, w)" "s' = (out', w')" by (cases s, cases s')
  have ev: "goes_on (add_event (breach_event now x) (update_exception (x_id x) (breach now) w)) w'"
    "w_excs w' = w_excs (update_exception (x_id x) (breach now) w)"
    using scan_one_shape a(1) s by blast+
  have x: "x \<in> set (w_excs w)" "overdue now x" using a(2) s by (simp_all add: row_ready_def)
  show "goes_on (snd s) (snd s')"
    using goes_on_update_event[OF x(1) _ overdue_forward[OF x(2)] breach_event_id breach_id ev(1)] a(3) s by simp
  fix y assume "row_ready (overdue now) y (snd s)" "other_exc x y"
  then show "row_ready (overdue now) y (snd s')"
    using ev(2) s update_other by (auto simp: row_ready_def other_exc_def)
qed

lemma sla_scan_goes_on:
  assumes "sla_scan sha aware now w = Inr (out, w')" "store_ok w"
  shows "goes_on w w'"
proof -
  have l: "loop_res (scan_one sha now) (scan_due now w) (\<lparr>so_escalated = 0, so_top = 0\<rparr>, w) = Inr (out, w')"
    using assms(1) by (auto simp: sla_scan_def split: if_splits)
  have "list_all (\<lambda>x. row_ready (overdue now) x w) (scan_due now w)" by (simp add: scan_due_def list_all_iff row_ready_def)
  moreover have "sorted_wrt other_exc (scan_due now w)"
    unfolding sorted_other scan_due_def using assms(2) by (intro distinct_sorted_filter) (simp add: store_ok_def)
  ultimately show ?thesis using sla.loop_goes[OF l] assms(2) by simp
qed

lemma scan_loop_rows:
  "\<lbrakk>loop_res (scan_one sha now) xs (out, w) = Inr (out', w'); distinct (map x_id xs)\<rbrakk> \<Longrightarrow>
   w_excs w' = map (\<lambda>y. if x_id y \<in> x_id ` set xs then breach now y else y) (w_excs w)
   \<and> so_escalated out' + so_top out' = so_escalated out + so_top out + length xs"
proof (induction xs arbitrary: out w)
  case (Cons x xs)
  obtain out1 w1 where 1: "scan_one sha now x (out, w) = Inr (out1, w1)"
    "loop_res (scan_one sha now) xs (out1, w1) = Inr (out', w')" using Cons.prems(1) by (auto simp: res_iff)
  have e: "w_excs w1 = map (\<lambda>y. if x_id y = x_id x then breach now y else y) (w_excs w)"
    using scan_one_shape[OF 1(1)] by (simp add: update_exception_def)
  have c: "so_escalated out1 + so_top out1 = so_escalated out + so_top out + 1"
    using 1(1) by (auto simp: scan_one_def res_iff)
  have "x_id x \<notin> x_id ` set xs" using Cons.prems(2) by simp
  then have "map (\<lambda>y. if x_id y \<in> x_id ` set xs then breach now y else y) (w_excs w1)
      = map (\<lambda>y. if x_id y \<in> x_id ` set (x # xs) then breach now y else y) (w_excs w)"
    unfolding e by auto
  then show ?case using Cons.IH[OF 1(2)] Cons.prems(2) c by simp
qed simp

lemma sla_scan_rows:
  assumes "sla_scan sha aware now w = Inr (out, w')" "store_ok w"
  shows "w_excs w' = map (\<lambda>x. if overdue now x then breach now x else x) (w_excs w)"
    and "so_escalated out + so_top out = length (scan_due now w)" and "scan_due now w' = []"
proof -
  have l: "loop_res (scan_one sha now) (scan_due now w) (\<lparr>so_escalated = 0, so_top = 0\<rparr>, w) = Inr (out, w')"
    using assms(1) by (auto simp: sla_scan_def split: if_splits)
  have d: "distinct (map x_id (scan_due now w))"
    unfolding scan_due_def using assms(2) by (intro distinct_sorted_filter) (simp add: store_ok_def)
  note r = scan_loop_rows[OF l d]
  have "x_id y \<in> x_id ` set (scan_due now w) \<longleftrightarrow> overdue now y" if "y \<in> set (w_excs w)" for y
    using that stored_unique[OF assms(2)] by (auto simp: scan_due_def)
  then show e: "w_excs w' = map (\<lambda>x. if overdue now x then breach now x else x) (w_excs w)"
    using r by (auto intro!: map_cong)
  show "so_escalated out + so_top out = length (scan_due now w)" using r by simp
  have "filter (overdue now) (w_excs w') = []"
    unfolding e filter_empty_conv using not_overdue_breach by auto
  then show "scan_due now w' = []" by (simp add: scan_due_def)
qed

lemma scan_one_returns:
  assumes "logged sha (w_db w)" "next_id (w_db w) < 16 ^ 32" "0 \<le> now"
  shows "(\<exists>out' w'. scan_one sha now x (out, w) = Inr (out', w') \<and> logged sha (w_db w')
       \<and> next_id (w_db w') = next_id (w_db w) + 1)
    \<or> (\<exists>f. entry_clash sha (audit_log (w_db w)) f \<and> event_id f = next_id (w_db w) \<and> actor_id f = ''sla-scanner''
         \<and> affected_records f = JObj [(''exception_id'', id_json (x_id x))])"
proof -
  let ?audit = "append_audit sha exceptions_chain ''SYSTEM'' ''sla-scanner'' ESCALATE
      (JObj [(''exception_id'', id_json (x_id x))]) (breach_detail now x) now (tier_json x) (tier_json (breach now x))
      (w_db w)"
  have "\<exists>out' w'. scan_one sha now x (out, w) = Inr (out', w') \<and> logged sha (w_db w')
       \<and> next_id (w_db w') = next_id (w_db w) + 1" if db': "?audit = Inr db'" "logged sha db'" for db'
  proof -
    have n: "next_id db' = next_id (w_db w) + 1" using append_audit_shape[OF db'(1)] by auto
    let ?w = "(add_event (breach_event now x) (update_exception (x_id x) (breach now) w))\<lparr>w_db := db'\<rparr>"
    have "world_audit sha ''SYSTEM'' ''sla-scanner'' ESCALATE (JObj [(''exception_id'', id_json (x_id x))])
        (breach_detail now x) now (tier_json x) (tier_json (breach now x))
        (add_event (breach_event now x) (update_exception (x_id x) (breach now) w)) = Inr ?w"
      using db'(1) by (simp add: world_audit_def add_event_def update_exception_def)
    then show ?thesis using db'(2) n by (simp add: scan_one_def)
  qed
  moreover have "(\<exists>db'. ?audit = Inr db' \<and> logged sha db')
    \<or> (\<exists>f. entry_clash sha (audit_log (w_db w)) f \<and> event_id f = next_id (w_db w) \<and> actor_id f = ''sla-scanner''
         \<and> affected_records f = JObj [(''exception_id'', id_json (x_id x))])"
    by (rule append_audit_or_clash) (use assms in \<open>simp_all add: id_json_def tier_json_def\<close>)
  ultimately show ?thesis by blast
qed

text \<open>The scan of the due exceptions \<open>xs\<close> stops at the \<open>i\<close>th: the digest of the entry it would
  write is that of another text of the log so far.\<close>

definition stops_at :: "(string \<Rightarrow> string) \<Rightarrow> instant \<Rightarrow> exc list \<Rightarrow> scan_outcome \<times> world \<Rightarrow> nat \<Rightarrow> bool" where
  "stops_at sha now xs s i =
     (i < length xs \<and> (\<exists>out w f. loop_res (scan_one sha now) (take i xs) s = Inr (out, w)
        \<and> entry_clash sha (audit_log (w_db w)) f \<and> event_id f = next_id (w_db w) \<and> actor_id f = ''sla-scanner''
        \<and> affected_records f = JObj [(''exception_id'', id_json (x_id (xs ! i)))]))"

lemma scan_loop_returns:
  assumes "0 \<le> now"
  shows "\<lbrakk>logged sha (w_db w); next_id (w_db w) + length xs \<le> 16 ^ 32\<rbrakk> \<Longrightarrow>
   (\<exists>out' w'. loop_res (scan_one sha now) xs (out, w) = Inr (out', w') \<and> logged sha (w_db w'))
   \<or> (\<exists>i. stops_at sha now xs (out, w) i)"
proof (induction xs arbitrary: out w)
  case (Cons x xs)
  have n: "next_id (w_db w) < 16 ^ 32" using Cons.prems(2) by simp
  show ?case using scan_one_returns[OF Cons.prems(1) n assms, of x out]
  proof (elim disjE exE conjE)
    fix out1 w1
    assume s: "scan_one sha now x (out, w) = Inr (out1, w1)" "logged sha (w_db w1)" "next_id (w_db w1) = next_id (w_db w) + 1"
    have "stops_at sha now (x # xs) (out, w) (Suc i)" if "stops_at sha now xs (out1, w1) i" for i
      using that s(1) by (simp add: stops_at_def)
    then show ?case using Cons.IH[of w1 out1] Cons.prems(2) s by auto
  next
    fix f
    assume "entry_clash sha (audit_log (w_db w)) f" "event_id f = next_id (w_db w)" "actor_id f = ''sla-scanner''"
      "affected_records f = JObj [(''exception_id'', id_json (x_id x))]"
    then have "stops_at sha now (x # xs) (out, w) 0" by (auto simp: stops_at_def)
    then show ?case by blast
  qed
qed simp

lemma no_clash_no_stop: "(\<And>x y. sha x = sha y \<Longrightarrow> x = y) \<Longrightarrow> \<not> stops_at sha now xs s i"
  unfolding stops_at_def entry_clash_def by blast


section \<open>The resolver goes on\<close>

lemma lift_db_goes:
  assumes "lift_db f w = Inr (how, w')" "\<And>how db'. f (w_db w) = Inr (how, db') \<Longrightarrow> ledger_step (w_db w) db'"
  shows "goes_on w w' \<and> w_excs w' = w_excs w"
proof -
  obtain db' where d: "f (w_db w) = Inr (how, db')" and w': "w' = w\<lparr>w_db := db'\<rparr>"
    using assms(1) by (auto simp: lift_db_def res_iff)
  show ?thesis unfolding w' using goes_on_db[OF assms(2)[OF d]] by simp
qed

lemma post_fee_goes:
  "\<lbrakk>post_fee x i e now w = Inr (how, w'); x \<in> set (w_excs w)\<rbrakk> \<Longrightarrow> goes_on w w' \<and> w_excs w' = w_excs w"
  using goes_on_adjustment by (fastforce simp: post_fee_def Let_def res_iff)

lemma act_on_pair_goes:
  assumes "act_on_pair sha x rule now w = Inr (how, w')" "x \<in> set (w_excs w)"
  shows "goes_on w w' \<and> w_excs w' = w_excs w"
proof -
  obtain mid ti te how1 w1 where l: "lift_db (settle_pair sha mid ti te rule (x_rationale x) now) w = Inr (how1, w1)"
    and w': "w' = w1 \<or> (\<exists>fee. post_fee x ti te now w1 = Inr (fee, w'))"
    using assms(1) by (auto simp: act_on_pair_def res_iff split: affected.splits if_splits)
  have g: "goes_on w w1 \<and> w_excs w1 = w_excs w" using lift_db_goes[OF l] ledger_step.settle by blast
  show ?thesis using w' g post_fee_goes[of x ti te now w1] assms(2) goes_on_trans by metis
qed

lemma resolver_act_goes:
  assumes "resolver_act sha x now w = Inr (how, w')" "x \<in> set (w_excs w)"
  shows "goes_on w w' \<and> w_excs w' = w_excs w"
proof -
  consider "w' = w" | copy original where "lift_db (void_duplicate copy original) w = Inr (how, w')"
    | rule where "act_on_pair sha x rule now w = Inr (how, w')"
    using assms(1) by (auto simp: resolver_act_def res_iff split: if_splits affected.splits option.splits)
  then show ?thesis
  proof cases
    case 2 then show ?thesis using lift_db_goes ledger_step.void by blast
  next
    case 3 then show ?thesis using act_on_pair_goes assms(2) by blast
  qed simp
qed

definition tier1_open :: "exc \<Rightarrow> bool" where
  "tier1_open x = (x_status x = OPEN \<and> x_tier x = TIER_1_AUTO)"

lemma resolved_forward: "tier1_open x \<Longrightarrow> forward x (mark_resolved d now x)"
  by (simp add: forward_def mark_resolved_def tier1_open_def closed_def still_open_def exc_ok_def)

lemma tier2_forward: "tier1_open x \<Longrightarrow> forward x (to_tier2 x)"
  by (simp add: forward_def to_tier2_def tier1_open_def closed_def still_open_def exc_ok_def)

text \<open>What one exception's turn does to the stored exceptions.\<close>

definition decided :: "exc \<Rightarrow> world \<Rightarrow> world \<Rightarrow> bool" where
  "decided x w w' =
     (\<exists>f. w_excs w' = w_excs (update_exception (x_id x) f w) \<and> (\<forall>y. x_id (f y) = x_id y \<and> \<not> tier1_open (f y)))"

lemma audited_goes:
  assumes "world_audit sha atype actor action affected why now before after (add_event ev (update_exception (x_id x) f w)) = Inr w'"
    and "x \<in> set (w_excs w)" "store_ok w" "forward x (f x)" "ev_exception ev = x_id x"
    and f: "\<And>y. x_id (f y) = x_id y" "\<And>y. \<not> tier1_open (f y)"
  shows "goes_on w w' \<and> decided x w w'"
proof -
  note a = goes_on_audit[OF assms(1)]
  then have "goes_on w w'" using goes_on_update_event[OF assms(2-5) f(1)] by blast
  moreover have "w_excs w' = w_excs (update_exception (x_id x) f w)" using a by (simp add: add_event_def)
  ultimately show ?thesis using f unfolding decided_def by blast
qed

lemma resolve_one_goes:
  assumes "resolve_one sha say now x (out, w) = Inr (out', w')" "x \<in> set (w_excs w)" "tier1_open x" "store_ok w"
  shows "goes_on w w' \<and> decided x w w'"
proof (cases "resolver_act sha x now w")
  case (Inl e)
  then have "escalate_exc sha x (reason_of say e) now w = Inr w'"
    using assms(1) by (auto simp: resolve_one_def res_iff split: if_splits)
  from audited_goes[OF this[unfolded escalate_exc_def] assms(2,4) tier2_forward[OF assms(3)]] show ?thesis
    by (simp add: resolver_event_def to_tier2_def tier1_open_def)
next
  case (Inr r)
  obtain d w1 where r: "r = (d, w1)" by (cases r)
  have g: "goes_on w w1" "w_excs w1 = w_excs w" using resolver_act_goes[OF Inr[unfolded r] assms(2)] by blast+
  have ok: "store_ok w1" using g(1) assms(4) unfolding goes_on_def by blast
  have x1: "x \<in> set (w_excs w1)" using g(2) assms(2) by simp
  have "resolve_exc sha x d now w1 = Inr w'"
    using assms(1) Inr r by (auto simp: resolve_one_def res_iff)
  from audited_goes[OF this[unfolded resolve_exc_def] x1 ok resolved_forward[OF assms(3)]]
  have "goes_on w1 w' \<and> decided x w1 w'" by (simp add: resolver_event_def mark_resolved_def tier1_open_def)
  then show ?thesis using g goes_on_trans by (auto simp: decided_def update_exception_def)
qed

interpretation resolver: world_op "resolve_one sha say now" snd "row_ready tier1_open" other_exc for sha say now
proof
  fix x :: exc and s s' :: "resolve_outcome \<times> world"
  assume a: "resolve_one sha say now x s = Inr s'" "row_ready tier1_open x (snd s)" "store_ok (snd s)"
  obtain out w out' w' where s: "s = (out, w)" "s' = (out', w')" by (cases s, cases s')
  have x: "x \<in> set (w_excs w)" "tier1_open x" using a(2) s by (simp_all add: row_ready_def)
  have g: "goes_on w w'" "decided x w w'" using resolve_one_goes[of sha say now x out w out' w'] a x s by simp_all
  show "goes_on (snd s) (snd s')" using g(1) s by simp
  fix y assume "row_ready tier1_open y (snd s)" "other_exc x y"
  then show "row_ready tier1_open y (snd s')"
    using g(2) s update_other by (fastforce simp: row_ready_def other_exc_def decided_def)
qed

lemma resolver_due_empty: "resolver_due bank run w = [] \<longleftrightarrow> (\<forall>x \<in> set (w_excs w). \<not> due_for bank run x)"
proof -
  have "resolver_due bank run w = [] \<longleftrightarrow> set (resolver_due bank run w) = {}" by simp
  then show ?thesis by (auto simp: resolver_due_def)
qed

lemma due_tier1: "due_for bank run x \<Longrightarrow> tier1_open x"
  by (simp add: due_for_def tier1_open_def)

lemma resolver_due_ready:
  assumes "store_ok w"
  shows "list_all (\<lambda>x. row_ready tier1_open x w) (resolver_due bank run w)"
    and "sorted_wrt other_exc (resolver_due bank run w)"
proof -
  show "list_all (\<lambda>x. row_ready tier1_open x w) (resolver_due bank run w)"
    by (auto simp: resolver_due_def list_all_iff row_ready_def due_tier1)
  show "sorted_wrt other_exc (resolver_due bank run w)"
    unfolding sorted_other resolver_due_def using assms by (intro distinct_sorted_filter) (simp add: store_ok_def)
qed

lemma auto_resolve_goes_on:
  "\<lbrakk>auto_resolve sha say bank now run w = Inr (out, w'); store_ok w\<rbrakk> \<Longrightarrow> goes_on w w'"
  using resolver.loop_goes[of sha say now "resolver_due bank run w"] resolver_due_ready
  unfolding auto_resolve_def by fastforce

lemma resolver_loop_decides:
  "\<lbrakk>loop_res (resolve_one sha say now) xs (out, w) = Inr (out', w'); list_all (\<lambda>x. row_ready tier1_open x w) xs;
    sorted_wrt other_exc xs; store_ok w; y \<in> set (w_excs w')\<rbrakk>
   \<Longrightarrow> (x_id y \<in> x_id ` set xs \<longrightarrow> \<not> tier1_open y) \<and> (x_id y \<notin> x_id ` set xs \<longrightarrow> y \<in> set (w_excs w))"
proof (induction xs arbitrary: out w)
  case (Cons x xs)
  obtain out1 w1 where 1: "resolve_one sha say now x (out, w) = Inr (out1, w1)"
    "loop_res (resolve_one sha say now) xs (out1, w1) = Inr (out', w')"
    using Cons.prems(1) by (auto simp: res_iff)
  have x: "x \<in> set (w_excs w)" "tier1_open x" using Cons.prems(2) by (simp_all add: row_ready_def)
  have g: "goes_on w w1" "decided x w w1" using resolve_one_goes[OF 1(1) x Cons.prems(4)] by blast+
  have ok: "store_ok w1" using g(1) Cons.prems(4) unfolding goes_on_def by blast
  have "row_ready tier1_open b w1" if "b \<in> set xs" for b
    using resolver.act_ready[of sha say now x "(out, w)" "(out1, w1)" b] 1(1) Cons.prems(2-4) that
    by (simp add: list_all_iff)
  then have IH: "(x_id y \<in> x_id ` set xs \<longrightarrow> \<not> tier1_open y) \<and> (x_id y \<notin> x_id ` set xs \<longrightarrow> y \<in> set (w_excs w1))"
    using Cons.IH[OF 1(2)] Cons.prems(3,5) ok by (simp add: list_all_iff)
  obtain f where f: "w_excs w1 = w_excs (update_exception (x_id x) f w)" "\<And>z. x_id (f z) = x_id z" "\<And>z. \<not> tier1_open (f z)"
    using g(2) unfolding decided_def by blast
  have "(x_id y = x_id x \<longrightarrow> \<not> tier1_open y) \<and> (x_id y \<noteq> x_id x \<longrightarrow> y \<in> set (w_excs w))" if "y \<in> set (w_excs w1)"
    using that f by (auto simp: update_exception_def split: if_splits)
  then show ?case using IH by auto
qed simp

lemma auto_resolve_leaves_none:
  assumes "auto_resolve sha say bank now run w = Inr (out, w')" "store_ok w"
  shows "resolver_due bank run w' = []"
proof -
  have "\<not> due_for bank run y" if y: "y \<in> set (w_excs w')" for y
  proof
    assume due: "due_for bank run y"
    have d: "(x_id y \<in> x_id ` set (resolver_due bank run w) \<longrightarrow> \<not> tier1_open y)
        \<and> (x_id y \<notin> x_id ` set (resolver_due bank run w) \<longrightarrow> y \<in> set (w_excs w))"
      by (rule resolver_loop_decides[OF assms(1)[unfolded auto_resolve_def] resolver_due_ready[OF assms(2)] assms(2) y])
    then have "y \<in> set (w_excs w)" "x_id y \<notin> x_id ` set (resolver_due bank run w)"
      using due_tier1[OF due] by blast+
    then show False using due by (simp add: resolver_due_def)
  qed
  then show ?thesis by (simp add: resolver_due_empty)
qed

section \<open>The queues go on\<close>

lemma goes_on_events:
  "list_all (\<lambda>ev. ev_exception ev \<in> x_id ` set (w_excs w)) evs \<Longrightarrow>
   goes_on w (fold add_event evs w) \<and> w_excs (fold add_event evs w) = w_excs w"
proof (induction evs arbitrary: w)
  case (Cons ev evs)
  have "goes_on w (add_event ev w)" using Cons.prems by (intro goes_on_event) simp
  moreover have "w_excs (add_event ev w) = w_excs w" by (simp add: add_event_def)
  ultimately show ?case using Cons.IH[of "add_event ev w"] Cons.prems goes_on_trans by auto
qed simp

lemma take_queue_facts [simp]: "x_id (take_queue ids q x) = x_id x" "x_key (take_queue ids q x) = x_key x" "x_status (take_queue ids q x) = x_status x"
  "x_tier (take_queue ids q x) = x_tier x" "x_bank (take_queue ids q x) = x_bank x" "x_run (take_queue ids q x) = x_run x"
  by (simp_all add: take_queue_def)

lemma goes_on_assign:
  assumes "\<And>x. x \<in> set (w_excs w) \<Longrightarrow> x_id x \<in> set ids \<Longrightarrow> \<not> closed x"
  shows "goes_on w (w\<lparr>w_excs := map (take_queue ids q) (w_excs w)\<rparr>)"
proof (rule goes_onI[where old = "map (take_queue ids q) (w_excs w)" and new = "[]" and evs = "[]" and ajs = "[]"])
  have "forward x (take_queue ids q x)" if "x \<in> set (w_excs w)" for x
    using assms[OF that] by (auto simp: forward_def take_queue_def exc_ok_def closed_def)
  then show l: "list_all2 forward (w_excs w) (map (take_queue ids q) (w_excs w))"
    by (simp add: list_all2_map2 list_all2_same)
  show "store_ok (w\<lparr>w_excs := map (take_queue ids q) (w_excs w)\<rparr>)" if "store_ok w"
  proof -
    have "list_all exc_ok (map (take_queue ids q) (w_excs w))"
      using all2_forward_map[OF l] that by (simp add: store_ok_def list_all_iff)
    then show ?thesis using that by (simp add: store_ok_def list_all_iff image_image comp_def)
  qed
qed simp_all

lemma assign_tier_shape:
  assumes "assign_tier bank now (t, q) (n, w) = Inr (n', w')" "store_ok w"
  shows "goes_on w w' \<and> (\<exists>ids. w_excs w' = map (take_queue ids q) (w_excs w))"
proof -
  define ids where "ids = map x_id (filter (unassigned bank t) (w_excs w))"
  let ?evs = "map (assign_event t q now) ids"
  let ?w1 = "w\<lparr>w_excs := map (take_queue ids q) (w_excs w)\<rparr>"
  have w': "w' = (if ids = [] then w else fold add_event ?evs ?w1)"
    using assms(1) by (auto simp: assign_tier_def Let_def ids_def split: if_splits)
  have "\<not> closed x" if "x \<in> set (w_excs w)" "x_id x \<in> set ids" for x
    using that stored_unique[OF assms(2)] by (fastforce simp: ids_def unassigned_def closed_def)
  then have g: "goes_on w ?w1" by (rule goes_on_assign)
  have "set ids \<subseteq> x_id ` set (w_excs w)" by (auto simp: ids_def)
  then have "list_all (\<lambda>ev. ev_exception ev \<in> x_id ` set (w_excs ?w1)) ?evs"
    by (auto simp: list_all_iff image_image assign_event_def)
  from goes_on_events[OF this] have "goes_on ?w1 (fold add_event ?evs ?w1)"
    "w_excs (fold add_event ?evs ?w1) = map (take_queue ids q) (w_excs w)" by simp_all
  moreover have "w_excs w = map (take_queue [] q) (w_excs w)" by (simp add: take_queue_def map_idI)
  ultimately show ?thesis
    by (cases "ids = []") (use w' g goes_on_trans goes_on_refl in \<open>simp_all, blast+\<close>)
qed

interpretation queues: world_op "assign_tier bank now" snd "\<lambda>_ _. True" "\<lambda>_ _. True" for bank now
proof
  fix tq :: "tier \<times> string" and s s' :: "nat \<times> world"
  assume a: "assign_tier bank now tq s = Inr s'" "store_ok (snd s)"
  obtain t q n w n' w' where "tq = (t, q)" "s = (n, w)" "s' = (n', w')" by (cases tq, cases s, cases s')
  then show "goes_on (snd s) (snd s')" using a assign_tier_shape by simp
qed simp

lemma assign_loop_rows:
  "\<lbrakk>loop_res (assign_tier bank now) tqs (n, w) = Inr (n', w'); store_ok w; y' \<in> set (w_excs w')\<rbrakk>
   \<Longrightarrow> \<exists>y \<in> set (w_excs w). x_status y' = x_status y \<and> x_tier y' = x_tier y \<and> x_bank y' = x_bank y \<and> x_run y' = x_run y"
proof (induction tqs arbitrary: n w)
  case Nil then show ?case by auto
next
  case (Cons tq tqs)
  obtain t q where tq: "tq = (t, q)" by (cases tq)
  obtain n1 w1 where 1: "assign_tier bank now (t, q) (n, w) = Inr (n1, w1)"
    "loop_res (assign_tier bank now) tqs (n1, w1) = Inr (n', w')" using Cons.prems(1) tq by (auto simp: res_iff)
  obtain ids where g: "goes_on w w1" "w_excs w1 = map (take_queue ids q) (w_excs w)"
    using assign_tier_shape[OF 1(1) Cons.prems(2)] by blast
  have "store_ok w1" using g(1) Cons.prems(2) unfolding goes_on_def by blast
  from Cons.IH[OF 1(2) this Cons.prems(3)] g(2) show ?case by auto
qed

lemma assign_queues_goes_on:
  "\<lbrakk>assign_queues bank now w = Inr (n, w'); store_ok w\<rbrakk> \<Longrightarrow> goes_on w w'"
  using queues.loop_goes[of bank now queue_by_tier "(0, w)"] unfolding assign_queues_def
  by (simp add: list_all_iff queue_by_tier_def)

lemma due_for_cong:
  "\<lbrakk>x_status y' = x_status y; x_tier y' = x_tier y; x_bank y' = x_bank y; x_run y' = x_run y\<rbrakk>
   \<Longrightarrow> due_for bank run y' = due_for bank run y"
  by (cases run) (simp_all add: due_for_def)

lemma breach_not_due: "overdue now x \<Longrightarrow> \<not> due_for bank run (breach now x)"
  by (cases "x_tier x") (auto simp: overdue_def due_for_def breach_def Let_def tier_after_sla_check_def)

lemma process_stages:
  assumes "escalation_process sha say bank now run w = Inr (out, w')" "store_ok w"
  obtains w1 w2 auto n sla where "auto_resolve sha say bank now run w = Inr (auto, w1)" "goes_on w w1" "store_ok w1"
    "assign_queues bank now w1 = Inr (n, w2)" "goes_on w1 w2" "store_ok w2"
    "sla_scan sha True now w2 = Inr (sla, w')" "goes_on w2 w'"
proof -
  obtain w1 w2 auto n sla where s: "auto_resolve sha say bank now run w = Inr (auto, w1)"
    "assign_queues bank now w1 = Inr (n, w2)" "sla_scan sha True now w2 = Inr (sla, w')"
    using assms(1) by (auto simp: escalation_process_def res_iff)
  have 1: "goes_on w w1" "store_ok w1"
    using auto_resolve_goes_on[OF s(1) assms(2)] assms(2) unfolding goes_on_def by blast+
  have 2: "goes_on w1 w2" "store_ok w2"
    using assign_queues_goes_on[OF s(2) 1(2)] 1(2) unfolding goes_on_def by blast+
  show thesis using that s 1 2 sla_scan_goes_on[OF s(3) 2(2)] by blast
qed

lemma process_goes_on:
  assumes "escalation_process sha say bank now run w = Inr (out, w')" "store_ok w"
  shows "goes_on w w'"
  by (rule process_stages[OF assms]) (blast intro: goes_on_trans)

text \<open>C24. Escalation keeps the exception store and the match ledger: existing exceptions
  only go forward, the ledger only takes its own steps (no live match is lost, no
  rejected pair is matched again), and afterwards no automatic exception of the run
  is left open and none is past its deadline without a breach.\<close>

theorem escalation_settles:
  assumes "escalation_process sha say bank now run w = Inr (out, w')" "store_ok w" "ledger_ok (w_db w)"
  shows "store_ok w' \<and> ledger_ok (w_db w') \<and> later (w_db w) (w_db w')
     \<and> (\<exists>old new. w_excs w' = old @ new \<and> list_all2 forward (w_excs w) old)
     \<and> resolver_due bank run w' = [] \<and> scan_due now w' = []"
proof -
  have g: "goes_on w w'" by (rule process_goes_on[OF assms(1,2)])
  then have l: "ledger_step\<^sup>*\<^sup>* (w_db w) (w_db w')" unfolding goes_on_def by blast
  have "resolver_due bank run w' = [] \<and> scan_due now w' = []"
  proof (rule process_stages[OF assms(1,2)])
    fix w1 w2 auto n sla
    assume s: "auto_resolve sha say bank now run w = Inr (auto, w1)" "store_ok w1"
      "assign_queues bank now w1 = Inr (n, w2)" "store_ok w2" "sla_scan sha True now w2 = Inr (sla, w')"
    have "\<not> due_for bank run y" if "y \<in> set (w_excs w1)" for y
      using auto_resolve_leaves_none[OF s(1) assms(2)] that by (simp add: resolver_due_empty)
    then have 2: "\<not> due_for bank run y" if "y \<in> set (w_excs w2)" for y
      using assign_loop_rows[OF s(3)[unfolded assign_queues_def] s(2) that] due_for_cong by metis
    have "\<not> due_for bank run y" if "y \<in> set (w_excs w')" for y
      using that 2 breach_not_due sla_scan_rows(1)[OF s(5,4)] by auto
    then show ?thesis using sla_scan_rows(3)[OF s(5,4)] by (simp add: resolver_due_empty)
  qed
  then show ?thesis
    using g steps_ok[OF l assms(3)] steps_later[OF l assms(3)] assms(2) unfolding goes_on_def by blast
qed

section \<open>Witnesses\<close>

definition sample_exc :: exc where
  "sample_exc =
     \<lparr>x_id = 7, x_key = ''AMOUNT_MISMATCH:pair:3:4'', x_category = AMOUNT_MISMATCH, x_severity = MEDIUM,
      x_status = OPEN, x_tier = TIER_2_ANALYST, x_assigned = None, x_bank = ''HDFC'', x_run = Some ''r'',
      x_file = None, x_affected = Pair_of 3 4 None False [], x_currency = Some ''INR'', x_inr = Some 500,
      x_suggested = [], x_rationale = [], x_created = 0, x_deadline = 2, x_breached = None,
      x_resolved_at = None, x_resolved_by = None, x_details = None\<rparr>"

definition sample_world :: world where
  "sample_world = \<lparr>w_db = sample_free, w_excs = [sample_exc], w_events = [], w_adjustments = [], w_next = 8\<rparr>"

lemma sample_world_facts:
  "store_ok sample_world" "logged sample_sha sample_free" "next_id sample_free = 100" "overdue 5 sample_exc"
  by (simp_all add: store_ok_def sample_world_def sample_exc_def exc_ok_def closed_def still_open_def logged_def
      sample_free_def sample_db_def overdue_def)

lemma sample_scan_returns:
  assumes "logged sample_sha (w_db w)" "store_ok w" "length (w_excs w) < 1000" "next_id (w_db w) < 1000"
  shows "\<exists>out w'. sla_scan sample_sha True 5 w = Inr (out, w')"
proof -
  have "length (scan_due 5 w) < 1000"
    using le_less_trans[OF length_filter_le assms(3)] by (simp add: scan_due_def)
  then have "next_id (w_db w) + length (scan_due 5 w) \<le> 16 ^ 32" using assms(4) by simp
  then obtain out w' where "loop_res (scan_one sample_sha 5) (scan_due 5 w) (\<lparr>so_escalated = 0, so_top = 0\<rparr>, w) = Inr (out, w')"
    using scan_loop_returns[of 5 sample_sha w "scan_due 5 w"] no_clash_no_stop[of sample_sha] sample_sha_inj assms(1) by fastforce
  then show ?thesis by (simp add: sla_scan_def)
qed


theorem escalation_settles_witness:
  "\<exists>out w'. escalation_process sample_sha (\<lambda>_. []) ''HDFC'' 5 (Some ''r'') sample_world = Inr (out, w')
     \<and> store_ok w' \<and> scan_due 5 w' = []"
proof -
  have d: "resolver_due ''HDFC'' (Some ''r'') sample_world = []"
    by (simp add: resolver_due_empty sample_world_def sample_exc_def due_for_def)
  have 1: "auto_resolve sample_sha (\<lambda>_. []) ''HDFC'' 5 (Some ''r'') sample_world
      = Inr (\<lparr>ro_resolved = 0, ro_escalated = 0, ro_by_category = []\<rparr>, sample_world)"
    by (simp add: auto_resolve_def d)
  obtain n w2 where 2: "assign_queues ''HDFC'' 5 sample_world = Inr (n, w2)" "w_db w2 = sample_free" "length (w_excs w2) = 1"
    by (simp add: assign_queues_def queue_by_tier_def assign_tier_def sample_world_def unassigned_def sample_exc_def
        still_open_def add_event_def take_queue_def)
  have ok: "store_ok w2" using assign_queues_goes_on[OF 2(1)] sample_world_facts(1) unfolding goes_on_def by blast
  obtain sla w' where "sla_scan sample_sha True 5 w2 = Inr (sla, w')"
    using sample_scan_returns[of w2] ok 2 sample_world_facts by auto
  then have p: "\<exists>out. escalation_process sample_sha (\<lambda>_. []) ''HDFC'' 5 (Some ''r'') sample_world = Inr (out, w')"
    by (simp add: escalation_process_def 1 2(1))
  have "ledger_ok (w_db sample_world)" using sample_free_ok by (simp add: sample_world_def)
  then show ?thesis using p escalation_settles sample_world_facts(1) by blast
qed

end
