(* ===== verification/PairAnalysis.thy ===== *)
theory PairAnalysis
  imports Routing Rules
begin

text \<open>
  \<open>src/recon/excmgmt/pair_analysis.py\<close>: which exception category describes a pair
  of transactions. The exchange rate service is its \<open>quote\<close> as a function of currency
  and date: the cache never changes an answer (\<open>Fx\<close>). Keyword patterns are read on ASCII text: a whole word, in any
  case. \<open>pc_text\<close> is \<open>str\<close> on Decimals; the number formats \<open>.4f\<close> and \<open>.1f\<close> are written
  out.
\<close>

section \<open>Context and findings\<close>

record pair_context =
  pc_detection :: detection
  pc_calendar :: calendar
  pc_bank :: "bank_config option"
  pc_quote :: "(string \<Rightarrow> date \<Rightarrow> fx_quote option) option"
  pc_fx_tolerance :: rat
  pc_table :: exponents
  pc_text :: "rat \<Rightarrow> string"

record finding =
  fd_category :: category
  fd_why :: string
  fd_difference :: "int option"
  fd_days :: "int option"
  fd_confidence :: "rat option"
  fd_variance :: "rat option"
  fd_details :: "(string \<times> json) list"

definition finding_of :: "category \<Rightarrow> string \<Rightarrow> finding" where
  "finding_of c why =
     \<lparr>fd_category = c, fd_why = why, fd_difference = None, fd_days = None, fd_confidence = None,
      fd_variance = None, fd_details = []\<rparr>"

definition pc_settlement_days :: "pair_context \<Rightarrow> int" where
  "pc_settlement_days ctx = (case pc_bank ctx of None \<Rightarrow> 1 | Some b \<Rightarrow> settlement_days b)"

section \<open>Keywords\<close>

definition is_word :: "char \<Rightarrow> bool" where
  "is_word c = (is_alpha c \<or> is_digit c \<or> c = CHR ''_'')"

text \<open>The regular expression's word boundary before position \<open>k\<close>.\<close>

definition word_at :: "string \<Rightarrow> nat \<Rightarrow> bool" where
  "word_at s k = (k < length s \<and> is_word (s ! k))"

definition boundary :: "string \<Rightarrow> nat \<Rightarrow> bool" where
  "boundary s k = ((0 < k \<and> word_at s (k - 1)) \<noteq> word_at s k)"

definition keyword_at :: "string \<Rightarrow> nat \<Rightarrow> string \<Rightarrow> bool" where
  "keyword_at s k w =
     (k + length w \<le> length s \<and> to_lower (take (length w) (drop k s)) = to_lower w
      \<and> boundary s k \<and> boundary s (k + length w))"

definition keyword_search :: "string list \<Rightarrow> string \<Rightarrow> bool" where
  "keyword_search keywords s =
     list_ex (\<lambda>w. list_ex (\<lambda>k. keyword_at s k w) [0..<length s + 1])
       (filter (\<lambda>w. w \<noteq> []) (map strip keywords))"

definition narration_of :: "txn \<Rightarrow> string" where
  "narration_of t = str_or (t_narration_norm t) (str_or (t_narration t) [])"

definition has_regulatory_hold :: "txn \<Rightarrow> detection \<Rightarrow> bool" where
  "has_regulatory_hold t d = keyword_search (dt_hold_keywords d) (narration_of t)"

definition is_posted_reversal :: "txn \<Rightarrow> detection \<Rightarrow> bool" where
  "is_posted_reversal t d = (t_is_reversal t \<or> keyword_search (dt_reversal_keywords d) (narration_of t))"

section \<open>References, fees, dates\<close>

definition is_truncated_pair :: "txn \<Rightarrow> txn \<Rightarrow> detection \<Rightarrow> bool" where
  "is_truncated_pair i e d =
     (let a = str_or (t_ref i) []; b = str_or (t_ref e) [] in
      if a = [] \<or> b = [] \<or> a = b then False
      else (let (short, long) = (if length a < length b then (a, b) else (b, a)) in
            int (length short) = dt_cut_length d \<and> starts_with short long))"

definition expected_fee_minor :: "bank_config option \<Rightarrow> int \<Rightarrow> int option res" where
  "expected_fee_minor bank amount =
     (case bank of
        None \<Rightarrow> Inr None
      | Some b \<Rightarrow>
          (case bk_fee b of
             None \<Rightarrow> Inr None
           | Some f \<Rightarrow>
               bind_res (dec_div (dec_mul (of_int amount) (fs_percent f)) 100) (\<lambda>p.
                 Inr (Some (fs_fixed f + round_half_even p)))))"

definition fee_explains :: "txn \<Rightarrow> txn \<Rightarrow> pair_context \<Rightarrow> int option res" where
  "fee_explains i e ctx =
     bind_res (expected_fee_minor (pc_bank ctx) (t_amount_minor i)) (\<lambda>fee.
       (case (fee, Option.bind (pc_bank ctx) bk_fee) of
          (Some f, Some sched) \<Rightarrow>
            (let gap = (if t_direction i = CR then t_amount_minor i - t_amount_minor e
                        else t_amount_minor e - t_amount_minor i)
             in Inr (if 0 < f \<and> 0 < gap \<and> \<bar>gap - f\<bar> \<le> fs_tolerance sched then Some gap else None))
        | _ \<Rightarrow> Inr None))"

text \<open>A number printed with \<open>d\<close> decimal places, rounded half to even.\<close>

definition fixed_text :: "nat \<Rightarrow> rat \<Rightarrow> string" where
  "fixed_text d x =
     (let n = nat (round_half_even (\<bar>x\<bar> * of_nat (10 ^ d))) in
      (if x < 0 then ''-'' else []) @ nat_str (n div 10 ^ d) @ CHR ''.'' # zpad d (n mod 10 ^ d))"

text \<open>\<open>abs((a - b).total_seconds()) / 3600\<close> in floating point.\<close>

definition instant_gap_hours :: "txn \<Rightarrow> txn \<Rightarrow> rat" where
  "instant_gap_hours a b =
     float_div (float_div \<bar>of_int (t_timestamp a - t_timestamp b)\<bar> 1000000) 3600"

definition date_finding :: "txn \<Rightarrow> txn \<Rightarrow> pair_context \<Rightarrow> finding option" where
  "date_finding i e ctx =
     (if t_date i = t_date e then None
      else
        (let days = \<bar>t_date i - t_date e\<bar> in
         if days = 1 \<and> instant_gap_hours i e < of_int (dt_gap_hours (pc_detection ctx))
         then Some ((finding_of TIMEZONE_OFFSET
                (''dates differ by 1 day but the instants are '' @ fixed_text 1 (instant_gap_hours i e)
                 @ ''h apart: a timezone artefact''))\<lparr>fd_days := Some 1\<rparr>)
         else
           (let n = max 1 (int (business_days_between (pc_calendar ctx) (t_date i) (t_date e))) in
            Some ((finding_of DATE_MISMATCH
                (''dates differ by '' @ int_str n @ '' business day(s) ('' @ int_str days @ '' calendar)''))
                \<lparr>fd_days := Some n\<rparr>))))"

definition settled_on :: "txn \<Rightarrow> date" where
  "settled_on t = (case t_settlement t of None \<Rightarrow> t_date t | Some d \<Rightarrow> d)"

definition settlement_delay :: "txn \<Rightarrow> txn \<Rightarrow> pair_context \<Rightarrow> finding option" where
  "settlement_delay i e ctx =
     (let late = int (business_days_between (pc_calendar ctx) (t_date i) (settled_on e)) in
      if late \<le> pc_settlement_days ctx then None
      else Some ((finding_of SETTLEMENT_DELAY
             (''settled '' @ int_str late @ '' business day(s) after the transaction; the cycle is T+''
              @ int_str (pc_settlement_days ctx)))
             \<lparr>fd_days := Some late,
              fd_details := [(''settlement_date'', JStr (date_iso (settled_on e))),
                             (''allowed_days'', JInt (pc_settlement_days ctx))]\<rparr>))"

section \<open>Currency and amount\<close>

definition currency_plain :: "txn \<Rightarrow> txn \<Rightarrow> string" where
  "currency_plain i e = ''currency '' @ t_currency i @ '' internally but '' @ t_currency e @ '' at the bank''"

definition variance_finding :: "txn \<Rightarrow> txn \<Rightarrow> pair_context \<Rightarrow> int \<Rightarrow> int \<Rightarrow> rat \<Rightarrow> finding" where
  "variance_finding i e ctx mi me v =
     (if v \<le> pc_fx_tolerance ctx
      then finding_of CURRENCY_MISMATCH (currency_plain i e
             @ ''; the amounts agree after conversion (variance '' @ fixed_text 4 v @ ''%)'')
      else (finding_of FX_VARIANCE
              (t_currency i @ '' '' @ int_str (t_amount_minor i) @ '' vs '' @ t_currency e @ '' ''
               @ int_str (t_amount_minor e) @ '' minor units differ by '' @ fixed_text 4 v
               @ ''% after conversion (tolerance '' @ pc_text ctx (pc_fx_tolerance ctx) @ ''%)''))
             \<lparr>fd_variance := Some v,
              fd_details := [(''internal_inr_minor'', JInt mi), (''external_inr_minor'', JInt me)]\<rparr>)"

definition currency_finding :: "txn \<Rightarrow> txn \<Rightarrow> pair_context \<Rightarrow> finding res" where
  "currency_finding i e ctx =
     (case pc_quote ctx of
        None \<Rightarrow> Inr (finding_of CURRENCY_MISMATCH (currency_plain i e))
      | Some quote \<Rightarrow>
          (case (quote (t_currency i) (t_date i), quote (t_currency e) (t_date e)) of
             (Some a, Some b) \<Rightarrow>
               bind_res (to_inr_minor (pc_table ctx) (t_amount_minor i) (t_currency i) (q_rate_inr a)) (\<lambda>mi.
               bind_res (to_inr_minor (pc_table ctx) (t_amount_minor e) (t_currency e) (q_rate_inr b)) (\<lambda>me.
               bind_res (relative_difference_percent mi me) (\<lambda>v. Inr (variance_finding i e ctx mi me v))))
           | _ \<Rightarrow> Inr (finding_of CURRENCY_MISMATCH (currency_plain i e @ ''; no exchange rate is available''))))"

definition amount_finding :: "txn \<Rightarrow> txn \<Rightarrow> pair_context \<Rightarrow> finding res" where
  "amount_finding i e ctx =
     (let diff = \<bar>t_amount_minor i - t_amount_minor e\<bar> in
      bind_res (fee_explains i e ctx) (\<lambda>fee.
        Inr (case fee of
               Some f \<Rightarrow> (finding_of FEE_DEDUCTION
                   (''the bank took '' @ int_str f @ '' minor units, which is its published fee''))
                   \<lparr>fd_difference := Some diff, fd_details := [(''fee_minor'', JInt f)]\<rparr>
             | None \<Rightarrow> (finding_of AMOUNT_MISMATCH (''amounts differ by '' @ int_str diff @ '' minor unit(s)''))
                   \<lparr>fd_difference := Some diff\<rparr>)))"

section \<open>The analysis\<close>

definition hold_finding :: "txn \<Rightarrow> txn \<Rightarrow> pair_context \<Rightarrow> finding option" where
  "hold_finding i e ctx =
     (if has_regulatory_hold i (pc_detection ctx)
      then Some (finding_of REGULATORY_HOLD ''the internal record's narration marks it as held for compliance review'')
      else if has_regulatory_hold e (pc_detection ctx)
      then Some (finding_of REGULATORY_HOLD ''the external record's narration marks it as held for compliance review'')
      else None)"

definition truncation_finding :: "txn \<Rightarrow> txn \<Rightarrow> pair_context \<Rightarrow> rat option \<Rightarrow> finding" where
  "truncation_finding i e ctx conf =
     (finding_of REFERENCE_TRUNCATED
        (''reference '' @ str_or (t_ref e) [] @ '' is the bank's '' @ int_str (dt_cut_length (pc_detection ctx))
         @ ''-character cut of '' @ str_or (t_ref i) []))\<lparr>fd_confidence := conf\<rparr>"

definition opt_list :: "'a option \<Rightarrow> 'a list" where
  "opt_list v = (case v of None \<Rightarrow> [] | Some x \<Rightarrow> [x])"

definition analyse_matched :: "txn \<Rightarrow> txn \<Rightarrow> pair_context \<Rightarrow> finding option \<Rightarrow> rat option \<Rightarrow> finding list" where
  "analyse_matched i e ctx hold conf =
     opt_list hold
     @ (if is_truncated_pair i e (pc_detection ctx) then [truncation_finding i e ctx conf] else [])
     @ opt_list (date_finding i e ctx) @ opt_list (settlement_delay i e ctx)"

definition same_money :: "txn \<Rightarrow> txn \<Rightarrow> bool" where
  "same_money i e = (t_amount_minor i = t_amount_minor e \<and> t_currency i = t_currency e)"

definition direction_text :: "direction \<Rightarrow> string" where
  "direction_text d = (case d of DR \<Rightarrow> ''DR'' | CR \<Rightarrow> ''CR'')"

definition analyse_unmatched :: "txn \<Rightarrow> txn \<Rightarrow> pair_context \<Rightarrow> rat option \<Rightarrow> finding list res" where
  "analyse_unmatched i e ctx conf =
     (if t_direction i \<noteq> t_direction e then
        Inr (if same_money i e
             then [finding_of DIRECTION_REVERSAL
                     (''direction '' @ direction_text (t_direction i) @ '' internally but ''
                      @ direction_text (t_direction e) @ '' at the bank'')]
             else [])
      else if t_currency i \<noteq> t_currency e then
        bind_res (currency_finding i e ctx) (\<lambda>f. Inr [f])
      else if same_money i e \<and> is_truncated_pair i e (pc_detection ctx) then
        Inr [truncation_finding i e ctx conf]
      else if t_amount_minor i \<noteq> t_amount_minor e then
        bind_res (amount_finding i e ctx) (\<lambda>f. Inr [f])
      else Inr (opt_list (date_finding i e ctx)))"

definition analyse_pair :: "txn \<Rightarrow> txn \<Rightarrow> pair_context \<Rightarrow> bool \<Rightarrow> rat option \<Rightarrow> finding list res" where
  "analyse_pair i e ctx matched conf =
     (let hold = hold_finding i e ctx in
      if matched then Inr (analyse_matched i e ctx hold conf)
      else case hold of
          Some h \<Rightarrow> Inr [h]
        | None \<Rightarrow> analyse_unmatched i e ctx conf)"

section \<open>What a finding says about the pair\<close>

definition held_pair :: "txn \<Rightarrow> txn \<Rightarrow> pair_context \<Rightarrow> bool" where
  "held_pair i e ctx = (has_regulatory_hold i (pc_detection ctx) \<or> has_regulatory_hold e (pc_detection ctx))"

lemma hold_finding_iff: "hold_finding i e ctx = None \<longleftrightarrow> \<not> held_pair i e ctx"
  by (simp add: hold_finding_def held_pair_def)

lemma hold_finding_category: "hold_finding i e ctx = Some f \<Longrightarrow> fd_category f = REGULATORY_HOLD"
  by (auto simp: hold_finding_def finding_of_def split: if_splits)

lemma date_finding_None: "date_finding i e ctx = None \<longleftrightarrow> t_date i = t_date e"
  by (simp add: date_finding_def Let_def)

lemma date_finding_Some:
  "date_finding i e ctx = Some f \<Longrightarrow>
   fd_category f \<in> {TIMEZONE_OFFSET, DATE_MISMATCH} \<and> t_date i \<noteq> t_date e \<and> (\<exists>n \<ge> 1. fd_days f = Some n)"
  by (auto simp: date_finding_def Let_def finding_of_def split: if_splits)

lemma settlement_delay_category: "settlement_delay i e ctx = Some f \<Longrightarrow> fd_category f = SETTLEMENT_DELAY"
  by (auto simp: settlement_delay_def Let_def finding_of_def split: if_splits)

lemma truncation_category [simp]: "fd_category (truncation_finding i e ctx conf) = REFERENCE_TRUNCATED"
  by (simp add: truncation_finding_def finding_of_def)

lemma currency_finding_cases:
  "currency_finding i e ctx = Inr f \<Longrightarrow>
   fd_category f = CURRENCY_MISMATCH
   \<or> fd_category f = FX_VARIANCE \<and> (\<exists>v. fd_variance f = Some v \<and> pc_fx_tolerance ctx < v)"
  by (auto simp: currency_finding_def variance_finding_def res_iff finding_of_def split: option.splits if_splits)

lemma fee_explains_Some:
  assumes "fee_explains i e ctx = Inr (Some g)"
  shows "0 < g \<and> g \<le> \<bar>t_amount_minor i - t_amount_minor e\<bar>
   \<and> (\<exists>b s f. pc_bank ctx = Some b \<and> bk_fee b = Some s
        \<and> expected_fee_minor (Some b) (t_amount_minor i) = Inr (Some f) \<and> 0 < f \<and> \<bar>g - f\<bar> \<le> fs_tolerance s)"
proof -
  obtain fee where fee: "expected_fee_minor (pc_bank ctx) (t_amount_minor i) = Inr fee"
    using assms by (auto simp: fee_explains_def res_iff)
  obtain f where f: "fee = Some f" using assms fee by (cases fee) (auto simp: fee_explains_def)
  obtain s where s: "Option.bind (pc_bank ctx) bk_fee = Some s"
    using assms fee f by (cases "Option.bind (pc_bank ctx) bk_fee") (auto simp: fee_explains_def)
  then obtain b where b: "pc_bank ctx = Some b" "bk_fee b = Some s" by (cases "pc_bank ctx") auto
  show ?thesis using assms fee f s b by (auto simp: fee_explains_def Let_def split: if_splits)
qed

lemma amount_finding_cases:
  assumes "amount_finding i e ctx = Inr f"
  shows "fd_difference f = Some \<bar>t_amount_minor i - t_amount_minor e\<bar>
     \<and> (fd_category f = AMOUNT_MISMATCH
        \<or> fd_category f = FEE_DEDUCTION \<and> (\<exists>g. fee_explains i e ctx = Inr (Some g)))"
proof -
  obtain fee where "fee_explains i e ctx = Inr fee" using assms by (auto simp: amount_finding_def Let_def res_iff)
  then show ?thesis using assms by (cases fee) (auto simp: amount_finding_def Let_def finding_of_def)
qed

text \<open>A pair without a finding is unrelated (the other direction and other money)
  or the same in everything the analysis compares.\<close>

definition nothing_to_say :: "txn \<Rightarrow> txn \<Rightarrow> pair_context \<Rightarrow> bool" where
  "nothing_to_say i e ctx =
     (\<not> held_pair i e ctx
      \<and> (if t_direction i = t_direction e
         then same_money i e \<and> t_date i = t_date e \<and> \<not> is_truncated_pair i e (pc_detection ctx)
         else \<not> same_money i e))"

text \<open>What each category claims of the two transactions.\<close>

definition finding_true :: "txn \<Rightarrow> txn \<Rightarrow> pair_context \<Rightarrow> finding \<Rightarrow> bool" where
  "finding_true i e ctx f =
     (case fd_category f of
        REGULATORY_HOLD \<Rightarrow> held_pair i e ctx
      | DIRECTION_REVERSAL \<Rightarrow> t_direction i \<noteq> t_direction e \<and> same_money i e
      | CURRENCY_MISMATCH \<Rightarrow> t_currency i \<noteq> t_currency e
      | FX_VARIANCE \<Rightarrow> t_currency i \<noteq> t_currency e \<and> above (fd_variance f) (pc_fx_tolerance ctx)
      | REFERENCE_TRUNCATED \<Rightarrow> same_money i e \<and> is_truncated_pair i e (pc_detection ctx)
      | AMOUNT_MISMATCH \<Rightarrow> t_currency i = t_currency e \<and> t_amount_minor i \<noteq> t_amount_minor e
          \<and> fd_difference f = Some \<bar>t_amount_minor i - t_amount_minor e\<bar>
      | FEE_DEDUCTION \<Rightarrow> t_currency i = t_currency e \<and> (\<exists>g > 0. fee_explains i e ctx = Inr (Some g))
      | TIMEZONE_OFFSET \<Rightarrow> same_money i e \<and> \<bar>t_date i - t_date e\<bar> = 1
      | DATE_MISMATCH \<Rightarrow> same_money i e \<and> t_date i \<noteq> t_date e
      | _ \<Rightarrow> False)"

lemma date_finding_true:
  "\<lbrakk>date_finding i e ctx = Some f; same_money i e\<rbrakk> \<Longrightarrow> finding_true i e ctx f"
  by (auto simp: date_finding_def Let_def finding_of_def finding_true_def split: if_splits)

lemma unmatched_true:
  assumes "analyse_unmatched i e ctx conf = Inr fs" "f \<in> set fs"
  shows "finding_true i e ctx f"
proof -
  consider
      (dir) "t_direction i \<noteq> t_direction e" "same_money i e" "fd_category f = DIRECTION_REVERSAL"
    | (cur) "t_currency i \<noteq> t_currency e" "currency_finding i e ctx = Inr f"
    | (cut) "same_money i e" "is_truncated_pair i e (pc_detection ctx)" "f = truncation_finding i e ctx conf"
    | (amt) "t_currency i = t_currency e" "t_amount_minor i \<noteq> t_amount_minor e" "amount_finding i e ctx = Inr f"
    | (day) "same_money i e" "date_finding i e ctx = Some f"
    using assms by (auto simp: analyse_unmatched_def res_iff opt_list_def finding_of_def same_money_def
        split: if_splits option.splits)
  then show ?thesis
  proof cases
    case dir then show ?thesis by (simp add: finding_true_def)
  next
    case cur
    then show ?thesis using currency_finding_cases[OF cur(2)] by (auto simp: finding_true_def above_def)
  next
    case cut then show ?thesis by (simp add: finding_true_def)
  next
    case amt
    then show ?thesis using amount_finding_cases[OF amt(3)] fee_explains_Some by (auto simp: finding_true_def)
  next
    case day then show ?thesis using date_finding_true by blast
  qed
qed

lemma unmatched_count:
  assumes "analyse_unmatched i e ctx conf = Inr fs"
  shows "length fs \<le> 1 \<and> (fs = [] \<longleftrightarrow> (if t_direction i = t_direction e
         then same_money i e \<and> t_date i = t_date e \<and> \<not> is_truncated_pair i e (pc_detection ctx)
         else \<not> same_money i e))"
  using assms date_finding_None[of i e ctx]
  by (auto simp: analyse_unmatched_def res_iff opt_list_def same_money_def split: if_splits option.splits)

text \<open>C22. The analysis of an unmatched pair names at most one category; what it names is
  true of the two transactions, a compliance hold comes before everything, and it
  is silent exactly on identical and on unrelated pairs.\<close>

theorem unmatched_pair_verdict:
  assumes "analyse_pair i e ctx False conf = Inr fs"
  shows "length fs \<le> 1 \<and> (fs = [] \<longleftrightarrow> nothing_to_say i e ctx)
     \<and> (\<forall>f \<in> set fs. finding_true i e ctx f \<and> (held_pair i e ctx \<longrightarrow> fd_category f = REGULATORY_HOLD))"
proof (cases "hold_finding i e ctx")
  case None
  then have u: "analyse_unmatched i e ctx conf = Inr fs" using assms by (simp add: analyse_pair_def Let_def)
  have "\<not> held_pair i e ctx" using None by (simp add: hold_finding_iff)
  then show ?thesis using unmatched_true[OF u] unmatched_count[OF u] unfolding nothing_to_say_def by blast
next
  case (Some h)
  then have "held_pair i e ctx" using hold_finding_iff[of i e ctx] by simp
  moreover have "fs = [h]" using assms Some by (simp add: analyse_pair_def Let_def)
  ultimately show ?thesis using hold_finding_category[OF Some] by (simp add: nothing_to_say_def finding_true_def)
qed

lemma matched_categories:
  assumes "analyse_pair i e ctx True conf = Inr fs"
  shows "distinct (map fd_category fs)
     \<and> fd_category ` set fs \<subseteq> {REGULATORY_HOLD, REFERENCE_TRUNCATED, TIMEZONE_OFFSET, DATE_MISMATCH, SETTLEMENT_DELAY}"
  using assms hold_finding_category[of i e ctx] date_finding_Some[of i e ctx] settlement_delay_category[of i e ctx]
  by (auto simp: analyse_pair_def Let_def analyse_matched_def opt_list_def split: option.splits)

text \<open>The business day count has no sign: a settlement that many business days
  before the transaction is reported as that many days late.\<close>

lemma early_settlement_reported_late:
  assumes "t_settlement e = Some d" "d < t_date i"
    and "pc_settlement_days ctx < int (business_days_between (pc_calendar ctx) d (t_date i))"
  shows "\<exists>f. settlement_delay i e ctx = Some f \<and> fd_category f = SETTLEMENT_DELAY"
proof -
  have "business_days_between (pc_calendar ctx) (t_date i) d = business_days_between (pc_calendar ctx) d (t_date i)"
    using assms(2) by (simp add: business_days_between_def)
  then show ?thesis using assms by (auto simp: settlement_delay_def settled_on_def Let_def finding_of_def)
qed

section \<open>Witness\<close>

definition sample_pair_context :: pair_context where
  "sample_pair_context =
     \<lparr>pc_detection = default_detection, pc_calendar = \<lparr>cal_name = ''in'', holidays = [], years = []\<rparr>,
      pc_bank = None, pc_quote = None, pc_fx_tolerance = 3 / 2, pc_table = default_exponents, pc_text = (\<lambda>_. [])\<rparr>"

lemma no_narration_no_hold: "narration_of t = [] \<Longrightarrow> \<not> has_regulatory_hold t default_detection"
  by (simp add: has_regulatory_hold_def keyword_search_def default_detection_def list_ex_iff keyword_at_def
      strip_def lstrip_def rstrip_def is_space_def code_def)

theorem unmatched_pair_verdict_witness:
  "\<exists>f. analyse_pair (sample_txn 3 INTERNAL 500 ''REF1'' 10) (sample_txn 4 EXTERNAL 507 ''REF1'' 10)
       sample_pair_context False None = Inr [f]
     \<and> fd_category f = AMOUNT_MISMATCH
     \<and> finding_true (sample_txn 3 INTERNAL 500 ''REF1'' 10) (sample_txn 4 EXTERNAL 507 ''REF1'' 10) sample_pair_context f"
proof -
  let ?i = "sample_txn 3 INTERNAL 500 ''REF1'' 10" and ?e = "sample_txn 4 EXTERNAL 507 ''REF1'' 10"
  have "\<not> has_regulatory_hold t default_detection" if "t = ?i \<or> t = ?e" for t
    using that by (intro no_narration_no_hold) (auto simp: narration_of_def str_or_def sample_txn_def)
  then have h: "hold_finding ?i ?e sample_pair_context = None"
    by (simp add: hold_finding_def sample_pair_context_def)
  have "\<exists>f. analyse_pair ?i ?e sample_pair_context False None = Inr [f] \<and> fd_category f = AMOUNT_MISMATCH"
    unfolding analyse_pair_def h Let_def
    by (simp add: analyse_unmatched_def same_money_def amount_finding_def fee_explains_def expected_fee_minor_def
        sample_pair_context_def sample_txn_def finding_of_def)
  then show ?thesis using unmatched_pair_verdict by fastforce
qed

end
