(* ===== verification/PyFormat.thy ===== *)
theory PyFormat
  imports PyDecimal Clock
begin

text \<open>
  Python's text operations the ingestion and alerting code uses: \<open>replace\<close>, \<open>join\<close>,
  \<open>repr\<close> of a string, fixed point formatting of a Decimal, and \<open>datetime.strptime\<close>
  with the directives of the shipped bank configurations (\<open>%d %m %Y %y %H %M %S %%\<close>).
  Formats with other directives, or with one directive twice, are refused.
\<close>

section \<open>Strings\<close>

text \<open>\<open>s.replace(old, new)\<close> for a non-empty \<open>old\<close>; the count bounds the recursion.\<close>

fun replace_steps :: "nat \<Rightarrow> string \<Rightarrow> string \<Rightarrow> string \<Rightarrow> string" where
  "replace_steps 0 old new s = s"
| "replace_steps (Suc n) old new [] = []"
| "replace_steps (Suc n) old new (c # s) =
     (if old \<noteq> [] \<and> starts_with old (c # s) then new @ replace_steps n old new (drop (length old) (c # s))
      else c # replace_steps n old new s)"

definition replace_all :: "string \<Rightarrow> string \<Rightarrow> string \<Rightarrow> string" where
  "replace_all old new s = replace_steps (length s) old new s"

fun join_with :: "string \<Rightarrow> string list \<Rightarrow> string" where
  "join_with sep [] = []"
| "join_with sep [x] = x"
| "join_with sep (x # y # xs) = x @ sep @ join_with sep (y # xs)"

text \<open>\<open>s.split(c)\<close> for one character.\<close>

fun split_on :: "char \<Rightarrow> string \<Rightarrow> string list" where
  "split_on c [] = [[]]"
| "split_on c (x # s) =
     (if x = c then [] # split_on c s
      else (case split_on c s of [] \<Rightarrow> [[x]] | p # ps \<Rightarrow> (x # p) # ps))"

definition hex_of :: "nat \<Rightarrow> char" where
  "hex_of n = (if n < 10 then char_of (48 + n) else char_of (87 + n))"

definition repr_char :: "char \<Rightarrow> char \<Rightarrow> string" where
  "repr_char q c =
     (if c = q \<or> c = CHR 0x5C then [CHR 0x5C, c]
      else if c = CHR 0x0A then [CHR 0x5C, CHR ''n''] else if c = CHR 0x0D then [CHR 0x5C, CHR ''r'']
      else if c = CHR 0x09 then [CHR 0x5C, CHR ''t'']
      else if code c < 32 \<or> code c = 127 then [CHR 0x5C, CHR ''x'', hex_of (code c div 16), hex_of (code c mod 16)]
      else [c])"

definition repr_str :: "string \<Rightarrow> string" where
  "repr_str s =
     (let q = (if CHR 0x27 \<in> set s \<and> CHR 0x22 \<notin> set s then CHR 0x22 else CHR 0x27)
      in q # concat (map (repr_char q) s) @ [q])"

section \<open>Fixed point\<close>

text \<open>\<open>f"{x:.kf}"\<close> of a Decimal.\<close>

definition fixed :: "nat \<Rightarrow> rat \<Rightarrow> string" where
  "fixed k x =
     (let m = round_half_even (\<bar>x\<bar> * 10 ^ k); n = nat m in
      (if x < 0 then [CHR ''-''] else [])
      @ nat_str (n div 10 ^ k) @ (if k = 0 then [] else CHR ''.'' # zpad k (n mod 10 ^ k)))"

fun groups3 :: "string \<Rightarrow> string" where
  "groups3 (a # b # c # d # s) = a # b # c # CHR '','' # groups3 (d # s)"
| "groups3 s = s"

text \<open>\<open>f"{x:,.kf}"\<close> of a Decimal that is not negative.\<close>

definition fixed_commas :: "nat \<Rightarrow> rat \<Rightarrow> string" where
  "fixed_commas k x =
     (let t = fixed k x; i = takeWhile (\<lambda>c. c \<noteq> CHR ''.'') t
      in rev (groups3 (rev i)) @ drop (length i) t)"

section \<open>Date formats\<close>

datatype format_token = Lit char | Blank | Dir char

declare length_dropWhile_le [termination_simp]

fun format_tokens :: "string \<Rightarrow> format_token list option" where
  "format_tokens [] = Some []"
| "format_tokens [c] =
     (if c = CHR ''%'' then None else Some [if is_space c then Blank else Lit c])"
| "format_tokens (c # d # r) =
     (if c = CHR ''%'' then
        (if d \<in> set ''dmYyHMS'' then map_option ((#) (Dir d)) (format_tokens r)
         else if d = CHR ''%'' then map_option ((#) (Lit d)) (format_tokens r) else None)
      else if is_space c then map_option ((#) Blank) (format_tokens (dropWhile is_space (d # r)))
      else map_option ((#) (Lit c)) (format_tokens (d # r)))"

definition two_digits :: "nat \<Rightarrow> nat \<Rightarrow> string \<Rightarrow> (nat \<times> string) list" where
  "two_digits lo hi s =
     (case s of a # b # r \<Rightarrow>
        if is_digit a \<and> is_digit b \<and> lo \<le> digits_val [a, b] \<and> digits_val [a, b] \<le> hi then [(digits_val [a, b], r)] else []
      | _ \<Rightarrow> [])"

definition one_digit :: "nat \<Rightarrow> string \<Rightarrow> (nat \<times> string) list" where
  "one_digit lo s = (case s of a # r \<Rightarrow> if is_digit a \<and> lo \<le> digit_of a then [(digit_of a, r)] else [] | [] \<Rightarrow> [])"

text \<open>What a directive can match at the start of the text, in the order the
  alternatives of its regular expression are tried.\<close>

definition dir_options :: "char \<Rightarrow> string \<Rightarrow> (nat \<times> string) list" where
  "dir_options c s =
     (if c = CHR ''d'' then
        two_digits 1 31 s @ one_digit 1 s @ (case s of a # r \<Rightarrow> if a = CHR '' '' then one_digit 1 r else [] | [] \<Rightarrow> [])
      else if c = CHR ''m'' then two_digits 1 12 s @ one_digit 1 s
      else if c = CHR ''H'' then two_digits 0 23 s @ one_digit 0 s
      else if c = CHR ''M'' then two_digits 0 59 s @ one_digit 0 s
      else if c = CHR ''S'' then two_digits 0 61 s @ one_digit 0 s
      else if c = CHR ''y'' then two_digits 0 99 s
      else if c = CHR ''Y'' \<and> 4 \<le> length s \<and> list_all is_digit (take 4 s) then [(digits_val (take 4 s), drop 4 s)]
      else [])"

text \<open>The ways to match the tokens at the start of the text, as a backtracking matcher
  finds them: the fields and what is left.\<close>

fun scan_tokens :: "format_token list \<Rightarrow> string \<Rightarrow> ((char \<times> nat) list \<times> string) list" where
  "scan_tokens [] s = [([], s)]"
| "scan_tokens (Lit c # ts) s =
     (case s of [] \<Rightarrow> [] | x # r \<Rightarrow> if lower_char x = lower_char c then scan_tokens ts r else [])"
| "scan_tokens (Blank # ts) s =
     concat (map (\<lambda>k. scan_tokens ts (drop k s)) (rev [1..<length (takeWhile is_space s) + 1]))"
| "scan_tokens (Dir d # ts) s =
     concat (map (\<lambda>(v, r). map (\<lambda>(fs, e). ((d, v) # fs, e)) (scan_tokens ts r)) (dir_options d s))"

definition is_dir :: "format_token \<Rightarrow> bool" where
  "is_dir t = (case t of Dir _ \<Rightarrow> True | _ \<Rightarrow> False)"

definition field_or :: "nat \<Rightarrow> char \<Rightarrow> (char \<times> nat) list \<Rightarrow> nat" where
  "field_or dflt c fs = (case map_of fs c of None \<Rightarrow> dflt | Some v \<Rightarrow> v)"

text \<open>The year of the last year directive; two digits are 1969 to 2068.\<close>

definition year_of_fields :: "(char \<times> nat) list \<Rightarrow> nat" where
  "year_of_fields fs =
     fold (\<lambda>(c, v) y. if c = CHR ''Y'' then v
                      else if c = CHR ''y'' then (if v \<le> 68 then 2000 + v else 1900 + v) else y) fs 1900"

definition strptime :: "string \<Rightarrow> string \<Rightarrow> (date \<times> int) option" where
  "strptime s fmt =
     (case format_tokens fmt of
        None \<Rightarrow> None
      | Some ts \<Rightarrow>
          if \<not> distinct (filter is_dir ts) then None
          else (case scan_tokens ts s of
                  (fs, []) # _ \<Rightarrow>
                    if 59 < field_or 0 (CHR ''S'') fs then None
                    else map_option (\<lambda>d. (d, int (field_or 0 (CHR ''H'') fs) * hour_micros
                                            + int (field_or 0 (CHR ''M'') fs) * minute_micros
                                            + int (field_or 0 (CHR ''S'') fs) * second_micros))
                           (make_date (int (year_of_fields fs)) (int (field_or 1 (CHR ''m'') fs))
                              (int (field_or 1 (CHR ''d'') fs)))
                | _ \<Rightarrow> None))"

lemma strptime_examples:
  "strptime ''260918'' ''%y%m%d'' = map_option (\<lambda>d. (d, 0)) (make_date 2026 9 18)"
  "strptime ''18/9/2026'' ''%d/%m/%Y'' = map_option (\<lambda>d. (d, 0)) (make_date 2026 9 18)"
  "strptime ''18-09-2026 23:40'' ''%d-%m-%Y %H:%M'' = map_option (\<lambda>d. (d, 85200000000)) (make_date 2026 9 18)"
  "strptime ''31-04-2026'' ''%d-%m-%Y'' = None" "strptime ''2026-09-18x'' ''%Y-%m-%d'' = None"
  by code_simp+

lemma text_examples:
  "replace_all '','' '''' ''1,234,567'' = ''1234567''" "split_on CHR '' '' ''a b'' = [''a'', ''b'']"
  "join_with '', '' [''x'', ''y'', ''z''] = ''x, y, z''"
  by (simp_all add: replace_all_def starts_with_def)

section \<open>Facts\<close>

lemma dir_options_bound: "(v, r) \<in> set (dir_options c s) \<Longrightarrow> length r < length s"
  by (auto simp: dir_options_def two_digits_def one_digit_def split: if_splits list.splits)

lemma div_pred:
  assumes "0 < (k::int)"
  shows "y div k = (y - 1) div k + (if y mod k = 0 then 1 else 0)"
proof (cases "y mod k = 0")
  case True
  then have "k * (y div k) = y" using mult_div_mod_eq[of k y] by simp
  then have "y - 1 = k * (y div k - 1) + (k - 1)" by (simp add: right_diff_distrib)
  then have "(y - 1) div k = y div k - 1" using int_div_pos_eq[of "y - 1" k "y div k - 1" "k - 1"] assms by simp
  then show ?thesis using True by simp
next
  case False
  have "0 \<le> y mod k" "y mod k < k" using assms by simp_all
  then have "y - 1 = k * (y div k) + (y mod k - 1)" "0 \<le> y mod k - 1" "y mod k - 1 < k"
    using False by (simp_all add: algebra_simps)
  then have "(y - 1) div k = y div k" by (rule int_div_pos_eq)
  then show ?thesis using False by simp
qed

lemma year_length: "days_before_year (y + 1) = days_before_year y + 365 + (if is_leap y then 1 else 0)"
proof -
  have "y mod 400 = 0 \<Longrightarrow> y mod 100 = 0" "y mod 100 = 0 \<Longrightarrow> y mod 4 = 0"
    using dvd_trans[of 100 400 y] dvd_trans[of 4 100 y] by (simp_all add: mod_eq_0_iff_dvd)
  moreover have "y div 4 = (y - 1) div 4 + (if y mod 4 = 0 then 1 else 0)"
    "y div 100 = (y - 1) div 100 + (if y mod 100 = 0 then 1 else 0)"
    "y div 400 = (y - 1) div 400 + (if y mod 400 = 0 then 1 else 0)" by (rule div_pred; simp)+
  moreover have "y + 1 - 1 = y" by simp
  ultimately show ?thesis unfolding days_before_year_def is_leap_def Let_def
    by (smt (verit, del_insts))
qed

lemma days_before_year_mono: "x \<le> y \<Longrightarrow> days_before_year x \<le> days_before_year y"
proof (induction rule: int_ge_induct)
  case (step i)
  then show ?case using days_before_year_less[of i] by linarith
qed simp

lemma make_date_range: "make_date y m d = Some n \<Longrightarrow> 1 \<le> n \<and> n \<le> max_ordinal"
proof -
  assume a: "make_date y m d = Some n"
  then have b: "1 \<le> y" "y \<le> 9999" "1 \<le> m" "m \<le> 12" "1 \<le> d" "d \<le> days_in_month y m"
    and n: "n = days_before_year y + days_before_month y m + d" by (auto simp: make_date_def split: if_splits)
  have "m \<in> {1, 2, 3, 4, 5, 6, 7, 8, 9, 10, 11, 12}" using b(3,4) by simp presburger
  then have "0 \<le> days_before_month y m \<and> days_before_month y m + d \<le> 365 + (if is_leap y then 1 else 0)"
    using b(6) by (elim insertE) (auto simp: days_before_month_def days_in_month_def upto.simps)
  moreover have "days_before_year 1 \<le> days_before_year y" "days_before_year (y + 1) \<le> days_before_year 10000"
    using b(1,2) by (auto intro: days_before_year_mono)
  moreover have "days_before_year 1 = 0" "days_before_year 10000 = max_ordinal" by code_simp+
  ultimately show ?thesis using year_length[of y] b(5) by (simp add: n)
qed

lemma strptime_range: "strptime s f = Some (d, u) \<Longrightarrow> 1 \<le> d \<and> d \<le> max_ordinal"
  by (auto simp: strptime_def split: option.splits if_splits list.splits prod.splits dest: make_date_range)

end
