(* ===== verification/Rows.thy ===== *)
theory Rows
  imports PyFormat Rules
begin

text \<open>
  What ingestion hands on (\<open>src/recon/ingestion/parsed_row.py\<close>) and stores
  (\<open>persistence/models/ingestion.py\<close>): parsed rows with their errors, files, raw rows.
  A dict of strings is an association list in insertion order.
\<close>

section \<open>Parsed rows\<close>

datatype parse_error_code = MISSING_REQUIRED_FIELD | INVALID_DATE | INVALID_AMOUNT | DUPLICATE_HEADER
  | ENCODING_ERROR | ROW_LENGTH_MISMATCH | MALFORMED_FIELD

definition parse_code_text :: "parse_error_code \<Rightarrow> string" where
  "parse_code_text c =
     (case c of MISSING_REQUIRED_FIELD \<Rightarrow> ''MISSING_REQUIRED_FIELD'' | INVALID_DATE \<Rightarrow> ''INVALID_DATE''
      | INVALID_AMOUNT \<Rightarrow> ''INVALID_AMOUNT'' | DUPLICATE_HEADER \<Rightarrow> ''DUPLICATE_HEADER''
      | ENCODING_ERROR \<Rightarrow> ''ENCODING_ERROR'' | ROW_LENGTH_MISMATCH \<Rightarrow> ''ROW_LENGTH_MISMATCH''
      | MALFORMED_FIELD \<Rightarrow> ''MALFORMED_FIELD'')"

record parse_error =
  pe_code :: parse_error_code
  pe_field :: "string option"
  pe_detail :: string

type_synonym fields = "(string \<times> string) list"

record parsed_row =
  pr_line :: int
  pr_raw :: fields
  pr_mapped :: fields
  pr_errors :: "parse_error list"

definition row_valid :: "parsed_row \<Rightarrow> bool" where
  "row_valid r = (pr_errors r = [])"

definition field_of :: "string \<Rightarrow> fields \<Rightarrow> string" where
  "field_of k fs = (case map_of fs k of None \<Rightarrow> [] | Some v \<Rightarrow> v)"

definition field_get :: "string \<Rightarrow> fields \<Rightarrow> string res" where
  "field_get k fs = (case map_of fs k of None \<Rightarrow> Inl KeyError | Some v \<Rightarrow> Inr v)"

section \<open>Stored files and rows\<close>

datatype source_format = CSV | MT940 | CAMT053 | INTERNAL_LEDGER
datatype file_status = FILE_PENDING | FILE_PARSED | PARTIALLY_PARSED | FILE_FAILED | REJECTED_DUPLICATE
datatype integrity = INTEGRITY_OK | TAMPERED | FILE_MISSING
datatype row_status = ROW_PENDING | PARSED | ROW_FAILED | QUARANTINED

definition format_text :: "source_format \<Rightarrow> string" where
  "format_text f = (case f of CSV \<Rightarrow> ''CSV'' | MT940 \<Rightarrow> ''MT940'' | CAMT053 \<Rightarrow> ''CAMT053'' | INTERNAL_LEDGER \<Rightarrow> ''INTERNAL_LEDGER'')"

record ingest_file =
  if_id :: nat
  if_bank :: string
  if_format :: source_format
  if_name :: string
  if_sha :: string
  if_bytes :: nat
  if_at :: instant
  if_by :: string
  if_source :: "side option"
  if_path :: "string option"
  if_integrity :: "integrity option"
  if_checked :: "instant option"
  if_scanned :: "instant option"
  if_status :: file_status
  if_records :: nat
  if_errors :: nat

record raw_row =
  rw_id :: nat
  rw_file :: nat
  rw_line :: "int option"
  rw_raw :: fields
  rw_mapped :: fields
  rw_status :: row_status
  rw_errors :: "parse_error list"

definition rw_codes :: "raw_row \<Rightarrow> string list" where
  "rw_codes r = map (parse_code_text \<circ> pe_code) (rw_errors r)"

definition line_key :: "int option \<Rightarrow> bool \<times> int" where
  "line_key l = (l = None, case l of None \<Rightarrow> 0 | Some n \<Rightarrow> n)"

end
