(* ===== verification/Classifier.thy ===== *)
theory Classifier
  imports Escalation PairAnalysis Rows
begin

text \<open>
  \<open>src/recon/excmgmt/classifier.py\<close>: quarantined rows, unmatched leftovers, review
  pairs, matched pairs and group matches become candidates, and candidates become
  routed, stored exceptions. Queries without an order keep the order in which rows
  were stored; an order by creation time and id is that order too, because ids grow.
  Keys are read in one piece, not in chunks. The fields of \<open>classifier\<close> are the
  services it is built with and the rows of the ingestion tables; \<open>ce_why\<close> is the
  rationale stored with a match result, \<open>ce_quote\<close> the rate service's answer.
\<close>

section \<open>Inputs\<close>

record classifier =
  ce_sha :: "string \<Rightarrow> string"
  ce_taxonomy :: taxonomy
  ce_banks :: "string \<Rightarrow> bank_config option"
  ce_calendars :: "string \<Rightarrow> calendar res"
  ce_quote :: "(string \<Rightarrow> date \<Rightarrow> fx_quote option) option"
  ce_table :: exponents
  ce_text :: "rat \<Rightarrow> string"
  ce_files :: "ingest_file list"
  ce_raws :: "raw_row list"
  ce_why :: "result \<Rightarrow> string"

record candidate =
  cd_category :: category
  cd_key :: string
  cd_bank :: string
  cd_affected :: affected
  cd_rationale :: string
  cd_currency :: "string option"
  cd_inr :: "int option"
  cd_difference :: "int option"
  cd_days :: "int option"
  cd_confidence :: "rat option"
  cd_variance :: "rat option"
  cd_date :: "date option"
  cd_file :: "nat option"

record class_outcome =
  oc_created :: nat
  oc_skipped :: nat
  oc_by_category :: "(category \<times> nat) list"

definition suggested_resolution :: "category \<Rightarrow> string" where
  "suggested_resolution c =
     (case c of
        FORMAT_ERROR \<Rightarrow> ''Inspect the source file and bank configuration; correct and re-ingest.''
      | MISSING_INTERNAL \<Rightarrow> ''Find the transaction in the internal ledger; post it if it is genuine.''
      | MISSING_EXTERNAL \<Rightarrow> ''Check the bank statement and settlement timing; chase the bank if overdue.''
      | DIRECTION_REVERSAL \<Rightarrow> ''Escalate to compliance: one side booked the debit/credit direction wrongly.''
      | CURRENCY_MISMATCH \<Rightarrow> ''Confirm the transaction currency with both sources and correct the wrong side.''
      | AMOUNT_MISMATCH \<Rightarrow> ''Compare the amounts; correct the wrong side or record a fee or adjustment.''
      | DATE_MISMATCH \<Rightarrow> ''Check booking versus value dates and settlement timing.''
      | DUPLICATE_INTERNAL \<Rightarrow> ''Void the duplicate ledger entry and link it to the original.''
      | DUPLICATE_EXTERNAL \<Rightarrow>
          ''Confirm with the bank whether the settlement was processed twice; do not double-count.''
      | STALE_TRANSACTION \<Rightarrow>
          ''Investigate why it is still unmatched past the window; chase the bank or write off with approval.''
      | PARTIAL_MATCH \<Rightarrow>
          ''One internal transaction was settled in several parts that sum to it; confirm the grouping.''
      | NETTED_SETTLEMENT \<Rightarrow>
          ''Several internal transactions were netted into one bank entry that sums to them; confirm the grouping.''
      | FEE_DEDUCTION \<Rightarrow> ''Post an adjustment for the bank's fee so the ledger reflects what was settled.''
      | FX_VARIANCE \<Rightarrow>
          ''Compare the booking rate with the RBI reference rate; claim the difference from the bank or write it off with approval.''
      | REFERENCE_TRUNCATED \<Rightarrow> ''The bank cut the reference; match on the shared prefix and confirm the rest.''
      | TIMEZONE_OFFSET \<Rightarrow>
          ''The dates differ only because of timezone conversion; re-match on the adjusted date.''
      | REVERSAL_PENDING \<Rightarrow>
          ''A reversal is posted internally but not yet settled by the bank; chase the bank for the reversing entry.''
      | REGULATORY_HOLD \<Rightarrow> ''Hold for compliance review; do not release or write off without sign-off.''
      | SETTLEMENT_DELAY \<Rightarrow>
          ''Settlement ran past the cycle the bank is bound to; raise it with the bank and track against the RBI timeline.'')"

section \<open>Context\<close>

definition context_of :: "classifier \<Rightarrow> string \<Rightarrow> pair_context res" where
  "context_of ce bank =
     (let b = ce_banks ce bank in
      bind_res (ce_calendars ce (case b of None \<Rightarrow> ''in'' | Some c \<Rightarrow> bk_calendar c)) (\<lambda>cal.
        Inr \<lparr>pc_detection = tx_detection (ce_taxonomy ce), pc_calendar = cal, pc_bank = b,
             pc_quote = ce_quote ce, pc_fx_tolerance = (case b of None \<Rightarrow> 3 / 2 | Some c \<Rightarrow> bk_fx_tolerance c),
             pc_table = ce_table ce, pc_text = ce_text ce\<rparr>))"

definition inr_minor :: "classifier \<Rightarrow> txn \<Rightarrow> int option res" where
  "inr_minor ce t =
     (if t_currency t = ''INR'' then Inr (Some (t_amount_minor t))
      else case ce_quote ce of
          None \<Rightarrow> Inr None
        | Some quote \<Rightarrow>
            (case quote (t_currency t) (t_date t) of
               None \<Rightarrow> Inr None
             | Some q \<Rightarrow>
                 bind_res (to_inr_minor (ce_table ce) (t_amount_minor t) (t_currency t) (q_rate_inr q)) (\<lambda>m. Inr (Some m))))"

section \<open>Candidates\<close>

definition txn_key :: "category \<Rightarrow> nat \<Rightarrow> string" where
  "txn_key c i = category_text c @ '':txn:'' @ uuid_str i"

definition pair_key :: "category \<Rightarrow> nat \<Rightarrow> nat \<Rightarrow> string" where
  "pair_key c i e = category_text c @ '':pair:'' @ uuid_str i @ CHR '':'' # uuid_str e"

definition matched_key :: "category \<Rightarrow> nat \<Rightarrow> string" where
  "matched_key c r = category_text c @ '':matched:'' @ uuid_str r"

text \<open>An optional text in an f-string.\<close>

definition shown :: "string option \<Rightarrow> string" where
  "shown v = (case v of None \<Rightarrow> ''None'' | Some s \<Rightarrow> s)"

definition pair_candidate ::
    "classifier \<Rightarrow> string \<Rightarrow> txn \<Rightarrow> txn \<Rightarrow> finding \<Rightarrow> string \<Rightarrow> nat option \<Rightarrow> bool \<Rightarrow> candidate res" where
  "pair_candidate ce bank i e f key mid already =
     bind_res (inr_minor ce e) (\<lambda>inr.
       Inr \<lparr>cd_category = fd_category f, cd_key = key, cd_bank = bank,
            cd_affected = Pair_of (t_id i) (t_id e) mid already (fd_details f),
            cd_rationale = ''Reference '' @ shown (t_ref e) @ '': '' @ fd_why f @ ''.'',
            cd_currency = Some (t_currency e), cd_inr = inr, cd_difference = fd_difference f, cd_days = fd_days f,
            cd_confidence = fd_confidence f, cd_variance = fd_variance f, cd_date = Some (t_date e),
            cd_file = None\<rparr>)"

definition is_stale :: "txn \<Rightarrow> date option \<Rightarrow> int option \<Rightarrow> bool" where
  "is_stale t as_of stale_after =
     (case (as_of, stale_after) of (Some d, Some n) \<Rightarrow> n < d - t_date t | _ \<Rightarrow> False)"

definition side_text :: "category \<Rightarrow> string" where
  "side_text base =
     (if base = MISSING_INTERNAL then ''bank statement but not in the internal ledger''
      else ''internal ledger but not in the bank statement'')"

text \<open>Category and rationale of one unmatched record.\<close>

definition single_verdict ::
    "category \<Rightarrow> txn \<Rightarrow> pair_context \<Rightarrow> date option \<Rightarrow> int option \<Rightarrow> category \<times> string" where
  "single_verdict base t ctx as_of stale_after =
     (let reference = str_or (t_ref t) ''(none)'' in
      if has_regulatory_hold t (pc_detection ctx)
      then (REGULATORY_HOLD, ''The narration marks reference '' @ reference @ '' as held for compliance review.'')
      else if base = MISSING_EXTERNAL \<and> is_posted_reversal t (pc_detection ctx)
      then (REVERSAL_PENDING, ''Reversal '' @ reference
              @ '' is posted in the internal ledger but the bank has not settled it.'')
      else if is_stale t as_of stale_after
      then (STALE_TRANSACTION, ''Past the reconciliation window and still unmatched: reference '' @ reference
              @ '' is in the '' @ side_text base @ ''.'')
      else case as_of of
          Some d \<Rightarrow>
            (let age = int (business_days_between (pc_calendar ctx) (t_date t) d) in
             if base = MISSING_EXTERNAL \<and> pc_bank ctx \<noteq> None \<and> pc_settlement_days ctx < age
             then (SETTLEMENT_DELAY, ''Reference '' @ reference @ '' is '' @ int_str age
                     @ '' business days old and the bank has not settled it (cycle T+''
                     @ int_str (pc_settlement_days ctx) @ '').'')
             else (base, ''Reference '' @ reference @ '' is in the '' @ side_text base @ ''.''))
        | None \<Rightarrow> (base, ''Reference '' @ reference @ '' is in the '' @ side_text base @ ''.''))"

definition single_candidate ::
    "classifier \<Rightarrow> category \<Rightarrow> pair_context \<Rightarrow> date option \<Rightarrow> int option \<Rightarrow> txn \<Rightarrow> candidate res" where
  "single_candidate ce base ctx as_of stale_after t =
     (case single_verdict base t ctx as_of stale_after of (c, why) \<Rightarrow>
        bind_res (inr_minor ce t) (\<lambda>inr.
          Inr \<lparr>cd_category = c, cd_key = txn_key c (t_id t), cd_bank = t_bank t, cd_affected = Single_of (t_id t) base,
               cd_rationale = why, cd_currency = Some (t_currency t), cd_inr = inr, cd_difference = None,
               cd_days = None, cd_confidence = None, cd_variance = None, cd_date = Some (t_date t), cd_file = None\<rparr>))"

section \<open>Duplicates\<close>

type_synonym dup_sig = "side \<times> string option \<times> int \<times> string \<times> direction \<times> date"

definition dup_key :: "txn \<Rightarrow> dup_sig" where
  "dup_key t = (t_source t, t_ref t, t_amount_minor t, t_currency t, t_direction t, t_date t)"

definition in_range :: "string \<Rightarrow> date option \<Rightarrow> date option \<Rightarrow> txn \<Rightarrow> bool" where
  "in_range bank date_from date_to t =
     (t_bank t = bank \<and> (case date_from of None \<Rightarrow> True | Some d \<Rightarrow> d \<le> t_date t)
      \<and> (case date_to of None \<Rightarrow> True | Some d \<Rightarrow> t_date t \<le> d))"

text \<open>The keys of more than one transaction with a reference.\<close>

definition repeated_keys :: "db \<Rightarrow> string \<Rightarrow> date option \<Rightarrow> date option \<Rightarrow> dup_sig list" where
  "repeated_keys db bank date_from date_to =
     (let rows = filter (\<lambda>t. in_range bank date_from date_to t \<and> t_ref t \<noteq> None \<and> t_ref t \<noteq> Some []) (txns db)
      in filter (\<lambda>k. 1 < length (filter (\<lambda>t. dup_key t = k) rows)) (remdups (map dup_key rows)))"

definition ingested_at :: "classifier \<Rightarrow> txn \<Rightarrow> instant option" where
  "ingested_at ce t = map_option if_at (find (\<lambda>f. if_id f = t_file t) (ce_files ce))"

definition dup_order :: "classifier \<Rightarrow> txn \<Rightarrow> instant \<times> bool \<times> int \<times> nat" where
  "dup_order ce t =
     (case ingested_at ce t of None \<Rightarrow> 0 | Some d \<Rightarrow> d, t_line t = None,
      case t_line t of None \<Rightarrow> 0 | Some n \<Rightarrow> n, t_id t)"

definition dup_groups :: "classifier \<Rightarrow> string \<Rightarrow> date option \<Rightarrow> date option \<Rightarrow> db \<Rightarrow> txn list list" where
  "dup_groups ce bank date_from date_to db =
     (let keys = repeated_keys db bank date_from date_to;
          members = sort_key (dup_order ce)
            (filter (\<lambda>t. t_bank t = bank \<and> ingested_at ce t \<noteq> None \<and> dup_key t \<in> set keys) (txns db))
      in map snd (group_by dup_key members))"

definition copies_of :: "txn list \<Rightarrow> (txn \<times> txn) list" where
  "copies_of g = (case g of [] \<Rightarrow> [] | original # copies \<Rightarrow> map (\<lambda>c. (original, c)) copies)"

definition duplicate_candidate :: "classifier \<Rightarrow> string \<Rightarrow> txn \<times> txn \<Rightarrow> candidate res" where
  "duplicate_candidate ce bank oc =
     (case oc of (original, copy) \<Rightarrow>
        let c = (if t_source copy = INTERNAL then DUPLICATE_INTERNAL else DUPLICATE_EXTERNAL);
            same = (t_file copy = t_file original)
        in bind_res (inr_minor ce copy) (\<lambda>inr.
             Inr \<lparr>cd_category = c, cd_key = txn_key c (t_id copy), cd_bank = bank,
                  cd_affected = Copy_of (t_id copy) (t_id original) same,
                  cd_rationale = ''Reference '' @ shown (t_ref copy) @ '' with identical amount,'' @ [CHR 0x0A]
                    @ replicate 16 (CHR '' '') @ ''currency, direction and date already exists as transaction ''
                    @ uuid_str (t_id original) @ '' ('' @ (if same then ''the same file'' else ''a different ingestion file'')
                    @ '', ingested first).'',
                  cd_currency = Some (t_currency copy), cd_inr = inr, cd_difference = None, cd_days = None,
                  cd_confidence = None, cd_variance = None, cd_date = Some (t_date copy), cd_file = None\<rparr>))"

definition duplicate_candidates ::
    "classifier \<Rightarrow> string \<Rightarrow> date option \<Rightarrow> date option \<Rightarrow> db \<Rightarrow> (candidate list \<times> nat list) res" where
  "duplicate_candidates ce bank date_from date_to db =
     (let pairs = concat (map copies_of (dup_groups ce bank date_from date_to db)) in
      bind_res (res_map (duplicate_candidate ce bank) pairs) (\<lambda>cs. Inr (cs, map (\<lambda>(_, c). t_id c) pairs)))"

section \<open>Leftovers\<close>

definition indexed_refs :: "txn list \<Rightarrow> (string \<times> txn list) list" where
  "indexed_refs ts = group_by (\<lambda>t. str_or (t_ref t) []) (filter (\<lambda>t. str_or (t_ref t) [] \<noteq> []) ts)"

text \<open>The loop over the external leftovers: the internal and external ids paired so far
  and the candidates.\<close>

type_synonym pairing = "nat list \<times> nat list \<times> candidate list"

definition pair_step ::
    "classifier \<Rightarrow> string \<Rightarrow> pair_context \<Rightarrow> (string \<times> txn list) list \<Rightarrow> txn \<Rightarrow> pairing \<Rightarrow> pairing res" where
  "pair_step ce bank ctx index e s =
     (case s of (ints, exts, cs) \<Rightarrow>
        (case dict_get [] (str_or (t_ref e) []) index of
           [i] \<Rightarrow>
             if t_id i \<in> set ints then Inr s
             else bind_res (analyse_pair i e ctx False None) (\<lambda>fs.
                    (case fs of
                       [] \<Rightarrow> Inr s
                     | f # _ \<Rightarrow>
                         bind_res (pair_candidate ce bank i e f (pair_key (fd_category f) (t_id i) (t_id e)) None False)
                           (\<lambda>c. Inr (t_id i # ints, t_id e # exts, cs @ [c]))))
         | _ \<Rightarrow> Inr s))"

definition unmatched_candidates ::
    "classifier \<Rightarrow> string \<Rightarrow> txn list \<Rightarrow> txn list \<Rightarrow> date option \<Rightarrow> int option \<Rightarrow> candidate list res" where
  "unmatched_candidates ce bank internals externals as_of stale_after =
     bind_res (context_of ce bank) (\<lambda>ctx.
     bind_res (loop_res (pair_step ce bank ctx (indexed_refs internals)) externals ([], [], [])) (\<lambda>(ints, exts, cs).
     bind_res (res_map (single_candidate ce MISSING_INTERNAL ctx as_of stale_after)
                 (filter (\<lambda>e. t_id e \<notin> set exts) externals)) (\<lambda>mi.
     bind_res (res_map (single_candidate ce MISSING_EXTERNAL ctx as_of stale_after)
                 (filter (\<lambda>i. t_id i \<notin> set ints) internals)) (\<lambda>me.
       Inr (cs @ mi @ me)))))"

section \<open>Pairs and groups of a run\<close>

text \<open>The joined rows of the run's ungrouped results of one bank.\<close>

definition joined :: "db \<Rightarrow> string \<Rightarrow> string \<Rightarrow> (result \<Rightarrow> bool) \<Rightarrow> (result \<times> txn \<times> txn) list" where
  "joined db bank run P =
     concat (map (\<lambda>r. (case (find_txn db (r_internal r), find_txn db (r_external r)) of
                         (Some i, Some e) \<Rightarrow> if t_bank i = bank then [(r, i, e)] else []
                       | _ \<Rightarrow> []))
       (filter (\<lambda>r. r_run r = run \<and> P r \<and> r_group r = None) (results db)))"

definition pending_candidate ::
    "classifier \<Rightarrow> string \<Rightarrow> pair_context \<Rightarrow> result \<times> txn \<times> txn \<Rightarrow> candidate list res" where
  "pending_candidate ce bank ctx row =
     (case row of (r, i, e) \<Rightarrow>
        bind_res (analyse_pair i e ctx False (Some (r_confidence r))) (\<lambda>fs.
          res_map (\<lambda>f. pair_candidate ce bank i e f (pair_key (fd_category f) (t_id i) (t_id e)) (Some (r_id r)) False)
            (take 1 fs)))"

definition pending_candidates :: "classifier \<Rightarrow> string \<Rightarrow> string \<Rightarrow> db \<Rightarrow> candidate list res" where
  "pending_candidates ce bank run db =
     bind_res (context_of ce bank) (\<lambda>ctx.
     bind_res (res_map (pending_candidate ce bank ctx) (joined db bank run (\<lambda>r. r_status r = PENDING_REVIEW)))
       (\<lambda>css. Inr (concat css)))"

text \<open>What SQL selects: \<open>COALESCE(narration_normalised, narration, '')\<close>.\<close>

definition sql_narration :: "txn \<Rightarrow> string" where
  "sql_narration t = (case t_narration_norm t of Some s \<Rightarrow> s | None \<Rightarrow> (case t_narration t of Some s \<Rightarrow> s | None \<Rightarrow> []))"

definition worth_a_look :: "detection \<Rightarrow> result \<times> txn \<times> txn \<Rightarrow> bool" where
  "worth_a_look d row =
     (case row of (r, i, e) \<Rightarrow>
        t_date i \<noteq> t_date e \<or> settled_on e \<noteq> t_date i \<or> t_ref i \<noteq> t_ref e
        \<or> keyword_search (dt_hold_keywords d) (sql_narration i) \<or> keyword_search (dt_hold_keywords d) (sql_narration e))"

definition matched_candidate ::
    "classifier \<Rightarrow> string \<Rightarrow> pair_context \<Rightarrow> result \<times> txn \<times> txn \<Rightarrow> candidate list res" where
  "matched_candidate ce bank ctx row =
     (case row of (r, i, e) \<Rightarrow>
        bind_res (analyse_pair i e ctx True (Some (r_confidence r))) (\<lambda>fs.
          res_map (\<lambda>f. pair_candidate ce bank i e f (matched_key (fd_category f) (r_id r)) (Some (r_id r)) True) fs))"

definition matched_candidates :: "classifier \<Rightarrow> string \<Rightarrow> string \<Rightarrow> db \<Rightarrow> candidate list res" where
  "matched_candidates ce bank run db =
     bind_res (context_of ce bank) (\<lambda>ctx.
     bind_res (res_map (matched_candidate ce bank ctx)
         (filter (worth_a_look (tx_detection (ce_taxonomy ce))) (joined db bank run settled)))
       (\<lambda>css. Inr (concat css)))"

text \<open>The single side of a group and its members. The stored JSON names them; every row
  of a split has the single transaction as its internal side, every row of a netted
  group as its external side.\<close>

definition group_single :: "result list \<Rightarrow> nat" where
  "group_single rs = (if r_type (hd rs) = SPLIT then r_internal (hd rs) else r_external (hd rs))"

definition member_ids :: "result list \<Rightarrow> nat list" where
  "member_ids rs = map (if r_type (hd rs) = SPLIT then r_external else r_internal) rs"

definition group_candidate :: "classifier \<Rightarrow> string \<Rightarrow> db \<Rightarrow> nat \<times> result list \<Rightarrow> candidate res" where
  "group_candidate ce bank db g =
     (case g of (gid, rs) \<Rightarrow>
        (case find_txn db (group_single rs) of
           None \<Rightarrow> Inl LookupFailed
         | Some single \<Rightarrow>
             let c = (if r_type (hd rs) = SPLIT then PARTIAL_MATCH else NETTED_SETTLEMENT)
             in bind_res (inr_minor ce single) (\<lambda>inr.
                  Inr \<lparr>cd_category = c, cd_key = category_text c @ '':group:'' @ uuid_str gid, cd_bank = bank,
                       cd_affected = Group_of gid (map r_id rs) (t_id single) (member_ids rs),
                       cd_rationale = ce_why ce (hd rs), cd_currency = Some (t_currency single), cd_inr = inr,
                       cd_difference = None, cd_days = None, cd_confidence = None, cd_variance = None,
                       cd_date = Some (t_date single), cd_file = None\<rparr>)))"

definition run_groups :: "string \<Rightarrow> string \<Rightarrow> db \<Rightarrow> (nat \<times> result list) list" where
  "run_groups bank run db =
     group_by (\<lambda>r. case r_group r of Some g \<Rightarrow> g | None \<Rightarrow> 0)
       (filter (\<lambda>r. r_run r = run \<and> r_group r \<noteq> None
                  \<and> (case find_txn db (r_internal r) of Some t \<Rightarrow> t_bank t = bank | None \<Rightarrow> False)) (results db))"

definition grouped_candidates :: "classifier \<Rightarrow> string \<Rightarrow> string \<Rightarrow> db \<Rightarrow> candidate list res" where
  "grouped_candidates ce bank run db = res_map (group_candidate ce bank db) (run_groups bank run db)"

section \<open>Rows that failed parsing\<close>

definition error_codes :: "raw_row \<Rightarrow> string" where
  "error_codes r =
     (let cs = sort (remdups (rw_codes r)) in
      if cs = [] then ''unspecified'' else concat (map (\<lambda>(k, c). if k = 0 then c else '', '' @ c) (enumerate 0 cs)))"

definition format_candidate :: "string \<Rightarrow> string \<Rightarrow> affected \<Rightarrow> string \<Rightarrow> nat \<Rightarrow> candidate" where
  "format_candidate key bank aff why file =
     \<lparr>cd_category = FORMAT_ERROR, cd_key = key, cd_bank = bank, cd_affected = aff, cd_rationale = why,
      cd_currency = None, cd_inr = None, cd_difference = None, cd_days = None, cd_confidence = None,
      cd_variance = None, cd_date = None, cd_file = Some file\<rparr>"

definition line_text :: "int option \<Rightarrow> string" where
  "line_text l = (case l of None \<Rightarrow> ''None'' | Some n \<Rightarrow> int_str n)"

definition format_error_candidates :: "classifier \<Rightarrow> ingest_file \<Rightarrow> raw_row list \<Rightarrow> candidate list" where
  "format_error_candidates ce f rows =
     (if rows = [] then []
      else if tx_systemic (ce_taxonomy ce) < int (length rows) then
        [format_candidate (''FORMAT_ERROR:file:'' @ uuid_str (if_id f)) (if_bank f)
           (File_rows (length rows) (map rw_line (take 100 rows)))
           (nat_str (length rows) @ '' rows of '' @ if_name f
            @ '' failed parsing; a systemic format change is more likely than that many independent bad rows.'')
           (if_id f)]
      else map (\<lambda>r. format_candidate (''FORMAT_ERROR:raw:'' @ uuid_str (rw_id r)) (if_bank f)
                     (Raw_row (rw_id r) (rw_line r))
                     (''Line '' @ line_text (rw_line r) @ '' failed parsing: '' @ error_codes r @ ''.'') (if_id f)) rows)"

section \<open>Persisting\<close>

definition cumulative_daily :: "candidate list \<Rightarrow> ((string \<times> date) \<times> int) list" where
  "cumulative_daily cs =
     fold (\<lambda>c d. (case (cd_inr c, cd_date c) of
                    (Some m, Some day) \<Rightarrow> dict_put (cd_bank c, day) (dict_get 0 (cd_bank c, day) d + m) d
                  | _ \<Rightarrow> d)) cs []"

definition context_for :: "((string \<times> date) \<times> int) list \<Rightarrow> int \<Rightarrow> candidate \<Rightarrow> exc_context" where
  "context_for daily batch c =
     \<lparr>ec_category = cd_category c, ec_amount = cd_inr c,
      ec_cumulative = (case cd_date c of None \<Rightarrow> None | Some day \<Rightarrow> map_of daily (cd_bank c, day)),
      ec_difference = cd_difference c, ec_days = cd_days c, ec_confidence = cd_confidence c,
      ec_variance = cd_variance c, ec_batch = batch\<rparr>"

definition routed_rationale :: "candidate \<Rightarrow> decision \<Rightarrow> string" where
  "routed_rationale c d = cd_rationale c @ '' Routing: '' @ d_rationale d @ ''.''"

definition exc_row :: "string option \<Rightarrow> instant \<Rightarrow> candidate \<times> decision \<Rightarrow> exc" where
  "exc_row run now cd =
     (case cd of (c, d) \<Rightarrow>
        \<lparr>x_id = 0, x_key = cd_key c, x_category = cd_category c, x_severity = d_severity d, x_status = OPEN,
         x_tier = d_tier d, x_assigned = None, x_bank = cd_bank c, x_run = run, x_file = cd_file c,
         x_affected = cd_affected c, x_currency = cd_currency c, x_inr = cd_inr c,
         x_suggested = suggested_resolution (cd_category c), x_rationale = routed_rationale c d, x_created = now,
         x_deadline = d_deadline d, x_breached = None, x_resolved_at = None, x_resolved_by = None, x_details = None\<rparr>)"

definition created_event :: "instant \<Rightarrow> nat \<times> candidate \<times> decision \<Rightarrow> exc_event" where
  "created_event now icd =
     (case icd of (i, c, d) \<Rightarrow>
        \<lparr>ev_exception = i, ev_type = CREATED_EVENT, ev_from = None, ev_to = Some (d_tier d),
         ev_actor = ''system:classifier'',
         ev_detail = category_text (cd_category c) @ '' created, routed to tier '' @ nat_str (tier_no (d_tier d)) @ ''.'',
         ev_at = now\<rparr>)"

text \<open>\<open>datetime.isoformat()\<close> of a UTC instant: the microseconds only when there are any.\<close>

definition iso_text :: "instant \<Rightarrow> string" where
  "iso_text t =
     (let r = t mod day_micros in
      date_iso (date_of t) @ CHR ''T'' # zpad 2 (nat (r div hour_micros))
      @ CHR '':'' # zpad 2 (nat (r mod hour_micros div minute_micros))
      @ CHR '':'' # zpad 2 (nat (r mod minute_micros div second_micros))
      @ (if r mod second_micros = 0 then [] else CHR ''.'' # zpad 6 (nat (r mod second_micros))) @ ''+00:00'')"

definition audit_created :: "classifier \<Rightarrow> instant \<Rightarrow> nat \<times> candidate \<times> decision \<Rightarrow> world \<Rightarrow> world res" where
  "audit_created ce now icd w =
     (case icd of (i, c, d) \<Rightarrow>
        world_audit (ce_sha ce) ''SYSTEM'' ''classifier'' EXCEPTION_CREATE
          (JObj ((''exception_id'', id_json i) # affected_json (cd_affected c)))
          (routed_rationale c d) now JNull
          (JObj [(''category'', JStr (category_text (cd_category c))), (''severity'', JStr (severity_text (d_severity d))),
                 (''tier'', JInt (int (tier_no (d_tier d)))), (''status'', JStr ''OPEN''),
                 (''sla_deadline'', JStr (iso_text (d_deadline d)))]) w)"

definition known_keys :: "world \<Rightarrow> string set" where
  "known_keys w = x_key ` set (w_excs w)"

definition persist ::
    "classifier \<Rightarrow> string option \<Rightarrow> instant \<Rightarrow> int \<Rightarrow> candidate list \<Rightarrow> world \<Rightarrow> (class_outcome \<times> world) res" where
  "persist ce run now batch cs w =
     (let new = filter (\<lambda>c. cd_key c \<notin> known_keys w) cs;
          daily = cumulative_daily new
      in bind_res (res_map (\<lambda>c. route (ce_text ce) (ce_taxonomy ce) (context_for daily batch c) True now) new) (\<lambda>ds.
           let rows = zip new ds; ids = map (\<lambda>k. w_next w + k) [0..<length new]
           in bind_res (loop_res add_exception (map (exc_row run now) rows) w) (\<lambda>w1.
              bind_res (loop_res (audit_created ce now) (zip ids rows)
                          (fold add_event (map (created_event now) (zip ids rows)) w1)) (\<lambda>w2.
                Inr (\<lparr>oc_created = length new, oc_skipped = length cs - length new,
                      oc_by_category = fold count_up (map cd_category new) []\<rparr>, w2)))))"

section \<open>Entry points\<close>

definition classify_ingestion_file :: "classifier \<Rightarrow> nat \<Rightarrow> instant \<Rightarrow> world \<Rightarrow> (class_outcome \<times> world) res" where
  "classify_ingestion_file ce fid now w =
     (case find (\<lambda>f. if_id f = fid) (ce_files ce) of
        None \<Rightarrow> Inl LookupFailed
      | Some f \<Rightarrow>
          (let rows = sort_key (\<lambda>r. (line_key (rw_line r), rw_id r))
                        (filter (\<lambda>r. rw_file r = fid \<and> rw_status r = QUARANTINED) (ce_raws ce))
           in persist ce None now (int (length rows)) (format_error_candidates ce f rows) w))"

record run_scope =
  sc_bank :: string
  sc_run :: string
  sc_as_of :: "date option"
  sc_stale :: "int option"
  sc_from :: "date option"
  sc_to :: "date option"

definition leftover_candidates :: "classifier \<Rightarrow> run_scope \<Rightarrow> db \<Rightarrow> candidate list res" where
  "leftover_candidates ce sc db =
     (if (sc_as_of sc = None) \<noteq> (sc_stale sc = None) then Inl ValueError
      else bind_res (duplicate_candidates ce (sc_bank sc) (sc_from sc) (sc_to sc) db) (\<lambda>(dups, dup_ids).
        let pool = (\<lambda>src. filter (\<lambda>t. t_id t \<notin> set dup_ids) (find_unmatched db (sc_bank sc) src (sc_from sc) (sc_to sc)))
        in bind_res (unmatched_candidates ce (sc_bank sc) (pool INTERNAL) (pool EXTERNAL) (sc_as_of sc) (sc_stale sc))
             (\<lambda>cs. Inr (dups @ cs))))"

text \<open>One entry point: candidates from the ledger, then their persistence.\<close>

definition classify_with ::
    "(db \<Rightarrow> candidate list res) \<Rightarrow> classifier \<Rightarrow> string \<Rightarrow> instant \<Rightarrow> world \<Rightarrow> (class_outcome \<times> world) res" where
  "classify_with candidates ce run now w =
     bind_res (candidates (w_db w)) (\<lambda>cs. persist ce (Some run) now (int (length cs)) cs w)"

definition classify_unmatched :: "classifier \<Rightarrow> run_scope \<Rightarrow> instant \<Rightarrow> world \<Rightarrow> (class_outcome \<times> world) res" where
  "classify_unmatched ce sc = classify_with (leftover_candidates ce sc) ce (sc_run sc)"

definition classify_pending_review :: "classifier \<Rightarrow> run_scope \<Rightarrow> instant \<Rightarrow> world \<Rightarrow> (class_outcome \<times> world) res" where
  "classify_pending_review ce sc = classify_with (pending_candidates ce (sc_bank sc) (sc_run sc)) ce (sc_run sc)"

definition classify_matched :: "classifier \<Rightarrow> run_scope \<Rightarrow> instant \<Rightarrow> world \<Rightarrow> (class_outcome \<times> world) res" where
  "classify_matched ce sc = classify_with (matched_candidates ce (sc_bank sc) (sc_run sc)) ce (sc_run sc)"

definition classify_groups :: "classifier \<Rightarrow> run_scope \<Rightarrow> instant \<Rightarrow> world \<Rightarrow> (class_outcome \<times> world) res" where
  "classify_groups ce sc = classify_with (grouped_candidates ce (sc_bank sc) (sc_run sc)) ce (sc_run sc)"

definition add_outcomes :: "class_outcome \<Rightarrow> class_outcome \<Rightarrow> class_outcome" where
  "add_outcomes a b =
     \<lparr>oc_created = oc_created a + oc_created b, oc_skipped = oc_skipped a + oc_skipped b,
      oc_by_category = fold (\<lambda>(c, n) d. dict_put c (dict_get 0 c d + n) d) (oc_by_category b) (oc_by_category a)\<rparr>"

definition classify_run :: "classifier \<Rightarrow> run_scope \<Rightarrow> instant \<Rightarrow> world \<Rightarrow> (class_outcome \<times> world) res" where
  "classify_run ce sc now w =
     bind_res (classify_unmatched ce sc now w) (\<lambda>(o1, w1).
     bind_res (classify_pending_review ce sc now w1) (\<lambda>(o2, w2).
     bind_res (classify_matched ce sc now w2) (\<lambda>(o3, w3).
     bind_res (classify_groups ce sc now w3) (\<lambda>(o4, w4).
       Inr (add_outcomes (add_outcomes (add_outcomes o1 o2) o3) o4, w4)))))"

end
