(* ===== verification/Classified.thy ===== *)
theory Classified
  imports Classifier
begin

text \<open>
  What classification guarantees (\<open>src/recon/excmgmt/classifier.py\<close>): persisting keeps
  the exception store and leaves the matching tables alone, a second pass over the
  same ledger creates nothing, and no unmatched transaction goes without an exception.
\<close>

section \<open>Candidates read the books only\<close>

definition same_books :: "db \<Rightarrow> db \<Rightarrow> bool" where
  "same_books d d' = (txns d' = txns d \<and> results d' = results d \<and> claims d' = claims d)"

lemma same_books_refl [simp]: "same_books d d"
  by (simp add: same_books_def)

lemma same_books_trans: "\<lbrakk>same_books a b; same_books b c\<rbrakk> \<Longrightarrow> same_books a c"
  by (simp add: same_books_def)

lemma books_pools:
  assumes "same_books d d'"
  shows "find_unmatched d' bank src f t = find_unmatched d bank src f t" "find_txn d' i = find_txn d i"
    "repeated_keys d' bank f t = repeated_keys d bank f t" "joined d' bank run P = joined d bank run P"
proof -
  have e: "txns d' = txns d" "results d' = results d" "claims d' = claims d" using assms by (simp_all add: same_books_def)
  have "available d' bank src f t = available d bank src f t"
    by (rule ext) (simp add: available_def is_claimed_def e)
  then show "find_unmatched d' bank src f t = find_unmatched d bank src f t" by (simp add: find_unmatched_def e)
  show x: "find_txn d' i = find_txn d i" for i by (simp add: find_txn_def e)
  show "repeated_keys d' bank f t = repeated_keys d bank f t" by (simp add: repeated_keys_def e)
  show "joined d' bank run P = joined d bank run P" by (simp add: joined_def e x)
qed

lemma books_candidates:
  assumes "same_books d d'"
  shows "leftover_candidates ce sc d' = leftover_candidates ce sc d"
    "pending_candidates ce bank run d' = pending_candidates ce bank run d"
    "matched_candidates ce bank run d' = matched_candidates ce bank run d"
    "grouped_candidates ce bank run d' = grouped_candidates ce bank run d"
proof -
  have e: "txns d' = txns d" "results d' = results d" using assms by (simp_all add: same_books_def)
  note p = books_pools[OF assms]
  show "leftover_candidates ce sc d' = leftover_candidates ce sc d"
    by (simp only: leftover_candidates_def duplicate_candidates_def dup_groups_def p e)
  show "pending_candidates ce bank run d' = pending_candidates ce bank run d"
    by (simp add: pending_candidates_def p)
  show "matched_candidates ce bank run d' = matched_candidates ce bank run d"
    by (simp add: matched_candidates_def p)
  have "group_candidate ce bank d' = group_candidate ce bank d"
    by (rule ext) (simp add: group_candidate_def p split: prod.splits)
  then show "grouped_candidates ce bank run d' = grouped_candidates ce bank run d"
    by (simp add: grouped_candidates_def run_groups_def p e)
qed

section \<open>Persisting\<close>

lemma add_loop:
  "loop_res add_exception xs w = Inr w' \<Longrightarrow>
   w_db w' = w_db w \<and> w_events w' = w_events w \<and> map x_key (w_excs w') = map x_key (w_excs w) @ map x_key xs
   \<and> set (map x_id (w_excs w')) = set (map x_id (w_excs w)) \<union> {w_next w..<w_next w + length xs}"
proof (induction xs arbitrary: w)
  case (Cons x xs)
  define v where "v = w\<lparr>w_excs := w_excs w @ [x\<lparr>x_id := w_next w\<rparr>], w_next := w_next w + 1\<rparr>"
  have v: "loop_res add_exception xs v = Inr w'"
    using Cons.prems by (simp add: bind_res_iff) (auto simp: add_exception_def v_def split: if_splits)
  have "{w_next w..<w_next w + length (x # xs)} = insert (w_next w) {w_next w + 1..<w_next w + 1 + length xs}" by auto
  then show ?case using Cons.IH[OF v] by (simp add: v_def)
qed simp

lemma exc_row_ok: "exc_ok (exc_row run now cd)"
  by (cases cd) (simp add: exc_row_def exc_ok_def closed_def still_open_def)

lemma exc_row_key: "x_key (exc_row run now cd) = cd_key (fst cd)"
  by (cases cd) (simp add: exc_row_def)

lemma row_keys: "length cs = length ds \<Longrightarrow> map x_key (map (exc_row run now) (zip cs ds)) = map cd_key cs"
  by (induction cs ds rule: list_induct2) (simp_all add: exc_row_key)

interpretation adding: world_op add_exception "\<lambda>w. w" "\<lambda>x _. exc_ok x" "\<lambda>_ _. True"
  by unfold_locales (use goes_on_add in blast)+

interpretation auditing: world_op "audit_created ce now" "\<lambda>w. w" "\<lambda>_ _. True" "\<lambda>_ _. True" for ce now
proof unfold_locales
  fix a s s'
  assume "audit_created ce now a s = Inr s'"
  then show "goes_on s s'" by (cases a) (auto simp: audit_created_def dest: goes_on_audit)
qed simp

lemma audit_loop_shape:
  "loop_res (audit_created ce now) as w = Inr w' \<Longrightarrow>
   w_excs w' = w_excs w \<and> w_events w' = w_events w \<and> same_books (w_db w) (w_db w')"
proof (induction "as" arbitrary: w)
  case (Cons a as)
  obtain i c d where a: "a = (i, c, d)" by (cases a)
  obtain v where v: "audit_created ce now a w = Inr v" "loop_res (audit_created ce now) as v = Inr w'"
    using Cons.prems by (auto simp: res_iff)
  from v(1) have "w_excs v = w_excs w \<and> w_events v = w_events w \<and> same_books (w_db w) (w_db v)"
    unfolding a audit_created_def prod.case world_audit_def
    by (auto simp: res_iff same_books_def dest!: append_audit_shape)
  then show ?case using Cons.IH[OF v(2)] by (metis same_books_trans)
qed simp

lemma event_loop_goes:
  "\<lbrakk>\<forall>ev \<in> set evs. ev_exception ev \<in> x_id ` set (w_excs w)\<rbrakk>
   \<Longrightarrow> goes_on w (fold add_event evs w) \<and> w_excs (fold add_event evs w) = w_excs w \<and> w_db (fold add_event evs w) = w_db w"
proof (induction evs arbitrary: w)
  case (Cons ev evs)
  have g: "goes_on w (add_event ev w)" by (rule goes_on_event) (use Cons.prems in simp)
  have e: "w_excs (add_event ev w) = w_excs w" "w_db (add_event ev w) = w_db w" by (simp_all add: add_event_def)
  have "\<forall>ev' \<in> set evs. ev_exception ev' \<in> x_id ` set (w_excs (add_event ev w))" using Cons.prems e by simp
  from Cons.IH[OF this] show ?case using g e goes_on_trans by auto
qed simp

lemma persist_shape:
  assumes "persist ce run now batch cs w = Inr (out, w')"
  defines "new \<equiv> filter (\<lambda>c. cd_key c \<notin> known_keys w) cs"
  shows "oc_created out = length new \<and> oc_skipped out = length cs - length new
    \<and> map x_key (w_excs w') = map x_key (w_excs w) @ map cd_key new
    \<and> same_books (w_db w) (w_db w') \<and> (store_ok w \<longrightarrow> goes_on w w')"
proof -
  define daily where "daily = cumulative_daily new"
  obtain ds where ds: "res_map (\<lambda>c. route (ce_text ce) (ce_taxonomy ce) (context_for daily batch c) True now) new = Inr ds"
    using assms by (auto simp: persist_def Let_def res_iff daily_def)
  define rows where "rows = zip new ds"
  define ids where "ids = map (\<lambda>k. w_next w + k) [0..<length new]"
  define evs where "evs = map (created_event now) (zip ids rows)"
  obtain w1 w2 where s: "loop_res add_exception (map (exc_row run now) rows) w = Inr w1"
    "loop_res (audit_created ce now) (zip ids rows) (fold add_event evs w1) = Inr w2" "w' = w2"
    "oc_created out = length new" "oc_skipped out = length cs - length new"
    using assms(1) ds unfolding persist_def new_def[symmetric] Let_def daily_def[symmetric]
    by (auto simp: res_iff rows_def ids_def evs_def)
  have len: "length ds = length new" by (rule res_map_length[OF ds])
  note a = add_loop[OF s(1)]
  have keys: "map x_key (map (exc_row run now) rows) = map cd_key new"
    unfolding rows_def by (rule row_keys[OF len[symmetric]])
  have sub: "\<forall>ev \<in> set evs. ev_exception ev \<in> x_id ` set (w_excs w1)"
  proof
    fix ev assume "ev \<in> set evs"
    then obtain i c d where i: "(i, c, d) \<in> set (zip ids rows)" "ev = created_event now (i, c, d)" by (auto simp: evs_def)
    have "i \<in> set ids" using i(1) by (rule set_zip_leftD)
    then have "i \<in> {w_next w..<w_next w + length (map (exc_row run now) rows)}"
      using len by (auto simp: ids_def rows_def)
    then have "i \<in> set (map x_id (w_excs w1))" using a by blast
    then show "ev_exception ev \<in> x_id ` set (w_excs w1)" using i(2) by (simp add: created_event_def)
  qed
  note e = event_loop_goes[OF sub]
  note u = audit_loop_shape[OF s(2)]
  have "goes_on w w'" if ok: "store_ok w"
  proof -
    have 1: "goes_on w w1"
      by (rule adding.loop_goes[OF s(1)]) (simp_all add: ok list_all_iff exc_row_ok)
    have 2: "goes_on w (fold add_event evs w1)" using 1 e goes_on_trans by blast
    then have "store_ok (fold add_event evs w1)" using ok unfolding goes_on_def by blast
    then have "goes_on (fold add_event evs w1) w2"
      by (intro auditing.loop_goes[OF s(2)]) (simp_all add: list_all_iff)
    then show ?thesis using 2 s(3) goes_on_trans by blast
  qed
  moreover have "map x_key (w_excs w') = map x_key (w_excs w) @ map cd_key new"
    using a keys e u s(3) by simp
  moreover have "same_books (w_db w) (w_db w')" using a e u s(3) by simp
  ultimately show ?thesis using s(4,5) by blast
qed

lemma persist_keys:
  assumes "persist ce run now batch cs w = Inr (out, w')"
  shows "known_keys w' = known_keys w \<union> cd_key ` set cs"
proof -
  have "set (map x_key (w_excs w')) = set (map x_key (w_excs w)) \<union> set (map cd_key (filter (\<lambda>c. cd_key c \<notin> known_keys w) cs))"
    using persist_shape[OF assms] by simp
  then show ?thesis by (auto simp: known_keys_def)
qed

lemma persist_nothing:
  assumes "cd_key ` set cs \<subseteq> known_keys w"
  shows "persist ce run now batch cs w = Inr (\<lparr>oc_created = 0, oc_skipped = length cs, oc_by_category = []\<rparr>, w)"
proof -
  have "filter (\<lambda>c. cd_key c \<notin> known_keys w) cs = []" using assms by (auto simp: filter_empty_conv)
  then show ?thesis by (simp add: persist_def cumulative_daily_def)
qed

section \<open>A run's classification\<close>

lemma classify_step:
  assumes "classify_with candidates ce run now w = Inr (out, w')"
  obtains cs where "candidates (w_db w) = Inr cs" "known_keys w' = known_keys w \<union> cd_key ` set cs"
    "same_books (w_db w) (w_db w')" "store_ok w \<Longrightarrow> goes_on w w'"
    "oc_created out + oc_skipped out = length cs" "oc_created out = length (w_excs w') - length (w_excs w)"
proof -
  obtain cs where cs: "candidates (w_db w) = Inr cs" "persist ce (Some run) now (int (length cs)) cs w = Inr (out, w')"
    using assms by (auto simp: classify_with_def res_iff)
  define n where "n = length (filter (\<lambda>c. cd_key c \<notin> known_keys w) cs)"
  note s = persist_shape[OF cs(2), folded n_def]
  have "n \<le> length cs" unfolding n_def by (rule length_filter_le)
  moreover have "length (w_excs w') = length (w_excs w) + n"
    using arg_cong[OF conjunct1[OF conjunct2[OF conjunct2[OF s]]], of length] by (simp add: n_def)
  ultimately show ?thesis using that[OF cs(1) persist_keys[OF cs(2)]] s by auto
qed

lemma run_stages:
  assumes "classify_run ce sc now w = Inr (out, w')"
  obtains w1 w2 w3 o1 o2 o3 o4 where "classify_unmatched ce sc now w = Inr (o1, w1)"
    "classify_pending_review ce sc now w1 = Inr (o2, w2)" "classify_matched ce sc now w2 = Inr (o3, w3)"
    "classify_groups ce sc now w3 = Inr (o4, w')" "out = add_outcomes (add_outcomes (add_outcomes o1 o2) o3) o4"
  using assms by (auto simp: classify_run_def res_iff)

text \<open>The candidates of all four passes, from one ledger.\<close>

definition run_candidates :: "classifier \<Rightarrow> run_scope \<Rightarrow> db \<Rightarrow> candidate list list res" where
  "run_candidates ce sc db =
     res_map (\<lambda>f. f db) [leftover_candidates ce sc, pending_candidates ce (sc_bank sc) (sc_run sc),
       matched_candidates ce (sc_bank sc) (sc_run sc), grouped_candidates ce (sc_bank sc) (sc_run sc)]"

lemma run_candidates_iff:
  "run_candidates ce sc db = Inr css \<longleftrightarrow>
   (\<exists>l p m g. css = [l, p, m, g] \<and> leftover_candidates ce sc db = Inr l
      \<and> pending_candidates ce (sc_bank sc) (sc_run sc) db = Inr p
      \<and> matched_candidates ce (sc_bank sc) (sc_run sc) db = Inr m
      \<and> grouped_candidates ce (sc_bank sc) (sc_run sc) db = Inr g)"
  unfolding run_candidates_def
  by (auto split: sum.splits)

lemma run_facts:
  assumes "classify_run ce sc now w = Inr (out, w')"
  obtains css where "run_candidates ce sc (w_db w) = Inr css"
    "known_keys w' = known_keys w \<union> cd_key ` set (concat css)" "same_books (w_db w) (w_db w')"
    "store_ok w \<Longrightarrow> goes_on w w'" "oc_created out + oc_skipped out = length (concat css)"
proof (rule run_stages[OF assms])
  fix w1 w2 w3 o1 o2 o3 o4
  assume 1: "classify_unmatched ce sc now w = Inr (o1, w1)" and 2: "classify_pending_review ce sc now w1 = Inr (o2, w2)"
    and 3: "classify_matched ce sc now w2 = Inr (o3, w3)" and 4: "classify_groups ce sc now w3 = Inr (o4, w')"
    and out: "out = add_outcomes (add_outcomes (add_outcomes o1 o2) o3) o4"
  obtain l where l: "leftover_candidates ce sc (w_db w) = Inr l" "known_keys w1 = known_keys w \<union> cd_key ` set l"
    "same_books (w_db w) (w_db w1)" "store_ok w \<Longrightarrow> goes_on w w1" "oc_created o1 + oc_skipped o1 = length l"
    using classify_step[OF 1[unfolded classify_unmatched_def]] by metis
  obtain p where p: "pending_candidates ce (sc_bank sc) (sc_run sc) (w_db w1) = Inr p"
    "known_keys w2 = known_keys w1 \<union> cd_key ` set p" "same_books (w_db w1) (w_db w2)" "store_ok w1 \<Longrightarrow> goes_on w1 w2"
    "oc_created o2 + oc_skipped o2 = length p"
    using classify_step[OF 2[unfolded classify_pending_review_def]] by metis
  obtain m where m: "matched_candidates ce (sc_bank sc) (sc_run sc) (w_db w2) = Inr m"
    "known_keys w3 = known_keys w2 \<union> cd_key ` set m" "same_books (w_db w2) (w_db w3)" "store_ok w2 \<Longrightarrow> goes_on w2 w3"
    "oc_created o3 + oc_skipped o3 = length m"
    using classify_step[OF 3[unfolded classify_matched_def]] by metis
  obtain g where g: "grouped_candidates ce (sc_bank sc) (sc_run sc) (w_db w3) = Inr g"
    "known_keys w' = known_keys w3 \<union> cd_key ` set g" "same_books (w_db w3) (w_db w')" "store_ok w3 \<Longrightarrow> goes_on w3 w'"
    "oc_created o4 + oc_skipped o4 = length g"
    using classify_step[OF 4[unfolded classify_groups_def]] by metis
  have b: "same_books (w_db w) (w_db w2)" "same_books (w_db w) (w_db w3)" "same_books (w_db w) (w_db w')"
    using l(3) p(3) m(3) g(3) same_books_trans by blast+
  have "run_candidates ce sc (w_db w) = Inr [l, p, m, g]"
    using l(1) p(1) m(1) g(1) by (simp add: run_candidates_iff books_candidates[OF l(3)] books_candidates[OF b(1)]
        books_candidates[OF b(2)])
  moreover have "known_keys w' = known_keys w \<union> cd_key ` set (concat [l, p, m, g])"
    using l(2) p(2) m(2) g(2) by auto
  moreover have "goes_on w w'" if ok: "store_ok w"
  proof -
    have 1: "goes_on w w1" by (rule l(4)[OF ok])
    then have k1: "store_ok w1" using ok unfolding goes_on_def by blast
    have 2: "goes_on w1 w2" by (rule p(4)[OF k1])
    then have k2: "store_ok w2" using k1 unfolding goes_on_def by blast
    have 3: "goes_on w2 w3" by (rule m(4)[OF k2])
    then have k3: "store_ok w3" using k2 unfolding goes_on_def by blast
    show ?thesis using 1 2 3 g(4)[OF k3] goes_on_trans by blast
  qed
  moreover have "oc_created out + oc_skipped out = length (concat [l, p, m, g])"
    using l(5) p(5) m(5) g(5) by (simp add: out add_outcomes_def)
  ultimately show ?thesis using that b(3) by blast
qed

lemma nothing_new:
  assumes "candidates (w_db w) = Inr cs" "cd_key ` set cs \<subseteq> known_keys w"
  shows "classify_with candidates ce run now w = Inr (\<lparr>oc_created = 0, oc_skipped = length cs, oc_by_category = []\<rparr>, w)"
  by (simp add: classify_with_def assms(1) persist_nothing[OF assms(2)])

text \<open>Classification is idempotent: it keeps the exception store and the books, and
  run again at any later time over the same scope it creates nothing, counts every
  candidate of the first pass as known, and leaves the world exactly as it was.\<close>

theorem classify_run_idempotent:
  assumes "classify_run ce sc now w = Inr (out, w')" "store_ok w"
  shows "store_ok w' \<and> same_books (w_db w) (w_db w')
    \<and> classify_run ce sc later_on w'
      = Inr (\<lparr>oc_created = 0, oc_skipped = oc_created out + oc_skipped out, oc_by_category = []\<rparr>, w')"
proof -
  obtain css where c: "run_candidates ce sc (w_db w) = Inr css"
    "known_keys w' = known_keys w \<union> cd_key ` set (concat css)" "same_books (w_db w) (w_db w')"
    "store_ok w \<Longrightarrow> goes_on w w'" "oc_created out + oc_skipped out = length (concat css)"
    using run_facts[OF assms(1)] by metis
  obtain l p m g where x: "css = [l, p, m, g]" "leftover_candidates ce sc (w_db w) = Inr l"
    "pending_candidates ce (sc_bank sc) (sc_run sc) (w_db w) = Inr p"
    "matched_candidates ce (sc_bank sc) (sc_run sc) (w_db w) = Inr m"
    "grouped_candidates ce (sc_bank sc) (sc_run sc) (w_db w) = Inr g"
    using c(1) unfolding run_candidates_iff by blast
  note y = x(2-5)[folded books_candidates[OF c(3)]]
  have k: "cd_key ` set l \<subseteq> known_keys w'" "cd_key ` set p \<subseteq> known_keys w'" "cd_key ` set m \<subseteq> known_keys w'"
    "cd_key ` set g \<subseteq> known_keys w'"
    unfolding c(2) x(1) by auto
  note n = nothing_new[where candidates = "leftover_candidates ce sc", OF y(1) k(1), of ce "sc_run sc" later_on]
    nothing_new[where candidates = "pending_candidates ce (sc_bank sc) (sc_run sc)", OF y(2) k(2), of ce "sc_run sc" later_on]
    nothing_new[where candidates = "matched_candidates ce (sc_bank sc) (sc_run sc)", OF y(3) k(3), of ce "sc_run sc" later_on]
    nothing_new[where candidates = "grouped_candidates ce (sc_bank sc) (sc_run sc)", OF y(4) k(4), of ce "sc_run sc" later_on]
  have "classify_run ce sc later_on w'
      = Inr (\<lparr>oc_created = 0, oc_skipped = length l + length p + length m + length g, oc_by_category = []\<rparr>, w')"
    unfolding classify_run_def classify_unmatched_def classify_pending_review_def classify_matched_def classify_groups_def
    by (simp add: n add_outcomes_def)
  moreover have "store_ok w'" using c(4) assms(2) unfolding goes_on_def by blast
  ultimately show ?thesis using c(3,5) by (simp add: x(1) add.assoc)
qed

section \<open>No transaction is forgotten\<close>

definition names :: "string \<Rightarrow> nat \<Rightarrow> bool" where
  "names key i = (\<exists>c j. key = txn_key c i \<or> key = pair_key c i j \<or> key = pair_key c j i)"

lemma names_intros [intro]:
  "names (txn_key c i) i" "names (pair_key c i j) i" "names (pair_key c j i) i"
  by (auto simp: names_def)

definition named_by :: "candidate list \<Rightarrow> nat \<Rightarrow> bool" where
  "named_by cs i = (\<exists>c \<in> set cs. names (cd_key c) i)"

lemma res_map_in: "\<lbrakk>res_map f xs = Inr ys; x \<in> set xs\<rbrakk> \<Longrightarrow> \<exists>y \<in> set ys. f x = Inr y"
  by (induction xs arbitrary: ys) (auto split: sum.splits)

lemma single_named: "single_candidate ce base ctx as_of stale t = Inr c \<Longrightarrow> names (cd_key c) (t_id t)"
  by (auto simp: single_candidate_def res_iff split: prod.splits)

lemma singles_named:
  "\<lbrakk>res_map (single_candidate ce base ctx as_of stale) ts = Inr cs; t \<in> set ts\<rbrakk> \<Longrightarrow> named_by cs (t_id t)"
  using res_map_in single_named unfolding named_by_def by metis

lemma duplicates_named:
  assumes "duplicate_candidates ce bank f t db = Inr (cs, ids)" "i \<in> set ids"
  shows "named_by cs i"
proof -
  define pairs where "pairs = concat (map copies_of (dup_groups ce bank f t db))"
  have cs: "res_map (duplicate_candidate ce bank) pairs = Inr cs" "ids = map (\<lambda>(_, c). t_id c) pairs"
    using assms(1) by (auto simp: duplicate_candidates_def pairs_def[symmetric] Let_def res_iff)
  obtain oc where oc: "oc \<in> set pairs" "i = t_id (snd oc)" using assms(2) cs(2) by auto
  obtain c where c: "c \<in> set cs" "duplicate_candidate ce bank oc = Inr c" using res_map_in[OF cs(1) oc(1)] by blast
  have "names (cd_key c) i"
    using c(2) oc(2) by (cases oc) (auto simp: duplicate_candidate_def Let_def res_iff)
  then show ?thesis using c(1) unfolding named_by_def by blast
qed

definition pairing_ok :: "pairing \<Rightarrow> bool" where
  "pairing_ok s = (case s of (ints, exts, cs) \<Rightarrow> list_all (named_by cs) (ints @ exts))"

lemma named_append: "named_by cs i \<Longrightarrow> named_by (cs @ ds) i" "named_by ds i \<Longrightarrow> named_by (cs @ ds) i"
  by (auto simp: named_by_def)

lemma pair_candidate_key: "pair_candidate ce bank i e f key mid al = Inr c \<Longrightarrow> cd_key c = key"
  by (auto simp: pair_candidate_def res_iff)

lemma pair_step_ok:
  assumes "pair_step ce bank ctx index e s = Inr s'" "pairing_ok s"
  shows "pairing_ok s'"
proof (cases "s' = s")
  case False
  obtain ints exts cs where s: "s = (ints, exts, cs)" by (cases s)
  obtain i f c where c: "pair_candidate ce bank i e f (pair_key (fd_category f) (t_id i) (t_id e)) None False = Inr c"
    "s' = (t_id i # ints, t_id e # exts, cs @ [c])"
    using assms(1) False unfolding s pair_step_def prod.case
    by (auto simp: res_iff neq_Nil_conv split: list.splits if_splits) blast+
  have "names (cd_key c) (t_id i)" "names (cd_key c) (t_id e)" using pair_candidate_key[OF c(1)] by auto
  then have "named_by (cs @ [c]) (t_id i)" "named_by (cs @ [c]) (t_id e)" by (auto simp: named_by_def)
  moreover have "list_all (named_by (cs @ [c])) (ints @ exts)"
    using assms(2) named_append(1) by (auto simp: s pairing_ok_def list_all_iff)
  ultimately show ?thesis by (simp add: pairing_ok_def c(2))
qed (use assms in simp)

lemma pair_loop_ok: "\<lbrakk>loop_res (pair_step ce bank ctx index) es s = Inr s'; pairing_ok s\<rbrakk> \<Longrightarrow> pairing_ok s'"
proof (induction es arbitrary: s)
  case (Cons e es)
  then obtain t where "pair_step ce bank ctx index e s = Inr t" "loop_res (pair_step ce bank ctx index) es t = Inr s'"
    by (auto simp: res_iff)
  then show ?case using Cons.IH Cons.prems(2) pair_step_ok by blast
qed simp

lemma unmatched_named:
  assumes "unmatched_candidates ce bank internals externals as_of stale = Inr cs" "t \<in> set internals \<union> set externals"
  shows "named_by cs (t_id t)"
proof -
  obtain ctx ints exts ps mi me where s: "loop_res (pair_step ce bank ctx (indexed_refs internals)) externals ([], [], []) = Inr (ints, exts, ps)"
    "res_map (single_candidate ce MISSING_INTERNAL ctx as_of stale) (filter (\<lambda>e. t_id e \<notin> set exts) externals) = Inr mi"
    "res_map (single_candidate ce MISSING_EXTERNAL ctx as_of stale) (filter (\<lambda>i. t_id i \<notin> set ints) internals) = Inr me"
    "cs = ps @ mi @ me"
    using assms(1) by (auto simp: unmatched_candidates_def res_iff)
  have p: "list_all (named_by ps) (ints @ exts)"
    using pair_loop_ok[OF s(1)] by (simp add: pairing_ok_def)
  consider "t_id t \<in> set ints \<union> set exts" | "t \<in> set internals" "t_id t \<notin> set ints"
    | "t \<in> set externals" "t_id t \<notin> set exts" using assms(2) by blast
  then show ?thesis
  proof cases
    case 1 then show ?thesis using p named_append(1) unfolding s(4) by (auto simp: list_all_iff)
  next
    case 2
    then have "named_by me (t_id t)" by (intro singles_named[OF s(3)]) simp
    then show ?thesis unfolding s(4) using named_append(2) by metis
  next
    case 3
    then have "named_by mi (t_id t)" by (intro singles_named[OF s(2)]) simp
    then show ?thesis unfolding s(4) using named_append by metis
  qed
qed

lemma leftovers_named:
  assumes "leftover_candidates ce sc db = Inr cs" "t \<in> set (find_unmatched db (sc_bank sc) src (sc_from sc) (sc_to sc))"
  shows "named_by cs (t_id t)"
proof -
  obtain dups ids us where s: "duplicate_candidates ce (sc_bank sc) (sc_from sc) (sc_to sc) db = Inr (dups, ids)"
    "unmatched_candidates ce (sc_bank sc)
       (filter (\<lambda>t. t_id t \<notin> set ids) (find_unmatched db (sc_bank sc) INTERNAL (sc_from sc) (sc_to sc)))
       (filter (\<lambda>t. t_id t \<notin> set ids) (find_unmatched db (sc_bank sc) EXTERNAL (sc_from sc) (sc_to sc)))
       (sc_as_of sc) (sc_stale sc) = Inr us" "cs = dups @ us"
    using assms(1) by (auto simp: leftover_candidates_def Let_def res_iff split: if_splits)
  show ?thesis
  proof (cases "t_id t \<in> set ids")
    case True
    then show ?thesis using duplicates_named[OF s(1)] named_append(1) unfolding s(3) by metis
  next
    case False
    then have "named_by us (t_id t)"
      using assms(2) by (intro unmatched_named[OF s(2)]) (cases src; simp)
    then show ?thesis unfolding s(3) by (rule named_append(2))
  qed
qed

text \<open>C29. No unmatched transaction is forgotten: after a run's classification every
  transaction of the bank that is free to match and in the run's date range, on
  either side, is named by the key of a stored exception; the ledger's books are
  those the classification read.\<close>

theorem no_transaction_forgotten:
  assumes "classify_run ce sc now w = Inr (out, w')"
    "t \<in> set (find_unmatched (w_db w') (sc_bank sc) src (sc_from sc) (sc_to sc))"
  shows "\<exists>x \<in> set (w_excs w'). names (x_key x) (t_id t)"
proof -
  obtain css where c: "run_candidates ce sc (w_db w) = Inr css"
    "known_keys w' = known_keys w \<union> cd_key ` set (concat css)" "same_books (w_db w) (w_db w')"
    using run_facts[OF assms(1)] by metis
  obtain l where l: "l \<in> set css" "leftover_candidates ce sc (w_db w) = Inr l"
    using c(1) unfolding run_candidates_iff by auto
  obtain k where "k \<in> set l" "names (cd_key k) (t_id t)"
    using leftovers_named[OF l(2)] assms(2) unfolding books_pools(1)[OF c(3)] named_by_def by blast
  moreover have "cd_key k \<in> known_keys w'" using \<open>k \<in> set l\<close> l(1) c(2) by auto
  ultimately show ?thesis by (auto simp: known_keys_def)
qed

section \<open>Witnesses\<close>

definition sample_classifier :: classifier where
  "sample_classifier =
     \<lparr>ce_sha = sample_sha, ce_taxonomy = sample_taxonomy\<lparr>tx_detection := default_detection
        \<lparr>dt_hold_keywords := [], dt_reversal_keywords := []\<rparr>\<rparr>,
      ce_banks = (\<lambda>_. None), ce_calendars = sample_calendar, ce_quote = None, ce_table = [''INR'' \<mapsto> 2],
      ce_text = (\<lambda>_. []), ce_files = [], ce_raws = [], ce_why = (\<lambda>_. [])\<rparr>"

definition sample_scope :: run_scope where
  "sample_scope = \<lparr>sc_bank = ''HDFC'', sc_run = ''r'', sc_as_of = None, sc_stale = None, sc_from = None, sc_to = None\<rparr>"

definition sample_lone :: world where
  "sample_lone = sample_world\<lparr>w_db := sample_db [sample_txn 3 INTERNAL 500 ''REF1'' 10]\<rparr>"

lemma sample_lone_candidates:
  "\<exists>c. cd_category c = MISSING_EXTERNAL \<and> cd_key c = txn_key MISSING_EXTERNAL 3 \<and> cd_inr c = Some 500 \<and> cd_date c = Some 10
     \<and> cd_affected c = Single_of 3 MISSING_EXTERNAL
     \<and> leftover_candidates sample_classifier sample_scope (w_db sample_lone) = Inr [c]"
proof -
  let ?t = "sample_txn 3 INTERNAL 500 ''REF1'' 10"
  have e: "w_db sample_lone = sample_db [?t]" by (simp add: sample_lone_def)
  have d: "duplicate_candidates sample_classifier ''HDFC'' None None (sample_db [?t]) = Inr ([], [])"
    by (simp add: duplicate_candidates_def dup_groups_def repeated_keys_def sample_db_def sample_txn_def in_range_def
        group_by_def dup_key_def)
  have f: "find_unmatched (sample_db [?t]) ''HDFC'' INTERNAL None None = [?t]"
    "find_unmatched (sample_db [?t]) ''HDFC'' EXTERNAL None None = []"
    by (simp_all add: find_unmatched_def available_def sample_db_def sample_txn_def is_claimed_def active_txns_def)
  obtain ctx where c: "context_of sample_classifier ''HDFC'' = Inr ctx" "dt_hold_keywords (pc_detection ctx) = []"
    "dt_reversal_keywords (pc_detection ctx) = []"
    by (simp add: context_of_def sample_classifier_def sample_calendar_def sample_taxonomy_def)
  have v: "fst (single_verdict MISSING_EXTERNAL ?t ctx None None) = MISSING_EXTERNAL"
    by (simp add: single_verdict_def Let_def has_regulatory_hold_def is_posted_reversal_def keyword_search_def c is_stale_def
        sample_txn_def)
  have "\<exists>k. single_candidate sample_classifier MISSING_EXTERNAL ctx None None ?t = Inr k \<and> cd_category k = MISSING_EXTERNAL
      \<and> cd_key k = txn_key MISSING_EXTERNAL 3 \<and> cd_inr k = Some 500 \<and> cd_date k = Some 10
      \<and> cd_affected k = Single_of 3 MISSING_EXTERNAL"
    using v by (cases "single_verdict MISSING_EXTERNAL ?t ctx None None")
      (simp add: single_candidate_def inr_minor_def sample_txn_def)
  then show ?thesis
    by (auto simp: leftover_candidates_def sample_scope_def e d f unmatched_candidates_def c(1))
qed

lemma sample_run:
  "\<exists>out w'. classify_run sample_classifier sample_scope 0 sample_lone = Inr (out, w') \<and> oc_created out = 1"
proof -
  obtain c where c: "cd_category c = MISSING_EXTERNAL" "cd_key c = txn_key MISSING_EXTERNAL 3" "cd_inr c = Some 500"
    "cd_date c = Some 10" "cd_affected c = Single_of 3 MISSING_EXTERNAL"
    "leftover_candidates sample_classifier sample_scope (w_db sample_lone) = Inr [c]"
    using sample_lone_candidates by blast
  have new: "cd_key c \<notin> known_keys sample_lone"
    by (simp add: known_keys_def sample_lone_def sample_world_def sample_exc_def c(2) txn_key_def category_text_def)
  have r: "rule_for (ce_taxonomy sample_classifier) MISSING_EXTERNAL = Inr (sample_category_rule MISSING_EXTERNAL)"
    by (simp add: rule_for_def sample_classifier_def sample_taxonomy_def all_categories_def sample_category_rule_def)
  have "\<exists>d. route (ce_text sample_classifier) (ce_taxonomy sample_classifier) (context_for (cumulative_daily [c]) 1 c) True 0 = Inr d"
    using r by (simp add: route_def context_for_def c Let_def sample_category_rule_def max_instant_def minute_micros_def
        day_micros_def max_ordinal_def split: prod.splits)
  then obtain d where d: "route (ce_text sample_classifier) (ce_taxonomy sample_classifier)
      (context_for (cumulative_daily [c]) 1 c) True 0 = Inr d" by blast
  obtain w1 where w1: "add_exception (exc_row (Some ''r'') 0 (c, d)) sample_lone = Inr w1" "w_db w1 = w_db sample_lone"
    using new by (simp add: add_exception_def exc_row_key known_keys_def)
  let ?e = "created_event 0 (w_next sample_lone, c, d)"
  have "logged sample_sha (w_db w1)" "next_id (w_db w1) < 16 ^ 32"
    by (simp_all add: w1(2) sample_lone_def sample_db_def logged_def)
  note logs = this
  have "\<exists>db'. append_audit sample_sha exceptions_chain ''SYSTEM'' ''classifier'' EXCEPTION_CREATE
      (JObj ((''exception_id'', id_json (w_next sample_lone)) # affected_json (cd_affected c)))
      (routed_rationale c d) 0 JNull
      (JObj [(''category'', JStr (category_text (cd_category c))), (''severity'', JStr (severity_text (d_severity d))),
             (''tier'', JInt (int (tier_no (d_tier d)))), (''status'', JStr ''OPEN''),
             (''sla_deadline'', JStr (iso_text (d_deadline d)))]) (w_db w1) = Inr db' \<and> logged sample_sha db'"
    by (rule append_audit_total) (use sample_sha_inj logs in \<open>simp_all add: id_json_def c(5)\<close>)
  then obtain w2 where w2: "audit_created sample_classifier 0 (w_next sample_lone, c, d) (add_event ?e w1) = Inr w2"
    by (auto simp: audit_created_def world_audit_def sample_classifier_def add_event_def)
  have "\<exists>o1. persist sample_classifier (Some ''r'') 0 1 [c] sample_lone = Inr (o1, w2) \<and> oc_created o1 = 1"
    using new d w1(1) w2 by (simp add: persist_def Let_def)
  moreover have "sc_run sample_scope = ''r''" by (simp add: sample_scope_def)
  ultimately have p: "\<exists>o1. classify_unmatched sample_classifier sample_scope 0 sample_lone = Inr (o1, w2) \<and> oc_created o1 = 1"
    by (simp add: classify_unmatched_def classify_with_def c(6))
  then obtain o1 where o1: "classify_unmatched sample_classifier sample_scope 0 sample_lone = Inr (o1, w2)" "oc_created o1 = 1"
    by blast
  have b: "same_books (w_db sample_lone) (w_db w2)" "results (w_db sample_lone) = []"
    using classify_step[OF o1(1)[unfolded classify_unmatched_def]] by (auto simp: sample_lone_def sample_db_def)
  then have "results (w_db w2) = []" by (simp add: same_books_def)
  then have q: "pending_candidates sample_classifier ''HDFC'' ''r'' (w_db w2) = Inr []"
    "matched_candidates sample_classifier ''HDFC'' ''r'' (w_db w2) = Inr []"
    "grouped_candidates sample_classifier ''HDFC'' ''r'' (w_db w2) = Inr []"
    by (simp_all add: pending_candidates_def matched_candidates_def grouped_candidates_def joined_def run_groups_def
        context_of_def sample_classifier_def sample_calendar_def group_by_def)
  have sc: "sc_run sample_scope = ''r''" "sc_bank sample_scope = ''HDFC''" by (simp_all add: sample_scope_def)
  show ?thesis
    by (simp add: classify_run_def o1 classify_pending_review_def classify_matched_def classify_groups_def sc
        nothing_new[where cs = "[]"] q add_outcomes_def)
qed

lemma sample_lone_ok: "store_ok sample_lone"
  using sample_world_facts(1) by (simp add: store_ok_def sample_lone_def)

theorem classify_run_idempotent_witness:
  "\<exists>out w'. classify_run sample_classifier sample_scope 0 sample_lone = Inr (out, w') \<and> oc_created out = 1 \<and> store_ok w'
     \<and> classify_run sample_classifier sample_scope 5 w' = Inr (\<lparr>oc_created = 0, oc_skipped = 1 + oc_skipped out, oc_by_category = []\<rparr>, w')"
proof -
  obtain out w' where r: "classify_run sample_classifier sample_scope 0 sample_lone = Inr (out, w')" "oc_created out = 1"
    using sample_run by blast
  show ?thesis using classify_run_idempotent[OF r(1) sample_lone_ok, of 5] r by auto
qed

theorem no_transaction_forgotten_witness:
  "\<exists>out w'. classify_run sample_classifier sample_scope 0 sample_lone = Inr (out, w')
     \<and> list_ex (\<lambda>x. names (x_key x) 3) (w_excs w')"
proof -
  let ?t = "sample_txn 3 INTERNAL 500 ''REF1'' 10"
  obtain out w' where r: "classify_run sample_classifier sample_scope 0 sample_lone = Inr (out, w')"
    using sample_run by blast
  have b: "same_books (w_db sample_lone) (w_db w')" by (rule run_facts[OF r])
  have "?t \<in> set (find_unmatched (w_db sample_lone) ''HDFC'' INTERNAL None None)"
    by (simp add: find_unmatched_def available_def sample_lone_def sample_db_def sample_txn_def is_claimed_def active_txns_def)
  then have "?t \<in> set (find_unmatched (w_db w') (sc_bank sample_scope) INTERNAL (sc_from sample_scope) (sc_to sample_scope))"
    by (simp add: books_pools(1)[OF b] sample_scope_def)
  from no_transaction_forgotten[OF r this] show ?thesis using r by (auto simp: list_ex_iff sample_txn_def)
qed

end
