(* ===== verification/Normalise.thy ===== *)
theory Normalise
  imports Rows Routing LedgerSteps
begin

text \<open>
  Normalisation (\<open>src/recon/normalisation\<close>, \<open>domain/canonical.py\<close>,
  \<open>ingestion/normalisation_service.py\<close>): a parsed row becomes a canonical transaction
  or an error, a file's parsed rows become stored transactions. Text is ASCII. The time
  zone database is a parameter: \<open>zones name\<close> takes a local wall clock time to UTC.
  The uuid of a transaction is given when it is stored. Log texts are not modelled.
\<close>

section \<open>Timestamps\<close>

type_synonym zones = "string \<Rightarrow> (instant \<Rightarrow> instant) option"

record stamp =
  st_utc :: instant
  st_date :: date
  st_text :: string
  st_zone :: string

definition has_time :: "string \<Rightarrow> bool" where
  "has_time fmt = list_ex (\<lambda>(a, b). a = CHR ''%'' \<and> b \<in> set ''HIMSfp'') (zip fmt (tl fmt))"

text \<open>Midnight of a date.\<close>

definition start_of :: "date \<Rightarrow> instant" where
  "start_of d = (d - 1) * day_micros"

definition normalise_timestamp ::
    "zones \<Rightarrow> string \<Rightarrow> string \<Rightarrow> string \<Rightarrow> string option \<Rightarrow> string \<Rightarrow> stamp res" where
  "normalise_timestamp zones date_text fmt zone time_text time_fmt =
     (case zones zone of
        None \<Rightarrow> Inl TimestampNormalisationError
      | Some to_utc \<Rightarrow>
          (case strptime (strip date_text) fmt of
             None \<Rightarrow> Inl TimestampNormalisationError
           | Some (d, clock) \<Rightarrow>
               bind_res
                 (case time_text of
                    Some tt \<Rightarrow>
                      if strip tt \<noteq> [] then
                        (case strptime (strip tt) time_fmt of
                           None \<Rightarrow> Inl TimestampNormalisationError
                         | Some (_, c) \<Rightarrow> Inr (start_of d + c))
                      else Inr (start_of d + (if has_time fmt then clock else 0))
                  | None \<Rightarrow> Inr (start_of d + (if has_time fmt then clock else 0)))
                 (\<lambda>local.
                    let utc = to_utc local in
                    if utc < 0 \<or> max_instant < utc then Inl OverflowErr
                    else Inr \<lparr>st_utc = utc, st_date = d,
                              st_text = (case time_text of None \<Rightarrow> date_text | Some tt \<Rightarrow> date_text @ CHR '' '' # tt),
                              st_zone = zone\<rparr>)))"

section \<open>Direction, currency, amount, reference, name\<close>

definition normalise_direction :: "string \<Rightarrow> (direction \<times> bool) res" where
  "normalise_direction raw =
     (let m = to_upper (strip raw) in
      if m \<in> {''CR'', ''C'', ''CRDT''} then Inr (CR, False)
      else if m \<in> {''DR'', ''D'', ''DBIT''} then Inr (DR, False)
      else if m = ''RC'' then Inr (CR, True)
      else if m = ''RD'' then Inr (DR, True)
      else Inl DirectionNormalisationError)"

datatype currency_source = ENTRY_LEVEL | STATEMENT_LEVEL | BANK_CONFIG_DEFAULT

definition normalise_currency :: "exponents \<Rightarrow> string \<Rightarrow> string res" where
  "normalise_currency tbl raw =
     (let c = to_upper (strip raw) in
      if length c \<noteq> 3 \<or> \<not> list_all is_alpha c then Inl CurrencyNormalisationError
      else (case currency_exponent tbl c of Inl _ \<Rightarrow> Inl CurrencyNormalisationError | Inr _ \<Rightarrow> Inr c))"

definition given :: "string option \<Rightarrow> bool" where
  "given v = (case v of None \<Rightarrow> False | Some s \<Rightarrow> strip s \<noteq> [])"

definition resolve_currency ::
    "exponents \<Rightarrow> string option \<Rightarrow> string option \<Rightarrow> string \<Rightarrow> (string \<times> currency_source) res" where
  "resolve_currency tbl entry statement fallback =
     (if given entry then bind_res (normalise_currency tbl (the entry)) (\<lambda>c. Inr (c, ENTRY_LEVEL))
      else if given statement then bind_res (normalise_currency tbl (the statement)) (\<lambda>c. Inr (c, STATEMENT_LEVEL))
      else bind_res (normalise_currency tbl fallback) (\<lambda>c. Inr (c, BANK_CONFIG_DEFAULT)))"

definition clean_amount :: "string \<Rightarrow> string option \<Rightarrow> string \<Rightarrow> string" where
  "clean_amount decimal thousands s =
     (let s = (case thousands of Some t \<Rightarrow> if t \<noteq> [] then replace_all t [] s else s | None \<Rightarrow> s)
      in if decimal \<noteq> ''.'' then replace_all decimal ''.'' s else s)"

definition normalise_amount :: "exponents \<Rightarrow> string \<Rightarrow> string \<Rightarrow> string \<Rightarrow> string option \<Rightarrow> money res" where
  "normalise_amount tbl amount_text currency decimal thousands =
     (case parse_decimal (clean_amount decimal thousands (strip amount_text)) of
        None \<Rightarrow> Inl AmountNormalisationError
      | Some d \<Rightarrow>
          (case from_decimal tbl round_half_even d currency of
             Inl e \<Rightarrow> Inl (if e = UnknownCurrencyError then AmountNormalisationError else e)
           | Inr m \<Rightarrow> Inr m))"

definition sign_for_direction :: "string \<Rightarrow> int res" where
  "sign_for_direction d =
     (let m = to_upper (strip d) in
      if m \<in> {''C'', ''RD'', ''CRDT''} then Inr 1
      else if m \<in> {''D'', ''RC'', ''DBIT''} then Inr (- 1) else Inl ValueError)"

definition slash_mark :: string where
  "slash_mark = [CHR 0x00] @ ''DOUBLESLASH'' @ [CHR 0x00]"

definition is_formatting :: "char \<Rightarrow> bool" where
  "is_formatting c = (is_space c \<or> c = CHR ''-'' \<or> c = CHR ''_'' \<or> c = CHR ''.'')"

definition clean_reference :: "string \<Rightarrow> nat option \<Rightarrow> string" where
  "clean_reference raw max_length =
     (let protected = replace_all ''//'' slash_mark (strip raw);
          cleaned = to_upper (replace_all slash_mark ''//'' (filter (\<lambda>c. \<not> is_formatting c) protected))
      in (case max_length of None \<Rightarrow> cleaned | Some n \<Rightarrow> if n < length cleaned then take n cleaned else cleaned))"

definition pad_reference :: "string \<Rightarrow> nat \<Rightarrow> char \<Rightarrow> string" where
  "pad_reference r n c = (if n \<le> length r then r else replicate (n - length r) c @ r)"

definition abbreviations :: "string \<rightharpoonup> string" where
  "abbreviations =
     [''PVT'' \<mapsto> ''PRIVATE'', ''PVT.'' \<mapsto> ''PRIVATE'', ''LTD'' \<mapsto> ''LIMITED'', ''LTD.'' \<mapsto> ''LIMITED'',
      ''CORP'' \<mapsto> ''CORPORATION'', ''CORP.'' \<mapsto> ''CORPORATION'', ''CO'' \<mapsto> ''COMPANY'', ''CO.'' \<mapsto> ''COMPANY'',
      ''INC'' \<mapsto> ''INCORPORATED'', ''INC.'' \<mapsto> ''INCORPORATED'', ''LLP'' \<mapsto> ''LIMITED LIABILITY PARTNERSHIP'']"

definition is_word :: "char \<Rightarrow> bool" where
  "is_word c = (is_alpha c \<or> is_digit c \<or> c = CHR ''_'')"

text \<open>Runs of white space become one blank.\<close>

fun collapse :: "string \<Rightarrow> string" where
  "collapse [] = []"
| "collapse (c # s) =
     (if is_space c then CHR '' '' # collapse (dropWhile is_space s) else c # collapse s)"

definition clean_counterparty_name :: "(string \<rightharpoonup> string) \<Rightarrow> string \<Rightarrow> string" where
  "clean_counterparty_name table raw =
     (let plain = map (\<lambda>c. if is_word c \<or> is_space c then c else CHR '' '') (to_upper (strip raw));
          tokens = split_on (CHR '' '') (strip (collapse plain))
      in join_with '' '' (map (\<lambda>t. case table t of None \<Rightarrow> t | Some e \<Rightarrow> e) tokens))"

definition register_abbreviation :: "string \<Rightarrow> string \<Rightarrow> (string \<rightharpoonup> string) \<Rightarrow> (string \<rightharpoonup> string)" where
  "register_abbreviation a e table = table(to_upper (strip a) \<mapsto> to_upper (strip e))"

section \<open>The canonical transaction\<close>

record canonical =
  cn_source :: side
  cn_bank :: string
  cn_format :: source_format
  cn_file :: nat
  cn_line :: "int option"
  cn_version :: string
  cn_txn_id :: string
  cn_date :: date
  cn_amount :: rat
  cn_minor :: int
  cn_currency :: string
  cn_exponent :: int
  cn_currency_source :: currency_source
  cn_original_currency :: "string option"
  cn_direction :: direction
  cn_is_reversal :: bool
  cn_reverses :: "string option"
  cn_party :: "string option"
  cn_party_norm :: "string option"
  cn_narration :: "string option"
  cn_settlement :: "date option"
  cn_amount_text :: "string option"
  cn_utc :: instant
  cn_stamp :: string
  cn_zone :: string
  cn_original_ref :: "string option"
  cn_ref :: "string option"

text \<open>The validators of the model, which run on every construction: surrounding white
  space is stripped from every text, currencies are upper case. Pydantic strips what Unicode
  calls white space: of ASCII these characters, but not the separators 28 to 31, which
  \<open>str.strip\<close> removes as well.\<close>

definition field_space :: "char \<Rightarrow> bool" where
  "field_space c = (9 \<le> code c \<and> code c \<le> 13 \<or> code c = 32)"

definition field_strip :: "string \<Rightarrow> string" where
  "field_strip s = rev (dropWhile field_space (rev (dropWhile field_space s)))"

definition mk_canonical :: "exponents \<Rightarrow> canonical \<Rightarrow> canonical res" where
  "mk_canonical tbl c =
     (let c = c\<lparr>cn_bank := field_strip (cn_bank c), cn_version := field_strip (cn_version c), cn_txn_id := field_strip (cn_txn_id c),
                cn_currency := to_upper (field_strip (cn_currency c)),
                cn_original_currency := map_option (to_upper \<circ> field_strip) (cn_original_currency c),
                cn_reverses := map_option field_strip (cn_reverses c), cn_party := map_option field_strip (cn_party c),
                cn_party_norm := map_option field_strip (cn_party_norm c), cn_narration := map_option field_strip (cn_narration c),
                cn_amount_text := map_option field_strip (cn_amount_text c), cn_stamp := field_strip (cn_stamp c),
                cn_zone := field_strip (cn_zone c), cn_original_ref := map_option field_strip (cn_original_ref c),
                cn_ref := map_option field_strip (cn_ref c)\<rparr>
      in if length (cn_currency c) \<noteq> 3 \<or> cn_amount c < 0 then Inl ValidationError
         else (case currency_exponent tbl (cn_currency c) of
                 Inl _ \<Rightarrow> Inl ValidationError
               | Inr e \<Rightarrow>
                   if e \<noteq> cn_exponent c \<or> int_of_dec (dec_scaleb (cn_amount c) e) \<noteq> cn_minor c
                      \<or> (\<not> cn_is_reversal c \<and> cn_reverses c \<noteq> None)
                   then Inl ValidationError else Inr c))"

section \<open>The pipeline\<close>

definition date_format_for :: "source_format \<Rightarrow> bank_config \<Rightarrow> string res" where
  "date_format_for f b =
     (case f of
        CSV \<Rightarrow> (case bk_csv b of None \<Rightarrow> Inl NormalisationError | Some c \<Rightarrow> Inr (cv_date_format c))
      | MT940 \<Rightarrow> Inr ''%y%m%d''
      | CAMT053 \<Rightarrow> Inr ''%Y-%m-%d''
      | INTERNAL_LEDGER \<Rightarrow> Inl NormalisationError)"

definition separators_for :: "source_format \<Rightarrow> bank_config \<Rightarrow> (string \<times> string option) res" where
  "separators_for f b =
     (case f of
        CSV \<Rightarrow> (case bk_csv b of None \<Rightarrow> Inl NormalisationError | Some c \<Rightarrow> Inr (cv_decimal c, cv_thousands c))
      | MT940 \<Rightarrow> (case bk_mt940 b of None \<Rightarrow> Inl NormalisationError | Some d \<Rightarrow> Inr (d, None))
      | CAMT053 \<Rightarrow> Inr (''.'', None)
      | INTERNAL_LEDGER \<Rightarrow> Inl NormalisationError)"

record normaliser =
  nm_zones :: zones
  nm_table :: exponents
  nm_names :: "string \<rightharpoonup> string"

definition settlement_of :: "normaliser \<Rightarrow> parsed_row \<Rightarrow> string \<Rightarrow> string \<Rightarrow> date option res" where
  "settlement_of nm row fmt zone =
     (let s = field_of ''settlement_date'' (pr_mapped row) in
      if s = [] then Inr None
      else bind_res (normalise_timestamp (nm_zones nm) s fmt zone None []) (\<lambda>t. Inr (Some (st_date t))))"

definition normalise_valid_row ::
    "normaliser \<Rightarrow> parsed_row \<Rightarrow> bank_config \<Rightarrow> source_format \<Rightarrow> side \<Rightarrow> nat \<Rightarrow> canonical res" where
  "normalise_valid_row nm row b f src file =
     (let fs = pr_mapped row in
      bind_res (date_format_for f b) (\<lambda>fmt.
      bind_res (field_get ''txn_date'' fs) (\<lambda>date_text.
      bind_res (normalise_timestamp (nm_zones nm) date_text fmt (bk_timezone b) None []) (\<lambda>ts.
      bind_res (field_get ''direction'' fs) (\<lambda>mark.
      bind_res (normalise_direction mark) (\<lambda>(dir, rev).
      bind_res (resolve_currency (nm_table nm) (map_of fs ''currency'') None (bk_currency b)) (\<lambda>(cur, cur_src).
      bind_res (separators_for f b) (\<lambda>(decimal, thousands).
      bind_res (field_get ''amount'' fs) (\<lambda>amount_text.
      bind_res (normalise_amount (nm_table nm) amount_text cur decimal thousands) (\<lambda>money.
      bind_res (field_get ''reference'' fs) (\<lambda>reference.
      bind_res (settlement_of nm row fmt (bk_timezone b)) (\<lambda>settlement.
      bind_res (currency_exponent (nm_table nm) cur) (\<lambda>e.
        mk_canonical (nm_table nm)
          \<lparr>cn_source = src, cn_bank = bk_code b, cn_format = f, cn_file = file, cn_line = Some (pr_line row),
           cn_version = bk_version b, cn_txn_id = reference, cn_date = st_date ts, cn_amount = m_amount money,
           cn_minor = minor_units money, cn_currency = cur, cn_exponent = e, cn_currency_source = cur_src,
           cn_original_currency = map_of fs ''currency'', cn_direction = dir, cn_is_reversal = rev,
           cn_reverses = None, cn_party = map_of fs ''counterparty_name'',
           cn_party_norm = (case map_of fs ''counterparty_name'' of
                              Some n \<Rightarrow> if n \<noteq> [] then Some (clean_counterparty_name (nm_names nm) n) else None
                            | None \<Rightarrow> None),
           cn_narration = map_of fs ''narration'', cn_settlement = settlement,
           cn_amount_text = Some amount_text, cn_utc = st_utc ts, cn_stamp = st_text ts,
           cn_zone = bk_timezone b, cn_original_ref = Some reference,
           cn_ref = Some (clean_reference reference None)\<rparr>)))))))))))))"

definition sub_errors :: "error list" where
  "sub_errors = [TimestampNormalisationError, DirectionNormalisationError, CurrencyNormalisationError,
                 AmountNormalisationError]"

definition normalise ::
    "normaliser \<Rightarrow> parsed_row \<Rightarrow> bank_config \<Rightarrow> source_format \<Rightarrow> side \<Rightarrow> nat \<Rightarrow> canonical res" where
  "normalise nm row b f src file =
     (if \<not> row_valid row then Inl NormalisationError
      else (case normalise_valid_row nm row b f src file of
              Inl e \<Rightarrow> Inl (if e \<in> set sub_errors then NormalisationError else e)
            | Inr c \<Rightarrow> Inr c))"

section \<open>A file\<close>

definition reconstruct_row :: "raw_row \<Rightarrow> parsed_row" where
  "reconstruct_row r =
     \<lparr>pr_line = (case rw_line r of None \<Rightarrow> 0 | Some n \<Rightarrow> n), pr_raw = rw_raw r, pr_mapped = rw_mapped r, pr_errors = []\<rparr>"

definition find_parsed :: "raw_row list \<Rightarrow> nat \<Rightarrow> raw_row list" where
  "find_parsed rows file =
     sort_key (\<lambda>r. line_key (rw_line r)) (filter (\<lambda>r. rw_file r = file \<and> rw_status r = PARSED) rows)"

text \<open>The loop over the rows: the canonical transactions and the number of failures.\<close>

definition normalise_step ::
    "normaliser \<Rightarrow> bank_config \<Rightarrow> source_format \<Rightarrow> side \<Rightarrow> nat \<Rightarrow> raw_row
     \<Rightarrow> canonical list \<times> nat \<Rightarrow> (canonical list \<times> nat) res" where
  "normalise_step nm b f src file r s =
     (case normalise nm (reconstruct_row r) b f src file of
        Inl e \<Rightarrow> if e = NormalisationError then Inr (fst s, snd s + 1) else Inl e
      | Inr c \<Rightarrow> Inr (fst s @ [c], snd s))"

text \<open>A row of \<open>normalised_transactions\<close>, refused when a column is too narrow.\<close>

definition row_fits :: "canonical \<Rightarrow> bool" where
  "row_fits c =
     (cn_amount c < 10 ^ 16 \<and> \<bar>cn_minor c\<bar> < 2 ^ 63 \<and> length (cn_txn_id c) \<le> 200
      \<and> (case cn_ref c of None \<Rightarrow> True | Some s \<Rightarrow> length s \<le> 200) \<and> length (cn_bank c) \<le> 20
      \<and> length (cn_version c) \<le> 50 \<and> length (cn_zone c) \<le> 50)"

definition canonical_txn :: "nat \<Rightarrow> canonical \<Rightarrow> txn" where
  "canonical_txn i c =
     \<lparr>t_id = i, t_date = cn_date c, t_source = cn_source c, t_bank = cn_bank c, t_line = cn_line c,
      t_txn_id = cn_txn_id c, t_amount_minor = cn_minor c, t_currency = cn_currency c,
      t_original_currency = cn_original_currency c, t_direction = cn_direction c,
      t_is_reversal = cn_is_reversal c, t_reverses = cn_reverses c, t_party = cn_party_norm c,
      t_narration = cn_narration c, t_narration_norm = None, t_settlement = cn_settlement c,
      t_timestamp = cn_utc c, t_stamp = cn_stamp c, t_original_ref = cn_original_ref c, t_ref = cn_ref c,
      t_status = UNMATCHED, t_file = cn_file c, t_voided_original = None\<rparr>"

text \<open>The random ids are an input, one per transaction.\<close>

definition save_many :: "nat list \<Rightarrow> canonical list \<Rightarrow> db \<Rightarrow> db res" where
  "save_many ids cs db =
     (if list_all row_fits cs then Inr (add_transactions (map (\<lambda>(i, c). canonical_txn i c) (zip ids cs)) db)
      else Inl DataError)"

definition normalise_ingestion_file ::
    "normaliser \<Rightarrow> raw_row list \<Rightarrow> nat \<Rightarrow> bank_config \<Rightarrow> source_format \<Rightarrow> side \<Rightarrow> nat list \<Rightarrow> db
     \<Rightarrow> ((nat \<times> nat) \<times> db) res" where
  "normalise_ingestion_file nm rows file b f src ids db =
     bind_res (loop_res (normalise_step nm b f src file) (find_parsed rows file) ([], 0)) (\<lambda>(cs, failed).
     bind_res (save_many ids cs db) (\<lambda>db'. Inr ((length cs, failed), db')))"

section \<open>Texts\<close>

lemma replace_steps_set: "set (replace_steps n old new s) \<subseteq> set s \<union> set new"
proof (induction n old new s rule: replace_steps.induct)
  case (3 n old new c s)
  have "set (drop (length old) (c # s)) \<subseteq> set (c # s)" by (rule set_drop_subset)
  then show ?case using 3 by auto
qed auto

lemma replace_all_set: "set (replace_all old new s) \<subseteq> set s \<union> set new"
  unfolding replace_all_def by (rule replace_steps_set)

lemma upper_not_formatting: "\<not> is_formatting c \<Longrightarrow> \<not> is_formatting (upper_char c)"
proof (cases "is_lower c")
  case True
  then have "code (upper_char c) \<in> {65..90}" by (simp add: code_upper is_lower_def) arith
  then show ?thesis unfolding is_formatting_def is_space_def
    using code_eq_iff[of "upper_char c" "CHR ''-''"] code_eq_iff[of "upper_char c" "CHR ''_''"]
      code_eq_iff[of "upper_char c" "CHR ''.''"] by (auto simp: code_def)
qed (simp add: upper_char_def)

lemma upper_not_lower: "\<not> is_lower (upper_char c)"
  using code_upper[of c] by (auto simp: is_lower_def upper_char_def)

definition reference_clean :: "string \<Rightarrow> bool" where
  "reference_clean s = list_all (\<lambda>c. \<not> is_formatting c \<and> \<not> is_lower c) s"

lemma clean_reference_clean: "reference_clean (clean_reference raw n)"
proof -
  define x where "x = replace_all slash_mark ''//'' (filter (\<lambda>c. \<not> is_formatting c) (replace_all ''//'' slash_mark (strip raw)))"
  have "set x \<subseteq> {c. \<not> is_formatting c} \<union> {CHR ''/''}"
    using replace_all_set[of slash_mark "''//''" "filter (\<lambda>c. \<not> is_formatting c) (replace_all ''//'' slash_mark (strip raw))"]
    by (auto simp: x_def)
  moreover have "\<not> is_formatting CHR ''/''" by (simp add: is_formatting_def is_space_def code_def)
  ultimately have "\<forall>c \<in> set x. \<not> is_formatting c" by auto
  then have c: "reference_clean (to_upper x)"
    using upper_not_formatting upper_not_lower by (auto simp: reference_clean_def list_all_iff to_upper_def)
  then have "reference_clean (take k (to_upper x))" for k
    by (auto simp: reference_clean_def list_all_iff dest: in_set_takeD)
  then show ?thesis using c by (simp add: clean_reference_def Let_def x_def[symmetric] split: option.splits)
qed

lemma field_strip_ends:
  assumes "s = [] \<or> \<not> is_space (hd s) \<and> \<not> is_space (last s)"
  shows "field_strip s = s"
proof (cases "s = []")
  case False
  have f: "\<not> field_space c" if "\<not> is_space c" for c using that by (auto simp: field_space_def is_space_def)
  then have "dropWhile field_space s = s" using assms False by (cases s) auto
  moreover have "dropWhile field_space (rev s) = rev s" using assms False f by (cases s rule: rev_cases) auto
  ultimately show ?thesis by (simp add: field_strip_def)
qed (simp add: field_strip_def)

lemma field_strip_clean: "reference_clean s \<Longrightarrow> field_strip s = s"
proof (rule field_strip_ends, cases "s = []")
  case False
  assume "reference_clean s"
  then have "\<not> is_space (hd s)" "\<not> is_space (last s)"
    using False by (simp_all add: reference_clean_def list_all_iff is_formatting_def)
  then show "s = [] \<or> \<not> is_space (hd s) \<and> \<not> is_space (last s)" by simp
qed simp

section \<open>Amounts and currencies\<close>

lemma normalise_currency_ok:
  assumes "normalise_currency tbl raw = Inr c"
  shows "length c = 3 \<and> list_all is_upper c \<and> to_upper c = c \<and> field_strip c = c \<and> (\<exists>e. currency_exponent tbl c = Inr e)"
proof -
  have c: "c = to_upper (strip raw)" "length c = 3" "list_all is_alpha c" "\<exists>e. currency_exponent tbl c = Inr e"
    using assms by (auto simp: normalise_currency_def Let_def split: if_splits sum.splits)
  have "is_upper x" if "x \<in> set c" for x
  proof -
    have "is_alpha x" "\<not> is_lower x"
      using that c(1,3) upper_not_lower by (auto simp: list_all_iff to_upper_def)
    then show ?thesis by (simp add: is_alpha_def)
  qed
  then have u: "list_all is_upper c" by (simp add: list_all_iff)
  have "\<not> is_space x" if "x \<in> set c" for x
    using u that by (auto simp: list_all_iff is_upper_def is_space_def)
  moreover have "c \<noteq> []" using c(2) by auto
  ultimately have "field_strip c = c" by (intro field_strip_ends) auto
  then show ?thesis using c u by simp
qed

lemma resolve_currency_ok:
  assumes "resolve_currency tbl entry statement fallback = Inr (c, src)"
  shows "length c = 3 \<and> list_all is_upper c \<and> to_upper c = c \<and> field_strip c = c \<and> (\<exists>e. currency_exponent tbl c = Inr e)"
  using assms normalise_currency_ok unfolding resolve_currency_def by (auto simp: res_iff split: if_splits)

lemma from_decimal_ok:
  assumes "from_decimal tbl rnd d c = Inr m" "exponents_ok tbl" "to_upper c = c" "currency_exponent tbl c = Inr e"
  shows "m_currency m = c \<and> m_amount m * pow10 e = of_int (minor_units m) \<and> \<bar>minor_units m\<bar> < 10 ^ 28
     \<and> (\<exists>x. d = Fin x \<and> minor_units m = rnd (x * pow10 e))"
proof -
  have e: "0 \<le> e" using currency_exponent_nonneg assms(2,4) by blast
  obtain x where d: "d = Fin x"
    using assms(1,4) from_decimal_errors(1-3)[OF assms(4)] by (cases d) auto
  have k: "\<bar>rnd (x * pow10 e)\<bar> < 10 ^ 28"
  proof (rule ccontr)
    assume "\<not> \<bar>rnd (x * pow10 e)\<bar> < 10 ^ 28"
    then have "from_decimal tbl rnd (Fin x) c = Inl InvalidOperation"
      using from_decimal_errors(4)[where rnd = rnd and x = x, OF assms(4)] e by (simp add: pow10_def)
    then show False using assms(1) d by simp
  qed
  have "m = \<lparr>m_amount = of_int (rnd (x * pow10 e)) * pow10 (- e), m_currency = to_upper c, minor_units = rnd (x * pow10 e)\<rparr>"
    using from_decimal_Fin[where rnd = rnd and x = x, OF assms(4) e k] assms(1) d by simp
  then show ?thesis using assms(3) d k by (simp add: mult.assoc flip: pow10_add)
qed

lemma normalise_amount_ok:
  assumes "normalise_amount tbl s c dec th = Inr m" "exponents_ok tbl" "to_upper c = c" "currency_exponent tbl c = Inr e"
  shows "m_currency m = c \<and> m_amount m * pow10 e = of_int (minor_units m) \<and> \<bar>minor_units m\<bar> < 10 ^ 28"
  using assms from_decimal_ok[OF _ assms(2-4)]
  by (auto simp: normalise_amount_def split: option.splits sum.splits)

lemma normalise_timestamp_ok:
  assumes "normalise_timestamp zones s fmt zone tt tf = Inr t"
  shows "1 \<le> st_date t \<and> st_date t \<le> max_ordinal \<and> 0 \<le> st_utc t \<and> st_utc t \<le> max_instant"
proof -
  have "\<exists>u. strptime (strip s) fmt = Some (st_date t, u)" "0 \<le> st_utc t \<and> st_utc t \<le> max_instant"
    using assms by (auto simp: normalise_timestamp_def Let_def res_iff split: option.splits if_splits)
  then show ?thesis using strptime_range by blast
qed

section \<open>Well-typed transactions\<close>

definition canonical_ok :: "exponents \<Rightarrow> canonical \<Rightarrow> bool" where
  "canonical_ok tbl c =
     (currency_exponent tbl (cn_currency c) = Inr (cn_exponent c) \<and> length (cn_currency c) = 3
      \<and> list_all is_upper (cn_currency c)
      \<and> 0 \<le> cn_amount c \<and> cn_amount c * pow10 (cn_exponent c) = of_int (cn_minor c) \<and> 0 \<le> cn_minor c
      \<and> 1 \<le> cn_date c \<and> cn_date c \<le> max_ordinal \<and> 0 \<le> cn_utc c \<and> cn_utc c \<le> max_instant
      \<and> (case cn_settlement c of None \<Rightarrow> True | Some d \<Rightarrow> 1 \<le> d \<and> d \<le> max_ordinal)
      \<and> (case cn_ref c of None \<Rightarrow> False | Some s \<Rightarrow> reference_clean s)
      \<and> (cn_reverses c \<noteq> None \<longrightarrow> cn_is_reversal c))"

lemma valid_row_parts:
  assumes "normalise_valid_row nm row b f src file = Inr c"
  obtains fmt date_text ts mark dir rev cur cur_src decimal thousands amount_text money reference settlement e
  where "date_format_for f b = Inr fmt" "field_get ''txn_date'' (pr_mapped row) = Inr date_text"
    "normalise_timestamp (nm_zones nm) date_text fmt (bk_timezone b) None [] = Inr ts"
    "field_get ''direction'' (pr_mapped row) = Inr mark" "normalise_direction mark = Inr (dir, rev)"
    "resolve_currency (nm_table nm) (map_of (pr_mapped row) ''currency'') None (bk_currency b) = Inr (cur, cur_src)"
    "separators_for f b = Inr (decimal, thousands)" "field_get ''amount'' (pr_mapped row) = Inr amount_text"
    "normalise_amount (nm_table nm) amount_text cur decimal thousands = Inr money"
    "field_get ''reference'' (pr_mapped row) = Inr reference"
    "settlement_of nm row fmt (bk_timezone b) = Inr settlement" "currency_exponent (nm_table nm) cur = Inr e"
    "mk_canonical (nm_table nm)
          \<lparr>cn_source = src, cn_bank = bk_code b, cn_format = f, cn_file = file, cn_line = Some (pr_line row),
           cn_version = bk_version b, cn_txn_id = reference, cn_date = st_date ts, cn_amount = m_amount money,
           cn_minor = minor_units money, cn_currency = cur, cn_exponent = e, cn_currency_source = cur_src,
           cn_original_currency = map_of (pr_mapped row) ''currency'', cn_direction = dir, cn_is_reversal = rev,
           cn_reverses = None, cn_party = map_of (pr_mapped row) ''counterparty_name'',
           cn_party_norm = (case map_of (pr_mapped row) ''counterparty_name'' of
                              Some n \<Rightarrow> if n \<noteq> [] then Some (clean_counterparty_name (nm_names nm) n) else None
                            | None \<Rightarrow> None),
           cn_narration = map_of (pr_mapped row) ''narration'', cn_settlement = settlement,
           cn_amount_text = Some amount_text, cn_utc = st_utc ts, cn_stamp = st_text ts,
           cn_zone = bk_timezone b, cn_original_ref = Some reference,
           cn_ref = Some (clean_reference reference None)\<rparr> = Inr c"
  using assms unfolding normalise_valid_row_def Let_def bind_res_iff by (auto simp: bind_res_iff)

lemma mk_canonical_shape:
  assumes "mk_canonical tbl c = Inr c'"
  shows "cn_amount c' = cn_amount c \<and> 0 \<le> cn_amount c \<and> cn_minor c' = cn_minor c \<and> cn_exponent c' = cn_exponent c
     \<and> cn_currency c' = to_upper (field_strip (cn_currency c)) \<and> currency_exponent tbl (cn_currency c') = Inr (cn_exponent c)
     \<and> cn_date c' = cn_date c \<and> cn_utc c' = cn_utc c \<and> cn_settlement c' = cn_settlement c
     \<and> cn_ref c' = map_option field_strip (cn_ref c) \<and> cn_reverses c' = map_option field_strip (cn_reverses c)
     \<and> cn_is_reversal c' = cn_is_reversal c \<and> cn_direction c' = cn_direction c \<and> cn_source c' = cn_source c
     \<and> cn_file c' = cn_file c"
  using assms by (auto simp: mk_canonical_def Let_def split: if_splits sum.splits)

lemma normalise_Inr: "normalise nm row b f src file = Inr c \<Longrightarrow> row_valid row \<and> normalise_valid_row nm row b f src file = Inr c"
  by (auto simp: normalise_def split: if_splits sum.splits)

lemma normalised_ok:
  assumes "normalise nm row b f src file = Inr c" "exponents_ok (nm_table nm)"
  shows "canonical_ok (nm_table nm) c \<and> cn_source c = src \<and> cn_file c = file
    \<and> normalise_direction (field_of ''direction'' (pr_mapped row)) = Inr (cn_direction c, cn_is_reversal c)"
  using conjunct2[OF normalise_Inr[OF assms(1)]]
proof (rule valid_row_parts)
  fix fmt date_text ts mark dir rev cur cur_src decimal thousands amount_text money reference settlement e
  assume ts: "normalise_timestamp (nm_zones nm) date_text fmt (bk_timezone b) None [] = Inr ts"
    and mark: "field_get ''direction'' (pr_mapped row) = Inr mark" "normalise_direction mark = Inr (dir, rev)"
    and cur: "resolve_currency (nm_table nm) (map_of (pr_mapped row) ''currency'') None (bk_currency b) = Inr (cur, cur_src)"
    and money: "normalise_amount (nm_table nm) amount_text cur decimal thousands = Inr money"
    and settlement: "settlement_of nm row fmt (bk_timezone b) = Inr settlement"
    and e: "currency_exponent (nm_table nm) cur = Inr e"
    and c: "mk_canonical (nm_table nm)
          \<lparr>cn_source = src, cn_bank = bk_code b, cn_format = f, cn_file = file, cn_line = Some (pr_line row),
           cn_version = bk_version b, cn_txn_id = reference, cn_date = st_date ts, cn_amount = m_amount money,
           cn_minor = minor_units money, cn_currency = cur, cn_exponent = e, cn_currency_source = cur_src,
           cn_original_currency = map_of (pr_mapped row) ''currency'', cn_direction = dir, cn_is_reversal = rev,
           cn_reverses = None, cn_party = map_of (pr_mapped row) ''counterparty_name'',
           cn_party_norm = (case map_of (pr_mapped row) ''counterparty_name'' of
                              Some n \<Rightarrow> if n \<noteq> [] then Some (clean_counterparty_name (nm_names nm) n) else None
                            | None \<Rightarrow> None),
           cn_narration = map_of (pr_mapped row) ''narration'', cn_settlement = settlement,
           cn_amount_text = Some amount_text, cn_utc = st_utc ts, cn_stamp = st_text ts,
           cn_zone = bk_timezone b, cn_original_ref = Some reference,
           cn_ref = Some (clean_reference reference None)\<rparr> = Inr c"
  note k = mk_canonical_shape[OF c, simplified]
  note u = resolve_currency_ok[OF cur]
  have m: "m_amount money * pow10 e = of_int (minor_units money)"
    using normalise_amount_ok[OF money assms(2) _ e] u by simp
  have "0 \<le> m_amount money" using k by simp
  then have "0 \<le> minor_units money" using m pow10_pos[of e] by (metis mult_nonneg_nonneg of_int_0_le_iff less_imp_le)
  moreover have "case settlement of None \<Rightarrow> True | Some d \<Rightarrow> 1 \<le> d \<and> d \<le> max_ordinal"
    using settlement normalise_timestamp_ok
    by (auto simp: settlement_of_def Let_def res_iff split: if_splits option.splits)
  moreover have "reference_clean (field_strip (clean_reference reference None))"
    using clean_reference_clean field_strip_clean by simp
  ultimately have "canonical_ok (nm_table nm) c"
    using k u m e normalise_timestamp_ok[OF ts] by (simp add: canonical_ok_def)
  moreover have "field_of ''direction'' (pr_mapped row) = mark"
    using mark(1) by (simp add: field_get_def field_of_def split: option.splits)
  ultimately show ?thesis using k mark(2) by simp
qed

text \<open>C30. Normalisation is well typed: every transaction it produces has a registered
  three letter upper case currency with its exponent, an amount that is not negative
  and equals its minor units exactly, dates and an instant in Python's range, a
  reference without separators or lower case letters, and the direction and reversal
  flag of the row's mark.\<close>

theorem normalise_well_typed:
  assumes "normalise nm row b f src file = Inr c" "exponents_ok (nm_table nm)"
  shows "canonical_ok (nm_table nm) c \<and> cn_source c = src \<and> cn_file c = file
    \<and> normalise_direction (field_of ''direction'' (pr_mapped row)) = Inr (cn_direction c, cn_is_reversal c)"
  by (rule normalised_ok[OF assms])

section \<open>Files\<close>

lemma step_parts:
  "normalise_step nm b f src file r s = Inr s' \<Longrightarrow>
   length (fst s') + snd s' = Suc (length (fst s) + snd s)
   \<and> (\<exists>cs. fst s' = fst s @ cs \<and> list_all (\<lambda>c. normalise nm (reconstruct_row r) b f src file = Inr c) cs)"
  by (auto simp: normalise_step_def split: sum.splits if_splits)

lemma loop_parts:
  "loop_res (normalise_step nm b f src file) rs s = Inr s' \<Longrightarrow>
   length (fst s') + snd s' = length rs + (length (fst s) + snd s)
   \<and> (\<exists>cs. fst s' = fst s @ cs \<and> list_all (\<lambda>c. \<exists>r \<in> set rs. normalise nm (reconstruct_row r) b f src file = Inr c) cs)"
proof (induction rs arbitrary: s)
  case Nil then show ?case by simp
next
  case (Cons r rs)
  obtain t where t: "normalise_step nm b f src file r s = Inr t" "loop_res (normalise_step nm b f src file) rs t = Inr s'"
    using Cons.prems by (auto simp: res_iff)
  obtain as where a: "fst t = fst s @ as" "list_all (\<lambda>c. normalise nm (reconstruct_row r) b f src file = Inr c) as"
    using step_parts[OF t(1)] by blast
  obtain bs where b: "fst s' = fst t @ bs"
    "list_all (\<lambda>c. \<exists>r \<in> set rs. normalise nm (reconstruct_row r) b f src file = Inr c) bs"
    using Cons.IH[OF t(2)] by blast
  have "list_all (\<lambda>c. \<exists>r \<in> set (r # rs). normalise nm (reconstruct_row r) b f src file = Inr c) (as @ bs)"
    using a(2) b(2) by (auto simp: list_all_iff)
  then show ?case using a(1) b(1) step_parts[OF t(1)] Cons.IH[OF t(2)]
    by (intro conjI exI[of _ "as @ bs"]) auto
qed

text \<open>What a file stores: one transaction per parsed row that normalises, all well typed,
  and the ledger takes them as an arrival.\<close>

lemma normalise_file_stores:
  assumes "normalise_ingestion_file nm rows file b f src ids db = Inr ((n, failed), db')"
    "exponents_ok (nm_table nm)" "length ids = n" "distinct (map t_id (txns db) @ ids)"
    "list_all (\<lambda>r. r_internal r \<notin> set ids \<and> r_external r \<notin> set ids) (results db)"
  shows "n + failed = length (find_parsed rows file)
    \<and> (\<exists>cs. db' = add_transactions (map (\<lambda>(i, c). canonical_txn i c) (zip ids cs)) db \<and> length cs = n
          \<and> list_all (canonical_ok (nm_table nm)) cs) \<and> ledger_step db db'"
proof -
  obtain cs where l: "loop_res (normalise_step nm b f src file) (find_parsed rows file) ([], 0) = Inr (cs, failed)"
    "save_many ids cs db = Inr db'" "n = length cs"
    using assms(1) by (auto simp: normalise_ingestion_file_def res_iff)
  have "list_all (\<lambda>c. \<exists>r \<in> set (find_parsed rows file). normalise nm (reconstruct_row r) b f src file = Inr c) cs"
    using loop_parts[OF l(1)] by auto
  then have ok: "list_all (canonical_ok (nm_table nm)) cs"
    using normalised_ok[OF _ assms(2)] by (auto simp: list_all_iff)
  define ts where "ts = map (\<lambda>(i, c). canonical_txn i c) (zip ids cs)"
  have db': "db' = add_transactions ts db" using l(2) by (auto simp: save_many_def ts_def split: if_splits)
  have ids: "map t_id ts = ids"
  proof -
    have "map t_id ts = map fst (zip ids cs)"
      by (simp add: ts_def canonical_txn_def case_prod_unfold comp_def)
    then show ?thesis using assms(3) l(3) by simp
  qed
  have "t_id t \<in> set ids" if "t \<in> set ts" for t
    using that ids by (metis list.set_map image_eqI)
  moreover have "t_status t = UNMATCHED" if "t \<in> set ts" for t
    using that by (auto simp: ts_def canonical_txn_def)
  moreover have "r_internal r \<noteq> i \<and> r_external r \<noteq> i" if "r \<in> set (results db)" "i \<in> set ids" for r i
    using assms(5) that by (auto simp: list_all_iff)
  moreover have "distinct (map t_id (txns db @ ts))" using assms(4) ids by simp
  ultimately have "arrivals_ok ts db"
    unfolding arrivals_ok_def list_all_iff by metis
  then have "ledger_step db db'" unfolding db' by (rule ledger_step.arrive)
  then show ?thesis using loop_parts[OF l(1)] l(3) ok db' ts_def by auto
qed

section \<open>One bad amount stops the file\<close>

lemma loop_stops: "\<lbrakk>x \<in> set xs; \<And>s. \<exists>e. f x s = Inl e\<rbrakk> \<Longrightarrow> \<exists>e. loop_res f xs s = Inl e"
proof (induction xs arbitrary: s)
  case (Cons y ys)
  show ?case
  proof (cases "f y s")
    case (Inr t)
    moreover obtain e where "f x s = Inl e" using Cons.prems(2) by blast
    ultimately have "x \<in> set ys" using Cons.prems(1) by auto
    then obtain e where "loop_res f ys t = Inl e" using Cons.IH[OF _ Cons.prems(2)] by blast
    then show ?thesis by (simp add: Inr bind_res_def)
  qed (simp add: bind_res_def)
qed simp

definition with_amount :: "string \<Rightarrow> parsed_row \<Rightarrow> parsed_row" where
  "with_amount a r = r\<lparr>pr_mapped := map (\<lambda>(k, v). if k = ''amount'' then (k, a) else (k, v)) (pr_mapped r)\<rparr>"

lemma with_amount_get:
  "map_of (pr_mapped (with_amount a r)) k
   = (if k = ''amount'' then map_option (\<lambda>_. a) (map_of (pr_mapped r) k) else map_of (pr_mapped r) k)"
proof -
  have "map_of (map (\<lambda>(k, v). if k = ''amount'' then (k, a) else (k, v)) fs) k
      = (if k = ''amount'' then map_option (\<lambda>_. a) (map_of fs k) else map_of fs k)" for fs
    by (induction fs) auto
  then show ?thesis by (simp add: with_amount_def)
qed

definition bad_amount :: "int \<Rightarrow> pydec \<Rightarrow> bool" where
  "bad_amount e d = (case d of Fin x \<Rightarrow> round_half_even (x * pow10 e) < 0 | _ \<Rightarrow> True)"

lemma bad_amount_money:
  assumes "normalise_amount tbl s cur dec th = Inr m" "parse_decimal (clean_amount dec th (strip s)) = Some d"
    "bad_amount e d" "exponents_ok tbl" "to_upper cur = cur" "currency_exponent tbl cur = Inr e"
  shows "m_amount m < 0"
proof -
  have f: "from_decimal tbl round_half_even d cur = Inr m"
    using assms(1,2) by (auto simp: normalise_amount_def split: sum.splits)
  note o = from_decimal_ok[OF f assms(4-6)]
  then have "minor_units m < 0" using assms(3) by (auto simp: bad_amount_def)
  then have "m_amount m * pow10 e < 0" using o by simp
  then show ?thesis using pow10_pos[of e] by (simp add: mult_less_0_iff)
qed

lemma amount_error_kind:
  assumes "normalise_amount tbl s cur dec th = Inl err" "parse_decimal (clean_amount dec th (strip s)) = Some d"
    "currency_exponent tbl cur = Inr e" "exponents_ok tbl"
  shows "err = ValueError \<or> err = InvalidOperation"
proof -
  have "0 \<le> e" by (rule currency_exponent_nonneg[OF assms(4,3)])
  have u: "from_decimal tbl round_half_even d cur \<noteq> Inl UnknownCurrencyError
    \<and> (\<forall>e'. from_decimal tbl round_half_even d cur = Inl e' \<longrightarrow> e' = ValueError \<or> e' = InvalidOperation)"
  proof (cases d)
    case (Fin x)
    show ?thesis
    proof (cases "\<bar>round_half_even (x * pow10 e)\<bar> < 10 ^ 28")
      case True
      then show ?thesis using from_decimal_Fin[where rnd = round_half_even and x = x, OF assms(3) \<open>0 \<le> e\<close>] Fin by simp
    next
      case False
      then have "from_decimal tbl round_half_even (Fin x) cur = Inl InvalidOperation"
        using \<open>0 \<le> e\<close> by (intro from_decimal_errors(4)[where rnd = round_half_even and x = x, OF assms(3)]) (simp add: pow10_def)
      then show ?thesis using Fin by simp
    qed
  qed (use from_decimal_errors(1-3)[OF assms(3)] in auto)
  then show ?thesis using assms(1,2) by (auto simp: normalise_amount_def split: sum.splits)
qed

lemma bad_amount_escapes:
  assumes "normalise nm (with_amount zero row) b f src file = Inr c" "exponents_ok (nm_table nm)"
    "separators_for f b = Inr (dec, th)" "map_of (pr_mapped row) ''amount'' = Some s"
    "parse_decimal (clean_amount dec th (strip s)) = Some d" "bad_amount (cn_exponent c) d"
  shows "\<exists>err. normalise nm row b f src file = Inl err \<and> err \<noteq> NormalisationError"
  using conjunct2[OF normalise_Inr[OF assms(1)]]
proof (rule valid_row_parts)
  fix fmt date_text ts mark dir rev cur cur_src decimal thousands amount_text money reference settlement e
  assume p: "date_format_for f b = Inr fmt" "field_get ''txn_date'' (pr_mapped (with_amount zero row)) = Inr date_text"
    "normalise_timestamp (nm_zones nm) date_text fmt (bk_timezone b) None [] = Inr ts"
    "field_get ''direction'' (pr_mapped (with_amount zero row)) = Inr mark" "normalise_direction mark = Inr (dir, rev)"
    "resolve_currency (nm_table nm) (map_of (pr_mapped (with_amount zero row)) ''currency'') None (bk_currency b) = Inr (cur, cur_src)"
    "settlement_of nm (with_amount zero row) fmt (bk_timezone b) = Inr settlement"
    "field_get ''reference'' (pr_mapped (with_amount zero row)) = Inr reference" "currency_exponent (nm_table nm) cur = Inr e"
    and c: "mk_canonical (nm_table nm)
          \<lparr>cn_source = src, cn_bank = bk_code b, cn_format = f, cn_file = file, cn_line = Some (pr_line (with_amount zero row)),
           cn_version = bk_version b, cn_txn_id = reference, cn_date = st_date ts, cn_amount = m_amount money,
           cn_minor = minor_units money, cn_currency = cur, cn_exponent = e, cn_currency_source = cur_src,
           cn_original_currency = map_of (pr_mapped (with_amount zero row)) ''currency'', cn_direction = dir, cn_is_reversal = rev,
           cn_reverses = None, cn_party = map_of (pr_mapped (with_amount zero row)) ''counterparty_name'',
           cn_party_norm = (case map_of (pr_mapped (with_amount zero row)) ''counterparty_name'' of
                              Some n \<Rightarrow> if n \<noteq> [] then Some (clean_counterparty_name (nm_names nm) n) else None
                            | None \<Rightarrow> None),
           cn_narration = map_of (pr_mapped (with_amount zero row)) ''narration'', cn_settlement = settlement,
           cn_amount_text = Some amount_text, cn_utc = st_utc ts, cn_stamp = st_text ts,
           cn_zone = bk_timezone b, cn_original_ref = Some reference,
           cn_ref = Some (clean_reference reference None)\<rparr> = Inr c"
  have e: "cn_exponent c = e" using mk_canonical_shape[OF c] by simp
  note u = resolve_currency_ok[OF p(6)]
  have g: "field_get ''txn_date'' (pr_mapped row) = Inr date_text" "field_get ''direction'' (pr_mapped row) = Inr mark"
    "field_get ''reference'' (pr_mapped row) = Inr reference" "field_get ''amount'' (pr_mapped row) = Inr s"
    "settlement_of nm row fmt (bk_timezone b) = Inr settlement"
    "resolve_currency (nm_table nm) (map_of (pr_mapped row) ''currency'') None (bk_currency b) = Inr (cur, cur_src)"
    using p assms(4) by (simp_all add: field_get_def settlement_of_def field_of_def with_amount_get)
  have v: "row_valid row" using normalise_Inr[OF assms(1)] by (simp add: row_valid_def with_amount_def)
  show ?thesis
  proof (cases "normalise_amount (nm_table nm) s cur dec th")
    case (Inl err)
    have "err = ValueError \<or> err = InvalidOperation" by (rule amount_error_kind[OF Inl assms(5) p(9) assms(2)])
    moreover have "normalise_valid_row nm row b f src file = Inl err"
      by (simp add: normalise_valid_row_def p(1,3,5) g assms(3) Inl bind_res_def)
    ultimately show ?thesis using v by (auto simp: normalise_def sub_errors_def)
  next
    case (Inr m)
    have "m_amount m < 0" by (rule bad_amount_money[OF Inr assms(5) assms(6)[unfolded e] assms(2) _ p(9)]) (use u in simp)
    then have "normalise_valid_row nm row b f src file = Inl ValidationError"
      by (simp add: normalise_valid_row_def p(1,3,5,9) g assms(3) Inr bind_res_def mk_canonical_def)
    then show ?thesis using v by (auto simp: normalise_def sub_errors_def)
  qed
qed

text \<open>A negative, NaN or infinite amount is not quarantined: if one parsed row of a
  file is in order except that its amount is such a number, normalising the file
  raises and none of its rows is stored.\<close>

theorem bad_amount_stops_file:
  assumes "r \<in> set rows" "rw_file r = file" "rw_status r = PARSED"
    "normalise nm (with_amount ''0'' (reconstruct_row r)) b f src file = Inr c" "exponents_ok (nm_table nm)"
    "separators_for f b = Inr (dec, th)" "map_of (rw_mapped r) ''amount'' = Some s"
    "parse_decimal (clean_amount dec th (strip s)) = Some d" "bad_amount (cn_exponent c) d"
  shows "\<exists>e. normalise_ingestion_file nm rows file b f src ids db = Inl e"
proof -
  have "map_of (pr_mapped (reconstruct_row r)) ''amount'' = Some s" using assms(7) by (simp add: reconstruct_row_def)
  from bad_amount_escapes[OF assms(4-6) this assms(8,9)] obtain err where
    "normalise nm (reconstruct_row r) b f src file = Inl err" "err \<noteq> NormalisationError" by blast
  then have "\<And>s. \<exists>e. normalise_step nm b f src file r s = Inl e" by (simp add: normalise_step_def)
  moreover have "r \<in> set (find_parsed rows file)" using assms(1-3) by (simp add: find_parsed_def)
  ultimately obtain e where "loop_res (normalise_step nm b f src file) (find_parsed rows file) ([], 0) = Inl e"
    using loop_stops[of r "find_parsed rows file" "normalise_step nm b f src file" "([], 0)"] by blast
  then show ?thesis by (simp add: normalise_ingestion_file_def bind_res_def)
qed

section \<open>Witnesses\<close>

definition sample_bank :: bank_config where
  "sample_bank =
     \<lparr>bk_code = ''HDFC'', bk_name = ''HDFC Bank'', bk_version = ''hdfc.v1'', bk_formats = [''CSV'', ''MT940''],
      bk_timezone = ''Asia/Kolkata'', bk_currency = ''INR'', bk_settlement_cycle = ''T+1'', bk_window_days = 3,
      bk_csv = Some \<lparr>cv_delimiter = CHR '','', cv_mapping = [(''reference'', ''Ref''), (''txn_date'', ''Date''),
        (''amount'', ''Amount''), (''direction'', ''Type'')], cv_date_format = ''%d-%m-%Y'', cv_decimal = ''.'',
        cv_thousands = Some '',''\<rparr>,
      bk_mt940 = Some '','', bk_calendar = ''in'', bk_date_offset = None, bk_amount_tolerance = 1,
      bk_fx_tolerance = 3 / 2, bk_fee = None, bk_expected_time = Some ''18:00''\<rparr>"

definition sample_normaliser :: normaliser where
  "sample_normaliser =
     \<lparr>nm_zones = (\<lambda>_. Some (\<lambda>t. t - 19800000000)), nm_table = default_exponents, nm_names = abbreviations\<rparr>"

definition sample_raw :: "string \<Rightarrow> raw_row" where
  "sample_raw amount =
     \<lparr>rw_id = 5, rw_file = 9, rw_line = Some 2, rw_raw = [],
      rw_mapped = [(''reference'', ''ref-01''), (''txn_date'', ''18-09-2026''), (''amount'', amount), (''direction'', ''DR'')],
      rw_status = PARSED, rw_errors = []\<rparr>"

lemma sample_separators: "separators_for CSV sample_bank = Inr (''.'', Some '','')"
  by (simp add: separators_for_def sample_bank_def)

lemma sample_zero_ok:
  "is_ok (normalise sample_normaliser (with_amount ''0'' (reconstruct_row (sample_raw x))) sample_bank CSV EXTERNAL 9)"
proof -
  have t: "normalise_timestamp (\<lambda>_. Some (\<lambda>t. t - 19800000000)) ''18-09-2026'' ''%d-%m-%Y'' ''Asia/Kolkata'' None []
      = Inr \<lparr>st_utc = start_of 739877 - 19800000000, st_date = 739877, st_text = ''18-09-2026'', st_zone = ''Asia/Kolkata''\<rparr>"
    by code_simp
  have c: "resolve_currency default_exponents None None ''INR'' = Inr (''INR'', BANK_CONFIG_DEFAULT)" by code_simp
  have a: "normalise_amount default_exponents ''0'' ''INR'' ''.'' (Some '','')
      = Inr \<lparr>m_amount = 0, m_currency = ''INR'', minor_units = 0\<rparr>" by code_simp
  have d: "normalise_direction ''DR'' = Inr (DR, False)" by code_simp
  have e: "currency_exponent default_exponents ''INR'' = Inr 2" by code_simp
  have k: "to_upper (strip ''INR'') = ''INR''" "to_upper (field_strip ''INR'') = ''INR''" "length (field_strip ''INR'') = 3" by code_simp+
  show ?thesis
    by (simp add: normalise_def row_valid_def with_amount_def reconstruct_row_def sample_raw_def normalise_valid_row_def
        date_format_for_def sample_bank_def field_get_def t sample_normaliser_def
        d c a e settlement_of_def field_of_def separators_for_def mk_canonical_def k dec_scaleb_def is_ok_def int_of_dec_def)
qed

theorem bad_amount_stops_file_witness:
  "\<exists>e. normalise_ingestion_file sample_normaliser [sample_raw ''-500.00''] 9 sample_bank CSV EXTERNAL [1] empty_db = Inl e"
proof -
  obtain c where c: "normalise sample_normaliser (with_amount ''0'' (reconstruct_row (sample_raw ''-500.00''))) sample_bank CSV EXTERNAL 9 = Inr c"
    using sample_zero_ok[of "''-500.00''"] by (auto simp: is_ok_iff)
  have t: "exponents_ok (nm_table sample_normaliser)" by (simp add: sample_normaliser_def default_exponents_ok)
  have "currency_exponent (nm_table sample_normaliser) (cn_currency c) = Inr (cn_exponent c)"
    using normalised_ok[OF c t] by (simp add: canonical_ok_def)
  then have "0 \<le> cn_exponent c" by (rule currency_exponent_nonneg[OF t])
  then have "round_half_even (- 500 * pow10 (cn_exponent c)) < 0"
    using round_half_even_of_int[of "- 500 * 10 ^ nat (cn_exponent c)"] by (simp add: pow10_def)
  then have b: "bad_amount (cn_exponent c) (Fin (- 500))" by (simp add: bad_amount_def)
  have p: "parse_decimal (clean_amount ''.'' (Some '','') (strip ''-500.00'')) = Some (Fin (- 500))"
    by (simp add: clean_amount_def replace_all_def starts_with_def decimal_eval)
  show ?thesis
    by (rule bad_amount_stops_file[OF _ _ _ c t sample_separators _ p b]) (simp_all add: sample_raw_def)
qed

theorem normalise_well_typed_witness:
  "\<exists>c. normalise sample_normaliser (with_amount ''0'' (reconstruct_row (sample_raw []))) sample_bank CSV EXTERNAL 9 = Inr c
     \<and> canonical_ok default_exponents c \<and> cn_direction c = DR"
proof -
  obtain c where c: "normalise sample_normaliser (with_amount ''0'' (reconstruct_row (sample_raw []))) sample_bank CSV EXTERNAL 9 = Inr c"
    using sample_zero_ok[of "[]"] by (auto simp: is_ok_iff)
  have t: "exponents_ok (nm_table sample_normaliser)" by (simp add: sample_normaliser_def default_exponents_ok)
  have d: "normalise_direction ''DR'' = Inr (DR, False)" by code_simp
  have "field_of ''direction'' (pr_mapped (with_amount ''0'' (reconstruct_row (sample_raw [])))) = ''DR''"
    by (simp add: field_of_def with_amount_def reconstruct_row_def sample_raw_def)
  then show ?thesis using normalise_well_typed[OF c t] c d by (simp add: sample_normaliser_def)
qed

end
