(* ===== verification/Mt940.thy ===== *)
theory Mt940
  imports Rows
begin

text \<open>
  The MT940 parser (\<open>src/recon/ingestion/parsers/mt940\<close>): the lexer, the grammar of a
  \<open>:61:\<close> line, and the pass that pairs statement lines with narratives and reads the
  header. Each regular expression is written as the deterministic reader it amounts to:
  no alternative of it can match where an earlier one failed. Text is ASCII.
\<close>

section \<open>Lexer\<close>

record lexed_field =
  lx_tag :: string
  lx_content :: string
  lx_line :: nat

definition line_end :: "char \<Rightarrow> bool" where
  "line_end c = (code c \<in> {10, 11, 12, 13, 28, 29, 30})"

text \<open>\<open>str.splitlines()\<close>: a carriage return and line feed end one line.\<close>

fun splitlines :: "string \<Rightarrow> string list" where
  "splitlines [] = []"
| "splitlines [c] = [if line_end c then [] else [c]]"
| "splitlines (c # d # s) =
     (if c = CHR 0x0D \<and> d = CHR 0x0A then [] # splitlines s
      else if line_end c then [] # splitlines (d # s)
      else (case splitlines (d # s) of [] \<Rightarrow> [[c]] | l # ls \<Rightarrow> (c # l) # ls))"

text \<open>\<open>:dd:rest\<close> or \<open>:ddA:rest\<close>.\<close>

definition tag_line :: "string \<Rightarrow> (string \<times> string) option" where
  "tag_line s =
     (case s of
        c # a # b # d # r \<Rightarrow>
          if c = CHR '':'' \<and> is_digit a \<and> is_digit b then
            (if d = CHR '':'' then Some ([a, b], r)
             else if is_upper d \<and> r \<noteq> [] \<and> hd r = CHR '':'' then Some ([a, b, d], tl r) else None)
          else None
      | _ \<Rightarrow> None)"

text \<open>The fields so far and the open one: its tag, its lines and its first line's number.\<close>

type_synonym lex_state = "lexed_field list \<times> (string \<times> string list \<times> nat) option"

definition flush_field :: "lex_state \<Rightarrow> lexed_field list" where
  "flush_field s =
     (case s of (fs, None) \<Rightarrow> fs
      | (fs, Some (tg, ls, n)) \<Rightarrow> fs @ [\<lparr>lx_tag = tg, lx_content = join_with [CHR 0x0A] ls, lx_line = n\<rparr>])"

definition lex_line :: "nat \<times> string \<Rightarrow> lex_state \<Rightarrow> lex_state res" where
  "lex_line nl s =
     (case nl of (n, l) \<Rightarrow>
        if strip l = [] then Inr s
        else (case tag_line l of
                Some (tg, rest) \<Rightarrow> Inr (flush_field s, Some (tg, [rest], n))
              | None \<Rightarrow>
                  (case s of
                     (fs, None) \<Rightarrow> Inl MT940LexError
                   | (fs, Some (tg, ls, k)) \<Rightarrow> Inr (fs, Some (tg, ls @ [l], k)))))"

definition lex_mt940 :: "string \<Rightarrow> lexed_field list res" where
  "lex_mt940 t =
     bind_res (loop_res lex_line (enumerate 1 (splitlines t)) ([], None)) (\<lambda>s.
       if flush_field s = [] then Inl MT940LexError else Inr (flush_field s))"

section \<open>The statement line\<close>

record field_61 =
  f61_value_date :: string
  f61_entry_date :: "string option"
  f61_mark :: string
  f61_reversal :: bool
  f61_funds :: "char option"
  f61_amount :: string
  f61_type :: string
  f61_reference :: string
  f61_supplementary :: "string option"

definition is_amount_char :: "char \<Rightarrow> bool" where
  "is_amount_char c = (is_digit c \<or> c = CHR ''.'' \<or> c = CHR '','')"

definition read_digits :: "nat \<Rightarrow> string \<Rightarrow> (string \<times> string) option" where
  "read_digits n s = (if n \<le> length s \<and> list_all is_digit (take n s) then Some (take n s, drop n s) else None)"

definition read_mark :: "string \<Rightarrow> (string \<times> string) option" where
  "read_mark s =
     (case s of
        c # r \<Rightarrow>
          if c = CHR ''C'' \<or> c = CHR ''D'' then Some ([c], r)
          else (case r of
                  d # t \<Rightarrow> if c = CHR ''R'' \<and> (d = CHR ''C'' \<or> d = CHR ''D'') then Some ([c, d], t) else None
                | [] \<Rightarrow> None)
      | [] \<Rightarrow> None)"

definition read_entry_date :: "string \<Rightarrow> string option \<times> string" where
  "read_entry_date s = (case read_digits 4 s of Some (d, r) \<Rightarrow> (Some d, r) | None \<Rightarrow> (None, s))"

definition read_funds :: "string \<Rightarrow> char option \<times> string" where
  "read_funds s = (case s of c # r \<Rightarrow> if is_alpha c then (Some c, r) else (None, s) | [] \<Rightarrow> (None, s))"

definition read_type :: "string \<Rightarrow> (string \<times> string) option" where
  "read_type s =
     (if 4 \<le> length s \<and> is_alpha (hd s) \<and> list_all (\<lambda>c. is_alpha c \<or> is_digit c) (take 3 (tl s))
      then Some (take 4 s, drop 4 s) else None)"

definition first_line :: "string \<Rightarrow> string" where
  "first_line s = takeWhile (\<lambda>c. c \<noteq> CHR 0x0A) s"

definition other_lines :: "string \<Rightarrow> string option" where
  "other_lines s =
     (let r = strip (tl (dropWhile (\<lambda>c. c \<noteq> CHR 0x0A) s)) in
      if dropWhile (\<lambda>c. c \<noteq> CHR 0x0A) s = [] \<or> r = [] then None else Some r)"

definition parse_field_61 :: "string \<Rightarrow> field_61 res" where
  "parse_field_61 content =
     (case read_digits 6 (first_line content) of
        None \<Rightarrow> Inl Field61ParseError
      | Some (value_date, s1) \<Rightarrow>
     (case read_entry_date s1 of (entry, s2) \<Rightarrow>
     (case read_mark s2 of
        None \<Rightarrow> Inl Field61ParseError
      | Some (mark, s3) \<Rightarrow>
     (case read_funds s3 of (funds, s4) \<Rightarrow>
        let amount = takeWhile is_amount_char s4 in
        if amount = [] then Inl Field61ParseError
        else (case read_type (dropWhile is_amount_char s4) of
                None \<Rightarrow> Inl Field61ParseError
              | Some (typ, reference) \<Rightarrow>
                  Inr \<lparr>f61_value_date = value_date, f61_entry_date = entry, f61_mark = mark,
                       f61_reversal = (mark \<in> {''RC'', ''RD''}), f61_funds = funds, f61_amount = amount,
                       f61_type = typ, f61_reference = strip reference,
                       f61_supplementary = other_lines content\<rparr>)))))"

section \<open>Header and rows\<close>

record mt940_balance =
  mb_tag :: string
  mb_mark :: char
  mb_date :: string
  mb_currency :: string
  mb_amount :: string

record mt940_header =
  mh_reference :: "string option"
  mh_account :: "string option"
  mh_number :: "string option"
  mh_opening :: "mt940_balance option"
  mh_closing :: "mt940_balance option"

definition parse_balance :: "string \<Rightarrow> string \<Rightarrow> mt940_balance res" where
  "parse_balance tg content =
     (case content of
        [] \<Rightarrow> Inl IndexError
      | c # r \<Rightarrow> Inr \<lparr>mb_tag = tg, mb_mark = c, mb_date = take 6 r, mb_currency = take 3 (drop 6 r), mb_amount = drop 9 r\<rparr>)"

definition header_step :: "lexed_field \<Rightarrow> mt940_header \<Rightarrow> mt940_header res" where
  "header_step f h =
     (if lx_tag f = ''20'' then Inr (h\<lparr>mh_reference := Some (strip (lx_content f))\<rparr>)
      else if lx_tag f = ''25'' then Inr (h\<lparr>mh_account := Some (strip (lx_content f))\<rparr>)
      else if lx_tag f = ''28C'' then Inr (h\<lparr>mh_number := Some (strip (lx_content f))\<rparr>)
      else if lx_tag f \<in> {''60F'', ''60M''} then
        bind_res (parse_balance (lx_tag f) (lx_content f)) (\<lambda>b. Inr (h\<lparr>mh_opening := Some b\<rparr>))
      else if lx_tag f \<in> {''62F'', ''62M''} then
        bind_res (parse_balance (lx_tag f) (lx_content f)) (\<lambda>b. Inr (h\<lparr>mh_closing := Some b\<rparr>))
      else Inr h)"

definition extract_header :: "lexed_field list \<Rightarrow> mt940_header res" where
  "extract_header fs =
     loop_res header_step fs
       \<lparr>mh_reference = None, mh_account = None, mh_number = None, mh_opening = None, mh_closing = None\<rparr>"

definition one_error :: "bool \<Rightarrow> parse_error_code \<Rightarrow> string option \<Rightarrow> string \<Rightarrow> parse_error list" where
  "one_error b c fld detail = (if b then [\<lparr>pe_code = c, pe_field = fld, pe_detail = detail\<rparr>] else [])"

definition build_row_61 :: "string \<Rightarrow> lexed_field \<Rightarrow> string \<Rightarrow> parsed_row" where
  "build_row_61 decimal f narration =
     (case parse_field_61 (lx_content f) of
        Inl _ \<Rightarrow>
          \<lparr>pr_line = int (lx_line f), pr_raw = [(''61'', lx_content f), (''86'', narration)], pr_mapped = [],
           pr_errors = one_error True MALFORMED_FIELD None
             ('':61: content does not match expected structure: '' @ repr_str (first_line (lx_content f)))\<rparr>
      | Inr p \<Rightarrow>
          \<lparr>pr_line = int (lx_line f), pr_raw = [(''61'', lx_content f), (''86'', narration)],
           pr_mapped = [(''reference'', f61_reference p), (''txn_date'', f61_value_date p), (''amount'', f61_amount p),
                        (''direction'', f61_mark p), (''narration'', narration)],
           pr_errors =
             one_error (strip (f61_reference p) = []) MISSING_REQUIRED_FIELD (Some ''reference'') ''customer reference is empty''
             @ one_error (strptime (f61_value_date p) ''%y%m%d'' = None) INVALID_DATE (Some ''txn_date'')
                 (repr_str (f61_value_date p) @ '' is not a valid YYMMDD date'')
             @ one_error (parse_decimal (if decimal \<noteq> ''.'' then replace_all decimal ''.'' (f61_amount p) else f61_amount p) = None)
                 INVALID_AMOUNT (Some ''amount'') (repr_str (f61_amount p) @ '' could not be parsed as a decimal amount'')\<rparr>)"

fun extract_rows :: "string \<Rightarrow> lexed_field list \<Rightarrow> parsed_row list" where
  "extract_rows decimal [] = []"
| "extract_rows decimal [f] = (if lx_tag f = ''61'' then [build_row_61 decimal f []] else [])"
| "extract_rows decimal (f # g # fs) =
     (if lx_tag f \<noteq> ''61'' then extract_rows decimal (g # fs)
      else if lx_tag g = ''86'' then build_row_61 decimal f (strip (lx_content g)) # extract_rows decimal fs
      else build_row_61 decimal f [] # extract_rows decimal (g # fs))"

definition parse_mt940 :: "bank_config \<Rightarrow> string \<Rightarrow> (mt940_header \<times> parsed_row list) res" where
  "parse_mt940 b t =
     (case bk_mt940 b of
        None \<Rightarrow> Inl MT940ParseError
      | Some decimal \<Rightarrow>
          (case lex_mt940 t of
             Inl _ \<Rightarrow> Inl MT940ParseError
           | Inr fs \<Rightarrow> bind_res (extract_header fs) (\<lambda>h. Inr (h, extract_rows decimal fs))))"

section \<open>The statement line reads back\<close>

text \<open>A statement line written from its parts.\<close>

definition render_61 :: "field_61 \<Rightarrow> string" where
  "render_61 p =
     f61_value_date p @ (case f61_entry_date p of None \<Rightarrow> [] | Some d \<Rightarrow> d) @ f61_mark p
     @ (case f61_funds p of None \<Rightarrow> [] | Some c \<Rightarrow> [c]) @ f61_amount p @ f61_type p @ f61_reference p
     @ (case f61_supplementary p of None \<Rightarrow> [] | Some s \<Rightarrow> CHR 0x0A # s)"

definition field_61_ok :: "field_61 \<Rightarrow> bool" where
  "field_61_ok p =
     (length (f61_value_date p) = 6 \<and> list_all is_digit (f61_value_date p)
      \<and> (case f61_entry_date p of None \<Rightarrow> True | Some d \<Rightarrow> length d = 4 \<and> list_all is_digit d)
      \<and> f61_mark p \<in> {''C'', ''D'', ''RC'', ''RD''} \<and> (f61_reversal p \<longleftrightarrow> f61_mark p \<in> {''RC'', ''RD''})
      \<and> (case f61_funds p of None \<Rightarrow> True | Some c \<Rightarrow> is_alpha c)
      \<and> f61_amount p \<noteq> [] \<and> list_all is_amount_char (f61_amount p)
      \<and> length (f61_type p) = 4 \<and> is_alpha (hd (f61_type p)) \<and> list_all (\<lambda>c. is_alpha c \<or> is_digit c) (tl (f61_type p))
      \<and> strip (f61_reference p) = f61_reference p \<and> CHR 0x0A \<notin> set (f61_reference p)
      \<and> (case f61_supplementary p of None \<Rightarrow> True | Some s \<Rightarrow> strip s = s \<and> s \<noteq> []))"

lemma mark_not_digit: "m \<in> {''C'', ''D'', ''RC'', ''RD''} \<Longrightarrow> m \<noteq> [] \<and> \<not> is_digit (hd m)"
  by (auto simp: is_digit_def code_def)

lemma read_digits_append: "\<lbrakk>length d = n; list_all is_digit d\<rbrakk> \<Longrightarrow> read_digits n (d @ s) = Some (d, s)"
  by (simp add: read_digits_def)

lemma read_entry_date_append:
  assumes "\<And>x. d = Some x \<Longrightarrow> length x = 4 \<and> list_all is_digit x" "s \<noteq> []" "\<not> is_digit (hd s)"
  shows "read_entry_date ((case d of None \<Rightarrow> [] | Some x \<Rightarrow> x) @ s) = (d, s)"
proof (cases d)
  case None
  have "read_digits 4 s = None" using assms(2,3) by (cases s) (auto simp: read_digits_def)
  then show ?thesis by (simp add: None read_entry_date_def)
qed (use assms(1) in \<open>simp add: read_entry_date_def read_digits_append\<close>)

lemma read_mark_append: "m \<in> {''C'', ''D'', ''RC'', ''RD''} \<Longrightarrow> read_mark (m @ s) = Some (m, s)"
  by (auto simp: read_mark_def)

lemma read_funds_append:
  assumes "\<And>c. f = Some c \<Longrightarrow> is_alpha c" "s \<noteq> []" "\<not> is_alpha (hd s)"
  shows "read_funds ((case f of None \<Rightarrow> [] | Some c \<Rightarrow> [c]) @ s) = (f, s)"
proof (cases f)
  case None
  then show ?thesis using assms(2,3) by (cases s) (auto simp: read_funds_def)
next
  case (Some c)
  then show ?thesis using assms(1)[OF Some] by (simp add: read_funds_def)
qed

lemma alpha_not_amount: "is_alpha c \<Longrightarrow> \<not> is_amount_char c"
  by (auto simp: is_alpha_def is_upper_def is_lower_def is_amount_char_def is_digit_def code_def)

lemma read_type_append:
  assumes "length t = 4" "is_alpha (hd t)" "list_all (\<lambda>c. is_alpha c \<or> is_digit c) (tl t)"
  shows "read_type (t @ s) = Some (t, s)"
proof -
  obtain a u where t: "t = a # u" "length u = 3" using assms(1) by (cases t) auto
  then show ?thesis using assms by (simp add: read_type_def)
qed

lemma first_line_append: "CHR 0x0A \<notin> set a \<Longrightarrow> first_line (a @ CHR 0x0A # s) = a \<and> first_line a = a"
  by (auto simp: first_line_def takeWhile_append)

text \<open>The first line has no line feed.\<close>

definition line_61 :: "field_61 \<Rightarrow> string" where
  "line_61 p = f61_value_date p @ (case f61_entry_date p of None \<Rightarrow> [] | Some d \<Rightarrow> d) @ f61_mark p
     @ (case f61_funds p of None \<Rightarrow> [] | Some c \<Rightarrow> [c]) @ f61_amount p @ f61_type p @ f61_reference p"

lemma line_61_no_newline:
  assumes "field_61_ok p"
  shows "CHR 0x0A \<notin> set (line_61 p)"
proof -
  have k: "list_all is_digit (f61_value_date p)" "f61_mark p \<in> {''C'', ''D'', ''RC'', ''RD''}"
    "list_all is_amount_char (f61_amount p)" "length (f61_type p) = 4" "is_alpha (hd (f61_type p))"
    "list_all (\<lambda>c. is_alpha c \<or> is_digit c) (tl (f61_type p))" "CHR 0x0A \<notin> set (f61_reference p)"
    and opt: "\<And>d. f61_entry_date p = Some d \<Longrightarrow> list_all is_digit d" "\<And>c. f61_funds p = Some c \<Longrightarrow> is_alpha c"
    using assms unfolding field_61_ok_def by (simp_all split: option.splits)
  have n: "\<not> is_digit CHR 0x0A" "\<not> is_alpha CHR 0x0A" "\<not> is_amount_char CHR 0x0A"
    by (simp_all add: is_digit_def is_alpha_def is_upper_def is_lower_def is_amount_char_def code_def)
  have "CHR 0x0A \<notin> set (f61_type p)"
    using k(4-6) n by (cases "f61_type p") (auto simp: list_all_iff)
  moreover have "CHR 0x0A \<notin> set (f61_mark p)" using k(2) by auto
  moreover have "CHR 0x0A \<notin> set (f61_value_date p)" "CHR 0x0A \<notin> set (f61_amount p)"
    using k(1,3) n by (auto simp: list_all_iff)
  moreover have "CHR 0x0A \<notin> set (case f61_entry_date p of None \<Rightarrow> [] | Some d \<Rightarrow> d)"
    using opt(1) n by (cases "f61_entry_date p") (auto simp: list_all_iff)
  moreover have "CHR 0x0A \<notin> set (case f61_funds p of None \<Rightarrow> [] | Some c \<Rightarrow> [c])"
    using opt(2) n by (cases "f61_funds p") auto
  ultimately show ?thesis using k(7) by (simp add: line_61_def)
qed

text \<open>C34. A statement line reads back: writing the parts of a well formed \<open>:61:\<close> line one
  after the other and parsing the text gives the same parts, with or without entry
  date, funds code and supplementary line.\<close>

theorem field_61_roundtrip:
  assumes "field_61_ok p"
  shows "parse_field_61 (render_61 p) = Inr p"
proof -
  have k: "length (f61_value_date p) = 6" "list_all is_digit (f61_value_date p)" "f61_mark p \<in> {''C'', ''D'', ''RC'', ''RD''}"
    "f61_amount p \<noteq> []" "list_all is_amount_char (f61_amount p)"
    "length (f61_type p) = 4" "is_alpha (hd (f61_type p))" "list_all (\<lambda>c. is_alpha c \<or> is_digit c) (tl (f61_type p))"
    and opt: "\<And>d. f61_entry_date p = Some d \<Longrightarrow> length d = 4 \<and> list_all is_digit d"
    "\<And>c. f61_funds p = Some c \<Longrightarrow> is_alpha c" "\<And>s. f61_supplementary p = Some s \<Longrightarrow> strip s = s \<and> s \<noteq> []"
    and rev: "f61_reversal p = (f61_mark p \<in> {''RC'', ''RD''})"
    and ref: "strip (f61_reference p) = f61_reference p"
    using assms unfolding field_61_ok_def by (simp_all split: option.splits)
  define line where "line = line_61 p"
  have no: "CHR 0x0A \<notin> set line" unfolding line_def by (rule line_61_no_newline[OF assms])
  have r: "render_61 p = line @ (case f61_supplementary p of None \<Rightarrow> [] | Some s \<Rightarrow> CHR 0x0A # s)"
    by (simp add: render_61_def line_61_def line_def)
  have f: "first_line (render_61 p) = line"
    using first_line_append[OF no] by (auto simp: r split: option.splits)
  have drop: "dropWhile (\<lambda>c. c \<noteq> CHR 0x0A) line = []"
    using no by (auto simp: dropWhile_eq_Nil_conv)
  have sup: "other_lines (render_61 p) = f61_supplementary p"
  proof (cases "f61_supplementary p")
    case None
    then show ?thesis using drop by (simp add: other_lines_def r)
  next
    case (Some s)
    have "dropWhile (\<lambda>c. c \<noteq> CHR 0x0A) (line @ CHR 0x0A # s) = CHR 0x0A # s"
      by (subst dropWhile_append2) (use no in auto)
    then show ?thesis using opt(3)[OF Some] Some by (simp add: other_lines_def r)
  qed
  have ty: "f61_type p \<noteq> []" "\<not> is_amount_char (hd (f61_type p))" using k(6,7) alpha_not_amount by auto
  have am: "takeWhile is_amount_char (f61_amount p @ f61_type p @ f61_reference p) = f61_amount p"
    "dropWhile is_amount_char (f61_amount p @ f61_type p @ f61_reference p) = f61_type p @ f61_reference p"
    using k(5) ty by (cases "f61_type p"; simp add: list_all_iff takeWhile_append2 dropWhile_append2)+
  have hda: "\<not> is_alpha (hd (f61_amount p))"
    using k(4,5) alpha_not_amount by (cases "f61_amount p") (auto simp: list_all_iff)
  have fu: "read_funds ((case f61_funds p of None \<Rightarrow> [] | Some c \<Rightarrow> [c]) @ f61_amount p @ f61_type p @ f61_reference p)
      = (f61_funds p, f61_amount p @ f61_type p @ f61_reference p)"
    by (rule read_funds_append) (use k(4) opt(2) hda in auto)
  have mk: "f61_mark p \<noteq> [] \<and> \<not> is_digit (hd (f61_mark p))" using k(3) mark_not_digit by blast
  have en: "read_entry_date ((case f61_entry_date p of None \<Rightarrow> [] | Some d \<Rightarrow> d) @ f61_mark p @ x) = (f61_entry_date p, f61_mark p @ x)" for x
    by (rule read_entry_date_append) (use opt(1) mk in auto)
  have re: "read_digits 6 line = Some (f61_value_date p, drop 6 line)"
    "drop 6 line = (case f61_entry_date p of None \<Rightarrow> [] | Some d \<Rightarrow> d) @ f61_mark p
     @ (case f61_funds p of None \<Rightarrow> [] | Some c \<Rightarrow> [c]) @ f61_amount p @ f61_type p @ f61_reference p"
    using k(1,2) read_digits_append by (simp_all add: line_def line_61_def)
  have "read_type (f61_type p @ f61_reference p) = Some (f61_type p, f61_reference p)"
    by (rule read_type_append) (use k(6-8) in auto)
  moreover have "read_mark (f61_mark p @ x) = Some (f61_mark p, x)" for x
    by (rule read_mark_append[OF k(3)])
  ultimately show ?thesis
    using k(4) ref rev by (simp add: parse_field_61_def f re en fu am sup)
qed

theorem field_61_roundtrip_witness:
  "\<exists>p. f61_mark p = ''RC'' \<and> f61_funds p = Some (CHR ''R'') \<and> parse_field_61 (render_61 p) = Inr p"
proof -
  let ?p = "\<lparr>f61_value_date = ''260918'', f61_entry_date = Some ''0919'', f61_mark = ''RC'', f61_reversal = True,
    f61_funds = Some (CHR ''R''), f61_amount = ''1500,50'', f61_type = ''NTRF'', f61_reference = ''REF1//BANK'',
    f61_supplementary = Some ''INVOICE''\<rparr>"
  have "field_61_ok ?p"
    by code_simp
  from field_61_roundtrip[OF this] show ?thesis by (intro exI[of _ ?p]) simp
qed

end
