(* ===== verification/Balances.thy ===== *)
theory Balances
  imports Mt940
begin

text \<open>
  CAMT.053 statements (\<open>src/recon/ingestion/parsers/camt053\<close>) and the balance check of
  both statement formats (\<open>ingestion/balances.py\<close>). The XML library is not modelled:
  the parser starts from the element tree, a document that is no XML is its \<open>None\<close>.
\<close>

section \<open>Element trees\<close>

text \<open>Name with namespace, attributes, text, children.\<close>

datatype xml = Elem (x_tag: string) (x_attrs: "(string \<times> string) list") (x_text: "string option") (x_kids: "xml list")

definition camt_ns :: string where
  "camt_ns = ''urn:iso:std:iso:20022:tech:xsd:camt.053.001.08''"

definition camt_name :: "string \<Rightarrow> string" where
  "camt_name s = CHR ''{'' # camt_ns @ CHR ''}'' # s"

text \<open>\<open>findall\<close> and \<open>find\<close> along a path of child names.\<close>

fun find_all_path :: "string list \<Rightarrow> xml \<Rightarrow> xml list" where
  "find_all_path [] x = [x]"
| "find_all_path (p # ps) x = concat (map (find_all_path ps) (filter (\<lambda>k. x_tag k = camt_name p) (x_kids x)))"

definition find_path :: "string list \<Rightarrow> xml \<Rightarrow> xml option" where
  "find_path ps x = (case find_all_path ps x of [] \<Rightarrow> None | k # _ \<Rightarrow> Some k)"

definition xml_text :: "xml option \<Rightarrow> string option" where
  "xml_text e =
     (case e of None \<Rightarrow> None
      | Some x \<Rightarrow> (case x_text x of None \<Rightarrow> None | Some t \<Rightarrow> if strip t = [] then None else Some (strip t)))"

definition text_at :: "string list \<Rightarrow> xml \<Rightarrow> string option" where
  "text_at ps x = xml_text (find_path ps x)"

definition attr_at :: "string list \<Rightarrow> string \<Rightarrow> xml \<Rightarrow> string option" where
  "attr_at ps a x = (case find_path ps x of None \<Rightarrow> None | Some e \<Rightarrow> map_of (x_attrs e) a)"

definition or_empty :: "string option \<Rightarrow> string" where
  "or_empty v = (case v of None \<Rightarrow> [] | Some s \<Rightarrow> s)"

section \<open>CAMT.053\<close>

record camt_balance =
  cb_type :: string
  cb_indicator :: string
  cb_date :: "string option"
  cb_currency :: "string option"
  cb_amount :: "string option"

record camt_header =
  ch_message :: "string option"
  ch_account :: "string option"
  ch_statement :: "string option"
  ch_balances :: "camt_balance list"

definition camt_parse_balance :: "xml \<Rightarrow> camt_balance" where
  "camt_parse_balance b =
     \<lparr>cb_type = or_empty (text_at [''Tp'', ''CdOrPrtry'', ''Cd''] b), cb_indicator = or_empty (text_at [''CdtDbtInd''] b),
      cb_date = text_at [''Dt'', ''Dt''] b, cb_currency = attr_at [''Amt''] ''Ccy'' b, cb_amount = text_at [''Amt''] b\<rparr>"

definition camt_extract_header :: "xml \<Rightarrow> xml \<Rightarrow> camt_header" where
  "camt_extract_header rt stmt =
     \<lparr>ch_message = (case find_path [''GrpHdr''] rt of None \<Rightarrow> None | Some h \<Rightarrow> text_at [''MsgId''] h),
      ch_account = (case find_path [''Acct''] stmt of
                      None \<Rightarrow> None
                    | Some a \<Rightarrow> (case text_at [''Id'', ''IBAN''] a of
                                  None \<Rightarrow> text_at [''Id'', ''Othr'', ''Id''] a | Some i \<Rightarrow> Some i)),
      ch_statement = text_at [''Id''] stmt, ch_balances = map camt_parse_balance (find_all_path [''Bal''] stmt)\<rparr>"

definition entry_fields :: "xml \<Rightarrow> fields \<times> fields" where
  "entry_fields n =
     (let amount = or_empty (text_at [''Amt''] n); currency = or_empty (attr_at [''Amt''] ''Ccy'' n);
          mark = or_empty (text_at [''CdtDbtInd''] n); booked = or_empty (text_at [''BookgDt'', ''Dt''] n);
          valued = or_empty (text_at [''ValDt'', ''Dt''] n)
      in ([(''amount'', amount), (''currency'', currency), (''direction'', mark), (''bookg_dt'', booked), (''val_dt'', valued)],
          [(''txn_date'', booked), (''settlement_date'', valued), (''amount'', amount), (''currency'', currency),
           (''direction'', mark)]))"

text \<open>First end-to-end id, first creditor name, every additional text, over all details.\<close>

definition first_some :: "'a option \<Rightarrow> 'a option \<Rightarrow> 'a option" where
  "first_some a b = (case a of None \<Rightarrow> b | Some _ \<Rightarrow> a)"

definition tx_details :: "xml \<Rightarrow> string option \<times> string option \<times> string list" where
  "tx_details n =
     fold (\<lambda>d (e2e, name, parts).
            (first_some e2e (text_at [''Refs'', ''EndToEndId''] d), first_some name (text_at [''RltdPties'', ''Cdtr'', ''Nm''] d),
             case text_at [''AddtlTxInf''] d of None \<Rightarrow> parts | Some t \<Rightarrow> parts @ [t]))
       (find_all_path [''NtryDtls'', ''TxDtls''] n) (None, None, [])"

definition finalise_fields :: "xml \<Rightarrow> fields \<Rightarrow> string option \<times> string option \<times> string list \<Rightarrow> fields" where
  "finalise_fields n mapped d =
     (case d of (e2e, name, parts) \<Rightarrow>
        let parts = (case text_at [''AddtlNtryInf''] n of None \<Rightarrow> parts | Some t \<Rightarrow> parts @ [t]) in
        mapped @ [(''reference'', or_empty e2e)]
        @ (case name of None \<Rightarrow> [] | Some s \<Rightarrow> [(''counterparty_name'', s)])
        @ (if parts = [] then [] else [(''narration'', join_with '' | '' parts)]))"

definition camt_amount_errors :: "string \<Rightarrow> parse_error list" where
  "camt_amount_errors a =
     (if a = [] then one_error True MISSING_REQUIRED_FIELD (Some ''amount'') ''Ntry/Amt is missing''
      else one_error (parse_decimal a = None) INVALID_AMOUNT (Some ''amount'')
             (repr_str a @ '' could not be parsed as a decimal amount''))"

definition camt_row_errors :: "fields \<Rightarrow> parse_error list" where
  "camt_row_errors m =
     one_error (strip (field_of ''reference'' m) = []) MISSING_REQUIRED_FIELD (Some ''reference'')
       ''no EndToEndId found under any NtryDtls/TxDtls''
     @ one_error (field_of ''txn_date'' m = []) MISSING_REQUIRED_FIELD (Some ''txn_date'') ''Ntry/BookgDt/Dt is missing''
     @ one_error (field_of ''direction'' m \<notin> {''CRDT'', ''DBIT''}) MALFORMED_FIELD (Some ''direction'')
         (''CdtDbtInd='' @ repr_str (field_of ''direction'' m) @ '' is neither CRDT nor DBIT'')
     @ one_error (field_of ''currency'' m = []) MISSING_REQUIRED_FIELD (Some ''currency'') ''Amt/@Ccy attribute is missing''
     @ camt_amount_errors (field_of ''amount'' m)"

definition camt_build_row :: "int \<times> xml \<Rightarrow> parsed_row" where
  "camt_build_row kn =
     (case kn of (k, n) \<Rightarrow> case entry_fields n of (raw, mapped0) \<Rightarrow>
        let mapped = finalise_fields n mapped0 (tx_details n)
        in \<lparr>pr_line = k, pr_raw = raw @ [(''entry_index'', int_str k)], pr_mapped = mapped, pr_errors = camt_row_errors mapped\<rparr>)"

definition parse_camt :: "xml option \<Rightarrow> (camt_header \<times> parsed_row list) res" where
  "parse_camt doc =
     (case doc of
        None \<Rightarrow> Inl CAMT053ParseError
      | Some rt \<Rightarrow>
          if x_tag rt \<noteq> camt_name ''BkToCstmrStmt'' then Inl CAMT053ParseError
          else (case find_path [''Stmt''] rt of
                  None \<Rightarrow> Inl CAMT053ParseError
                | Some stmt \<Rightarrow>
                    Inr (camt_extract_header rt stmt,
                         map camt_build_row (map (\<lambda>(k, n). (int k, n)) (enumerate 1 (find_all_path [''Ntry''] stmt))))))"

section \<open>Balances\<close>

definition balance_sign :: "string \<Rightarrow> int option" where
  "balance_sign m =
     (if m \<in> {''C'', ''CRDT'', ''RD''} then Some 1 else if m \<in> {''D'', ''DBIT'', ''RC''} then Some (- 1) else None)"

definition sign_or_plus :: "string \<Rightarrow> int" where
  "sign_or_plus m = (case balance_sign m of None \<Rightarrow> 1 | Some s \<Rightarrow> s)"

record statement_balances =
  sb_ref :: "string option"
  sb_account :: "string option"
  sb_currency :: string
  sb_opening :: int
  sb_closing :: int
  sb_opening_date :: "date option"
  sb_closing_date :: "date option"

record balance_check =
  bc_balances :: statement_balances
  bc_entries :: nat
  bc_unparseable :: nat
  bc_net :: int

definition computed_closing :: "balance_check \<Rightarrow> int" where
  "computed_closing c = sb_opening (bc_balances c) + bc_net c"

definition difference_minor :: "balance_check \<Rightarrow> int" where
  "difference_minor c = sb_closing (bc_balances c) - computed_closing c"

definition balanced :: "balance_check \<Rightarrow> bool" where
  "balanced c = (difference_minor c = 0)"

text \<open>A NaN or an infinity passes the \<open>try\<close> and raises behind it.\<close>

definition to_minor :: "exponents \<Rightarrow> string option \<Rightarrow> string \<Rightarrow> string \<Rightarrow> int option res" where
  "to_minor tbl amount currency sep =
     (case amount of
        None \<Rightarrow> Inr None
      | Some a \<Rightarrow>
          if a = [] then Inr None
          else (case (parse_decimal (if sep \<noteq> ''.'' then replace_all sep ''.'' (strip a) else strip a),
                      currency_exponent tbl currency) of
                  (Some (Fin x), Inr e) \<Rightarrow> Inr (Some (round_half_even (dec_scaleb x e)))
                | (Some NaN, Inr e) \<Rightarrow> Inl ValueError
                | (Some SNaN, Inr e) \<Rightarrow> Inl InvalidOperation
                | (Some (Inf _), Inr e) \<Rightarrow> Inl OverflowErr
                | _ \<Rightarrow> Inr None))"

definition parse_balance_date :: "string option \<Rightarrow> string \<Rightarrow> nat \<Rightarrow> date option" where
  "parse_balance_date raw fmt width =
     (case raw of None \<Rightarrow> None | Some s \<Rightarrow> if s = [] then None else map_option fst (strptime (take width (strip s)) fmt))"

definition mt940_balances :: "exponents \<Rightarrow> mt940_header \<Rightarrow> string \<Rightarrow> statement_balances option res" where
  "mt940_balances tbl h sep =
     (case (mh_opening h, mh_closing h) of
        (Some o1, Some c1) \<Rightarrow>
          bind_res (to_minor tbl (Some (mb_amount o1)) (mb_currency o1) sep) (\<lambda>ov.
          bind_res (to_minor tbl (Some (mb_amount c1)) (mb_currency c1) sep) (\<lambda>cv.
            Inr (case (ov, cv) of
                   (Some x, Some y) \<Rightarrow>
                     Some \<lparr>sb_ref = (if or_empty (mh_number h) \<noteq> [] then mh_number h else mh_reference h),
                           sb_account = mh_account h, sb_currency = mb_currency o1,
                           sb_opening = x * sign_or_plus [mb_mark o1], sb_closing = y * sign_or_plus [mb_mark c1],
                           sb_opening_date = parse_balance_date (Some (mb_date o1)) ''%y%m%d'' 6,
                           sb_closing_date = parse_balance_date (Some (mb_date c1)) ''%y%m%d'' 6\<rparr>
                 | _ \<Rightarrow> None)))
      | _ \<Rightarrow> Inr None)"

definition camt_balances :: "exponents \<Rightarrow> camt_header \<Rightarrow> statement_balances option res" where
  "camt_balances tbl h =
     (case (find (\<lambda>b. cb_type b \<in> {''OPBD'', ''PRCD''}) (ch_balances h), find (\<lambda>b. cb_type b = ''CLBD'') (ch_balances h)) of
        (Some o1, Some c1) \<Rightarrow>
          if or_empty (cb_currency o1) = [] \<or> or_empty (cb_currency c1) = [] then Inr None
          else bind_res (to_minor tbl (cb_amount o1) (or_empty (cb_currency o1)) ''.'') (\<lambda>ov.
               bind_res (to_minor tbl (cb_amount c1) (or_empty (cb_currency c1)) ''.'') (\<lambda>cv.
                 Inr (case (ov, cv) of
                        (Some x, Some y) \<Rightarrow>
                          Some \<lparr>sb_ref = (if or_empty (ch_statement h) \<noteq> [] then ch_statement h else ch_message h),
                                sb_account = ch_account h, sb_currency = or_empty (cb_currency o1),
                                sb_opening = x * sign_or_plus (cb_indicator o1), sb_closing = y * sign_or_plus (cb_indicator c1),
                                sb_opening_date = parse_balance_date (cb_date o1) ''%Y-%m-%d'' 10,
                                sb_closing_date = parse_balance_date (cb_date c1) ''%Y-%m-%d'' 10\<rparr>
                      | _ \<Rightarrow> None)))
      | _ \<Rightarrow> Inr None)"

definition tally_row ::
    "exponents \<Rightarrow> statement_balances \<Rightarrow> string \<Rightarrow> parsed_row \<Rightarrow> balance_check \<Rightarrow> balance_check res" where
  "tally_row tbl bal sep row c =
     (let mark = to_upper (strip (field_of ''direction'' (pr_mapped row)));
          cur = field_of ''currency'' (pr_mapped row)
      in bind_res (to_minor tbl (map_of (pr_mapped row) ''amount'') (if cur \<noteq> [] then cur else sb_currency bal) sep) (\<lambda>v.
           Inr (case (balance_sign mark, v) of
                  (Some s, Some x) \<Rightarrow> c\<lparr>bc_entries := bc_entries c + 1, bc_net := bc_net c + x * s\<rparr>
                | _ \<Rightarrow> c\<lparr>bc_unparseable := bc_unparseable c + 1\<rparr>)))"

definition check_statement ::
    "exponents \<Rightarrow> statement_balances \<Rightarrow> parsed_row list \<Rightarrow> string \<Rightarrow> balance_check res" where
  "check_statement tbl bal rows sep =
     loop_res (tally_row tbl bal sep) rows \<lparr>bc_balances = bal, bc_entries = 0, bc_unparseable = 0, bc_net = 0\<rparr>"

section \<open>What the check counts\<close>

text \<open>The signed amount of a row that can be read.\<close>

definition signed_amount :: "exponents \<Rightarrow> statement_balances \<Rightarrow> string \<Rightarrow> parsed_row \<Rightarrow> int option" where
  "signed_amount tbl bal sep row =
     (let cur = field_of ''currency'' (pr_mapped row) in
      case (balance_sign (to_upper (strip (field_of ''direction'' (pr_mapped row)))),
            to_minor tbl (map_of (pr_mapped row) ''amount'') (if cur \<noteq> [] then cur else sb_currency bal) sep) of
        (Some s, Inr (Some x)) \<Rightarrow> Some (x * s) | _ \<Rightarrow> None)"

lemma tally_row_value:
  "tally_row tbl bal sep row c = Inr c' \<Longrightarrow>
   c' = (case signed_amount tbl bal sep row of
           None \<Rightarrow> c\<lparr>bc_unparseable := bc_unparseable c + 1\<rparr>
         | Some x \<Rightarrow> c\<lparr>bc_entries := bc_entries c + 1, bc_net := bc_net c + x\<rparr>)"
  by (auto simp: tally_row_def signed_amount_def Let_def res_iff split: option.splits)

lemma check_loop_value:
  "loop_res (tally_row tbl bal sep) rows c = Inr c' \<Longrightarrow>
   bc_balances c' = bc_balances c \<and> bc_entries c' + bc_unparseable c' = bc_entries c + bc_unparseable c + length rows
   \<and> bc_net c' = bc_net c + sum_list (List.map_filter (signed_amount tbl bal sep) rows)
   \<and> bc_entries c' = bc_entries c + length (List.map_filter (signed_amount tbl bal sep) rows)"
proof (induction rows arbitrary: c)
  case Nil then show ?case by (simp add: map_filter_simps)
next
  case (Cons r rows)
  obtain d where d: "tally_row tbl bal sep r c = Inr d" "loop_res (tally_row tbl bal sep) rows d = Inr c'"
    using Cons.prems by (auto simp: res_iff)
  show ?case using tally_row_value[OF d(1)] Cons.IH[OF d(2)]
    by (simp add: map_filter_simps split: option.splits)
qed

text \<open>Every row is an entry or counted as unparseable, the net is the sum of the signed
  amounts that can be read, and a statement with no unreadable row balances exactly
  when opening plus entries is closing.\<close>

lemma check_statement_counts:
  assumes "check_statement tbl bal rows sep = Inr c"
  shows "bc_entries c + bc_unparseable c = length rows
    \<and> (balanced c \<longleftrightarrow> sb_opening bal + sum_list (List.map_filter (signed_amount tbl bal sep) rows) = sb_closing bal)"
  using check_loop_value[OF assms[unfolded check_statement_def]]
  by (auto simp: balanced_def difference_minor_def computed_closing_def)

text \<open>An infinite amount in one entry makes the whole check raise.\<close>

lemma infinite_entry_raises:
  "check_statement [''INR'' \<mapsto> 2]
     \<lparr>sb_ref = None, sb_account = None, sb_currency = ''INR'', sb_opening = 0, sb_closing = 0,
      sb_opening_date = None, sb_closing_date = None\<rparr>
     [\<lparr>pr_line = 1, pr_raw = [], pr_mapped = [(''direction'', ''CRDT''), (''amount'', ''inf'')], pr_errors = []\<rparr>] ''.''
   = Inl OverflowErr"
  by code_simp

end
