(* ===== verification/CsvFile.thy ===== *)
theory CsvFile
  imports Rows
begin

text \<open>
  CSV files (\<open>src/recon/ingestion/parsers/csv_parser.py\<close>, \<open>ingestion/format_check.py\<close>):
  the header comparison that runs before ingestion and the row parser. \<open>csv.reader\<close> is
  modelled with its default dialect over the decoded text, \<open>csv.DictReader\<close> on top of it.
  The stream's position is not modelled: both readers start at the beginning.
\<close>

section \<open>csv.reader\<close>

datatype csv_state = StartRecord | StartField | InField | InQuoted | QuoteInQuoted | EatNewline

text \<open>The records so far, the fields and the text of the field being read, and the state.\<close>

record csv_reader =
  cr_records :: "string list list"
  cr_fields :: "string list"
  cr_text :: string
  cr_state :: csv_state

definition save_field :: "csv_reader \<Rightarrow> csv_reader" where
  "save_field r = r\<lparr>cr_fields := cr_fields r @ [cr_text r], cr_text := []\<rparr>"

definition end_record :: "csv_reader \<Rightarrow> csv_reader" where
  "end_record r = r\<lparr>cr_records := cr_records r @ [cr_fields r], cr_fields := [], cr_state := EatNewline\<rparr>"

definition is_newline :: "char \<Rightarrow> bool" where
  "is_newline c = (c = CHR 0x0A \<or> c = CHR 0x0D)"

definition start_field :: "char \<Rightarrow> char \<Rightarrow> csv_reader \<Rightarrow> csv_reader" where
  "start_field delim c r =
     (if is_newline c then end_record (save_field r)
      else if c = CHR 0x22 then r\<lparr>cr_state := InQuoted\<rparr>
      else if c = delim then (save_field r)\<lparr>cr_state := StartField\<rparr>
      else r\<lparr>cr_text := cr_text r @ [c], cr_state := InField\<rparr>)"

text \<open>One character. A newline ends a record outside quotes; the second character of a
  line ending is skipped; a blank line is an empty record.\<close>

definition csv_char :: "char \<Rightarrow> char \<times> char \<Rightarrow> csv_reader \<Rightarrow> csv_reader" where
  "csv_char delim pc r =
     (case pc of (prev, c) \<Rightarrow>
      (case cr_state r of
         EatNewline \<Rightarrow>
           if prev = CHR 0x0D \<and> c = CHR 0x0A then r\<lparr>cr_state := StartRecord\<rparr>
           else if is_newline c then end_record r else start_field delim c r
       | StartRecord \<Rightarrow> if is_newline c then end_record r else start_field delim c r
       | StartField \<Rightarrow> start_field delim c r
       | InField \<Rightarrow>
           if is_newline c then end_record (save_field r)
           else if c = delim then (save_field r)\<lparr>cr_state := StartField\<rparr>
           else r\<lparr>cr_text := cr_text r @ [c]\<rparr>
       | InQuoted \<Rightarrow>
           if c = CHR 0x22 then r\<lparr>cr_state := QuoteInQuoted\<rparr> else r\<lparr>cr_text := cr_text r @ [c]\<rparr>
       | QuoteInQuoted \<Rightarrow>
           if c = CHR 0x22 then r\<lparr>cr_text := cr_text r @ [c], cr_state := InQuoted\<rparr>
           else if c = delim then (save_field r)\<lparr>cr_state := StartField\<rparr>
           else if is_newline c then end_record (save_field r)
           else r\<lparr>cr_text := cr_text r @ [c], cr_state := InField\<rparr>))"

definition csv_records :: "char \<Rightarrow> string \<Rightarrow> string list list" where
  "csv_records delim s =
     (let r = fold (csv_char delim) (zip (CHR 0x00 # s) s)
                \<lparr>cr_records = [], cr_fields = [], cr_text = [], cr_state = StartRecord\<rparr>
      in cr_records (if cr_state r \<in> {StartRecord, EatNewline} then r else end_record (save_field r)))"

lemma csv_records_example:
  "csv_records (CHR '','') (''a,b'' @ [CHR 0x0D, CHR 0x0A] @ ''1,'' @ [CHR 0x22] @ ''x,y'' @ [CHR 0x22, CHR 0x0A, CHR 0x0A] @ ''2,'')
   = [[''a'', ''b''], [''1'', ''x,y''], [], [''2'', '''']]"
  by code_simp

section \<open>Header check\<close>

record format_change =
  fc_missing :: "string list"
  fc_unexpected :: "string list"
  fc_reordered :: bool
  fc_header :: "string list"

definition blocks_ingestion :: "format_change \<Rightarrow> bool" where
  "blocks_ingestion c = (fc_missing c \<noteq> [])"

definition has_drift :: "format_change \<Rightarrow> bool" where
  "has_drift c = (fc_missing c \<noteq> [] \<or> fc_unexpected c \<noteq> [] \<or> fc_reordered c)"

definition describe_change :: "format_change \<Rightarrow> string" where
  "describe_change c =
     (let parts = (if fc_missing c \<noteq> [] then [''missing columns: '' @ join_with '', '' (fc_missing c)] else [])
            @ (if fc_unexpected c \<noteq> [] then [''new columns: '' @ join_with '', '' (fc_unexpected c)] else [])
            @ (if fc_reordered c \<and> fc_missing c = [] \<and> fc_unexpected c = [] then [''columns reordered''] else [])
      in if parts = [] then ''no change'' else join_with ''; '' parts)"

text \<open>\<open>list(dict.fromkeys(xs))\<close> keeps first occurrences.\<close>

fun first_occurrences :: "'a list \<Rightarrow> 'a list" where
  "first_occurrences [] = []"
| "first_occurrences (x # xs) = x # filter (\<lambda>y. y \<noteq> x) (first_occurrences xs)"

definition expected_columns :: "bank_config \<Rightarrow> string list" where
  "expected_columns b = (case bk_csv b of None \<Rightarrow> [] | Some c \<Rightarrow> first_occurrences (map snd (cv_mapping c)))"

definition compare_header :: "bank_config \<Rightarrow> string list \<Rightarrow> format_change" where
  "compare_header b header =
     (let expected = expected_columns b; present = map strip header;
          missing = filter (\<lambda>c. c \<notin> set present) expected
      in \<lparr>fc_missing = missing, fc_unexpected = filter (\<lambda>h. h \<noteq> [] \<and> h \<notin> set expected) present,
          fc_reordered = (missing = [] \<and> filter (\<lambda>h. h \<in> set expected) present \<noteq> expected),
          fc_header = present\<rparr>)"

definition read_header :: "string \<Rightarrow> bank_config \<Rightarrow> string list res" where
  "read_header t b =
     (case bk_csv b of
        None \<Rightarrow> Inl ValueError
      | Some c \<Rightarrow> Inr (case csv_records (cv_delimiter c) t of [] \<Rightarrow> [] | h # _ \<Rightarrow> h))"

section \<open>Rows\<close>

text \<open>A row of \<open>csv.DictReader\<close>: the fields by header name, None where the row is too
  short, and whether it is too long.\<close>

definition dict_row :: "string list \<Rightarrow> string list \<Rightarrow> (string \<times> string option) list \<times> bool" where
  "dict_row header row =
     (map (\<lambda>(k, h). (h, if k < length row then Some (row ! k) else None)) (enumerate 0 header),
      length header < length row)"

definition required_fields :: "string list" where
  "required_fields = [''reference'', ''txn_date'', ''amount'', ''direction'']"

definition extract_mapped :: "fields \<Rightarrow> csv_config \<Rightarrow> fields \<times> parse_error list" where
  "extract_mapped raw c =
     (let absent = filter (\<lambda>(k, col). map_of raw col = None) (cv_mapping c);
          mapped = map (\<lambda>(k, col). (k, field_of col raw)) (filter (\<lambda>(k, col). map_of raw col \<noteq> None) (cv_mapping c))
      in (mapped,
          map (\<lambda>(k, col). \<lparr>pe_code = MISSING_REQUIRED_FIELD, pe_field = Some k,
                           pe_detail = ''source column '' @ repr_str col @ '' not present in this row''\<rparr>) absent
          @ map (\<lambda>k. \<lparr>pe_code = MISSING_REQUIRED_FIELD, pe_field = Some k, pe_detail = ''value is empty after extraction''\<rparr>)
              (filter (\<lambda>k. k \<notin> fst ` set absent \<and> strip (field_of k mapped) = []) required_fields)))"

definition date_errors :: "fields \<Rightarrow> csv_config \<Rightarrow> parse_error list" where
  "date_errors mapped c =
     (let d = strip (field_of ''txn_date'' mapped) in
      if d = [] \<or> strptime d (cv_date_format c) \<noteq> None then []
      else [\<lparr>pe_code = INVALID_DATE, pe_field = Some ''txn_date'',
             pe_detail = repr_str (field_of ''txn_date'' mapped) @ '' does not match expected format ''
               @ repr_str (cv_date_format c)\<rparr>])"

definition plain_amount :: "csv_config \<Rightarrow> string \<Rightarrow> string" where
  "plain_amount c s =
     (let s = (case cv_thousands c of Some t \<Rightarrow> if t \<noteq> [] then replace_all t [] s else s | None \<Rightarrow> s)
      in if cv_decimal c \<noteq> ''.'' then replace_all (cv_decimal c) ''.'' s else s)"

definition amount_errors :: "fields \<Rightarrow> csv_config \<Rightarrow> parse_error list" where
  "amount_errors mapped c =
     (let a = strip (field_of ''amount'' mapped) in
      if a = [] \<or> parse_decimal (plain_amount c a) \<noteq> None then []
      else [\<lparr>pe_code = INVALID_AMOUNT, pe_field = Some ''amount'',
             pe_detail = repr_str a @ '' could not be parsed as a decimal amount''\<rparr>])"

definition parse_csv_row :: "csv_config \<Rightarrow> string list \<Rightarrow> int \<times> string list \<Rightarrow> parsed_row" where
  "parse_csv_row c header lr =
     (case lr of (line, row) \<Rightarrow>
        case dict_row header row of (cells, overlong) \<Rightarrow>
          let raw = map (\<lambda>(k, v). (k, case v of None \<Rightarrow> [] | Some s \<Rightarrow> s)) cells;
              (mapped, errors) = extract_mapped raw c
          in \<lparr>pr_line = line, pr_raw = raw, pr_mapped = mapped,
              pr_errors = (if overlong then [\<lparr>pe_code = ROW_LENGTH_MISMATCH, pe_field = None,
                                              pe_detail = ''row has more values than the header defines''\<rparr>] else [])
                @ errors @ date_errors mapped c @ amount_errors mapped c\<rparr>)"

text \<open>The reader skips empty records; lines are counted by record, the header is the first.\<close>

definition parse_csv :: "bank_config \<Rightarrow> string \<Rightarrow> parsed_row list res" where
  "parse_csv b t =
     (case bk_csv b of
        None \<Rightarrow> Inl CSVParseError
      | Some c \<Rightarrow>
          (case csv_records (cv_delimiter c) t of
             [] \<Rightarrow> Inl CSVParseError
           | header # rows \<Rightarrow>
               if header = [] \<or> \<not> distinct header then Inl CSVParseError
               else Inr (map (parse_csv_row c header)
                          (map (\<lambda>(k, r). (int k, r)) (enumerate 2 (filter (\<lambda>r. r \<noteq> []) rows))))))"

section \<open>What a valid row holds\<close>

lemma first_occurrences_set [simp]: "set (first_occurrences xs) = set xs"
  by (induction xs) auto

lemma first_occurrences_distinct [simp]: "distinct (first_occurrences xs)"
  by (induction xs) auto

text \<open>A header the check lets through has every mapped column, and a header in the
  expected order without other columns shows no drift.\<close>

lemma compare_header_sound:
  assumes "\<not> blocks_ingestion (compare_header b header)" "bk_csv b = Some c" "(k, col) \<in> set (cv_mapping c)"
  shows "col \<in> strip ` set header"
  using assms by (force simp: blocks_ingestion_def compare_header_def Let_def expected_columns_def filter_empty_conv)

lemma compare_header_same:
  assumes "header = expected_columns b" "list_all (\<lambda>h. strip h = h) header"
  shows "\<not> has_drift (compare_header b header)"
proof -
  have "map strip header = header" using assms(2) by (simp add: list_all_iff map_idI)
  then show ?thesis using assms(1)
    by (auto simp: has_drift_def compare_header_def Let_def filter_empty_conv)
qed

text \<open>A row without errors has all required fields, a date in the bank's format and an
  amount that is a number.\<close>

lemma valid_row_fields:
  assumes "row_valid (parse_csv_row c header lr)" "k \<in> set required_fields"
  shows "strip (field_of k (pr_mapped (parse_csv_row c header lr))) \<noteq> []"
proof -
  obtain line row where lr: "lr = (line, row)" by (cases lr)
  obtain cells overlong where d: "dict_row header row = (cells, overlong)" by (cases "dict_row header row")
  define raw where "raw = map (\<lambda>(k, v). (k, case v of None \<Rightarrow> [] | Some s \<Rightarrow> s)) cells"
  obtain mapped errs where m: "extract_mapped raw c = (mapped, errs)" by (cases "extract_mapped raw c")
  have p: "pr_mapped (parse_csv_row c header lr) = mapped" "errs = []"
    using assms(1) by (simp_all add: parse_csv_row_def lr d raw_def[symmetric] m row_valid_def)
  have "strip (field_of k mapped) \<noteq> []"
    using m p(2) assms(2) by (auto simp: extract_mapped_def Let_def filter_empty_conv)
  then show ?thesis by (simp add: p(1))
qed

end
