(* ===== verification/Pan.thy ===== *)
theory Pan
  imports Rows
begin

text \<open>
  Card number masking at the ingestion boundary (\<open>src/recon/ingestion/pan.py\<close>). The
  regular expression that finds candidates is written as the reader it amounts to: runs
  of digits with at most one blank or hyphen between two of them, the longest end of 13
  to 19 digits that no digit or hyphen follows. Text is ASCII.
\<close>

section \<open>Which digits are a card number\<close>

definition luhn_value :: "nat \<times> char \<Rightarrow> nat" where
  "luhn_value pc =
     (case pc of (position, c) \<Rightarrow>
        let v = digit_of c in
        if position mod 2 = 1 then (if 9 < 2 * v then 2 * v - 9 else 2 * v) else v)"

definition luhn_valid :: "string \<Rightarrow> bool" where
  "luhn_valid digits = (sum_list (map luhn_value (enumerate 0 (rev digits))) mod 10 = 0)"

text \<open>The alternatives of the network pattern, by the value of the first digits.\<close>

definition leads :: "nat \<Rightarrow> string \<Rightarrow> (nat \<Rightarrow> bool) \<Rightarrow> bool" where
  "leads n s P = (n \<le> length s \<and> P (digits_val (take n s)))"

definition network_prefix :: "string \<Rightarrow> bool" where
  "network_prefix s =
     (leads 1 s (\<lambda>v. v = 4)
      \<or> leads 2 s (\<lambda>v. 51 \<le> v \<and> v \<le> 55 \<or> 34 \<le> v \<and> v \<le> 38 \<or> v = 60 \<or> v = 65 \<or> v = 81 \<or> v = 82)
      \<or> leads 3 s (\<lambda>v. 644 \<le> v \<and> v \<le> 649 \<or> v = 681 \<or> v = 682 \<or> v = 508)
      \<or> leads 4 s (\<lambda>v. 2221 \<le> v \<and> v \<le> 2720))"

definition is_pan :: "string \<Rightarrow> bool" where
  "is_pan digits = (13 \<le> length digits \<and> length digits \<le> 19 \<and> network_prefix digits \<and> luhn_valid digits)"

section \<open>Finding candidates\<close>

definition is_sep :: "char \<Rightarrow> bool" where
  "is_sep c = (c = CHR '' '' \<or> c = CHR ''-'')"

text \<open>Where the first, second, ... digit of a run ends, at most \<open>n\<close> of them.\<close>

fun digit_ends :: "nat \<Rightarrow> nat \<Rightarrow> string \<Rightarrow> nat list" where
  "digit_ends 0 k s = []"
| "digit_ends (Suc n) k [] = []"
| "digit_ends (Suc n) k (c # s) =
     (if is_digit c then
        (k + 1) # (case s of [] \<Rightarrow> []
                   | d # r \<Rightarrow> if is_sep d then digit_ends n (k + 2) r else digit_ends n (k + 1) s)
      else [])"

definition blocked :: "char \<Rightarrow> bool" where
  "blocked c = (is_digit c \<or> c = CHR ''-'')"

definition candidate_end :: "string \<Rightarrow> nat option" where
  "candidate_end s =
     (case filter (\<lambda>e. drop e s = [] \<or> \<not> blocked (hd (drop e s))) (drop 12 (digit_ends 19 0 s)) of
        [] \<Rightarrow> None | es \<Rightarrow> Some (last es))"

section \<open>Masking\<close>

definition mask_candidate :: "string \<Rightarrow> string \<times> nat" where
  "mask_candidate m =
     (let digits = filter is_digit m in
      if is_pan digits then (replicate (length digits - 4) (CHR ''*'') @ drop (length digits - 4) digits, 1) else (m, 0))"

text \<open>The scan: the previous character decides whether a candidate may start here.\<close>

function mask_from :: "char \<Rightarrow> string \<Rightarrow> string \<times> nat" where
  "mask_from prev [] = ([], 0)"
| "mask_from prev (c # s) =
     (case (if blocked prev then None else candidate_end (c # s)) of
        Some e \<Rightarrow>
          (case mask_candidate (take (max 1 e) (c # s)) of (m, n) \<Rightarrow>
           case mask_from (last (take (max 1 e) (c # s))) (drop (max 1 e) (c # s)) of (r, k) \<Rightarrow> (m @ r, n + k))
      | None \<Rightarrow> (case mask_from c s of (r, k) \<Rightarrow> (c # r, k)))"
  by pat_completeness auto
termination by (relation "measure (length \<circ> snd)") auto

definition mask_pans :: "string \<Rightarrow> string \<times> nat" where
  "mask_pans s = mask_from (CHR 0x00) s"

definition mask_mapping :: "fields \<Rightarrow> fields \<times> nat" where
  "mask_mapping fs =
     (map (\<lambda>(k, v). (k, fst (mask_pans v))) fs, sum_list (map (\<lambda>(k, v). snd (mask_pans v)) fs))"

lemma mask_examples:
  "mask_pans ''card 4111 1111 1111 1111.'' = (''card ************1111.'', 1)"
  "mask_pans ''ref 4111111111111112'' = (''ref 4111111111111112'', 0)"
  by code_simp+

text \<open>A card number next to other digits is one candidate with them, and when the run as
  a whole is no card number, the number in it stays readable.\<close>

lemma mask_leak: "mask_pans ''12 4111111111111111'' = (''12 4111111111111111'', 0)"
  by code_simp

section \<open>Masked text\<close>

lemma mask_candidate_count: "snd (mask_candidate m) = 0 \<Longrightarrow> fst (mask_candidate m) = m"
  by (simp add: mask_candidate_def Let_def split: if_splits)

lemma mask_untouched: "snd (mask_from p s) = 0 \<Longrightarrow> fst (mask_from p s) = s"
proof (induction p s rule: mask_from.induct)
  case (2 prev c s)
  show ?case
  proof (cases "if blocked prev then None else candidate_end (c # s)")
    case None
    then show ?thesis using 2 by (auto split: prod.splits)
  next
    case (Some e)
    obtain m n where m: "mask_candidate (take (max 1 e) (c # s)) = (m, n)" by fastforce
    obtain r k where r: "mask_from (last (take (max 1 e) (c # s))) (drop (max 1 e) (c # s)) = (r, k)" by fastforce
    have z: "n = 0" "k = 0" using 2(3) Some m r by auto
    then have "m = take (max 1 e) (c # s)" "r = drop (max 1 e) (c # s)"
      using mask_candidate_count[of "take (max 1 e) (c # s)"] 2(2)[OF Some m[symmetric]] m r by auto
    then show ?thesis using Some m r by (simp add: append_take_drop_id)
  qed
qed simp

text \<open>Text in which nothing was masked is stored as it came.\<close>

lemma mask_pans_untouched: "snd (mask_pans s) = 0 \<Longrightarrow> fst (mask_pans s) = s"
  by (simp add: mask_pans_def mask_untouched)

end
