(* ===== verification/Anomaly.thy ===== *)
theory Anomaly
  imports PyFormat Ledger Rules
begin

text \<open>
  The anomaly rules without their storage (\<open>src/recon/anomaly/stats.py\<close>, \<open>rules.py\<close>,
  \<open>config.py\<close>): Welford's rolling statistics in the default Decimal context, the amount,
  velocity and absence rules, the configuration with its two environment overrides.
\<close>

section \<open>Square roots in the default context\<close>

fun isqrt :: "nat \<Rightarrow> nat" where
  "isqrt n =
     (if n = 0 then 0
      else let r = 2 * isqrt (n div 4) in if (r + 1) * (r + 1) \<le> n then r + 1 else r)"

declare isqrt.simps [simp del]

text \<open>28 significant digits of the root of a positive value, half to even.\<close>

definition sqrt28 :: "rat \<Rightarrow> rat" where
  "sqrt28 x =
     (let k = 27 - adjusted x div 2; y = x * pow10 (2 * k); n = int (isqrt (nat \<lfloor>y\<rfloor>));
          half = (of_int n + 1 / 2) * (of_int n + 1 / 2)
      in of_int (if half < y \<or> half = y \<and> odd n then n + 1 else n) * pow10 (- k))"

definition dec_sqrt :: "rat \<Rightarrow> rat res" where
  "dec_sqrt x = (if x < 0 then Inl InvalidOperation else Inr (if x = 0 then 0 else sqrt28 x))"

section \<open>Rolling statistics\<close>

record rolling =
  rs_count :: int
  rs_mean :: rat
  rs_m2 :: rat
  rs_days :: int
  rs_last :: date

definition variance :: "rolling \<Rightarrow> rat res" where
  "variance s = (if 1 < rs_count s then dec_div (rs_m2 s) (of_int (rs_count s - 1)) else Inr 0)"

definition std_dev :: "rolling \<Rightarrow> rat res" where
  "std_dev s = bind_res (variance s) dec_sqrt"

definition daily_average_count :: "rolling \<Rightarrow> rat res" where
  "daily_average_count s = dec_div (of_int (rs_count s)) (of_int (rs_days s))"

definition first_observation :: "int \<Rightarrow> date \<Rightarrow> rolling" where
  "first_observation a day = \<lparr>rs_count = 1, rs_mean = of_int a, rs_m2 = 0, rs_days = 1, rs_last = day\<rparr>"

definition observe :: "rolling \<Rightarrow> int \<Rightarrow> date \<Rightarrow> rolling res" where
  "observe s a day =
     (let count = rs_count s + 1; delta = ctx28 (of_int a - rs_mean s) in
      bind_res (dec_div delta (of_int count)) (\<lambda>part.
        let mean = ctx28 (rs_mean s + part) in
        Inr \<lparr>rs_count = count, rs_mean = mean, rs_m2 = ctx28 (rs_m2 s + dec_mul delta (ctx28 (of_int a - mean))),
             rs_days = rs_days s + (if rs_last s < day then 1 else 0),
             rs_last = (if rs_last s < day then day else rs_last s)\<rparr>))"

text \<open>The statistics after the transactions of one file, and their columns
  \<open>Numeric(30, 6)\<close> and \<open>Numeric(40, 6)\<close>: the database rounds half away from zero and
  refuses a value that does not fit.\<close>

definition observe_next :: "int \<times> date \<Rightarrow> rolling option \<Rightarrow> rolling option res" where
  "observe_next ad current =
     (case (ad, current) of
        ((a, day), None) \<Rightarrow> Inr (Some (first_observation a day))
      | ((a, day), Some s) \<Rightarrow> bind_res (observe s a day) (\<lambda>s'. Inr (Some s')))"

definition observe_all :: "(int \<times> date) list \<Rightarrow> rolling option \<Rightarrow> rolling option res" where
  "observe_all ads current = loop_res observe_next ads current"

definition column6 :: "rat \<Rightarrow> rat" where
  "column6 x = (if x < 0 then - 1 else 1) * of_int \<lfloor>\<bar>x\<bar> * 10 ^ 6 + 1 / 2\<rfloor> / 10 ^ 6"

definition stored_rolling :: "rolling \<Rightarrow> rolling res" where
  "stored_rolling s =
     (if 10 ^ 24 \<le> \<bar>column6 (rs_mean s)\<bar> \<or> 10 ^ 34 \<le> \<bar>column6 (rs_m2 s)\<bar> then Inl DataError
      else Inr (s\<lparr>rs_mean := column6 (rs_mean s), rs_m2 := column6 (rs_m2 s)\<rparr>))"

text \<open>What one counterparty's observations of a file make of its row, and of several files
  one after the other.\<close>

definition stat_file :: "(int \<times> date) list \<Rightarrow> rolling option \<Rightarrow> rolling res" where
  "stat_file xs current =
     bind_res (observe_all xs current) (\<lambda>seen.
       case seen of None \<Rightarrow> Inl AssertionErr | Some s \<Rightarrow> stored_rolling s)"

definition stat_files :: "(int \<times> date) list list \<Rightarrow> rolling option \<Rightarrow> rolling option res" where
  "stat_files files current = loop_res (\<lambda>xs c. bind_res (stat_file xs c) (\<lambda>s. Inr (Some s))) files current"

section \<open>Configuration\<close>

record deviation_config =
  dv_sigma :: rat
  dv_min_history :: int
  dv_whale :: rat

record velocity_config =
  vc_multiplier :: rat
  vc_window :: int
  vc_min_count :: int
  vc_min_days :: int

record volume_config =
  vl_multiplier :: rat
  vl_min_files :: int

record uniqueness_config =
  un_fraction :: rat
  un_min_count :: int

text \<open>The two rate thresholds may come from the environment, where any Decimal passes.\<close>

record anomaly_config =
  ac_version :: string
  ac_deviation :: deviation_config
  ac_velocity :: velocity_config
  ac_grace :: int
  ac_volume :: volume_config
  ac_uniqueness :: uniqueness_config
  ac_match_rate :: pydec
  ac_min_externals :: int
  ac_exception_rate :: pydec
  ac_min_transactions :: int
  ac_backlog :: int

definition rate_ok :: "pydec \<Rightarrow> bool" where
  "rate_ok d = (case d of Fin x \<Rightarrow> 0 < x \<and> x \<le> 1 | _ \<Rightarrow> False)"

definition anomaly_config_ok :: "anomaly_config \<Rightarrow> bool" where
  "anomaly_config_ok c =
     (0 < dv_sigma (ac_deviation c) \<and> 1 < dv_min_history (ac_deviation c) \<and> 1 < dv_whale (ac_deviation c)
      \<and> 0 < vc_multiplier (ac_velocity c) \<and> 0 < vc_window (ac_velocity c) \<and> 0 < vc_min_count (ac_velocity c)
      \<and> 0 < vc_min_days (ac_velocity c) \<and> 0 \<le> ac_grace c
      \<and> 1 < vl_multiplier (ac_volume c) \<and> 1 < vl_min_files (ac_volume c)
      \<and> 0 < un_fraction (ac_uniqueness c) \<and> un_fraction (ac_uniqueness c) \<le> 1 \<and> 0 < un_min_count (ac_uniqueness c)
      \<and> rate_ok (ac_match_rate c) \<and> 0 \<le> ac_min_externals c
      \<and> rate_ok (ac_exception_rate c) \<and> 0 \<le> ac_min_transactions c \<and> 0 < ac_backlog c)"

definition override :: "string option \<Rightarrow> pydec option res" where
  "override raw =
     (case raw of
        None \<Rightarrow> Inr None
      | Some s \<Rightarrow> if s = [] then Inr None
                  else (case parse_decimal s of None \<Rightarrow> Inl AnomalyConfigError | Some d \<Rightarrow> Inr (Some d)))"

text \<open>\<open>None\<close> is a file whose top level is no mapping.\<close>

definition load_anomaly_config :: "(string \<Rightarrow> string option) \<Rightarrow> anomaly_config option \<Rightarrow> anomaly_config res" where
  "load_anomaly_config env data =
     (case data of
        None \<Rightarrow> Inl AnomalyConfigError
      | Some c \<Rightarrow>
          if \<not> anomaly_config_ok c then Inl AnomalyConfigError
          else bind_res (override (env ''SUSPICIOUS_MATCH_RATE_THRESHOLD'')) (\<lambda>m.
               bind_res (override (env ''EXCEPTION_RATE_ALERT_THRESHOLD'')) (\<lambda>e.
                 Inr (c\<lparr>ac_match_rate := (case m of None \<Rightarrow> ac_match_rate c | Some d \<Rightarrow> d),
                        ac_exception_rate := (case e of None \<Rightarrow> ac_exception_rate c | Some d \<Rightarrow> d)\<rparr>))))"

section \<open>Amount deviation\<close>

record deviation =
  dn_z :: "rat option"
  dn_multiple :: rat
  dn_whale :: bool

definition amount_deviation :: "int \<Rightarrow> rolling option \<Rightarrow> deviation_config \<Rightarrow> deviation option res" where
  "amount_deviation a history cfg =
     (case history of
        None \<Rightarrow> Inr None
      | Some h \<Rightarrow>
          if rs_count h < dv_min_history cfg \<or> rs_mean h \<le> 0 then Inr None
          else bind_res (dec_div (of_int a) (rs_mean h)) (\<lambda>multiple.
               bind_res (std_dev h) (\<lambda>spread.
                 let whale = (dv_whale cfg < multiple) in
                 if spread = 0 then
                   Inr (if of_int a \<noteq> rs_mean h then Some \<lparr>dn_z = None, dn_multiple = multiple, dn_whale = whale\<rparr> else None)
                 else bind_res (dec_div \<bar>ctx28 (of_int a - rs_mean h)\<bar> spread) (\<lambda>z.
                   Inr (if dv_sigma cfg < z \<or> whale
                        then Some \<lparr>dn_z = Some z, dn_multiple = multiple, dn_whale = whale\<rparr> else None)))))"

section \<open>Velocity\<close>

text \<open>The inner loop of \<open>peak_window\<close>: the left end follows the right one.\<close>

function slide :: "int \<Rightarrow> instant list \<Rightarrow> instant \<Rightarrow> nat \<Rightarrow> nat res" where
  "slide w ts stamp left =
     (if left < length ts then (if w \<le> stamp - ts ! left then slide w ts stamp (Suc left) else Inr left)
      else Inl IndexError)"
  by pat_completeness auto
termination by (relation "measure (\<lambda>(w, ts, stamp, left). length ts - left)") auto

declare slide.simps [simp del]

definition peak_step ::
    "int \<Rightarrow> instant list \<Rightarrow> nat \<times> instant \<Rightarrow> nat \<times> int \<times> instant \<Rightarrow> (nat \<times> int \<times> instant) res" where
  "peak_step w ts rs st =
     (case (rs, st) of ((right, stamp), (left, best, start)) \<Rightarrow>
        bind_res (slide w ts stamp left) (\<lambda>l.
          let n = int right - int l + 1 in
          Inr (if best < n then (l, n, ts ! l) else (l, best, start))))"

definition peak_window :: "instant list \<Rightarrow> int \<Rightarrow> (int \<times> instant) option res" where
  "peak_window ts w =
     (if ts = [] then Inr None
      else let o1 = sort ts in
           bind_res (loop_res (peak_step w o1) (enumerate 0 o1) (0, 0, hd o1)) (\<lambda>(_, best). Inr (Some best)))"

record velocity_found =
  vf_count :: int
  vf_start :: instant
  vf_average :: rat

definition velocity_breach :: "instant list \<Rightarrow> rolling option \<Rightarrow> velocity_config \<Rightarrow> velocity_found option res" where
  "velocity_breach ts history cfg =
     (case history of
        None \<Rightarrow> Inr None
      | Some h \<Rightarrow>
          if rs_days h < vc_min_days cfg then Inr None
          else bind_res (peak_window ts (vc_window cfg * minute_micros)) (\<lambda>peak.
               case peak of
                 None \<Rightarrow> Inr None
               | Some (n, start) \<Rightarrow>
                   bind_res (daily_average_count h) (\<lambda>daily.
                     Inr (if vc_min_count cfg \<le> n \<and> dec_mul (vc_multiplier cfg) daily < of_int n
                          then Some \<lparr>vf_count = n, vf_start = start, vf_average = daily\<rparr> else None))))"

definition is_date_only :: "string \<Rightarrow> bool" where
  "is_date_only original = (CHR '':'' \<notin> set original)"

section \<open>Absence\<close>

text \<open>\<open>"HH:MM"\<close> as minutes; the configuration accepts no other text.\<close>

definition clock_minutes :: "string \<Rightarrow> int res" where
  "clock_minutes s =
     (case s of
        [a, b, c, d, e] \<Rightarrow>
          if c = CHR '':'' \<and> list_all is_digit [a, b, d, e] \<and> digits_val [a, b] < 24 \<and> digits_val [d, e] < 60
          then Inr (int (digits_val [a, b]) * 60 + int (digits_val [d, e])) else Inl ValueError
      | _ \<Rightarrow> Inl ValueError)"

text \<open>A time zone takes instants to wall clock times and back. Two datetimes of one zone
  object are compared and shifted as wall clock times.\<close>

record zone =
  zn_local :: "instant \<Rightarrow> instant"
  zn_utc :: "instant \<Rightarrow> instant"

definition expected_settlement_overdue ::
    "instant \<Rightarrow> string \<Rightarrow> zone option \<Rightarrow> calendar \<Rightarrow> int \<Rightarrow> (date \<times> instant) option res" where
  "expected_settlement_overdue now expected zone cal grace =
     (case zone of
        None \<Rightarrow> Inl KeyError
      | Some z \<Rightarrow>
          let local_now = zn_local z now; today = date_of local_now in
          if \<not> is_business_day cal today then Inr None
          else bind_res (clock_minutes expected) (\<lambda>m.
            let due = (today - 1) * day_micros + m * minute_micros in
            Inr (if due + grace * minute_micros < local_now then Some (today, zn_utc z due) else None)))"

section \<open>Rounding keeps order and sign\<close>

lemma ctx28_uminus: "ctx28 (- x) = - ctx28 x"
  by (simp add: ctx28_def Let_def round_half_even_uminus flip: minus_divide_left)

lemma ctx28_binade:
  assumes "0 < x" shows "pow10 (adjusted x) \<le> ctx28 x \<and> ctx28 x \<le> pow10 (adjusted x + 1)"
proof -
  define q where "q = pow10 (adjusted x - 27)"
  have q: "0 < q" by (simp add: q_def)
  have l: "pow10 (adjusted x) = of_int (10 ^ 27) * q" "pow10 (adjusted x + 1) = of_int (10 ^ 28) * q"
    using pow10_add[of 27 "adjusted x - 27"] pow10_add[of 28 "adjusted x - 27"] pow10_nat[of 27] pow10_nat[of 28]
    by (simp_all add: q_def add.commute)
  have "of_int (10 ^ 27) * q \<le> x" "x \<le> of_int (10 ^ 28) * q"
    using adjusted_lower[OF assms] adjusted_upper[OF assms] unfolding l by linarith+
  then have "of_int (10 ^ 27) \<le> x / q" "x / q \<le> of_int (10 ^ 28)"
    using q by (simp_all only: pos_le_divide_eq pos_divide_le_eq)
  then have "10 ^ 27 \<le> round_half_even (x / q) \<and> round_half_even (x / q) \<le> 10 ^ 28"
    by (rule round_half_even_bounds)
  then have "of_int (10 ^ 27) * q \<le> of_int (round_half_even (x / q)) * q"
    "of_int (round_half_even (x / q)) * q \<le> of_int (10 ^ 28) * q"
    using q by (simp_all only: mult_le_cancel_right_pos of_int_le_iff)
  moreover have "ctx28 x = of_int (round_half_even (x / q)) * q"
    using assms by (simp add: ctx28_def q_def Let_def)
  ultimately show ?thesis unfolding l by simp
qed

lemma ctx28_pos: "0 < x \<Longrightarrow> 0 < ctx28 x"
  using ctx28_binade[of x] pow10_pos[of "adjusted x"] by linarith

lemma ctx28_nonneg: "0 \<le> x \<Longrightarrow> 0 \<le> ctx28 x"
  using ctx28_pos[of x] by (cases "x = 0") auto

lemma ctx28_mono_pos:
  assumes "0 < x" "x \<le> y" shows "ctx28 x \<le> ctx28 y"
proof -
  have y: "0 < y" using assms by linarith
  have "pow10 (adjusted x) < pow10 (adjusted y + 1)"
    using adjusted_lower[OF assms(1)] adjusted_upper[OF y] assms(2) by linarith
  then have le: "adjusted x \<le> adjusted y" by (simp add: pow10_less_iff)
  show ?thesis
  proof (cases "adjusted x = adjusted y")
    case True
    define q where "q = pow10 (adjusted y - 27)"
    have q: "0 < q" by (simp add: q_def)
    have "x / q \<le> y / q" using assms(2) q by (simp add: divide_right_mono)
    then have "round_half_even (x / q) \<le> round_half_even (y / q)" by (rule round_half_even_mono)
    then have "of_int (round_half_even (x / q)) * q \<le> of_int (round_half_even (y / q)) * q"
      using q by (simp only: mult_le_cancel_right_pos of_int_le_iff)
    then show ?thesis using assms(1) y True by (simp add: ctx28_def q_def Let_def)
  next
    case False
    then have "pow10 (adjusted x + 1) \<le> pow10 (adjusted y)" using le by (intro pow10_mono) linarith
    then show ?thesis using ctx28_binade[OF assms(1)] ctx28_binade[OF y] by linarith
  qed
qed

lemma ctx28_mono: "x \<le> y \<Longrightarrow> ctx28 x \<le> ctx28 y"
proof -
  assume le: "x \<le> y"
  consider "0 < x" | "x \<le> 0" "0 \<le> y" | "y < 0" by linarith
  then show ?thesis
  proof cases
    case 1 then show ?thesis using le by (rule ctx28_mono_pos)
  next
    case 2
    then have "0 \<le> ctx28 y" "0 \<le> ctx28 (- x)" by (simp_all add: ctx28_nonneg)
    then show ?thesis using ctx28_uminus[of x] by linarith
  next
    case 3
    then have "ctx28 (- y) \<le> ctx28 (- x)" using le by (intro ctx28_mono_pos) auto
    then show ?thesis by (simp add: ctx28_uminus)
  qed
qed

section \<open>The square root\<close>

lemma isqrt_bounds: "isqrt n * isqrt n \<le> n \<and> n < (isqrt n + 1) * (isqrt n + 1)"
proof (induction n rule: isqrt.induct)
  case (1 n)
  show ?case
  proof (cases "n = 0")
    case False
    define q where "q = isqrt (n div 4)"
    have "q * q \<le> n div 4" "n div 4 < (q + 1) * (q + 1)" using 1[OF False] by (simp_all add: q_def)
    then have b: "4 * (q * q) \<le> n" "n < 4 * ((q + 1) * (q + 1))" by linarith+
    have e: "isqrt n = (if (2 * q + 1) * (2 * q + 1) \<le> n then 2 * q + 1 else 2 * q)"
      using False by (subst isqrt.simps) (simp add: Let_def q_def)
    show ?thesis
    proof (cases "(2 * q + 1) * (2 * q + 1) \<le> n")
      case True
      then show ?thesis using b(2) by (simp add: e algebra_simps)
    next
      case False
      then show ?thesis using b(1) by (simp add: e algebra_simps)
    qed
  qed (simp add: isqrt.simps)
qed

text \<open>The root is positive, and a half unit in the last place to either side encloses the
  exact one.\<close>

lemma sqrt28_close:
  assumes "0 < x"
  defines "u \<equiv> pow10 (- (27 - adjusted x div 2)) / 2"
  shows "0 < sqrt28 x \<and> (sqrt28 x - u) * (sqrt28 x - u) \<le> x \<and> x \<le> (sqrt28 x + u) * (sqrt28 x + u)"
proof -
  define k where "k = 27 - adjusted x div 2"
  define p where "p = pow10 (- k)"
  define y where "y = x * pow10 (2 * k)"
  define n where "n = int (isqrt (nat \<lfloor>y\<rfloor>))"
  define m where "m = (if (of_int n + 1 / 2) * (of_int n + 1 / 2) < y
      \<or> (of_int n + 1 / 2) * (of_int n + 1 / 2) = y \<and> odd n then n + 1 else n)"
  have r: "sqrt28 x = of_int m * p"
    unfolding sqrt28_def Let_def k_def[symmetric] y_def[symmetric] n_def[symmetric] m_def[symmetric] p_def[symmetric]
    by (rule refl)
  have p: "0 < p" "u = p / 2" by (simp_all add: p_def u_def k_def)
  have yp: "x = y * (p * p)"
    by (simp add: y_def p_def mult.assoc flip: pow10_add)
  have y0: "0 \<le> y" using assms(1) pow10_pos[of "2 * k"] unfolding y_def by (intro mult_nonneg_nonneg) linarith+
  have "isqrt (nat \<lfloor>y\<rfloor>) * isqrt (nat \<lfloor>y\<rfloor>) \<le> nat \<lfloor>y\<rfloor>"
    "nat \<lfloor>y\<rfloor> < (isqrt (nat \<lfloor>y\<rfloor>) + 1) * (isqrt (nat \<lfloor>y\<rfloor>) + 1)" using isqrt_bounds by auto
  then have "n * n \<le> \<lfloor>y\<rfloor>" "\<lfloor>y\<rfloor> < (n + 1) * (n + 1)"
    using y0 by (simp_all only: n_def nat_less_iff le_nat_iff zero_le_floor of_nat_mult of_nat_add of_nat_1)
  then have b: "of_int (n * n) \<le> y" "y < of_int ((n + 1) * (n + 1))"
    by (simp_all only: le_floor_iff floor_less_iff)
  have n0: "0 \<le> n" by (simp add: n_def)
  have "2 * (adjusted x div 2) \<le> adjusted x" by presburger
  then have "pow10 54 \<le> pow10 (adjusted x) * pow10 (2 * k)"
    by (simp add: k_def flip: pow10_add) (intro pow10_mono, simp)
  also have "\<dots> \<le> y" unfolding y_def using adjusted_lower[OF assms(1)] by (intro mult_right_mono) (auto intro: less_imp_le)
  finally have "0 < n" using b(2) n0 pow10_mono[of 0 54] by (cases "n = 0") auto
  then have m0: "0 < m" by (simp add: m_def)
  have lo: "(of_int m - 1 / 2) * (of_int m - 1 / 2) \<le> y" and hi: "y \<le> (of_int m + 1 / 2) * (of_int m + 1 / 2)"
  proof -
    show "(of_int m - 1 / 2) * (of_int m - 1 / 2) \<le> y"
    proof (cases "m = n")
      case True
      then show ?thesis using b(1) \<open>0 < n\<close> by (simp add: algebra_simps)
    next
      case False
      then have "m = n + 1" "(of_int n + 1 / 2) * (of_int n + 1 / 2) \<le> y" by (auto simp: m_def split: if_splits)
      then show ?thesis by (simp add: algebra_simps)
    qed
    show "y \<le> (of_int m + 1 / 2) * (of_int m + 1 / 2)"
    proof (cases "m = n")
      case True
      then show ?thesis by (auto simp: m_def split: if_splits)
    next
      case False
      then have "m = n + 1" by (auto simp: m_def split: if_splits)
      then show ?thesis using b(2) n0 by (simp add: algebra_simps)
    qed
  qed
  have "(of_int m * p - u) * (of_int m * p - u) = (of_int m - 1 / 2) * (of_int m - 1 / 2) * (p * p)"
    "(of_int m * p + u) * (of_int m * p + u) = (of_int m + 1 / 2) * (of_int m + 1 / 2) * (p * p)"
    by (simp_all add: p(2) algebra_simps)
  moreover have "(of_int m - 1 / 2) * (of_int m - 1 / 2) * (p * p) \<le> x" "x \<le> (of_int m + 1 / 2) * (of_int m + 1 / 2) * (p * p)"
    unfolding yp using lo hi p(1) by (simp_all only: mult_le_cancel_right_pos mult_pos_pos)
  ultimately show ?thesis unfolding r using m0 p(1) by simp
qed

section \<open>What the statistics keep\<close>

text \<open>A mean between two integers, squares that are not negative, a day at least.\<close>

definition rolling_ok :: "int \<Rightarrow> int \<Rightarrow> rolling \<Rightarrow> bool" where
  "rolling_ok lo hi s =
     (0 < rs_count s \<and> of_int lo \<le> rs_mean s \<and> rs_mean s \<le> of_int hi \<and> 0 \<le> rs_m2 s
      \<and> 0 < rs_days s \<and> rs_days s \<le> rs_count s)"

lemma ctx28_int_between:
  assumes "of_int lo \<le> x" "x \<le> of_int hi" "\<bar>lo\<bar> < 10 ^ 28" "\<bar>hi\<bar> < 10 ^ 28"
  shows "of_int lo \<le> ctx28 x \<and> ctx28 x \<le> of_int hi"
  using ctx28_mono[OF assms(1)] ctx28_mono[OF assms(2)] ctx28_of_int[OF assms(3)] ctx28_of_int[OF assms(4)] by simp

text \<open>A share of a rounded positive difference stays below the difference.\<close>

lemma share_below:
  assumes "0 \<le> d" "2 \<le> n"
  shows "0 \<le> ctx28 (ctx28 d / of_int n) \<and> ctx28 (ctx28 d / of_int n) \<le> d"
proof -
  have e: "ctx28 x \<le> x * (1 + 1 / 10 ^ 27)" if "0 \<le> x" for x
  proof -
    define t where "t = x * (1 / 10 ^ 27)"
    have "\<bar>ctx28 x - x\<bar> \<le> t / 2" using ctx28_err[of x] that by (simp add: pow10_def t_def)
    moreover have "0 \<le> t" using that by (simp add: t_def)
    moreover have "x * (1 + 1 / 10 ^ 27) = x + t" unfolding t_def by (simp only: distrib_left mult_1_right)
    ultimately show ?thesis by linarith
  qed
  have c: "0 \<le> ctx28 d" using assms(1) by (rule ctx28_nonneg)
  have "ctx28 d / of_int n \<le> ctx28 d / 2" using c assms(2) by (intro divide_left_mono) auto
  also have "\<dots> \<le> d * (1 + 1 / 10 ^ 27) / 2" using e[OF assms(1)] by simp
  finally have h: "ctx28 d / of_int n \<le> d * (1 + 1 / 10 ^ 27) / 2" .
  have p: "0 \<le> ctx28 d / of_int n" using c assms(2) by simp
  have "ctx28 (ctx28 d / of_int n) \<le> ctx28 d / of_int n * (1 + 1 / 10 ^ 27)" by (rule e[OF p])
  also have "\<dots> \<le> d * (1 + 1 / 10 ^ 27) / 2 * (1 + 1 / 10 ^ 27)" using h by (intro mult_right_mono) auto
  also have "\<dots> = d * ((1 + 1 / 10 ^ 27) / 2 * (1 + 1 / 10 ^ 27))" by simp
  also have "\<dots> \<le> d * 1" using assms(1) by (intro mult_left_mono) auto
  finally show ?thesis using p ctx28_nonneg by simp
qed

lemma observe_keeps:
  assumes "rolling_ok lo hi s" "lo \<le> a" "a \<le> hi" "\<bar>lo\<bar> < 10 ^ 28" "\<bar>hi\<bar> < 10 ^ 28"
  obtains s' where "observe s a day = Inr s'" "rolling_ok lo hi s'" "rs_count s' = rs_count s + 1"
    "rs_last s' = max (rs_last s) day"
proof -
  have k: "0 < rs_count s" "of_int lo \<le> rs_mean s" "rs_mean s \<le> of_int hi" "0 \<le> rs_m2 s" "0 < rs_days s" "rs_days s \<le> rs_count s"
    using assms(1) unfolding rolling_ok_def by auto
  define n where "n = rs_count s + 1"
  define d where "d = of_int a - rs_mean s"
  define q where "q = ctx28 (ctx28 d / of_int n)"
  define mean where "mean = ctx28 (rs_mean s + q)"
  have n: "2 \<le> n" using k(1) by (simp add: n_def)
  have a28: "\<bar>a\<bar> < 10 ^ 28" using assms(2-5) by linarith
  have a: "ctx28 (of_int a) = of_int a" using a28 by (rule ctx28_of_int)
  have part: "dec_div (ctx28 d) (of_int n) = Inr q" using n by (simp add: dec_div_def q_def)
  have between: "of_int lo \<le> mean \<and> mean \<le> of_int hi" and same: "0 \<le> ctx28 d * ctx28 (of_int a - mean)"
  proof -
    have "(of_int lo \<le> rs_mean s + q \<and> rs_mean s + q \<le> of_int hi) \<and> 0 \<le> ctx28 d * ctx28 (of_int a - mean)"
    proof (cases "0 \<le> d")
      case True
      then have q: "0 \<le> q" "rs_mean s + q \<le> of_int a" using share_below[OF True n] by (auto simp: q_def d_def)
      then have "mean \<le> of_int a" using ctx28_mono[OF q(2)] a by (simp add: mean_def)
      then have "0 \<le> ctx28 (of_int a - mean)" by (intro ctx28_nonneg) simp
      moreover have "0 \<le> ctx28 d" using True by (rule ctx28_nonneg)
      ultimately show ?thesis using q k(2) assms(3) by (simp add: order.trans[OF q(2)])
    next
      case False
      then have "0 \<le> - d" by simp
      moreover have "ctx28 (ctx28 (- d) / of_int n) = - q"
        by (simp only: ctx28_uminus minus_divide_left[symmetric] q_def)
      ultimately have "q \<le> 0" "d \<le> q" using share_below[OF _ n, of "- d"] by auto
      then have q: "q \<le> 0" "of_int a \<le> rs_mean s + q" by (auto simp: d_def)
      then have "of_int a \<le> mean" using ctx28_mono[OF q(2)] a by (simp add: mean_def)
      then have "0 \<le> ctx28 (- (of_int a - mean))" by (intro ctx28_nonneg) simp
      moreover have "0 \<le> ctx28 (- d)" using False by (intro ctx28_nonneg) simp
      ultimately have "0 \<le> ctx28 d * ctx28 (of_int a - mean)" unfolding ctx28_uminus by (simp add: mult_nonpos_nonpos)
      moreover have "of_int lo \<le> rs_mean s + q" using q(2) assms(2) by (metis of_int_le_iff order.trans)
      ultimately show ?thesis using q k(3) by simp
    qed
    then show "of_int lo \<le> mean \<and> mean \<le> of_int hi" "0 \<le> ctx28 d * ctx28 (of_int a - mean)"
      using ctx28_int_between[of lo "rs_mean s + q" hi] assms(4,5) by (auto simp: mean_def)
  qed
  define m2 where "m2 = ctx28 (rs_m2 s + dec_mul (ctx28 d) (ctx28 (of_int a - mean)))"
  have "0 \<le> m2" using same k(4) by (auto simp: m2_def dec_mul_def intro!: ctx28_nonneg add_nonneg_nonneg)
  then show ?thesis
    using that[of "\<lparr>rs_count = n, rs_mean = mean, rs_m2 = m2, rs_days = rs_days s + (if rs_last s < day then 1 else 0),
        rs_last = (if rs_last s < day then day else rs_last s)\<rparr>"] part between k
    by (simp add: observe_def Let_def d_def[symmetric] n_def[symmetric] mean_def[symmetric] m2_def[symmetric] rolling_ok_def)
      (auto simp: n_def)
qed

lemma rolling_std_dev: "rolling_ok lo hi s \<Longrightarrow> \<exists>v. std_dev s = Inr v \<and> 0 \<le> v"
proof -
  assume "rolling_ok lo hi s"
  then have "\<exists>v. variance s = Inr v \<and> 0 \<le> v"
    by (auto simp: variance_def dec_div_def rolling_ok_def intro!: ctx28_nonneg divide_nonneg_nonneg)
  then obtain v where v: "variance s = Inr v" "0 \<le> v" by blast
  then have "\<exists>r. dec_sqrt v = Inr r \<and> 0 \<le> r" using sqrt28_close[of v] by (auto simp: dec_sqrt_def)
  then show ?thesis using v(1) by (simp add: std_dev_def)
qed

lemma column6_between: "of_int lo \<le> x \<Longrightarrow> x \<le> of_int hi \<Longrightarrow> of_int lo \<le> column6 x \<and> column6 x \<le> of_int hi"
proof -
  have up: "column6 x \<le> of_int h" if "x \<le> of_int h" for x h
  proof (cases "x < 0")
    case True
    then have "- of_int h * 10 ^ 6 \<le> \<bar>x\<bar> * 10 ^ 6 + 1 / 2" using that by simp
    then have "of_int (- h * 10 ^ 6) \<le> \<bar>x\<bar> * 10 ^ 6 + 1 / 2" by simp
    then have "- h * 10 ^ 6 \<le> \<lfloor>\<bar>x\<bar> * 10 ^ 6 + 1 / 2\<rfloor>" by (simp only: le_floor_iff)
    then have "of_int (- h * 10 ^ 6) \<le> (of_int \<lfloor>\<bar>x\<bar> * 10 ^ 6 + 1 / 2\<rfloor> :: rat)" by (simp only: of_int_le_iff)
    then show ?thesis using True by (simp add: column6_def field_simps)
  next
    case False
    then have "\<bar>x\<bar> * 10 ^ 6 + 1 / 2 < of_int (h * 10 ^ 6 + 1)" using that by simp
    then have "\<lfloor>\<bar>x\<bar> * 10 ^ 6 + 1 / 2\<rfloor> < h * 10 ^ 6 + 1" by (simp only: floor_less_iff)
    then have "of_int \<lfloor>\<bar>x\<bar> * 10 ^ 6 + 1 / 2\<rfloor> \<le> (of_int (h * 10 ^ 6) :: rat)" by (simp only: of_int_le_iff)
    then show ?thesis using False by (simp add: column6_def field_simps)
  qed
  have half: "\<lfloor>1 / 2 :: rat\<rfloor> = 0" by (simp add: floor_eq_iff)
  have neg: "column6 (- x) = - column6 x" for x
    by (auto simp: column6_def half)
  show "of_int lo \<le> x \<Longrightarrow> x \<le> of_int hi \<Longrightarrow> of_int lo \<le> column6 x \<and> column6 x \<le> of_int hi"
    using up[of x hi] up[of "- x" "- lo"] by (simp add: neg)
qed

lemma stored_keeps: "rolling_ok lo hi s \<Longrightarrow> stored_rolling s = Inr s' \<Longrightarrow> rolling_ok lo hi s'"
proof -
  assume a: "rolling_ok lo hi s" "stored_rolling s = Inr s'"
  then have e: "s' = s\<lparr>rs_mean := column6 (rs_mean s), rs_m2 := column6 (rs_m2 s)\<rparr>"
    by (simp add: stored_rolling_def split: if_splits)
  have "0 \<le> column6 (rs_m2 s)" using a(1) by (simp add: rolling_ok_def column6_def)
  then show "rolling_ok lo hi s'" using a(1) column6_between[of lo "rs_mean s" hi] by (simp add: e rolling_ok_def)
qed

lemma first_ok: "lo \<le> a \<Longrightarrow> a \<le> hi \<Longrightarrow> rolling_ok lo hi (first_observation a day)"
  by (simp add: rolling_ok_def first_observation_def)

section \<open>How close the statistics are\<close>

text \<open>What the rolling record stands for: the mean, the squares about it, and the days later
  than every day before them.\<close>

definition mean_of :: "int list \<Rightarrow> rat" where
  "mean_of as = of_int (sum_list as) / of_nat (length as)"

definition squares_of :: "int list \<Rightarrow> rat" where
  "squares_of as = sum_list (map (\<lambda>a. (of_int a - mean_of as) * (of_int a - mean_of as)) as)"

definition active_days :: "date list \<Rightarrow> int" where
  "active_days ds = int (length (filter (\<lambda>i. list_all (\<lambda>d. d < ds ! i) (take i ds)) [0..<length ds]))"

lemma active_days_snoc: "active_days (ds @ [d]) = active_days ds + (if list_all (\<lambda>x. x < d) ds then 1 else 0)"
proof -
  have "filter (\<lambda>i. list_all (\<lambda>x. x < (ds @ [d]) ! i) (take i (ds @ [d]))) [0..<length ds]
      = filter (\<lambda>i. list_all (\<lambda>x. x < ds ! i) (take i ds)) [0..<length ds]"
    by (rule filter_cong) (auto simp: nth_append)
  then show ?thesis by (simp add: active_days_def)
qed

lemma active_days_sorted: "sorted ds \<Longrightarrow> active_days ds = int (card (set ds))"
proof (induction ds rule: rev_induct)
  case (snoc d ds)
  have "list_all (\<lambda>x. x < d) ds \<longleftrightarrow> d \<notin> set ds"
    using snoc.prems by (auto simp: list_all_iff sorted_append less_le)
  then show ?case using snoc by (simp add: active_days_snoc sorted_append insert_absorb)
qed (simp add: active_days_def)

lemma squares_about:
  "sum_list (map (\<lambda>a. (of_int a - c) * (of_int a - c)) as)
     = sum_list (map (\<lambda>a. of_int a * of_int a) as) - 2 * c * of_int (sum_list as) + of_nat (length as) * (c * c)" for c :: rat
  by (induction as) (simp_all add: algebra_simps)

lemma mean_of_snoc:
  assumes "as \<noteq> []"
  shows "mean_of (as @ [a]) = mean_of as + (of_int a - mean_of as) / of_nat (length as + 1)"
proof -
  define n where "n = (of_nat (length as) :: rat)"
  define m where "m = mean_of as"
  have n: "0 < n" using assms by (simp add: n_def)
  have "of_int (sum_list as) = n * m" using n by (simp add: m_def mean_of_def n_def)
  moreover have "(n * m + of_int a) / (n + 1) = m + (of_int a - m) / (n + 1)" using n by (simp add: field_simps)
  ultimately show ?thesis by (simp add: m_def[symmetric]) (simp add: mean_of_def n_def add.commute)
qed

lemma squares_of_snoc:
  assumes "as \<noteq> []"
  shows "squares_of (as @ [a]) = squares_of as + (of_int a - mean_of as) * (of_int a - mean_of (as @ [a]))"
proof -
  define n where "n = (of_nat (length as) :: rat)"
  define m where "m = mean_of as"
  define h where "h = (of_int a - m) / (n + 1)"
  have n: "0 < n" using assms by (simp add: n_def)
  have s: "of_int (sum_list as) = n * m" using n by (simp add: m_def mean_of_def n_def)
  have m1: "mean_of (as @ [a]) = m + h" using mean_of_snoc[OF assms, of a] by (simp add: m_def h_def n_def add.commute)
  have a: "of_int a = m + (n + 1) * h" using n by (simp add: h_def)
  show ?thesis
    unfolding squares_of_def m1 m_def[symmetric]
    by (simp add: squares_about s n_def[symmetric] a) (simp add: algebra_simps)
qed

lemma mean_of_between:
  assumes "as \<noteq> []" "list_all (\<lambda>a. lo \<le> a \<and> a \<le> hi) as"
  shows "of_int lo \<le> mean_of as \<and> mean_of as \<le> of_int hi"
proof -
  have "int (length as) * lo \<le> sum_list as \<and> sum_list as \<le> int (length as) * hi"
    using assms(2) by (induction as) (auto simp: algebra_simps)
  then have "of_int (int (length as) * lo) \<le> (of_int (sum_list as) :: rat)" "(of_int (sum_list as) :: rat) \<le> of_int (int (length as) * hi)"
    by (simp_all only: of_int_le_iff)
  moreover have "0 < (of_nat (length as) :: rat)" using assms(1) by simp
  ultimately show ?thesis by (simp add: mean_of_def field_simps)
qed

lemma squares_of_bound:
  assumes "as \<noteq> []" "list_all (\<lambda>a. 0 \<le> a \<and> a \<le> H) as"
  shows "squares_of as \<le> of_nat (length as) * (of_int H * of_int H)"
proof -
  have m: "0 \<le> mean_of as" "mean_of as \<le> of_int H" using mean_of_between[OF assms] by auto
  have "(of_int a - mean_of as) * (of_int a - mean_of as) \<le> of_int H * of_int H" if "a \<in> set as" for a
  proof -
    have "0 \<le> a" "a \<le> H" using assms(2) \<open>a \<in> set as\<close> by (auto simp: list_all_iff)
    then have "(0::rat) \<le> of_int a" "of_int a \<le> (of_int H :: rat)" by simp_all
    then have "\<bar>of_int a - mean_of as\<bar> \<le> \<bar>of_int H :: rat\<bar>" using m by linarith
    then show ?thesis using abs_mult_self_eq mult_mono[of "\<bar>of_int a - mean_of as\<bar>" "\<bar>of_int H\<bar>" "\<bar>of_int a - mean_of as\<bar>" "\<bar>of_int H\<bar>"]
      by (metis abs_ge_zero)
  qed
  then have "squares_of as \<le> sum_list (map (\<lambda>_. of_int H * of_int H) as)"
    unfolding squares_of_def by (intro sum_list_mono) auto
  then show ?thesis by (simp add: sum_list_triv)
qed

text \<open>Half a unit in the 27th place of a value.\<close>

definition ulp28 :: "rat \<Rightarrow> rat" where
  "ulp28 x = x / (2 * 10 ^ 27)"

lemma ulp28_small: "0 \<le> x \<Longrightarrow> 0 \<le> ulp28 x \<and> 100 * ulp28 x \<le> x"
  by (simp add: ulp28_def)

lemma ulp28_scale: "ulp28 (k * x) = k * ulp28 x" "ulp28 (x + y) = ulp28 x + ulp28 y"
  by (simp_all add: ulp28_def add_divide_distrib)

lemma ctx28_close: "\<bar>x\<bar> \<le> X \<Longrightarrow> \<bar>ctx28 x - x\<bar> \<le> ulp28 X"
  using ctx28_err[of x] by (simp add: pow10_def ulp28_def)

lemma product_close:
  fixes x y x' y' :: rat
  assumes "\<bar>x - x'\<bar> \<le> e" "\<bar>y - y'\<bar> \<le> g" "\<bar>y\<bar> \<le> Y" "\<bar>x'\<bar> \<le> X"
  shows "\<bar>x * y - x' * y'\<bar> \<le> e * Y + X * g"
proof -
  have "x * y - x' * y' = (x - x') * y + x' * (y - y')" by (simp add: algebra_simps)
  also have "\<bar>\<dots>\<bar> \<le> \<bar>x - x'\<bar> * \<bar>y\<bar> + \<bar>x'\<bar> * \<bar>y - y'\<bar>" using abs_triangle_ineq by (simp flip: abs_mult)
  also have "\<dots> \<le> e * Y + X * g" using assms by (intro add_mono mult_mono) auto
  finally show ?thesis .
qed

lemma mean_step_close:
  assumes "0 \<le> m" "m \<le> H" "0 \<le> a" "a \<le> H" "2 \<le> n"
  shows "\<bar>ctx28 (m + ctx28 (ctx28 (a - m) / of_int n)) - (m + (a - m) / of_int n)\<bar> \<le> 4 * ulp28 H"
proof -
  define c where "c = ctx28 (a - m)"
  define q where "q = ctx28 (c / of_int n)"
  define e where "e = ulp28 H"
  have n: "(2::rat) \<le> of_int n" using assms(5) by simp
  have H: "0 \<le> H" using assms(1,2) by linarith
  have e: "0 \<le> e" "100 * e \<le> H" using ulp28_small[OF H] by (simp_all add: e_def)
  have d: "\<bar>a - m\<bar> \<le> H" using assms by linarith
  have c: "\<bar>c - (a - m)\<bar> \<le> e" unfolding c_def e_def by (rule ctx28_close[OF d])
  have part: "\<bar>z / of_int n\<bar> \<le> Z / 2" if "\<bar>z\<bar> \<le> Z" for z Z :: rat
  proof -
    have "\<bar>z / of_int n\<bar> = \<bar>z\<bar> / of_int n" using n by (simp add: abs_divide)
    also have "\<dots> \<le> Z / 2" using \<open>\<bar>z\<bar> \<le> Z\<close> n by (intro frac_le) auto
    finally show ?thesis .
  qed
  have 1: "\<bar>c / of_int n - (a - m) / of_int n\<bar> \<le> e / 2" using part[OF c] by (simp add: diff_divide_distrib)
  have "\<bar>c\<bar> \<le> 2 * H" using c d e by linarith
  then have cn: "\<bar>c / of_int n\<bar> \<le> H" using part[of c "2 * H"] by simp
  then have 2: "\<bar>q - c / of_int n\<bar> \<le> e" unfolding q_def e_def by (rule ctx28_close)
  have "\<bar>m + q\<bar> \<le> 5 / 2 * H" using 2 cn assms e by linarith
  then have "\<bar>ctx28 (m + q) - (m + q)\<bar> \<le> 5 / 2 * e" using ctx28_close[of "m + q" "5 / 2 * H"] by (simp add: ulp28_def e_def)
  then show ?thesis using 1 2 e unfolding c_def[symmetric] q_def[symmetric] e_def[symmetric] by linarith
qed

lemma square_step_close:
  assumes "\<bar>x\<bar> \<le> H" "\<bar>y\<bar> \<le> H"
  shows "\<bar>ctx28 (ctx28 x * ctx28 y) - x * y\<bar> \<le> 6 * ulp28 (H * H)" "\<bar>ctx28 (ctx28 x * ctx28 y)\<bar> \<le> 2 * (H * H)"
proof -
  define w where "w = H * H"
  define e where "e = ulp28 H"
  have H: "0 \<le> H" using assms(1) by linarith
  then have w: "0 \<le> ulp28 w" "100 * ulp28 w \<le> w" "0 \<le> w" using ulp28_small[of w] by (simp_all add: w_def)
  have e: "0 \<le> e" "100 * e \<le> H" using ulp28_small[OF H] by (simp_all add: e_def)
  have x: "\<bar>ctx28 x - x\<bar> \<le> e" and y: "\<bar>ctx28 y - y\<bar> \<le> e"
    using ctx28_close[OF assms(1)] ctx28_close[OF assms(2)] by (simp_all add: e_def)
  have y1: "\<bar>ctx28 y\<bar> \<le> 2 * H" using y assms(2) e by linarith
  have "\<bar>ctx28 x * ctx28 y - x * y\<bar> \<le> e * (2 * H) + H * e" by (rule product_close[OF x y y1 assms(1)])
  also have "\<dots> = 3 * ulp28 w" by (simp add: e_def w_def ulp28_def)
  finally have 1: "\<bar>ctx28 x * ctx28 y - x * y\<bar> \<le> 3 * ulp28 w" .
  have xy: "\<bar>x * y\<bar> \<le> w" unfolding abs_mult w_def using assms H by (intro mult_mono) auto
  have p: "\<bar>ctx28 x * ctx28 y\<bar> \<le> 2 * w" using 1 xy w by linarith
  have 2: "\<bar>ctx28 (ctx28 x * ctx28 y) - ctx28 x * ctx28 y\<bar> \<le> 2 * ulp28 w" using ctx28_close[OF p] by (simp add: ulp28_scale)
  show "\<bar>ctx28 (ctx28 x * ctx28 y) - x * y\<bar> \<le> 6 * ulp28 (H * H)"
    using 1 2 w unfolding w_def[symmetric] by linarith
  show "\<bar>ctx28 (ctx28 x * ctx28 y)\<bar> \<le> 2 * (H * H)"
    using 1 2 xy w unfolding w_def[symmetric] by linarith
qed

text \<open>How far the record may be off after \<open>n\<close> amounts up to \<open>H\<close> in \<open>f\<close> files: the
  roundings of the context, and of the columns once per file.\<close>

definition mean_slack :: "nat \<Rightarrow> nat \<Rightarrow> int \<Rightarrow> rat" where
  "mean_slack n f H = 2 * of_nat n * of_int H / 10 ^ 27 + of_nat f / (2 * 10 ^ 6)"

definition squares_slack :: "nat \<Rightarrow> nat \<Rightarrow> int \<Rightarrow> rat" where
  "squares_slack n f H =
     10 * (of_nat n * of_nat n) * (of_int H * of_int H) / 10 ^ 27 + (3 * of_nat n * of_int H + 1) * of_nat f / (2 * 10 ^ 6)"

definition tracks :: "int \<Rightarrow> nat \<Rightarrow> (int \<times> date) list \<Rightarrow> rolling \<Rightarrow> bool" where
  "tracks H f obs s =
     (rs_count s = int (length obs) \<and> rs_last s = Max (set (map snd obs)) \<and> rs_days s = active_days (map snd obs)
      \<and> \<bar>rs_mean s - mean_of (map fst obs)\<bar> \<le> mean_slack (length obs) f H
      \<and> \<bar>rs_m2 s - squares_of (map fst obs)\<bar> \<le> squares_slack (length obs) f H)"

lemma mean_slack_Suc: "mean_slack (Suc n) f H = mean_slack n f H + 4 * ulp28 (of_int H)"
  by (simp add: mean_slack_def ulp28_def field_simps)

text \<open>The room one more observation needs, and the rounding of what is there already.\<close>

lemma squares_slack_Suc:
  "squares_slack (Suc n) f H = squares_slack n f H + (40 * of_nat n + 20) * ulp28 (of_int H * of_int H)
     + 3 * of_int H * (of_nat f / (2 * 10 ^ 6))"
proof -
  define d where "d = (of_nat f / (2 * 10 ^ 6) :: rat)"
  define w where "w = ulp28 (of_int H * of_int H)"
  have e: "squares_slack k f H = 20 * (of_nat k * of_nat k) * w + (3 * of_nat k * of_int H + 1) * d" for k
    by (simp add: squares_slack_def w_def d_def ulp28_def)
  show ?thesis unfolding e d_def[symmetric] w_def[symmetric] by (simp add: algebra_simps)
qed

lemma squares_slack_small:
  assumes "n \<le> 10 ^ 18" "f \<le> 10 ^ 18" "0 < H"
  shows "ulp28 (squares_slack n f H) \<le> of_nat n * ulp28 (of_int H * of_int H) + of_int H * (of_nat f / (2 * 10 ^ 6)) / 2"
proof -
  define d where "d = (of_nat f / (2 * 10 ^ 6) :: rat)"
  define w where "w = ulp28 (of_int H * of_int H)"
  define N where "N = (of_nat n :: rat)"
  define h where "h = (of_int H :: rat)"
  have h: "1 \<le> h" using assms(3) by (simp add: h_def)
  have w: "0 \<le> w" by (simp add: w_def ulp28_def)
  have d: "0 \<le> d" by (simp add: d_def)
  have N: "0 \<le> N" "N \<le> 10 ^ 18"
  proof -
    have "of_nat n \<le> (of_nat (10 ^ 18) :: rat)" using assms(1) by (simp only: of_nat_le_iff)
    then show "N \<le> 10 ^ 18" by (simp add: N_def)
  qed (simp add: N_def)
  have "20 * (N * N) * w = 20 * N * (N * w)" by simp
  also have "\<dots> \<le> 10 ^ 27 * (N * w)" using N w by (intro mult_right_mono) auto
  finally have 1: "20 * (N * N) * w \<le> 10 ^ 27 * (N * w)" .
  define k where "k = h * d"
  have k: "0 \<le> k" "d \<le> k" using h d mult_right_mono[of 1 h d] by (auto simp: k_def)
  have "(3 * N * h + 1) * d = 3 * N * k + d" by (simp add: k_def distrib_right)
  also have "\<dots> \<le> 3 * 10 ^ 18 * k + k" using N k by (intro add_mono mult_right_mono) auto
  also have "\<dots> = (3 * 10 ^ 18 + 1) * k" by (simp only: distrib_right mult_1)
  also have "\<dots> \<le> 10 ^ 27 * k" using k(1) by (intro mult_right_mono) auto
  finally have 2: "(3 * N * h + 1) * d \<le> 10 ^ 27 * (h * d)" unfolding k_def .
  have "squares_slack n f H = 20 * (N * N) * w + (3 * N * h + 1) * d"
    by (simp add: squares_slack_def w_def d_def ulp28_def N_def h_def)
  then have "squares_slack n f H \<le> 10 ^ 27 * (N * w) + 10 ^ 27 * (h * d)" using 1 2 by linarith
  then have "squares_slack n f H / (2 * 10 ^ 27) \<le> (10 ^ 27 * (N * w) + 10 ^ 27 * (h * d)) / (2 * 10 ^ 27)"
    by (intro divide_right_mono) auto
  also have "\<dots> = (N * w) / 2 + h * d / 2" by (simp add: add_divide_distrib)
  also have "\<dots> \<le> N * w + h * d / 2" using N w by simp
  finally show ?thesis unfolding ulp28_def[of "squares_slack n f H"] by (simp add: N_def h_def d_def w_def)
qed

text \<open>One mean and one sum of squares further.\<close>

lemma mean_tracks:
  assumes "as \<noteq> []" "0 \<le> m" "m \<le> of_int H" "0 \<le> a" "a \<le> H" "\<bar>m - mean_of as\<bar> \<le> mean_slack (length as) f H"
  shows "\<bar>ctx28 (m + ctx28 (ctx28 (of_int a - m) / of_int (int (length as) + 1))) - mean_of (as @ [a])\<bar>
    \<le> mean_slack (Suc (length as)) f H"
proof -
  define M where "M = mean_of as"
  define N where "N = int (length as) + 1"
  have N: "2 \<le> N" using assms(1) by (cases as) (auto simp: N_def)
  have 1: "\<bar>ctx28 (m + ctx28 (ctx28 (of_int a - m) / of_int N)) - (m + (of_int a - m) / of_int N)\<bar> \<le> 4 * ulp28 (of_int H)"
    by (rule mean_step_close) (use assms(2-5) N in auto)
  have "mean_of (as @ [a]) = M + (of_int a - M) / of_int N"
    using mean_of_snoc[OF assms(1), of a] by (simp add: M_def N_def add.commute)
  then have "m + (of_int a - m) / of_int N - mean_of (as @ [a]) = (m - M) * (1 - 1 / of_int N)"
    by (simp add: right_diff_distrib diff_divide_distrib)
  moreover have "\<bar>(m - M) * (1 - 1 / of_int N)\<bar> \<le> \<bar>m - M\<bar>" using N by (simp add: abs_mult mult_left_le)
  ultimately show ?thesis using 1 assms(6) by (simp add: mean_slack_Suc M_def N_def)
qed

lemma squares_track:
  fixes H :: int
  assumes x: "\<bar>a - m\<bar> \<le> of_int H" "\<bar>a - m'\<bar> \<le> of_int H" "\<bar>a - M\<bar> \<le> of_int H"
    and near: "\<bar>m - M\<bar> \<le> mean_slack n f H" "\<bar>m' - M'\<bar> \<le> mean_slack (Suc n) f H" "\<bar>m2 - Q\<bar> \<le> squares_slack n f H"
    and Q: "0 \<le> Q" "Q \<le> of_nat n * (of_int H * of_int H)" and b: "n \<le> 10 ^ 18" "f \<le> 10 ^ 18" "0 < H"
  shows "\<bar>ctx28 (m2 + ctx28 (ctx28 (a - m) * ctx28 (a - m'))) - (Q + (a - M) * (a - M'))\<bar> \<le> squares_slack (Suc n) f H"
proof -
  define N where "N = (of_nat n :: rat)"
  define h where "h = (of_int H :: rat)"
  define w where "w = ulp28 (h * h)"
  define d where "d = (of_nat f / (2 * 10 ^ 6) :: rat)"
  define S where "S = squares_slack n f H"
  define p where "p = ctx28 (ctx28 (a - m) * ctx28 (a - m'))"
  have h: "0 \<le> h" "0 \<le> w" using b(3) by (simp_all add: h_def w_def ulp28_def)
  have nonneg: "0 \<le> N" "0 \<le> N * w" "0 \<le> h * d" using h by (simp_all add: N_def d_def)
  have p: "\<bar>p - (a - m) * (a - m')\<bar> \<le> 6 * w" "\<bar>p\<bar> \<le> 2 * (h * h)"
    unfolding p_def w_def h_def by (rule square_step_close[OF x(1,2)])+
  have e: "mean_slack n f H = N * (4 * ulp28 h) + d" by (simp add: mean_slack_def ulp28_def N_def h_def d_def)
  have "\<bar>(a - m) * (a - m') - (a - M) * (a - M')\<bar>
      \<le> (N * (4 * ulp28 h) + d) * h + h * (N * (4 * ulp28 h) + d + 4 * ulp28 h)"
    by (rule product_close) (use near(1,2) x(2,3) in \<open>simp_all add: mean_slack_Suc e h_def[symmetric]\<close>)
  also have "\<dots> = 8 * (N * w) + 4 * w + 2 * (h * d)"
    using ulp28_scale(1)[of h h] by (simp add: w_def algebra_simps)
  finally have q: "\<bar>(a - m) * (a - m') - (a - M) * (a - M')\<bar> \<le> 8 * (N * w) + 4 * w + 2 * (h * d)" .
  have "\<bar>m2 + p\<bar> \<le> N * (h * h) + S + 2 * (h * h)" using Q near(3) p(2) unfolding N_def h_def S_def by linarith
  then have "\<bar>ctx28 (m2 + p) - (m2 + p)\<bar> \<le> ulp28 (N * (h * h) + S + 2 * (h * h))" by (rule ctx28_close)
  then have r: "\<bar>ctx28 (m2 + p) - (m2 + p)\<bar> \<le> N * w + ulp28 S + 2 * w" by (simp add: ulp28_scale w_def)
  have small: "ulp28 S \<le> N * w + h * d / 2"
    using squares_slack_small[OF b] by (simp add: S_def N_def w_def h_def d_def)
  have "squares_slack (Suc n) f H = S + 40 * (N * w) + 20 * w + 3 * (h * d)"
    by (simp add: squares_slack_Suc S_def N_def w_def h_def d_def distrib_right)
  then show ?thesis using near(3) q r p(1) small nonneg h(2) unfolding p_def[symmetric] S_def[symmetric] by linarith
qed

lemma observe_tracks:
  assumes ok: "rolling_ok lo H s" "tracks H f obs s" "list_all (\<lambda>(a, day). lo \<le> a \<and> a \<le> H) obs" "obs \<noteq> []"
    and a: "lo \<le> a" "a \<le> H" and b: "0 \<le> lo" "0 < H" "H < 10 ^ 28" "length obs \<le> 10 ^ 18" "f \<le> 10 ^ 18"
  obtains s' where "observe s a day = Inr s'" "rolling_ok lo H s'" "tracks H f (obs @ [(a, day)]) s'"
proof -
  define as where "as = map fst obs"
  define Q where "Q = squares_of as"
  obtain s' where s': "observe s a day = Inr s'" "rolling_ok lo H s'" "rs_count s' = rs_count s + 1"
      "rs_last s' = max (rs_last s) day"
    by (rule observe_keeps[OF ok(1) a]) (use a b in linarith)+
  have ne: "as \<noteq> []" and len: "length as = length obs" using ok(4) by (simp_all add: as_def)
  have al: "list_all (\<lambda>a. 0 \<le> a \<and> a \<le> H) as" using ok(3) b(1) by (auto simp: as_def list_all_iff)
  have t: "rs_count s = int (length as)" "rs_last s = Max (set (map snd obs))" "rs_days s = active_days (map snd obs)"
    "\<bar>rs_mean s - mean_of as\<bar> \<le> mean_slack (length as) f H" "\<bar>rs_m2 s - Q\<bar> \<le> squares_slack (length as) f H"
    using ok(2) by (simp_all add: tracks_def as_def Q_def)
  have m: "0 \<le> rs_mean s" "rs_mean s \<le> of_int H" "0 \<le> rs_mean s'" "rs_mean s' \<le> of_int H"
    using ok(1) s'(2) b(1) by (auto simp: rolling_ok_def intro: order.trans[of 0 "of_int lo"])
  have a0: "0 \<le> a" "(0::rat) \<le> of_int a" "(of_int a :: rat) \<le> of_int H" using a b(1) by simp_all
  have e: "rs_mean s' = ctx28 (rs_mean s + ctx28 (ctx28 (of_int a - rs_mean s) / of_int (int (length as) + 1)))"
    "rs_m2 s' = ctx28 (rs_m2 s + ctx28 (ctx28 (of_int a - rs_mean s) * ctx28 (of_int a - rs_mean s')))"
    "rs_days s' = rs_days s + (if rs_last s < day then 1 else 0)"
    using s'(1) t(1) by (auto simp: observe_def Let_def dec_div_def dec_mul_def add.commute split: if_splits)
  have mean: "\<bar>rs_mean s' - mean_of (as @ [a])\<bar> \<le> mean_slack (Suc (length as)) f H"
    unfolding e(1) by (rule mean_tracks[OF ne m(1,2) a0(1) a(2) t(4)])
  have Q: "0 \<le> Q" "Q \<le> of_nat (length as) * (of_int H * of_int H)"
    using squares_of_bound[OF ne al] by (auto simp: Q_def squares_of_def intro!: sum_list_nonneg)
  have "\<bar>rs_m2 s' - squares_of (as @ [a])\<bar> \<le> squares_slack (Suc (length as)) f H"
    unfolding squares_of_snoc[OF ne] Q_def[symmetric] e(2)
    by (rule squares_track[OF _ _ _ t(4) mean t(5) Q]) (use mean_of_between[OF ne al] m a0 b len in auto)
  moreover have "rs_days s' = active_days (map snd (obs @ [(a, day)]))" "rs_last s' = Max (set (map snd (obs @ [(a, day)])))"
    using e(3) t(2,3) s'(4) ok(4) by (auto simp: active_days_snoc list_all_iff Max_insert max.commute)
  ultimately have "tracks H f (obs @ [(a, day)]) s'" using s'(3) t(1) mean by (simp add: tracks_def as_def)
  then show ?thesis using that s'(1,2) by blast
qed

lemma first_tracks: "tracks H f [(a, day)] (first_observation a day)" if "0 \<le> H"
  using that by (simp add: tracks_def first_observation_def mean_of_def squares_of_def active_days_def mean_slack_def squares_slack_def)

lemma observe_all_tracks:
  assumes "list_all (\<lambda>(a, day). lo \<le> a \<and> a \<le> H) (obs @ xs)" "rolling_ok lo H s" "tracks H f obs s" "obs \<noteq> []"
    and b: "0 \<le> lo" "0 < H" "H < 10 ^ 28" "length (obs @ xs) \<le> 10 ^ 18" "f \<le> 10 ^ 18"
  shows "\<exists>s'. observe_all xs (Some s) = Inr (Some s') \<and> rolling_ok lo H s' \<and> tracks H f (obs @ xs) s'"
  using assms(1-4) b(4)
proof (induction xs arbitrary: s obs)
  case Nil then show ?case by (simp add: observe_all_def)
next
  case (Cons x xs)
  obtain a day where x: "x = (a, day)" by (cases x)
  have o: "list_all (\<lambda>(a, day). lo \<le> a \<and> a \<le> H) obs" "lo \<le> a" "a \<le> H" "length obs \<le> 10 ^ 18"
    using Cons.prems(1,5) by (simp_all add: x)
  obtain s1 where s1: "observe s a day = Inr s1" "rolling_ok lo H s1" "tracks H f (obs @ [x]) s1"
    unfolding x by (rule observe_tracks[OF Cons.prems(2,3) o(1) Cons.prems(4) o(2,3) b(1-3) o(4) b(5)])
  show ?case using Cons.IH[of "obs @ [x]" s1] Cons.prems(1,5) s1 by (auto simp: x observe_all_def observe_next_def)
qed

lemma column6_close: "\<bar>column6 x - x\<bar> \<le> 1 / (2 * 10 ^ 6)"
proof -
  define y where "y = \<bar>x\<bar> * 10 ^ 6 + 1 / 2"
  have "of_int \<lfloor>y\<rfloor> \<le> y" "y < of_int \<lfloor>y\<rfloor> + 1" using floor_correct[of y] by simp_all
  then have "\<bar>of_int \<lfloor>y\<rfloor> / 10 ^ 6 - \<bar>x\<bar>\<bar> \<le> 1 / (2 * 10 ^ 6)" unfolding abs_le_iff by (simp add: y_def field_simps)
  moreover have "\<bar>column6 x - x\<bar> = \<bar>of_int \<lfloor>y\<rfloor> / 10 ^ 6 - \<bar>x\<bar>\<bar>"
    unfolding column6_def y_def[symmetric] by (cases "x < 0") (simp_all add: abs_minus_commute[of "- _"])
  ultimately show ?thesis by simp
qed

lemma close_trans: "\<lbrakk>\<bar>x - y\<bar> \<le> e; \<bar>y - z\<bar> \<le> g; e + g \<le> h\<rbrakk> \<Longrightarrow> \<bar>x - z\<bar> \<le> h" for x :: rat
  by linarith

lemma slack_file:
  assumes "0 \<le> H"
  shows "1 / (2 * 10 ^ 6) + mean_slack n f H \<le> mean_slack n (Suc f) H"
    "1 / (2 * 10 ^ 6) + squares_slack n f H \<le> squares_slack n (Suc f) H"
  using assms by (simp_all add: mean_slack_def squares_slack_def field_simps)

lemma stored_tracks:
  assumes "tracks H f obs s" "stored_rolling s = Inr t" "0 \<le> H"
  shows "tracks H (Suc f) obs t"
proof -
  have e: "t = s\<lparr>rs_mean := column6 (rs_mean s), rs_m2 := column6 (rs_m2 s)\<rparr>"
    using assms(2) by (simp add: stored_rolling_def split: if_splits)
  have c: "\<bar>rs_mean t - rs_mean s\<bar> \<le> 1 / (2 * 10 ^ 6)" "\<bar>rs_m2 t - rs_m2 s\<bar> \<le> 1 / (2 * 10 ^ 6)"
    using column6_close[of "rs_mean s"] column6_close[of "rs_m2 s"] by (simp_all add: e)
  have t: "\<bar>rs_mean s - mean_of (map fst obs)\<bar> \<le> mean_slack (length obs) f H"
    "\<bar>rs_m2 s - squares_of (map fst obs)\<bar> \<le> squares_slack (length obs) f H"
    using assms(1) by (simp_all add: tracks_def)
  have "\<bar>rs_mean t - mean_of (map fst obs)\<bar> \<le> mean_slack (length obs) (Suc f) H"
    by (rule close_trans[OF c(1) t(1) slack_file(1)[OF assms(3)]])
  moreover have "\<bar>rs_m2 t - squares_of (map fst obs)\<bar> \<le> squares_slack (length obs) (Suc f) H"
    by (rule close_trans[OF c(2) t(2) slack_file(2)[OF assms(3)]])
  ultimately show ?thesis using assms(1) by (simp add: tracks_def e)
qed

text \<open>The row of a counterparty after some files.\<close>

definition stat_ok :: "int \<Rightarrow> int \<Rightarrow> nat \<Rightarrow> (int \<times> date) list \<Rightarrow> rolling option \<Rightarrow> bool" where
  "stat_ok lo H f obs c =
     (case c of None \<Rightarrow> obs = [] | Some s \<Rightarrow> obs \<noteq> [] \<and> rolling_ok lo H s \<and> tracks H f obs s)"

lemma observe_all_ok:
  assumes "stat_ok lo H f obs c" "xs \<noteq> []" "list_all (\<lambda>(a, day). lo \<le> a \<and> a \<le> H) (obs @ xs)"
    and b: "0 \<le> lo" "0 < H" "H < 10 ^ 28" "length (obs @ xs) \<le> 10 ^ 18" "f \<le> 10 ^ 18"
  shows "\<exists>s. observe_all xs c = Inr (Some s) \<and> rolling_ok lo H s \<and> tracks H f (obs @ xs) s"
proof (cases c)
  case None
  obtain a day rest where xs: "xs = (a, day) # rest" using assms(2) by (cases xs) auto
  have "\<exists>s. observe_all rest (Some (first_observation a day)) = Inr (Some s) \<and> rolling_ok lo H s \<and> tracks H f ([(a, day)] @ rest) s"
    by (rule observe_all_tracks) (use assms None b in \<open>auto simp: stat_ok_def xs intro!: first_ok first_tracks\<close>)
  then show ?thesis using assms(1) None by (simp add: stat_ok_def xs observe_all_def observe_next_def)
next
  case (Some s)
  then show ?thesis using observe_all_tracks[of lo H obs xs s f] assms by (simp add: stat_ok_def)
qed

lemma stat_files_ok:
  assumes "stat_files files c = Inr c'" "stat_ok lo H f obs c"
    "list_all (\<lambda>xs. xs \<noteq> []) files" "list_all (\<lambda>(a, day). lo \<le> a \<and> a \<le> H) (obs @ concat files)"
    and b: "0 \<le> lo" "0 < H" "H < 10 ^ 28" "length (obs @ concat files) \<le> 10 ^ 18" "f + length files \<le> 10 ^ 18"
  shows "stat_ok lo H (f + length files) (obs @ concat files) c'"
  using assms(1-4) b(4,5)
proof (induction files arbitrary: f obs c)
  case (Cons xs files)
  have ok: "list_all (\<lambda>(a, day). lo \<le> a \<and> a \<le> H) (obs @ xs)" "length (obs @ xs) \<le> 10 ^ 18" "f \<le> 10 ^ 18" "xs \<noteq> []"
    using Cons.prems(3-6) by auto
  obtain s where s: "observe_all xs c = Inr (Some s)" "rolling_ok lo H s" "tracks H f (obs @ xs) s"
    using observe_all_ok[OF Cons.prems(2) ok(4,1) b(1-3) ok(2,3)] by blast
  obtain t where t: "stored_rolling s = Inr t" "stat_files files (Some t) = Inr c'"
    using Cons.prems(1) s(1) by (auto simp: stat_files_def stat_file_def res_iff)
  have "stat_ok lo H (Suc f) (obs @ xs) (Some t)"
    using stored_keeps[OF s(2) t(1)] stored_tracks[OF s(3) t(1)] b(2) ok(4) by (simp add: stat_ok_def)
  from Cons.IH[OF t(2) this] show ?case using Cons.prems(3-6) by simp
qed (simp add: stat_files_def)

text \<open>C26. The rolling statistics are the statistics of what was seen, over any sequence of
  files with at most \<open>10 ^ 18\<close> amounts from 0 up to a bound: one count per amount, the latest day, an active day for every day later than all
  before it, a mean and a sum of squares that differ from the exact ones by no more than the
  roundings of the Decimal context and of the columns allow, and a stored record whose mean
  lies between the smallest and the largest amount and whose standard deviation exists.\<close>

theorem rolling_stats_sound:
  assumes "stat_files files None = Inr c" "list_all (\<lambda>f. f \<noteq> []) files" "xs \<noteq> []" "obs = concat files @ xs"
    "list_all (\<lambda>(a, day). lo \<le> a \<and> a \<le> hi) obs" "0 \<le> lo" "0 < hi" "hi < 10 ^ 28" "length obs \<le> 10 ^ 18"
  shows "\<exists>s. observe_all xs c = Inr (Some s) \<and> rs_count s = int (length obs)
    \<and> rs_last s = Max (set (map snd obs)) \<and> rs_days s = active_days (map snd obs)
    \<and> \<bar>rs_mean s - mean_of (map fst obs)\<bar> \<le> mean_slack (length obs) (length files) hi
    \<and> \<bar>rs_m2 s - squares_of (map fst obs)\<bar> \<le> squares_slack (length obs) (length files) hi
    \<and> (case stored_rolling s of Inl e \<Rightarrow> e = DataError | Inr t \<Rightarrow> rolling_ok lo hi t \<and> (\<exists>v. std_dev t = Inr v \<and> 0 \<le> v))"
proof -
  have "length files \<le> length (concat files)" using assms(2)
  proof (induction files)
    case (Cons f files) then show ?case by (cases f) auto
  qed simp
  then have l: "length files \<le> 10 ^ 18" "length (concat files) \<le> 10 ^ 18" using assms(4,9) by auto
  have o: "list_all (\<lambda>(a, day). lo \<le> a \<and> a \<le> hi) (concat files)" using assms(4,5) by simp
  have "stat_ok lo hi (length files) (concat files) c"
    using stat_files_ok[OF assms(1), of lo hi 0 "[]"] assms(2,6-8) l o by (simp add: stat_ok_def)
  then obtain s where s: "observe_all xs c = Inr (Some s)" "rolling_ok lo hi s" "tracks hi (length files) obs s"
    using observe_all_ok assms(3-9) l by blast
  have "case stored_rolling s of Inl e \<Rightarrow> e = DataError | Inr t \<Rightarrow> rolling_ok lo hi t \<and> (\<exists>v. std_dev t = Inr v \<and> 0 \<le> v)"
  proof (cases "stored_rolling s")
    case (Inr t)
    have t: "rolling_ok lo hi t" by (rule stored_keeps[OF s(2) Inr])
    then show ?thesis using Inr rolling_std_dev[OF t] by simp
  qed (simp add: stored_rolling_def split: if_splits)
  then show ?thesis using s by (simp add: tracks_def)
qed

theorem rolling_stats_sound_witness:
  "\<exists>c s. stat_files [[(100, 700000)]] None = Inr c \<and> observe_all [(250, 700001), (7, 700001)] c = Inr (Some s)
    \<and> rs_count s = 3 \<and> rs_last s = 700001 \<and> rs_days s = 2
    \<and> \<bar>rs_mean s - 119\<bar> \<le> mean_slack 3 1 250 \<and> \<bar>rs_m2 s - 30066\<bar> \<le> squares_slack 3 1 250
    \<and> (case stored_rolling s of Inl e \<Rightarrow> e = DataError | Inr t \<Rightarrow> rolling_ok 7 250 t \<and> (\<exists>v. std_dev t = Inr v \<and> 0 \<le> v))"
proof -
  let ?obs = "[(100, 700000), (250, 700001), (7, 700001)] :: (int \<times> date) list"
  obtain c where c: "stat_files [[(100, 700000)]] None = Inr c"
    by (simp add: stat_files_def stat_file_def observe_all_def observe_next_def first_observation_def stored_rolling_def column6_def)
  have e: "mean_of (map fst ?obs) = 119" "squares_of (map fst ?obs) = 30066" "active_days (map snd ?obs) = 2"
    by (simp_all add: squares_of_def mean_of_def active_days_def upt_rec nth_Cons')
  show ?thesis using rolling_stats_sound[OF c, of "[(250, 700001), (7, 700001)]" ?obs 7 250] c e by (simp add: numeral_3_eq_3)
qed

section \<open>The peak window\<close>

text \<open>How many stamps lie in the window that starts at \<open>s\<close>.\<close>

definition in_window :: "instant list \<Rightarrow> int \<Rightarrow> instant \<Rightarrow> int" where
  "in_window ts w s = int (length (filter (\<lambda>x. s \<le> x \<and> x < s + w) ts))"

lemma slide_ok:
  "\<lbrakk>0 < w; left \<le> r; r < length ts\<rbrakk> \<Longrightarrow>
   \<exists>l. slide w ts (ts ! r) left = Inr l \<and> left \<le> l \<and> l \<le> r \<and> ts ! r - ts ! l < w
     \<and> (\<forall>i. left \<le> i \<and> i < l \<longrightarrow> w \<le> ts ! r - ts ! i)"
proof (induction "r - left" arbitrary: left)
  case 0
  then show ?case by (subst slide.simps) auto
next
  case (Suc k)
  show ?case
  proof (cases "w \<le> ts ! r - ts ! left")
    case True
    have "Suc left \<le> r" "k = r - Suc left" using Suc.hyps(2) by linarith+
    from Suc.hyps(1)[OF this(2) Suc.prems(1) this(1) Suc.prems(3)]
    obtain l where l: "slide w ts (ts ! r) (Suc left) = Inr l" "Suc left \<le> l" "l \<le> r" "ts ! r - ts ! l < w"
      "\<forall>i. Suc left \<le> i \<and> i < l \<longrightarrow> w \<le> ts ! r - ts ! i" by blast
    have "w \<le> ts ! r - ts ! i" if "left \<le> i" "i < l" for i
      using l(5) that True by (cases "i = left") auto
    then show ?thesis using l Suc.prems True by (subst slide.simps) (auto intro!: exI[of _ l])
  next
    case False
    then show ?thesis using Suc.prems by (subst slide.simps) auto
  qed
qed

text \<open>The stamps up to \<open>j\<close> that share a window with it.\<close>

definition window_ends :: "int \<Rightarrow> instant list \<Rightarrow> nat \<Rightarrow> nat set" where
  "window_ends w ts j = {i. i \<le> j \<and> ts ! j - ts ! i < w}"

definition peak_inv :: "int \<Rightarrow> instant list \<Rightarrow> nat \<Rightarrow> nat \<times> int \<times> instant \<Rightarrow> bool" where
  "peak_inv w ts r st =
     (case st of (l, best, start) \<Rightarrow>
        l \<le> r \<and> (\<forall>i < l. \<forall>j < length ts. r \<le> j \<longrightarrow> w \<le> ts ! j - ts ! i)
        \<and> (\<forall>j < r. int (card (window_ends w ts j)) \<le> best)
        \<and> (0 < r \<longrightarrow> (\<exists>j k. j < r \<and> k \<le> j \<and> start = ts ! k \<and> best = int j - int k + 1 \<and> ts ! j - ts ! k < w))
        \<and> (r = 0 \<longrightarrow> best = 0))"

lemma peak_step_ok:
  assumes "0 < w" "sorted ts" "r < length ts" "peak_inv w ts r st"
  shows "\<exists>st'. peak_step w ts (r, ts ! r) st = Inr st' \<and> peak_inv w ts (Suc r) st'"
proof -
  obtain l best start where st: "st = (l, best, start)" by (cases st)
  have i: "l \<le> r" "\<And>i j. \<lbrakk>i < l; j < length ts; r \<le> j\<rbrakk> \<Longrightarrow> w \<le> ts ! j - ts ! i"
    "\<And>j. j < r \<Longrightarrow> int (card (window_ends w ts j)) \<le> best"
    "0 < r \<Longrightarrow> \<exists>j k. j < r \<and> k \<le> j \<and> start = ts ! k \<and> best = int j - int k + 1 \<and> ts ! j - ts ! k < w"
    "r = 0 \<Longrightarrow> best = 0"
    using assms(4) unfolding peak_inv_def st by auto
  obtain m where m: "slide w ts (ts ! r) l = Inr m" "l \<le> m" "m \<le> r" "ts ! r - ts ! m < w"
    "\<forall>i. l \<le> i \<and> i < m \<longrightarrow> w \<le> ts ! r - ts ! i"
    using slide_ok[OF assms(1) i(1) assms(3)] by blast
  have before: "w \<le> ts ! r - ts ! i" if "i < m" for i
    using i(2)[of i r] m(5) that assms(3) by (cases "i < l") auto
  have "window_ends w ts r = {m..r}"
  proof (intro set_eqI iffI)
    fix i assume a: "i \<in> {m..r}"
    then have "ts ! m \<le> ts ! i" using assms(2,3) by (auto intro: sorted_nth_mono)
    then show "i \<in> window_ends w ts r" using a m(4) by (auto simp: window_ends_def)
  qed (use before in \<open>auto simp: window_ends_def not_less[symmetric]\<close>)
  then have c: "int (card (window_ends w ts r)) = int r - int m + 1" using m(3) by simp
  define st' where "st' = (if best < int r - int m + 1 then (m, int r - int m + 1, ts ! m) else (m, best, start))"
  have "peak_step w ts (r, ts ! r) st = Inr st'"
    using m(1) by (simp add: peak_step_def st st'_def Let_def)
  moreover have "peak_inv w ts (Suc r) st'"
  proof -
    have far: "w \<le> ts ! j - ts ! i" if "i < m" "j < length ts" "Suc r \<le> j" for i j
      using before[OF that(1)] sorted_nth_mono[OF assms(2), of r j] that by linarith
    have top: "int (card (window_ends w ts j)) \<le> max best (int r - int m + 1)" if "j < Suc r" for j
      using i(3)[of j] c that by (cases "j = r") auto
    show ?thesis
    proof (cases "best < int r - int m + 1")
      case True
      have "\<exists>j k. j < Suc r \<and> k \<le> j \<and> ts ! m = ts ! k \<and> int r - int m + 1 = int j - int k + 1 \<and> ts ! j - ts ! k < w"
        by (rule exI[of _ r], rule exI[of _ m]) (use m(3,4) in auto)
      then show ?thesis using True m(3) far top unfolding st'_def peak_inv_def by simp
    next
      case False
      then have "0 < r" using i(5) m(3) by (cases "r = 0") auto
      have "\<exists>j k. j < Suc r \<and> k \<le> j \<and> start = ts ! k \<and> best = int j - int k + 1 \<and> ts ! j - ts ! k < w"
        using i(4)[OF \<open>0 < r\<close>] less_SucI by blast
      then show ?thesis using False m(3) far top unfolding st'_def peak_inv_def by simp
    qed
  qed
  ultimately show ?thesis by blast
qed

lemma peak_loop_ok:
  assumes "0 < w" "sorted ts" "r \<le> length ts"
  shows "\<exists>st. loop_res (peak_step w ts) (take r (enumerate 0 ts)) (0, 0, hd ts) = Inr st \<and> peak_inv w ts r st"
  using assms(3)
proof (induction r)
  case 0 then show ?case by (simp add: peak_inv_def)
next
  case (Suc r)
  then obtain st where st: "loop_res (peak_step w ts) (take r (enumerate 0 ts)) (0, 0, hd ts) = Inr st" "peak_inv w ts r st"
    by auto
  have r: "r < length ts" using Suc.prems by simp
  have t: "take (Suc r) (enumerate 0 ts) = take r (enumerate 0 ts) @ [(r, ts ! r)]"
    using r by (simp add: take_Suc_conv_app_nth nth_enumerate_eq)
  show ?case using peak_step_ok[OF assms(1,2) r st(2)] by (auto simp: t loop_res_append st(1))
qed

text \<open>No window holds more than the largest set of stamps that share one with a last one.\<close>

lemma window_upper:
  assumes "\<And>j. j < length ts \<Longrightarrow> int (card (window_ends w ts j)) \<le> n" "0 \<le> n"
  shows "int (card {i. i < length ts \<and> t \<le> ts ! i \<and> ts ! i < t + w}) \<le> n"
proof -
  define W where "W = {i. i < length ts \<and> t \<le> ts ! i \<and> ts ! i < t + w}"
  show ?thesis
  proof (cases "W = {}")
    case False
    define m where "m = Max W"
    have "finite W" by (simp add: W_def)
    then have m: "m \<in> W" "\<And>i. i \<in> W \<Longrightarrow> i \<le> m" using False by (simp_all add: m_def)
    have "W \<subseteq> window_ends w ts m" using m by (auto simp: window_ends_def W_def)
    moreover have "finite (window_ends w ts m)" by (rule finite_subset[of _ "{..m}"]) (auto simp: window_ends_def)
    ultimately have "card W \<le> card (window_ends w ts m)" by (intro card_mono)
    then show ?thesis using assms(1)[of m] m(1) by (simp add: W_def[symmetric]) (simp add: W_def)
  qed (use assms(2) in \<open>simp add: W_def[symmetric]\<close>)
qed

text \<open>C27. \<open>peak_window\<close> finds the busiest window: with a positive length it returns, None
  only without stamps, and otherwise the number of stamps in the window that starts at
  one of them, which no window of that length, wherever it starts, exceeds.\<close>

theorem peak_window_exact:
  assumes "0 < w"
  shows "case peak_window ts w of
      Inl e \<Rightarrow> False
    | Inr None \<Rightarrow> ts = []
    | Inr (Some (n, s)) \<Rightarrow> s \<in> set ts \<and> n = in_window ts w s \<and> (\<forall>t. in_window ts w t \<le> n)"
proof (cases "ts = []")
  case True then show ?thesis by (simp add: peak_window_def)
next
  case False
  define o1 where "o1 = sort ts"
  have o: "sorted o1" "set o1 = set ts" "length o1 = length ts" "o1 \<noteq> []"
    using False by (simp_all add: o1_def) (metis length_0_conv length_sort)
  have count: "in_window ts w t = int (card {i. i < length o1 \<and> t \<le> o1 ! i \<and> o1 ! i < t + w})" for t
  proof -
    have "length (filter P ts) = length (filter P o1)" for P
      unfolding o1_def by (simp add: filter_sort)
    then show ?thesis by (simp add: in_window_def length_filter_conv_card)
  qed
  obtain st where st: "loop_res (peak_step w o1) (enumerate 0 o1) (0, 0, hd o1) = Inr st" "peak_inv w o1 (length o1) st"
    using peak_loop_ok[OF assms o(1), of "length o1"] by auto
  obtain l n s where st3: "st = (l, n, s)" by (cases st)
  have best: "\<And>j. j < length o1 \<Longrightarrow> int (card (window_ends w o1 j)) \<le> n" using st(2) by (simp add: peak_inv_def st3)
  obtain j k where jk: "j < length o1" "k \<le> j" "s = o1 ! k" "n = int j - int k + 1" "o1 ! j - o1 ! k < w"
    using st(2) o(4) by (auto simp: peak_inv_def st3)
  have upper: "in_window ts w t \<le> n" for t
    unfolding count by (rule window_upper[OF best]) (use jk(2,4) in auto)
  have "{k..j} \<subseteq> {i. i < length o1 \<and> s \<le> o1 ! i \<and> o1 ! i < s + w}"
  proof
    fix i assume i: "i \<in> {k..j}"
    then have "o1 ! k \<le> o1 ! i" "o1 ! i \<le> o1 ! j" using o(1) jk(1) by (auto intro: sorted_nth_mono)
    then show "i \<in> {i. i < length o1 \<and> s \<le> o1 ! i \<and> o1 ! i < s + w}" using i jk by auto
  qed
  then have "card {k..j} \<le> card {i. i < length o1 \<and> s \<le> o1 ! i \<and> o1 ! i < s + w}" by (intro card_mono) auto
  then have "n \<le> in_window ts w s" using jk(2,4) by (simp add: count)
  then have "n = in_window ts w s" using upper[of s] by linarith
  moreover have "s \<in> set ts" using jk(1-3) o(2) by (metis nth_mem order.strict_trans1)
  moreover have "peak_window ts w = Inr (Some (n, s))"
    using False st(1) by (simp add: peak_window_def o1_def[symmetric] st3 Let_def)
  ultimately show ?thesis using upper by simp
qed

theorem peak_window_exact_witness:
  "peak_window [50, 10, 20, 60, 55] 20 = Inr (Some (3, 50)) \<and> (\<exists>n s. peak_window [50, 10, 20, 60, 55] 20 = Inr (Some (n, s))
    \<and> in_window [50, 10, 20, 60, 55] 20 s = n)"
proof -
  have p: "peak_window [50, 10, 20, 60, 55] 20 = Inr (Some (3, 50))" by code_simp
  show ?thesis using peak_window_exact[of 20 "[50, 10, 20, 60, 55]"] by (simp add: p)
qed

end
