(* ===== verification/Alerts.thy ===== *)
theory Alerts
  imports Anomaly Balances CsvFile Classifier
begin

text \<open>
  \<open>src/recon/anomaly/service.py\<close>: the alerts of an ingested file, of a bank that is
  late, of a repeated settlement and of a run, and their table, in which every dedupe
  key occurs once. A \<open>desk\<close> is the whole stored state: the matching and exception tables
  with the files, raw rows, statement balances, rolling statistics and alerts. Statistics
  are read as the database returns them, rounded to their columns. Where a query's order
  leaves ties open the rows come in the order they were stored.
\<close>

section \<open>State\<close>

datatype alert_type = AMOUNT_DEVIATION | VELOCITY | ABSENCE | DATA_VOLUME | SUSPICIOUS_MATCH_RATE
  | HIGH_EXCEPTION_RATE | EXCEPTION_BACKLOG | BALANCE_MISMATCH | DUPLICATE_SETTLEMENT
  | FORMAT_CHANGE_DETECTED | FILE_TAMPERED | PAN_EXPOSURE | BALANCE_TXN_DIVERGENCE

datatype route_to = OPERATIONS | COMPLIANCE

record alert_draft =
  ad_type :: alert_type
  ad_severity :: severity
  ad_subject :: string
  ad_message :: string
  ad_details :: "(string \<times> json) list"
  ad_key :: string
  ad_bank :: "string option"
  ad_route :: route_to
  ad_run :: "string option"

datatype alert_status = ALERT_OPEN | ACKNOWLEDGED

text \<open>A stored alert has an id, the instant it was raised, and who acknowledged it when. Ids
  are drawn from the table's own supply.\<close>

record alert = alert_draft +
  al_id :: nat
  al_at :: instant
  al_status :: alert_status
  al_ack_at :: "instant option"
  al_ack_by :: "string option"

type_synonym stat_key = "string \<times> side \<times> string \<times> direction \<times> string"

record balance_row =
  bl_file :: nat
  bl_bank :: string
  bl_check :: balance_check
  bl_at :: instant

record desk =
  dk_world :: world
  dk_files :: "ingest_file list"
  dk_raws :: "raw_row list"
  dk_balances :: "balance_row list"
  dk_stats :: "(stat_key \<times> rolling) list"
  dk_alerts :: "alert list"

record monitor =
  mo_config :: anomaly_config
  mo_banks :: "(string \<times> bank_config) list"
  mo_calendars :: "string \<Rightarrow> calendar res"
  mo_zones :: "string \<Rightarrow> zone option"
  mo_table :: exponents
  mo_sha :: "string \<Rightarrow> string"
  mo_text :: "rat \<Rightarrow> string"

text \<open>Alerts raised, by type.\<close>

type_synonym raised = "(alert_type \<times> nat) list"

definition raised_count :: "raised \<Rightarrow> nat" where
  "raised_count r = sum_list (map snd r)"

section \<open>Raising\<close>

definition alert_row :: "nat \<Rightarrow> instant \<Rightarrow> alert_draft \<Rightarrow> alert" where
  "alert_row i now d =
     \<lparr>ad_type = ad_type d, ad_severity = ad_severity d, ad_subject = take 200 (ad_subject d), ad_message = ad_message d,
      ad_details = ad_details d, ad_key = take 300 (ad_key d), ad_bank = ad_bank d, ad_route = ad_route d,
      ad_run = ad_run d, al_id = i, al_at = now, al_status = ALERT_OPEN, al_ack_at = None, al_ack_by = None\<rparr>"

definition raise_one :: "instant \<Rightarrow> alert_draft \<Rightarrow> raised \<times> alert list \<Rightarrow> raised \<times> alert list" where
  "raise_one now d ra =
     (case ra of (r, alerts) \<Rightarrow>
        if take 300 (ad_key d) \<in> ad_key ` set alerts then (r, alerts)
        else (count_up (ad_type d) r, alerts @ [alert_row (length alerts) now d]))"

definition raise_alerts :: "alert_draft list \<Rightarrow> instant \<Rightarrow> desk \<Rightarrow> raised \<times> desk" where
  "raise_alerts drafts now d =
     (case fold (raise_one now) drafts ([], dk_alerts d) of (r, alerts) \<Rightarrow> (r, d\<lparr>dk_alerts := alerts\<rparr>))"

section \<open>Texts\<close>

definition percent :: "rat \<Rightarrow> string" where
  "percent x = fixed 2 (ctx28 (x * 100)) @ ''%''"

definition pydec_percent :: "pydec \<Rightarrow> string" where
  "pydec_percent d =
     (case d of Fin x \<Rightarrow> percent x | Inf neg \<Rightarrow> (if neg then [CHR ''-''] else []) @ ''Infinity%'' | _ \<Rightarrow> ''NaN%'')"

definition quantised :: "nat \<Rightarrow> rat \<Rightarrow> string res" where
  "quantised k x = bind_res (quantize round_half_even k (Fin x)) (\<lambda>_. Inr (fixed k x))"

definition side_name :: "side \<Rightarrow> string" where
  "side_name s = (case s of INTERNAL \<Rightarrow> ''INTERNAL'' | EXTERNAL \<Rightarrow> ''EXTERNAL'')"

definition dir_name :: "direction \<Rightarrow> string" where
  "dir_name d = (case d of DR \<Rightarrow> ''DR'' | CR \<Rightarrow> ''CR'')"

definition str_or_null :: "string option \<Rightarrow> json" where
  "str_or_null s = (case s of None \<Rightarrow> JNull | Some x \<Rightarrow> JStr x)"

text \<open>\<open>str(txn.amount)\<close> of the column \<open>Numeric(20, 4)\<close>.\<close>

definition amount_text :: "exponents \<Rightarrow> txn \<Rightarrow> string res" where
  "amount_text tbl t =
     bind_res (currency_exponent tbl (t_currency t)) (\<lambda>e. Inr (fixed 4 (of_int (t_amount_minor t) * pow10 (- e))))"

section \<open>The scan of a file\<close>

definition stat_key_of :: "txn \<Rightarrow> stat_key" where
  "stat_key_of t = (t_bank t, t_source t, (case t_party t of None \<Rightarrow> [] | Some s \<Rightarrow> s), t_direction t, t_currency t)"

definition scanned_txns :: "nat \<Rightarrow> db \<Rightarrow> txn list" where
  "scanned_txns fid db =
     sort_key (\<lambda>t. (t_date t, t_timestamp t, t_id t))
       (filter (\<lambda>t. t_file t = fid \<and> t_party t \<noteq> None \<and> t_party t \<noteq> Some []) (txns db))"

definition key_subject :: "stat_key \<Rightarrow> string" where
  "key_subject k = (case k of (_, _, party, d, cur) \<Rightarrow> party @ '' ('' @ dir_name d @ '', '' @ cur @ '')'')"

definition amount_alert ::
    "monitor \<Rightarrow> stat_key \<Rightarrow> rolling option \<Rightarrow> txn \<Rightarrow> alert_draft option res" where
  "amount_alert mo key history t =
     bind_res (amount_deviation (t_amount_minor t) history (ac_deviation (mo_config mo))) (\<lambda>found.
       case (found, history) of
         (Some f, Some h) \<Rightarrow>
           bind_res (amount_text (mo_table mo) t) (\<lambda>amount.
           bind_res (quantised 2 (rs_mean h)) (\<lambda>mean.
           bind_res (bind_res (std_dev h) (quantised 2)) (\<lambda>spread.
           bind_res (case dn_z f of None \<Rightarrow> Inr JNull | Some z \<Rightarrow> bind_res (quantised 2 z) (\<lambda>s. Inr (JStr s))) (\<lambda>z.
           bind_res (quantised 1 (dn_multiple f)) (\<lambda>multiple.
             Inr (Some
               \<lparr>ad_type = AMOUNT_DEVIATION, ad_severity = (if dn_whale f then CRITICAL else HIGH),
                ad_subject = key_subject key,
                ad_message = t_currency t @ CHR '' '' # amount @ '' for '' @ fst (snd (snd key)) @ '' is ''
                  @ (case dn_z f of Some x \<Rightarrow> fixed 2 x @ '' standard deviations from the mean''
                     | None \<Rightarrow> ''different from the only amount ever seen'')
                  @ '' and '' @ fixed 1 (dn_multiple f) @ ''x the mean of '' @ int_str (rs_count h) @ '' earlier transactions.'',
                ad_details =
                  [(''normalised_transaction_id'', id_json (t_id t)), (''reference'', str_or_null (t_ref t)),
                   (''amount_minor'', JInt (t_amount_minor t)), (''mean_minor'', JStr mean), (''std_dev_minor'', JStr spread),
                   (''z_score'', z), (''multiple_of_mean'', JStr multiple), (''whale'', JBool (dn_whale f)),
                   (''history_count'', JInt (rs_count h))],
                ad_key = ''amount:'' @ uuid_str (t_id t), ad_bank = Some (t_bank t), ad_route = COMPLIANCE, ad_run = None\<rparr>))))))
       | _ \<Rightarrow> Inr None)"

text \<open>The drafts a row of checks yields, in order.\<close>

definition collect :: "('a \<Rightarrow> 'b option res) \<Rightarrow> 'a list \<Rightarrow> 'b list res" where
  "collect f xs = bind_res (res_map f xs) (\<lambda>ys. Inr (List.map_filter (\<lambda>y. y) ys))"

definition amount_alerts ::
    "monitor \<Rightarrow> (stat_key \<times> txn list) list \<Rightarrow> (stat_key \<Rightarrow> rolling option) \<Rightarrow> alert_draft list res" where
  "amount_alerts mo groups baseline =
     collect (\<lambda>(k, t). amount_alert mo k (baseline k) t) (concat (map (\<lambda>(k, ts). map (Pair k) ts) groups))"

definition velocity_alert ::
    "monitor \<Rightarrow> (stat_key \<Rightarrow> rolling option) \<Rightarrow> stat_key \<times> txn list \<Rightarrow> alert_draft option res" where
  "velocity_alert mo baseline kts =
     (case kts of (key, ts) \<Rightarrow> case key of (bank, src, party, dir, cur) \<Rightarrow>
        let cfg = ac_velocity (mo_config mo);
            stamps = map t_timestamp (filter (\<lambda>t. \<not> is_date_only (t_stamp t)) ts)
        in bind_res (velocity_breach stamps (baseline key) cfg) (\<lambda>found.
             case found of
               None \<Rightarrow> Inr None
             | Some b \<Rightarrow>
                 bind_res (quantised 2 (vf_average b)) (\<lambda>average.
                   Inr (Some
                     \<lparr>ad_type = VELOCITY, ad_severity = HIGH, ad_subject = key_subject key,
                      ad_message = int_str (vf_count b) @ '' transactions from '' @ party @ '' within '' @ int_str (vc_window cfg)
                        @ '' minutes against a daily average of '' @ fixed 1 (vf_average b) @ ''.'',
                      ad_details =
                        [(''count'', JInt (vf_count b)), (''window_minutes'', JInt (vc_window cfg)),
                         (''window_start'', JStr (iso_text (vf_start b))), (''daily_average'', JStr average),
                         (''multiplier'', JStr (mo_text mo (vc_multiplier cfg)))],
                      ad_key = ''velocity:'' @ bank @ CHR '':'' # side_name src @ CHR '':'' # party @ CHR '':'' # dir_name dir
                        @ CHR '':'' # cur @ CHR '':'' # iso_text (vf_start b),
                      ad_bank = Some bank, ad_route = COMPLIANCE, ad_run = None\<rparr>))))"

definition velocity_alerts ::
    "monitor \<Rightarrow> (stat_key \<times> txn list) list \<Rightarrow> (stat_key \<Rightarrow> rolling option) \<Rightarrow> alert_draft list res" where
  "velocity_alerts mo groups baseline = collect (velocity_alert mo baseline) groups"

definition volume_alerts :: "monitor \<Rightarrow> ingest_file \<Rightarrow> ingest_file list \<Rightarrow> alert_draft list res" where
  "volume_alerts mo f files =
     (let cfg = ac_volume (mo_config mo);
          previous = map if_records (filter (\<lambda>g. if_bank g = if_bank f \<and> if_id g \<noteq> if_id f \<and> if_source g = if_source f
                                                 \<and> if_status g \<noteq> REJECTED_DUPLICATE) files);
          records = of_nat (if_records f)
      in if int (length previous) < vl_min_files cfg then Inr []
         else bind_res (dec_div (of_nat (sum_list previous)) (of_nat (length previous))) (\<lambda>mean.
           if mean \<le> 0 \<or> records \<le> dec_mul (vl_multiplier cfg) mean then Inr []
           else bind_res (dec_div records mean) (\<lambda>times.
                bind_res (quantised 1 mean) (\<lambda>average.
                  Inr [\<lparr>ad_type = DATA_VOLUME, ad_severity = HIGH, ad_subject = if_name f,
                        ad_message = if_name f @ '' holds '' @ nat_str (if_records f) @ '' records, '' @ fixed 1 times
                          @ ''x the average of '' @ fixed 0 mean @ '' over '' @ nat_str (length previous) @ '' earlier ''
                          @ if_bank f @ '' files.'',
                        ad_details =
                          [(''ingestion_file_id'', id_json (if_id f)), (''record_count'', JInt (int (if_records f))),
                           (''average_record_count'', JStr average), (''files_compared'', JInt (int (length previous)))],
                        ad_key = ''volume:'' @ uuid_str (if_id f), ad_bank = Some (if_bank f), ad_route = COMPLIANCE,
                        ad_run = None\<rparr>]))))"

definition update_stat :: "stat_key \<times> txn list \<Rightarrow> (stat_key \<times> rolling) list \<Rightarrow> (stat_key \<times> rolling) list res" where
  "update_stat kts stats =
     (case kts of (key, ts) \<Rightarrow>
        bind_res (stat_file (map (\<lambda>t. (t_amount_minor t, t_date t)) ts) (map_of stats key)) (\<lambda>s'.
          Inr (dict_put key s' stats)))"

record scan_outcome_file =
  sf_alerts :: nat
  sf_by_type :: raised
  sf_scanned :: nat
  sf_already :: bool

definition set_file :: "nat \<Rightarrow> (ingest_file \<Rightarrow> ingest_file) \<Rightarrow> desk \<Rightarrow> desk" where
  "set_file fid g d = d\<lparr>dk_files := map (\<lambda>f. if if_id f = fid then g f else f) (dk_files d)\<rparr>"

definition find_file :: "nat \<Rightarrow> desk \<Rightarrow> ingest_file option" where
  "find_file fid d = find (\<lambda>f. if_id f = fid) (dk_files d)"

definition scan_ingestion_file :: "monitor \<Rightarrow> nat \<Rightarrow> instant \<Rightarrow> desk \<Rightarrow> (scan_outcome_file \<times> desk) res" where
  "scan_ingestion_file mo fid now d =
     (case find_file fid d of
        None \<Rightarrow> Inl LookupFailed
      | Some f \<Rightarrow>
          if if_scanned f \<noteq> None
          then Inr (\<lparr>sf_alerts = 0, sf_by_type = [], sf_scanned = 0, sf_already = True\<rparr>, d)
          else
            let ts = scanned_txns fid (w_db (dk_world d)); groups = group_by stat_key_of ts;
                baseline = map_of (dk_stats d)
            in bind_res (amount_alerts mo groups baseline) (\<lambda>a.
               bind_res (velocity_alerts mo groups baseline) (\<lambda>v.
               bind_res (volume_alerts mo f (dk_files d)) (\<lambda>m.
               bind_res (loop_res update_stat groups (dk_stats d)) (\<lambda>stats.
                 case raise_alerts (a @ v @ m) now
                        (set_file fid (\<lambda>g. g\<lparr>if_scanned := Some now\<rparr>) (d\<lparr>dk_stats := stats\<rparr>)) of
                   (r, d') \<Rightarrow> Inr (\<lparr>sf_alerts = raised_count r, sf_by_type = r, sf_scanned = length ts, sf_already = False\<rparr>, d'))))))"

section \<open>Late banks\<close>

definition absence_alert :: "monitor \<Rightarrow> instant \<Rightarrow> ingest_file list \<Rightarrow> string \<times> bank_config \<Rightarrow> alert_draft option res" where
  "absence_alert mo now files cb =
     (case cb of (bank, b) \<Rightarrow>
        case bk_expected_time b of
          None \<Rightarrow> Inr None
        | Some expected \<Rightarrow>
            bind_res (mo_calendars mo (bk_calendar b)) (\<lambda>cal.
            bind_res (expected_settlement_overdue now expected (mo_zones mo (bk_timezone b)) cal (ac_grace (mo_config mo))) (\<lambda>over.
              case over of
                None \<Rightarrow> Inr None
              | Some (day, due) \<Rightarrow>
                  if list_ex (\<lambda>f. if_bank f = bank \<and> if_source f \<noteq> Some INTERNAL \<and> if_status f \<noteq> REJECTED_DUPLICATE
                                   \<and> min due ((day - 1) * day_micros) \<le> if_at f) files
                  then Inr None
                  else Inr (Some
                    \<lparr>ad_type = ABSENCE, ad_severity = HIGH, ad_subject = bank @ '' settlement file for '' @ date_iso day,
                     ad_message = ''No '' @ bk_name b @ '' settlement file has arrived for '' @ date_iso day
                       @ ''; it was expected by '' @ expected @ '' ('' @ bk_timezone b @ ''), more than ''
                       @ int_str (ac_grace (mo_config mo)) @ '' minutes ago.'',
                     ad_details =
                       [(''expected_by'', JStr (iso_text due)), (''grace_minutes'', JInt (ac_grace (mo_config mo))),
                        (''business_day'', JStr (date_iso day))],
                     ad_key = ''absence:'' @ bank @ CHR '':'' # date_iso day, ad_bank = Some bank, ad_route = OPERATIONS,
                     ad_run = None\<rparr>))))"

definition check_absence :: "monitor \<Rightarrow> instant \<Rightarrow> desk \<Rightarrow> (raised \<times> desk) res" where
  "check_absence mo now d =
     bind_res (collect (absence_alert mo now (dk_files d)) (mo_banks mo)) (\<lambda>drafts. Inr (raise_alerts drafts now d))"

section \<open>Repeated settlements\<close>

definition file_refs :: "nat \<Rightarrow> db \<Rightarrow> string list" where
  "file_refs fid db =
     remdups (List.map_filter t_ref (filter (\<lambda>t. t_file t = fid \<and> t_ref t \<noteq> Some []) (txns db)))"

text \<open>The other files of the bank with references of this one: how many, and their
  amount in INR; the one with most first.\<close>

definition overlap_rows :: "ingest_file \<Rightarrow> string list \<Rightarrow> db \<Rightarrow> (nat \<times> nat \<times> int) list" where
  "overlap_rows f refs db =
     (let others = filter (\<lambda>t. (\<exists>r \<in> set refs. t_ref t = Some r) \<and> t_bank t = if_bank f \<and> t_source t = EXTERNAL
                                \<and> t_file t \<noteq> if_id f) (txns db)
      in sort_key (\<lambda>(_, n, _). - int n)
           (map (\<lambda>(k, ts). (k, length (remdups (map t_ref ts)),
                            sum_list (map t_amount_minor (filter (\<lambda>t. t_currency t = ''INR'') ts))))
             (group_by t_file others)))"

definition check_settlement_uniqueness :: "monitor \<Rightarrow> nat \<Rightarrow> instant \<Rightarrow> desk \<Rightarrow> (raised \<times> desk) res" where
  "check_settlement_uniqueness mo fid now d =
     (case find_file fid d of
        None \<Rightarrow> Inl LookupFailed
      | Some f \<Rightarrow>
          if if_source f = Some INTERNAL then Inr ([], d)
          else
            let db = w_db (dk_world d); cfg = ac_uniqueness (mo_config mo); refs = file_refs fid db; n = length refs
            in case overlap_rows f refs db of
                 [] \<Rightarrow> Inr ([], d)
               | (best, hits, inr) # others \<Rightarrow>
                   if n = 0 then Inr ([], d)
                   else bind_res (dec_div (of_nat hits) (of_nat n)) (\<lambda>part.
                     if int hits < un_min_count cfg \<or> part < un_fraction cfg then Inr ([], d)
                     else bind_res (dec_div (of_int inr) 100) (\<lambda>rupees.
                       Inr (raise_alerts
                         [\<lparr>ad_type = DUPLICATE_SETTLEMENT, ad_severity = CRITICAL, ad_subject = if_name f,
                           ad_message = nat_str hits @ '' of the '' @ nat_str n @ '' references in '' @ if_name f @ '' (''
                             @ percent part @ '') were already settled in an earlier '' @ if_bank f @ '' file; INR ''
                             @ fixed_commas 2 rupees @ '' may be paid twice.'',
                           ad_details =
                             [(''ingestion_file_id'', id_json fid), (''earlier_ingestion_file_id'', id_json best),
                              (''overlapping_references'', JInt (int hits)), (''references_in_file'', JInt (int n)),
                              (''overlap_inr_minor'', JInt inr), (''other_files_overlapping'', JInt (int (length others)))],
                           ad_key = ''duplicate-settlement:'' @ uuid_str fid, ad_bank = Some (if_bank f),
                           ad_route = COMPLIANCE, ad_run = None\<rparr>] now d))))"

section \<open>What ingestion itself reports\<close>

definition format_change_alert ::
    "monitor \<Rightarrow> string \<Rightarrow> string \<Rightarrow> format_change \<Rightarrow> bool \<Rightarrow> instant \<Rightarrow> desk \<Rightarrow> raised \<times> desk" where
  "format_change_alert mo bank filename c blocked =
     raise_alerts
       [\<lparr>ad_type = FORMAT_CHANGE_DETECTED, ad_severity = (if blocked then CRITICAL else MEDIUM), ad_subject = filename,
         ad_message = bank @ '' file '' @ filename @ '' does not match the configured format ('' @ describe_change c @ ''). ''
           @ (if blocked then ''The file was rejected; nothing was ingested.'' else ''It was ingested.''),
         ad_details =
           [(''missing_columns'', JList (map JStr (fc_missing c))), (''new_columns'', JList (map JStr (fc_unexpected c))),
            (''reordered'', JBool (fc_reordered c)), (''header'', JList (map JStr (fc_header c))), (''blocked'', JBool blocked)],
         ad_key = ''format-change:'' @ bank @ CHR '':'' # take 16 (mo_sha mo (join_with [CHR 0x1F] (fc_header c)))
           @ CHR '':'' # (if blocked then ''blocked'' else ''drift''),
         ad_bank = Some bank, ad_route = OPERATIONS, ad_run = None\<rparr>]"

definition pan_exposure_alert :: "nat \<Rightarrow> string \<Rightarrow> string \<Rightarrow> nat \<Rightarrow> instant \<Rightarrow> desk \<Rightarrow> raised \<times> desk" where
  "pan_exposure_alert fid bank filename n =
     raise_alerts
       [\<lparr>ad_type = PAN_EXPOSURE, ad_severity = HIGH, ad_subject = filename,
         ad_message = nat_str n @ '' unmasked card number(s) in '' @ bank @ '' file '' @ filename
           @ '' were masked to their last four digits before storage.'',
         ad_details = [(''ingestion_file_id'', id_json fid), (''masked_count'', JInt (int n))],
         ad_key = ''pan:'' @ uuid_str fid, ad_bank = Some bank, ad_route = COMPLIANCE, ad_run = None\<rparr>]"

definition balance_alert :: "nat \<Rightarrow> string \<Rightarrow> string \<Rightarrow> balance_check \<Rightarrow> instant \<Rightarrow> desk \<Rightarrow> raised \<times> desk" where
  "balance_alert fid bank filename c now d =
     (if balanced c then ([], d)
      else let b = bc_balances c in
        raise_alerts
          [\<lparr>ad_type = BALANCE_MISMATCH, ad_severity = CRITICAL, ad_subject = filename,
            ad_message = filename @ '': opening '' @ int_str (sb_opening b) @ '' + entries '' @ int_str (bc_net c) @ '' = ''
              @ int_str (computed_closing c) @ '', but the statement closes at '' @ int_str (sb_closing b) @ '' (''
              @ sb_currency b @ '' minor units; difference '' @ int_str (difference_minor c) @ '').''
              @ (if bc_unparseable c \<noteq> 0 then '' '' @ nat_str (bc_unparseable c) @ '' entries could not be read.'' else []),
            ad_details =
              [(''ingestion_file_id'', id_json fid), (''statement_ref'', str_or_null (sb_ref b)),
               (''currency'', JStr (sb_currency b)), (''opening_minor'', JInt (sb_opening b)),
               (''closing_minor'', JInt (sb_closing b)), (''computed_closing_minor'', JInt (computed_closing c)),
               (''difference_minor'', JInt (difference_minor c)), (''entry_count'', JInt (int (bc_entries c))),
               (''unparseable_entries'', JInt (int (bc_unparseable c)))],
            ad_key = ''balance:'' @ uuid_str fid, ad_bank = Some bank, ad_route = COMPLIANCE, ad_run = None\<rparr>] now d)"

section \<open>Runs\<close>

text \<open>The metrics a run is judged by; the rate is the Decimal of the float's text.\<close>

record run_metrics =
  rm_externals :: int
  rm_internals :: int
  rm_rate :: rat
  rm_created :: int

text \<open>\<open>x > limit\<close>: an ordered comparison with a NaN raises.\<close>

definition exceeds :: "rat \<Rightarrow> pydec \<Rightarrow> bool res" where
  "exceeds x limit =
     (case limit of Fin y \<Rightarrow> Inr (y < x) | Inf neg \<Rightarrow> Inr neg | _ \<Rightarrow> Inl InvalidOperation)"

definition run_alert :: "alert_type \<Rightarrow> severity \<Rightarrow> string \<Rightarrow> string \<Rightarrow> (string \<times> json) list \<Rightarrow> string \<Rightarrow> string option
    \<Rightarrow> route_to \<Rightarrow> string \<Rightarrow> alert_draft" where
  "run_alert ty sev subject message details key bank dest run =
     \<lparr>ad_type = ty, ad_severity = sev, ad_subject = subject, ad_message = message, ad_details = details, ad_key = key,
      ad_bank = bank, ad_route = dest, ad_run = Some run\<rparr>"

definition match_rate_draft :: "monitor \<Rightarrow> string \<Rightarrow> string \<Rightarrow> run_metrics \<Rightarrow> alert_draft list res" where
  "match_rate_draft mo run bank m =
     (let limit = ac_match_rate (mo_config mo) in
      if rm_externals m < ac_min_externals (mo_config mo) then Inr []
      else bind_res (exceeds (rm_rate m) limit) (\<lambda>high.
        Inr (if high then
          [run_alert SUSPICIOUS_MATCH_RATE HIGH (bank @ '' run '' @ run)
             (''Match rate '' @ percent (rm_rate m) @ '' is above '' @ pydec_percent limit
              @ '': duplicate data may be inflating the count (B4.4). Check for a repeated settlement file.'')
             [(''match_rate'', JStr (mo_text mo (rm_rate m))), (''externals'', JInt (rm_externals m))]
             (''match-rate:'' @ run) (Some bank) OPERATIONS run] else [])))"

definition exception_rate_draft :: "monitor \<Rightarrow> string \<Rightarrow> string \<Rightarrow> run_metrics \<Rightarrow> alert_draft list res" where
  "exception_rate_draft mo run bank m =
     (let n = rm_externals m + rm_internals m; limit = ac_exception_rate (mo_config mo) in
      if \<not> (ac_min_transactions (mo_config mo) \<le> n \<and> 0 < n) then Inr []
      else bind_res (dec_div (of_int (rm_created m)) (of_int n)) (\<lambda>rate.
           bind_res (exceeds rate limit) (\<lambda>high.
             if \<not> high then Inr []
             else bind_res (quantised 4 rate) (\<lambda>shown_rate.
               Inr [run_alert HIGH_EXCEPTION_RATE HIGH (bank @ '' run '' @ run)
                 (int_str (rm_created m) @ '' exceptions on '' @ int_str n @ '' transactions ('' @ percent rate
                  @ '') exceeds '' @ pydec_percent limit @ '': reconciliation debt is building.'')
                 [(''exceptions_created'', JInt (rm_created m)), (''transactions'', JInt n), (''exception_rate'', JStr shown_rate)]
                 (''exception-rate:'' @ run) (Some bank) OPERATIONS run]))))"

definition divergence_draft :: "monitor \<Rightarrow> string \<Rightarrow> string \<Rightarrow> run_metrics \<Rightarrow> balance_row list \<Rightarrow> alert_draft list" where
  "divergence_draft mo run bank m rows =
     (let n = length (filter (\<lambda>b. bl_bank b = bank \<and> \<not> balanced (bl_check b)) rows) in
      if 0 < n \<and> 95 / 100 \<le> rm_rate m then
        [run_alert BALANCE_TXN_DIVERGENCE CRITICAL (bank @ '' run '' @ run)
           (''Transactions reconciled ('' @ percent (rm_rate m) @ '') but '' @ nat_str n @ CHR '' '' # bank
            @ '' statement(s) do not balance: a systemic problem (C5).'')
           [(''unbalanced_statements'', JInt (int n)), (''match_rate'', JStr (mo_text mo (rm_rate m)))]
           (''balance-vs-txn:'' @ run) (Some bank) COMPLIANCE run]
      else [])"

definition backlog_draft :: "monitor \<Rightarrow> string \<Rightarrow> exc list \<Rightarrow> alert_draft list" where
  "backlog_draft mo run excs =
     (let n = length (filter (\<lambda>x. still_open (x_status x)) excs); limit = ac_backlog (mo_config mo) in
      if limit < int n then
        [run_alert EXCEPTION_BACKLOG CRITICAL ''open exceptions''
           (nat_str n @ '' open exceptions exceed the backlog limit of '' @ int_str limit @ ''.'')
           [(''open_exceptions'', JInt (int n)), (''limit'', JInt limit)] (''backlog:'' @ run) None OPERATIONS run]
      else [])"

definition evaluate_run :: "monitor \<Rightarrow> string \<Rightarrow> string \<Rightarrow> run_metrics \<Rightarrow> instant \<Rightarrow> desk \<Rightarrow> (raised \<times> desk) res" where
  "evaluate_run mo run bank m now d =
     bind_res (match_rate_draft mo run bank m) (\<lambda>a.
     bind_res (exception_rate_draft mo run bank m) (\<lambda>b.
       Inr (raise_alerts (a @ b @ divergence_draft mo run bank m (dk_balances d)
                          @ backlog_draft mo run (w_excs (dk_world d))) now d)))"

section \<open>The alert table\<close>

definition alerts_ok :: "alert list \<Rightarrow> bool" where
  "alerts_ok alerts = (distinct (map ad_key alerts) \<and> list_all (\<lambda>a. length (ad_key a) \<le> 300 \<and> length (ad_subject a) \<le> 200) alerts
     \<and> map al_id alerts = [0..<length alerts])"

lemma alert_row_key [simp]: "ad_key (alert_row i now d) = take 300 (ad_key d)" "ad_type (alert_row i now d) = ad_type d"
  "al_id (alert_row i now d) = i"
  by (simp_all add: alert_row_def)

lemma alert_row_subject: "ad_subject (alert_row i now d) = take 200 (ad_subject d)"
  by (simp add: alert_row_def)

lemma raised_count_up: "raised_count (count_up k r) = raised_count r + 1"
proof -
  have "sum_list (map snd (dict_put k (dict_get 0 k r + 1) r)) = sum_list (map snd r) + 1"
    by (induction r) (auto simp: dict_get_def)
  then show ?thesis by (simp add: raised_count_def count_up_def)
qed

text \<open>What a batch adds: rows with new keys, one counted for each, every key present after.\<close>

lemma raise_fold:
  "\<exists>new. fold (raise_one now) ds (r, as) = (fst (fold (raise_one now) ds (r, as)), as @ new)
     \<and> raised_count (fst (fold (raise_one now) ds (r, as))) = raised_count r + length new
     \<and> distinct (map ad_key new) \<and> ad_key ` set new \<inter> ad_key ` set as = {}
     \<and> map al_id new = [length as..<length as + length new]
     \<and> (\<forall>a \<in> set new. \<exists>d \<in> set ds. a = alert_row (al_id a) now d)
     \<and> (\<forall>d \<in> set ds. take 300 (ad_key d) \<in> ad_key ` set (as @ new))"
proof (induction ds arbitrary: r as)
  case Nil then show ?case by simp
next
  case (Cons d ds)
  show ?case
  proof (cases "take 300 (ad_key d) \<in> ad_key ` set as")
    case True
    have one: "raise_one now d (r, as) = (r, as)" using True by (simp add: raise_one_def)
    obtain new where n: "fold (raise_one now) ds (r, as) = (fst (fold (raise_one now) ds (r, as)), as @ new)"
      "raised_count (fst (fold (raise_one now) ds (r, as))) = raised_count r + length new"
      "distinct (map ad_key new)" "ad_key ` set new \<inter> ad_key ` set as = {}"
      "map al_id new = [length as..<length as + length new]"
      "\<forall>a \<in> set new. \<exists>d \<in> set ds. a = alert_row (al_id a) now d" "\<forall>d \<in> set ds. take 300 (ad_key d) \<in> ad_key ` set (as @ new)"
      using Cons.IH[of r as] by blast
    have f: "fold (raise_one now) (d # ds) (r, as) = fold (raise_one now) ds (r, as)" by (simp add: one)
    show ?thesis unfolding f using n True by (intro exI[of _ new]) auto
  next
    case False
    let ?r = "count_up (ad_type d) r" and ?as = "as @ [alert_row (length as) now d]"
    have one: "raise_one now d (r, as) = (?r, ?as)" using False by (simp add: raise_one_def)
    obtain new where n: "fold (raise_one now) ds (?r, ?as) = (fst (fold (raise_one now) ds (?r, ?as)), ?as @ new)"
      "raised_count (fst (fold (raise_one now) ds (?r, ?as))) = raised_count ?r + length new"
      "distinct (map ad_key new)" "ad_key ` set new \<inter> ad_key ` set ?as = {}"
      "map al_id new = [length ?as..<length ?as + length new]"
      "\<forall>a \<in> set new. \<exists>d \<in> set ds. a = alert_row (al_id a) now d" "\<forall>d \<in> set ds. take 300 (ad_key d) \<in> ad_key ` set (?as @ new)"
      using Cons.IH[of ?r ?as] by blast
    have f: "fold (raise_one now) (d # ds) (r, as) = fold (raise_one now) ds (?r, ?as)" by (simp add: one)
    have "take 300 (ad_key d) \<notin> ad_key ` set new" using n(4) by auto
    moreover have "length as # map al_id new = [length as..<length as + length (alert_row (length as) now d # new)]"
      by (simp add: n(5) upt_conv_Cons del: upt_Suc)
    ultimately show ?thesis unfolding f using n False
      by (intro exI[of _ "alert_row (length as) now d # new"]) (auto simp: raised_count_up)
  qed
qed

lemma raise_alerts_shape:
  assumes "raise_alerts ds now d = (r, d')"
  obtains new where "d' = d\<lparr>dk_alerts := dk_alerts d @ new\<rparr>" "raised_count r = length new" "distinct (map ad_key new)"
    "ad_key ` set new \<inter> ad_key ` set (dk_alerts d) = {}"
    "map al_id new = [length (dk_alerts d)..<length (dk_alerts d) + length new]" "\<forall>a \<in> set new. \<exists>x \<in> set ds. a = alert_row (al_id a) now x"
    "\<forall>x \<in> set ds. take 300 (ad_key x) \<in> ad_key ` set (dk_alerts d')"
proof -
  obtain new where n: "fold (raise_one now) ds ([], dk_alerts d) = (fst (fold (raise_one now) ds ([], dk_alerts d)), dk_alerts d @ new)"
      "raised_count (fst (fold (raise_one now) ds ([], dk_alerts d))) = raised_count [] + length new"
      "distinct (map ad_key new)" "ad_key ` set new \<inter> ad_key ` set (dk_alerts d) = {}"
      "map al_id new = [length (dk_alerts d)..<length (dk_alerts d) + length new]"
      "\<forall>a \<in> set new. \<exists>x \<in> set ds. a = alert_row (al_id a) now x" "\<forall>x \<in> set ds. take 300 (ad_key x) \<in> ad_key ` set (dk_alerts d @ new)"
    using raise_fold[of now ds "[]" "dk_alerts d"] by blast
  have e: "r = fst (fold (raise_one now) ds ([], dk_alerts d))" "d' = d\<lparr>dk_alerts := dk_alerts d @ new\<rparr>"
    using assms unfolding raise_alerts_def by (subst (asm) n(1), simp)+
  show ?thesis by (rule that[of new]) (use n e in \<open>simp_all add: raised_count_def\<close>)
qed

lemma raise_alerts_ok: "\<lbrakk>raise_alerts ds now d = (r, d'); alerts_ok (dk_alerts d)\<rbrakk> \<Longrightarrow> alerts_ok (dk_alerts d')"
proof (erule raise_alerts_shape)
  fix new
  assume ok: "alerts_ok (dk_alerts d)" and e: "d' = d\<lparr>dk_alerts := dk_alerts d @ new\<rparr>" "distinct (map ad_key new)"
    "ad_key ` set new \<inter> ad_key ` set (dk_alerts d) = {}"
    "map al_id new = [length (dk_alerts d)..<length (dk_alerts d) + length new]"
    "\<forall>a \<in> set new. \<exists>x \<in> set ds. a = alert_row (al_id a) now x"
  have "length (ad_key a) \<le> 300 \<and> length (ad_subject a) \<le> 200" if "a \<in> set new" for a
  proof -
    obtain x where "a = alert_row (al_id a) now x" using e(5) \<open>a \<in> set new\<close> by blast
    then have "ad_key a = take 300 (ad_key x)" "ad_subject a = take 200 (ad_subject x)"
      by (metis alert_row_key(1), metis alert_row_subject)
    then show ?thesis by simp
  qed
  moreover have "[0..<length (dk_alerts d) + length new] = [0..<length (dk_alerts d)] @ map al_id new"
    unfolding e(4) by (rule upt_add_eq_append) simp
  ultimately show "alerts_ok (dk_alerts d')" using ok e(2,3) by (auto simp: alerts_ok_def list_all_iff e(1))
qed

lemma raise_known: "list_all (\<lambda>x. take 300 (ad_key x) \<in> ad_key ` set as) ds \<Longrightarrow> fold (raise_one now) ds (r, as) = (r, as)"
  by (induction ds) (simp_all add: raise_one_def)

text \<open>Which drafts of a batch are new: the first of each key, cut as the column is, unless the
  table has the key. Their rows follow the table's, numbered on.\<close>

definition key300 :: "alert_draft \<Rightarrow> string" where
  "key300 x = take 300 (ad_key x)"

definition first_of_key :: "string set \<Rightarrow> alert_draft list \<Rightarrow> nat \<Rightarrow> bool" where
  "first_of_key known ds i = (key300 (ds ! i) \<notin> known \<and> key300 (ds ! i) \<notin> key300 ` set (take i ds))"

definition new_drafts :: "string set \<Rightarrow> alert_draft list \<Rightarrow> alert_draft list" where
  "new_drafts known ds = map ((!) ds) (filter (first_of_key known ds) [0..<length ds])"

definition alert_rows :: "nat \<Rightarrow> instant \<Rightarrow> alert_draft list \<Rightarrow> alert list" where
  "alert_rows n now xs = map (\<lambda>(i, x). alert_row i now x) (enumerate n xs)"

lemma new_drafts_snoc:
  "new_drafts known (ds @ [x]) = new_drafts known ds @ (if key300 x \<in> known \<union> key300 ` set ds then [] else [x])"
proof -
  have f: "filter (first_of_key known (ds @ [x])) [0..<length ds] = filter (first_of_key known ds) [0..<length ds]"
    by (rule filter_cong) (auto simp: first_of_key_def nth_append)
  have m: "map ((!) (ds @ [x])) (filter (first_of_key known ds) [0..<length ds])
      = map ((!) ds) (filter (first_of_key known ds) [0..<length ds])"
    by (rule map_cong) (auto simp: nth_append)
  show ?thesis by (auto simp: new_drafts_def f m first_of_key_def)
qed

lemma new_drafts_keys: "known \<union> key300 ` set (new_drafts known ds) = known \<union> key300 ` set ds"
  by (induction ds rule: rev_induct) (auto simp: new_drafts_snoc new_drafts_def[of _ "[]"])

lemma alert_rows_snoc: "alert_rows n now (xs @ [x]) = alert_rows n now xs @ [alert_row (n + length xs) now x]"
  by (simp add: alert_rows_def enumerate_append_eq)

lemma alert_rows_keys: "ad_key ` set (alert_rows n now xs) = key300 ` set xs"
  by (induction xs rule: rev_induct) (simp_all add: alert_rows_snoc key300_def, simp add: alert_rows_def)

lemma length_alert_rows [simp]: "length (alert_rows n now xs) = length xs"
  by (simp add: alert_rows_def)

lemma raise_fold_exact:
  "fold (raise_one now) ds ([], as)
     = (fold (\<lambda>x. count_up (ad_type x)) (new_drafts (ad_key ` set as) ds) [],
        as @ alert_rows (length as) now (new_drafts (ad_key ` set as) ds))"
proof (induction ds rule: rev_induct)
  case (snoc x ds)
  let ?new = "new_drafts (ad_key ` set as) ds"
  have "ad_key ` set (as @ alert_rows (length as) now ?new) = ad_key ` set as \<union> key300 ` set ds"
    using new_drafts_keys[of "ad_key ` set as" ds] by (simp add: image_Un alert_rows_keys)
  then show ?case using snoc
    by (simp add: raise_one_def new_drafts_snoc alert_rows_snoc key300_def[of x, symmetric])
qed (simp add: new_drafts_def alert_rows_def)

lemma counted_by_type:
  "dict_get 0 ty (fold (\<lambda>x. count_up (ad_type x)) xs r) = dict_get 0 ty r + length (filter (\<lambda>x. ad_type x = ty) xs)"
proof (induction xs arbitrary: r)
  case (Cons x xs)
  have "dict_get 0 ty (count_up (ad_type x) r) = dict_get 0 ty r + (if ad_type x = ty then 1 else 0)"
    by (simp add: count_up_def dict_get_def)
  then show ?case using Cons by simp
qed simp

text \<open>C28. Alerts are raised once and none is lost: a batch, however it repeats itself, adds
  exactly one row for the first draft of every key the table did not have, in order and
  numbered on, keeps every earlier row and reports for each type how many rows of it it
  added; raising it again, at any later time, reports and adds nothing.\<close>

theorem alerts_raised_once:
  assumes "alerts_ok (dk_alerts d)" "new = new_drafts (ad_key ` set (dk_alerts d)) drafts"
    "d' = d\<lparr>dk_alerts := dk_alerts d @ alert_rows (length (dk_alerts d)) now new\<rparr>"
  shows "\<exists>r. raise_alerts drafts now d = (r, d')
    \<and> (\<forall>ty. dict_get 0 ty r = length (filter (\<lambda>x. ad_type x = ty) new)) \<and> raised_count r = length new
    \<and> alerts_ok (dk_alerts d') \<and> (\<forall>t. raise_alerts drafts t d' = ([], d'))"
proof -
  define r where "r = fold (\<lambda>x. count_up (ad_type x)) new []"
  have a: "raise_alerts drafts now d = (r, d')"
    unfolding raise_alerts_def raise_fold_exact assms(2,3) r_def by simp
  have ty: "dict_get 0 ty r = length (filter (\<lambda>x. ad_type x = ty) new)" for ty
    unfolding r_def counted_by_type by (simp add: dict_get_def)
  have n: "raised_count r = length new"
    using a by (rule raise_alerts_shape) (use arg_cong[OF assms(3), of dk_alerts] in simp)
  have again: "raise_alerts drafts t d' = ([], d')" for t
    using a by (rule raise_alerts_shape) (simp add: raise_alerts_def list_all_iff raise_known)
  show ?thesis using a ty n again raise_alerts_ok[OF a assms(1)] by blast
qed

section \<open>One scan per file\<close>

text \<open>The transactions the statistics have counted.\<close>

definition counted :: "(stat_key \<times> rolling) list \<Rightarrow> int" where
  "counted stats = sum_list (map (rs_count \<circ> snd) stats)"

lemma counted_put:
  "distinct (map fst stats) \<Longrightarrow>
   counted (dict_put k s stats) = counted stats + rs_count s - (case map_of stats k of None \<Rightarrow> 0 | Some r \<Rightarrow> rs_count r)"
  by (induction stats) (auto simp: counted_def)

lemma observe_count: "observe s a day = Inr s' \<Longrightarrow> rs_count s' = rs_count s + 1"
  by (auto simp: observe_def Let_def res_iff)

lemma observe_all_count:
  "observe_all xs c = Inr (Some s) \<Longrightarrow> rs_count s = (case c of None \<Rightarrow> 0 | Some r \<Rightarrow> rs_count r) + int (length xs)"
proof (induction xs arbitrary: c)
  case (Cons x xs)
  obtain c1 where c: "observe_next x c = Inr c1" "observe_all xs c1 = Inr (Some s)"
    using Cons.prems by (auto simp: observe_all_def res_iff)
  have "(case c1 of None \<Rightarrow> 0 | Some r \<Rightarrow> rs_count r) = (case c of None \<Rightarrow> 0 | Some r \<Rightarrow> rs_count r) + 1"
    using c(1) by (auto simp: observe_next_def first_observation_def res_iff observe_count split: prod.splits option.splits)
  then show ?case using Cons.IH[OF c(2)] by simp
qed (simp add: observe_all_def)

lemma update_stat_counts:
  assumes "update_stat (k, ts) stats = Inr stats'" "distinct (map fst stats)"
  shows "distinct (map fst stats') \<and> counted stats' = counted stats + int (length ts)"
proof -
  obtain s s1 where s: "observe_all (map (\<lambda>t. (t_amount_minor t, t_date t)) ts) (map_of stats k) = Inr (Some s)"
    "stored_rolling s = Inr s1" "stats' = dict_put k s1 stats"
    using assms(1) by (auto simp: update_stat_def stat_file_def res_iff split: option.splits)
  have "rs_count s1 = rs_count s" using s(2) by (simp add: stored_rolling_def split: if_splits) auto
  then show ?thesis using observe_all_count[OF s(1)] assms(2) s(3)
    by (simp add: distinct_dict_put counted_put split: option.splits)
qed

lemma update_loop_counts:
  "\<lbrakk>loop_res update_stat gs stats = Inr stats'; distinct (map fst stats)\<rbrakk> \<Longrightarrow>
   distinct (map fst stats') \<and> counted stats' = counted stats + int (sum_list (map (length \<circ> snd) gs))"
proof (induction gs arbitrary: stats)
  case (Cons g gs)
  obtain k ts where g: "g = (k, ts)" by (cases g)
  obtain s1 where s1: "update_stat (k, ts) stats = Inr s1" "loop_res update_stat gs s1 = Inr stats'"
    using Cons.prems(1) by (auto simp: g res_iff)
  show ?case using update_stat_counts[OF s1(1) Cons.prems(2)] Cons.IH[OF s1(2)] by (simp add: g)
qed simp

lemma group_by_length:
  fixes f :: "'a \<Rightarrow> 'k"
  shows "sum_list (map (length \<circ> snd) (group_by f xs)) = length xs"
proof -
  have put: "sum_list (map (length \<circ> snd) (dict_put k (dict_get [] k d @ [x]) d)) = sum_list (map (length \<circ> snd) d) + 1"
    for k :: 'k and d and x :: 'a
    by (induction d) (auto simp: dict_get_def)
  have "sum_list (map (length \<circ> snd) (fold (\<lambda>x d. dict_put (f x) (dict_get [] (f x) d @ [x]) d) xs d))
      = sum_list (map (length \<circ> snd) d) + length xs" for d
    by (induction xs arbitrary: d) (simp_all add: put)
  then show ?thesis by (simp add: group_by_def)
qed

lemma find_set_file:
  assumes "find_file fid d = Some f" "\<And>f. if_id (g f) = if_id f"
  shows "find_file fid (set_file fid g d) = Some (g f)"
proof -
  have "find (\<lambda>f. if_id f = fid) (map (\<lambda>f. if if_id f = fid then g f else f) fs) = Some (g f)"
    if "find (\<lambda>f. if_id f = fid) fs = Some f" for fs
    using that by (induction fs) (auto simp: assms(2) split: if_splits)
  then show ?thesis using assms(1) by (simp add: find_file_def set_file_def)
qed

text \<open>A file enters the rolling statistics once: a scan of a file not scanned yet
  counts each of its transactions with a counterparty exactly once and marks the file; a
  second scan, whenever it comes, reports that and changes nothing.\<close>

theorem scan_counts_once:
  assumes "scan_ingestion_file mo fid now d = Inr (out, d')" "\<not> sf_already out" "distinct (map fst (dk_stats d))"
  shows "counted (dk_stats d') = counted (dk_stats d) + int (length (scanned_txns fid (w_db (dk_world d))))
    \<and> sf_alerts out + length (dk_alerts d) = length (dk_alerts d') \<and> dk_world d' = dk_world d
    \<and> (\<forall>t. \<exists>o2. scan_ingestion_file mo fid t d' = Inr (o2, d') \<and> sf_already o2 \<and> sf_alerts o2 = 0)"
proof -
  obtain f where f: "find_file fid d = Some f" "if_scanned f = None"
    using assms(1,2) by (auto simp: scan_ingestion_file_def split: option.splits if_splits)
  define ts where "ts = scanned_txns fid (w_db (dk_world d))"
  obtain drafts stats where l: "loop_res update_stat (group_by stat_key_of ts) (dk_stats d) = Inr stats"
      "(case raise_alerts drafts now (set_file fid (\<lambda>g. g\<lparr>if_scanned := Some now\<rparr>) (d\<lparr>dk_stats := stats\<rparr>)) of
          (r, d') \<Rightarrow> (Inr (\<lparr>sf_alerts = raised_count r, sf_by_type = r, sf_scanned = length ts, sf_already = False\<rparr>, d') :: (scan_outcome_file \<times> desk) res))
        = Inr (out, d')"
    using assms(1) f by (simp add: scan_ingestion_file_def Let_def res_iff ts_def[symmetric]) blast
  then obtain r where s: "loop_res update_stat (group_by stat_key_of ts) (dk_stats d) = Inr stats"
      "raise_alerts drafts now (set_file fid (\<lambda>g. g\<lparr>if_scanned := Some now\<rparr>) (d\<lparr>dk_stats := stats\<rparr>)) = (r, d')"
      "sf_alerts out = raised_count r"
    by (cases "raise_alerts drafts now (set_file fid (\<lambda>g. g\<lparr>if_scanned := Some now\<rparr>) (d\<lparr>dk_stats := stats\<rparr>))") auto
  obtain new where n: "d' = (set_file fid (\<lambda>g. g\<lparr>if_scanned := Some now\<rparr>) (d\<lparr>dk_stats := stats\<rparr>))
      \<lparr>dk_alerts := dk_alerts (set_file fid (\<lambda>g. g\<lparr>if_scanned := Some now\<rparr>) (d\<lparr>dk_stats := stats\<rparr>)) @ new\<rparr>"
      "raised_count r = length new"
    using s(2) by (rule raise_alerts_shape)
  have c: "counted stats = counted (dk_stats d) + int (length ts)"
    using update_loop_counts[OF s(1) assms(3)] by (simp add: group_by_length)
  have "find_file fid (d\<lparr>dk_stats := stats\<rparr>) = Some f" using f(1) by (simp add: find_file_def)
  then have "find_file fid (set_file fid (\<lambda>g. g\<lparr>if_scanned := Some now\<rparr>) (d\<lparr>dk_stats := stats\<rparr>))
      = Some (f\<lparr>if_scanned := Some now\<rparr>)" by (rule find_set_file) simp
  then have "find_file fid d' = Some (f\<lparr>if_scanned := Some now\<rparr>)" by (simp add: n(1) find_file_def)
  then have again: "scan_ingestion_file mo fid t d'
      = Inr (\<lparr>sf_alerts = 0, sf_by_type = [], sf_scanned = 0, sf_already = True\<rparr>, d')" for t
    by (simp add: scan_ingestion_file_def)
  show ?thesis using c n s(3) again by (simp add: ts_def set_file_def)
qed

section \<open>Witnesses\<close>

text \<open>The thresholds the repository ships.\<close>

definition sample_anomaly :: anomaly_config where
  "sample_anomaly =
     \<lparr>ac_version = ''anomaly.v1'', ac_deviation = \<lparr>dv_sigma = 3, dv_min_history = 30, dv_whale = 100\<rparr>,
      ac_velocity = \<lparr>vc_multiplier = 2, vc_window = 60, vc_min_count = 3, vc_min_days = 3\<rparr>, ac_grace = 120,
      ac_volume = \<lparr>vl_multiplier = 3, vl_min_files = 5\<rparr>,
      ac_uniqueness = \<lparr>un_fraction = 1 / 2, un_min_count = 10\<rparr>, ac_match_rate = Fin (995 / 1000), ac_min_externals = 50,
      ac_exception_rate = Fin (5 / 100), ac_min_transactions = 50, ac_backlog = 10000\<rparr>"

definition sample_monitor :: monitor where
  "sample_monitor =
     \<lparr>mo_config = sample_anomaly, mo_banks = [], mo_calendars = sample_calendar, mo_zones = (\<lambda>_. None),
      mo_table = [''INR'' \<mapsto> 2], mo_sha = sample_sha, mo_text = fixed 3\<rparr>"

definition sample_desk :: desk where
  "sample_desk =
     \<lparr>dk_world = sample_world\<lparr>w_db := sample_db [(sample_txn 3 EXTERNAL 500 ''REF1'' 10)\<lparr>t_party := Some ''ACME''\<rparr>]\<rparr>,
      dk_files = [\<lparr>if_id = 9, if_bank = ''HDFC'', if_format = CSV, if_name = ''a.csv'', if_sha = [], if_bytes = 10, if_at = 0,
        if_by = ''u'', if_source = Some EXTERNAL, if_path = None, if_integrity = None, if_checked = None,
        if_scanned = None, if_status = FILE_PARSED, if_records = 1, if_errors = 0\<rparr>],
      dk_raws = [], dk_balances = [], dk_stats = [], dk_alerts = []\<rparr>"

lemma sample_anomaly_ok: "anomaly_config_ok sample_anomaly"
  by (simp add: sample_anomaly_def anomaly_config_ok_def rate_ok_def)

definition sample_draft :: "string \<Rightarrow> alert_draft" where
  "sample_draft key = run_alert EXCEPTION_BACKLOG CRITICAL [] [] [] key None OPERATIONS ''1''"

lemma sample_new:
  "new_drafts {} [sample_draft ''backlog:1'', sample_draft ''backlog:1'', sample_draft ''backlog:2'']
     = [sample_draft ''backlog:1'', sample_draft ''backlog:2'']"
proof -
  have k: "key300 (sample_draft key) = take 300 key" for key by (simp add: sample_draft_def key300_def run_alert_def)
  show ?thesis by (simp add: new_drafts_def first_of_key_def k upt_rec nth_Cons')
qed

theorem alerts_raised_once_witness:
  "\<exists>r d'. raise_alerts [sample_draft ''backlog:1'', sample_draft ''backlog:1'', sample_draft ''backlog:2''] 5 sample_desk = (r, d')
    \<and> dict_get 0 EXCEPTION_BACKLOG r = 2 \<and> map ad_key (dk_alerts d') = [''backlog:1'', ''backlog:2'']
    \<and> raise_alerts [sample_draft ''backlog:1'', sample_draft ''backlog:1'', sample_draft ''backlog:2''] 9 d' = ([], d')"
proof -
  have e: "dk_alerts sample_desk = []" by (simp add: sample_desk_def)
  have n: "[sample_draft ''backlog:1'', sample_draft ''backlog:2''] = new_drafts (ad_key ` set (dk_alerts sample_desk))
      [sample_draft ''backlog:1'', sample_draft ''backlog:1'', sample_draft ''backlog:2'']"
    by (simp add: sample_new e)
  have ok: "alerts_ok (dk_alerts sample_desk)" by (simp add: alerts_ok_def e)
  have ty: "ad_type (sample_draft key) = EXCEPTION_BACKLOG" for key by (simp add: sample_draft_def run_alert_def)
  have k: "ad_key (sample_draft key) = key" for key by (simp add: sample_draft_def run_alert_def)
  show ?thesis using alerts_raised_once[OF ok n refl, of 5] by (auto simp: e ty k alert_rows_def)
qed

lemma sample_scan:
  "\<exists>out d'. scan_ingestion_file sample_monitor 9 100 sample_desk = Inr (out, d') \<and> \<not> sf_already out"
proof -
  let ?t = "(sample_txn 3 EXTERNAL 500 ''REF1'' 10)\<lparr>t_party := Some ''ACME''\<rparr>"
  let ?k = "(''HDFC'', EXTERNAL, ''ACME'', DR, ''INR'')"
  have ts: "scanned_txns 9 (w_db (dk_world sample_desk)) = [?t]"
    by (simp add: scanned_txns_def sample_desk_def sample_db_def sample_txn_def)
  have gs: "group_by stat_key_of [?t] = [(?k, [?t])]"
    by (simp add: group_by_def stat_key_of_def sample_txn_def dict_get_def)
  have m: "column6 500 = 500" "column6 0 = 0" by code_simp+
  have u: "update_stat (?k, [?t]) [] = Inr [(?k, first_observation 500 10)]"
    using m by (simp add: update_stat_def stat_file_def observe_all_def observe_next_def stored_rolling_def first_observation_def sample_txn_def)
  have al: "amount_alerts sample_monitor [(?k, [?t])] (map_of []) = Inr []"
    "velocity_alerts sample_monitor [(?k, [?t])] (map_of []) = Inr []"
    by (simp_all add: amount_alerts_def velocity_alerts_def collect_def amount_alert_def amount_deviation_def
        velocity_alert_def velocity_breach_def map_filter_simps Let_def)
  obtain f where f: "find_file 9 sample_desk = Some f" "if_scanned f = None" "dk_files sample_desk = [f]"
    by (simp add: find_file_def sample_desk_def)
  have v: "volume_alerts sample_monitor f [f] = Inr []"
    by (simp add: volume_alerts_def sample_monitor_def sample_anomaly_def Let_def)
  have st: "dk_stats sample_desk = []" by (simp add: sample_desk_def)
  have l: "loop_res update_stat [(?k, [?t])] [] = Inr [(?k, first_observation 500 10)]" using u by simp
  show ?thesis
    unfolding scan_ingestion_file_def f ts Let_def gs st
    by (simp only: option.case f al v l bind_res_simps simp_thms if_False raise_alerts_def fold_append o_apply append.simps)
      (simp add: split: prod.splits)
qed

theorem scan_counts_once_witness:
  "\<exists>out d'. scan_ingestion_file sample_monitor 9 100 sample_desk = Inr (out, d') \<and> counted (dk_stats d') = 1
    \<and> (\<forall>t. \<exists>o2. scan_ingestion_file sample_monitor 9 t d' = Inr (o2, d') \<and> sf_already o2)"
proof -
  obtain out d' where s: "scan_ingestion_file sample_monitor 9 100 sample_desk = Inr (out, d')" "\<not> sf_already out"
    using sample_scan by blast
  have k: "distinct (map fst (dk_stats sample_desk))" "counted (dk_stats sample_desk) = 0"
    "length (scanned_txns 9 (w_db (dk_world sample_desk))) = 1"
    by (simp_all add: sample_desk_def counted_def scanned_txns_def sample_db_def sample_txn_def)
  show ?thesis using scan_counts_once[OF s k(1)] s(1) k by auto
qed

end
