(* ===== verification/Ingestion.thy ===== *)
theory Ingestion
  imports Alerts Pan Normalise Classified
begin

text \<open>
  \<open>src/recon/ingestion/service.py\<close>, \<open>pipeline.py\<close>, \<open>verification.py\<close> and
  \<open>persistence/repositories/ingestion.py\<close>: what happens to an accepted file, from its
  bytes to the audit entries, and the later check of the stored bytes. The caller owns
  the transaction: an error leaves the desk as it was, because the new one is not
  returned. A file on disk is given by its decoded texts (None where the bytes do not
  decode), its element tree and its digest. Random ids are an input.
\<close>

section \<open>Files on disk\<close>

record disk_file =
  df_path :: string
  df_name :: string
  df_csv :: "string option"
  df_text :: "string option"
  df_xml :: "xml option"
  df_sha :: string
  df_size :: nat

record fresh_ids =
  fr_file :: nat
  fr_rows :: "nat list"
  fr_txns :: "nat list"

record ingestion_result =
  ir_file :: nat
  ir_records :: nat
  ir_parsed :: nat
  ir_errors :: nat
  ir_status :: file_status
  ir_masked :: nat
  ir_change :: "format_change option"
  ir_balance :: "balance_check option"

section \<open>Parsing by format\<close>

record parsed_file =
  pf_rows :: "parsed_row list"
  pf_balance :: "balance_check option"
  pf_change :: "format_change option"

definition check_opt ::
    "exponents \<Rightarrow> statement_balances option \<Rightarrow> parsed_row list \<Rightarrow> string \<Rightarrow> balance_check option res" where
  "check_opt tbl bal rows sep =
     (case bal of None \<Rightarrow> Inr None | Some b \<Rightarrow> bind_res (check_statement tbl b rows sep) (\<lambda>c. Inr (Some c)))"

definition parse_file :: "exponents \<Rightarrow> disk_file \<Rightarrow> bank_config \<Rightarrow> source_format \<Rightarrow> parsed_file res" where
  "parse_file tbl df b fmt =
     (case fmt of
        CSV \<Rightarrow>
          (case (bk_csv b, df_csv df) of
             (None, _) \<Rightarrow> Inl ValueError
           | (_, None) \<Rightarrow> Inl ValueError
           | (Some c, Some t) \<Rightarrow>
               bind_res (read_header t b) (\<lambda>h.
                 let change = compare_header b h in
                 if blocks_ingestion change then Inl FormatChangeDetectedError
                 else bind_res (parse_csv b t) (\<lambda>rows.
                   Inr \<lparr>pf_rows = rows, pf_balance = None, pf_change = (if has_drift change then Some change else None)\<rparr>)))
      | MT940 \<Rightarrow>
          (case (bk_mt940 b, df_text df) of
             (None, _) \<Rightarrow> Inl ValueError
           | (_, None) \<Rightarrow> Inl ValueError
           | (Some sep, Some t) \<Rightarrow>
               bind_res (parse_mt940 b t) (\<lambda>(h, rows).
               bind_res (mt940_balances tbl h sep) (\<lambda>bal.
               bind_res (check_opt tbl bal rows sep) (\<lambda>c.
                 Inr \<lparr>pf_rows = rows, pf_balance = c, pf_change = None\<rparr>))))
      | CAMT053 \<Rightarrow>
          bind_res (parse_camt (df_xml df)) (\<lambda>(h, rows).
          bind_res (camt_balances tbl h) (\<lambda>bal.
          bind_res (check_opt tbl bal rows ''.'') (\<lambda>c.
            Inr \<lparr>pf_rows = rows, pf_balance = c, pf_change = None\<rparr>)))
      | INTERNAL_LEDGER \<Rightarrow> Inl UnsupportedFormatError)"

section \<open>Masking and storing\<close>

text \<open>A row with no card number keeps its parts; a row's numbers are counted once although
  raw and mapped text hold them both.\<close>

definition mask_row :: "parsed_row \<Rightarrow> parsed_row \<times> nat" where
  "mask_row r =
     (let (raw, nr) = mask_mapping (pr_raw r); (mapped, nm) = mask_mapping (pr_mapped r);
          es = map (\<lambda>e. (e\<lparr>pe_detail := fst (mask_pans (pe_detail e))\<rparr>, snd (mask_pans (pe_detail e)))) (pr_errors r);
          n = max nr nm + sum_list (map snd es)
      in (if n \<noteq> 0 then r\<lparr>pr_raw := raw, pr_mapped := mapped, pr_errors := map fst es\<rparr> else r, n))"

definition mask_rows :: "parsed_row list \<Rightarrow> parsed_row list \<times> nat" where
  "mask_rows rows = (map (fst \<circ> mask_row) rows, sum_list (map (snd \<circ> mask_row) rows))"

definition new_raw_row :: "nat \<Rightarrow> nat \<times> parsed_row \<Rightarrow> raw_row" where
  "new_raw_row fid ir =
     (case ir of (i, r) \<Rightarrow>
        \<lparr>rw_id = i, rw_file = fid, rw_line = Some (pr_line r), rw_raw = pr_raw r, rw_mapped = pr_mapped r,
         rw_status = (if row_valid r then PARSED else QUARANTINED), rw_errors = (if row_valid r then [] else pr_errors r)\<rparr>)"

definition create_ingestion_file ::
    "nat \<Rightarrow> bank_config \<Rightarrow> source_format \<Rightarrow> disk_file \<Rightarrow> string \<Rightarrow> instant \<Rightarrow> desk \<Rightarrow> desk res" where
  "create_ingestion_file fid b fmt df actor arrived d =
     (if df_sha df \<in> if_sha ` set (dk_files d) then Inl DuplicateFileError
      else Inr (d\<lparr>dk_files := dk_files d @
        [\<lparr>if_id = fid, if_bank = bk_code b, if_format = fmt, if_name = df_name df, if_sha = df_sha df,
          if_bytes = df_size df, if_at = arrived, if_by = actor, if_source = None, if_path = None, if_integrity = None,
          if_checked = None, if_scanned = None, if_status = FILE_PENDING, if_records = 0, if_errors = 0\<rparr>]\<rparr>))"

definition file_status_of :: "nat \<Rightarrow> nat \<Rightarrow> file_status" where
  "file_status_of parsed errors =
     (if errors = 0 then FILE_PARSED else if parsed \<noteq> 0 then PARTIALLY_PARSED else FILE_FAILED)"

definition persist_rows :: "nat \<Rightarrow> nat list \<Rightarrow> parsed_row list \<Rightarrow> desk \<Rightarrow> ingestion_result \<times> desk" where
  "persist_rows fid ids rows d =
     (let parsed = length (filter row_valid rows); errors = length (filter (\<lambda>r. \<not> row_valid r) rows);
          status = file_status_of parsed errors;
          d1 = d\<lparr>dk_raws := dk_raws d @ map (new_raw_row fid) (zip ids rows)\<rparr>
      in (\<lparr>ir_file = fid, ir_records = parsed + errors, ir_parsed = parsed, ir_errors = errors, ir_status = status,
           ir_masked = 0, ir_change = None, ir_balance = None\<rparr>,
          set_file fid (\<lambda>f. f\<lparr>if_status := status, if_records := parsed + errors, if_errors := errors\<rparr>) d1))"

text \<open>The columns of \<open>statement_balances\<close>.\<close>

definition balance_fits :: "balance_check \<Rightarrow> bool" where
  "balance_fits c =
     (let b = bc_balances c; short = (\<lambda>n s. case s of None \<Rightarrow> True | Some x \<Rightarrow> length x \<le> n);
          big = (\<lambda>x::int. - (2 ^ 63) \<le> x \<and> x < 2 ^ 63)
      in short 100 (sb_ref b) \<and> short 64 (sb_account b) \<and> length (sb_currency b) \<le> 3 \<and> big (sb_opening b)
         \<and> big (sb_closing b) \<and> big (computed_closing c) \<and> big (bc_net c) \<and> big (difference_minor c))"

definition persist_balance :: "instant \<Rightarrow> nat \<Rightarrow> string \<Rightarrow> balance_check option \<Rightarrow> desk \<Rightarrow> desk res" where
  "persist_balance arrived fid bank c d =
     (case c of
        None \<Rightarrow> Inr d
      | Some c \<Rightarrow> if balance_fits c
                  then Inr (d\<lparr>dk_balances := dk_balances d @ [\<lparr>bl_file = fid, bl_bank = bank, bl_check = c, bl_at = arrived\<rparr>]\<rparr>)
                  else Inl DataError)"

definition supported :: "source_format \<Rightarrow> bank_config \<Rightarrow> bool" where
  "supported fmt b = (fmt \<in> {CSV, MT940, CAMT053} \<and> format_text fmt \<in> set (bk_formats b))"

definition ingest_file_at ::
    "exponents \<Rightarrow> string \<Rightarrow> instant \<Rightarrow> fresh_ids \<Rightarrow> disk_file \<Rightarrow> bank_config \<Rightarrow> source_format \<Rightarrow> desk
     \<Rightarrow> (ingestion_result \<times> desk) res" where
  "ingest_file_at tbl actor arrived fr df b fmt d =
     (if \<not> supported fmt b then Inl UnsupportedFormatError
      else bind_res (parse_file tbl df b fmt) (\<lambda>p.
           bind_res (create_ingestion_file (fr_file fr) b fmt df actor arrived d) (\<lambda>d1.
             case mask_rows (pf_rows p) of (rows, masked) \<Rightarrow>
             case persist_rows (fr_file fr) (fr_rows fr) rows d1 of (result, d2) \<Rightarrow>
               bind_res (persist_balance arrived (fr_file fr) (bk_code b) (pf_balance p) d2) (\<lambda>d3.
                 Inr (result\<lparr>ir_masked := masked, ir_change := pf_change p, ir_balance := pf_balance p\<rparr>, d3)))))"

section \<open>The pipeline\<close>

definition ingestion_chain :: string where "ingestion_chain = ''ingestion''"

text \<open>The services the pipeline is built with.\<close>

record pipeline =
  pl_monitor :: monitor
  pl_normaliser :: normaliser
  pl_classifier :: classifier
  pl_actor :: string

record upload_outcome =
  uo_file :: nat
  uo_result :: ingestion_result
  uo_normalised :: nat
  uo_failed :: nat
  uo_classified :: class_outcome
  uo_alerts :: nat

definition desk_classifier :: "classifier \<Rightarrow> desk \<Rightarrow> classifier" where
  "desk_classifier ce d = ce\<lparr>ce_files := dk_files d, ce_raws := dk_raws d\<rparr>"

definition on_world :: "(world \<Rightarrow> ('a \<times> world) res) \<Rightarrow> desk \<Rightarrow> ('a \<times> desk) res" where
  "on_world f d = bind_res (f (dk_world d)) (\<lambda>(x, w). Inr (x, d\<lparr>dk_world := w\<rparr>))"

definition on_db :: "(db \<Rightarrow> ('a \<times> db) res) \<Rightarrow> desk \<Rightarrow> ('a \<times> desk) res" where
  "on_db f = on_world (\<lambda>w. bind_res (f (w_db w)) (\<lambda>(x, db). Inr (x, w\<lparr>w_db := db\<rparr>)))"

definition desk_audit ::
    "(string \<Rightarrow> string) \<Rightarrow> string \<Rightarrow> string \<Rightarrow> string \<Rightarrow> audit_action \<Rightarrow> json \<Rightarrow> string \<Rightarrow> instant
     \<Rightarrow> json \<Rightarrow> json \<Rightarrow> desk \<Rightarrow> desk res" where
  "desk_audit sha chain atype actor action affected why now before after d =
     bind_res (on_db (\<lambda>db. bind_res (append_audit sha chain atype actor action affected why now before after db)
                             (\<lambda>db'. Inr ((), db'))) d) (\<lambda>(_, d'). Inr d')"

definition ingestion_alerts :: "monitor \<Rightarrow> ingest_file \<Rightarrow> ingestion_result \<Rightarrow> instant \<Rightarrow> desk \<Rightarrow> nat \<times> desk" where
  "ingestion_alerts mo f r now d =
     (let (n1, d1) = (case ir_change r of None \<Rightarrow> ([], d)
                      | Some c \<Rightarrow> format_change_alert mo (if_bank f) (if_name f) c False now d);
          (n2, d2) = (if ir_masked r = 0 then ([], d1)
                      else pan_exposure_alert (if_id f) (if_bank f) (if_name f) (ir_masked r) now d1);
          (n3, d3) = (case ir_balance r of None \<Rightarrow> ([], d2)
                      | Some c \<Rightarrow> balance_alert (if_id f) (if_bank f) (if_name f) c now d2)
      in (raised_count n1 + raised_count n2 + raised_count n3, d3))"

definition ingest_state :: "bank_config \<Rightarrow> source_format \<Rightarrow> side \<Rightarrow> nat \<Rightarrow> string \<Rightarrow> ingestion_result \<Rightarrow> nat \<Rightarrow> json" where
  "ingest_state b fmt src bytes sha r alerts =
     JObj [(''bank_code'', JStr (bk_code b)), (''format_type'', JStr (format_text fmt)), (''source'', JStr (side_name src)),
           (''size_bytes'', JInt (int bytes)), (''content_sha256'', JStr sha), (''record_count'', JInt (int (ir_records r))),
           (''parsed_count'', JInt (int (ir_parsed r))), (''error_count'', JInt (int (ir_errors r))),
           (''pan_masked_count'', JInt (int (ir_masked r))), (''alerts_raised'', JInt (int alerts))]"

text \<open>The steps behind the parse: the name the upload showed and the side it is for are
  written to the file row, then the file goes through the services in turn.\<close>

definition process_file ::
    "pipeline \<Rightarrow> instant \<Rightarrow> fresh_ids \<Rightarrow> disk_file \<Rightarrow> string \<Rightarrow> bank_config \<Rightarrow> source_format \<Rightarrow> side \<Rightarrow> instant \<Rightarrow> desk
     \<Rightarrow> (upload_outcome \<times> desk) res" where
  "process_file pl arrived fr df display b fmt src now d =
     (let mo = pl_monitor pl; sha = ce_sha (pl_classifier pl) in
      bind_res (ingest_file_at (nm_table (pl_normaliser pl)) (pl_actor pl) arrived fr df b fmt d) (\<lambda>(r, d1).
      let fid = ir_file r;
          d2 = set_file fid (\<lambda>f. f\<lparr>if_name := display, if_source := Some src, if_path := Some (df_path df)\<rparr>) d1
      in bind_res (on_db (normalise_ingestion_file (pl_normaliser pl) (dk_raws d2) fid b fmt src (fr_txns fr)) d2)
           (\<lambda>((normalised, failed), d3).
         bind_res (on_world (classify_ingestion_file (desk_classifier (pl_classifier pl) d3) fid now) d3) (\<lambda>(classified, d4).
         bind_res (scan_ingestion_file mo fid now d4) (\<lambda>(scan, d5).
         case find_file fid d5 of
           None \<Rightarrow> Inl ValueError
         | Some f \<Rightarrow>
             (case ingestion_alerts mo f r now d5 of (n, d6) \<Rightarrow>
              bind_res (if src = EXTERNAL then check_settlement_uniqueness mo fid now d6 else Inr ([], d6)) (\<lambda>(dup, d7).
              let alerts = sf_alerts scan + n + raised_count dup in
              bind_res (desk_audit sha ingestion_chain ''USER'' (pl_actor pl) INGEST
                          (JObj [(''ingestion_file_id'', id_json fid)]) ''file uploaded and ingested'' now JNull
                          (ingest_state b fmt src (df_size df) (df_sha df) r alerts) d7) (\<lambda>d8.
              bind_res (desk_audit sha ingestion_chain ''USER'' (pl_actor pl) NORMALISE
                          (JObj [(''ingestion_file_id'', id_json fid)]) ''parsed rows normalised to the canonical model'' now JNull
                          (JObj [(''normalised_count'', JInt (int normalised)), (''failed_count'', JInt (int failed)),
                                 (''config_version'', JStr (bk_version b))]) d8) (\<lambda>d9.
                Inr (\<lparr>uo_file = fid, uo_result = r, uo_normalised = normalised, uo_failed = failed,
                      uo_classified = classified, uo_alerts = alerts\<rparr>, d9)))))))))) "

section \<open>Stored bytes checked again\<close>

definition integrity_text :: "integrity \<Rightarrow> string" where
  "integrity_text s = (case s of INTEGRITY_OK \<Rightarrow> ''OK'' | TAMPERED \<Rightarrow> ''TAMPERED'' | FILE_MISSING \<Rightarrow> ''MISSING'')"

definition tamper_key :: "nat \<Rightarrow> string option \<Rightarrow> string" where
  "tamper_key fid actual =
     ''tamper:'' @ uuid_str fid @ CHR '':'' # (case actual of
       None \<Rightarrow> ''missing'' | Some a \<Rightarrow> if a = [] then ''missing'' else a)"

definition tamper_draft :: "ingest_file \<Rightarrow> integrity \<Rightarrow> string option \<Rightarrow> alert_draft" where
  "tamper_draft f status actual =
     \<lparr>ad_type = FILE_TAMPERED, ad_severity = CRITICAL, ad_subject = if_name f,
      ad_message = if_name f @ CHR '' '' # (if status = FILE_MISSING then ''can no longer be found on disk.''
                                            else ''no longer matches the SHA-256 recorded at ingestion.''),
      ad_details = [(''ingestion_file_id'', id_json (if_id f)), (''status'', JStr (integrity_text status)),
                    (''expected_sha256'', JStr (if_sha f)), (''actual_sha256'', str_or_null actual)],
      ad_key = tamper_key (if_id f) actual, ad_bank = Some (if_bank f), ad_route = COMPLIANCE, ad_run = None\<rparr>"

text \<open>\<open>disk\<close> gives the digest of the bytes at a path, None where there is no file.\<close>

definition verify_file ::
    "(string \<Rightarrow> string) \<Rightarrow> (string \<Rightarrow> string option) \<Rightarrow> string \<Rightarrow> instant \<Rightarrow> ingest_file \<Rightarrow> desk \<Rightarrow> (integrity \<times> desk) res" where
  "verify_file sha disk actor now f d =
     (case if_path f of
        None \<Rightarrow> Inl ValueError
      | Some p \<Rightarrow>
          let actual = disk p;
              status = (case actual of None \<Rightarrow> FILE_MISSING | Some a \<Rightarrow> if a = if_sha f then INTEGRITY_OK else TAMPERED);
              d1 = set_file (if_id f) (\<lambda>f. f\<lparr>if_integrity := Some status, if_checked := Some now\<rparr>) d;
              d2 = (if status = INTEGRITY_OK then d1 else snd (raise_alerts [tamper_draft f status actual] now d1))
          in bind_res (desk_audit sha ingestion_chain (if starts_with ''system:'' actor then ''SYSTEM'' else ''USER'') actor
                FILE_VERIFY (JObj [(''ingestion_file_id'', id_json (if_id f))])
                ''stored file re-hashed against the SHA-256 taken at ingestion'' now
                (JObj [(''integrity_status'', str_or_null (map_option integrity_text (if_integrity f)))])
                (JObj [(''integrity_status'', JStr (integrity_text status)), (''expected_sha256'', JStr (if_sha f))]) d2)
               (\<lambda>d3. Inr (status, d3)))"

definition verify_all_files ::
    "(string \<Rightarrow> string) \<Rightarrow> (string \<Rightarrow> string option) \<Rightarrow> string \<Rightarrow> instant \<Rightarrow> desk \<Rightarrow> (integrity list \<times> desk) res" where
  "verify_all_files sha disk actor now d =
     loop_res (\<lambda>f (seen, d). bind_res (verify_file sha disk actor now f d) (\<lambda>(s, d'). Inr (seen @ [s], d')))
       (sort_key (\<lambda>f. (if_at f, if_id f)) (filter (\<lambda>f. if_path f \<noteq> None) (dk_files d))) ([], d)"

section \<open>Alerts add to their table only\<close>

definition alerted :: "desk \<Rightarrow> nat \<Rightarrow> desk \<Rightarrow> bool" where
  "alerted d n d' =
     (\<exists>new. d' = d\<lparr>dk_alerts := dk_alerts d @ new\<rparr> \<and> length new = n \<and> (alerts_ok (dk_alerts d) \<longrightarrow> alerts_ok (dk_alerts d')))"

lemma alerted_refl: "alerted d 0 d"
  by (simp add: alerted_def)

lemma alerted_trans: "alerted d m e \<Longrightarrow> alerted e n f \<Longrightarrow> alerted d (m + n) f"
  unfolding alerted_def by auto

lemma alerted_raise: "raise_alerts drafts now d = (r, d') \<Longrightarrow> alerted d (raised_count r) d'"
proof -
  assume a: "raise_alerts drafts now d = (r, d')"
  then obtain new where "d' = d\<lparr>dk_alerts := dk_alerts d @ new\<rparr>" "raised_count r = length new" by (rule raise_alerts_shape)
  then show ?thesis using raise_alerts_ok[OF a] unfolding alerted_def by (intro exI[of _ new]) simp
qed

lemma alerted_zero: "raised_count [] = 0"
  by (simp add: raised_count_def)

lemma ingestion_alerts_add: "ingestion_alerts mo f r now d = (n, d') \<Longrightarrow> alerted d n d'"
proof -
  assume a: "ingestion_alerts mo f r now d = (n, d')"
  obtain n1 d1 where 1: "(case ir_change r of None \<Rightarrow> ([], d)
      | Some c \<Rightarrow> format_change_alert mo (if_bank f) (if_name f) c False now d) = (n1, d1)" by fastforce
  obtain n2 d2 where 2: "(if ir_masked r = 0 then ([], d1)
      else pan_exposure_alert (if_id f) (if_bank f) (if_name f) (ir_masked r) now d1) = (n2, d2)" by fastforce
  obtain n3 d3 where 3: "(case ir_balance r of None \<Rightarrow> ([], d2)
      | Some c \<Rightarrow> balance_alert (if_id f) (if_bank f) (if_name f) c now d2) = (n3, d3)" by fastforce
  have "alerted d (raised_count n1) d1"
    using 1 alerted_refl[of d] by (auto simp: format_change_alert_def alerted_zero intro: alerted_raise split: option.splits)
  moreover have "alerted d1 (raised_count n2) d2"
    using 2 alerted_refl[of d1] by (auto simp: pan_exposure_alert_def alerted_zero intro: alerted_raise split: if_splits)
  moreover have "alerted d2 (raised_count n3) d3"
    using 3 alerted_refl[of d2]
    by (auto simp: balance_alert_def Let_def alerted_zero intro: alerted_raise split: option.splits if_splits)
  moreover have "n = raised_count n1 + raised_count n2 + raised_count n3" "d' = d3"
    using a by (simp_all add: ingestion_alerts_def 1 2 3)
  ultimately show ?thesis using alerted_trans by blast
qed

lemma settlement_add: "check_settlement_uniqueness mo fid now d = Inr (r, d') \<Longrightarrow> alerted d (raised_count r) d'"
  using alerted_refl[of d]
  by (auto simp: check_settlement_uniqueness_def Let_def res_iff alerted_zero intro: alerted_raise
      split: option.splits if_splits list.splits prod.splits)

section \<open>The stored state\<close>

definition desk_ok :: "desk \<Rightarrow> bool" where
  "desk_ok d =
     (ledger_ok (w_db (dk_world d)) \<and> store_ok (dk_world d) \<and> alerts_ok (dk_alerts d)
      \<and> distinct (map if_id (dk_files d)) \<and> distinct (map if_sha (dk_files d))
      \<and> list_all (\<lambda>r. rw_file r \<in> if_id ` set (dk_files d)) (dk_raws d) \<and> distinct (map fst (dk_stats d)))"

lemma desk_ok_alerted: "\<lbrakk>alerted d n d'; desk_ok d\<rbrakk> \<Longrightarrow> desk_ok d'"
  unfolding alerted_def desk_ok_def by auto

lemma desk_ok_world:
  "\<lbrakk>desk_ok d; goes_on (dk_world d) w\<rbrakk> \<Longrightarrow> desk_ok (d\<lparr>dk_world := w\<rparr>)"
  using steps_ok unfolding goes_on_def desk_ok_def by auto

lemma set_file_last:
  assumes "dk_files d = fs @ [f]" "if_id f \<notin> if_id ` set fs"
  shows "set_file (if_id f) g d = d\<lparr>dk_files := fs @ [g f]\<rparr>"
proof -
  have "if_id h \<noteq> if_id f" if "h \<in> set fs" for h using assms(2) imageI[OF that, of if_id] by auto
  then have "map (\<lambda>h. if if_id h = if_id f then g h else h) fs = fs" by (intro map_idI) auto
  then show ?thesis by (simp add: set_file_def assms(1))
qed

lemma find_file_last:
  assumes "dk_files d = fs @ [f]" "if_id f \<notin> if_id ` set fs"
  shows "find_file (if_id f) d = Some f"
proof -
  have "find (\<lambda>h. if_id h = if_id f) (fs @ [f]) = Some f" using assms(2) by (induction fs) auto
  then show ?thesis by (simp add: find_file_def assms(1))
qed

text \<open>Ingestion stores one file and one raw row for every row the parser yields, masked,
  and counts each of them as parsed or quarantined.\<close>

lemma ingest_shape:
  assumes "ingest_file_at tbl actor arrived fr df b fmt d = Inr (r, d')" "fr_file fr \<notin> if_id ` set (dk_files d)"
  obtains p f bal where "parse_file tbl df b fmt = Inr p" "df_sha df \<notin> if_sha ` set (dk_files d)"
    "d' = d\<lparr>dk_files := dk_files d @ [f],
            dk_raws := dk_raws d @ map (new_raw_row (fr_file fr)) (zip (fr_rows fr) (fst (mask_rows (pf_rows p)))),
            dk_balances := bal\<rparr>"
    "if_id f = fr_file fr" "if_sha f = df_sha df" "if_scanned f = None" "if_bank f = bk_code b"
    "ir_file r = fr_file fr" "ir_records r = length (pf_rows p)" "ir_parsed r + ir_errors r = ir_records r"
    "ir_parsed r = length (filter row_valid (fst (mask_rows (pf_rows p))))" "if_records f = ir_records r"
proof -
  obtain p where p: "parse_file tbl df b fmt = Inr p" using assms(1) by (auto simp: ingest_file_at_def res_iff split: if_splits)
  obtain d1 where c: "create_ingestion_file (fr_file fr) b fmt df actor arrived d = Inr d1"
    using assms(1) p by (auto simp: ingest_file_at_def res_iff split: if_splits)
  obtain rows masked where m: "mask_rows (pf_rows p) = (rows, masked)" by fastforce
  obtain r1 d2 where q: "persist_rows (fr_file fr) (fr_rows fr) rows d1 = (r1, d2)" by fastforce
  have rest: "persist_balance arrived (fr_file fr) (bk_code b) (pf_balance p) d2 = Inr d'"
    "r = r1\<lparr>ir_masked := masked, ir_change := pf_change p, ir_balance := pf_balance p\<rparr>"
    using assms(1) by (auto simp: ingest_file_at_def p c m q res_iff split: if_splits)
  obtain f0 where d1: "df_sha df \<notin> if_sha ` set (dk_files d)" "d1 = d\<lparr>dk_files := dk_files d @ [f0]\<rparr>"
    "if_id f0 = fr_file fr" "if_sha f0 = df_sha df" "if_scanned f0 = None" "if_bank f0 = bk_code b"
    using c by (auto simp: create_ingestion_file_def split: if_splits)
  define n where "n = length (filter row_valid rows)"
  define k where "k = length (filter (\<lambda>r. \<not> row_valid r) rows)"
  define f where "f = f0\<lparr>if_status := file_status_of n k, if_records := n + k, if_errors := k\<rparr>"
  have nk: "n + k = length rows" unfolding n_def k_def by (rule sum_length_filter_compl)
  have d2: "d2 = d\<lparr>dk_files := dk_files d @ [f], dk_raws := dk_raws d @ map (new_raw_row (fr_file fr)) (zip (fr_rows fr) rows)\<rparr>"
    "ir_file r1 = fr_file fr" "ir_records r1 = n + k" "ir_parsed r1 = n" "ir_errors r1 = k"
    using q set_file_last[of "d1\<lparr>dk_raws := dk_raws d @ map (new_raw_row (fr_file fr)) (zip (fr_rows fr) rows)\<rparr>" "dk_files d" f0]
      assms(2) d1 by (auto simp: persist_rows_def Let_def n_def[symmetric] k_def[symmetric] f_def)
  obtain bal where b: "d' = d2\<lparr>dk_balances := bal\<rparr>"
    using rest(1) by (cases "pf_balance p")
      (auto simp: persist_balance_def split: if_splits intro: that[of "dk_balances d2"])
  have l: "length rows = length (pf_rows p)" using m by (auto simp: mask_rows_def)
  show ?thesis
    by (rule that[OF p d1(1), where f = f and bal = bal]) (use b d2 d1 rest nk l in \<open>simp_all add: m n_def f_def\<close>)
qed

lemma find_parsed_new:
  assumes "list_all (\<lambda>r. rw_file r \<noteq> fid) old" "length rows \<le> length ids"
  shows "length (find_parsed (old @ map (new_raw_row fid) (zip ids rows)) fid) = length (filter row_valid rows)"
proof -
  have o: "filter (\<lambda>r. rw_file r = fid \<and> rw_status r = PARSED) old = []"
    using assms(1) by (auto simp: filter_empty_conv list_all_iff)
  have n: "length (filter (\<lambda>r. rw_file r = fid \<and> rw_status r = PARSED) (map (new_raw_row fid) (zip ids rows))) = length (filter row_valid rows)"
    using assms(2)
  proof (induction ids rows rule: list_induct2')
    case (4 i ids r rows) then show ?case by (simp add: new_raw_row_def)
  qed simp_all
  show ?thesis using o n by (simp add: find_parsed_def)
qed

section \<open>The pipeline accounts for every row\<close>

lemma on_db_world: "on_db g d = Inr (x, d') \<Longrightarrow> \<exists>db. g (w_db (dk_world d)) = Inr (x, db) \<and> d' = d\<lparr>dk_world := (dk_world d)\<lparr>w_db := db\<rparr>\<rparr>"
  by (auto simp: on_db_def on_world_def res_iff)

lemma desk_audit_shape:
  assumes "desk_audit sha chain atype actor action affected why now before after d = Inr d'"
  shows "\<exists>db row. d' = d\<lparr>dk_world := (dk_world d)\<lparr>w_db := db\<rparr>\<rparr> \<and> goes_on (dk_world d) ((dk_world d)\<lparr>w_db := db\<rparr>)
    \<and> audit_log db = audit_log (w_db (dk_world d)) @ [row] \<and> chain_id row = chain \<and> action_type row = action_text action"
proof -
  obtain db where a: "append_audit sha chain atype actor action affected why now before after (w_db (dk_world d)) = Inr db"
    "d' = d\<lparr>dk_world := (dk_world d)\<lparr>w_db := db\<rparr>\<rparr>"
    using assms by (auto simp: desk_audit_def res_iff dest!: on_db_world)
  obtain row where "db = (w_db (dk_world d))\<lparr>audit_log := audit_log (w_db (dk_world d)) @ [row],
      next_id := next_id (w_db (dk_world d)) + 1\<rparr>" "chain_id row = chain" "action_type row = action_text action"
    using append_audit_shape[OF a(1)] by blast
  then show ?thesis using a(2) goes_on_db[OF ledger_step.entry[OF a(1)]]
    by (intro exI[of _ db] exI[of _ row]) simp
qed

lemma scan_shape:
  assumes "scan_ingestion_file mo fid now d = Inr (out, d')" "find_file fid d = Some f" "if_scanned f = None"
    "distinct (map fst (dk_stats d))"
  shows "\<exists>stats. distinct (map fst stats)
    \<and> alerted (set_file fid (\<lambda>g. g\<lparr>if_scanned := Some now\<rparr>) (d\<lparr>dk_stats := stats\<rparr>)) (sf_alerts out) d'"
proof -
  define ts where "ts = scanned_txns fid (w_db (dk_world d))"
  obtain drafts stats where l: "loop_res update_stat (group_by stat_key_of ts) (dk_stats d) = Inr stats"
      "(case raise_alerts drafts now (set_file fid (\<lambda>g. g\<lparr>if_scanned := Some now\<rparr>) (d\<lparr>dk_stats := stats\<rparr>)) of
          (r, d') \<Rightarrow> (Inr (\<lparr>sf_alerts = raised_count r, sf_by_type = r, sf_scanned = length ts, sf_already = False\<rparr>, d') :: (scan_outcome_file \<times> desk) res))
        = Inr (out, d')"
    using assms(1-3) by (simp add: scan_ingestion_file_def Let_def res_iff ts_def[symmetric]) blast
  obtain r d2 where r: "raise_alerts drafts now (set_file fid (\<lambda>g. g\<lparr>if_scanned := Some now\<rparr>) (d\<lparr>dk_stats := stats\<rparr>)) = (r, d2)"
    by fastforce
  have "sf_alerts out = raised_count r" "d' = d2" using l(2) by (auto simp: r)
  then show ?thesis using alerted_raise[OF r] update_loop_counts[OF l(1) assms(4)] by (intro exI[of _ stats]) simp
qed

lemma classify_file_goes:
  "classify_ingestion_file ce fid now w = Inr (out, w') \<Longrightarrow> store_ok w \<Longrightarrow> goes_on w w'"
  using persist_shape unfolding classify_ingestion_file_def by (fastforce simp: Let_def split: option.splits)

text \<open>The ids given to the rows and transactions of a file: enough, new and distinct.\<close>

definition fresh_for :: "fresh_ids \<Rightarrow> nat \<Rightarrow> nat \<Rightarrow> desk \<Rightarrow> bool" where
  "fresh_for fr rows ts d =
     (fr_file fr \<notin> if_id ` set (dk_files d) \<and> rows \<le> length (fr_rows fr) \<and> length (fr_txns fr) = ts
      \<and> distinct (map t_id (txns (w_db (dk_world d))) @ fr_txns fr)
      \<and> list_all (\<lambda>r. r_internal r \<notin> set (fr_txns fr) \<and> r_external r \<notin> set (fr_txns fr)) (results (w_db (dk_world d))))"

text \<open>The steps of the pipeline one by one.\<close>

lemma process_steps:
  assumes "process_file pl arrived fr df display b fmt src now d = Inr (out, d')"
  obtains r d1 d2 n failed d3 cl d4 scan d5 f5 k d6 dup d7 d8 where
    "ingest_file_at (nm_table (pl_normaliser pl)) (pl_actor pl) arrived fr df b fmt d = Inr (r, d1)"
    "d2 = set_file (ir_file r) (\<lambda>f. f\<lparr>if_name := display, if_source := Some src, if_path := Some (df_path df)\<rparr>) d1"
    "on_db (normalise_ingestion_file (pl_normaliser pl) (dk_raws d2) (ir_file r) b fmt src (fr_txns fr)) d2 = Inr ((n, failed), d3)"
    "on_world (classify_ingestion_file (desk_classifier (pl_classifier pl) d3) (ir_file r) now) d3 = Inr (cl, d4)"
    "scan_ingestion_file (pl_monitor pl) (ir_file r) now d4 = Inr (scan, d5)"
    "ingestion_alerts (pl_monitor pl) f5 r now d5 = (k, d6)"
    "(if src = EXTERNAL then check_settlement_uniqueness (pl_monitor pl) (ir_file r) now d6 else Inr ([], d6)) = Inr (dup, d7)"
    "\<exists>aff why bef aft. desk_audit (ce_sha (pl_classifier pl)) ingestion_chain ''USER'' (pl_actor pl) INGEST aff why now bef aft d7 = Inr d8"
    "\<exists>aff why bef aft. desk_audit (ce_sha (pl_classifier pl)) ingestion_chain ''USER'' (pl_actor pl) NORMALISE aff why now bef aft d8 = Inr d'"
    "uo_result out = r" "uo_normalised out = n" "uo_failed out = failed" "uo_alerts out = sf_alerts scan + k + raised_count dup"
proof -
  define sha where "sha = ce_sha (pl_classifier pl)"
  obtain r d1 where r: "ingest_file_at (nm_table (pl_normaliser pl)) (pl_actor pl) arrived fr df b fmt d = Inr (r, d1)"
    using assms by (auto simp: process_file_def Let_def res_iff)
  define d2 where "d2 = set_file (ir_file r) (\<lambda>f. f\<lparr>if_name := display, if_source := Some src, if_path := Some (df_path df)\<rparr>) d1"
  note step1 = assms[unfolded process_file_def Let_def, unfolded r bind_res_simps prod.case d2_def[symmetric] sha_def[symmetric]]
  obtain n failed d3 where n: "on_db (normalise_ingestion_file (pl_normaliser pl) (dk_raws d2) (ir_file r) b fmt src (fr_txns fr)) d2
      = Inr ((n, failed), d3)"
    using step1 by (auto simp: res_iff)
  note step2 = step1[unfolded n bind_res_simps prod.case]
  obtain cl d4 where c: "on_world (classify_ingestion_file (desk_classifier (pl_classifier pl) d3) (ir_file r) now) d3 = Inr (cl, d4)"
    using step2 by (auto simp: res_iff)
  note step3 = step2[unfolded c bind_res_simps prod.case]
  obtain scan d5 where s: "scan_ingestion_file (pl_monitor pl) (ir_file r) now d4 = Inr (scan, d5)"
    using step3 by (auto simp: res_iff)
  note step4 = step3[unfolded s bind_res_simps prod.case]
  obtain f5 where f: "find_file (ir_file r) d5 = Some f5" using step4 by (auto split: option.splits)
  obtain k d6 where k: "ingestion_alerts (pl_monitor pl) f5 r now d5 = (k, d6)" by fastforce
  note step5 = step4[unfolded f option.case k prod.case]
  obtain dup d7 where u: "(if src = EXTERNAL then check_settlement_uniqueness (pl_monitor pl) (ir_file r) now d6 else Inr ([], d6)) = Inr (dup, d7)"
    using step5 by (auto simp: res_iff)
  note step6 = step5[unfolded u bind_res_simps prod.case]
  obtain aff why bef aft d8 where a: "desk_audit sha ingestion_chain ''USER'' (pl_actor pl) INGEST aff why now bef aft d7 = Inr d8"
    and rest: "bind_res (desk_audit sha ingestion_chain ''USER'' (pl_actor pl) NORMALISE
                          (JObj [(''ingestion_file_id'', id_json (ir_file r))]) ''parsed rows normalised to the canonical model'' now JNull
                          (JObj [(''normalised_count'', JInt (int n)), (''failed_count'', JInt (int failed)),
                                 (''config_version'', JStr (bk_version b))]) d8) (\<lambda>d9.
                Inr (\<lparr>uo_file = ir_file r, uo_result = r, uo_normalised = n, uo_failed = failed,
                      uo_classified = cl, uo_alerts = sf_alerts scan + k + raised_count dup\<rparr>, d9)) = Inr (out, d')"
    using step6 unfolding bind_res_iff by blast
  show ?thesis
    by (rule that[OF r d2_def n c s k u]) (use a rest in \<open>auto simp: res_iff sha_def\<close>)
qed

text \<open>Up to the classification: one file and its rows are stored, the rest of the state
  has gone forward.\<close>

lemma pipeline_front:
  assumes st: "ingest_file_at (nm_table (pl_normaliser pl)) (pl_actor pl) arrived fr df b fmt d = Inr (r, d1)"
    "d2 = set_file (ir_file r) (\<lambda>f. f\<lparr>if_name := display, if_source := Some src, if_path := Some (df_path df)\<rparr>) d1"
    "on_db (normalise_ingestion_file (pl_normaliser pl) (dk_raws d2) (ir_file r) b fmt src (fr_txns fr)) d2 = Inr ((n, failed), d3)"
    "on_world (classify_ingestion_file (desk_classifier (pl_classifier pl) d3) (ir_file r) now) d3 = Inr (cl, d4)"
    and ok: "desk_ok d" "exponents_ok (nm_table (pl_normaliser pl))" "fresh_for fr (ir_records r) n d"
  shows "\<exists>f rows bal w. d4 = d\<lparr>dk_world := w, dk_files := dk_files d @ [f], dk_raws := dk_raws d @ rows, dk_balances := bal\<rparr>
    \<and> desk_ok d4 \<and> goes_on (dk_world d) w \<and> ir_file r = fr_file fr \<and> if_id f = fr_file fr \<and> if_name f = display
    \<and> if_scanned f = None \<and> if_records f = ir_records r \<and> length rows = ir_records r
    \<and> ir_parsed r + ir_errors r = ir_records r \<and> n + failed = ir_parsed r"
proof -
  define fid where "fid = fr_file fr"
  have fr: "fid \<notin> if_id ` set (dk_files d)" "ir_records r \<le> length (fr_rows fr)" "length (fr_txns fr) = n"
    "distinct (map t_id (txns (w_db (dk_world d))) @ fr_txns fr)"
    "list_all (\<lambda>r. r_internal r \<notin> set (fr_txns fr) \<and> r_external r \<notin> set (fr_txns fr)) (results (w_db (dk_world d)))"
    using ok(3) by (simp_all add: fresh_for_def fid_def)
  obtain p f bal where "parse_file (nm_table (pl_normaliser pl)) df b fmt = Inr p" and sha: "df_sha df \<notin> if_sha ` set (dk_files d)"
    and d1: "d1 = d\<lparr>dk_files := dk_files d @ [f],
            dk_raws := dk_raws d @ map (new_raw_row fid) (zip (fr_rows fr) (fst (mask_rows (pf_rows p)))), dk_balances := bal\<rparr>"
    and f: "if_id f = fid" "if_sha f = df_sha df" "if_scanned f = None" "if_bank f = bk_code b"
    and ir: "ir_file r = fid" "ir_records r = length (pf_rows p)" "ir_parsed r + ir_errors r = ir_records r"
      "ir_parsed r = length (filter row_valid (fst (mask_rows (pf_rows p))))" "if_records f = ir_records r"
    using fr(1) unfolding fid_def by (rule ingest_shape[OF st(1)])
  note i = sha d1 f(1-3) ir
  define f2 where "f2 = f\<lparr>if_name := display, if_source := Some src, if_path := Some (df_path df)\<rparr>"
  define rows where "rows = map (new_raw_row fid) (zip (fr_rows fr) (fst (mask_rows (pf_rows p))))"
  have d2: "d2 = d\<lparr>dk_files := dk_files d @ [f2], dk_raws := dk_raws d @ rows, dk_balances := bal\<rparr>"
    using set_file_last[of d1 "dk_files d" f] fr(1) i(2,3,6) st(2) by (simp add: f2_def rows_def)
  have f2: "if_id f2 = fid" "if_sha f2 = df_sha df" "if_scanned f2 = None" "if_name f2 = display" "if_records f2 = ir_records r"
    using i(3-5,10) by (simp_all add: f2_def)
  have dk: "ledger_ok (w_db (dk_world d))" "store_ok (dk_world d)" "distinct (map fst (dk_stats d))"
    "list_all (\<lambda>r. rw_file r \<in> if_id ` set (dk_files d)) (dk_raws d)" using ok(1) by (simp_all add: desk_ok_def)
  have old: "list_all (\<lambda>r. rw_file r \<noteq> fid) (dk_raws d)" using dk(4) fr(1) by (auto simp: list_all_iff)
  have len: "length (fst (mask_rows (pf_rows p))) = length (pf_rows p)" "length rows = ir_records r"
    using fr(2) i(7) by (simp_all add: mask_rows_def rows_def)
  have ok2: "desk_ok d2"
    using ok(1) fr(1) i(1) f2 by (auto simp: desk_ok_def d2 rows_def new_raw_row_def list_all_iff)
  obtain db3 where n: "normalise_ingestion_file (pl_normaliser pl) (dk_raws d2) fid b fmt src (fr_txns fr) (w_db (dk_world d)) = Inr ((n, failed), db3)"
    "d3 = d2\<lparr>dk_world := (dk_world d)\<lparr>w_db := db3\<rparr>\<rparr>"
    using on_db_world[OF st(3)] i(6) by (auto simp: d2)
  have norm: "n + failed = ir_parsed r" "ledger_step (w_db (dk_world d)) db3"
    using normalise_file_stores[OF n(1) ok(2) fr(3-5)] find_parsed_new[OF old, of "fst (mask_rows (pf_rows p))" "fr_rows fr"]
      len(1) fr(2) i(7,9) by (auto simp: d2 rows_def)
  have g3: "goes_on (dk_world d) (dk_world d3)" using goes_on_db[OF norm(2)] by (simp add: n(2))
  have ok3: "desk_ok d3" using desk_ok_world[OF ok2, of "dk_world d3"] g3 by (simp add: n(2) d2)
  obtain w4 where c: "classify_ingestion_file (desk_classifier (pl_classifier pl) d3) fid now (dk_world d3) = Inr (cl, w4)"
    "d4 = d3\<lparr>dk_world := w4\<rparr>" using st(4) i(6) by (auto simp: on_world_def res_iff)
  have g4: "goes_on (dk_world d3) w4" using classify_file_goes[OF c(1)] ok3 by (simp add: desk_ok_def)
  have ok4: "desk_ok d4" unfolding c(2) by (rule desk_ok_world[OF ok3 g4])
  have d4: "d4 = d\<lparr>dk_world := w4, dk_files := dk_files d @ [f2], dk_raws := dk_raws d @ rows, dk_balances := bal\<rparr>"
    by (simp add: c(2) n(2) d2)
  show ?thesis
    by (rule exI[of _ f2], rule exI[of _ rows], rule exI[of _ bal], rule exI[of _ w4])
      (use d4 ok4 goes_on_trans[OF g3 g4] i(6,8) f2 len(2) norm(1) in \<open>simp add: fid_def\<close>)
qed

text \<open>From the scan to the last alert: the file is marked, statistics and alerts grow.\<close>

lemma pipeline_alerts:
  assumes st: "scan_ingestion_file mo fid now d4 = Inr (scan, d5)" "ingestion_alerts mo f5 r now d5 = (k, d6)"
    "(if src = EXTERNAL then check_settlement_uniqueness mo fid now d6 else Inr ([], d6)) = Inr (dup, d7)"
    and ok: "desk_ok d4" "dk_files d4 = fs @ [f]" "if_id f = fid" "if_scanned f = None"
  shows "\<exists>stats new. d7 = d4\<lparr>dk_files := fs @ [f\<lparr>if_scanned := Some now\<rparr>], dk_stats := stats, dk_alerts := dk_alerts d4 @ new\<rparr>
    \<and> length new = sf_alerts scan + k + raised_count dup \<and> desk_ok d7"
proof -
  have nf: "if_id f \<notin> if_id ` set fs" using ok(1,2) by (auto simp: desk_ok_def)
  have ff: "find_file fid d4 = Some f" using find_file_last[OF ok(2) nf] ok(3) by simp
  obtain stats where s: "distinct (map fst stats)"
    "alerted (set_file fid (\<lambda>g. g\<lparr>if_scanned := Some now\<rparr>) (d4\<lparr>dk_stats := stats\<rparr>)) (sf_alerts scan) d5"
    using scan_shape[OF st(1) ff ok(4)] ok(1) by (auto simp: desk_ok_def)
  define e where "e = d4\<lparr>dk_files := fs @ [f\<lparr>if_scanned := Some now\<rparr>], dk_stats := stats\<rparr>"
  have "set_file fid (\<lambda>g. g\<lparr>if_scanned := Some now\<rparr>) (d4\<lparr>dk_stats := stats\<rparr>) = e"
    using set_file_last[of "d4\<lparr>dk_stats := stats\<rparr>" fs f "\<lambda>g. g\<lparr>if_scanned := Some now\<rparr>"] ok(2,3) nf
    by (simp add: e_def)
  then have a5: "alerted e (sf_alerts scan) d5" using s(2) by simp
  have oke: "desk_ok e" using ok(1,2) s(1) by (auto simp: desk_ok_def e_def)
  have "alerted d6 (raised_count dup) d7"
    using st(3) settlement_add alerted_refl[of d6] by (auto simp: alerted_zero split: if_splits)
  then have a7: "alerted e (sf_alerts scan + k + raised_count dup) d7"
    by (rule alerted_trans[OF alerted_trans[OF a5 ingestion_alerts_add[OF st(2)]]])
  obtain new where "d7 = e\<lparr>dk_alerts := dk_alerts e @ new\<rparr>" "length new = sf_alerts scan + k + raised_count dup"
    using a7 by (auto simp: alerted_def)
  then show ?thesis using desk_ok_alerted[OF a7 oke] by (intro exI[of _ stats] exI[of _ new]) (simp add: e_def)
qed

lemma desk_audit_ok:
  assumes "\<exists>aff why bef aft. desk_audit sha chain atype actor action aff why now bef aft d = Inr d'" "desk_ok d"
  shows "\<exists>db row. d' = d\<lparr>dk_world := (dk_world d)\<lparr>w_db := db\<rparr>\<rparr> \<and> goes_on (dk_world d) ((dk_world d)\<lparr>w_db := db\<rparr>) \<and> desk_ok d'
    \<and> audit_log db = audit_log (w_db (dk_world d)) @ [row] \<and> chain_id row = chain \<and> action_type row = action_text action"
proof -
  obtain aff why bef aft where "desk_audit sha chain atype actor action aff why now bef aft d = Inr d'" using assms(1) by blast
  then obtain db row where a: "d' = d\<lparr>dk_world := (dk_world d)\<lparr>w_db := db\<rparr>\<rparr>" "goes_on (dk_world d) ((dk_world d)\<lparr>w_db := db\<rparr>)"
    "audit_log db = audit_log (w_db (dk_world d)) @ [row]" "chain_id row = chain" "action_type row = action_text action"
    using desk_audit_shape by blast
  have "desk_ok d'" unfolding a(1) by (rule desk_ok_world[OF assms(2) a(2)])
  then show ?thesis using a by blast
qed

text \<open>C9. The pipeline as a whole, over a consistent state: when it succeeds the state is
  consistent again, the exceptions and the ledger have only gone forward, every row of
  the file is parsed or quarantined and every parsed row normalised or counted as failed,
  exactly one file is added, scanned, under the name the upload showed, every alert it
  reports is stored, and the last two audit entries record the ingestion.\<close>

theorem pipeline_accounts_for_rows:
  assumes "process_file pl arrived fr df display b fmt src now d = Inr (out, d')" "desk_ok d"
    "exponents_ok (nm_table (pl_normaliser pl))" "fresh_for fr (ir_records (uo_result out)) (uo_normalised out) d"
  shows "desk_ok d' \<and> goes_on (dk_world d) (dk_world d')
    \<and> ir_parsed (uo_result out) + ir_errors (uo_result out) = ir_records (uo_result out)
    \<and> uo_normalised out + uo_failed out = ir_parsed (uo_result out)
    \<and> length (dk_raws d') = length (dk_raws d) + ir_records (uo_result out)
    \<and> (\<exists>f. dk_files d' = dk_files d @ [f] \<and> if_id f = fr_file fr \<and> if_name f = display \<and> if_scanned f = Some now
           \<and> if_records f = ir_records (uo_result out))
    \<and> length (dk_alerts d') = length (dk_alerts d) + uo_alerts out
    \<and> (\<exists>log x y. audit_log (w_db (dk_world d')) = log @ [x, y] \<and> action_type x = ''INGEST'' \<and> action_type y = ''NORMALISE''
           \<and> chain_id x = ingestion_chain \<and> chain_id y = ingestion_chain)"
proof -
  obtain r d1 d2 n failed d3 cl d4 scan d5 f5 k d6 dup d7 d8 where st:
    "ingest_file_at (nm_table (pl_normaliser pl)) (pl_actor pl) arrived fr df b fmt d = Inr (r, d1)"
    "d2 = set_file (ir_file r) (\<lambda>f. f\<lparr>if_name := display, if_source := Some src, if_path := Some (df_path df)\<rparr>) d1"
    "on_db (normalise_ingestion_file (pl_normaliser pl) (dk_raws d2) (ir_file r) b fmt src (fr_txns fr)) d2 = Inr ((n, failed), d3)"
    "on_world (classify_ingestion_file (desk_classifier (pl_classifier pl) d3) (ir_file r) now) d3 = Inr (cl, d4)"
    "scan_ingestion_file (pl_monitor pl) (ir_file r) now d4 = Inr (scan, d5)"
    "ingestion_alerts (pl_monitor pl) f5 r now d5 = (k, d6)"
    "(if src = EXTERNAL then check_settlement_uniqueness (pl_monitor pl) (ir_file r) now d6 else Inr ([], d6)) = Inr (dup, d7)"
    "\<exists>aff why bef aft. desk_audit (ce_sha (pl_classifier pl)) ingestion_chain ''USER'' (pl_actor pl) INGEST aff why now bef aft d7 = Inr d8"
    "\<exists>aff why bef aft. desk_audit (ce_sha (pl_classifier pl)) ingestion_chain ''USER'' (pl_actor pl) NORMALISE aff why now bef aft d8 = Inr d'"
    and out: "uo_result out = r" "uo_normalised out = n" "uo_failed out = failed" "uo_alerts out = sf_alerts scan + k + raised_count dup"
    by (rule process_steps[OF assms(1)])
  obtain f rows bal w where front: "d4 = d\<lparr>dk_world := w, dk_files := dk_files d @ [f], dk_raws := dk_raws d @ rows, dk_balances := bal\<rparr>"
    "desk_ok d4" "goes_on (dk_world d) w" "ir_file r = fr_file fr" "if_id f = fr_file fr" "if_name f = display"
    "if_scanned f = None" "if_records f = ir_records r" "length rows = ir_records r"
    "ir_parsed r + ir_errors r = ir_records r" "n + failed = ir_parsed r"
    using pipeline_front[OF st(1-4) assms(2,3)] assms(4) unfolding out by blast
  obtain stats new where fin: "d7 = d4\<lparr>dk_files := dk_files d @ [f\<lparr>if_scanned := Some now\<rparr>], dk_stats := stats, dk_alerts := dk_alerts d4 @ new\<rparr>"
    "length new = sf_alerts scan + k + raised_count dup" "desk_ok d7"
    using pipeline_alerts[OF st(5-7) front(2)] front(1,4,5,7) by force
  obtain db8 x where d8: "d8 = d7\<lparr>dk_world := (dk_world d7)\<lparr>w_db := db8\<rparr>\<rparr>" "goes_on (dk_world d7) ((dk_world d7)\<lparr>w_db := db8\<rparr>)" "desk_ok d8"
    "audit_log db8 = audit_log (w_db (dk_world d7)) @ [x]" "chain_id x = ingestion_chain" "action_type x = ''INGEST''"
    using desk_audit_ok[OF st(8) fin(3)] unfolding action_text_def audit_action.case by blast
  obtain db9 y where d9: "d' = d8\<lparr>dk_world := (dk_world d8)\<lparr>w_db := db9\<rparr>\<rparr>" "goes_on (dk_world d8) ((dk_world d8)\<lparr>w_db := db9\<rparr>)" "desk_ok d'"
    "audit_log db9 = audit_log (w_db (dk_world d8)) @ [y]" "chain_id y = ingestion_chain" "action_type y = ''NORMALISE''"
    using desk_audit_ok[OF st(9) d8(3)] unfolding action_text_def audit_action.case by blast
  have w7: "dk_world d7 = w" by (simp add: fin(1) front(1))
  have "goes_on (dk_world d) (dk_world d')"
    using goes_on_trans[OF goes_on_trans[OF front(3) d8(2)[unfolded w7]], of "dk_world d'"] d9 d8(1) w7 by simp
  moreover have "audit_log (w_db (dk_world d')) = audit_log (w_db w) @ [x, y]"
    using d8(4) d9(4) w7 by (simp add: d9(1) d8(1))
  moreover have "dk_files d' = dk_files d @ [f\<lparr>if_scanned := Some now\<rparr>]" "dk_raws d' = dk_raws d @ rows" "dk_alerts d' = dk_alerts d @ new"
    by (simp_all add: d9(1) d8(1) fin(1) front(1))
  ultimately show ?thesis using front(5-11) fin(2) d9(3,5,6) d8(5,6) unfolding out by simp
qed

section \<open>A file comes in once\<close>

lemma ingested_sha:
  "ingest_file_at tbl actor arrived fr df b fmt d = Inr (r, d') \<Longrightarrow> df_sha df \<notin> if_sha ` set (dk_files d)"
  by (auto simp: ingest_file_at_def create_ingestion_file_def res_iff split: if_splits)

text \<open>The bytes of a stored file are never ingested a second time, whatever name, bank,
  format or side the second upload claims.\<close>

lemma no_second_ingestion:
  assumes "df_sha df \<in> if_sha ` set (dk_files d)"
  shows "\<exists>e. process_file pl arrived fr df display b fmt src now d = Inl e"
proof (cases "process_file pl arrived fr df display b fmt src now d")
  case (Inr x)
  then obtain out d' where "process_file pl arrived fr df display b fmt src now d = Inr (out, d')" by (cases x) auto
  then obtain r d1 where "ingest_file_at (nm_table (pl_normaliser pl)) (pl_actor pl) arrived fr df b fmt d = Inr (r, d1)"
    by (rule process_steps)
  from ingested_sha[OF this] show ?thesis using assms by simp
qed blast

section \<open>The header check and the parser disagree on blanks\<close>

text \<open>The header check strips column names, the row parser does not: a header that
  differs from the configured one only by blanks around a mapped name is ingested
  without a format change being reported, and every row of the file is quarantined.\<close>

theorem padded_header_quarantines:
  assumes "bk_csv b = Some c" "df_csv df = Some t" "csv_records (cv_delimiter c) t = header # rows"
    "map strip header = expected_columns b" "(k, col) \<in> set (cv_mapping c)" "col \<notin> set header"
    "parse_file tbl df b CSV = Inr p"
  shows "pf_change p = None \<and> list_all (\<lambda>r. \<not> row_valid r) (pf_rows p)"
proof -
  have h: "read_header t b = Inr header" using assms(1,3) by (simp add: read_header_def)
  have ch: "\<not> has_drift (compare_header b header)"
    by (auto simp: has_drift_def compare_header_def Let_def assms(4) filter_empty_conv)
  obtain rs where rs: "parse_csv b t = Inr rs" "p = \<lparr>pf_rows = rs, pf_balance = None, pf_change = None\<rparr>"
    using assms(7) ch by (auto simp: parse_file_def assms(1,2) h Let_def res_iff split: if_splits)
  have m: "\<not> row_valid (parse_csv_row c header lr)" for lr
  proof -
    obtain line row where lr: "lr = (line, row)" by (cases lr)
    obtain cells overlong where d: "dict_row header row = (cells, overlong)" by (cases "dict_row header row")
    define raw where "raw = map (\<lambda>(k, v). (k, case v of None \<Rightarrow> [] | Some s \<Rightarrow> s)) cells"
    have "map fst cells = header" using d by (auto simp: dict_row_def comp_def case_prod_unfold)
    then have "map fst raw = header" by (simp add: raw_def comp_def case_prod_unfold)
    then have "map_of raw col = None" using assms(6) by (metis domIff dom_map_of_conv_image_fst list.set_map)
    then have "snd (extract_mapped raw c) \<noteq> []" using assms(5) by (auto simp: extract_mapped_def Let_def filter_empty_conv)
    then show ?thesis
      by (cases "extract_mapped raw c") (simp add: parse_csv_row_def lr d raw_def[symmetric] row_valid_def)
  qed
  have "\<not> row_valid r" if "r \<in> set rs" for r
    using rs(1) assms(1,3) that m by (auto simp: parse_csv_def split: if_splits)
  then show ?thesis using rs(2) by (simp add: list_all_iff)
qed

definition sample_file :: "string \<Rightarrow> disk_file" where
  "sample_file t =
     \<lparr>df_path = ''/u/1.csv'', df_name = ''1.csv'', df_csv = Some t, df_text = Some t, df_xml = None, df_sha = ''ab'', df_size = 50\<rparr>"

theorem padded_header_quarantines_witness:
  "\<exists>p. parse_file default_exponents (sample_file (''Ref,Date, Amount,Type'' @ [CHR 0x0A] @ ''ref-01,18-09-2026,0,DR''))
         sample_bank CSV = Inr p
     \<and> pf_change p = None \<and> length (pf_rows p) = 1 \<and> list_all (\<lambda>r. \<not> row_valid r) (pf_rows p)"
proof -
  let ?t = "''Ref,Date, Amount,Type'' @ [CHR 0x0A] @ ''ref-01,18-09-2026,0,DR''"
  obtain c where c: "bk_csv sample_bank = Some c" "cv_delimiter c = CHR '',''" "(''amount'', ''Amount'') \<in> set (cv_mapping c)"
    by (simp add: sample_bank_def)
  have h: "csv_records (CHR '','') ?t = [[''Ref'', ''Date'', '' Amount'', ''Type''], [''ref-01'', ''18-09-2026'', ''0'', ''DR'']]"
    by code_simp
  have e: "expected_columns sample_bank = [''Ref'', ''Date'', ''Amount'', ''Type'']" by code_simp
  have s: "map strip [''Ref'', ''Date'', '' Amount'', ''Type''] = [''Ref'', ''Date'', ''Amount'', ''Type'']" by code_simp
  have ch: "\<not> blocks_ingestion (compare_header sample_bank [''Ref'', ''Date'', '' Amount'', ''Type''])"
    by code_simp
  obtain p where p: "parse_file default_exponents (sample_file ?t) sample_bank CSV = Inr p" "length (pf_rows p) = 1"
    using c h ch by (simp add: parse_file_def sample_file_def read_header_def parse_csv_def Let_def)
  have hc: "csv_records (cv_delimiter c) ?t = [[''Ref'', ''Date'', '' Amount'', ''Type''], [''ref-01'', ''18-09-2026'', ''0'', ''DR'']]"
    using h c(2) by (simp only:)
  have "df_csv (sample_file ?t) = Some ?t" by (simp add: sample_file_def)
  moreover have "''Amount'' \<notin> set [''Ref'', ''Date'', '' Amount'', ''Type'']" by code_simp
  ultimately have "pf_change p = None \<and> list_all (\<lambda>r. \<not> row_valid r) (pf_rows p)"
    using padded_header_quarantines[OF c(1) _ hc s[folded e] c(3) _ p(1)] by blast
  then show ?thesis using p by blast
qed

section \<open>Stored bytes\<close>

lemma desk_ok_set_file:
  assumes "desk_ok d" "\<And>f. if_id (g f) = if_id f" "\<And>f. if_sha (g f) = if_sha f"
  shows "desk_ok (set_file fid g d)"
proof -
  have "map if_id (map (\<lambda>f. if if_id f = fid then g f else f) fs) = map if_id fs"
    "map if_sha (map (\<lambda>f. if if_id f = fid then g f else f) fs) = map if_sha fs" for fs
    by (induction fs) (simp_all add: assms(2,3))
  then have "map if_id (dk_files (set_file fid g d)) = map if_id (dk_files d)"
    "map if_sha (dk_files (set_file fid g d)) = map if_sha (dk_files d)" by (simp_all add: set_file_def)
  moreover have "if_id ` set (dk_files (set_file fid g d)) = if_id ` set (dk_files d)"
    using calculation(1) by (metis list.set_map)
  ultimately show ?thesis using assms(1) by (simp add: desk_ok_def) (simp add: set_file_def)
qed

text \<open>C32. Re-verification: the status is OK exactly when the bytes at the stored path still
  have the digest recorded at ingestion; the file row carries the status, the state stays
  consistent, a file that is missing or changed has an alert under the key that names it
  and the digest found, and an unchanged one raises none.\<close>

theorem verification_finds_tampering:
  assumes "verify_file sha disk actor now f d = Inr (s, d')" "desk_ok d" "f \<in> set (dk_files d)"
  shows "desk_ok d' \<and> (\<exists>p. if_path f = Some p \<and> (s = INTEGRITY_OK \<longleftrightarrow> disk p = Some (if_sha f)) \<and> (s = FILE_MISSING \<longleftrightarrow> disk p = None)
      \<and> (if s = INTEGRITY_OK then dk_alerts d' = dk_alerts d
         else take 300 (tamper_key (if_id f) (disk p)) \<in> ad_key ` set (dk_alerts d')))
    \<and> (\<exists>g \<in> set (dk_files d'). if_id g = if_id f \<and> if_sha g = if_sha f \<and> if_integrity g = Some s \<and> if_checked g = Some now)"
proof -
  obtain p where p: "if_path f = Some p" using assms(1) by (auto simp: verify_file_def split: option.splits)
  define g where "g = (\<lambda>f :: ingest_file. f\<lparr>if_integrity := Some s, if_checked := Some now\<rparr>)"
  define d1 where "d1 = set_file (if_id f) g d"
  define st where "st = (case disk p of None \<Rightarrow> FILE_MISSING | Some a \<Rightarrow> if a = if_sha f then INTEGRITY_OK else TAMPERED)"
  have s: "s = st" using assms(1) by (auto simp: verify_file_def p st_def[symmetric] Let_def res_iff)
  define drafts where "drafts = [tamper_draft f s (disk p)]"
  define d2 where "d2 = (if s = INTEGRITY_OK then d1 else snd (raise_alerts drafts now d1))"
  have k: "map ad_key drafts = [tamper_key (if_id f) (disk p)]" by (simp add: drafts_def tamper_draft_def)
  obtain aff why bef aft where
    a: "desk_audit sha ingestion_chain (if starts_with ''system:'' actor then ''SYSTEM'' else ''USER'') actor FILE_VERIFY aff why now bef aft d2 = Inr d'"
    using assms(1) unfolding verify_file_def p option.case Let_def st_def[symmetric] s[symmetric] g_def[symmetric] d1_def[symmetric]
      drafts_def[symmetric] d2_def[symmetric] by (auto simp: res_iff)
  have ok1: "desk_ok d1" unfolding d1_def by (rule desk_ok_set_file[OF assms(2)]) (simp_all add: g_def)
  obtain r d3 where r: "raise_alerts drafts now d1 = (r, d3)" by fastforce
  have ok3: "desk_ok d3" by (rule desk_ok_alerted[OF alerted_raise[OF r] ok1])
  have ok2: "desk_ok d2" using ok1 ok3 r by (simp add: d2_def)
  obtain db where d': "d' = d2\<lparr>dk_world := (dk_world d2)\<lparr>w_db := db\<rparr>\<rparr>" "desk_ok d'"
    using desk_audit_ok[OF _ ok2] a by blast
  obtain new where n: "d3 = d1\<lparr>dk_alerts := dk_alerts d1 @ new\<rparr>" "\<forall>x \<in> set drafts. take 300 (ad_key x) \<in> ad_key ` set (dk_alerts d3)"
    using r by (rule raise_alerts_shape)
  have al: "if s = INTEGRITY_OK then dk_alerts d' = dk_alerts d
      else take 300 (tamper_key (if_id f) (disk p)) \<in> ad_key ` set (dk_alerts d')"
  proof (cases "s = INTEGRITY_OK")
    case True
    then show ?thesis by (simp add: d'(1) d2_def d1_def set_file_def)
  next
    case False
    obtain x where x: "drafts = [x]" "ad_key x = tamper_key (if_id f) (disk p)" using k by auto
    have "take 300 (ad_key x) \<in> ad_key ` set (dk_alerts d3)" using n(2) x(1) by auto
    then show ?thesis using False x(2) by (simp add: d'(1) d2_def r)
  qed
  have "dk_files d' = dk_files d1" using n(1) by (simp add: d'(1) d2_def r)
  then have "g f \<in> set (dk_files d')" using assms(3) by (auto simp: d1_def set_file_def)
  then have row: "\<exists>h \<in> set (dk_files d'). if_id h = if_id f \<and> if_sha h = if_sha f \<and> if_integrity h = Some s \<and> if_checked h = Some now"
    by (rule rev_bexI) (simp add: g_def)
  have "(s = INTEGRITY_OK \<longleftrightarrow> disk p = Some (if_sha f)) \<and> (s = FILE_MISSING \<longleftrightarrow> disk p = None)"
    unfolding s st_def by (simp split: option.splits)
  then show ?thesis using p al by (intro conjI[OF d'(2)] conjI[OF _ row] exI[of _ p]) simp
qed

section \<open>A small concrete file\<close>

definition empty_desk :: desk where
  "empty_desk =
     \<lparr>dk_world = \<lparr>w_db = empty_db, w_excs = [], w_events = [], w_adjustments = [], w_next = 0\<rparr>,
      dk_files = [], dk_raws = [], dk_balances = [], dk_stats = [], dk_alerts = []\<rparr>"

lemma empty_desk_ok: "desk_ok empty_desk"
  using empty_ok by (simp add: desk_ok_def empty_desk_def store_ok_def alerts_ok_def)

definition sample_pipeline :: pipeline where
  "sample_pipeline =
     \<lparr>pl_monitor = sample_monitor, pl_normaliser = sample_normaliser, pl_classifier = sample_classifier, pl_actor = ''ann''\<rparr>"

definition sample_bad_row :: parsed_row where
  "sample_bad_row =
     \<lparr>pr_line = 2, pr_raw = [(''Ref'', ''ref-01''), (''Date'', ''18-09-2026''), (''Amount'', ''0''), (''Type'', ''XX'')],
      pr_mapped = [(''reference'', ''ref-01''), (''txn_date'', ''18-09-2026''), (''amount'', ''0''), (''direction'', ''XX'')],
      pr_errors = []\<rparr>"

definition sample_bytes :: disk_file where
  "sample_bytes = sample_file (''Ref,Date,Amount,Type'' @ [CHR 0x0A] @ ''ref-01,18-09-2026,0,XX'')"

lemma sample_parse:
  assumes "df_csv df = df_csv sample_bytes"
  shows "parse_file default_exponents df sample_bank CSV = Inr \<lparr>pf_rows = [sample_bad_row], pf_balance = None, pf_change = None\<rparr>"
proof -
  obtain c where c: "bk_csv sample_bank = Some c" by (simp add: sample_bank_def)
  have h: "csv_records (CHR '','') (''Ref,Date,Amount,Type'' @ [CHR 0x0A] @ ''ref-01,18-09-2026,0,XX'')
      = [[''Ref'', ''Date'', ''Amount'', ''Type''], [''ref-01'', ''18-09-2026'', ''0'', ''XX'']]"
    by code_simp
  have ch: "\<not> has_drift (compare_header sample_bank [''Ref'', ''Date'', ''Amount'', ''Type''])" by code_simp
  have d: "cv_delimiter c = CHR '',''" using c by (auto simp: sample_bank_def)
  have r: "parse_csv_row c [''Ref'', ''Date'', ''Amount'', ''Type''] (2, [''ref-01'', ''18-09-2026'', ''0'', ''XX'']) = sample_bad_row"
  proof -
    have "parse_csv_row (the (bk_csv sample_bank)) [''Ref'', ''Date'', ''Amount'', ''Type''] (2, [''ref-01'', ''18-09-2026'', ''0'', ''XX'']) = sample_bad_row"
      by code_simp
    then show ?thesis by (simp add: c)
  qed
  show ?thesis using ch
    by (simp add: parse_file_def assms c read_header_def parse_csv_def sample_bytes_def sample_file_def d h[simplified] Let_def r
        has_drift_def blocks_ingestion_def)
qed

lemma sample_fails: "normalise sample_normaliser (sample_bad_row\<lparr>pr_raw := x\<rparr>) sample_bank CSV src 9 = Inl NormalisationError"
proof -
  have t: "normalise_timestamp (\<lambda>_. Some (\<lambda>t. t - 19800000000)) ''18-09-2026'' ''%d-%m-%Y'' ''Asia/Kolkata'' None []
      = Inr \<lparr>st_utc = start_of 739877 - 19800000000, st_date = 739877, st_text = ''18-09-2026'', st_zone = ''Asia/Kolkata''\<rparr>"
    by code_simp
  have d: "normalise_direction ''XX'' = Inl DirectionNormalisationError" by code_simp
  show ?thesis
    by (simp add: normalise_def row_valid_def sample_bad_row_def normalise_valid_row_def date_format_for_def sample_bank_def
        field_get_def t sample_normaliser_def d sub_errors_def)
qed

lemma sample_desk_audit:
  assumes "logged sample_sha (w_db (dk_world d))" "next_id (w_db (dk_world d)) < 999"
    "no_float affected" "no_float before" "no_float after"
  shows "\<exists>d'. desk_audit sample_sha chain ''USER'' aid action affected why 5 before after d = Inr d'
    \<and> logged sample_sha (w_db (dk_world d')) \<and> next_id (w_db (dk_world d')) = next_id (w_db (dk_world d)) + 1"
proof -
  obtain db where a: "append_audit sample_sha chain ''USER'' aid action affected why 5 before after (w_db (dk_world d)) = Inr db"
    "logged sample_sha db"
    using sample_audit[OF assms(1) _ assms(3-5)] assms(2) by fastforce
  have "next_id db = next_id (w_db (dk_world d)) + 1" using append_audit_shape[OF a(1)] by auto
  then show ?thesis using a by (simp add: desk_audit_def on_db_def on_world_def)
qed

lemma sample_ingested:
  assumes "df_csv df = df_csv sample_bytes"
  shows "\<exists>d. ingest_file_at default_exponents actor 4 \<lparr>fr_file = 9, fr_rows = [5], fr_txns = []\<rparr> df sample_bank CSV empty_desk
     = Inr (\<lparr>ir_file = 9, ir_records = 1, ir_parsed = 1, ir_errors = 0, ir_status = FILE_PARSED, ir_masked = 0,
             ir_change = None, ir_balance = None\<rparr>, d)
   \<and> (\<exists>f. d = empty_desk\<lparr>dk_files := [f], dk_raws := [new_raw_row 9 (5, sample_bad_row)]\<rparr> \<and> if_id f = 9 \<and> if_scanned f = None)"
proof -
  have m: "mask_rows [sample_bad_row] = ([sample_bad_row], 0)" by code_simp
  have v: "row_valid sample_bad_row" by code_simp
  show ?thesis
    by (simp add: ingest_file_at_def supported_def sample_parse[OF assms] m v create_ingestion_file_def persist_rows_def Let_def
        file_status_of_def set_file_def persist_balance_def empty_desk_def format_text_def)
      (simp add: sample_bank_def)
qed

lemma sample_process:
  assumes "df_csv df = df_csv sample_bytes"
  shows "\<exists>out d'. process_file (sample_pipeline\<lparr>pl_actor := actor\<rparr>) 4 \<lparr>fr_file = 9, fr_rows = [5], fr_txns = []\<rparr> df display sample_bank CSV INTERNAL 5 empty_desk
     = Inr (out, d') \<and> ir_records (uo_result out) = 1 \<and> uo_normalised out = 0 \<and> ir_errors (uo_result out) = 0"
proof -
  obtain r d1 f where i: "ingest_file_at default_exponents actor 4 \<lparr>fr_file = 9, fr_rows = [5], fr_txns = []\<rparr> df sample_bank CSV empty_desk
     = Inr (r, d1)" "r = \<lparr>ir_file = 9, ir_records = 1, ir_parsed = 1, ir_errors = 0, ir_status = FILE_PARSED, ir_masked = 0,
             ir_change = None, ir_balance = None\<rparr>"
    "d1 = empty_desk\<lparr>dk_files := [f], dk_raws := [new_raw_row 9 (5, sample_bad_row)]\<rparr>" "if_id f = 9" "if_scanned f = None"
    using sample_ingested[OF assms, of actor] by blast
  define g where "g = f\<lparr>if_name := display, if_source := Some INTERNAL, if_path := Some (df_path df)\<rparr>"
  define d2 where "d2 = empty_desk\<lparr>dk_files := [g], dk_raws := [new_raw_row 9 (5, sample_bad_row)]\<rparr>"
  have s2: "set_file 9 (\<lambda>f. f\<lparr>if_name := display, if_source := Some INTERNAL, if_path := Some (df_path df)\<rparr>) d1 = d2"
    by (simp add: set_file_def i(3,4) d2_def g_def)
  have g: "if_id g = 9" "if_scanned g = None" "if_source g = Some INTERNAL" by (simp_all add: g_def i(4,5))
  have v: "row_valid sample_bad_row" by code_simp
  have fp: "find_parsed [new_raw_row 9 (5, sample_bad_row)] 9 = [new_raw_row 9 (5, sample_bad_row)]"
    by (simp add: find_parsed_def new_raw_row_def v)
  have rec: "\<exists>x. reconstruct_row (new_raw_row 9 (5, sample_bad_row)) = sample_bad_row\<lparr>pr_raw := x\<rparr>"
    by (simp add: reconstruct_row_def new_raw_row_def sample_bad_row_def)
  have n: "on_db (normalise_ingestion_file sample_normaliser (dk_raws d2) 9 sample_bank CSV INTERNAL []) d2 = Inr ((0, 1), d2)"
  proof -
    obtain x where x: "reconstruct_row (new_raw_row 9 (5, sample_bad_row)) = sample_bad_row\<lparr>pr_raw := x\<rparr>" using rec by blast
    have "dk_raws d2 = [new_raw_row 9 (5, sample_bad_row)]" by (simp add: d2_def)
    then show ?thesis
      by (simp add: on_db_def on_world_def normalise_ingestion_file_def fp normalise_step_def x sample_fails save_many_def
          add_transactions_def)
  qed
  have c: "\<exists>cl. on_world (classify_ingestion_file (desk_classifier sample_classifier d2) 9 5) d2 = Inr (cl, d2)"
    by (simp add: on_world_def classify_ingestion_file_def desk_classifier_def d2_def g new_raw_row_def v
        format_error_candidates_def persist_def)
  then obtain cl where c: "on_world (classify_ingestion_file (desk_classifier sample_classifier d2) 9 5) d2 = Inr (cl, d2)" by blast
  define d5 where "d5 = d2\<lparr>dk_files := [g\<lparr>if_scanned := Some 5\<rparr>]\<rparr>"
  have e: "scanned_txns 9 (w_db (dk_world d2)) = []" by (simp add: scanned_txns_def d2_def empty_desk_def empty_db_def)
  have va: "volume_alerts sample_monitor g [g] = Inr []"
    by (simp add: volume_alerts_def sample_monitor_def sample_anomaly_def Let_def)
  have ff: "find_file 9 d2 = Some g" by (simp add: find_file_def d2_def g)
  have st: "dk_files d2 = [g]" "dk_stats d2 = []" by (simp_all add: d2_def empty_desk_def)
  have "set_file 9 (\<lambda>g. g\<lparr>if_scanned := Some 5\<rparr>) (d2\<lparr>dk_stats := []\<rparr>) = d5"
    by (simp add: set_file_def d5_def d2_def g empty_desk_def)
  then obtain scan where s: "scan_ingestion_file sample_monitor 9 5 d2 = Inr (scan, d5)" "sf_alerts scan = 0"
    by (simp add: scan_ingestion_file_def ff g e group_by_def Let_def amount_alerts_def velocity_alerts_def collect_def va st
        raise_alerts_def raised_count_def)
  have f5: "find_file 9 d5 = Some (g\<lparr>if_scanned := Some 5\<rparr>)" by (simp add: find_file_def d5_def g)
  have al: "ingestion_alerts sample_monitor h r 5 d5 = (0, d5)" for h
    by (simp add: ingestion_alerts_def i(2) raised_count_def)
  have l5: "logged sample_sha (w_db (dk_world d5))" "next_id (w_db (dk_world d5)) = 0"
    by (simp_all add: d5_def d2_def empty_desk_def empty_db_def logged_def)
  obtain d6 where a6: "desk_audit sample_sha ingestion_chain ''USER'' actor INGEST (JObj [(''ingestion_file_id'', id_json 9)])
      ''file uploaded and ingested'' 5 JNull (ingest_state sample_bank CSV INTERNAL (df_size df) (df_sha df) r 0) d5 = Inr d6"
    "logged sample_sha (w_db (dk_world d6))" "next_id (w_db (dk_world d6)) = 1"
    using sample_desk_audit[OF l5(1), of "JObj [(''ingestion_file_id'', id_json 9)]" JNull
      "ingest_state sample_bank CSV INTERNAL (df_size df) (df_sha df) r 0"] l5(2)
    by (fastforce simp: id_json_def ingest_state_def)
  obtain d7 where a7: "desk_audit sample_sha ingestion_chain ''USER'' actor NORMALISE (JObj [(''ingestion_file_id'', id_json 9)])
      ''parsed rows normalised to the canonical model'' 5 JNull
      (JObj [(''normalised_count'', JInt 0), (''failed_count'', JInt 1), (''config_version'', JStr (bk_version sample_bank))]) d6 = Inr d7"
    using sample_desk_audit[OF a6(2), of "JObj [(''ingestion_file_id'', id_json 9)]" JNull
      "JObj [(''normalised_count'', JInt 0), (''failed_count'', JInt 1), (''config_version'', JStr (bk_version sample_bank))]"] a6(3)
    by (fastforce simp: id_json_def)
  have pl: "nm_table sample_normaliser = default_exponents" "ce_sha sample_classifier = sample_sha"
    by (simp_all add: sample_normaliser_def sample_classifier_def)
  have rr: "ir_file r = 9" "ir_records r = 1" "ir_errors r = 0" by (simp_all add: i(2))
  show ?thesis
    by (simp add: process_file_def sample_pipeline_def pl Let_def i(1) rr s2 n[unfolded One_nat_def] c s f5 al raised_count_def)
      (simp add: a6(1) a7 rr)
qed

theorem pipeline_accounts_for_rows_witness:
  "\<exists>out d'. process_file sample_pipeline 4 \<lparr>fr_file = 9, fr_rows = [5], fr_txns = []\<rparr> sample_bytes ''a.csv'' sample_bank CSV INTERNAL 5 empty_desk
     = Inr (out, d') \<and> ir_records (uo_result out) = 1 \<and> uo_failed out = 1 \<and> length (dk_raws d') = 1 \<and> length (dk_files d') = 1
     \<and> length (audit_log (w_db (dk_world d'))) \<ge> 2"
proof -
  have e: "sample_pipeline\<lparr>pl_actor := ''ann''\<rparr> = sample_pipeline" by (simp add: sample_pipeline_def)
  obtain out d' where p: "process_file sample_pipeline 4 \<lparr>fr_file = 9, fr_rows = [5], fr_txns = []\<rparr> sample_bytes ''a.csv'' sample_bank CSV INTERNAL 5 empty_desk
     = Inr (out, d')" "ir_records (uo_result out) = 1" "uo_normalised out = 0" "ir_errors (uo_result out) = 0"
    using sample_process[OF refl, of "''ann''" "''a.csv''", unfolded e] by blast
  have t: "nm_table (pl_normaliser sample_pipeline) = default_exponents"
    by (simp add: sample_pipeline_def sample_normaliser_def)
  have "fresh_for \<lparr>fr_file = 9, fr_rows = [5], fr_txns = []\<rparr> (ir_records (uo_result out)) (uo_normalised out) empty_desk"
    using p(2,3) by (simp add: fresh_for_def empty_desk_def empty_db_def)
  from pipeline_accounts_for_rows[OF p(1) empty_desk_ok _ this] show ?thesis
    using p by (auto simp: t default_exponents_ok empty_desk_def)
qed

definition sample_stored :: desk where
  "sample_stored = empty_desk\<lparr>dk_files :=
     [\<lparr>if_id = 9, if_bank = ''HDFC'', if_format = CSV, if_name = ''a.csv'', if_sha = ''ab'', if_bytes = 10, if_at = 0,
       if_by = ''u'', if_source = Some EXTERNAL, if_path = Some ''/u/a.csv'', if_integrity = None, if_checked = None,
       if_scanned = None, if_status = FILE_PARSED, if_records = 1, if_errors = 0\<rparr>]\<rparr>"

theorem verification_finds_tampering_witness:
  "\<exists>f d'. dk_files sample_stored = [f] \<and> verify_file sample_sha (\<lambda>_. Some ''cd'') ''ann'' 5 f sample_stored = Inr (TAMPERED, d')
     \<and> dk_alerts d' \<noteq> []"
proof -
  obtain f where f: "dk_files sample_stored = [f]" "if_path f = Some ''/u/a.csv''" "if_sha f = ''ab''" "if_id f = 9" "if_integrity f = None"
    by (simp add: sample_stored_def)
  define d2 where "d2 = snd (raise_alerts [tamper_draft f TAMPERED (Some ''cd'')] 5
    (set_file 9 (\<lambda>f. f\<lparr>if_integrity := Some TAMPERED, if_checked := Some 5\<rparr>) sample_stored))"
  have w: "dk_world d2 = dk_world empty_desk"
    by (simp add: d2_def raise_alerts_def set_file_def sample_stored_def case_prod_beta)
  have l: "logged sample_sha (w_db (dk_world d2))" "next_id (w_db (dk_world d2)) < 999"
    by (simp_all add: w empty_desk_def empty_db_def logged_def)
  obtain d' where "desk_audit sample_sha ingestion_chain ''USER'' ''ann'' FILE_VERIFY (JObj [(''ingestion_file_id'', id_json 9)])
      ''stored file re-hashed against the SHA-256 taken at ingestion'' 5
      (JObj [(''integrity_status'', JNull)])
      (JObj [(''integrity_status'', JStr ''TAMPERED''), (''expected_sha256'', JStr ''ab'')]) d2 = Inr d'"
    using sample_desk_audit[OF l, of "JObj [(''ingestion_file_id'', id_json 9)]" "JObj [(''integrity_status'', JNull)]"
      "JObj [(''integrity_status'', JStr ''TAMPERED''), (''expected_sha256'', JStr ''ab'')]"] by (fastforce simp: id_json_def)
  then have v: "verify_file sample_sha (\<lambda>_. Some ''cd'') ''ann'' 5 f sample_stored = Inr (TAMPERED, d')"
    by (simp add: verify_file_def f d2_def integrity_text_def str_or_null_def starts_with_def)
  have ok: "desk_ok sample_stored" using empty_desk_ok by (simp add: desk_ok_def sample_stored_def empty_desk_def)
  from verification_finds_tampering[OF v ok] show ?thesis using f(1) v by (auto simp: image_iff)
qed

end
