(* ===== verification/ConfigStore.thy ===== *)
theory ConfigStore
  imports Anomaly CsvFile Normalise
begin

text \<open>
  The bank configurations: their validation (\<open>config/models.py\<close>, \<open>config/loader.py\<close>), the
  registry that follows the directory (\<open>config/registry.py\<close>), the table of what was live
  (\<open>config/store.py\<close>, \<open>persistence/models/config_store.py\<close>) and the tool that checks a
  candidate (\<open>config/validation.py\<close>). YAML and the JSON schema are third party: \<open>rd_reads\<close>
  gives the typed fields of a text the schema accepts, None for a text that is refused (no
  YAML, no mapping, against the schema), and an error where reading raises anything else.
\<close>

section \<open>Validation\<close>

definition clock_text :: "string \<Rightarrow> bool" where
  "clock_text s =
     (case s of
        [a, b, c, d, e] \<Rightarrow>
          (a \<in> set ''01'' \<and> is_digit b \<or> a = CHR ''2'' \<and> b \<in> set ''0123'') \<and> c = CHR '':''
          \<and> d \<in> set ''012345'' \<and> is_digit e
      | _ \<Rightarrow> False)"

definition csv_section_ok :: "csv_config \<Rightarrow> bool" where
  "csv_section_ok c = list_all (\<lambda>f. f \<in> fst ` set (cv_mapping c)) [''reference'', ''txn_date'', ''amount'', ''direction'']"

definition fee_ok :: "fee_schedule \<Rightarrow> bool" where
  "fee_ok f = (0 \<le> fs_fixed f \<and> 0 \<le> fs_percent f \<and> 0 \<le> fs_tolerance f)"

definition bank_config_ok :: "(string \<Rightarrow> bool) \<Rightarrow> bank_config \<Rightarrow> bool" where
  "bank_config_ok zones b =
     ((case bk_csv b of None \<Rightarrow> True | Some c \<Rightarrow> csv_section_ok c)
      \<and> (case bk_date_offset b of None \<Rightarrow> True | Some n \<Rightarrow> 0 \<le> n)
      \<and> 0 \<le> bk_amount_tolerance b \<and> 0 < bk_fx_tolerance b
      \<and> (case bk_fee b of None \<Rightarrow> True | Some f \<Rightarrow> fee_ok f)
      \<and> zones (bk_timezone b)
      \<and> (case bk_expected_time b of None \<Rightarrow> True | Some t \<Rightarrow> clock_text t))"

definition validate_bank :: "(string \<Rightarrow> bool) \<Rightarrow> bank_config \<Rightarrow> bank_config res" where
  "validate_bank zones b =
     (if bank_config_ok zones b then Inr (b\<lparr>bk_currency := to_upper (bk_currency b)\<rparr>) else Inl ConfigError)"

text \<open>What reading a configuration depends on: the YAML and schema layer, the known zones.
  The layer refuses a text (None, a \<open>YAMLError\<close> or a schema error that the loader turns into
  its own error), or raises what the loader does not catch: \<open>yaml.safe_load\<close> a plain
  \<open>ValueError\<close> for a date like 2026-02-30, \<open>_load_schema\<close> whatever a missing or broken schema
  file gives.\<close>

record config_reader =
  rd_reads :: "string \<Rightarrow> bank_config option res"
  rd_zones :: "string \<Rightarrow> bool"

definition parse_bank_config :: "config_reader \<Rightarrow> string \<Rightarrow> bank_config res" where
  "parse_bank_config rd t =
     bind_res (rd_reads rd t) (\<lambda>found.
       case found of None \<Rightarrow> Inl ConfigError | Some b \<Rightarrow> validate_bank (rd_zones rd) b)"

section \<open>The directory\<close>

text \<open>A file as \<open>stat\<close> and \<open>read_bytes\<close> see it: None where the call raises \<open>OSError\<close>; the
  text is None where the bytes are no UTF-8.\<close>

record config_file =
  cf_name :: string
  cf_stat :: "(int \<times> int) option"
  cf_text :: "string option option"
  cf_sha :: string

definition yaml_files :: "config_file list \<Rightarrow> config_file list" where
  "yaml_files dir =
     filter (\<lambda>f. take 1 (cf_name f) \<noteq> ''_'')
       (sort_key cf_name (filter (\<lambda>f. take 5 (rev (cf_name f)) = rev ''.yaml'') dir))"

type_synonym signature = "(string \<times> int \<times> int) list"

definition file_signature :: "config_file \<Rightarrow> (string \<times> int \<times> int) res" where
  "file_signature f = (case cf_stat f of None \<Rightarrow> Inl OSErr | Some (m, s) \<Rightarrow> Inr (cf_name f, m, s))"

definition signature_of :: "config_file list \<Rightarrow> signature res" where
  "signature_of dir = res_map file_signature (yaml_files dir)"

record loaded_config =
  lc_config :: bank_config
  lc_path :: string
  lc_sha :: string

definition load_file :: "config_reader \<Rightarrow> config_file \<Rightarrow> (string \<times> loaded_config) list \<Rightarrow> (string \<times> loaded_config) list res" where
  "load_file rd f loaded =
     (case cf_text f of
        None \<Rightarrow> Inl OSErr
      | Some None \<Rightarrow> Inl UnicodeDecodeErr
      | Some (Some t) \<Rightarrow>
          bind_res (parse_bank_config rd t) (\<lambda>b.
            if bk_code b \<in> fst ` set loaded then Inl DuplicateBankCodeError
            else Inr (loaded @ [(bk_code b, \<lparr>lc_config = b, lc_path = cf_name f, lc_sha = cf_sha f\<rparr>)])))"

definition load_directory :: "config_reader \<Rightarrow> config_file list \<Rightarrow> (string \<times> loaded_config) list res" where
  "load_directory rd dir = loop_res (load_file rd) (yaml_files dir) []"

section \<open>The registry\<close>

record bank_registry =
  rg_interval :: rat
  rg_loaded :: "(string \<times> loaded_config) list"
  rg_signature :: signature
  rg_checked :: rat
  rg_loaded_at :: instant
  rg_error :: "error option"

text \<open>The constructor loads the directory first and takes its signature afterwards: two
  looks at a directory that may change in between.\<close>

definition new_registry :: "config_reader \<Rightarrow> rat \<Rightarrow> config_file list \<Rightarrow> config_file list \<Rightarrow> rat \<Rightarrow> instant \<Rightarrow> bank_registry res" where
  "new_registry rd interval first second tick now =
     bind_res (load_directory rd first) (\<lambda>loaded.
     bind_res (signature_of second) (\<lambda>s.
       Inr \<lparr>rg_interval = interval, rg_loaded = loaded, rg_signature = s, rg_checked = tick, rg_loaded_at = now,
            rg_error = None\<rparr>))"

record reload_result =
  rl_changed :: bool
  rl_added :: "string list"
  rl_updated :: "string list"
  rl_removed :: "string list"
  rl_error :: "error option"

definition no_reload :: reload_result where
  "no_reload = \<lparr>rl_changed = False, rl_added = [], rl_updated = [], rl_removed = [], rl_error = None\<rparr>"

definition caught_on_reload :: "error \<Rightarrow> bool" where
  "caught_on_reload e = (e \<in> {ConfigError, DuplicateBankCodeError, OSErr, UnicodeDecodeErr})"

definition codes_sorted :: "string set \<Rightarrow> string list" where
  "codes_sorted cs = sorted_list_of_set cs"

text \<open>The first look is the signature, the second the load, the third the signature
  remembered after a failure.\<close>

definition reload_locked ::
    "config_reader \<Rightarrow> bool \<Rightarrow> rat \<Rightarrow> instant \<Rightarrow> config_file list \<Rightarrow> config_file list \<Rightarrow> config_file list
     \<Rightarrow> bank_registry \<Rightarrow> reload_result res \<times> bank_registry" where
  "reload_locked rd force tick now first second third rg =
     (let rg = rg\<lparr>rg_checked := tick\<rparr> in
      case bind_res (signature_of first) (\<lambda>s.
             if \<not> force \<and> s = rg_signature rg then Inr (s, None)
             else bind_res (load_directory rd second) (\<lambda>fresh. Inr (s, Some fresh))) of
        Inl e \<Rightarrow>
          if caught_on_reload e
          then (Inr (no_reload\<lparr>rl_error := Some e\<rparr>),
                rg\<lparr>rg_error := Some e,
                   rg_signature := (case signature_of third of Inl _ \<Rightarrow> rg_signature rg | Inr s \<Rightarrow> s)\<rparr>)
          else (Inl e, rg)
      | Inr (s, None) \<Rightarrow> (Inr no_reload, rg)
      | Inr (s, Some fresh) \<Rightarrow>
          let old = rg_loaded rg; fs = set (map fst fresh); os = set (map fst old);
              added = codes_sorted (fs - os); removed = codes_sorted (os - fs);
              updated = codes_sorted {c \<in> fs \<inter> os. map_option lc_sha (map_of fresh c) \<noteq> map_option lc_sha (map_of old c)}
          in (Inr \<lparr>rl_changed = (added \<noteq> [] \<or> updated \<noteq> [] \<or> removed \<noteq> []), rl_added = added, rl_updated = updated,
                   rl_removed = removed, rl_error = None\<rparr>,
              rg\<lparr>rg_loaded := fresh, rg_signature := s, rg_loaded_at := now, rg_error := None\<rparr>))"

text \<open>The clock is read before the lock, under it, and at the reload.\<close>

definition maybe_reload ::
    "config_reader \<Rightarrow> rat \<Rightarrow> rat \<Rightarrow> rat \<Rightarrow> instant \<Rightarrow> config_file list \<Rightarrow> config_file list \<Rightarrow> config_file list
     \<Rightarrow> bank_registry \<Rightarrow> unit res \<times> bank_registry" where
  "maybe_reload rd t1 t2 t3 now first second third rg =
     (if t1 - rg_checked rg < rg_interval rg then (Inr (), rg)
      else if t2 - rg_checked rg < rg_interval rg then (Inr (), rg)
      else case reload_locked rd False t3 now first second third rg of
             (Inl e, rg') \<Rightarrow> (Inl e, rg')
           | (Inr _, rg') \<Rightarrow> (Inr (), rg'))"

definition current_configs :: "bank_registry \<Rightarrow> (string \<times> bank_config) list" where
  "current_configs rg = map (\<lambda>(bank, item). (bank, lc_config item)) (rg_loaded rg)"

section \<open>The table of live configurations\<close>

record config_row =
  cr_id :: nat
  cr_bank :: string
  cr_version :: string
  cr_sha :: string
  cr_config :: bank_config
  cr_source :: string
  cr_active :: bool
  cr_by :: string
  cr_at :: instant

record config_change =
  cc_bank :: string
  cc_kind :: string
  cc_from :: "string option"
  cc_to :: string
  cc_sha :: string

definition config_chain :: string where "config_chain = ''config''"

definition set_config :: "(config_row \<Rightarrow> bool) \<Rightarrow> (config_row \<Rightarrow> config_row) \<Rightarrow> config_row list \<Rightarrow> config_row list" where
  "set_config p f rows = map (\<lambda>r. if p r then f r else r) rows"

text \<open>The columns' widths.\<close>

definition config_fits :: "string \<Rightarrow> loaded_config \<Rightarrow> string \<Rightarrow> bool" where
  "config_fits bank item by =
     (length bank \<le> 20 \<and> length (bk_version (lc_config item)) \<le> 50 \<and> length (lc_sha item) \<le> 64 \<and> length by \<le> 100)"

text \<open>The rows of one bank after its turn: kind of the change and the table, or None when
  the live configuration is the active one already.\<close>

definition put_config ::
    "string \<Rightarrow> instant \<Rightarrow> string \<Rightarrow> loaded_config \<Rightarrow> config_row list \<Rightarrow> ((string \<times> string option) \<times> config_row list) option res" where
  "put_config by now bank item rows =
     (let active = find (\<lambda>r. cr_bank r = bank \<and> cr_active r) rows in
      if (case active of None \<Rightarrow> False | Some a \<Rightarrow> cr_sha a = lc_sha item) then Inr None
      else
        let rows1 = (case active of None \<Rightarrow> rows | Some a \<Rightarrow> set_config (\<lambda>r. cr_id r = cr_id a) (\<lambda>r. r\<lparr>cr_active := False\<rparr>) rows)
        in case find (\<lambda>r. cr_bank r = bank \<and> cr_sha r = lc_sha item) rows1 of
             Some old \<Rightarrow>
               if 100 < length by then Inl DataError
               else Inr (Some ((''REACTIVATED'', map_option cr_version active),
                      set_config (\<lambda>r. cr_id r = cr_id old) (\<lambda>r. r\<lparr>cr_active := True, cr_by := by, cr_at := now\<rparr>) rows1))
           | None \<Rightarrow>
               if \<not> config_fits bank item by then Inl DataError
               else Inr (Some ((if active = None then ''ADDED'' else ''UPDATED'', map_option cr_version active),
                      rows1 @ [\<lparr>cr_id = length rows, cr_bank = bank, cr_version = bk_version (lc_config item), cr_sha = lc_sha item,
                                cr_config = lc_config item, cr_source = lc_path item, cr_active = True, cr_by = by, cr_at = now\<rparr>])))"

definition version_json :: "string option \<Rightarrow> json" where
  "version_json v = (case v of None \<Rightarrow> JNull | Some s \<Rightarrow> JStr s)"

definition sync_one ::
    "(string \<Rightarrow> string) \<Rightarrow> string \<Rightarrow> instant \<Rightarrow> string \<times> loaded_config \<Rightarrow> config_change list \<times> config_row list \<times> db
     \<Rightarrow> (config_change list \<times> config_row list \<times> db) res" where
  "sync_one sha by now entry s =
     (case (entry, s) of
        ((bank, item), (changes, rows, db)) \<Rightarrow>
          bind_res (put_config by now bank item rows) (\<lambda>found.
            case found of
              None \<Rightarrow> Inr (changes, rows, db)
            | Some ((kind, was), rows') \<Rightarrow>
                let version = bk_version (lc_config item) in
                bind_res (append_audit sha config_chain (if starts_with ''system:'' by then ''SYSTEM'' else ''USER'') by CONFIG_CHANGE
                    (JObj [(''bank_code'', JStr bank)]) (bank @ '' configuration '' @ to_lower kind) now
                    (JObj [(''config_version'', version_json was)])
                    (JObj [(''config_version'', JStr version), (''content_sha256'', JStr (lc_sha item)), (''change'', JStr kind)]) db)
                  (\<lambda>db'. Inr (changes @ [\<lparr>cc_bank = bank, cc_kind = kind, cc_from = was, cc_to = version, cc_sha = lc_sha item\<rparr>],
                              rows', db'))))"

definition sync_bank_configurations ::
    "(string \<Rightarrow> string) \<Rightarrow> bank_registry \<Rightarrow> string \<Rightarrow> instant \<Rightarrow> config_row list \<Rightarrow> db
     \<Rightarrow> (config_change list \<times> config_row list \<times> db) res" where
  "sync_bank_configurations sha rg by now rows db =
     loop_res (sync_one sha by now) (sort_key fst (rg_loaded rg)) ([], rows, db)"

section \<open>Checking a candidate\<close>

record sample_report =
  sp_header :: "string list"
  sp_change :: format_change
  sp_checked :: nat
  sp_valid :: nat
  sp_errors :: "string list"
  sp_preview :: "fields list"

record validation_report =
  vr_ok :: bool
  vr_errors :: "string list"
  vr_bank :: "string option"
  vr_version :: "string option"
  vr_sample :: "sample_report option"
  vr_warnings :: "string list"

definition row_error_text :: "parsed_row \<Rightarrow> parse_error \<Rightarrow> string" where
  "row_error_text r e =
     strip (''line '' @ int_str (pr_line r) @ '': '' @ parse_code_text (pe_code e) @ CHR '' '' # (case pe_field e of None \<Rightarrow> [] | Some f \<Rightarrow> f)
            @ CHR '' '' # pe_detail e)"

text \<open>\<open>say\<close> is \<open>str\<close> of an exception. The parser raises before its first row or never.\<close>

definition validate_sample :: "(error \<Rightarrow> string) \<Rightarrow> bank_config \<Rightarrow> string \<Rightarrow> nat \<Rightarrow> sample_report res" where
  "validate_sample say b t max_rows =
     bind_res (read_header t b) (\<lambda>header.
       let change = compare_header b header in
       if blocks_ingestion change
       then Inr \<lparr>sp_header = header, sp_change = change, sp_checked = 0, sp_valid = 0, sp_errors = [describe_change change], sp_preview = []\<rparr>
       else case parse_csv b t of
         Inl e \<Rightarrow> if e = CSVParseError
                  then Inr \<lparr>sp_header = header, sp_change = change, sp_checked = 0, sp_valid = 0, sp_errors = [say e], sp_preview = []\<rparr>
                  else Inl e
       | Inr rows \<Rightarrow>
           let parsed = take (max 1 max_rows) rows in
           Inr \<lparr>sp_header = header, sp_change = change, sp_checked = length parsed, sp_valid = length (filter row_valid parsed),
                sp_errors = take 50 (concat (map (\<lambda>r. map (row_error_text r) (pr_errors r)) parsed)),
                sp_preview = map pr_mapped (take 5 parsed)\<rparr>)"

definition validate_candidate ::
    "config_reader \<Rightarrow> (error \<Rightarrow> string) \<Rightarrow> string \<Rightarrow> string option \<Rightarrow> validation_report res" where
  "validate_candidate rd say config_text sample_text =
     (case parse_bank_config rd config_text of
        Inl e \<Rightarrow>
          if e = ConfigError
          then Inr \<lparr>vr_ok = False, vr_errors = [say e], vr_bank = None, vr_version = None, vr_sample = None, vr_warnings = []\<rparr>
          else Inl e
      | Inr b \<Rightarrow>
          let report = (\<lambda>fine sample warnings. \<lparr>vr_ok = fine, vr_errors = [], vr_bank = Some (bk_code b),
                          vr_version = Some (bk_version b), vr_sample = sample, vr_warnings = warnings\<rparr>) in
          case sample_text of
            None \<Rightarrow> Inr (report True None [''no sample file was given; only the configuration itself was checked''])
          | Some t \<Rightarrow>
              if bk_csv b = None
              then Inr (report True None [''this configuration has no CSV section, so the sample was not checked''])
              else bind_res (validate_sample say b t 25) (\<lambda>sample.
                Inr (report (\<not> blocks_ingestion (sp_change sample) \<and> 0 < sp_checked sample \<and> sp_valid sample = sp_checked sample)
                       (Some sample)
                       (if fc_unexpected (sp_change sample) = [] then []
                        else [''the sample has columns the mapping does not use: '' @ join_with '', '' (fc_unexpected (sp_change sample))]))))"

section \<open>The registry keeps a good configuration\<close>

text \<open>What is live was read from files: every bank once, under the bank it declares, validated.\<close>

definition loaded_ok :: "config_reader \<Rightarrow> (string \<times> loaded_config) list \<Rightarrow> bool" where
  "loaded_ok rd loaded =
     (distinct (map fst loaded)
      \<and> list_all (\<lambda>(bank, item). bk_code (lc_config item) = bank
           \<and> (\<exists>b. bank_config_ok (rd_zones rd) b \<and> lc_config item = b\<lparr>bk_currency := to_upper (bk_currency b)\<rparr>)) loaded)"

lemma load_loop_ok:
  "\<lbrakk>loop_res (load_file rd) fs loaded = Inr out; loaded_ok rd loaded\<rbrakk> \<Longrightarrow> loaded_ok rd out"
proof (induction fs arbitrary: loaded)
  case (Cons f fs)
  then obtain l1 where l: "load_file rd f loaded = Inr l1" "loop_res (load_file rd) fs l1 = Inr out" by (auto simp: res_iff)
  obtain t b where t: "parse_bank_config rd t = Inr b" "bk_code b \<notin> fst ` set loaded"
    "l1 = loaded @ [(bk_code b, \<lparr>lc_config = b, lc_path = cf_name f, lc_sha = cf_sha f\<rparr>)]"
    using l(1) by (auto simp: load_file_def res_iff split: option.splits if_splits)
  have "\<exists>b0. bank_config_ok (rd_zones rd) b0 \<and> b = b0\<lparr>bk_currency := to_upper (bk_currency b0)\<rparr>"
    using t(1) by (auto simp: parse_bank_config_def validate_bank_def res_iff split: option.splits if_splits)
  then have "loaded_ok rd l1" using Cons.prems(2) t(2,3) by (auto simp: loaded_ok_def)
  then show ?case using Cons.IH[OF l(2)] by simp
qed simp

lemma load_directory_ok: "load_directory rd dir = Inr loaded \<Longrightarrow> loaded_ok rd loaded"
  unfolding load_directory_def by (rule load_loop_ok) (auto simp: loaded_ok_def)

text \<open>Reload all or nothing.\<close>

lemma reload_cases:
  assumes "reload_locked rd force tick now d1 d2 d3 rg = (r, rg')"
  obtains (same) "r = Inr no_reload" "rg' = rg\<lparr>rg_checked := tick\<rparr>" "\<not> force" "signature_of d1 = Inr (rg_signature rg)"
  | (kept) e where "r = Inr (no_reload\<lparr>rl_error := Some e\<rparr>)" "rg_loaded rg' = rg_loaded rg" "rg_loaded_at rg' = rg_loaded_at rg"
      "rg_error rg' = Some e" "rg_interval rg' = rg_interval rg" "signature_of d1 = Inl e \<or> load_directory rd d2 = Inl e"
  | (fresh) out where "r = Inr out" "load_directory rd d2 = Inr (rg_loaded rg')" "signature_of d1 = Inr (rg_signature rg')"
      "rg_error rg' = None" "rg_interval rg' = rg_interval rg" "rl_error out = None"
  | (raised) e where "r = Inl e" "\<not> caught_on_reload e" "rg' = rg\<lparr>rg_checked := tick\<rparr>"
proof (cases "signature_of d1")
  case (Inl e)
  then show ?thesis using assms by (cases "caught_on_reload e") (auto simp: reload_locked_def Let_def intro: kept raised)
next
  case (Inr s)
  show ?thesis
  proof (cases "\<not> force \<and> s = rg_signature rg")
    case True
    then show ?thesis using assms Inr by (auto simp: reload_locked_def Let_def intro: same)
  next
    case False
    show ?thesis
    proof (cases "load_directory rd d2")
      case (Inl e)
      then show ?thesis using assms Inr False
        by (cases "caught_on_reload e") (auto simp: reload_locked_def Let_def intro: kept raised)
    next
      case (Inr fr)
      then show ?thesis using assms False \<open>signature_of d1 = Inr s\<close>
        by (auto simp: reload_locked_def Let_def intro: fresh)
    qed
  qed
qed

lemma signature_errors: "signature_of dir = Inl e \<Longrightarrow> e = OSErr"
proof -
  have "res_map file_signature fs = Inl e \<Longrightarrow> e = OSErr" for fs
    by (induction fs) (auto simp: file_signature_def split: sum.splits option.splits)
  then show "signature_of dir = Inl e \<Longrightarrow> e = OSErr" by (simp add: signature_of_def)
qed

text \<open>A file of the directory whose reading raises an error that nothing catches.\<close>

definition escapes :: "config_reader \<Rightarrow> config_file list \<Rightarrow> error \<Rightarrow> bool" where
  "escapes rd dir e =
     (\<not> caught_on_reload e \<and> (\<exists>f \<in> set (yaml_files dir). \<exists>t. cf_text f = Some (Some t) \<and> rd_reads rd t = Inl e))"

lemma load_errors: "load_directory rd dir = Inl e \<Longrightarrow> caught_on_reload e \<or> escapes rd dir e"
proof -
  have one: "caught_on_reload e \<or> (\<exists>t. cf_text f = Some (Some t) \<and> rd_reads rd t = Inl e)" if "load_file rd f l = Inl e" for f l
    using that by (auto simp: res_iff load_file_def parse_bank_config_def validate_bank_def caught_on_reload_def
        split: option.splits if_splits)
  have "caught_on_reload e \<or> (\<exists>f \<in> set fs. \<exists>t. cf_text f = Some (Some t) \<and> rd_reads rd t = Inl e)"
    if "loop_res (load_file rd) fs l = Inl e" for fs l
    using that
  proof (induction fs arbitrary: l)
    case (Cons f fs)
    show ?case
    proof (cases "load_file rd f l")
      case (Inl x) then show ?thesis using one[of f l] Cons.prems by auto
    next
      case (Inr l1) then show ?thesis using Cons.IH[of l1] Cons.prems by auto
    qed
  qed simp
  then show "load_directory rd dir = Inl e \<Longrightarrow> caught_on_reload e \<or> escapes rd dir e"
    by (auto simp: load_directory_def escapes_def)
qed

text \<open>C23. Hot swap: however the directory changes while a reload looks at it, what is live
  afterwards is validated, every bank code once. A reload that reports no error found the
  directory as it was or put live exactly what the directory held; one that reports an
  error leaves the configuration that was live, with the error kept for the operator. Only
  an error of the YAML and schema layer that is not caught escapes, from the text of some
  file of the directory, and then nothing but the time of the check has changed.\<close>

theorem registry_keeps_good:
  assumes "reload_locked rd force tick now d1 d2 d3 rg = (r, rg')" "loaded_ok rd (rg_loaded rg)"
  shows "loaded_ok rd (rg_loaded rg')
    \<and> (case r of
         Inr out \<Rightarrow>
           (case rl_error out of
              None \<Rightarrow> rg_loaded rg' = rg_loaded rg \<and> \<not> force \<and> signature_of d1 = Inr (rg_signature rg)
                \<or> load_directory rd d2 = Inr (rg_loaded rg') \<and> signature_of d1 = Inr (rg_signature rg') \<and> rg_error rg' = None
            | Some e \<Rightarrow> rg_loaded rg' = rg_loaded rg \<and> rg_error rg' = Some e
                \<and> (signature_of d1 = Inl e \<or> load_directory rd d2 = Inl e))
       | Inl e \<Rightarrow> escapes rd d2 e \<and> load_directory rd d2 = Inl e \<and> rg' = rg\<lparr>rg_checked := tick\<rparr>)"
  using assms(1)
proof (cases rule: reload_cases)
  case fresh then show ?thesis using load_directory_ok by auto
next
  case (raised e)
  have "e = OSErr \<or> load_directory rd d2 = Inl e"
    using assms(1) raised signature_errors
    by (auto simp: reload_locked_def Let_def res_iff split: sum.splits option.splits if_splits)
  then have "load_directory rd d2 = Inl e" using raised(2) by (auto simp: caught_on_reload_def)
  moreover from this have "escapes rd d2 e" using load_errors raised(2) by blast
  ultimately show ?thesis using raised assms(2) by simp
qed (use assms(2) in \<open>auto simp: no_reload_def\<close>)

text \<open>The module promises that a bad edit can never take reconciliation down and is not read
  again on every request. An edit whose reading raises such an error does both: every
  look after the interval raises it, and the next one reads the file again.\<close>

lemma bad_date_every_request:
  assumes "load_directory rd dir = Inl e" "\<not> caught_on_reload e" "signature_of dir = Inr s" "s \<noteq> rg_signature rg"
    "rg_interval rg \<le> t1 - rg_checked rg" "rg_interval rg \<le> t2 - rg_checked rg"
  shows "maybe_reload rd t1 t2 t3 now dir dir dir rg = (Inl e, rg\<lparr>rg_checked := t3\<rparr>)"
  using assms by (simp add: maybe_reload_def reload_locked_def Let_def)

section \<open>What the registry does not notice\<close>

text \<open>A poll: the three clock readings and the time.\<close>

definition poll :: "config_reader \<Rightarrow> config_file list \<Rightarrow> rat \<times> rat \<times> rat \<times> instant \<Rightarrow> bank_registry \<Rightarrow> bank_registry" where
  "poll rd dir t rg = (case t of (t1, t2, t3, now) \<Rightarrow> snd (maybe_reload rd t1 t2 t3 now dir dir dir rg))"

lemma poll_same:
  assumes "signature_of dir = Inr (rg_signature rg)"
  shows "rg_loaded (fold (poll rd dir) ts rg) = rg_loaded rg"
  using assms
proof (induction ts arbitrary: rg)
  case (Cons t ts)
  obtain t1 t2 t3 now where t: "t = (t1, t2, t3, now)" by (cases t) auto
  have l: "reload_locked rd False t3 now dir dir dir rg = (Inr no_reload, rg\<lparr>rg_checked := t3\<rparr>)"
    using Cons.prems by (simp add: reload_locked_def Let_def)
  have "rg_loaded (poll rd dir t rg) = rg_loaded rg" "rg_signature (poll rd dir t rg) = rg_signature rg"
    by (simp_all add: poll_def t maybe_reload_def l)
  then show ?case using Cons.IH[of "poll rd dir t rg"] Cons.prems by simp
qed simp

text \<open>The constructor loads the directory and takes its signature afterwards: an edit
  between the two is never noticed. As long as the directory stays as edited, no poll
  replaces the configuration loaded before the edit, however long the service runs.\<close>

theorem edit_during_start_missed:
  assumes "new_registry rd interval before after tick now = Inr rg" "load_directory rd before = Inr old"
  shows "rg_loaded (fold (poll rd after) ts rg) = old"
proof -
  have "rg_loaded rg = old" "signature_of after = Inr (rg_signature rg)"
    using assms by (auto simp: new_registry_def res_iff)
  then show ?thesis using poll_same by blast
qed

text \<open>A read that failed once is not tried again either: the signature is remembered and a
  directory that is readable a moment later, with nothing edited, is not loaded.\<close>

lemma failed_read_sticks:
  assumes "reload_locked rd False tick now dir broken dir rg = (Inr out, rg')" "rl_error out = Some e"
    "signature_of dir = Inr s" "s \<noteq> rg_signature rg"
  shows "rg_loaded (fold (poll rd dir) ts rg') = rg_loaded rg"
proof -
  have "rg_loaded rg' = rg_loaded rg" "signature_of dir = Inr (rg_signature rg')"
    using assms by (auto simp: reload_locked_def Let_def no_reload_def split: sum.splits if_splits option.splits)
  then show ?thesis using poll_same by metis
qed

section \<open>The table follows what is live\<close>

definition clash :: "config_row \<Rightarrow> config_row \<Rightarrow> bool" where
  "clash r q = (cr_bank r = cr_bank q \<and> (cr_sha r = cr_sha q \<or> cr_active r \<and> cr_active q))"

definition configs_ok :: "config_row list \<Rightarrow> bool" where
  "configs_ok rows =
     (map cr_id rows = [0..<length rows] \<and> (\<forall>r \<in> set rows. \<forall>q \<in> set rows. clash r q \<longrightarrow> r = q))"

lemma configs_okD: "\<lbrakk>configs_ok rows; r \<in> set rows; q \<in> set rows; clash r q\<rbrakk> \<Longrightarrow> r = q"
  unfolding configs_ok_def by blast

definition live_sha :: "config_row list \<Rightarrow> string \<Rightarrow> string option" where
  "live_sha rows bank = map_option cr_sha (find (\<lambda>r. cr_bank r = bank \<and> cr_active r) rows)"

lemma set_config_simps [simp]:
  "(\<And>r. cr_id (f r) = cr_id r) \<Longrightarrow> map cr_id (set_config p f rows) = map cr_id rows"
  "length (set_config p f rows) = length rows"
  by (simp_all add: set_config_def comp_def if_distrib cong: if_cong)

lemma set_config_set: "set (set_config p f rows) = (\<lambda>r. if p r then f r else r) ` set rows"
  by (simp add: set_config_def)

lemma configs_one: "\<lbrakk>configs_ok rows; r \<in> set rows; q \<in> set rows; cr_id r = cr_id q\<rbrakk> \<Longrightarrow> r = q"
  using distinct_map_inj[of cr_id rows r q] by (simp add: configs_ok_def)

lemma live_sha_iff:
  assumes "configs_ok rows"
  shows "live_sha rows bank = Some h \<longleftrightarrow> (\<exists>r \<in> set rows. cr_bank r = bank \<and> cr_active r \<and> cr_sha r = h)"
proof (cases "find (\<lambda>r. cr_bank r = bank \<and> cr_active r) rows")
  case None
  then have "\<not> (\<exists>r \<in> set rows. cr_bank r = bank \<and> cr_active r)" by (auto simp: find_None_iff)
  then show ?thesis using None by (auto simp: live_sha_def)
next
  case (Some a)
  then have a: "a \<in> set rows" "cr_bank a = bank" "cr_active a" by (auto simp: find_Some_iff)
  have "r = a" if "r \<in> set rows" "cr_bank r = bank" "cr_active r" for r
    using configs_okD[OF assms that(1) a(1)] a that by (simp add: clash_def)
  then have "(\<exists>r \<in> set rows. cr_bank r = bank \<and> cr_active r \<and> cr_sha r = h) \<longleftrightarrow> cr_sha a = h" using a by blast
  then show ?thesis by (simp add: live_sha_def Some)
qed

text \<open>Switching one row off, a row on, and adding a row.\<close>

lemma configs_ok_change:
  assumes "configs_ok rows" "\<And>r. cr_id (f r) = cr_id r"
    "\<And>r q. \<lbrakk>r \<in> set rows; q \<in> set rows; clash (if p r then f r else r) (if p q then f q else q)\<rbrakk> \<Longrightarrow> r = q"
  shows "configs_ok (set_config p f rows)"
proof -
  have "\<forall>r \<in> set rows. \<forall>q \<in> set rows. clash (if p r then f r else r) (if p q then f q else q)
      \<longrightarrow> (if p r then f r else r) = (if p q then f q else q)"
    using assms(3) by blast
  moreover have "map cr_id (set_config p f rows) = [0..<length (set_config p f rows)]"
    using assms(1,2) by (simp add: configs_ok_def)
  ultimately show ?thesis unfolding configs_ok_def set_config_set ball_simps by blast
qed

lemma configs_ok_off:
  assumes "configs_ok rows"
  shows "configs_ok (set_config p (\<lambda>r. r\<lparr>cr_active := False\<rparr>) rows)"
proof (rule configs_ok_change[OF assms])
  fix r q assume "r \<in> set rows" "q \<in> set rows"
    "clash (if p r then r\<lparr>cr_active := False\<rparr> else r) (if p q then q\<lparr>cr_active := False\<rparr> else q)"
  moreover from this(3) have "clash r q" by (auto simp: clash_def split: if_splits)
  ultimately show "r = q" using configs_okD[OF assms] by blast
qed simp

lemma configs_ok_on:
  assumes "configs_ok rows" "a \<in> set rows" "\<And>r. r \<in> set rows \<Longrightarrow> cr_bank r = cr_bank a \<Longrightarrow> \<not> cr_active r"
  shows "configs_ok (set_config (\<lambda>r. cr_id r = cr_id a) (\<lambda>r. r\<lparr>cr_active := True, cr_by := by, cr_at := now\<rparr>) rows)"
    (is "configs_ok (set_config ?p ?f rows)")
proof (rule configs_ok_change[OF assms(1)])
  fix r q assume m: "r \<in> set rows" "q \<in> set rows" and c: "clash (if ?p r then ?f r else r) (if ?p q then ?f q else q)"
  have "?p x \<longleftrightarrow> x = a" if "x \<in> set rows" for x using configs_one[OF assms(1) that assms(2)] by auto
  then have "r = q \<or> clash r q" using assms(3) m c by (auto simp: clash_def split: if_splits)
  then show "r = q" using configs_okD[OF assms(1) m] by blast
qed simp

lemma configs_ok_add:
  assumes "configs_ok rows" "cr_id a = length rows"
    "\<And>r. r \<in> set rows \<Longrightarrow> cr_bank r = cr_bank a \<Longrightarrow> \<not> cr_active r \<and> cr_sha r \<noteq> cr_sha a"
  shows "configs_ok (rows @ [a])"
proof -
  have n: "\<not> clash r a" "\<not> clash a r" if "r \<in> set rows" for r using assms(3)[OF that] by (auto simp: clash_def)
  have "\<forall>r \<in> set rows. \<forall>q \<in> set rows. clash r q \<longrightarrow> r = q" using assms(1) by (simp add: configs_ok_def)
  then have "\<forall>r \<in> set (rows @ [a]). \<forall>q \<in> set (rows @ [a]). clash r q \<longrightarrow> r = q" using n by simp
  moreover have "map cr_id (rows @ [a]) = [0..<length (rows @ [a])]" using assms(1,2) by (simp add: configs_ok_def)
  ultimately show ?thesis unfolding configs_ok_def by blast
qed

text \<open>One bank's turn.\<close>

definition others :: "string \<Rightarrow> config_row list \<Rightarrow> config_row list" where
  "others bank rows = filter (\<lambda>r. cr_bank r \<noteq> bank) rows"

lemma others_set_config:
  assumes "configs_ok rows" "a \<in> set rows" "cr_bank a = bank" "\<And>r. cr_bank (f r) = cr_bank r"
  shows "others bank (set_config (\<lambda>r. cr_id r = cr_id a) f rows) = others bank rows"
proof -
  have "cr_id r = cr_id a \<Longrightarrow> r \<in> set rows \<Longrightarrow> cr_bank r = bank" for r
    using configs_one[OF assms(1) _ assms(2)] assms(3) by blast
  then have "filter (\<lambda>r. cr_bank r \<noteq> bank) (map (\<lambda>r. if cr_id r = cr_id a then f r else r) rs) = filter (\<lambda>r. cr_bank r \<noteq> bank) rs"
    if "set rs \<subseteq> set rows" for rs
    using that assms(4) by (induction rs) auto
  then show ?thesis by (simp add: others_def set_config_def)
qed

lemma put_config_in_step:
  assumes "put_config by now bank item rows = Inr found" "configs_ok rows"
  shows "case found of
      None \<Rightarrow> live_sha rows bank = Some (lc_sha item)
    | Some (k, rows') \<Rightarrow> configs_ok rows' \<and> live_sha rows' bank = Some (lc_sha item) \<and> others bank rows' = others bank rows"
proof -
  define active where "active = find (\<lambda>r. cr_bank r = bank \<and> cr_active r) rows"
  define rows1 where "rows1 = (case active of None \<Rightarrow> rows
    | Some a \<Rightarrow> set_config (\<lambda>r. cr_id r = cr_id a) (\<lambda>r. r\<lparr>cr_active := False\<rparr>) rows)"
  have live: "live_sha rows bank = map_option cr_sha active" by (simp add: live_sha_def active_def)
  have a: "a \<in> set rows" "cr_bank a = bank" if "active = Some a" for a
    using that by (auto simp: active_def find_Some_iff)
  have off: "configs_ok rows1 \<and> others bank rows1 = others bank rows"
    using assms(2) configs_ok_off others_set_config[OF assms(2) a] by (auto simp: rows1_def split: option.splits)
  have none: "\<not> cr_active r" if "r \<in> set rows1" "cr_bank r = bank" for r
  proof (cases active)
    case None
    then have "rows1 = rows" by (simp add: rows1_def)
    moreover have "\<not> (\<exists>r \<in> set rows. cr_bank r = bank \<and> cr_active r)" using None by (auto simp: active_def find_None_iff)
    ultimately show ?thesis using that by blast
  next
    case (Some b)
    have "cr_id q = cr_id b" if "q \<in> set rows" "cr_bank q = bank" "cr_active q" for q
      using configs_okD[OF assms(2) that(1) a(1)[OF Some]] that a(2)[OF Some] Some
      by (auto simp: clash_def active_def find_Some_iff)
    then show ?thesis using that by (auto simp: rows1_def Some set_config_set split: if_splits)
  qed
  have len: "length rows1 = length rows" by (simp add: rows1_def split: option.splits)
  show ?thesis
  proof (cases found)
    case None
    then show ?thesis using assms(1) live
      by (auto simp: put_config_def Let_def active_def[symmetric] split: option.splits if_splits)
  next
    case (Some x)
    obtain k rows' where x: "x = (k, rows')" by (cases x)
    show ?thesis
    proof (cases "find (\<lambda>r. cr_bank r = bank \<and> cr_sha r = lc_sha item) rows1")
      case None
      then have new: "r \<in> set rows1 \<Longrightarrow> cr_bank r = bank \<Longrightarrow> cr_sha r \<noteq> lc_sha item" for r by (auto simp: find_None_iff)
      obtain a where a: "rows' = rows1 @ [a]" "cr_id a = length rows1" "cr_bank a = bank" "cr_sha a = lc_sha item" "cr_active a"
        using assms(1) len None
        by (auto simp: put_config_def Let_def active_def[symmetric] rows1_def[symmetric] Some x split: if_splits)
      have "configs_ok rows'" unfolding a(1) using configs_ok_add[of rows1 a] off none new a by simp
      moreover have "others bank rows' = others bank rows" using off by (simp add: others_def a)
      ultimately show ?thesis using a by (auto simp: Some x live_sha_iff)
    next
      case (Some old)
      then have o: "old \<in> set rows1" "cr_bank old = bank" "cr_sha old = lc_sha item" by (auto simp: find_Some_iff)
      have rows': "rows' = set_config (\<lambda>r. cr_id r = cr_id old) (\<lambda>r. r\<lparr>cr_active := True, cr_by := by, cr_at := now\<rparr>) rows1"
        using assms(1) Some \<open>found = Some x\<close> x
        by (auto simp: put_config_def Let_def active_def[symmetric] rows1_def[symmetric] split: if_splits)
      have "configs_ok rows'" unfolding rows' using configs_ok_on off o none by simp
      moreover have "others bank rows' = others bank rows"
        unfolding rows' using others_set_config[OF _ o(1,2)] off by simp
      moreover have "live_sha rows' bank = Some (lc_sha item)"
        unfolding live_sha_iff[OF calculation(1)] unfolding rows' set_config_set using o
          by (intro bexI[OF _ imageI[OF o(1)]]) simp
      ultimately show ?thesis using \<open>found = Some x\<close> x by simp
    qed
  qed
qed

lemma live_sha_others: "others bank rows' = others bank rows \<Longrightarrow> b \<noteq> bank \<Longrightarrow> live_sha rows' b = live_sha rows b"
proof -
  have "find (\<lambda>r. cr_bank r = b \<and> cr_active r) (others bank rs) = find (\<lambda>r. cr_bank r = b \<and> cr_active r) rs"
    if "b \<noteq> bank" for rs using that by (induction rs) (auto simp: others_def)
  then show "others bank rows' = others bank rows \<Longrightarrow> b \<noteq> bank \<Longrightarrow> live_sha rows' b = live_sha rows b"
    by (metis live_sha_def)
qed

text \<open>The loop over the live configurations.\<close>

lemma sync_loop:
  assumes "loop_res (sync_one sha by now) items (changes, rows, db) = Inr (changes', rows', db')"
    "configs_ok rows" "distinct (map fst items)"
  shows "configs_ok rows' \<and> list_all (\<lambda>(bank, item). live_sha rows' bank = Some (lc_sha item)) items
    \<and> filter (\<lambda>r. cr_bank r \<notin> fst ` set items) rows' = filter (\<lambda>r. cr_bank r \<notin> fst ` set items) rows
    \<and> (\<forall>b. b \<notin> fst ` set items \<longrightarrow> live_sha rows' b = live_sha rows b)
    \<and> ledger_step\<^sup>*\<^sup>* db db'
    \<and> (\<exists>new. audit_log db' = audit_log db @ new \<and> length changes' = length changes + length new
          \<and> list_all (\<lambda>a. chain_id a = config_chain \<and> action_type a = ''CONFIG_CHANGE'') new)"
  using assms
proof (induction items arbitrary: changes rows db)
  case (Cons e items)
  obtain bank item where e: "e = (bank, item)" by (cases e)
  obtain ch1 rows1 db1 where s: "sync_one sha by now e (changes, rows, db) = Inr (ch1, rows1, db1)"
    "loop_res (sync_one sha by now) items (ch1, rows1, db1) = Inr (changes', rows', db')"
    using Cons.prems(1) by (auto simp: res_iff)
  obtain found where f: "put_config by now bank item rows = Inr found" using s(1) by (auto simp: sync_one_def e res_iff)
  have one: "configs_ok rows1 \<and> live_sha rows1 bank = Some (lc_sha item) \<and> others bank rows1 = others bank rows
    \<and> ledger_step\<^sup>*\<^sup>* db db1
    \<and> (\<exists>new. audit_log db1 = audit_log db @ new \<and> length ch1 = length changes + length new
          \<and> list_all (\<lambda>a. chain_id a = config_chain \<and> action_type a = ''CONFIG_CHANGE'') new)"
  proof (cases found)
    case None
    then show ?thesis using s(1) put_config_in_step[OF f Cons.prems(2)] Cons.prems(2) by (simp add: sync_one_def e f)
  next
    case (Some x)
    obtain kind was rows2 where x: "x = ((kind, was), rows2)" by (cases x) auto
    obtain aff why bef aft where a: "append_audit sha config_chain (if starts_with ''system:'' by then ''SYSTEM'' else ''USER'') by CONFIG_CHANGE
        aff why now bef aft db = Inr db1" "rows1 = rows2" "length ch1 = length changes + 1"
      using s(1) by (auto simp: sync_one_def e f Some x Let_def res_iff)
    obtain row where "db1 = db\<lparr>audit_log := audit_log db @ [row], next_id := next_id db + 1\<rparr>" "chain_id row = config_chain"
      "action_type row = action_text CONFIG_CHANGE"
      using append_audit_shape[OF a(1)] by blast
    then show ?thesis using put_config_in_step[OF f Cons.prems(2)] a(2,3) ledger_step.entry[OF a(1)]
      by (simp add: Some x action_text_def)
  qed
  have d: "distinct (map fst items)" "bank \<notin> fst ` set items" using Cons.prems(3) by (auto simp: e)
  note ih = Cons.IH[OF s(2) conjunct1[OF one] d(1)]
  have fl: "filter (\<lambda>r. cr_bank r \<notin> fst ` set (e # items)) rs
      = filter (\<lambda>r. cr_bank r \<notin> fst ` set items) (others bank rs)" for rs
    by (induction rs) (auto simp: others_def e)
  have fl2: "filter (\<lambda>r. cr_bank r \<notin> fst ` set items) (others bank rs)
      = others bank (filter (\<lambda>r. cr_bank r \<notin> fst ` set items) rs)" for rs
    by (induction rs) (auto simp: others_def)
  have "filter (\<lambda>r. cr_bank r \<notin> fst ` set (e # items)) rows' = filter (\<lambda>r. cr_bank r \<notin> fst ` set (e # items)) rows"
    unfolding fl fl2 using ih one by (simp flip: fl2)
  moreover have "list_all (\<lambda>(bank, item). live_sha rows' bank = Some (lc_sha item)) (e # items)"
    using ih one d(2) by (simp add: e)
  moreover have "\<forall>b. b \<notin> fst ` set (e # items) \<longrightarrow> live_sha rows' b = live_sha rows b"
    using ih one live_sha_others[of bank rows1 rows] by (simp add: e)
  moreover have "ledger_step\<^sup>*\<^sup>* db db'" using ih one by (meson rtranclp_trans)
  moreover obtain new1 new2 where "audit_log db1 = audit_log db @ new1" "length ch1 = length changes + length new1"
      "list_all (\<lambda>a. chain_id a = config_chain \<and> action_type a = ''CONFIG_CHANGE'') new1"
      "audit_log db' = audit_log db1 @ new2" "length changes' = length ch1 + length new2"
      "list_all (\<lambda>a. chain_id a = config_chain \<and> action_type a = ''CONFIG_CHANGE'') new2"
    using ih one by blast
  ultimately show ?case using ih by (intro conjI exI[of _ "new1 @ new2"]) simp_all
qed simp

lemma sync_nothing:
  assumes "list_all (\<lambda>(bank, item). live_sha rows bank = Some (lc_sha item)) items"
  shows "loop_res (sync_one sha by now) items (changes, rows, db) = Inr (changes, rows, db)"
  using assms
proof (induction items)
  case (Cons e items)
  obtain bank item where e: "e = (bank, item)" by (cases e)
  have "put_config by now bank item rows = Inr None"
    using Cons.prems by (auto simp: e put_config_def live_sha_def)
  then show ?case using Cons by (simp add: sync_one_def e)
qed simp

text \<open>\<open>sync_bank_configurations\<close> brings the table in step with what is live: of every
  live bank exactly the row with the live digest is active, the rows of other banks are
  untouched, a bank never has two active rows nor two rows of one digest, every change
  is an entry on the configuration chain, and a second call changes nothing at all.\<close>

theorem config_table_in_step:
  assumes "sync_bank_configurations sha rg by now rows db = Inr (changes, rows', db')" "configs_ok rows"
    "distinct (map fst (rg_loaded rg))"
  shows "configs_ok rows'
    \<and> list_all (\<lambda>(bank, item). live_sha rows' bank = Some (lc_sha item)) (rg_loaded rg)
    \<and> filter (\<lambda>r. cr_bank r \<notin> fst ` set (rg_loaded rg)) rows' = filter (\<lambda>r. cr_bank r \<notin> fst ` set (rg_loaded rg)) rows
    \<and> (\<exists>new. audit_log db' = audit_log db @ new \<and> length new = length changes
          \<and> list_all (\<lambda>a. chain_id a = config_chain \<and> action_type a = ''CONFIG_CHANGE'') new)
    \<and> sync_bank_configurations sha rg by' later_now rows' db'' = Inr ([], rows', db'')"
proof -
  have "mset (map fst (sort_key fst (rg_loaded rg))) = mset (map fst (rg_loaded rg))" by simp
  then have d: "distinct (map fst (sort_key fst (rg_loaded rg)))" using assms(3) mset_eq_imp_distinct_iff by blast
  note s = sync_loop[OF assms(1)[unfolded sync_bank_configurations_def] assms(2) d, simplified]
  then have l: "list_all (\<lambda>(bank, item). live_sha rows' bank = Some (lc_sha item)) (sort_key fst (rg_loaded rg))"
    by simp
  then have "sync_bank_configurations sha rg by' later_now rows' db'' = Inr ([], rows', db'')"
    unfolding sync_bank_configurations_def by (rule sync_nothing)
  moreover have "list_all (\<lambda>(bank, item). live_sha rows' bank = Some (lc_sha item)) (rg_loaded rg)"
    using l by (simp add: list_all_iff)
  ultimately show ?thesis using s by auto
qed

text \<open>The version has no length limit in the schema and 50 characters in the table: one
  configuration with a longer one makes the synchronisation, and with it every run of
  every bank, raise.\<close>

lemma long_version_refused:
  assumes "50 < length (bk_version (lc_config item))" "\<And>r. r \<in> set rows \<Longrightarrow> cr_bank r = bank \<Longrightarrow> cr_sha r \<noteq> lc_sha item"
  shows "put_config by now bank item rows = Inl DataError"
proof -
  define active where "active = find (\<lambda>r. cr_bank r = bank \<and> cr_active r) rows"
  have a: "cr_sha a \<noteq> lc_sha item" if "active = Some a" for a
    using that assms(2) by (auto simp: active_def find_Some_iff)
  have "find (\<lambda>r. cr_bank r = bank \<and> cr_sha r = lc_sha item) rows = None"
    "find (\<lambda>r. cr_bank r = bank \<and> cr_sha r = lc_sha item) (set_config p (\<lambda>r. r\<lparr>cr_active := False\<rparr>) rows) = None" for p
    using assms(2) by (auto simp: find_None_iff set_config_set)
  then show ?thesis using a assms(1)
    by (cases active) (simp_all add: put_config_def Let_def active_def[symmetric] config_fits_def)
qed

lemma long_version_stops_sync:
  assumes "(bank, item) \<in> set (rg_loaded rg)" "50 < length (bk_version (lc_config item))" "configs_ok rows"
    "\<And>r. r \<in> set rows \<Longrightarrow> cr_bank r = bank \<Longrightarrow> cr_sha r \<noteq> lc_sha item" "distinct (map fst (rg_loaded rg))"
  shows "\<exists>e. sync_bank_configurations sha rg by now rows db = Inl e"
proof -
  obtain pre post where items: "sort_key fst (rg_loaded rg) = pre @ (bank, item) # post"
    using assms(1) by (metis set_sort split_list)
  have "mset (map fst (sort_key fst (rg_loaded rg))) = mset (map fst (rg_loaded rg))" by simp
  then have "distinct (map fst (sort_key fst (rg_loaded rg)))" using assms(5) mset_eq_imp_distinct_iff by blast
  then have d: "distinct (map fst pre)" "bank \<notin> fst ` set pre" by (auto simp: items)
  have "\<exists>e. sync_one sha by now (bank, item) s = Inl e" if l: "loop_res (sync_one sha by now) pre ([], rows, db) = Inr s" for s
  proof -
    obtain changes rows1 db1 where s: "s = (changes, rows1, db1)" by (cases s)
    have "set (filter (\<lambda>r. cr_bank r \<notin> fst ` set pre) rows1) = set (filter (\<lambda>r. cr_bank r \<notin> fst ` set pre) rows)"
      using sync_loop[OF l[unfolded s] assms(3) d(1)] by simp
    then have "{r \<in> set rows1. cr_bank r \<notin> fst ` set pre} = {r \<in> set rows. cr_bank r \<notin> fst ` set pre}" by simp
    then have "r \<in> set rows" if "r \<in> set rows1" "cr_bank r = bank" for r
      using that d(2) by blast
    then have "put_config by now bank item rows1 = Inl DataError" using long_version_refused[OF assms(2)] assms(4) by blast
    then show ?thesis by (simp add: s sync_one_def)
  qed
  then show ?thesis
    unfolding sync_bank_configurations_def items loop_res_append
    by (cases "loop_res (sync_one sha by now) pre ([], rows, db)") (auto simp: bind_res_def)
qed

section \<open>A validated configuration\<close>

lemma clock_text_minutes:
  assumes "clock_text s" shows "\<exists>m. clock_minutes s = Inr m"
proof -
  obtain a b d e where s: "s = [a, b, CHR '':'', d, e]"
    and h: "a \<in> set ''01'' \<and> is_digit b \<or> a = CHR ''2'' \<and> b \<in> set ''0123''" and m: "d \<in> set ''012345''" "is_digit e"
    using assms by (auto simp: clock_text_def split: list.splits)
  have dig: "is_digit c \<Longrightarrow> digit_of c \<le> 9" for c by (auto simp: is_digit_def digit_of_def)
  have two: "digits_val [x, y] = 10 * digit_of x + digit_of y" for x y by (simp add: digits_val_def)
  have "is_digit a \<and> is_digit b \<and> digits_val [a, b] < 24"
    using h dig[of b] by (auto simp: two is_digit_def digit_of_def code_def)
  moreover have "is_digit d \<and> digits_val [d, e] < 60"
    using m dig[of e] by (auto simp: two is_digit_def digit_of_def code_def)
  ultimately show ?thesis using m(2) by (simp add: s clock_minutes_def)
qed

text \<open>A report that says ok for a sample: the configuration is valid and the sample has every
  mapped column and at least one row, and all of its first rows are valid.\<close>

lemma validated_sample:
  assumes "validate_candidate rd say config_text (Some t) = Inr report" "vr_ok report" "vr_sample report = Some sample"
  shows "\<exists>b rows. parse_bank_config rd config_text = Inr b \<and> parse_csv b t = Inr rows \<and> rows \<noteq> [] \<and> list_all row_valid (take 25 rows)"
proof -
  obtain b where b: "parse_bank_config rd config_text = Inr b" "bk_csv b \<noteq> None" "validate_sample say b t 25 = Inr sample"
    "\<not> blocks_ingestion (sp_change sample)" "0 < sp_checked sample" "sp_valid sample = sp_checked sample"
    using assms by (auto simp: validate_candidate_def Let_def res_iff split: sum.splits if_splits)
  obtain rows where r: "parse_csv b t = Inr rows" "sp_checked sample = length (take 25 rows)"
    "sp_valid sample = length (filter row_valid (take 25 rows))"
    using b(3-5) by (cases "parse_csv b t") (auto simp: validate_sample_def Let_def res_iff split: if_splits)
  have "list_all row_valid (take 25 rows)"
    using b(6) r(2,3) by (metis filter_id_conv length_filter_less less_irrefl list_all_iff)
  then show ?thesis using b(1,5) r by auto
qed

section \<open>Witnesses\<close>

definition sample_reader :: config_reader where
  "sample_reader = \<lparr>rd_reads = (\<lambda>t. if t = ''good'' then Inr (Some sample_bank) else if t = ''2026-02-30'' then Inl ValueError else Inr None),
      rd_zones = (\<lambda>_. True)\<rparr>"

definition sample_yaml :: "string \<Rightarrow> int \<Rightarrow> config_file" where
  "sample_yaml t m = \<lparr>cf_name = ''hdfc.yaml'', cf_stat = Some (m, 10), cf_text = Some (Some t), cf_sha = t\<rparr>"

lemma sample_yaml_files: "yaml_files [sample_yaml t m] = [sample_yaml t m]"
  by (simp add: yaml_files_def sample_yaml_def)

lemma sample_signature: "signature_of [sample_yaml t m] = Inr [(''hdfc.yaml'', m, 10)]"
  by (simp add: signature_of_def sample_yaml_files file_signature_def) (simp add: sample_yaml_def)

lemma sample_bank_valid: "validate_bank (\<lambda>_. True) sample_bank = Inr sample_bank"
proof -
  have "bank_config_ok (\<lambda>_. True) sample_bank" by code_simp
  moreover have "to_upper ''INR'' = ''INR''" by code_simp
  ultimately show ?thesis by (simp add: validate_bank_def) (simp add: sample_bank_def)
qed

lemma sample_load:
  "load_directory sample_reader [sample_yaml ''good'' m]
     = Inr [(''HDFC'', \<lparr>lc_config = sample_bank, lc_path = ''hdfc.yaml'', lc_sha = ''good''\<rparr>)]"
  "load_directory sample_reader [sample_yaml ''bad'' m] = Inl ConfigError"
proof -
  have p: "parse_bank_config sample_reader ''good'' = Inr sample_bank" "parse_bank_config sample_reader ''bad'' = Inl ConfigError"
    by (simp_all add: parse_bank_config_def sample_reader_def sample_bank_valid)
  have c: "bk_code sample_bank = ''HDFC''" by (simp add: sample_bank_def)
  show "load_directory sample_reader [sample_yaml ''good'' m]
     = Inr [(''HDFC'', \<lparr>lc_config = sample_bank, lc_path = ''hdfc.yaml'', lc_sha = ''good''\<rparr>)]"
    "load_directory sample_reader [sample_yaml ''bad'' m] = Inl ConfigError"
    by (simp_all add: load_directory_def sample_yaml_files load_file_def) (simp_all add: sample_yaml_def p c)
qed

definition sample_registry :: bank_registry where
  "sample_registry =
     \<lparr>rg_interval = 2, rg_loaded = [(''HDFC'', \<lparr>lc_config = sample_bank, lc_path = ''hdfc.yaml'', lc_sha = ''good''\<rparr>)],
      rg_signature = [(''hdfc.yaml'', 1, 10)], rg_checked = 0, rg_loaded_at = 0, rg_error = None\<rparr>"

theorem registry_keeps_good_witness:
  "\<exists>out rg. reload_locked sample_reader False 3 5 [sample_yaml ''bad'' 2] [sample_yaml ''bad'' 2] [sample_yaml ''bad'' 2] sample_registry
     = (Inr out, rg) \<and> rl_error out = Some ConfigError \<and> rg_error rg = Some ConfigError \<and> rg_loaded rg = rg_loaded sample_registry"
proof -
  let ?d = "[sample_yaml ''bad'' 2]"
  obtain out rg where r: "reload_locked sample_reader False 3 5 ?d ?d ?d sample_registry = (Inr out, rg)" "rl_error out = Some ConfigError"
    by (simp add: reload_locked_def Let_def sample_signature sample_load caught_on_reload_def sample_registry_def)
  have "loaded_ok sample_reader (rg_loaded sample_registry)"
    using load_directory_ok[OF sample_load(1)] by (simp add: sample_registry_def)
  from registry_keeps_good[OF r(1) this] show ?thesis using r by auto
qed

text \<open>The error that escapes, on the same registry.\<close>

lemma bad_date_sample:
  "maybe_reload sample_reader 5 5 5 9 [sample_yaml ''2026-02-30'' 2] [sample_yaml ''2026-02-30'' 2] [sample_yaml ''2026-02-30'' 2]
     sample_registry = (Inl ValueError, sample_registry\<lparr>rg_checked := 5\<rparr>)"
proof (rule bad_date_every_request[where s = "[(''hdfc.yaml'', 2, 10)]"])
  have "parse_bank_config sample_reader ''2026-02-30'' = Inl ValueError"
    by (simp add: parse_bank_config_def sample_reader_def)
  then show "load_directory sample_reader [sample_yaml ''2026-02-30'' 2] = Inl ValueError"
    by (simp add: load_directory_def sample_yaml_files load_file_def) (simp add: sample_yaml_def)
qed (simp_all add: sample_signature sample_registry_def caught_on_reload_def)

theorem edit_during_start_missed_witness:
  "\<exists>rg. new_registry sample_reader 2 [sample_yaml ''good'' 1] [sample_yaml ''bad'' 2] 0 0 = Inr rg
     \<and> rg_loaded (fold (poll sample_reader [sample_yaml ''bad'' 2]) [(5, 5, 5, 1), (9, 9, 9, 2)] rg) = rg_loaded sample_registry"
proof -
  obtain rg where n: "new_registry sample_reader 2 [sample_yaml ''good'' 1] [sample_yaml ''bad'' 2] 0 0 = Inr rg"
    by (simp add: new_registry_def sample_load sample_signature)
  from edit_during_start_missed[OF n sample_load(1), of "[(5, 5, 5, 1), (9, 9, 9, 2)]"] show ?thesis
    using n by (simp add: sample_registry_def)
qed

theorem config_table_in_step_witness:
  "\<exists>changes rows db. sync_bank_configurations sample_sha sample_registry ''ann'' 5 [] empty_db = Inr (changes, rows, db)
     \<and> live_sha rows ''HDFC'' = Some ''good'' \<and> configs_ok rows"
proof -
  have l: "logged sample_sha empty_db" "next_id empty_db < 1000" by (simp_all add: logged_def empty_db_def)
  let ?b = "JObj [(''config_version'', JNull)]"
  let ?a = "JObj [(''config_version'', JStr ''hdfc.v1''), (''content_sha256'', JStr ''good''), (''change'', JStr ''ADDED'')]"
  obtain db where a: "append_audit sample_sha config_chain ''USER'' ''ann'' CONFIG_CHANGE (JObj [(''bank_code'', JStr ''HDFC'')])
      (''HDFC configuration '' @ to_lower ''ADDED'') 5 ?b ?a empty_db = Inr db"
    using sample_audit[OF l, of "JObj [(''bank_code'', JStr ''HDFC'')]" ?b ?a] by fastforce
  have v: "bk_version sample_bank = ''hdfc.v1''" by (simp add: sample_bank_def)
  obtain changes rows where s: "sync_bank_configurations sample_sha sample_registry ''ann'' 5 [] empty_db = Inr (changes, rows, db)"
    using a by (simp add: sync_bank_configurations_def sample_registry_def sync_one_def put_config_def config_fits_def v Let_def
        starts_with_def version_json_def)
  have "configs_ok []" "distinct (map fst (rg_loaded sample_registry))" by (simp_all add: configs_ok_def sample_registry_def)
  from config_table_in_step[OF s this, of "''bob''" 6 empty_db] show ?thesis using s by (simp add: sample_registry_def)
qed

end
