(* ===== verification/Runs.thy ===== *)
theory Runs
  imports Ingestion ConfigStore
begin

text \<open>
  Reconciliation runs (\<open>runs/service.py\<close>, \<open>runs/settings.py\<close>, \<open>persistence/models/runs.py\<close>):
  the table of runs with its constraints, starting, activating and executing a run, and
  the record of every transition on the audit chain. An operation works in the caller's
  transaction: an error returns no state, so nothing of it remains. Clock readings,
  random ids and measured durations are inputs.
\<close>

section \<open>The table of runs\<close>

datatype run_status = PENDING | RUNNING | COMPLETED | FAILED

definition run_status_text :: "run_status \<Rightarrow> string" where
  "run_status_text s =
     (case s of PENDING \<Rightarrow> ''PENDING'' | RUNNING \<Rightarrow> ''RUNNING'' | COMPLETED \<Rightarrow> ''COMPLETED'' | FAILED \<Rightarrow> ''FAILED'')"

record durations =
  du_exact :: rat
  du_fuzzy :: rat
  du_rules :: rat
  du_total :: rat

text \<open>The metrics of a run: the dictionary of \<open>_metrics\<close> and what \<open>execute\<close> adds to it.\<close>

record run_report =
  mt_exact :: nat
  mt_fuzzy :: nat
  mt_pending :: nat
  mt_rule :: nat
  mt_cross :: nat
  mt_cross_out :: nat
  mt_split :: nat
  mt_netted :: nat
  mt_ambiguous :: nat
  mt_too_complex :: nat
  mt_missing_fx :: nat
  mt_externals :: int
  mt_internal_pool :: nat
  mt_external_pool :: nat
  mt_exact_rate :: rat
  mt_matchable_rate :: rat
  mt_overall_rate :: rat
  mt_durations :: durations
  mt_created :: nat
  mt_by_category :: "(category \<times> nat) list"
  mt_resolved :: nat
  mt_escalated :: nat
  mt_queued :: nat
  mt_sla :: nat
  mt_weights :: string
  mt_mode :: string
  mt_from :: "date option"
  mt_to :: "date option"
  mt_config :: "(string \<times> string) option"
  mt_alerts :: raised

record run_row =
  rn_id :: nat
  rn_key :: string
  rn_bank :: string
  rn_status :: run_status
  rn_mode :: string
  rn_from :: "date option"
  rn_to :: "date option"
  rn_by :: string
  rn_created :: instant
  rn_started :: "instant option"
  rn_completed :: "instant option"
  rn_metrics :: "run_report option"
  rn_error :: "string option"

record office =
  of_desk :: desk
  of_runs :: "run_row list"
  of_configs :: "config_row list"
  of_rates :: "fx_rate list"

section \<open>Settings\<close>

record run_settings =
  st_blocking :: blocking_config
  st_tolerance :: int
  st_matching :: matching_config
  st_taxonomy :: taxonomy
  st_stale :: int
  st_banks :: "string \<Rightarrow> bank_config option"
  st_set_based :: bool

definition stale_after_days :: "run_settings \<Rightarrow> string \<Rightarrow> int option" where
  "stale_after_days st bank = map_option bk_window_days (st_banks st bank)"

definition amount_tolerance_for :: "run_settings \<Rightarrow> string \<Rightarrow> int" where
  "amount_tolerance_for st bank =
     (case st_banks st bank of None \<Rightarrow> st_tolerance st | Some b \<Rightarrow> bk_amount_tolerance b)"

definition blocking_for :: "run_settings \<Rightarrow> string \<Rightarrow> blocking_config" where
  "blocking_for st bank =
     (case stale_after_days st bank of
        None \<Rightarrow> st_blocking st
      | Some n \<Rightarrow> (st_blocking st)\<lparr>bl_date_window := max 1 n\<rparr>)"

text \<open>\<open>LiveBankConfigs\<close>: what the registry shows now.\<close>

definition live_banks :: "bank_registry \<Rightarrow> string \<Rightarrow> bank_config option" where
  "live_banks rg = map_of (current_configs rg)"

definition default_settings :: "matching_config \<Rightarrow> taxonomy \<Rightarrow> bank_registry \<Rightarrow> run_settings" where
  "default_settings mc tx rg =
     \<lparr>st_blocking = \<lparr>bl_amount_width = 10000, bl_date_window = 2, bl_reference_prefix = 6, bl_counterparty_prefix = 8,
                      bl_max_candidates = 50\<rparr>,
      st_tolerance = 1, st_matching = mc, st_taxonomy = tx, st_stale = 30 * minute_micros, st_banks = live_banks rg,
      st_set_based = True\<rparr>"

text \<open>The settings with what the run uses of the rest of the process: the anomaly service's
  part, the digest, the currencies, the string measures, \<open>str\<close> of a float, \<open>str\<close> and
  class name of an exception, the calendars, the rationale of a match.\<close>

record services =
  sv_settings :: run_settings
  sv_monitor :: monitor
  sv_sha :: "string \<Rightarrow> string"
  sv_known :: "(string \<times> int) list"
  sv_similarity :: similarity
  sv_text :: "rat \<Rightarrow> string"
  sv_say :: "error \<Rightarrow> string"
  sv_class :: "error \<Rightarrow> string"
  sv_calendars :: "string \<Rightarrow> calendar res"
  sv_why :: "result \<Rightarrow> string"

section \<open>Constraints\<close>

datatype insertion = Stored "run_row list" | Key_taken | Bank_running | Refused error

definition ordered_range :: "date option \<Rightarrow> date option \<Rightarrow> bool" where
  "ordered_range a b = (case (a, b) of (Some x, Some y) \<Rightarrow> x \<le> y | _ \<Rightarrow> True)"

definition bank_busy :: "string \<Rightarrow> run_row list \<Rightarrow> bool" where
  "bank_busy bank runs = list_ex (\<lambda>r. rn_bank r = bank \<and> rn_status r = RUNNING) runs"

definition insert_run :: "run_row \<Rightarrow> run_row list \<Rightarrow> insertion" where
  "insert_run run runs =
     (if 100 < length (rn_key run) \<or> 20 < length (rn_bank run) \<or> 10 < length (rn_mode run) \<or> 100 < length (rn_by run)
      then Refused DataError
      else if rn_mode run \<notin> {''FAST'', ''FULL''} \<or> \<not> ordered_range (rn_from run) (rn_to run) \<or> rn_id run \<in> rn_id ` set runs
      then Refused IntegrityError
      else if rn_key run \<in> rn_key ` set runs then Key_taken
      else if rn_status run = RUNNING \<and> bank_busy (rn_bank run) runs then Bank_running
      else Stored (runs @ [run]))"

definition find_run :: "nat \<Rightarrow> run_row list \<Rightarrow> run_row option" where
  "find_run i runs = find (\<lambda>r. rn_id r = i) runs"

definition set_run :: "nat \<Rightarrow> (run_row \<Rightarrow> run_row) \<Rightarrow> run_row list \<Rightarrow> run_row list" where
  "set_run i f runs = map (\<lambda>r. if rn_id r = i then f r else r) runs"

definition by_key :: "string \<Rightarrow> run_row list \<Rightarrow> run_row option" where
  "by_key key runs = find (\<lambda>r. rn_key r = key) runs"

section \<open>The audit trail of a run\<close>

definition opt_str :: "('a \<Rightarrow> string) \<Rightarrow> 'a option \<Rightarrow> json" where
  "opt_str f x = (case x of None \<Rightarrow> JNull | Some y \<Rightarrow> JStr (f y))"

definition alert_type_text :: "alert_type \<Rightarrow> string" where
  "alert_type_text t =
     (case t of AMOUNT_DEVIATION \<Rightarrow> ''AMOUNT_DEVIATION'' | VELOCITY \<Rightarrow> ''VELOCITY'' | ABSENCE \<Rightarrow> ''ABSENCE''
      | DATA_VOLUME \<Rightarrow> ''DATA_VOLUME'' | SUSPICIOUS_MATCH_RATE \<Rightarrow> ''SUSPICIOUS_MATCH_RATE''
      | HIGH_EXCEPTION_RATE \<Rightarrow> ''HIGH_EXCEPTION_RATE'' | EXCEPTION_BACKLOG \<Rightarrow> ''EXCEPTION_BACKLOG''
      | BALANCE_MISMATCH \<Rightarrow> ''BALANCE_MISMATCH'' | DUPLICATE_SETTLEMENT \<Rightarrow> ''DUPLICATE_SETTLEMENT''
      | FORMAT_CHANGE_DETECTED \<Rightarrow> ''FORMAT_CHANGE_DETECTED'' | FILE_TAMPERED \<Rightarrow> ''FILE_TAMPERED''
      | PAN_EXPOSURE \<Rightarrow> ''PAN_EXPOSURE'' | BALANCE_TXN_DIVERGENCE \<Rightarrow> ''BALANCE_TXN_DIVERGENCE'')"

text \<open>The metrics as the audit trail takes them: every float as its text (\<open>_audit_safe\<close>).\<close>

definition metrics_json :: "(rat \<Rightarrow> string) \<Rightarrow> run_report \<Rightarrow> json" where
  "metrics_json txt m =
     (let n = (\<lambda>k. JInt (int k)); f = (\<lambda>x. JStr (txt x)); du = mt_durations m in
      JObj ([(''exact_matched'', n (mt_exact m)), (''fuzzy_auto_matched'', n (mt_fuzzy m)), (''pending_review'', n (mt_pending m)),
             (''rule_matched'', n (mt_rule m)), (''cross_currency_matched'', n (mt_cross m)),
             (''cross_currency_out_of_tolerance'', n (mt_cross_out m)), (''split_groups'', n (mt_split m)),
             (''netted_groups'', n (mt_netted m)), (''group_ambiguous'', n (mt_ambiguous m)),
             (''group_too_complex'', n (mt_too_complex m)), (''group_missing_fx'', n (mt_missing_fx m)),
             (''externals_matched'', JInt (mt_externals m)), (''internal_pool'', n (mt_internal_pool m)),
             (''external_pool'', n (mt_external_pool m)), (''exact_match_rate_of_total'', f (mt_exact_rate m)),
             (''exact_match_rate_of_matchable'', f (mt_matchable_rate m)), (''overall_match_rate_of_total'', f (mt_overall_rate m)),
             (''duration_seconds'', JObj [(''exact'', f (du_exact du)), (''fuzzy'', f (du_fuzzy du)), (''rules'', f (du_rules du)),
                (''total'', f (du_total du))]),
             (''exceptions_created'', n (mt_created m)),
             (''exceptions_by_category'', JObj (map (\<lambda>(c, k). (category_text c, n k)) (mt_by_category m))),
             (''exceptions_auto_resolved'', n (mt_resolved m)), (''exceptions_auto_resolve_escalated'', n (mt_escalated m)),
             (''exceptions_queued'', n (mt_queued m)), (''sla_escalations'', n (mt_sla m)),
             (''weights_version'', JStr (mt_weights m)), (''mode'', JStr (mt_mode m)), (''date_from'', opt_str date_iso (mt_from m)),
             (''date_to'', opt_str date_iso (mt_to m))]
            @ (case mt_config m of None \<Rightarrow> []
               | Some (v, h) \<Rightarrow> [(''bank_config'', JObj [(''version'', JStr v), (''sha256'', JStr h)])])
            @ [(''alerts_raised'', JObj (map (\<lambda>(t, k). (alert_type_text t, n k)) (mt_alerts m)))]))"

definition audit_state ::
    "services \<Rightarrow> run_row \<Rightarrow> string \<Rightarrow> run_status \<Rightarrow> string \<Rightarrow> instant \<Rightarrow> run_report option \<Rightarrow> desk \<Rightarrow> desk res" where
  "audit_state sv run before after why at_time metrics d =
     (let requested = (before = ''NONE'') in
      desk_audit (sv_sha sv) runs_chain (if requested then ''USER'' else ''SYSTEM'')
        (if requested then api_key_actor (rn_by run) else ''run-service'') RUN_STATE_CHANGE
        (JObj [(''run_id'', id_json (rn_id run)), (''bank_code'', JStr (rn_bank run))]) why at_time
        (JObj [(''status'', JStr before)])
        (JObj ([(''status'', JStr (run_status_text after)), (''mode'', JStr (rn_mode run))]
               @ (case metrics of None \<Rightarrow> [] | Some m \<Rightarrow> [(''metrics'', metrics_json (sv_text sv) m)]))) d)"

section \<open>Starting\<close>

record run_request =
  rq_bank :: string
  rq_key :: string
  rq_by :: string
  rq_mode :: string
  rq_from :: "date option"
  rq_to :: "date option"
  rq_defer :: bool

definition replay :: "run_row \<Rightarrow> run_request \<Rightarrow> (nat \<times> bool) res" where
  "replay run rq =
     (if (rn_bank run, rn_mode run, rn_from run, rn_to run) \<noteq> (rq_bank rq, rq_mode rq, rq_from rq, rq_to rq)
      then Inl IdempotencyConflictError else Inr (rn_id run, False))"

definition reap_stale :: "int \<Rightarrow> string \<Rightarrow> instant \<Rightarrow> run_row list \<Rightarrow> run_row list" where
  "reap_stale window bank now runs =
     map (\<lambda>r. if rn_bank r = bank \<and> rn_status r = RUNNING \<and> (case rn_started r of None \<Rightarrow> False | Some t \<Rightarrow> t < now - window)
              then r\<lparr>rn_status := FAILED, rn_completed := Some now, rn_error := Some ''reaped: exceeded the stale-run window''\<rparr>
              else r) runs"

definition new_run :: "nat \<Rightarrow> run_request \<Rightarrow> instant \<Rightarrow> run_row" where
  "new_run i rq now =
     \<lparr>rn_id = i, rn_key = rq_key rq, rn_bank = rq_bank rq, rn_status = (if rq_defer rq then PENDING else RUNNING),
      rn_mode = rq_mode rq, rn_from = rq_from rq, rn_to = rq_to rq, rn_by = rq_by rq, rn_created = now,
      rn_started = (if rq_defer rq then None else Some now), rn_completed = None, rn_metrics = None, rn_error = None\<rparr>"

text \<open>\<open>seen\<close> are the runs the first look at the table finds; other requests may have
  committed between it and the insertion. The second look, after a violated key, sees
  the table as it is then.\<close>

definition start_run ::
    "services \<Rightarrow> run_row list \<Rightarrow> run_request \<Rightarrow> nat \<Rightarrow> instant \<Rightarrow> office \<Rightarrow> ((nat \<times> bool) \<times> office) res" where
  "start_run sv seen rq i now o1 =
     (if \<not> ordered_range (rq_from rq) (rq_to rq) then Inl ValueError
      else case by_key (rq_key rq) seen of
        Some run \<Rightarrow> bind_res (replay run rq) (\<lambda>x. Inr (x, o1))
      | None \<Rightarrow>
          let runs = reap_stale (st_stale (sv_settings sv)) (rq_bank rq) now (of_runs o1); run = new_run i rq now in
          (case insert_run run runs of
             Stored runs' \<Rightarrow>
               bind_res (audit_state sv run ''NONE'' (rn_status run)
                   (''requested by '' @ rq_by rq @ (if rq_defer rq then '' (queued)'' else [])) now None (of_desk o1))
                 (\<lambda>d. Inr ((i, True), o1\<lparr>of_desk := d, of_runs := runs'\<rparr>))
           | Key_taken \<Rightarrow>
               (case by_key (rq_key rq) runs of
                  Some winner \<Rightarrow> bind_res (replay winner rq) (\<lambda>x. Inr (x, o1\<lparr>of_runs := runs\<rparr>))
                | None \<Rightarrow> Inl IntegrityError)
           | Bank_running \<Rightarrow> Inl RunAlreadyActiveError
           | Refused e \<Rightarrow> Inl e))"

section \<open>Activating a queued run\<close>

definition activate :: "services \<Rightarrow> nat \<Rightarrow> instant \<Rightarrow> office \<Rightarrow> office res" where
  "activate sv i now o1 =
     (case find_run i (of_runs o1) of
        None \<Rightarrow> Inl RunStateError
      | Some run \<Rightarrow>
          if rn_status run \<noteq> PENDING then Inl RunStateError
          else
            let runs = reap_stale (st_stale (sv_settings sv)) (rn_bank run) now (of_runs o1) in
            if bank_busy (rn_bank run) runs then Inl RunAlreadyActiveError
            else bind_res (audit_state sv run ''PENDING'' RUNNING ''queued run started'' now None (of_desk o1))
                   (\<lambda>d. Inr (o1\<lparr>of_desk := d, of_runs := set_run i (\<lambda>r. r\<lparr>rn_status := RUNNING, rn_started := Some now\<rparr>) runs\<rparr>)))"

section \<open>Finishing\<close>

definition finish_run ::
    "services \<Rightarrow> nat \<Rightarrow> run_status \<Rightarrow> run_report option \<Rightarrow> string option \<Rightarrow> instant \<Rightarrow> office \<Rightarrow> office res" where
  "finish_run sv i status metrics err ended o1 =
     (case find_run i (of_runs o1) of
        None \<Rightarrow> Inl RunStateError
      | Some run \<Rightarrow>
          bind_res (audit_state sv run (run_status_text (rn_status run)) status
              (case err of None \<Rightarrow> ''run completed'' | Some e \<Rightarrow> if e = [] then ''run completed'' else e) ended metrics (of_desk o1))
            (\<lambda>d. Inr (o1\<lparr>of_desk := d,
               of_runs := set_run i (\<lambda>r. r\<lparr>rn_status := status, rn_completed := Some ended, rn_metrics := metrics, rn_error := err\<rparr>)
                            (of_runs o1)\<rparr>)))"

section \<open>The work of a run\<close>

definition run_results :: "string \<Rightarrow> db \<Rightarrow> result list" where
  "run_results run db = sort_key r_id (filter (\<lambda>r. r_run r = run) (results db))"

definition audit_matches :: "services \<Rightarrow> run_row \<Rightarrow> orchestrator_outcome \<Rightarrow> instant \<Rightarrow> db \<Rightarrow> db res" where
  "audit_matches sv run out now db =
     (let found = run_results (uuid_str (rn_id run)) db; ids = map (\<lambda>r. uuid_str (r_id r)) found in
      append_audit (sv_sha sv) matching_chain ''SYSTEM'' ''run-service'' MATCH
        (JObj [(''run_id'', id_json (rn_id run)), (''bank_code'', JStr (rn_bank run))])
        (''run '' @ uuid_str (rn_id run) @ '' produced '' @ nat_str (length ids) @ '' match results ('' @ rn_mode run @ '')'') now
        JNull
        (JObj [(''match_result_count'', JInt (int (length ids))),
               (''by_match_type'', JObj (map (\<lambda>(t, rs). (match_type_text t, JInt (int (length rs)))) (group_by r_type found))),
               (''match_result_ids_sha256'', JStr (sv_sha sv (join_with [CHR 0x0A] ids))),
               (''externals_matched'', JInt (oo_externals_matched out)),
               (''pending_review'', JInt (int (total_pending_review_count out)))]) db)"

definition orchestrator_for :: "services \<Rightarrow> run_row \<Rightarrow> rule_stage_config \<Rightarrow> instant \<Rightarrow> orchestrator" where
  "orchestrator_for sv run rules now =
     (let st = sv_settings sv; bank = rn_bank run in
      \<lparr>oc_run = uuid_str (rn_id run), oc_blocking = blocking_for st bank, oc_tolerance = amount_tolerance_for st bank,
       oc_matching = st_matching st, oc_set_based = st_set_based st, oc_mode = rn_mode run, oc_from = rn_from run, oc_to = rn_to run,
       oc_rules = Some rules, oc_auditor = Some \<lparr>ad_sha = sv_sha sv, ad_now = now\<rparr>, oc_similarity = sv_similarity sv,
       oc_table = map_of (sv_known sv), oc_text = sv_text sv\<rparr>)"

definition classifier_for :: "services \<Rightarrow> fx_service option \<Rightarrow> desk \<Rightarrow> classifier" where
  "classifier_for sv fx d =
     \<lparr>ce_sha = sv_sha sv, ce_taxonomy = st_taxonomy (sv_settings sv), ce_banks = st_banks (sv_settings sv),
      ce_calendars = sv_calendars sv, ce_quote = map_option (\<lambda>svc c on. fst (fx_get svc c on)) fx,
      ce_table = map_of (sv_known sv), ce_text = sv_text sv, ce_files = dk_files d, ce_raws = dk_raws d, ce_why = sv_why sv\<rparr>"

definition scope_for :: "services \<Rightarrow> run_row \<Rightarrow> instant \<Rightarrow> run_scope" where
  "scope_for sv run now =
     (let stale = stale_after_days (sv_settings sv) (rn_bank run) in
      \<lparr>sc_bank = rn_bank run, sc_run = uuid_str (rn_id run), sc_as_of = (if stale = None then None else Some (date_of now)),
       sc_stale = stale, sc_from = rn_from run, sc_to = rn_to run\<rparr>)"

text \<open>What \<open>execute\<close> does inside its \<open>try\<close>.\<close>

definition run_work ::
    "services \<Rightarrow> bank_registry \<Rightarrow> run_row \<Rightarrow> instant \<Rightarrow> office
     \<Rightarrow> ((orchestrator_outcome \<times> class_outcome \<times> escalation_outcome) \<times> office) res" where
  "run_work sv rg run now o1 =
     (let bank = rn_bank run; d = of_desk o1; w = dk_world d in
      bind_res (sync_bank_configurations (sv_sha sv) rg ''system:run-service'' now (of_configs o1) (w_db w)) (\<lambda>(_, configs, db1).
      bind_res (build_rule_stage (sv_calendars sv) (sv_known sv) (st_banks (sv_settings sv) bank)) (\<lambda>rules.
      bind_res (new_orchestrator (orchestrator_for sv run rules now)) (\<lambda>oc.
      bind_res (orch_run oc bank (Some (new_fx_service (of_rates o1) default_max_stale_days)) db1) (\<lambda>((out, fx), db2).
      bind_res (audit_matches sv run out now db2) (\<lambda>db3.
      bind_res (classify_run (classifier_for sv fx d) (scope_for sv run now) now (w\<lparr>w_db := db3\<rparr>)) (\<lambda>(classified, w4).
      bind_res (escalation_process (sv_sha sv) (sv_say sv) bank now (Some (uuid_str (rn_id run))) w4) (\<lambda>(escalation, w5).
        Inr ((out, classified, escalation), o1\<lparr>of_configs := configs, of_desk := d\<lparr>dk_world := w5\<rparr>\<rparr>)))))))))"

definition run_metrics_of ::
    "services \<Rightarrow> bank_registry \<Rightarrow> run_row \<Rightarrow> durations \<Rightarrow> orchestrator_outcome \<times> class_outcome \<times> escalation_outcome \<Rightarrow> run_report" where
  "run_metrics_of sv rg run took work =
     (case work of (out, classified, escalation) \<Rightarrow>
        \<lparr>mt_exact = ex_matched (oo_exact out), mt_fuzzy = fz_auto (oo_fuzzy out), mt_pending = total_pending_review_count out,
         mt_rule = (case oo_rule out of None \<Rightarrow> 0 | Some r \<Rightarrow> rl_auto r),
         mt_cross = (case oo_cross out of None \<Rightarrow> 0 | Some c \<Rightarrow> co_matched c),
         mt_cross_out = (case oo_cross out of None \<Rightarrow> 0 | Some c \<Rightarrow> co_out_of_tolerance c),
         mt_split = (case oo_group out of None \<Rightarrow> 0 | Some g \<Rightarrow> go_split g),
         mt_netted = (case oo_group out of None \<Rightarrow> 0 | Some g \<Rightarrow> go_netted g),
         mt_ambiguous = (case oo_group out of None \<Rightarrow> 0 | Some g \<Rightarrow> go_ambiguous g),
         mt_too_complex = (case oo_group out of None \<Rightarrow> 0 | Some g \<Rightarrow> go_too_complex g),
         mt_missing_fx = (case oo_group out of None \<Rightarrow> 0 | Some g \<Rightarrow> go_missing_fx g),
         mt_externals = oo_externals_matched out, mt_internal_pool = oo_internal_before_exact out,
         mt_external_pool = oo_external_before_exact out, mt_exact_rate = oo_exact_rate_of_total out,
         mt_matchable_rate = oo_exact_rate_of_matchable out, mt_overall_rate = oo_overall_rate out, mt_durations = took,
         mt_created = oc_created classified, mt_by_category = oc_by_category classified,
         mt_resolved = ro_resolved (eo_auto escalation), mt_escalated = ro_escalated (eo_auto escalation),
         mt_queued = eo_queued escalation, mt_sla = so_escalated (eo_sla escalation),
         mt_weights = mc_version (st_matching (sv_settings sv)), mt_mode = rn_mode run, mt_from = rn_from run, mt_to = rn_to run,
         mt_config = map_option (\<lambda>item. (bk_version (lc_config item), lc_sha item)) (map_of (rg_loaded rg) (rn_bank run)),
         mt_alerts = []\<rparr>)"

definition judged :: "run_report \<Rightarrow> run_metrics" where
  "judged m =
     \<lparr>rm_externals = int (mt_external_pool m), rm_internals = int (mt_internal_pool m), rm_rate = repr_of (mt_overall_rate m),
      rm_created = int (mt_created m)\<rparr>"

text \<open>\<open>execute\<close> behind its guard, with the row as it was read: an error of the work rolls the
  transaction back and the run is FAILED; an error behind the work, of the alerts or of
  the finish, is the caller's.\<close>

definition carry_out ::
    "services \<Rightarrow> bank_registry \<Rightarrow> run_row \<Rightarrow> instant \<Rightarrow> instant \<Rightarrow> durations \<Rightarrow> office \<Rightarrow> office res" where
  "carry_out sv rg run now ended took o1 =
     (case run_work sv rg run now o1 of
        Inl e \<Rightarrow> finish_run sv (rn_id run) FAILED None (Some (sv_class sv e)) ended o1
      | Inr (work, o2) \<Rightarrow>
          let m = run_metrics_of sv rg run took work in
          bind_res (evaluate_run (sv_monitor sv) (uuid_str (rn_id run)) (rn_bank run) (judged m) now (of_desk o2)) (\<lambda>(raised, d).
            finish_run sv (rn_id run) COMPLETED (Some (m\<lparr>mt_alerts := raised\<rparr>)) None ended (o2\<lparr>of_desk := d\<rparr>)))"

definition execute_run ::
    "services \<Rightarrow> bank_registry \<Rightarrow> nat \<Rightarrow> instant \<Rightarrow> instant \<Rightarrow> durations \<Rightarrow> office \<Rightarrow> office res" where
  "execute_run sv rg i now ended took o1 =
     (case find_run i (of_runs o1) of
        None \<Rightarrow> Inl RunStateError
      | Some run \<Rightarrow> if rn_status run \<noteq> RUNNING then Inl RunStateError else carry_out sv rg run now ended took o1)"

section \<open>The table stays consistent\<close>

definition row_ok :: "run_row \<Rightarrow> bool" where
  "row_ok r =
     (rn_mode r \<in> {''FAST'', ''FULL''} \<and> ordered_range (rn_from r) (rn_to r)
      \<and> (case rn_status r of PENDING \<Rightarrow> rn_started r = None | RUNNING \<Rightarrow> rn_started r \<noteq> None
         | COMPLETED \<Rightarrow> rn_completed r \<noteq> None \<and> rn_metrics r \<noteq> None | FAILED \<Rightarrow> rn_completed r \<noteq> None))"

definition runs_ok :: "run_row list \<Rightarrow> bool" where
  "runs_ok runs =
     (distinct (map rn_id runs) \<and> distinct (map rn_key runs) \<and> list_all row_ok runs
      \<and> distinct (map rn_bank (filter (\<lambda>r. rn_status r = RUNNING) runs)))"

text \<open>What a transition leaves of a row: its identity, its request and its birth.\<close>

definition same_run :: "run_row \<Rightarrow> run_row \<Rightarrow> bool" where
  "same_run r q =
     (rn_id q = rn_id r \<and> rn_key q = rn_key r \<and> rn_bank q = rn_bank r \<and> rn_mode q = rn_mode r \<and> rn_from q = rn_from r
      \<and> rn_to q = rn_to r \<and> rn_by q = rn_by r \<and> rn_created q = rn_created r)"

lemma same_run_refl [simp]: "same_run r r"
  by (simp add: same_run_def)

lemma same_run_trans: "\<lbrakk>same_run r q; same_run q p\<rbrakk> \<Longrightarrow> same_run r p"
  by (simp add: same_run_def)

lemma same_runs_refl [simp]: "list_all2 same_run runs runs"
  by (simp add: list_all2_refl)

lemma same_runs_trans: "\<lbrakk>list_all2 same_run as bs; list_all2 same_run bs cs\<rbrakk> \<Longrightarrow> list_all2 same_run as cs"
  by (rule list_all2_trans[of same_run same_run same_run]) (blast intro: same_run_trans)+

lemma running_sub:
  assumes "list_all2 same_run runs runs'" "list_all2 (\<lambda>r q. rn_status q = RUNNING \<longrightarrow> rn_status r = RUNNING) runs runs'"
    "distinct (map rn_bank (filter (\<lambda>r. rn_status r = RUNNING) runs))"
  shows "distinct (map rn_bank (filter (\<lambda>r. rn_status r = RUNNING) runs'))
    \<and> rn_bank ` set (filter (\<lambda>r. rn_status r = RUNNING) runs') \<subseteq> rn_bank ` set (filter (\<lambda>r. rn_status r = RUNNING) runs)"
  using assms
proof (induction runs runs' rule: list_all2_induct)
  case (Cons r runs q runs')
  then have b: "rn_bank q = rn_bank r" by (simp add: same_run_def)
  show ?case using Cons b by (auto split: if_splits)
qed simp

lemma same_runs_keys:
  assumes "list_all2 same_run runs runs'"
  shows "map rn_id runs' = map rn_id runs" "map rn_key runs' = map rn_key runs"
  using assms by (induction rule: list_all2_induct) (simp_all add: same_run_def)

lemma runs_ok_change:
  assumes "runs_ok runs" "list_all2 same_run runs runs'" "list_all2 (\<lambda>r q. rn_status q = RUNNING \<longrightarrow> rn_status r = RUNNING) runs runs'"
    "list_all row_ok runs'"
  shows "runs_ok runs'"
  using assms running_sub[OF assms(2,3)] same_runs_keys[OF assms(2)] by (simp add: runs_ok_def)

lemma reap_same: "list_all2 same_run runs (reap_stale window bank now runs)"
  by (auto simp: reap_stale_def list_all2_map2 same_run_def intro: list_all2_refl)

lemma reap_ok: "runs_ok runs \<Longrightarrow> runs_ok (reap_stale window bank now runs)"
  by (rule runs_ok_change[OF _ reap_same])
    (auto simp: reap_stale_def list_all2_map2 list_all_iff row_ok_def runs_ok_def intro!: list_all2_refl split: option.splits)

lemma set_run_same:
  "(\<And>r. same_run r (f r)) \<Longrightarrow> list_all2 same_run runs (set_run i f runs)"
  by (auto simp: set_run_def list_all2_map2 intro!: list_all2_refl)

lemma find_run_some: "find_run i runs = Some r \<Longrightarrow> r \<in> set runs \<and> rn_id r = i"
  by (auto simp: find_run_def find_Some_iff)

lemma run_one: "\<lbrakk>runs_ok runs; r \<in> set runs; q \<in> set runs; rn_id r = rn_id q\<rbrakk> \<Longrightarrow> r = q"
  using distinct_map_inj[of rn_id runs r q] by (simp add: runs_ok_def)

lemma find_run_in:
  assumes "runs_ok runs" "r \<in> set runs"
  shows "find_run (rn_id r) runs = Some r"
proof (cases "find_run (rn_id r) runs")
  case None
  then show ?thesis using assms(2) by (auto simp: find_run_def find_None_iff)
next
  case (Some q)
  then show ?thesis using run_one[OF assms(1) _ assms(2)] find_run_some[OF Some] by simp
qed

lemma bank_busy_iff: "bank_busy bank runs \<longleftrightarrow> bank \<in> rn_bank ` set (filter (\<lambda>r. rn_status r = RUNNING) runs)"
  by (auto simp: bank_busy_def list_ex_iff)

lemma insert_ok:
  assumes "insert_run run runs = Stored runs'" "runs_ok runs" "row_ok run"
  shows "runs' = runs @ [run] \<and> runs_ok runs' \<and> rn_key run \<notin> rn_key ` set runs"
proof -
  have "runs' = runs @ [run]" "rn_key run \<notin> rn_key ` set runs" "rn_id run \<notin> rn_id ` set runs"
    "rn_status run = RUNNING \<Longrightarrow> \<not> bank_busy (rn_bank run) runs"
    using assms(1) by (auto simp: insert_run_def split: if_splits)
  then show ?thesis using assms(2,3) by (auto simp: runs_ok_def bank_busy_iff)
qed

text \<open>A run that leaves its state for one that is not RUNNING, and a queued run of an idle
  bank that becomes RUNNING.\<close>

lemma set_run_stops:
  assumes "runs_ok runs" "\<And>r. same_run r (f r)" "\<And>r. rn_status (f r) \<noteq> RUNNING" "\<And>r. r \<in> set runs \<Longrightarrow> rn_id r = i \<Longrightarrow> row_ok (f r)"
  shows "runs_ok (set_run i f runs)"
proof (rule runs_ok_change[OF assms(1) set_run_same[OF assms(2)]])
  show "list_all2 (\<lambda>r q. rn_status q = RUNNING \<longrightarrow> rn_status r = RUNNING) runs (set_run i f runs)"
    using assms(3) by (auto simp: set_run_def list_all2_map2 intro!: list_all2_refl)
  show "list_all row_ok (set_run i f runs)"
    using assms(1,4) by (auto simp: set_run_def list_all_iff runs_ok_def)
qed

lemma set_run_starts:
  assumes "runs_ok runs" "find_run i runs = Some run" "\<not> bank_busy (rn_bank run) runs" "row_ok (f run)" "\<And>r. same_run r (f r)"
  shows "runs_ok (set_run i f runs)"
proof -
  have run: "run \<in> set runs" "rn_id run = i" using find_run_some[OF assms(2)] by simp_all
  obtain as bs where sp: "runs = as @ run # bs" using run(1) by (meson split_list)
  have "distinct (map rn_id (as @ run # bs))" using assms(1) by (simp add: runs_ok_def sp)
  then have "i \<notin> rn_id ` (set as \<union> set bs)" using run(2) by auto
  then have ne: "rn_id r \<noteq> i" if "r \<in> set as \<union> set bs" for r using that by blast
  have m: "map (\<lambda>r. if rn_id r = i then f r else r) rs = rs" if "set rs \<subseteq> set as \<union> set bs" for rs
    using ne that by (intro map_idI) auto
  have s: "set_run i f runs = as @ f run # bs" using m run(2) by (simp add: set_run_def sp)
  have "rn_status run \<noteq> RUNNING" using assms(3) run(1) by (auto simp: bank_busy_def list_ex_iff)
  moreover have "same_run run (f run)" by (rule assms(5))
  moreover have "rn_bank run \<notin> rn_bank ` set (filter (\<lambda>r. rn_status r = RUNNING) runs)"
    using assms(3) by (simp add: bank_busy_iff)
  ultimately show ?thesis using assms(1,4) unfolding s by (auto simp: runs_ok_def sp same_run_def)
qed

section \<open>Every operation keeps the office consistent\<close>

definition office_ok :: "office \<Rightarrow> bool" where
  "office_ok o1 = (runs_ok (of_runs o1) \<and> desk_ok (of_desk o1) \<and> configs_ok (of_configs o1))"

text \<open>One office follows another: rows of runs are added and keep identity and request, the
  exceptions and the ledger go forward.\<close>

definition follows :: "office \<Rightarrow> office \<Rightarrow> bool" where
  "follows o1 o2 =
     ((\<exists>old new. of_runs o2 = old @ new \<and> list_all2 same_run (of_runs o1) old)
      \<and> goes_on (dk_world (of_desk o1)) (dk_world (of_desk o2)) \<and> of_rates o2 = of_rates o1)"

lemma audit_state_shape:
  assumes "audit_state sv run before after why at_time metrics d = Inr d'"
  shows "\<exists>db row. d' = d\<lparr>dk_world := (dk_world d)\<lparr>w_db := db\<rparr>\<rparr> \<and> goes_on (dk_world d) (dk_world d')
    \<and> audit_log db = audit_log (w_db (dk_world d)) @ [row] \<and> chain_id row = runs_chain \<and> action_type row = ''RUN_STATE_CHANGE''"
proof -
  obtain db row where "d' = d\<lparr>dk_world := (dk_world d)\<lparr>w_db := db\<rparr>\<rparr>" "goes_on (dk_world d) ((dk_world d)\<lparr>w_db := db\<rparr>)"
    "audit_log db = audit_log (w_db (dk_world d)) @ [row]" "chain_id row = runs_chain" "action_type row = action_text RUN_STATE_CHANGE"
    using desk_audit_shape[OF assms[unfolded audit_state_def Let_def]] by blast
  then show ?thesis by (intro exI[of _ db] exI[of _ row]) (simp add: action_text_def)
qed

lemma audit_state_ok:
  assumes "audit_state sv run before after why at_time metrics d = Inr d'" "desk_ok d"
  shows "desk_ok d' \<and> goes_on (dk_world d) (dk_world d')"
proof -
  obtain db where "d' = d\<lparr>dk_world := (dk_world d)\<lparr>w_db := db\<rparr>\<rparr>" "goes_on (dk_world d) (dk_world d')"
    using audit_state_shape[OF assms(1)] by blast
  then show ?thesis using desk_ok_world[OF assms(2), of "(dk_world d)\<lparr>w_db := db\<rparr>"] by simp
qed

lemma followsI:
  "\<lbrakk>of_runs o2 = old @ new; list_all2 same_run (of_runs o1) old; goes_on (dk_world (of_desk o1)) (dk_world (of_desk o2));
    of_rates o2 = of_rates o1\<rbrakk> \<Longrightarrow> follows o1 o2"
  unfolding follows_def by blast

lemma follows_refl [simp]: "follows o1 o1"
  by (rule followsI[of _ "of_runs o1" "[]"]) simp_all

lemma follows_runs: "\<lbrakk>list_all2 same_run (of_runs o1) runs; goes_on (dk_world (of_desk o1)) (dk_world d)\<rbrakk>
   \<Longrightarrow> follows o1 (o1\<lparr>of_desk := d, of_runs := runs\<rparr>)"
  by (rule followsI[of _ runs "[]"]) simp_all

lemma by_key_some: "by_key k runs = Some r \<Longrightarrow> r \<in> set runs \<and> rn_key r = k"
  by (auto simp: by_key_def find_Some_iff)

lemma new_run_ok:
  "\<lbrakk>ordered_range (rq_from rq) (rq_to rq); insert_run (new_run i rq now) runs = Stored runs'\<rbrakk> \<Longrightarrow> row_ok (new_run i rq now)"
  by (auto simp: row_ok_def new_run_def insert_run_def split: if_splits)

lemma start_ok:
  assumes "start_run sv seen rq i now o1 = Inr (x, o2)" "office_ok o1"
  shows "office_ok o2 \<and> follows o1 o2"
proof (cases "by_key (rq_key rq) seen")
  case (Some run)
  then show ?thesis using assms by (auto simp: start_run_def res_iff split: if_splits)
next
  case None
  define runs where "runs = reap_stale (st_stale (sv_settings sv)) (rq_bank rq) now (of_runs o1)"
  have ok: "runs_ok runs" "desk_ok (of_desk o1)" "configs_ok (of_configs o1)"
    using assms(2) reap_ok by (simp_all add: runs_def office_ok_def)
  have same: "list_all2 same_run (of_runs o1) runs" unfolding runs_def by (rule reap_same)
  have range: "ordered_range (rq_from rq) (rq_to rq)" using assms(1) by (auto simp: start_run_def split: if_splits)
  note s = assms(1)[unfolded start_run_def None option.case Let_def runs_def[symmetric]]
  show ?thesis
  proof (cases "insert_run (new_run i rq now) runs")
    case (Stored runs')
    obtain d before after why where d: "audit_state sv (new_run i rq now) before after why now None (of_desk o1) = Inr d"
      "o2 = o1\<lparr>of_desk := d, of_runs := runs'\<rparr>"
      using s range by (auto simp: Stored res_iff)
    note in_ok = insert_ok[OF Stored ok(1) new_run_ok[OF range Stored]]
    note d_ok = audit_state_ok[OF d(1) ok(2)]
    have "follows o1 o2" by (rule followsI[of _ runs "[new_run i rq now]"]) (use in_ok d_ok same in \<open>simp_all add: d(2)\<close>)
    then show ?thesis using in_ok d_ok ok(3) by (auto simp: office_ok_def d(2))
  next
    case Key_taken
    then have "o2 = o1\<lparr>of_runs := runs\<rparr>" using s range by (auto simp: res_iff split: option.splits)
    then show ?thesis using ok same followsI[of o2 runs "[]" o1] by (simp add: office_ok_def)
  qed (use s range in auto)
qed

lemma activate_ok:
  assumes "activate sv i now o1 = Inr o2" "office_ok o1"
  shows "office_ok o2 \<and> follows o1 o2"
proof -
  obtain run where r: "find_run i (of_runs o1) = Some run" "rn_status run = PENDING"
    using assms(1) by (auto simp: activate_def split: option.splits if_splits)
  define runs where "runs = reap_stale (st_stale (sv_settings sv)) (rn_bank run) now (of_runs o1)"
  define f where "f = (\<lambda>r :: run_row. r\<lparr>rn_status := RUNNING, rn_started := Some now\<rparr>)"
  obtain d where d: "\<not> bank_busy (rn_bank run) runs" "audit_state sv run ''PENDING'' RUNNING ''queued run started'' now None (of_desk o1) = Inr d"
    "o2 = o1\<lparr>of_desk := d, of_runs := set_run i f runs\<rparr>"
    using assms(1) r by (auto simp: activate_def runs_def[symmetric] f_def[symmetric] Let_def res_iff split: if_splits)
  have ok: "runs_ok (of_runs o1)" "runs_ok runs" using assms(2) reap_ok by (simp_all add: office_ok_def runs_def)
  have "run \<in> set (of_runs o1)" "rn_id run = i" using find_run_some[OF r(1)] by simp_all
  then have "run \<in> set runs" using r(2) by (force simp: runs_def reap_stale_def)
  then have "find_run i runs = Some run" using find_run_in[OF ok(2)] \<open>rn_id run = i\<close> by blast
  moreover have "row_ok (f run)"
    using ok(1) \<open>run \<in> set (of_runs o1)\<close> by (auto simp: f_def row_ok_def runs_ok_def list_all_iff)
  moreover have fs: "same_run r (f r)" for r by (simp add: f_def same_run_def)
  ultimately have "runs_ok (set_run i f runs)" using set_run_starts[OF ok(2)] d(1) by blast
  moreover have "list_all2 same_run (of_runs o1) (set_run i f runs)"
    using same_runs_trans[OF reap_same set_run_same[OF fs]] unfolding runs_def by blast
  ultimately show ?thesis
    using follows_runs audit_state_ok[OF d(2)] assms(2) unfolding d(3) by (simp add: office_ok_def)
qed

lemma follows_trans: assumes "follows o1 o2" "follows o2 o3" shows "follows o1 o3"
proof -
  obtain a b where a: "of_runs o2 = a @ b" "list_all2 same_run (of_runs o1) a" using assms(1) unfolding follows_def by blast
  obtain c d where c: "of_runs o3 = c @ d" "list_all2 same_run (of_runs o2) c" using assms(2) unfolding follows_def by blast
  obtain c1 c2 where cs: "c = c1 @ c2" "list_all2 same_run a c1"
    using c(2) by (auto simp: a(1) list_all2_append1)
  have "goes_on (dk_world (of_desk o1)) (dk_world (of_desk o3))" "of_rates o3 = of_rates o1"
    using assms goes_on_trans unfolding follows_def by auto
  then show ?thesis using followsI[of o3 c1 "c2 @ d" o1] same_runs_trans[OF a(2) cs(2)] c(1) cs(1) by simp
qed

lemma finish_shape:
  assumes "finish_run sv i status metrics err ended o1 = Inr o2"
  obtains run d before why where "find_run i (of_runs o1) = Some run"
    "audit_state sv run before status why ended metrics (of_desk o1) = Inr d"
    "o2 = o1\<lparr>of_desk := d, of_runs := set_run i (\<lambda>r. r\<lparr>rn_status := status, rn_completed := Some ended, rn_metrics := metrics,
        rn_error := err\<rparr>) (of_runs o1)\<rparr>"
  using assms by (auto simp: finish_run_def res_iff split: option.splits)

lemma finish_ok:
  assumes "finish_run sv i status metrics err ended o1 = Inr o2" "office_ok o1"
    "status = FAILED \<or> status = COMPLETED \<and> metrics \<noteq> None"
  shows "office_ok o2 \<and> follows o1 o2"
proof (rule finish_shape[OF assms(1)])
  fix run d before why
  assume f: "find_run i (of_runs o1) = Some run" and a: "audit_state sv run before status why ended metrics (of_desk o1) = Inr d"
    and o2: "o2 = o1\<lparr>of_desk := d, of_runs := set_run i (\<lambda>r. r\<lparr>rn_status := status, rn_completed := Some ended, rn_metrics := metrics,
        rn_error := err\<rparr>) (of_runs o1)\<rparr>"
  define g where "g = (\<lambda>r :: run_row. r\<lparr>rn_status := status, rn_completed := Some ended, rn_metrics := metrics, rn_error := err\<rparr>)"
  have same: "same_run r (g r)" for r by (simp add: g_def same_run_def)
  have ok: "runs_ok (of_runs o1)" "desk_ok (of_desk o1)" using assms(2) by (simp_all add: office_ok_def)
  have st: "rn_status (g r) \<noteq> RUNNING" for r using assms(3) by (auto simp: g_def)
  have rk: "row_ok (g r)" if "r \<in> set (of_runs o1)" for r
  proof -
    have "row_ok r" using ok(1) that by (simp add: runs_ok_def list_all_iff)
    then show ?thesis using assms(3) by (auto simp: g_def row_ok_def)
  qed
  have "runs_ok (set_run i g (of_runs o1))" by (rule set_run_stops[OF ok(1) same st rk])
  then show ?thesis
    using follows_runs[OF set_run_same[OF same, of "of_runs o1" i], of d] audit_state_ok[OF a ok(2)] assms(2)
    unfolding o2 g_def[symmetric] by (simp add: office_ok_def)
qed

text \<open>The work as a whole.\<close>

lemma goes_on_steps:
  assumes "ledger_step\<^sup>*\<^sup>* (w_db w) db" shows "goes_on w (w\<lparr>w_db := db\<rparr>)"
  unfolding goes_on_def
  by (intro conjI exI[of _ "w_excs w"] exI[of _ "[]"]) (use assms in \<open>simp_all add: store_ok_def\<close>)

lemma work_ok:
  assumes "run_work sv rg run now o1 = Inr (work, o2)" "office_ok o1" "distinct (map fst (rg_loaded rg))"
  shows "office_ok o2 \<and> of_runs o2 = of_runs o1 \<and> follows o1 o2"
proof -
  define d where "d = of_desk o1"
  define w where "w = dk_world d"
  define bank where "bank = rn_bank run"
  note defs = d_def[symmetric] w_def[symmetric] bank_def[symmetric]
  obtain ch configs db1 where s: "sync_bank_configurations (sv_sha sv) rg ''system:run-service'' now (of_configs o1) (w_db w) = Inr (ch, configs, db1)"
    using assms(1) by (auto simp: run_work_def Let_def res_iff defs)
  obtain rules oc where r: "build_rule_stage (sv_calendars sv) (sv_known sv) (st_banks (sv_settings sv) bank) = Inr rules"
    "new_orchestrator (orchestrator_for sv run rules now) = Inr oc"
    using assms(1) by (auto simp: run_work_def Let_def res_iff defs)
  obtain out fx db2 where m: "orch_run oc bank (Some (new_fx_service (of_rates o1) default_max_stale_days)) db1 = Inr ((out, fx), db2)"
    using assms(1) by (auto simp: run_work_def Let_def res_iff defs s r)
  obtain db3 where a: "audit_matches sv run out now db2 = Inr db3"
    using assms(1) by (auto simp: run_work_def Let_def res_iff defs s r m)
  obtain cl w4 where c: "classify_run (classifier_for sv fx d) (scope_for sv run now) now (w\<lparr>w_db := db3\<rparr>) = Inr (cl, w4)"
    using assms(1) by (auto simp: run_work_def Let_def res_iff defs s r m a)
  obtain esc w5 where e: "escalation_process (sv_sha sv) (sv_say sv) bank now (Some (uuid_str (rn_id run))) w4 = Inr (esc, w5)"
    using assms(1) by (auto simp: run_work_def Let_def res_iff defs s r m a c)
  have o2: "o2 = o1\<lparr>of_configs := configs, of_desk := d\<lparr>dk_world := w5\<rparr>\<rparr>"
    using assms(1) by (simp add: run_work_def Let_def defs s r m a c e)
  have ok: "desk_ok d" "configs_ok (of_configs o1)" using assms(2) by (simp_all add: office_ok_def d_def)
  have lo: "ledger_ok (w_db w)" "store_ok w" using ok(1) by (simp_all add: desk_ok_def w_def)
  have d2: "distinct (map fst (sort_key fst (rg_loaded rg)))"
    using assms(3) mset_eq_imp_distinct_iff[of "map fst (sort_key fst (rg_loaded rg))" "map fst (rg_loaded rg)"] by simp
  note sl = sync_loop[OF s[unfolded sync_bank_configurations_def] ok(2) d2]
  have 1: "ledger_step\<^sup>*\<^sup>* (w_db w) db1" using sl by blast
  have 2: "ledger_step db1 db2" by (rule ledger_step.run[OF m])
  have 3: "ledger_step db2 db3" using a unfolding audit_matches_def Let_def by (rule ledger_step.entry)
  have g3: "goes_on w (w\<lparr>w_db := db3\<rparr>)" using 1 2 3 by (intro goes_on_steps) (meson rtranclp.rtrancl_into_rtrancl)
  have k3: "store_ok (w\<lparr>w_db := db3\<rparr>)" using g3 lo(2) unfolding goes_on_def by blast
  have g4: "goes_on (w\<lparr>w_db := db3\<rparr>) w4" by (rule run_facts[OF c]) (use k3 in blast)
  have k4: "store_ok w4" using g4 k3 unfolding goes_on_def by blast
  have g: "goes_on w w5" using goes_on_trans[OF g3 goes_on_trans[OF g4 process_goes_on[OF e k4]]] .
  have "desk_ok (d\<lparr>dk_world := w5\<rparr>)" using desk_ok_world[OF ok(1)] g by (simp add: w_def)
  then show ?thesis
    using g sl assms(2) followsI[of o2 "of_runs o1" "[]" o1] by (simp add: o2 office_ok_def w_def d_def)
qed

lemma carry_out_ok:
  assumes "carry_out sv rg run now ended took o1 = Inr o2" "office_ok o1" "distinct (map fst (rg_loaded rg))"
  shows "office_ok o2 \<and> follows o1 o2"
proof (cases "run_work sv rg run now o1")
  case (Inl e)
  then show ?thesis using assms(1,2) finish_ok by (simp add: carry_out_def)
next
  case (Inr x)
  obtain work ow where x: "x = (work, ow)" by (cases x)
  note w = work_ok[OF Inr[unfolded x] assms(2,3)]
  obtain raised d m where d: "evaluate_run (sv_monitor sv) (uuid_str (rn_id run)) (rn_bank run) (judged m) now (of_desk ow) = Inr (raised, d)"
    "finish_run sv (rn_id run) COMPLETED (Some (m\<lparr>mt_alerts := raised\<rparr>)) None ended (ow\<lparr>of_desk := d\<rparr>) = Inr o2"
    using assms(1) by (auto simp: carry_out_def Inr x Let_def res_iff)
  obtain drafts where "raise_alerts drafts now (of_desk ow) = (raised, d)" using d(1) by (auto simp: evaluate_run_def res_iff)
  note al = alerted_raise[OF this]
  then have dk: "desk_ok d" "dk_world d = dk_world (of_desk ow)"
    using desk_ok_alerted[OF al] w by (auto simp: office_ok_def alerted_def)
  have "office_ok ow" using w by blast
  then have o3: "office_ok (ow\<lparr>of_desk := d\<rparr>)" using dk(1) by (simp add: office_ok_def)
  have "follows ow (ow\<lparr>of_desk := d\<rparr>)" by (rule followsI[of _ "of_runs ow" "[]"]) (simp_all add: dk)
  then show ?thesis using finish_ok[OF d(2) o3] w follows_trans by blast
qed

lemma audit_state_exact:
  assumes "audit_state sv run before after why at_time metrics d = Inr d'"
  shows "\<exists>row. d' = d\<lparr>dk_world := (dk_world d)\<lparr>w_db := (w_db (dk_world d))
            \<lparr>audit_log := audit_log (w_db (dk_world d)) @ [row], next_id := next_id (w_db (dk_world d)) + 1\<rparr>\<rparr>\<rparr>
    \<and> chain_id row = runs_chain \<and> action_type row = ''RUN_STATE_CHANGE''"
  using assms append_audit_shape
  by (fastforce simp: audit_state_def Let_def desk_audit_def res_iff action_text_def dest!: on_db_world)

text \<open>C6. \<open>execute\<close> is all or nothing: a run that was RUNNING ends COMPLETED with its metrics, or
  FAILED with the class of the error; then nothing the run did remains: the whole office
  is as it was but for the row of the run and one entry on the runs chain. Either way the
  office is consistent, other runs keep their rows, and ledger and exceptions only go
  forward.\<close>

theorem execute_all_or_nothing:
  assumes "execute_run sv rg i now ended took o1 = Inr o2" "office_ok o1" "distinct (map fst (rg_loaded rg))"
  shows "office_ok o2 \<and> follows o1 o2
    \<and> (\<exists>run fin. find_run i (of_runs o1) = Some run \<and> rn_status run = RUNNING \<and> same_run run fin
         \<and> of_runs o2 = set_run i (\<lambda>_. fin) (of_runs o1) \<and> rn_completed fin = Some ended
         \<and> (case run_work sv rg run now o1 of
              Inr _ \<Rightarrow> rn_status fin = COMPLETED \<and> rn_metrics fin \<noteq> None \<and> rn_error fin = None
            | Inl e \<Rightarrow> rn_status fin = FAILED \<and> rn_metrics fin = None \<and> rn_error fin = Some (sv_class sv e)
                \<and> (\<exists>row. action_type row = ''RUN_STATE_CHANGE''
                     \<and> o2 = o1\<lparr>of_runs := of_runs o2, of_desk := (of_desk o1)\<lparr>dk_world := (dk_world (of_desk o1))\<lparr>w_db :=
                         (w_db (dk_world (of_desk o1)))\<lparr>audit_log := audit_log (w_db (dk_world (of_desk o1))) @ [row],
                           next_id := next_id (w_db (dk_world (of_desk o1))) + 1\<rparr>\<rparr>\<rparr>\<rparr>)))"
proof -
  obtain run where r: "find_run i (of_runs o1) = Some run" "rn_status run = RUNNING" "carry_out sv rg run now ended took o1 = Inr o2"
    using assms(1) by (auto simp: execute_run_def split: option.splits if_splits)
  have ok: "runs_ok (of_runs o1)" using assms(2) by (simp add: office_ok_def)
  have run: "run \<in> set (of_runs o1)" "rn_id run = i" using find_run_some[OF r(1)] by simp_all
  have one: "set_run i g (of_runs o1) = set_run i (\<lambda>_. g run) (of_runs o1)" for g
    using run_one[OF ok run(1)] run(2) by (auto simp: set_run_def)
  have fin: "\<exists>fin. same_run run fin
         \<and> of_runs o2 = set_run i (\<lambda>_. fin) (of_runs o1) \<and> rn_completed fin = Some ended
         \<and> (case run_work sv rg run now o1 of
              Inr _ \<Rightarrow> rn_status fin = COMPLETED \<and> rn_metrics fin \<noteq> None \<and> rn_error fin = None
            | Inl e \<Rightarrow> rn_status fin = FAILED \<and> rn_metrics fin = None \<and> rn_error fin = Some (sv_class sv e)
                \<and> (\<exists>row. action_type row = ''RUN_STATE_CHANGE''
                     \<and> o2 = o1\<lparr>of_runs := of_runs o2, of_desk := (of_desk o1)\<lparr>dk_world := (dk_world (of_desk o1))\<lparr>w_db :=
                         (w_db (dk_world (of_desk o1)))\<lparr>audit_log := audit_log (w_db (dk_world (of_desk o1))) @ [row],
                           next_id := next_id (w_db (dk_world (of_desk o1))) + 1\<rparr>\<rparr>\<rparr>\<rparr>))"
  proof (cases "run_work sv rg run now o1")
    case (Inl e)
    obtain d before why where f: "audit_state sv run before FAILED why ended None (of_desk o1) = Inr d"
      "o2 = o1\<lparr>of_desk := d, of_runs := set_run i (\<lambda>r. r\<lparr>rn_status := FAILED, rn_completed := Some ended, rn_metrics := None,
          rn_error := Some (sv_class sv e)\<rparr>) (of_runs o1)\<rparr>"
      using r(1,3) by (auto simp: carry_out_def Inl run(2) elim!: finish_shape)
    show ?thesis
      by (rule exI[of _ "run\<lparr>rn_status := FAILED, rn_completed := Some ended, rn_metrics := None, rn_error := Some (sv_class sv e)\<rparr>"])
        (use f(2) one[of "\<lambda>r. r\<lparr>rn_status := FAILED, rn_completed := Some ended, rn_metrics := None,
          rn_error := Some (sv_class sv e)\<rparr>"] audit_state_exact[OF f(1)] r(1,2) in \<open>auto simp: Inl same_run_def\<close>)
  next
    case (Inr x)
    obtain work ow where x: "x = (work, ow)" by (cases x)
    have runs: "of_runs ow = of_runs o1" using work_ok[OF Inr[unfolded x] assms(2,3)] by blast
    obtain m d where "finish_run sv i COMPLETED (Some m) None ended (ow\<lparr>of_desk := d\<rparr>) = Inr o2"
      using r(3) by (auto simp: carry_out_def Inr x Let_def res_iff run(2))
    then have f: "of_runs o2 = set_run i (\<lambda>r. r\<lparr>rn_status := COMPLETED, rn_completed := Some ended, rn_metrics := Some m,
          rn_error := None\<rparr>) (of_runs o1)"
      by (rule finish_shape) (simp add: runs)
    show ?thesis
      by (rule exI[of _ "run\<lparr>rn_status := COMPLETED, rn_completed := Some ended, rn_metrics := Some m, rn_error := None\<rparr>"])
        (use f one[of "\<lambda>r. r\<lparr>rn_status := COMPLETED, rn_completed := Some ended, rn_metrics := Some m, rn_error := None\<rparr>"] r(1,2)
          in \<open>auto simp: Inr same_run_def\<close>)
  qed
  have "office_ok o2" "follows o1 o2" using carry_out_ok[OF r(3) assms(2,3)] by blast+
  then show ?thesis using r(1,2) fin by blast
qed


lemma only_key:
  assumes "distinct (map f xs)" "x \<in> set xs"
  shows "filter (\<lambda>y. f y = f x) xs = [x]"
proof -
  obtain as bs where sp: "xs = as @ x # bs" using assms(2) by (meson split_list)
  have "f x \<notin> f ` (set as \<union> set bs)" using assms(1) by (auto simp: sp simp del: image_iff)
  then have "f y \<noteq> f x" if "y \<in> set as \<union> set bs" for y using that by (metis imageI)
  then show ?thesis by (simp add: sp filter_False)
qed

lemma find_filter: "find P xs = (case filter P xs of [] \<Rightarrow> None | x # _ \<Rightarrow> Some x)"
  by (induction xs) simp_all

lemma audit_state_total:
  assumes "\<And>x y. sv_sha sv x = sv_sha sv y \<Longrightarrow> x = y" "logged (sv_sha sv) (w_db (dk_world d))" "next_id (w_db (dk_world d)) < 16 ^ 32" "0 \<le> at_time"
  shows "\<exists>d'. audit_state sv run before after why at_time None d = Inr d' \<and> logged (sv_sha sv) (w_db (dk_world d'))"
proof -
  have a: "\<exists>db'. append_audit (sv_sha sv) runs_chain (if before = ''NONE'' then ''USER'' else ''SYSTEM'') aid RUN_STATE_CHANGE affected w at_time x y
      (w_db (dk_world d)) = Inr db' \<and> logged (sv_sha sv) db'" if "no_float affected" "no_float x" "no_float y" for aid affected w x y
    by (rule append_audit_total[OF assms(1)]) (use assms(2-4) that in simp_all)
  show ?thesis
    using a[of "JObj [(''run_id'', id_json (rn_id run)), (''bank_code'', JStr (rn_bank run))]" "JObj [(''status'', JStr before)]"
        "JObj [(''status'', JStr (run_status_text after)), (''mode'', JStr (rn_mode run))]"]
    by (fastforce simp: audit_state_def Let_def desk_audit_def on_db_def on_world_def id_json_def res_iff)
qed

lemma start_hit:
  assumes "start_run sv seen rq i now o1 = Inr ((j, created), o2)" "office_ok o1"
    "list_all (\<lambda>r. \<exists>q \<in> set (of_runs o1). same_run r q) seen"
  shows "\<exists>run \<in> set (of_runs o2). rn_key run = rq_key rq \<and> rn_id run = j
    \<and> (rn_bank run, rn_mode run, rn_from run, rn_to run) = (rq_bank rq, rq_mode rq, rq_from rq, rq_to rq)
    \<and> created = (rq_key rq \<notin> rn_key ` set (of_runs o1))
    \<and> length (of_runs o2) = length (of_runs o1) + (if created then 1 else 0)"
proof -
  define runs where "runs = reap_stale (st_stale (sv_settings sv)) (rq_bank rq) now (of_runs o1)"
  have range: "ordered_range (rq_from rq) (rq_to rq)" using assms(1) by (auto simp: start_run_def split: if_splits)
  have same: "list_all2 same_run (of_runs o1) runs" unfolding runs_def by (rule reap_same)
  then have len: "length runs = length (of_runs o1)" by (simp add: list_all2_lengthD)
  have keys: "rn_key ` set runs = rn_key ` set (of_runs o1)" using same_runs_keys(2)[OF same] by (metis list.set_map)
  note s = assms(1)[unfolded start_run_def Let_def runs_def[symmetric]]
  show ?thesis
  proof (cases "by_key (rq_key rq) seen")
    case (Some r)
    then have "r \<in> set seen" "rn_key r = rq_key rq" using by_key_some by blast+
    then obtain q where q: "q \<in> set (of_runs o1)" "same_run r q" "rn_key q = rq_key rq"
      using assms(3) by (auto simp: list_all_iff same_run_def)
    have "o2 = o1" "replay r rq = Inr (j, created)" using s range by (auto simp: Some res_iff)
    moreover have "rq_key rq \<in> rn_key ` set (of_runs o1)" using q(1,3) by (metis imageI)
    ultimately show ?thesis using q by (intro bexI[of _ q]) (auto simp: replay_def same_run_def split: if_splits)
  next
    case None
    show ?thesis
    proof (cases "insert_run (new_run i rq now) runs")
      case (Stored runs')
      have "runs_ok runs" unfolding runs_def using reap_ok assms(2) by (simp add: office_ok_def)
      note in_ok = insert_ok[OF Stored this new_run_ok[OF range Stored]]
      have "of_runs o2 = runs'" "j = i" "created" using s range None by (auto simp: Stored res_iff)
      then show ?thesis
        using in_ok len keys by (intro bexI[of _ "new_run i rq now"]) (auto simp: new_run_def)
    next
      case Key_taken
      then obtain q where q: "by_key (rq_key rq) runs = Some q" "replay q rq = Inr (j, created)" "o2 = o1\<lparr>of_runs := runs\<rparr>"
        using s range None by (auto simp: res_iff split: option.splits)
      have k: "q \<in> set runs" "rn_key q = rq_key rq" using by_key_some[OF q(1)] by simp_all
      then have "rq_key rq \<in> rn_key ` set (of_runs o1)" unfolding keys[symmetric] by (metis imageI)
      then show ?thesis
        using q k len by (intro bexI[of _ q]) (auto simp: replay_def split: if_splits)
    qed (use s range None in auto)
  qed
qed

text \<open>C8. Starting is idempotent, however stale the first look at the table was: the run of the
  key is one row with the fields of the request, it is new exactly when the key was; the
  same request again finds that run and changes nothing, another request under the key is
  refused.\<close>

theorem start_idempotent:
  assumes "start_run sv seen rq i now o1 = Inr ((j, created), o2)" "office_ok o1"
    "list_all (\<lambda>r. \<exists>q \<in> set (of_runs o1). same_run r q) seen"
  shows "(\<exists>run. filter (\<lambda>r. rn_key r = rq_key rq) (of_runs o2) = [run] \<and> rn_id run = j
           \<and> (rn_bank run, rn_mode run, rn_from run, rn_to run) = (rq_bank rq, rq_mode rq, rq_from rq, rq_to rq))
    \<and> created = (rq_key rq \<notin> rn_key ` set (of_runs o1))
    \<and> length (of_runs o2) = length (of_runs o1) + (if created then 1 else 0)
    \<and> start_run sv (of_runs o2) rq i' now' o2 = Inr ((j, False), o2)
    \<and> (\<forall>other. rq_key other = rq_key rq \<and> ordered_range (rq_from other) (rq_to other)
          \<and> (rq_bank other, rq_mode other, rq_from other, rq_to other) \<noteq> (rq_bank rq, rq_mode rq, rq_from rq, rq_to rq)
        \<longrightarrow> start_run sv (of_runs o2) other i' now' o2 = Inl IdempotencyConflictError)"
proof -
  have range: "ordered_range (rq_from rq) (rq_to rq)" using assms(1) by (auto simp: start_run_def split: if_splits)
  have ok2: "runs_ok (of_runs o2)" using start_ok[OF assms(1,2)] by (simp add: office_ok_def)
  obtain run where run: "run \<in> set (of_runs o2)" "rn_key run = rq_key rq" "rn_id run = j"
      "(rn_bank run, rn_mode run, rn_from run, rn_to run) = (rq_bank rq, rq_mode rq, rq_from rq, rq_to rq)"
    and grows: "created = (rq_key rq \<notin> rn_key ` set (of_runs o1))" "length (of_runs o2) = length (of_runs o1) + (if created then 1 else 0)"
    using start_hit[OF assms] by blast
  have d: "distinct (map rn_key (of_runs o2))" using ok2 by (simp add: runs_ok_def)
  have one: "filter (\<lambda>r. rn_key r = rq_key rq) (of_runs o2) = [run]" using only_key[OF d run(1)] run(2) by simp
  then have "by_key (rq_key rq) (of_runs o2) = Some run" by (simp add: by_key_def find_filter)
  then have "start_run sv (of_runs o2) other i' now' o2 = (if \<not> ordered_range (rq_from other) (rq_to other) then Inl ValueError
      else bind_res (replay run other) (\<lambda>x. Inr (x, o2)))" if "rq_key other = rq_key rq" for other
    by (simp add: start_run_def that)
  then show ?thesis using one run(3,4) grows range by (auto simp: replay_def)
qed


text \<open>A failing run does end: its FAILED row and the audit entry are written. An error of the
  alerts is outside the \<open>try\<close>: it is the caller's, and the row stays RUNNING.\<close>

lemma failed_work_returns:
  assumes "find_run i (of_runs o1) = Some run" "rn_status run = RUNNING" "run_work sv rg run now o1 = Inl e"
    "\<And>x y. sv_sha sv x = sv_sha sv y \<Longrightarrow> x = y" "logged (sv_sha sv) (w_db (dk_world (of_desk o1)))"
    "next_id (w_db (dk_world (of_desk o1))) < 16 ^ 32" "0 \<le> ended"
  shows "\<exists>o2. execute_run sv rg i now ended took o1 = Inr o2"
proof -
  have "rn_id run = i" using find_run_some[OF assms(1)] by blast
  moreover obtain d where "audit_state sv run (run_status_text RUNNING) FAILED
      (if sv_class sv e = [] then ''run completed'' else sv_class sv e) ended None (of_desk o1) = Inr d"
    using audit_state_total[OF assms(4-7)] by blast
  ultimately show ?thesis
    using assms(1-3) by (simp add: execute_run_def carry_out_def finish_run_def)
qed

lemma alerts_error_escapes:
  assumes "find_run i (of_runs o1) = Some run" "rn_status run = RUNNING" "run_work sv rg run now o1 = Inr (work, o2)"
    "match_rate_draft (sv_monitor sv) (uuid_str (rn_id run)) (rn_bank run) (judged (run_metrics_of sv rg run took work)) = Inl e"
  shows "execute_run sv rg i now ended took o1 = Inl e"
  using assms by (simp add: execute_run_def carry_out_def evaluate_run_def Let_def)

section \<open>Witnesses\<close>

definition sample_settings :: run_settings where
  "sample_settings =
     default_settings shipped_config sample_taxonomy sample_registry"

definition sample_services :: services where
  "sample_services =
     \<lparr>sv_settings = sample_settings, sv_monitor = sample_monitor, sv_sha = sample_sha, sv_known = [(''INR'', 2)],
      sv_similarity = sample_similarity, sv_text = fixed 3, sv_say = (\<lambda>_. []), sv_class = (\<lambda>_. ''DataError''),
      sv_calendars = sample_calendar, sv_why = (\<lambda>_. [])\<rparr>"

definition empty_office :: office where
  "empty_office = \<lparr>of_desk = empty_desk, of_runs = [], of_configs = [], of_rates = []\<rparr>"

lemma empty_office_ok: "office_ok empty_office"
  by (simp add: office_ok_def empty_office_def empty_desk_ok runs_ok_def configs_ok_def)

definition sample_request :: run_request where
  "sample_request =
     \<lparr>rq_bank = ''HDFC'', rq_key = ''morning-1'', rq_by = ''ann'', rq_mode = ''FULL'', rq_from = None, rq_to = None, rq_defer = False\<rparr>"

text \<open>A configuration whose version is longer than its column: valid for the loader, and
  refused by the table at every run.\<close>

definition long_registry :: bank_registry where
  "long_registry =
     sample_registry\<lparr>rg_loaded := [(''HDFC'', \<lparr>lc_config = sample_bank\<lparr>bk_version := replicate 51 CHR ''v''\<rparr>,
        lc_path = ''hdfc.yaml'', lc_sha = ''good''\<rparr>)]\<rparr>"

lemma sample_start:
  "\<exists>o2. start_run sample_services [] sample_request 7 5 empty_office = Inr ((7, True), o2)
    \<and> of_runs o2 = [new_run 7 sample_request 5] \<and> logged sample_sha (w_db (dk_world (of_desk o2)))
    \<and> next_id (w_db (dk_world (of_desk o2))) = 1 \<and> of_configs o2 = []"
proof -
  have sha: "sv_sha sample_services = sample_sha" by (simp add: sample_services_def)
  have "logged sample_sha (w_db (dk_world empty_desk))" "next_id (w_db (dk_world empty_desk)) = 0"
    by (simp_all add: empty_desk_def empty_db_def logged_def)
  then obtain d where d: "audit_state sample_services (new_run 7 sample_request 5) ''NONE'' RUNNING ''requested by ann'' 5 None empty_desk = Inr d"
    "logged sample_sha (w_db (dk_world d))"
    using audit_state_total[of sample_services empty_desk 5, unfolded sha, OF sample_sha_inj] by fastforce
  have "next_id (w_db (dk_world d)) = 1" using audit_state_exact[OF d(1)] by (auto simp: empty_desk_def empty_db_def)
  then show ?thesis
    using d by (simp add: start_run_def by_key_def ordered_range_def reap_stale_def empty_office_def insert_run_def Let_def sample_request_def new_run_def
        bank_busy_def)
qed

theorem start_idempotent_witness:
  "\<exists>o2. start_run sample_services [] sample_request 7 5 empty_office = Inr ((7, True), o2) \<and> length (of_runs o2) = 1
     \<and> start_run sample_services (of_runs o2) sample_request 8 6 o2 = Inr ((7, False), o2)
     \<and> start_run sample_services (of_runs o2) (sample_request\<lparr>rq_mode := ''FAST''\<rparr>) 8 6 o2 = Inl IdempotencyConflictError"
proof -
  obtain o2 where s: "start_run sample_services [] sample_request 7 5 empty_office = Inr ((7, True), o2)" using sample_start by blast
  from start_idempotent[OF s empty_office_ok, of 8 6] show ?thesis
    using s by (intro exI[of _ o2]) (simp add: empty_office_def sample_request_def ordered_range_def)
qed

theorem execute_all_or_nothing_witness:
  "\<exists>o1 o2. start_run sample_services [] sample_request 7 5 empty_office = Inr ((7, True), o1)
     \<and> execute_run sample_services long_registry 7 6 7 \<lparr>du_exact = 0, du_fuzzy = 0, du_rules = 0, du_total = 0\<rparr> o1 = Inr o2
     \<and> office_ok o2 \<and> map rn_status (of_runs o2) = [FAILED] \<and> map rn_error (of_runs o2) = [Some ''DataError'']"
proof -
  let ?d = "\<lparr>du_exact = 0, du_fuzzy = 0, du_rules = 0, du_total = 0\<rparr>"
  let ?run = "new_run 7 sample_request 5"
  obtain o1 where s: "start_run sample_services [] sample_request 7 5 empty_office = Inr ((7, True), o1)" "of_runs o1 = [?run]"
    "logged sample_sha (w_db (dk_world (of_desk o1)))" "next_id (w_db (dk_world (of_desk o1))) = 1" "of_configs o1 = []"
    using sample_start by blast
  have ok: "office_ok o1" using start_ok[OF s(1) empty_office_ok] by blast
  have d: "distinct (map fst (rg_loaded long_registry))" by (simp add: long_registry_def)
  have c: "configs_ok (of_configs o1)" using ok by (simp add: office_ok_def)
  obtain err where "sync_bank_configurations sample_sha long_registry ''system:run-service'' 6 (of_configs o1) (w_db (dk_world (of_desk o1))) = Inl err"
    using long_version_stops_sync[of "''HDFC''" _ long_registry, OF _ _ c _ d] by (fastforce simp: long_registry_def s(5))
  then have w: "\<exists>err. run_work sample_services long_registry ?run 6 o1 = Inl err"
    by (simp add: run_work_def Let_def sample_services_def)
  have f: "find_run 7 (of_runs o1) = Some ?run" "rn_id ?run = 7" "rn_status ?run = RUNNING"
    by (simp_all add: s(2) find_run_def new_run_def sample_request_def)
  have sha: "sv_sha sample_services = sample_sha" by (simp add: sample_services_def)
  obtain o2 where x: "execute_run sample_services long_registry 7 6 7 ?d o1 = Inr o2"
    using failed_work_returns[of 7 o1 ?run sample_services, unfolded sha, OF f(1,3) _ sample_sha_inj s(3)] w s(4) by fastforce
  from execute_all_or_nothing[OF x ok d] show ?thesis
    using s(1,2) x w f by (intro exI[of _ o1] exI[of _ o2]) (auto simp: set_run_def sample_services_def)
qed

end
