(* ===== verification/Backlog.thy ===== *)
theory Backlog
  imports Runs
begin

text \<open>
  Backlog recovery (\<open>runs/backlog.py\<close>), the run endpoints (\<open>api/v1/runs.py\<close>) and what happens
  when several of them are at work at once. A pass commits as it goes: where it fails the
  office is what the last commit left, so an operation returns an office beside its error.
\<close>

section \<open>The pass over one bank\<close>

record day_run =
  dy_day :: date
  dy_run :: nat
  dy_status :: run_status
  dy_exact :: nat

record bank_backlog =
  bb_bank :: string
  bb_days :: "day_run list"
  bb_failed :: "date list"
  bb_queued :: "nat option"

definition bb_exact_matched :: "bank_backlog \<Rightarrow> nat" where
  "bb_exact_matched bb = sum_list (map dy_exact (bb_days bb))"

definition days_newest_first :: "db \<Rightarrow> string \<Rightarrow> date option \<Rightarrow> date option \<Rightarrow> date list" where
  "days_newest_first db bank date_from date_to =
     rev (sort (remdups (map t_date (filter (\<lambda>t. available db bank (t_source t) date_from date_to t) (txns db)))))"

text \<open>What one run draws from outside: its id, the clock, the registry it looks at.\<close>

record tick =
  tk_id :: nat
  tk_start :: instant
  tk_begin :: instant
  tk_end :: instant
  tk_took :: durations
  tk_registry :: bank_registry

definition backlog_key :: "string \<Rightarrow> string \<Rightarrow> string \<Rightarrow> string" where
  "backlog_key batch bank what = ''backlog:'' @ batch @ '':'' @ bank @ '':'' @ what"

definition day_request :: "string \<Rightarrow> string \<Rightarrow> string \<Rightarrow> date \<Rightarrow> run_request" where
  "day_request batch bank by day =
     \<lparr>rq_bank = bank, rq_key = backlog_key batch bank (date_iso day), rq_by = by, rq_mode = ''FAST'', rq_from = Some day,
      rq_to = Some day, rq_defer = False\<rparr>"

definition full_request :: "string \<Rightarrow> string \<Rightarrow> string \<Rightarrow> date option \<Rightarrow> date option \<Rightarrow> run_request" where
  "full_request batch bank by date_from date_to =
     \<lparr>rq_bank = bank, rq_key = backlog_key batch bank ''full'', rq_by = by, rq_mode = ''FULL'', rq_from = date_from,
      rq_to = date_to, rq_defer = True\<rparr>"

definition execute_tick :: "services \<Rightarrow> nat \<Rightarrow> tick \<Rightarrow> office \<Rightarrow> office res" where
  "execute_tick sv i t = execute_run sv (tk_registry t) i (tk_begin t) (tk_end t) (tk_took t)"

definition add_day :: "date \<Rightarrow> run_row \<Rightarrow> bank_backlog \<Rightarrow> bank_backlog" where
  "add_day day run bb =
     bb\<lparr>bb_failed := (if rn_status run \<noteq> COMPLETED then bb_failed bb @ [day] else bb_failed bb),
        bb_days := bb_days bb @ [\<lparr>dy_day = day, dy_run = rn_id run, dy_status = rn_status run,
          dy_exact = (case rn_metrics run of None \<Rightarrow> 0 | Some m \<Rightarrow> mt_exact m)\<rparr>]\<rparr>"

definition process_day ::
    "services \<Rightarrow> string \<Rightarrow> string \<Rightarrow> string \<Rightarrow> tick \<Rightarrow> date \<Rightarrow> bank_backlog \<Rightarrow> office \<Rightarrow> bank_backlog res \<times> office" where
  "process_day sv batch bank by t day bb o1 =
     (case start_run sv (of_runs o1) (day_request batch bank by day) (tk_id t) (tk_start t) o1 of
        Inl e \<Rightarrow> (if e = RunAlreadyActiveError then Inr (bb\<lparr>bb_failed := bb_failed bb @ [day]\<rparr>) else Inl e, o1)
      | Inr ((i, created), o2) \<Rightarrow>
          (case (if created then execute_tick sv i t o2 else Inr o2) of
             Inl e \<Rightarrow> (if e = RunAlreadyActiveError then Inr (bb\<lparr>bb_failed := bb_failed bb @ [day]\<rparr>) else Inl e, o2)
           | Inr o3 \<Rightarrow>
               (case find_run i (of_runs o3) of
                  None \<Rightarrow> (Inl LookupFailed, o3)
                | Some run \<Rightarrow> (Inr (add_day day run bb), o3))))"

fun process_days ::
    "services \<Rightarrow> string \<Rightarrow> string \<Rightarrow> string \<Rightarrow> (tick \<times> date) list \<Rightarrow> bank_backlog \<Rightarrow> office \<Rightarrow> bank_backlog res \<times> office" where
  "process_days sv batch bank by [] bb o1 = (Inr bb, o1)"
| "process_days sv batch bank by ((t, day) # days) bb o1 =
     (case process_day sv batch bank by t day bb o1 of
        (Inl e, o2) \<Rightarrow> (Inl e, o2)
      | (Inr bb', o2) \<Rightarrow> process_days sv batch bank by days bb' o2)"

record batch =
  ba_key :: string
  ba_by :: string
  ba_from :: "date option"
  ba_to :: "date option"
  ba_full :: bool

definition queue_full :: "services \<Rightarrow> batch \<Rightarrow> string \<Rightarrow> tick \<Rightarrow> bank_backlog \<Rightarrow> office \<Rightarrow> bank_backlog res \<times> office" where
  "queue_full sv ba bank t bb o1 =
     (if \<not> ba_full ba then (Inr bb, o1)
      else case start_run sv (of_runs o1) (full_request (ba_key ba) bank (ba_by ba) (ba_from ba) (ba_to ba)) (tk_id t) (tk_start t) o1 of
        Inl e \<Rightarrow> (Inl e, o1)
      | Inr ((i, _), o2) \<Rightarrow>
          (case find_run i (of_runs o2) of
             None \<Rightarrow> (Inl LookupFailed, o2)
           | Some run \<Rightarrow> (Inr (if rn_status run = PENDING then bb\<lparr>bb_queued := Some i\<rparr> else bb), o2)))"

definition process_bank :: "services \<Rightarrow> batch \<Rightarrow> (nat \<Rightarrow> tick) \<Rightarrow> string \<Rightarrow> office \<Rightarrow> bank_backlog res \<times> office" where
  "process_bank sv ba ticks bank o1 =
     (let days = days_newest_first (w_db (dk_world (of_desk o1))) bank (ba_from ba) (ba_to ba) in
      case process_days sv (ba_key ba) bank (ba_by ba) (zip (map ticks [0..<length days]) days)
             \<lparr>bb_bank = bank, bb_days = [], bb_failed = [], bb_queued = None\<rparr> o1 of
        (Inl e, o2) \<Rightarrow> (Inl e, o2)
      | (Inr bb, o2) \<Rightarrow> queue_full sv ba bank (ticks (length days)) bb o2)"

text \<open>The banks of a batch with the serial map: an error ends the batch, what was committed stays.\<close>

fun run_backlog :: "services \<Rightarrow> batch \<Rightarrow> ((nat \<Rightarrow> tick) \<times> string) list \<Rightarrow> office \<Rightarrow> bank_backlog list res \<times> office" where
  "run_backlog sv ba [] o1 = (Inr [], o1)"
| "run_backlog sv ba ((ticks, bank) # banks) o1 =
     (case process_bank sv ba ticks bank o1 of
        (Inl e, o2) \<Rightarrow> (Inl e, o2)
      | (Inr bb, o2) \<Rightarrow>
          (case run_backlog sv ba banks o2 of
             (Inl e, o3) \<Rightarrow> (Inl e, o3)
           | (Inr bbs, o3) \<Rightarrow> (Inr (bb # bbs), o3)))"

text \<open>The background half. When the bank is busy the run is FAILED without an entry on the
  audit chain, and the session commits with what \<open>activate\<close> reaped before the conflict.\<close>

definition queued_conflict :: "services \<Rightarrow> nat \<Rightarrow> instant \<Rightarrow> instant \<Rightarrow> office \<Rightarrow> office" where
  "queued_conflict sv i now ended o1 =
     (case find_run i (of_runs o1) of
        None \<Rightarrow> o1
      | Some run \<Rightarrow>
          if rn_status run \<noteq> PENDING then o1
          else o1\<lparr>of_runs := set_run i (\<lambda>r. r\<lparr>rn_status := FAILED, rn_completed := Some ended,
                   rn_error := Some ''another run for this bank was active; queue it again''\<rparr>)
                 (reap_stale (st_stale (sv_settings sv)) (rn_bank run) now (of_runs o1))\<rparr>)"

definition run_queued :: "services \<Rightarrow> nat \<Rightarrow> tick \<Rightarrow> office \<Rightarrow> unit res \<times> office" where
  "run_queued sv i t o1 =
     (case activate sv i (tk_start t) o1 of
        Inl e \<Rightarrow> if e = RunAlreadyActiveError then (Inr (), queued_conflict sv i (tk_start t) (tk_end t) o1) else (Inl e, o1)
      | Inr o2 \<Rightarrow> (case execute_tick sv i t o2 of Inl e \<Rightarrow> (Inl e, o2) | Inr o3 \<Rightarrow> (Inr (), o3)))"

section \<open>The endpoints\<close>

text \<open>\<open>POST /reconciliation/run\<close>: the status of the answer and the run in it.\<close>

definition start_reconciliation :: "services \<Rightarrow> run_row list \<Rightarrow> run_request \<Rightarrow> tick \<Rightarrow> office \<Rightarrow> (nat \<times> run_row) res \<times> office" where
  "start_reconciliation sv seen rq t o1 =
     (if st_banks (sv_settings sv) (rq_bank rq) = None then (Inl (HttpError 422), o1)
      else case start_run sv seen rq (tk_id t) (tk_start t) o1 of
        Inl e \<Rightarrow> (Inl (if e = IdempotencyConflictError \<or> e = RunAlreadyActiveError then HttpError 409 else e), o1)
      | Inr ((i, created), o2) \<Rightarrow>
          (case (if created then execute_tick sv i t o2 else Inr o2) of
             Inl e \<Rightarrow> (Inl e, o2)
           | Inr o3 \<Rightarrow>
               (case find_run i (of_runs o3) of
                  None \<Rightarrow> (Inl LookupFailed, o3)
                | Some run \<Rightarrow> (Inr (if created then 201 else 200, run), o3))))"

record 'a page =
  pg_items :: "'a list"
  pg_total :: nat
  pg_limit :: nat
  pg_offset :: nat

definition page_of :: "nat \<Rightarrow> nat \<Rightarrow> 'a list \<Rightarrow> 'a page" where
  "page_of limit offset rows =
     \<lparr>pg_items = take limit (drop offset rows), pg_total = length rows, pg_limit = limit, pg_offset = offset\<rparr>"

definition wanted :: "'a option \<Rightarrow> 'a \<Rightarrow> bool" where
  "wanted f x = (case f of None \<Rightarrow> True | Some y \<Rightarrow> x = y)"

definition list_runs :: "string option \<Rightarrow> run_status option \<Rightarrow> nat \<Rightarrow> nat \<Rightarrow> office \<Rightarrow> run_row page" where
  "list_runs bank status limit offset o1 =
     page_of limit offset
       (sort_key (\<lambda>r. (- rn_created r, rn_id r)) (filter (\<lambda>r. wanted bank (rn_bank r) \<and> wanted status (rn_status r)) (of_runs o1)))"

definition list_results ::
    "nat \<Rightarrow> result_status option \<Rightarrow> match_type option \<Rightarrow> nat \<Rightarrow> nat \<Rightarrow> (nat \<Rightarrow> instant) \<Rightarrow> office \<Rightarrow> result page res" where
  "list_results run status type limit offset created_at o1 =
     (if find_run run (of_runs o1) = None then Inl (HttpError 404)
      else Inr (page_of limit offset
        (sort_key (\<lambda>r. (created_at (r_id r), r_id r))
          (filter (\<lambda>r. r_run r = uuid_str run \<and> wanted status (r_status r) \<and> wanted type (r_type r))
            (results (w_db (dk_world (of_desk o1))))))))"

record backlog_body =
  bo_banks :: "string list option"
  bo_from :: "date option"
  bo_to :: "date option"
  bo_full :: bool

text \<open>\<open>POST /reconciliation/backlog\<close> without its report: \<open>configured\<close> are the banks of the
  settings, the background jobs are the ids to queue.\<close>

definition recover_backlog ::
    "services \<Rightarrow> string list \<Rightarrow> string \<Rightarrow> string \<Rightarrow> backlog_body \<Rightarrow> (string \<Rightarrow> nat \<Rightarrow> tick) \<Rightarrow> office
     \<Rightarrow> (bank_backlog list \<times> nat list) res \<times> office" where
  "recover_backlog sv configured key by body ticks o1 =
     (let banks = sort (case bo_banks body of None \<Rightarrow> configured | Some bs \<Rightarrow> bs);
          ba = \<lparr>ba_key = take 20 (sv_sha sv key), ba_by = by, ba_from = bo_from body, ba_to = bo_to body, ba_full = bo_full body\<rparr> in
      if filter (\<lambda>b. st_banks (sv_settings sv) b = None) banks \<noteq> [] then (Inl (HttpError 422), o1)
      else case run_backlog sv ba (map (\<lambda>b. (ticks b, b)) banks) o1 of
        (Inl e, o2) \<Rightarrow> (Inl e, o2)
      | (Inr bbs, o2) \<Rightarrow> (Inr (bbs, List.map_filter bb_queued bbs), o2))"


section \<open>A pass keeps the office consistent\<close>

definition tick_ok :: "tick \<Rightarrow> bool" where
  "tick_ok t = distinct (map fst (rg_loaded (tk_registry t)))"

text \<open>An office that goes on consistently.\<close>

definition sound :: "office \<Rightarrow> office \<Rightarrow> bool" where
  "sound o1 o2 = (office_ok o1 \<longrightarrow> office_ok o2 \<and> follows o1 o2)"

lemma sound_refl [simp]: "sound o1 o1"
  by (simp add: sound_def)

lemma sound_trans: "\<lbrakk>sound o1 o2; sound o2 o3\<rbrakk> \<Longrightarrow> sound o1 o3"
  unfolding sound_def using follows_trans by blast

lemma sound_start: "start_run sv seen rq i now o1 = Inr (x, o2) \<Longrightarrow> sound o1 o2"
  unfolding sound_def using start_ok by blast

lemma sound_activate: "activate sv i now o1 = Inr o2 \<Longrightarrow> sound o1 o2"
  unfolding sound_def using activate_ok by blast

lemma sound_execute: "\<lbrakk>execute_tick sv i t o1 = Inr o2; tick_ok t\<rbrakk> \<Longrightarrow> sound o1 o2"
  unfolding sound_def execute_tick_def tick_ok_def using carry_out_ok by (auto simp: execute_run_def split: option.splits if_splits)

lemma sound_day: "\<lbrakk>process_day sv batch bank by t day bb o1 = (r, o2); tick_ok t\<rbrakk> \<Longrightarrow> sound o1 o2"
  by (auto simp: process_day_def split: sum.splits prod.splits if_splits option.splits dest!: sound_start dest: sound_execute sound_trans)

lemma sound_days:
  "\<lbrakk>process_days sv batch bank by days bb o1 = (r, o2); list_all (\<lambda>x. tick_ok (fst x)) days\<rbrakk> \<Longrightarrow> sound o1 o2"
proof (induction days arbitrary: bb o1)
  case (Cons x days)
  obtain t day where x: "x = (t, day)" by (cases x)
  obtain r1 oa where d: "process_day sv batch bank by t day bb o1 = (r1, oa)" by fastforce
  then have "sound o1 oa" using sound_day Cons.prems(2) by (fastforce simp: x)
  moreover have "sound oa o2" using Cons.prems Cons.IH by (cases r1) (auto simp: x d)
  ultimately show ?case using sound_trans by blast
qed simp

lemma sound_full: "queue_full sv ba bank t bb o1 = (r, o2) \<Longrightarrow> sound o1 o2"
  by (auto simp: queue_full_def split: sum.splits prod.splits if_splits option.splits dest: sound_start)

lemma sound_bank: "\<lbrakk>process_bank sv ba ticks bank o1 = (r, o2); \<And>k. tick_ok (ticks k)\<rbrakk> \<Longrightarrow> sound o1 o2"
proof -
  assume p: "process_bank sv ba ticks bank o1 = (r, o2)" and t: "\<And>k. tick_ok (ticks k)"
  define days where "days = days_newest_first (w_db (dk_world (of_desk o1))) bank (ba_from ba) (ba_to ba)"
  obtain r1 oa where d: "process_days sv (ba_key ba) bank (ba_by ba) (zip (map ticks [0..<length days]) days)
      \<lparr>bb_bank = bank, bb_days = [], bb_failed = [], bb_queued = None\<rparr> o1 = (r1, oa)" by fastforce
  have "list_all (\<lambda>x. tick_ok (fst x)) (zip (map ticks [0..<length days]) days)"
    using t by (auto simp: list_all_iff in_set_zip)
  then have "sound o1 oa" using sound_days[OF d] by blast
  moreover have "sound oa o2" using p sound_full by (cases r1) (auto simp: process_bank_def Let_def days_def[symmetric] d)
  ultimately show ?thesis using sound_trans by blast
qed

lemma sound_backlog:
  "\<lbrakk>run_backlog sv ba banks o1 = (r, o2); list_all (\<lambda>x. \<forall>k. tick_ok (fst x k)) banks\<rbrakk> \<Longrightarrow> sound o1 o2"
proof (induction banks arbitrary: r o1)
  case (Cons x banks)
  obtain ticks bank where x: "x = (ticks, bank)" by (cases x)
  obtain r1 oa where d: "process_bank sv ba ticks bank o1 = (r1, oa)" by fastforce
  then have "sound o1 oa" using sound_bank Cons.prems(2) by (fastforce simp: x)
  moreover have "sound oa o2"
    using Cons.prems Cons.IH[of oa] by (cases r1) (auto simp: x d split: prod.splits sum.splits)
  ultimately show ?case using sound_trans by blast
qed simp

lemma sound_conflict: "sound o1 (queued_conflict sv i now ended o1)"
proof (cases "find_run i (of_runs o1)")
  case (Some run)
  define runs where "runs = reap_stale (st_stale (sv_settings sv)) (rn_bank run) now (of_runs o1)"
  define g where "g = (\<lambda>r :: run_row. r\<lparr>rn_status := FAILED, rn_completed := Some ended,
    rn_error := Some ''another run for this bank was active; queue it again''\<rparr>)"
  have same: "same_run r (g r)" for r by (simp add: g_def same_run_def)
  have "runs_ok (set_run i g runs)" if "office_ok o1"
  proof (rule set_run_stops)
    show ok: "runs_ok runs" using that reap_ok by (simp add: runs_def office_ok_def)
    show "row_ok (g r)" if "r \<in> set runs" for r
      using ok that by (auto simp: g_def row_ok_def runs_ok_def list_all_iff)
  qed (simp_all add: g_def same_run_def)
  moreover have "list_all2 same_run (of_runs o1) (set_run i g runs)"
    using same_runs_trans[OF reap_same set_run_same[OF same]] unfolding runs_def by blast
  ultimately show ?thesis
    using follows_runs[of o1 "set_run i g runs" "of_desk o1"]
    by (auto simp: queued_conflict_def Some sound_def runs_def[symmetric] g_def[symmetric] office_ok_def)
qed (simp add: queued_conflict_def)

lemma sound_queued: "\<lbrakk>run_queued sv i t o1 = (r, o2); tick_ok t\<rbrakk> \<Longrightarrow> sound o1 o2"
  by (auto simp: run_queued_def sound_conflict split: sum.splits if_splits dest!: sound_activate dest: sound_execute sound_trans)

lemma sound_reconciliation: "\<lbrakk>start_reconciliation sv seen rq t o1 = (r, o2); tick_ok t\<rbrakk> \<Longrightarrow> sound o1 o2"
  by (auto simp: start_reconciliation_def split: sum.splits prod.splits if_splits option.splits dest!: sound_start
      dest: sound_execute sound_trans)


section \<open>Replaying a batch\<close>

text \<open>The row that carries a request.\<close>

definition carries :: "run_request \<Rightarrow> nat \<Rightarrow> run_row list \<Rightarrow> bool" where
  "carries rq i runs =
     list_ex (\<lambda>r. rn_key r = rq_key rq \<and> rn_id r = i
       \<and> (rn_bank r, rn_mode r, rn_from r, rn_to r) = (rq_bank rq, rq_mode rq, rq_from rq, rq_to rq)) runs"

lemma carries_follows:
  assumes "carries rq i (of_runs o1)" "follows o1 o2"
  shows "carries rq i (of_runs o2)"
proof -
  obtain old new where w: "of_runs o2 = old @ new" "list_all2 same_run (of_runs o1) old" using assms(2) unfolding follows_def by blast
  obtain r where r: "r \<in> set (of_runs o1)" "rn_key r = rq_key rq" "rn_id r = i"
      "(rn_bank r, rn_mode r, rn_from r, rn_to r) = (rq_bank rq, rq_mode rq, rq_from rq, rq_to rq)"
    using assms(1) by (auto simp: carries_def list_ex_iff)
  obtain k where k: "k < length (of_runs o1)" "of_runs o1 ! k = r" using r(1) by (meson in_set_conv_nth)
  then have "old ! k \<in> set old" "same_run r (old ! k)"
    using w(2) list_all2_nthD[OF w(2) k(1)] list_all2_lengthD[OF w(2)] by auto
  then show ?thesis using r w(1) by (force simp: carries_def list_ex_iff same_run_def)
qed

lemma carries_sound: "\<lbrakk>carries rq i (of_runs o1); sound o1 o2; office_ok o1\<rbrakk> \<Longrightarrow> carries rq i (of_runs o2)"
  using carries_follows unfolding sound_def by blast

lemma start_carries:
  "\<lbrakk>start_run sv (of_runs o1) rq i now o1 = Inr ((j, created), o2); office_ok o1\<rbrakk> \<Longrightarrow> carries rq j (of_runs o2)"
  using start_hit[of sv "of_runs o1" rq i now o1 j created o2] same_run_refl by (fastforce simp: carries_def list_ex_iff list_all_iff)

lemma start_again:
  assumes "carries rq j (of_runs o1)" "office_ok o1" "ordered_range (rq_from rq) (rq_to rq)"
  shows "start_run sv (of_runs o1) rq i now o1 = Inr ((j, False), o1) \<and> find_run j (of_runs o1) \<noteq> None"
proof -
  obtain r where r: "r \<in> set (of_runs o1)" "rn_key r = rq_key rq" "rn_id r = j"
      "(rn_bank r, rn_mode r, rn_from r, rn_to r) = (rq_bank rq, rq_mode rq, rq_from rq, rq_to rq)"
    using assms(1) by (auto simp: carries_def list_ex_iff)
  have ok: "runs_ok (of_runs o1)" using assms(2) by (simp add: office_ok_def)
  then have "filter (\<lambda>q. rn_key q = rn_key r) (of_runs o1) = [r]" using only_key[of rn_key "of_runs o1" r] r(1) by (simp add: runs_ok_def)
  then have "by_key (rq_key rq) (of_runs o1) = Some r" by (simp add: by_key_def find_filter r(2)[symmetric])
  then show ?thesis using assms(3) r(3,4) find_run_in[OF ok r(1)] by (simp add: start_run_def replay_def)
qed

text \<open>Every day a pass reports has a row that carries its request.\<close>

definition reported :: "string \<Rightarrow> string \<Rightarrow> string \<Rightarrow> bank_backlog \<Rightarrow> office \<Rightarrow> bool" where
  "reported batch bank by bb o1 = list_all (\<lambda>x. carries (day_request batch bank by (dy_day x)) (dy_run x) (of_runs o1)) (bb_days bb)"

lemma reported_sound: "\<lbrakk>reported batch bank by bb o1; sound o1 o2; office_ok o1\<rbrakk> \<Longrightarrow> reported batch bank by bb o2"
  using carries_sound by (auto simp: reported_def list_all_iff)

lemma day_reported:
  assumes "process_day sv batch bank by t day bb o1 = (Inr bb', o2)" "office_ok o1" "tick_ok t" "reported batch bank by bb o1"
  shows "reported batch bank by bb' o2 \<and> bb_queued bb' = bb_queued bb \<and> bb_bank bb' = bb_bank bb"
proof -
  have s: "sound o1 o2" by (rule sound_day[OF assms(1,3)])
  note r = reported_sound[OF assms(4) s assms(2)]
  consider (refused) "bb' = bb\<lparr>bb_failed := bb_failed bb @ [day]\<rparr>"
    | (ran) i created oa run where "start_run sv (of_runs o1) (day_request batch bank by day) (tk_id t) (tk_start t) o1 = Inr ((i, created), oa)"
        "(if created then execute_tick sv i t oa else Inr oa) = Inr o2" "find_run i (of_runs o2) = Some run" "bb' = add_day day run bb"
    using assms(1) by (auto simp: process_day_def split: sum.splits prod.splits if_splits option.splits)
  then show ?thesis
  proof cases
    case refused
    then show ?thesis using r by (auto simp: reported_def)
  next
    case ran
    have oa: "office_ok oa" using sound_start[OF ran(1)] assms(2) unfolding sound_def by blast
    have "sound oa o2" using ran(2) sound_execute[OF _ assms(3)] by (auto split: if_splits)
    then have "carries (day_request batch bank by day) i (of_runs o2)"
      using carries_sound start_carries[OF ran(1) assms(2)] oa by blast
    moreover have "rn_id run = i" using find_run_some[OF ran(3)] by blast
    ultimately show ?thesis using r by (auto simp: ran(4) reported_def add_day_def)
  qed
qed

lemma days_reported:
  assumes "process_days sv batch bank by days bb o1 = (Inr bb', o2)" "office_ok o1" "list_all (\<lambda>x. tick_ok (fst x)) days"
    "reported batch bank by bb o1"
  shows "reported batch bank by bb' o2 \<and> bb_queued bb' = bb_queued bb \<and> bb_bank bb' = bb_bank bb"
  using assms
proof (induction days arbitrary: bb o1)
  case (Cons x days)
  obtain t day where x: "x = (t, day)" by (cases x)
  obtain bb1 oa where d: "process_day sv batch bank by t day bb o1 = (Inr bb1, oa)"
    "process_days sv batch bank by days bb1 oa = (Inr bb', o2)"
    using Cons.prems(1) by (auto simp: x split: prod.splits sum.splits)
  have t: "tick_ok t" using Cons.prems(3) by (simp add: x)
  note one = day_reported[OF d(1) Cons.prems(2) t Cons.prems(4)]
  have "office_ok oa" using sound_day[OF d(1) t] Cons.prems(2) unfolding sound_def by blast
  from Cons.IH[OF d(2) this] one Cons.prems(3) show ?case by (auto simp: x)
qed simp

lemma day_again:
  assumes "carries (day_request batch bank by day) j (of_runs o1)" "office_ok o1"
  shows "\<exists>run. process_day sv batch bank by t day bb o1 = (Inr (add_day day run bb), o1) \<and> find_run j (of_runs o1) = Some run"
proof -
  have "ordered_range (rq_from (day_request batch bank by day)) (rq_to (day_request batch bank by day))"
    by (simp add: day_request_def ordered_range_def)
  note again = start_again[OF assms this, of sv "tk_id t" "tk_start t"]
  obtain run where "find_run j (of_runs o1) = Some run" using again by blast
  then show ?thesis using again by (simp add: process_day_def)
qed

lemma days_again:
  assumes "\<And>d. d \<in> snd ` set days \<Longrightarrow> \<exists>x \<in> set known. dy_day x = d \<and> carries (day_request batch bank by d) (dy_run x) (of_runs o1)"
    "office_ok o1"
  shows "\<exists>ds fs. process_days sv batch bank by days bb o1 = (Inr (bb\<lparr>bb_days := bb_days bb @ ds, bb_failed := bb_failed bb @ fs\<rparr>), o1)
    \<and> map dy_day ds = map snd days \<and> (\<forall>x \<in> set ds. \<exists>y \<in> set known. dy_day y = dy_day x \<and> dy_run y = dy_run x)"
  using assms(1)
proof (induction days arbitrary: bb)
  case Nil
  show ?case by (intro exI[of _ "[]"]) simp
next
  case (Cons x days)
  obtain t day where x: "x = (t, day)" by (cases x)
  obtain y where y: "y \<in> set known" "dy_day y = day" "carries (day_request batch bank by day) (dy_run y) (of_runs o1)"
    using Cons.prems[of day] by (auto simp: x)
  obtain run where p: "process_day sv batch bank by t day bb o1 = (Inr (add_day day run bb), o1)" "find_run (dy_run y) (of_runs o1) = Some run"
    using day_again[OF y(3) assms(2)] by blast
  have rest: "\<exists>x \<in> set known. dy_day x = d \<and> carries (day_request batch bank by d) (dy_run x) (of_runs o1)" if "d \<in> snd ` set days" for d
    using Cons.prems[of d] that by simp
  obtain ds fs where q: "process_days sv batch bank by days (add_day day run bb) o1
      = (Inr ((add_day day run bb)\<lparr>bb_days := bb_days (add_day day run bb) @ ds, bb_failed := bb_failed (add_day day run bb) @ fs\<rparr>), o1)"
    "map dy_day ds = map snd days" "\<forall>x \<in> set ds. \<exists>y \<in> set known. dy_day y = dy_day x \<and> dy_run y = dy_run x"
    using Cons.IH[OF rest, of "add_day day run bb"] by blast
  have id: "rn_id run = dy_run y" using find_run_some[OF p(2)] by blast
  define z where "z = \<lparr>dy_day = day, dy_run = rn_id run, dy_status = rn_status run, dy_exact = (case rn_metrics run of None \<Rightarrow> 0 | Some m \<Rightarrow> mt_exact m)\<rparr>"
  define f where "f = (if rn_status run \<noteq> COMPLETED then [day] else [])"
  have a: "(add_day day run bb)\<lparr>bb_days := bb_days (add_day day run bb) @ ds, bb_failed := bb_failed (add_day day run bb) @ fs\<rparr>
      = bb\<lparr>bb_days := bb_days bb @ z # ds, bb_failed := bb_failed bb @ f @ fs\<rparr>"
    by (simp add: add_day_def z_def f_def)
  show ?case
  proof (intro exI conjI)
    show "process_days sv batch bank by (x # days) bb o1 = (Inr (bb\<lparr>bb_days := bb_days bb @ z # ds, bb_failed := bb_failed bb @ f @ fs\<rparr>), o1)"
      by (simp add: x p(1) q(1)[unfolded a])
    show "map dy_day (z # ds) = map snd (x # days)" using q(2) by (simp add: z_def x)
    show "\<forall>x \<in> set (z # ds). \<exists>y \<in> set known. dy_day y = dy_day x \<and> dy_run y = dy_run x"
      using q(3) y(1,2) id by (auto simp: z_def)
  qed
qed


lemma at_most_one: "distinct (map f (filter P xs)) \<Longrightarrow> length (filter (\<lambda>x. P x \<and> f x = y) xs) \<le> 1"
proof (induction xs)
  case (Cons x xs)
  have "f z \<noteq> f x" if "P x" "z \<in> set xs" "P z" for z
  proof
    assume e: "f z = f x"
    have "f x \<notin> f ` {z \<in> set xs. P z}" using Cons.prems that(1) by simp
    moreover have "f z \<in> f ` {z \<in> set xs. P z}" using that(2,3) by blast
    ultimately show False by (simp add: e)
  qed
  then have "filter (\<lambda>x. P x \<and> f x = y) xs = []" if "P x" "f x = y"
    using that by (auto simp: filter_empty_conv)
  moreover have "length (filter (\<lambda>x. P x \<and> f x = y) xs) \<le> 1" using Cons by (cases "P x") simp_all
  ultimately show ?case by auto
qed simp

lemma full_carried:
  assumes "queue_full sv ba bank t bb o1 = (Inr bb', o2)" "office_ok o1"
  shows "(\<exists>q. bb' = bb\<lparr>bb_queued := q\<rparr>) \<and> (ba_full ba \<longrightarrow> ordered_range (ba_from ba) (ba_to ba)
      \<and> (\<exists>i run. carries (full_request (ba_key ba) bank (ba_by ba) (ba_from ba) (ba_to ba)) i (of_runs o2) \<and> find_run i (of_runs o2) = Some run
           \<and> bb' = (if rn_status run = PENDING then bb\<lparr>bb_queued := Some i\<rparr> else bb)))"
proof (cases "ba_full ba")
  case False
  then show ?thesis using assms(1) by (auto simp: queue_full_def intro: exI[of _ "bb_queued bb"])
next
  case True
  define rq where "rq = full_request (ba_key ba) bank (ba_by ba) (ba_from ba) (ba_to ba)"
  obtain i created run where r: "start_run sv (of_runs o1) rq (tk_id t) (tk_start t) o1 = Inr ((i, created), o2)"
    "find_run i (of_runs o2) = Some run" "bb' = (if rn_status run = PENDING then bb\<lparr>bb_queued := Some i\<rparr> else bb)"
    using assms(1) True by (auto simp: queue_full_def rq_def[symmetric] split: sum.splits prod.splits option.splits)
  have "ordered_range (rq_from rq) (rq_to rq)" using r(1) by (auto simp: start_run_def split: if_splits)
  then have "ordered_range (ba_from ba) (ba_to ba)" by (simp add: rq_def full_request_def)
  moreover have "\<exists>q. bb' = bb\<lparr>bb_queued := q\<rparr>" using r(3) by (auto intro: exI[of _ "bb_queued bb"])
  ultimately show ?thesis using start_carries[OF r(1) assms(2)] r(2,3) unfolding rq_def by blast
qed

lemma full_again:
  assumes "carries (full_request (ba_key ba) bank (ba_by ba) (ba_from ba) (ba_to ba)) i (of_runs o1)" "find_run i (of_runs o1) = Some run"
    "office_ok o1" "ordered_range (ba_from ba) (ba_to ba)" "ba_full ba"
  shows "queue_full sv ba bank t bb o1 = (Inr (if rn_status run = PENDING then bb\<lparr>bb_queued := Some i\<rparr> else bb), o1)"
proof -
  have "ordered_range (rq_from (full_request (ba_key ba) bank (ba_by ba) (ba_from ba) (ba_to ba)))
      (rq_to (full_request (ba_key ba) bank (ba_by ba) (ba_from ba) (ba_to ba)))"
    using assms(4) by (simp add: full_request_def)
  from start_again[OF assms(1,3) this, of sv "tk_id t" "tk_start t"] show ?thesis by (simp add: queue_full_def assms(2,5))
qed

definition bank_days :: "batch \<Rightarrow> string \<Rightarrow> office \<Rightarrow> date list" where
  "bank_days ba bank o1 = days_newest_first (w_db (dk_world (of_desk o1))) bank (ba_from ba) (ba_to ba)"

lemma process_bank_parts:
  assumes "process_bank sv ba ticks bank o1 = (Inr bb, o2)"
  obtains mid oa where "process_days sv (ba_key ba) bank (ba_by ba) (zip (map ticks [0..<length (bank_days ba bank o1)]) (bank_days ba bank o1))
      \<lparr>bb_bank = bank, bb_days = [], bb_failed = [], bb_queued = None\<rparr> o1 = (Inr mid, oa)"
    "queue_full sv ba bank (ticks (length (bank_days ba bank o1))) mid oa = (Inr bb, o2)"
  using assms by (auto simp: process_bank_def bank_days_def Let_def split: prod.splits sum.splits)

lemma ticks_zip: "(\<And>k. tick_ok (ticks k)) \<Longrightarrow> list_all (\<lambda>x. tick_ok (fst x)) (zip (map ticks [0..<length days]) days)"
  by (auto simp: list_all_iff in_set_zip)

lemma snd_zip: "map snd (zip (map f [0..<length ys]) ys) = ys"
  by simp

section \<open>Many at once\<close>

text \<open>One committed transaction after another, of as many requests, workers and processes as
  there are; \<open>busy\<close> are the runs at work, as their workers read them. The work of a run is
  one step, at its commit.\<close>

inductive office_step :: "services \<Rightarrow> office \<times> run_row list \<Rightarrow> office \<times> run_row list \<Rightarrow> bool" for sv where
  requested: "\<lbrakk>start_run sv seen rq i now o1 = Inr (x, o2); list_all (\<lambda>r. \<exists>q \<in> set (of_runs o1). same_run r q) seen\<rbrakk>
    \<Longrightarrow> office_step sv (o1, busy) (o2, busy)"
| activated: "activate sv i now o1 = Inr o2 \<Longrightarrow> office_step sv (o1, busy) (o2, busy)"
| conflicted: "activate sv i now o1 = Inl RunAlreadyActiveError \<Longrightarrow> office_step sv (o1, busy) (queued_conflict sv i now ended o1, busy)"
| begun: "\<lbrakk>find_run i (of_runs o1) = Some run; rn_status run = RUNNING\<rbrakk> \<Longrightarrow> office_step sv (o1, busy) (o1, run # busy)"
| ended: "\<lbrakk>run \<in> set busy; carry_out sv rg run now at_end took o1 = Inr o2; distinct (map fst (rg_loaded rg))\<rbrakk>
    \<Longrightarrow> office_step sv (o1, busy) (o2, remove1 run busy)"
| died: "office_step sv (o1, busy) (o1, remove1 run busy)"
| quoted: "office_step sv (o1, busy) (o1\<lparr>of_rates := rates\<rparr>, busy)"
| elsewhere: "\<lbrakk>goes_on (dk_world (of_desk o1)) (dk_world d); desk_ok d\<rbrakk> \<Longrightarrow> office_step sv (o1, busy) (o1\<lparr>of_desk := d\<rparr>, busy)"

lemma follows_rates: "\<lbrakk>follows o1 (o2\<lparr>of_rates := of_rates o1\<rparr>); follows o2 o3\<rbrakk> \<Longrightarrow> follows o1 (o3\<lparr>of_rates := of_rates o1\<rparr>)"
proof -
  assume a: "follows o1 (o2\<lparr>of_rates := of_rates o1\<rparr>)" and b: "follows o2 o3"
  have "follows (o2\<lparr>of_rates := of_rates o1\<rparr>) (o3\<lparr>of_rates := of_rates o1\<rparr>)" using b by (simp add: follows_def)
  then show ?thesis using a follows_trans by blast
qed

lemma kept_follows:
  assumes "q \<in> set (of_runs o1)" "same_run r q" "follows o1 o2"
  shows "\<exists>p \<in> set (of_runs o2). same_run r p"
proof -
  obtain old new where w: "of_runs o2 = old @ new" "list_all2 same_run (of_runs o1) old" using assms(3) unfolding follows_def by blast
  obtain k where k: "k < length (of_runs o1)" "of_runs o1 ! k = q" using assms(1) by (meson in_set_conv_nth)
  then have "old ! k \<in> set old" "same_run q (old ! k)"
    using list_all2_nthD[OF w(2) k(1)] list_all2_lengthD[OF w(2)] by auto
  then show ?thesis using same_run_trans[OF assms(2)] w(1) by auto
qed

lemma step_keeps:
  assumes "office_step sv (o1, busy) (o2, busy')" "office_ok o1"
    "list_all (\<lambda>r. \<exists>q \<in> set (of_runs o1). same_run r q) busy" "follows oo (o1\<lparr>of_rates := of_rates oo\<rparr>)"
  shows "office_ok o2 \<and> list_all (\<lambda>r. \<exists>q \<in> set (of_runs o2). same_run r q) busy' \<and> follows oo (o2\<lparr>of_rates := of_rates oo\<rparr>)"
proof -
  have on: "office_ok o2 \<and> list_all (\<lambda>r. \<exists>q \<in> set (of_runs o2). same_run r q) busy \<and> follows oo (o2\<lparr>of_rates := of_rates oo\<rparr>)"
    if "sound o1 o2"
    using that assms(2-4) kept_follows follows_rates unfolding sound_def list_all_iff by blast
  show ?thesis
    using assms(1)
  proof cases
    case (requested seen rq i now x)
    then show ?thesis using on sound_start by blast
  next
    case (activated i now)
    then show ?thesis using on sound_activate by blast
  next
    case (conflicted i now ended)
    then show ?thesis using on sound_conflict by blast
  next
    case (begun i run)
    have "run \<in> set (of_runs o1)" using find_run_some[OF begun(3)] by blast
    then have "\<exists>q \<in> set (of_runs o1). same_run run q" using same_run_refl by blast
    then show ?thesis using assms(2-4) begun(1,2) by simp
  next
    case (ended run rg now at_end took)
    have "sound o1 o2" unfolding sound_def using carry_out_ok[OF ended(3) _ ended(4)] by blast
    from on[OF this] show ?thesis using ended(1) notin_set_remove1 by (fastforce simp: list_all_iff)
  next
    case (died run)
    then show ?thesis using assms(2-4) notin_set_remove1 by (fastforce simp: list_all_iff)
  next
    case (quoted rates)
    then show ?thesis using assms(2-4) by (simp add: office_ok_def follows_def)
  next
    case (elsewhere d)
    have "sound o1 o2" using elsewhere follows_runs[of o1 "of_runs o1" d] by (simp add: sound_def office_ok_def)
    from on[OF this] show ?thesis using elsewhere by simp
  qed
qed

definition kept_up :: "office \<Rightarrow> office \<times> run_row list \<Rightarrow> bool" where
  "kept_up oo s =
     (office_ok (fst s) \<and> list_all (\<lambda>r. \<exists>q \<in> set (of_runs (fst s)). same_run r q) (snd s)
      \<and> follows oo ((fst s)\<lparr>of_rates := of_rates oo\<rparr>))"

lemma steps_keep: "\<lbrakk>(office_step sv)\<^sup>*\<^sup>* s s'; kept_up oo s\<rbrakk> \<Longrightarrow> kept_up oo s'"
proof (induction rule: rtranclp_induct)
  case (step mid s')
  obtain o1 busy o2 busy' where s: "mid = (o1, busy)" "s' = (o2, busy')" by (cases mid, cases s')
  have "kept_up oo (o1, busy)" using step s(1) by simp
  then show ?case using step_keeps[OF step.hyps(2)[unfolded s], of oo] unfolding s kept_up_def by simp
qed simp

text \<open>C7. However many start, activate, execute, die and are reaped at once: a bank never has two
  RUNNING rows and a key never two rows, the office stays consistent, rows keep identity
  and request, and every worker's run is still in the table.\<close>

theorem runs_never_collide:
  assumes "(office_step sv)\<^sup>*\<^sup>* (o1, []) (o2, busy)" "office_ok o1"
  shows "office_ok o2 \<and> (\<forall>bank. length (filter (\<lambda>r. rn_bank r = bank \<and> rn_status r = RUNNING) (of_runs o2)) \<le> 1)
    \<and> distinct (map rn_key (of_runs o2)) \<and> follows o1 (o2\<lparr>of_rates := of_rates o1\<rparr>)
    \<and> list_all (\<lambda>r. \<exists>q \<in> set (of_runs o2). same_run r q) busy"
proof -
  have "office_ok o2 \<and> list_all (\<lambda>r. \<exists>q \<in> set (of_runs o2). same_run r q) busy \<and> follows o1 (o2\<lparr>of_rates := of_rates o1\<rparr>)"
    using steps_keep[OF assms(1), of o1] assms(2) by (simp add: kept_up_def)
  note keeps = this
  have d: "distinct (map rn_bank (filter (\<lambda>r. rn_status r = RUNNING) (of_runs o2)))" using keeps by (simp add: office_ok_def runs_ok_def)
  have "length (filter (\<lambda>r. rn_bank r = bank \<and> rn_status r = RUNNING) (of_runs o2)) \<le> 1" for bank
    using at_most_one[OF d, of bank] by (simp add: conj_commute)
  then show ?thesis using keeps by (simp add: office_ok_def runs_ok_def)
qed

text \<open>A worker whose run was reaped meanwhile finishes all the same: its verdict replaces the
  reaper's, and a run of the bank that started behind the reaping worked beside it.\<close>

lemma reaped_run_still_finishes:
  assumes "carry_out sv rg run now at_end took o1 = Inr o2" "find_run (rn_id run) (of_runs o1) = Some q" "rn_status q = FAILED"
    "run_work sv rg run now o1 = Inr (work, ow)" "of_runs ow = of_runs o1"
  shows "\<exists>p. find_run (rn_id run) (of_runs o2) = Some p \<and> rn_status p = COMPLETED"
proof -
  obtain d m where f: "finish_run sv (rn_id run) COMPLETED (Some m) None at_end (ow\<lparr>of_desk := d\<rparr>) = Inr o2"
    using assms(1) by (auto simp: carry_out_def assms(4) Let_def res_iff)
  have "find_run i (set_run i g runs) = Some (g q)" if "find_run i runs = Some q" "\<And>r. rn_id (g r) = rn_id r" for i g runs
    using that by (induction runs) (auto simp: find_run_def set_run_def split: if_splits)
  then show ?thesis using f assms(2,5) by (auto elim!: finish_shape)
qed


section \<open>Sending a batch again\<close>

text \<open>What a report says of the table of runs: each day it names has a row that carries its
  request, and a full run that was asked for has one as well.\<close>

definition full_run :: "batch \<Rightarrow> string \<Rightarrow> nat \<Rightarrow> office \<Rightarrow> bool" where
  "full_run ba bank i o1 = carries (full_request (ba_key ba) bank (ba_by ba) (ba_from ba) (ba_to ba)) i (of_runs o1)"

definition told :: "batch \<Rightarrow> bank_backlog \<Rightarrow> office \<Rightarrow> bool" where
  "told ba bb o1 =
     (reported (ba_key ba) (bb_bank bb) (ba_by ba) bb o1
      \<and> (if ba_full ba
         then ordered_range (ba_from ba) (ba_to ba) \<and> (\<exists>i. full_run ba (bb_bank bb) i o1 \<and> bb_queued bb \<in> {None, Some i})
         else bb_queued bb = None))"

lemma told_keeps:
  "\<lbrakk>told ba bb o1; \<And>rq i. carries rq i (of_runs o1) \<Longrightarrow> carries rq i (of_runs o2)\<rbrakk> \<Longrightarrow> told ba bb o2"
  unfolding told_def reported_def full_run_def list_all_iff by (auto split: if_splits)

lemma bank_told:
  assumes "process_bank sv ba ticks bank o1 = (Inr bb, o2)" "office_ok o1" "\<And>k. tick_ok (ticks k)"
  shows "told ba bb o2 \<and> bb_bank bb = bank"
proof -
  define start where "start = \<lparr>bb_bank = bank, bb_days = [], bb_failed = [], bb_queued = None\<rparr>"
  obtain mid oa where p: "process_days sv (ba_key ba) bank (ba_by ba) (zip (map ticks [0..<length (bank_days ba bank o1)]) (bank_days ba bank o1))
      start o1 = (Inr mid, oa)"
    "queue_full sv ba bank (ticks (length (bank_days ba bank o1))) mid oa = (Inr bb, o2)"
    using process_bank_parts[OF assms(1)] unfolding start_def by blast
  note t = ticks_zip[OF assms(3)]
  have "reported (ba_key ba) bank (ba_by ba) start o1" by (simp add: reported_def start_def)
  note dr = days_reported[OF p(1) assms(2) t this]
  have ok: "office_ok oa" using sound_days[OF p(1) t] assms(2) unfolding sound_def by blast
  note full = full_carried[OF p(2) ok]
  have "reported (ba_key ba) bank (ba_by ba) mid o2" using reported_sound[OF _ sound_full[OF p(2)] ok] dr by blast
  moreover have "bb_queued bb = None" if "\<not> ba_full ba" using p(2) that dr by (simp add: queue_full_def start_def)
  moreover obtain q where q: "bb = mid\<lparr>bb_queued := q\<rparr>" using full by blast
  moreover have "ordered_range (ba_from ba) (ba_to ba) \<and> (\<exists>i. full_run ba bank i o2 \<and> bb_queued bb \<in> {None, Some i})" if "ba_full ba"
  proof -
    obtain i and run :: run_row where "ordered_range (ba_from ba) (ba_to ba)" "full_run ba bank i o2"
      "bb = (if rn_status run = PENDING then mid\<lparr>bb_queued := Some i\<rparr> else mid)"
      using conjunct2[OF full] \<open>ba_full ba\<close> unfolding full_run_def by metis
    moreover have "bb_queued mid = None" using dr by (simp add: start_def)
    ultimately show ?thesis by (intro conjI exI[of _ i]) auto
  qed
  moreover have "bb_bank mid = bank" using dr by (simp add: start_def)
  ultimately show ?thesis by (simp add: told_def reported_def)
qed

lemma backlog_told:
  "\<lbrakk>run_backlog sv ba banks o1 = (Inr bbs, o2); office_ok o1; list_all (\<lambda>x. \<forall>k. tick_ok (fst x k)) banks\<rbrakk> \<Longrightarrow>
   map bb_bank bbs = map snd banks \<and> list_all (\<lambda>bb. told ba bb o2) bbs"
proof (induction banks arbitrary: o1 bbs)
  case (Cons x banks)
  obtain ticks bank where x: "x = (ticks, bank)" by (cases x)
  obtain bb oa rest where p: "process_bank sv ba ticks bank o1 = (Inr bb, oa)" "run_backlog sv ba banks oa = (Inr rest, o2)"
      "bbs = bb # rest"
    using Cons.prems(1) by (auto simp: x split: prod.splits sum.splits)
  have t: "\<And>k. tick_ok (ticks k)" and ts: "list_all (\<lambda>x. \<forall>k. tick_ok (fst x k)) banks" using Cons.prems(3) by (simp_all add: x)
  have ok: "office_ok oa" using sound_bank[OF p(1) t] Cons.prems(2) unfolding sound_def by blast
  have s: "sound oa o2" by (rule sound_backlog[OF p(2) ts])
  have "told ba bb o2 \<and> bb_bank bb = bank" using bank_told[OF p(1) Cons.prems(2) t] told_keeps carries_sound[OF _ s ok] by blast
  then show ?case using Cons.IH[OF p(2) ok ts] by (simp add: p(3) x)
qed simp

text \<open>The report of the same batch again, on the table as it is then.\<close>

definition awaiting :: "nat \<Rightarrow> office \<Rightarrow> bool" where
  "awaiting i o1 = (case find_run i (of_runs o1) of None \<Rightarrow> False | Some r \<Rightarrow> rn_status r = PENDING)"

definition told_again :: "batch \<Rightarrow> office \<Rightarrow> bank_backlog \<Rightarrow> bank_backlog \<Rightarrow> bool" where
  "told_again ba o1 bb again =
     (bb_bank again = bb_bank bb \<and> map dy_day (bb_days again) = bank_days ba (bb_bank bb) o1
      \<and> list_all (\<lambda>x. list_ex (\<lambda>y. dy_day y = dy_day x \<and> dy_run y = dy_run x) (bb_days bb)) (bb_days again)
      \<and> (case bb_queued bb of None \<Rightarrow> True | Some i \<Rightarrow> bb_queued again = (if awaiting i o1 then Some i else None))
      \<and> (case bb_queued again of None \<Rightarrow> True | Some i \<Rightarrow> full_run ba (bb_bank bb) i o1 \<and> awaiting i o1))"

lemma carried_found: "\<lbrakk>carries rq i (of_runs o1); office_ok o1\<rbrakk> \<Longrightarrow> \<exists>run. find_run i (of_runs o1) = Some run"
  using find_run_in unfolding carries_def list_ex_iff office_ok_def by blast

lemma queue_again:
  assumes "told ba bb o1" "office_ok o1" "bb_queued mid = None"
  obtains q where "queue_full sv ba (bb_bank bb) t mid o1 = (Inr (mid\<lparr>bb_queued := q\<rparr>), o1)"
    "case bb_queued bb of None \<Rightarrow> True | Some i \<Rightarrow> q = (if awaiting i o1 then Some i else None)"
    "case q of None \<Rightarrow> True | Some i \<Rightarrow> full_run ba (bb_bank bb) i o1 \<and> awaiting i o1"
proof (cases "ba_full ba")
  case True
  then obtain i where i: "ordered_range (ba_from ba) (ba_to ba)" "full_run ba (bb_bank bb) i o1" "bb_queued bb \<in> {None, Some i}"
    using assms(1) by (auto simp: told_def)
  obtain run where r: "find_run i (of_runs o1) = Some run" using carried_found[OF _ assms(2)] i(2) unfolding full_run_def by blast
  have "mid\<lparr>bb_queued := None\<rparr> = mid" using assms(3) by simp
  then have "queue_full sv ba (bb_bank bb) t mid o1 = (Inr (mid\<lparr>bb_queued := if awaiting i o1 then Some i else None\<rparr>), o1)"
    using full_again[OF i(2)[unfolded full_run_def] r assms(2) i(1) True] by (simp add: awaiting_def r)
  then show ?thesis by (rule that) (use i in auto)
next
  case False
  moreover from False have "bb_queued bb = None" using assms(1) by (simp add: told_def)
  moreover have "mid\<lparr>bb_queued := None\<rparr> = mid" using assms(3) by simp
  ultimately show ?thesis using that[of None] by (simp add: queue_full_def)
qed

lemma bank_again:
  assumes "told ba bb o1" "office_ok o1" "set (bank_days ba (bb_bank bb) o1) \<subseteq> dy_day ` set (bb_days bb)"
  shows "\<exists>again. process_bank sv ba ticks (bb_bank bb) o1 = (Inr again, o1) \<and> told_again ba o1 bb again"
proof -
  define bank where "bank = bb_bank bb"
  define days where "days = bank_days ba bank o1"
  define start where "start = \<lparr>bb_bank = bank, bb_days = [], bb_failed = [], bb_queued = None\<rparr>"
  have "\<exists>x \<in> set (bb_days bb). dy_day x = d \<and> carries (day_request (ba_key ba) bank (ba_by ba) d) (dy_run x) (of_runs o1)"
    if "d \<in> snd ` set (zip (map ticks [0..<length days]) days)" for d
  proof -
    have "d \<in> set days" using that snd_zip[of ticks days] by (metis list.set_map)
    then have "d \<in> dy_day ` set (bb_days bb)" using assms(3) by (auto simp: days_def bank_def)
    then show ?thesis using assms(1) by (auto simp: told_def reported_def list_all_iff bank_def)
  qed
  note known = this
  obtain ds fs where d: "process_days sv (ba_key ba) bank (ba_by ba) (zip (map ticks [0..<length days]) days) start o1
      = (Inr (start\<lparr>bb_days := ds, bb_failed := fs\<rparr>), o1)" "map dy_day ds = days"
    "\<forall>x \<in> set ds. \<exists>y \<in> set (bb_days bb). dy_day y = dy_day x \<and> dy_run y = dy_run x"
    using days_again[of "zip (map ticks [0..<length days]) days" "bb_days bb" "ba_key ba" bank "ba_by ba" o1 sv start, OF known assms(2)]
    unfolding snd_zip by (auto simp: start_def)
  have "bb_queued (start\<lparr>bb_days := ds, bb_failed := fs\<rparr>) = None" by (simp add: start_def)
  from assms(1,2) this obtain q where
    q: "queue_full sv ba bank (ticks (length days)) (start\<lparr>bb_days := ds, bb_failed := fs\<rparr>) o1
      = (Inr (start\<lparr>bb_days := ds, bb_failed := fs, bb_queued := q\<rparr>), o1)"
    "case bb_queued bb of None \<Rightarrow> True | Some i \<Rightarrow> q = (if awaiting i o1 then Some i else None)"
    "case q of None \<Rightarrow> True | Some i \<Rightarrow> full_run ba bank i o1 \<and> awaiting i o1"
    unfolding bank_def by (rule queue_again[of ba bb o1 _ sv "ticks (length days)"]) simp
  have "process_bank sv ba ticks bank o1 = (Inr (start\<lparr>bb_days := ds, bb_failed := fs, bb_queued := q\<rparr>), o1)"
    using d(1) q(1) by (simp add: process_bank_def Let_def days_def bank_days_def start_def)
  moreover have "told_again ba o1 bb (start\<lparr>bb_days := ds, bb_failed := fs, bb_queued := q\<rparr>)"
    using d(2,3) q(2,3) by (auto simp: told_again_def start_def bank_def days_def list_all_iff list_ex_iff split: option.splits)
  ultimately show ?thesis unfolding bank_def by blast
qed

lemma backlog_again:
  "\<lbrakk>list_all (\<lambda>bb. told ba bb o1 \<and> set (bank_days ba (bb_bank bb) o1) \<subseteq> dy_day ` set (bb_days bb)) bbs; office_ok o1;
    map snd banks = map bb_bank bbs\<rbrakk> \<Longrightarrow>
   \<exists>again. run_backlog sv ba banks o1 = (Inr again, o1) \<and> list_all2 (told_again ba o1) bbs again"
proof (induction bbs arbitrary: banks)
  case (Cons bb bbs)
  obtain ticks rest where b: "banks = (ticks, bb_bank bb) # rest" "map snd rest = map bb_bank bbs"
    using Cons.prems(3) by (cases banks) auto
  obtain again where a: "process_bank sv ba ticks (bb_bank bb) o1 = (Inr again, o1)" "told_again ba o1 bb again"
    using bank_again Cons.prems(1,2) by fastforce
  obtain agains where "run_backlog sv ba rest o1 = (Inr agains, o1)" "list_all2 (told_again ba o1) bbs agains"
    using Cons.IH[OF _ Cons.prems(2) b(2)] Cons.prems(1) by auto
  then show ?case using a by (simp add: b(1))
qed simp

text \<open>C12. A batch can be sent again: after a batch over any banks, and after whatever requests,
  workers and processes have done since, the same batch, with other ids and another clock,
  returns, starts no run and changes nothing, provided every day that still has free
  transactions was run by the first one (none was refused as busy, none turned up since). It
  reports for each bank the days still open, each under the run of the first batch, and the
  full run that was queued as long as that is waiting.\<close>

theorem backlog_replay:
  assumes "run_backlog sv ba banks o1 = (Inr bbs, o2)" "office_ok o1" "list_all (\<lambda>x. \<forall>k. tick_ok (fst x k)) banks"
    "(office_step sv)\<^sup>*\<^sup>* (o2, working) (o3, busy)" "list_all (\<lambda>r. \<exists>q \<in> set (of_runs o2). same_run r q) working"
    "list_all (\<lambda>bb. set (bank_days ba (bb_bank bb) o3) \<subseteq> dy_day ` set (bb_days bb)) bbs"
    "map snd banks' = map snd banks"
  shows "map bb_bank bbs = map snd banks
    \<and> (\<exists>again. run_backlog sv ba banks' o3 = (Inr again, o3) \<and> list_all2 (told_again ba o3) bbs again)"
proof -
  note first = backlog_told[OF assms(1-3)]
  have "office_ok o2" using sound_backlog[OF assms(1,3)] assms(2) unfolding sound_def by blast
  then have "kept_up o2 (o2, working)" using assms(5) by (cases o2) (simp add: kept_up_def)
  then have "kept_up o2 (o3, busy)" by (rule steps_keep[OF assms(4)])
  then have k: "office_ok o3" "follows o2 (o3\<lparr>of_rates := of_rates o2\<rparr>)" by (simp_all add: kept_up_def)
  have "told ba bb o3" if "bb \<in> set bbs" for bb
    using told_keeps[of ba bb o2 o3] carries_follows[OF _ k(2)] first that by (auto simp: list_all_iff)
  then have "list_all (\<lambda>bb. told ba bb o3 \<and> set (bank_days ba (bb_bank bb) o3) \<subseteq> dy_day ` set (bb_days bb)) bbs"
    using assms(6) by (simp add: list_all_iff)
  from backlog_again[OF this k(1)] show ?thesis using first assms(7) by simp
qed

section \<open>Witnesses\<close>

definition sample_tick :: "nat \<Rightarrow> tick" where
  "sample_tick k =
     \<lparr>tk_id = k + 7, tk_start = 5, tk_begin = 6, tk_end = 7, tk_took = \<lparr>du_exact = 0, du_fuzzy = 0, du_rules = 0, du_total = 0\<rparr>,
      tk_registry = long_registry\<rparr>"

lemma sample_tick_ok: "tick_ok (sample_tick k)"
  by (simp add: tick_ok_def sample_tick_def long_registry_def)

definition sample_batch :: batch where
  "sample_batch = \<lparr>ba_key = ''b'', ba_by = ''ann'', ba_from = None, ba_to = None, ba_full = False\<rparr>"

definition lone_office :: office where
  "lone_office =
     empty_office\<lparr>of_desk := empty_desk\<lparr>dk_world := (dk_world empty_desk)\<lparr>w_db := sample_db [sample_txn 3 INTERNAL 500 ''REF1'' 10]\<rparr>\<rparr>\<rparr>"

lemma lone_office_ok: "office_ok lone_office"
proof -
  have "ledger_ok (sample_db [sample_txn 3 INTERNAL 500 ''REF1'' 10])" by (rule sample_ok) (simp_all add: sample_txn_def)
  then have "desk_ok (of_desk lone_office)"
    using empty_desk_ok by (simp add: lone_office_def empty_office_def desk_ok_def store_ok_def)
  then show ?thesis using empty_office_ok by (simp add: office_ok_def lone_office_def)
qed

lemma sample_services_sha: "sv_sha sample_services = sample_sha"
  by (simp add: sample_services_def)

lemma sample_day_started:
  "\<exists>d. start_run sample_services [] (day_request ''b'' ''HDFC'' ''ann'' 10) 7 5 lone_office
       = Inr ((7, True), lone_office\<lparr>of_desk := d, of_runs := [new_run 7 (day_request ''b'' ''HDFC'' ''ann'' 10) 5]\<rparr>)
     \<and> logged sample_sha (w_db (dk_world d)) \<and> next_id (w_db (dk_world d)) = 101
     \<and> txns (w_db (dk_world d)) = txns (w_db (dk_world (of_desk lone_office))) \<and> claims (w_db (dk_world d)) = []"
proof -
  let ?run = "new_run 7 (day_request ''b'' ''HDFC'' ''ann'' 10) 5"
  have l: "logged sample_sha (w_db (dk_world (of_desk lone_office)))" "next_id (w_db (dk_world (of_desk lone_office))) = 100"
    "claims (w_db (dk_world (of_desk lone_office))) = []"
    by (simp_all add: lone_office_def sample_db_def logged_def)
  then obtain d where d: "audit_state sample_services ?run ''NONE'' RUNNING ''requested by ann'' 5 None (of_desk lone_office) = Inr d"
    "logged sample_sha (w_db (dk_world d))"
    using audit_state_total[of sample_services "of_desk lone_office" 5, unfolded sample_services_sha, OF sample_sha_inj] by fastforce
  have k: "length (backlog_key ''b'' ''HDFC'' (date_iso 10)) \<le> 100" by code_simp
  have runs: "of_runs lone_office = []" by (simp add: lone_office_def empty_office_def)
  have "start_run sample_services [] (day_request ''b'' ''HDFC'' ''ann'' 10) 7 5 lone_office
       = Inr ((7, True), lone_office\<lparr>of_desk := d, of_runs := [?run]\<rparr>)"
    using d(1) k by (simp add: start_run_def by_key_def ordered_range_def reap_stale_def runs insert_run_def Let_def day_request_def
        new_run_def bank_busy_def)
  then show ?thesis using d(2) audit_state_exact[OF d(1)] l by auto
qed

lemma sample_days:
  assumes "txns (w_db (dk_world d)) = txns (w_db (dk_world (of_desk lone_office)))" "claims (w_db (dk_world d)) = []"
  shows "days_newest_first (w_db (dk_world d)) ''HDFC'' None None = [10]"
  using assms by (simp add: days_newest_first_def available_def is_claimed_def active_txns_def lone_office_def sample_db_def sample_txn_def)

lemma sample_day_failed:
  "\<exists>o2 fin. process_day sample_services ''b'' ''HDFC'' ''ann'' (sample_tick 0) 10
        \<lparr>bb_bank = ''HDFC'', bb_days = [], bb_failed = [], bb_queued = None\<rparr> lone_office
       = (Inr \<lparr>bb_bank = ''HDFC'', bb_days = [fin], bb_failed = [10], bb_queued = None\<rparr>, o2)
     \<and> dy_day fin = 10 \<and> dy_status fin = FAILED \<and> days_newest_first (w_db (dk_world (of_desk o2))) ''HDFC'' None None = [10]"
proof -
  let ?rq = "day_request ''b'' ''HDFC'' ''ann'' 10"
  let ?run = "new_run 7 ?rq 5"
  obtain d where d: "start_run sample_services [] ?rq 7 5 lone_office = Inr ((7, True), lone_office\<lparr>of_desk := d, of_runs := [?run]\<rparr>)"
    "logged sample_sha (w_db (dk_world d))" "next_id (w_db (dk_world d)) = 101"
    "txns (w_db (dk_world d)) = txns (w_db (dk_world (of_desk lone_office)))" "claims (w_db (dk_world d)) = []"
    using sample_day_started by blast
  define oa where "oa = lone_office\<lparr>of_desk := d, of_runs := [?run]\<rparr>"
  have oa: "of_desk oa = d" "of_runs oa = [?run]" "of_configs oa = []" by (simp_all add: oa_def lone_office_def empty_office_def)
  have f: "find_run 7 (of_runs oa) = Some ?run" "rn_id ?run = 7" "rn_status ?run = RUNNING" "rn_bank ?run = ''HDFC''"
    by (simp_all add: oa find_run_def new_run_def day_request_def)
  have "configs_ok []" "distinct (map fst (rg_loaded long_registry))" by (simp_all add: configs_ok_def long_registry_def)
  then obtain err where "sync_bank_configurations sample_sha long_registry ''system:run-service'' 6 [] (w_db (dk_world d)) = Inl err"
    using long_version_stops_sync[of "''HDFC''" _ long_registry] by (fastforce simp: long_registry_def)
  then have w: "run_work sample_services long_registry ?run 6 oa = Inl err"
    by (simp add: run_work_def Let_def sample_services_sha oa)
  obtain o2 where x: "execute_tick sample_services 7 (sample_tick 0) oa = Inr o2"
    using failed_work_returns[of 7 oa ?run sample_services, unfolded sample_services_sha oa(1), OF f(1,3) w sample_sha_inj d(2)] d(3)
    by (fastforce simp: execute_tick_def sample_tick_def)
  then obtain d' before why where e: "audit_state sample_services ?run before FAILED why 7 None d = Inr d'"
    "o2 = oa\<lparr>of_desk := d', of_runs := set_run 7 (\<lambda>r. r\<lparr>rn_status := FAILED, rn_completed := Some 7, rn_metrics := None,
        rn_error := Some (sv_class sample_services err)\<rparr>) (of_runs oa)\<rparr>"
    using f w by (auto simp: execute_tick_def sample_tick_def execute_run_def carry_out_def oa(1) elim!: finish_shape)
  have same: "txns (w_db (dk_world d')) = txns (w_db (dk_world d))" "claims (w_db (dk_world d')) = claims (w_db (dk_world d))"
    using audit_state_exact[OF e(1)] by auto
  obtain fin where fin: "find_run 7 (of_runs o2) = Some fin" "rn_id fin = 7" "rn_status fin = FAILED" "rn_metrics fin = None"
    by (simp add: e(2) oa(2) set_run_def find_run_def f(2))
  have t: "tk_id (sample_tick 0) = 7" "tk_start (sample_tick 0) = 5" by (simp_all add: sample_tick_def)
  have r: "of_runs lone_office = []" by (simp add: lone_office_def empty_office_def)
  have "process_day sample_services ''b'' ''HDFC'' ''ann'' (sample_tick 0) 10
        \<lparr>bb_bank = ''HDFC'', bb_days = [], bb_failed = [], bb_queued = None\<rparr> lone_office
      = (Inr (add_day 10 fin \<lparr>bb_bank = ''HDFC'', bb_days = [], bb_failed = [], bb_queued = None\<rparr>), o2)"
    using d(1) x fin(1) by (simp add: process_day_def t r oa_def[symmetric])
  moreover have "days_newest_first (w_db (dk_world (of_desk o2))) ''HDFC'' None None = [10]"
    using sample_days same d(4,5) by (simp add: e(2))
  ultimately show ?thesis using fin by (auto simp: add_day_def)
qed

theorem backlog_replay_witness:
  "\<exists>bb o2 again. run_backlog sample_services sample_batch [(sample_tick, ''HDFC'')] lone_office = (Inr [bb], o2) \<and> bb_failed bb = [10]
     \<and> run_backlog sample_services sample_batch [(\<lambda>k. sample_tick (k + 20), ''HDFC'')] o2 = (Inr [again], o2)
     \<and> map dy_day (bb_days again) = [10] \<and> bb_bank again = ''HDFC''"
proof -
  obtain o2 fin where p: "process_day sample_services ''b'' ''HDFC'' ''ann'' (sample_tick 0) 10
        \<lparr>bb_bank = ''HDFC'', bb_days = [], bb_failed = [], bb_queued = None\<rparr> lone_office
       = (Inr \<lparr>bb_bank = ''HDFC'', bb_days = [fin], bb_failed = [10], bb_queued = None\<rparr>, o2)"
    "dy_day fin = 10" "days_newest_first (w_db (dk_world (of_desk o2))) ''HDFC'' None None = [10]"
    using sample_day_failed by blast
  have d: "days_newest_first (w_db (dk_world (of_desk lone_office))) ''HDFC'' None None = [10]"
    by (rule sample_days) (simp_all add: lone_office_def sample_db_def)
  have b: "bank_days sample_batch ''HDFC'' o2 = [10]" using p(3) by (simp add: bank_days_def sample_batch_def)
  have r: "run_backlog sample_services sample_batch [(sample_tick, ''HDFC'')] lone_office
      = (Inr [\<lparr>bb_bank = ''HDFC'', bb_days = [fin], bb_failed = [10], bb_queued = None\<rparr>], o2)"
    using p(1) d by (simp add: process_bank_def sample_batch_def queue_full_def)
  from backlog_replay[OF r lone_office_ok _ rtranclp.rtrancl_refl, of "[]" "[(\<lambda>k. sample_tick (k + 20), ''HDFC'')]"]
  obtain again where "run_backlog sample_services sample_batch [(\<lambda>k. sample_tick (k + 20), ''HDFC'')] o2 = (Inr again, o2)"
    "list_all2 (told_again sample_batch o2) [\<lparr>bb_bank = ''HDFC'', bb_days = [fin], bb_failed = [10], bb_queued = None\<rparr>] again"
    using b p(2) sample_tick_ok by auto
  then show ?thesis using r b by (auto simp: list_all2_Cons1 told_again_def)
qed

theorem runs_never_collide_witness:
  "\<exists>o2 run. (office_step sample_services)\<^sup>*\<^sup>* (empty_office, []) (o2, [run]) \<and> of_runs o2 = [run]
     \<and> length (filter (\<lambda>r. rn_bank r = ''HDFC'' \<and> rn_status r = RUNNING) (of_runs o2)) = 1 \<and> office_ok o2"
proof -
  let ?run = "new_run 7 sample_request 5"
  obtain o2 where s: "start_run sample_services [] sample_request 7 5 empty_office = Inr ((7, True), o2)" "of_runs o2 = [?run]"
    using sample_start by blast
  have 1: "office_step sample_services (empty_office, []) (o2, [])" by (rule office_step.requested[OF s(1)]) simp
  have 2: "office_step sample_services (o2, []) (o2, [?run])"
    by (rule office_step.begun[of 7]) (simp_all add: s(2) find_run_def new_run_def sample_request_def)
  have "(office_step sample_services)\<^sup>*\<^sup>* (empty_office, []) (o2, [?run])" using 1 2 by (meson converse_rtranclp_into_rtranclp r_into_rtranclp)
  from runs_never_collide[OF this empty_office_ok] this s(2) show ?thesis
    by (intro exI[of _ o2] exI[of _ ?run]) (simp add: new_run_def sample_request_def)
qed

end
