(* ===== verification/CsvWriter.thy ===== *)
theory CsvWriter
  imports CsvFile
begin

text \<open>
  What the service writes as CSV (the exports of \<open>api/v1/exceptions.py\<close> and the report
  renderer): cells neutralised against spreadsheet formulas, \<open>csv.writer\<close> with its default
  quoting and a newline as line end. Reading a written text back with the model of
  \<open>csv.reader\<close> gives the rows that were written.
\<close>

section \<open>Cells\<close>

definition formula_start :: "char \<Rightarrow> bool" where
  "formula_start c = (c \<in> {CHR ''='', CHR ''+'', CHR ''-'', CHR ''@'', CHR 0x09, CHR 0x0D})"

definition safe_cell :: "string option \<Rightarrow> string" where
  "safe_cell v =
     (let t = (case v of None \<Rightarrow> [] | Some s \<Rightarrow> s) in
      if t \<noteq> [] \<and> formula_start (hd t) then CHR 0x27 # t else t)"

text \<open>\<open>csv.writer\<close>: a cell with the delimiter, a quote or a line break is quoted, its quotes
  doubled; so is the only cell of a row when it is empty.\<close>

definition csv_special :: "char \<Rightarrow> bool" where
  "csv_special c = (c = CHR '','' \<or> c = CHR 0x22 \<or> is_newline c)"

definition doubled :: "string \<Rightarrow> string" where
  "doubled s = concat (map (\<lambda>c. if c = CHR 0x22 then [c, c] else [c]) s)"

definition quoted_cell :: "string \<Rightarrow> string" where
  "quoted_cell s = CHR 0x22 # doubled s @ [CHR 0x22]"

definition csv_cell :: "string \<Rightarrow> string" where
  "csv_cell s = (if list_ex csv_special s then quoted_cell s else s)"

definition csv_line :: "string list \<Rightarrow> string" where
  "csv_line row =
     (if row = [[]] then quoted_cell [] else join_with '','' (map csv_cell row)) @ [CHR 0x0A]"

definition csv_text :: "string list list \<Rightarrow> string" where
  "csv_text rows = concat (map csv_line rows)"

section \<open>Reading back\<close>

definition read_on :: "char \<Rightarrow> string \<Rightarrow> csv_reader \<Rightarrow> csv_reader" where
  "read_on prev s r = fold (csv_char (CHR '','')) (zip (prev # s) s) r"

lemma read_on_Nil [simp]: "read_on prev [] r = r"
  by (simp add: read_on_def)

lemma read_on_Cons: "read_on prev (c # s) r = read_on c s (csv_char (CHR '','') (prev, c) r)"
  by (simp add: read_on_def)

definition last_of :: "char \<Rightarrow> string \<Rightarrow> char" where
  "last_of prev s = (if s = [] then prev else last s)"

lemma read_on_append: "read_on prev (s @ t) r = read_on (last_of prev s) t (read_on prev s r)"
  by (induction s arbitrary: prev r) (simp_all add: read_on_Cons last_of_def)

text \<open>A state in which a field may start.\<close>

definition at_start :: "char \<Rightarrow> csv_reader \<Rightarrow> bool" where
  "at_start prev r = (cr_text r = [] \<and> (cr_state r = StartField \<or> (cr_state r = StartRecord \<or> cr_state r = EatNewline \<and> prev = CHR 0x0A) \<and> cr_fields r = []))"

lemma plain_chars:
  "\<lbrakk>\<not> list_ex csv_special s; cr_state r = InField\<rbrakk> \<Longrightarrow> read_on prev s r = r\<lparr>cr_text := cr_text r @ s\<rparr>"
proof (induction s arbitrary: prev r)
  case (Cons c s)
  have "csv_char (CHR '','') (prev, c) r = r\<lparr>cr_text := cr_text r @ [c]\<rparr>"
    using Cons.prems by (simp add: csv_char_def csv_special_def)
  then show ?case using Cons by (simp add: read_on_Cons)
qed simp

lemma quoted_chars:
  "cr_state r = InQuoted \<Longrightarrow> read_on prev (doubled s) r = r\<lparr>cr_text := cr_text r @ s\<rparr>"
proof (induction s arbitrary: prev r)
  case (Cons c s)
  define q where "q = r\<lparr>cr_text := cr_text r @ [c]\<rparr>"
  have e: "r\<lparr>cr_text := cr_text r @ [c], cr_state := InQuoted\<rparr> = q" using Cons.prems by (cases r) (simp add: q_def)
  have "read_on prev (doubled (c # s)) r = read_on c (doubled s) q"
  proof (cases "c = CHR 0x22")
    case True
    then show ?thesis using Cons.prems e by (simp add: doubled_def read_on_Cons csv_char_def)
  qed (use Cons.prems in \<open>simp add: doubled_def read_on_Cons csv_char_def q_def\<close>)
  then show ?case using Cons.IH[of q c] Cons.prems by (simp add: q_def)
qed (simp add: doubled_def)

text \<open>Reading one cell leaves its text pending, ready for the delimiter or the line end.\<close>

definition field_read :: "csv_reader \<Rightarrow> string \<Rightarrow> csv_reader \<Rightarrow> bool" where
  "field_read r s q =
     (cr_records q = cr_records r \<and> cr_fields q = cr_fields r \<and> cr_text q = s
      \<and> (cr_state q = InField \<or> cr_state q = QuoteInQuoted \<or> s = [] \<and> q = r))"

lemma read_quoted:
  assumes "at_start prev r"
  shows "field_read r s (read_on prev (quoted_cell s) r) \<and> cr_state (read_on prev (quoted_cell s) r) = QuoteInQuoted"
proof -
  have "csv_char (CHR '','') (prev, CHR 0x22) r = r\<lparr>cr_state := InQuoted\<rparr>"
    using assms by (auto simp: at_start_def csv_char_def start_field_def is_newline_def)
  then have "read_on prev (quoted_cell s) r
      = csv_char (CHR '','') (last_of (CHR 0x22) (doubled s), CHR 0x22) (r\<lparr>cr_state := InQuoted, cr_text := cr_text r @ s\<rparr>)"
    by (simp add: quoted_cell_def read_on_Cons read_on_append quoted_chars)
  then show ?thesis using assms by (simp add: csv_char_def field_read_def at_start_def)
qed

lemma read_cell:
  assumes "at_start prev r"
  shows "field_read r s (read_on prev (csv_cell s) r)"
proof (cases "list_ex csv_special s \<or> s = []")
  case True
  then show ?thesis using read_quoted[OF assms] assms by (auto simp: csv_cell_def field_read_def at_start_def)
next
  case False
  then obtain c t where s: "s = c # t" "\<not> csv_special c" "\<not> list_ex csv_special t" by (cases s) auto
  have "csv_char (CHR '','') (prev, c) r = r\<lparr>cr_text := [c], cr_state := InField\<rparr>"
    using assms s(2) by (auto simp: at_start_def csv_char_def start_field_def is_newline_def csv_special_def)
  then show ?thesis using False s by (simp add: csv_cell_def read_on_Cons plain_chars field_read_def)
qed

lemma read_comma:
  assumes "at_start prev r" "field_read r s q"
  shows "csv_char (CHR '','') (p, CHR '','') q = q\<lparr>cr_fields := cr_fields r @ [s], cr_text := [], cr_state := StartField\<rparr>"
  using assms by (auto simp: field_read_def at_start_def csv_char_def start_field_def save_field_def is_newline_def)

lemma read_end:
  assumes "at_start prev r" "field_read r s q" "cr_state q \<noteq> StartRecord" "cr_state q \<noteq> EatNewline"
  shows "csv_char (CHR '','') (p, CHR 0x0A) q
    = q\<lparr>cr_records := cr_records r @ [cr_fields r @ [s]], cr_fields := [], cr_text := [], cr_state := EatNewline\<rparr>"
  using assms by (auto simp: field_read_def at_start_def csv_char_def start_field_def save_field_def is_newline_def end_record_def)


lemma read_cells:
  assumes "at_start prev r" "cells \<noteq> []" "cells = [[]] \<Longrightarrow> cr_state r = StartField"
  shows "read_on prev (join_with '','' (map csv_cell cells) @ [CHR 0x0A]) r
    = r\<lparr>cr_records := cr_records r @ [cr_fields r @ cells], cr_fields := [], cr_text := [], cr_state := EatNewline\<rparr>"
  using assms
proof (induction cells arbitrary: prev r)
  case (Cons s cells)
  define q where "q = read_on prev (csv_cell s) r"
  have f: "field_read r s q" unfolding q_def by (rule read_cell[OF Cons.prems(1)])
  show ?case
  proof (cases cells)
    case Nil
    have n: "cr_state q \<noteq> StartRecord" "cr_state q \<noteq> EatNewline"
      using f Cons.prems(3) Nil unfolding field_read_def by auto
    have "read_on prev (csv_cell s @ [CHR 0x0A]) r = csv_char (CHR '','') (last_of prev (csv_cell s), CHR 0x0A) q"
      by (simp add: read_on_append read_on_Cons q_def)
    also have "\<dots> = q\<lparr>cr_records := cr_records r @ [cr_fields r @ [s]], cr_fields := [], cr_text := [], cr_state := EatNewline\<rparr>"
      by (rule read_end[OF Cons.prems(1) f n])
    also have "\<dots> = r\<lparr>cr_records := cr_records r @ [cr_fields r @ [s]], cr_fields := [], cr_text := [], cr_state := EatNewline\<rparr>"
      by (cases r, cases q) simp
    finally show ?thesis by (simp add: Nil)
  next
    case (Cons c more_cells)
    define p where "p = q\<lparr>cr_fields := cr_fields r @ [s], cr_text := [], cr_state := StartField\<rparr>"
    have "read_on prev (csv_cell s @ CHR '','' # t) r = read_on (CHR '','') t p" for t
      using read_comma[OF Cons.prems(1) f] by (simp add: read_on_append read_on_Cons q_def[symmetric] p_def)
    moreover have "at_start (CHR '','') p" "cr_state p = StartField" by (simp_all add: p_def at_start_def)
    moreover have "cr_records p = cr_records r" "cr_fields p = cr_fields r @ [s]" using f by (simp_all add: p_def field_read_def)
    ultimately have "read_on prev (join_with '','' (map csv_cell (s # cells)) @ [CHR 0x0A]) r
        = p\<lparr>cr_records := cr_records r @ [(cr_fields r @ [s]) @ cells], cr_fields := [], cr_text := [], cr_state := EatNewline\<rparr>"
      using Cons.IH[of "CHR '',''" p] by (simp add: Cons)
    then show ?thesis by (cases r, cases q) (simp add: p_def)
  qed
qed simp

text \<open>Between two rows.\<close>

definition between :: "char \<Rightarrow> csv_reader \<Rightarrow> bool" where
  "between prev r =
     (cr_text r = [] \<and> cr_fields r = [] \<and> (cr_state r = StartRecord \<or> cr_state r = EatNewline \<and> prev = CHR 0x0A))"

lemma read_line:
  assumes "between prev r"
  shows "read_on prev (csv_line row) r
    = r\<lparr>cr_records := cr_records r @ [row], cr_fields := [], cr_text := [], cr_state := EatNewline\<rparr>"
proof -
  have a: "at_start prev r" "cr_fields r = []" using assms(1) by (auto simp: between_def at_start_def)
  consider "row = []" | "row = [[]]" | "row \<noteq> []" "row \<noteq> [[]]" by blast
  then show ?thesis
  proof cases
    case 1
    then show ?thesis using assms
      by (cases r) (auto simp: csv_line_def read_on_Cons csv_char_def between_def is_newline_def end_record_def)
  next
    case 2
    define q where "q = read_on prev (quoted_cell []) r"
    have f: "field_read r [] q" "cr_state q = QuoteInQuoted" using read_quoted[OF a(1), of "[]"] by (simp_all add: q_def)
    have "read_on prev (csv_line row) r = csv_char (CHR '','') (last_of prev (quoted_cell []), CHR 0x0A) q"
      by (simp add: 2 csv_line_def read_on_append read_on_Cons q_def del: append_Cons)
    also have "\<dots> = q\<lparr>cr_records := cr_records r @ [cr_fields r @ [[]]], cr_fields := [], cr_text := [], cr_state := EatNewline\<rparr>"
      by (rule read_end[OF a(1) f(1)]) (simp_all add: f(2))
    finally show ?thesis unfolding a(2) by (cases r, cases q) (simp add: 2)
  next
    case 3
    then show ?thesis using read_cells[OF a(1)] a(2) by (simp add: csv_line_def)
  qed
qed

lemma read_lines:
  assumes "between prev r" "rows \<noteq> []"
  shows "read_on prev (csv_text rows) r
    = r\<lparr>cr_records := cr_records r @ rows, cr_fields := [], cr_text := [], cr_state := EatNewline\<rparr>"
  using assms
proof (induction rows arbitrary: prev r)
  case (Cons row rows)
  define q where "q = r\<lparr>cr_records := cr_records r @ [row], cr_fields := [], cr_text := [], cr_state := EatNewline\<rparr>"
  have l: "last_of prev (csv_line row) = CHR 0x0A" by (simp add: last_of_def csv_line_def)
  have "read_on prev (csv_text (row # rows)) r = read_on (CHR 0x0A) (csv_text rows) q"
    using read_line[OF Cons.prems(1), of row] by (simp add: csv_text_def read_on_append l q_def)
  moreover have "between (CHR 0x0A) q" by (simp add: between_def q_def)
  ultimately show ?case using Cons.IH[of "CHR 0x0A" q] by (cases "rows = []") (simp_all add: q_def csv_text_def)
qed simp

lemma csv_reads: "csv_records (CHR '','') (csv_text rows) = rows"
proof (cases "rows = []")
  case True
  then show ?thesis by (simp add: csv_text_def csv_records_def)
next
  case False
  define r where "r = \<lparr>cr_records = [], cr_fields = [], cr_text = [], cr_state = StartRecord\<rparr>"
  have "between (CHR 0x00) r" by (simp add: r_def between_def)
  from read_lines[OF this False] show ?thesis
    by (simp add: csv_records_def Let_def read_on_def r_def[symmetric]) (simp add: r_def)
qed

lemma safe_cell_neutral: "safe_cell v = [] \<or> \<not> formula_start (hd (safe_cell v))"
  by (auto simp: safe_cell_def Let_def formula_start_def)

end
