(* ===== verification/Access.thy ===== *)
theory Access
  imports Review LedgerSteps
begin

text \<open>
  Who may do what: the roles (\<open>security/rbac.py\<close>), users and their API keys
  (\<open>persistence/models/security.py\<close>, \<open>security/api_keys.py\<close>, \<open>cli/create_api_key.py\<close>),
  authentication and the role requirement of a route (\<open>api/auth.py\<close>), and the
  administration of users (\<open>api/v1/admin.py\<close>). A handler gets what authentication gave it;
  random keys, ids and the clock are inputs, an error keeps nothing.
\<close>

section \<open>Roles\<close>

datatype role = VIEWER | ANALYST | ADMIN | SYSTEM

primrec role_rank :: "role \<Rightarrow> nat" where
  "role_rank VIEWER = 1"
| "role_rank ANALYST = 2"
| "role_rank ADMIN = 3"
| "role_rank SYSTEM = 4"

instantiation role :: linorder
begin

definition less_eq_role :: "role \<Rightarrow> role \<Rightarrow> bool" where
  "less_eq_role r s = (role_rank r \<le> role_rank s)"

definition less_role :: "role \<Rightarrow> role \<Rightarrow> bool" where
  "less_role r s = (role_rank r < role_rank s)"

instance
proof
  fix r s :: role
  show "r \<le> s \<Longrightarrow> s \<le> r \<Longrightarrow> r = s" by (cases r; cases s) (simp_all add: less_eq_role_def)
qed (auto simp: less_eq_role_def less_role_def)

end

definition role_text :: "role \<Rightarrow> string" where
  "role_text r = (case r of VIEWER \<Rightarrow> ''VIEWER'' | ANALYST \<Rightarrow> ''ANALYST'' | ADMIN \<Rightarrow> ''ADMIN'' | SYSTEM \<Rightarrow> ''SYSTEM'')"

definition has_at_least :: "role \<Rightarrow> role \<Rightarrow> bool" where
  "has_at_least actual required = (required \<le> actual)"

section \<open>Users and keys\<close>

record user =
  us_id :: nat
  us_name :: string
  us_email :: "string option"
  us_role :: role
  us_active :: bool
  us_created :: instant

record api_key =
  ak_id :: nat
  ak_hash :: string
  ak_name :: string
  ak_role :: role
  ak_revoked :: "instant option"
  ak_user :: "nat option"

record accounts =
  ac_users :: "user list"
  ac_keys :: "api_key list"

definition find_user :: "nat \<Rightarrow> accounts \<Rightarrow> user option" where
  "find_user i ac = find (\<lambda>u. us_id u = i) (ac_users ac)"

text \<open>The constraints and widths of the two tables.\<close>

definition add_user :: "user \<Rightarrow> accounts \<Rightarrow> accounts res" where
  "add_user u ac =
     (if 100 < length (us_name u) \<or> (case us_email u of None \<Rightarrow> False | Some m \<Rightarrow> 200 < length m) then Inl DataError
      else if us_id u \<in> us_id ` set (ac_users ac) \<or> us_name u \<in> us_name ` set (ac_users ac) then Inl IntegrityError
      else Inr (ac\<lparr>ac_users := ac_users ac @ [u]\<rparr>))"

definition add_key :: "api_key \<Rightarrow> accounts \<Rightarrow> accounts res" where
  "add_key k ac =
     (if 64 < length (ak_hash k) \<or> 100 < length (ak_name k) then Inl DataError
      else if ak_id k \<in> ak_id ` set (ac_keys ac) \<or> ak_hash k \<in> ak_hash ` set (ac_keys ac) \<or> ak_name k \<in> ak_name ` set (ac_keys ac)
         \<or> (case ak_user k of None \<Rightarrow> False | Some i \<Rightarrow> find_user i ac = None)
      then Inl IntegrityError
      else Inr (ac\<lparr>ac_keys := ac_keys ac @ [k]\<rparr>))"

section \<open>Authentication\<close>

record principal =
  pr_key :: nat
  pr_name :: string
  pr_role :: role

definition key_lives :: "accounts \<Rightarrow> api_key \<Rightarrow> bool" where
  "key_lives ac k =
     (ak_revoked k = None
      \<and> (case ak_user k of None \<Rightarrow> True | Some i \<Rightarrow> (case find_user i ac of None \<Rightarrow> False | Some u \<Rightarrow> us_active u)))"

definition authenticate :: "(string \<Rightarrow> string) \<Rightarrow> string option \<Rightarrow> accounts \<Rightarrow> principal res" where
  "authenticate sha raw ac =
     (case raw of
        None \<Rightarrow> Inl (HttpError 401)
      | Some key \<Rightarrow>
          if key = [] then Inl (HttpError 401)
          else case find (\<lambda>k. ak_hash k = sha key \<and> key_lives ac k) (ac_keys ac) of
            None \<Rightarrow> Inl (HttpError 401)
          | Some k \<Rightarrow> Inr \<lparr>pr_key = ak_id k, pr_name = ak_name k, pr_role = ak_role k\<rparr>)"

definition require_role :: "role \<Rightarrow> principal \<Rightarrow> principal res" where
  "require_role needed p = (if has_at_least (pr_role p) needed then Inr p else Inl (HttpError 403))"

section \<open>Texts of a request\<close>

text \<open>Pydantic strips what Unicode calls white space.\<close>

definition body_space :: "char \<Rightarrow> bool" where
  "body_space c = (c \<in> {CHR 0x09, CHR 0x0A, CHR 0x0B, CHR 0x0C, CHR 0x0D, CHR 0x20, CHR 0x85, CHR 0xA0})"

definition body_strip :: "string \<Rightarrow> string" where
  "body_strip s = rev (dropWhile body_space (rev (dropWhile body_space s)))"

text \<open>A required text of a request body: stripped, not empty, at most so long. An optional
  note may be empty.\<close>

definition body_text :: "nat \<Rightarrow> string \<Rightarrow> string res" where
  "body_text n s = (let t = body_strip s in if t = [] \<or> n < length t then Inl (HttpError 422) else Inr t)"

definition body_note :: "nat \<Rightarrow> string option \<Rightarrow> string option res" where
  "body_note n s =
     (case s of None \<Rightarrow> Inr None
      | Some t \<Rightarrow> if n < length (body_strip t) then Inl (HttpError 422) else Inr (Some (body_strip t)))"

definition note_or :: "string \<Rightarrow> string option \<Rightarrow> string" where
  "note_or other note = (case note of None \<Rightarrow> other | Some t \<Rightarrow> if t = [] then other else t)"

definition name_char :: "string \<Rightarrow> char \<Rightarrow> bool" where
  "name_char extra c = (c \<in> set ''ABCDEFGHIJKLMNOPQRSTUVWXYZabcdefghijklmnopqrstuvwxyz0123456789._-'' \<or> c \<in> set extra)"

section \<open>Administration\<close>

definition users_chain :: string where "users_chain = ''users''"

definition audit_user ::
    "(string \<Rightarrow> string) \<Rightarrow> principal \<Rightarrow> instant \<Rightarrow> string \<Rightarrow> json \<Rightarrow> json \<Rightarrow> json \<Rightarrow> db \<Rightarrow> db res" where
  "audit_user sha p now why affected before after db =
     append_audit sha users_chain ''USER'' (api_key_actor (pr_name p)) CONFIG_CHANGE affected why now before after db"

record user_body =
  ub_name :: string
  ub_email :: "string option"
  ub_role :: role

definition create_user ::
    "(string \<Rightarrow> string) \<Rightarrow> principal \<Rightarrow> user_body \<Rightarrow> nat \<Rightarrow> instant \<Rightarrow> accounts \<times> db \<Rightarrow> (user \<times> accounts \<times> db) res" where
  "create_user sha p body i now s =
     (case s of (ac, db) \<Rightarrow>
        bind_res (require_role ADMIN p) (\<lambda>_.
          let name = body_strip (ub_name body); email = map_option body_strip (ub_email body);
              u = \<lparr>us_id = i, us_name = name, us_email = email, us_role = ub_role body, us_active = True, us_created = now\<rparr> in
          if length name < 2 \<or> 100 < length name \<or> \<not> list_all (name_char ''@'') name
             \<or> (case email of None \<Rightarrow> False | Some m \<Rightarrow> 200 < length m)
          then Inl (HttpError 422)
          else case add_user u ac of
            Inl e \<Rightarrow> Inl (if e = IntegrityError then HttpError 409 else e)
          | Inr ac' \<Rightarrow>
              bind_res (audit_user sha p now (''user '' @ name @ '' created'') (JObj [(''user_id'', JStr (uuid_str i))]) JNull
                  (JObj [(''username'', JStr name), (''role'', JStr (role_text (ub_role body))), (''is_active'', JBool True)]) db)
                (\<lambda>db'. Inr (u, ac', db'))))"

definition list_users :: "int \<Rightarrow> int \<Rightarrow> accounts \<Rightarrow> user list \<times> nat \<times> int \<times> int" where
  "list_users limit offset ac =
     (let l = max 1 (min limit 200); k = max 0 offset in
      (take (nat l) (drop (nat k) (sort_key us_name (ac_users ac))), length (ac_users ac), l, k))"

text \<open>\<open>seen\<close> is the user as the handler reads it, without a lock; \<open>raw\<close> the random key.\<close>

definition issue_api_key ::
    "(string \<Rightarrow> string) \<Rightarrow> principal \<Rightarrow> user option \<Rightarrow> string \<Rightarrow> string \<Rightarrow> nat \<Rightarrow> instant \<Rightarrow> accounts \<times> db
     \<Rightarrow> (api_key \<times> accounts \<times> db) res" where
  "issue_api_key sha p seen label raw i now s =
     (case s of (ac, db) \<Rightarrow>
        bind_res (require_role ADMIN p) (\<lambda>_.
          let tag1 = body_strip label in
          if tag1 = [] \<or> 40 < length tag1 \<or> \<not> list_all (name_char []) tag1 then Inl (HttpError 422)
          else case seen of
            None \<Rightarrow> Inl (HttpError 404)
          | Some u \<Rightarrow>
              if \<not> us_active u then Inl (HttpError 409)
              else
                let name = us_name u @ CHR '':'' # tag1;
                    k = \<lparr>ak_id = i, ak_hash = sha raw, ak_name = name, ak_role = us_role u, ak_revoked = None,
                         ak_user = Some (us_id u)\<rparr> in
                case add_key k ac of
                  Inl e \<Rightarrow> Inl (if e = IntegrityError then HttpError 409 else e)
                | Inr ac' \<Rightarrow>
                    bind_res (audit_user sha p now (''API key '' @ name @ '' issued'')
                        (JObj [(''user_id'', JStr (uuid_str (us_id u))), (''api_key_id'', JStr (uuid_str i))]) JNull
                        (JObj [(''name'', JStr name), (''role'', JStr (role_text (us_role u)))]) db)
                      (\<lambda>db'. Inr (k, ac', db'))))"

definition deactivate_user ::
    "(string \<Rightarrow> string) \<Rightarrow> principal \<Rightarrow> nat \<Rightarrow> instant \<Rightarrow> accounts \<times> db \<Rightarrow> (user \<times> accounts \<times> db) res" where
  "deactivate_user sha p i now s =
     (case s of (ac, db) \<Rightarrow>
        bind_res (require_role ADMIN p) (\<lambda>_.
          case find_user i ac of
            None \<Rightarrow> Inl (HttpError 404)
          | Some u \<Rightarrow>
              let u' = u\<lparr>us_active := False\<rparr>;
                  revoked = filter (\<lambda>k. ak_user k = Some i \<and> ak_revoked k = None) (ac_keys ac);
                  ac' = \<lparr>ac_users = map (\<lambda>v. if us_id v = i then v\<lparr>us_active := False\<rparr> else v) (ac_users ac),
                         ac_keys = map (\<lambda>k. if ak_user k = Some i \<and> ak_revoked k = None then k\<lparr>ak_revoked := Some now\<rparr> else k)
                                     (ac_keys ac)\<rparr> in
              bind_res (audit_user sha p now (''user '' @ us_name u @ '' deactivated'') (JObj [(''user_id'', JStr (uuid_str i))])
                  (JObj [(''is_active'', JBool True)])
                  (JObj [(''is_active'', JBool False), (''keys_revoked'', JInt (int (length revoked)))]) db)
                (\<lambda>db'. Inr (u', ac', db'))))"

text \<open>The command line: a key of no user; the returned code of the program.\<close>

definition create_key_command :: "(string \<Rightarrow> string) \<Rightarrow> string \<Rightarrow> role \<Rightarrow> string \<Rightarrow> nat \<Rightarrow> accounts \<Rightarrow> (nat \<times> accounts) res" where
  "create_key_command sha name r raw i ac =
     (case add_key \<lparr>ak_id = i, ak_hash = sha raw, ak_name = name, ak_role = r, ak_revoked = None, ak_user = None\<rparr> ac of
        Inl e \<Rightarrow> if e = IntegrityError then Inr (1, ac) else Inl e
      | Inr ac' \<Rightarrow> Inr (0, ac'))"

section \<open>A deactivated user stays out\<close>

text \<open>The key of a user carries the user's role.\<close>

definition owned :: "user list \<Rightarrow> api_key \<Rightarrow> bool" where
  "owned us k = (case ak_user k of None \<Rightarrow> True | Some i \<Rightarrow> (\<exists>u \<in> set us. us_id u = i \<and> us_role u = ak_role k))"

definition accounts_ok :: "accounts \<Rightarrow> bool" where
  "accounts_ok ac =
     (distinct (map us_id (ac_users ac)) \<and> distinct (map us_name (ac_users ac)) \<and> distinct (map ak_id (ac_keys ac))
      \<and> distinct (map ak_hash (ac_keys ac)) \<and> distinct (map ak_name (ac_keys ac))
      \<and> list_all (owned (ac_users ac)) (ac_keys ac))"

text \<open>What a user keeps: identity and role; once inactive, always.\<close>

definition same_user :: "user \<Rightarrow> user \<Rightarrow> bool" where
  "same_user u v = (us_id v = us_id u \<and> us_name v = us_name u \<and> us_role v = us_role u \<and> (us_active v \<longrightarrow> us_active u))"

text \<open>Committed transactions in any order; an issue may rest on a stale look at the user.\<close>

inductive account_step :: "(string \<Rightarrow> string) \<Rightarrow> accounts \<times> db \<Rightarrow> accounts \<times> db \<Rightarrow> bool" for sha where
  created: "create_user sha p body i now s = Inr (u, s') \<Longrightarrow> account_step sha s s'"
| issued: "\<lbrakk>issue_api_key sha p seen label raw i now s = Inr (k, s');
    case seen of None \<Rightarrow> True | Some u \<Rightarrow> \<exists>v \<in> set (ac_users (fst s)). same_user u v\<rbrakk> \<Longrightarrow> account_step sha s s'"
| deactivated: "deactivate_user sha p i now s = Inr (u, s') \<Longrightarrow> account_step sha s s'"
| command: "create_key_command sha name r raw i ac = Inr (n, ac') \<Longrightarrow> account_step sha (ac, db) (ac', db)"
| elsewhere: "account_step sha (ac, db) (ac, db')"

lemma find_user_some: "find_user i ac = Some u \<Longrightarrow> u \<in> set (ac_users ac) \<and> us_id u = i"
  by (auto simp: find_user_def find_Some_iff)

lemma find_user_in:
  assumes "distinct (map us_id (ac_users ac))" "u \<in> set (ac_users ac)"
  shows "find_user (us_id u) ac = Some u"
proof (cases "find_user (us_id u) ac")
  case None
  then show ?thesis using assms(2) by (auto simp: find_user_def find_None_iff)
next
  case (Some v)
  then have "v \<in> set (ac_users ac)" "us_id v = us_id u" using find_user_some by blast+
  then show ?thesis using distinct_map_inj[OF assms(1), of v u] assms(2) Some by simp
qed

lemma add_key_ok:
  assumes "add_key k ac = Inr ac'" "accounts_ok ac" "owned (ac_users ac) k"
  shows "accounts_ok ac' \<and> ac_users ac' = ac_users ac \<and> ac_keys ac' = ac_keys ac @ [k]"
proof -
  have a: "ac' = ac\<lparr>ac_keys := ac_keys ac @ [k]\<rparr>" "ak_id k \<notin> ak_id ` set (ac_keys ac)" "ak_hash k \<notin> ak_hash ` set (ac_keys ac)"
    "ak_name k \<notin> ak_name ` set (ac_keys ac)"
    using assms(1) by (auto simp: add_key_def split: if_splits)
  show ?thesis using assms(2,3) a(2-4) unfolding a(1) by (simp add: accounts_ok_def del: image_iff)
qed

lemma owned_more: "\<lbrakk>owned us k; \<And>u. u \<in> set us \<Longrightarrow> \<exists>v \<in> set vs. us_id v = us_id u \<and> us_role v = us_role u\<rbrakk> \<Longrightarrow> owned vs k"
  by (fastforce simp: owned_def split: option.splits)

lemma add_user_ok:
  assumes "add_user u ac = Inr ac'" "accounts_ok ac"
  shows "accounts_ok ac' \<and> ac_users ac' = ac_users ac @ [u] \<and> ac_keys ac' = ac_keys ac"
proof -
  have a: "ac' = ac\<lparr>ac_users := ac_users ac @ [u]\<rparr>" "us_id u \<notin> us_id ` set (ac_users ac)" "us_name u \<notin> us_name ` set (ac_users ac)"
    using assms(1) by (auto simp: add_user_def split: if_splits)
  have "owned (ac_users ac @ [u]) k" if "k \<in> set (ac_keys ac)" for k
    by (rule owned_more[of "ac_users ac"]) (use that assms(2) in \<open>auto simp: accounts_ok_def list_all_iff\<close>)
  then have "list_all (owned (ac_users ac @ [u])) (ac_keys ac)" by (simp add: list_all_iff)
  then show ?thesis using assms(2) a(2,3) unfolding a(1) by (simp add: accounts_ok_def del: image_iff)
qed

lemma users_kept_refl: "list_all2 same_user us us"
  by (simp add: list_all2_refl same_user_def)

lemma account_step_keeps:
  assumes "account_step sha s s'" "accounts_ok (fst s)"
  shows "accounts_ok (fst s') \<and> (\<exists>old new. ac_users (fst s') = old @ new \<and> list_all2 same_user (ac_users (fst s)) old)"
  using assms
proof cases
  case (created p body i now u)
  then obtain v where "add_user v (fst s) = Inr (fst s')"
    by (cases s) (auto simp: create_user_def Let_def res_iff split: if_splits sum.splits)
  from add_user_ok[OF this assms(2)] users_kept_refl show ?thesis by blast
next
  case (issued p seen label raw i now k)
  then obtain u where u: "seen = Some u" "add_key k (fst s) = Inr (fst s')" "ak_user k = Some (us_id u)" "ak_role k = us_role u"
    by (cases s) (auto simp: issue_api_key_def Let_def res_iff split: if_splits sum.splits option.splits)
  have "owned (ac_users (fst s)) k" using issued(2) u by (auto simp: same_user_def owned_def)
  then have "accounts_ok (fst s') \<and> ac_users (fst s') = ac_users (fst s)" using add_key_ok[OF u(2) assms(2)] by simp
  then show ?thesis using users_kept_refl[of "ac_users (fst s)"] by (intro conjI exI[of _ "ac_users (fst s)"] exI[of _ "[]"]) simp_all
next
  case (deactivated p i now u)
  define off where "off = (\<lambda>v :: user. if us_id v = i then v\<lparr>us_active := False\<rparr> else v)"
  define gone where "gone = (\<lambda>k :: api_key. if ak_user k = Some i \<and> ak_revoked k = None then k\<lparr>ak_revoked := Some now\<rparr> else k)"
  have e: "fst s' = \<lparr>ac_users = map off (ac_users (fst s)), ac_keys = map gone (ac_keys (fst s))\<rparr>"
    using deactivated by (cases s) (auto simp: deactivate_user_def Let_def res_iff off_def gone_def split: option.splits)
  have o: "us_id (off v) = us_id v" "us_name (off v) = us_name v" "us_role (off v) = us_role v" for v by (simp_all add: off_def)
  have g: "ak_id (gone k) = ak_id k" "ak_hash (gone k) = ak_hash k" "ak_name (gone k) = ak_name k" "ak_user (gone k) = ak_user k"
    "ak_role (gone k) = ak_role k" for k by (simp_all add: gone_def)
  have "owned (map off (ac_users (fst s))) (gone k)" if "k \<in> set (ac_keys (fst s))" for k
  proof -
    have "owned (map off (ac_users (fst s))) k"
      by (rule owned_more[of "ac_users (fst s)"]) (use that assms(2) o in \<open>auto simp: accounts_ok_def list_all_iff\<close>)
    then show ?thesis by (cases "ak_user k") (simp_all add: owned_def g)
  qed
  then have "list_all (owned (map off (ac_users (fst s)))) (map gone (ac_keys (fst s)))" by (simp add: list_all_iff)
  then have "accounts_ok (fst s')" using assms(2) unfolding e by (simp add: accounts_ok_def o g o_def)
  moreover have "list_all2 same_user (ac_users (fst s)) (map off (ac_users (fst s)))"
    by (auto simp: list_all2_map2 same_user_def off_def intro!: list_all2_refl)
  ultimately show ?thesis unfolding e by (intro conjI exI[of _ "map off (ac_users (fst s))"] exI[of _ "[]"]) simp_all
next
  case (command name r raw i ac n ac' db)
  then have "ac' = ac \<or> (\<exists>k. add_key k ac = Inr ac' \<and> ak_user k = None)"
    by (auto simp: create_key_command_def split: sum.splits if_splits)
  moreover have "owned (ac_users ac) k" if "ak_user k = None" for k using that by (simp add: owned_def)
  ultimately have "accounts_ok ac' \<and> ac_users ac' = ac_users ac" using add_key_ok[of _ ac ac'] assms(2) command(1) by auto
  then show ?thesis using command users_kept_refl[of "ac_users ac"]
    by (intro conjI exI[of _ "ac_users ac"] exI[of _ "[]"]) simp_all
next
  case (elsewhere ac db db')
  then show ?thesis using assms(2) users_kept_refl[of "ac_users ac"]
    by (intro conjI exI[of _ "ac_users ac"] exI[of _ "[]"]) simp_all
qed


lemma account_steps_keep:
  assumes "(account_step sha)\<^sup>*\<^sup>* s s'" "accounts_ok (fst s)" "u \<in> set (ac_users (fst s))"
  shows "accounts_ok (fst s') \<and> (\<exists>v \<in> set (ac_users (fst s')). same_user u v)"
  using assms
proof (induction rule: rtranclp_induct)
  case base
  then show ?case by (auto simp: same_user_def)
next
  case (step m s')
  obtain v where v: "accounts_ok (fst m)" "v \<in> set (ac_users (fst m))" "same_user u v" using step by blast
  obtain old new where w: "accounts_ok (fst s')" "ac_users (fst s') = old @ new" "list_all2 same_user (ac_users (fst m)) old"
    using account_step_keeps[OF step.hyps(2) v(1)] by blast
  obtain k where k: "k < length (ac_users (fst m))" "ac_users (fst m) ! k = v" using v(2) by (meson in_set_conv_nth)
  then have "old ! k \<in> set old" "same_user v (old ! k)"
    using list_all2_nthD[OF w(3) k(1)] list_all2_lengthD[OF w(3)] by auto
  then show ?case using v(3) w(1,2) by (auto simp: same_user_def)
qed

lemma find_holds: "find P xs = Some x \<Longrightarrow> x \<in> set xs \<and> P x"
  by (auto simp: find_Some_iff)

text \<open>C14. A deactivated user stays out: whatever is administered later, keys issued in a race
  included, no key of the user authenticates again. Whoever gets in has a key with this
  digest that was not revoked, and acts with the role of its active user.\<close>

theorem deactivated_stays_out:
  assumes "(account_step sha)\<^sup>*\<^sup>* (ac1, db1) (ac2, db2)" "accounts_ok ac1" "u \<in> set (ac_users ac1)" "\<not> us_active u"
  shows "accounts_ok ac2
    \<and> (\<forall>raw p. authenticate sha (Some raw) ac2 = Inr p \<longrightarrow>
         (\<exists>k \<in> set (ac_keys ac2). ak_id k = pr_key p \<and> ak_hash k = sha raw \<and> ak_role k = pr_role p \<and> ak_revoked k = None
            \<and> ak_user k \<noteq> Some (us_id u)
            \<and> (\<forall>i. ak_user k = Some i \<longrightarrow> (\<exists>v \<in> set (ac_users ac2). us_id v = i \<and> us_active v \<and> us_role v = pr_role p))))"
proof -
  obtain w where w: "accounts_ok ac2" "w \<in> set (ac_users ac2)" "same_user u w"
    using account_steps_keep[OF assms(1)] assms(2,3) by fastforce
  have d: "distinct (map us_id (ac_users ac2))" using w(1) by (simp add: accounts_ok_def)
  have off: "find_user (us_id u) ac2 = Some w" using find_user_in[OF d w(2)] w(3) by (simp add: same_user_def)
  have "\<exists>k \<in> set (ac_keys ac2). ak_id k = pr_key p \<and> ak_hash k = sha raw \<and> ak_role k = pr_role p \<and> ak_revoked k = None
            \<and> ak_user k \<noteq> Some (us_id u)
            \<and> (\<forall>i. ak_user k = Some i \<longrightarrow> (\<exists>v \<in> set (ac_users ac2). us_id v = i \<and> us_active v \<and> us_role v = pr_role p))"
    if a: "authenticate sha (Some raw) ac2 = Inr p" for raw p
  proof -
    obtain k where k: "k \<in> set (ac_keys ac2)" "ak_hash k = sha raw" "key_lives ac2 k" "p = \<lparr>pr_key = ak_id k, pr_name = ak_name k, pr_role = ak_role k\<rparr>"
      using a by (auto simp: authenticate_def split: if_splits option.splits dest!: find_holds)
    have o: "owned (ac_users ac2) k" using w(1) k(1) by (simp add: accounts_ok_def list_all_iff)
    have "\<exists>v \<in> set (ac_users ac2). us_id v = i \<and> us_active v \<and> us_role v = ak_role k" if i: "ak_user k = Some i" for i
    proof -
      obtain v where v: "find_user i ac2 = Some v" "us_active v" using k(3) i by (auto simp: key_lives_def split: option.splits)
      obtain x where x: "x \<in> set (ac_users ac2)" "us_id x = i" "us_role x = ak_role k" using o i by (auto simp: owned_def)
      then show ?thesis using v find_user_in[OF d x(1)] by auto
    qed
    moreover have "ak_user k \<noteq> Some (us_id u)"
      using k(3) off w(3) assms(4) by (auto simp: key_lives_def same_user_def)
    moreover have "ak_revoked k = None" using k(3) by (simp add: key_lives_def)
    ultimately show ?thesis using k(1,2) by (intro bexI[of _ k]) (simp_all add: k(4))
  qed
  then show ?thesis using w(1) by blast
qed

text \<open>A user name of up to 100 and a label of up to 40 characters are valid, their key's name has
  a column of 100: such a request fails in the database.\<close>

lemma long_key_name_fails:
  assumes "pr_role p = ADMIN" "body_strip label = label" "label \<noteq> []" "length label \<le> 40" "list_all (name_char []) label"
    "us_active u" "99 < length (us_name u) + length label" "\<And>x. length (sha x) \<le> 64"
  shows "issue_api_key sha p (Some u) label raw i now (ac, db) = Inl DataError"
  using assms by (simp add: issue_api_key_def require_role_def has_at_least_def Let_def add_key_def)

section \<open>Witness\<close>

definition sample_bob :: user where
  "sample_bob = \<lparr>us_id = 1, us_name = ''bob'', us_email = None, us_role = ANALYST, us_active = True, us_created = 0\<rparr>"

definition sample_accounts :: accounts where
  "sample_accounts = \<lparr>ac_users = [sample_bob\<lparr>us_active := False\<rparr>], ac_keys = []\<rparr>"

definition sample_admin :: principal where
  "sample_admin = \<lparr>pr_key = 9, pr_name = ''ann'', pr_role = ADMIN\<rparr>"

text \<open>Bob's key, issued on a look at him from before he was deactivated.\<close>

theorem deactivated_stays_out_witness:
  "\<exists>ac2 db2. (account_step sample_sha)\<^sup>*\<^sup>* (sample_accounts, empty_db) (ac2, db2) \<and> map ak_name (ac_keys ac2) = [''bob:laptop'']
     \<and> accounts_ok ac2 \<and> (\<nexists>p. authenticate sample_sha (Some ''rk_bob'') ac2 = Inr p)"
proof -
  let ?k = "\<lparr>ak_id = 2, ak_hash = sample_sha ''rk_bob'', ak_name = ''bob:laptop'', ak_role = ANALYST, ak_revoked = None, ak_user = Some 1\<rparr>"
  have l: "logged sample_sha empty_db" "next_id empty_db < 1000" by (simp_all add: logged_def empty_db_def)
  obtain db where a: "audit_user sample_sha sample_admin 5 ''API key bob:laptop issued''
      (JObj [(''user_id'', JStr (uuid_str 1)), (''api_key_id'', JStr (uuid_str 2))]) JNull
      (JObj [(''name'', JStr ''bob:laptop''), (''role'', JStr ''ANALYST'')]) empty_db = Inr db"
    unfolding audit_user_def using sample_audit[OF l, of "JObj [(''user_id'', JStr (uuid_str 1)), (''api_key_id'', JStr (uuid_str 2))]"
      JNull "JObj [(''name'', JStr ''bob:laptop''), (''role'', JStr ''ANALYST'')]"] by fastforce
  have t: "body_strip ''laptop'' = ''laptop''" "list_all (name_char []) ''laptop''" by code_simp+
  have "issue_api_key sample_sha sample_admin (Some sample_bob) ''laptop'' ''rk_bob'' 2 5 (sample_accounts, empty_db)
      = Inr (?k, sample_accounts\<lparr>ac_keys := [?k]\<rparr>, db)"
    using a t by (simp add: issue_api_key_def require_role_def has_at_least_def sample_admin_def sample_bob_def add_key_def
        sample_accounts_def find_user_def role_text_def sample_sha_def less_eq_role_def Let_def)
  then have "account_step sample_sha (sample_accounts, empty_db) (sample_accounts\<lparr>ac_keys := [?k]\<rparr>, db)"
    by (rule account_step.issued) (simp add: sample_accounts_def same_user_def)
  then have s: "(account_step sample_sha)\<^sup>*\<^sup>* (sample_accounts, empty_db) (sample_accounts\<lparr>ac_keys := [?k]\<rparr>, db)" by blast
  have "accounts_ok sample_accounts" "sample_bob\<lparr>us_active := False\<rparr> \<in> set (ac_users sample_accounts)"
    by (simp_all add: accounts_ok_def sample_accounts_def)
  from deactivated_stays_out[OF s this] s show ?thesis
    by (intro exI[of _ "sample_accounts\<lparr>ac_keys := [?k]\<rparr>"] exI[of _ db]) (auto simp: sample_bob_def)
qed

end
