(* ===== verification/ExceptionDesk.thy ===== *)
theory ExceptionDesk
  imports Access CsvWriter Backlog
begin

text \<open>
  The endpoints where people work: exceptions (\<open>api/v1/exceptions.py\<close>) and matches
  (\<open>api/v1/matches.py\<close>). A handler checks the role, the body, then the row, and commits; an
  HTTP error is \<open>HttpError\<close> of its status and changes nothing. The responses are the rows
  themselves.
\<close>

section \<open>Finding\<close>

definition find_exc :: "nat \<Rightarrow> world \<Rightarrow> exc option" where
  "find_exc i w = find (\<lambda>x. x_id x = i) (w_excs w)"

text \<open>The row of an exception that is still open.\<close>

definition open_exc :: "nat \<Rightarrow> world \<Rightarrow> exc res" where
  "open_exc i w =
     (case find_exc i w of
        None \<Rightarrow> Inl (HttpError 404)
      | Some x \<Rightarrow> if still_open (x_status x) then Inr x else Inl (HttpError 409))"

definition role_needed :: "exc \<Rightarrow> exc_status \<Rightarrow> role" where
  "role_needed x outcome = (if outcome = WRITTEN_OFF \<or> TIER_3_SENIOR \<le> x_tier x then ADMIN else ANALYST)"

text \<open>An event by a person; the column of the actor holds 100 characters.\<close>

definition person_event ::
    "principal \<Rightarrow> nat \<Rightarrow> event_type \<Rightarrow> tier \<Rightarrow> tier \<Rightarrow> string \<Rightarrow> instant \<Rightarrow> world \<Rightarrow> world res" where
  "person_event p i ty before after detail now w =
     (if 100 < length (api_key_actor (pr_name p)) then Inl DataError
      else Inr (add_event \<lparr>ev_exception = i, ev_type = ty, ev_from = Some before, ev_to = Some after,
                           ev_actor = api_key_actor (pr_name p), ev_detail = detail, ev_at = now\<rparr> w))"

definition person_audit ::
    "(string \<Rightarrow> string) \<Rightarrow> principal \<Rightarrow> nat \<Rightarrow> audit_action \<Rightarrow> string \<Rightarrow> instant \<Rightarrow> json \<Rightarrow> json \<Rightarrow> world \<Rightarrow> world res" where
  "person_audit sha p i action why now before after w =
     world_audit sha ''USER'' (api_key_actor (pr_name p)) action (JObj [(''exception_id'', id_json i)]) why now before after w"

section \<open>Resolving and assigning\<close>

definition resolved_by :: "principal \<Rightarrow> exc_status \<Rightarrow> string \<Rightarrow> instant \<Rightarrow> exc \<Rightarrow> exc" where
  "resolved_by p outcome details now x =
     x\<lparr>x_status := outcome, x_resolved_at := Some now, x_resolved_by := Some (pr_name p), x_details := Some details\<rparr>"

definition resolve_exception ::
    "(string \<Rightarrow> string) \<Rightarrow> principal \<Rightarrow> nat \<Rightarrow> exc_status \<Rightarrow> string \<Rightarrow> instant \<Rightarrow> world \<Rightarrow> world res" where
  "resolve_exception sha p i outcome details now w =
     bind_res (require_role ANALYST p) (\<lambda>_.
     bind_res (body_text 2000 details) (\<lambda>why.
     bind_res (guard_res (outcome \<in> {RESOLVED, WRITTEN_OFF}) (HttpError 422)) (\<lambda>_.
     bind_res (open_exc i w) (\<lambda>x.
     bind_res (require_role (role_needed x outcome) p) (\<lambda>_.
     bind_res (person_event p i RESOLVED_EVENT (x_tier x) (x_tier x) (exc_status_text outcome @ '': '' @ why) now
         (update_exception i (resolved_by p outcome why now) w)) (\<lambda>w1.
       person_audit sha p i RESOLVE why now (state_json (x_status x) (x_tier x)) (state_json outcome (x_tier x)) w1))))))"

definition assignee_json :: "string option \<Rightarrow> json" where
  "assignee_json a = JObj [(''assigned_to'', case a of None \<Rightarrow> JNull | Some s \<Rightarrow> JStr s)]"

definition assign_exception ::
    "(string \<Rightarrow> string) \<Rightarrow> principal \<Rightarrow> nat \<Rightarrow> string \<Rightarrow> string option \<Rightarrow> instant \<Rightarrow> world \<Rightarrow> world res" where
  "assign_exception sha p i assignee note now w =
     bind_res (require_role ANALYST p) (\<lambda>_.
     bind_res (body_text 100 assignee) (\<lambda>who.
     bind_res (body_note 2000 note) (\<lambda>n.
     bind_res (open_exc i w) (\<lambda>x.
     bind_res (person_event p i ASSIGNED_EVENT (x_tier x) (x_tier x) (''assigned to '' @ who) now
         (update_exception i (\<lambda>y. y\<lparr>x_assigned := Some who\<rparr>) w)) (\<lambda>w1.
       person_audit sha p i ASSIGN (note_or ''assigned'' n) now (assignee_json (x_assigned x)) (assignee_json (Some who)) w1)))))"

definition run_sla_scan :: "(string \<Rightarrow> string) \<Rightarrow> principal \<Rightarrow> instant \<Rightarrow> world \<Rightarrow> (scan_outcome \<times> world) res" where
  "run_sla_scan sha p now w = bind_res (require_role ADMIN p) (\<lambda>_. sla_scan sha True now w)"

section \<open>Overriding and reopening\<close>

definition routed_json :: "tier \<Rightarrow> string option \<Rightarrow> json" where
  "routed_json t a =
     JObj [(''tier'', JInt (int (tier_no t))), (''assigned_to'', case a of None \<Rightarrow> JNull | Some s \<Rightarrow> JStr s)]"

definition overridden :: "tier \<Rightarrow> exc \<Rightarrow> exc" where
  "overridden t x = x\<lparr>x_tier := t, x_assigned := (if is_queue (x_assigned x) then queue_for_tier t else x_assigned x)\<rparr>"

definition override_exception ::
    "(string \<Rightarrow> string) \<Rightarrow> principal \<Rightarrow> nat \<Rightarrow> tier \<Rightarrow> string \<Rightarrow> instant \<Rightarrow> world \<Rightarrow> world res" where
  "override_exception sha p i t reason now w =
     bind_res (require_role ADMIN p) (\<lambda>_.
     bind_res (body_text 2000 reason) (\<lambda>why.
     bind_res (open_exc i w) (\<lambda>x.
     bind_res (person_event p i OVERRIDDEN_EVENT (x_tier x) t (''tier overridden: '' @ why) now
         (update_exception i (overridden t) w)) (\<lambda>w1.
       person_audit sha p i OVERRIDE why now (routed_json (x_tier x) (x_assigned x))
         (routed_json t (x_assigned (overridden t x))) w1))))"

definition reopened :: "exc \<Rightarrow> exc" where
  "reopened x =
     (let t = max (x_tier x) TIER_2_ANALYST in
      x\<lparr>x_status := REOPENED, x_tier := t, x_resolved_at := None, x_resolved_by := None, x_details := None,
        x_assigned := queue_for_tier t\<rparr>)"

definition reopen_exception ::
    "(string \<Rightarrow> string) \<Rightarrow> principal \<Rightarrow> nat \<Rightarrow> string \<Rightarrow> instant \<Rightarrow> world \<Rightarrow> world res" where
  "reopen_exception sha p i reason now w =
     bind_res (require_role ANALYST p) (\<lambda>_.
     bind_res (body_text 2000 reason) (\<lambda>why.
       (case find_exc i w of
          None \<Rightarrow> Inl (HttpError 404)
        | Some x \<Rightarrow>
            if x_status x \<notin> {RESOLVED, WRITTEN_OFF} then Inl (HttpError 409)
            else
              bind_res (person_event p i REOPENED_EVENT (x_tier x) (x_tier (reopened x)) (''reopened: '' @ why) now
                  (update_exception i reopened w)) (\<lambda>w1.
                person_audit sha p i OVERRIDE why now
                  (JObj [(''status'', JStr (exc_status_text (x_status x))), (''tier'', JInt (int (tier_no (x_tier x)))),
                         (''resolved_by'', case x_resolved_by x of None \<Rightarrow> JNull | Some s \<Rightarrow> JStr s)])
                  (state_json REOPENED (x_tier (reopened x))) w1))))"

section \<open>Listing and exporting\<close>

record exc_filter =
  xf_status :: "exc_status option"
  xf_severity :: "severity option"
  xf_category :: "category option"
  xf_bank :: "string option"
  xf_tier :: "tier option"
  xf_assigned :: "string option"
  xf_from :: "date option"
  xf_to :: "date option"

definition exc_wanted :: "exc_filter \<Rightarrow> exc \<Rightarrow> bool" where
  "exc_wanted f x =
     (wanted (xf_status f) (x_status x) \<and> wanted (xf_severity f) (x_severity x) \<and> wanted (xf_category f) (x_category x)
      \<and> wanted (xf_bank f) (x_bank x) \<and> wanted (xf_tier f) (x_tier x)
      \<and> (case xf_assigned f of None \<Rightarrow> True | Some a \<Rightarrow> x_assigned x = Some a)
      \<and> (case xf_from f of None \<Rightarrow> True | Some d \<Rightarrow> d \<le> date_of (x_created x))
      \<and> (case xf_to f of None \<Rightarrow> True | Some d \<Rightarrow> date_of (x_created x) \<le> d))"

definition by_deadline :: "exc_filter \<Rightarrow> world \<Rightarrow> exc list" where
  "by_deadline f w = sort_key (\<lambda>x. (x_deadline x, x_id x)) (filter (exc_wanted f) (w_excs w))"

definition list_exceptions :: "exc_filter \<Rightarrow> nat \<Rightarrow> nat \<Rightarrow> world \<Rightarrow> exc page" where
  "list_exceptions f limit offset w = page_of limit offset (by_deadline f w)"

text \<open>\<open>ids\<close> are the ids of the events, by position: they order events of one instant.\<close>

definition get_exception :: "(nat \<Rightarrow> nat) \<Rightarrow> nat \<Rightarrow> world \<Rightarrow> (exc \<times> exc_event list) res" where
  "get_exception ids i w =
     (case find_exc i w of
        None \<Rightarrow> Inl (HttpError 404)
      | Some x \<Rightarrow>
          Inr (x, map snd (sort_key (\<lambda>(k, ev). (ev_at ev, ids k))
                   (filter (\<lambda>(_, ev). ev_exception ev = i) (zip [0..<length (w_events w)] (w_events w))))))"

definition export_header :: "string list" where
  "export_header =
     [''id'', ''category'', ''severity'', ''status'', ''tier'', ''assigned_to'', ''bank_code'', ''run_id'', ''amount'', ''currency'',
      ''amount_inr_minor'', ''created_at'', ''sla_deadline'', ''sla_breached_at'', ''resolved_at'', ''resolved_by'', ''rationale'']"

text \<open>\<open>amount\<close> is the text of the stored impact.\<close>

definition export_row :: "(exc \<Rightarrow> string option) \<Rightarrow> exc \<Rightarrow> string list" where
  "export_row amount x =
     map safe_cell
       [Some (uuid_str (x_id x)), Some (category_text (x_category x)), Some (severity_text (x_severity x)),
        Some (exc_status_text (x_status x)), Some (nat_str (tier_no (x_tier x))), x_assigned x, Some (x_bank x), x_run x, amount x,
        x_currency x, map_option int_str (x_inr x), Some (iso_text (x_created x)), Some (iso_text (x_deadline x)),
        map_option iso_text (x_breached x), map_option iso_text (x_resolved_at x), x_resolved_by x, Some (x_rationale x)]"

definition export_exceptions :: "(exc \<Rightarrow> string option) \<Rightarrow> exc_filter \<Rightarrow> world \<Rightarrow> string" where
  "export_exceptions amount f w =
     csv_text (export_header # map (export_row amount)
       (take 50000 (by_deadline (f\<lparr>xf_assigned := None, xf_from := None, xf_to := None\<rparr>) w)))"

section \<open>Matches\<close>

definition list_matches :: "result_status \<Rightarrow> match_type option \<Rightarrow> nat \<Rightarrow> nat \<Rightarrow> (nat \<Rightarrow> instant) \<Rightarrow> db \<Rightarrow> result page" where
  "list_matches status type limit offset created_at db =
     page_of limit offset
       (sort_key (\<lambda>r. (created_at (r_id r), r_id r)) (filter (\<lambda>r. r_status r = status \<and> wanted type (r_type r)) (results db)))"

text \<open>The errors of the services and their answers; any other error is the server's.\<close>

definition review_error :: "error \<Rightarrow> error" where
  "review_error e =
     (if e = MatchNotFoundError then HttpError 404
      else if e \<in> {MatchNotPendingError, ReviewStateError} then HttpError 409 else e)"

definition manual_error :: "error \<Rightarrow> error" where
  "manual_error e =
     (if e = TransactionNotFoundError then HttpError 404 else if e = InvalidPairError then HttpError 422
      else if e \<in> {TransactionUnavailableError, MatchNotUnmatchableError} then HttpError 409 else e)"

definition answer :: "(error \<Rightarrow> error) \<Rightarrow> 'a res \<Rightarrow> 'a res" where
  "answer f r = (case r of Inl e \<Rightarrow> Inl (f e) | Inr x \<Rightarrow> Inr x)"

definition confirm_match :: "(string \<Rightarrow> string) \<Rightarrow> principal \<Rightarrow> nat \<Rightarrow> string option \<Rightarrow> instant \<Rightarrow> db \<Rightarrow> db res" where
  "confirm_match sha p mid note now db =
     bind_res (require_role ANALYST p) (\<lambda>_.
     bind_res (body_note 2000 note) (\<lambda>n.
       answer review_error (confirm sha mid (pr_name p) now n False db)))"

definition reject_match :: "(string \<Rightarrow> string) \<Rightarrow> principal \<Rightarrow> nat \<Rightarrow> string \<Rightarrow> instant \<Rightarrow> db \<Rightarrow> db res" where
  "reject_match sha p mid reason now db =
     bind_res (require_role ANALYST p) (\<lambda>_.
     bind_res (body_text 2000 reason) (\<lambda>why.
       answer review_error (reject sha mid (pr_name p) now why db)))"

definition add_manual_match :: "(string \<Rightarrow> string) \<Rightarrow> principal \<Rightarrow> nat \<Rightarrow> nat \<Rightarrow> string \<Rightarrow> instant \<Rightarrow> db \<Rightarrow> (nat \<times> db) res" where
  "add_manual_match sha p iid eid note now db =
     bind_res (require_role ANALYST p) (\<lambda>_.
     bind_res (body_text 2000 note) (\<lambda>why.
       answer manual_error (create_match sha iid eid (pr_name p) why now db)))"

definition unmatch_match :: "(string \<Rightarrow> string) \<Rightarrow> principal \<Rightarrow> nat \<Rightarrow> string \<Rightarrow> instant \<Rightarrow> db \<Rightarrow> db res" where
  "unmatch_match sha p mid reason now db =
     bind_res (require_role ANALYST p) (\<lambda>_.
     bind_res (body_text 2000 reason) (\<lambda>why.
       answer manual_error (unmatch sha mid (pr_name p) why now db)))"


section \<open>What a person's change is\<close>

text \<open>What an exception keeps whatever people do: its identity, its facts and its deadline.\<close>

definition same_exc :: "exc \<Rightarrow> exc \<Rightarrow> bool" where
  "same_exc x y =
     (x_id y = x_id x \<and> x_key y = x_key x \<and> x_category y = x_category x \<and> x_severity y = x_severity x \<and> x_bank y = x_bank x
      \<and> x_run y = x_run x \<and> x_file y = x_file x \<and> x_affected y = x_affected x \<and> x_currency y = x_currency x \<and> x_inr y = x_inr x
      \<and> x_suggested y = x_suggested x \<and> x_rationale y = x_rationale x \<and> x_created y = x_created x \<and> x_deadline y = x_deadline x
      \<and> x_breached y = x_breached x)"

text \<open>One row changed by \<open>f\<close>, one event and one audit entry in the person's name, nothing else.\<close>

definition signed_change :: "principal \<Rightarrow> nat \<Rightarrow> event_type \<Rightarrow> (exc \<Rightarrow> exc) \<Rightarrow> world \<Rightarrow> world \<Rightarrow> bool" where
  "signed_change p i ty f w w' =
     (w_excs w' = map (\<lambda>x. if x_id x = i then f x else x) (w_excs w)
      \<and> (\<exists>ev. w_events w' = w_events w @ [ev] \<and> ev_exception ev = i \<and> ev_type ev = ty \<and> ev_actor ev = api_key_actor (pr_name p))
      \<and> (\<exists>row. audit_log (w_db w') = audit_log (w_db w) @ [row] \<and> actor_id row = api_key_actor (pr_name p))
      \<and> txns (w_db w') = txns (w_db w) \<and> results (w_db w') = results (w_db w) \<and> claims (w_db w') = claims (w_db w)
      \<and> ledger_step (w_db w) (w_db w') \<and> w_adjustments w' = w_adjustments w \<and> w_next w' = w_next w)"

lemma person_change:
  assumes "person_event p i ty before after detail now (update_exception i f w) = Inr w1"
    "person_audit sha p i action why now bj aj w1 = Inr w'"
  shows "signed_change p i ty f w w'"
proof -
  obtain ev where ev: "w1 = add_event ev (update_exception i f w)" "ev_exception ev = i" "ev_type ev = ty" "ev_actor ev = api_key_actor (pr_name p)"
    using assms(1) by (auto simp: person_event_def split: if_splits)
  obtain db where db: "append_audit sha exceptions_chain ''USER'' (api_key_actor (pr_name p)) action (JObj [(''exception_id'', id_json i)]) why now bj aj
      (w_db w) = Inr db" "w' = w1\<lparr>w_db := db\<rparr>"
    using assms(2) by (auto simp: person_audit_def world_audit_def res_iff ev(1) add_event_def update_exception_def)
  show ?thesis
    using ev append_audit_shape[OF db(1)] ledger_step.entry[OF db(1)]
    by (auto simp: signed_change_def db(2) add_event_def update_exception_def)
qed

lemma find_exc_some: "find_exc i w = Some x \<Longrightarrow> x \<in> set (w_excs w) \<and> x_id x = i"
  by (auto simp: find_exc_def find_Some_iff)

lemma find_exc_in:
  assumes "store_ok w" "x \<in> set (w_excs w)"
  shows "find_exc (x_id x) w = Some x"
proof (cases "find_exc (x_id x) w")
  case None
  then show ?thesis using assms(2) by (auto simp: find_exc_def find_None_iff)
next
  case (Some y)
  then have "y \<in> set (w_excs w)" "x_id y = x_id x" using find_exc_some by blast+
  then show ?thesis using stored_unique[OF assms(1)] assms(2) Some by blast
qed

lemma signed_store_ok:
  assumes "signed_change p i ty f w w'" "store_ok w" "i \<in> x_id ` set (w_excs w)" "\<And>x. same_exc x (f x)"
    "\<And>x. x \<in> set (w_excs w) \<Longrightarrow> x_id x = i \<Longrightarrow> exc_ok (f x)"
  shows "store_ok w' \<and> list_all2 same_exc (w_excs w) (w_excs w')"
proof -
  define g where "g = (\<lambda>x. if x_id x = i then f x else x)"
  have g: "x_id (g x) = x_id x" "x_key (g x) = x_key x" "same_exc x (g x)" for x
    using assms(4)[of x] by (auto simp: g_def same_exc_def)
  have e: "w_excs w' = map g (w_excs w)" using assms(1) by (simp add: signed_change_def g_def)
  obtain ev where ev: "w_events w' = w_events w @ [ev]" "ev_exception ev = i" "w_adjustments w' = w_adjustments w" "w_next w' = w_next w"
    using assms(1) by (auto simp: signed_change_def)
  have "map x_id (w_excs w') = map x_id (w_excs w)" by (simp add: e g)
  then have ids: "x_id ` set (w_excs w') = x_id ` set (w_excs w)" by (metis list.set_map)
  have "exc_ok (g x)" if "x \<in> set (w_excs w)" for x
    using assms(2,5) that by (auto simp: g_def store_ok_def)
  then have "\<forall>x \<in> set (w_excs w'). x_id x < w_next w' \<and> exc_ok x" using assms(2) by (auto simp: e g ev(4) store_ok_def)
  then have "store_ok w'"
    using assms(2,3) unfolding store_ok_def ids ev(1,3,4) by (simp add: e g o_def ev(2) del: image_iff)
  moreover have "list_all2 same_exc (w_excs w) (w_excs w')" by (simp add: e list_all2_map2 g list_all2_same)
  ultimately show ?thesis by blast
qed

text \<open>The four operations.\<close>

lemma resolve_shape:
  assumes "resolve_exception sha p i outcome details now w = Inr w'"
  obtains x why where "find_exc i w = Some x" "still_open (x_status x)" "has_at_least (pr_role p) (role_needed x outcome)"
    "has_at_least (pr_role p) ANALYST" "outcome \<in> {RESOLVED, WRITTEN_OFF}" "body_text 2000 details = Inr why"
    "signed_change p i RESOLVED_EVENT (resolved_by p outcome why now) w w'"
  using assms person_change
  by (auto simp: resolve_exception_def res_iff require_role_def open_exc_def guard_res_def split: if_splits option.splits) (blast+)?

lemma assign_shape:
  assumes "assign_exception sha p i assignee note now w = Inr w'"
  obtains x who where "find_exc i w = Some x" "still_open (x_status x)" "has_at_least (pr_role p) ANALYST"
    "signed_change p i ASSIGNED_EVENT (\<lambda>y. y\<lparr>x_assigned := Some who\<rparr>) w w'"
  using assms person_change
  by (auto simp: assign_exception_def res_iff require_role_def open_exc_def split: if_splits option.splits) (blast+)?

lemma override_shape:
  assumes "override_exception sha p i t reason now w = Inr w'"
  obtains x where "find_exc i w = Some x" "still_open (x_status x)" "has_at_least (pr_role p) ADMIN"
    "signed_change p i OVERRIDDEN_EVENT (overridden t) w w'"
  using assms person_change
  by (auto simp: override_exception_def res_iff require_role_def open_exc_def split: if_splits option.splits) (blast+)?

lemma reopen_shape:
  assumes "reopen_exception sha p i reason now w = Inr w'"
  obtains x where "find_exc i w = Some x" "x_status x \<in> {RESOLVED, WRITTEN_OFF}" "has_at_least (pr_role p) ANALYST"
    "signed_change p i REOPENED_EVENT reopened w w'"
  using assms person_change
  by (auto simp: reopen_exception_def res_iff require_role_def split: if_splits option.splits) (blast+)?


lemma find_changed:
  assumes "signed_change p i ty f w w'" "\<And>x. x_id (f x) = x_id x"
  shows "find_exc j w' = (if j = i then map_option f (find_exc i w) else find_exc j w)"
proof -
  have m: "find (\<lambda>x. x_id x = j) (map (\<lambda>x. if x_id x = i then f x else x) xs)
      = (if j = i then map_option f (find (\<lambda>x. x_id x = i) xs) else find (\<lambda>x. x_id x = j) xs)" for xs
    using assms(2) by (induction xs) auto
  show ?thesis using assms(1) by (simp add: find_exc_def signed_change_def m)
qed

lemma same_resolved: "same_exc x (resolved_by p outcome why now x)"
  by (simp add: same_exc_def resolved_by_def)

lemma same_overridden: "same_exc x (overridden t x)"
  by (simp add: same_exc_def overridden_def)

lemma same_reopened: "same_exc x (reopened x)"
  by (simp add: same_exc_def reopened_def Let_def)

lemma same_assigned: "same_exc x (x\<lparr>x_assigned := a\<rparr>)"
  by (simp add: same_exc_def)

lemma resolution_forward: "\<lbrakk>still_open (x_status x); outcome \<in> {RESOLVED, WRITTEN_OFF}\<rbrakk> \<Longrightarrow> forward x (resolved_by p outcome why now x)"
  by (auto simp: forward_def resolved_by_def closed_def exc_ok_def)

lemma signed_goes_on:
  assumes "signed_change p i ty f w w'" "store_ok w'" "find_exc i w = Some x" "forward x (f x)" "store_ok w"
  shows "goes_on w w'"
proof -
  obtain ev where ev: "w_events w' = w_events w @ [ev]" "w_adjustments w' = w_adjustments w" "ledger_step (w_db w) (w_db w')"
    "w_excs w' = map (\<lambda>x. if x_id x = i then f x else x) (w_excs w)"
    using assms(1) by (auto simp: signed_change_def)
  have "forward y (f y)" if "y \<in> set (w_excs w)" "x_id y = i" for y
    using assms(3,4) find_exc_some[OF assms(3)] stored_unique[OF assms(5) that(1), of x] that(2) by simp
  then have "list_all2 forward (w_excs w) (w_excs w')" unfolding ev(4) by (rule forward_update)
  then show ?thesis
    by (intro goes_onI[where old = "w_excs w'" and new = "[]" and evs = "[ev]" and ajs = "[]"]) (use ev assms(2) in auto)
qed

lemma closed_refused:
  assumes "find_exc i w = Some x" "\<not> still_open (x_status x)"
  shows "\<exists>n. resolve_exception sha p i outcome details now w = Inl (HttpError n)"
  using assms by (auto simp: resolve_exception_def require_role_def body_text_def guard_res_def open_exc_def Let_def)

text \<open>C16. Nobody closes an exception beyond their authority: a resolution means an open
  exception, an analyst, and an administrator for a write-off or a tier of 3 or 4. It
  closes this exception alone, forward, signed by an event and an audit entry in the
  person's name, and closes it once: every later attempt is refused.\<close>

theorem resolution_authorised:
  assumes "resolve_exception sha p i outcome details now w = Inr w'" "store_ok w"
  shows "\<exists>x y. find_exc i w = Some x \<and> still_open (x_status x) \<and> ANALYST \<le> pr_role p
      \<and> (outcome = WRITTEN_OFF \<or> TIER_3_SENIOR \<le> x_tier x \<longrightarrow> ADMIN \<le> pr_role p)
      \<and> find_exc i w' = Some y \<and> x_status y = outcome \<and> closed y \<and> x_resolved_by y = Some (pr_name p) \<and> x_resolved_at y = Some now
      \<and> (\<forall>j. j \<noteq> i \<longrightarrow> find_exc j w' = find_exc j w) \<and> goes_on w w' \<and> store_ok w'
      \<and> (\<exists>why. signed_change p i RESOLVED_EVENT (resolved_by p outcome why now) w w')
      \<and> (\<forall>sha2 p2 out2 d2 now2. \<exists>n. resolve_exception sha2 p2 i out2 d2 now2 w' = Inl (HttpError n))"
proof (rule resolve_shape[OF assms(1)])
  fix x why
  assume x: "find_exc i w = Some x" "still_open (x_status x)" "has_at_least (pr_role p) (role_needed x outcome)"
    "has_at_least (pr_role p) ANALYST" "outcome \<in> {RESOLVED, WRITTEN_OFF}"
    and c: "signed_change p i RESOLVED_EVENT (resolved_by p outcome why now) w w'"
  define y where "y = resolved_by p outcome why now x"
  have id: "x_id (resolved_by p outcome why now z) = x_id z" for z by (simp add: resolved_by_def)
  have find: "find_exc i w' = Some y" "find_exc j w' = find_exc j w" if "j \<noteq> i" for j
    using find_changed[OF c id] x(1) that by (simp_all add: y_def)
  have y: "x_status y = outcome" "closed y" "x_resolved_by y = Some (pr_name p)" "x_resolved_at y = Some now" "find_exc i w' = Some y"
    using x(5) find_changed[OF c id, of i] x(1) by (auto simp: y_def resolved_by_def closed_def still_open_def)
  have s: "store_ok w'"
    using signed_store_ok[OF c assms(2) _ same_resolved] find_exc_some[OF x(1)] by (auto simp: exc_ok_def resolved_by_def)
  moreover have "goes_on w w'" by (rule signed_goes_on[OF c s x(1) resolution_forward[OF x(2,5)] assms(2)])
  moreover have "outcome = WRITTEN_OFF \<or> TIER_3_SENIOR \<le> x_tier x \<longrightarrow> ADMIN \<le> pr_role p"
    using x(3) by (auto simp: role_needed_def has_at_least_def)
  moreover have "\<not> still_open (x_status y)" using y(2) by (simp add: closed_def)
  ultimately show ?thesis
    using x(1,2,4) y c find(2) closed_refused[OF y(5)] unfolding has_at_least_def by blast
qed

text \<open>Reopening takes a resolution back: the exception has its facts, deadline and breach
  as before, is open for a person at tier 2 or higher in that tier's queue, nothing of the
  resolution is left on the row, and both acts stay on record.\<close>

theorem reopen_after_resolve:
  assumes "resolve_exception sha p i outcome details now w = Inr w1" "reopen_exception sha q i reason later1 w1 = Inr w2" "store_ok w"
  shows "\<exists>x y. find_exc i w = Some x \<and> find_exc i w2 = Some y \<and> same_exc x y \<and> open_exc i w2 = Inr y \<and> x_status y = REOPENED
      \<and> x_tier y = max (x_tier x) TIER_2_ANALYST \<and> x_assigned y = queue_for_tier (x_tier y)
      \<and> x_resolved_at y = None \<and> x_resolved_by y = None \<and> x_details y = None
      \<and> store_ok w2 \<and> map ev_type (drop (length (w_events w)) (w_events w2)) = [RESOLVED_EVENT, REOPENED_EVENT]
      \<and> length (audit_log (w_db w2)) = length (audit_log (w_db w)) + 2"
proof -
  obtain x why where x: "find_exc i w = Some x" and c1: "signed_change p i RESOLVED_EVENT (resolved_by p outcome why now) w w1"
    by (rule resolve_shape[OF assms(1)])
  obtain x1 where c2: "signed_change q i REOPENED_EVENT reopened w1 w2" by (rule reopen_shape[OF assms(2)])
  define y where "y = reopened (resolved_by p outcome why now x)"
  have f1: "find_exc i w1 = Some (resolved_by p outcome why now x)"
    using find_changed[OF c1, of i] x by (simp add: resolved_by_def)
  then have f2: "find_exc i w2 = Some y" using find_changed[OF c2, of i] by (simp add: y_def reopened_def Let_def)
  have s1: "store_ok w1"
    using signed_store_ok[OF c1 assms(3) _ same_resolved] find_exc_some[OF x] by (auto simp: exc_ok_def resolved_by_def)
  have "store_ok w2"
    using signed_store_ok[OF c2 s1 _ same_reopened] find_exc_some[OF f1]
    by (auto simp: exc_ok_def reopened_def Let_def closed_def still_open_def)
  moreover have "same_exc x y" "x_status y = REOPENED" "x_tier y = max (x_tier x) TIER_2_ANALYST" "x_assigned y = queue_for_tier (x_tier y)"
    "x_resolved_at y = None" "x_resolved_by y = None" "x_details y = None"
    by (simp_all add: y_def same_exc_def reopened_def resolved_by_def Let_def)
  moreover have "map ev_type (drop (length (w_events w)) (w_events w2)) = [RESOLVED_EVENT, REOPENED_EVENT]"
    "length (audit_log (w_db w2)) = length (audit_log (w_db w)) + 2"
    using c1 c2 by (auto simp: signed_change_def)
  moreover have "open_exc i w2 = Inr y" using f2 calculation(3) by (simp add: open_exc_def still_open_def)
  ultimately show ?thesis using x f2 by - (intro exI[of _ x] exI[of _ y] conjI; assumption)
qed

section \<open>A day at the desk\<close>

text \<open>Everything people can do to the exceptions, in any order.\<close>

inductive desk_step :: "(string \<Rightarrow> string) \<Rightarrow> world \<Rightarrow> world \<Rightarrow> bool" for sha where
  resolve: "resolve_exception sha p i outcome details now w = Inr w' \<Longrightarrow> desk_step sha w w'"
| assign: "assign_exception sha p i assignee note now w = Inr w' \<Longrightarrow> desk_step sha w w'"
| override: "override_exception sha p i t reason now w = Inr w' \<Longrightarrow> desk_step sha w w'"
| reopen: "reopen_exception sha p i reason now w = Inr w' \<Longrightarrow> desk_step sha w w'"

text \<open>What a day leaves: a consistent store of the same exceptions, and as many events as audit entries.\<close>

definition kept_on_record :: "world \<Rightarrow> world \<Rightarrow> bool" where
  "kept_on_record w w' =
     (store_ok w' \<and> list_all2 same_exc (w_excs w) (w_excs w')
      \<and> (\<exists>evs rows. w_events w' = w_events w @ evs \<and> audit_log (w_db w') = audit_log (w_db w) @ rows \<and> length evs = length rows
           \<and> map ev_actor evs = map actor_id rows)
      \<and> txns (w_db w') = txns (w_db w) \<and> results (w_db w') = results (w_db w) \<and> claims (w_db w') = claims (w_db w)
      \<and> w_adjustments w' = w_adjustments w \<and> ledger_step\<^sup>*\<^sup>* (w_db w) (w_db w'))"

lemma signed_recorded:
  assumes "signed_change p i ty f w w'" "store_ok w" "i \<in> x_id ` set (w_excs w)" "\<And>x. same_exc x (f x)"
    "\<And>x. x \<in> set (w_excs w) \<Longrightarrow> x_id x = i \<Longrightarrow> exc_ok (f x)"
  shows "kept_on_record w w'"
proof -
  obtain ev row where "w_events w' = w_events w @ [ev]" "audit_log (w_db w') = audit_log (w_db w) @ [row]" "ev_actor ev = actor_id row"
    using assms(1) by (auto simp: signed_change_def)
  then have "\<exists>evs rows. w_events w' = w_events w @ evs \<and> audit_log (w_db w') = audit_log (w_db w) @ rows \<and> length evs = length rows
           \<and> map ev_actor evs = map actor_id rows"
    by (intro exI[of _ "[ev]"] exI[of _ "[row]"]) simp
  then show ?thesis
    using signed_store_ok[OF assms(1-3) assms(4) assms(5)] assms(1) unfolding kept_on_record_def signed_change_def by blast
qed

lemma desk_step_recorded:
  assumes "desk_step sha w w'" "store_ok w"
  shows "kept_on_record w w'"
proof -
  have i: "i \<in> x_id ` set (w_excs w)" if "find_exc i w = Some x" for i x using find_exc_some[OF that] by blast
  show ?thesis
    using assms(1)
  proof cases
    case (resolve p i outcome details now)
    obtain x why where x: "find_exc i w = Some x" and c: "signed_change p i RESOLVED_EVENT (resolved_by p outcome why now) w w'"
      by (rule resolve_shape[OF resolve])
    show ?thesis by (rule signed_recorded[OF c assms(2) i[OF x] same_resolved]) (simp add: exc_ok_def resolved_by_def)
  next
    case (assign p i assignee remark now)
    obtain x who where x: "find_exc i w = Some x" and c: "signed_change p i ASSIGNED_EVENT (\<lambda>y. y\<lparr>x_assigned := Some who\<rparr>) w w'"
      by (rule assign_shape[OF assign])
    show ?thesis
      by (rule signed_recorded[OF c assms(2) i[OF x] same_assigned]) (use assms(2) in \<open>auto simp: store_ok_def exc_ok_def closed_def\<close>)
  next
    case (override p i t reason now)
    obtain x where x: "find_exc i w = Some x" and c: "signed_change p i OVERRIDDEN_EVENT (overridden t) w w'"
      by (rule override_shape[OF override])
    show ?thesis
      by (rule signed_recorded[OF c assms(2) i[OF x] same_overridden])
        (use assms(2) in \<open>auto simp: store_ok_def exc_ok_def closed_def overridden_def\<close>)
  next
    case (reopen p i reason now)
    obtain x where x: "find_exc i w = Some x" and c: "signed_change p i REOPENED_EVENT reopened w w'"
      by (rule reopen_shape[OF reopen])
    show ?thesis
      by (rule signed_recorded[OF c assms(2) i[OF x] same_reopened]) (simp add: exc_ok_def reopened_def Let_def closed_def still_open_def)
  qed
qed

lemma recorded_trans:
  assumes "kept_on_record w1 w2" "kept_on_record w2 w3"
  shows "kept_on_record w1 w3"
proof -
  obtain e1 r1 where 1: "w_events w2 = w_events w1 @ e1" "audit_log (w_db w2) = audit_log (w_db w1) @ r1" "length e1 = length r1"
    "map ev_actor e1 = map actor_id r1" using assms(1) unfolding kept_on_record_def by blast
  obtain e2 r2 where 2: "w_events w3 = w_events w2 @ e2" "audit_log (w_db w3) = audit_log (w_db w2) @ r2" "length e2 = length r2"
    "map ev_actor e2 = map actor_id r2" using assms(2) unfolding kept_on_record_def by blast
  have "\<exists>evs rows. w_events w3 = w_events w1 @ evs \<and> audit_log (w_db w3) = audit_log (w_db w1) @ rows \<and> length evs = length rows
           \<and> map ev_actor evs = map actor_id rows"
    by (intro exI[of _ "e1 @ e2"] exI[of _ "r1 @ r2"]) (use 1 2 in simp)
  moreover have "list_all2 same_exc (w_excs w1) (w_excs w3)"
    using list_all2_trans[of same_exc same_exc same_exc "w_excs w1" "w_excs w2" "w_excs w3"] assms
    by (simp add: kept_on_record_def same_exc_def)
  ultimately show ?thesis using assms unfolding kept_on_record_def by (auto intro: rtranclp_trans)
qed

text \<open>C17. However people resolve, assign, override and reopen, no exception vanishes or changes
  its facts, the store stays consistent, the ledger's transactions, matches and claims are
  untouched, and every act is one event and one audit entry by the same person.\<close>

theorem desk_on_record:
  assumes "(desk_step sha)\<^sup>*\<^sup>* w w'" "store_ok w"
  shows "kept_on_record w w'"
  using assms
proof (induction rule: rtranclp_induct)
  case base
  have "list_all2 same_exc xs xs" for xs by (simp add: list_all2_refl same_exc_def)
  then show ?case using base by (auto simp: kept_on_record_def)
next
  case (step m w')
  then have "store_ok m" by (simp add: kept_on_record_def)
  then show ?case using step recorded_trans desk_step_recorded by blast
qed


section \<open>Witnesses\<close>

lemma sample_person_audit:
  assumes "logged sample_sha (w_db w)" "next_id (w_db w) < 999" "no_float before" "no_float after"
  shows "\<exists>w'. person_audit sample_sha p i action why 5 before after w = Inr w' \<and> logged sample_sha (w_db w')
    \<and> next_id (w_db w') = next_id (w_db w) + 1"
proof -
  have "no_float (JObj [(''exception_id'', id_json i)])" by (simp add: id_json_def)
  then obtain db where a: "append_audit sample_sha exceptions_chain ''USER'' (api_key_actor (pr_name p)) action (JObj [(''exception_id'', id_json i)])
      why 5 before after (w_db w) = Inr db" "logged sample_sha db"
    using sample_audit[OF assms(1) _ _ assms(3,4)] assms(2) by fastforce
  then show ?thesis using append_audit_shape[OF a(1)] by (auto simp: person_audit_def world_audit_def)
qed

lemma sample_found: "find_exc (x_id sample_exc) sample_world = Some sample_exc" "still_open (x_status sample_exc)"
  by (simp_all add: find_exc_def sample_world_def sample_exc_def still_open_def)

lemma sample_resolved:
  "\<exists>w'. resolve_exception sample_sha sample_admin (x_id sample_exc) RESOLVED ''ok'' 5 sample_world = Inr w'
     \<and> logged sample_sha (w_db w') \<and> next_id (w_db w') = 101"
proof -
  have b: "body_text 2000 ''ok'' = Inr ''ok''" by code_simp
  have r: "require_role r sample_admin = Inr sample_admin" if "r \<le> ADMIN" for r
    using that by (simp add: require_role_def has_at_least_def sample_admin_def)
  have n: "role_needed sample_exc RESOLVED \<le> ADMIN" "ANALYST \<le> ADMIN" by (auto simp: role_needed_def less_eq_role_def)
  define w1 where "w1 = add_event \<lparr>ev_exception = x_id sample_exc, ev_type = RESOLVED_EVENT, ev_from = Some (x_tier sample_exc),
      ev_to = Some (x_tier sample_exc), ev_actor = api_key_actor (pr_name sample_admin), ev_detail = exc_status_text RESOLVED @ '': '' @ ''ok'',
      ev_at = 5\<rparr> (update_exception (x_id sample_exc) (resolved_by sample_admin RESOLVED ''ok'' 5) sample_world)"
  have e: "person_event sample_admin (x_id sample_exc) RESOLVED_EVENT (x_tier sample_exc) (x_tier sample_exc)
      (exc_status_text RESOLVED @ '': '' @ ''ok'') 5 (update_exception (x_id sample_exc) (resolved_by sample_admin RESOLVED ''ok'' 5) sample_world)
      = Inr w1"
    by (simp add: person_event_def w1_def sample_admin_def api_key_actor_def)
  have d: "w_db w1 = sample_free" by (simp add: w1_def add_event_def update_exception_def sample_world_def)
  have "no_float (state_json s t)" for s t by (simp add: state_json_def)
  then obtain w' where "person_audit sample_sha sample_admin (x_id sample_exc) RESOLVE ''ok'' 5 (state_json (x_status sample_exc) (x_tier sample_exc))
      (state_json RESOLVED (x_tier sample_exc)) w1 = Inr w'" "logged sample_sha (w_db w')" "next_id (w_db w') = 101"
    using sample_person_audit[of w1] sample_world_facts unfolding d by fastforce
  then show ?thesis
    using b r n e sample_found by (simp add: resolve_exception_def guard_res_def open_exc_def)
qed

theorem resolution_authorised_witness:
  "\<exists>w' y. resolve_exception sample_sha sample_admin (x_id sample_exc) RESOLVED ''ok'' 5 sample_world = Inr w'
     \<and> find_exc (x_id sample_exc) w' = Some y \<and> x_status y = RESOLVED \<and> store_ok w'"
proof -
  obtain w' where r: "resolve_exception sample_sha sample_admin (x_id sample_exc) RESOLVED ''ok'' 5 sample_world = Inr w'"
    using sample_resolved by blast
  from resolution_authorised[OF r sample_world_facts(1)] r show ?thesis by blast
qed

theorem reopen_after_resolve_witness:
  "\<exists>w1 w2 y. resolve_exception sample_sha sample_admin (x_id sample_exc) RESOLVED ''ok'' 5 sample_world = Inr w1
     \<and> reopen_exception sample_sha sample_admin (x_id sample_exc) ''no'' 5 w1 = Inr w2
     \<and> find_exc (x_id sample_exc) w2 = Some y \<and> x_status y = REOPENED \<and> x_resolved_by y = None"
proof -
  obtain w1 where r: "resolve_exception sample_sha sample_admin (x_id sample_exc) RESOLVED ''ok'' 5 sample_world = Inr w1"
    "logged sample_sha (w_db w1)" "next_id (w_db w1) = 101"
    using sample_resolved by blast
  obtain why where c: "signed_change sample_admin (x_id sample_exc) RESOLVED_EVENT (resolved_by sample_admin RESOLVED why 5) sample_world w1"
    by (rule resolve_shape[OF r(1)])
  define x1 where "x1 = resolved_by sample_admin RESOLVED why 5 sample_exc"
  have f: "find_exc (x_id sample_exc) w1 = Some x1"
    using find_changed[OF c, of "x_id sample_exc"] sample_found(1) by (simp add: x1_def resolved_by_def)
  have b: "body_text 2000 ''no'' = Inr ''no''" by code_simp
  have q: "require_role ANALYST sample_admin = Inr sample_admin" by (simp add: require_role_def has_at_least_def sample_admin_def less_eq_role_def)
  obtain w2 where e: "person_event sample_admin (x_id sample_exc) REOPENED_EVENT (x_tier x1) (x_tier (reopened x1)) (''reopened: '' @ ''no'') 5
      (update_exception (x_id sample_exc) reopened w1) = Inr w2" "w_db w2 = w_db w1"
    by (simp add: person_event_def sample_admin_def api_key_actor_def add_event_def update_exception_def)
  define bj where "bj = JObj [(''status'', JStr (exc_status_text (x_status x1))), (''tier'', JInt (int (tier_no (x_tier x1)))),
             (''resolved_by'', case x_resolved_by x1 of None \<Rightarrow> JNull | Some s \<Rightarrow> JStr s)]"
  have "no_float bj" "no_float (state_json REOPENED (x_tier (reopened x1)))" by (simp_all add: bj_def state_json_def x1_def resolved_by_def)
  then obtain w3 where "person_audit sample_sha sample_admin (x_id sample_exc) OVERRIDE ''no'' 5 bj (state_json REOPENED (x_tier (reopened x1))) w2 = Inr w3"
    using sample_person_audit[of w2 bj] r(2,3) e(2) by fastforce
  then have o: "reopen_exception sample_sha sample_admin (x_id sample_exc) ''no'' 5 w1 = Inr w3"
    using b q e(1) f unfolding bj_def by (simp add: reopen_exception_def x1_def resolved_by_def)
  from reopen_after_resolve[OF r(1) o sample_world_facts(1)] r(1) o show ?thesis by blast
qed

theorem desk_on_record_witness:
  "\<exists>w'. (desk_step sample_sha)\<^sup>*\<^sup>* sample_world w' \<and> w_excs w' \<noteq> w_excs sample_world \<and> kept_on_record sample_world w'"
proof -
  obtain w' where r: "resolve_exception sample_sha sample_admin (x_id sample_exc) RESOLVED ''ok'' 5 sample_world = Inr w'"
    using sample_resolved by blast
  obtain why where c: "signed_change sample_admin (x_id sample_exc) RESOLVED_EVENT (resolved_by sample_admin RESOLVED why 5) sample_world w'"
    by (rule resolve_shape[OF r])
  have s: "(desk_step sample_sha)\<^sup>*\<^sup>* sample_world w'" using desk_step.resolve[OF r] by blast
  have "w_excs w' \<noteq> w_excs sample_world"
    using c by (simp add: signed_change_def sample_world_def resolved_by_def) (simp add: sample_exc_def)
  then show ?thesis using s desk_on_record[OF s sample_world_facts(1)] by blast
qed

end
