(* ===== verification/RateLimit.thy ===== *)
theory RateLimit
  imports PyFormat
begin

text \<open>
  The process cache (\<open>cache.py\<close>) and the fixed-window rate limiter of the API
  (\<open>api/ratelimit.py\<close>). The contract of the counters, a counter lives \<open>ttl\<close> seconds from its
  first increment, is the locale \<open>window_counters\<close>; the limiter is proved against it and the
  process-local cache provides it. The Redis client is not modelled, its failures are: a
  counter that reports 0. Clock readings are exact numbers of seconds, inputs of a call.
\<close>

section \<open>The process-local cache\<close>

record memory_cache =
  mc_values :: "(string \<times> rat \<times> string) list"
  mc_counters :: "(string \<times> rat \<times> nat) list"

definition max_counters :: nat where
  "max_counters = 50000"

definition empty_cache :: memory_cache where
  "empty_cache = \<lparr>mc_values = [], mc_counters = []\<rparr>"

definition cache_get :: "rat \<Rightarrow> string \<Rightarrow> memory_cache \<Rightarrow> string option \<times> memory_cache" where
  "cache_get now key c =
     (case map_of (mc_values c) key of
        None \<Rightarrow> (None, c)
      | Some (expires, v) \<Rightarrow>
          if expires \<le> now then (None, c\<lparr>mc_values := filter (\<lambda>e. fst e \<noteq> key) (mc_values c)\<rparr>) else (Some v, c))"

definition cache_set :: "rat \<Rightarrow> string \<Rightarrow> string \<Rightarrow> int \<Rightarrow> memory_cache \<Rightarrow> memory_cache" where
  "cache_set now key v ttl c = c\<lparr>mc_values := dict_put key (now + of_int ttl, v) (mc_values c)\<rparr>"

definition purged :: "rat \<Rightarrow> (string \<times> rat \<times> nat) list \<Rightarrow> (string \<times> rat \<times> nat) list" where
  "purged now d = (if max_counters < length d then filter (\<lambda>(_, expires, _). now < expires) d else d)"

definition next_count :: "int \<Rightarrow> rat \<Rightarrow> (rat \<times> nat) option \<Rightarrow> rat \<times> nat" where
  "next_count ttl now entry =
     (let (expires, n) = (case entry of None \<Rightarrow> (0, 0) | Some e \<Rightarrow> e);
          (expires, n) = (if expires \<le> now then (now + of_int ttl, 0) else (expires, n))
      in (expires, n + 1))"

definition incr_window :: "int \<Rightarrow> rat \<Rightarrow> string \<Rightarrow> memory_cache \<Rightarrow> nat \<times> memory_cache" where
  "incr_window ttl now key c =
     (let e = next_count ttl now (map_of (mc_counters c) key)
      in (snd e, c\<lparr>mc_counters := purged now (dict_put key e (mc_counters c))\<rparr>))"

section \<open>The contract of the counters\<close>

text \<open>\<open>holds past c\<close>: the store after the increments \<open>past\<close>, each a key and the time it was
  counted at, oldest first. While every earlier increment of a key is younger than \<open>ttl\<close> the
  next one reports how many there are with it.\<close>

definition times_of :: "string \<Rightarrow> (string \<times> rat) list \<Rightarrow> rat list" where
  "times_of k past = map snd (filter (\<lambda>p. fst p = k) past)"

lemma times_of_snoc [simp]: "times_of k (past @ [(j, t)]) = (if j = k then times_of k past @ [t] else times_of k past)"
  by (simp add: times_of_def)

locale window_counters =
  fixes ttl :: int
    and incr :: "rat \<Rightarrow> string \<Rightarrow> 'c \<Rightarrow> nat \<times> 'c"
    and holds :: "(string \<times> rat) list \<Rightarrow> 'c \<Rightarrow> bool"
  assumes keeps: "\<lbrakk>holds past c; 0 \<le> now; \<forall>p \<in> set past. snd p \<le> now\<rbrakk> \<Longrightarrow> holds (past @ [(k, now)]) (snd (incr now k c))"
    and counts: "\<lbrakk>holds past c; 0 \<le> now; \<forall>p \<in> set past. snd p \<le> now; \<forall>t \<in> set (times_of k past). now < t + of_int ttl\<rbrakk>
      \<Longrightarrow> fst (incr now k c) = length (times_of k past) + 1"

text \<open>The cache keeps it: the entry of a key carries its count and expires \<open>ttl\<close> after the
  first, unless that time has passed; a purge drops expired entries only.\<close>

definition counter_ok :: "int \<Rightarrow> (string \<times> rat) list \<Rightarrow> rat list \<Rightarrow> (rat \<times> nat) option \<Rightarrow> bool" where
  "counter_ok ttl past ts e =
     (case ts of [] \<Rightarrow> e = None
      | t # _ \<Rightarrow> e = Some (t + of_int ttl, length ts) \<or> (\<exists>p \<in> set past. t + of_int ttl \<le> snd p))"

definition cache_holds :: "int \<Rightarrow> (string \<times> rat) list \<Rightarrow> memory_cache \<Rightarrow> bool" where
  "cache_holds ttl past c =
     (distinct (map fst (mc_counters c)) \<and> (\<forall>k. counter_ok ttl past (times_of k past) (map_of (mc_counters c) k)))"

lemma filter_lookup:
  "distinct (map fst d) \<Longrightarrow> map_of (filter (\<lambda>e. P (snd e)) d) k = (case map_of d k of None \<Rightarrow> None | Some v \<Rightarrow> if P v then Some v else None)"
  by (induction d) (auto split: option.splits simp: map_of_eq_None_iff rev_image_eqI dest!: map_of_SomeD)

lemma purged_lookup:
  assumes "distinct (map fst d)"
  shows "map_of (purged now d) k = map_of d k \<or> (\<exists>e n. map_of d k = Some (e, n) \<and> e \<le> now \<and> map_of (purged now d) k = None)"
  using filter_lookup[OF assms, of "\<lambda>v. now < fst v" k] by (auto simp: purged_def case_prod_beta' split: option.splits if_splits)

lemma purged_distinct: "distinct (map fst d) \<Longrightarrow> distinct (map fst (purged now d))"
  by (simp add: purged_def distinct_map_filter)

lemma next_count_ok:
  assumes "counter_ok ttl past ts e" "0 \<le> now" "\<forall>p \<in> set past. snd p \<le> now"
  shows "counter_ok ttl (past @ [(k, now)]) (ts @ [now]) (Some (next_count ttl now e))"
    and "\<forall>t \<in> set ts. now < t + of_int ttl \<Longrightarrow> snd (next_count ttl now e) = length ts + 1"
proof -
  consider "ts = []" "e = None" | t us where "ts = t # us" "e = Some (t + of_int ttl, length ts)" "now < t + of_int ttl"
    | t us where "ts = t # us" "t + of_int ttl \<le> now"
    using assms(1,3) unfolding counter_ok_def by (cases ts) (auto simp: not_le[symmetric] dest: order_trans)
  then have "counter_ok ttl (past @ [(k, now)]) (ts @ [now]) (Some (next_count ttl now e))
      \<and> ((\<forall>t \<in> set ts. now < t + of_int ttl) \<longrightarrow> snd (next_count ttl now e) = length ts + 1)"
  proof cases
    case 1
    then show ?thesis using assms(2) by (simp add: counter_ok_def next_count_def)
  next
    case 2
    then show ?thesis by (simp add: counter_ok_def next_count_def)
  next
    case 3
    then show ?thesis by (auto simp: counter_ok_def)
  qed
  then show "counter_ok ttl (past @ [(k, now)]) (ts @ [now]) (Some (next_count ttl now e))"
    "\<forall>t \<in> set ts. now < t + of_int ttl \<Longrightarrow> snd (next_count ttl now e) = length ts + 1" by blast+
qed

lemma counter_ok_later: "counter_ok ttl past ts e \<Longrightarrow> counter_ok ttl (past @ [p]) ts e"
  by (auto simp: counter_ok_def split: list.splits)

text \<open>Dropping an entry that has expired by the last time counted keeps the promise.\<close>

lemma counter_ok_drop: "\<lbrakk>counter_ok ttl past ts (Some (e, n)); p \<in> set past; e \<le> snd p\<rbrakk> \<Longrightarrow> counter_ok ttl past ts None"
  by (auto simp: counter_ok_def split: list.splits)

lemma cache_holds_empty: "cache_holds ttl [] empty_cache"
  by (simp add: cache_holds_def counter_ok_def times_of_def empty_cache_def)

interpretation process_cache: window_counters ttl "incr_window ttl" "cache_holds ttl" for ttl
proof
  fix past c now k
  assume h: "cache_holds ttl past c" and n: "0 \<le> now" "\<forall>p \<in> set past. snd p \<le> now"
  define e where "e = next_count ttl now (map_of (mc_counters c) k)"
  define d where "d = dict_put k e (mc_counters c)"
  have dd: "distinct (map fst d)" using h distinct_dict_put[of "mc_counters c" k e] by (simp add: cache_holds_def d_def)
  have ok: "counter_ok ttl (past @ [(k, now)]) (times_of j (past @ [(k, now)])) (map_of d j)" for j
  proof (cases "j = k")
    case True
    then show ?thesis using next_count_ok(1)[OF _ n, of ttl "times_of k past" "map_of (mc_counters c) k" k] h
      by (simp add: cache_holds_def d_def e_def)
  next
    case False
    then show ?thesis using h counter_ok_later by (simp add: cache_holds_def d_def)
  qed
  have "counter_ok ttl (past @ [(k, now)]) (times_of j (past @ [(k, now)])) (map_of (purged now d) j)" for j
    using purged_lookup[OF dd, of now j] ok[of j] counter_ok_drop[of ttl "past @ [(k, now)]" _ _ _ "(k, now)"] by auto
  then show "cache_holds ttl (past @ [(k, now)]) (snd (incr_window ttl now k c))"
    using purged_distinct[OF dd] by (simp add: cache_holds_def incr_window_def Let_def d_def e_def)
next
  fix past c now k
  assume h: "cache_holds ttl past c" and n: "0 \<le> now" "\<forall>p \<in> set past. snd p \<le> now" "\<forall>t \<in> set (times_of k past). now < t + of_int ttl"
  show "fst (incr_window ttl now k c) = length (times_of k past) + 1"
    using next_count_ok(2)[OF _ n(1,2), of ttl "times_of k past"] h n(3) by (simp add: cache_holds_def incr_window_def Let_def)
qed

section \<open>The limiter\<close>

text \<open>A request: its path, its key header, its address, and what the two clocks show.\<close>

record web_request =
  wr_path :: string
  wr_key :: "string option"
  wr_host :: "string option"
  wr_wall :: rat
  wr_mono :: rat

record rate_limits =
  rl_upload :: int
  rl_api :: int

definition window_seconds :: int where "window_seconds = 60"

definition limited_path :: "string \<Rightarrow> bool" where
  "limited_path path = starts_with ''/api/'' path"

definition limit_for :: "rate_limits \<Rightarrow> string \<Rightarrow> string \<times> int" where
  "limit_for rl path =
     (if path \<in> {''/api/v1/files/upload'', ''/api/v1/upload''} then (''upload'', rl_upload rl) else (''api'', rl_api rl))"

definition identity :: "(string \<Rightarrow> string) \<Rightarrow> web_request \<Rightarrow> string" where
  "identity sha r =
     (case wr_key r of
        Some (c # k) \<Rightarrow> ''key:'' @ take 16 (sha (c # k))
      | _ \<Rightarrow> ''ip:'' @ (case wr_host r of None \<Rightarrow> ''unknown'' | Some h \<Rightarrow> h))"

definition window_of :: "web_request \<Rightarrow> int" where
  "window_of r = \<lfloor>wr_wall r / of_int window_seconds\<rfloor>"

definition counter_key :: "(string \<Rightarrow> string) \<Rightarrow> rate_limits \<Rightarrow> web_request \<Rightarrow> string" where
  "counter_key sha rl r =
     ''rl:'' @ fst (limit_for rl (wr_path r)) @ CHR '':'' # identity sha r @ CHR '':'' # int_str (window_of r)"

text \<open>\<open>max(1, int(x))\<close> of a float: the integer part.\<close>

definition retry_after :: "web_request \<Rightarrow> int" where
  "retry_after r = max 1 \<lfloor>of_int ((window_of r + 1) * window_seconds) - wr_wall r\<rfloor>"

text \<open>Passed on, with the limit and what remains of it when something was counted; or
  answered 429, with the seconds to wait.\<close>

datatype verdict = Passed "(int \<times> int) option" | Too_many int int

definition is_passed :: "verdict \<Rightarrow> bool" where
  "is_passed v = (case v of Passed _ \<Rightarrow> True | Too_many _ _ \<Rightarrow> False)"

definition rate_limit ::
    "(rat \<Rightarrow> string \<Rightarrow> 'c \<Rightarrow> nat \<times> 'c) \<Rightarrow> (string \<Rightarrow> string) \<Rightarrow> rate_limits \<Rightarrow> web_request \<Rightarrow> 'c \<Rightarrow> verdict \<times> 'c" where
  "rate_limit incr sha rl r c =
     (if \<not> limited_path (wr_path r) then (Passed None, c)
      else let limit = snd (limit_for rl (wr_path r)) in
        case incr (wr_mono r) (counter_key sha rl r) c of
          (n, c') \<Rightarrow>
            (if 0 < limit \<and> limit < int n then Too_many (retry_after r) limit
             else Passed (if n = 0 then None else Some (limit, max 0 (limit - int n))), c'))"

fun rate_limits_run ::
    "(rat \<Rightarrow> string \<Rightarrow> 'c \<Rightarrow> nat \<times> 'c) \<Rightarrow> (string \<Rightarrow> string) \<Rightarrow> rate_limits \<Rightarrow> web_request list \<Rightarrow> 'c \<Rightarrow> verdict list" where
  "rate_limits_run incr sha rl [] c = []"
| "rate_limits_run incr sha rl (r # rs) c =
     (case rate_limit incr sha rl r c of (v, c') \<Rightarrow> v # rate_limits_run incr sha rl rs c')"

text \<open>A counter backend that is down reports 0 (\<open>RedisCache.incr_window\<close> when the client fails).\<close>

definition counters_down :: "rat \<Rightarrow> string \<Rightarrow> 'c \<Rightarrow> nat \<times> 'c" where
  "counters_down now key c = (0, c)"

section \<open>What the limiter promises\<close>

text \<open>The specification: a request competes with the earlier ones of its scope, identity and
  window, and passes while fewer than the limit came before it.\<close>

definition competes :: "(string \<Rightarrow> string) \<Rightarrow> rate_limits \<Rightarrow> web_request \<Rightarrow> web_request \<Rightarrow> bool" where
  "competes sha rl r q =
     (limited_path (wr_path q) \<and> fst (limit_for rl (wr_path q)) = fst (limit_for rl (wr_path r))
      \<and> identity sha q = identity sha r \<and> window_of q = window_of r)"

definition verdict_spec :: "(string \<Rightarrow> string) \<Rightarrow> rate_limits \<Rightarrow> web_request list \<Rightarrow> web_request \<Rightarrow> verdict" where
  "verdict_spec sha rl past r =
     (let limit = snd (limit_for rl (wr_path r)); n = int (length (filter (competes sha rl r) past)) in
      if \<not> limited_path (wr_path r) then Passed None
      else if 0 < limit \<and> limit \<le> n then Too_many (retry_after r) limit
      else Passed (Some (limit, max 0 (limit - n - 1))))"

fun verdicts_spec :: "(string \<Rightarrow> string) \<Rightarrow> rate_limits \<Rightarrow> web_request list \<Rightarrow> web_request list \<Rightarrow> verdict list" where
  "verdicts_spec sha rl past [] = []"
| "verdicts_spec sha rl past (r # rs) = verdict_spec sha rl past r # verdicts_spec sha rl (past @ [r]) rs"

lemma last_colon: "\<lbrakk>xs @ CHR '':'' # ds = ys @ CHR '':'' # es; CHR '':'' \<notin> set ds; CHR '':'' \<notin> set es\<rbrakk> \<Longrightarrow> xs = ys \<and> ds = es"
  by (auto simp: append_eq_append_conv2 Cons_eq_append_conv append_eq_Cons_conv)

lemma colon_not_int: "CHR '':'' \<notin> set (int_str i)"
proof
  assume "CHR '':'' \<in> set (int_str i)"
  then have "CHR '':'' = CHR ''-'' \<or> is_digit (CHR '':'')" by (auto simp: int_str_def dest: nat_str_digits split: if_splits)
  then show False by (simp add: is_digit_def code_def)
qed

lemma counter_key_eq: "limited_path (wr_path q) \<Longrightarrow> counter_key sha rl q = counter_key sha rl r \<longleftrightarrow> competes sha rl r q"
proof -
  assume q: "limited_path (wr_path q)"
  have "counter_key sha rl q = counter_key sha rl r \<Longrightarrow> competes sha rl r q"
  proof -
    assume e: "counter_key sha rl q = counter_key sha rl r"
    have *: "''rl:'' @ fst (limit_for rl (wr_path q)) @ CHR '':'' # identity sha q = ''rl:'' @ fst (limit_for rl (wr_path r)) @ CHR '':'' # identity sha r
        \<and> int_str (window_of q) = int_str (window_of r)"
      by (rule last_colon[OF _ colon_not_int colon_not_int]) (use e in \<open>simp add: counter_key_def\<close>)
    then show ?thesis using q by (auto simp: competes_def int_str_inj limit_for_def split: if_splits)
  qed
  then show ?thesis by (auto simp: competes_def counter_key_def)
qed

lemma same_window: "window_of q = window_of r \<Longrightarrow> wr_wall r < wr_wall q + of_int window_seconds"
proof -
  assume w: "window_of q = window_of r"
  have "of_int \<lfloor>wr_wall q / 60\<rfloor> \<le> wr_wall q / 60" "wr_wall r / 60 < of_int \<lfloor>wr_wall r / 60\<rfloor> + 1" by linarith+
  then show ?thesis using w by (simp add: window_of_def window_seconds_def)
qed

text \<open>The clocks: both run in step, from a start that is not negative, and requests come in
  the order of their readings.\<close>

definition clocks_ok :: "rat \<Rightarrow> web_request list \<Rightarrow> bool" where
  "clocks_ok offset rs =
     (sorted (map wr_wall rs) \<and> list_all (\<lambda>r. 0 \<le> wr_mono r \<and> wr_mono r = wr_wall r + offset) rs)"

definition increments :: "(string \<Rightarrow> string) \<Rightarrow> rate_limits \<Rightarrow> web_request list \<Rightarrow> (string \<times> rat) list" where
  "increments sha rl rs = map (\<lambda>q. (counter_key sha rl q, wr_mono q)) (filter (\<lambda>q. limited_path (wr_path q)) rs)"

lemma increments_snoc:
  "increments sha rl (rs @ [r]) =
     increments sha rl rs @ (if limited_path (wr_path r) then [(counter_key sha rl r, wr_mono r)] else [])"
  by (simp add: increments_def)

lemma times_of_increments:
  "times_of (counter_key sha rl r) (increments sha rl rs) = map wr_mono (filter (competes sha rl r) rs)"
proof (induction rs rule: rev_induct)
  case Nil then show ?case by (simp add: times_of_def increments_def)
next
  case (snoc q rs)
  then show ?case using counter_key_eq[of q sha rl r] by (auto simp: increments_snoc competes_def)
qed

context window_counters begin

lemma limiter_step:
  assumes "ttl = window_seconds" "holds (increments sha rl past) c" "clocks_ok offset (past @ [r])"
    and "rate_limit incr sha rl r c = (v, c')"
  shows "v = verdict_spec sha rl past r \<and> holds (increments sha rl (past @ [r])) c'"
proof (cases "limited_path (wr_path r)")
  case False
  then show ?thesis using assms(2,4) by (auto simp: rate_limit_def verdict_spec_def increments_snoc)
next
  case True
  define k where "k = counter_key sha rl r"
  have m: "0 \<le> wr_mono r" "\<forall>q \<in> set past. wr_mono q \<le> wr_mono r"
    "\<forall>q \<in> set past. wr_mono r - wr_mono q = wr_wall r - wr_wall q"
    using assms(3) by (auto simp: clocks_ok_def sorted_append list_all_iff)
  have p: "\<forall>p \<in> set (increments sha rl past). snd p \<le> wr_mono r" using m(2) by (auto simp: increments_def)
  have t: "times_of k (increments sha rl past) = map wr_mono (filter (competes sha rl r) past)"
    unfolding k_def by (rule times_of_increments)
  have "wr_mono r < wr_mono q + of_int ttl" if "q \<in> set past" "competes sha rl r q" for q
    using same_window[of q r] that m(3) by (simp add: competes_def assms(1)) (metis add.commute diff_less_eq)
  then have "\<forall>x \<in> set (times_of k (increments sha rl past)). wr_mono r < x + of_int ttl" unfolding t by auto
  from counts[OF assms(2) m(1) p this] have n: "fst (incr (wr_mono r) k c) = length (filter (competes sha rl r) past) + 1" by (simp add: t)
  have "holds (increments sha rl (past @ [r])) (snd (incr (wr_mono r) k c))"
    using keeps[OF assms(2) m(1) p, of k] True by (simp add: increments_snoc k_def)
  then show ?thesis using assms(4) True n
    by (auto simp: rate_limit_def verdict_spec_def Let_def k_def[symmetric] split: prod.splits if_splits)
qed

lemma limiter_meets_spec:
  assumes "ttl = window_seconds" "holds (increments sha rl past) c" "clocks_ok offset (past @ rs)"
  shows "rate_limits_run incr sha rl rs c = verdicts_spec sha rl past rs"
  using assms(2,3)
proof (induction rs arbitrary: past c)
  case (Cons r rs)
  obtain v c' where s: "rate_limit incr sha rl r c = (v, c')" by fastforce
  have "clocks_ok offset (past @ [r])" using Cons.prems(2) by (auto simp: clocks_ok_def sorted_append)
  from limiter_step[OF assms(1) Cons.prems(1) this s] show ?case using Cons.IH[of "past @ [r]" c'] Cons.prems(2) s by simp
qed simp

end

definition passed_of :: "(string \<Rightarrow> string) \<Rightarrow> rate_limits \<Rightarrow> web_request \<Rightarrow> web_request list \<Rightarrow> verdict list \<Rightarrow> nat" where
  "passed_of sha rl r rs vs = length (filter (\<lambda>(q, v). competes sha rl r q \<and> is_passed v) (zip rs vs))"

lemma competes_same:
  "competes sha rl r q \<Longrightarrow> competes sha rl q = competes sha rl r \<and> limit_for rl (wr_path q) = limit_for rl (wr_path r)"
  by (auto simp: competes_def limit_for_def fun_eq_iff split: if_splits)

lemma spec_passes:
  assumes "0 < snd (limit_for rl (wr_path r))"
  shows "min (nat (snd (limit_for rl (wr_path r)))) (length (filter (competes sha rl r) past)) + passed_of sha rl r rs (verdicts_spec sha rl past rs)
    = min (nat (snd (limit_for rl (wr_path r)))) (length (filter (competes sha rl r) (past @ rs)))"
proof (induction rs arbitrary: past)
  case Nil then show ?case by (simp add: passed_of_def)
next
  case (Cons q rs)
  have "passed_of sha rl r (q # rs) (verdicts_spec sha rl past (q # rs))
      = (if competes sha rl r q \<and> is_passed (verdict_spec sha rl past q) then 1 else 0) + passed_of sha rl r rs (verdicts_spec sha rl (past @ [q]) rs)"
    by (simp add: passed_of_def)
  moreover have "is_passed (verdict_spec sha rl past q) \<longleftrightarrow>
      length (filter (competes sha rl r) past) < nat (snd (limit_for rl (wr_path r)))" if "competes sha rl r q"
    using that competes_same[OF that] assms by (auto simp: verdict_spec_def Let_def is_passed_def competes_def)
  ultimately show ?case using Cons.IH[of "past @ [q]"] by (auto simp: min_def split: if_splits)
qed

lemma counters_down_passes: "rate_limits_run counters_down sha rl rs c = map (\<lambda>_. Passed None) rs"
  by (induction rs) (auto simp: rate_limit_def counters_down_def Let_def)

text \<open>C18. The rate limiter on the process cache: with clocks in step every request meets exactly
  its specification, whatever other requests come between and however often the counters are
  purged, so of the requests of one scope, identity and window exactly the first \<open>limit\<close> pass.\<close>

theorem rate_limit_exact:
  assumes "clocks_ok offset rs"
  shows "rate_limits_run (incr_window window_seconds) sha rl rs empty_cache = verdicts_spec sha rl [] rs
    \<and> (0 < snd (limit_for rl (wr_path r)) \<longrightarrow>
        passed_of sha rl r rs (rate_limits_run (incr_window window_seconds) sha rl rs empty_cache)
        = min (nat (snd (limit_for rl (wr_path r)))) (length (filter (competes sha rl r) rs)))"
proof -
  have "rate_limits_run (incr_window window_seconds) sha rl rs empty_cache = verdicts_spec sha rl [] rs"
    using process_cache.limiter_meets_spec[of window_seconds sha rl "[]" empty_cache offset rs] assms cache_holds_empty[of window_seconds]
    by (simp add: increments_def)
  then show ?thesis using spec_passes[of rl r sha "[]" rs] by simp
qed

text \<open>The identity is a hash of the key as presented, valid or not: requests that each
  present another key all pass.\<close>

lemma fresh_keys_pass: "distinct (map (identity sha) (past @ rs)) \<Longrightarrow> list_all is_passed (verdicts_spec sha rl past rs)"
proof (induction rs arbitrary: past)
  case (Cons r rs)
  have "filter (competes sha rl r) past = []" using Cons.prems by (auto simp: filter_empty_conv competes_def rev_image_eqI)
  then have "is_passed (verdict_spec sha rl past r)" by (auto simp: verdict_spec_def is_passed_def Let_def)
  then show ?case using Cons.IH[of "past @ [r]"] Cons.prems by simp
qed simp

section \<open>A concrete minute\<close>

definition sample_web_request :: "string \<Rightarrow> rat \<Rightarrow> web_request" where
  "sample_web_request key t =
     \<lparr>wr_path = ''/api/v1/upload'', wr_key = Some key, wr_host = None, wr_wall = 120 + t, wr_mono = t\<rparr>"

text \<open>The wait the answer names is rounded down, so waiting it out can be too short.\<close>

lemma retry_comes_early:
  "retry_after (sample_web_request ''k'' (581 / 10)) = 1
   \<and> window_of (sample_web_request ''k'' (581 / 10 + 1)) = window_of (sample_web_request ''k'' (581 / 10))"
  by code_simp

definition sample_minute :: "web_request list" where
  "sample_minute = map (\<lambda>(k, t). sample_web_request k t)
     [(''k'', 1), (''k'', 2), (''j'', 2), (''k'', 59), (''k'', 60)]"

theorem rate_limit_exact_witness:
  "rate_limits_run (incr_window window_seconds) id \<lparr>rl_upload = 2, rl_api = 5\<rparr> sample_minute empty_cache
     = [Passed (Some (2, 1)), Passed (Some (2, 0)), Passed (Some (2, 1)), Too_many 1 2, Passed (Some (2, 1))]
   \<and> passed_of id \<lparr>rl_upload = 2, rl_api = 5\<rparr> (sample_web_request ''k'' 1) sample_minute
       (rate_limits_run (incr_window window_seconds) id \<lparr>rl_upload = 2, rl_api = 5\<rparr> sample_minute empty_cache) = 2"
proof -
  have c: "clocks_ok (- 120) sample_minute"
    by (simp add: clocks_ok_def sample_minute_def sample_web_request_def)
  have v: "verdicts_spec id \<lparr>rl_upload = 2, rl_api = 5\<rparr> [] sample_minute
      = [Passed (Some (2, 1)), Passed (Some (2, 0)), Passed (Some (2, 1)), Too_many 1 2, Passed (Some (2, 1))]"
    by code_simp
  have n: "length (filter (competes id \<lparr>rl_upload = 2, rl_api = 5\<rparr> (sample_web_request ''k'' 1)) sample_minute) = 3"
    by code_simp
  have l: "snd (limit_for \<lparr>rl_upload = 2, rl_api = 5\<rparr> (wr_path (sample_web_request ''k'' 1))) = 2" by code_simp
  note t = rate_limit_exact[OF c, of id "\<lparr>rl_upload = 2, rl_api = 5\<rparr>" "sample_web_request ''k'' 1"]
  show ?thesis using conjunct1[OF t] conjunct2[OF t] v n l by simp
qed

end
