(* ===== verification/ReportText.thy ===== *)
theory ReportText
  imports CsvWriter Classifier
begin

text \<open>
  The shape of a report (\<open>reporting/models.py\<close>) and its rendering as HTML and CSV
  (\<open>reporting/render.py\<close>). The text of a float is a parameter; texts are UTF-8 code units.
  The tags of a rendered page depend on the shape of the report alone, so no value can
  inject markup; rupee amounts read back exactly.
\<close>

section \<open>Reports\<close>

datatype cell = Text_cell string | Int_cell int | Float_cell rat | Bool_cell bool | No_cell

record report_table =
  rt_name :: string
  rt_columns :: "string list"
  rt_rows :: "cell list list"

record report =
  rp_kind :: string
  rp_title :: string
  rp_at :: instant
  rp_parameters :: "(string \<times> cell) list"
  rp_summary :: "(string \<times> cell) list"
  rp_tables :: "report_table list"
  rp_verdict :: "string option"
  rp_notes :: "string list"

definition cell_text :: "(rat \<Rightarrow> string) \<Rightarrow> cell \<Rightarrow> string" where
  "cell_text txt v =
     (case v of No_cell \<Rightarrow> [] | Bool_cell b \<Rightarrow> (if b then ''yes'' else ''no'') | Text_cell s \<Rightarrow> s
      | Int_cell i \<Rightarrow> int_str i | Float_cell x \<Rightarrow> txt x)"

section \<open>HTML\<close>

text \<open>\<open>html.escape\<close>.\<close>

definition escape_char :: "char \<Rightarrow> string" where
  "escape_char c =
     (if c = CHR ''&'' then ''&amp;'' else if c = CHR ''<'' then ''&lt;'' else if c = CHR ''>'' then ''&gt;''
      else if c = CHR 0x22 then ''&quot;'' else if c = CHR 0x27 then ''&#x27;'' else [c])"

definition html_escape :: "string \<Rightarrow> string" where
  "html_escape s = concat (map escape_char s)"

text \<open>An element: its tag with attributes, its content, the closing tag.\<close>

definition elem :: "string \<Rightarrow> string \<Rightarrow> string \<Rightarrow> string" where
  "elem t attrs body = CHR ''<'' # t @ attrs @ CHR ''>'' # body @ CHR ''<'' # CHR ''/'' # t @ ''>''"

definition attr :: "string \<Rightarrow> string \<Rightarrow> string" where
  "attr name v = CHR '' '' # name @ CHR ''='' # CHR 0x22 # v @ [CHR 0x22]"

definition numeric_cell :: "cell \<Rightarrow> bool" where
  "numeric_cell v = (case v of Int_cell _ \<Rightarrow> True | Float_cell _ \<Rightarrow> True | _ \<Rightarrow> False)"

definition html_cell :: "(rat \<Rightarrow> string) \<Rightarrow> cell \<Rightarrow> string" where
  "html_cell txt v = elem ''td'' (attr ''class'' (if numeric_cell v then ''num'' else [])) (html_escape (cell_text txt v))"

definition html_row :: "(rat \<Rightarrow> string) \<Rightarrow> cell list \<Rightarrow> string" where
  "html_row txt row = elem ''tr'' [] (concat (map (html_cell txt) row))"

definition html_table :: "(rat \<Rightarrow> string) \<Rightarrow> report_table \<Rightarrow> string" where
  "html_table txt t =
     (let head = concat (map (\<lambda>c. elem ''th'' [] (html_escape c)) (rt_columns t));
          body = concat (map (html_row txt) (rt_rows t));
          rows = (if body = [] then elem ''tr'' [] (elem ''td'' (attr ''colspan'' (nat_str (length (rt_columns t)))) ''no rows'')
                  else body)
      in elem ''h2'' [] (html_escape (rt_name t))
         @ elem ''table'' [] (elem ''thead'' [] (elem ''tr'' [] head) @ elem ''tbody'' [] rows))"

definition report_style :: string where
  "report_style =
     ''body{font:14px/1.5 system-ui,-apple-system,Segoe UI,sans-serif;margin:2rem auto;''
     @ ''max-width:960px;color:#1a1a1a;padding:0 1rem}''
     @ ''h1{font-size:1.5rem;margin-bottom:.2rem}h2{font-size:1.1rem;margin-top:2rem}''
     @ ''.meta{color:#555;font-size:.85rem}''
     @ ''dl{display:grid;grid-template-columns:max-content 1fr;gap:.25rem 1.5rem}''
     @ ''dt{color:#555}dd{margin:0;font-weight:600}''
     @ ''table{border-collapse:collapse;width:100%;margin-top:.5rem}''
     @ ''th,td{border:1px solid #d0d0d0;padding:.35rem .6rem;text-align:left}''
     @ ''th{background:#f3f3f3}td.num{text-align:right;font-variant-numeric:tabular-nums}''
     @ ''.pass{color:#0a6b2d}.fail{color:#b00020}.verdict{font-size:1.2rem;font-weight:700}''
     @ ''@media print{body{margin:0}}''"

definition parameter_line :: "(rat \<Rightarrow> string) \<Rightarrow> (string \<times> cell) list \<Rightarrow> string" where
  "parameter_line txt ps = join_with '', '' (map (\<lambda>(k, v). k @ '': '' @ cell_text txt v) ps)"

definition middle_dot :: string where "middle_dot = [CHR '' '', CHR 0xC2, CHR 0xB7, CHR '' '']"

definition render_html :: "(rat \<Rightarrow> string) \<Rightarrow> report \<Rightarrow> string" where
  "render_html txt r =
     ''<!doctype html><html lang=en><head><meta charset=utf-8>''
     @ elem ''title'' [] (html_escape (rp_title r)) @ elem ''style'' [] report_style @ ''</head><body>''
     @ elem ''h1'' [] (html_escape (rp_title r))
     @ elem ''p'' (attr ''class'' ''meta'')
         (''Generated '' @ html_escape (iso_text (rp_at r)) @ middle_dot @ html_escape (parameter_line txt (rp_parameters r)))
     @ (case rp_verdict r of
          Some (c # v) \<Rightarrow> elem ''p'' (attr ''class'' (''verdict '' @ (if c # v = ''PASS'' then ''pass'' else ''fail'')))
                            (''Result: '' @ html_escape (c # v))
        | _ \<Rightarrow> [])
     @ (if rp_summary r = [] then []
        else elem ''h2'' [] ''Summary''
             @ elem ''dl'' [] (concat (map (\<lambda>(k, v). elem ''dt'' [] (html_escape k) @ elem ''dd'' [] (html_escape (cell_text txt v)))
                                 (rp_summary r))))
     @ concat (map (html_table txt) (rp_tables r))
     @ (if rp_notes r = [] then []
        else elem ''h2'' [] ''Notes'' @ elem ''ul'' [] (concat (map (\<lambda>n. elem ''li'' [] (html_escape n)) (rp_notes r))))
     @ ''</body></html>''"

section \<open>CSV\<close>

definition report_cell :: "(rat \<Rightarrow> string) \<Rightarrow> cell \<Rightarrow> string" where
  "report_cell txt v = safe_cell (Some (cell_text txt v))"

definition report_rows :: "(rat \<Rightarrow> string) \<Rightarrow> report \<Rightarrow> string list list" where
  "report_rows txt r =
     [[''# '' @ rp_title r]]
     @ (case rp_verdict r of Some (c # v) \<Rightarrow> [[''result'', c # v]] | _ \<Rightarrow> [])
     @ map (\<lambda>(k, v). [safe_cell (Some k), report_cell txt v]) (rp_summary r)
     @ concat (map (\<lambda>t. [[], [''# '' @ rt_name t], map (\<lambda>c. safe_cell (Some c)) (rt_columns t)]
                          @ map (map (report_cell txt)) (rt_rows t)) (rp_tables r))"

definition render_csv :: "(rat \<Rightarrow> string) \<Rightarrow> report \<Rightarrow> string" where
  "render_csv txt r = csv_text (report_rows txt r)"

section \<open>Rupees\<close>

text \<open>The loop that takes two digits at a time off the end of the head, and the whole of it.\<close>

function indian_groups :: "string \<Rightarrow> string list" where
  "indian_groups head =
     (if 2 < length head then indian_groups (take (length head - 2) head) @ [drop (length head - 2) head]
      else if head = [] then [] else [head])"
  by pat_completeness auto
termination by (relation "measure length") auto

declare indian_groups.simps [simp del]

definition indian_digits :: "string \<Rightarrow> string" where
  "indian_digits digits =
     (if 3 < length digits
      then join_with '','' (indian_groups (take (length digits - 3) digits) @ [drop (length digits - 3) digits])
      else digits)"

definition rupee_sign :: string where "rupee_sign = [CHR 0xE2, CHR 0x82, CHR 0xB9]"

definition format_inr :: "int option \<Rightarrow> string" where
  "format_inr minor =
     (case minor of
        None \<Rightarrow> ''n/a''
      | Some m \<Rightarrow>
          (let n = nat \<bar>m\<bar>
           in (if m < 0 then ''-'' else []) @ rupee_sign @ indian_digits (nat_str (n div 100)) @ CHR ''.'' # zpad 2 (n mod 100)))"

lemma indian_digits_examples:
  "indian_digits ''1234567'' = ''12,34,567''" "indian_digits ''1000'' = ''1,000''" "indian_digits ''999'' = ''999''"
  by code_simp+

section \<open>Amounts read back\<close>

lemma join_digits:
  "filter is_digit (join_with '','' gs) = concat (map (filter is_digit) gs)"
  by (induction "'',''" gs rule: join_with.induct) (simp_all add: is_digit_def code_def)

lemma indian_groups_concat: "concat (indian_groups head) = head"
proof (induction head rule: indian_groups.induct)
  case (1 head)
  then show ?case by (subst indian_groups.simps) simp
qed

text \<open>Every group but the first has two digits, the first has one or two.\<close>

lemma indian_groups_sizes:
  "head \<noteq> [] \<Longrightarrow> indian_groups head \<noteq> [] \<and> length (hd (indian_groups head)) \<in> {1, 2} \<and> list_all (\<lambda>g. length g = 2) (tl (indian_groups head))"
proof (induction head rule: indian_groups.induct)
  case (1 head)
  show ?case
  proof (cases "2 < length head")
    case True
    then have "take (length head - 2) head \<noteq> []" by auto
    from 1(1)[OF True this] True show ?thesis by (subst (1 2 3) indian_groups.simps) (auto simp: tl_append split: list.splits)
  next
    case False
    then have "length head = 1 \<or> length head = 2" using 1(2) by (cases head; cases "tl head") auto
    then show ?thesis using 1(2) by (subst (1 2 3) indian_groups.simps) auto
  qed
qed

lemma indian_digits_keep: "list_all is_digit s \<Longrightarrow> filter is_digit (indian_digits s) = s"
proof -
  assume d: "list_all is_digit s"
  then have f: "filter is_digit s = s" by (simp add: filter_id_conv list_all_iff)
  have "concat (map (filter is_digit) (indian_groups t)) = filter is_digit t" for t
    by (metis filter_concat indian_groups_concat)
  then show ?thesis using f by (simp add: indian_digits_def join_digits flip: filter_append)
qed

text \<open>The amount a shown text stands for: its digits as paise, negative after a minus sign.\<close>

definition read_inr :: "string \<Rightarrow> int" where
  "read_inr s = (if s \<noteq> [] \<and> hd s = CHR ''-'' then -1 else 1) * int (digits_val (filter is_digit s))"

lemma digits_val_append: "digits_val (a @ b) = digits_val a * 10 ^ length b + digits_val b"
proof (induction b rule: rev_induct)
  case (snoc c b)
  then show ?case using digits_val_snoc[of "a @ b" c] by (simp add: digits_val_snoc)
qed simp

lemma zpad_two: "n < 100 \<Longrightarrow> list_all is_digit (zpad 2 n) \<and> length (zpad 2 n) = 2 \<and> digits_val (zpad 2 n) = n"
proof -
  assume n: "n < 100"
  have l: "length (nat_str n) \<le> 2" using n by (subst nat_str.simps, cases "n < 10") (simp_all add: nat_str.simps[of "n div 10"])
  have "digits_val (replicate k (CHR ''0'') @ s) = digits_val s" for k s
    by (induction k) (simp_all add: digits_val_def digit_of_def code_def)
  then show ?thesis using l nat_str_digits by (auto simp: zpad_def Let_def list_all_iff is_digit_def code_def)
qed

lemma format_inr_reads: "read_inr (format_inr (Some m)) = m"
proof -
  define n where "n = nat \<bar>m\<bar>"
  have d: "list_all is_digit (nat_str (n div 100))" using nat_str_digits by (simp add: list_all_iff)
  have z: "list_all is_digit (zpad 2 (n mod 100))" "length (zpad 2 (n mod 100)) = 2" "digits_val (zpad 2 (n mod 100)) = n mod 100"
    using zpad_two[of "n mod 100"] by simp_all
  have fz: "filter is_digit (zpad 2 (n mod 100)) = zpad 2 (n mod 100)" using z(1) by (simp add: filter_id_conv list_all_iff)
  have f: "filter is_digit (format_inr (Some m)) = nat_str (n div 100) @ zpad 2 (n mod 100)"
    using indian_digits_keep[OF d] by (simp add: format_inr_def n_def[symmetric] Let_def rupee_sign_def is_digit_def code_def fz)
  have "digits_val (filter is_digit (format_inr (Some m))) = n" unfolding f digits_val_append z by simp
  moreover have "format_inr (Some m) \<noteq> [] \<and> hd (format_inr (Some m)) = CHR ''-'' \<longleftrightarrow> m < 0"
    by (simp add: format_inr_def Let_def rupee_sign_def)
  ultimately show ?thesis unfolding read_inr_def n_def by simp
qed

section \<open>The tags of a page\<close>

text \<open>A scan for tags: what stands between \<open><\<close> and the next \<open>>\<close>.\<close>

fun tag_step :: "char \<Rightarrow> string option \<times> string list \<Rightarrow> string option \<times> string list" where
  "tag_step c (None, out) = (if c = CHR ''<'' then (Some [], out) else (None, out))"
| "tag_step c (Some t, out) = (if c = CHR ''>'' then (None, out @ [t]) else (Some (t @ [c]), out))"

definition tags :: "string \<Rightarrow> string list" where
  "tags s = snd (fold tag_step s (None, []))"

definition emits :: "string \<Rightarrow> string list \<Rightarrow> bool" where
  "emits s ts = (\<forall>out. fold tag_step s (None, out) = (None, out @ ts))"

named_theorems emit_rules

lemma emits_tags: "emits s ts \<Longrightarrow> tags s = ts"
  by (simp add: emits_def tags_def)

lemma emits_append [emit_rules]: "\<lbrakk>emits s ts; emits u us\<rbrakk> \<Longrightarrow> emits (s @ u) (ts @ us)"
  by (simp add: emits_def)

lemma emits_plain [emit_rules]: "CHR ''<'' \<notin> set s \<Longrightarrow> emits s []"
  unfolding emits_def by (induction s) auto

lemma fold_inside: "CHR ''>'' \<notin> set t \<Longrightarrow> fold tag_step t (Some a, out) = (Some (a @ t), out)"
  by (induction t arbitrary: a) auto

lemma emits_tag: "CHR ''>'' \<notin> set t \<Longrightarrow> emits (CHR ''<'' # t @ ''>'') [t]"
  by (simp add: emits_def fold_inside)

lemma emits_elem [emit_rules]:
  assumes "CHR ''>'' \<notin> set (t @ attrs)" "emits body ts"
  shows "emits (elem t attrs body) ((t @ attrs) # ts @ [CHR ''/'' # t])"
proof -
  have "emits ((CHR ''<'' # (t @ attrs) @ ''>'') @ body @ (CHR ''<'' # (CHR ''/'' # t) @ ''>'')) ([t @ attrs] @ ts @ [CHR ''/'' # t])"
    by (intro emits_append emits_tag assms) (use assms(1) in auto)
  then show ?thesis by (simp add: elem_def)
qed

lemma emits_concat [emit_rules]: "(\<And>x. x \<in> set xs \<Longrightarrow> emits (f x) (g x)) \<Longrightarrow> emits (concat (map f xs)) (concat (map g xs))"
  by (induction xs) (auto simp: emits_plain intro: emits_append)

lemma escaped_plain: "CHR ''<'' \<notin> set (html_escape s)"
  by (auto simp: html_escape_def escape_char_def)

lemma emits_escaped [emit_rules]: "emits (html_escape s) []"
  by (rule emits_plain[OF escaped_plain])

text \<open>The tags of a report, from its shape alone: how many parameters, rows, columns and
  notes, which cells are numbers, and whether there is a verdict and it is a pass.\<close>

definition cell_tags :: "cell \<Rightarrow> string list" where
  "cell_tags v = [''td'' @ attr ''class'' (if numeric_cell v then ''num'' else []), ''/td'']"

definition row_tags :: "cell list \<Rightarrow> string list" where
  "row_tags row = ''tr'' # concat (map cell_tags row) @ [''/tr'']"

definition table_tags :: "report_table \<Rightarrow> string list" where
  "table_tags t =
     [''h2'', ''/h2'', ''table'', ''thead'', ''tr''] @ concat (map (\<lambda>_. [''th'', ''/th'']) (rt_columns t))
     @ [''/tr'', ''/thead'', ''tbody'']
     @ (if rt_rows t = [] then [''tr'', ''td'' @ attr ''colspan'' (nat_str (length (rt_columns t))), ''/td'', ''/tr'']
        else concat (map row_tags (rt_rows t)))
     @ [''/tbody'', ''/table'']"

definition page_tags :: "report \<Rightarrow> string list" where
  "page_tags r =
     [''!doctype html'', ''html lang=en'', ''head'', ''meta charset=utf-8'', ''title'', ''/title'', ''style'', ''/style'', ''/head'', ''body'',
      ''h1'', ''/h1'', ''p'' @ attr ''class'' ''meta'', ''/p'']
     @ (case rp_verdict r of
          Some (c # v) \<Rightarrow> [''p'' @ attr ''class'' (''verdict '' @ (if c # v = ''PASS'' then ''pass'' else ''fail'')), ''/p'']
        | _ \<Rightarrow> [])
     @ (if rp_summary r = [] then []
        else [''h2'', ''/h2'', ''dl''] @ concat (map (\<lambda>_. [''dt'', ''/dt'', ''dd'', ''/dd'']) (rp_summary r)) @ [''/dl''])
     @ concat (map table_tags (rp_tables r))
     @ (if rp_notes r = [] then [] else [''h2'', ''/h2'', ''ul''] @ concat (map (\<lambda>_. [''li'', ''/li'']) (rp_notes r)) @ [''/ul''])
     @ [''/body'', ''/html'']"

lemma emits_cell: "emits (html_cell txt v) (cell_tags v)"
proof -
  have "emits (html_cell txt v) ((''td'' @ attr ''class'' (if numeric_cell v then ''num'' else [])) # [] @ [CHR ''/'' # ''td''])"
    unfolding html_cell_def by (intro emits_elem emits_escaped) (simp add: attr_def)
  then show ?thesis by (simp add: cell_tags_def)
qed

lemma emits_simple: "\<lbrakk>CHR ''>'' \<notin> set t; emits body ts\<rbrakk> \<Longrightarrow> emits (elem t [] body) (t # ts @ [CHR ''/'' # t])"
  using emits_elem[of t "[]" body ts] by simp

lemma emits_row: "emits (html_row txt row) (row_tags row)"
  using emits_simple[of "''tr''", OF _ emits_concat[of row "html_cell txt" cell_tags]] emits_cell
  by (simp add: html_row_def row_tags_def)

lemma emits_escaped_elem: "CHR ''>'' \<notin> set t \<Longrightarrow> emits (elem t [] (html_escape s)) [t, CHR ''/'' # t]"
  using emits_simple[OF _ emits_escaped] by simp

lemma emits_no_rows: "emits (elem ''tr'' [] (elem ''td'' (attr ''colspan'' (nat_str n)) ''no rows'')) [''tr'', ''td'' @ attr ''colspan'' (nat_str n), ''/td'', ''/tr'']"
proof -
  have "CHR ''>'' \<notin> set (nat_str n)" using nat_str_digits[of "CHR ''>''" n] by (auto simp: is_digit_def code_def)
  then have "emits (elem ''td'' (attr ''colspan'' (nat_str n)) ''no rows'') ((''td'' @ attr ''colspan'' (nat_str n)) # [] @ [CHR ''/'' # ''td''])"
    by (intro emits_elem emits_plain) (simp_all add: attr_def)
  from emits_simple[OF _ this, of "''tr''"] show ?thesis by simp
qed

lemma emits_table: "emits (html_table txt t) (table_tags t)"
proof -
  have b: "concat (map (html_row txt) (rt_rows t)) = [] \<longleftrightarrow> rt_rows t = []" by (auto simp: html_row_def elem_def)
  have head: "emits (elem ''thead'' [] (elem ''tr'' [] (concat (map (\<lambda>c. elem ''th'' [] (html_escape c)) (rt_columns t)))))
      ([''thead'', ''tr''] @ concat (map (\<lambda>_. [''th'', ''/th'']) (rt_columns t)) @ [''/tr'', ''/thead''])"
    using emits_simple[OF _ emits_simple[OF _ emits_concat[of "rt_columns t" _ "\<lambda>_. [''th'', ''/th'']"]], of "''thead''" "''tr''"]
      emits_escaped_elem[of "''th''"] by simp
  define rows where "rows = (if concat (map (html_row txt) (rt_rows t)) = []
      then elem ''tr'' [] (elem ''td'' (attr ''colspan'' (nat_str (length (rt_columns t)))) ''no rows'')
      else concat (map (html_row txt) (rt_rows t)))"
  define row_list where "row_list = (if rt_rows t = [] then [''tr'', ''td'' @ attr ''colspan'' (nat_str (length (rt_columns t))), ''/td'', ''/tr'']
      else concat (map row_tags (rt_rows t)))"
  have "emits rows row_list" unfolding rows_def row_list_def b using emits_no_rows emits_concat[of "rt_rows t" "html_row txt" row_tags] emits_row by simp
  from emits_simple[OF _ emits_append[OF head emits_simple[OF _ this, of "''tbody''"]], of "''table''"]
  have "emits (elem ''h2'' [] (html_escape (rt_name t)) @ elem ''table'' [] (elem ''thead'' [] (elem ''tr'' []
        (concat (map (\<lambda>c. elem ''th'' [] (html_escape c)) (rt_columns t)))) @ elem ''tbody'' [] rows)) (table_tags t)"
    using emits_append[OF emits_escaped_elem[of "''h2''" "rt_name t"]] by (simp add: table_tags_def row_list_def[symmetric])
  then show ?thesis by (simp add: html_table_def Let_def rows_def)
qed

text \<open>The sections of a page.\<close>

lemma emits_head: "emits ''<!doctype html><html lang=en><head><meta charset=utf-8>'' [''!doctype html'', ''html lang=en'', ''head'', ''meta charset=utf-8'']"
  by (simp add: emits_def)

lemma emits_body: "emits ''</head><body>'' [''/head'', ''body'']"
  by (simp add: emits_def)

lemma emits_foot: "emits ''</body></html>'' [''/body'', ''/html'']"
  by (simp add: emits_def)

lemma emits_style: "emits (elem ''style'' [] report_style) [''style'', ''/style'']"
  using emits_simple[of "''style''" report_style "[]"] by (simp add: emits_plain report_style_def)

lemma emits_meta:
  "emits (elem ''p'' (attr ''class'' ''meta'') (''Generated '' @ html_escape a @ middle_dot @ html_escape b)) [''p'' @ attr ''class'' ''meta'', ''/p'']"
proof -
  have "emits (''Generated '' @ html_escape a @ middle_dot @ html_escape b) []"
    by (rule emits_plain) (use escaped_plain in \<open>simp add: middle_dot_def\<close>)
  from emits_elem[OF _ this, of "''p''" "attr ''class'' ''meta''"] show ?thesis by (simp add: attr_def)
qed

lemma emits_verdict:
  "emits (case v of Some (c # v) \<Rightarrow> elem ''p'' (attr ''class'' (''verdict '' @ (if c # v = ''PASS'' then ''pass'' else ''fail'')))
                       (''Result: '' @ html_escape (c # v)) | _ \<Rightarrow> [])
     (case v of Some (c # v) \<Rightarrow> [''p'' @ attr ''class'' (''verdict '' @ (if c # v = ''PASS'' then ''pass'' else ''fail'')), ''/p''] | _ \<Rightarrow> [])"
proof -
  have "emits (elem ''p'' (attr ''class'' (''verdict '' @ k)) (''Result: '' @ html_escape s)) [''p'' @ attr ''class'' (''verdict '' @ k), ''/p'']"
    if "CHR ''>'' \<notin> set k" for k s
  proof -
    have "emits (''Result: '' @ html_escape s) []" by (rule emits_plain) (use escaped_plain in simp)
    from emits_elem[OF _ this, of "''p''" "attr ''class'' (''verdict '' @ k)"] show ?thesis using that by (simp add: attr_def)
  qed
  from this[of "''pass''"] this[of "''fail''"] show ?thesis
    by (auto simp: emits_plain split: option.splits list.splits)
qed

lemma emits_summary:
  "emits (if rows = [] then []
          else elem ''h2'' [] ''Summary''
               @ elem ''dl'' [] (concat (map (\<lambda>(k, v). elem ''dt'' [] (html_escape k) @ elem ''dd'' [] (html_escape (cell_text txt v))) rows)))
     (if rows = [] then [] else [''h2'', ''/h2'', ''dl''] @ concat (map (\<lambda>_. [''dt'', ''/dt'', ''dd'', ''/dd'']) rows) @ [''/dl''])"
proof -
  have "emits (case x of (k, v) \<Rightarrow> elem ''dt'' [] (html_escape k) @ elem ''dd'' [] (html_escape (cell_text txt v))) [''dt'', ''/dt'', ''dd'', ''/dd'']" for x
    using emits_append[OF emits_escaped_elem[of "''dt''" "fst x"] emits_escaped_elem[of "''dd''" "cell_text txt (snd x)"]]
    by (simp add: case_prod_beta')
  then have "emits (concat (map (\<lambda>(k, v). elem ''dt'' [] (html_escape k) @ elem ''dd'' [] (html_escape (cell_text txt v))) rows))
      (concat (map (\<lambda>_. [''dt'', ''/dt'', ''dd'', ''/dd'']) rows))" by (rule emits_concat)
  from emits_simple[OF _ this, of "''dl''"] emits_simple[OF _ emits_plain, of "''h2''" "''Summary''"] show ?thesis
    using emits_append[of "elem ''h2'' [] ''Summary''" "[''h2'', ''/h2'']"] by (auto simp: emits_plain)
qed

lemma emits_notes:
  "emits (if notes = [] then [] else elem ''h2'' [] ''Notes'' @ elem ''ul'' [] (concat (map (\<lambda>n. elem ''li'' [] (html_escape n)) notes)))
     (if notes = [] then [] else [''h2'', ''/h2'', ''ul''] @ concat (map (\<lambda>_. [''li'', ''/li'']) notes) @ [''/ul''])"
proof -
  have "emits (concat (map (\<lambda>n. elem ''li'' [] (html_escape n)) notes)) (concat (map (\<lambda>_. [''li'', ''/li'']) notes))"
    by (rule emits_concat) (use emits_escaped_elem[of "''li''"] in simp)
  from emits_simple[OF _ this, of "''ul''"] emits_simple[OF _ emits_plain, of "''h2''" "''Notes''"] show ?thesis
    using emits_append[of "elem ''h2'' [] ''Notes''" "[''h2'', ''/h2'']"] by (auto simp: emits_plain)
qed

lemma page_markup: "emits (render_html txt r) (page_tags r)"
proof -
  have t: "emits (elem ''title'' [] (html_escape (rp_title r))) [''title'', ''/title'']" "emits (elem ''h1'' [] (html_escape (rp_title r))) [''h1'', ''/h1'']"
    using emits_escaped_elem[of "''title''"] emits_escaped_elem[of "''h1''"] by simp_all
  have tabs: "emits (concat (map (html_table txt) (rp_tables r))) (concat (map table_tags (rp_tables r)))"
    by (rule emits_concat) (rule emits_table)
  note tail = emits_append[OF tabs emits_append[OF emits_notes[of "rp_notes r"] emits_foot]]
  note upper = emits_append[OF emits_verdict[of "rp_verdict r"] emits_append[OF emits_summary[of "rp_summary r" "txt"] tail]]
  note body = emits_append[OF t(2) emits_append[OF emits_meta[of "iso_text (rp_at r)" "parameter_line txt (rp_parameters r)"] upper]]
  note page = emits_append[OF emits_head emits_append[OF t(1) emits_append[OF emits_style emits_append[OF emits_body body]]]]
  show ?thesis unfolding render_html_def page_tags_def using page by simp
qed

section \<open>What a rendered report promises\<close>

text \<open>The texts a report shows, cell by cell, before anything is done about formulas; what the
  table has for such a text; and a cell no spreadsheet takes for a formula.\<close>

definition plain_grid :: "(rat \<Rightarrow> string) \<Rightarrow> report \<Rightarrow> string list list" where
  "plain_grid txt r =
     [''# '' @ rp_title r]
     # (case rp_verdict r of None \<Rightarrow> [] | Some v \<Rightarrow> if v = [] then [] else [[''result'', v]])
     @ map (\<lambda>kv. [fst kv, cell_text txt (snd kv)]) (rp_summary r)
     @ concat (map (\<lambda>t. [] # [''# '' @ rt_name t] # rt_columns t # map (map (cell_text txt)) (rt_rows t)) (rp_tables r))"

definition neutralised :: "string \<Rightarrow> string \<Rightarrow> bool" where
  "neutralised original written =
     (case original of [] \<Rightarrow> written = [] | c # cs \<Rightarrow> written = (if formula_start c then CHR 0x27 # original else original))"

definition harmless :: "string \<Rightarrow> bool" where
  "harmless x = (case x of [] \<Rightarrow> True | c # _ \<Rightarrow> \<not> formula_start c)"

definition known_verdict :: "report \<Rightarrow> bool" where
  "known_verdict r = (rp_verdict r \<in> {None, Some ''PASS'', Some ''FAIL''})"

lemma neutralised_safe: "neutralised t (safe_cell (Some t))" "neutralised (cell_text txt v) (report_cell txt v)"
  by (auto simp: neutralised_def report_cell_def safe_cell_def Let_def split: list.splits)

lemma neutralised_harmless: "neutralised x y \<Longrightarrow> harmless y"
  by (auto simp: neutralised_def harmless_def formula_start_def split: list.splits if_splits)

lemma neutralised_title: "neutralised (CHR ''#'' # t) (CHR ''#'' # t)"
  by (simp add: neutralised_def formula_start_def)

lemma list_all2_mapped: "(\<And>x. P (f x) (g x)) \<Longrightarrow> list_all2 P (map f xs) (map g xs)"
  by (induction xs) simp_all

lemma neutralised_table:
  "list_all2 (list_all2 neutralised)
     ([] # [''# '' @ rt_name t] # rt_columns t # map (map (cell_text txt)) (rt_rows t))
     ([[], [''# '' @ rt_name t], map (\<lambda>c. safe_cell (Some c)) (rt_columns t)] @ map (map (report_cell txt)) (rt_rows t))"
proof -
  have "list_all2 neutralised (map id cs) (map (\<lambda>c. safe_cell (Some c)) cs)" for cs
    by (rule list_all2_mapped) (simp add: neutralised_safe)
  moreover have "list_all2 (list_all2 neutralised) (map (map (cell_text txt)) rows) (map (map (report_cell txt)) rows)" for rows
    by (intro list_all2_mapped neutralised_safe)
  ultimately show ?thesis by (simp add: neutralised_title)
qed

lemma neutralised_rows:
  assumes "known_verdict r"
  shows "list_all2 (list_all2 neutralised) (plain_grid txt r) (report_rows txt r)"
proof -
  have v: "list_all2 (list_all2 neutralised) (case rp_verdict r of None \<Rightarrow> [] | Some v \<Rightarrow> if v = [] then [] else [[''result'', v]])
      (case rp_verdict r of Some (c # v) \<Rightarrow> [[''result'', c # v]] | _ \<Rightarrow> [])"
    using assms by (auto simp: known_verdict_def neutralised_def formula_start_def)
  have s: "list_all2 (list_all2 neutralised) (map (\<lambda>kv. [fst kv, cell_text txt (snd kv)]) rows)
      (map (\<lambda>(k, v). [safe_cell (Some k), report_cell txt v]) rows)" for rows
    by (rule list_all2_mapped) (simp add: neutralised_safe case_prod_beta')
  have t: "list_all2 (list_all2 neutralised)
      (concat (map (\<lambda>t. [] # [''# '' @ rt_name t] # rt_columns t # map (map (cell_text txt)) (rt_rows t)) ts))
      (concat (map (\<lambda>t. [[], [''# '' @ rt_name t], map (\<lambda>c. safe_cell (Some c)) (rt_columns t)]
                       @ map (map (report_cell txt)) (rt_rows t)) ts))" for ts
    by (induction ts) (simp, use neutralised_table in \<open>auto intro: list_all2_appendI\<close>)
  show ?thesis unfolding plain_grid_def report_rows_def using v s t
    by (auto simp: neutralised_title intro!: list_all2_appendI)
qed

lemma all_harmless: "list_all2 (list_all2 neutralised) xs ys \<Longrightarrow> list_all (list_all harmless) ys"
proof -
  have row: "list_all2 neutralised x y \<Longrightarrow> list_all harmless y" for x y
    by (induction rule: list_all2_induct) (auto intro: neutralised_harmless)
  show "list_all2 (list_all2 neutralised) xs ys \<Longrightarrow> list_all (list_all harmless) ys"
    by (induction rule: list_all2_induct) (auto intro: row)
qed

text \<open>C35. A rendered report is faithful and inert: the tags of the page are those of its shape
  whatever its values hold; its CSV reads back as exactly its rows; for a report with no
  verdict or one of the two verdicts there are, those rows are the texts the report shows,
  each of them with a quote in front exactly when it starts like a spreadsheet formula, so
  that no cell of the whole table is one; and an amount shown in rupees reads back as the
  paise it was made from.\<close>

theorem report_rendering_inert:
  "tags (render_html txt r) = page_tags r
   \<and> csv_records (CHR '','') (render_csv txt r) = report_rows txt r
   \<and> (known_verdict r \<longrightarrow>
        list_all2 (list_all2 neutralised) (plain_grid txt r) (csv_records (CHR '','') (render_csv txt r))
        \<and> list_all (list_all harmless) (csv_records (CHR '','') (render_csv txt r)))
   \<and> read_inr (format_inr (Some m)) = m"
proof -
  have c: "csv_records (CHR '','') (render_csv txt r) = report_rows txt r" by (simp add: render_csv_def csv_reads)
  show ?thesis unfolding c using emits_tags[OF page_markup] format_inr_reads neutralised_rows all_harmless by blast
qed

text \<open>A verdict that starts like a formula would be written as it is: the model has none.\<close>

lemma verdict_written_raw:
  "\<exists>r. rp_verdict r = Some ''=1'' \<and> \<not> list_all (list_all harmless) (csv_records (CHR '','') (render_csv txt r))"
proof -
  let ?r = "\<lparr>rp_kind = [], rp_title = [], rp_at = 0, rp_parameters = [], rp_summary = [], rp_tables = [],
      rp_verdict = Some ''=1'', rp_notes = []\<rparr>"
  have "csv_records (CHR '','') (render_csv txt ?r) = report_rows txt ?r" by (simp add: render_csv_def csv_reads)
  then have "\<not> list_all (list_all harmless) (csv_records (CHR '','') (render_csv txt ?r))"
    by (simp add: report_rows_def harmless_def formula_start_def)
  then show ?thesis by (intro exI[of _ ?r]) simp
qed

definition small_report :: report where
  "small_report =
     \<lparr>rp_kind = ''daily'', rp_title = ''Daily'', rp_at = 0, rp_parameters = [(''bank'', Text_cell ''<b>'')],
      rp_summary = [(''value'', Text_cell ''=1'')],
      rp_tables = [\<lparr>rt_name = ''Banks'', rt_columns = [''bank''], rt_rows = [[Text_cell ''@A'']]\<rparr>],
      rp_verdict = Some ''PASS'', rp_notes = []\<rparr>"

theorem report_rendering_inert_witness:
  "csv_records (CHR '','') (render_csv (\<lambda>_. []) small_report)
     = [[''# Daily''], [''result'', ''PASS''], [''value'', CHR 0x27 # ''=1''], [], [''# Banks''], [''bank''], [CHR 0x27 # ''@A'']]
   \<and> list_all2 (list_all2 neutralised) (plain_grid (\<lambda>_. []) small_report) (csv_records (CHR '','') (render_csv (\<lambda>_. []) small_report))
   \<and> list_all (list_all harmless) (csv_records (CHR '','') (render_csv (\<lambda>_. []) small_report))
   \<and> tags (render_html (\<lambda>_. []) small_report) = page_tags small_report
   \<and> read_inr (format_inr (Some (- 1234567))) = - 1234567"
proof -
  have "report_rows (\<lambda>_. []) small_report
     = [[''# Daily''], [''result'', ''PASS''], [''value'', CHR 0x27 # ''=1''], [], [''# Banks''], [''bank''], [CHR 0x27 # ''@A'']]"
    by code_simp
  moreover have "known_verdict small_report" by (simp add: known_verdict_def small_report_def)
  ultimately show ?thesis using report_rendering_inert[of "\<lambda>_. []" small_report "- 1234567"] by metis
qed

end
