(* ===== verification/Reports.thy ===== *)
theory Reports
  imports ReportText Backlog
begin

text \<open>
  The reports of \<open>reporting/generator.py\<close> over the stored office, and their endpoints
  (\<open>api/v1/reports.py\<close>): the daily reconciliation, the ageing of open exceptions, the audit
  compliance verdict and the recovery from a backlog. Every query is the filter it states;
  days are days of UTC; where a query leaves ties open, rows keep their stored order. A float
  is given by its printed decimal.
\<close>

section \<open>Figures\<close>

definition float_round :: "nat \<Rightarrow> rat \<Rightarrow> rat" where
  "float_round k x = repr_of (double_of (of_int (round_half_even (double_of x * 10 ^ k)) / 10 ^ k))"

definition rate_of :: "nat \<Rightarrow> nat \<Rightarrow> rat" where
  "rate_of n d = (if d = 0 then 0 else float_round 4 (float_div (of_nat n) (of_nat d)))"

definition percent_of :: "nat \<Rightarrow> nat \<Rightarrow> rat" where
  "percent_of n d = (if d = 0 then 100 else float_round 2 (float_div (of_nat (100 * n)) (of_nat d)))"

definition count_if :: "('a \<Rightarrow> bool) \<Rightarrow> 'a list \<Rightarrow> nat" where
  "count_if P xs = length (filter P xs)"

definition inr_total :: "exc list \<Rightarrow> int" where
  "inr_total xs = sum_list (map (\<lambda>x. case x_inr x of None \<Rightarrow> 0 | Some n \<Rightarrow> n) xs)"

definition day_start :: "date \<Rightarrow> instant" where
  "day_start d = (d - 1) * day_micros"

definition on_day :: "date \<Rightarrow> instant \<Rightarrow> bool" where
  "on_day d t = (day_start d \<le> t \<and> t < day_start d + day_micros)"

definition office_db :: "office \<Rightarrow> db" where
  "office_db o1 = w_db (dk_world (of_desk o1))"

definition office_excs :: "office \<Rightarrow> exc list" where
  "office_excs o1 = w_excs (dk_world (of_desk o1))"

definition num :: "nat \<Rightarrow> cell" where "num n = Int_cell (int n)"

definition in_bank :: "('a \<Rightarrow> string) \<Rightarrow> string \<Rightarrow> 'a list \<Rightarrow> 'a list" where
  "in_bank f bank xs = filter (\<lambda>x. f x = bank) xs"

definition sorted_codes :: "string list \<Rightarrow> string list" where
  "sorted_codes cs = sort (remdups cs)"

section \<open>The daily reconciliation report\<close>

definition on_time :: "instant \<Rightarrow> exc \<Rightarrow> bool" where
  "on_time now x =
     (case x_resolved_at x of Some t \<Rightarrow> t \<le> x_deadline x | None \<Rightarrow> x_breached x = None \<and> now \<le> x_deadline x)"

record day_figures =
  df_txns :: "txn list"
  df_runs :: "run_row list"
  df_created :: "exc list"
  df_carried :: "exc list"

definition figures_of :: "date \<Rightarrow> office \<Rightarrow> day_figures" where
  "figures_of day o1 =
     \<lparr>df_txns = filter (\<lambda>t. t_date t = day) (txns (office_db o1)),
      df_runs = filter (\<lambda>r. on_day day (rn_created r)) (of_runs o1),
      df_created = filter (\<lambda>x. on_day day (x_created x)) (office_excs o1),
      df_carried = filter (\<lambda>x. x_created x < day_start day \<and> still_open (x_status x)) (office_excs o1)\<rparr>"

definition bank_figures :: "string \<Rightarrow> day_figures \<Rightarrow> day_figures" where
  "bank_figures bank f =
     \<lparr>df_txns = in_bank t_bank bank (df_txns f), df_runs = in_bank rn_bank bank (df_runs f),
      df_created = in_bank x_bank bank (df_created f), df_carried = in_bank x_bank bank (df_carried f)\<rparr>"

definition figure_codes :: "string list \<Rightarrow> day_figures \<Rightarrow> string list" where
  "figure_codes configured f =
     sorted_codes (configured @ map t_bank (df_txns f) @ map rn_bank (df_runs f) @ map x_bank (df_created f) @ map x_bank (df_carried f))"

definition matched_txn :: "txn \<Rightarrow> bool" where
  "matched_txn t = (t_status t = MATCHED)"

record day_totals =
  to_total :: nat
  to_matched :: nat
  to_created :: nat
  to_open :: nat
  to_on_time :: nat
  to_carried :: nat
  to_inr :: int
  to_failed :: nat

definition totals_of :: "instant \<Rightarrow> day_figures \<Rightarrow> day_totals" where
  "totals_of now f =
     \<lparr>to_total = length (df_txns f), to_matched = count_if matched_txn (df_txns f), to_created = length (df_created f),
      to_open = count_if (still_open \<circ> x_status) (df_created f), to_on_time = count_if (on_time now) (df_created f),
      to_carried = length (df_carried f), to_inr = inr_total (df_carried f),
      to_failed = count_if (\<lambda>r. rn_status r = FAILED) (df_runs f)\<rparr>"

definition add_totals :: "day_totals \<Rightarrow> day_totals \<Rightarrow> day_totals" where
  "add_totals a b =
     \<lparr>to_total = to_total a + to_total b, to_matched = to_matched a + to_matched b, to_created = to_created a + to_created b,
      to_open = to_open a + to_open b, to_on_time = to_on_time a + to_on_time b, to_carried = to_carried a + to_carried b,
      to_inr = to_inr a + to_inr b, to_failed = to_failed a + to_failed b\<rparr>"

definition no_totals :: day_totals where
  "no_totals = \<lparr>to_total = 0, to_matched = 0, to_created = 0, to_open = 0, to_on_time = 0, to_carried = 0, to_inr = 0, to_failed = 0\<rparr>"

definition daily_row :: "instant \<Rightarrow> string \<Rightarrow> day_figures \<Rightarrow> cell list" where
  "daily_row now bank f =
     (let s = totals_of now f in
      [Text_cell bank, num (to_total s), num (to_matched s), Float_cell (rate_of (to_matched s) (to_total s)),
       num (length (df_runs f)), num (to_created s), num (to_open s), Float_cell (percent_of (to_on_time s) (to_created s)),
       num (to_carried s), Text_cell (format_inr (Some (to_inr s)))])"

definition by_category :: "exc list \<Rightarrow> (category \<times> severity \<times> nat) list" where
  "by_category xs =
     sort_key (\<lambda>(c, _, n). (- int n, category_text c))
       (map (\<lambda>(c, s). (c, s, count_if (\<lambda>x. x_category x = c \<and> x_severity x = s) xs))
          (remdups (map (\<lambda>x. (x_category x, x_severity x)) xs)))"

definition daily :: "string list \<Rightarrow> instant \<Rightarrow> date \<Rightarrow> office \<Rightarrow> report" where
  "daily configured now day o1 =
     (let f = figures_of day o1;
          codes = figure_codes configured f;
          s = fold (\<lambda>bank a. add_totals a (totals_of now (bank_figures bank f))) codes no_totals
      in \<lparr>rp_kind = ''daily'', rp_title = ''Daily Reconciliation Report, '' @ date_iso day, rp_at = now,
          rp_parameters = [(''date'', Text_cell (date_iso day))],
          rp_summary =
            [(''transactions'', num (to_total s)), (''matched'', num (to_matched s)),
             (''match_rate'', Float_cell (rate_of (to_matched s) (to_total s))), (''exceptions_created'', num (to_created s)),
             (''exceptions_auto_resolved'', num (count_if (\<lambda>x. x_resolved_by x = Some ''system:auto-resolver'') (df_created f))),
             (''exceptions_still_open'', num (to_open s)),
             (''sla_compliance_percent'', Float_cell (percent_of (to_on_time s) (to_created s))),
             (''unresolved_carry_forward'', num (to_carried s)), (''carry_forward_value'', Text_cell (format_inr (Some (to_inr s)))),
             (''failed_runs'', num (to_failed s))],
          rp_tables =
            [\<lparr>rt_name = ''Per bank'',
              rt_columns = [''Bank'', ''Transactions'', ''Matched'', ''Match rate'', ''Runs'', ''Exceptions created'', ''Still open'',
                            ''SLA compliance %'', ''Carried forward'', ''Carry-forward value''],
              rt_rows = map (\<lambda>bank. daily_row now bank (bank_figures bank f)) codes\<rparr>,
             \<lparr>rt_name = ''Exceptions by category'', rt_columns = [''Category'', ''Severity'', ''Count''],
              rt_rows = map (\<lambda>(c, s, n). [Text_cell (category_text c), Text_cell (severity_text s), num n]) (by_category (df_created f))\<rparr>],
          rp_verdict = None,
          rp_notes = [''Transactions are those dated on the report day. Exceptions are those created ''
                      @ ''on it (UTC). Carry-forward is every exception still open that was created before it.'']\<rparr>)"

section \<open>The ageing of open exceptions\<close>

definition age_buckets :: "string list" where
  "age_buckets = [''< 1 hour'', ''1-4 hours'', ''4-24 hours'', ''> 24 hours'']"

definition age_bucket :: "instant \<Rightarrow> exc \<Rightarrow> string" where
  "age_bucket now x =
     (let age = now - x_created x in
      if age < hour_micros then ''< 1 hour'' else if age < 4 * hour_micros then ''1-4 hours''
      else if age < 24 * hour_micros then ''4-24 hours'' else ''> 24 hours'')"

definition open_excs :: "office \<Rightarrow> exc list" where
  "open_excs o1 = filter (\<lambda>x. still_open (x_status x)) (office_excs o1)"

definition in_bucket :: "instant \<Rightarrow> string \<Rightarrow> exc list \<Rightarrow> exc list" where
  "in_bucket now b xs = filter (\<lambda>x. age_bucket now x = b) xs"

definition bucket_row :: "instant \<Rightarrow> exc list \<Rightarrow> string \<Rightarrow> cell list" where
  "bucket_row now xs b =
     (let ys = in_bucket now b xs in
      [Text_cell b, num (length ys), Text_cell (format_inr (Some (inr_total ys))), num (count_if (\<lambda>x. x_inr x = None) ys)])"

definition bank_age_row :: "instant \<Rightarrow> exc list \<Rightarrow> string \<Rightarrow> cell list" where
  "bank_age_row now xs bank =
     Text_cell bank # map (\<lambda>b. num (length (in_bucket now b (in_bank x_bank bank xs)))) age_buckets"

definition age_hours :: "instant \<Rightarrow> exc \<Rightarrow> rat" where
  "age_hours now x = float_round 1 (float_div (float_div (of_int (now - x_created x)) 1000000) 3600)"

definition oldest_row :: "instant \<Rightarrow> exc \<Rightarrow> cell list" where
  "oldest_row now x =
     [Text_cell (uuid_str (x_id x)), Text_cell (x_bank x), Text_cell (category_text (x_category x)),
      Text_cell (severity_text (x_severity x)), num (tier_no (x_tier x)), Float_cell (age_hours now x),
      Text_cell (format_inr (x_inr x))]"

definition exception_ageing :: "instant \<Rightarrow> office \<Rightarrow> report" where
  "exception_ageing now o1 =
     (let xs = open_excs o1;
          banks = sorted_codes (map x_bank xs);
          counted_in = (\<lambda>b. length (in_bucket now b xs))
      in \<lparr>rp_kind = ''exception-ageing'', rp_title = ''Exception Ageing Report'', rp_at = now,
          rp_parameters = [(''as_of'', Text_cell (iso_text now))],
          rp_summary =
            [(''open_exceptions'', num (sum_list (map counted_in age_buckets))),
             (''open_value'', Text_cell (format_inr (Some (sum_list (map (\<lambda>b. inr_total (in_bucket now b xs)) age_buckets))))),
             (''older_than_24_hours'', num (counted_in ''> 24 hours''))],
          rp_tables =
            [\<lparr>rt_name = ''By age'', rt_columns = [''Age'', ''Open exceptions'', ''Financial impact'', ''Without an INR value''],
              rt_rows = map (bucket_row now xs) age_buckets\<rparr>,
             \<lparr>rt_name = ''By bank and age'', rt_columns = ''Bank'' # age_buckets, rt_rows = map (bank_age_row now xs) banks\<rparr>,
             \<lparr>rt_name = ''Oldest 20 open exceptions'',
              rt_columns = [''Id'', ''Bank'', ''Category'', ''Severity'', ''Tier'', ''Age (hours)'', ''Impact''],
              rt_rows = map (oldest_row now) (take 20 (sort_key (\<lambda>x. (x_created x, x_id x)) xs))\<rparr>],
          rp_verdict = None,
          rp_notes = [''Age is time since the exception was created. Impact is the INR-equivalent; an ''
                      @ ''exception in a currency with no available rate has no INR value and is counted ''
                      @ ''separately rather than added in at face value.'']\<rparr>)"

section \<open>The audit compliance report\<close>

text \<open>The transactions an exception's affected records name (the five branches of the query).\<close>

fun covered_ids :: "affected \<Rightarrow> nat list" where
  "covered_ids (Pair_of i e mid already details) = [i, e]"
| "covered_ids (Single_of i missing) = [i]"
| "covered_ids (Copy_of copy original same) = [copy]"
| "covered_ids (Group_of g rids single members) = single # members"
| "covered_ids (Raw_row r line) = []"
| "covered_ids (File_rows n lines) = []"

definition covered_txns :: "exc list \<Rightarrow> nat list" where
  "covered_txns xs = concat (map (covered_ids \<circ> x_affected) xs)"

definition in_period :: "date \<Rightarrow> date \<Rightarrow> date \<Rightarrow> bool" where
  "in_period a b d = (a \<le> d \<and> d \<le> b)"

record audit_figures =
  af_total :: nat
  af_matched :: nat
  af_voided :: nat
  af_held :: nat
  af_uncovered :: nat
  af_exceptions :: nat
  af_resolved :: nat
  af_open :: nat
  af_unaddressed :: nat
  af_chains :: "(string \<times> verification) list"
  af_files :: "(integrity option \<times> nat) list"
  af_unbalanced :: nat
  af_critical :: nat

definition integrity_key :: "integrity option \<Rightarrow> string" where
  "integrity_key s = (case s of None \<Rightarrow> ''None'' | Some i \<Rightarrow> integrity_text i)"

definition audit_figures_of :: "(string \<Rightarrow> string) \<Rightarrow> instant \<Rightarrow> date \<Rightarrow> date \<Rightarrow> office \<Rightarrow> audit_figures" where
  "audit_figures_of sha now a b o1 =
     (let db = office_db o1;
          ts = filter (\<lambda>t. in_period a b (t_date t)) (txns db);
          xs = filter (\<lambda>x. in_period a b (date_of (x_created x))) (office_excs o1);
          fs = map if_integrity (filter (\<lambda>f. in_period a b (date_of (if_at f))) (dk_files (of_desk o1)))
      in \<lparr>af_total = length ts,
          af_matched = count_if matched_txn ts,
          af_voided = count_if (\<lambda>t. t_status t = VOIDED) ts,
          af_held = count_if (\<lambda>t. t_status t = UNMATCHED \<and> is_claimed db (t_id t)) ts,
          af_uncovered = count_if (\<lambda>t. t_status t = UNMATCHED \<and> \<not> is_claimed db (t_id t)
                                       \<and> t_id t \<notin> set (covered_txns (office_excs o1))) ts,
          af_exceptions = length xs,
          af_resolved = count_if (\<lambda>x. x_status x \<in> {RESOLVED, WRITTEN_OFF}) xs,
          af_open = count_if (\<lambda>x. still_open (x_status x)) xs,
          af_unaddressed = count_if (\<lambda>x. still_open (x_status x) \<and> x_deadline x < now \<and> x_breached x = None) xs,
          af_chains = verify_all_chains sha (audit_log db),
          af_files = map (\<lambda>s. (s, count_if (\<lambda>s'. s' = s) fs)) (sort_key integrity_key (remdups fs)),
          af_unbalanced = count_if (\<lambda>bl. in_period a b (date_of (bl_at bl)) \<and> \<not> balanced (bl_check bl)) (dk_balances (of_desk o1)),
          af_critical = count_if (\<lambda>al. al_status al = ALERT_OPEN \<and> ad_severity al = CRITICAL) (dk_alerts (of_desk o1))\<rparr>)"

definition file_count :: "audit_figures \<Rightarrow> integrity \<Rightarrow> nat" where
  "file_count f s = (case map_of (af_files f) (Some s) of None \<Rightarrow> 0 | Some n \<Rightarrow> n)"

definition tampered_files :: "audit_figures \<Rightarrow> nat" where
  "tampered_files f = file_count f TAMPERED + file_count f FILE_MISSING"

definition chains_intact :: "audit_figures \<Rightarrow> bool" where
  "chains_intact f = list_all (\<lambda>(_, v). v_ok v) (af_chains f)"

definition failures_of :: "audit_figures \<Rightarrow> string list" where
  "failures_of f =
     (if af_uncovered f = 0 then [] else [nat_str (af_uncovered f) @ '' unmatched transaction(s) have no exception''])
     @ (if af_unaddressed f = 0 then []
        else [nat_str (af_unaddressed f) @ '' exception(s) are past their SLA and were never escalated''])
     @ (if chains_intact f then [] else [''the audit trail failed hash verification''])
     @ (if tampered_files f = 0 then [] else [nat_str (tampered_files f) @ '' stored file(s) failed re-verification''])
     @ (if af_unbalanced f = 0 then [] else [nat_str (af_unbalanced f) @ '' statement(s) do not balance''])"

text \<open>The text of a failed verification (\<open>failure_kind\<close> and \<open>detail\<close>) is a parameter.\<close>

definition chain_row :: "(verification \<Rightarrow> string) \<Rightarrow> string \<times> verification \<Rightarrow> cell list" where
  "chain_row detail cv =
     [Text_cell (fst cv), num (entries_checked (snd cv)),
      Text_cell (if v_ok (snd cv) then ''intact'' else ''BROKEN: '' @ detail (snd cv))]"

definition audit_compliance ::
    "(string \<Rightarrow> string) \<Rightarrow> (verification \<Rightarrow> string) \<Rightarrow> instant \<Rightarrow> date \<Rightarrow> date \<Rightarrow> office \<Rightarrow> report" where
  "audit_compliance sha detail now a b o1 =
     (let f = audit_figures_of sha now a b o1; failures = failures_of f in
      \<lparr>rp_kind = ''audit-compliance'',
       rp_title = ''Audit Compliance Report, '' @ date_iso a @ '' to '' @ date_iso b, rp_at = now,
       rp_parameters = [(''date_from'', Text_cell (date_iso a)), (''date_to'', Text_cell (date_iso b))],
       rp_summary =
         [(''transactions_in_period'', num (af_total f)), (''matched'', num (af_matched f)),
          (''voided_duplicates'', num (af_voided f)), (''held_for_review'', num (af_held f)),
          (''unmatched_without_an_exception'', num (af_uncovered f)), (''exceptions_in_period'', num (af_exceptions f)),
          (''exceptions_resolved'', num (af_resolved f)), (''exceptions_open'', num (af_open f)),
          (''exceptions_past_sla_not_escalated'', num (af_unaddressed f)), (''audit_trail_intact'', Bool_cell (chains_intact f)),
          (''files_failing_reverification'', num (tampered_files f)), (''statements_not_balancing'', num (af_unbalanced f)),
          (''open_critical_alerts'', num (af_critical f))],
       rp_tables =
         [\<lparr>rt_name = ''Audit chains'', rt_columns = [''Chain'', ''Entries verified'', ''Status''],
           rt_rows = map (chain_row detail) (sort_key fst (af_chains f))\<rparr>,
          \<lparr>rt_name = ''Stored files by integrity status'', rt_columns = [''Status'', ''Files''],
           rt_rows = map (\<lambda>(s, n). [Text_cell (case s of None \<Rightarrow> ''not yet verified'' | Some i \<Rightarrow> integrity_text i), num n]) (af_files f)\<rparr>,
          \<lparr>rt_name = ''Failures'', rt_columns = [''Finding''], rt_rows = map (\<lambda>t. [Text_cell t]) failures\<rparr>],
       rp_verdict = Some (if failures = [] then ''PASS'' else ''FAIL''),
       rp_notes =
         [''PASS means every transaction in the period is matched, in review, voided, or ''
          @ ''covered by an exception; no exception is past its SLA unescalated; every audit ''
          @ ''chain re-verifies; and no stored file or statement failed its check.'',
          ''Hash verification cannot detect deletion of the newest audit entries unless a ''
          @ ''chain head exported earlier is supplied (GET /api/v1/audit/anchors).'']\<rparr>)"

section \<open>The recovery report\<close>

definition float_mul :: "rat \<Rightarrow> rat \<Rightarrow> rat" where
  "float_mul x y = repr_of (double_of (double_of x * double_of y))"

definition hour_of :: "instant \<Rightarrow> instant" where
  "hour_of t = t div hour_micros * hour_micros"

definition backlog_txns :: "db \<Rightarrow> txn list" where
  "backlog_txns db = filter (\<lambda>t. t_status t = UNMATCHED \<and> \<not> is_claimed db (t_id t)) (txns db)"

definition reconciled_at :: "(nat \<Rightarrow> instant) \<Rightarrow> instant \<Rightarrow> db \<Rightarrow> instant list" where
  "reconciled_at created_at since db =
     map (created_at \<circ> r_id) (filter (\<lambda>r. since \<le> created_at (r_id r) \<and> r_status r \<in> {AUTO_MATCHED, CONFIRMED}) (results db))"

definition per_hour :: "instant list \<Rightarrow> (instant \<times> nat) list" where
  "per_hour ts = map (\<lambda>h. (h, count_if (\<lambda>t. hour_of t = h) ts)) (sort (remdups (map hour_of ts)))"

definition per_bank :: "txn list \<Rightarrow> (string \<times> nat) list" where
  "per_bank ts = map (\<lambda>b. (b, length (in_bank t_bank b ts))) (sorted_codes (map t_bank ts))"

definition per_mode :: "run_row list \<Rightarrow> (string \<times> string \<times> nat) list" where
  "per_mode rs =
     map (\<lambda>(m, s). (m, s, count_if (\<lambda>r. rn_mode r = m \<and> run_status_text (rn_status r) = s) rs))
       (sort (remdups (map (\<lambda>r. (rn_mode r, run_status_text (rn_status r))) rs)))"

definition recovery :: "(nat \<Rightarrow> instant) \<Rightarrow> instant \<Rightarrow> nat \<Rightarrow> office \<Rightarrow> report" where
  "recovery created_at now hours o1 =
     (let db = office_db o1;
          since = now - int hours * hour_micros;
          by_hour = per_hour (reconciled_at created_at since db);
          matched = sum_list (map snd by_hour);
          banks = per_bank (backlog_txns db);
          backlog = sum_list (map snd banks);
          total = length (txns db);
          ratio = (if total = 0 then 0 else float_div (of_nat (length (office_excs o1))) (of_nat total));
          rate = float_div (of_nat matched) (of_nat hours)
      in \<lparr>rp_kind = ''recovery'', rp_title = ''Reconciliation Recovery Report'', rp_at = now,
          rp_parameters = [(''window_hours'', num hours), (''as_of'', Text_cell (iso_text now))],
          rp_summary =
            [(''backlog_unmatched_transactions'', num backlog), (''reconciled_in_window'', num matched),
             (''reconciled_per_hour'', Float_cell (float_round 1 rate)),
             (''projected_hours_to_clear'', if 0 < rate then Float_cell (float_round 1 (float_div (of_nat backlog) rate)) else No_cell),
             (''estimated_exceptions_from_backlog'', Int_cell \<lceil>double_of (float_mul (of_nat backlog) ratio)\<rceil>),
             (''historical_exception_rate'', Float_cell (float_round 4 ratio))],
          rp_tables =
            [\<lparr>rt_name = ''Reconciled per hour'', rt_columns = [''Hour (UTC)'', ''Matched''],
              rt_rows = map (\<lambda>(h, n). [Text_cell (iso_text h), num n]) by_hour\<rparr>,
             \<lparr>rt_name = ''Backlog by bank'', rt_columns = [''Bank'', ''Unmatched''],
              rt_rows = map (\<lambda>(b, n). [Text_cell b, num n]) banks\<rparr>,
             \<lparr>rt_name = ''Runs in the window'', rt_columns = [''Mode'', ''Status'', ''Runs''],
              rt_rows = map (\<lambda>(m, s, n). [Text_cell m, Text_cell s, num n])
                          (per_mode (filter (\<lambda>r. since \<le> rn_created r) (of_runs o1)))\<rparr>],
          rp_verdict = None,
          rp_notes =
            [''Projected time divides today'' @ CHR 0x27 # ''s backlog by the average matches per hour over the ''
             @ ''window, so it is only as good as the recent rate; it is None when nothing was matched in the window.'',
             ''Estimated exceptions apply the all-time ratio of exceptions to transactions to the backlog.'']\<rparr>)"

section \<open>The endpoints\<close>

datatype report_format = JSON_FORMAT | HTML_FORMAT | CSV_FORMAT

datatype rendered = Json_report report | Html_report string | Csv_report string string

definition respond :: "(rat \<Rightarrow> string) \<Rightarrow> report_format \<Rightarrow> report \<Rightarrow> rendered" where
  "respond txt fmt r =
     (case fmt of
        HTML_FORMAT \<Rightarrow> Html_report (render_html txt r)
      | CSV_FORMAT \<Rightarrow> Csv_report (rp_kind r @ ''.csv'') (render_csv txt r)
      | JSON_FORMAT \<Rightarrow> Json_report r)"

definition daily_report :: "(rat \<Rightarrow> string) \<Rightarrow> string list \<Rightarrow> instant \<Rightarrow> report_format \<Rightarrow> date option \<Rightarrow> office \<Rightarrow> rendered" where
  "daily_report txt configured now fmt day o1 =
     respond txt fmt (daily configured now (case day of None \<Rightarrow> date_of now | Some d \<Rightarrow> d) o1)"

definition exception_ageing_report :: "(rat \<Rightarrow> string) \<Rightarrow> instant \<Rightarrow> report_format \<Rightarrow> office \<Rightarrow> rendered" where
  "exception_ageing_report txt now fmt o1 = respond txt fmt (exception_ageing now o1)"

definition audit_compliance_report ::
    "(rat \<Rightarrow> string) \<Rightarrow> (string \<Rightarrow> string) \<Rightarrow> (verification \<Rightarrow> string) \<Rightarrow> instant \<Rightarrow> report_format \<Rightarrow> date option \<Rightarrow> date option
     \<Rightarrow> office \<Rightarrow> rendered res" where
  "audit_compliance_report txt sha detail now fmt date_from date_to o1 =
     (let upto = (case date_to of None \<Rightarrow> date_of now | Some d \<Rightarrow> d);
          start = (case date_from of None \<Rightarrow> upto | Some d \<Rightarrow> d)
      in if upto < start then Inl (HttpError 422)
         else if 366 < upto - start then Inl (HttpError 422)
         else Inr (respond txt fmt (audit_compliance sha detail now start upto o1)))"

definition recovery_report :: "(rat \<Rightarrow> string) \<Rightarrow> (nat \<Rightarrow> instant) \<Rightarrow> instant \<Rightarrow> report_format \<Rightarrow> nat \<Rightarrow> office \<Rightarrow> rendered" where
  "recovery_report txt created_at now fmt hours o1 = respond txt fmt (recovery created_at now hours o1)"

section \<open>Nothing is lost between the parts and the whole\<close>

lemma single_sum: "distinct cs \<Longrightarrow> sum_list (map (\<lambda>c. if k = c then v else 0) cs) = (if k \<in> set cs then v else (0 :: 'a::comm_monoid_add))"
  by (induction cs) auto

lemma split_sum:
  "\<lbrakk>distinct cs; f ` set xs \<subseteq> set cs\<rbrakk>
   \<Longrightarrow> sum_list (map (\<lambda>c. sum_list (map g (filter (\<lambda>x. f x = c) xs))) cs) = (sum_list (map g xs) :: 'a::comm_monoid_add)"
proof (induction xs)
  case (Cons a xs)
  have "sum_list (map (\<lambda>c. if f a = c then g a else 0) cs) = g a" using Cons.prems by (simp add: single_sum)
  moreover have "sum_list (map (\<lambda>c. sum_list (map g (filter (\<lambda>x. f x = c) (a # xs)))) cs)
      = sum_list (map (\<lambda>c. (if f a = c then g a else 0) + sum_list (map g (filter (\<lambda>x. f x = c) xs))) cs)"
    by (rule arg_cong[where f = sum_list]) simp
  ultimately show ?case using Cons by (simp add: sum_list_addf)
qed simp

lemma split_length: "\<lbrakk>distinct cs; f ` set xs \<subseteq> set cs\<rbrakk> \<Longrightarrow> sum_list (map (\<lambda>c. length (filter (\<lambda>x. f x = c) xs)) cs) = length xs"
  using split_sum[of cs f xs "\<lambda>_. 1::nat"] by (simp add: sum_list_triv)

lemma split_count:
  assumes "distinct cs" "f ` set xs \<subseteq> set cs"
  shows "sum_list (map (\<lambda>c. count_if P (filter (\<lambda>x. f x = c) xs)) cs) = count_if P xs"
proof -
  have "count_if P (filter (\<lambda>x. f x = c) xs) = length (filter (\<lambda>x. f x = c) (filter P xs))" for c
    by (simp add: count_if_def conj_commute)
  then show ?thesis using split_length[of cs f "filter P xs"] assms by (auto simp: count_if_def)
qed

lemma split_inr:
  "\<lbrakk>distinct cs; f ` set xs \<subseteq> set cs\<rbrakk> \<Longrightarrow> sum_list (map (\<lambda>c. inr_total (filter (\<lambda>x. f x = c) xs)) cs) = inr_total xs"
  unfolding inr_total_def by (rule split_sum)

lemma sorted_codes_set [simp]: "set (sorted_codes cs) = set cs" "distinct (sorted_codes cs)"
  by (simp_all add: sorted_codes_def)

lemma fold_totals:
  "fold (\<lambda>c a. add_totals a (h c)) cs a
   = \<lparr>to_total = to_total a + sum_list (map (to_total \<circ> h) cs), to_matched = to_matched a + sum_list (map (to_matched \<circ> h) cs),
      to_created = to_created a + sum_list (map (to_created \<circ> h) cs), to_open = to_open a + sum_list (map (to_open \<circ> h) cs),
      to_on_time = to_on_time a + sum_list (map (to_on_time \<circ> h) cs), to_carried = to_carried a + sum_list (map (to_carried \<circ> h) cs),
      to_inr = to_inr a + sum_list (map (to_inr \<circ> h) cs), to_failed = to_failed a + sum_list (map (to_failed \<circ> h) cs)\<rparr>"
  by (induction cs arbitrary: a) (simp_all add: add_totals_def algebra_simps)

lemma totals_split:
  assumes "distinct cs" "t_bank ` set (df_txns f) \<subseteq> set cs" "rn_bank ` set (df_runs f) \<subseteq> set cs"
    "x_bank ` set (df_created f) \<subseteq> set cs" "x_bank ` set (df_carried f) \<subseteq> set cs"
  shows "fold (\<lambda>c a. add_totals a (totals_of now (bank_figures c f))) cs no_totals = totals_of now f"
  unfolding fold_totals totals_of_def bank_figures_def in_bank_def no_totals_def comp_def
  using split_length[OF assms(1,2)] split_length[OF assms(1,4)] split_length[OF assms(1,5)] split_count[OF assms(1,2)]
    split_count[OF assms(1,4)] split_count[OF assms(1,3)] split_inr[OF assms(1,5)]
  by simp

lemma daily_totals:
  "fold (\<lambda>c a. add_totals a (totals_of now (bank_figures c f))) (figure_codes configured f) no_totals = totals_of now f"
  by (rule totals_split) (auto simp: figure_codes_def)

lemma bucket_cases: "age_bucket now x \<in> set age_buckets"
  by (simp add: age_bucket_def age_buckets_def Let_def)

lemma buckets_distinct: "distinct age_buckets"
  by (simp add: age_buckets_def)

lemma ageing_sums:
  "sum_list (map (\<lambda>b. length (in_bucket now b xs)) age_buckets) = length xs"
  "sum_list (map (\<lambda>b. inr_total (in_bucket now b xs)) age_buckets) = inr_total xs"
  unfolding in_bucket_def using bucket_cases by (auto intro!: split_length split_inr buckets_distinct)

lemma per_hour_total: "sum_list (map snd (per_hour ts)) = length ts"
  using split_length[of "sort (remdups (map hour_of ts))" hour_of ts] by (simp add: per_hour_def count_if_def comp_def)

lemma per_bank_total: "sum_list (map snd (per_bank ts)) = length ts"
  using split_length[of "sorted_codes (map t_bank ts)" t_bank ts] by (simp add: per_bank_def in_bank_def comp_def)

section \<open>What the reports promise\<close>

text \<open>C33. The reports lose nothing: the daily summary counts every transaction of the day and
  sums every carried exception, whatever bank it is of, and has a row per bank; the ageing
  buckets count and value every open exception once; the recovery report's hours and banks
  add up to every match in the window and the whole backlog.\<close>

theorem reports_lose_nothing:
  "map_of (rp_summary (daily configured now day o1)) ''transactions''
     = Some (num (length (filter (\<lambda>t. t_date t = day) (txns (office_db o1)))))
   \<and> map_of (rp_summary (daily configured now day o1)) ''carry_forward_value''
     = Some (Text_cell (format_inr (Some (inr_total (filter (\<lambda>x. x_created x < day_start day) (open_excs o1))))))
   \<and> map hd (rt_rows (hd (rp_tables (daily configured now day o1)))) = map Text_cell (figure_codes configured (figures_of day o1))
   \<and> map_of (rp_summary (exception_ageing now o1)) ''open_exceptions'' = Some (num (length (open_excs o1)))
   \<and> map_of (rp_summary (exception_ageing now o1)) ''open_value'' = Some (Text_cell (format_inr (Some (inr_total (open_excs o1)))))
   \<and> map_of (rp_summary (recovery created_at now hours o1)) ''backlog_unmatched_transactions''
     = Some (num (length (backlog_txns (office_db o1))))
   \<and> map_of (rp_summary (recovery created_at now hours o1)) ''reconciled_in_window''
     = Some (num (length (reconciled_at created_at (now - int hours * hour_micros) (office_db o1))))"
proof -
  have f: "filter (\<lambda>x. x_created x < day_start day) (open_excs o1) = df_carried (figures_of day o1)"
    by (simp add: open_excs_def figures_of_def conj_commute)
  have hd: "hd (daily_row now bank b) = Text_cell bank" for bank b by (simp add: daily_row_def Let_def)
  have t: "to_total (totals_of now (figures_of day o1)) = length (filter (\<lambda>t. t_date t = day) (txns (office_db o1)))"
    "to_inr (totals_of now (figures_of day o1)) = inr_total (df_carried (figures_of day o1))"
    by (simp_all add: totals_of_def figures_of_def)
  show ?thesis
    unfolding f
    by (simp add: daily_def exception_ageing_def recovery_def Let_def daily_totals t ageing_sums per_hour_total per_bank_total hd)
qed

lemma claimed_by_live:
  assumes "ledger_ok db"
  shows "is_claimed db t \<longleftrightarrow> (\<exists>r \<in> set (results db). live r \<and> t \<in> sides r)"
  using assms unfolding ledger_ok_def claims_ok_def results_ok_def held_def is_claimed_def active_txns_iff by blast

text \<open>A transaction is accounted for: settled or in review, voided, or named by an exception.\<close>

definition accounted_for :: "office \<Rightarrow> txn \<Rightarrow> bool" where
  "accounted_for o1 t =
     (t_status t \<in> {VOIDED, CLAIMED} \<or> (\<exists>r \<in> set (results (office_db o1)). live r \<and> t_id t \<in> sides r)
      \<or> t_id t \<in> set (covered_txns (office_excs o1)))"

lemma accounted_iff:
  assumes "ledger_ok (office_db o1)" "t \<in> set (txns (office_db o1))"
  shows "accounted_for o1 t \<longleftrightarrow> \<not> (t_status t = UNMATCHED \<and> \<not> is_claimed (office_db o1) (t_id t) \<and> t_id t \<notin> set (covered_txns (office_excs o1)))"
proof -
  have "t_status t = MATCHED \<Longrightarrow> \<exists>r \<in> set (results (office_db o1)). live r \<and> t_id t \<in> sides r"
    using assms settled_live unfolding ledger_ok_def status_ok_def by blast
  then show ?thesis unfolding accounted_for_def claimed_by_live[OF assms(1)] by (cases "t_status t") auto
qed

lemma file_count_zero:
  "file_count (audit_figures_of sha now a b o1) s = 0
   \<longleftrightarrow> (\<forall>f \<in> set (dk_files (of_desk o1)). in_period a b (date_of (if_at f)) \<longrightarrow> if_integrity f \<noteq> Some s)"
proof -
  define fs where "fs = map if_integrity (filter (\<lambda>f. in_period a b (date_of (if_at f))) (dk_files (of_desk o1)))"
  define ks where "ks = sort_key integrity_key (remdups fs)"
  have "map_of (map (\<lambda>k. (k, count_if (\<lambda>k'. k' = k) fs)) ks) (Some s) = (if Some s \<in> set ks then Some (count_if (\<lambda>k'. k' = Some s) fs) else None)"
    by (simp add: map_of_map_restrict restrict_map_def)
  moreover have "af_files (audit_figures_of sha now a b o1) = map (\<lambda>k. (k, count_if (\<lambda>k'. k' = k) fs)) ks"
    by (simp add: audit_figures_of_def Let_def fs_def ks_def)
  ultimately have "file_count (audit_figures_of sha now a b o1) s = count_if (\<lambda>k'. k' = Some s) fs"
    by (auto simp: file_count_def ks_def count_if_def filter_empty_conv)
  then show ?thesis by (auto simp: count_if_def fs_def filter_empty_conv)
qed

lemma chains_intact_iff:
  "chains_intact (audit_figures_of sha now a b o1) \<longleftrightarrow> (\<forall>c. v_ok (verify_chain sha (audit_log (office_db o1)) c None))"
proof -
  have "v_ok (verify_chain sha log c None)" if "c \<notin> chain_id ` set log" for log c
  proof -
    have "filter (\<lambda>r. chain_id r = c) log = []" using that by (auto simp: filter_empty_conv)
    then show ?thesis by (simp add: verify_chain_ok_iff chain_rows_def)
  qed
  then have "(\<forall>c \<in> chain_id ` set log. v_ok (verify_chain sha log c None)) \<longleftrightarrow> (\<forall>c. v_ok (verify_chain sha log c None))" for log
    by blast
  then show ?thesis by (simp add: chains_intact_def audit_figures_of_def Let_def verify_all_chains_def list_all_iff)
qed

text \<open>C11. The compliance verdict means what it says: it is PASS exactly when every transaction
  of the period is in a settled or reviewed match, voided or named by an exception, no open
  exception created in it is past its deadline without a breach on record, every audit chain
  verifies, and no file of it failed its check and no statement of it fails to balance.\<close>

theorem compliance_verdict_exact:
  assumes "ledger_ok (office_db o1)"
  shows "rp_verdict (audit_compliance sha detail now a b o1) = Some ''PASS'' \<longleftrightarrow>
     (\<forall>t \<in> set (txns (office_db o1)). in_period a b (t_date t) \<longrightarrow> accounted_for o1 t)
     \<and> (\<forall>x \<in> set (office_excs o1). in_period a b (date_of (x_created x)) \<and> still_open (x_status x) \<and> x_deadline x < now
          \<longrightarrow> x_breached x \<noteq> None)
     \<and> (\<forall>c. v_ok (verify_chain sha (audit_log (office_db o1)) c None))
     \<and> (\<forall>f \<in> set (dk_files (of_desk o1)). in_period a b (date_of (if_at f)) \<longrightarrow> if_integrity f \<notin> {Some TAMPERED, Some FILE_MISSING})
     \<and> (\<forall>s \<in> set (dk_balances (of_desk o1)). in_period a b (date_of (bl_at s)) \<longrightarrow> balanced (bl_check s))"
proof -
  let ?f = "audit_figures_of sha now a b o1"
  have u: "af_uncovered ?f = 0 \<longleftrightarrow> (\<forall>t \<in> set (txns (office_db o1)). in_period a b (t_date t) \<longrightarrow> accounted_for o1 t)"
    using accounted_iff[OF assms] by (auto simp: audit_figures_of_def Let_def count_if_def filter_empty_conv)
  have x: "af_unaddressed ?f = 0 \<longleftrightarrow> (\<forall>x \<in> set (office_excs o1). in_period a b (date_of (x_created x)) \<and> still_open (x_status x)
      \<and> x_deadline x < now \<longrightarrow> x_breached x \<noteq> None)"
    by (auto simp: audit_figures_of_def Let_def count_if_def filter_empty_conv)
  have f: "tampered_files ?f = 0 \<longleftrightarrow> (\<forall>f \<in> set (dk_files (of_desk o1)). in_period a b (date_of (if_at f))
      \<longrightarrow> if_integrity f \<notin> {Some TAMPERED, Some FILE_MISSING})"
    by (auto simp: tampered_files_def file_count_zero)
  have s: "af_unbalanced ?f = 0 \<longleftrightarrow> (\<forall>s \<in> set (dk_balances (of_desk o1)). in_period a b (date_of (bl_at s)) \<longrightarrow> balanced (bl_check s))"
    by (auto simp: audit_figures_of_def Let_def count_if_def filter_empty_conv)
  have "rp_verdict (audit_compliance sha detail now a b o1) = Some ''PASS'' \<longleftrightarrow> failures_of ?f = []"
    by (simp add: audit_compliance_def Let_def)
  also have "\<dots> \<longleftrightarrow> af_uncovered ?f = 0 \<and> af_unaddressed ?f = 0 \<and> chains_intact ?f \<and> tampered_files ?f = 0 \<and> af_unbalanced ?f = 0"
    by (simp add: failures_of_def)
  finally show ?thesis unfolding u x f s chains_intact_iff .
qed

lemma verdict_cases: "rp_verdict (audit_compliance sha detail now a b o1) \<in> {Some ''PASS'', Some ''FAIL''}"
  by (simp add: audit_compliance_def Let_def)

lemma lone_office_parts:
  "office_db lone_office = sample_db [sample_txn 3 INTERNAL 500 ''REF1'' 10]" "office_excs lone_office = []"
  "dk_files (of_desk lone_office) = []" "dk_balances (of_desk lone_office) = []"
  by (simp_all add: office_db_def office_excs_def lone_office_def empty_office_def empty_desk_def sample_world_def)

lemma lone_office_ledger: "ledger_ok (office_db lone_office)"
  unfolding lone_office_parts by (rule sample_ok) (simp_all add: sample_txn_def)

theorem compliance_verdict_exact_witness:
  "rp_verdict (audit_compliance sample_sha (\<lambda>_. []) 0 11 15 lone_office) = Some ''PASS''
   \<and> rp_verdict (audit_compliance sample_sha (\<lambda>_. []) 0 10 15 lone_office) = Some ''FAIL''"
proof -
  have v: "v_ok (verify_chain sample_sha (audit_log (office_db lone_office)) c None)" for c
    by (simp add: lone_office_parts sample_db_def verify_chain_ok_iff chain_rows_def)
  have t: "txns (office_db lone_office) = [sample_txn 3 INTERNAL 500 ''REF1'' 10]" "results (office_db lone_office) = []"
    by (simp_all add: lone_office_parts sample_db_def)
  note c = compliance_verdict_exact[OF lone_office_ledger, of sample_sha "\<lambda>_. []" 0]
  have "rp_verdict (audit_compliance sample_sha (\<lambda>_. []) 0 11 15 lone_office) = Some ''PASS''"
    unfolding c using v by (simp add: t lone_office_parts(2-4) in_period_def sample_txn_def)
  moreover have d: "t_date (sample_txn 3 INTERNAL 500 ''REF1'' 10) = 10" by (simp add: sample_txn_def)
  have "\<not> accounted_for lone_office (sample_txn 3 INTERNAL 500 ''REF1'' 10)"
    by (simp add: accounted_for_def t lone_office_parts(2) covered_txns_def sample_txn_def)
  then have "rp_verdict (audit_compliance sample_sha (\<lambda>_. []) 0 10 15 lone_office) \<noteq> Some ''PASS''"
    unfolding c using d by (auto simp: t in_period_def)
  ultimately show ?thesis using verdict_cases[of sample_sha "\<lambda>_. []" 0 10 15 lone_office] by simp
qed

text \<open>The verdict looks at exceptions created in the period only: one created before it, long
  past its deadline and never escalated, does not keep the report from passing.\<close>

definition overdue_office :: "exc \<Rightarrow> office" where
  "overdue_office x = empty_office\<lparr>of_desk := empty_desk\<lparr>dk_world := (dk_world empty_desk)\<lparr>w_excs := [x]\<rparr>\<rparr>\<rparr>"

lemma older_overdue_passes:
  assumes "date_of (x_created x) < a" "x_status x = OPEN" "x_breached x = None" "x_deadline x < now"
  shows "rp_verdict (audit_compliance sha detail now a b (overdue_office x)) = Some ''PASS''"
  using assms
  by (simp add: audit_compliance_def Let_def failures_of_def audit_figures_of_def count_if_def overdue_office_def office_db_def
      office_excs_def in_period_def tampered_files_def file_count_def chains_intact_def verify_all_chains_def
      empty_office_def empty_desk_def empty_db_def)

end
