(* ===== verification/Uploads.thy ===== *)
theory Uploads
  imports Backlog Access
begin

text \<open>
  File uploads (\<open>api/v1/upload.py\<close>, \<open>ingestion/upload.py\<close>) over the office and the upload
  directory, with the file endpoints (\<open>api/v1/files.py\<close>) and the alert endpoints
  (\<open>api/v1/anomalies.py\<close>). The directory maps paths to bytes. How bytes decode (text, element
  tree) is a parameter, as are the digest, the clock readings and the random ids; names are
  ASCII. A handler returns its answer with the office and the directory it leaves.
\<close>

section \<open>Names\<close>

definition forward_slashes :: "string \<Rightarrow> string" where
  "forward_slashes s = map (\<lambda>c. if c = CHR 0x5C then CHR ''/'' else c) s"

text \<open>\<open>PurePosixPath(s).name\<close>: the last component that is neither empty nor a single dot.\<close>

definition path_name :: "string \<Rightarrow> string" where
  "path_name s = (let ps = filter (\<lambda>p. p \<noteq> [] \<and> p \<noteq> ''.'') (PyFormat.split_on CHR ''/'' s) in if ps = [] then [] else last ps)"

definition forbidden_name_char :: "char \<Rightarrow> bool" where
  "forbidden_name_char c = (c \<in> {CHR ''<'', CHR ''>'', CHR '':'', CHR 0x22, CHR ''|'', CHR ''?'', CHR ''*''})"

definition printable :: "char \<Rightarrow> bool" where
  "printable c = (32 \<le> code c \<and> code c < 127)"

definition blank_or_dot :: "char \<Rightarrow> bool" where
  "blank_or_dot c = (c = CHR '' '' \<or> c = CHR ''.'')"

definition strip_chars :: "(char \<Rightarrow> bool) \<Rightarrow> string \<Rightarrow> string" where
  "strip_chars P s = rev (dropWhile P (rev (dropWhile P s)))"

definition max_name_length :: nat where "max_name_length = 200"

definition safe_display_name :: "string option \<Rightarrow> string" where
  "safe_display_name raw =
     (let base = path_name (forward_slashes (case raw of None \<Rightarrow> [] | Some s \<Rightarrow> s));
          cleaned = filter (\<lambda>c. printable c \<and> \<not> forbidden_name_char c) base;
          name = take max_name_length (strip_chars blank_or_dot cleaned)
      in if name = [] then ''upload'' else name)"

text \<open>\<open>PurePosixPath.suffix\<close>: from the last dot, unless it starts or ends the name.\<close>

definition path_suffix :: "string \<Rightarrow> string" where
  "path_suffix name =
     (let ext = rev (takeWhile (\<lambda>c. c \<noteq> CHR ''.'') (rev name)); i = length name - length ext in
      if 1 < i \<and> i < length name then CHR ''.'' # ext else [])"

definition extension_of :: "string \<Rightarrow> string" where
  "extension_of name = to_lower (path_suffix (path_name (forward_slashes name)))"

definition allowed_extensions :: "source_format \<Rightarrow> string list" where
  "allowed_extensions fmt =
     (case fmt of CSV \<Rightarrow> [''.csv''] | MT940 \<Rightarrow> [''.sta'', ''.mt940'', ''.txt''] | CAMT053 \<Rightarrow> [''.xml''] | INTERNAL_LEDGER \<Rightarrow> [])"

section \<open>Saving the stream\<close>

type_synonym directory = "string \<Rightarrow> string option"

record saved_upload =
  sv_path :: string
  sv_size :: nat
  sv_digest :: string

definition max_upload_bytes :: nat where "max_upload_bytes = 50 * 1024 * 1024"

text \<open>The chunks as the reads return them; an empty one is the end of the stream.\<close>

fun read_chunks :: "nat \<Rightarrow> string \<Rightarrow> string list \<Rightarrow> string res" where
  "read_chunks cap acc [] = Inr acc"
| "read_chunks cap acc (c # cs) =
     (if c = [] then Inr acc
      else if cap < length acc + length c then Inl (HttpError 413)
      else read_chunks cap (acc @ c) cs)"

text \<open>The \<open>except\<close> branch removes the path whatever failed, the exclusive opening included.\<close>

definition save_stream ::
    "(string \<Rightarrow> string) \<Rightarrow> nat \<Rightarrow> string \<Rightarrow> nat \<Rightarrow> string \<Rightarrow> string list \<Rightarrow> directory \<Rightarrow> saved_upload res \<times> directory" where
  "save_stream sha cap dir uuid ext chunks disk =
     (let path = dir @ CHR ''/'' # hex_str 32 uuid @ ext in
      if disk path \<noteq> None then (Inl OSErr, disk(path := None))
      else case read_chunks cap [] chunks of
        Inl e \<Rightarrow> (Inl e, disk(path := None))
      | Inr bytes \<Rightarrow>
          if bytes = [] then (Inl (HttpError 422), disk(path := None))
          else (Inr \<lparr>sv_path = path, sv_size = length bytes, sv_digest = sha bytes\<rparr>, disk(path \<mapsto> bytes)))"

section \<open>The handler\<close>

text \<open>What the handler is wired to: the bank configurations, the pipeline and the run
  services, the directory, and how the bytes of a file decode.\<close>

record upload_site =
  ul_banks :: "string \<Rightarrow> bank_config option"
  ul_pipeline :: pipeline
  ul_services :: services
  ul_dir :: string
  ul_csv :: "string \<Rightarrow> string option"
  ul_text :: "string \<Rightarrow> string option"
  ul_xml :: "string \<Rightarrow> xml option"

record upload_request =
  uq_bank :: string
  uq_source :: side
  uq_format :: source_format
  uq_filename :: "string option"
  uq_chunks :: "string list"
  uq_auto :: bool

text \<open>The random ids and clock readings of a request.\<close>

record upload_draw =
  ud_name :: nat
  ud_fresh :: fresh_ids
  ud_arrived :: instant
  ud_now :: instant
  ud_run :: tick

record upload_out =
  uu_file :: nat
  uu_name :: string
  uu_size :: nat
  uu_sha :: string
  uu_outcome :: upload_outcome
  uu_run :: "nat option"

definition validate_target :: "upload_site \<Rightarrow> upload_request \<Rightarrow> (bank_config \<times> string) res" where
  "validate_target site rq =
     (case ul_banks site (uq_bank rq) of
        None \<Rightarrow> Inl (HttpError 422)
      | Some b \<Rightarrow>
          if format_text (uq_format rq) \<notin> set (bk_formats b) then Inl (HttpError 422)
          else let ext = extension_of (case uq_filename rq of None \<Rightarrow> [] | Some s \<Rightarrow> s) in
            if ext \<notin> set (allowed_extensions (uq_format rq)) then Inl (HttpError 422) else Inr (b, ext))"

definition disk_file_of :: "upload_site \<Rightarrow> saved_upload \<Rightarrow> string \<Rightarrow> disk_file" where
  "disk_file_of site saved bytes =
     \<lparr>df_path = sv_path saved, df_name = path_name (sv_path saved), df_csv = ul_csv site bytes, df_text = ul_text site bytes,
      df_xml = ul_xml site bytes, df_sha = sv_digest saved, df_size = sv_size saved\<rparr>"

text \<open>The subclasses of \<open>ValueError\<close> among the errors.\<close>

definition value_error :: "error \<Rightarrow> bool" where
  "value_error e =
     (e \<in> {ValueError, UnknownCurrencyError, NormalisationError, ValidationError, ClaimConflictError, AuditError, AuditTimestampError,
           MT940ParseError, ConfigError, IdempotencyConflictError, TransactionNotFoundError, InvalidPairError,
           TransactionUnavailableError, MatchNotUnmatchableError, TimestampNormalisationError, DirectionNormalisationError,
           CurrencyNormalisationError, AmountNormalisationError, CSVParseError, MT940LexError, Field61ParseError,
           CAMT053ParseError, FormatChangeDetectedError, UnsupportedFormatError, DuplicateFileError, AnomalyConfigError,
           UnicodeDecodeErr, DuplicateBankCodeError})"

text \<open>The change the header check raised with.\<close>

definition header_change :: "disk_file \<Rightarrow> bank_config \<Rightarrow> format_change option" where
  "header_change df b =
     (case df_csv df of None \<Rightarrow> None
      | Some t \<Rightarrow> (case read_header t b of Inl _ \<Rightarrow> None | Inr h \<Rightarrow> Some (compare_header b h)))"

definition upload_failure ::
    "upload_site \<Rightarrow> upload_request \<Rightarrow> bank_config \<Rightarrow> disk_file \<Rightarrow> string \<Rightarrow> instant \<Rightarrow> error \<Rightarrow> office \<Rightarrow> error \<times> office" where
  "upload_failure site rq b df display now e o1 =
     (if e = IntegrityError \<or> e = DuplicateFileError then (HttpError 409, o1)
      else if e = FormatChangeDetectedError then
        (HttpError 422,
         (case header_change df b of
            None \<Rightarrow> o1
          | Some c \<Rightarrow> o1\<lparr>of_desk := snd (format_change_alert (pl_monitor (ul_pipeline site)) (uq_bank rq) display c True now (of_desk o1))\<rparr>))
      else if value_error e then (HttpError 422, o1)
      else (e, o1))"

definition ingest_request :: "string \<Rightarrow> string \<Rightarrow> nat \<Rightarrow> run_request" where
  "ingest_request bank by fid =
     \<lparr>rq_bank = bank, rq_key = ''ingest:'' @ uuid_str fid, rq_by = by, rq_mode = ''FAST'', rq_from = None, rq_to = None, rq_defer = False\<rparr>"

text \<open>Each commit is in the office that comes with an error.\<close>

definition reconcile_now ::
    "upload_site \<Rightarrow> principal \<Rightarrow> string \<Rightarrow> nat \<Rightarrow> tick \<Rightarrow> office \<Rightarrow> nat option res \<times> office" where
  "reconcile_now site p bank fid t o1 =
     (let sv = ul_services site in
      case start_run sv (of_runs o1) (ingest_request bank (pr_name p) fid) (tk_id t) (tk_start t) o1 of
        Inl e \<Rightarrow> (if e = RunAlreadyActiveError then Inr None else Inl e, o1)
      | Inr ((i, created), o2) \<Rightarrow>
          if \<not> created then (Inr (Some i), o2)
          else (case execute_tick sv i t o2 of Inl e \<Rightarrow> (Inl e, o2) | Inr o3 \<Rightarrow> (Inr (Some i), o3)))"

definition upload_pipeline :: "upload_site \<Rightarrow> principal \<Rightarrow> pipeline" where
  "upload_pipeline site p = (ul_pipeline site)\<lparr>pl_actor := api_key_actor (pr_name p)\<rparr>"

definition answer_upload ::
    "upload_site \<Rightarrow> principal \<Rightarrow> upload_request \<Rightarrow> upload_draw \<Rightarrow> saved_upload \<Rightarrow> string \<Rightarrow> upload_outcome \<Rightarrow> office
     \<Rightarrow> upload_out res \<times> office" where
  "answer_upload site p rq dr saved display out o1 =
     (case (if uq_auto rq then reconcile_now site p (uq_bank rq) (uo_file out) (ud_run dr) o1 else (Inr None, o1)) of
        (Inl e, o2) \<Rightarrow> (Inl e, o2)
      | (Inr run, o2) \<Rightarrow>
          (Inr \<lparr>uu_file = uo_file out, uu_name = display, uu_size = sv_size saved, uu_sha = sv_digest saved,
                uu_outcome = out, uu_run = run\<rparr>, o2))"

definition bytes_at :: "directory \<Rightarrow> string \<Rightarrow> string" where
  "bytes_at disk path = (case disk path of None \<Rightarrow> [] | Some b \<Rightarrow> b)"

definition upload_saved ::
    "upload_site \<Rightarrow> principal \<Rightarrow> upload_request \<Rightarrow> upload_draw \<Rightarrow> bank_config \<Rightarrow> saved_upload \<Rightarrow> office \<Rightarrow> directory
     \<Rightarrow> upload_out res \<times> office \<times> directory" where
  "upload_saved site p rq dr b saved o1 disk =
     (let gone = disk(sv_path saved := None);
          display = safe_display_name (uq_filename rq);
          df = disk_file_of site saved (bytes_at disk (sv_path saved))
      in if sv_digest saved \<in> if_sha ` set (dk_files (of_desk o1)) then (Inl (HttpError 409), o1, gone)
         else case process_file (upload_pipeline site p) (ud_arrived dr) (ud_fresh dr) df display b (uq_format rq) (uq_source rq)
                     (ud_now dr) (of_desk o1) of
           Inl e \<Rightarrow> (case upload_failure site rq b df display (ud_now dr) e o1 of (e', o2) \<Rightarrow> (Inl e', o2, gone))
         | Inr (out, d) \<Rightarrow>
             (case answer_upload site p rq dr saved display out (o1\<lparr>of_desk := d\<rparr>) of (r, o2) \<Rightarrow> (r, o2, disk)))"

definition upload_file ::
    "upload_site \<Rightarrow> principal \<Rightarrow> upload_request \<Rightarrow> upload_draw \<Rightarrow> office \<Rightarrow> directory \<Rightarrow> upload_out res \<times> office \<times> directory" where
  "upload_file site p rq dr o1 disk =
     (case bind_res (require_role ANALYST p) (\<lambda>_. validate_target site rq) of
        Inl e \<Rightarrow> (Inl e, o1, disk)
      | Inr (b, ext) \<Rightarrow>
          (case save_stream (ce_sha (pl_classifier (ul_pipeline site))) max_upload_bytes (ul_dir site) (ud_name dr) ext (uq_chunks rq) disk of
             (Inl e, disk') \<Rightarrow> (Inl e, o1, disk')
           | (Inr saved, disk') \<Rightarrow> upload_saved site p rq dr b saved o1 disk'))"

section \<open>Files\<close>

definition file_filter :: "string option \<Rightarrow> side option \<Rightarrow> source_format option \<Rightarrow> file_status option \<Rightarrow> ingest_file \<Rightarrow> bool" where
  "file_filter bank src fmt status f =
     (wanted bank (if_bank f) \<and> (case src of None \<Rightarrow> True | Some s \<Rightarrow> if_source f = Some s) \<and> wanted fmt (if_format f)
      \<and> wanted status (if_status f))"

definition list_files ::
    "string option \<Rightarrow> side option \<Rightarrow> source_format option \<Rightarrow> file_status option \<Rightarrow> nat \<Rightarrow> nat \<Rightarrow> desk \<Rightarrow> ingest_file page" where
  "list_files bank src fmt status limit offset d =
     page_of limit offset (sort_key (\<lambda>f. (- if_at f, if_id f)) (filter (file_filter bank src fmt status) (dk_files d)))"

definition get_file :: "nat \<Rightarrow> desk \<Rightarrow> ingest_file res" where
  "get_file i d = (case find_file i d of None \<Rightarrow> Inl (HttpError 404) | Some f \<Rightarrow> Inr f)"

definition digests :: "(string \<Rightarrow> string) \<Rightarrow> directory \<Rightarrow> string \<Rightarrow> string option" where
  "digests sha disk path = map_option sha (disk path)"

definition verify_all_endpoint ::
    "(string \<Rightarrow> string) \<Rightarrow> directory \<Rightarrow> principal \<Rightarrow> instant \<Rightarrow> desk \<Rightarrow> (integrity list \<times> desk) res" where
  "verify_all_endpoint sha disk p now d =
     bind_res (require_role ADMIN p) (\<lambda>_. verify_all_files sha (digests sha disk) (api_key_actor (pr_name p)) now d)"

definition verify_file_endpoint ::
    "(string \<Rightarrow> string) \<Rightarrow> directory \<Rightarrow> principal \<Rightarrow> nat \<Rightarrow> instant \<Rightarrow> desk \<Rightarrow> (integrity \<times> desk) res" where
  "verify_file_endpoint sha disk p i now d =
     bind_res (require_role ANALYST p) (\<lambda>_.
       (case find_file i d of
          None \<Rightarrow> Inl (HttpError 404)
        | Some f \<Rightarrow>
            (case verify_file sha (digests sha disk) (api_key_actor (pr_name p)) now f d of
               Inl e \<Rightarrow> Inl (if value_error e then HttpError 409 else e)
             | Inr x \<Rightarrow> Inr x)))"

section \<open>Alerts\<close>

definition alerts_chain :: string where "alerts_chain = ''alerts''"

definition alert_filter ::
    "alert_type option \<Rightarrow> severity option \<Rightarrow> alert_status option \<Rightarrow> string option \<Rightarrow> route_to option \<Rightarrow> alert \<Rightarrow> bool" where
  "alert_filter ty sev status bank to a =
     (wanted ty (ad_type a) \<and> wanted sev (ad_severity a) \<and> wanted status (al_status a)
      \<and> (case bank of None \<Rightarrow> True | Some b \<Rightarrow> ad_bank a = Some b) \<and> wanted to (ad_route a))"

definition list_alerts ::
    "alert_type option \<Rightarrow> severity option \<Rightarrow> alert_status option \<Rightarrow> string option \<Rightarrow> route_to option \<Rightarrow> nat \<Rightarrow> nat \<Rightarrow> desk
     \<Rightarrow> alert page" where
  "list_alerts ty sev status bank to limit offset d =
     page_of limit offset (sort_key (\<lambda>a. (- al_at a, al_id a)) (filter (alert_filter ty sev status bank to) (dk_alerts d)))"

definition find_alert :: "nat \<Rightarrow> desk \<Rightarrow> alert option" where
  "find_alert i d = find (\<lambda>a. al_id a = i) (dk_alerts d)"

definition acknowledged :: "nat \<Rightarrow> string \<Rightarrow> instant \<Rightarrow> alert \<Rightarrow> alert" where
  "acknowledged i by now a =
     (if al_id a = i then a\<lparr>al_status := ACKNOWLEDGED, al_ack_at := Some now, al_ack_by := Some by\<rparr> else a)"

definition acknowledge_alert ::
    "(string \<Rightarrow> string) \<Rightarrow> principal \<Rightarrow> nat \<Rightarrow> string option \<Rightarrow> instant \<Rightarrow> desk \<Rightarrow> desk res" where
  "acknowledge_alert sha p i note now d =
     bind_res (require_role ANALYST p) (\<lambda>_.
     bind_res (body_note 2000 note) (\<lambda>n.
       (case find_alert i d of
          None \<Rightarrow> Inl (HttpError 404)
        | Some a \<Rightarrow>
            if al_status a = ACKNOWLEDGED then Inl (HttpError 409)
            else desk_audit sha alerts_chain ''USER'' (api_key_actor (pr_name p)) RESOLVE
                   (JObj [(''alert_id'', id_json i), (''alert_type'', JStr (alert_type_text (ad_type a)))])
                   (note_or ''acknowledged'' n) now (JObj [(''status'', JStr ''OPEN'')]) (JObj [(''status'', JStr ''ACKNOWLEDGED'')])
                   (d\<lparr>dk_alerts := map (acknowledged i (pr_name p) now) (dk_alerts d)\<rparr>))))"

definition scan_for_absence :: "monitor \<Rightarrow> principal \<Rightarrow> instant \<Rightarrow> desk \<Rightarrow> (nat \<times> desk) res" where
  "scan_for_absence mo p now d =
     bind_res (require_role ANALYST p) (\<lambda>_. bind_res (check_absence mo now d) (\<lambda>(raised, d'). Inr (raised_count raised, d')))"

section \<open>The name shown is harmless\<close>

lemma strip_chars_ends:
  "strip_chars P s = [] \<or> \<not> P (hd (strip_chars P s)) \<and> \<not> P (last (strip_chars P s))"
proof (cases "strip_chars P s = []")
  case False
  define t where "t = dropWhile P s"
  have ne: "dropWhile P (rev t) \<noteq> []" using False by (simp add: strip_chars_def t_def)
  then have "t \<noteq> []" by auto
  have h: "\<not> P (hd t)" using \<open>t \<noteq> []\<close> hd_dropWhile unfolding t_def by blast
  have l: "\<not> P (hd (dropWhile P (rev t)))" by (rule hd_dropWhile[OF ne])
  obtain u where "rev t = u @ dropWhile P (rev t)" by (metis takeWhile_dropWhile_id)
  then have "t = rev (dropWhile P (rev t)) @ rev u" by (metis rev_append rev_rev_ident)
  then have "hd t = hd (rev (dropWhile P (rev t)))" using ne by (metis hd_append2 rev_is_Nil_conv)
  then show ?thesis using h l ne by (simp add: strip_chars_def t_def[symmetric] last_rev)
qed simp

lemma strip_chars_set: "set (strip_chars P s) \<subseteq> set s"
  unfolding strip_chars_def by (metis set_dropWhileD set_rev subsetI)

lemma path_name_no_slash: "CHR ''/'' \<notin> set (path_name s)"
proof -
  have "CHR ''/'' \<notin> set p" if "p \<in> set (PyFormat.split_on CHR ''/'' s)" for p
    using that by (induction "CHR ''/''" s arbitrary: p rule: PyFormat.split_on.induct) (auto split: list.splits if_splits)
  moreover define ps where "ps = filter (\<lambda>p. p \<noteq> [] \<and> p \<noteq> ''.'') (PyFormat.split_on CHR ''/'' s)"
  moreover have "ps \<noteq> [] \<Longrightarrow> last ps \<in> set (PyFormat.split_on CHR ''/'' s)" using last_in_set[of ps] by (auto simp: ps_def)
  ultimately show ?thesis by (auto simp: path_name_def Let_def)
qed

lemma display_name_safe:
  "safe_display_name raw \<noteq> [] \<and> length (safe_display_name raw) \<le> 200
   \<and> list_all (\<lambda>c. printable c \<and> \<not> forbidden_name_char c \<and> c \<noteq> CHR ''/'') (safe_display_name raw)
   \<and> \<not> blank_or_dot (hd (safe_display_name raw))"
proof -
  define base where "base = path_name (forward_slashes (case raw of None \<Rightarrow> [] | Some s \<Rightarrow> s))"
  define cleaned where "cleaned = filter (\<lambda>c. printable c \<and> \<not> forbidden_name_char c) base"
  define name where "name = take max_name_length (strip_chars blank_or_dot cleaned)"
  have n: "safe_display_name raw = (if name = [] then ''upload'' else name)"
    by (simp add: safe_display_name_def base_def cleaned_def name_def Let_def)
  have "set name \<subseteq> set cleaned" using strip_chars_set set_take_subset unfolding name_def by fast
  moreover have "CHR ''/'' \<notin> set base" unfolding base_def by (rule path_name_no_slash)
  ultimately have a: "\<forall>c \<in> set name. printable c \<and> \<not> forbidden_name_char c \<and> c \<noteq> CHR ''/''" unfolding cleaned_def by auto
  have h: "name \<noteq> [] \<Longrightarrow> \<not> blank_or_dot (hd name)"
    using strip_chars_ends[of blank_or_dot cleaned] by (auto simp: name_def max_name_length_def)
  show ?thesis
    using a h by (auto simp: n name_def max_name_length_def list_all_iff printable_def forbidden_name_char_def blank_or_dot_def code_def)
qed

section \<open>Bytes and rows stay together\<close>

definition file_keys :: "desk \<Rightarrow> (nat \<times> string option \<times> string) list" where
  "file_keys d = map (\<lambda>f. (if_id f, if_path f, if_sha f)) (dk_files d)"

text \<open>Every stored file that has a path is on disk with the bytes of its digest.\<close>

definition stored_well :: "(string \<Rightarrow> string) \<Rightarrow> desk \<Rightarrow> directory \<Rightarrow> bool" where
  "stored_well sha d disk =
     list_all (\<lambda>(_, path, digest). case path of None \<Rightarrow> True | Some p \<Rightarrow> map_option sha (disk p) = Some digest) (file_keys d)"

lemma keys_world [simp]: "file_keys (d\<lparr>dk_world := w\<rparr>) = file_keys d" "file_keys (d\<lparr>dk_alerts := as\<rparr>) = file_keys d"
  "file_keys (d\<lparr>dk_stats := st\<rparr>) = file_keys d" "file_keys (d\<lparr>dk_raws := rs\<rparr>) = file_keys d" "file_keys (d\<lparr>dk_balances := bs\<rparr>) = file_keys d"
  by (simp_all add: file_keys_def)

lemma keys_on_db: "on_db f d = Inr (x, d') \<Longrightarrow> file_keys d' = file_keys d"
  by (auto dest!: on_db_world)

lemma keys_on_world: "on_world f d = Inr (x, d') \<Longrightarrow> file_keys d' = file_keys d"
  by (auto simp: on_world_def res_iff)

lemma keys_alerted: "alerted d n d' \<Longrightarrow> file_keys d' = file_keys d"
  by (auto simp: alerted_def)

lemma keys_audit: "desk_audit sha chain atype actor action aff why now bef aft d = Inr d' \<Longrightarrow> file_keys d' = file_keys d"
  by (auto dest!: desk_audit_shape)

lemma keys_raise: "raise_alerts drafts now d = (r, d') \<Longrightarrow> file_keys d' = file_keys d"
  by (rule keys_alerted[OF alerted_raise])

lemma keys_set: "(\<And>f. (if_id (g f), if_path (g f), if_sha (g f)) = (if_id f, if_path f, if_sha f)) \<Longrightarrow> file_keys (set_file i g d) = file_keys d"
  by (simp add: file_keys_def set_file_def)

lemma keys_scan: "scan_ingestion_file mo fid now d = Inr (out, d') \<Longrightarrow> file_keys d' = file_keys d"
proof -
  assume a: "scan_ingestion_file mo fid now d = Inr (out, d')"
  then obtain f where f: "find_file fid d = Some f" by (auto simp: scan_ingestion_file_def split: option.splits)
  show ?thesis
  proof (cases "if_scanned f")
    case None
    define n where "n = length (scanned_txns fid (w_db (dk_world d)))"
    obtain drafts stats where l: "(case raise_alerts drafts now (set_file fid (\<lambda>g. g\<lparr>if_scanned := Some now\<rparr>) (d\<lparr>dk_stats := stats\<rparr>)) of
          (r, e) \<Rightarrow> (Inr (\<lparr>sf_alerts = raised_count r, sf_by_type = r, sf_scanned = n, sf_already = False\<rparr>, e) :: (scan_outcome_file \<times> desk) res))
        = Inr (out, d')"
      using a f None by (simp add: scan_ingestion_file_def Let_def res_iff n_def[symmetric]) blast
    obtain r e where r: "raise_alerts drafts now (set_file fid (\<lambda>g. g\<lparr>if_scanned := Some now\<rparr>) (d\<lparr>dk_stats := stats\<rparr>)) = (r, e)"
      by fastforce
    have "d' = e" using l by (simp add: r)
    then show ?thesis using keys_raise[OF r] by (simp add: keys_set)
  next
    case (Some t)
    then show ?thesis using a f by (auto simp: scan_ingestion_file_def)
  qed
qed

lemma keys_process:
  assumes "process_file pl arrived fr df display b fmt src now d = Inr (out, d')" "fr_file fr \<notin> if_id ` set (dk_files d)"
  shows "file_keys d' = file_keys d @ [(fr_file fr, Some (df_path df), df_sha df)] \<and> df_sha df \<notin> if_sha ` set (dk_files d)"
proof -
  obtain r d1 d2 n failed d3 cl d4 scan d5 f5 k d6 dup d7 d8 where st:
    "ingest_file_at (nm_table (pl_normaliser pl)) (pl_actor pl) arrived fr df b fmt d = Inr (r, d1)"
    "d2 = set_file (ir_file r) (\<lambda>f. f\<lparr>if_name := display, if_source := Some src, if_path := Some (df_path df)\<rparr>) d1"
    "on_db (normalise_ingestion_file (pl_normaliser pl) (dk_raws d2) (ir_file r) b fmt src (fr_txns fr)) d2 = Inr ((n, failed), d3)"
    "on_world (classify_ingestion_file (desk_classifier (pl_classifier pl) d3) (ir_file r) now) d3 = Inr (cl, d4)"
    "scan_ingestion_file (pl_monitor pl) (ir_file r) now d4 = Inr (scan, d5)"
    "ingestion_alerts (pl_monitor pl) f5 r now d5 = (k, d6)"
    "(if src = EXTERNAL then check_settlement_uniqueness (pl_monitor pl) (ir_file r) now d6 else Inr ([], d6)) = Inr (dup, d7)"
    "\<exists>aff why bef aft. desk_audit (ce_sha (pl_classifier pl)) ingestion_chain ''USER'' (pl_actor pl) INGEST aff why now bef aft d7 = Inr d8"
    "\<exists>aff why bef aft. desk_audit (ce_sha (pl_classifier pl)) ingestion_chain ''USER'' (pl_actor pl) NORMALISE aff why now bef aft d8 = Inr d'"
    by (rule process_steps[OF assms(1)])
  obtain f raws bal where i: "df_sha df \<notin> if_sha ` set (dk_files d)"
    "d1 = d\<lparr>dk_files := dk_files d @ [f], dk_raws := raws, dk_balances := bal\<rparr>"
    "if_id f = fr_file fr" "if_sha f = df_sha df" "ir_file r = fr_file fr"
    by (rule ingest_shape[OF st(1) assms(2)]) blast
  have "file_keys d2 = file_keys d @ [(fr_file fr, Some (df_path df), df_sha df)]"
    using set_file_last[of d1 "dk_files d" f] assms(2) i by (simp add: st(2) file_keys_def)
  moreover have "file_keys d7 = file_keys d6"
    using st(7) keys_alerted[OF settlement_add] by (auto split: if_splits)
  moreover have "file_keys d6 = file_keys d5" by (rule keys_alerted[OF ingestion_alerts_add[OF st(6)]])
  moreover have "file_keys d' = file_keys d7" using st(8,9) keys_audit by metis
  ultimately show ?thesis using keys_on_db[OF st(3)] keys_on_world[OF st(4)] keys_scan[OF st(5)] i(1) by simp
qed

text \<open>Starting and executing a run touches no file.\<close>

lemma keys_audit_state: "audit_state sv run before after why now m d = Inr d' \<Longrightarrow> file_keys d' = file_keys d"
  by (auto simp: audit_state_def Let_def dest: keys_audit)

lemma keys_start: "start_run sv seen rq i now o1 = Inr (x, o2) \<Longrightarrow> file_keys (of_desk o2) = file_keys (of_desk o1)"
  by (auto simp: start_run_def Let_def res_iff split: if_splits option.splits insertion.splits dest: keys_audit_state)

lemma keys_finish: "finish_run sv i status m e ended o1 = Inr o2 \<Longrightarrow> file_keys (of_desk o2) = file_keys (of_desk o1)"
  by (auto simp: finish_run_def res_iff split: option.splits dest: keys_audit_state)

lemma keys_work: "run_work sv rg run now o1 = Inr (x, o2) \<Longrightarrow> file_keys (of_desk o2) = file_keys (of_desk o1)"
  by (auto simp: run_work_def Let_def res_iff)

lemma keys_execute: "execute_run sv rg i now ended took o1 = Inr o2 \<Longrightarrow> file_keys (of_desk o2) = file_keys (of_desk o1)"
  by (auto simp: execute_run_def carry_out_def evaluate_run_def Let_def res_iff split: option.splits if_splits sum.splits
      dest!: keys_finish keys_work keys_raise)

lemma keys_reconcile: "reconcile_now site p bank fid t o1 = (r, o2) \<Longrightarrow> file_keys (of_desk o2) = file_keys (of_desk o1)"
  by (auto simp: reconcile_now_def Let_def execute_tick_def split: sum.splits prod.splits if_splits dest!: keys_start keys_execute)

lemma keys_answer: "answer_upload site p rq dr saved display out o1 = (r, o2) \<Longrightarrow> file_keys (of_desk o2) = file_keys (of_desk o1)"
  by (auto simp: answer_upload_def split: sum.splits prod.splits if_splits dest: keys_reconcile)

section \<open>An upload is kept or leaves no trace\<close>

definition upload_bytes :: "upload_request \<Rightarrow> string" where
  "upload_bytes rq = concat (takeWhile (\<lambda>c. c \<noteq> []) (uq_chunks rq))"

lemma read_chunks_all:
  "length acc \<le> cap \<Longrightarrow> read_chunks cap acc cs =
     (let bytes = acc @ concat (takeWhile (\<lambda>c. c \<noteq> []) cs) in if length bytes \<le> cap then Inr bytes else Inl (HttpError 413))"
  by (induction cs arbitrary: acc) (auto simp: Let_def)

text \<open>The name drawn is not in use.\<close>

definition fresh_name :: "upload_site \<Rightarrow> upload_draw \<Rightarrow> directory \<Rightarrow> bool" where
  "fresh_name site dr disk = (\<forall>ext. disk (ul_dir site @ CHR ''/'' # hex_str 32 (ud_name dr) @ ext) = None)"

definition site_sha :: "upload_site \<Rightarrow> string \<Rightarrow> string" where
  "site_sha site = ce_sha (pl_classifier (ul_pipeline site))"

lemma save_stream_cases:
  assumes "save_stream sha cap dir uuid ext (uq_chunks rq) disk = (r, disk')" "disk (dir @ CHR ''/'' # hex_str 32 uuid @ ext) = None"
  shows "(\<exists>e. r = Inl e \<and> disk' = disk)
    \<or> (\<exists>saved. r = Inr saved \<and> disk (sv_path saved) = None \<and> disk' = disk(sv_path saved \<mapsto> upload_bytes rq)
        \<and> sv_digest saved = sha (upload_bytes rq) \<and> 0 < length (upload_bytes rq) \<and> length (upload_bytes rq) \<le> cap)"
  using assms by (auto simp: save_stream_def Let_def read_chunks_all upload_bytes_def split: if_splits)

definition upload_dropped :: "office \<Rightarrow> directory \<Rightarrow> upload_out res \<times> office \<times> directory \<Rightarrow> bool" where
  "upload_dropped o1 disk res =
     (\<exists>e new. res = (Inl e, o1\<lparr>of_desk := (of_desk o1)\<lparr>dk_alerts := dk_alerts (of_desk o1) @ new\<rparr>\<rparr>, disk) \<and> (new \<noteq> [] \<longrightarrow> e = HttpError 422))"

definition upload_kept :: "upload_site \<Rightarrow> upload_request \<Rightarrow> upload_draw \<Rightarrow> office \<Rightarrow> directory \<Rightarrow> office \<Rightarrow> directory \<Rightarrow> bool" where
  "upload_kept site rq dr o1 disk o2 disk' =
     (\<exists>path. disk path = None \<and> disk' = disk(path \<mapsto> upload_bytes rq)
        \<and> 0 < length (upload_bytes rq) \<and> length (upload_bytes rq) \<le> max_upload_bytes
        \<and> site_sha site (upload_bytes rq) \<notin> if_sha ` set (dk_files (of_desk o1))
        \<and> file_keys (of_desk o2) = file_keys (of_desk o1) @ [(fr_file (ud_fresh dr), Some path, site_sha site (upload_bytes rq))])"

lemma upload_dropped_refl: "upload_dropped o1 disk (Inl e, o1, disk)"
  unfolding upload_dropped_def by (rule exI[of _ e], rule exI[of _ "[]"]) simp

lemma upload_failure_drops:
  assumes "upload_failure site rq b df display now e o1 = (e', o2)"
  shows "upload_dropped o1 disk (Inl e', o2, disk)"
proof -
  have a: "\<exists>new. snd (format_change_alert mo bank name c True now d) = d\<lparr>dk_alerts := dk_alerts d @ new\<rparr>" for mo bank name c d
    unfolding format_change_alert_def using alerted_raise by (metis alerted_def prod.collapse)
  show ?thesis
  proof (cases "o2 = o1")
    case True
    then show ?thesis by (simp add: upload_dropped_refl)
  next
    case False
    then obtain c where "e' = HttpError 422" "o2 = o1\<lparr>of_desk := snd (format_change_alert (pl_monitor (ul_pipeline site)) (uq_bank rq) display c True now (of_desk o1))\<rparr>"
      using assms by (auto simp: upload_failure_def split: if_splits option.splits)
    moreover obtain new where "snd (format_change_alert (pl_monitor (ul_pipeline site)) (uq_bank rq) display c True now (of_desk o1))
        = (of_desk o1)\<lparr>dk_alerts := dk_alerts (of_desk o1) @ new\<rparr>" using a by blast
    ultimately show ?thesis unfolding upload_dropped_def by (intro exI[of _ e'] exI[of _ new]) simp
  qed
qed

lemma upload_saved_cases:
  assumes "upload_saved site p rq dr b saved o1 disk' = (r, o2, disk2)" "fr_file (ud_fresh dr) \<notin> if_id ` set (dk_files (of_desk o1))"
    and s: "disk (sv_path saved) = None" "disk' = disk(sv_path saved \<mapsto> upload_bytes rq)" "sv_digest saved = site_sha site (upload_bytes rq)"
      "0 < length (upload_bytes rq)" "length (upload_bytes rq) \<le> max_upload_bytes"
  shows "upload_dropped o1 disk (r, o2, disk2) \<or> upload_kept site rq dr o1 disk o2 disk2"
proof -
  define df where "df = disk_file_of site saved (bytes_at disk' (sv_path saved))"
  define display where "display = safe_display_name (uq_filename rq)"
  have gone: "disk'(sv_path saved := None) = disk" using s(1,2) by auto
  have df: "df_path df = sv_path saved" "df_sha df = site_sha site (upload_bytes rq)" by (simp_all add: df_def disk_file_of_def s(3))
  show ?thesis
  proof (cases "sv_digest saved \<in> if_sha ` set (dk_files (of_desk o1))")
    case True
    then show ?thesis using assms(1) gone by (auto simp: upload_saved_def Let_def intro: upload_dropped_refl)
  next
    case False
    note u = assms(1)[unfolded upload_saved_def Let_def df_def[symmetric] display_def[symmetric] gone]
    show ?thesis
    proof (cases "process_file (upload_pipeline site p) (ud_arrived dr) (ud_fresh dr) df display b (uq_format rq) (uq_source rq) (ud_now dr) (of_desk o1)")
      case (Inl e)
      then show ?thesis using u False upload_failure_drops[of site rq b df display "ud_now dr" e o1] by (auto split: prod.splits)
    next
      case (Inr x)
      then obtain out d where x: "process_file (upload_pipeline site p) (ud_arrived dr) (ud_fresh dr) df display b (uq_format rq) (uq_source rq) (ud_now dr) (of_desk o1) = Inr (out, d)"
        by (cases x) auto
      obtain r' o' where a: "answer_upload site p rq dr saved display out (o1\<lparr>of_desk := d\<rparr>) = (r', o')" by fastforce
      have e: "o2 = o'" "disk2 = disk'" using u False x a by auto
      have k: "file_keys (of_desk o2) = file_keys (of_desk o1) @ [(fr_file (ud_fresh dr), Some (df_path df), df_sha df)]"
        using keys_process[OF x assms(2)] keys_answer[OF a] by (simp add: e)
      have "upload_kept site rq dr o1 disk o2 disk2"
        unfolding upload_kept_def using k s False df by (intro exI[of _ "sv_path saved"]) (simp add: e)
      then show ?thesis by blast
    qed
  qed
qed

text \<open>A failure of the run that follows the commit keeps the file.\<close>

lemma late_failure_keeps:
  assumes "process_file (upload_pipeline site p) (ud_arrived dr) (ud_fresh dr) (disk_file_of site saved (bytes_at disk (sv_path saved)))
      (safe_display_name (uq_filename rq)) b (uq_format rq) (uq_source rq) (ud_now dr) (of_desk o1) = Inr (out, d)"
    "sv_digest saved \<notin> if_sha ` set (dk_files (of_desk o1))" "uq_auto rq"
    "reconcile_now site p (uq_bank rq) (uo_file out) (ud_run dr) (o1\<lparr>of_desk := d\<rparr>) = (Inl e, o2)"
  shows "upload_saved site p rq dr b saved o1 disk = (Inl e, o2, disk) \<and> file_keys (of_desk o2) = file_keys d"
  using assms keys_reconcile[OF assms(4)] by (simp add: upload_saved_def Let_def answer_upload_def)

lemma stored_well_dropped: "\<lbrakk>upload_dropped o1 disk (r, o2, disk'); stored_well sha (of_desk o1) disk\<rbrakk> \<Longrightarrow> stored_well sha (of_desk o2) disk'"
  by (auto simp: upload_dropped_def stored_well_def)

lemma stored_well_kept:
  assumes "upload_kept site rq dr o1 disk o2 disk'" "stored_well (site_sha site) (of_desk o1) disk"
  shows "stored_well (site_sha site) (of_desk o2) disk'"
proof -
  obtain path where k: "disk path = None" "disk' = disk(path \<mapsto> upload_bytes rq)"
    "file_keys (of_desk o2) = file_keys (of_desk o1) @ [(fr_file (ud_fresh dr), Some path, site_sha site (upload_bytes rq))]"
    using assms(1) unfolding upload_kept_def by blast
  have "case q of None \<Rightarrow> True | Some p \<Rightarrow> map_option (site_sha site) (disk' p) = Some digest"
    if "(i, q, digest) \<in> set (file_keys (of_desk o1))" for i q digest
    using that assms(2) k(1) by (auto simp: stored_well_def list_all_iff k(2) split: option.splits)
  moreover have "map_option (site_sha site) (disk' path) = Some (site_sha site (upload_bytes rq))" by (simp add: k(2))
  ultimately show ?thesis unfolding stored_well_def k(3) list_all_iff by auto
qed

lemma stored_well_verifies:
  assumes "stored_well sha d disk" "f \<in> set (dk_files d)" "verify_file sha' (digests sha disk) actor now f d' = Inr (status, d2)"
  shows "status = INTEGRITY_OK"
proof -
  obtain p where p: "if_path f = Some p" using assms(3) by (auto simp: verify_file_def split: option.splits)
  then have "map_option sha (disk p) = Some (if_sha f)"
    using assms(1,2) by (force simp: stored_well_def file_keys_def list_all_iff)
  then show ?thesis using assms(3) p by (auto simp: verify_file_def digests_def Let_def res_iff split: option.splits)
qed

text \<open>C19. An upload is kept whole or leaves no trace: either one file row is added and the
  directory holds, under a path of its own, exactly the bytes that were sent, within the size
  limit and with a digest no stored file has; or the answer is an error and neither the
  directory nor the office has changed, but for the alert of a refused format. The stored
  files keep the bytes of their digests either way.\<close>

theorem upload_kept_or_dropped:
  assumes "upload_file site p rq dr o1 disk = (r, o2, disk')" "fresh_name site dr disk"
    "fr_file (ud_fresh dr) \<notin> if_id ` set (dk_files (of_desk o1))"
  shows "(upload_dropped o1 disk (r, o2, disk') \<or> upload_kept site rq dr o1 disk o2 disk')
    \<and> (stored_well (site_sha site) (of_desk o1) disk \<longrightarrow> stored_well (site_sha site) (of_desk o2) disk')"
proof -
  have "upload_dropped o1 disk (r, o2, disk') \<or> upload_kept site rq dr o1 disk o2 disk'"
  proof (cases "bind_res (require_role ANALYST p) (\<lambda>_. validate_target site rq)")
    case (Inl e)
    then show ?thesis using assms(1) by (auto simp: upload_file_def intro: upload_dropped_refl)
  next
    case (Inr be)
    then obtain b ext where b: "bind_res (require_role ANALYST p) (\<lambda>_. validate_target site rq) = Inr (b, ext)" by (cases be) auto
    obtain rs d1 where ss: "save_stream (site_sha site) max_upload_bytes (ul_dir site) (ud_name dr) ext (uq_chunks rq) disk = (rs, d1)" by fastforce
    have f: "disk (ul_dir site @ CHR ''/'' # hex_str 32 (ud_name dr) @ ext) = None" using assms(2) by (simp add: fresh_name_def)
    note u = assms(1)[unfolded upload_file_def b, simplified, folded site_sha_def, unfolded ss]
    show ?thesis using save_stream_cases[OF ss f]
    proof (elim disjE exE conjE)
      fix e assume "rs = Inl e" "d1 = disk"
      then show ?thesis using u by (auto intro: upload_dropped_refl)
    next
      fix saved assume s: "rs = Inr saved" "disk (sv_path saved) = None" "d1 = disk(sv_path saved \<mapsto> upload_bytes rq)"
        "sv_digest saved = site_sha site (upload_bytes rq)" "0 < length (upload_bytes rq)" "length (upload_bytes rq) \<le> max_upload_bytes"
      have "upload_saved site p rq dr b saved o1 d1 = (r, o2, disk')" using u s(1) by simp
      from upload_saved_cases[OF this assms(3) s(2-6)] show ?thesis .
    qed
  qed
  then show ?thesis using stored_well_dropped stored_well_kept by blast
qed

definition sample_site :: upload_site where
  "sample_site =
     \<lparr>ul_banks = (\<lambda>_. Some sample_bank), ul_pipeline = sample_pipeline, ul_services = sample_services, ul_dir = ''up'',
      ul_csv = (\<lambda>_. df_csv sample_bytes), ul_text = (\<lambda>_. None), ul_xml = (\<lambda>_. None)\<rparr>"

definition sample_upload :: upload_request where
  "sample_upload =
     \<lparr>uq_bank = ''HDFC'', uq_source = INTERNAL, uq_format = CSV, uq_filename = Some ''a.csv'', uq_chunks = [''Ref'', '',Date''],
      uq_auto = False\<rparr>"

definition sample_draw :: upload_draw where
  "sample_draw =
     \<lparr>ud_name = 1, ud_fresh = \<lparr>fr_file = 9, fr_rows = [5], fr_txns = []\<rparr>, ud_arrived = 4, ud_now = 5,
      ud_run = \<lparr>tk_id = 0, tk_start = 0, tk_begin = 0, tk_end = 0, tk_took = undefined, tk_registry = undefined\<rparr>\<rparr>"

lemma sample_saved:
  "save_stream sample_sha max_upload_bytes ''up'' 1 ''.csv'' [''Ref'', '',Date''] (\<lambda>_. None) =
     (let path = ''up/'' @ hex_str 32 1 @ ''.csv'' in
      (Inr \<lparr>sv_path = path, sv_size = 8, sv_digest = sample_sha ''Ref,Date''\<rparr>, (\<lambda>_. None)(path \<mapsto> ''Ref,Date'')))"
  by (simp add: save_stream_def Let_def max_upload_bytes_def)

lemma sample_uploaded:
  "\<exists>out o2 disk'. upload_file sample_site sample_admin sample_upload sample_draw empty_office (\<lambda>_. None) = (Inr out, o2, disk')"
proof -
  let ?path = "''up/'' @ hex_str 32 1 @ ''.csv''"
  define saved where "saved = \<lparr>sv_path = ?path, sv_size = 8, sv_digest = sample_sha ''Ref,Date''\<rparr>"
  define disk where "disk = (\<lambda>_. None :: string option)(?path \<mapsto> ''Ref,Date'')"
  define df where "df = disk_file_of sample_site saved (bytes_at disk ?path)"
  have t: "bind_res (require_role ANALYST sample_admin) (\<lambda>_. validate_target sample_site sample_upload) = Inr (sample_bank, ''.csv'')"
    by code_simp
  have d: "df_csv df = df_csv sample_bytes" by (simp add: df_def disk_file_of_def sample_site_def)
  obtain out d' where x: "process_file (sample_pipeline\<lparr>pl_actor := api_key_actor ''ann''\<rparr>) 4 \<lparr>fr_file = 9, fr_rows = [5], fr_txns = []\<rparr> df
      (safe_display_name (Some ''a.csv'')) sample_bank CSV INTERNAL 5 empty_desk = Inr (out, d')"
    using sample_process[OF d] by blast
  have f: "dk_files empty_desk = []" by (simp add: empty_desk_def)
  have "\<exists>out o2 disk2. upload_saved sample_site sample_admin sample_upload sample_draw sample_bank saved empty_office disk = (Inr out, o2, disk2)"
    using x by (simp add: upload_saved_def Let_def empty_office_def f upload_pipeline_def sample_admin_def sample_draw_def
        sample_upload_def answer_upload_def df_def saved_def sample_site_def)
  moreover have "save_stream sample_sha max_upload_bytes ''up'' 1 ''.csv'' [''Ref'', '',Date''] (\<lambda>_. None) = (Inr saved, disk)"
    using sample_saved by (simp add: saved_def disk_def Let_def)
  moreover have "ce_sha (pl_classifier (ul_pipeline sample_site)) = sample_sha" "ul_dir sample_site = ''up''" "ud_name sample_draw = 1"
      "uq_chunks sample_upload = [''Ref'', '',Date'']"
    by (simp_all add: sample_site_def sample_pipeline_def sample_classifier_def sample_draw_def sample_upload_def)
  ultimately show ?thesis by (simp add: upload_file_def t)
qed

lemma upload_kept_or_dropped_witness:
  "\<exists>o2 disk'. upload_kept sample_site sample_upload sample_draw empty_office (\<lambda>_. None) o2 disk'
     \<and> stored_well (site_sha sample_site) (of_desk o2) disk'"
proof -
  obtain out o2 disk' where u: "upload_file sample_site sample_admin sample_upload sample_draw empty_office (\<lambda>_. None) = (Inr out, o2, disk')"
    using sample_uploaded by blast
  have f: "dk_files (of_desk empty_office) = []" by (simp add: empty_office_def empty_desk_def)
  have "stored_well (site_sha sample_site) (of_desk empty_office) (\<lambda>_. None)" by (simp add: stored_well_def file_keys_def f)
  moreover have "fresh_name sample_site sample_draw (\<lambda>_. None)" by (simp add: fresh_name_def)
  moreover have "\<not> upload_dropped empty_office (\<lambda>_. None) (Inr out, o2, disk')" by (simp add: upload_dropped_def)
  ultimately show ?thesis using upload_kept_or_dropped[OF u] f by auto
qed

end
