(* ===== verification/AuditApi.thy ===== *)
theory AuditApi
  imports Backlog RateLimit CsvWriter
begin

text \<open>
  The audit endpoints (\<open>api/v1/audit.py\<close>): the pages and the CSV export of the log, the heads
  of its chains as anchors, and the verification against anchors saved earlier. The database
  orders texts by code point; the time a row was recorded is a parameter.
\<close>

section \<open>Listing\<close>

record audit_query =
  aq_chain :: "string option"
  aq_action :: "audit_action option"
  aq_actor :: "string option"
  aq_from :: "date option"
  aq_to :: "date option"

definition audit_filter :: "audit_query \<Rightarrow> audit_row \<Rightarrow> bool" where
  "audit_filter q r =
     ((case aq_chain q of None \<Rightarrow> True | Some c \<Rightarrow> chain_id r = c)
      \<and> (case aq_action q of None \<Rightarrow> True | Some a \<Rightarrow> action_type r = action_text a)
      \<and> (case aq_actor q of None \<Rightarrow> True | Some a \<Rightarrow> actor_id r = a)
      \<and> (case aq_from q of None \<Rightarrow> True | Some d \<Rightarrow> d \<le> date_of (occurred_at r))
      \<and> (case aq_to q of None \<Rightarrow> True | Some d \<Rightarrow> date_of (occurred_at r) \<le> d))"

definition list_audit :: "audit_query \<Rightarrow> nat \<Rightarrow> nat \<Rightarrow> audit_row list \<Rightarrow> audit_row page" where
  "list_audit q limit offset rows =
     page_of limit offset (sort_key (\<lambda>r. (- occurred_at r, chain_id r, - sequence_no r)) (filter (audit_filter q) rows))"

section \<open>The export\<close>

text \<open>\<open>json.dumps(v, sort_keys=True)\<close>: spaces after the separators, and everything but
  printable ASCII escaped; the text is UTF-8 code units.\<close>

definition u_escape :: "nat \<Rightarrow> string" where
  "u_escape n = [CHR 0x5C, CHR ''u'', hex_digit (n div 4096 mod 16), hex_digit (n div 256 mod 16), hex_digit (n div 16 mod 16), hex_digit (n mod 16)]"

definition escape_point :: "nat \<Rightarrow> string" where
  "escape_point n =
     (if n < 65536 then u_escape n
      else u_escape (55296 + (n - 65536) div 1024) @ u_escape (56320 + (n - 65536) mod 1024))"

fun ascii_text :: "string \<Rightarrow> string" where
  "ascii_text [] = []"
| "ascii_text (c # s) =
     (let n = code c in
      if n < 127 then esc c @ ascii_text s
      else if n = 127 then u_escape n @ ascii_text s
      else let (k, lead) = (if n < 224 then (1, n - 192) else if n < 240 then (2, n - 224) else (3, n - 240)) in
        escape_point (fold (\<lambda>d a. a * 64 + (code d - 128)) (take k s) lead) @ ascii_text (drop k s))"

definition ascii_str :: "string \<Rightarrow> string" where
  "ascii_str s = CHR 0x22 # ascii_text s @ [CHR 0x22]"

fun wide_dump :: "json \<Rightarrow> string"
  and wide_items :: "json list \<Rightarrow> string"
  and wide_members :: "(string \<times> json) list \<Rightarrow> string" where
  "wide_dump JNull = ''null''"
| "wide_dump (JBool b) = (if b then ''true'' else ''false'')"
| "wide_dump (JInt i) = int_str i"
| "wide_dump JFloat = ''''"
| "wide_dump (JStr s) = ascii_str s"
| "wide_dump (JList vs) = (case vs of [] \<Rightarrow> ''[]'' | v # r \<Rightarrow> CHR ''['' # wide_dump v @ wide_items r)"
| "wide_dump (JObj kvs) =
     (case kvs of [] \<Rightarrow> ''{}'' | kv # r \<Rightarrow> CHR ''{'' # ascii_str (fst kv) @ '': '' @ wide_dump (snd kv) @ wide_members r)"
| "wide_items [] = '']''"
| "wide_items (v # r) = '', '' @ wide_dump v @ wide_items r"
| "wide_members [] = ''}''"
| "wide_members (kv # r) = '', '' @ ascii_str (fst kv) @ '': '' @ wide_dump (snd kv) @ wide_members r"

definition state_text :: "json \<Rightarrow> string" where
  "state_text v = (if v = JNull then [] else wide_dump (norm v))"

definition audit_limit :: nat where "audit_limit = 50000"

definition audit_header :: "string list" where
  "audit_header =
     [''chain_id'', ''sequence_no'', ''occurred_at'', ''recorded_at'', ''actor_type'', ''actor_id'', ''action_type'',
      ''affected_records'', ''before_state'', ''after_state'', ''rationale'', ''prev_hash'', ''current_hash'']"

definition audit_cells :: "(nat \<Rightarrow> instant) \<Rightarrow> audit_row \<Rightarrow> string list" where
  "audit_cells recorded r =
     [chain_id r, int_str (sequence_no r), iso_text (occurred_at r), iso_text (recorded (event_id r)), actor_type r, actor_id r,
      action_type r, wide_dump (norm (affected_records r)), state_text (before_state r), state_text (after_state r), rationale r,
      (case prev_hash r of None \<Rightarrow> [] | Some h \<Rightarrow> h), current_hash r]"

definition exported_rows :: "audit_query \<Rightarrow> audit_row list \<Rightarrow> audit_row list" where
  "exported_rows q rows = take audit_limit (sort_key (\<lambda>r. (chain_id r, sequence_no r)) (filter (audit_filter q) rows))"

definition export_audit :: "(nat \<Rightarrow> instant) \<Rightarrow> audit_query \<Rightarrow> audit_row list \<Rightarrow> string" where
  "export_audit recorded q rows = csv_text (audit_header # map (audit_cells recorded) (exported_rows q rows))"

section \<open>Anchors\<close>

type_synonym anchor = "string \<times> int \<times> string"

definition audit_anchors :: "audit_row list \<Rightarrow> anchor list" where
  "audit_anchors rows =
     concat (map (\<lambda>c. case chain_head rows c of None \<Rightarrow> [] | Some h \<Rightarrow> [(c, h)]) (sort (remdups (map chain_id rows))))"

text \<open>The text in which a saved anchor comes back.\<close>

definition anchor_text :: "anchor \<Rightarrow> string" where
  "anchor_text a = (case a of (c, n, h) \<Rightarrow> c @ CHR '':'' # int_str n @ CHR '':'' # h)"

text \<open>\<open>text.rsplit(c, 1)\<close>, when it gives two parts.\<close>

definition rsplit_once :: "char \<Rightarrow> string \<Rightarrow> (string \<times> string) option" where
  "rsplit_once c s =
     (let tail = rev (takeWhile (\<lambda>x. x \<noteq> c) (rev s)) in
      if length tail = length s then None else Some (take (length s - length tail - 1) s, tail))"

text \<open>\<open>int(text)\<close>: white space around, a sign, digits with single underscores between them,
  at most 4300.\<close>

definition max_int_digits :: nat where "max_int_digits = 4300"

definition py_int :: "string \<Rightarrow> int option" where
  "py_int text =
     (let (neg, body) = split_sign (strip text); ds = filter is_digit body in
      if list_all (\<lambda>g. g \<noteq> [] \<and> list_all is_digit g) (PyFormat.split_on CHR ''_'' body) \<and> length ds \<le> max_int_digits
      then Some (if neg then - int (digits_val ds) else int (digits_val ds)) else None)"

definition parse_anchor :: "string \<Rightarrow> anchor option" where
  "parse_anchor v =
     (case rsplit_once CHR '':'' v of
        None \<Rightarrow> None
      | Some (front, h) \<Rightarrow>
          (case rsplit_once CHR '':'' front of
             None \<Rightarrow> None
           | Some (c, n) \<Rightarrow> map_option (\<lambda>i. (c, i, h)) (py_int n)))"

fun parse_expected :: "string list \<Rightarrow> anchor list \<Rightarrow> anchor list res" where
  "parse_expected [] d = Inr d"
| "parse_expected (v # vs) d =
     (case parse_anchor v of None \<Rightarrow> Inl (HttpError 422) | Some (c, h) \<Rightarrow> parse_expected vs (dict_put c h d))"

definition verify_audit ::
    "(string \<Rightarrow> string) \<Rightarrow> string list \<Rightarrow> audit_row list \<Rightarrow> (bool \<times> (string \<times> verification) list) res" where
  "verify_audit sha expected rows =
     bind_res (parse_expected expected []) (\<lambda>anchors.
       let results = fold (\<lambda>(c, h). dict_put c (verify_chain sha rows c (Some h))) anchors (verify_all_chains sha rows);
           chains = sort_key fst results
       in Inr (list_all (\<lambda>(_, v). v_ok v) chains, chains))"

section \<open>The export is the log\<close>

lemma export_reads_back:
  "csv_records (CHR '','') (export_audit recorded q rows) = audit_header # map (audit_cells recorded) (exported_rows q rows)"
  by (simp add: export_audit_def csv_reads)

text \<open>Unlike the other exports, this one leaves a cell that starts a formula as it is.\<close>

lemma export_keeps_formulas:
  "r \<in> set (exported_rows q rows) \<Longrightarrow> \<exists>line \<in> set (csv_records (CHR '','') (export_audit recorded q rows)). line ! 10 = rationale r"
  by (force simp: export_reads_back audit_cells_def numeral_eq_Suc)

section \<open>Anchors come back\<close>

lemma rsplit_once_join: "CHR '':'' \<notin> set h \<Longrightarrow> rsplit_once CHR '':'' (s @ CHR '':'' # h) = Some (s, h)"
proof -
  assume "CHR '':'' \<notin> set h"
  then have "takeWhile (\<lambda>x. x \<noteq> CHR '':'') (rev h @ CHR '':'' # rev s) = rev h"
    by (subst takeWhile_append2) auto
  then show ?thesis by (simp add: rsplit_once_def Let_def)
qed

lemma split_on_none: "c \<notin> set s \<Longrightarrow> PyFormat.split_on c s = [s]"
  by (induction s) auto

lemma digit_clean:
  assumes "is_digit c"
  shows "\<not> is_space c \<and> c \<noteq> CHR ''_'' \<and> c \<noteq> CHR ''-'' \<and> c \<noteq> CHR ''+''"
  using assms by (auto simp: is_digit_def is_space_def code_def)

lemma digits_clean:
  assumes "list_all is_digit s" "s \<noteq> []"
  shows "PyFormat.split_on CHR ''_'' s = [s]" "filter is_digit s = s" "split_sign s = (False, s)" "split_sign (CHR ''-'' # s) = (True, s)"
    "strip s = s" "strip (CHR ''-'' # s) = CHR ''-'' # s"
proof -
  have d: "is_digit c" if "c \<in> set s" for c using that assms(1) by (simp add: list_all_iff)
  show "PyFormat.split_on CHR ''_'' s = [s]" using d digit_clean by (intro split_on_none) blast
  show "filter is_digit s = s" using d by (simp add: filter_id_conv)
  show "split_sign (CHR ''-'' # s) = (True, s)" by (simp add: split_sign_def)
  show "split_sign s = (False, s)" using assms(2) d digit_clean by (cases s) (auto simp: split_sign_def)
  have e: "\<not> is_space (hd s)" "\<not> is_space (last s)" using assms(2) d digit_clean by simp_all
  show "strip s = s" using assms(2) e by (rule strip_nonspace_ends)
  show "strip (CHR ''-'' # s) = CHR ''-'' # s"
    by (rule strip_nonspace_ends) (use assms(2) e in \<open>simp_all add: is_space_def code_def\<close>)
qed

lemma py_int_str: "length (nat_str (nat \<bar>i\<bar>)) \<le> max_int_digits \<Longrightarrow> py_int (int_str i) = Some i"
proof -
  assume l: "length (nat_str (nat \<bar>i\<bar>)) \<le> max_int_digits"
  have d: "list_all is_digit (nat_str n)" for n using nat_str_digits by (auto simp: list_all_iff)
  show ?thesis using l by (cases "i < 0") (simp_all add: py_int_def int_str_def digits_clean[OF d] d Let_def)
qed

lemma length_nat_str: "\<lbrakk>n < 10 ^ k; 0 < k\<rbrakk> \<Longrightarrow> length (nat_str n) \<le> k"
proof (induction k arbitrary: n)
  case (Suc k)
  show ?case
  proof (cases "n < 10")
    case True
    then show ?thesis by (subst nat_str.simps) simp
  next
    case False
    have "n div 10 < 10 ^ k" using Suc.prems(1) by (simp add: less_mult_imp_div_less)
    moreover have "0 < k" using False Suc.prems(1) by (cases k) simp_all
    ultimately show ?thesis using Suc.IH[of "n div 10"] False by (subst nat_str.simps) simp
  qed
qed simp

definition anchor_readable :: "anchor \<Rightarrow> bool" where
  "anchor_readable a = (case a of (c, n, h) \<Rightarrow> CHR '':'' \<notin> set h \<and> length (nat_str (nat \<bar>n\<bar>)) \<le> max_int_digits)"

lemma parse_anchor_text: "anchor_readable a \<Longrightarrow> parse_anchor (anchor_text a) = Some a"
proof -
  assume r: "anchor_readable a"
  obtain c n h where a: "a = (c, n, h)" by (cases a)
  have h: "CHR '':'' \<notin> set h" "py_int (int_str n) = Some n" using r py_int_str by (simp_all add: a anchor_readable_def)
  have s: "anchor_text a = (c @ CHR '':'' # int_str n) @ CHR '':'' # h" by (simp add: a anchor_text_def)
  show ?thesis unfolding s parse_anchor_def rsplit_once_join[OF h(1)] using rsplit_once_join[OF colon_not_int] h(2) by (simp add: a)
qed

lemma dict_put_fresh: "k \<notin> fst ` set d \<Longrightarrow> dict_put k v d = d @ [(k, v)]"
  by (induction k v d rule: dict_put.induct) auto

lemma parse_expected_texts:
  "\<lbrakk>\<forall>a \<in> set as. anchor_readable a; distinct (map fst (d @ as))\<rbrakk> \<Longrightarrow> parse_expected (map anchor_text as) d = Inr (d @ as)"
proof (induction as arbitrary: d)
  case (Cons a as)
  obtain c h where a: "a = (c, h)" by (cases a)
  have "dict_put c h d = d @ [(c, h)]" using Cons.prems(2) by (intro dict_put_fresh) (auto simp: a)
  then show ?case using Cons by (simp add: parse_anchor_text a)
qed simp

section \<open>Verification against anchors\<close>

lemma map_of_overlaid:
  "map_of (fold (\<lambda>(c, h). dict_put c (f c h)) as d) = map_of d ++ map_of (rev (map (\<lambda>(c, h). (c, f c h)) as))"
proof (induction as arbitrary: d)
  case (Cons a as)
  then show ?case by (cases a) (auto simp: fun_eq_iff map_add_def split: option.splits)
qed simp

lemma map_of_backwards: "distinct (map fst xs) \<Longrightarrow> map_of (rev xs) = map_of xs"
proof (induction xs)
  case (Cons x xs)
  then have "map_of xs (fst x) = None" by (simp add: map_of_eq_None_iff)
  then show ?case using Cons by (auto simp: fun_eq_iff map_add_def split: option.splits)
qed simp

definition audited :: "(string \<Rightarrow> string) \<Rightarrow> anchor list \<Rightarrow> audit_row list \<Rightarrow> (string \<times> verification) list" where
  "audited sha as rows = fold (\<lambda>(c, h). dict_put c (verify_chain sha rows c (Some h))) as (verify_all_chains sha rows)"

lemma map_of_audited:
  "distinct (map fst as) \<Longrightarrow>
   map_of (audited sha as rows) c =
     (case map_of as c of Some h \<Rightarrow> Some (verify_chain sha rows c (Some h))
      | None \<Rightarrow> if c \<in> set (map chain_id rows) then Some (verify_chain sha rows c None) else None)"
proof -
  assume d: "distinct (map fst as)"
  let ?f = "\<lambda>c h. verify_chain sha rows c (Some h)"
  have m: "map_of (map (\<lambda>(c, h). (c, ?f c h)) as) c = map_option (?f c) (map_of as c)" by (induction as) auto
  have "distinct (map fst (map (\<lambda>(c, h). (c, ?f c h)) as))" using d by (simp add: case_prod_unfold comp_def)
  then have r: "map_of (rev (map (\<lambda>(c, h). (c, ?f c h)) as)) c = map_option (?f c) (map_of as c)"
    by (simp add: map_of_backwards m)
  have a: "map_of (map (\<lambda>c. (c, verify_chain sha rows c None)) xs) c = (if c \<in> set xs then Some (verify_chain sha rows c None) else None)" for xs
    by (induction xs) auto
  show ?thesis
    by (simp add: audited_def map_of_overlaid[of ?f] map_add_def r verify_all_chains_def a split: option.splits)
qed

lemma audited_distinct: "distinct (map fst (audited sha as rows))"
proof -
  have "distinct (map fst (fold (\<lambda>(c, h). dict_put c (verify_chain sha rows c (Some h))) as d))" if "distinct (map fst d)" for d
    using that by (induction as arbitrary: d) (auto simp: distinct_dict_put)
  then show ?thesis by (simp add: audited_def verify_all_chains_def comp_def)
qed

lemma verify_audit_anchored:
  assumes "\<forall>a \<in> set as. anchor_readable a" "distinct (map fst as)"
  shows "verify_audit sha (map anchor_text as) rows
     = Inr (\<forall>c v. map_of (audited sha as rows) c = Some v \<longrightarrow> v_ok v, sort_key fst (audited sha as rows))"
proof -
  have "list_all (\<lambda>(_, v). v_ok v) (sort_key fst (audited sha as rows)) \<longleftrightarrow> (\<forall>(c, v) \<in> set (audited sha as rows). v_ok v)"
    by (simp add: list_all_iff)
  also have "\<dots> \<longleftrightarrow> (\<forall>c v. map_of (audited sha as rows) c = Some v \<longrightarrow> v_ok v)"
    using map_of_eq_Some_iff[OF audited_distinct] by (metis (mono_tags, lifting) case_prodD case_prodI2)
  finally show ?thesis
    using parse_expected_texts[OF assms(1), of "[]"] assms(2) by (simp add: verify_audit_def audited_def)
qed

lemma anchors_distinct: "distinct (map fst (audit_anchors rows))"
proof -
  have "map fst (concat (map (\<lambda>c. case chain_head rows c of None \<Rightarrow> [] | Some h \<Rightarrow> [(c, h)]) cs)) = filter (\<lambda>c. chain_head rows c \<noteq> None) cs" for cs
    by (induction cs) (auto split: option.splits)
  then show ?thesis by (simp add: audit_anchors_def)
qed

lemma anchors_map_of: "c \<in> set (map chain_id rows) \<Longrightarrow> map_of (audit_anchors rows) c = chain_head rows c"
proof -
  have "map_of (concat (map (\<lambda>c. case chain_head rows c of None \<Rightarrow> [] | Some h \<Rightarrow> [(c, h)]) cs)) c
      = (if c \<in> set cs then chain_head rows c else None)" for cs
    by (induction cs) (auto split: option.splits)
  then show "c \<in> set (map chain_id rows) \<Longrightarrow> ?thesis" by (simp add: audit_anchors_def)
qed

lemma head_shape:
  assumes "chain_ok sha rows c" "chain_head rows c = Some (n, h)"
  shows "chain_rows rows c \<noteq> [] \<and> n = int (length (chain_rows rows c)) \<and> h = current_hash (last (chain_rows rows c)) \<and> (\<exists>x. h = sha x)"
proof -
  let ?rs = "chain_rows rows c"
  have rs: "?rs = filter (\<lambda>r. chain_id r = c) rows" by (rule chain_rows_ok[OF assms(1)])
  have lk: "AuditChain.linked sha 1 None ?rs" using assms(1) unfolding rs chain_ok_def .
  have n: "?rs \<noteq> []" "n = sequence_no (last ?rs)" "h = current_hash (last ?rs)"
    using assms(2) chain_head_last[OF assms(1)] unfolding rs by (auto simp: chain_head_def Let_def split: if_splits)
  have "sequence_no (last ?rs) = int (length ?rs)"
    using linked_seq[OF lk, of "length ?rs - 1"] n(1) unfolding last_conv_nth[OF n(1)] by (simp add: of_nat_diff Suc_leI)
  moreover have "\<exists>x. h = sha x"
    using linked_hash[OF lk last_in_set[OF n(1)]] unfolding n(3) by (auto simp: compute_hash_def split: sum.splits intro: sym)
  ultimately show ?thesis using n by blast
qed

lemma own_head_ok:
  assumes "chain_ok sha rows c" "\<forall>x. sha x \<noteq> []"
  shows "v_ok (verify_chain sha rows c (chain_head rows c))"
proof -
  have lk: "AuditChain.linked sha 1 None (chain_rows rows c)" using assms(1) unfolding chain_rows_ok[OF assms(1)] chain_ok_def .
  have ne: "chain_head rows c = Some (n, h) \<Longrightarrow> h \<noteq> []" for n h using head_shape[OF assms(1), of n h] assms(2) by metis
  show ?thesis
    using head_shape[OF assms(1)] ne unfolding verify_linked[OF lk]
    by (cases "chain_head rows c") (auto simp: last_hash_def)
qed

lemma own_head_some: "\<lbrakk>chain_ok sha rows c; c \<in> set (map chain_id rows)\<rbrakk> \<Longrightarrow> \<exists>h. chain_head rows c = Some h"
  using chain_head_last[of sha rows c] by (auto simp: chain_head_def Let_def filter_empty_conv)

lemma anchors_readable:
  assumes "\<And>c. chain_ok sha rows c" "\<forall>x. CHR '':'' \<notin> set (sha x)" "length rows < 10 ^ max_int_digits" "a \<in> set (audit_anchors rows)"
  shows "anchor_readable a"
proof -
  obtain c n h where a: "a = (c, n, h)" "chain_head rows c = Some (n, h)"
    using assms(4) by (auto simp: audit_anchors_def split: option.splits)
  have s: "n = int (length (chain_rows rows c))" "\<exists>x. h = sha x" using head_shape[OF assms(1) a(2)] by blast+
  have "length (chain_rows rows c) < 10 ^ max_int_digits"
    using le_less_trans[OF length_filter_le assms(3), of "\<lambda>r. chain_id r = c"] by (simp add: chain_rows_def)
  then have "length (nat_str (nat \<bar>n\<bar>)) \<le> max_int_digits" unfolding s(1) by (intro length_nat_str) (simp_all add: max_int_digits_def[THEN arg_cong[where f = "(<) 0"]])
  then show ?thesis using s(2) assms(2) by (auto simp: anchor_readable_def a(1))
qed

lemma anchors_head: "map_of (audit_anchors rows) c = Some h \<Longrightarrow> chain_head rows c = Some h"
  by (drule map_of_SomeD) (auto simp: audit_anchors_def split: option.splits)

lemma own_anchors_pass:
  assumes ok: "\<And>c. chain_ok sha rows c" and len: "length rows < 10 ^ max_int_digits"
    and sha: "\<forall>x. sha x \<noteq> [] \<and> CHR '':'' \<notin> set (sha x)"
  shows "verify_audit sha (map anchor_text (audit_anchors rows)) rows = Inr (True, sort_key fst (audited sha (audit_anchors rows) rows))"
proof -
  have own: "v_ok (verify_chain sha rows c (chain_head rows c))" for c
    by (rule own_head_ok[OF ok]) (use sha in blast)
  have r: "\<forall>a \<in> set (audit_anchors rows). anchor_readable a"
    using anchors_readable[OF ok _ len] sha by blast
  note v = verify_audit_anchored[OF r anchors_distinct]
  have "v_ok v" if v: "map_of (audited sha (audit_anchors rows) rows) c = Some v" for c v
  proof (cases "map_of (audit_anchors rows) c")
    case None
    then have "chain_head rows c = None" "v = verify_chain sha rows c None"
      using v anchors_map_of[of c rows] by (auto simp: map_of_audited[OF anchors_distinct] simp del: set_map split: if_splits)
    then show ?thesis using own[of c] by simp
  next
    case (Some h)
    then have "chain_head rows c = Some h" using anchors_head by blast
    then show ?thesis using v own[of c] Some by (simp add: map_of_audited[OF anchors_distinct])
  qed
  then show ?thesis by (simp add: v)
qed

text \<open>C4. The anchors do what they are exported for. A log that only \<open>append\<close> has written
  passes the verification endpoint with its own anchors; and if any other content of the table
  passes with them, then every chain the anchors name has the entries it had when they were
  saved, each field and hash of them (unless the digest collides): nothing was changed,
  inserted or deleted, the newest entries included.\<close>

theorem anchors_pin_log:
  assumes "appended_log sha rows" "length rows < 10 ^ max_int_digits" "\<forall>x. sha x \<noteq> [] \<and> CHR '':'' \<notin> set (sha x)"
    and "verify_audit sha (map anchor_text (audit_anchors rows)) rows' = Inr (True, verdicts)"
    and "\<And>f g x y. \<lbrakk>f \<in> set rows; g \<in> set rows'; canonical_bytes f = Inr x; canonical_bytes g = Inr y; sha x = sha y\<rbrakk> \<Longrightarrow> x = y"
    and "\<forall>r \<in> set rows \<union> set rows'. stamp_ok r" "c \<in> set (map chain_id rows)"
  shows "(\<exists>own. verify_audit sha (map anchor_text (audit_anchors rows)) rows = Inr (True, own))
     \<and> list_all2 (\<lambda>r t. same_entry r t \<and> current_hash r = current_hash t) (chain_rows rows c) (chain_rows rows' c)"
proof -
  note ok = appended_log_ok[OF assms(1), rule_format]
  have own: "v_ok (verify_chain sha rows c (chain_head rows c))" for c
    by (rule own_head_ok[OF ok]) (use assms(3) in blast)
  have r: "\<forall>a \<in> set (audit_anchors rows). anchor_readable a"
    using anchors_readable[OF ok _ assms(2)] assms(3) by blast
  note v = verify_audit_anchored[OF r anchors_distinct]
  have "\<exists>own. verify_audit sha (map anchor_text (audit_anchors rows)) rows = Inr (True, own)"
    using own_anchors_pass[OF ok assms(2,3)] by blast
  moreover have "v_ok (verify_chain sha rows' c (Some h))" if "chain_head rows c = Some h" for h
  proof -
    have "map_of (audited sha (audit_anchors rows) rows') c = Some (verify_chain sha rows' c (Some h))"
      using that anchors_map_of[OF assms(7)] by (simp add: map_of_audited[OF anchors_distinct])
    moreover have "\<forall>c v. map_of (audited sha (audit_anchors rows) rows') c = Some v \<longrightarrow> v_ok v" using assms(4) by (simp add: v)
    ultimately show ?thesis by blast
  qed
  ultimately have h: "\<exists>own. verify_audit sha (map anchor_text (audit_anchors rows)) rows = Inr (True, own)"
    "\<And>h. chain_head rows c = Some h \<Longrightarrow> v_ok (verify_chain sha rows' c (Some h))" by blast+
  obtain h where c: "chain_head rows c = Some h" using own_head_some[OF ok assms(7)] by blast
  have "list_all2 (\<lambda>r t. same_entry r t \<and> current_hash r = current_hash t) (chain_rows rows c) (chain_rows rows' c)"
    using own[of c] h(2)[OF c] unfolding c by (rule same_head_same_chain) (use assms(5,6) in blast)+
  then show ?thesis using h(1) by blast
qed

definition sample_digest :: "string \<Rightarrow> string" where
  "sample_digest s = CHR ''h'' # concat (map (\<lambda>c. hex_str 2 (code c)) s)"

lemma hex_str_digits: "c \<in> set (hex_str w n) \<Longrightarrow> \<exists>m < 16. c = hex_digit m"
  by (induction w n rule: hex_str.induct) (auto intro: exI[of _ "n mod 16" for n])

lemma sample_digest_plain: "CHR '':'' \<notin> set (sample_digest s)"
proof -
  have "list_all (\<lambda>m. hex_digit m \<noteq> CHR '':'') [0..<16]" by code_simp
  then have "hex_digit m \<noteq> CHR '':''" if "m < 16" for m using that by (simp add: list_all_iff)
  then have "CHR '':'' \<notin> set (hex_str w n)" for w n using hex_str_digits by metis
  then show ?thesis by (simp add: sample_digest_def)
qed

definition sample_entries :: "audit_row list res" where
  "sample_entries = audit_append sample_digest 7 ''runs:HDFC'' ''SYSTEM'' ''runner'' RUN_STATE_CHANGE (JObj []) ''start''
     1000000 True JNull JNull []"

theorem anchors_pin_log_witness:
  "\<exists>rows verdicts. sample_entries = Inr rows \<and> rows \<noteq> []
     \<and> verify_audit sample_digest (map anchor_text (audit_anchors rows)) rows = Inr (True, verdicts)
     \<and> list_all2 (\<lambda>r t. same_entry r t \<and> current_hash r = current_hash t) (chain_rows rows ''runs:HDFC'') (chain_rows rows ''runs:HDFC'')"
proof -
  have "\<exists>rows. sample_entries = Inr rows"
    by (simp add: sample_entries_def audit_append_def chain_head_row_def compute_hash_def canonical_bytes_def Let_def audit_fields.defs)
  then obtain rows where l: "sample_entries = Inr rows" by blast
  note app = l[unfolded sample_entries_def]
  obtain row where r: "rows = [row]" "chain_id row = ''runs:HDFC''" "event_id row = 7" "occurred_at row = 1000000"
    using audit_append_shape[OF app] by auto
  have a: "appended_log sample_digest rows" using append_log[OF empty_log app] .
  have sha: "\<forall>x. sample_digest x \<noteq> [] \<and> CHR '':'' \<notin> set (sample_digest x)" using sample_digest_plain by (simp add: sample_digest_def)
  have len: "length rows < 10 ^ max_int_digits" 
    using one_less_power[of "10 :: nat" max_int_digits] by (simp add: r(1) max_int_digits_def[THEN arg_cong[where f = "(<) 0"]])
  have ok: "chain_ok sample_digest rows c" for c using appended_log_ok[OF a] by blast
  have "verify_audit sample_digest (map anchor_text (audit_anchors rows)) rows = Inr (True, sort_key fst (audited sample_digest (audit_anchors rows) rows))"
    using own_anchors_pass[OF ok len] sha by blast
  moreover have "\<forall>q \<in> set rows \<union> set rows. stamp_ok q" using r by (simp add: stamp_ok_def)
  ultimately show ?thesis
    using anchors_pin_log[OF a len sha, of rows] l r by auto
qed

end
