(* ===== verification/Dashboard.thy ===== *)
theory Dashboard
  imports Reports RateLimit
begin

text \<open>
  The dashboard: the aggregates of \<open>analytics/dashboard.py\<close> over the stored office and the
  cached endpoints of \<open>api/v1/dashboard.py\<close>. Averages are exact before they are rounded, days
  and hours are those of UTC, and groups come in the order of their first row. The texts in
  which a value is cached are a parameter.
\<close>

section \<open>Aggregates\<close>

definition trend_days :: nat where "trend_days = 7"

record daily_point =
  dp_day :: date
  dp_total :: nat
  dp_matched :: nat
  dp_rate :: rat
  dp_exceptions :: nat

record bank_stats =
  bs_bank :: string
  bs_total :: nat
  bs_matched :: nat
  bs_rate :: rat
  bs_exceptions :: nat
  bs_open :: nat
  bs_exception_rate :: rat
  bs_settlement :: "rat option"
  bs_sla :: rat

record hour_point =
  hp_hour :: nat
  hp_total :: nat
  hp_matched :: nat
  hp_rate :: rat

definition average :: "int list \<Rightarrow> rat option" where
  "average xs = (if xs = [] then None else Some (of_int (sum_list xs) / of_nat (length xs)))"

definition average_processing_seconds :: "run_row list \<Rightarrow> rat option" where
  "average_processing_seconds runs =
     map_option (\<lambda>us. float_round 3 (us / 1000000))
       (average (concat (map (\<lambda>r. case (rn_status r, rn_started r, rn_completed r) of
                                    (COMPLETED, Some s, Some e) \<Rightarrow> [e - s] | _ \<Rightarrow> []) runs)))"

definition daily_point_of :: "office \<Rightarrow> date \<Rightarrow> daily_point" where
  "daily_point_of o1 day =
     (let ts = filter (\<lambda>t. t_date t = day) (txns (office_db o1)); m = count_if matched_txn ts in
      \<lparr>dp_day = day, dp_total = length ts, dp_matched = m, dp_rate = rate_of m (length ts),
       dp_exceptions = count_if (\<lambda>x. date_of (x_created x) = day) (office_excs o1)\<rparr>)"

definition daily_trend :: "date \<Rightarrow> nat \<Rightarrow> office \<Rightarrow> daily_point list" where
  "daily_trend as_of days o1 = map (\<lambda>i. daily_point_of o1 (as_of - (int days - 1) + int i)) [0..<days]"

definition settle_gaps :: "txn list \<Rightarrow> int list" where
  "settle_gaps ts =
     concat (map (\<lambda>t. case t_settlement t of Some d \<Rightarrow> if t_source t = EXTERNAL then [d - t_date t] else [] | None \<Rightarrow> []) ts)"

definition bank_stats_of :: "instant \<Rightarrow> office \<Rightarrow> string \<Rightarrow> bank_stats" where
  "bank_stats_of now o1 bank =
     (let ts = in_bank t_bank bank (txns (office_db o1)); xs = in_bank x_bank bank (office_excs o1); m = count_if matched_txn ts in
      \<lparr>bs_bank = bank, bs_total = length ts, bs_matched = m, bs_rate = rate_of m (length ts), bs_exceptions = length xs,
       bs_open = count_if (\<lambda>x. still_open (x_status x)) xs, bs_exception_rate = rate_of (length xs) (length ts),
       bs_settlement = map_option (float_round 2) (average (settle_gaps ts)),
       bs_sla = percent_of (count_if (on_time now) xs) (length xs)\<rparr>)"

definition breakdown_codes :: "string list \<Rightarrow> office \<Rightarrow> string list" where
  "breakdown_codes configured o1 = sorted_codes (configured @ map t_bank (txns (office_db o1)) @ map x_bank (office_excs o1))"

definition bank_breakdown :: "string list \<Rightarrow> instant \<Rightarrow> office \<Rightarrow> bank_stats list" where
  "bank_breakdown configured now o1 = map (bank_stats_of now o1) (breakdown_codes configured o1)"

definition utc_hour :: "instant \<Rightarrow> nat" where
  "utc_hour t = nat (t mod day_micros div hour_micros)"

definition hour_point_of :: "txn list \<Rightarrow> nat \<Rightarrow> hour_point" where
  "hour_point_of ts h =
     (let hs = filter (\<lambda>t. utc_hour (t_timestamp t) = h) ts; m = count_if matched_txn hs in
      \<lparr>hp_hour = h, hp_total = length hs, hp_matched = m, hp_rate = rate_of m (length hs)\<rparr>)"

definition hourly_timeline :: "date \<Rightarrow> office \<Rightarrow> hour_point list" where
  "hourly_timeline day o1 = map (hour_point_of (filter (\<lambda>t. on_day day (t_timestamp t)) (txns (office_db o1)))) [0..<24]"

definition pending_review_count :: "office \<Rightarrow> nat" where
  "pending_review_count o1 = count_if (\<lambda>r. r_status r = PENDING_REVIEW) (results (office_db o1))"

section \<open>Endpoints\<close>

record dashboard_summary =
  ds_as_of :: date
  ds_total :: nat
  ds_matched :: nat
  ds_rate :: rat
  ds_seconds :: "rat option"
  ds_trend :: "daily_point list"
  ds_pending :: nat
  ds_exceptions :: nat
  ds_unresolved :: nat
  ds_alerts :: nat
  ds_breached :: nat
  ds_categories :: "(category \<times> nat) list"
  ds_severities :: "(severity \<times> nat) list"

definition group_counts :: "('a \<Rightarrow> 'k) \<Rightarrow> 'a list \<Rightarrow> ('k \<times> nat) list" where
  "group_counts f xs = map (\<lambda>k. (k, count_if (\<lambda>x. f x = k) xs)) (remdups (map f xs))"

definition build_summary :: "date \<Rightarrow> office \<Rightarrow> dashboard_summary" where
  "build_summary day o1 =
     (let ts = txns (office_db o1); xs = office_excs o1; m = count_if matched_txn ts; by = group_counts x_category xs in
      \<lparr>ds_as_of = day, ds_total = length ts, ds_matched = m, ds_rate = rate_of m (length ts),
       ds_seconds = average_processing_seconds (of_runs o1), ds_trend = daily_trend day trend_days o1,
       ds_pending = pending_review_count o1, ds_exceptions = sum_list (map snd by),
       ds_unresolved = count_if (\<lambda>x. still_open (x_status x)) xs,
       ds_alerts = count_if (\<lambda>a. al_status a = ALERT_OPEN) (dk_alerts (of_desk o1)),
       ds_breached = count_if (\<lambda>x. still_open (x_status x) \<and> x_breached x \<noteq> None) xs,
       ds_categories = by, ds_severities = group_counts x_severity xs\<rparr>)"

definition build_banks :: "(string \<times> bank_config) list \<Rightarrow> instant \<Rightarrow> office \<Rightarrow> (bank_stats \<times> string option) list" where
  "build_banks banks now o1 =
     map (\<lambda>s. (s, map_option bk_name (map_of banks (bs_bank s)))) (bank_breakdown (sort (map fst banks)) now o1)"

definition build_timeline :: "date \<Rightarrow> office \<Rightarrow> date \<times> nat \<times> hour_point list" where
  "build_timeline day o1 = (let hs = hourly_timeline day o1 in (day, sum_list (map hp_total hs), hs))"

text \<open>How a value is cached: its text, and what a stored text is read as (\<open>None\<close> where the
  model refuses it). A look-up reads the clock once, a store again.\<close>

record 'm codec =
  cd_dump :: "'m \<Rightarrow> string"
  cd_read :: "string \<Rightarrow> 'm option"

definition cached :: "'m codec \<Rightarrow> int \<Rightarrow> rat \<Rightarrow> rat \<Rightarrow> string \<Rightarrow> 'm \<Rightarrow> memory_cache \<Rightarrow> 'm \<times> memory_cache" where
  "cached cd ttl t1 t2 key built c =
     (case cache_get t1 key c of
        (found, c1) \<Rightarrow>
          (case (case found of None \<Rightarrow> None | Some text \<Rightarrow> cd_read cd text) of
             Some v \<Rightarrow> (v, c1)
           | None \<Rightarrow> (built, cache_set t2 key (cd_dump cd built) ttl c1)))"

definition summary ::
    "dashboard_summary codec \<Rightarrow> int \<Rightarrow> rat \<Rightarrow> rat \<Rightarrow> instant \<Rightarrow> date option \<Rightarrow> office \<Rightarrow> memory_cache \<Rightarrow> dashboard_summary \<times> memory_cache" where
  "summary cd ttl t1 t2 now as_of o1 c =
     (let day = (case as_of of None \<Rightarrow> date_of now | Some d \<Rightarrow> d) in
      cached cd ttl t1 t2 (''dashboard:summary:'' @ date_iso day) (build_summary day o1) c)"

definition banks_dashboard ::
    "(bank_stats \<times> string option) list codec \<Rightarrow> int \<Rightarrow> rat \<Rightarrow> rat \<Rightarrow> (string \<times> bank_config) list \<Rightarrow> instant \<Rightarrow> office \<Rightarrow> memory_cache
     \<Rightarrow> (bank_stats \<times> string option) list \<times> memory_cache" where
  "banks_dashboard cd ttl t1 t2 banks now o1 c = cached cd ttl t1 t2 ''dashboard:banks'' (build_banks banks now o1) c"

definition timeline ::
    "(date \<times> nat \<times> hour_point list) codec \<Rightarrow> int \<Rightarrow> rat \<Rightarrow> rat \<Rightarrow> instant \<Rightarrow> date option \<Rightarrow> office \<Rightarrow> memory_cache
     \<Rightarrow> (date \<times> nat \<times> hour_point list) \<times> memory_cache" where
  "timeline cd ttl t1 t2 now day o1 c =
     (let target = (case day of None \<Rightarrow> date_of now | Some d \<Rightarrow> d) in
      cached cd ttl t1 t2 (''dashboard:timeline:'' @ date_iso target) (build_timeline target o1) c)"

section \<open>The parts add up\<close>

lemma breakdown_totals:
  "sum_list (map bs_total (bank_breakdown configured now o1)) = length (txns (office_db o1))"
  "sum_list (map bs_matched (bank_breakdown configured now o1)) = count_if matched_txn (txns (office_db o1))"
  "sum_list (map bs_exceptions (bank_breakdown configured now o1)) = length (office_excs o1)"
  "sum_list (map bs_open (bank_breakdown configured now o1)) = count_if (\<lambda>x. still_open (x_status x)) (office_excs o1)"
proof -
  let ?cs = "breakdown_codes configured o1"
  have d: "distinct ?cs" "t_bank ` set (txns (office_db o1)) \<subseteq> set ?cs" "x_bank ` set (office_excs o1) \<subseteq> set ?cs"
    by (auto simp: breakdown_codes_def)
  note sums = split_length[OF d(1,2)] split_count[OF d(1,2)] split_length[OF d(1,3)] split_count[OF d(1,3)]
  show "sum_list (map bs_total (bank_breakdown configured now o1)) = length (txns (office_db o1))"
    "sum_list (map bs_matched (bank_breakdown configured now o1)) = count_if matched_txn (txns (office_db o1))"
    "sum_list (map bs_exceptions (bank_breakdown configured now o1)) = length (office_excs o1)"
    "sum_list (map bs_open (bank_breakdown configured now o1)) = count_if (\<lambda>x. still_open (x_status x)) (office_excs o1)"
    using sums by (simp_all add: bank_breakdown_def bank_stats_of_def Let_def in_bank_def comp_def)
qed

lemma group_counts_total: "sum_list (map snd (group_counts f xs)) = length xs"
  using split_length[of "remdups (map f xs)" f xs] by (simp add: group_counts_def count_if_def comp_def)

lemma utc_hour_bound: "utc_hour t < 24"
proof -
  have "t mod day_micros < 24 * hour_micros" using pos_mod_bound[of day_micros t] by (simp add: day_micros_def hour_micros_def)
  then have "t mod day_micros div hour_micros \<le> (24 * hour_micros - 1) div hour_micros" by (intro zdiv_mono1) (simp_all add: hour_micros_def)
  then show ?thesis by (simp add: utc_hour_def hour_micros_def)
qed

lemma timeline_total:
  "build_timeline day o1 = (day, length (filter (\<lambda>t. on_day day (t_timestamp t)) (txns (office_db o1))), hourly_timeline day o1)"
proof -
  let ?ts = "filter (\<lambda>t. on_day day (t_timestamp t)) (txns (office_db o1))"
  have "(\<lambda>t. utc_hour (t_timestamp t)) ` set ?ts \<subseteq> set [0..<24]" using utc_hour_bound by auto
  from split_length[OF _ this] show ?thesis
    by (simp add: build_timeline_def hourly_timeline_def hour_point_of_def Let_def comp_def del: upt_conv_Cons)
qed

section \<open>A cached answer is recent\<close>

record view =
  vw_look :: rat
  vw_store :: rat
  vw_now :: instant
  vw_as_of :: "date option"
  vw_office :: office

definition view_day :: "view \<Rightarrow> date" where
  "view_day q = (case vw_as_of q of None \<Rightarrow> date_of (vw_now q) | Some d \<Rightarrow> d)"

definition view_key :: "view \<Rightarrow> string" where
  "view_key q = ''dashboard:summary:'' @ date_iso (view_day q)"

definition view_value :: "view \<Rightarrow> dashboard_summary" where
  "view_value q = build_summary (view_day q) (vw_office q)"

text \<open>The answers to one request after the other.\<close>

fun serve :: "dashboard_summary codec \<Rightarrow> int \<Rightarrow> view list \<Rightarrow> memory_cache \<Rightarrow> dashboard_summary list" where
  "serve cd ttl [] c = []"
| "serve cd ttl (q # qs) c =
     (case summary cd ttl (vw_look q) (vw_store q) (vw_now q) (vw_as_of q) (vw_office q) c of
        (v, c') \<Rightarrow> v # serve cd ttl qs c')"

definition entries_known :: "dashboard_summary codec \<Rightarrow> int \<Rightarrow> view list \<Rightarrow> memory_cache \<Rightarrow> bool" where
  "entries_known cd ttl past c =
     (\<forall>(k, e, text) \<in> set (mc_values c).
        \<exists>p \<in> set past. view_key p = k \<and> e = vw_store p + of_int ttl \<and> text = cd_dump cd (view_value p))"

lemma summary_cached:
  "summary cd ttl (vw_look q) (vw_store q) (vw_now q) (vw_as_of q) (vw_office q) c
   = cached cd ttl (vw_look q) (vw_store q) (view_key q) (view_value q) c"
  by (simp add: summary_def view_key_def view_value_def view_day_def Let_def)

lemma dict_put_subset: "set (dict_put k v d) \<subseteq> insert (k, v) (set d)"
  by (induction k v d rule: dict_put.induct) auto

lemma cached_step:
  assumes "cached cd ttl (vw_look q) (vw_store q) (view_key q) (view_value q) c = (v, c')" "entries_known cd ttl past c"
    and codec: "\<And>p. p \<in> set past \<Longrightarrow> cd_read cd (cd_dump cd (view_value p)) = Some (view_value p)"
  shows "entries_known cd ttl (past @ [q]) c'
    \<and> (v = view_value q \<or> (\<exists>p \<in> set past. view_key p = view_key q \<and> v = view_value p \<and> vw_look q < vw_store p + of_int ttl))"
proof -
  obtain found c1 where g: "cache_get (vw_look q) (view_key q) c = (found, c1)" by fastforce
  have k1: "set (mc_values c1) \<subseteq> set (mc_values c)"
    using g by (auto simp: cache_get_def split: option.splits prod.splits if_splits)
  have f: "\<exists>p \<in> set past. view_key p = view_key q \<and> stored = cd_dump cd (view_value p) \<and> vw_look q < vw_store p + of_int ttl"
    if hit: "found = Some stored" for stored
  proof -
    obtain e where e: "map_of (mc_values c) (view_key q) = Some (e, stored)" "\<not> e \<le> vw_look q"
      using g hit by (auto simp: cache_get_def split: option.splits prod.splits if_splits)
    then have "(view_key q, e, stored) \<in> set (mc_values c)" by (simp add: map_of_SomeD)
    then show ?thesis using assms(2) e(2) unfolding entries_known_def by fastforce
  qed
  have st: "entries_known cd ttl (past @ [q]) c1"
    using assms(2) k1 unfolding entries_known_def by fastforce
  have put: "entries_known cd ttl (past @ [q]) (cache_set (vw_store q) (view_key q) (cd_dump cd (view_value q)) ttl c1)"
    using st dict_put_subset unfolding entries_known_def cache_set_def by fastforce
  show ?thesis
  proof (cases found)
    case None
    then show ?thesis using assms(1) g put by (simp add: cached_def) (metis fst_conv snd_conv)
  next
    case (Some stored)
    obtain p where p: "p \<in> set past" "view_key p = view_key q" "stored = cd_dump cd (view_value p)" "vw_look q < vw_store p + of_int ttl"
      using f[OF Some] by blast
    then have "v = view_value p" "c' = c1" using assms(1) g Some codec by (auto simp: cached_def)
    then show ?thesis using p st by blast
  qed
qed

lemma serve_recent:
  "\<lbrakk>entries_known cd ttl past c; i < length qs;
    \<And>p. p \<in> set (past @ qs) \<Longrightarrow> cd_read cd (cd_dump cd (view_value p)) = Some (view_value p)\<rbrakk> \<Longrightarrow>
   \<exists>p \<in> set (past @ take (Suc i) qs). view_key p = view_key (qs ! i) \<and> serve cd ttl qs c ! i = view_value p
     \<and> (p = qs ! i \<or> vw_look (qs ! i) < vw_store p + of_int ttl)"
proof (induction qs arbitrary: past c i)
  case (Cons q qs)
  obtain v c' where s: "cached cd ttl (vw_look q) (vw_store q) (view_key q) (view_value q) c = (v, c')" by fastforce
  note step = cached_step[OF s Cons.prems(1) Cons.prems(3), simplified]
  show ?case
  proof (cases i)
    case 0
    then show ?thesis using step by (auto simp: summary_cached s)
  next
    case (Suc j)
    have "\<exists>p \<in> set ((past @ [q]) @ take (Suc j) qs). view_key p = view_key (qs ! j) \<and> serve cd ttl qs c' ! j = view_value p
        \<and> (p = qs ! j \<or> vw_look (qs ! j) < vw_store p + of_int ttl)"
      using Cons.IH[of "past @ [q]" c' j] step Cons.prems(2,3) Suc by simp
    then show ?thesis using Suc by (simp add: summary_cached s)
  qed
qed simp

text \<open>C36. A dashboard summary is recent and adds up. Whatever requests are served one after the
  other from the shared cache, each answer is the summary, for the day asked for, of the office
  as one of the requests so far found it: this one, or one that stored it less than the time to
  live before. Its totals are the sums of the per-bank breakdown of that office, and of its
  categories.\<close>

theorem dashboard_recent:
  assumes "\<forall>q \<in> set qs. cd_read cd (cd_dump cd (view_value q)) = Some (view_value q) \<and> 1 \<le> view_day q" "i < length qs"
  shows "\<exists>p \<in> set (take (Suc i) qs).
      serve cd ttl qs empty_cache ! i = build_summary (view_day (qs ! i)) (vw_office p)
      \<and> (p = qs ! i \<or> vw_look (qs ! i) < vw_store p + of_int ttl)
      \<and> ds_total (serve cd ttl qs empty_cache ! i) = sum_list (map bs_total (bank_breakdown configured now (vw_office p)))
      \<and> ds_matched (serve cd ttl qs empty_cache ! i) = sum_list (map bs_matched (bank_breakdown configured now (vw_office p)))
      \<and> ds_exceptions (serve cd ttl qs empty_cache ! i) = sum_list (map bs_exceptions (bank_breakdown configured now (vw_office p)))
      \<and> ds_unresolved (serve cd ttl qs empty_cache ! i) = sum_list (map bs_open (bank_breakdown configured now (vw_office p)))"
proof -
  have "entries_known cd ttl [] empty_cache" by (simp add: entries_known_def empty_cache_def)
  from serve_recent[OF this assms(2)] assms(1) obtain p where
    p: "p \<in> set (take (Suc i) qs)" "view_key p = view_key (qs ! i)" "serve cd ttl qs empty_cache ! i = view_value p"
      "p = qs ! i \<or> vw_look (qs ! i) < vw_store p + of_int ttl" by auto
  have "p \<in> set qs" "qs ! i \<in> set qs" using p(1) assms(2) by (auto dest: in_set_takeD)
  then have "view_day p = view_day (qs ! i)" using p(2) assms(1) by (intro date_iso_inj) (auto simp: view_key_def)
  then have v: "serve cd ttl qs empty_cache ! i = build_summary (view_day (qs ! i)) (vw_office p)" using p(3) by (simp add: view_value_def)
  show ?thesis
    by (rule bexI[OF _ p(1)]) (use v p(4) in \<open>simp add: breakdown_totals group_counts_total build_summary_def Let_def\<close>)
qed

definition sample_codec :: "dashboard_summary codec" where
  "sample_codec =
     \<lparr>cd_dump = (\<lambda>v. nat_str (ds_total v)),
      cd_read = (\<lambda>s. Some (build_summary 9 (if s = nat_str 0 then empty_office else lone_office)))\<rparr>"

definition sample_views :: "view list" where
  "sample_views =
     [\<lparr>vw_look = 0, vw_store = 1, vw_now = 0, vw_as_of = Some 9, vw_office = empty_office\<rparr>,
      \<lparr>vw_look = 20, vw_store = 21, vw_now = 0, vw_as_of = Some 9, vw_office = lone_office\<rparr>]"

lemma dashboard_recent_witness:
  "\<exists>p \<in> set sample_views. serve sample_codec 30 sample_views empty_cache ! 1 = build_summary 9 (vw_office p)
     \<and> ds_total (serve sample_codec 30 sample_views empty_cache ! 1)
       = sum_list (map bs_total (bank_breakdown [''HDFC''] 0 (vw_office p)))"
proof -
  have t: "ds_total (build_summary 9 empty_office) = 0" "ds_total (build_summary 9 lone_office) = 1"
    by (simp_all add: build_summary_def Let_def office_db_def empty_office_def empty_desk_def lone_office_def empty_db_def sample_db_def)
  have "\<forall>q \<in> set sample_views. cd_read sample_codec (cd_dump sample_codec (view_value q)) = Some (view_value q) \<and> 1 \<le> view_day q"
    by (simp add: sample_views_def sample_codec_def view_value_def view_day_def t nat_str_inj)
  then show ?thesis
    using dashboard_recent[of sample_views sample_codec 1 30] by (fastforce simp: sample_views_def view_day_def)
qed

end
