(* ===== verification/Administration.thy ===== *)
theory Administration
  imports Reports Access
begin

text \<open>
  The endpoints that change what the office works with: exchange-rate files (\<open>api/v1/fx.py\<close>),
  bank configurations (\<open>api/v1/admin.py\<close>) and the backlog, with the command that checks a candidate
  configuration (\<open>cli/validate_bank_config.py\<close>). Decoded texts are inputs (None where the bytes
  are not UTF-8); a rate file has no carriage return outside quotes but before a newline.
\<close>

section \<open>Exchange rates\<close>

definition max_fx_bytes :: nat where "max_fx_bytes = 5 * 1024 * 1024"

definition error_sample :: nat where "error_sample = 20"

text \<open>\<open>csv.DictReader\<close> over the text: the first record names the columns, empty records are
  skipped, and of columns with one name the last counts.\<close>

definition fx_table :: "string \<Rightarrow> string list \<times> (string \<rightharpoonup> string) list" where
  "fx_table t =
     (case csv_records (CHR '','') t of
        [] \<Rightarrow> ([], [])
      | h # rows \<Rightarrow>
          (let names = map (\<lambda>f. to_lower (strip f)) h in
           (h, map (\<lambda>row. map_of (rev (zip names row))) (filter (\<lambda>row. row \<noteq> []) rows))))"

definition default_outlier_percent :: rat where "default_outlier_percent = 5"

record fx_upload =
  fu_inserted :: nat
  fu_skipped :: nat
  fu_rejected :: nat
  fu_rejected_lines :: "nat list"
  fu_suspect :: nat
  fu_suspects :: "parsed_rate list"

definition upload_fx_rates ::
    "(string \<Rightarrow> string) \<Rightarrow> principal \<Rightarrow> nat \<Rightarrow> string option \<Rightarrow> instant \<Rightarrow> office \<Rightarrow> (fx_upload \<times> office) res" where
  "upload_fx_rates sha p bytes decoded now o1 =
     bind_res (require_role ANALYST p) (\<lambda>_.
       if max_fx_bytes < bytes then Inl (HttpError 413)
       else (case decoded of
         None \<Rightarrow> Inl (HttpError 422)
       | Some t \<Rightarrow>
           (case (case fx_table t of (h, rows) \<Rightarrow> parse_fx_csv default_outlier_percent h rows) of
              Inl e \<Rightarrow> Inl (if e = ValueError then HttpError 422 else e)
            | Inr (rates, errs) \<Rightarrow>
                if rates = [] then Inl (HttpError 422)
                else bind_res (insert_many (of_rates o1) rates) (\<lambda>(tbl, inserted, skipped).
                  let suspects = filter pr_suspect rates in
                  bind_res (desk_audit sha ingestion_chain ''USER'' (api_key_actor (pr_name p)) INGEST (JObj [(''kind'', JStr ''fx_rates'')])
                      ''exchange-rate file loaded'' now JNull
                      (JObj [(''inserted'', JInt (int inserted)), (''skipped_existing'', JInt (int skipped)),
                             (''rejected'', JInt (int (length errs))), (''suspect'', JInt (int (length suspects)))]) (of_desk o1)) (\<lambda>d.
                  Inr (\<lparr>fu_inserted = inserted, fu_skipped = skipped, fu_rejected = length errs,
                        fu_rejected_lines = map fst (take error_sample errs), fu_suspect = length suspects,
                        fu_suspects = take error_sample suspects\<rparr>,
                       o1\<lparr>of_rates := tbl, of_desk := d\<rparr>))))))"

definition fx_filter :: "string option \<Rightarrow> date option \<Rightarrow> date option \<Rightarrow> bool option \<Rightarrow> fx_rate \<Rightarrow> bool" where
  "fx_filter cur since until suspect r =
     ((case cur of None \<Rightarrow> True | Some c \<Rightarrow> rate_currency r = to_upper c)
      \<and> (case since of None \<Rightarrow> True | Some d \<Rightarrow> d \<le> rate_date r) \<and> (case until of None \<Rightarrow> True | Some d \<Rightarrow> rate_date r \<le> d)
      \<and> wanted suspect (rate_suspect r))"

definition list_fx_rates ::
    "string option \<Rightarrow> date option \<Rightarrow> date option \<Rightarrow> bool option \<Rightarrow> nat \<Rightarrow> nat \<Rightarrow> office \<Rightarrow> fx_rate page" where
  "list_fx_rates cur since until suspect limit offset o1 =
     page_of limit offset
       (sort_key (\<lambda>r. (- rate_date r, rate_currency r, fx_source_text (rate_source r)))
          (filter (fx_filter cur since until suspect) (of_rates o1)))"

section \<open>Bank configurations\<close>

text \<open>One read of the live configurations: the clock and the looks at the directory.\<close>

record directory_look =
  lk_ticks :: "rat \<times> rat \<times> rat"
  lk_now :: instant
  lk_first :: "config_file list"
  lk_second :: "config_file list"
  lk_third :: "config_file list"

definition loaded_now :: "config_reader \<Rightarrow> directory_look \<Rightarrow> bank_registry \<Rightarrow> unit res \<times> bank_registry" where
  "loaded_now rd l rg =
     (case lk_ticks l of (t1, t2, t3) \<Rightarrow> maybe_reload rd t1 t2 t3 (lk_now l) (lk_first l) (lk_second l) (lk_third l) rg)"

record bank_config_out =
  bo_code :: string
  bo_config :: bank_config
  bo_sha :: string
  bo_recorded :: bool

record bank_configs_out =
  bc_banks :: "bank_config_out list"
  bc_loaded_at :: instant
  bc_error :: "error option"
  bc_versions :: nat

definition recorded_as :: "config_row list \<Rightarrow> string \<Rightarrow> config_row option" where
  "recorded_as rows bank = map_of (rev (map (\<lambda>r. (cr_bank r, r)) (filter cr_active rows))) bank"

definition list_bank_configs ::
    "config_reader \<Rightarrow> directory_look \<Rightarrow> office \<Rightarrow> bank_registry \<Rightarrow> bank_configs_out res \<times> bank_registry" where
  "list_bank_configs rd l o1 rg =
     (case loaded_now rd l rg of
        (Inl e, rg1) \<Rightarrow> (Inl e, rg1)
      | (Inr _, rg1) \<Rightarrow>
          (Inr \<lparr>bc_banks = map (\<lambda>(bank, item). \<lparr>bo_code = bank, bo_config = lc_config item, bo_sha = lc_sha item,
                   bo_recorded = (case recorded_as (of_configs o1) bank of None \<Rightarrow> False | Some r \<Rightarrow> cr_sha r = lc_sha item)\<rparr>)
                 (sort_key fst (rg_loaded rg1)),
                bc_loaded_at = rg_loaded_at rg1, bc_error = rg_error rg1, bc_versions = length (of_configs o1)\<rparr>, rg1))"

definition bank_config_versions :: "string \<Rightarrow> office \<Rightarrow> config_row list" where
  "bank_config_versions bank o1 =
     sort_key (\<lambda>r. (- cr_at r, \<not> cr_active r)) (filter (\<lambda>r. cr_bank r = bank) (of_configs o1))"

definition recorded_text :: "config_change \<Rightarrow> string" where
  "recorded_text c = cc_bank c @ CHR '':'' # cc_to c @ CHR '':'' # cc_kind c"

text \<open>A reload reads the directory again only if its signature changed; the recording reads
  the live configurations once more. The registry is the process's, whatever the request does.\<close>

definition reload_bank_configs ::
    "config_reader \<Rightarrow> (string \<Rightarrow> string) \<Rightarrow> principal \<Rightarrow> instant \<Rightarrow> rat \<Rightarrow> directory_look \<Rightarrow> directory_look \<Rightarrow> office \<Rightarrow> bank_registry
     \<Rightarrow> (reload_result \<times> string list) res \<times> office \<times> bank_registry" where
  "reload_bank_configs rd sha p now tick l1 l2 o1 rg =
     (case require_role ADMIN p of
        Inl e \<Rightarrow> (Inl e, o1, rg)
      | Inr _ \<Rightarrow>
          (case reload_locked rd False tick (lk_now l1) (lk_first l1) (lk_second l1) (lk_third l1) rg of
             (Inl e, rg1) \<Rightarrow> (Inl e, o1, rg1)
           | (Inr r, rg1) \<Rightarrow>
               (case loaded_now rd l2 rg1 of
                  (Inl e, rg2) \<Rightarrow> (Inl e, o1, rg2)
                | (Inr _, rg2) \<Rightarrow>
                    (case sync_bank_configurations sha rg2 (api_key_actor (pr_name p)) now (of_configs o1) (office_db o1) of
                       Inl e \<Rightarrow> (Inl e, o1, rg2)
                     | Inr (changes, rows, db) \<Rightarrow>
                         (Inr (r, map recorded_text changes),
                          o1\<lparr>of_configs := rows, of_desk := (of_desk o1)\<lparr>dk_world := (dk_world (of_desk o1))\<lparr>w_db := db\<rparr>\<rparr>\<rparr>, rg2)))))"

definition max_config_bytes :: nat where "max_config_bytes = 256 * 1024"
definition max_sample_bytes :: nat where "max_sample_bytes = 5 * 1024 * 1024"

definition validate_bank_config ::
    "config_reader \<Rightarrow> (error \<Rightarrow> string) \<Rightarrow> principal \<Rightarrow> nat \<times> string option \<Rightarrow> (nat \<times> string option) option \<Rightarrow> validation_report res" where
  "validate_bank_config rd say p config sample =
     bind_res (require_role ANALYST p) (\<lambda>_.
       if max_config_bytes < fst config then Inl (HttpError 413)
       else bind_res (case sample of None \<Rightarrow> Inr None
              | Some (n, t) \<Rightarrow> if max_sample_bytes < n then Inl (HttpError 413)
                             else (case t of None \<Rightarrow> Inl (HttpError 422) | Some s \<Rightarrow> Inr (Some s))) (\<lambda>sample_text.
         case snd config of None \<Rightarrow> Inl (HttpError 422) | Some t \<Rightarrow> validate_candidate rd say t sample_text))"

section \<open>The command\<close>

definition dict_repr :: "fields \<Rightarrow> string" where
  "dict_repr d = CHR 0x7B # join_with '', '' (map (\<lambda>(k, v). repr_str k @ '': '' @ repr_str v) d) @ [CHR 0x7D]"

definition render_sample :: "sample_report \<Rightarrow> string list" where
  "render_sample s =
     [''sample header: '' @ join_with '', '' (sp_header s), ''  '' @ describe_change (sp_change s),
      ''  rows checked '' @ nat_str (sp_checked s) @ '', valid '' @ nat_str (sp_valid s)]
     @ map (\<lambda>e. ''  problem: '' @ e) (sp_errors s)
     @ map (\<lambda>(i, row). ''  row '' @ nat_str (i + 1) @ '': '' @ dict_repr row) (enumerate 0 (sp_preview s))"

definition render_validation :: "validation_report \<Rightarrow> string" where
  "render_validation r =
     join_with [CHR 0x0A]
       ([''configuration: '' @ (if vr_errors r = [] then ''OK'' else ''INVALID'')]
        @ (case vr_bank r of None \<Rightarrow> []
           | Some b \<Rightarrow> if b = [] then []
                       else [''bank '' @ b @ '', version '' @ (case vr_version r of None \<Rightarrow> ''None'' | Some v \<Rightarrow> v)])
        @ map (\<lambda>e. ''  error: '' @ e) (vr_errors r)
        @ (case vr_sample r of None \<Rightarrow> [] | Some s \<Rightarrow> render_sample s)
        @ map (\<lambda>w. ''warning: '' @ w) (vr_warnings r)
        @ [''RESULT: '' @ (if vr_ok r then ''PASS'' else ''FAIL'')])"

text \<open>The exit code and what is printed. A file is None where it cannot be read, Some None
  where it is not UTF-8, which nothing catches.\<close>

definition validate_main ::
    "config_reader \<Rightarrow> (error \<Rightarrow> string) \<Rightarrow> string option option \<Rightarrow> string option option option \<Rightarrow> (nat \<times> string) res" where
  "validate_main rd say config sample =
     (case config of
        None \<Rightarrow> Inr (2, [])
      | Some None \<Rightarrow> Inl UnicodeDecodeErr
      | Some (Some t) \<Rightarrow>
          (case sample of
             Some None \<Rightarrow> Inr (2, [])
           | Some (Some None) \<Rightarrow> Inl UnicodeDecodeErr
           | _ \<Rightarrow>
               bind_res (validate_candidate rd say t (case sample of Some (Some s) \<Rightarrow> s | _ \<Rightarrow> None)) (\<lambda>r.
                 Inr (if vr_ok r then 0 else 1, render_validation r))))"

section \<open>The backlog endpoint\<close>

record backlog_bank_out =
  ob_bank :: string
  ob_processed :: nat
  ob_exact :: nat
  ob_failed :: "date list"
  ob_days :: "day_run list"
  ob_queued :: "nat option"

record backlog_out =
  oo_banks :: "backlog_bank_out list"
  oo_queued :: nat
  oo_recovery :: "(string \<times> cell) list"

definition backlog_bank_answer :: "bank_backlog \<Rightarrow> backlog_bank_out" where
  "backlog_bank_answer bb =
     \<lparr>ob_bank = bb_bank bb, ob_processed = length (bb_days bb), ob_exact = bb_exact_matched bb, ob_failed = bb_failed bb,
      ob_days = bb_days bb, ob_queued = bb_queued bb\<rparr>"

text \<open>The body is checked first; the figures are read after the pass, as of the clock the
  request came with.\<close>

definition post_backlog ::
    "services \<Rightarrow> string list \<Rightarrow> string \<Rightarrow> principal \<Rightarrow> backlog_body \<Rightarrow> (string \<Rightarrow> nat \<Rightarrow> tick) \<Rightarrow> (nat \<Rightarrow> instant) \<Rightarrow> instant \<Rightarrow> office
     \<Rightarrow> (backlog_out \<times> nat list) res \<times> office" where
  "post_backlog sv configured key p body ticks created_at now o1 =
     (case require_role ANALYST p of
        Inl e \<Rightarrow> (Inl e, o1)
      | Inr _ \<Rightarrow>
          if \<not> ordered_range (bo_from body) (bo_to body) then (Inl (HttpError 422), o1)
          else (case recover_backlog sv configured key (pr_name p) body ticks o1 of
            (Inl e, o2) \<Rightarrow> (Inl e, o2)
          | (Inr (bbs, queued), o2) \<Rightarrow>
              (Inr (\<lparr>oo_banks = map backlog_bank_answer bbs, oo_queued = length queued,
                     oo_recovery = rp_summary (recovery created_at now 24 o2)\<rparr>, queued), o2)))"

section \<open>Every row of a rate file is accounted for\<close>

definition rate_keys_distinct :: "fx_rate list \<Rightarrow> bool" where
  "rate_keys_distinct tbl = distinct (map rate_key tbl)"

lemma insert_rates_ok:
  "\<lbrakk>insert_rates tbl rs n = Inr (tbl', k); rate_keys_distinct tbl\<rbrakk>
   \<Longrightarrow> rate_keys_distinct tbl' \<and> n \<le> k \<and> k - n \<le> length rs \<and> (\<exists>new. tbl' = tbl @ new \<and> length new = k - n)"
proof (induction tbl rs n rule: insert_rates.induct)
  case (2 tbl r rs n)
  then show ?case by (fastforce simp: rate_keys_distinct_def split: if_splits)
qed auto

lemma parse_rows_count: "parse_fx_rows n rows = (rates, errs) \<Longrightarrow> length rates + length errs = length rows"
  by (induction n rows arbitrary: rates errs rule: parse_fx_rows.induct) (auto simp: Let_def split: prod.splits sum.splits)

lemma parse_csv_count: "parse_fx_csv pc h rows = Inr (rates, errs) \<Longrightarrow> length rates + length errs = length rows"
  by (auto simp: parse_fx_csv_def Let_def flag_outliers_def dest: parse_rows_count split: if_splits prod.splits)

lemma fx_upload_accounts:
  assumes "upload_fx_rates sha p bytes (Some t) now o1 = Inr (out, o2)" "rate_keys_distinct (of_rates o1)"
  shows "fu_inserted out + fu_skipped out + fu_rejected out = length (snd (fx_table t))
    \<and> rate_keys_distinct (of_rates o2) \<and> (\<exists>new. of_rates o2 = of_rates o1 @ new \<and> length new = fu_inserted out)"
proof -
  obtain h rows where t: "fx_table t = (h, rows)" by fastforce
  obtain rates errs tbl inserted skipped where p: "parse_fx_csv default_outlier_percent h rows = Inr (rates, errs)"
      "insert_many (of_rates o1) rates = Inr (tbl, inserted, skipped)"
    and o: "fu_inserted out = inserted" "fu_skipped out = skipped" "fu_rejected out = length errs" "of_rates o2 = tbl"
    using assms(1) by (auto simp: upload_fx_rates_def t Let_def res_iff split: if_splits sum.splits)
  have i: "insert_rates (of_rates o1) (map rate_row rates) 0 = Inr (tbl, inserted)" "skipped = length rates - inserted"
    using p(2) by (auto simp: insert_many_def split: sum.splits)
  show ?thesis using insert_rates_ok[OF i(1) assms(2)] parse_csv_count[OF p(1)] i(2) o t by auto
qed

text \<open>A reload asked for by an administrator reads nothing while the names, times and sizes of
  the files are those of the last look, whatever the files hold.\<close>

lemma reload_trusts_signature:
  assumes "pr_role p = ADMIN" "signature_of (lk_first l1) = Inr (rg_signature rg)" "loaded_now rd l2 (rg\<lparr>rg_checked := tick\<rparr>) = (Inr u, rg2)"
    "sync_bank_configurations sha rg2 (api_key_actor (pr_name p)) now (of_configs o1) (office_db o1) = Inr (changes, rows, db)"
  shows "fst (reload_bank_configs rd sha p now tick l1 l2 o1 rg) = Inr (no_reload, map recorded_text changes)"
  using assms by (simp add: reload_bank_configs_def require_role_def has_at_least_def reload_locked_def Let_def)

end
