(* ===== verification/Spec2Isabelle.thy ===== *)
theory Spec2Isabelle
  imports Fx AuditChain Classified Normalise Balances CsvFile Pan Anomaly Alerts Ingestion ConfigStore Runs Backlog CsvWriter Access ExceptionDesk RateLimit ReportText Reports Uploads AuditApi Dashboard Administration
begin

text \<open>
  Verification library of the reconciliation engine (the Python package \<open>src/src/recon\<close>; paths
  below are relative to it).

  The program takes statement files of banks and of the internal ledger, turns their lines into
  normalised transactions, and runs a reconciliation per bank: levels of matching claim pairs
  and groups of transactions, what stays unmatched or differs becomes an exception, exceptions
  are resolved automatically, escalated or worked on by people, and every act goes to a
  hash-chained audit trail. Endpoints upload files, start runs, review matches, work exceptions,
  administer users, banks and rates, and report. The model follows that order.

  \<^bold>\<open>How code becomes definitions.\<close> A table is a list of records in insertion order, a record per
  model class; a session is explicit state: \<open>db\<close> (transactions, results, claims, adjustments and
  the audit log), \<open>world\<close> (\<open>db\<close> with exceptions and events), \<open>desk\<close> (a world with files, raw rows,
  balances, alerts and statistics) and \<open>office\<close> (a desk with runs, bank configurations and
  exchange rates). An operation takes the state and returns \<open>Inl e\<close>, with \<open>e\<close> one of the exceptions
  in \<open>error\<close>, or \<open>Inr\<close> of its value and the state after it; a rollback is to keep the state before.
  Where commits happen in the middle, the state comes back with the error too. Constraints of
  the database that can refuse a write are written out. Decimals are rational numbers with the
  rounding of the context (28 digits, half to even) in \<open>PyDecimal\<close>, floats are the decimals Python
  prints for them (\<open>PyFloat\<close>), instants are microseconds, dates ordinals, strings lists of ASCII
  characters or UTF-8 code units. Python's integers are unbounded and so are those of the model.

  \<^bold>\<open>The theories\<close>
  \<^item> Foundations: \<open>Prelude\<close> (errors, results, dictionaries, stable minimum and sorting, generic
    lemmas), \<open>PyText\<close>, \<open>PyFormat\<close>, \<open>PyDecimal\<close>, \<open>PyFloat\<close>, \<open>Clock\<close>, \<open>Json\<close> (what the code uses of Python's
    strings, numbers, \<open>datetime\<close> and \<open>json\<close>).
  \<^item> Values: \<open>Money\<close> (\<open>domain/money.py\<close>), \<open>Calendar\<close> (\<open>calendar.py\<close>), \<open>Fx\<close> (\<open>fx/\<close>).
  \<^item> Audit: \<open>AuditChain\<close> (\<open>audit/\<close>): canonical text, hash chain, verifier.
  \<^item> Matching: \<open>Ledger\<close> (rows, claims, pools), \<open>Stage\<close> (what strategies share), \<open>ExactMatch\<close>, \<open>SubsetSum\<close>,
    \<open>Scoring\<close>, \<open>Fuzzy\<close>, \<open>Rules\<close>, \<open>CrossCurrency\<close>, \<open>GroupMatch\<close> (the strategies and rules of
    \<open>matching/\<close>), \<open>Orchestrator\<close> (\<open>matching/orchestrator.py\<close>), \<open>Review\<close> (\<open>matching/review.py\<close>,
    \<open>matching/manual.py\<close>), \<open>AutoLedger\<close> (what the automatic resolver does to the books) and
    \<open>LedgerSteps\<close> (all of them as one step relation).
  \<^item> Exceptions: \<open>Routing\<close>, \<open>PairAnalysis\<close>, \<open>Exceptions\<close>, \<open>Escalation\<close>, \<open>Classifier\<close> and \<open>Classified\<close>
    (\<open>excmgmt/\<close>).
  \<^item> Ingestion: \<open>Rows\<close>, \<open>Mt940\<close>, \<open>CsvFile\<close>, \<open>Pan\<close>, \<open>Balances\<close> (the parsers and checks of \<open>ingestion/\<close>),
    \<open>Normalise\<close> (\<open>normalisation/\<close>), \<open>Anomaly\<close> and \<open>Alerts\<close> (\<open>anomaly/\<close>), \<open>Ingestion\<close> (services, pipeline and
    verification of stored files).
  \<^item> Operation: \<open>ConfigStore\<close> (\<open>config/\<close>), \<open>Runs\<close> (\<open>runs/service.py\<close>), \<open>Backlog\<close> (\<open>runs/backlog.py\<close> and
    \<open>api/v1/runs.py\<close>).
  \<^item> Endpoints: \<open>Access\<close> (\<open>security/\<close>, \<open>api/auth.py\<close>, users), \<open>RateLimit\<close> (\<open>cache.py\<close>,
    \<open>api/ratelimit.py\<close>), \<open>ExceptionDesk\<close> (\<open>api/v1/exceptions.py\<close>, \<open>api/v1/matches.py\<close>), \<open>Uploads\<close>
    (\<open>api/v1/upload.py\<close>, \<open>files.py\<close>, \<open>anomalies.py\<close>), \<open>AuditApi\<close> (\<open>api/v1/audit.py\<close>), \<open>Administration\<close>
    (\<open>api/v1/fx.py\<close>, \<open>admin.py\<close>, the backlog endpoint, \<open>cli/validate_bank_config.py\<close>), \<open>CsvWriter\<close>, \<open>ReportText\<close> and \<open>Reports\<close>
    (\<open>reporting/\<close>, \<open>api/v1/reports.py\<close>), \<open>Dashboard\<close> (\<open>analytics/\<close>, \<open>api/v1/dashboard.py\<close>).

  \<^bold>\<open>Interfaces.\<close> Where one part relies on another through a contract, the contract is a locale,
  its consequences are proved once in it, and the code's own definitions interpret it.
  \<^item> \<open>matching_stage\<close> (\<open>Stage\<close>): a level keeps the ledger consistent and only lets it grow.
    The exact, fuzzy, rule, cross-currency and group levels provide it, the orchestrator
    composes them from it alone.
  \<^item> \<open>matching_rule\<close> (\<open>Rules\<close>): what the rule level needs of a rule; the amount and date rules
    provide it.
  \<^item> \<open>world_op\<close> (\<open>Exceptions\<close>): an operation on one exception keeps the world well formed and
    others untouched, so a pass over many does. Escalation, automatic resolution, queue
    assignment and the classifier's insertions provide it.
  \<^item> \<open>quote_source\<close> (\<open>Fx\<close>): a source answers every question as its table does, however
    often it is asked; the caching service provides it.
  \<^item> \<open>window_counters\<close> (\<open>RateLimit\<close>): a counter lives a fixed time from its first increment; the
    process-local cache provides it.

  \<^bold>\<open>What the lemmas show\<close>
  \<^item> Audit: logs that \<open>append\<close> writes verify; a head, or the anchors of the endpoint, pin every entry
    of their chains, the newest included, unless the digest collides.
  \<^item> Matching: along every sequence of the modelled steps the ledger stays consistent
    (one active claim per transaction, statuses agree with claims), rejected pairs stay
    rejected; a run is a growth of the ledger that every level refines; exact matching is maximal
    and agrees with the set-based statement; subset search is exact, capped and unambiguous;
    fuzzy decisions need evidence; cross-currency and group matches are within tolerance.
  \<^item> Exceptions: routing is monotone, pair verdicts are exact, classification forgets no
    transaction and repeats nothing, escalation settles, the SLA scan is complete unless the
    digest collides on the entries it writes, resolution needs authority and leaves a record.
  \<^item> Ingestion: normalised rows are well typed, statement lines read back, every row of a file is
    accounted for, every new key gets exactly one alert, the rolling statistics differ from the
    exact ones by bounded rounding only, tampering is found, an upload is kept whole or leaves
    nothing.
  \<^item> Operation: a run happens fully or fails recorded, runs of a bank never overlap, starting is
    idempotent by key, a backlog batch can be sent again later, the registry keeps a good
    configuration under every error it catches.
  \<^item> Endpoints: deactivated users stay out, the rate limit is exact, reports lose nothing and
    render inert text with every formula quoted, the compliance verdict is exact, dashboards are recent and add up.
  The witness beside each property applies it to concrete data on which its hypotheses hold.

  \<^bold>\<open>Termination and bounds.\<close> No definition needs fuel: loops are structural or have a measure (days
  up to the last representable date, the distance to the end of a list or text). The search for
  the shortest decimal of a float stops at 17 digits, which always identify a double. Bounds of
  the code appear as they are: 50 MB uploads, 50,000 exported rows and counters, 200 characters of
  a name, 4300 digits of an integer text, the width of a column where a write can fail on it.

  \<^bold>\<open>Parameters.\<close> The digest, random ids and keys, clock readings and durations, time zones, the
  similarity of RapidFuzz, the content a YAML, JSON schema or XML library reads, the decoding of
  uploaded bytes, the texts of floats and exceptions, the stored creation times of results and
  audit rows. A property that needs something of a parameter says so as a hypothesis.

  \<^bold>\<open>Not modelled.\<close> The web framework (routing, form patterns, response models), the ORM and the
  SQL engine beyond the statements' meaning, migrations, Redis beyond its failure, logging,
  locks (an operation is one step; concurrent runs interleave as \<open>office_step\<close>, the work of a
  run being one step), explanatory columns (field scores, weights version), column widths of
  the tables of matching, non-ASCII text but where escaping meets it, sample data, benchmarks
  and seeding commands. Each part left out is listed with its reason in the manifest.
\<close>

end
